(* ===== verification/Prelude.thy ===== *)
theory Prelude
  imports Main "HOL-Library.Word"
begin

text \<open>
  Shared vocabulary of the development: the fixed-width integers of the C and C++ sources, the
  result type used for fallible code, checked access to memory blocks, the little-endian
  byte codes used by the ZIP format, and the generic list lemmas that the component proofs use.
\<close>

unbundle bit_operations_syntax

section \<open>Machine types\<close>

type_synonym byte = "8 word"
type_synonym u16 = "16 word"
type_synonym u32 = "32 word"
type_synonym u64 = "64 word"

text \<open>Automation collections: \<open>mem_simps\<close> for checked memory, \<open>le_simps\<close> for the
  little-endian codes, \<open>io_simps\<close> for the stream model.\<close>

named_theorems mem_simps
named_theorems le_simps
named_theorems io_simps

lemma unat16_bound: "unat (w :: u16) < 65536"
  by (rule order_less_le_trans [OF unsigned_less]) simp

lemma unat32_bound: "unat (w :: u32) < 4294967296"
  by (rule order_less_le_trans [OF unsigned_less]) simp

lemma unat_minus_of_nat:
  assumes "n \<le> unat (w :: 'a::len word)"
  shows "unat (w - of_nat n) = unat w - n"
proof -
  have "n < 2 ^ LENGTH('a)" using assms by (rule le_less_trans) simp
  then have u: "unat (of_nat n :: 'a word) = n" by (simp add: unsigned_of_nat take_bit_nat_eq_self)
  with assms have "of_nat n \<le> w" by (simp add: word_le_nat_alt)
  with u show ?thesis by (simp add: unat_sub)
qed

lemma unat_plus_of_nat:
  assumes "unat (w :: 'a::len word) + n < 2 ^ LENGTH('a)"
  shows "unat (w + of_nat n) = unat w + n"
proof -
  have "unat (of_nat n :: 'a word) = n" using assms by (simp add: unsigned_of_nat take_bit_nat_eq_self)
  then show ?thesis using assms by (simp add: unat_word_ariths(1))
qed

text \<open>\<open>(int) j\<close> for a value of type \<open>size_t\<close> or \<open>ssize_t\<close>.\<close>

definition to_int :: "nat \<Rightarrow> int" where
  "to_int j = sint (of_nat j :: 32 word)"

lemma to_int_small: "j < 2 ^ 31 \<Longrightarrow> to_int j = int j"
  by (simp add: to_int_def signed_of_nat signed_take_bit_int_eq_self)

section \<open>Results\<close>

text \<open>
  A fallible operation of libzip returns \<open>-1\<close> (or \<open>NULL\<close>) after storing a pair of a
  libzip code and a system code in a \<open>struct zip_error\<close>; that outcome is \<open>Inl (ZE z s)\<close>.
  An access outside an allocated block, which C leaves undefined, is \<open>Inl UB\<close>: a theorem
  that excludes \<open>UB\<close> is a memory-safety theorem.
\<close>

datatype fault = ZE int int | UB

type_synonym 'a res = "fault + 'a"

definition bind_res :: "'a res \<Rightarrow> ('a \<Rightarrow> 'b res) \<Rightarrow> 'b res" where
  "bind_res r k = (case r of Inl e \<Rightarrow> Inl e | Inr x \<Rightarrow> k x)"

lemma bind_res_simps [simp]:
  "bind_res (Inl e) k = Inl e"
  "bind_res (Inr x) k = k x"
  by (simp_all add: bind_res_def)

lemma bind_res_Inr_iff:
  "bind_res r k = Inr y \<longleftrightarrow> (\<exists>x. r = Inr x \<and> k x = Inr y)"
  by (cases r) auto

lemma bind_res_Inl_iff:
  "bind_res r k = Inl e \<longleftrightarrow> r = Inl e \<or> (\<exists>x. r = Inr x \<and> k x = Inl e)"
  by (cases r) auto

lemma bind_res_assoc: "bind_res (bind_res r f) g = bind_res r (\<lambda>x. bind_res (f x) g)"
  by (cases r) auto

text \<open>The value of an access that may leave its block.\<close>

definition checked :: "'a option \<Rightarrow> 'a res" where
  "checked x = (case x of None \<Rightarrow> Inl UB | Some y \<Rightarrow> Inr y)"

lemma checked_simps [simp]: "checked None = Inl UB" "checked (Some y) = Inr y"
  by (simp_all add: checked_def)

lemma checked_Inr_iff: "checked x = Inr y \<longleftrightarrow> x = Some y"
  by (cases x) auto

section \<open>Memory blocks\<close>

text \<open>
  A block is the list of its bytes. \<open>mem_load b off n\<close> is \<open>memcpy(dst, b + off, n)\<close>
  read as a value, \<open>mem_store b off xs\<close> the block after \<open>memcpy(b + off, xs, n)\<close>;
  both are \<open>None\<close> when the access leaves the block.
\<close>

definition mem_load :: "'a list \<Rightarrow> nat \<Rightarrow> nat \<Rightarrow> 'a list option" where
  "mem_load b off n = (if off + n \<le> length b then Some (take n (drop off b)) else None)"

definition mem_store :: "'a list \<Rightarrow> nat \<Rightarrow> 'a list \<Rightarrow> 'a list option" where
  "mem_store b off xs = (if off + length xs \<le> length b
     then Some (take off b @ xs @ drop (off + length xs) b) else None)"

lemma mem_load_Some_iff [mem_simps]:
  "mem_load b off n = Some xs \<longleftrightarrow> off + n \<le> length b \<and> xs = take n (drop off b)"
  by (auto simp: mem_load_def)

lemma mem_load_None_iff [mem_simps]: "mem_load b off n = None \<longleftrightarrow> length b < off + n"
  by (auto simp: mem_load_def)

lemma mem_load_length: "mem_load b off n = Some xs \<Longrightarrow> length xs = n"
  by (auto simp: mem_load_def split: if_splits)

lemma mem_store_Some_iff [mem_simps]:
  "mem_store b off xs = Some b' \<longleftrightarrow>
     off + length xs \<le> length b \<and> b' = take off b @ xs @ drop (off + length xs) b"
  by (auto simp: mem_store_def)

lemma mem_store_length: "mem_store b off xs = Some b' \<Longrightarrow> length b' = length b"
  by (auto simp: mem_store_def split: if_splits)

lemma mem_load_store_same:
  assumes "mem_store b off xs = Some b'"
  shows "mem_load b' off (length xs) = Some xs"
  using assms by (auto simp: mem_simps)

lemma mem_load_store_before:
  assumes "mem_store b off xs = Some b'" and "i + n \<le> off"
  shows "mem_load b' i n = mem_load b i n"
proof -
  from assms(1) have len: "length b' = length b" by (rule mem_store_length)
  from assms(1) have b': "b' = take off b @ xs @ drop (off + length xs) b"
    and le: "off + length xs \<le> length b"
    by (auto simp: mem_simps)
  have "take n (drop i b') = take n (drop i (take off b))"
    using assms(2) le by (simp add: b' drop_take)
  also have "\<dots> = take n (drop i b)"
    using assms(2) by (simp add: drop_take min_absorb1)
  finally show ?thesis using len by (simp add: mem_load_def)
qed

section \<open>Little-endian codes\<close>

definition le16 :: "u16 \<Rightarrow> byte list" where
  "le16 i = [ucast (i AND 0xff), ucast (drop_bit 8 i AND 0xff)]"

definition le32 :: "u32 \<Rightarrow> byte list" where
  "le32 i = [ucast (i AND 0xff), ucast (drop_bit 8 i AND 0xff),
             ucast (drop_bit 16 i AND 0xff), ucast (drop_bit 24 i AND 0xff)]"

lemma length_le16 [simp]: "length (le16 i) = 2"
  by (simp add: le16_def)

lemma length_le32 [simp]: "length (le32 i) = 4"
  by (simp add: le32_def)

section \<open>Lists\<close>

lemma take_append_exact [simp]: "length xs = n \<Longrightarrow> take n (xs @ ys) = xs"
  by simp

lemma drop_append_exact [simp]: "length xs = n \<Longrightarrow> drop n (xs @ ys) = ys"
  by simp

lemma take_drop_chunk: "take (m + n) xs = take m xs @ take n (drop m xs)"
  by (simp add: take_add)

lemma take_take_drop: "take n (drop m (take (m + n) xs)) = take n (drop m xs)"
  by (simp add: drop_take)

section \<open>Interface: self-delimiting codes\<close>

text \<open>
  The interface between a writer and the reader of its output: decoding a code word returns
  the value and leaves what follows. The consequences used by the clients are proved once here: code
  words are uniquely decodable, and a concatenation of code words decodes entry by entry.
\<close>

fun decode_list :: "('b list \<Rightarrow> ('a \<times> 'b list) option) \<Rightarrow> nat \<Rightarrow> 'b list \<Rightarrow> ('a list \<times> 'b list) option" where
  "decode_list dec 0 bs = Some ([], bs)"
| "decode_list dec (Suc n) bs =
     (case dec bs of None \<Rightarrow> None
      | Some (x, r) \<Rightarrow> (case decode_list dec n r of None \<Rightarrow> None | Some (xs, r') \<Rightarrow> Some (x # xs, r')))"

locale codec =
  fixes enc :: "'a \<Rightarrow> 'b list"
    and dec :: "'b list \<Rightarrow> ('a \<times> 'b list) option"
    and ok :: "'a \<Rightarrow> bool"
  assumes dec_enc: "ok x \<Longrightarrow> dec (enc x @ r) = Some (x, r)"
begin

lemma enc_unique:
  assumes "ok x" "ok y" "enc x @ r = enc y @ s"
  shows "x = y \<and> r = s"
proof -
  have "Some (x, r) = dec (enc x @ r)" by (simp only: dec_enc [OF assms(1)])
  also have "\<dots> = Some (y, s)" by (simp only: assms(3) dec_enc [OF assms(2)])
  finally show ?thesis by simp
qed

lemma decode_list_concat:
  "\<forall>x \<in> set xs. ok x \<Longrightarrow> decode_list dec (length xs) (concat (map enc xs) @ r) = Some (xs, r)"
  by (induction xs) (simp_all add: dec_enc)

end

section \<open>Interface: three-way comparison\<close>

text \<open>
  The contract of a C-style comparison function \<open>cmp\<close> on the objects that satisfy \<open>ok\<close>, where two objects with
  the same \<open>key\<close> are interchangeable: zero means equal, the sign flips with the arguments, negative is
  transitive. From it: the derived relations are a linear order up to \<open>key\<close>, and testing \<open>cmp y x\<close> for
  the opposite strict sign is the weak, not the strict, comparison of \<open>x\<close> and \<open>y\<close>.
\<close>

locale three_way =
  fixes ok :: "'a \<Rightarrow> bool" and cmp :: "'a \<Rightarrow> 'a \<Rightarrow> int" and key :: "'a \<Rightarrow> 'k"
  assumes cmp_zero: "ok x \<Longrightarrow> ok y \<Longrightarrow> cmp x y = 0 \<longleftrightarrow> key x = key y"
    and cmp_flip: "ok x \<Longrightarrow> ok y \<Longrightarrow> cmp x y < 0 \<longleftrightarrow> 0 < cmp y x"
    and cmp_trans: "ok x \<Longrightarrow> ok y \<Longrightarrow> ok z \<Longrightarrow> cmp x y < 0 \<Longrightarrow> cmp y z < 0 \<Longrightarrow> cmp x z < 0"
begin

lemma cmp_not_less: "ok x \<Longrightarrow> ok y \<Longrightarrow> \<not> cmp y x < 0 \<longleftrightarrow> cmp x y < 0 \<or> key x = key y"
  using cmp_zero [of x y] cmp_flip [of x y] cmp_flip [of y x] by linarith

lemma cmp_antisym: "ok x \<Longrightarrow> ok y \<Longrightarrow> \<not> cmp y x < 0 \<Longrightarrow> \<not> cmp x y < 0 \<Longrightarrow> key x = key y"
  using cmp_not_less [of x y] by blast

lemma cmp_total: "ok x \<Longrightarrow> ok y \<Longrightarrow> \<not> cmp y x < 0 \<or> \<not> cmp x y < 0"
  using cmp_flip [of x y] by linarith

lemma cmp_irrefl: "ok x \<Longrightarrow> \<not> cmp x x < 0"
  using cmp_zero [of x x] by simp

end

end
