(* ===== verification/Stdio.thy ===== *)
theory Stdio
  imports Prelude
begin

text \<open>
  The part of the C standard library that libzip relies on: binary streams (\<open>FILE *\<close> with
  \<open>fread\<close>, \<open>fwrite\<close>, \<open>fseeko\<close>, \<open>ftello\<close>, \<open>ferror\<close>, \<open>clearerr\<close>), the broken-down
  calendar time of \<open>mktime\<close> and \<open>localtime\<close>, and the outcome of \<open>malloc\<close>.

  A stream holds its bytes, its position and its error indicator. Two device limits make the
  failure paths reachable: bytes at offsets from \<open>fgood\<close> on cannot be read (an I/O error), and
  bytes at offsets from \<open>fcap\<close> on cannot be written (a full device). \<open>ferrno\<close> is the value of
  \<open>errno\<close> that the last failing call left.
\<close>

section \<open>Streams\<close>

record cfile =
  fdata :: "byte list"
  fpos :: nat
  ferr :: bool
  fgood :: nat
  fcap :: nat
  ferrno :: int

definition EIO :: int where "EIO = 5"
definition EINVAL :: int where "EINVAL = 22"
definition ENOSPC :: int where "ENOSPC = 28"

definition clearerr :: "cfile \<Rightarrow> cfile" where
  "clearerr f = f\<lparr>ferr := False\<rparr>"

text \<open>\<open>fread(buf, 1, n, f)\<close>: the bytes delivered and the stream afterwards. Fewer than
  \<open>n\<close> bytes are delivered at the end of the file or at an unreadable byte; only the latter sets
  the error indicator.\<close>

definition fread :: "nat \<Rightarrow> cfile \<Rightarrow> byte list \<times> cfile" where
  "fread n f =
     (let here = drop (fpos f) (fdata f);
          k = min n (min (length here) (fgood f - fpos f));
          short_by_fault = (k < min n (length here))
      in (take k here,
          f\<lparr>fpos := fpos f + k,
            ferr := (ferr f \<or> short_by_fault),
            ferrno := (if short_by_fault then EIO else ferrno f)\<rparr>))"

text \<open>\<open>fwrite(bs, 1, n, f)\<close> at the current position: the number of bytes accepted and the stream.
  A gap left by seeking past the end is filled with zero bytes.\<close>

definition fwrite :: "byte list \<Rightarrow> cfile \<Rightarrow> nat \<times> cfile" where
  "fwrite bs f =
     (let k = min (length bs) (fcap f - fpos f);
          gap = replicate (fpos f - length (fdata f)) 0
      in (k, f\<lparr>fdata := (if k = 0 then fdata f
                        else take (fpos f) (fdata f) @ gap @ take k bs @ drop (fpos f + k) (fdata f)),
               fpos := fpos f + k,
               ferr := (ferr f \<or> k < length bs),
               ferrno := (if k < length bs then ENOSPC else ferrno f)\<rparr>))"

definition fput :: "byte list \<Rightarrow> cfile \<Rightarrow> cfile" where
  "fput bs f = snd (fwrite bs f)"

definition ftello :: "cfile \<Rightarrow> nat" where
  "ftello f = fpos f"

datatype whence = SEEK_SET | SEEK_CUR | SEEK_END

definition fseeko :: "cfile \<Rightarrow> int \<Rightarrow> whence \<Rightarrow> int \<times> cfile" where
  "fseeko f off w =
     (let target = (case w of SEEK_SET \<Rightarrow> off
                            | SEEK_CUR \<Rightarrow> int (fpos f) + off
                            | SEEK_END \<Rightarrow> int (length (fdata f)) + off)
      in if target < 0 then (-1, f\<lparr>ferrno := EINVAL\<rparr>) else (0, f\<lparr>fpos := nat target\<rparr>))"

section \<open>Laws of the stream model\<close>

lemma fread_healthy [io_simps]:
  assumes "length (fdata f) \<le> fgood f"
  shows "fread n f = (take n (drop (fpos f) (fdata f)),
           f\<lparr>fpos := fpos f + min n (length (fdata f) - fpos f)\<rparr>)"
  using assms by (cases f) (auto simp: fread_def Let_def min_def)

lemma fread_data [simp]: "fdata (snd (fread n f)) = fdata f"
  by (simp add: fread_def Let_def)

lemma fread_data_eq: "fread n f = (b, f') \<Longrightarrow> fdata f' = fdata f"
  using fread_data [of n f] by simp

lemma fread_good [simp]: "fgood (snd (fread n f)) = fgood f"
  by (simp add: fread_def Let_def)

lemma fread_length: "length (fst (fread n f)) \<le> n"
  by (simp add: fread_def Let_def)

lemma fread_pos: "fpos (snd (fread n f)) = fpos f + length (fst (fread n f))"
  by (simp add: fread_def Let_def)

lemma fread_fst_take:
  "fst (fread n f) = take (length (fst (fread n f))) (drop (fpos f) (fdata f))"
  by (simp add: fread_def Let_def)

lemma fput_Nil [simp]: "fput [] f = f"
  by (cases f) (simp add: fput_def fwrite_def Let_def)

lemma fput_ferr_mono: "ferr f \<Longrightarrow> ferr (fput bs f)"
  by (simp add: fput_def fwrite_def Let_def)

lemma fput_cap [simp]: "fcap (fput bs f) = fcap f"
  by (simp add: fput_def fwrite_def Let_def)

lemma fput_good [simp]: "fgood (fput bs f) = fgood f"
  by (simp add: fput_def fwrite_def Let_def)

text \<open>Where the device has room, writing at the end of a file appends, and clean streams stay clean.\<close>

definition at_end :: "cfile \<Rightarrow> bool" where
  "at_end f \<longleftrightarrow> fpos f = length (fdata f) \<and> \<not> ferr f"

lemma fput_at_end [io_simps]:
  assumes "at_end f" and "length (fdata f) + length bs \<le> fcap f"
  shows "fput bs f = f\<lparr>fdata := fdata f @ bs, fpos := fpos f + length bs\<rparr>"
proof (cases "bs = []")
  case True
  then show ?thesis by simp
next
  case False
  then show ?thesis
    using assms False by (cases f) (auto simp: fput_def fwrite_def Let_def at_end_def min_def)
qed

lemma at_end_fput:
  assumes "at_end f" and "length (fdata f) + length bs \<le> fcap f"
  shows "at_end (fput bs f)"
  using assms by (simp add: fput_at_end) (simp add: at_end_def)

text \<open>Two consecutive writes are one write of the concatenation, whatever the device does.\<close>


lemma fput_eq:
  "fput bs f = (let k = min (length bs) (fcap f - fpos f) in
     if k < length bs
     then f\<lparr>fdata := (if k = 0 then fdata f else take (fpos f) (fdata f)
                @ replicate (fpos f - length (fdata f)) 0 @ take k bs @ drop (fpos f + k) (fdata f)),
            fpos := fpos f + k, ferr := True, ferrno := ENOSPC\<rparr>
     else f\<lparr>fdata := (if k = 0 then fdata f else take (fpos f) (fdata f)
                @ replicate (fpos f - length (fdata f)) 0 @ bs @ drop (fpos f + k) (fdata f)),
            fpos := fpos f + k\<rparr>)"
  by (cases f) (auto simp: fput_def fwrite_def Let_def)

lemma fput_fits:
  "length bs \<le> fcap f - fpos f \<Longrightarrow> bs \<noteq> [] \<Longrightarrow> fput bs f =
     f\<lparr>fdata := take (fpos f) (fdata f) @ replicate (fpos f - length (fdata f)) 0 @ bs
            @ drop (fpos f + length bs) (fdata f), fpos := fpos f + length bs\<rparr>"
  by (simp add: fput_eq Let_def)

lemma fput_full:
  "fcap f - fpos f < length bs \<Longrightarrow> fput bs f =
     (let k = fcap f - fpos f in
      f\<lparr>fdata := (if k = 0 then fdata f else take (fpos f) (fdata f)
                @ replicate (fpos f - length (fdata f)) 0 @ take k bs @ drop (fpos f + k) (fdata f)),
            fpos := fpos f + k, ferr := True, ferrno := ENOSPC\<rparr>)"
  by (simp add: fput_eq Let_def)

lemma min_plus_diff: "(b::nat) - a + min b a = b"
  by simp

lemma fput_append: "fput ys (fput xs f) = fput (xs @ ys) f"
proof (cases "xs = [] \<or> ys = []")
  case True
  then show ?thesis by auto
next
  case False
  let ?room = "fcap f - fpos f"
  consider "length xs + length ys \<le> ?room" | "length xs \<le> ?room" "?room < length xs + length ys"
    | "?room < length xs" by linarith
  then show ?thesis
  proof cases
    case 1
    with False show ?thesis by (simp add: fput_fits min_plus_diff ac_simps)
  next
    case 2
    with False have "fpos f < fcap f" by (cases xs) auto
    with 2 False show ?thesis
      by (cases "fcap f = length xs + fpos f") (simp_all add: fput_fits fput_full Let_def min_plus_diff ac_simps)
  next
    case 3
    with False show ?thesis by (simp add: fput_full Let_def)
  qed
qed

section \<open>Calendar time\<close>

record tm =
  tm_sec :: int
  tm_min :: int
  tm_hour :: int
  tm_mday :: int
  tm_mon :: int
  tm_year :: int
  tm_isdst :: int

text \<open>
  The time-zone dependent part of the C library is a parameter of the definitions that use it.
  \<open>clock_agrees lib t\<close> is the documented relation of the two functions on a broken-down time \<open>t\<close>:
  \<open>localtime\<close> undoes \<open>mktime\<close>, up to the daylight-saving flag. \<open>malloc_ok lib ty n\<close> says whether
  the allocator grants a request for \<open>n\<close> objects of type \<open>ty\<close>.
\<close>

record clib =
  mktime :: "tm \<Rightarrow> int"
  localtime :: "int \<Rightarrow> tm"
  malloc_ok :: "string \<Rightarrow> nat \<Rightarrow> bool"

definition clock_agrees :: "clib \<Rightarrow> tm \<Rightarrow> bool" where
  "clock_agrees lib t \<longleftrightarrow> (localtime lib (mktime lib t))\<lparr>tm_isdst := tm_isdst t\<rparr> = t"

end
