(* ===== verification/Zip_Base.thy ===== *)
theory Zip_Base
  imports Stdio
begin

text \<open>
  libzip's error bookkeeping: the codes of \<open>zip.h\<close>, \<open>struct zip_error\<close> and its operations
  (\<open>zip_error.c\<close>, \<open>zip_err_str.c\<close>, \<open>zip_error_get_sys_type.c\<close>, \<open>zip_error_strerror.c\<close>), the flag
  constants, and \<open>_zip_memdup\<close>.
\<close>

section \<open>Constants of zip.h and zipint.h\<close>

abbreviation (input) ZIP_ER_OK :: int where "ZIP_ER_OK \<equiv> 0"
abbreviation (input) ZIP_ER_MULTIDISK :: int where "ZIP_ER_MULTIDISK \<equiv> 1"
abbreviation (input) ZIP_ER_RENAME :: int where "ZIP_ER_RENAME \<equiv> 2"
abbreviation (input) ZIP_ER_CLOSE :: int where "ZIP_ER_CLOSE \<equiv> 3"
abbreviation (input) ZIP_ER_SEEK :: int where "ZIP_ER_SEEK \<equiv> 4"
abbreviation (input) ZIP_ER_READ :: int where "ZIP_ER_READ \<equiv> 5"
abbreviation (input) ZIP_ER_WRITE :: int where "ZIP_ER_WRITE \<equiv> 6"
abbreviation (input) ZIP_ER_CRC :: int where "ZIP_ER_CRC \<equiv> 7"
abbreviation (input) ZIP_ER_ZIPCLOSED :: int where "ZIP_ER_ZIPCLOSED \<equiv> 8"
abbreviation (input) ZIP_ER_NOENT :: int where "ZIP_ER_NOENT \<equiv> 9"
abbreviation (input) ZIP_ER_EXISTS :: int where "ZIP_ER_EXISTS \<equiv> 10"
abbreviation (input) ZIP_ER_OPEN :: int where "ZIP_ER_OPEN \<equiv> 11"
abbreviation (input) ZIP_ER_TMPOPEN :: int where "ZIP_ER_TMPOPEN \<equiv> 12"
abbreviation (input) ZIP_ER_ZLIB :: int where "ZIP_ER_ZLIB \<equiv> 13"
abbreviation (input) ZIP_ER_MEMORY :: int where "ZIP_ER_MEMORY \<equiv> 14"
abbreviation (input) ZIP_ER_CHANGED :: int where "ZIP_ER_CHANGED \<equiv> 15"
abbreviation (input) ZIP_ER_COMPNOTSUPP :: int where "ZIP_ER_COMPNOTSUPP \<equiv> 16"
abbreviation (input) ZIP_ER_EOF :: int where "ZIP_ER_EOF \<equiv> 17"
abbreviation (input) ZIP_ER_INVAL :: int where "ZIP_ER_INVAL \<equiv> 18"
abbreviation (input) ZIP_ER_NOZIP :: int where "ZIP_ER_NOZIP \<equiv> 19"
abbreviation (input) ZIP_ER_INTERNAL :: int where "ZIP_ER_INTERNAL \<equiv> 20"
abbreviation (input) ZIP_ER_INCONS :: int where "ZIP_ER_INCONS \<equiv> 21"
abbreviation (input) ZIP_ER_REMOVE :: int where "ZIP_ER_REMOVE \<equiv> 22"
abbreviation (input) ZIP_ER_DELETED :: int where "ZIP_ER_DELETED \<equiv> 23"

abbreviation (input) ZIP_CREATE :: u32 where "ZIP_CREATE \<equiv> 1"
abbreviation (input) ZIP_EXCL :: u32 where "ZIP_EXCL \<equiv> 2"
abbreviation (input) ZIP_CHECKCONS :: u32 where "ZIP_CHECKCONS \<equiv> 4"

abbreviation (input) ZIP_FL_NOCASE :: u32 where "ZIP_FL_NOCASE \<equiv> 1"
abbreviation (input) ZIP_FL_NODIR :: u32 where "ZIP_FL_NODIR \<equiv> 2"
abbreviation (input) ZIP_FL_COMPRESSED :: u32 where "ZIP_FL_COMPRESSED \<equiv> 4"
abbreviation (input) ZIP_FL_UNCHANGED :: u32 where "ZIP_FL_UNCHANGED \<equiv> 8"
abbreviation (input) ZIP_FL_RECOMPRESS :: u32 where "ZIP_FL_RECOMPRESS \<equiv> 16"

abbreviation (input) ZIP_AFL_TORRENT :: u32 where "ZIP_AFL_TORRENT \<equiv> 1"

abbreviation (input) ZIP_CM_STORE :: u16 where "ZIP_CM_STORE \<equiv> 0"
abbreviation (input) ZIP_CM_DEFLATE :: u16 where "ZIP_CM_DEFLATE \<equiv> 8"

abbreviation (input) ZIP_GPBF_ENCRYPTED :: u16 where "ZIP_GPBF_ENCRYPTED \<equiv> 1"
abbreviation (input) ZIP_GPBF_DATA_DESCRIPTOR :: u16 where "ZIP_GPBF_DATA_DESCRIPTOR \<equiv> 8"
abbreviation (input) ZIP_GPBF_STRONG_ENCRYPTION :: u16 where "ZIP_GPBF_STRONG_ENCRYPTION \<equiv> 0x40"

abbreviation (input) CDENTRYSIZE :: nat where "CDENTRYSIZE \<equiv> 46"
abbreviation (input) LENTRYSIZE :: nat where "LENTRYSIZE \<equiv> 30"
abbreviation (input) MAXCOMLEN :: nat where "MAXCOMLEN \<equiv> 65536"
abbreviation (input) EOCDLEN :: nat where "EOCDLEN \<equiv> 22"
abbreviation (input) CDBUFSIZE :: nat where "CDBUFSIZE \<equiv> 65558"
abbreviation (input) BUFSIZE :: nat where "BUFSIZE \<equiv> 8192"

abbreviation (input) CENTRAL_MAGIC :: "byte list" where "CENTRAL_MAGIC \<equiv> [0x50, 0x4b, 1, 2]"
abbreviation (input) LOCAL_MAGIC :: "byte list" where "LOCAL_MAGIC \<equiv> [0x50, 0x4b, 3, 4]"
abbreviation (input) EOCD_MAGIC :: "byte list" where "EOCD_MAGIC \<equiv> [0x50, 0x4b, 5, 6]"

definition flag_set :: "'a::len word \<Rightarrow> 'a word \<Rightarrow> bool" where
  "flag_set w m \<longleftrightarrow> w AND m \<noteq> 0"

section \<open>struct zip_error\<close>

record zip_error =
  zip_err :: int
  sys_err :: int
  err_str :: "string option"

datatype zip_err_type = ZIP_ET_NONE | ZIP_ET_SYS | ZIP_ET_ZLIB

definition zip_err_str :: "string list" where
  "zip_err_str =
    [''No error'', ''Multi-disk zip archives not supported'', ''Renaming temporary file failed'',
     ''Closing zip archive failed'', ''Seek error'', ''Read error'', ''Write error'', ''CRC error'',
     ''Containing zip archive was closed'', ''No such file'', ''File already exists'',
     ''Can't open file'', ''Failure to create temporary file'', ''Zlib error'', ''Malloc failure'',
     ''Entry has been changed'', ''Compression method not supported'', ''Premature EOF'',
     ''Invalid argument'', ''Not a zip archive'', ''Internal error'', ''Zip archive inconsistent'',
     ''Can't remove file'', ''Entry has been deleted'']"

definition zip_err_type_tab :: "zip_err_type list" where
  "zip_err_type_tab =
    (let N = ZIP_ET_NONE; S = ZIP_ET_SYS; Z = ZIP_ET_ZLIB
     in [N, N, S, S, S, S, S, N, N, N, N, S, S, Z, N, N, N, N, N, N, N, N, S, N])"

definition zip_error_get_sys_type :: "int \<Rightarrow> zip_err_type" where
  "zip_error_get_sys_type ze =
     (if ze < 0 \<or> ze \<ge> int (length zip_err_str) then ZIP_ET_NONE else zip_err_type_tab ! nat ze)"

definition zip_error_clear :: "zip_error \<Rightarrow> zip_error" where
  "zip_error_clear err = err\<lparr>zip_err := ZIP_ER_OK, sys_err := 0\<rparr>"

definition zip_error_copy :: "zip_error \<Rightarrow> zip_error \<Rightarrow> zip_error" where
  "zip_error_copy dst src = dst\<lparr>zip_err := zip_err src, sys_err := sys_err src\<rparr>"

definition zip_error_fini :: "zip_error \<Rightarrow> zip_error" where
  "zip_error_fini err = err\<lparr>err_str := None\<rparr>"

definition zip_error_get :: "zip_error \<Rightarrow> int \<times> int" where
  "zip_error_get err =
     (zip_err err, if zip_error_get_sys_type (zip_err err) \<noteq> ZIP_ET_NONE then sys_err err else 0)"

definition zip_error_init :: zip_error where
  "zip_error_init = \<lparr>zip_err = ZIP_ER_OK, sys_err = 0, err_str = None\<rparr>"

definition zip_error_set :: "zip_error \<Rightarrow> int \<Rightarrow> int \<Rightarrow> zip_error" where
  "zip_error_set err ze se = err\<lparr>zip_err := ze, sys_err := se\<rparr>"

text \<open>\<open>%d\<close> of \<open>printf\<close>.\<close>

fun show_nat :: "nat \<Rightarrow> string" where
  "show_nat n = (if n < 10 then [char_of (48 + n)] else show_nat (n div 10) @ [char_of (48 + n mod 10)])"

declare show_nat.simps [simp del]

definition show_int :: "int \<Rightarrow> string" where
  "show_int i = (if i < 0 then ''-'' @ show_nat (nat (- i)) else show_nat (nat i))"

text \<open>\<open>_zip_error_strerror\<close>: the message and the error with its cached string. \<open>strerror\<close> and
  zlib's \<open>zError\<close> are parameters.\<close>

definition zip_error_strerror ::
  "clib \<Rightarrow> (int \<Rightarrow> string) \<Rightarrow> (int \<Rightarrow> string) \<Rightarrow> zip_error \<Rightarrow> string \<times> zip_error" where
  "zip_error_strerror lib strerror zError err0 =
     (let err = zip_error_fini err0;
          unknown = (zip_err err < 0 \<or> zip_err err \<ge> int (length zip_err_str));
          zs = (if unknown then None else Some (zip_err_str ! nat (zip_err err)));
          ss = (if unknown then Some (''Unknown error '' @ show_int (zip_err err))
                else case zip_err_type_tab ! nat (zip_err err) of
                    ZIP_ET_SYS \<Rightarrow> Some (strerror (sys_err err))
                  | ZIP_ET_ZLIB \<Rightarrow> Some (zError (sys_err err))
                  | ZIP_ET_NONE \<Rightarrow> None)
      in case ss of
           None \<Rightarrow> (case zs of Some z \<Rightarrow> (z, err) | None \<Rightarrow> ([], err))
         | Some s \<Rightarrow>
             if \<not> malloc_ok lib ''char'' (length s + (case zs of Some z \<Rightarrow> length z + 2 | None \<Rightarrow> 0) + 1)
             then (zip_err_str ! nat ZIP_ER_MEMORY, err)
             else let m = (case zs of Some z \<Rightarrow> z @ '': '' | None \<Rightarrow> []) @ s
                  in (m, err\<lparr>err_str := Some m\<rparr>))"

lemma zip_err_tables_agree: "length zip_err_type_tab = length zip_err_str"
  by (simp add: zip_err_type_tab_def zip_err_str_def Let_def)

text \<open>\<open>_zip_memdup\<close>: a copy of \<open>len\<close> bytes of a block.\<close>

definition zip_memdup :: "clib \<Rightarrow> byte list option \<Rightarrow> nat \<Rightarrow> byte list res" where
  "zip_memdup lib mem len =
     (if \<not> malloc_ok lib ''char'' len then Inl (ZE ZIP_ER_MEMORY 0)
      else case mem of None \<Rightarrow> if len = 0 then Inr [] else Inl UB
                     | Some m \<Rightarrow> checked (mem_load m 0 len))"

end
