(* ===== verification/Zip_Dirent.thy ===== *)
theory Zip_Dirent
  imports Zip_Base
begin

text \<open>
  Directory entries of a ZIP archive (\<open>zip_dirent.c\<close>): the little-endian codec, MS-DOS time
  stamps, reading an entry from a memory buffer or from a file, writing an entry, and the central
  directory record with its writer. The main results are that reading never leaves the given buffer,
  and that reading back what was written returns the entry.
\<close>

section \<open>Data\<close>

text \<open>\<open>struct zip_dirent\<close>. A \<open>char *\<close> is an optional block; \<open>zde_filename\<close> is a NUL-terminated
  string and is kept without its terminator.\<close>

record zip_dirent =
  zde_version_madeby :: u16
  zde_version_needed :: u16
  zde_bitflags :: u16
  zde_comp_method :: u16
  zde_last_mod :: int
  zde_crc :: u32
  zde_comp_size :: u32
  zde_uncomp_size :: u32
  zde_filename :: "byte list option"
  zde_filename_len :: u16
  zde_extrafield :: "byte list option"
  zde_extrafield_len :: u16
  zde_comment :: "byte list option"
  zde_comment_len :: u16
  zde_disk_number :: u16
  zde_int_attrib :: u16
  zde_ext_attrib :: u32
  zde_offset :: u32

text \<open>\<open>struct zip_cdir\<close>; \<open>nentry\<close> is the length of the entry array.\<close>

record zip_cdir =
  cd_entry :: "zip_dirent list"
  cd_size :: u32
  cd_offset :: u32
  cd_comment :: "byte list option"
  cd_comment_len :: u16

section \<open>Codec\<close>

fun zip_read2 :: "byte list \<Rightarrow> (u16 \<times> byte list) option" where
  "zip_read2 (a0 # a1 # a) = Some (ucast a0 + push_bit 8 (ucast a1), a)"
| "zip_read2 _ = None"

fun zip_read4 :: "byte list \<Rightarrow> (u32 \<times> byte list) option" where
  "zip_read4 (a0 # a1 # a2 # a3 # a) =
     Some (push_bit 8 (push_bit 8 (push_bit 8 (ucast a3) + ucast a2) + ucast a1) + ucast a0, a)"
| "zip_read4 _ = None"

definition zip_write2 :: "u16 \<Rightarrow> cfile \<Rightarrow> cfile" where
  "zip_write2 i fp = fput [ucast (drop_bit 8 i AND 0xff)] (fput [ucast (i AND 0xff)] fp)"

definition zip_write4 :: "u32 \<Rightarrow> cfile \<Rightarrow> cfile" where
  "zip_write4 i fp =
     fput [ucast (drop_bit 24 i AND 0xff)]
      (fput [ucast (drop_bit 16 i AND 0xff)]
        (fput [ucast (drop_bit 8 i AND 0xff)]
          (fput [ucast (i AND 0xff)] fp)))"

section \<open>MS-DOS time stamps\<close>

text \<open>The broken-down time that \<open>_zip_d2u_time\<close> hands to \<open>mktime\<close>.\<close>

definition dos_tm :: "u16 \<Rightarrow> u16 \<Rightarrow> tm" where
  "dos_tm dtime ddate =
     \<lparr>tm_sec = uint (push_bit 1 dtime AND 62),
      tm_min = uint (drop_bit 5 dtime AND 63),
      tm_hour = uint (drop_bit 11 dtime AND 31),
      tm_mday = uint (ddate AND 31),
      tm_mon = uint (drop_bit 5 ddate AND 15) - 1,
      tm_year = uint (drop_bit 9 ddate AND 127) + 1980 - 1900,
      tm_isdst = -1\<rparr>"

definition zip_d2u_time :: "clib \<Rightarrow> u16 \<Rightarrow> u16 \<Rightarrow> int" where
  "zip_d2u_time lib dtime ddate = mktime lib (dos_tm dtime ddate)"

definition zip_u2d_time :: "clib \<Rightarrow> int \<Rightarrow> u16 \<times> u16" where
  "zip_u2d_time lib time =
     (let t = localtime lib time
      in (word_of_int (tm_hour t * 2048 + tm_min t * 32 + tm_sec t div 2),
          word_of_int ((tm_year t + 1900 - 1980) * 512 + (tm_mon t + 1) * 32 + tm_mday t)))"

section \<open>Initialisation and release\<close>

definition zip_dirent_init :: zip_dirent where
  "zip_dirent_init =
     \<lparr>zde_version_madeby = 0, zde_version_needed = 20, zde_bitflags = 0, zde_comp_method = 0,
      zde_last_mod = 0, zde_crc = 0, zde_comp_size = 0, zde_uncomp_size = 0,
      zde_filename = None, zde_filename_len = 0, zde_extrafield = None, zde_extrafield_len = 0,
      zde_comment = None, zde_comment_len = 0, zde_disk_number = 0, zde_int_attrib = 0,
      zde_ext_attrib = 0, zde_offset = 0\<rparr>"

definition zip_dirent_finalize :: "zip_dirent \<Rightarrow> zip_dirent" where
  "zip_dirent_finalize zde = zde\<lparr>zde_filename := None, zde_extrafield := None, zde_comment := None\<rparr>"

definition torrent_tm :: tm where
  "torrent_tm = \<lparr>tm_sec = 0, tm_min = 32, tm_hour = 23, tm_mday = 24, tm_mon = 11, tm_year = 96,
                 tm_isdst = 0\<rparr>"

definition zip_dirent_torrent_normalize :: "clib \<Rightarrow> zip_dirent \<Rightarrow> zip_dirent" where
  "zip_dirent_torrent_normalize lib de =
     de\<lparr>zde_version_madeby := 0, zde_version_needed := 20, zde_bitflags := 2,
        zde_comp_method := ZIP_CM_DEFLATE, zde_last_mod := mktime lib torrent_tm,
        zde_disk_number := 0, zde_int_attrib := 0, zde_ext_attrib := 0, zde_offset := 0,
        zde_extrafield := None, zde_extrafield_len := 0,
        zde_comment := None, zde_comment_len := 0\<rparr>"

text \<open>\<open>_zip_cdir_new\<close>: the entries are uninitialised memory that the callers fill, here the
  initialised entry. \<open>_zip_cdir_grow\<close> likewise appends entries.\<close>

definition zip_cdir_new :: "clib \<Rightarrow> nat \<Rightarrow> zip_cdir res" where
  "zip_cdir_new lib nentry =
     (if \<not> malloc_ok lib ''zip_cdir'' 1 then Inl (ZE ZIP_ER_MEMORY 0)
      else if \<not> malloc_ok lib ''zip_dirent'' nentry then Inl (ZE ZIP_ER_MEMORY 0)
      else Inr \<lparr>cd_entry = replicate nentry zip_dirent_init, cd_size = 0, cd_offset = 0,
                cd_comment = None, cd_comment_len = 0\<rparr>)"

definition zip_cdir_grow :: "clib \<Rightarrow> zip_cdir \<Rightarrow> nat \<Rightarrow> zip_cdir res" where
  "zip_cdir_grow lib cd nentry =
     (if nentry < length (cd_entry cd) then Inl (ZE ZIP_ER_INTERNAL 0)
      else if \<not> malloc_ok lib ''zip_dirent'' nentry then Inl (ZE ZIP_ER_MEMORY 0)
      else Inr (cd\<lparr>cd_entry := cd_entry cd
                     @ replicate (nentry - length (cd_entry cd)) zip_dirent_init\<rparr>))"

section \<open>Reading an entry\<close>

definition nul_to_space :: "byte list \<Rightarrow> byte list" where
  "nul_to_space = map (\<lambda>c. if c = 0 then 32 else c)"

definition zip_readfpstr :: "clib \<Rightarrow> cfile \<Rightarrow> nat \<Rightarrow> bool \<Rightarrow> byte list res \<times> cfile" where
  "zip_readfpstr lib fp len nulp =
     (if \<not> malloc_ok lib ''char'' (if nulp then len + 1 else len)
      then (Inl (ZE ZIP_ER_MEMORY 0), fp)
      else let (r, fp) = fread len fp
           in if length r < len then (Inl (ZE ZIP_ER_READ (ferrno fp)), fp)
              else (Inr (if nulp then nul_to_space r else r), fp))"

definition zip_readstr :: "clib \<Rightarrow> byte list \<Rightarrow> nat \<Rightarrow> bool \<Rightarrow> (byte list \<times> byte list) res" where
  "zip_readstr lib buf len nulp =
     (if \<not> malloc_ok lib ''char'' (if nulp then len + 1 else len) then Inl (ZE ZIP_ER_MEMORY 0)
      else bind_res (checked (mem_load buf 0 len))
             (\<lambda>r. Inr (if nulp then nul_to_space r else r, drop len buf)))"

text \<open>The optional strings: a zero length leaves the pointer NULL and reads nothing.\<close>

definition opt_readstr ::
  "clib \<Rightarrow> byte list \<Rightarrow> u16 \<Rightarrow> bool \<Rightarrow> (byte list option \<times> byte list) res" where
  "opt_readstr lib cur len nulp =
     (if len = 0 then Inr (None, cur)
      else bind_res (zip_readstr lib cur (unat len) nulp) (\<lambda>(r, cur). Inr (Some r, cur)))"

definition opt_readfpstr ::
  "clib \<Rightarrow> cfile \<Rightarrow> u16 \<Rightarrow> bool \<Rightarrow> byte list option res \<times> cfile" where
  "opt_readfpstr lib fp len nulp =
     (if len = 0 then (Inr None, fp)
      else case zip_readfpstr lib fp (unat len) nulp of
             (Inl e, fp) \<Rightarrow> (Inl e, fp)
           | (Inr r, fp) \<Rightarrow> (Inr (Some r), fp))"

text \<open>The fixed part of an entry: the magic number and the numeric fields.\<close>

definition dirent_magic :: "bool \<Rightarrow> byte list" where
  "dirent_magic local = (if local then LOCAL_MAGIC else CENTRAL_MAGIC)"

definition dirent_fields :: "clib \<Rightarrow> bool \<Rightarrow> byte list \<Rightarrow> (zip_dirent \<times> byte list) res" where
  "dirent_fields lib local cur =
     bind_res (checked (mem_load cur 0 4)) (\<lambda>magic.
     if magic \<noteq> dirent_magic local then Inl (ZE ZIP_ER_NOZIP 0) else
     bind_res (if local then Inr (0, drop 4 cur) else checked (zip_read2 (drop 4 cur))) (\<lambda>(madeby, cur).
     bind_res (checked (zip_read2 cur)) (\<lambda>(needed, cur).
     bind_res (checked (zip_read2 cur)) (\<lambda>(bitflags, cur).
     bind_res (checked (zip_read2 cur)) (\<lambda>(comp_method, cur).
     bind_res (checked (zip_read2 cur)) (\<lambda>(dostime, cur).
     bind_res (checked (zip_read2 cur)) (\<lambda>(dosdate, cur).
     bind_res (checked (zip_read4 cur)) (\<lambda>(crc, cur).
     bind_res (checked (zip_read4 cur)) (\<lambda>(comp_size, cur).
     bind_res (checked (zip_read4 cur)) (\<lambda>(uncomp_size, cur).
     bind_res (checked (zip_read2 cur)) (\<lambda>(filename_len, cur).
     bind_res (checked (zip_read2 cur)) (\<lambda>(extrafield_len, cur).
     bind_res (if local then Inr (0, cur) else checked (zip_read2 cur)) (\<lambda>(comment_len, cur).
     bind_res (if local then Inr (0, cur) else checked (zip_read2 cur)) (\<lambda>(disk_number, cur).
     bind_res (if local then Inr (0, cur) else checked (zip_read2 cur)) (\<lambda>(int_attrib, cur).
     bind_res (if local then Inr (0, cur) else checked (zip_read4 cur)) (\<lambda>(ext_attrib, cur).
     bind_res (if local then Inr (0, cur) else checked (zip_read4 cur)) (\<lambda>(offset, cur).
     Inr (\<lparr>zde_version_madeby = madeby, zde_version_needed = needed, zde_bitflags = bitflags,
           zde_comp_method = comp_method, zde_last_mod = zip_d2u_time lib dostime dosdate,
           zde_crc = crc, zde_comp_size = comp_size, zde_uncomp_size = uncomp_size,
           zde_filename = None, zde_filename_len = filename_len,
           zde_extrafield = None, zde_extrafield_len = extrafield_len,
           zde_comment = None, zde_comment_len = comment_len, zde_disk_number = disk_number,
           zde_int_attrib = int_attrib, zde_ext_attrib = ext_attrib, zde_offset = offset\<rparr>, cur)
     )))))))))))))))))"

text \<open>The three strings, from the buffer or from the file.\<close>

definition dirent_strings_buf ::
  "clib \<Rightarrow> zip_dirent \<Rightarrow> byte list \<Rightarrow> (zip_dirent \<times> byte list) res" where
  "dirent_strings_buf lib zde cur =
     bind_res (opt_readstr lib cur (zde_filename_len zde) True) (\<lambda>(fname, cur).
     bind_res (opt_readstr lib cur (zde_extrafield_len zde) False) (\<lambda>(extra, cur).
     bind_res (opt_readstr lib cur (zde_comment_len zde) False) (\<lambda>(comm, cur).
     Inr (zde\<lparr>zde_filename := fname, zde_extrafield := extra, zde_comment := comm\<rparr>, cur))))"

definition dirent_strings_file ::
  "clib \<Rightarrow> zip_dirent \<Rightarrow> cfile \<Rightarrow> zip_dirent res \<times> cfile" where
  "dirent_strings_file lib zde fp =
     (case opt_readfpstr lib fp (zde_filename_len zde) True of
        (Inl e, fp) \<Rightarrow> (Inl e, fp)
      | (Inr fname, fp) \<Rightarrow>
     (case opt_readfpstr lib fp (zde_extrafield_len zde) False of
        (Inl e, fp) \<Rightarrow> (Inl e, fp)
      | (Inr extra, fp) \<Rightarrow>
     (case opt_readfpstr lib fp (zde_comment_len zde) False of
        (Inl e, fp) \<Rightarrow> (Inl e, fp)
      | (Inr comm, fp) \<Rightarrow>
          (Inr (zde\<lparr>zde_filename := fname, zde_extrafield := extra, zde_comment := comm\<rparr>), fp))))"

definition dirent_size :: "bool \<Rightarrow> zip_dirent \<Rightarrow> nat" where
  "dirent_size local zde = (if local then LENTRYSIZE else CDENTRYSIZE)
     + unat (zde_filename_len zde) + unat (zde_extrafield_len zde) + unat (zde_comment_len zde)"

definition left_short :: "nat option \<Rightarrow> nat \<Rightarrow> bool" where
  "left_short leftp n = (case leftp of None \<Rightarrow> False | Some l \<Rightarrow> l < n)"

text \<open>
  \<open>_zip_dirent_read\<close>. \<open>bufp\<close> is the rest of the buffer at \<open>*bufp\<close> when the pointer is not NULL, \<open>leftp\<close>
  the value of \<open>*leftp\<close>. The result holds the entry and the advanced \<open>*bufp\<close> and \<open>*leftp\<close>; the stream
  is returned on every path. All sizes stay below \<open>2 ^ 18\<close>, so the unsigned arithmetic of the source
  is exact and is written on \<open>nat\<close>.
\<close>

definition zip_dirent_read ::
  "clib \<Rightarrow> cfile \<Rightarrow> byte list option \<Rightarrow> nat option \<Rightarrow> bool \<Rightarrow>
   (zip_dirent \<times> byte list option \<times> nat option) res \<times> cfile" where
  "zip_dirent_read lib fp bufp leftp local =
     (let size = (if local then LENTRYSIZE else CDENTRYSIZE) in
      if left_short leftp size then (Inl (ZE ZIP_ER_NOZIP 0), fp)
      else case bufp of
        Some cur \<Rightarrow>
          (bind_res (dirent_fields lib local cur) (\<lambda>(zde, cur).
             if left_short leftp (dirent_size local zde) then Inl (ZE ZIP_ER_NOZIP 0)
             else bind_res (dirent_strings_buf lib zde cur) (\<lambda>(zde', cur).
               Inr (zde', Some cur, map_option (\<lambda>l. l - dirent_size local zde) leftp))), fp)
      | None \<Rightarrow>
          (let (buf, fp) = fread size fp in
           if length buf < size then (Inl (ZE ZIP_ER_READ (ferrno fp)), fp)
           else case dirent_fields lib local buf of
             Inl e \<Rightarrow> (Inl e, fp)
           | Inr (zde, _) \<Rightarrow>
               if left_short leftp (dirent_size local zde) then (Inl (ZE ZIP_ER_NOZIP 0), fp)
               else case dirent_strings_file lib zde fp of
                 (Inl e, fp) \<Rightarrow> (Inl e, fp)
               | (Inr zde', fp) \<Rightarrow>
                   (Inr (zde', None, map_option (\<lambda>l. l - dirent_size local zde) leftp), fp)))"

section \<open>Writing an entry\<close>

text \<open>\<open>fwrite(p, 1, n, fp)\<close> from a pointer: the block must hold \<open>n\<close> bytes.\<close>

definition fput_ptr :: "byte list option \<Rightarrow> nat \<Rightarrow> cfile \<Rightarrow> cfile res" where
  "fput_ptr p n fp =
     (if n = 0 then Inr fp
      else case p of None \<Rightarrow> Inl UB
                   | Some b \<Rightarrow> bind_res (checked (mem_load b 0 n)) (\<lambda>xs. Inr (fput xs fp)))"

definition dirent_write_head :: "clib \<Rightarrow> zip_dirent \<Rightarrow> cfile \<Rightarrow> bool \<Rightarrow> cfile" where
  "dirent_write_head lib zde fp localp =
     (let fp = fput (dirent_magic localp) fp;
          fp = (if localp then fp else zip_write2 (zde_version_madeby zde) fp);
          fp = zip_write2 (zde_version_needed zde) fp;
          fp = zip_write2 (zde_bitflags zde) fp;
          fp = zip_write2 (zde_comp_method zde) fp;
          (dostime, dosdate) = zip_u2d_time lib (zde_last_mod zde);
          fp = zip_write2 dostime fp;
          fp = zip_write2 dosdate fp;
          fp = zip_write4 (zde_crc zde) fp;
          fp = zip_write4 (zde_comp_size zde) fp;
          fp = zip_write4 (zde_uncomp_size zde) fp;
          fp = zip_write2 (zde_filename_len zde) fp;
          fp = zip_write2 (zde_extrafield_len zde) fp;
          fp = (if localp then fp
                else let fp = zip_write2 (zde_comment_len zde) fp;
                         fp = zip_write2 (zde_disk_number zde) fp;
                         fp = zip_write2 (zde_int_attrib zde) fp;
                         fp = zip_write4 (zde_ext_attrib zde) fp
                     in zip_write4 (zde_offset zde) fp)
      in fp)"

definition zip_dirent_write :: "clib \<Rightarrow> zip_dirent \<Rightarrow> cfile \<Rightarrow> bool \<Rightarrow> unit res \<times> cfile" where
  "zip_dirent_write lib zde fp localp =
     (let fp = dirent_write_head lib zde fp localp
      in case fput_ptr (zde_filename zde) (unat (zde_filename_len zde)) fp of
           Inl e \<Rightarrow> (Inl e, fp)
         | Inr fp \<Rightarrow>
         (case fput_ptr (zde_extrafield zde) (unat (zde_extrafield_len zde)) fp of
           Inl e \<Rightarrow> (Inl e, fp)
         | Inr fp \<Rightarrow>
         (case (if localp then Inr fp
                else fput_ptr (zde_comment zde) (unat (zde_comment_len zde)) fp) of
           Inl e \<Rightarrow> (Inl e, fp)
         | Inr fp \<Rightarrow>
             if ferr fp then (Inl (ZE ZIP_ER_WRITE (ferrno fp)), fp) else (Inr (), fp))))"

section \<open>Writing the central directory\<close>

fun cdir_write_entries :: "clib \<Rightarrow> zip_dirent list \<Rightarrow> cfile \<Rightarrow> unit res \<times> cfile" where
  "cdir_write_entries lib [] fp = (Inr (), fp)"
| "cdir_write_entries lib (e # es) fp =
     (case zip_dirent_write lib e fp False of
        (Inl err, fp) \<Rightarrow> (Inl err, fp)
      | (Inr _, fp) \<Rightarrow> cdir_write_entries lib es fp)"

definition zip_cdir_write :: "clib \<Rightarrow> zip_cdir \<Rightarrow> cfile \<Rightarrow> zip_cdir res \<times> cfile" where
  "zip_cdir_write lib cd fp =
     (let cd = cd\<lparr>cd_offset := of_nat (ftello fp)\<rparr> in
      case cdir_write_entries lib (cd_entry cd) fp of
        (Inl e, fp) \<Rightarrow> (Inl e, fp)
      | (Inr _, fp) \<Rightarrow>
        (let cd = cd\<lparr>cd_size := of_nat (ftello fp) - cd_offset cd\<rparr>;
             fp = fput EOCD_MAGIC fp;
             fp = zip_write4 0 fp;
             fp = zip_write2 (of_nat (length (cd_entry cd))) fp;
             fp = zip_write2 (of_nat (length (cd_entry cd))) fp;
             fp = zip_write4 (cd_size cd) fp;
             fp = zip_write4 (cd_offset cd) fp;
             fp = zip_write2 (cd_comment_len cd) fp
         in case fput_ptr (cd_comment cd) (unat (cd_comment_len cd)) fp of
              Inl e \<Rightarrow> (Inl e, fp)
            | Inr fp \<Rightarrow>
                if ferr fp then (Inl (ZE ZIP_ER_WRITE (ferrno fp)), fp) else (Inr cd, fp)))"

section \<open>The codec inverts\<close>

lemma ucast_and_ff:
  "ucast ((x::u16) AND 0xff) = (ucast x :: byte)"
  "ucast ((y::u32) AND 0xff) = (ucast y :: byte)"
proof -
  have "(x AND 0xff) = take_bit 8 x" by (simp add: take_bit_eq_mask mask_eq_exp_minus_1)
  then show "ucast (x AND 0xff) = (ucast x :: byte)"
    by (simp only:) (rule bit_word_eqI, simp add: bit_simps)
next
  have "(y AND 0xff) = take_bit 8 y" by (simp add: take_bit_eq_mask mask_eq_exp_minus_1)
  then show "ucast (y AND 0xff) = (ucast y :: byte)"
    by (simp only:) (rule bit_word_eqI, simp add: bit_simps)
qed

lemma ucast_byte_take_bit:
  "ucast (ucast (x::u16) :: byte) = take_bit 8 x"
  "ucast (ucast (y::u32) :: byte) = take_bit 8 y"
  by (rule bit_word_eqI, simp add: bit_simps)+

lemma take_bit_top:
  "take_bit 8 (drop_bit 8 (x::u16)) = drop_bit 8 x"
  "take_bit 8 (drop_bit 24 (y::u32)) = drop_bit 24 y"
  by (rule bit_word_eqI, auto simp: bit_simps dest: bit_imp_le_length)+

lemma zip_read2_le16 [le_simps]: "zip_read2 (le16 i @ r) = Some (i, r)"
  using bits_ident [of 8 i]
  by (simp add: le16_def ucast_and_ff ucast_byte_take_bit take_bit_top add.commute)

lemma zip_read4_le32 [le_simps]: "zip_read4 (le32 i @ r) = Some (i, r)"
proof -
  have join: "push_bit 8 (drop_bit (8 + k) i) + take_bit 8 (drop_bit k i) = drop_bit k i" for k
    using bits_ident [of 8 "drop_bit k i"] by (simp add: add.commute)
  from join [of 16] join [of 8] join [of 0] show ?thesis
    by (simp add: le32_def ucast_and_ff ucast_byte_take_bit take_bit_top)
qed

lemma zip_write2_fput [io_simps]: "zip_write2 i fp = fput (le16 i) fp"
  by (simp add: zip_write2_def le16_def fput_append)

lemma zip_write4_fput [io_simps]: "zip_write4 i fp = fput (le32 i) fp"
  by (simp add: zip_write4_def le32_def fput_append)

lemma zip_read2_None_iff: "zip_read2 a = None \<longleftrightarrow> length a < 2"
  by (cases a rule: zip_read2.cases) auto

lemma zip_read2_SomeD: "zip_read2 a = Some (v, r) \<Longrightarrow> r = drop 2 a \<and> 2 \<le> length a"
  by (cases a rule: zip_read2.cases) auto

lemma zip_read4_None_iff: "zip_read4 a = None \<longleftrightarrow> length a < 4"
  by (cases a rule: zip_read4.cases) auto

lemma zip_read4_SomeD: "zip_read4 a = Some (v, r) \<Longrightarrow> r = drop 4 a \<and> 4 \<le> length a"
  by (cases a rule: zip_read4.cases) auto

section \<open>Time stamps survive the conversion\<close>

lemma uint_field: "uint (drop_bit n (w::u16) AND mask k) = uint w div 2 ^ n mod 2 ^ k"
proof -
  have "unat (take_bit k (drop_bit n w)) = unat w div 2 ^ n mod 2 ^ k"
    by (simp only: unsigned_take_bit_eq unat_drop_bit_eq) (simp add: take_bit_eq_mod drop_bit_eq_div)
  then have "int (unat (take_bit k (drop_bit n w))) = int (unat w div 2 ^ n mod 2 ^ k)"
    by simp
  then show ?thesis
    by (simp add: zmod_int zdiv_int flip: take_bit_eq_mask)
qed

lemma masks16: "(31::u16) = mask 5" "(63::u16) = mask 6" "(15::u16) = mask 4" "(127::u16) = mask 7"
  by (simp_all add: mask_eq_exp_minus_1)

lemma pows: "(2::int) ^ 5 = 32" "(2::int) ^ 6 = 64" "(2::int) ^ 4 = 16" "(2::int) ^ 7 = 128"
    "(2::int) ^ 9 = 512" "(2::int) ^ 11 = 2048"
  by simp_all

lemma dos_fields:
  "uint ((w::u16) AND 31) = uint w mod 32"
  "uint (drop_bit 5 w AND 63) = uint w div 32 mod 64"
  "uint (drop_bit 5 w AND 15) = uint w div 32 mod 16"
  "uint (drop_bit 11 w AND 31) = uint w div 2048 mod 32"
  "uint (drop_bit 9 w AND 127) = uint w div 512 mod 128"
  using uint_field [of 0 w 5]
  by (simp_all only: masks16 uint_field pows drop_bit_0 id_apply power_0 div_by_1)

lemma dos_split:
  fixes x :: int
  assumes "0 \<le> x" "x < 32 * b * a" "0 < a" "0 < b"
  shows "x div (32 * b) mod a * (32 * b) + x div 32 mod b * 32 + x mod 32 = x"
proof -
  define q where "q = x div 32"
  have x: "x = q * 32 + x mod 32" by (simp add: q_def)
  have q: "q = q div b * b + q mod b" by simp
  have q0: "0 \<le> q div b" using assms by (simp add: q_def pos_imp_zdiv_nonneg_iff)
  have d: "x div (32 * b) = q div b" unfolding q_def using assms by (simp add: zdiv_zmult2_eq)
  have "x div (32 * b) < a"
  proof (rule ccontr)
    assume "\<not> ?thesis"
    then have "a * (32 * b) \<le> x div (32 * b) * (32 * b)" using assms by (intro mult_right_mono) auto
    also have "\<dots> \<le> x" using assms by (simp add: mult.commute minus_mod_eq_mult_div [symmetric])
    finally show False using assms by (simp add: algebra_simps)
  qed
  then have "x div (32 * b) mod a = q div b"
    using d q0 by simp
  then have "x div (32 * b) mod a * (32 * b) + x div 32 mod b * 32 + x mod 32
      = q div b * (32 * b) + q mod b * 32 + x mod 32"
    by (simp only: q_def)
  also have "\<dots> = (q div b * b + q mod b) * 32 + x mod 32"
    by algebra
  also have "\<dots> = x" using x q by simp
  finally show ?thesis .
qed

lemma dos_sec: "uint (push_bit 1 (w::u16) AND 62) = 2 * (uint w mod 32)"
proof -
  have "push_bit 1 w AND 62 = push_bit 1 w AND push_bit 1 31" by simp
  also have "\<dots> = push_bit 1 (w AND 31)" by (simp only: push_bit_and)
  finally have eq: "push_bit 1 w AND 62 = 2 * (w AND 31)" by (simp add: push_bit_eq_mult mult.commute)
  have "uint (w AND 31) < 32" using dos_fields(1) [of w] by simp
  then have "uint (2 * (w AND 31)) = 2 * uint (w AND 31)"
    by (simp add: uint_word_ariths)
  then show ?thesis unfolding eq by (simp add: dos_fields)
qed

lemma dos_time_parts:
  fixes w :: u16
  shows "uint w div 2048 mod 32 * 2048 + uint w div 32 mod 64 * 32 + 2 * (uint w mod 32) div 2 = uint w"
    and "uint w div 512 mod 128 * 512 + uint w div 32 mod 16 * 32 + uint w mod 32 = uint w"
proof -
  have b: "0 \<le> uint w" "uint w < 65536" using uint_lt2p [of w] by simp_all
  have n: "uint w < 32 * 64 * 32" "uint w < 32 * 16 * 128" "(0::int) < 32" "(0::int) < 64"
    "(0::int) < 16" "(0::int) < 128" "(32::int) * 64 = 2048" "(32::int) * 16 = 512" "(2::int) \<noteq> 0"
    using b by simp_all
  show "uint w div 2048 mod 32 * 2048 + uint w div 32 mod 64 * 32 + 2 * (uint w mod 32) div 2 = uint w"
    using dos_split [OF b(1) n(1,3,4)] by (simp only: n(7) nonzero_mult_div_cancel_left [OF n(9)])
  show "uint w div 512 mod 128 * 512 + uint w div 32 mod 16 * 32 + uint w mod 32 = uint w"
    using dos_split [OF b(1) n(2,6,5)] by (simp only: n(8))
qed

text \<open>Writing back the time stamp of an entry that was read stores the same 16-bit words.\<close>

lemma zip_u2d_d2u:
  assumes "clock_agrees lib (dos_tm dtime ddate)"
  shows "zip_u2d_time lib (zip_d2u_time lib dtime ddate) = (dtime, ddate)"
proof -
  let ?t = "localtime lib (zip_d2u_time lib dtime ddate)"
  from assms have t: "?t\<lparr>tm_isdst := -1\<rparr> = dos_tm dtime ddate"
    by (simp add: clock_agrees_def zip_d2u_time_def dos_tm_def)
  have "tm_sec ?t = tm_sec (dos_tm dtime ddate)" "tm_min ?t = tm_min (dos_tm dtime ddate)"
    "tm_hour ?t = tm_hour (dos_tm dtime ddate)" "tm_mday ?t = tm_mday (dos_tm dtime ddate)"
    "tm_mon ?t = tm_mon (dos_tm dtime ddate)" "tm_year ?t = tm_year (dos_tm dtime ddate)"
    by (simp_all flip: t)
  then have "tm_hour ?t * 2048 + tm_min ?t * 32 + tm_sec ?t div 2 = uint dtime"
    and "(tm_year ?t + 1900 - 1980) * 512 + (tm_mon ?t + 1) * 32 + tm_mday ?t = uint ddate"
    by (simp_all only: dos_tm_def tm.select_convs dos_fields(1) [of ddate] dos_fields(2-5) dos_sec dos_time_parts
        add_diff_cancel_right' diff_add_cancel add.commute [of _ "1980 - 1900"] diff_diff_eq2)
  then show ?thesis
    by (simp only: zip_u2d_time_def Let_def word_of_int_uint)
qed

interpretation u16_codec: codec le16 zip_read2 "\<lambda>_. True"
  by unfold_locales (simp add: le_simps)

interpretation u32_codec: codec le32 zip_read4 "\<lambda>_. True"
  by unfold_locales (simp add: le_simps)

section \<open>Serialised form of an entry\<close>

text \<open>
  The bytes an entry occupies, as one expression: the reference against which the sequence of writes
  of \<open>zip_dirent_write\<close> and the reader are compared.
\<close>

definition dirent_head :: "clib \<Rightarrow> zip_dirent \<Rightarrow> bool \<Rightarrow> byte list" where
  "dirent_head lib zde local =
     dirent_magic local
     @ (if local then [] else le16 (zde_version_madeby zde))
     @ le16 (zde_version_needed zde) @ le16 (zde_bitflags zde) @ le16 (zde_comp_method zde)
     @ le16 (fst (zip_u2d_time lib (zde_last_mod zde)))
     @ le16 (snd (zip_u2d_time lib (zde_last_mod zde)))
     @ le32 (zde_crc zde) @ le32 (zde_comp_size zde) @ le32 (zde_uncomp_size zde)
     @ le16 (zde_filename_len zde) @ le16 (zde_extrafield_len zde)
     @ (if local then []
        else le16 (zde_comment_len zde) @ le16 (zde_disk_number zde) @ le16 (zde_int_attrib zde)
           @ le32 (zde_ext_attrib zde) @ le32 (zde_offset zde))"

definition ptr_bytes :: "byte list option \<Rightarrow> nat \<Rightarrow> byte list" where
  "ptr_bytes p n = (case p of None \<Rightarrow> [] | Some b \<Rightarrow> take n b)"

definition dirent_bytes :: "clib \<Rightarrow> zip_dirent \<Rightarrow> bool \<Rightarrow> byte list" where
  "dirent_bytes lib zde local =
     dirent_head lib zde local
     @ ptr_bytes (zde_filename zde) (unat (zde_filename_len zde))
     @ ptr_bytes (zde_extrafield zde) (unat (zde_extrafield_len zde))
     @ (if local then [] else ptr_bytes (zde_comment zde) (unat (zde_comment_len zde)))"

text \<open>
  Well-formed entries: every string pointer is NULL exactly when its length is zero and otherwise
  points to a block of that length; a file name holds no NUL byte; the modification time is one that
  the 16-bit DOS words can represent.
\<close>

definition str_wf :: "bool \<Rightarrow> byte list option \<Rightarrow> u16 \<Rightarrow> bool" where
  "str_wf nulp p len \<longleftrightarrow>
     (case p of None \<Rightarrow> len = 0
      | Some b \<Rightarrow> len \<noteq> 0 \<and> length b = unat len \<and> (nulp \<longrightarrow> 0 \<notin> set b))"

definition stamp_ok :: "clib \<Rightarrow> int \<Rightarrow> bool" where
  "stamp_ok lib t \<longleftrightarrow> (case zip_u2d_time lib t of (dtime, ddate) \<Rightarrow> zip_d2u_time lib dtime ddate = t)"

definition dirent_wf :: "clib \<Rightarrow> zip_dirent \<Rightarrow> bool" where
  "dirent_wf lib zde \<longleftrightarrow>
     str_wf True (zde_filename zde) (zde_filename_len zde)
     \<and> str_wf False (zde_extrafield zde) (zde_extrafield_len zde)
     \<and> str_wf False (zde_comment zde) (zde_comment_len zde)
     \<and> stamp_ok lib (zde_last_mod zde)"

text \<open>What a local header keeps of an entry.\<close>

definition dirent_view :: "bool \<Rightarrow> zip_dirent \<Rightarrow> zip_dirent" where
  "dirent_view local zde =
     (if local then zde\<lparr>zde_version_madeby := 0, zde_comment := None, zde_comment_len := 0,
                       zde_disk_number := 0, zde_int_attrib := 0, zde_ext_attrib := 0, zde_offset := 0\<rparr>
      else zde)"

definition malloc_total :: "clib \<Rightarrow> bool" where
  "malloc_total lib \<longleftrightarrow> (\<forall>ty n. malloc_ok lib ty n)"

lemma str_wf_None [simp]: "str_wf nulp None len \<longleftrightarrow> len = 0"
  by (simp add: str_wf_def)

lemma dirent_wf_view: "dirent_wf lib zde \<Longrightarrow> dirent_wf lib (dirent_view local zde)"
  by (simp add: dirent_wf_def dirent_view_def)

lemma stamp_ok_d2u: "clock_agrees lib (dos_tm dtime ddate) \<Longrightarrow> stamp_ok lib (zip_d2u_time lib dtime ddate)"
  by (simp add: stamp_ok_def zip_u2d_d2u)

lemma ptr_bytes_None [simp]: "ptr_bytes None n = []"
  by (simp add: ptr_bytes_def)

lemma ptr_bytes_wf: "str_wf nulp p len \<Longrightarrow> ptr_bytes p (unat len) = (case p of None \<Rightarrow> [] | Some b \<Rightarrow> b)"
  by (auto simp: ptr_bytes_def str_wf_def split: option.splits)

lemma length_ptr_bytes: "str_wf nulp p len \<Longrightarrow> length (ptr_bytes p (unat len)) = unat len"
  by (auto simp: ptr_bytes_def str_wf_def split: option.splits)

lemma length_dirent_head [simp]:
  "length (dirent_head lib zde local) = (if local then LENTRYSIZE else CDENTRYSIZE)"
  by (simp add: dirent_head_def dirent_magic_def)

lemma length_dirent_bytes:
  "dirent_wf lib zde \<Longrightarrow> length (dirent_bytes lib zde local) = dirent_size local (dirent_view local zde)"
  by (simp add: dirent_bytes_def dirent_size_def dirent_view_def dirent_wf_def
      length_ptr_bytes [of True] length_ptr_bytes [of False])

section \<open>The writer produces the serialised form\<close>

lemma fput_ptr_wf: "str_wf nulp p len \<Longrightarrow> fput_ptr p (unat len) fp = Inr (fput (ptr_bytes p (unat len)) fp)"
  by (auto simp: fput_ptr_def ptr_bytes_def str_wf_def mem_load_def unat_eq_0 split: option.splits)

lemma dirent_write_head_bytes: "dirent_write_head lib zde fp localp = fput (dirent_head lib zde localp) fp"
  by (cases localp; cases "zip_u2d_time lib (zde_last_mod zde)")
    (simp_all add: dirent_write_head_def dirent_head_def Let_def io_simps fput_append)

lemma zip_dirent_write_bytes:
  assumes "dirent_wf lib zde"
  shows "zip_dirent_write lib zde fp localp =
    (let fp' = fput (dirent_bytes lib zde localp) fp
     in (if ferr fp' then Inl (ZE ZIP_ER_WRITE (ferrno fp')) else Inr (), fp'))"
  using assms
  by (cases localp) (simp_all add: zip_dirent_write_def dirent_wf_def Let_def dirent_write_head_bytes
      fput_ptr_wf [of True] fput_ptr_wf [of False] fput_append dirent_bytes_def)

section \<open>The reader inverts the writer\<close>

definition dirent_bare :: "zip_dirent \<Rightarrow> zip_dirent" where
  "dirent_bare zde = zde\<lparr>zde_filename := None, zde_extrafield := None, zde_comment := None\<rparr>"

lemma dirent_fields_head:
  assumes "stamp_ok lib (zde_last_mod zde)"
  shows "dirent_fields lib local (dirent_head lib zde local @ r)
           = Inr (dirent_bare (dirent_view local zde), r)"
  using assms
  by (cases local; cases zde)
    (simp_all add: dirent_fields_def dirent_head_def dirent_magic_def mem_load_def le_simps
      stamp_ok_def dirent_bare_def dirent_view_def split: prod.splits)

lemma nul_to_space_id: "0 \<notin> set b \<Longrightarrow> nul_to_space b = b"
  by (auto simp: nul_to_space_def intro!: map_idI)

lemma length_nul_to_space [simp]: "length (nul_to_space b) = length b"
  by (simp add: nul_to_space_def)

lemma nul_free: "0 \<notin> set (nul_to_space b)"
  by (auto simp: nul_to_space_def)

lemma opt_readstr_wf:
  assumes "str_wf nulp p len" and "malloc_total lib"
  shows "opt_readstr lib (ptr_bytes p (unat len) @ r) len nulp = Inr (p, r)"
  using assms
  by (auto simp: opt_readstr_def zip_readstr_def str_wf_def ptr_bytes_def mem_load_def
      malloc_total_def nul_to_space_id split: option.splits)

lemma dirent_strings_wf:
  assumes "dirent_wf lib zde" and "malloc_total lib"
  shows "dirent_strings_buf lib (dirent_bare zde)
           (ptr_bytes (zde_filename zde) (unat (zde_filename_len zde))
            @ ptr_bytes (zde_extrafield zde) (unat (zde_extrafield_len zde))
            @ ptr_bytes (zde_comment zde) (unat (zde_comment_len zde)) @ r) = Inr (zde, r)"
  using assms
  by (simp add: dirent_strings_buf_def dirent_bare_def dirent_wf_def opt_readstr_wf)

lemma zip_dirent_read_buf:
  assumes "dirent_wf lib zde" and "malloc_total lib"
    and "\<not> left_short leftp (dirent_size local (dirent_view local zde))"
  shows "zip_dirent_read lib fp (Some (dirent_bytes lib zde local @ r)) leftp local =
    (Inr (dirent_view local zde, Some r,
          map_option (\<lambda>l. l - dirent_size local (dirent_view local zde)) leftp), fp)"
proof -
  let ?v = "dirent_view local zde"
  have size: "dirent_size local (dirent_bare ?v) = dirent_size local ?v"
    by (simp add: dirent_size_def dirent_bare_def)
  have ge: "\<not> left_short leftp (if local then LENTRYSIZE else CDENTRYSIZE)"
    using assms(3) by (auto simp: left_short_def dirent_size_def split: option.splits if_splits)
  have stamp: "stamp_ok lib (zde_last_mod zde)" using assms(1) by (simp add: dirent_wf_def)
  have tail: "dirent_bytes lib zde local @ r = dirent_head lib zde local
      @ ptr_bytes (zde_filename ?v) (unat (zde_filename_len ?v))
      @ ptr_bytes (zde_extrafield ?v) (unat (zde_extrafield_len ?v))
      @ ptr_bytes (zde_comment ?v) (unat (zde_comment_len ?v)) @ r"
    by (simp add: dirent_bytes_def dirent_view_def)
  show ?thesis
    using assms(3) ge
    by (simp add: zip_dirent_read_def tail dirent_fields_head [OF stamp] size
        dirent_strings_wf [OF dirent_wf_view [OF assms(1)] assms(2)])
qed

text \<open>The same for the file path: \<open>fread\<close> delivers the bytes that the stream holds at its position.\<close>

definition stream_holds :: "cfile \<Rightarrow> byte list \<Rightarrow> bool" where
  "stream_holds fp bs \<longleftrightarrow>
     length (fdata fp) \<le> fgood fp \<and> (\<exists>rest. drop (fpos fp) (fdata fp) = bs @ rest)"

definition advance :: "nat \<Rightarrow> cfile \<Rightarrow> cfile" where
  "advance n fp = fp\<lparr>fpos := fpos fp + n\<rparr>"

lemma advance_0 [simp]: "advance 0 fp = fp"
  by (simp add: advance_def)

lemma advance_advance [simp]: "advance m (advance n fp) = advance (n + m) fp"
  by (simp add: advance_def add.assoc)

lemma fread_holds:
  assumes "stream_holds fp (bs @ cs)"
  shows "fread (length bs) fp = (bs, advance (length bs) fp)" and "stream_holds (advance (length bs) fp) cs"
proof -
  from assms obtain rest where d: "drop (fpos fp) (fdata fp) = bs @ cs @ rest"
    and g: "length (fdata fp) \<le> fgood fp" by (auto simp: stream_holds_def)
  then have "length (drop (fpos fp) (fdata fp)) = length bs + length cs + length rest" by simp
  then have "length bs \<le> length (fdata fp) - fpos fp" by simp
  then show "fread (length bs) fp = (bs, advance (length bs) fp)"
    by (simp add: fread_healthy [OF g] d advance_def)
  have "drop (fpos fp + length bs) (fdata fp) = drop (length bs) (drop (fpos fp) (fdata fp))"
    by (simp add: add.commute)
  then show "stream_holds (advance (length bs) fp) cs"
    using g by (simp add: stream_holds_def advance_def d)
qed

lemma opt_readfpstr_wf:
  assumes "str_wf nulp p len" and "malloc_total lib" and "stream_holds fp (ptr_bytes p (unat len) @ cs)"
  shows "opt_readfpstr lib fp len nulp = (Inr p, advance (unat len) fp)"
    and "stream_holds (advance (unat len) fp) cs"
proof -
  have l: "length (ptr_bytes p (unat len)) = unat len" using assms(1) by (rule length_ptr_bytes)
  note r = fread_holds [OF assms(3), unfolded l]
  show "stream_holds (advance (unat len) fp) cs" by (rule r(2))
  show "opt_readfpstr lib fp len nulp = (Inr p, advance (unat len) fp)"
    using assms(1,2) r(1) l
    by (cases p) (auto simp: opt_readfpstr_def zip_readfpstr_def str_wf_def ptr_bytes_def
        malloc_total_def nul_to_space_id)
qed

lemma zip_dirent_read_file:
  assumes "dirent_wf lib zde" and "malloc_total lib"
    and "stream_holds fp (dirent_bytes lib zde local @ cs)"
    and "\<not> left_short leftp (dirent_size local (dirent_view local zde))"
  shows "zip_dirent_read lib fp None leftp local =
    (Inr (dirent_view local zde, None,
          map_option (\<lambda>l. l - dirent_size local (dirent_view local zde)) leftp),
     advance (dirent_size local (dirent_view local zde)) fp)"
proof -
  let ?v = "dirent_view local zde"
  have stamp: "stamp_ok lib (zde_last_mod zde)" using assms(1) by (simp add: dirent_wf_def)
  have wf: "str_wf True (zde_filename ?v) (zde_filename_len ?v)"
    "str_wf False (zde_extrafield ?v) (zde_extrafield_len ?v)"
    "str_wf False (zde_comment ?v) (zde_comment_len ?v)"
    using dirent_wf_view [OF assms(1), of local] by (simp_all add: dirent_wf_def)
  have tail: "dirent_bytes lib zde local @ cs = dirent_head lib zde local
      @ ptr_bytes (zde_filename ?v) (unat (zde_filename_len ?v))
      @ ptr_bytes (zde_extrafield ?v) (unat (zde_extrafield_len ?v))
      @ ptr_bytes (zde_comment ?v) (unat (zde_comment_len ?v)) @ cs"
    by (simp add: dirent_bytes_def dirent_view_def)
  note head = fread_holds [OF assms(3) [unfolded tail], unfolded length_dirent_head]
  note name = opt_readfpstr_wf [OF wf(1) assms(2) head(2)]
  note extra = opt_readfpstr_wf [OF wf(2) assms(2) name(2)]
  note comm = opt_readfpstr_wf [OF wf(3) assms(2) extra(2)]
  have strs: "dirent_strings_file lib (dirent_bare ?v) (advance (if local then LENTRYSIZE else CDENTRYSIZE) fp)
      = (Inr ?v, advance (dirent_size local ?v) fp)"
    using name(1) extra(1) comm(1)
    by (simp add: dirent_strings_file_def dirent_bare_def dirent_size_def add.assoc)
  have size: "dirent_size local (dirent_bare ?v) = dirent_size local ?v"
    by (simp add: dirent_size_def dirent_bare_def)
  have ge: "\<not> left_short leftp (if local then LENTRYSIZE else CDENTRYSIZE)"
    using assms(4) by (auto simp: left_short_def dirent_size_def split: option.splits if_splits)
  show ?thesis
    using dirent_fields_head [OF stamp, of local "[]"] strs assms(4) ge
    by (simp add: zip_dirent_read_def head(1) Let_def size)
qed

section \<open>Reading stays inside the buffer\<close>

definition rd2 :: "byte list \<Rightarrow> u16" where "rd2 a = fst (the (zip_read2 a))"
definition rd4 :: "byte list \<Rightarrow> u32" where "rd4 a = fst (the (zip_read4 a))"

lemma zip_read2_enough: "2 \<le> length a \<Longrightarrow> zip_read2 a = Some (rd2 a, drop 2 a)"
  by (cases a rule: zip_read2.cases) (auto simp: rd2_def)

lemma zip_read4_enough: "4 \<le> length a \<Longrightarrow> zip_read4 a = Some (rd4 a, drop 4 a)"
  by (cases a rule: zip_read4.cases) (auto simp: rd4_def)

lemma dirent_fields_cases:
  assumes "(if local then LENTRYSIZE else CDENTRYSIZE) \<le> length cur"
  obtains "dirent_fields lib local cur = Inl (ZE ZIP_ER_NOZIP 0)"
  | zde where "dirent_fields lib local cur
        = Inr (zde, drop (if local then LENTRYSIZE else CDENTRYSIZE) cur)"
      "zde_filename zde = None" "zde_extrafield zde = None" "zde_comment zde = None"
      "local \<Longrightarrow> zde_comment_len zde = 0"
proof (cases "take 4 cur = dirent_magic local")
  case False
  with assms have "dirent_fields lib local cur = Inl (ZE ZIP_ER_NOZIP 0)"
    by (cases local) (auto simp: dirent_fields_def mem_load_def)
  then show thesis by (rule that(1))
next
  case True
  show thesis
  proof (cases local)
    case True
    with \<open>take 4 cur = dirent_magic local\<close> assms show thesis
      by (intro that(2)) (auto simp: dirent_fields_def mem_load_def zip_read2_enough zip_read4_enough)
  next
    case False
    with \<open>take 4 cur = dirent_magic local\<close> assms show thesis
      by (intro that(2)) (auto simp: dirent_fields_def mem_load_def zip_read2_enough zip_read4_enough)
  qed
qed

lemma opt_readstr_cases:
  assumes "unat len \<le> length cur"
  obtains "opt_readstr lib cur len nulp = Inl (ZE ZIP_ER_MEMORY 0)"
  | p where "opt_readstr lib cur len nulp = Inr (p, drop (unat len) cur)" "str_wf nulp p len"
proof (cases "len = 0")
  case True
  then have "opt_readstr lib cur len nulp = Inr (None, drop (unat len) cur)"
    by (simp add: opt_readstr_def)
  then show thesis using True by (intro that(2) [of None]) simp_all
next
  case False
  show thesis
  proof (cases "malloc_ok lib ''char'' (if nulp then unat len + 1 else unat len)")
    case False
    then have "opt_readstr lib cur len nulp = Inl (ZE ZIP_ER_MEMORY 0)"
      using \<open>len \<noteq> 0\<close> by (simp add: opt_readstr_def zip_readstr_def)
    then show thesis by (rule that(1))
  next
    case True
    let ?r = "take (unat len) cur"
    have "opt_readstr lib cur len nulp
        = Inr (Some (if nulp then nul_to_space ?r else ?r), drop (unat len) cur)"
      using True False assms by (simp add: opt_readstr_def zip_readstr_def mem_load_def)
    then show thesis
      using False assms nul_free [of ?r]
      by (intro that(2) [of "Some (if nulp then nul_to_space ?r else ?r)"]) (simp_all add: str_wf_def)
  qed
qed

lemma dirent_strings_buf_cases:
  assumes "unat (zde_filename_len zde) + unat (zde_extrafield_len zde) + unat (zde_comment_len zde)
            \<le> length cur"
  obtains "dirent_strings_buf lib zde cur = Inl (ZE ZIP_ER_MEMORY 0)"
  | zde' where "dirent_strings_buf lib zde cur = Inr (zde', drop (unat (zde_filename_len zde)
        + unat (zde_extrafield_len zde) + unat (zde_comment_len zde)) cur)"
      "str_wf True (zde_filename zde') (zde_filename_len zde')"
      "str_wf False (zde_extrafield zde') (zde_extrafield_len zde')"
      "str_wf False (zde_comment zde') (zde_comment_len zde')"
      "dirent_bare zde' = dirent_bare zde"
proof -
  note split = dirent_strings_buf_def
  have "unat (zde_filename_len zde) \<le> length cur" using assms by simp
  then show thesis
  proof (cases rule: opt_readstr_cases [where lib = lib and nulp = True])
    case 1
    then show thesis by (intro that(1)) (simp add: split)
  next
    case (2 f)
    note f = 2
    have "unat (zde_extrafield_len zde) \<le> length (drop (unat (zde_filename_len zde)) cur)"
      using assms by simp
    then show thesis
    proof (cases rule: opt_readstr_cases [where lib = lib and nulp = False])
      case 1
      then show thesis using f by (intro that(1)) (simp add: split)
    next
      case (2 x)
      note x = 2
      have "unat (zde_comment_len zde)
          \<le> length (drop (unat (zde_extrafield_len zde)) (drop (unat (zde_filename_len zde)) cur))"
        using assms by simp
      then show thesis
      proof (cases rule: opt_readstr_cases [where lib = lib and nulp = False])
        case 1
        then show thesis using f x by (intro that(1)) (simp add: split)
      next
        case (2 c)
        with f x show thesis
          by (intro that(2) [of "zde\<lparr>zde_filename := f, zde_extrafield := x, zde_comment := c\<rparr>"])
            (simp_all add: split dirent_bare_def ac_simps)
      qed
    qed
  qed
qed

lemma zip_dirent_read_buf_cases:
  assumes "left \<le> length cur"
  obtains e where "fst (zip_dirent_read lib fp (Some cur) (Some left) local) = Inl (ZE e 0)"
  | zde where "fst (zip_dirent_read lib fp (Some cur) (Some left) local)
        = Inr (zde, Some (drop (dirent_size local zde) cur), Some (left - dirent_size local zde))"
      "dirent_size local zde \<le> left"
      "str_wf True (zde_filename zde) (zde_filename_len zde)"
      "str_wf False (zde_extrafield zde) (zde_extrafield_len zde)"
      "str_wf False (zde_comment zde) (zde_comment_len zde)"
proof -
  let ?n = "if local then LENTRYSIZE else CDENTRYSIZE"
  note rd = zip_dirent_read_def left_short_def
  show thesis
  proof (cases "left < ?n")
    case True
    then show thesis by (intro that(1)) (simp add: rd split: if_splits)
  next
    case False
    then have "?n \<le> length cur" using assms by simp
    then show thesis
    proof (cases rule: dirent_fields_cases [where lib = lib and local = local])
      case 1
      then show thesis using False by (intro that(1)) (simp add: rd split: if_splits)
    next
      case (2 zde)
      note h = 2
      show thesis
      proof (cases "left < dirent_size local zde")
        case True
        then show thesis using False h by (intro that(1)) (simp add: rd split: if_splits)
      next
        case fits: False
        then have "unat (zde_filename_len zde) + unat (zde_extrafield_len zde)
            + unat (zde_comment_len zde) \<le> length (drop ?n cur)"
          using assms by (simp add: dirent_size_def split: if_splits)
        then show thesis
        proof (cases rule: dirent_strings_buf_cases [where lib = lib])
          case 1
          then show thesis using False fits h by (intro that(1)) (simp add: rd split: if_splits)
        next
          case (2 zde')
          have "dirent_size local zde' = dirent_size local zde"
            using arg_cong [OF 2(5), of "dirent_size local"] by (simp add: dirent_size_def dirent_bare_def)
          moreover have "drop (unat (zde_filename_len zde) + unat (zde_extrafield_len zde)
              + unat (zde_comment_len zde)) (drop ?n cur) = drop (dirent_size local zde) cur"
            by (simp add: dirent_size_def ac_simps)
          ultimately show thesis
            using 2(1) False fits h(1)
            by (intro that(2) [of zde'] 2(2-4)) (simp_all add: rd Let_def)
        qed
      qed
    qed
  qed
qed

section \<open>Properties\<close>

text \<open>A concrete C library for the witnesses: a calendar without daylight saving that counts with
  the radices 12, 32, 24, 60 and 60, and an allocator that never fails.\<close>

definition sample_lib :: clib where
  "sample_lib =
     \<lparr>mktime = (\<lambda>t. ((((tm_year t * 12 + tm_mon t) * 32 + tm_mday t) * 24 + tm_hour t) * 60
                     + tm_min t) * 60 + tm_sec t),
      localtime = (\<lambda>n. \<lparr>tm_sec = n mod 60, tm_min = n div 60 mod 60, tm_hour = n div 3600 mod 24,
                        tm_mday = n div 86400 mod 32, tm_mon = n div 2764800 mod 12,
                        tm_year = n div 33177600, tm_isdst = 0\<rparr>),
      malloc_ok = (\<lambda>_ _. True)\<rparr>"

definition sample_file :: cfile where
  "sample_file = \<lparr>fdata = [1, 2, 3], fpos = 3, ferr = False, fgood = 1000, fcap = 1000, ferrno = 0\<rparr>"

definition sample_dirent :: zip_dirent where
  "sample_dirent = zip_dirent_init
     \<lparr>zde_last_mod := mktime sample_lib torrent_tm, zde_crc := 0xdeadbeef, zde_comp_size := 5,
      zde_filename := Some [0x61, 0x62], zde_filename_len := 2, zde_offset := 77\<rparr>"

lemma malloc_total_sample: "malloc_total sample_lib"
  by (simp add: malloc_total_def sample_lib_def)

lemma sample_dirent_wf: "dirent_wf sample_lib sample_dirent"
  by (simp add: dirent_wf_def sample_dirent_def str_wf_def zip_dirent_init_def stamp_ok_def
      sample_lib_def torrent_tm_def zip_u2d_time_def zip_d2u_time_def dos_tm_def)

text \<open>Converting an MS-DOS date and time to Unix time and back yields the same two 16-bit words,
  wherever \<open>localtime\<close> undoes \<open>mktime\<close>: rewriting an archive does not drift its time stamps.\<close>

theorem zip_time_roundtrip:
  assumes "clock_agrees lib (dos_tm dtime ddate)"
  shows "zip_u2d_time lib (zip_d2u_time lib dtime ddate) = (dtime, ddate)"
  using assms by (rule zip_u2d_d2u)

theorem zip_time_roundtrip_witness:
  "clock_agrees sample_lib (dos_tm 0xbc00 0x2198)
   \<and> zip_u2d_time sample_lib (zip_d2u_time sample_lib 0xbc00 0x2198) = (0xbc00, 0x2198)"
proof -
  have "clock_agrees sample_lib (dos_tm 0xbc00 0x2198)"
    by (simp add: clock_agrees_def sample_lib_def dos_tm_def)
  then show ?thesis using zip_time_roundtrip by blast
qed

text \<open>C36: an entry written at the end of a stream with room is read back from that offset by
  \<open>_zip_dirent_read\<close>: a central entry field by field, a local header with the fields it carries, and
  the stream ends exactly where the writer left it.\<close>

theorem zip_dirent_write_read:
  assumes "dirent_wf lib zde" and "malloc_total lib" and "at_end fp"
    and "length (fdata fp) + dirent_size localp (dirent_view localp zde) \<le> fcap fp"
    and "fcap fp \<le> fgood fp"
  shows "\<exists>fp'. zip_dirent_write lib zde fp localp = (Inr (), fp')
     \<and> zip_dirent_read lib (fp'\<lparr>fpos := fpos fp\<rparr>) None None localp
         = (Inr (dirent_view localp zde, None, None), fp')"
proof -
  let ?b = "dirent_bytes lib zde localp"
  let ?fp' = "fp\<lparr>fdata := fdata fp @ ?b, fpos := fpos fp + length ?b\<rparr>"
  have len: "length ?b = dirent_size localp (dirent_view localp zde)"
    by (rule length_dirent_bytes [OF assms(1)])
  have put: "fput ?b fp = ?fp'"
    using assms(3,4) len by (intro fput_at_end) simp_all
  have w: "zip_dirent_write lib zde fp localp = (Inr (), ?fp')"
    using zip_dirent_write_bytes [OF assms(1)] assms(3) by (simp add: put at_end_def)
  have "stream_holds (?fp'\<lparr>fpos := fpos fp\<rparr>) (?b @ [])"
    using assms(3-5) len by (simp add: stream_holds_def at_end_def)
  from zip_dirent_read_file [OF assms(1,2) this, of None] have
    "zip_dirent_read lib (?fp'\<lparr>fpos := fpos fp\<rparr>) None None localp
       = (Inr (dirent_view localp zde, None, None), ?fp')"
    by (simp add: advance_def len left_short_def)
  with w show ?thesis by blast
qed

theorem zip_dirent_write_read_witness:
  "\<exists>fp'. zip_dirent_write sample_lib sample_dirent sample_file False = (Inr (), fp')
     \<and> zip_dirent_read sample_lib (fp'\<lparr>fpos := 3\<rparr>) None None False
         = (Inr (sample_dirent, None, None), fp')"
proof -
  have "at_end sample_file" "fcap sample_file \<le> fgood sample_file"
    "length (fdata sample_file) + dirent_size False (dirent_view False sample_dirent) \<le> fcap sample_file"
    "fpos sample_file = 3"
    by (simp_all add: at_end_def sample_file_def dirent_size_def dirent_view_def sample_dirent_def
        zip_dirent_init_def)
  with zip_dirent_write_read [OF sample_dirent_wf malloc_total_sample, of sample_file False]
  show ?thesis by (simp add: dirent_view_def)
qed

text \<open>With a limit \<open>*leftp\<close> that does not exceed the buffer, \<open>_zip_dirent_read\<close> never reads outside
  the buffer, whatever the bytes are: it reports an error or returns an entry of at most \<open>*leftp\<close>
  bytes, advances the buffer and lowers the limit by exactly the size of the entry, and the
  strings it allocates have the lengths the entry claims.\<close>

theorem zip_dirent_read_in_bounds:
  assumes "left \<le> length cur"
  shows "case fst (zip_dirent_read lib fp (Some cur) (Some left) local) of
           Inl e \<Rightarrow> e \<noteq> UB
         | Inr (zde, cur', left') \<Rightarrow>
             dirent_size local zde \<le> left
             \<and> cur' = Some (drop (dirent_size local zde) cur)
             \<and> left' = Some (left - dirent_size local zde)
             \<and> str_wf True (zde_filename zde) (zde_filename_len zde)
             \<and> str_wf False (zde_extrafield zde) (zde_extrafield_len zde)
             \<and> str_wf False (zde_comment zde) (zde_comment_len zde)"
  using assms
  by (rule zip_dirent_read_buf_cases [where lib = lib and fp = fp and local = local]) auto

theorem zip_dirent_read_in_bounds_witness:
  "case fst (zip_dirent_read sample_lib sample_file (Some (replicate 50 0x50)) (Some 48) False) of
     Inl e \<Rightarrow> e \<noteq> UB | Inr (zde, cur', left') \<Rightarrow> dirent_size False zde \<le> 48"
proof -
  have "(48::nat) \<le> length (replicate 50 (0x50::byte))" by simp
  from zip_dirent_read_in_bounds [OF this, where lib = sample_lib and fp = sample_file and local = False]
  show ?thesis by (auto split: sum.splits)
qed

end
