(* ===== verification/Zip_Cdir.thy ===== *)
theory Zip_Cdir
  imports Zip_Dirent
begin

text \<open>
  Locating and reading the central directory (\<open>zip_open.c\<close>): the substring search
  \<open>_zip_memmem\<close>, \<open>_zip_readcdir\<close>, the header comparison \<open>_zip_headercomp\<close>, the consistency check
  \<open>_zip_checkcons\<close> and the search \<open>_zip_find_central_dir\<close> over the tail of the file.
  The results: the search finds the first occurrence, reading a directory at a candidate position
  is memory safe and terminates, and a directory written by \<open>_zip_cdir_write\<close> is read back.
\<close>

section \<open>Substring search\<close>

text \<open>\<open>memchr(p, c, n)\<close>: the offset of the first \<open>c\<close> among the first \<open>n\<close> elements.\<close>

fun memchr :: "'a list \<Rightarrow> 'a \<Rightarrow> nat \<Rightarrow> nat option" where
  "memchr xs c 0 = None"
| "memchr [] c (Suc n) = None"
| "memchr (x # xs) c (Suc n) = (if x = c then Some 0 else map_option Suc (memchr xs c n))"

lemma memchr_Some:
  "memchr xs c n = Some k \<Longrightarrow>
     k < n \<and> k < length xs \<and> xs ! k = c \<and> (\<forall>j < k. xs ! j \<noteq> c)"
  by (induction xs c n arbitrary: k rule: memchr.induct)
    (auto split: if_splits simp: nth_Cons less_Suc_eq_0_disj split: nat.splits)

lemma memchr_None: "memchr xs c n = None \<Longrightarrow> j < n \<Longrightarrow> j < length xs \<Longrightarrow> xs ! j \<noteq> c"
  by (induction xs c n arbitrary: j rule: memchr.induct)
    (auto split: if_splits simp: nth_Cons split: nat.splits)

text \<open>The loop of \<open>_zip_memmem\<close>; \<open>p1\<close> is \<open>p + 1 - big\<close>.\<close>

function memmem_loop :: "byte list \<Rightarrow> nat \<Rightarrow> byte list \<Rightarrow> nat \<Rightarrow> nat option" where
  "memmem_loop big biglen little p1 =
     (case memchr (drop p1 big) (hd little) (biglen - length little + 1 - p1) of
        None \<Rightarrow> None
      | Some k \<Rightarrow>
          if take (length little - 1) (drop (p1 + k + 1) big) = tl little then Some (p1 + k)
          else memmem_loop big biglen little (p1 + k + 1))"
  by pat_completeness auto
termination
  by (relation "measure (\<lambda>(big, biglen, little, p1). biglen - length little + 1 - p1)")
    (auto dest!: memchr_Some)

declare memmem_loop.simps [simp del]

definition zip_memmem :: "byte list \<Rightarrow> int \<Rightarrow> byte list \<Rightarrow> nat option" where
  "zip_memmem big biglen little =
     (if biglen < int (length little) \<or> little = [] then None
      else memmem_loop big (nat biglen) little 0)"

section \<open>_zip_readcdir\<close>

text \<open>
  The reading loop. \<open>i\<close> is the index of the next entry; the result of \<open>_zip_cdir_grow\<close> is ignored
  as in the source, so a failed growth leaves the array as it is and the store to \<open>cd->entry+i\<close>
  can leave it.
\<close>

function readcdir_loop ::
  "clib \<Rightarrow> zip_cdir \<Rightarrow> cfile \<Rightarrow> byte list option \<Rightarrow> nat \<Rightarrow> nat \<Rightarrow> zip_cdir res \<times> cfile" where
  "readcdir_loop lib cd fp bufp left i =
     (let cd = (if i = length (cd_entry cd) \<and> left > 0
                then (case zip_cdir_grow lib cd (length (cd_entry cd) + 0x10000) of
                        Inl _ \<Rightarrow> cd | Inr cd' \<Rightarrow> cd')
                else cd)
      in case zip_dirent_read lib fp bufp (Some left) False of
           (Inl e, fp) \<Rightarrow> (Inl e, fp)
         | (Inr (zde, bufp', left'), fp) \<Rightarrow>
             if i \<ge> length (cd_entry cd) then (Inl UB, fp)
             else let cd = cd\<lparr>cd_entry := (cd_entry cd)[i := zde]\<rparr>
                  in if Suc i < length (cd_entry cd)
                     then readcdir_loop lib cd fp bufp' (the left') (Suc i)
                     else (Inr cd, fp))"
  by pat_completeness auto

lemma zip_dirent_read_left_less:
  assumes "zip_dirent_read lib fp bufp (Some left) local = (Inr (zde, bufp', left'), fp')"
  shows "\<exists>n. n > 0 \<and> n \<le> left \<and> left' = Some (left - n)"
proof -
  let ?n = "\<lambda>z. dirent_size local z"
  have pos: "?n z > 0" for z by (simp add: dirent_size_def)
  show ?thesis
    using assms pos
    by (auto simp: zip_dirent_read_def Let_def left_short_def bind_res_Inr_iff not_less
        split: option.splits if_splits prod.splits sum.splits)
qed

termination readcdir_loop
  by (relation "measure (\<lambda>(lib, cd, fp, bufp, left, i). left)")
    (auto dest!: zip_dirent_read_left_less [OF sym])

declare readcdir_loop.simps [simp del]

text \<open>The copy of the archive comment that follows the end-of-directory record.\<close>

definition readcdir_comment :: "clib \<Rightarrow> byte list \<Rightarrow> nat \<Rightarrow> u16 \<Rightarrow> byte list option res" where
  "readcdir_comment lib buf eocd comment_len =
     (if comment_len = 0 then Inr None
      else bind_res (zip_memdup lib (Some (drop (eocd + EOCDLEN) buf)) (unat comment_len))
             (\<lambda>c. Inr (Some c)))"

text \<open>The entries: from the buffer if it already holds the whole directory, else from the file.\<close>

definition readcdir_entries ::
  "clib \<Rightarrow> zip_cdir \<Rightarrow> cfile \<Rightarrow> byte list \<Rightarrow> nat \<Rightarrow> zip_cdir res \<times> cfile" where
  "readcdir_entries lib cd fp buf eocd =
     (if unat (cd_size cd) < eocd
      then readcdir_loop lib cd fp (Some (drop (eocd - unat (cd_size cd)) buf)) (unat (cd_size cd)) 0
      else
      let fp = clearerr fp; fp = snd (fseeko fp (int (unat (cd_offset cd))) SEEK_SET) in
      if ferr fp \<or> ftello fp \<noteq> unat (cd_offset cd)
      then (Inl (if ferr fp then ZE ZIP_ER_SEEK (ferrno fp) else ZE ZIP_ER_NOZIP 0), fp)
      else readcdir_loop lib cd fp None (unat (cd_size cd)) 0)"

definition zip_readcdir ::
  "clib \<Rightarrow> cfile \<Rightarrow> byte list \<Rightarrow> nat \<Rightarrow> nat \<Rightarrow> u32 \<Rightarrow> zip_cdir res \<times> cfile" where
  "zip_readcdir lib fp buf eocd buflen flags =
     (let comlen = int buflen - int eocd - int EOCDLEN in
      if comlen < 0 then (Inl (ZE ZIP_ER_NOZIP 0), fp)
      else case mem_load buf eocd EOCDLEN of None \<Rightarrow> (Inl UB, fp) | Some rec \<Rightarrow>
      if take 4 rec \<noteq> EOCD_MAGIC then (Inl (ZE ZIP_ER_NOZIP 0), fp)
      else if take 4 (drop 4 rec) \<noteq> [0, 0, 0, 0] then (Inl (ZE ZIP_ER_MULTIDISK 0), fp)
      else
      let i = rd2 (drop 8 rec); nentry = rd2 (drop 10 rec) in
      case zip_cdir_new lib (unat nentry) of Inl e \<Rightarrow> (Inl e, fp) | Inr cd \<Rightarrow>
      let cd = cd\<lparr>cd_size := rd4 (drop 12 rec), cd_offset := rd4 (drop 16 rec),
                  cd_comment := None, cd_comment_len := rd2 (drop 20 rec)\<rparr> in
      if comlen < int (unat (cd_comment_len cd)) \<or> nentry \<noteq> i then (Inl (ZE ZIP_ER_NOZIP 0), fp)
      else if flag_set flags ZIP_CHECKCONS \<and> comlen \<noteq> int (unat (cd_comment_len cd))
      then (Inl (ZE ZIP_ER_INCONS 0), fp)
      else
      case readcdir_comment lib buf eocd (cd_comment_len cd) of
        Inl e \<Rightarrow> (Inl e, fp)
      | Inr comm \<Rightarrow>
      readcdir_entries lib (cd\<lparr>cd_comment := comm\<rparr>) fp buf eocd)"

section \<open>_zip_headercomp\<close>

text \<open>\<open>memcmp\<close> of two blocks of the compared length, \<open>strcmp\<close> of two strings kept without terminator.\<close>

definition ptr_differ :: "byte list option \<Rightarrow> byte list option \<Rightarrow> u16 \<Rightarrow> bool" where
  "ptr_differ p q n \<longleftrightarrow> n \<noteq> 0 \<and> q \<noteq> None \<and> ptr_bytes p (unat n) \<noteq> ptr_bytes q (unat n)"

definition sizes_zero :: "zip_dirent \<Rightarrow> bool" where
  "sizes_zero h \<longleftrightarrow> zde_crc h = 0 \<and> zde_comp_size h = 0 \<and> zde_uncomp_size h = 0"

definition zip_headercomp :: "zip_dirent \<Rightarrow> bool \<Rightarrow> zip_dirent \<Rightarrow> bool \<Rightarrow> bool" where
  "zip_headercomp h1 local1p h2 local2p =
     (let dd1 = flag_set (zde_bitflags h1) ZIP_GPBF_DATA_DESCRIPTOR;
          dd2 = flag_set (zde_bitflags h2) ZIP_GPBF_DATA_DESCRIPTOR in
      if zde_version_needed h1 \<noteq> zde_version_needed h2
         \<or> zde_comp_method h1 \<noteq> zde_comp_method h2
         \<or> zde_last_mod h1 \<noteq> zde_last_mod h2
         \<or> zde_filename_len h1 \<noteq> zde_filename_len h2
         \<or> zde_filename h1 = None \<or> zde_filename h2 = None
         \<or> zde_filename h1 \<noteq> zde_filename h2
      then False
      else if dd1 \<and> local1p \<and> \<not> sizes_zero h1 then False
      else if dd2 \<and> local2p \<and> \<not> sizes_zero h2 then False
      else if (\<not> dd1 \<or> \<not> local1p) \<and> (\<not> dd2 \<or> \<not> local2p)
        \<and> (zde_crc h1 \<noteq> zde_crc h2 \<or> zde_comp_size h1 \<noteq> zde_comp_size h2
           \<or> zde_uncomp_size h1 \<noteq> zde_uncomp_size h2)
      then False
      else if local1p = local2p
        \<and> (zde_extrafield_len h1 \<noteq> zde_extrafield_len h2
           \<or> ptr_differ (zde_extrafield h1) (zde_extrafield h2) (zde_extrafield_len h1))
      then False
      else if local1p \<or> local2p then True
      else if zde_version_madeby h1 \<noteq> zde_version_madeby h2
         \<or> zde_disk_number h1 \<noteq> zde_disk_number h2
         \<or> zde_int_attrib h1 \<noteq> zde_int_attrib h2
         \<or> zde_ext_attrib h1 \<noteq> zde_ext_attrib h2
         \<or> zde_offset h1 \<noteq> zde_offset h2
         \<or> zde_comment_len h1 \<noteq> zde_comment_len h2
         \<or> ptr_differ (zde_comment h1) (zde_comment h2) (zde_comment_len h1)
      then False else True)"

section \<open>_zip_checkcons\<close>

text \<open>The first position after an entry's header, name and data.\<close>

definition entry_end :: "zip_dirent \<Rightarrow> u32" where
  "entry_end e = zde_offset e + zde_comp_size e + ucast (zde_filename_len e) + 30"

text \<open>The loop over the entries. Positions are \<open>unsigned int\<close> and wrap around, as in the source.\<close>

fun checkcons_loop ::
  "clib \<Rightarrow> u32 \<Rightarrow> zip_dirent list \<Rightarrow> u32 \<Rightarrow> u32 \<Rightarrow> cfile \<Rightarrow> (u32 \<times> u32) res \<times> cfile" where
  "checkcons_loop lib cdoff [] mn mx fp = (Inr (mn, mx), fp)"
| "checkcons_loop lib cdoff (e # es) mn mx fp =
     (let mn = (if zde_offset e < mn then zde_offset e else mn) in
      if mn > cdoff then (Inl (ZE ZIP_ER_NOZIP 0), fp)
      else
      let j = entry_end e;
          mx = (if j > mx then j else mx) in
      if mx > cdoff then (Inl (ZE ZIP_ER_NOZIP 0), fp)
      else
      let (r, fp) = fseeko fp (int (unat (zde_offset e))) SEEK_SET in
      if r \<noteq> 0 then (Inl (ZE ZIP_ER_SEEK 0), fp)
      else case zip_dirent_read lib fp None None True of
        (Inl err, fp) \<Rightarrow> (Inl err, fp)
      | (Inr (temp, _, _), fp) \<Rightarrow>
          if \<not> zip_headercomp e False temp True then (Inl (ZE ZIP_ER_INCONS 0), fp)
          else checkcons_loop lib cdoff es mn mx fp)"

definition zip_checkcons :: "clib \<Rightarrow> cfile \<Rightarrow> zip_cdir \<Rightarrow> int res \<times> cfile" where
  "zip_checkcons lib fp cd =
     (let start = (case cd_entry cd of [] \<Rightarrow> 0 | e # _ \<Rightarrow> zde_offset e) in
      case checkcons_loop lib (cd_offset cd) (cd_entry cd) start start fp of
        (Inl e, fp) \<Rightarrow> (Inl e, fp)
      | (Inr (mn, mx), fp) \<Rightarrow> (Inr (sint (mx - mn)), fp))"

section \<open>_zip_find_central_dir\<close>

text \<open>The state of the search loop: the best directory so far, its quality \<open>best\<close>, the last error,
  the stream, and whether an access has left its block (which then is the outcome).\<close>

record fcd_state =
  fcd_cdir :: "zip_cdir option"
  fcd_best :: int
  fcd_zerr :: fault
  fcd_fp :: cfile
  fcd_ub :: bool

definition fcd_fail :: "fcd_state \<Rightarrow> fault \<Rightarrow> cfile \<Rightarrow> fcd_state" where
  "fcd_fail st e fp = st\<lparr>fcd_zerr := e, fcd_fp := fp, fcd_ub := (fcd_ub st \<or> e = UB)\<rparr>"

text \<open>\<open>_zip_checkcons\<close> as the loop uses it: the value \<open>-1\<close> with \<open>zerr\<close> set on failure.\<close>

definition checkcons_value :: "clib \<Rightarrow> zip_cdir \<Rightarrow> fcd_state \<Rightarrow> int \<times> fcd_state" where
  "checkcons_value lib cd st =
     (case zip_checkcons lib (fcd_fp st) cd of
        (Inl e, fp) \<Rightarrow> (-1, fcd_fail st e fp)
      | (Inr v, fp) \<Rightarrow> (v, st\<lparr>fcd_fp := fp\<rparr>))"

text \<open>One candidate position, after \<open>match++\<close>.\<close>

definition fcd_candidate :: "clib \<Rightarrow> byte list \<Rightarrow> u32 \<Rightarrow> nat \<Rightarrow> fcd_state \<Rightarrow> fcd_state" where
  "fcd_candidate lib buf flags eocd st =
     (case zip_readcdir lib (fcd_fp st) buf eocd (length buf) flags of
        (Inl e, fp) \<Rightarrow> fcd_fail st e fp
      | (Inr cdirnew, fp) \<Rightarrow>
          let st = st\<lparr>fcd_fp := fp\<rparr> in
          (case fcd_cdir st of
             Some cdir \<Rightarrow>
               let (best, st) = (if fcd_best st \<le> 0 then checkcons_value lib cdir st
                                 else (fcd_best st, st));
                   (a, st) = checkcons_value lib cdirnew st
               in if best < a then st\<lparr>fcd_cdir := Some cdirnew, fcd_best := a\<rparr>
                  else st\<lparr>fcd_best := best\<rparr>
           | None \<Rightarrow>
               let st = st\<lparr>fcd_cdir := Some cdirnew\<rparr> in
               if flag_set flags ZIP_CHECKCONS
               then (let (best, st) = checkcons_value lib cdirnew st in st\<lparr>fcd_best := best\<rparr>)
               else st\<lparr>fcd_best := 0\<rparr>))"

text \<open>The loop over the candidates: the search resumes one byte after each match.\<close>

function fcd_loop :: "clib \<Rightarrow> byte list \<Rightarrow> u32 \<Rightarrow> nat \<Rightarrow> fcd_state \<Rightarrow> fcd_state" where
  "fcd_loop lib buf flags m st =
     (case zip_memmem (drop m buf) (int (length buf) - int m - 18) EOCD_MAGIC of
        None \<Rightarrow> st
      | Some k \<Rightarrow> fcd_loop lib buf flags (m + k + 1) (fcd_candidate lib buf flags (m + k) st))"
  by pat_completeness auto
termination
  by (relation "measure (\<lambda>(lib, buf, flags, m, st). length buf - m)")
    (auto simp: zip_memmem_def split: if_splits)

declare fcd_loop.simps [simp del]

definition zip_find_central_dir :: "clib \<Rightarrow> cfile \<Rightarrow> u32 \<Rightarrow> nat \<Rightarrow> zip_cdir res \<times> cfile" where
  "zip_find_central_dir lib fp flags len =
     (let (i, fp) = fseeko fp (- int (if len < CDBUFSIZE then len else CDBUFSIZE)) SEEK_END in
      if i = -1 then (Inl (ZE ZIP_ER_SEEK 0), fp)
      else if \<not> malloc_ok lib ''char'' CDBUFSIZE then (Inl (ZE ZIP_ER_MEMORY 0), fp)
      else
      let (buf, fp) = fread CDBUFSIZE (clearerr fp) in
      if ferr fp then (Inl (ZE ZIP_ER_READ 0), fp)
      else
      let st = fcd_loop lib buf flags 0
                 \<lparr>fcd_cdir = None, fcd_best = -1, fcd_zerr = ZE ZIP_ER_NOZIP 0, fcd_fp = fp,
                  fcd_ub = False\<rparr>
      in (if fcd_ub st then Inl UB else case fcd_cdir st of
            Some cd \<Rightarrow> if fcd_best st < 0 then Inl (fcd_zerr st) else Inr cd
          | None \<Rightarrow> Inl (fcd_zerr st), fcd_fp st))"

section \<open>The substring search finds the first occurrence\<close>

definition occurs_at :: "byte list \<Rightarrow> nat \<Rightarrow> byte list \<Rightarrow> nat \<Rightarrow> bool" where
  "occurs_at big n little i \<longleftrightarrow> i + length little \<le> n \<and> take (length little) (drop i big) = little"

lemma occurs_at_iff:
  assumes "n \<le> length big" and "little \<noteq> []"
  shows "occurs_at big n little i \<longleftrightarrow>
     i + length little \<le> n \<and> big ! i = hd little \<and> take (length little - 1) (drop (i + 1) big) = tl little"
proof (cases "i + length little \<le> n")
  case True
  with assms have i: "i < length big" by (cases little) auto
  then have "drop i big = big ! i # drop (i + 1) big" by (simp add: Cons_nth_drop_Suc)
  with True assms(2) show ?thesis by (cases little) (auto simp: occurs_at_def)
qed (simp add: occurs_at_def)

lemma memmem_loop_spec:
  assumes "n \<le> length big" and "little \<noteq> []" and "length little \<le> n"
  shows "case memmem_loop big n little p1 of
     Some i \<Rightarrow> p1 \<le> i \<and> occurs_at big n little i \<and> (\<forall>j. p1 \<le> j \<and> j < i \<longrightarrow> \<not> occurs_at big n little j)
   | None \<Rightarrow> (\<forall>j \<ge> p1. \<not> occurs_at big n little j)"
  using assms
proof (induction big n little p1 rule: memmem_loop.induct)
  case (1 big n little p1)
  let ?cnt = "n - length little + 1 - p1"
  note occ = occurs_at_iff [OF 1(2,3)]
  show ?case
  proof (cases "memchr (drop p1 big) (hd little) ?cnt")
    case None
    have "\<not> occurs_at big n little j" if "p1 \<le> j" for j
    proof
      assume o: "occurs_at big n little j"
      then have le: "j + length little \<le> n" and h: "big ! j = hd little" by (simp_all add: occ)
      have "j - p1 < ?cnt" "j - p1 < length (drop p1 big)"
        using le that 1(2-4) by (cases little; simp)+
      from memchr_None [OF None this] have "big ! j \<noteq> hd little" using that le 1(2) by simp
      with h show False by simp
    qed
    then show ?thesis using None by (simp add: memmem_loop.simps [of big n little p1])
  next
    case (Some k)
    note k = memchr_Some [OF Some]
    have skip: "\<not> occurs_at big n little j" if "p1 \<le> j" "j < p1 + k" for j
    proof -
      have "j - p1 < k" using that by simp
      with k have "drop p1 big ! (j - p1) \<noteq> hd little" by blast
      moreover have "drop p1 big ! (j - p1) = big ! j" using that k by (subst nth_drop) auto
      ultimately have "big ! j \<noteq> hd little" by simp
      then show ?thesis by (simp add: occ)
    qed
    have hk: "big ! (p1 + k) = hd little" and kn: "p1 + k + length little \<le> n" using k 1(4) by auto
    show ?thesis
    proof (cases "take (length little - 1) (drop (p1 + k + 1) big) = tl little")
      case True
      then have "occurs_at big n little (p1 + k)" using hk kn by (simp add: occ)
      then show ?thesis using True Some skip by (simp add: memmem_loop.simps [of big n little p1])
    next
      case False
      then have no: "\<not> occurs_at big n little (p1 + k)" by (simp add: occ)
      have step: "memmem_loop big n little p1 = memmem_loop big n little (p1 + k + 1)"
        using Some False by (simp add: memmem_loop.simps [of big n little p1])
      have none: "\<not> occurs_at big n little j" if "p1 \<le> j" "j < p1 + k + 1" for j
        using skip [of j] no that by (cases "j = p1 + k") auto
      from "1.IH" [OF Some False 1(2-4)] show ?thesis unfolding step
        using none by (fastforce split: option.splits simp: not_less)
    qed
  qed
qed

lemma zip_memmem_cases:
  assumes "biglen \<le> int (length big)" and "little \<noteq> []"
  shows "case zip_memmem big biglen little of
     Some i \<Rightarrow> occurs_at big (nat biglen) little i \<and> (\<forall>j < i. \<not> occurs_at big (nat biglen) little j)
   | None \<Rightarrow> (\<forall>j. \<not> occurs_at big (nat biglen) little j)"
proof (cases "biglen < int (length little)")
  case True
  then have "nat biglen < length little" using assms(2) by (cases little) auto
  then show ?thesis using True by (auto simp: zip_memmem_def occurs_at_def)
next
  case False
  then have "length little \<le> nat biglen" "nat biglen \<le> length big" using assms by simp_all
  from memmem_loop_spec [OF this(2) assms(2) this(1), of 0] False assms(2)
  show ?thesis by (auto simp: zip_memmem_def split: option.splits)
qed

section \<open>Reading back a directory\<close>

lemma left_short_Some [simp]: "left_short (Some l) n \<longleftrightarrow> l < n"
  by (simp add: left_short_def)

abbreviation central_bytes :: "clib \<Rightarrow> zip_dirent list \<Rightarrow> byte list" where
  "central_bytes lib es \<equiv> concat (map (\<lambda>e. dirent_bytes lib e False) es)"

lemma dirent_view_central [simp]: "dirent_view False e = e"
  by (simp add: dirent_view_def)

text \<open>Both sources of \<open>_zip_dirent_read\<close> satisfy one contract: where the source holds the bytes of
  an entry, reading returns the entry and leaves a source that holds the rest.\<close>

datatype dsource = InBuf "byte list" | InFile

fun holds :: "dsource \<Rightarrow> cfile \<Rightarrow> byte list \<Rightarrow> bool" where
  "holds (InBuf cur) fp bs = (\<exists>r. cur = bs @ r)"
| "holds InFile fp bs = stream_holds fp bs"

fun bufp_of :: "dsource \<Rightarrow> byte list option" where
  "bufp_of (InBuf cur) = Some cur"
| "bufp_of InFile = None"

lemma zip_dirent_read_holds:
  assumes "dirent_wf lib e" and "malloc_total lib" and "holds src fp (dirent_bytes lib e False @ cs)"
    and "dirent_size False e \<le> left"
  shows "\<exists>src' fp'. zip_dirent_read lib fp (bufp_of src) (Some left) False
           = (Inr (e, bufp_of src', Some (left - dirent_size False e)), fp') \<and> holds src' fp' cs
           \<and> fdata fp' = fdata fp \<and> (\<forall>cur. src = InBuf cur \<longrightarrow> fp' = fp)"
proof (cases src)
  case (InBuf cur)
  with assms(3) obtain r where "cur = dirent_bytes lib e False @ cs @ r" by auto
  with zip_dirent_read_buf [OF assms(1,2), of "Some left" False fp "cs @ r"] assms(4) InBuf show ?thesis
    by (intro exI [of _ "InBuf (cs @ r)"] exI [of _ fp]) simp
next
  case InFile
  with assms(3) have st: "stream_holds fp (dirent_bytes lib e False @ cs)" by simp
  from fread_holds(2) [OF st] have "stream_holds (advance (dirent_size False e) fp) cs"
    by (simp add: length_dirent_bytes [OF assms(1)])
  with zip_dirent_read_file [OF assms(1,2) st, of "Some left"] assms(4) InFile show ?thesis
    by (intro exI [of _ InFile] exI [of _ "advance (dirent_size False e) fp"]) (simp add: advance_def)
qed

lemma readcdir_loop_entries:
  assumes "es \<noteq> []" and "\<forall>e \<in> set es. dirent_wf lib e" and "malloc_total lib"
    and "holds src fp (central_bytes lib es)" and "left = length (central_bytes lib es)"
    and "cd_entry cd = done @ rest" and "length rest = length es"
  shows "\<exists>fp'. readcdir_loop lib cd fp (bufp_of src) left (length done)
           = (Inr (cd\<lparr>cd_entry := done @ es\<rparr>), fp') \<and> fdata fp' = fdata fp"
  using assms
proof (induction es arbitrary: src fp left cd "done" rest)
  case Nil
  then show ?case by simp
next
  case (Cons e es)
  obtain x rest' where rest: "rest = x # rest'" using Cons.prems(7) by (cases rest) auto
  have wf: "dirent_wf lib e" using Cons.prems(2) by simp
  have size: "length (dirent_bytes lib e False) = dirent_size False e"
    using length_dirent_bytes [OF wf, of False] by simp
  have h: "holds src fp (dirent_bytes lib e False @ central_bytes lib es)" using Cons.prems(4) by simp
  have le: "dirent_size False e \<le> left" using Cons.prems(5) size by simp
  from zip_dirent_read_holds [OF wf Cons.prems(3) h le] obtain src' fp' where
    rd: "zip_dirent_read lib fp (bufp_of src) (Some left) False
           = (Inr (e, bufp_of src', Some (left - dirent_size False e)), fp')"
    and h': "holds src' fp' (central_bytes lib es)" and d: "fdata fp' = fdata fp" by blast
  let ?cd = "cd\<lparr>cd_entry := done @ e # rest'\<rparr>"
  have step: "readcdir_loop lib cd fp (bufp_of src) left (length done) =
      (if Suc (length done) < length (done @ e # rest')
       then readcdir_loop lib ?cd fp' (bufp_of src') (left - dirent_size False e) (Suc (length done))
       else (Inr ?cd, fp'))"
    using Cons.prems(6) rest
    by (subst readcdir_loop.simps) (simp add: rd list_update_append)
  show ?case
  proof (cases "es = []")
    case True
    then show ?thesis using step Cons.prems(7) rest d by auto
  next
    case False
    have "\<exists>fp''. readcdir_loop lib ?cd fp' (bufp_of src') (left - dirent_size False e) (length (done @ [e]))
           = (Inr (?cd\<lparr>cd_entry := (done @ [e]) @ es\<rparr>), fp'') \<and> fdata fp'' = fdata fp'"
      using Cons.prems(2,3,5,7) h' rest size
      by (intro Cons.IH [OF False _ _ h', where rest = rest']) auto
    moreover have "rest' \<noteq> []" using False Cons.prems(7) rest by auto
    ultimately show ?thesis using step d by auto
  qed
qed

definition eocd_bytes :: "zip_cdir \<Rightarrow> byte list" where
  "eocd_bytes cd = EOCD_MAGIC @ le32 0 @ le16 (of_nat (length (cd_entry cd)))
     @ le16 (of_nat (length (cd_entry cd))) @ le32 (cd_size cd) @ le32 (cd_offset cd)
     @ le16 (cd_comment_len cd) @ ptr_bytes (cd_comment cd) (unat (cd_comment_len cd))"

definition cdir_wf :: "clib \<Rightarrow> zip_cdir \<Rightarrow> bool" where
  "cdir_wf lib cd \<longleftrightarrow> cd_entry cd \<noteq> [] \<and> length (cd_entry cd) < 0x10000
     \<and> (\<forall>e \<in> set (cd_entry cd). dirent_wf lib e)
     \<and> str_wf False (cd_comment cd) (cd_comment_len cd)"

text \<open>The directory with the size and offset that \<open>_zip_cdir_write\<close> fills in when it starts at \<open>off\<close>.\<close>

definition placed :: "clib \<Rightarrow> nat \<Rightarrow> zip_cdir \<Rightarrow> zip_cdir" where
  "placed lib off cd =
     cd\<lparr>cd_offset := of_nat off, cd_size := of_nat (length (central_bytes lib (cd_entry cd)))\<rparr>"

lemma length_eocd_bytes:
  "str_wf False (cd_comment cd) (cd_comment_len cd) \<Longrightarrow>
     length (eocd_bytes cd) = EOCDLEN + unat (cd_comment_len cd)"
  by (simp add: eocd_bytes_def length_ptr_bytes [of False])

lemma fput_end:
  assumes "at_end fp" and "length (fdata fp) + length bs \<le> fcap fp"
  shows "at_end (fput bs fp)" "fdata (fput bs fp) = fdata fp @ bs" "\<not> ferr (fput bs fp)"
    "ftello (fput bs fp) = length (fdata fp) + length bs"
  using assms at_end_fput [OF assms] by (simp_all add: fput_at_end at_end_def ftello_def)

lemma cdir_write_entries_bytes:
  assumes "\<forall>e \<in> set es. dirent_wf lib e" and "at_end fp"
    and "length (fdata fp) + length (central_bytes lib es) \<le> fcap fp"
  shows "cdir_write_entries lib es fp = (Inr (), fput (central_bytes lib es) fp)"
  using assms
proof (induction es arbitrary: fp)
  case Nil
  then show ?case by simp
next
  case (Cons e es)
  let ?b = "dirent_bytes lib e False"
  have room: "length (fdata fp) + length ?b \<le> fcap fp" using Cons.prems(3) by simp
  note e = fput_end [OF Cons.prems(2) room]
  have wf: "dirent_wf lib e" using Cons.prems(1) by simp
  have "zip_dirent_write lib e fp False = (Inr (), fput ?b fp)"
    by (simp add: zip_dirent_write_bytes [OF wf] e)
  moreover have "cdir_write_entries lib es (fput ?b fp) = (Inr (), fput (central_bytes lib es) (fput ?b fp))"
    using Cons.prems e by (intro Cons.IH) auto
  ultimately show ?case by (simp add: fput_append)
qed

lemma zip_cdir_write_bytes:
  assumes wf: "cdir_wf lib cd" and e: "at_end fp"
    and room: "length (fdata fp) + length (central_bytes lib (cd_entry cd)) + EOCDLEN
                 + unat (cd_comment_len cd) \<le> fcap fp"
  shows "zip_cdir_write lib cd fp = (Inr (placed lib (length (fdata fp)) cd),
     fput (central_bytes lib (cd_entry cd) @ eocd_bytes (placed lib (length (fdata fp)) cd)) fp)"
proof -
  let ?cb = "central_bytes lib (cd_entry cd)"
  let ?cd = "placed lib (length (fdata fp)) cd"
  let ?fp = "fput ?cb fp"
  have com: "str_wf False (cd_comment cd) (cd_comment_len cd)" using wf by (simp add: cdir_wf_def)
  have r: "length (fdata fp) + length ?cb \<le> fcap fp" using room by simp
  note fe = fput_end [OF e r]
  have es: "cdir_write_entries lib (cd_entry cd) fp = (Inr (), ?fp)"
    using wf by (intro cdir_write_entries_bytes [OF _ e r]) (simp add: cdir_wf_def)
  have pos: "ftello fp = length (fdata fp)" using e by (simp add: at_end_def ftello_def)
  have "length (eocd_bytes ?cd) = EOCDLEN + unat (cd_comment_len cd)"
    using length_eocd_bytes [of ?cd] com by (simp add: placed_def)
  then have "\<not> ferr (fput (eocd_bytes ?cd) ?fp)"
    using fput_end(3) [OF fe(1), of "eocd_bytes ?cd"] fe(2) room by simp
  then show ?thesis
    using es fe(4) pos
    by (simp add: zip_cdir_write_def Let_def io_simps fput_append fput_ptr_wf [OF com] eocd_bytes_def
        placed_def)
qed

lemma rd_le [le_simps]:
  "rd2 (le16 x @ r) = x" "rd4 (le32 y @ r) = y" "rd2 (le16 x) = x" "rd4 (le32 y) = y"
  using zip_read2_le16 [of x "[]"] zip_read4_le32 [of y "[]"]
  by (simp_all add: rd2_def rd4_def le_simps)

lemma eocd_record:
  assumes "drop eocd buf = eocd_bytes cd @ post"
    and "str_wf False (cd_comment cd) (cd_comment_len cd)"
  shows "mem_load buf eocd EOCDLEN = Some (EOCD_MAGIC @ le32 0 @ le16 (of_nat (length (cd_entry cd)))
     @ le16 (of_nat (length (cd_entry cd))) @ le32 (cd_size cd) @ le32 (cd_offset cd)
     @ le16 (cd_comment_len cd))" (is "_ = Some ?rec")
    and "drop (eocd + EOCDLEN) buf = ptr_bytes (cd_comment cd) (unat (cd_comment_len cd)) @ post"
    and "eocd + EOCDLEN + unat (cd_comment_len cd) + length post = length buf"
proof -
  have d: "drop eocd buf = ?rec @ ptr_bytes (cd_comment cd) (unat (cd_comment_len cd)) @ post"
    using assms(1) by (simp add: eocd_bytes_def)
  have l: "length ?rec = EOCDLEN" by simp
  have "length (drop eocd buf) = EOCDLEN + unat (cd_comment_len cd) + length post"
    using assms by (simp add: length_eocd_bytes)
  then show len: "eocd + EOCDLEN + unat (cd_comment_len cd) + length post = length buf" by simp
  show "mem_load buf eocd EOCDLEN = Some ?rec"
    using len by (simp add: mem_load_def d)
  have "drop (eocd + EOCDLEN) buf = drop EOCDLEN (drop eocd buf)" by (simp add: add.commute)
  also have "\<dots> = ptr_bytes (cd_comment cd) (unat (cd_comment_len cd)) @ post"
    unfolding d using l by (simp only: drop_append_exact)
  finally show "drop (eocd + EOCDLEN) buf = ptr_bytes (cd_comment cd) (unat (cd_comment_len cd)) @ post" .
qed

text \<open>At the end-of-directory record of a well-formed directory, \<open>_zip_readcdir\<close> reads the directory from
  whichever source it chooses.\<close>

lemma zip_readcdir_entries:
  assumes wf: "cdir_wf lib cd" and mt: "malloc_total lib"
    and rec: "drop eocd buf = eocd_bytes cd"
    and size: "unat (cd_size cd) = length (central_bytes lib (cd_entry cd))"
    and inbuf: "unat (cd_size cd) < eocd \<Longrightarrow>
        drop (eocd - unat (cd_size cd)) buf = central_bytes lib (cd_entry cd) @ eocd_bytes cd"
    and infile: "eocd \<le> unat (cd_size cd) \<Longrightarrow>
        stream_holds (clearerr fp\<lparr>fpos := unat (cd_offset cd)\<rparr>) (central_bytes lib (cd_entry cd))"
  shows "\<exists>fp'. zip_readcdir lib fp buf eocd (length buf) flags = (Inr cd, fp') \<and> fdata fp' = fdata fp"
proof -
  have com: "str_wf False (cd_comment cd) (cd_comment_len cd)" using wf by (simp add: cdir_wf_def)
  note r = eocd_record [of eocd buf cd "[]", simplified, OF rec com]
  have n: "unat (of_nat (length (cd_entry cd)) :: u16) = length (cd_entry cd)"
    using wf by (simp add: cdir_wf_def unat_of_nat)
  let ?new = "\<lparr>cd_entry = replicate (length (cd_entry cd)) zip_dirent_init, cd_size = cd_size cd,
      cd_offset = cd_offset cd, cd_comment = cd_comment cd, cd_comment_len = cd_comment_len cd\<rparr>"
  have com_read: "readcdir_comment lib buf eocd (cd_comment_len cd) = Inr (cd_comment cd)"
    using com mt r(2)
    by (auto simp: readcdir_comment_def str_wf_def zip_memdup_def malloc_total_def mem_load_def ptr_bytes_def
        split: option.splits)
  have com_len: "\<not> int (length buf) - int eocd - int EOCDLEN < int (unat (cd_comment_len cd))"
    "int (length buf) - int eocd - int EOCDLEN = int (unat (cd_comment_len cd))"
    "\<not> int (length buf) - int eocd - int EOCDLEN < 0"
    by (simp_all flip: r(3))
  have start: "zip_readcdir lib fp buf eocd (length buf) flags =
     (if unat (cd_size cd) < eocd
      then readcdir_loop lib ?new fp (Some (drop (eocd - unat (cd_size cd)) buf)) (unat (cd_size cd)) 0
      else let fp = (clearerr fp)\<lparr>fpos := unat (cd_offset cd)\<rparr>
           in readcdir_loop lib ?new fp None (unat (cd_size cd)) 0)"
    using com_len com_read mt
    by (simp add: zip_readcdir_def readcdir_entries_def r(1) le_simps le32_def [of 0] zip_cdir_new_def malloc_total_def n
        fseeko_def ftello_def clearerr_def Let_def)
  have es: "cd_entry cd \<noteq> []" "\<forall>e \<in> set (cd_entry cd). dirent_wf lib e" using wf by (simp_all add: cdir_wf_def)
  have cd: "?new\<lparr>cd_entry := [] @ cd_entry cd\<rparr> = cd" by simp
  show ?thesis
  proof (cases "unat (cd_size cd) < eocd")
    case True
    let ?src = "InBuf (drop (eocd - unat (cd_size cd)) buf)"
    have "holds ?src fp (central_bytes lib (cd_entry cd))" using inbuf [OF True] by auto
    from readcdir_loop_entries [OF es mt this size, of ?new "[]"] show ?thesis
      unfolding cd using start True by simp
  next
    case False
    have "holds InFile (clearerr fp\<lparr>fpos := unat (cd_offset cd)\<rparr>) (central_bytes lib (cd_entry cd))"
      using infile False by simp
    from readcdir_loop_entries [OF es mt this size, of ?new "[]"] show ?thesis
      unfolding cd using start False by (auto simp: clearerr_def)
  qed
qed

section \<open>Finding the directory\<close>

text \<open>Candidate positions: occurrences of the magic number that leave room for the record.\<close>

definition eocd_at :: "byte list \<Rightarrow> nat \<Rightarrow> bool" where
  "eocd_at buf i \<longleftrightarrow> occurs_at buf (length buf - 18) EOCD_MAGIC i"

lemma eocd_at_drop:
  "occurs_at (drop m buf) (nat (int (length buf) - int m - 18)) EOCD_MAGIC k \<longleftrightarrow> eocd_at buf (m + k)"
  by (auto simp: eocd_at_def occurs_at_def add.commute)

lemma fcd_loop_none:
  assumes "\<And>j. m \<le> j \<Longrightarrow> \<not> eocd_at buf j"
  shows "fcd_loop lib buf flags m st = st"
proof -
  have "int (length buf) - int m - 18 \<le> int (length (drop m buf))" by (simp add: of_nat_diff_if)
  from zip_memmem_cases [OF this, of EOCD_MAGIC] assms
  have "zip_memmem (drop m buf) (int (length buf) - int m - 18) EOCD_MAGIC = None"
    by (auto simp: eocd_at_drop split: option.splits)
  then show ?thesis by (subst fcd_loop.simps) simp
qed

lemma fcd_loop_sole:
  assumes "eocd_at buf e" and "\<And>j. eocd_at buf j \<Longrightarrow> j = e"
  shows "fcd_loop lib buf flags 0 st = fcd_candidate lib buf flags e st"
proof -
  have "\<exists>k. zip_memmem buf (int (length buf) - 18) EOCD_MAGIC = Some k \<and> eocd_at buf k"
    using zip_memmem_cases [of "int (length buf) - 18" buf EOCD_MAGIC] assms(1)
      eocd_at_drop [of 0 buf]
    by (auto split: option.splits)
  then have "zip_memmem buf (int (length buf) - 18) EOCD_MAGIC = Some e" using assms(2) by blast
  then show ?thesis
    using assms(2)
    by (subst fcd_loop.simps) (auto intro!: fcd_loop_none)
qed

lemma eocd_at_record:
  assumes "drop e buf = eocd_bytes cd" and "str_wf False (cd_comment cd) (cd_comment_len cd)"
  shows "eocd_at buf e"
proof -
  have "length (drop e buf) = EOCDLEN + unat (cd_comment_len cd)"
    using assms by (simp add: length_eocd_bytes)
  then have "e + 4 \<le> length buf - 18" by simp
  then show ?thesis
    by (simp add: eocd_at_def occurs_at_def assms(1) eocd_bytes_def)
qed

lemma zip_find_central_dir_sole:
  assumes rd: "\<And>fp. fdata fp = data \<Longrightarrow> fgood fp = g \<Longrightarrow>
      \<exists>fp'. zip_readcdir lib fp (drop (length data - CDBUFSIZE) data) e
              (length (drop (length data - CDBUFSIZE) data)) flags = (Inr cd, fp')"
    and at: "eocd_at (drop (length data - CDBUFSIZE) data) e"
    and sole: "\<And>j. eocd_at (drop (length data - CDBUFSIZE) data) j \<Longrightarrow> j = e"
    and fp: "fdata fp = data" "fgood fp = g" "length data \<le> g"
    and mt: "malloc_total lib" and nocheck: "\<not> flag_set flags ZIP_CHECKCONS"
  shows "\<exists>fp'. zip_find_central_dir lib fp flags (length data) = (Inr cd, fp')"
proof -
  let ?k = "length data - CDBUFSIZE"
  let ?fp1 = "(clearerr fp)\<lparr>fpos := ?k\<rparr>"
  let ?fp2 = "?fp1\<lparr>fpos := length data\<rparr>"
  have seek: "fseeko fp (- int (if length data < CDBUFSIZE then length data else CDBUFSIZE)) SEEK_END
      = (0, fp\<lparr>fpos := ?k\<rparr>)"
    using fp(1) by (auto simp: fseeko_def)
  have read: "fread CDBUFSIZE (clearerr (fp\<lparr>fpos := ?k\<rparr>)) = (drop ?k data, ?fp2)"
    using fp by (simp add: fread_healthy clearerr_def)
  obtain fp' where r: "zip_readcdir lib ?fp2 (drop ?k data) e (length (drop ?k data)) flags = (Inr cd, fp')"
    using rd [of ?fp2] fp by (auto simp: clearerr_def)
  show ?thesis
    unfolding zip_find_central_dir_def Let_def seek
    using mt nocheck r read
    by (simp add: malloc_total_def fcd_loop_sole [OF at sole] fcd_candidate_def clearerr_def)
qed

text \<open>The part of the file that \<open>_zip_find_central_dir\<close> searches.\<close>

definition file_tail :: "byte list \<Rightarrow> byte list" where
  "file_tail data = drop (length data - CDBUFSIZE) data"

definition sole_eocd :: "byte list \<Rightarrow> bool" where
  "sole_eocd data \<longleftrightarrow> (\<forall>i j. eocd_at (file_tail data) i \<longrightarrow> eocd_at (file_tail data) j \<longrightarrow> i = j)"

lemma zip_find_placed:
  assumes wf: "cdir_wf lib cd" and mt: "malloc_total lib"
    and data: "fdata fp = pre @ central_bytes lib (cd_entry cd) @ eocd_bytes (placed lib (length pre) cd)"
    and good: "length (fdata fp) \<le> fgood fp" and small: "length (fdata fp) < 2 ^ 32"
    and sole: "sole_eocd (fdata fp)" and nocheck: "\<not> flag_set flags ZIP_CHECKCONS"
  shows "\<exists>fp'. zip_find_central_dir lib fp flags (length (fdata fp)) = (Inr (placed lib (length pre) cd), fp')"
proof -
  let ?cb = "central_bytes lib (cd_entry cd)"
  let ?cd = "placed lib (length pre) cd"
  let ?k = "length (fdata fp) - CDBUFSIZE"
  let ?buf = "drop ?k (fdata fp)"
  have es: "cd_entry ?cd = cd_entry cd" by (simp add: placed_def)
  have wf': "cdir_wf lib ?cd" using wf by (simp add: cdir_wf_def placed_def)
  have com: "str_wf False (cd_comment ?cd) (cd_comment_len ?cd)" using wf' by (simp add: cdir_wf_def)
  have len: "length (fdata fp) = length pre + length ?cb + EOCDLEN + unat (cd_comment_len ?cd)"
    by (simp add: data length_eocd_bytes [OF com])
  moreover have "unat (cd_comment_len ?cd) < 65536" by (rule unat16_bound)
  ultimately have k: "?k \<le> length pre + length ?cb" by simp
  let ?e = "length pre + length ?cb - ?k"
  have size: "unat (cd_size ?cd) = length ?cb" and off: "unat (cd_offset ?cd) = length pre"
    using small len by (simp_all add: placed_def unat_of_nat)
  have rec: "drop ?e ?buf = eocd_bytes ?cd"
    using k by (simp add: data)
  have inbuf: "drop (?e - unat (cd_size ?cd)) ?buf = ?cb @ eocd_bytes ?cd" if "unat (cd_size ?cd) < ?e"
  proof -
    have "?e - unat (cd_size ?cd) + ?k = length pre" using that k by (simp add: size)
    then show ?thesis by (simp only: drop_drop) (simp add: data)
  qed
  have "\<exists>fp'. zip_readcdir lib g ?buf ?e (length ?buf) flags = (Inr ?cd, fp')"
    if "fdata g = fdata fp" "fgood g = fgood fp" for g
  proof -
    have "stream_holds (clearerr g\<lparr>fpos := unat (cd_offset ?cd)\<rparr>) (central_bytes lib (cd_entry ?cd))"
      using that good by (simp add: stream_holds_def clearerr_def off es) (simp add: data)
    then show ?thesis
      using zip_readcdir_entries [OF wf' mt rec, of g flags] inbuf size by (auto simp: es)
  qed
  moreover have "eocd_at ?buf ?e" by (rule eocd_at_record [OF rec com])
  moreover have "j = ?e" if "eocd_at ?buf j" for j
    using sole that \<open>eocd_at ?buf ?e\<close> by (simp add: sole_eocd_def file_tail_def)
  ultimately show ?thesis
    using zip_find_central_dir_sole [of "fdata fp" "fgood fp"] good mt nocheck by blast
qed

section \<open>Memory safety of the search\<close>

lemma opt_readfpstr_no_UB: "fst (opt_readfpstr lib fp len nulp) \<noteq> Inl UB"
  by (auto simp: opt_readfpstr_def zip_readfpstr_def Let_def split: prod.splits sum.splits)

lemma dirent_strings_file_no_UB: "fst (dirent_strings_file lib zde fp) \<noteq> Inl UB"
  using opt_readfpstr_no_UB
  by (auto simp: dirent_strings_file_def split: prod.splits sum.splits) (metis fst_conv)+

lemma zip_dirent_read_file_no_UB: "fst (zip_dirent_read lib fp None leftp local) \<noteq> Inl UB"
proof -
  let ?n = "if local then LENTRYSIZE else CDENTRYSIZE"
  obtain buf fp' where r: "fread ?n fp = (buf, fp')" by (cases "fread ?n fp")
  show ?thesis
  proof (cases "length buf < ?n")
    case True
    then show ?thesis using r by (simp add: zip_dirent_read_def Let_def)
  next
    case False
    then have "?n \<le> length buf" by simp
    then show ?thesis
    proof (cases rule: dirent_fields_cases [where lib = lib and local = local])
      case 1
      then show ?thesis using r False by (simp add: zip_dirent_read_def Let_def)
    next
      case (2 zde)
      then show ?thesis
        using r False dirent_strings_file_no_UB [of lib zde fp']
        by (auto simp: zip_dirent_read_def Let_def split: prod.splits sum.splits)
    qed
  qed
qed

lemma zip_dirent_read_no_UB:
  assumes "\<And>cur. bufp = Some cur \<Longrightarrow> left \<le> length cur"
  shows "fst (zip_dirent_read lib fp bufp (Some left) local) \<noteq> Inl UB"
proof (cases bufp)
  case None
  then show ?thesis by (simp add: zip_dirent_read_file_no_UB)
next
  case (Some cur)
  from assms [OF Some] show ?thesis
    unfolding Some by (rule zip_dirent_read_buf_cases [where lib = lib and fp = fp and local = local]) auto
qed

lemma zip_dirent_read_rest:
  assumes "zip_dirent_read lib fp bufp (Some left) local = (Inr (zde, bufp', left'), fp')"
    and "\<And>cur. bufp = Some cur \<Longrightarrow> left \<le> length cur" and "bufp' = Some cur'"
  shows "the left' \<le> length cur'"
proof (cases bufp)
  case None
  then show ?thesis
    using assms(1,3) by (auto simp: zip_dirent_read_def Let_def split: if_splits prod.splits sum.splits)
next
  case (Some cur)
  from assms(2) [OF Some] show ?thesis
    by (rule zip_dirent_read_buf_cases [where lib = lib and fp = fp and local = local])
      (use assms(1,3) Some assms(2) [OF Some] in auto)
qed

lemma readcdir_loop_no_UB:
  assumes "malloc_total lib" and "i \<le> length (cd_entry cd)"
    and "\<And>cur. bufp = Some cur \<Longrightarrow> left \<le> length cur"
  shows "fst (readcdir_loop lib cd fp bufp left i) \<noteq> Inl UB"
  using assms
proof (induction lib cd fp bufp left i rule: readcdir_loop.induct)
  case (1 lib cd fp bufp left i)
  define cd' where "cd' = (if i = length (cd_entry cd) \<and> left > 0
       then (case zip_cdir_grow lib cd (length (cd_entry cd) + 0x10000) of Inl _ \<Rightarrow> cd | Inr cd' \<Rightarrow> cd')
       else cd)"
  have grown: "i < length (cd_entry cd') \<or> left = 0"
    using 1(2,3) by (auto simp: cd'_def zip_cdir_grow_def malloc_total_def)
  note rd = zip_dirent_read_no_UB [of bufp left lib fp False, OF 1(4)]
  obtain r fp' where r: "zip_dirent_read lib fp bufp (Some left) False = (r, fp')" by fastforce
  show ?case
  proof (cases r)
    case (Inl e)
    then show ?thesis using r rd by (subst readcdir_loop.simps) (simp add: Let_def)
  next
    case (Inr x)
    obtain zde bufp' left' where x: "x = (zde, bufp', left')" by (cases x)
    have r': "zip_dirent_read lib fp bufp (Some left) False = (Inr (zde, bufp', left'), fp')"
      using r Inr x by simp
    from zip_dirent_read_left_less [OF r'] have "0 < left" by auto
    with grown have i: "i < length (cd_entry cd')" by simp
    have step: "readcdir_loop lib cd fp bufp left i =
       (if Suc i < length (cd_entry cd')
        then readcdir_loop lib (cd'\<lparr>cd_entry := (cd_entry cd')[i := zde]\<rparr>) fp' bufp' (the left') (Suc i)
        else (Inr (cd'\<lparr>cd_entry := (cd_entry cd')[i := zde]\<rparr>), fp'))"
      using i by (subst readcdir_loop.simps) (simp add: r' cd'_def [symmetric] Let_def)
    have "fst (readcdir_loop lib (cd'\<lparr>cd_entry := (cd_entry cd')[i := zde]\<rparr>) fp' bufp' (the left') (Suc i))
        \<noteq> Inl UB" if "Suc i < length (cd_entry cd')"
      using that i 1(2) zip_dirent_read_rest [OF r' 1(4)]
      by (intro "1.IH" [OF cd'_def r' [symmetric] refl refl refl]) auto
    then show ?thesis unfolding step by auto
  qed
qed

lemma readcdir_comment_no_UB:
  assumes "eocd + EOCDLEN + unat n \<le> length buf"
  shows "readcdir_comment lib buf eocd n \<noteq> Inl UB"
  using assms by (auto simp: readcdir_comment_def zip_memdup_def mem_load_def bind_res_Inl_iff)

lemma readcdir_entries_no_UB:
  assumes "malloc_total lib" and "eocd \<le> length buf"
  shows "fst (readcdir_entries lib cd fp buf eocd) \<noteq> Inl UB"
proof -
  have "fst (readcdir_loop lib cd fp (Some (drop (eocd - unat (cd_size cd)) buf)) (unat (cd_size cd)) 0)
      \<noteq> Inl UB" if "unat (cd_size cd) < eocd"
    using that assms(2) by (intro readcdir_loop_no_UB [OF assms(1)]) auto
  moreover have "fst (readcdir_loop lib cd g None (unat (cd_size cd)) 0) \<noteq> Inl UB" for g
    by (intro readcdir_loop_no_UB [OF assms(1)]) auto
  ultimately show ?thesis by (simp add: readcdir_entries_def Let_def)
qed

lemma zip_readcdir_no_UB:
  assumes "malloc_total lib"
  shows "fst (zip_readcdir lib fp buf eocd (length buf) flags) \<noteq> Inl UB"
proof (cases "eocd + EOCDLEN \<le> length buf")
  case False
  then show ?thesis by (simp add: zip_readcdir_def Let_def)
next
  case True
  then have load: "mem_load buf eocd EOCDLEN = Some (take EOCDLEN (drop eocd buf))" (is "_ = Some ?rec")
    by (simp add: mem_load_def)
  have comm: "readcdir_comment lib buf eocd (rd2 (drop 20 ?rec)) \<noteq> Inl UB"
    if "\<not> int (length buf) - int eocd - int EOCDLEN < int (unat (rd2 (drop 20 ?rec)))"
    using that by (intro readcdir_comment_no_UB) linarith
  have ent: "fst (readcdir_entries lib cd g buf eocd) \<noteq> Inl UB" for cd g
    using True by (intro readcdir_entries_no_UB [OF assms]) simp
  obtain cd where new: "zip_cdir_new lib (unat (rd2 (drop 10 ?rec))) = Inr cd"
    using assms by (simp add: zip_cdir_new_def malloc_total_def)
  show ?thesis
  proof (cases "int (length buf) - int eocd - int EOCDLEN < int (unat (rd2 (drop 20 ?rec)))")
    case True
    then show ?thesis by (simp add: zip_readcdir_def load new Let_def)
  next
    case False
    then show ?thesis
      using comm ent
      by (cases "readcdir_comment lib buf eocd (rd2 (drop 20 ?rec))")
        (simp_all add: zip_readcdir_def load new Let_def)
  qed
qed

lemma checkcons_loop_no_UB: "fst (checkcons_loop lib cdoff es mn mx fp) \<noteq> Inl UB"
proof (induction es arbitrary: mn mx fp)
  case Nil
  then show ?case by simp
next
  case (Cons e es)
  have rd: "zip_dirent_read lib g None None True \<noteq> (Inl UB, g')" for g g'
    using zip_dirent_read_file_no_UB [of lib g None True] by auto
  show ?case
    using Cons rd by (auto simp: Let_def split: prod.splits sum.splits)
qed

lemma zip_checkcons_no_UB: "fst (zip_checkcons lib fp cd) \<noteq> Inl UB"
  using checkcons_loop_no_UB
  by (auto simp: zip_checkcons_def Let_def split: prod.splits sum.splits) (metis fst_conv)+

definition fcd_sound :: "fcd_state \<Rightarrow> bool" where
  "fcd_sound st \<longleftrightarrow> \<not> fcd_ub st \<and> fcd_zerr st \<noteq> UB"

lemma fcd_fail_sound: "fcd_sound st \<Longrightarrow> e \<noteq> UB \<Longrightarrow> fcd_sound (fcd_fail st e fp)"
  by (simp add: fcd_sound_def fcd_fail_def)

lemma checkcons_value_sound: "fcd_sound st \<Longrightarrow> fcd_sound (snd (checkcons_value lib cd st))"
  using zip_checkcons_no_UB [of lib "fcd_fp st" cd]
  by (auto simp: checkcons_value_def intro!: fcd_fail_sound split: prod.splits sum.splits)
    (simp add: fcd_sound_def)

lemma fcd_sound_update [simp]:
  "fcd_sound (st\<lparr>fcd_fp := fp\<rparr>) = fcd_sound st" "fcd_sound (st\<lparr>fcd_best := b\<rparr>) = fcd_sound st"
  "fcd_sound (st\<lparr>fcd_cdir := c\<rparr>) = fcd_sound st" "fcd_sound (st\<lparr>fcd_cdir := c, fcd_best := b\<rparr>) = fcd_sound st"
  by (simp_all add: fcd_sound_def)

lemma fcd_candidate_sound:
  assumes "malloc_total lib" and "fcd_sound st"
  shows "fcd_sound (fcd_candidate lib buf flags eocd st)"
proof -
  obtain r fp where r: "zip_readcdir lib (fcd_fp st) buf eocd (length buf) flags = (r, fp)" by fastforce
  show ?thesis
  proof (cases r)
    case (Inl e)
    with r zip_readcdir_no_UB [OF assms(1), of "fcd_fp st" buf eocd flags] have "e \<noteq> UB" by auto
    then show ?thesis using r Inl assms(2) by (simp add: fcd_candidate_def fcd_fail_sound)
  next
    case (Inr cdirnew)
    show ?thesis
      using r Inr assms(2)
      by (simp add: fcd_candidate_def Let_def case_prod_beta checkcons_value_sound split: option.split)
  qed
qed

lemma fcd_loop_sound:
  "malloc_total lib \<Longrightarrow> fcd_sound st \<Longrightarrow> fcd_sound (fcd_loop lib buf flags m st)"
proof (induction lib buf flags m st rule: fcd_loop.induct)
  case (1 lib buf flags m st)
  show ?case
    using 1 fcd_candidate_sound
    by (subst fcd_loop.simps) (auto split: option.splits)
qed

lemma zip_find_central_dir_no_UB:
  assumes "malloc_total lib"
  shows "fst (zip_find_central_dir lib fp flags len) \<noteq> Inl UB"
proof -
  let ?st = "\<lambda>fp. \<lparr>fcd_cdir = None, fcd_best = -1, fcd_zerr = ZE ZIP_ER_NOZIP 0, fcd_fp = fp, fcd_ub = False\<rparr>"
  have "fcd_sound (fcd_loop lib buf flags 0 (?st g))" for buf g
    by (rule fcd_loop_sound [OF assms]) (simp add: fcd_sound_def)
  then show ?thesis
    by (auto simp: zip_find_central_dir_def Let_def fcd_sound_def split: prod.splits option.splits)
qed

section \<open>How many entries are read\<close>

lemma readcdir_loop_count:
  assumes "readcdir_loop lib cd fp bufp left i = (Inr cd', fp')" and "i < length (cd_entry cd)"
  shows "length (cd_entry cd') = length (cd_entry cd)"
  using assms
proof (induction lib cd fp bufp left i arbitrary: cd' fp' rule: readcdir_loop.induct)
  case (1 lib cd fp bufp left i)
  obtain r g where r: "zip_dirent_read lib fp bufp (Some left) False = (r, g)" by fastforce
  show ?case
  proof (cases r)
    case (Inl e)
    then show ?thesis using 1(2,3) r by (subst (asm) readcdir_loop.simps) (simp add: Let_def)
  next
    case (Inr x)
    obtain zde bufp' left' where x: "x = (zde, bufp', left')" by (cases x)
    let ?cd = "cd\<lparr>cd_entry := (cd_entry cd)[i := zde]\<rparr>"
    have eq: "(if Suc i < length (cd_entry cd) then readcdir_loop lib ?cd g bufp' (the left') (Suc i)
        else (Inr ?cd, g)) = (Inr cd', fp')"
      using 1(2,3) r Inr x by (subst (asm) readcdir_loop.simps) (simp add: Let_def)
    show ?thesis
    proof (cases "Suc i < length (cd_entry cd)")
      case True
      have "length (cd_entry cd') = length (cd_entry ?cd)"
        using eq True 1(3) r Inr x by (intro "1.IH" [OF refl, of r g x zde "(bufp', left')" bufp' left' ?cd]) auto
      then show ?thesis by simp
    next
      case False
      then show ?thesis using eq by auto
    qed
  qed
qed

section \<open>What the consistency check guarantees\<close>

lemma opt_readfpstr_data [simp]: "fdata (snd (opt_readfpstr lib fp len nulp)) = fdata fp"
  by (auto simp: opt_readfpstr_def zip_readfpstr_def Let_def dest!: fread_data_eq
      split: prod.splits sum.splits)

lemma dirent_strings_file_data [simp]: "fdata (snd (dirent_strings_file lib zde fp)) = fdata fp"
proof -
  have d: "opt_readfpstr lib g len nulp = (r, g') \<Longrightarrow> fdata g' = fdata g" for g len nulp r g'
    using opt_readfpstr_data [of lib g len nulp] by simp
  show ?thesis
    by (auto simp: dirent_strings_file_def dest!: d split: prod.splits sum.splits)
qed

lemma zip_dirent_read_data [simp]: "fdata (snd (zip_dirent_read lib fp bufp leftp local)) = fdata fp"
proof -
  have d: "dirent_strings_file lib zde g = (x, g') \<Longrightarrow> fdata g' = fdata g" for zde g x g'
    using dirent_strings_file_data [of lib zde g] by simp
  show ?thesis
    by (auto simp: zip_dirent_read_def Let_def dest!: d fread_data_eq split: prod.splits sum.splits option.splits)
qed

text \<open>A little-endian number.\<close>

fun le_num :: "byte list \<Rightarrow> nat" where
  "le_num [] = 0"
| "le_num (b # bs) = unat b + 256 * le_num bs"

text \<open>The bytes \<open>h\<close> start with a local header that says the same as the directory entry \<open>e\<close>, written out over the layout of the
  header: the signature at 0, the version at 4, the flags at 6, the method at 8, time and date at 10 and 12, the checksum and the sizes at
  14, 18 and 22, the length of the name at 26 and the name at 30, in which a zero byte counts as a space.  When the flags
  announce a data descriptor (bit 3) checksum and sizes are zero.\<close>

definition local_header_of :: "clib \<Rightarrow> byte list \<Rightarrow> zip_dirent \<Rightarrow> bool" where
  "local_header_of lib h e \<longleftrightarrow>
     30 + unat (zde_filename_len e) \<le> length h
     \<and> take 4 h = [0x50, 0x4b, 0x03, 0x04]
     \<and> le_num (take 2 (drop 4 h)) = unat (zde_version_needed e)
     \<and> le_num (take 2 (drop 8 h)) = unat (zde_comp_method e)
     \<and> zip_d2u_time lib (of_nat (le_num (take 2 (drop 10 h)))) (of_nat (le_num (take 2 (drop 12 h)))) = zde_last_mod e
     \<and> (le_num (take 4 (drop 14 h)), le_num (take 4 (drop 18 h)), le_num (take 4 (drop 22 h))) =
         (if le_num (take 2 (drop 6 h)) div 8 mod 2 = 1 then (0, 0, 0)
          else (unat (zde_crc e), unat (zde_comp_size e), unat (zde_uncomp_size e)))
     \<and> le_num (take 2 (drop 26 h)) = unat (zde_filename_len e)
     \<and> zde_filename e = Some (map (\<lambda>c. if c = 0 then 32 else c) (take (unat (zde_filename_len e)) (drop 30 h)))"

lemma unat8_bound: "unat (b :: byte) < 256"
  using unsigned_less [of b] by simp

lemma unat_ucast8: "unat (ucast (b :: byte) :: u16) = unat b" "unat (ucast b :: u32) = unat b"
  using unat8_bound [of b] by (simp_all add: unsigned_ucast_eq take_bit_nat_eq_self)

lemma shift_in_byte:
  assumes "unat (x :: u32) < 2 ^ 24"
  shows "unat (push_bit 8 x + ucast (b :: byte)) = 256 * unat x + unat b"
proof -
  have "push_bit 8 x + ucast b = (of_nat (256 * unat x + unat b) :: u32)" by (simp add: push_bit_eq_mult)
  then show ?thesis using assms unat8_bound [of b] by (simp only: unsigned_of_nat) (simp add: take_bit_nat_eq_self)
qed

lemma le_num_rd2: "2 \<le> length a \<Longrightarrow> unat (rd2 a) = le_num (take 2 a)"
proof (cases a rule: zip_read2.cases)
  case (1 a0 a1 r)
  have "rd2 a = of_nat (unat a0 + 256 * unat a1)" using 1 by (simp add: rd2_def push_bit_eq_mult)
  moreover have "unat a0 + 256 * unat a1 < 2 ^ 16" using unat8_bound [of a0] unat8_bound [of a1] by simp
  ultimately have "unat (rd2 a) = unat a0 + 256 * unat a1" by (simp only: unsigned_of_nat) (simp add: take_bit_nat_eq_self)
  moreover have "take 2 a = [a0, a1]" using 1 by (simp add: eval_nat_numeral)
  ultimately show ?thesis by simp
qed auto

lemma le_num_rd4: "4 \<le> length a \<Longrightarrow> unat (rd4 a) = le_num (take 4 a)"
proof (cases a rule: zip_read4.cases)
  case (1 a0 a1 a2 a3 r)
  note b = unat8_bound [of a0] unat8_bound [of a1] unat8_bound [of a2] unat8_bound [of a3]
  let ?x = "push_bit 8 (ucast a3) + ucast a2 :: u32"
  have 2: "unat ?x = 256 * unat a3 + unat a2"
    using shift_in_byte [of "ucast a3" a2] b(4) by (simp add: unat_ucast8)
  then have 3: "unat (push_bit 8 ?x + ucast a1) = 256 * (256 * unat a3 + unat a2) + unat a1"
    using shift_in_byte [of ?x a1] b(3,4) by simp
  then have "unat (push_bit 8 (push_bit 8 ?x + ucast a1) + ucast a0) = 256 * (256 * (256 * unat a3 + unat a2) + unat a1) + unat a0"
    using shift_in_byte [of "push_bit 8 ?x + ucast a1" a0] b by simp
  moreover have "take 4 a = [a0, a1, a2, a3]" using 1 by (simp add: eval_nat_numeral)
  ultimately show ?thesis using 1 by (simp add: rd4_def)
qed auto

lemma dirent_fields_local:
  assumes "30 \<le> length h" and "dirent_fields lib True h = Inr (zde, r)"
  shows "take 4 h = LOCAL_MAGIC" and "zde_version_needed zde = rd2 (drop 4 h)" and "zde_bitflags zde = rd2 (drop 6 h)"
    and "zde_comp_method zde = rd2 (drop 8 h)" and "zde_last_mod zde = zip_d2u_time lib (rd2 (drop 10 h)) (rd2 (drop 12 h))"
    and "zde_crc zde = rd4 (drop 14 h)" and "zde_comp_size zde = rd4 (drop 18 h)" and "zde_uncomp_size zde = rd4 (drop 22 h)"
    and "zde_filename_len zde = rd2 (drop 26 h)"
  using assms by (auto simp: dirent_fields_def dirent_magic_def mem_load_def zip_read2_enough zip_read4_enough split: if_splits)

text \<open>What reading a local header from the file says about the bytes at the position.\<close>

lemma zip_dirent_read_local:
  assumes "zip_dirent_read lib fp None None True = (Inr (temp, b, l), fp')"
  obtains zde r where "30 \<le> length (drop (fpos fp) (fdata fp))"
    "dirent_fields lib True (take 30 (drop (fpos fp) (fdata fp))) = Inr (zde, r)"
    "temp = zde\<lparr>zde_filename := zde_filename temp, zde_extrafield := zde_extrafield temp, zde_comment := zde_comment temp\<rparr>"
    "zde_filename_len zde \<noteq> 0 \<Longrightarrow> 30 + unat (zde_filename_len zde) \<le> length (drop (fpos fp) (fdata fp)) \<and>
      zde_filename temp = Some (nul_to_space (take (unat (zde_filename_len zde)) (drop 30 (drop (fpos fp) (fdata fp)))))"
    "zde_filename_len zde = 0 \<Longrightarrow> zde_filename temp = None"
proof -
  let ?h = "drop (fpos fp) (fdata fp)"
  obtain buf fp1 where f: "fread 30 fp = (buf, fp1)" by fastforce
  have buf: "\<not> length buf < 30"
  proof
    assume "length buf < 30"
    then show False using assms f by (simp add: zip_dirent_read_def left_short_def)
  qed
  have "length buf \<le> 30" and f0: "buf = take (length buf) ?h" "fpos fp1 = fpos fp + length buf" "fdata fp1 = fdata fp"
    using fread_length [of 30 fp] fread_fst_take [of 30 fp] fread_pos [of 30 fp] fread_data [of 30 fp] f by simp_all
  with buf have l30: "length buf = 30" by simp
  have "30 \<le> length ?h" using arg_cong [OF f0(1), of length] l30 by simp
  then have f1: "buf = take 30 ?h" "30 \<le> length ?h" "fpos fp1 = fpos fp + 30" "fdata fp1 = fdata fp"
    using f0(1) [unfolded l30] f0(2,3) l30 by simp_all
  obtain zde r where d: "dirent_fields lib True buf = Inr (zde, r)" "\<exists>g. dirent_strings_file lib zde fp1 = (Inr temp, g)"
    using assms f buf
    by (auto simp: zip_dirent_read_def left_short_def split: sum.splits prod.splits)
  obtain x g where x: "opt_readfpstr lib fp1 (zde_filename_len zde) True = (Inr x, g)" "zde_filename temp = x"
    and t: "temp = zde\<lparr>zde_filename := zde_filename temp, zde_extrafield := zde_extrafield temp, zde_comment := zde_comment temp\<rparr>"
    using d(2) by (auto simp: dirent_strings_file_def split: sum.splits prod.splits)
  let ?n = "unat (zde_filename_len zde)"
  have n: "30 + ?n \<le> length ?h \<and> zde_filename temp = Some (nul_to_space (take ?n (drop 30 ?h)))" if "zde_filename_len zde \<noteq> 0"
  proof -
    obtain bs fp2 where g: "fread ?n fp1 = (bs, fp2)" by fastforce
    have bs: "\<not> length bs < ?n" "x = Some (nul_to_space bs)"
      using x(1) that g by (auto simp: opt_readfpstr_def zip_readfpstr_def split: if_splits)
    have b: "length bs \<le> ?n" "bs = take (length bs) (drop (fpos fp1) (fdata fp1))"
      using fread_length [of ?n fp1] fread_fst_take [of ?n fp1] g by simp_all
    with bs have l: "length bs = ?n" by simp
    with b(2) have bs': "bs = take ?n (drop 30 ?h)" by (simp add: f1(3,4) add.commute)
    with l have "?n \<le> length (drop 30 ?h)" by (metis length_take min.cobounded1)
    then show ?thesis using f1(2) bs(2) bs' x(2) by simp
  qed
  have "zde_filename temp = None" if "zde_filename_len zde = 0" using x that by (simp add: opt_readfpstr_def)
  then show ?thesis using that f1(1,2) d(1) t n by simp
qed

lemma headercomp_local:
  assumes "zip_headercomp e False temp True"
  shows "zde_version_needed temp = zde_version_needed e" and "zde_comp_method temp = zde_comp_method e"
    and "zde_last_mod temp = zde_last_mod e" and "zde_filename_len temp = zde_filename_len e"
    and "zde_filename temp = zde_filename e" and "zde_filename temp \<noteq> None"
    and "(zde_crc temp, zde_comp_size temp, zde_uncomp_size temp) =
      (if flag_set (zde_bitflags temp) ZIP_GPBF_DATA_DESCRIPTOR then (0, 0, 0)
       else (zde_crc e, zde_comp_size e, zde_uncomp_size e))"
  using assms by (auto simp: zip_headercomp_def Let_def sizes_zero_def split: if_splits)

lemma flag_descriptor: "flag_set (w :: u16) ZIP_GPBF_DATA_DESCRIPTOR \<longleftrightarrow> unat w div 8 mod 2 = 1"
proof -
  have "(8 :: u16) = 2 ^ 3" by simp
  then have "w AND 8 \<noteq> 0 \<longleftrightarrow> bit w 3" by (simp only: and_exp_eq_0_iff_not_bit) simp
  also have "\<dots> \<longleftrightarrow> bit (unat w) 3" by (simp add: bit_unsigned_iff)
  also have "\<dots> \<longleftrightarrow> unat w div 8 mod 2 = 1" by (simp add: bit_iff_odd odd_iff_mod_2_eq_one)
  finally show ?thesis by (simp add: flag_set_def)
qed

lemma read_and_compared:
  assumes "zip_dirent_read lib fp None None True = (Inr (temp, b, l), fp')" and "zip_headercomp e False temp True"
  shows "local_header_of lib (drop (fpos fp) (fdata fp)) e"
  using assms(1)
proof (cases rule: zip_dirent_read_local)
  case (1 zde r)
  define h where "h = drop (fpos fp) (fdata fp)"
  note hc = headercomp_local [OF assms(2)]
  have h30: "30 \<le> length (take 30 h)" "30 \<le> length h" using 1(1) by (simp_all add: h_def)
  note fs = dirent_fields_local [OF h30(1) 1(2) [folded h_def]]
  have eq: "zde_version_needed zde = zde_version_needed temp" "zde_bitflags zde = zde_bitflags temp"
      "zde_comp_method zde = zde_comp_method temp" "zde_last_mod zde = zde_last_mod temp" "zde_crc zde = zde_crc temp"
      "zde_comp_size zde = zde_comp_size temp" "zde_uncomp_size zde = zde_uncomp_size temp" "zde_filename_len zde = zde_filename_len temp"
    by (subst 1(3); simp)+
  have r2: "unat (rd2 (drop i (take 30 h))) = le_num (take 2 (drop i h))" "of_nat (le_num (take 2 (drop i h))) = rd2 (drop i (take 30 h))"
    if "i \<le> 28" for i
  proof -
    have "take 2 (drop i (take 30 h)) = take 2 (drop i h)" "2 \<le> length (drop i (take 30 h))"
      using that h30 by (simp_all add: drop_take min_absorb1)
    with le_num_rd2 show "unat (rd2 (drop i (take 30 h))) = le_num (take 2 (drop i h))" by metis
    then show "of_nat (le_num (take 2 (drop i h))) = rd2 (drop i (take 30 h))" by (metis of_nat_unat ucast_id)
  qed
  have r4: "unat (rd4 (drop i (take 30 h))) = le_num (take 4 (drop i h))" if "i \<le> 26" for i
  proof -
    have "take 4 (drop i (take 30 h)) = take 4 (drop i h)" "4 \<le> length (drop i (take 30 h))"
      using that h30 by (simp_all add: drop_take min_absorb1)
    with le_num_rd4 show ?thesis by metis
  qed
  have name: "zde_filename_len zde \<noteq> 0" using 1(5) hc(6) by auto
  have "take 4 h = [0x50, 0x4b, 0x03, 0x04]" using fs(1) by (simp add: min_def)
  moreover have "le_num (take 2 (drop 4 h)) = unat (zde_version_needed e)" "le_num (take 2 (drop 8 h)) = unat (zde_comp_method e)"
      "le_num (take 2 (drop 26 h)) = unat (zde_filename_len e)"
    using fs eq hc(1,2,4) r2 by simp_all
  moreover have "zip_d2u_time lib (of_nat (le_num (take 2 (drop 10 h)))) (of_nat (le_num (take 2 (drop 12 h)))) = zde_last_mod e"
    using fs(5) eq(4) hc(3) r2(2) by simp
  moreover have "flag_set (zde_bitflags temp) ZIP_GPBF_DATA_DESCRIPTOR \<longleftrightarrow> le_num (take 2 (drop 6 h)) div 8 mod 2 = 1"
    using flag_descriptor fs(3) eq(2) r2(1) [of 6] by simp
  then have "(le_num (take 4 (drop 14 h)), le_num (take 4 (drop 18 h)), le_num (take 4 (drop 22 h))) =
         (if le_num (take 2 (drop 6 h)) div 8 mod 2 = 1 then (0, 0, 0)
          else (unat (zde_crc e), unat (zde_comp_size e), unat (zde_uncomp_size e)))"
    using hc(7) fs(6-8) eq(5-7) r4 [of 14] r4 [of 18] r4 [of 22] by (auto split: if_splits)
  moreover have "30 + unat (zde_filename_len e) \<le> length h"
      "zde_filename e = Some (map (\<lambda>c. if c = 0 then 32 else c) (take (unat (zde_filename_len e)) (drop 30 h)))"
    using 1(4) [OF name] eq(8) hc(4,5) by (simp_all add: h_def nul_to_space_def)
  ultimately show ?thesis unfolding h_def [symmetric] local_header_of_def by blast
qed

lemma checkcons_loop_sound:
  assumes "checkcons_loop lib cdoff es mn mx fp = (Inr r, fp')" and "e \<in> set es"
  shows "entry_end e \<le> cdoff \<and> local_header_of lib (drop (unat (zde_offset e)) (fdata fp)) e"
  using assms
proof (induction es arbitrary: mn mx fp)
  case Nil
  then show ?case by simp
next
  case (Cons x es)
  let ?mn = "if zde_offset x < mn then zde_offset x else mn"
  let ?mx = "if entry_end x > mx then entry_end x else mx"
  let ?fp = "fp\<lparr>fpos := unat (zde_offset x)\<rparr>"
  have seek: "fseeko fp (uint (zde_offset x)) SEEK_SET = (0, ?fp)" by (simp add: fseeko_def)
  obtain q g where q: "zip_dirent_read lib ?fp None None True = (q, g)" by fastforce
  from Cons.prems(1) have mx: "\<not> ?mx > cdoff" "\<not> ?mn > cdoff"
    by (auto simp: Let_def split: if_splits)
  then have unf: "(case q of Inl err \<Rightarrow> (Inl err, g) | Inr (temp, _, _) \<Rightarrow>
      if \<not> zip_headercomp x False temp True then (Inl (ZE ZIP_ER_INCONS 0), g)
      else checkcons_loop lib cdoff es ?mn ?mx g) = (Inr r, fp')"
    using Cons.prems(1) q seek by (simp add: Let_def split: sum.splits prod.splits)
  then obtain temp b l where t: "q = Inr (temp, b, l)" and hc: "zip_headercomp x False temp True"
    and rest: "checkcons_loop lib cdoff es ?mn ?mx g = (Inr r, fp')"
    by (auto split: sum.splits if_splits)
  have g: "fdata g = fdata fp" using zip_dirent_read_data [of lib ?fp None None True] q by simp
  show ?case
  proof (cases "e = x")
    case True
    have "entry_end x \<le> cdoff" using mx(1) by (auto split: if_splits)
    moreover have "local_header_of lib (drop (unat (zde_offset x)) (fdata fp)) x"
      using read_and_compared [of lib ?fp temp b l g x] q t hc by simp
    ultimately show ?thesis using True by simp
  next
    case False
    with Cons.prems(2) Cons.IH [OF rest] show ?thesis by (simp add: g)
  qed
qed

section \<open>Properties\<close>

text \<open>\<open>_zip_memmem\<close> returns the first offset at which \<open>little\<close> occurs within the first \<open>biglen\<close> bytes,
  and NULL exactly when there is none.\<close>

theorem zip_memmem_first:
  assumes "biglen \<le> int (length big)" and "little \<noteq> []"
  shows "zip_memmem big biglen little = Some i \<longleftrightarrow>
           occurs_at big (nat biglen) little i \<and> (\<forall>j < i. \<not> occurs_at big (nat biglen) little j)"
  using zip_memmem_cases [OF assms] by (auto split: option.splits) (meson linorder_neqE_nat)

theorem zip_memmem_first_witness:
  "zip_memmem [1, 2, 1, 3, 1, 3] 6 [1, 3] = Some 2 \<longleftrightarrow>
     occurs_at [1, 2, 1, 3, 1, 3] 6 [1, 3] 2 \<and> (\<forall>j < 2. \<not> occurs_at [1, 2, 1, 3, 1, 3] 6 [1, 3] j)"
  using zip_memmem_first [of 6 "[1, 2, 1, 3, 1, 3]" "[1, 3]" 2] by simp

text \<open>C1: the central directory that \<open>_zip_cdir_write\<close> appends to a stream is found again by
  \<open>_zip_find_central_dir\<close> and read back entry for entry, with its comment, size and offset, provided
  that no other end-of-directory signature occurs in the last 65558 bytes.\<close>

theorem zip_cdir_write_find:
  assumes "cdir_wf lib cd" and "malloc_total lib" and "at_end fp"
    and "length (fdata fp) + length (concat (map (\<lambda>e. dirent_bytes lib e False) (cd_entry cd)))
           + EOCDLEN + unat (cd_comment_len cd) \<le> fcap fp"
    and "fcap fp \<le> fgood fp" and "fcap fp < 2 ^ 32"
    and "\<not> flag_set flags ZIP_CHECKCONS"
  shows "\<exists>cd' fp'. zip_cdir_write lib cd fp = (Inr cd', fp')
     \<and> cd_entry cd' = cd_entry cd \<and> cd_comment cd' = cd_comment cd
     \<and> cd_offset cd' = of_nat (length (fdata fp))
     \<and> (sole_eocd (fdata fp') \<longrightarrow>
          (\<exists>fp''. zip_find_central_dir lib fp' flags (length (fdata fp')) = (Inr cd', fp'')))"
proof -
  let ?cd = "placed lib (length (fdata fp)) cd"
  let ?bs = "central_bytes lib (cd_entry cd) @ eocd_bytes ?cd"
  have com: "str_wf False (cd_comment ?cd) (cd_comment_len ?cd)"
    using assms(1) by (simp add: cdir_wf_def placed_def)
  have room: "length (fdata fp) + length ?bs \<le> fcap fp"
    using assms(4) length_eocd_bytes [OF com] by (simp add: placed_def)
  note e = fput_end [OF assms(3) room]
  have "length (fdata (fput ?bs fp)) \<le> fcap fp" using e(2) room by simp
  then have "\<exists>fp''. zip_find_central_dir lib (fput ?bs fp) flags (length (fdata (fput ?bs fp)))
      = (Inr ?cd, fp'')" if "sole_eocd (fdata (fput ?bs fp))"
    using zip_find_placed [OF assms(1,2) e(2) _ _ that assms(7)] assms(5,6) by simp
  then show ?thesis
    using zip_cdir_write_bytes [OF assms(1,3,4)] by (simp add: placed_def)
qed

definition sample_cdir :: zip_cdir where
  "sample_cdir = \<lparr>cd_entry = [sample_dirent], cd_size = 0, cd_offset = 0,
                  cd_comment = None, cd_comment_len = 0\<rparr>"

text \<open>An executable criterion for \<open>sole_eocd\<close>: counting the signatures.\<close>

fun eocd_count :: "byte list \<Rightarrow> nat" where
  "eocd_count [] = 0"
| "eocd_count (x # xs) = (if take 4 (x # xs) = EOCD_MAGIC then 1 else 0) + eocd_count xs"

lemma eocd_count_card:
  "finite {i. take 4 (drop i xs) = EOCD_MAGIC} \<and> card {i. take 4 (drop i xs) = EOCD_MAGIC} = eocd_count xs"
proof (induction xs)
  case Nil
  then show ?case by simp
next
  case (Cons x xs)
  let ?S = "\<lambda>ys. {i. take 4 (drop i ys) = EOCD_MAGIC}"
  have eq: "?S (x # xs) = (if take 4 (x # xs) = EOCD_MAGIC then {0} else {}) \<union> Suc ` ?S xs"
  proof (rule set_eqI)
    fix i
    show "i \<in> ?S (x # xs) \<longleftrightarrow>
        i \<in> (if take 4 (x # xs) = EOCD_MAGIC then {0} else {}) \<union> Suc ` ?S xs"
      by (cases i) (auto simp del: take_Cons_numeral)
  qed
  have "card (Suc ` ?S xs) = eocd_count xs" using Cons by (simp add: card_image)
  moreover have "0 \<notin> Suc ` ?S xs" by simp
  ultimately show ?case unfolding eq using Cons by simp
qed

lemma sole_eocd_count: "eocd_count (file_tail data) \<le> 1 \<Longrightarrow> sole_eocd data"
  using eocd_count_card [of "file_tail data"] card_le_Suc0_iff_eq [of "{i. take 4 (drop i (file_tail data)) = EOCD_MAGIC}"]
  by (auto simp: sole_eocd_def eocd_at_def occurs_at_def numeral_eq_Suc)

lemma sample_dirent_length: "length (dirent_bytes sample_lib sample_dirent False) = 48"
  by (subst length_dirent_bytes [OF sample_dirent_wf])
    (simp add: dirent_size_def sample_dirent_def zip_dirent_init_def)

lemma sample_cdir_sole: "sole_eocd (fdata (snd (zip_cdir_write sample_lib sample_cdir sample_file)))"
proof (rule sole_eocd_count)
  have wf: "cdir_wf sample_lib sample_cdir"
    by (simp add: cdir_wf_def sample_cdir_def sample_dirent_wf)
  have "fdata (snd (zip_cdir_write sample_lib sample_cdir sample_file)) = fdata sample_file
      @ dirent_bytes sample_lib sample_dirent False @ eocd_bytes (placed sample_lib 3 sample_cdir)"
    using zip_cdir_write_bytes [OF wf, of sample_file]
    by (simp add: sample_cdir_def sample_dirent_length sample_file_def at_end_def fput_at_end
        length_eocd_bytes placed_def)
  moreover have "eocd_count (file_tail (fdata sample_file
      @ dirent_bytes sample_lib sample_dirent False @ eocd_bytes (placed sample_lib 3 sample_cdir))) \<le> 1"
    by (simp add: file_tail_def sample_file_def dirent_bytes_def dirent_head_def sample_dirent_def
        zip_dirent_init_def dirent_magic_def le16_def le32_def eocd_bytes_def placed_def sample_cdir_def
        ptr_bytes_def sample_lib_def torrent_tm_def zip_u2d_time_def)
  ultimately show "eocd_count (file_tail (fdata (snd (zip_cdir_write sample_lib sample_cdir sample_file)))) \<le> 1"
    by simp
qed

theorem zip_cdir_write_find_witness:
  "\<exists>cd' fp'. zip_cdir_write sample_lib sample_cdir sample_file = (Inr cd', fp')
     \<and> cd_entry cd' = [sample_dirent] \<and> cd_offset cd' = 3
     \<and> (\<exists>fp''. zip_find_central_dir sample_lib fp' 0 (length (fdata fp')) = (Inr cd', fp''))"
proof -
  have wf: "cdir_wf sample_lib sample_cdir"
    by (simp add: cdir_wf_def sample_cdir_def sample_dirent_wf)
  have "at_end sample_file" "\<not> flag_set 0 ZIP_CHECKCONS"
    by (simp_all add: at_end_def sample_file_def flag_set_def)
  moreover have "length (fdata sample_file)
      + length (concat (map (\<lambda>e. dirent_bytes sample_lib e False) (cd_entry sample_cdir)))
      + EOCDLEN + unat (cd_comment_len sample_cdir) \<le> fcap sample_file"
    by (simp add: sample_cdir_def sample_dirent_length) (simp add: sample_file_def)
  moreover have "fcap sample_file \<le> fgood sample_file" "fcap sample_file < 2 ^ 32"
    "length (fdata sample_file) = 3"
    by (simp_all add: sample_file_def)
  ultimately show ?thesis
    using zip_cdir_write_find [OF wf malloc_total_sample, of sample_file 0] sample_cdir_sole
    by (auto simp: sample_cdir_def)
qed



text \<open>a directory that \<open>_zip_readcdir\<close> accepts has exactly as many entries as the 16-bit count in the
  end-of-directory record says, when that count is not zero; the branch for archives with more than
  65535 entries is never taken then, and further entries of the directory are ignored.\<close>

theorem zip_readcdir_count:
  assumes "zip_readcdir lib fp buf eocd buflen flags = (Inr cd, fp')"
    and "mem_load buf eocd EOCDLEN = Some rec" and "rd2 (drop 10 rec) \<noteq> 0"
  shows "length (cd_entry cd) = unat (rd2 (drop 10 rec))"
proof -
  have pos: "0 < unat (rd2 (drop 10 rec))" using assms(3) by (simp add: unat_gt_0)
  have ent: "length (cd_entry cd2) = length (cd_entry cd1)"
    if "readcdir_entries lib cd1 g buf eocd = (Inr cd2, g')" "0 < length (cd_entry cd1)" for cd1 cd2 g g'
    using that readcdir_loop_count [of lib cd1 _ _ _ 0 cd2 g']
    by (auto simp: readcdir_entries_def Let_def split: if_splits)
  show ?thesis
    using assms(1,2) pos
    by (auto simp: zip_readcdir_def Let_def zip_cdir_new_def dest!: ent split: if_splits sum.splits)
qed

theorem zip_readcdir_count_witness:
  "length (cd_entry sample_cdir) = unat (rd2 (drop 10 (take EOCDLEN (eocd_bytes sample_cdir))))"
proof -
  let ?cd = "sample_cdir\<lparr>cd_size := 48\<rparr>"
  let ?buf = "[0] @ dirent_bytes sample_lib sample_dirent False @ eocd_bytes ?cd"
  have wf: "cdir_wf sample_lib ?cd" by (simp add: cdir_wf_def sample_cdir_def sample_dirent_wf)
  have drops: "drop 49 ?buf = eocd_bytes ?cd" "drop 1 ?buf = dirent_bytes sample_lib sample_dirent False @ eocd_bytes ?cd"
    by (simp_all add: sample_dirent_length)
  have "\<exists>fp'. zip_readcdir sample_lib sample_file ?buf 49 (length ?buf) 0 = (Inr ?cd, fp') \<and> fdata fp' = fdata sample_file"
    by (rule zip_readcdir_entries [OF wf malloc_total_sample drops(1)])
      (simp_all add: sample_cdir_def sample_dirent_length drops)
  then obtain fp' where r: "zip_readcdir sample_lib sample_file ?buf 49 (length ?buf) 0 = (Inr ?cd, fp')" by blast
  have rec: "mem_load ?buf 49 EOCDLEN = Some (take EOCDLEN (eocd_bytes ?cd))"
    using drops(1) by (simp add: mem_load_def sample_dirent_length length_eocd_bytes sample_cdir_def)
  have "rd2 (drop 10 (take EOCDLEN (eocd_bytes ?cd))) = 1"
    and "rd2 (drop 10 (take EOCDLEN (eocd_bytes sample_cdir))) = 1"
    by (simp_all add: eocd_bytes_def sample_cdir_def le_simps)
  with zip_readcdir_count [OF r rec] show ?thesis by (simp add: sample_cdir_def)
qed

text \<open>C35: when \<open>_zip_checkcons\<close> accepts a directory, every entry ends (in the 32-bit arithmetic of the
  check) before the directory starts, and at its offset in the file there is a local header that says the same: its signature,
  version, method, time, name and, unless a data descriptor is announced, checksum and sizes are those of the
  entry; with a data descriptor they are zero.\<close>

theorem zip_checkcons_sound:
  assumes "zip_checkcons lib fp cd = (Inr v, fp')" and "e \<in> set (cd_entry cd)"
  shows "zde_offset e + zde_comp_size e + ucast (zde_filename_len e) + 30 \<le> cd_offset cd
         \<and> local_header_of lib (drop (unat (zde_offset e)) (fdata fp)) e"
proof -
  obtain r where "checkcons_loop lib (cd_offset cd) (cd_entry cd) (case cd_entry cd of [] \<Rightarrow> 0 | e # _ \<Rightarrow> zde_offset e)
      (case cd_entry cd of [] \<Rightarrow> 0 | e # _ \<Rightarrow> zde_offset e) fp = (Inr r, fp')"
    using assms(1) by (auto simp: zip_checkcons_def Let_def split: prod.splits sum.splits)
  from checkcons_loop_sound [OF this assms(2)] show ?thesis by (simp add: entry_end_def)
qed

definition sample_member :: zip_dirent where
  "sample_member = sample_dirent\<lparr>zde_offset := 0, zde_comp_size := 0, zde_crc := 0\<rparr>"

lemma sample_member_wf: "dirent_wf sample_lib sample_member"
  using sample_dirent_wf by (simp add: dirent_wf_def sample_member_def)

definition sample_member_cdir :: zip_cdir where
  "sample_member_cdir = \<lparr>cd_entry = [sample_member], cd_size = 0, cd_offset = 40, cd_comment = None, cd_comment_len = 0\<rparr>"

definition sample_member_file :: cfile where
  "sample_member_file = \<lparr>fdata = dirent_bytes sample_lib sample_member True, fpos = 0, ferr = False, fgood = 100,
              fcap = 100, ferrno = 0\<rparr>"

theorem zip_checkcons_sound_witness:
  "\<exists>v g. zip_checkcons sample_lib sample_member_file sample_member_cdir = (Inr v, g)
     \<and> local_header_of sample_lib (fdata sample_member_file) sample_member"
proof -
  let ?cd = sample_member_cdir and ?fp = sample_member_file
  have "length (dirent_bytes sample_lib sample_member True) = 32"
    by (subst length_dirent_bytes [OF sample_member_wf])
      (simp add: dirent_size_def dirent_view_def sample_member_def sample_dirent_def zip_dirent_init_def)
  then have "stream_holds ?fp (dirent_bytes sample_lib sample_member True @ [])"
    by (simp add: stream_holds_def sample_member_file_def)
  from zip_dirent_read_file [OF sample_member_wf malloc_total_sample this, of None]
  obtain g where rd: "zip_dirent_read sample_lib ?fp None None True
      = (Inr (dirent_view True sample_member, None, None), g)" by (auto simp: left_short_def)
  have "zip_headercomp sample_member False (dirent_view True sample_member) True"
    by (simp add: zip_headercomp_def dirent_view_def sample_member_def sample_dirent_def
        zip_dirent_init_def flag_set_def)
  moreover have "entry_end sample_member = 32" "zde_offset sample_member = 0"
    by (simp_all add: entry_end_def sample_member_def sample_dirent_def zip_dirent_init_def)
  moreover have "?fp\<lparr>fpos := 0\<rparr> = ?fp" by (simp add: sample_member_file_def)
  ultimately have "\<exists>v. zip_checkcons sample_lib ?fp ?cd = (Inr v, g)"
    using rd by (simp add: zip_checkcons_def fseeko_def sample_member_cdir_def)
  then obtain v where v: "zip_checkcons sample_lib ?fp ?cd = (Inr v, g)" by blast
  from zip_checkcons_sound [OF v, of sample_member] v show ?thesis
    using \<open>zde_offset sample_member = 0\<close> by (auto simp: sample_member_cdir_def)
qed

end
