(* ===== verification/Zip_Archive.thy ===== *)
theory Zip_Archive
  imports Zip_Dirent
begin

text \<open>
  The in-memory archive of libzip, \<open>struct zip\<close> with its \<open>struct zip_entry\<close> array, and the
  operations that edit it before it is written: adding, replacing, renaming, deleting and reverting
  entries, comments and flags, name lookup and \<open>zip_stat\<close>. The results are the state discipline of the entries
  (an invariant every operation keeps), the behaviour of lookup, and what the operations do to
  the uniqueness of names.
\<close>

section \<open>Data\<close>

datatype zip_state = ZIP_ST_UNCHANGED | ZIP_ST_DELETED | ZIP_ST_REPLACED | ZIP_ST_ADDED | ZIP_ST_RENAMED

datatype zip_source_cmd =
  ZIP_SOURCE_OPEN | ZIP_SOURCE_READ | ZIP_SOURCE_CLOSE | ZIP_SOURCE_STAT | ZIP_SOURCE_ERROR | ZIP_SOURCE_FREE

record zip_stat =
  st_name :: "byte list option"
  st_index :: int
  st_crc :: u32
  st_mtime :: int
  st_size :: int
  st_comp_size :: int
  st_comp_method :: u16
  st_encryption_method :: u16

definition zip_stat_init :: zip_stat where
  "zip_stat_init = \<lparr>st_name = None, st_index = -1, st_crc = 0, st_mtime = -1, st_size = -1,
                    st_comp_size = -1, st_comp_method = ZIP_CM_STORE, st_encryption_method = 0\<rparr>"

text \<open>
  A source is a callback with user data. A call gets a command and the size of the caller's buffer; it
  returns a signed length and what it stored in the buffer, and updates the user data. A call that does
  not return is \<open>None\<close>. A \<open>struct zip_stat\<close> has 48 bytes.
\<close>

datatype payload = PNone | PBytes "byte list" | PStat zip_stat | PErr int int

type_synonym 'u callback = "'u \<Rightarrow> zip_source_cmd \<Rightarrow> nat \<Rightarrow> ((int \<times> payload \<times> 'u) res) option"

abbreviation (input) sizeof_stat :: nat where "sizeof_stat \<equiv> 48"

record 'u zip_source =
  src_f :: "'u callback"
  src_ud :: 'u

record 'u zip_entry =
  ze_state :: zip_state
  ze_source :: "'u zip_source option"
  ze_ch_filename :: "byte list option"
  ze_ch_comment :: "byte list option"
  ze_ch_comment_len :: int

text \<open>\<open>struct zip\<close>; \<open>nentry\<close> is the length of the entry array, \<open>za_file\<close> lists the handles of the open
  files. \<open>za_entry_lost\<close> records that a failed \<open>realloc\<close> has overwritten the entry pointer with NULL.\<close>

record 'u zip =
  za_zn :: "byte list option"
  za_zp :: "cfile option"
  za_error :: zip_error
  za_flags :: u32
  za_ch_flags :: u32
  za_cdir :: "zip_cdir option"
  za_ch_comment :: "byte list option"
  za_ch_comment_len :: int
  za_nentry_alloc :: int
  za_entry :: "'u zip_entry list"
  za_entry_lost :: bool
  za_nfile_alloc :: int
  za_file :: "nat list"

definition zip_new :: "clib \<Rightarrow> 'u zip res" where
  "zip_new lib =
     (if \<not> malloc_ok lib ''zip'' 1 then Inl (ZE ZIP_ER_MEMORY 0)
      else Inr \<lparr>za_zn = None, za_zp = None, za_error = zip_error_init, za_flags = 0, za_ch_flags = 0,
                za_cdir = None, za_ch_comment = None, za_ch_comment_len = -1, za_nentry_alloc = 0,
                za_entry = [], za_entry_lost = False, za_nfile_alloc = 0, za_file = []\<rparr>)"

abbreviation za_nentry :: "'u zip \<Rightarrow> int" where
  "za_nentry za \<equiv> int (length (za_entry za))"

text \<open>The number of entries of the directory that was read, none for a new archive.\<close>

definition cdir_nentry :: "'u zip \<Rightarrow> nat" where
  "cdir_nentry za = (case za_cdir za of None \<Rightarrow> 0 | Some cd \<Rightarrow> length (cd_entry cd))"

definition za_set_error :: "'u zip \<Rightarrow> int \<Rightarrow> int \<Rightarrow> 'u zip" where
  "za_set_error za ze se = za\<lparr>za_error := zip_error_set (za_error za) ze se\<rparr>"

definition za_fail :: "'u zip \<Rightarrow> fault \<Rightarrow> 'u zip" where
  "za_fail za e = (case e of ZE ze se \<Rightarrow> za_set_error za ze se | UB \<Rightarrow> za)"

definition upd_entry :: "'u zip \<Rightarrow> nat \<Rightarrow> ('u zip_entry \<Rightarrow> 'u zip_entry) \<Rightarrow> 'u zip" where
  "upd_entry za i f = za\<lparr>za_entry := (za_entry za)[i := f (za_entry za ! i)]\<rparr>"

definition entry_data_changed :: "'u zip_entry \<Rightarrow> bool" where
  "entry_data_changed ze \<longleftrightarrow> ze_state ze = ZIP_ST_REPLACED \<or> ze_state ze = ZIP_ST_ADDED"

section \<open>Names\<close>

text \<open>A possibly NULL error pointer: \<open>_zip_error_set\<close> does nothing on NULL.\<close>

definition err_set :: "zip_error option \<Rightarrow> int \<Rightarrow> int \<Rightarrow> zip_error option" where
  "err_set err ze se = map_option (\<lambda>e. zip_error_set e ze se) err"

text \<open>\<open>_zip_get_name\<close>: the name (NULL is \<open>None\<close>) and the error.\<close>

definition zip_get_name_e ::
  "'u zip \<Rightarrow> int \<Rightarrow> u32 \<Rightarrow> zip_error option \<Rightarrow> byte list option \<times> zip_error option" where
  "zip_get_name_e za idx flags err =
     (if idx < 0 \<or> idx \<ge> za_nentry za then (None, err_set err ZIP_ER_INVAL 0)
      else let e = za_entry za ! nat idx in
      if \<not> flag_set flags ZIP_FL_UNCHANGED \<and> ze_state e = ZIP_ST_DELETED
      then (None, err_set err ZIP_ER_DELETED 0)
      else if \<not> flag_set flags ZIP_FL_UNCHANGED \<and> ze_ch_filename e \<noteq> None
      then (ze_ch_filename e, err)
      else case za_cdir za of
             None \<Rightarrow> (None, err_set err ZIP_ER_INVAL 0)
           | Some cd \<Rightarrow> if idx \<ge> int (length (cd_entry cd)) then (None, err_set err ZIP_ER_INVAL 0)
                        else (zde_filename (cd_entry cd ! nat idx), err))"

definition zip_get_name :: "'u zip \<Rightarrow> int \<Rightarrow> u32 \<Rightarrow> byte list option \<times> 'u zip" where
  "zip_get_name za idx flags =
     (case zip_get_name_e za idx flags (Some (za_error za)) of
        (n, err) \<Rightarrow> (n, za\<lparr>za_error := (case err of Some e \<Rightarrow> e | None \<Rightarrow> za_error za)\<rparr>))"

definition ascii_lower :: "byte \<Rightarrow> byte" where
  "ascii_lower c = (if 0x41 \<le> c \<and> c \<le> 0x5a then c + 0x20 else c)"

definition strcasecmp_eq :: "byte list \<Rightarrow> byte list \<Rightarrow> bool" where
  "strcasecmp_eq a b \<longleftrightarrow> map ascii_lower a = map ascii_lower b"

text \<open>The part of a path after the last slash (\<open>strrchr(fn, '/')\<close>).\<close>

definition strip_dir :: "byte list \<Rightarrow> byte list" where
  "strip_dir fn = rev (takeWhile (\<lambda>c. c \<noteq> 0x2f) (rev fn))"

definition name_matches :: "u32 \<Rightarrow> byte list \<Rightarrow> byte list \<Rightarrow> bool" where
  "name_matches flags fname fn =
     (let fn = (if flag_set flags ZIP_FL_NODIR then strip_dir fn else fn)
      in if flag_set flags ZIP_FL_NOCASE then strcasecmp_eq fname fn else fname = fn)"

text \<open>The loop of \<open>_zip_name_locate\<close> over the indices \<open>i\<close>, \<open>i + 1\<close>, \<open>\<dots>\<close>, \<open>n\<close> of them.\<close>

fun name_locate_loop ::
  "'u zip \<Rightarrow> byte list \<Rightarrow> u32 \<Rightarrow> nat \<Rightarrow> nat \<Rightarrow> zip_error option \<Rightarrow> int \<times> zip_error option" where
  "name_locate_loop za fname flags i 0 err = (-1, err_set err ZIP_ER_NOENT 0)"
| "name_locate_loop za fname flags i (Suc n) err =
     (let (fn, err) = (if flag_set flags ZIP_FL_UNCHANGED
                       then (zde_filename (cd_entry (the (za_cdir za)) ! i), err)
                       else zip_get_name_e za (int i) flags err)
      in case fn of
           None \<Rightarrow> name_locate_loop za fname flags (Suc i) n err
         | Some fn \<Rightarrow> if name_matches flags fname fn then (int i, err)
                      else name_locate_loop za fname flags (Suc i) n err)"

definition zip_name_locate_e ::
  "'u zip \<Rightarrow> byte list option \<Rightarrow> u32 \<Rightarrow> zip_error option \<Rightarrow> int res \<times> zip_error option" where
  "zip_name_locate_e za fname flags err =
     (case fname of
        None \<Rightarrow> (Inr (-1), err_set err ZIP_ER_INVAL 0)
      | Some fname \<Rightarrow>
          if flag_set flags ZIP_FL_UNCHANGED \<and> za_cdir za = None then (Inl UB, err)
          else let n = (if flag_set flags ZIP_FL_UNCHANGED then length (cd_entry (the (za_cdir za)))
                        else length (za_entry za))
               in case name_locate_loop za fname flags 0 n err of (i, err) \<Rightarrow> (Inr i, err))"

definition zip_name_locate :: "'u zip \<Rightarrow> byte list option \<Rightarrow> u32 \<Rightarrow> int res \<times> 'u zip" where
  "zip_name_locate za fname flags =
     (case zip_name_locate_e za fname flags (Some (za_error za)) of
        (r, err) \<Rightarrow> (r, za\<lparr>za_error := (case err of Some e \<Rightarrow> e | None \<Rightarrow> za_error za)\<rparr>))"

text \<open>Lookup among the current names, as the editing operations use it (flags 0, no error).\<close>

definition locate :: "'u zip \<Rightarrow> byte list \<Rightarrow> int" where
  "locate za name = fst (name_locate_loop za name 0 0 (length (za_entry za)) None)"

section \<open>Editing\<close>

text \<open>\<open>_zip_entry_new(za)\<close> for an archive \<open>za\<close>.\<close>

definition fresh_entry :: "'u zip_entry" where
  "fresh_entry = \<lparr>ze_state = ZIP_ST_UNCHANGED, ze_source = None, ze_ch_filename = None,
                  ze_ch_comment = None, ze_ch_comment_len = -1\<rparr>"

definition zip_entry_new :: "clib \<Rightarrow> 'u zip \<Rightarrow> bool \<times> 'u zip" where
  "zip_entry_new lib za =
     (let grow = (za_nentry za \<ge> za_nentry_alloc za - 1);
          za = (if grow then za\<lparr>za_nentry_alloc := za_nentry_alloc za + 16\<rparr> else za)
      in if grow \<and> \<not> malloc_ok lib ''zip_entry'' (nat (za_nentry_alloc za))
         then (False, (za_set_error za ZIP_ER_MEMORY 0)\<lparr>za_entry_lost := True\<rparr>)
         else (True, za\<lparr>za_entry := za_entry za @ [fresh_entry]\<rparr>))"

text \<open>\<open>_zip_unchange_data\<close>: the source is told to free itself and dropped.\<close>

definition zip_unchange_data :: "'u zip_entry \<Rightarrow> 'u zip_entry" where
  "zip_unchange_data ze =
     ze\<lparr>ze_source := None,
        ze_state := (if ze_ch_filename ze \<noteq> None then ZIP_ST_RENAMED else ZIP_ST_UNCHANGED)\<rparr>"

definition zip_entry_free :: "'u zip_entry \<Rightarrow> 'u zip_entry" where
  "zip_entry_free ze =
     zip_unchange_data (ze\<lparr>ze_ch_filename := None, ze_ch_comment := None, ze_ch_comment_len := -1\<rparr>)"

definition zip_set_name :: "clib \<Rightarrow> 'u zip \<Rightarrow> int \<Rightarrow> byte list option \<Rightarrow> int \<times> 'u zip" where
  "zip_set_name lib za idx name =
     (case name of
        None \<Rightarrow> (-1, za_set_error za ZIP_ER_INVAL 0)
      | Some name \<Rightarrow>
      if idx < 0 \<or> idx \<ge> za_nentry za then (-1, za_set_error za ZIP_ER_INVAL 0)
      else let i = locate za name in
      if i \<noteq> -1 \<and> i \<noteq> idx then (-1, za_set_error za ZIP_ER_EXISTS 0)
      else if i = idx then (0, za)
      else if \<not> malloc_ok lib ''char'' (length name + 1) then (-1, za_set_error za ZIP_ER_MEMORY 0)
      else (0, upd_entry za (nat idx) (\<lambda>ze.
             ze\<lparr>ze_state := (if ze_state ze = ZIP_ST_UNCHANGED then ZIP_ST_RENAMED else ze_state ze),
                ze_ch_filename := Some name\<rparr>)))"

text \<open>\<open>_zip_replace\<close>; the index \<open>-1\<close> asks for a new entry. It returns the index or \<open>-1\<close>.\<close>

definition zip_replace_at :: "clib \<Rightarrow> 'u zip \<Rightarrow> int \<Rightarrow> byte list option \<Rightarrow> 'u zip_source \<Rightarrow> int \<times> 'u zip" where
  "zip_replace_at lib za idx name source =
     (let (ok, za) = (if idx = -1 then zip_entry_new lib za else (True, za)) in
      if \<not> ok then (-1, za)
      else
      let idx = (if idx = -1 then za_nentry za - 1 else idx);
          za = upd_entry za (nat idx) zip_unchange_data;
          (r, za) = (if name \<noteq> None then zip_set_name lib za idx name else (0, za)) in
      if r \<noteq> 0 then (-1, za)
      else (idx, upd_entry za (nat idx) (\<lambda>ze.
              ze\<lparr>ze_state := (if za_cdir za = None \<or> idx \<ge> int (cdir_nentry za)
                             then ZIP_ST_ADDED else ZIP_ST_REPLACED),
                 ze_source := Some source\<rparr>)))"

definition zip_replace :: "clib \<Rightarrow> 'u zip \<Rightarrow> int \<Rightarrow> 'u zip_source option \<Rightarrow> int \<times> 'u zip" where
  "zip_replace lib za idx source =
     (case source of
        None \<Rightarrow> (-1, za_set_error za ZIP_ER_INVAL 0)
      | Some source \<Rightarrow>
          if idx < 0 \<or> idx \<ge> za_nentry za then (-1, za_set_error za ZIP_ER_INVAL 0)
          else case zip_replace_at lib za idx None source of
                 (r, za) \<Rightarrow> (if r = -1 then -1 else 0, za))"

definition zip_add :: "clib \<Rightarrow> 'u zip \<Rightarrow> byte list option \<Rightarrow> 'u zip_source option \<Rightarrow> int \<times> 'u zip" where
  "zip_add lib za name source =
     (case source of
        None \<Rightarrow> (-1, za_set_error za ZIP_ER_INVAL 0)
      | Some source \<Rightarrow>
          if name = None then (-1, za_set_error za ZIP_ER_INVAL 0)
          else zip_replace_at lib za (-1) name source)"

text \<open>\<open>zip_add_dir\<close>; \<open>empty_source\<close> is the result of \<open>zip_source_buffer(za, NULL, 0, 0)\<close>. The empty name
  makes the source read \<open>name[-1]\<close>.\<close>

definition zip_add_dir ::
  "clib \<Rightarrow> 'u zip \<Rightarrow> byte list option \<Rightarrow> 'u zip_source option \<Rightarrow> int res \<times> 'u zip" where
  "zip_add_dir lib za name empty_source =
     (case name of
        None \<Rightarrow> (Inr (-1), za_set_error za ZIP_ER_INVAL 0)
      | Some [] \<Rightarrow> (Inl UB, za)
      | Some name \<Rightarrow>
          let s = (if last name \<noteq> 0x2f then name @ [0x2f] else name) in
          if last name \<noteq> 0x2f \<and> \<not> malloc_ok lib ''char'' (length name + 2)
          then (Inr (-1), za_set_error za ZIP_ER_MEMORY 0)
          else case empty_source of
                 None \<Rightarrow> (Inr (-1), za)
               | Some src \<Rightarrow> (case zip_replace_at lib za (-1) (Some s) src of (r, za) \<Rightarrow> (Inr r, za)))"

definition zip_unchange_at :: "'u zip \<Rightarrow> int \<Rightarrow> bool \<Rightarrow> int \<times> 'u zip" where
  "zip_unchange_at za idx allow_duplicates =
     (if idx < 0 \<or> idx \<ge> za_nentry za then (-1, za_set_error za ZIP_ER_INVAL 0)
      else
      let e = za_entry za ! nat idx;
          i = (case fst (zip_get_name_e za idx ZIP_FL_UNCHANGED None) of
                 None \<Rightarrow> -1 | Some n \<Rightarrow> locate za n) in
      if ze_ch_filename e \<noteq> None \<and> \<not> allow_duplicates \<and> i \<noteq> -1 \<and> i \<noteq> idx
      then (-1, za_set_error za ZIP_ER_EXISTS 0)
      else (0, upd_entry za (nat idx) (\<lambda>ze. zip_unchange_data
              (ze\<lparr>ze_ch_filename := None, ze_ch_comment := None, ze_ch_comment_len := -1\<rparr>))))"

definition zip_unchange :: "'u zip \<Rightarrow> int \<Rightarrow> int \<times> 'u zip" where
  "zip_unchange za idx = zip_unchange_at za idx False"

definition zip_delete :: "'u zip \<Rightarrow> int \<Rightarrow> int \<times> 'u zip" where
  "zip_delete za idx =
     (if idx < 0 \<or> idx \<ge> za_nentry za then (-1, za_set_error za ZIP_ER_INVAL 0)
      else case zip_unchange_at za idx True of
             (r, za) \<Rightarrow> if r \<noteq> 0 then (-1, za)
                        else (0, upd_entry za (nat idx) (\<lambda>ze. ze\<lparr>ze_state := ZIP_ST_DELETED\<rparr>)))"

text \<open>\<open>zip_rename\<close> reads the last character of the old name, which the empty name does not have.\<close>

definition zip_rename :: "clib \<Rightarrow> 'u zip \<Rightarrow> int \<Rightarrow> byte list \<Rightarrow> int res \<times> 'u zip" where
  "zip_rename lib za idx name =
     (if idx \<ge> za_nentry za \<or> idx < 0 \<or> name = [] then (Inr (-1), za_set_error za ZIP_ER_INVAL 0)
      else case zip_get_name za idx 0 of
        (None, za) \<Rightarrow> (Inr (-1), za)
      | (Some [], za) \<Rightarrow> (Inl UB, za)
      | (Some old_name, za) \<Rightarrow>
          if (last name = 0x2f) \<noteq> (last old_name = 0x2f)
          then (Inr (-1), za_set_error za ZIP_ER_INVAL 0)
          else case zip_set_name lib za idx (Some name) of (r, za) \<Rightarrow> (Inr r, za))"

section \<open>Archive-wide operations\<close>

definition zip_unchange_archive :: "'u zip \<Rightarrow> int \<times> 'u zip" where
  "zip_unchange_archive za =
     (0, za\<lparr>za_ch_comment := None, za_ch_comment_len := -1, za_ch_flags := za_flags za\<rparr>)"

fun unchange_all_loop :: "'u zip \<Rightarrow> nat \<Rightarrow> nat \<Rightarrow> bool \<times> 'u zip" where
  "unchange_all_loop za i 0 = (False, za)"
| "unchange_all_loop za i (Suc n) =
     (let (r, za) = zip_unchange_at za (int i) True;
          (bad, za) = unchange_all_loop za (Suc i) n
      in (r \<noteq> 0 \<or> bad, za))"

definition zip_unchange_all :: "'u zip \<Rightarrow> int \<times> 'u zip" where
  "zip_unchange_all za =
     (let (bad, za) = unchange_all_loop za 0 (length (za_entry za));
          (r, za) = zip_unchange_archive za
      in (if bad \<or> r \<noteq> 0 then -1 else 0, za))"

definition zip_set_archive_flag :: "'u zip \<Rightarrow> u32 \<Rightarrow> bool \<Rightarrow> int \<times> 'u zip" where
  "zip_set_archive_flag za flag value =
     (0, za\<lparr>za_ch_flags := (if value then za_ch_flags za OR flag else za_ch_flags za AND NOT flag)\<rparr>)"

definition zip_get_archive_flag :: "'u zip \<Rightarrow> u32 \<Rightarrow> u32 \<Rightarrow> int" where
  "zip_get_archive_flag za flag flags =
     (let fl = (if flag_set flags ZIP_FL_UNCHANGED then za_flags za else za_ch_flags za)
      in if flag_set fl flag then 1 else 0)"

definition zip_get_num_files :: "'u zip option \<Rightarrow> int" where
  "zip_get_num_files za = (case za of None \<Rightarrow> -1 | Some za \<Rightarrow> za_nentry za)"

text \<open>The checked copy of a comment that both comment setters make.\<close>

definition dup_comment :: "clib \<Rightarrow> byte list option \<Rightarrow> int \<Rightarrow> byte list option res" where
  "dup_comment lib comment len =
     (if len > 0 then bind_res (zip_memdup lib comment (nat len)) (\<lambda>c. Inr (Some c)) else Inr None)"

definition zip_set_file_comment ::
  "clib \<Rightarrow> 'u zip \<Rightarrow> int \<Rightarrow> byte list option \<Rightarrow> int \<Rightarrow> int res \<times> 'u zip" where
  "zip_set_file_comment lib za idx comment len =
     (if idx < 0 \<or> idx \<ge> za_nentry za \<or> len < 0 \<or> len > int MAXCOMLEN \<or> (len > 0 \<and> comment = None)
      then (Inr (-1), za_set_error za ZIP_ER_INVAL 0)
      else case dup_comment lib comment len of
             Inl UB \<Rightarrow> (Inl UB, za)
           | Inl e \<Rightarrow> (Inr (-1), za_fail za e)
           | Inr c \<Rightarrow> (Inr 0, upd_entry za (nat idx)
                             (\<lambda>ze. ze\<lparr>ze_ch_comment := c, ze_ch_comment_len := len\<rparr>)))"

definition zip_set_archive_comment ::
  "clib \<Rightarrow> 'u zip \<Rightarrow> byte list option \<Rightarrow> int \<Rightarrow> int res \<times> 'u zip" where
  "zip_set_archive_comment lib za comment len =
     (if len < 0 \<or> len > int MAXCOMLEN \<or> (len > 0 \<and> comment = None)
      then (Inr (-1), za_set_error za ZIP_ER_INVAL 0)
      else case dup_comment lib comment len of
             Inl UB \<Rightarrow> (Inl UB, za)
           | Inl e \<Rightarrow> (Inr (-1), za_fail za e)
           | Inr c \<Rightarrow> (Inr 0, za\<lparr>za_ch_comment := c, za_ch_comment_len := len\<rparr>))"

text \<open>\<open>zip_get_file_comment\<close> dereferences \<open>za->cdir->entry[idx]\<close> for an unchanged comment even when the
  entry is not part of the original directory.\<close>

definition zip_get_file_comment ::
  "'u zip \<Rightarrow> int \<Rightarrow> u32 \<Rightarrow> (byte list option \<times> int) res \<times> 'u zip" where
  "zip_get_file_comment za idx flags =
     (if idx < 0 \<or> idx \<ge> za_nentry za then (Inr (None, 0), za_set_error za ZIP_ER_INVAL 0)
      else let e = za_entry za ! nat idx in
      if flag_set flags ZIP_FL_UNCHANGED \<or> ze_ch_comment_len e = -1
      then (case za_cdir za of
              None \<Rightarrow> (Inl UB, za)
            | Some cd \<Rightarrow> if nat idx \<ge> length (cd_entry cd) then (Inl UB, za)
                         else let d = cd_entry cd ! nat idx
                              in (Inr (zde_comment d, int (unat (zde_comment_len d))), za))
      else (Inr (ze_ch_comment e, ze_ch_comment_len e), za))"

definition zip_get_archive_comment :: "'u zip \<Rightarrow> u32 \<Rightarrow> byte list option \<times> int" where
  "zip_get_archive_comment za flags =
     (if flag_set flags ZIP_FL_UNCHANGED \<or> za_ch_comment_len za = -1
      then (case za_cdir za of
              Some cd \<Rightarrow> (cd_comment cd, int (unat (cd_comment_len cd)))
            | None \<Rightarrow> (None, -1))
      else (za_ch_comment za, za_ch_comment_len za))"

section \<open>zip_stat\<close>

definition dirent_stat :: "zip_dirent \<Rightarrow> zip_stat \<Rightarrow> zip_stat" where
  "dirent_stat d st =
     st\<lparr>st_crc := zde_crc d, st_size := int (unat (zde_uncomp_size d)), st_mtime := zde_last_mod d,
        st_comp_size := int (unat (zde_comp_size d)), st_comp_method := zde_comp_method d,
        st_encryption_method :=
          (if flag_set (zde_bitflags d) ZIP_GPBF_ENCRYPTED
           then (if flag_set (zde_bitflags d) ZIP_GPBF_STRONG_ENCRYPTION then 0xffff else 1)
           else 0)\<rparr>"

definition zip_stat_index ::
  "'u zip \<Rightarrow> int \<Rightarrow> u32 \<Rightarrow> zip_stat \<Rightarrow> ((zip_stat option) res \<times> 'u zip) option" where
  "zip_stat_index za index flags st =
     (if index < 0 \<or> index \<ge> za_nentry za then Some (Inr None, za_set_error za ZIP_ER_INVAL 0)
      else case zip_get_name za index flags of
        (None, za) \<Rightarrow> Some (Inr None, za)
      | (Some name, za) \<Rightarrow>
        let e = za_entry za ! nat index in
        if \<not> flag_set flags ZIP_FL_UNCHANGED \<and> entry_data_changed e
        then (case ze_source e of
                None \<Rightarrow> Some (Inl UB, za)
              | Some src \<Rightarrow>
                  (case src_f src (src_ud src) ZIP_SOURCE_STAT sizeof_stat of
                     None \<Rightarrow> None
                   | Some (Inl f) \<Rightarrow> Some (Inl f, za)
                   | Some (Inr (r, out, ud)) \<Rightarrow>
                       let za = upd_entry za (nat index) (\<lambda>ze. ze\<lparr>ze_source := Some (src\<lparr>src_ud := ud\<rparr>)\<rparr>)
                       in if r < 0 then Some (Inr None, za_set_error za ZIP_ER_CHANGED 0)
                          else let st = (case out of PStat s \<Rightarrow> s | _ \<Rightarrow> st)
                               in Some (Inr (Some (st\<lparr>st_index := index, st_name := Some name\<rparr>)), za)))
        else case za_cdir za of
          None \<Rightarrow> Some (Inr None, za_set_error za ZIP_ER_INVAL 0)
        | Some cd \<Rightarrow>
            if index \<ge> int (length (cd_entry cd)) then Some (Inr None, za_set_error za ZIP_ER_INVAL 0)
            else Some (Inr (Some ((dirent_stat (cd_entry cd ! nat index) st)
                               \<lparr>st_index := index, st_name := Some name\<rparr>)), za))"

definition zip_stat_name ::
  "'u zip \<Rightarrow> byte list option \<Rightarrow> u32 \<Rightarrow> zip_stat \<Rightarrow> ((zip_stat option) res \<times> 'u zip) option" where
  "zip_stat_name za fname flags st =
     (case zip_name_locate za fname flags of
        (Inl e, za) \<Rightarrow> Some (Inl e, za)
      | (Inr idx, za) \<Rightarrow> if idx < 0 then Some (Inr None, za) else zip_stat_index za idx flags st)"

section \<open>Whether anything changed\<close>

definition zip_changed :: "'u zip \<Rightarrow> bool \<times> nat" where
  "zip_changed za =
     (za_ch_comment_len za \<noteq> -1 \<or> za_ch_flags za \<noteq> za_flags za
        \<or> (\<exists>e \<in> set (za_entry za). ze_state e \<noteq> ZIP_ST_UNCHANGED \<or> ze_ch_comment_len e \<noteq> -1),
      length (filter (\<lambda>e. ze_state e \<noteq> ZIP_ST_DELETED) (za_entry za)))"

section \<open>Lookup by name\<close>

text \<open>
  Interface: a table of slots, each with an optional key, and a search for a key. The
  law of the search is that it returns the first slot that matches. The lemmas are what clients
  rely on: the result is a slot of the table, absence is \<open>-1\<close>, and in a table without duplicates
  storing an absent key keeps the table free of duplicates and makes the key found where it was put.
\<close>

fun first_slot :: "('k \<Rightarrow> bool) \<Rightarrow> 'k option list \<Rightarrow> int" where
  "first_slot P [] = -1"
| "first_slot P (x # xs) =
     (if (\<exists>k. x = Some k \<and> P k) then 0
      else let r = first_slot P xs in if r = -1 then -1 else r + 1)"

lemma first_slot_range: "first_slot P xs = -1 \<or> (0 \<le> first_slot P xs \<and> first_slot P xs < int (length xs))"
  by (induction xs) (auto simp: Let_def)

lemma first_slot_none: "first_slot P xs = -1 \<longleftrightarrow> (\<forall>k. Some k \<in> set xs \<longrightarrow> \<not> P k)"
proof (induction xs)
  case (Cons x xs)
  have "first_slot P xs = -1 \<or> 0 \<le> first_slot P xs" using first_slot_range [of P xs] by auto
  with Cons show ?case by (auto simp: Let_def)
qed simp

lemma first_slot_some:
  "first_slot P xs = int i \<longleftrightarrow>
     i < length xs \<and> (\<exists>k. xs ! i = Some k \<and> P k) \<and> (\<forall>j < i. \<forall>k. xs ! j = Some k \<longrightarrow> \<not> P k)"
proof (induction xs arbitrary: i)
  case (Cons x xs)
  have r: "first_slot P xs = -1 \<or> 0 \<le> first_slot P xs" using first_slot_range [of P xs] by auto
  show ?case
  proof (cases i)
    case 0
    then show ?thesis using r by (auto simp: Let_def)
  next
    case (Suc j)
    then show ?thesis using r Cons.IH [of j] by (auto simp: Let_def All_less_Suc2)
  qed
qed simp

definition keys_distinct :: "'k option list \<Rightarrow> bool" where
  "keys_distinct xs \<longleftrightarrow> (\<forall>i j k. i < length xs \<and> j < length xs \<and> xs ! i = Some k \<and> xs ! j = Some k \<longrightarrow> i = j)"

lemma keys_distinct_update:
  assumes "keys_distinct xs" and "\<And>k. x = Some k \<Longrightarrow> Some k \<notin> set xs"
  shows "keys_distinct (xs[i := x])"
  unfolding keys_distinct_def
proof (intro allI impI, elim conjE)
  fix a b k
  assume a: "a < length (xs[i := x])" "xs[i := x] ! a = Some k"
    and b: "b < length (xs[i := x])" "xs[i := x] ! b = Some k"
  have x: "c < length xs \<Longrightarrow> x = Some k \<Longrightarrow> xs ! c \<noteq> Some k" for c
    using assms(2) [of k] by (auto dest: nth_mem)
  show "a = b"
  proof (cases "i = a \<or> i = b")
    case True
    then show ?thesis using a b x [of a] x [of b] by (auto simp: nth_list_update split: if_splits)
  next
    case False
    then show ?thesis using a b assms(1) unfolding keys_distinct_def by simp
  qed
qed

locale slot_table =
  fixes slots :: "'s \<Rightarrow> 'k option list"
    and find :: "'s \<Rightarrow> 'k \<Rightarrow> int"
  assumes find_first: "find s k = first_slot (\<lambda>x. x = k) (slots s)"
begin

lemma find_absent: "find s k = -1 \<longleftrightarrow> Some k \<notin> set (slots s)"
  by (auto simp: find_first first_slot_none)

lemma find_slot: "find s k = int i \<Longrightarrow> i < length (slots s) \<and> slots s ! i = Some k"
  by (auto simp: find_first first_slot_some)

lemma find_cases: obtains "find s k = -1" | i where "find s k = int i" "i < length (slots s)"
  using first_slot_range [of "\<lambda>x. x = k" "slots s"] that
  by (auto simp: find_first dest: zero_le_imp_eq_int)

lemma find_unique:
  assumes "keys_distinct (slots s)" and "i < length (slots s)" and "slots s ! i = Some k"
  shows "find s k = int i"
  using assms unfolding find_first first_slot_some keys_distinct_def
  by (metis less_trans nat_neq_iff)

lemma store_distinct:
  assumes "keys_distinct (slots s)" and "find s k = -1" and "slots t = (slots s)[i := Some k]"
  shows "keys_distinct (slots t)"
  unfolding assms(3)
  by (rule keys_distinct_update) (use assms(1,2) in \<open>auto simp: find_absent\<close>)

lemma store_find:
  assumes "keys_distinct (slots s)" and "find s k = -1" and "i < length (slots s)"
    and "slots t = (slots s)[i := Some k]"
  shows "find t k = int i"
  using store_distinct [OF assms(1,2,4)] assms(3,4) by (intro find_unique) simp_all

lemma store_find_other:
  assumes "keys_distinct (slots s)" and "find s k = -1" and "slots t = (slots s)[i := Some k]"
    and "k' \<noteq> k" and "i < length (slots s) \<longrightarrow> slots s ! i \<noteq> Some k'"
  shows "find t k' = find s k'"
proof -
  have d: "keys_distinct (slots t)" by (rule store_distinct [OF assms(1-3)])
  show ?thesis
  proof (cases rule: find_cases [of s k'])
    case 1
    then show ?thesis
      using assms(3,4) find_absent [of t k'] find_absent [of s k']
      by (auto dest: set_update_subset_insert [THEN subsetD])
  next
    case (2 j)
    then have j: "slots s ! j = Some k'" by (auto dest: find_slot)
    with 2 assms(5) have "i \<noteq> j" by auto
    with 2 j have "slots t ! j = Some k'" "j < length (slots t)" by (simp_all add: assms(3))
    then show ?thesis using find_unique [OF d] 2 by metis
  qed
qed

lemma erase_distinct:
  assumes "keys_distinct (slots s)" and "slots t = (slots s)[i := None]"
  shows "keys_distinct (slots t)"
  unfolding assms(2) by (rule keys_distinct_update) (use assms(1) in auto)

end

text \<open>The current name of each entry, and the names of the directory that was read.\<close>

definition cur_name :: "'u zip \<Rightarrow> nat \<Rightarrow> byte list option" where
  "cur_name za i = fst (zip_get_name_e za (int i) 0 None)"

definition cur_names :: "'u zip \<Rightarrow> byte list option list" where
  "cur_names za = map (cur_name za) [0..<length (za_entry za)]"

lemma length_cur_names [simp]: "length (cur_names za) = length (za_entry za)"
  by (simp add: cur_names_def)

lemma nth_cur_names [simp]: "i < length (za_entry za) \<Longrightarrow> cur_names za ! i = cur_name za i"
  by (simp add: cur_names_def)

lemma flag_set_0 [simp]: "flag_set 0 f = False" "flag_set flags 0 = False"
  by (simp_all add: flag_set_def)

lemma name_matches_0 [simp]: "name_matches 0 fname fn \<longleftrightarrow> fname = fn"
  by (simp add: name_matches_def)

text \<open>What \<open>_zip_get_name\<close> returns does not depend on the error object; in terms of the entry:\<close>

lemma fst_zip_get_name_e: "fst (zip_get_name_e za idx flags err) = fst (zip_get_name_e za idx flags None)"
  by (simp add: zip_get_name_e_def Let_def split: option.splits)

definition entry_name :: "zip_cdir option \<Rightarrow> nat \<Rightarrow> 'u zip_entry \<Rightarrow> byte list option" where
  "entry_name cd i e =
     (if ze_state e = ZIP_ST_DELETED then None
      else if ze_ch_filename e \<noteq> None then ze_ch_filename e
      else case cd of None \<Rightarrow> None
           | Some cd \<Rightarrow> if i < length (cd_entry cd) then zde_filename (cd_entry cd ! i) else None)"

lemma cur_name_entry:
  "i < length (za_entry za) \<Longrightarrow> cur_name za i = entry_name (za_cdir za) i (za_entry za ! i)"
  by (simp add: cur_name_def zip_get_name_e_def entry_name_def Let_def split: option.splits)

lemma name_locate_loop_slots:
  assumes "\<not> flag_set flags ZIP_FL_UNCHANGED"
  shows "fst (name_locate_loop za fname flags i n err) =
     (let r = first_slot (name_matches flags fname)
                (map (\<lambda>j. fst (zip_get_name_e za (int j) flags None)) [i..<i + n])
      in if r = -1 then -1 else r + int i)"
proof (induction n arbitrary: i err)
  case (Suc n)
  let ?N = "\<lambda>j. fst (zip_get_name_e za (int j) flags None)"
  let ?r = "first_slot (name_matches flags fname) (map ?N [Suc i..<Suc i + n])"
  have u: "map ?N [i..<i + Suc n] = ?N i # map ?N [Suc i..<Suc i + n]" by (simp add: upt_rec)
  obtain e where e: "zip_get_name_e za (int i) flags err = (?N i, e)"
    using fst_zip_get_name_e [of za "int i" flags err] by (metis prod.collapse)
  have r: "?r = -1 \<or> 0 \<le> ?r" using first_slot_range [of "name_matches flags fname"] by blast
  show ?case
  proof (cases "?N i")
    case None
    then show ?thesis unfolding u using assms e r Suc.IH [of "Suc i" e] by (auto simp: Let_def)
  next
    case (Some fn)
    then show ?thesis unfolding u using assms e r Suc.IH [of "Suc i" e] by (auto simp: Let_def)
  qed
qed simp

lemma get_name_flags_irrelevant:
  "\<not> flag_set flags ZIP_FL_UNCHANGED \<Longrightarrow>
     zip_get_name_e za idx flags err = zip_get_name_e za idx 0 err"
  by (simp add: zip_get_name_e_def Let_def)

lemma locate_first: "locate za k = first_slot (\<lambda>x. x = k) (cur_names za)"
proof -
  have "(\<lambda>x. x = k) = name_matches 0 k" by (auto simp: fun_eq_iff)
  then show ?thesis
    by (simp add: locate_def name_locate_loop_slots Let_def cur_names_def cur_name_def [abs_def])
qed

interpretation archive_names: slot_table cur_names locate
  by unfold_locales (rule locate_first)

section \<open>The state discipline of the entries\<close>

text \<open>
  \<open>entry_ok n i e\<close>: the state of entry \<open>i\<close> agrees with its fields, where the directory that was read
  had \<open>n\<close> entries. Only replaced and added entries own a source, replaced entries exist in the
  original archive and added ones do not, and a new name is pending exactly in the states that allow one.
\<close>

definition entry_ok :: "nat \<Rightarrow> nat \<Rightarrow> 'u zip_entry \<Rightarrow> bool" where
  "entry_ok n i e \<longleftrightarrow>
     (case ze_state e of
        ZIP_ST_UNCHANGED \<Rightarrow> ze_source e = None \<and> ze_ch_filename e = None
      | ZIP_ST_DELETED \<Rightarrow> ze_source e = None \<and> ze_ch_filename e = None
      | ZIP_ST_RENAMED \<Rightarrow> ze_source e = None \<and> ze_ch_filename e \<noteq> None
      | ZIP_ST_REPLACED \<Rightarrow> ze_source e \<noteq> None \<and> i < n
      | ZIP_ST_ADDED \<Rightarrow> ze_source e \<noteq> None \<and> n \<le> i)"

definition archive_ok :: "'u zip \<Rightarrow> bool" where
  "archive_ok za \<longleftrightarrow> cdir_nentry za \<le> length (za_entry za)
     \<and> (\<forall>i < length (za_entry za). entry_ok (cdir_nentry za) i (za_entry za ! i))"

text \<open>What no edit touches: the directory and the flags that were read, the stream and the path; entries are
  never removed.\<close>

definition same_origin :: "'u zip \<Rightarrow> 'u zip \<Rightarrow> bool" where
  "same_origin za za' \<longleftrightarrow> za_cdir za' = za_cdir za \<and> za_flags za' = za_flags za \<and> za_zn za' = za_zn za
     \<and> za_zp za' = za_zp za \<and> length (za_entry za) \<le> length (za_entry za')"

lemma same_origin_refl [simp]: "same_origin za za"
  by (simp add: same_origin_def)

lemma same_origin_trans: "same_origin a b \<Longrightarrow> same_origin b c \<Longrightarrow> same_origin a c"
  by (auto simp: same_origin_def)

lemma cdir_nentry_updates [simp]:
  "cdir_nentry (za\<lparr>za_entry := x1\<rparr>) = cdir_nentry za"
  "cdir_nentry (za\<lparr>za_nentry_alloc := x2\<rparr>) = cdir_nentry za"
  "cdir_nentry (za\<lparr>za_entry_lost := x3\<rparr>) = cdir_nentry za"
  "cdir_nentry (za\<lparr>za_error := x4\<rparr>) = cdir_nentry za"
  by (simp_all add: cdir_nentry_def)

lemma za_set_error_fields [simp]:
  "za_entry (za_set_error za a b) = za_entry za" "za_cdir (za_set_error za a b) = za_cdir za"
  "za_flags (za_set_error za a b) = za_flags za" "za_zn (za_set_error za a b) = za_zn za"
  "za_zp (za_set_error za a b) = za_zp za" "za_entry_lost (za_set_error za a b) = za_entry_lost za"
  "cdir_nentry (za_set_error za a b) = cdir_nentry za"
  by (simp_all add: za_set_error_def cdir_nentry_def)

lemma upd_entry_fields [simp]:
  "za_cdir (upd_entry za i f) = za_cdir za" "za_flags (upd_entry za i f) = za_flags za"
  "za_zn (upd_entry za i f) = za_zn za" "za_zp (upd_entry za i f) = za_zp za"
  "length (za_entry (upd_entry za i f)) = length (za_entry za)"
  "cdir_nentry (upd_entry za i f) = cdir_nentry za"
  "i < length (za_entry za) \<Longrightarrow> za_entry (upd_entry za i f) ! i = f (za_entry za ! i)"
  "i \<noteq> j \<Longrightarrow> za_entry (upd_entry za i f) ! j = za_entry za ! j"
  by (simp_all add: upd_entry_def cdir_nentry_def)

lemma cdir_nentry_None: "za_cdir za = None \<Longrightarrow> cdir_nentry za = 0"
  by (simp add: cdir_nentry_def)

text \<open>The pair of facts every operation establishes.\<close>

definition keeps :: "'u zip \<Rightarrow> 'u zip \<Rightarrow> bool" where
  "keeps za za' \<longleftrightarrow> archive_ok za' \<and> same_origin za za'"

lemma keeps_trans: "keeps a b \<Longrightarrow> keeps b c \<Longrightarrow> keeps a c"
  by (auto simp: keeps_def intro: same_origin_trans)

lemma keeps_refl: "archive_ok za \<Longrightarrow> keeps za za"
  by (simp add: keeps_def)

lemma keeps_set_error [simp]: "archive_ok za \<Longrightarrow> keeps za (za_set_error za a b)"
  by (simp add: keeps_def archive_ok_def same_origin_def)

lemma keeps_fail [simp]: "archive_ok za \<Longrightarrow> keeps za (za_fail za e)"
  by (simp add: za_fail_def keeps_refl split: fault.split)

lemma keeps_upd_entry:
  assumes "archive_ok za"
    and "i < length (za_entry za) \<Longrightarrow> entry_ok (cdir_nentry za) i (f (za_entry za ! i))"
  shows "keeps za (upd_entry za i f)"
  using assms unfolding keeps_def archive_ok_def same_origin_def
  by (cases "i < length (za_entry za)") (auto simp: upd_entry_def nth_list_update)

lemma archive_ok_nth: "archive_ok za \<Longrightarrow> i < length (za_entry za) \<Longrightarrow> entry_ok (cdir_nentry za) i (za_entry za ! i)"
  by (simp add: archive_ok_def)

lemma keeps_fields:
  assumes "archive_ok za" and "za_entry za' = za_entry za" "za_cdir za' = za_cdir za" "za_flags za' = za_flags za"
    "za_zn za' = za_zn za" "za_zp za' = za_zp za"
  shows "keeps za za'"
  using assms by (simp add: keeps_def archive_ok_def same_origin_def cdir_nentry_def)

lemma entry_ok_unchange_data: "entry_ok n i (zip_unchange_data e)"
  by (simp add: entry_ok_def zip_unchange_data_def)

lemma keeps_entry_new:
  assumes "archive_ok za"
  shows "keeps za (snd (zip_entry_new lib za))"
proof -
  have "entry_ok n i fresh_entry" for n i by (simp add: entry_ok_def fresh_entry_def)
  then show ?thesis using assms
    by (auto simp: zip_entry_new_def Let_def keeps_def archive_ok_def same_origin_def nth_append)
qed

lemma zip_entry_new_True:
  assumes "zip_entry_new lib za = (True, za')"
  shows "za_entry za' = za_entry za @ [fresh_entry]" and "za_cdir za' = za_cdir za"
  using assms by (auto simp: zip_entry_new_def Let_def split: if_splits)

lemma keeps_unchange_data:
  "archive_ok za \<Longrightarrow> keeps za (upd_entry za i zip_unchange_data)"
  by (rule keeps_upd_entry) (simp_all add: entry_ok_unchange_data)

lemma keeps_set_name:
  assumes "archive_ok za" and "nat idx < length (za_entry za) \<longrightarrow> ze_state (za_entry za ! nat idx) \<noteq> ZIP_ST_DELETED"
  shows "keeps za (snd (zip_set_name lib za idx name))"
proof -
  have "entry_ok (cdir_nentry za) (nat idx)
          ((za_entry za ! nat idx)\<lparr>ze_state := (if ze_state (za_entry za ! nat idx) = ZIP_ST_UNCHANGED
              then ZIP_ST_RENAMED else ze_state (za_entry za ! nat idx)), ze_ch_filename := Some n\<rparr>)"
    if "nat idx < length (za_entry za)" for n
    using archive_ok_nth [OF assms(1) that] assms(2) that
    by (auto simp: entry_ok_def split: zip_state.splits)
  then show ?thesis using assms(1)
    by (auto simp: zip_set_name_def Let_def keeps_refl intro!: keeps_upd_entry split: option.split)
qed

lemma zip_set_name_lookup:
  assumes "zip_set_name lib za idx (Some name) = (0, za')"
  shows "za_cdir za' = za_cdir za" and "length (za_entry za') = length (za_entry za)"
  using assms by (auto simp: zip_set_name_def Let_def split: if_splits)

lemma keeps_replace_at:
  assumes "archive_ok za" and "idx = -1 \<or> (0 \<le> idx \<and> idx < za_nentry za)"
  shows "keeps za (snd (zip_replace_at lib za idx name source))"
proof -
  obtain ok za1 where n: "(if idx = -1 then zip_entry_new lib za else (True, za)) = (ok, za1)"
    by (cases "if idx = -1 then zip_entry_new lib za else (True, za)")
  have k1: "keeps za za1"
    using n keeps_entry_new [OF assms(1), of lib] keeps_refl [OF assms(1)] by (auto split: if_splits)
  show ?thesis
  proof (cases ok)
    case False
    with n k1 show ?thesis by (simp add: zip_replace_at_def)
  next
    case True
    define ix where "ix = (if idx = -1 then za_nentry za1 - 1 else idx)"
    define za2 where "za2 = upd_entry za1 (nat ix) zip_unchange_data"
    have ix: "nat ix < length (za_entry za1)"
      using n True assms(2) by (auto simp: ix_def dest: zip_entry_new_True split: if_splits)
    have ix0: "0 \<le> ix"
      using n True assms(2) by (auto simp: ix_def dest: zip_entry_new_True split: if_splits)
    have k2: "keeps za1 za2" unfolding za2_def using k1 by (intro keeps_unchange_data) (simp add: keeps_def)
    obtain r za3 where s: "(if name \<noteq> None then zip_set_name lib za2 ix name else (0, za2)) = (r, za3)"
      by (cases "if name \<noteq> None then zip_set_name lib za2 ix name else (0, za2)")
    have "ze_state (za_entry za2 ! nat ix) \<noteq> ZIP_ST_DELETED"
      using ix by (simp add: za2_def zip_unchange_data_def)
    then have k3: "keeps za2 za3"
      using s k2 keeps_set_name [of za2 ix lib name] by (auto simp: keeps_def split: if_splits)
    have k4: "keeps za3 (upd_entry za3 (nat ix) (\<lambda>ze.
              ze\<lparr>ze_state := (if za_cdir za3 = None \<or> ix \<ge> int (cdir_nentry za3)
                             then ZIP_ST_ADDED else ZIP_ST_REPLACED), ze_source := Some source\<rparr>))"
      using k3 ix0 by (intro keeps_upd_entry) (auto simp: keeps_def entry_ok_def cdir_nentry_None)
    have "zip_replace_at lib za idx name source = (if r \<noteq> 0 then (-1, za3) else (ix, upd_entry za3 (nat ix) (\<lambda>ze.
              ze\<lparr>ze_state := (if za_cdir za3 = None \<or> ix \<ge> int (cdir_nentry za3)
                             then ZIP_ST_ADDED else ZIP_ST_REPLACED), ze_source := Some source\<rparr>)))"
      using n s True by (simp add: zip_replace_at_def ix_def [symmetric] za2_def [symmetric])
    moreover have k: "keeps za za3" by (rule keeps_trans [OF k1 keeps_trans [OF k2 k3]])
    ultimately show ?thesis using keeps_trans [OF k k4] by simp
  qed
qed

lemma keeps_replace: "archive_ok za \<Longrightarrow> keeps za (snd (zip_replace lib za idx source))"
  using keeps_replace_at [of za idx lib None]
  by (auto simp: zip_replace_def case_prod_beta split: option.split)

lemma keeps_add: "archive_ok za \<Longrightarrow> keeps za (snd (zip_add lib za name source))"
  using keeps_replace_at [of za "-1" lib]
  by (auto simp: zip_add_def split: option.split)

lemma keeps_add_dir: "archive_ok za \<Longrightarrow> keeps za (snd (zip_add_dir lib za name source))"
  using keeps_replace_at [of za "-1" lib]
  by (auto simp: zip_add_dir_def Let_def case_prod_beta keeps_refl split: option.split list.split)

lemma keeps_unchange_at: "archive_ok za \<Longrightarrow> keeps za (snd (zip_unchange_at za idx dup))"
  by (auto simp: zip_unchange_at_def Let_def entry_ok_unchange_data intro!: keeps_upd_entry)

lemma keeps_unchange: "archive_ok za \<Longrightarrow> keeps za (snd (zip_unchange za idx))"
  by (simp add: zip_unchange_def keeps_unchange_at)

lemma unchange_at_dup:
  assumes "0 \<le> idx" "idx < za_nentry za"
  shows "zip_unchange_at za idx True = (0, upd_entry za (nat idx) zip_entry_free)"
  using assms by (simp add: zip_unchange_at_def Let_def zip_entry_free_def [abs_def])

lemma upd_entry_upd_entry: "upd_entry (upd_entry za i f) i g = upd_entry za i (g \<circ> f)"
  by (cases "i < length (za_entry za)") (simp_all add: upd_entry_def list_update_beyond)

lemma zip_delete_eq:
  assumes "0 \<le> idx" "idx < za_nentry za"
  shows "zip_delete za idx = (0, upd_entry za (nat idx) (\<lambda>ze. fresh_entry\<lparr>ze_state := ZIP_ST_DELETED\<rparr>))"
proof -
  have "(\<lambda>ze. ze\<lparr>ze_state := ZIP_ST_DELETED\<rparr>) \<circ> zip_entry_free
        = (\<lambda>ze :: 'a zip_entry. fresh_entry\<lparr>ze_state := ZIP_ST_DELETED\<rparr>)"
    by (auto simp: fun_eq_iff zip_entry_free_def zip_unchange_data_def fresh_entry_def)
  then show ?thesis using assms by (simp add: zip_delete_def unchange_at_dup upd_entry_upd_entry)
qed

lemma keeps_delete: "archive_ok za \<Longrightarrow> keeps za (snd (zip_delete za idx))"
proof (cases "0 \<le> idx \<and> idx < za_nentry za")
  case True
  assume "archive_ok za"
  with True show ?thesis
    by (auto simp: zip_delete_eq entry_ok_def fresh_entry_def intro!: keeps_upd_entry)
next
  case False
  assume "archive_ok za"
  with False show ?thesis by (auto simp: zip_delete_def)
qed

lemma zip_get_name_state: "\<exists>e. snd (zip_get_name za idx flags) = za\<lparr>za_error := e\<rparr>"
  by (auto simp: zip_get_name_def case_prod_beta)

lemma keeps_error_update: "archive_ok za \<Longrightarrow> keeps za (za\<lparr>za_error := e\<rparr>)"
  by (rule keeps_fields) simp_all

lemma keeps_get_name: "archive_ok za \<Longrightarrow> keeps za (snd (zip_get_name za idx flags))"
  using zip_get_name_state [of za idx flags] by (auto intro: keeps_error_update)

lemma zip_get_name_not_deleted:
  assumes "zip_get_name za idx 0 = (Some n, za')"
  shows "0 \<le> idx" "idx < za_nentry za" "ze_state (za_entry za ! nat idx) \<noteq> ZIP_ST_DELETED"
    "za_entry za' = za_entry za"
  using assms by (auto simp: zip_get_name_def zip_get_name_e_def Let_def case_prod_beta split: if_splits)

lemma keeps_rename: "archive_ok za \<Longrightarrow> keeps za (snd (zip_rename lib za idx name))"
proof -
  assume ok: "archive_ok za"
  obtain old za1 where g: "zip_get_name za idx 0 = (old, za1)" by (cases "zip_get_name za idx 0")
  have k1: "keeps za za1" using keeps_get_name [OF ok, of idx 0] g by simp
  then have ok1: "archive_ok za1" by (simp add: keeps_def)
  have "keeps za1 (snd (zip_set_name lib za1 idx (Some name)))" if "old = Some n" for n
    using ok1 zip_get_name_not_deleted [of za idx n za1] g that by (intro keeps_set_name) auto
  then have "keeps za (snd (zip_set_name lib za1 idx (Some name)))" if "old = Some n" for n
    using k1 that by (blast intro: keeps_trans)
  moreover have "keeps za (za_set_error za1 a b)" for a b
    using k1 ok1 by (blast intro: keeps_trans keeps_set_error)
  ultimately show ?thesis using k1 ok g
    by (auto simp: zip_rename_def case_prod_beta keeps_refl split: option.split list.split)
qed

lemma keeps_unchange_archive: "archive_ok za \<Longrightarrow> keeps za (snd (zip_unchange_archive za))"
  by (rule keeps_fields) (simp_all add: zip_unchange_archive_def)

lemma unchange_all_loop_eq:
  "i + n = length (za_entry za) \<Longrightarrow>
     unchange_all_loop za i n =
       (False, za\<lparr>za_entry := take i (za_entry za) @ map zip_entry_free (drop i (za_entry za))\<rparr>)"
proof (induction n arbitrary: za i)
  case (Suc n)
  then have i: "i < length (za_entry za)" by simp
  then have d: "drop i (za_entry za) = za_entry za ! i # drop (Suc i) (za_entry za)"
    by (simp add: Cons_nth_drop_Suc)
  have "Suc i + n = length (za_entry (upd_entry za i zip_entry_free))" using Suc.prems by simp
  note IH = Suc.IH [OF this]
  show ?case using i
    by (simp add: unchange_at_dup IH d) (simp add: upd_entry_def take_Suc_conv_app_nth)
qed simp

lemma zip_unchange_all_eq:
  "zip_unchange_all za =
     (0, za\<lparr>za_entry := map (\<lambda>_. fresh_entry) (za_entry za), za_ch_comment := None,
            za_ch_comment_len := -1, za_ch_flags := za_flags za\<rparr>)"
proof -
  have "zip_entry_free = (\<lambda>_ :: 'a zip_entry. fresh_entry)"
    by (auto simp: fun_eq_iff zip_entry_free_def zip_unchange_data_def fresh_entry_def)
  then show ?thesis
    by (simp add: zip_unchange_all_def unchange_all_loop_eq zip_unchange_archive_def)
qed

lemma keeps_unchange_all: "archive_ok za \<Longrightarrow> keeps za (snd (zip_unchange_all za))"
  by (simp add: zip_unchange_all_eq keeps_def archive_ok_def same_origin_def cdir_nentry_def
      entry_ok_def fresh_entry_def)

lemma keeps_set_archive_flag: "archive_ok za \<Longrightarrow> keeps za (snd (zip_set_archive_flag za flag v))"
  by (rule keeps_fields) (simp_all add: zip_set_archive_flag_def)

lemma entry_ok_comment [simp]:
  "entry_ok n i (e\<lparr>ze_ch_comment := c, ze_ch_comment_len := l\<rparr>) = entry_ok n i e"
  by (cases "ze_state e") (simp_all add: entry_ok_def)

lemma keeps_set_file_comment:
  "archive_ok za \<Longrightarrow> keeps za (snd (zip_set_file_comment lib za idx c len))"
  by (auto simp: zip_set_file_comment_def keeps_refl archive_ok_nth
      intro!: keeps_upd_entry split: sum.split fault.split)

lemma keeps_set_archive_comment:
  "archive_ok za \<Longrightarrow> keeps za (snd (zip_set_archive_comment lib za c len))"
  by (auto simp: zip_set_archive_comment_def keeps_refl intro!: keeps_fields split: sum.split fault.split)

lemma keeps_name_locate: "archive_ok za \<Longrightarrow> keeps za (snd (zip_name_locate za fname flags))"
  by (auto simp: zip_name_locate_def case_prod_beta intro: keeps_error_update)

lemma upd_entry_error: "upd_entry (za\<lparr>za_error := e\<rparr>) i f = (upd_entry za i f)\<lparr>za_error := e\<rparr>"
  by (simp add: upd_entry_def)

lemma keeps_stat_index:
  assumes "zip_stat_index za index flags st = Some (res, za')" and ok: "archive_ok za"
  shows "keeps za za'"
proof -
  obtain n za1 where g: "zip_get_name za index flags = (n, za1)" by (cases "zip_get_name za index flags")
  have k1: "keeps za za1" using keeps_get_name [OF ok, of index flags] g by simp
  then have ok1: "archive_ok za1" by (simp add: keeps_def)
  have u: "keeps za1 (upd_entry za1 (nat index) (\<lambda>ze. ze\<lparr>ze_source := Some s\<rparr>))"
    if "entry_data_changed (za_entry za1 ! nat index)" for s
    using that archive_ok_nth [OF ok1, of "nat index"]
    by (intro keeps_upd_entry [OF ok1]) (auto simp: entry_ok_def entry_data_changed_def)
  have e: "keeps za (za_set_error za1 a b)" for a b
    using k1 ok1 by (blast intro: keeps_trans keeps_set_error)
  have "keeps za (upd_entry za1 (nat index) (\<lambda>ze. ze\<lparr>ze_source := Some s\<rparr>))
      \<and> keeps za (za_set_error (upd_entry za1 (nat index) (\<lambda>ze. ze\<lparr>ze_source := Some s\<rparr>)) a b)"
    if "entry_data_changed (za_entry za1 ! nat index)" for s a b
  proof -
    have "keeps za (upd_entry za1 (nat index) (\<lambda>ze. ze\<lparr>ze_source := Some s\<rparr>))"
      by (rule keeps_trans [OF k1 u [OF that]])
    then show ?thesis by (meson keeps_def keeps_set_error keeps_trans)
  qed
  then show ?thesis using assms(1) k1 e ok g
    by (auto simp: zip_stat_index_def case_prod_beta Let_def keeps_set_error split: option.splits sum.splits if_splits)
qed

lemma keeps_stat_name:
  assumes "zip_stat_name za fname flags st = Some (res, za')" and ok: "archive_ok za"
  shows "keeps za za'"
proof -
  obtain r za1 where g: "zip_name_locate za fname flags = (r, za1)" by (cases "zip_name_locate za fname flags")
  have k: "keeps za za1" using keeps_name_locate [OF ok, of fname flags] g by simp
  then have "zip_stat_index za1 i flags st = Some (r', za2) \<Longrightarrow> keeps za za2" for i r' za2
    by (meson keeps_def keeps_stat_index keeps_trans)
  with k g assms(1) show ?thesis by (auto simp: zip_stat_name_def split: sum.splits if_splits)
qed

lemmas keeps_all = keeps_add keeps_add_dir keeps_replace keeps_rename keeps_delete keeps_unchange
  keeps_unchange_all keeps_unchange_archive keeps_set_file_comment keeps_set_archive_comment
  keeps_set_archive_flag keeps_name_locate

section \<open>Editing sessions\<close>

text \<open>
  One call of a client on an open archive, and any sequence of calls. A call is possible while the entry array is
  there (a failed \<open>realloc\<close> in \<open>_zip_entry_new\<close> loses it).
\<close>

inductive zip_edit :: "clib \<Rightarrow> 'u zip \<Rightarrow> 'u zip \<Rightarrow> bool" for lib where
  edit_add: "\<not> za_entry_lost za \<Longrightarrow> zip_edit lib za (snd (zip_add lib za name source))"
| edit_add_dir: "\<not> za_entry_lost za \<Longrightarrow> zip_edit lib za (snd (zip_add_dir lib za name source))"
| edit_replace: "\<not> za_entry_lost za \<Longrightarrow> zip_edit lib za (snd (zip_replace lib za idx source))"
| edit_rename: "\<not> za_entry_lost za \<Longrightarrow> zip_edit lib za (snd (zip_rename lib za idx newname))"
| edit_delete: "\<not> za_entry_lost za \<Longrightarrow> zip_edit lib za (snd (zip_delete za idx))"
| edit_unchange: "\<not> za_entry_lost za \<Longrightarrow> zip_edit lib za (snd (zip_unchange za idx))"
| edit_unchange_all: "\<not> za_entry_lost za \<Longrightarrow> zip_edit lib za (snd (zip_unchange_all za))"
| edit_unchange_archive: "\<not> za_entry_lost za \<Longrightarrow> zip_edit lib za (snd (zip_unchange_archive za))"
| edit_file_comment: "\<not> za_entry_lost za \<Longrightarrow> zip_edit lib za (snd (zip_set_file_comment lib za idx c len))"
| edit_archive_comment: "\<not> za_entry_lost za \<Longrightarrow> zip_edit lib za (snd (zip_set_archive_comment lib za c len))"
| edit_flag: "\<not> za_entry_lost za \<Longrightarrow> zip_edit lib za (snd (zip_set_archive_flag za flag v))"
| edit_locate: "\<not> za_entry_lost za \<Longrightarrow> zip_edit lib za (snd (zip_name_locate za fname flags))"
| edit_stat_index: "\<not> za_entry_lost za \<Longrightarrow> zip_stat_index za idx flags st = Some (r, za') \<Longrightarrow> zip_edit lib za za'"
| edit_stat: "\<not> za_entry_lost za \<Longrightarrow> zip_stat_name za fname flags st = Some (r, za') \<Longrightarrow> zip_edit lib za za'"

inductive_cases zip_editE: "zip_edit lib za za'"

lemma keeps_edit: "zip_edit lib za za' \<Longrightarrow> archive_ok za \<Longrightarrow> keeps za za'"
  by (erule zip_editE) (simp_all add: keeps_all keeps_stat_index keeps_stat_name)

lemma keeps_session: "(zip_edit lib)\<^sup>*\<^sup>* za za' \<Longrightarrow> archive_ok za \<Longrightarrow> keeps za za'"
proof (induction rule: rtranclp_induct)
  case base
  then show ?case by (rule keeps_refl)
next
  case (step y z)
  then have "keeps za y" by simp
  with step(2) show ?case by (meson keeps_def keeps_edit keeps_trans)
qed

text \<open>An archive as \<open>zip_open\<close> returns it: one untouched entry for each entry of the directory.\<close>

definition just_opened :: "'u zip \<Rightarrow> bool" where
  "just_opened za \<longleftrightarrow> za_entry za = replicate (cdir_nentry za) fresh_entry \<and> za_ch_comment_len za = -1
     \<and> za_ch_comment za = None \<and> za_ch_flags za = za_flags za \<and> \<not> za_entry_lost za"

lemma just_opened_ok: "just_opened za \<Longrightarrow> archive_ok za"
  by (simp add: just_opened_def archive_ok_def entry_ok_def fresh_entry_def)

section \<open>Names under editing\<close>

lemma first_slot_append_None [simp]: "first_slot P (xs @ [None]) = first_slot P xs"
  by (induction xs) (simp_all add: Let_def)

lemma keys_distinct_append_None: "keys_distinct (xs @ [None]) \<longleftrightarrow> keys_distinct xs"
  unfolding keys_distinct_def by (auto simp: nth_append less_Suc_eq)

lemma cur_names_upd_entry:
  assumes "i < length (za_entry za)"
  shows "cur_names (upd_entry za i f) = (cur_names za)[i := entry_name (za_cdir za) i (f (za_entry za ! i))]"
proof (rule nth_equalityI)
  fix j
  assume "j < length (cur_names (upd_entry za i f))"
  then show "cur_names (upd_entry za i f) ! j
      = (cur_names za)[i := entry_name (za_cdir za) i (f (za_entry za ! i))] ! j"
    using assms by (cases "i = j") (simp_all add: cur_name_entry)
qed simp

lemma cur_names_append:
  assumes "za_entry za' = za_entry za @ [e]" and "za_cdir za' = za_cdir za"
  shows "cur_names za' = cur_names za @ [entry_name (za_cdir za) (length (za_entry za)) e]"
  using assms by (intro nth_equalityI) (auto simp: cur_name_entry nth_append less_Suc_eq)

lemma cur_names_cong: "za_entry za' = za_entry za \<Longrightarrow> za_cdir za' = za_cdir za \<Longrightarrow> cur_names za' = cur_names za"
  by (intro nth_equalityI) (simp_all add: cur_name_entry)

lemma locate_cong: "za_entry za' = za_entry za \<Longrightarrow> za_cdir za' = za_cdir za \<Longrightarrow> locate za' n = locate za n"
  by (simp add: locate_first cur_names_cong [of za' za])

lemma archive_ok_beyond: "archive_ok za \<Longrightarrow> entry_name (za_cdir za) (length (za_entry za)) fresh_entry = None"
  by (auto simp: archive_ok_def cdir_nentry_def entry_name_def fresh_entry_def split: option.splits)

lemma locate_appended:
  assumes "archive_ok za" "za_entry za' = za_entry za @ [fresh_entry]" "za_cdir za' = za_cdir za"
  shows "locate za' n = locate za n"
  using cur_names_append [OF assms(2,3)] assms(1) by (simp add: locate_first archive_ok_beyond)

definition added_entry :: "byte list \<Rightarrow> 'u zip_source \<Rightarrow> 'u zip_entry" where
  "added_entry name source = \<lparr>ze_state = ZIP_ST_ADDED, ze_source = Some source, ze_ch_filename = Some name,
     ze_ch_comment = None, ze_ch_comment_len = -1\<rparr>"

text \<open>\<open>zip_add\<close> in closed form: the checks happen after the entry has been created.\<close>

lemma zip_add_eq:
  assumes "archive_ok za" and "zip_entry_new lib za = (True, za1)"
  shows "zip_add lib za (Some name) (Some source) =
    (if locate za name \<noteq> -1 then (-1, za_set_error za1 ZIP_ER_EXISTS 0)
     else if \<not> malloc_ok lib ''char'' (length name + 1) then (-1, za_set_error za1 ZIP_ER_MEMORY 0)
     else (za_nentry za, za1\<lparr>za_entry := za_entry za @ [added_entry name source]\<rparr>))"
proof -
  note new = zip_entry_new_True [OF assms(2)]
  let ?n = "length (za_entry za)"
  have u: "upd_entry za1 ?n zip_unchange_data = za1"
    by (simp add: upd_entry_def new zip_unchange_data_def fresh_entry_def list_update_append nth_append)
  have l: "locate za1 name = locate za name" by (rule locate_appended [OF assms(1) new])
  have r: "locate za name \<noteq> int ?n" using first_slot_range [of "\<lambda>x. x = name" "cur_names za"]
    by (auto simp: locate_first)
  have c: "za_cdir za1 = None \<or> cdir_nentry za1 \<le> ?n"
    using assms(1) new(2) by (simp add: archive_ok_def cdir_nentry_def)
  have f: "upd_entry (upd_entry za1 ?n (\<lambda>ze.
             ze\<lparr>ze_state := (if ze_state ze = ZIP_ST_UNCHANGED then ZIP_ST_RENAMED else ze_state ze),
                ze_ch_filename := Some name\<rparr>)) ?n (\<lambda>ze. ze\<lparr>ze_state := ZIP_ST_ADDED, ze_source := Some source\<rparr>)
      = za1\<lparr>za_entry := za_entry za @ [added_entry name source]\<rparr>"
    by (simp add: upd_entry_upd_entry)
       (simp add: upd_entry_def new fresh_entry_def added_entry_def nth_append list_update_append)
  show ?thesis using assms(2) u l r c f
    by (auto simp: zip_add_def zip_replace_at_def zip_set_name_def Let_def new)
qed

lemma zip_add_success:
  assumes "archive_ok za" and "zip_add lib za (Some name) (Some source) = (r, za')" and "r \<noteq> -1"
  shows "r = za_nentry za" and "locate za name = -1" and "za_cdir za' = za_cdir za"
    and "za_entry za' = za_entry za @ [added_entry name source]"
proof -
  obtain ok za1 where n: "zip_entry_new lib za = (ok, za1)" by (cases "zip_entry_new lib za")
  with assms(2,3) have ok by (auto simp: zip_add_def zip_replace_at_def split: if_splits)
  with n have n: "zip_entry_new lib za = (True, za1)" by simp
  show "r = za_nentry za" "locate za name = -1" "za_cdir za' = za_cdir za"
    "za_entry za' = za_entry za @ [added_entry name source]"
    using assms(2,3) zip_add_eq [OF assms(1) n] zip_entry_new_True [OF n] by (auto split: if_splits)
qed

lemma zip_add_success_names:
  assumes "archive_ok za" and "zip_add lib za (Some name) (Some source) = (r, za')" and "r \<noteq> -1"
  shows "cur_names za' = cur_names za @ [Some name]"
  using cur_names_append [OF zip_add_success(4,3) [OF assms]] by (simp add: entry_name_def added_entry_def)

text \<open>An archive between the creation of the entry and its naming; it carries the table lemmas over to
  \<open>zip_add\<close>.\<close>

lemma zip_add_table:
  assumes "archive_ok za" and "keys_distinct (cur_names za)"
    and "zip_add lib za (Some name) (Some source) = (r, za')" and "r \<noteq> -1"
  shows "keys_distinct (cur_names za') \<and> locate za' name = r
           \<and> (\<forall>n. n \<noteq> name \<longrightarrow> locate za' n = locate za n)"
proof -
  let ?mid = "za\<lparr>za_entry := za_entry za @ [fresh_entry]\<rparr>"
  have m: "cur_names ?mid = cur_names za @ [None]"
    using cur_names_append [of ?mid za fresh_entry] assms(1) by (simp add: archive_ok_beyond)
  have d: "keys_distinct (cur_names ?mid)" using assms(2) by (simp add: m keys_distinct_append_None)
  have l: "locate ?mid n = locate za n" for n by (simp add: locate_first m)
  have s: "cur_names za' = (cur_names ?mid)[length (za_entry za) := Some name]"
    by (simp add: zip_add_success_names [OF assms(1,3,4)] m list_update_append)
  note facts = zip_add_success [OF assms(1,3,4)]
  show ?thesis
    using archive_names.store_distinct [OF d _ s] archive_names.store_find [OF d _ _ s]
      archive_names.store_find_other [OF d _ s] facts l m by (simp add: nth_append)
qed

lemma names_keep_error: "cur_names (za_set_error za a b) = cur_names za"
  by (rule cur_names_cong) simp_all

lemma keys_distinct_add:
  assumes "archive_ok za" and "keys_distinct (cur_names za)"
  shows "keys_distinct (cur_names (snd (zip_add lib za name source)))"
proof (cases "name \<noteq> None \<and> source \<noteq> None")
  case False
  then show ?thesis using assms(2) by (auto simp: zip_add_def names_keep_error split: option.split)
next
  case True
  then obtain nm src where [simp]: "name = Some nm" "source = Some src" by blast
  obtain ok za1 where n: "zip_entry_new lib za = (ok, za1)" by (cases "zip_entry_new lib za")
  show ?thesis
  proof (cases ok)
    case False
    with n have "za_entry za1 = za_entry za" "za_cdir za1 = za_cdir za"
      by (auto simp: zip_entry_new_def Let_def split: if_splits)
    with False n assms(2) cur_names_cong [of za1 za] show ?thesis by (simp add: zip_add_def zip_replace_at_def)
  next
    case True
    with n have n: "zip_entry_new lib za = (True, za1)" by simp
    obtain r za' where a: "zip_add lib za (Some nm) (Some src) = (r, za')"
      by (cases "zip_add lib za (Some nm) (Some src)")
    show ?thesis
    proof (cases "r = -1")
      case False
      then show ?thesis using zip_add_table [OF assms a False] a by simp
    next
      case True
      then have "za_entry za' = za_entry za @ [fresh_entry]" "za_cdir za' = za_cdir za"
        using a zip_add_eq [OF assms(1) n, of nm src] zip_entry_new_True [OF n] by (auto split: if_splits)
      from cur_names_append [OF this] assms show ?thesis
        by (simp add: a archive_ok_beyond keys_distinct_append_None)
    qed
  qed
qed

lemma zip_add_dir_cases:
  obtains (error) "za_entry (snd (zip_add_dir lib za name src)) = za_entry za"
      "za_cdir (snd (zip_add_dir lib za name src)) = za_cdir za"
  | (add) n s where "snd (zip_add_dir lib za name src) = snd (zip_add lib za (Some n) (Some s))"
proof -
  have "(za_entry (snd (zip_add_dir lib za name src)) = za_entry za
         \<and> za_cdir (snd (zip_add_dir lib za name src)) = za_cdir za)
      \<or> (\<exists>n s. snd (zip_add_dir lib za name src) = snd (zip_add lib za (Some n) (Some s)))"
    by (auto simp: zip_add_dir_def zip_add_def Let_def case_prod_beta split: option.split list.split)
  with that show ?thesis by blast
qed

lemma keys_distinct_add_dir:
  assumes "archive_ok za" and "keys_distinct (cur_names za)"
  shows "keys_distinct (cur_names (snd (zip_add_dir lib za name src)))"
proof (cases rule: zip_add_dir_cases [of lib za name src])
  case error
  with assms cur_names_cong show ?thesis by metis
next
  case (add n s)
  with keys_distinct_add [OF assms] show ?thesis by simp
qed

lemma zip_set_name_cases:
  assumes "0 \<le> idx" "idx < za_nentry za" "ze_state (za_entry za ! nat idx) \<noteq> ZIP_ST_DELETED"
  obtains (same) "cur_names (snd (zip_set_name lib za idx (Some name))) = cur_names za"
  | (stored) "locate za name = -1"
      "cur_names (snd (zip_set_name lib za idx (Some name))) = (cur_names za)[nat idx := Some name]"
      "fst (zip_set_name lib za idx (Some name)) = 0"
proof (cases "locate za name = -1 \<and> malloc_ok lib ''char'' (length name + 1)")
  case True
  then show ?thesis using assms
    by (intro that(2)) (auto simp: zip_set_name_def Let_def cur_names_upd_entry entry_name_def)
next
  case False
  then show ?thesis using assms by (intro that(1)) (auto simp: zip_set_name_def Let_def names_keep_error)
qed

lemma zip_rename_cases:
  obtains (same) "cur_names (snd (zip_rename lib za idx name)) = cur_names za"
  | (stored) "locate za name = -1" "0 \<le> idx" "idx < za_nentry za"
      "cur_names (snd (zip_rename lib za idx name)) = (cur_names za)[nat idx := Some name]"
      "fst (zip_rename lib za idx name) = Inr 0"
proof -
  obtain old za1 where g: "zip_get_name za idx 0 = (old, za1)" by (cases "zip_get_name za idx 0")
  have e: "za_entry za1 = za_entry za" "za_cdir za1 = za_cdir za"
    using zip_get_name_state [of za idx 0] g by auto
  note n1 = cur_names_cong [OF e] and l1 = locate_cong [OF e]
  let ?R = "zip_rename lib za idx name" and ?S = "zip_set_name lib za1 idx (Some name)"
  have "cur_names (snd ?R) = cur_names za \<or> (\<exists>o'. old = Some o' \<and> snd ?R = snd ?S \<and> fst ?R = Inr (fst ?S))"
    using g n1 by (auto simp: zip_rename_def case_prod_beta names_keep_error split: option.split list.split)
  then consider (fail) "cur_names (snd ?R) = cur_names za"
    | (call) o' where "old = Some o'" "snd ?R = snd ?S" "fst ?R = Inr (fst ?S)" by blast
  then show ?thesis
  proof cases
    case fail
    then show ?thesis by (rule that(1))
  next
    case call
    note nd = zip_get_name_not_deleted [OF g [unfolded call(1)]]
    have "0 \<le> idx" "idx < za_nentry za1" "ze_state (za_entry za1 ! nat idx) \<noteq> ZIP_ST_DELETED"
      using nd by simp_all
    then show ?thesis
    proof (cases rule: zip_set_name_cases [of idx za1 lib name])
      case same
      with call n1 show ?thesis by (intro that(1)) simp
    next
      case stored
      with call n1 l1 [of name] nd show ?thesis by (intro that(2)) simp_all
    qed
  qed
qed

lemma keys_distinct_rename:
  assumes "keys_distinct (cur_names za)"
  shows "keys_distinct (cur_names (snd (zip_rename lib za idx name)))"
  using assms archive_names.store_distinct [OF assms, of name "snd (zip_rename lib za idx name)"]
  by (cases rule: zip_rename_cases [of lib za idx name]) simp_all

lemma cur_names_delete:
  "0 \<le> idx \<Longrightarrow> idx < za_nentry za \<Longrightarrow> cur_names (snd (zip_delete za idx)) = (cur_names za)[nat idx := None]"
  by (simp add: zip_delete_eq cur_names_upd_entry entry_name_def fresh_entry_def)

lemma keys_distinct_delete:
  assumes "keys_distinct (cur_names za)"
  shows "keys_distinct (cur_names (snd (zip_delete za idx)))"
proof (cases "0 \<le> idx \<and> idx < za_nentry za")
  case True
  then show ?thesis using archive_names.erase_distinct [OF assms] cur_names_delete by metis
next
  case False
  then show ?thesis using assms by (auto simp: zip_delete_def names_keep_error)
qed

section \<open>Comments and flags\<close>

lemma zip_set_get_file_comment:
  assumes "0 \<le> idx" "idx < za_nentry za" and "0 \<le> len" "len \<le> int MAXCOMLEN" and "malloc_total lib"
    and "comment = Some c" and "len = int (length c)"
  shows "\<exists>za'. zip_set_file_comment lib za idx comment len = (Inr 0, za')
     \<and> fst (zip_get_file_comment za' idx 0) = Inr (if len = 0 then None else Some c, len)"
  using assms
  by (auto simp: zip_set_file_comment_def dup_comment_def zip_memdup_def malloc_total_def
      zip_get_file_comment_def mem_load_def)

text \<open>The comment of an added entry that was never given one is read from a directory slot that does not
  exist.\<close>

lemma zip_get_file_comment_added_ub:
  assumes "archive_ok za" and "i < length (za_entry za)" and "ze_state (za_entry za ! i) = ZIP_ST_ADDED"
    and "ze_ch_comment_len (za_entry za ! i) = -1"
  shows "fst (zip_get_file_comment za (int i) flags) = Inl UB"
  using archive_ok_nth [OF assms(1,2)] assms
  by (auto simp: zip_get_file_comment_def entry_ok_def cdir_nentry_def split: option.split)

lemma zip_archive_flag_set_get:
  "zip_get_archive_flag (snd (zip_set_archive_flag za flag v)) flag 0 = (if v \<and> flag \<noteq> 0 then 1 else 0)"
proof -
  have "(x OR flag) AND flag = flag" "(x AND NOT flag) AND flag = 0" for x
    by (auto simp: bit_eq_iff bit_simps)
  then show ?thesis by (simp add: zip_set_archive_flag_def zip_get_archive_flag_def flag_set_def)
qed

section \<open>A sample archive\<close>

text \<open>Two files \<open>a\<close> and \<open>b\<close>, freshly opened; used to exercise the theorems.\<close>

definition named_dirent :: "byte list \<Rightarrow> zip_dirent" where
  "named_dirent n = sample_dirent\<lparr>zde_filename := Some n, zde_filename_len := of_nat (length n)\<rparr>"

definition two_files_cdir :: zip_cdir where
  "two_files_cdir = \<lparr>cd_entry = [named_dirent [0x61], named_dirent [0x62]], cd_size = 0, cd_offset = 0,
                  cd_comment = None, cd_comment_len = 0\<rparr>"

definition sample_zip :: "unit zip" where
  "sample_zip = \<lparr>za_zn = Some [0x7a], za_zp = None, za_error = zip_error_init, za_flags = 0, za_ch_flags = 0,
                za_cdir = Some two_files_cdir, za_ch_comment = None, za_ch_comment_len = -1, za_nentry_alloc = 2,
                za_entry = [fresh_entry, fresh_entry], za_entry_lost = False, za_nfile_alloc = 0, za_file = []\<rparr>"

definition sample_source :: "unit zip_source" where
  "sample_source = \<lparr>src_f = (\<lambda>u c n. Some (Inr (-1, PNone, u))), src_ud = ()\<rparr>"

lemma sample_zip_opened: "just_opened sample_zip"
  by (simp add: just_opened_def sample_zip_def cdir_nentry_def two_files_cdir_def numeral_2_eq_2)

lemma sample_zip_names: "cur_names sample_zip = [Some [0x61], Some [0x62]]"
  by (rule nth_equalityI)
     (auto simp: cur_name_entry entry_name_def sample_zip_def two_files_cdir_def named_dirent_def fresh_entry_def
       less_Suc_eq numeral_2_eq_2)

lemma sample_zip_distinct: "keys_distinct (cur_names sample_zip)"
  by (auto simp: sample_zip_names keys_distinct_def less_Suc_eq)

section \<open>Properties\<close>

text \<open>C26: any sequence of client calls on a freshly opened archive, failing calls included, leaves every entry in
  a state that agrees with its fields: only replaced and added entries own a data source, an entry
  is replaced exactly when it belongs to the original directory and added exactly when it does not, a
  new name is pending only where the state admits one. The directory and the flags read from the file are
  never modified and no entry slot disappears.\<close>

theorem zip_edit_invariant:
  assumes "just_opened za0" and "(zip_edit lib)\<^sup>*\<^sup>* za0 za"
  shows "archive_ok za \<and> za_cdir za = za_cdir za0 \<and> za_flags za = za_flags za0
       \<and> cdir_nentry za0 \<le> length (za_entry za)"
  using keeps_session [OF assms(2) just_opened_ok [OF assms(1)]] just_opened_ok [OF assms(1)]
  by (auto simp: keeps_def same_origin_def archive_ok_def)

theorem zip_edit_invariant_witness:
  "archive_ok (snd (zip_delete (snd (zip_add sample_lib sample_zip (Some [0x63]) (Some sample_source))) 0))"
proof -
  let ?z1 = "snd (zip_add sample_lib sample_zip (Some [0x63]) (Some sample_source))"
  have "\<not> za_entry_lost sample_zip" by (simp add: sample_zip_def)
  then have 1: "zip_edit sample_lib sample_zip ?z1" by (rule edit_add)
  have "\<not> za_entry_lost ?z1"
    by (simp add: zip_add_def zip_replace_at_def zip_entry_new_def zip_set_name_def sample_zip_def sample_lib_def
        Let_def za_set_error_def upd_entry_def)
  then have 2: "zip_edit sample_lib ?z1 (snd (zip_delete ?z1 0))" by (rule edit_delete)
  from 1 2 have "(zip_edit sample_lib)\<^sup>*\<^sup>* sample_zip (snd (zip_delete ?z1 0))" by (meson r_into_rtranclp rtranclp.rtrancl_into_rtrancl)
  from zip_edit_invariant [OF sample_zip_opened this] show ?thesis by simp
qed

text \<open>C27: \<open>zip_unchange_all\<close> undoes an editing session. Whatever calls were made since the archive was
  opened, it succeeds, leaves nothing that counts as a change (so closing will not
  rewrite the file), and every original entry again has its original name and no pending data or comment.\<close>

theorem zip_unchange_all_reverts:
  assumes "just_opened za0" and "(zip_edit lib)\<^sup>*\<^sup>* za0 za"
  shows "fst (zip_unchange_all za) = 0
       \<and> zip_changed (snd (zip_unchange_all za)) = (False, length (za_entry za))
       \<and> (\<forall>i < cdir_nentry za0. za_entry (snd (zip_unchange_all za)) ! i = fresh_entry
                               \<and> cur_name (snd (zip_unchange_all za)) i = cur_name za0 i)"
proof -
  have k: "keeps za0 za" by (rule keeps_session [OF assms(2) just_opened_ok [OF assms(1)]])
  have f: "filter (\<lambda>e :: 'a zip_entry. ze_state e \<noteq> ZIP_ST_DELETED) (map (\<lambda>_. fresh_entry) xs)
            = map (\<lambda>_. fresh_entry) xs" for xs :: "'a zip_entry list"
    by (induction xs) (simp_all add: fresh_entry_def)
  have c: "zip_changed (snd (zip_unchange_all za)) = (False, length (za_entry za))"
    by (simp add: zip_unchange_all_eq zip_changed_def f) (simp add: fresh_entry_def)
  have "cur_name (snd (zip_unchange_all za)) i = cur_name za0 i" if "i < cdir_nentry za0" for i
    using that k assms(1)
    by (simp add: zip_unchange_all_eq cur_name_entry just_opened_def keeps_def same_origin_def)
  moreover have "za_entry (snd (zip_unchange_all za)) ! i = fresh_entry" if "i < cdir_nentry za0" for i
    using that k assms(1) by (simp add: zip_unchange_all_eq just_opened_def keeps_def same_origin_def)
  ultimately show ?thesis using c by (simp add: zip_unchange_all_eq)
qed

theorem zip_unchange_all_reverts_witness:
  "zip_changed (snd (zip_unchange_all (snd (zip_delete sample_zip 0)))) = (False, 2)
   \<and> zip_changed (snd (zip_delete sample_zip 0)) = (True, 1)"
proof -
  have "zip_edit sample_lib sample_zip (snd (zip_delete sample_zip 0))"
    by (rule edit_delete) (simp add: sample_zip_def)
  then have "(zip_edit sample_lib)\<^sup>*\<^sup>* sample_zip (snd (zip_delete sample_zip 0))" by blast
  from zip_unchange_all_reverts [OF sample_zip_opened this]
  have "zip_changed (snd (zip_unchange_all (snd (zip_delete sample_zip 0)))) = (False, 2)"
    by (simp add: zip_delete_eq sample_zip_def)
  moreover have "zip_changed (snd (zip_delete sample_zip 0)) = (True, 1)"
    by (simp add: zip_delete_eq sample_zip_def upd_entry_def zip_changed_def fresh_entry_def)
  ultimately show ?thesis by simp
qed

lemma zip_get_name_e_err: "\<exists>m e'. zip_get_name_e za idx flags (Some e) = (m, Some e')"
  by (auto simp: zip_get_name_e_def err_set_def Let_def split: option.split)

lemma name_locate_noent:
  assumes "\<not> flag_set flags ZIP_FL_UNCHANGED"
    and "fst (name_locate_loop za fname flags i n (Some e)) = -1"
  shows "\<exists>e'. snd (name_locate_loop za fname flags i n (Some e)) = Some (zip_error_set e' ZIP_ER_NOENT 0)"
  using assms(2)
proof (induction n arbitrary: i e)
  case (Suc n)
  obtain m e' where "zip_get_name_e za (int i) flags (Some e) = (m, Some e')"
    using zip_get_name_e_err by blast
  then show ?case using Suc assms(1) by (auto simp: Let_def split: option.splits if_splits)
qed (auto simp: err_set_def)

text \<open>\<open>zip_name_locate\<close> over the current names returns the first entry whose name matches under the
  caller's flags (case-insensitively with \<open>ZIP_FL_NOCASE\<close>, ignoring directories with
  \<open>ZIP_FL_NODIR\<close>; deleted entries have no name), and otherwise \<open>-1\<close> with the error \<open>ZIP_ER_NOENT\<close>.\<close>

theorem zip_name_locate_first:
  assumes "\<not> flag_set flags ZIP_FL_UNCHANGED"
  shows "\<exists>r. fst (zip_name_locate za (Some fname) flags) = Inr r
      \<and> (r = -1 \<or> (\<exists>i. r = int i))
      \<and> (r = -1 \<longleftrightarrow> \<not> (\<exists>i < length (za_entry za). \<exists>n. cur_name za i = Some n \<and> name_matches flags fname n))
      \<and> (r = -1 \<longrightarrow> zip_err (za_error (snd (zip_name_locate za (Some fname) flags))) = ZIP_ER_NOENT)
      \<and> (\<forall>i. r = int i \<longrightarrow> i < length (za_entry za)
             \<and> (\<exists>n. cur_name za i = Some n \<and> name_matches flags fname n)
             \<and> (\<forall>j < i. \<forall>n. cur_name za j = Some n \<longrightarrow> \<not> name_matches flags fname n))"
proof -
  let ?n = "length (za_entry za)" and ?err = "Some (za_error za)"
  define r where "r = first_slot (name_matches flags fname) (cur_names za)"
  have c: "map (\<lambda>j. fst (zip_get_name_e za (int j) flags None)) [0..<?n] = cur_names za"
    by (simp add: cur_names_def cur_name_def get_name_flags_irrelevant [OF assms])
  have l: "fst (name_locate_loop za fname flags 0 ?n ?err) = r"
    using name_locate_loop_slots [OF assms, of za fname 0 ?n ?err] by (simp add: r_def c Let_def)
  note noent = name_locate_noent [OF assms]
  have res: "fst (zip_name_locate za (Some fname) flags) = Inr r"
    using l assms by (simp add: zip_name_locate_def zip_name_locate_e_def case_prod_beta)
  have err: "r = -1 \<longrightarrow> zip_err (za_error (snd (zip_name_locate za (Some fname) flags))) = ZIP_ER_NOENT"
    using noent [of za fname 0 ?n "za_error za"] l assms
    by (auto simp: zip_name_locate_def zip_name_locate_e_def case_prod_beta zip_error_set_def)
  have "r = -1 \<longleftrightarrow> \<not> (\<exists>i < ?n. \<exists>n. cur_name za i = Some n \<and> name_matches flags fname n)"
    unfolding r_def first_slot_none by (auto simp: in_set_conv_nth) (metis nth_cur_names)
  moreover have "r = -1 \<or> (\<exists>i. r = int i)"
    using first_slot_range [of "name_matches flags fname" "cur_names za"] unfolding r_def
    by (auto dest: zero_le_imp_eq_int)
  moreover have "\<forall>i. r = int i \<longrightarrow> i < ?n \<and> (\<exists>n. cur_name za i = Some n \<and> name_matches flags fname n)
             \<and> (\<forall>j < i. \<forall>n. cur_name za j = Some n \<longrightarrow> \<not> name_matches flags fname n)"
    unfolding r_def first_slot_some by auto
  ultimately show ?thesis using res err by blast
qed

theorem zip_name_locate_first_witness: "fst (zip_name_locate sample_zip (Some [0x42]) ZIP_FL_NOCASE) = Inr 1"
proof -
  have nf: "\<not> flag_set ZIP_FL_NOCASE ZIP_FL_UNCHANGED" by (simp add: flag_set_def)
  have n: "cur_name sample_zip 0 = Some [0x61]" "cur_name sample_zip 1 = Some [0x62]"
    using nth_cur_names [of 0 sample_zip] nth_cur_names [of 1 sample_zip]
    by (simp_all add: sample_zip_names) (simp_all add: sample_zip_def)
  have l: "length (za_entry sample_zip) = 2" by (simp add: sample_zip_def)
  have m: "name_matches ZIP_FL_NOCASE [0x42] [0x62]" "\<not> name_matches ZIP_FL_NOCASE [0x42] [0x61]"
    by (simp_all add: name_matches_def flag_set_def strcasecmp_eq_def ascii_lower_def)
  obtain r where r: "fst (zip_name_locate sample_zip (Some [0x42]) ZIP_FL_NOCASE) = Inr r"
      "r = -1 \<longleftrightarrow> \<not> (\<exists>i < 2. \<exists>n. cur_name sample_zip i = Some n \<and> name_matches ZIP_FL_NOCASE [0x42] n)"
      "r = -1 \<or> (\<exists>i. r = int i)"
      "\<forall>i. r = int i \<longrightarrow> i < 2 \<and> (\<exists>n. cur_name sample_zip i = Some n \<and> name_matches ZIP_FL_NOCASE [0x42] n)"
    using zip_name_locate_first [OF nf, of sample_zip "[0x42]"] unfolding l by blast
  have "(1::nat) < 2" by simp
  with r(2) n(2) m(1) have "r \<noteq> -1" by blast
  with r(3) obtain i where i: "r = int i" by blast
  with r(4) have "i < 2" "i \<noteq> 0" using n(1) m(2) by (blast, metis option.inject)
  with i r(1) show ?thesis by simp
qed

text \<open>C28: adding a file. In an archive without duplicate names, a successful \<open>zip_add\<close> returns the index
  of a new last entry that carries the name and the source, finds the name there and every other
  name where it was, and leaves no duplicates; it can only succeed when the name was not present.\<close>

theorem zip_add_correct:
  assumes "archive_ok za" and "keys_distinct (cur_names za)"
    and "zip_add lib za (Some name) (Some source) = (r, za')" and "r \<noteq> -1"
  shows "r = za_nentry za \<and> za_entry za' = za_entry za @ [added_entry name source]
       \<and> locate za name = -1 \<and> locate za' name = r \<and> keys_distinct (cur_names za')
       \<and> (\<forall>n. n \<noteq> name \<longrightarrow> locate za' n = locate za n)"
  using zip_add_success [OF assms(1,3,4)] zip_add_table [OF assms] by simp

theorem zip_add_correct_witness:
  "locate (snd (zip_add sample_lib sample_zip (Some [0x63]) (Some sample_source))) [0x63] = 2"
proof -
  have new: "zip_entry_new sample_lib sample_zip
      = (True, sample_zip\<lparr>za_nentry_alloc := 18, za_entry := [fresh_entry, fresh_entry, fresh_entry]\<rparr>)"
    by (simp add: zip_entry_new_def sample_zip_def sample_lib_def)
  have l: "locate sample_zip [0x63] = -1" by (simp add: locate_first sample_zip_names)
  have a: "zip_add sample_lib sample_zip (Some [0x63]) (Some sample_source)
     = (2, snd (zip_add sample_lib sample_zip (Some [0x63]) (Some sample_source)))"
    using zip_add_eq [OF just_opened_ok [OF sample_zip_opened] new, of "[0x63]" sample_source] l
    by (simp add: sample_lib_def) (simp add: sample_zip_def)
  show ?thesis
    using zip_add_correct [OF just_opened_ok [OF sample_zip_opened] sample_zip_distinct a] by simp
qed

text \<open>C29: adding, adding a directory, renaming and deleting never create a duplicate
  name, whether they succeed or fail.\<close>

theorem names_stay_distinct:
  assumes "archive_ok za" and "keys_distinct (cur_names za)"
  shows "keys_distinct (cur_names (snd (zip_add lib za name source)))
       \<and> keys_distinct (cur_names (snd (zip_add_dir lib za name empty_source)))
       \<and> keys_distinct (cur_names (snd (zip_rename lib za idx newname)))
       \<and> keys_distinct (cur_names (snd (zip_delete za idx)))"
  using assms by (simp add: keys_distinct_add keys_distinct_add_dir keys_distinct_rename keys_distinct_delete)

theorem names_stay_distinct_witness:
  "keys_distinct (cur_names (snd (zip_rename sample_lib sample_zip 1 [0x61])))"
  using names_stay_distinct [OF just_opened_ok [OF sample_zip_opened] sample_zip_distinct,
      of sample_lib None None None 1 "[0x61]"] by simp

text \<open>Reverting a deleted entry is not checked against the current names. In an archive with the files \<open>a\<close> and
  \<open>b\<close>, deleting \<open>a\<close>, renaming \<open>b\<close> to \<open>a\<close> and reverting the first entry succeeds at every
  step and leaves two entries named \<open>a\<close>.\<close>

theorem zip_unchange_duplicates:
  "\<exists>za1 za2 za3. zip_delete sample_zip 0 = (0, za1) \<and> zip_rename sample_lib za1 1 [0x61] = (Inr 0, za2)
     \<and> zip_unchange za2 0 = (0, za3) \<and> cur_names za3 = [Some [0x61], Some [0x61]]"
proof -
  define za1 where "za1 = snd (zip_delete sample_zip 0)"
  define za2 where "za2 = snd (zip_rename sample_lib za1 1 [0x61])"
  define za3 where "za3 = snd (zip_unchange za2 0)"
  have l: "length (za_entry sample_zip) = 2" by (simp add: sample_zip_def)
  have 1: "zip_delete sample_zip 0 = (0, za1)" by (simp add: za1_def zip_delete_eq l)
  have n1: "cur_names za1 = [None, Some [0x62]]"
    by (simp add: za1_def cur_names_delete l sample_zip_names)
  have z1: "za_entry za1 = [fresh_entry\<lparr>ze_state := ZIP_ST_DELETED\<rparr>, fresh_entry]" "za_cdir za1 = Some two_files_cdir"
    by (simp_all add: za1_def zip_delete_eq l) (simp_all add: sample_zip_def upd_entry_def)
  have loc: "locate za1 [0x61] = -1" by (simp add: locate_first n1)
  have g: "zip_get_name za1 1 0 = (Some [0x62], za1)"
    by (simp add: zip_get_name_def zip_get_name_e_def z1 fresh_entry_def two_files_cdir_def named_dirent_def)
  have 2: "zip_rename sample_lib za1 1 [0x61] = (Inr 0, upd_entry za1 1 (\<lambda>ze.
             ze\<lparr>ze_state := (if ze_state ze = ZIP_ST_UNCHANGED then ZIP_ST_RENAMED else ze_state ze),
                ze_ch_filename := Some [0x61]\<rparr>))"
    by (simp add: zip_rename_def g z1 zip_set_name_def loc sample_lib_def)
  then have z2: "za_entry za2 = [fresh_entry\<lparr>ze_state := ZIP_ST_DELETED\<rparr>,
                    fresh_entry\<lparr>ze_state := ZIP_ST_RENAMED, ze_ch_filename := Some [0x61]\<rparr>]"
      "za_cdir za2 = Some two_files_cdir"
    by (simp_all add: za2_def z1) (simp add: upd_entry_def z1 fresh_entry_def)
  have 3: "zip_unchange za2 0 = (0, upd_entry za2 0 zip_entry_free)"
    by (simp add: zip_unchange_def zip_unchange_at_def z2 fresh_entry_def zip_entry_free_def [abs_def])
  have n2: "cur_names za2 = [None, Some [0x61]]"
    by (rule nth_equalityI)
       (auto simp: z2 cur_name_entry entry_name_def fresh_entry_def less_Suc_eq)
  have "cur_names za3 = [Some [0x61], Some [0x61]]"
    by (simp add: za3_def 3 cur_names_upd_entry z2 n2)
       (simp add: entry_name_def zip_entry_free_def zip_unchange_data_def two_files_cdir_def named_dirent_def fresh_entry_def)
  then show ?thesis using 1 2 3 by (auto simp: za2_def za3_def)
qed

text \<open>A rejected \<open>zip_add\<close> is not rolled back. Adding a name that is already present fails with
  \<open>ZIP_ER_EXISTS\<close> but leaves the new entry behind, as an unchanged entry without name, data or
  counterpart in the directory, so the archive counts one file more than before.\<close>

theorem zip_add_existing_leaves_entry:
  assumes "archive_ok za" and "locate za name \<noteq> -1" and "malloc_total lib"
  shows "\<exists>za'. zip_add lib za (Some name) (Some source) = (-1, za')
     \<and> zip_err (za_error za') = ZIP_ER_EXISTS
     \<and> za_entry za' = za_entry za @ [fresh_entry]
     \<and> zip_get_num_files (Some za') = zip_get_num_files (Some za) + 1
     \<and> cur_name za' (length (za_entry za)) = None"
proof -
  obtain za1 where n: "zip_entry_new lib za = (True, za1)"
    using assms(3) by (auto simp: zip_entry_new_def Let_def malloc_total_def)
  note new = zip_entry_new_True [OF n]
  from zip_add_eq [OF assms(1) n, of name source] assms(2)
  have "zip_add lib za (Some name) (Some source) = (-1, za_set_error za1 ZIP_ER_EXISTS 0)" by simp
  moreover have "cur_name (za_set_error za1 ZIP_ER_EXISTS 0) (length (za_entry za)) = None"
    using archive_ok_beyond [OF assms(1)] by (simp add: cur_name_entry new nth_append)
  ultimately show ?thesis
    by (simp add: new zip_get_num_files_def) (simp add: za_set_error_def zip_error_set_def)
qed

theorem zip_add_existing_leaves_entry_witness:
  "zip_get_num_files (Some (snd (zip_add sample_lib sample_zip (Some [0x61]) (Some sample_source)))) = 3"
proof -
  have "locate sample_zip [0x61] \<noteq> -1" by (simp add: locate_first sample_zip_names)
  from zip_add_existing_leaves_entry [OF just_opened_ok [OF sample_zip_opened] this malloc_total_sample, of sample_source]
  show ?thesis by (auto simp: zip_get_num_files_def sample_zip_def)
qed

end
