(* ===== verification/Zip_File.thy ===== *)
theory Zip_File
  imports Zip_Archive
begin

text \<open>
  Reading a member of an archive: \<open>struct zip_file\<close>, opening (\<open>zip_fopen_index.c\<close>), reading with inline
  decompression and checksumming (\<open>zip_fread.c\<close>), seeking (\<open>zip_fseek.c\<close>), closing, and the
  checksum of a file range. zlib is a parameter. The results are that a stored member is delivered
  exactly, in whatever pieces it is asked for; that the decompression loop returns for a well-behaved zlib and a
  truthful size, and hangs when the recorded size is too large; and what seeking gets wrong.
\<close>

section \<open>zlib\<close>

text \<open>
  \<open>z_inflate s input avail\<close> is one call of \<open>inflate\<close> on a stream in state \<open>s\<close> with \<open>input\<close> as
  \<open>next_in\<close> and \<open>avail\<close> bytes of room: the return code, the number of input bytes used, the
  bytes produced, the new state. \<open>z_deflate\<close> has in addition the flag \<open>Z_FINISH\<close>.
\<close>

record 's zlib =
  z_crc32 :: "u32 \<Rightarrow> byte list \<Rightarrow> u32"
  z_inflateInit2 :: "int \<times> 's"
  z_inflate :: "'s \<Rightarrow> byte list \<Rightarrow> nat \<Rightarrow> int \<times> nat \<times> byte list \<times> 's"
  z_deflateInit2 :: "int \<Rightarrow> 's"
  z_deflate :: "'s \<Rightarrow> byte list \<Rightarrow> nat \<Rightarrow> bool \<Rightarrow> int \<times> nat \<times> byte list \<times> 's"

abbreviation (input) Z_OK :: int where "Z_OK \<equiv> 0"
abbreviation (input) Z_STREAM_END :: int where "Z_STREAM_END \<equiv> 1"
abbreviation (input) Z_NEED_DICT :: int where "Z_NEED_DICT \<equiv> 2"
abbreviation (input) Z_STREAM_ERROR :: int where "Z_STREAM_ERROR \<equiv> -2"
abbreviation (input) Z_DATA_ERROR :: int where "Z_DATA_ERROR \<equiv> -3"
abbreviation (input) Z_MEM_ERROR :: int where "Z_MEM_ERROR \<equiv> -4"
abbreviation (input) Z_BUF_ERROR :: int where "Z_BUF_ERROR \<equiv> -5"

record 's z_stream =
  next_in :: "byte list"
  zs_state :: 's

section \<open>struct zip_file\<close>

abbreviation (input) ZIP_ZF_EOF :: u32 where "ZIP_ZF_EOF \<equiv> 1"
abbreviation (input) ZIP_ZF_DECOMP :: u32 where "ZIP_ZF_DECOMP \<equiv> 2"
abbreviation (input) ZIP_ZF_CRC :: u32 where "ZIP_ZF_CRC \<equiv> 4"

text \<open>\<open>zf_id\<close> is the identity of the object, by which \<open>za->file\<close> refers to it; \<open>unsigned long\<close> has 64
  bits.\<close>

record 's zip_file =
  zf_id :: nat
  zf_error :: zip_error
  zf_flags :: u32
  zf_method :: int
  zf_fpos :: nat
  zf_bytes_left :: u64
  zf_cbytes_left :: u64
  zf_crc :: u32
  zf_crc_orig :: u32
  zf_buffer :: bool
  zf_zstr :: "'s z_stream option"
  zf_file_index :: int
  zf_file_fpos :: int

definition zf_set_error :: "'s zip_file \<Rightarrow> int \<Rightarrow> int \<Rightarrow> 's zip_file" where
  "zf_set_error zf ze se = zf\<lparr>zf_error := zip_error_set (zf_error zf) ze se\<rparr>"

definition zip_file_error_clear :: "'s zip_file \<Rightarrow> 's zip_file" where
  "zip_file_error_clear zf = zf\<lparr>zf_error := zip_error_clear (zf_error zf)\<rparr>"

definition zip_file_error_get :: "'s zip_file \<Rightarrow> int \<times> int" where
  "zip_file_error_get zf = zip_error_get (zf_error zf)"

text \<open>\<open>_zip_file_new\<close>: the new object is registered with the archive.\<close>

definition zip_file_new :: "clib \<Rightarrow> 's zlib \<Rightarrow> 'u zip \<Rightarrow> 's zip_file option \<times> 'u zip" where
  "zip_file_new lib z za =
     (if \<not> malloc_ok lib ''zip_file'' 1 then (None, za_set_error za ZIP_ER_MEMORY 0)
      else
      let grow = (int (length (za_file za)) \<ge> za_nfile_alloc za - 1);
          n = za_nfile_alloc za + 10
      in if grow \<and> \<not> malloc_ok lib ''zip_file_ptr'' (nat n) then (None, za_set_error za ZIP_ER_MEMORY 0)
         else let za = (if grow then za\<lparr>za_nfile_alloc := n\<rparr> else za);
                  id = Suc (fold max (za_file za) 0)
              in (Some \<lparr>zf_id = id, zf_error = zip_error_init, zf_flags = 0, zf_method = -1, zf_fpos = 0,
                        zf_bytes_left = 0, zf_cbytes_left = 0, zf_crc = z_crc32 z 0 [], zf_crc_orig = 0,
                        zf_buffer = False, zf_zstr = None, zf_file_index = 0, zf_file_fpos = 0\<rparr>,
                  za\<lparr>za_file := za_file za @ [id]\<rparr>))"

text \<open>The loop of \<open>zip_fclose\<close>: the last handle takes the place of the closed one.\<close>

fun drop_handle :: "nat \<Rightarrow> nat list \<Rightarrow> nat list" where
  "drop_handle h [] = []"
| "drop_handle h (x # xs) =
     (if x = h then (if xs = [] then [] else last xs # butlast xs) else x # drop_handle h xs)"

text \<open>\<open>zip_fclose\<close>; the archive is NULL when it was closed before the file.\<close>

definition zip_fclose :: "'s zip_file \<Rightarrow> 'u zip option \<Rightarrow> int res \<times> 'u zip option" where
  "zip_fclose zf za =
     (case za of
        None \<Rightarrow> (Inl UB, None)
      | Some za \<Rightarrow>
          (Inr (if zip_err (zf_error zf) \<noteq> 0 then zip_err (zf_error zf)
                else if flag_set (zf_flags zf) ZIP_ZF_CRC \<and> flag_set (zf_flags zf) ZIP_ZF_EOF
                        \<and> zf_crc_orig zf \<noteq> zf_crc zf then ZIP_ER_CRC
                else 0),
           Some (za\<lparr>za_file := drop_handle (zf_id zf) (za_file za)\<rparr>)))"

definition close_handle :: "'s zip_file \<Rightarrow> 'u zip \<Rightarrow> 'u zip" where
  "close_handle zf za = the (snd (zip_fclose zf (Some za)))"

section \<open>Where the data of an entry starts\<close>

text \<open>\<open>_zip_file_get_offset\<close>: 0 stands for an error.\<close>

definition zip_file_get_offset :: "clib \<Rightarrow> 'u zip \<Rightarrow> int \<Rightarrow> u32 res \<times> 'u zip" where
  "zip_file_get_offset lib za idx =
     (case (za_cdir za, za_zp za) of
        (Some cd, Some fp) \<Rightarrow>
          if idx < 0 \<or> idx \<ge> int (length (cd_entry cd)) then (Inl UB, za)
          else
          let offset = zde_offset (cd_entry cd ! nat idx);
              (r, fp) = fseeko fp (int (unat offset)) SEEK_SET
          in if r \<noteq> 0 then (Inr 0, za_set_error (za\<lparr>za_zp := Some fp\<rparr>) ZIP_ER_SEEK (ferrno fp))
             else (case zip_dirent_read lib fp None None True of
                     (Inl UB, fp) \<Rightarrow> (Inl UB, za\<lparr>za_zp := Some fp\<rparr>)
                   | (Inl e, fp) \<Rightarrow> (Inr 0, za_fail (za\<lparr>za_zp := Some fp\<rparr>) e)
                   | (Inr (de, _), fp) \<Rightarrow>
                       (Inr (offset + 30 + ucast (zde_filename_len de) + ucast (zde_extrafield_len de)),
                        za\<lparr>za_zp := Some fp\<rparr>))
      | _ \<Rightarrow> (Inl UB, za))"

definition zip_file_get_offset_safe :: "clib \<Rightarrow> 'u zip \<Rightarrow> int \<Rightarrow> u32 res \<times> 'u zip" where
  "zip_file_get_offset_safe lib za idx =
     (case za_zp za of
        None \<Rightarrow> (Inl UB, za)
      | Some fp \<Rightarrow>
          let curoff = ftello fp;
              (r, za) = zip_file_get_offset lib za idx
          in (r, case za_zp za of
                   None \<Rightarrow> za
                 | Some fp \<Rightarrow> za\<lparr>za_zp := Some (snd (fseeko fp (int curoff) SEEK_SET))\<rparr>))"

section \<open>Reading\<close>

text \<open>\<open>_zip_file_fillbuf\<close>: the return value, the bytes stored in the buffer, the file and the stream. The
  branch for a negative result of \<open>fread\<close> cannot be reached, \<open>fread\<close> returns a \<open>size_t\<close>.\<close>

definition zip_file_fillbuf :: "nat \<Rightarrow> 's zip_file \<Rightarrow> cfile \<Rightarrow> int \<times> byte list \<times> 's zip_file \<times> cfile" where
  "zip_file_fillbuf buflen zf fp =
     (if zip_err (zf_error zf) \<noteq> ZIP_ER_OK then (-1, [], zf, fp)
      else if flag_set (zf_flags zf) ZIP_ZF_EOF \<or> zf_cbytes_left zf = 0 \<or> buflen = 0 then (0, [], zf, fp)
      else
      let (r, fp) = fseeko fp (int (zf_fpos zf)) SEEK_SET in
      if r < 0 then (-1, [], zf_set_error zf ZIP_ER_SEEK (ferrno fp), fp)
      else
      let i = (if buflen < unat (zf_cbytes_left zf) then buflen else unat (zf_cbytes_left zf));
          (bs, fp) = fread i fp
      in if bs = [] then (-1, [], zf_set_error zf ZIP_ER_EOF 0, fp)
         else (to_int (length bs), bs,
               zf\<lparr>zf_fpos := zf_fpos zf + length bs,
                  zf_cbytes_left := zf_cbytes_left zf - of_nat (length bs)\<rparr>, fp))"

text \<open>The loop of \<open>zip_fread\<close> around \<open>inflate\<close>; \<open>out\<close> is what this call has produced, \<open>avail\<close> the room
  left. A return code without a case of its own goes round the loop again.\<close>

definition inflate_error :: "int \<Rightarrow> bool" where
  "inflate_error ret \<longleftrightarrow> ret = Z_BUF_ERROR \<or> ret = Z_NEED_DICT \<or> ret = Z_DATA_ERROR
     \<or> ret = Z_STREAM_ERROR \<or> ret = Z_MEM_ERROR"

definition fread_deliver :: "'s zlib \<Rightarrow> byte list \<Rightarrow> 's zip_file \<Rightarrow> 's zip_file" where
  "fread_deliver z out zf =
     zf\<lparr>zf_crc := (if flag_set (zf_flags zf) ZIP_ZF_CRC then z_crc32 z (zf_crc zf) out else zf_crc zf),
        zf_bytes_left := zf_bytes_left zf - of_nat (length out),
        zf_file_fpos := zf_file_fpos zf + int (length out)\<rparr>"

partial_function (option) inflate_loop ::
  "'s zlib \<Rightarrow> nat \<Rightarrow> nat \<Rightarrow> byte list \<Rightarrow> 's z_stream \<Rightarrow> 's zip_file \<Rightarrow> cfile \<Rightarrow>
   (int \<times> byte list \<times> 's zip_file \<times> cfile) option" where
  "inflate_loop z toread avail out0 zs0 zf0 fp0 =
     (let (ret, used, produced, st) = z_inflate z (zs_state zs0) (next_in zs0) avail;
          zs = \<lparr>next_in = drop used (next_in zs0), zs_state = st\<rparr>;
          zf = zf0\<lparr>zf_zstr := Some zs\<rparr>;
          out = out0 @ produced
      in if ret = Z_STREAM_END \<and> out = []
         then Some (if zf_crc zf \<noteq> zf_crc_orig zf then (-1, out, zf_set_error zf ZIP_ER_CRC 0, fp0)
                    else (0, out, zf, fp0))
         else if ret = Z_STREAM_END \<or> ret = Z_OK
         then (if length out \<ge> unat (zf_bytes_left zf) \<or> length out \<ge> toread
               then Some (int (length out), out, fread_deliver z out zf, fp0)
               else inflate_loop z toread (avail - length produced) out zs zf fp0)
         else if ret = Z_BUF_ERROR \<and> next_in zs = []
         then (let (i, bs, zf, fp) = zip_file_fillbuf BUFSIZE zf fp0
               in if i = 0 then Some (-1, out, zf_set_error zf ZIP_ER_INCONS 0, fp)
                  else if i < 0 then Some (-1, out, zf, fp)
                  else inflate_loop z toread (avail - length produced) out
                         (zs\<lparr>next_in := bs\<rparr>) (zf\<lparr>zf_zstr := Some (zs\<lparr>next_in := bs\<rparr>)\<rparr>) fp)
         else if inflate_error ret then Some (-1, out, zf_set_error zf ZIP_ER_ZLIB ret, fp0)
         else inflate_loop z toread (avail - length produced) out zs zf fp0)"

declare inflate_loop.simps [code del]

text \<open>\<open>zip_fread\<close>: \<open>None\<close> when the call does not return. The result is the return value, the bytes
  stored at \<open>outbuf\<close>, the file and the archive's stream.\<close>

definition zip_fread ::
  "'s zlib \<Rightarrow> nat \<Rightarrow> 's zip_file \<Rightarrow> cfile \<Rightarrow> ((int \<times> byte list \<times> 's zip_file \<times> cfile) res) option" where
  "zip_fread z toread zf fp =
     (if zip_err (zf_error zf) \<noteq> 0 then Some (Inr (-1, [], zf, fp))
      else if flag_set (zf_flags zf) ZIP_ZF_EOF \<or> toread = 0 then Some (Inr (0, [], zf, fp))
      else if zf_bytes_left zf = 0
      then let zf = zf\<lparr>zf_flags := zf_flags zf OR ZIP_ZF_EOF\<rparr>
           in if flag_set (zf_flags zf) ZIP_ZF_CRC \<and> zf_crc zf \<noteq> zf_crc_orig zf
              then Some (Inr (-1, [], zf_set_error zf ZIP_ER_CRC 0, fp))
              else Some (Inr (0, [], zf, fp))
      else if \<not> flag_set (zf_flags zf) ZIP_ZF_DECOMP
      then let (ret, bs, zf, fp) = zip_file_fillbuf toread zf fp
           in Some (Inr (ret, bs, if ret > 0 then fread_deliver z bs zf else zf, fp))
      else case zf_zstr zf of
             None \<Rightarrow> Some (Inl UB)
           | Some zs \<Rightarrow> map_option Inr (inflate_loop z toread (unat (of_nat toread :: u32)) [] zs zf fp))"

text \<open>\<open>zip_ftell\<close> and the NULL checks of the entry points.\<close>

definition zip_ftell :: "'s zip_file option \<Rightarrow> int" where
  "zip_ftell zf = (case zf of None \<Rightarrow> -1 | Some zf \<Rightarrow> zf_file_fpos zf)"

section \<open>Opening\<close>

definition open_flags :: "u16 \<Rightarrow> u32 \<Rightarrow> u32 option" where
  "open_flags comp_method flags =
     (if comp_method = ZIP_CM_STORE then Some ZIP_ZF_CRC
      else if comp_method = ZIP_CM_DEFLATE
      then Some (if \<not> flag_set flags ZIP_FL_COMPRESSED then ZIP_ZF_CRC OR ZIP_ZF_DECOMP else 0)
      else if \<not> flag_set flags ZIP_FL_COMPRESSED then None else Some 0)"

text \<open>The part of \<open>zip_fopen_index\<close> that prepares decompression.\<close>

definition fopen_decomp ::
  "clib \<Rightarrow> 's zlib \<Rightarrow> 's zip_file \<Rightarrow> 'u zip \<Rightarrow> ('s zip_file option) res \<times> 'u zip" where
  "fopen_decomp lib z zf za =
     (if \<not> malloc_ok lib ''char'' BUFSIZE
      then (Inr None, close_handle zf (za_set_error za ZIP_ER_MEMORY 0))
      else
      let zf = zf\<lparr>zf_buffer := True\<rparr> in
      case za_zp za of
        None \<Rightarrow> (Inl UB, za)
      | Some fp \<Rightarrow>
          let (len, bs, zf, fp) = zip_file_fillbuf BUFSIZE zf fp;
              za = za\<lparr>za_zp := Some fp\<rparr>
          in if len \<le> 0
             then (Inr None, close_handle zf (za\<lparr>za_error := zip_error_copy (za_error za) (zf_error zf)\<rparr>))
             else if \<not> malloc_ok lib ''z_stream'' 1
             then (Inr None, close_handle zf (za_set_error za ZIP_ER_MEMORY 0))
             else let (ret, st) = z_inflateInit2 z
                  in if ret \<noteq> Z_OK then (Inr None, close_handle zf (za_set_error za ZIP_ER_ZLIB ret))
                     else (Inr (Some (zf\<lparr>zf_zstr := Some \<lparr>next_in = bs, zs_state = st\<rparr>\<rparr>)), za))"

definition zip_fopen_index ::
  "clib \<Rightarrow> 's zlib \<Rightarrow> 'u zip \<Rightarrow> int \<Rightarrow> u32 \<Rightarrow> ('s zip_file option) res \<times> 'u zip" where
  "zip_fopen_index lib z za fileno flags =
     (if fileno < 0 \<or> fileno \<ge> za_nentry za then (Inr None, za_set_error za ZIP_ER_INVAL 0)
      else if \<not> flag_set flags ZIP_FL_UNCHANGED \<and> entry_data_changed (za_entry za ! nat fileno)
      then (Inr None, za_set_error za ZIP_ER_CHANGED 0)
      else case za_cdir za of
        None \<Rightarrow> (Inl UB, za)
      | Some cd \<Rightarrow>
        if fileno \<ge> int (length (cd_entry cd)) then (Inr None, za_set_error za ZIP_ER_INVAL 0)
        else
        let de = cd_entry cd ! nat fileno in
        case open_flags (zde_comp_method de) flags of
          None \<Rightarrow> (Inr None, za_set_error za ZIP_ER_COMPNOTSUPP 0)
        | Some zfflags \<Rightarrow>
          (case zip_file_new lib z za of
             (None, za) \<Rightarrow> (Inr None, za_set_error za ZIP_ER_MEMORY 0)
           | (Some zf, za) \<Rightarrow>
             let zf = zf\<lparr>zf_flags := zfflags, zf_method := int (unat (zde_comp_method de)),
                         zf_bytes_left := ucast (zde_uncomp_size de), zf_cbytes_left := ucast (zde_comp_size de),
                         zf_crc_orig := zde_crc de\<rparr>
             in case zip_file_get_offset lib za fileno of
                  (Inl e, za) \<Rightarrow> (Inl e, za)
                | (Inr off, za) \<Rightarrow>
                  if off = 0 then (Inr None, close_handle zf za)
                  else
                  let zf = zf\<lparr>zf_fpos := unat off\<rparr> in
                  case (if \<not> flag_set zfflags ZIP_ZF_DECOMP
                        then (Inr (Some (zf\<lparr>zf_bytes_left := zf_cbytes_left zf\<rparr>)), za)
                        else fopen_decomp lib z zf za) of
                    (Inr (Some zf), za) \<Rightarrow>
                      (Inr (Some (zf\<lparr>zf_file_index := fileno, zf_file_fpos := 0\<rparr>)), za)
                  | r \<Rightarrow> r))"

definition zip_fopen ::
  "clib \<Rightarrow> 's zlib \<Rightarrow> 'u zip \<Rightarrow> byte list option \<Rightarrow> u32 \<Rightarrow> ('s zip_file option) res \<times> 'u zip" where
  "zip_fopen lib z za fname flags =
     (case zip_name_locate za fname flags of
        (Inl e, za) \<Rightarrow> (Inl e, za)
      | (Inr idx, za) \<Rightarrow> if idx < 0 then (Inr None, za) else zip_fopen_index lib z za idx flags)"

section \<open>Seeking\<close>

abbreviation (input) ZIP_SEEK_SET :: int where "ZIP_SEEK_SET \<equiv> 0"
abbreviation (input) ZIP_SEEK_CUR :: int where "ZIP_SEEK_CUR \<equiv> 1"
abbreviation (input) ZIP_SEEK_END :: int where "ZIP_SEEK_END \<equiv> 2"

definition zip_fseek_bytes :: "'s zip_file \<Rightarrow> int \<Rightarrow> int \<Rightarrow> int \<times> 's zip_file" where
  "zip_fseek_bytes zf abspos flen =
     (if abspos < 0 then (-1, zf_set_error zf ZIP_ER_INVAL 0)
      else let zf = (if abspos \<ge> flen
                     then zf\<lparr>zf_flags := zf_flags zf OR ZIP_ZF_EOF, zf_bytes_left := 0\<rparr>
                     else zf\<lparr>zf_flags := zf_flags zf AND NOT ZIP_ZF_EOF,
                             zf_bytes_left := of_int (flen - abspos)\<rparr>)
           in (0, zf\<lparr>zf_file_fpos := abspos\<rparr>))"

partial_function (option) zip_fseek_by_reading ::
  "'s zlib \<Rightarrow> u64 \<Rightarrow> 's zip_file \<Rightarrow> cfile \<Rightarrow> ((int \<times> 's zip_file \<times> cfile) res) option" where
  "zip_fseek_by_reading z toread zf fp =
     (if toread = 0 then Some (Inr (0, zf, fp))
      else case zip_fread z (if toread < 1024 then unat toread else 1024) zf fp of
             None \<Rightarrow> None
           | Some r \<Rightarrow>
             (case r of
                Inl e \<Rightarrow> Some (Inl e)
              | Inr (numRead, _, zf, fp) \<Rightarrow>
                  if numRead < 0 then Some (Inr (-1, zf, fp))
                  else if numRead = 0 then Some (Inr (-1, zf_set_error zf ZIP_ER_INCONS 0, fp))
                  else zip_fseek_by_reading z (toread - of_int numRead) zf fp))"

declare zip_fseek_by_reading.simps [code del]

text \<open>\<open>_zip_fseek_to_start\<close>: a negative length would make \<open>avail_in\<close> exceed the buffer, but then
  the error of the file is set and every later read returns at once.\<close>

definition zip_fseek_to_start ::
  "clib \<Rightarrow> 's zlib \<Rightarrow> 's zip_file \<Rightarrow> 'u zip \<Rightarrow> (int \<times> 's zip_file) res \<times> 'u zip" where
  "zip_fseek_to_start lib z zf za =
     (case za_cdir za of
        None \<Rightarrow> (Inl UB, za)
      | Some cd \<Rightarrow>
        if zf_file_index zf < 0 \<or> zf_file_index zf \<ge> int (length (cd_entry cd)) \<or> zf_zstr zf = None
        then (Inl UB, za)
        else
        let de = cd_entry cd ! nat (zf_file_index zf);
            zf = zf\<lparr>zf_flags := zf_flags zf AND NOT ZIP_ZF_EOF, zf_file_fpos := 0,
                    zf_bytes_left := ucast (zde_uncomp_size de), zf_cbytes_left := ucast (zde_comp_size de)\<rparr>
        in case zip_file_get_offset_safe lib za (zf_file_index zf) of
             (Inl e, za) \<Rightarrow> (Inl e, za)
           | (Inr off, za) \<Rightarrow>
             (case za_zp za of
                None \<Rightarrow> (Inl UB, za)
              | Some fp \<Rightarrow>
                let (len, bs, zf, fp) = zip_file_fillbuf BUFSIZE (zf\<lparr>zf_fpos := unat off\<rparr>) fp;
                    za = za\<lparr>za_zp := Some fp\<rparr>;
                    (ret, st) = z_inflateInit2 z;
                    zf = zf\<lparr>zf_zstr := Some \<lparr>next_in = bs, zs_state = st\<rparr>\<rparr>
                in if ret \<noteq> Z_OK then (Inr (-1, zf_set_error zf ZIP_ER_ZLIB ret), za)
                   else (Inr (0, zf), za)))"

definition seek_read ::
  "'s zlib \<Rightarrow> u64 \<Rightarrow> 's zip_file \<Rightarrow> 'u zip \<Rightarrow> ((int \<times> 's zip_file) res \<times> 'u zip) option" where
  "seek_read z toread zf za =
     (case za_zp za of
        None \<Rightarrow> if toread = 0 then Some (Inr (0, zf), za) else Some (Inl UB, za)
      | Some fp \<Rightarrow> map_option (\<lambda>r. case r of Inl e \<Rightarrow> (Inl e, za)
                                       | Inr (v, zf, fp) \<Rightarrow> (Inr (v, zf), za\<lparr>za_zp := Some fp\<rparr>))
                     (zip_fseek_by_reading z toread zf fp))"

definition zip_fseek_comp ::
  "clib \<Rightarrow> 's zlib \<Rightarrow> 's zip_file \<Rightarrow> 'u zip \<Rightarrow> int \<Rightarrow> int \<Rightarrow> ((int \<times> 's zip_file) res \<times> 'u zip) option" where
  "zip_fseek_comp lib z zf za abspos flen =
     (if abspos \<ge> flen
      then Some (Inr (0, zf\<lparr>zf_flags := zf_flags zf OR ZIP_ZF_EOF, zf_bytes_left := 0, zf_cbytes_left := 0,
                            zf_file_fpos := abspos\<rparr>), za)
      else if abspos > zf_file_fpos zf then seek_read z (of_int (abspos - zf_file_fpos zf)) zf za
      else if abspos < 0 then Some (Inr (-1, zf_set_error zf ZIP_ER_INVAL 0), za)
      else case zip_fseek_to_start lib z zf za of
             (Inl e, za) \<Rightarrow> Some (Inl e, za)
           | (Inr (r, zf), za) \<Rightarrow> if r < 0 then Some (Inr (-1, zf), za) else seek_read z (of_int abspos) zf za)"

text \<open>The position that \<open>zip_fseek\<close> computes.\<close>

definition seek_target :: "'s zip_file \<Rightarrow> int \<Rightarrow> int \<Rightarrow> int \<Rightarrow> int option" where
  "seek_target zf flen pos whence =
     (if whence = ZIP_SEEK_CUR then Some (zf_file_fpos zf + pos)
      else if whence = ZIP_SEEK_SET then Some pos
      else if whence = ZIP_SEEK_END then Some (flen + pos)
      else None)"

definition zip_fseek ::
  "clib \<Rightarrow> 's zlib \<Rightarrow> 's zip_file \<Rightarrow> 'u zip \<Rightarrow> int \<Rightarrow> int \<Rightarrow> ((int \<times> 's zip_file) res \<times> 'u zip) option" where
  "zip_fseek lib z zf za pos whence =
     (if zip_err (zf_error zf) \<noteq> 0 then Some (Inr (-1, zf), za)
      else if pos = 0 \<and> whence = ZIP_SEEK_CUR then Some (Inr (0, zf), za)
      else case za_cdir za of
        None \<Rightarrow> Some (Inl UB, za)
      | Some cd \<Rightarrow>
        if zf_file_index zf < 0 \<or> zf_file_index zf \<ge> int (length (cd_entry cd)) then Some (Inl UB, za)
        else
        let flen = int (unat (zde_uncomp_size (cd_entry cd ! nat (zf_file_index zf)))) in
        case seek_target zf flen pos whence of
          None \<Rightarrow> Some (Inr (-1, zf_set_error zf ZIP_ER_INVAL 0), za)
        | Some abspos \<Rightarrow>
            if abspos = zf_file_fpos zf then Some (Inr (0, zf), za)
            else if \<not> flag_set (zf_flags zf) ZIP_ZF_DECOMP
            then Some (Inr (zip_fseek_bytes zf abspos flen), za)
            else zip_fseek_comp lib z zf za abspos flen)"

section \<open>Checksum of a range of a file\<close>

function filerange_loop :: "'s zlib \<Rightarrow> nat \<Rightarrow> u32 \<Rightarrow> cfile \<Rightarrow> u32 res \<times> cfile" where
  "filerange_loop z len crc fp =
     (if len = 0 then (Inr crc, fp)
      else let n = (if len > BUFSIZE then BUFSIZE else len);
               (bs, fp) = fread n fp
           in if bs = [] then (Inl (ZE ZIP_ER_READ (ferrno fp)), fp)
              else filerange_loop z (len - length bs) (z_crc32 z crc bs) fp)"
  by auto
termination
  by (relation "measure (\<lambda>(z, len, crc, fp). len)") auto

declare filerange_loop.simps [simp del]

definition zip_filerange_crc :: "'s zlib \<Rightarrow> cfile \<Rightarrow> nat \<Rightarrow> nat \<Rightarrow> u32 res \<times> cfile" where
  "zip_filerange_crc z fp start len =
     (let (r, fp) = fseeko fp (int start) SEEK_SET
      in if r \<noteq> 0 then (Inl (ZE ZIP_ER_SEEK (ferrno fp)), fp)
         else filerange_loop z len (z_crc32 z 0 []) fp)"

section \<open>Reading a stored member\<close>

lemma unat_u64_small: "n < 2 ^ 32 \<Longrightarrow> unat (of_nat n :: u64) = n"
  by (simp add: unsigned_of_nat take_bit_nat_eq_self)

lemma of_nat_u64_eq_0: "n < 2 ^ 32 \<Longrightarrow> (of_nat n :: u64) = 0 \<longleftrightarrow> n = 0"
  using unat_u64_small [of n] by auto

lemma of_int_u64_pos: "0 < x \<Longrightarrow> x < 2 ^ 32 \<Longrightarrow> (of_int x :: u64) \<noteq> 0"
  using of_nat_u64_eq_0 [of "nat x"] by simp

text \<open>
  \<open>stored_at zf fp data\<close>: the file is open without decompression, and exactly \<open>data\<close> is still to be read
  from the archive's stream. \<open>crc_fits\<close>: the running checksum continued over \<open>data\<close> gives the
  recorded one.
\<close>

definition stored_at :: "'s zip_file \<Rightarrow> cfile \<Rightarrow> byte list \<Rightarrow> bool" where
  "stored_at zf fp data \<longleftrightarrow>
     zip_err (zf_error zf) = 0 \<and> \<not> flag_set (zf_flags zf) ZIP_ZF_DECOMP
     \<and> (flag_set (zf_flags zf) ZIP_ZF_EOF \<longrightarrow> data = [])
     \<and> zf_bytes_left zf = of_nat (length data) \<and> zf_cbytes_left zf = of_nat (length data)
     \<and> length data < 2 ^ 32 \<and> length (fdata fp) \<le> fgood fp
     \<and> take (length data) (drop (zf_fpos zf) (fdata fp)) = data"

definition crc_fits :: "'s zlib \<Rightarrow> 's zip_file \<Rightarrow> byte list \<Rightarrow> bool" where
  "crc_fits z zf data \<longleftrightarrow> (flag_set (zf_flags zf) ZIP_ZF_CRC \<longrightarrow> zf_crc_orig zf = z_crc32 z (zf_crc zf) data)"

text \<open>What zlib documents of \<open>crc32\<close>: it updates a running checksum.\<close>

definition crc_running :: "'s zlib \<Rightarrow> bool" where
  "crc_running z \<longleftrightarrow> (\<forall>c. z_crc32 z c [] = c) \<and> (\<forall>c a b. z_crc32 z c (a @ b) = z_crc32 z (z_crc32 z c a) b)"

lemma take_min_length: "take (min n (length d)) (take (length d) x) = take n (take (length d) x)"
  by (simp add: min.commute)

definition raw_at :: "'s zip_file \<Rightarrow> cfile \<Rightarrow> byte list \<Rightarrow> bool" where
  "raw_at zf fp data \<longleftrightarrow>
     zip_err (zf_error zf) = 0 \<and> \<not> flag_set (zf_flags zf) ZIP_ZF_EOF \<and> zf_cbytes_left zf = of_nat (length data)
     \<and> length data < 2 ^ 32 \<and> length (fdata fp) \<le> fgood fp
     \<and> take (length data) (drop (zf_fpos zf) (fdata fp)) = data"

lemma stored_at_raw: "stored_at zf fp data \<Longrightarrow> data \<noteq> [] \<Longrightarrow> raw_at zf fp data"
  by (auto simp: stored_at_def raw_at_def)

lemma stored_fillbuf:
  assumes "raw_at zf fp data" and "data \<noteq> []" and "0 < n" "n < 2 ^ 31"
  shows "\<exists>fp'. zip_file_fillbuf n zf fp = (int (min n (length data)), take n data,
            zf\<lparr>zf_fpos := zf_fpos zf + min n (length data),
               zf_cbytes_left := of_nat (length data - min n (length data))\<rparr>, fp')
          \<and> fdata fp' = fdata fp \<and> fgood fp' = fgood fp"
proof -
  let ?k = "min n (length data)"
  from assms have eof: "\<not> flag_set (zf_flags zf) ZIP_ZF_EOF" by (auto simp: raw_at_def)
  have d: "take (length data) (drop (zf_fpos zf) (fdata fp)) = data"
    and good: "length (fdata fp) \<le> fgood fp" and len: "length data < 2 ^ 32"
    and cl: "zf_cbytes_left zf = of_nat (length data)"
    using assms(1) by (auto simp: raw_at_def)
  have ne: "zf_cbytes_left zf \<noteq> 0" using assms(2) of_nat_u64_eq_0 [OF len] by (simp add: cl)
  have seek: "fseeko fp (int (zf_fpos zf)) SEEK_SET = (0, fp\<lparr>fpos := zf_fpos zf\<rparr>)" by (simp add: fseeko_def)
  have i: "(if n < unat (zf_cbytes_left zf) then n else unat (zf_cbytes_left zf)) = ?k"
    by (simp add: cl unat_u64_small [OF len])
  have tk: "take ?k (drop (zf_fpos zf) (fdata fp)) = take n data"
    using d by (metis min.commute take_take)
  define fp' where "fp' = snd (fread ?k (fp\<lparr>fpos := zf_fpos zf\<rparr>))"
  have fr: "fread ?k (fp\<lparr>fpos := zf_fpos zf\<rparr>) = (take n data, fp')"
    using good by (simp add: fp'_def fread_healthy tk)
  have len': "length (take n data) = ?k" by simp
  have ti: "to_int ?k = int ?k" using assms(4) by (intro to_int_small) simp
  have "zip_file_fillbuf n zf fp = (int ?k, take n data,
            zf\<lparr>zf_fpos := zf_fpos zf + ?k, zf_cbytes_left := of_nat (length data - ?k)\<rparr>, fp')"
    using assms(1-3) eof ne unfolding zip_file_fillbuf_def seek Let_def prod.case i fr len' ti
    by (simp add: raw_at_def del: length_take)
  moreover have "fdata fp' = fdata fp" "fgood fp' = fgood fp" by (simp_all add: fp'_def)
  ultimately show ?thesis by blast
qed

lemma stored_fread:
  assumes "stored_at zf fp data" and "crc_fits z zf data" and "crc_running z" and "0 < n" "n < 2 ^ 31"
  shows "\<exists>zf' fp'. zip_fread z n zf fp = Some (Inr (int (min n (length data)), take n data, zf', fp'))
     \<and> stored_at zf' fp' (drop n data) \<and> crc_fits z zf' (drop n data)
     \<and> zf_file_fpos zf' = zf_file_fpos zf + int (min n (length data))
     \<and> zf_crc_orig zf' = zf_crc_orig zf \<and> fdata fp' = fdata fp"
proof (cases "data = []")
  case True
  show ?thesis
  proof (cases "flag_set (zf_flags zf) ZIP_ZF_EOF")
    case eof: True
    then show ?thesis using True assms(1,2) by (simp add: zip_fread_def stored_at_def)
  next
    case False
    have f: "flag_set (x OR 1) 4 = flag_set x 4" "flag_set (x OR 1) 2 = flag_set x 2" for x :: u32
      by (simp_all add: flag_set_def bit.conj_disj_distrib2)
    show ?thesis using True False assms(1-3)
      by (auto simp: zip_fread_def stored_at_def crc_fits_def crc_running_def f)
  qed
next
  case False
  let ?k = "min n (length data)"
  from stored_fillbuf [OF stored_at_raw [OF assms(1) False] False assms(4,5)] obtain fp' where
    fb: "zip_file_fillbuf n zf fp = (int ?k, take n data,
            zf\<lparr>zf_fpos := zf_fpos zf + ?k, zf_cbytes_left := of_nat (length data - ?k)\<rparr>, fp')"
    and fp': "fdata fp' = fdata fp" "fgood fp' = fgood fp" by blast
  define zf1 where "zf1 = zf\<lparr>zf_fpos := zf_fpos zf + ?k, zf_cbytes_left := of_nat (length data - ?k)\<rparr>"
  define zf2 where "zf2 = fread_deliver z (take n data) zf1"
  have k: "0 < ?k" using False assms(4) by simp
  have len: "length data < 2 ^ 32" using assms(1) by (simp add: stored_at_def)
  have "zf_bytes_left zf \<noteq> 0" using assms(1) False of_nat_u64_eq_0 [OF len] by (simp add: stored_at_def)
  then have r: "zip_fread z n zf fp = Some (Inr (int ?k, take n data, zf2, fp'))"
    using fb k assms(1,4) False
    by (auto simp: zip_fread_def stored_at_def zf2_def zf1_def Let_def)
  have dd: "take (length data - n) (drop (zf_fpos zf + n) (fdata fp)) = drop n data"
    using assms(1) unfolding stored_at_def by (metis add.commute drop_drop drop_take)
  have lenk: "length (take n data) = ?k" "length data - ?k = length data - n" by simp_all
  have drp: "take (length data - n) (drop (zf_fpos zf + ?k) (fdata fp)) = drop n data"
    using dd by (cases "n \<le> length data") (simp_all add: min_def)
  have "zf_bytes_left zf2 = of_nat (length data - n)"
    using assms(1) by (simp add: zf2_def zf1_def fread_deliver_def stored_at_def lenk(1) del: length_take flip: lenk(2))
  then have "stored_at zf2 fp' (drop n data)"
    using assms(1) len fp' drp False less_imp_diff_less [OF len, of n]
    by (simp add: stored_at_def zf2_def zf1_def fread_deliver_def lenk del: length_take)
  moreover have "z_crc32 z (zf_crc zf) data = z_crc32 z (z_crc32 z (zf_crc zf) (take n data)) (drop n data)"
  proof -
    have "z_crc32 z (zf_crc zf) (take n data @ drop n data)
        = z_crc32 z (z_crc32 z (zf_crc zf) (take n data)) (drop n data)"
      using assms(3) unfolding crc_running_def by blast
    then show ?thesis by simp
  qed
  then have "crc_fits z zf2 (drop n data)"
    using assms(2) by (simp add: crc_fits_def zf2_def zf1_def fread_deliver_def)
  moreover have "zf_file_fpos zf2 = zf_file_fpos zf + int ?k" "zf_crc_orig zf2 = zf_crc_orig zf"
    by (simp_all add: zf2_def zf1_def fread_deliver_def min.commute)
  ultimately show ?thesis using r fp'(1) by blast
qed

text \<open>A sequence of reads with the given buffer sizes; \<open>None\<close> when one of them fails or does not return.\<close>

fun read_chunks ::
  "'s zlib \<Rightarrow> nat list \<Rightarrow> 's zip_file \<Rightarrow> cfile \<Rightarrow> (byte list \<times> 's zip_file \<times> cfile) option" where
  "read_chunks z [] zf fp = Some ([], zf, fp)"
| "read_chunks z (n # ns) zf fp =
     (case zip_fread z n zf fp of
        Some (Inr (r, bs, zf, fp)) \<Rightarrow>
          if r < 0 then None
          else map_option (\<lambda>(rest, zf, fp). (bs @ rest, zf, fp)) (read_chunks z ns zf fp)
      | _ \<Rightarrow> None)"

lemma read_chunks_stored:
  assumes "stored_at zf fp data" and "crc_fits z zf data" and "crc_running z" and "\<forall>n \<in> set ns. 0 < n \<and> n < 2 ^ 31"
  shows "\<exists>zf' fp'. read_chunks z ns zf fp = Some (take (sum_list ns) data, zf', fp')
     \<and> stored_at zf' fp' (drop (sum_list ns) data)
     \<and> zf_file_fpos zf' = zf_file_fpos zf + int (min (sum_list ns) (length data))"
  using assms
proof (induction ns arbitrary: zf fp data)
  case (Cons n ns)
  from Cons.prems(4) have n: "0 < n" "n < 2 ^ 31" and ns: "\<forall>n \<in> set ns. 0 < n \<and> n < 2 ^ 31" by simp_all
  obtain zf1 fp1 where 1: "zip_fread z n zf fp = Some (Inr (int (min n (length data)), take n data, zf1, fp1))"
      "stored_at zf1 fp1 (drop n data)" "crc_fits z zf1 (drop n data)"
      "zf_file_fpos zf1 = zf_file_fpos zf + int (min n (length data))"
    using stored_fread [OF Cons.prems(1-3) n] by blast
  from Cons.IH [OF 1(2,3) Cons.prems(3) ns] obtain zf' fp' where
    2: "read_chunks z ns zf1 fp1 = Some (take (sum_list ns) (drop n data), zf', fp')"
      "stored_at zf' fp' (drop (sum_list ns) (drop n data))"
      "zf_file_fpos zf' = zf_file_fpos zf1 + int (min (sum_list ns) (length (drop n data)))" by blast
  have "min n (length data) + min (sum_list ns) (length data - n) = min (n + sum_list ns) (length data)" by simp
  then have "zf_file_fpos zf' = zf_file_fpos zf + int (min (sum_list (n # ns)) (length data))"
    using 1(4) 2(3) by simp
  with 1(1) 2(1,2) show ?case by (simp add: take_add add.commute)
qed simp

section \<open>Opening a stored member\<close>

text \<open>
  \<open>member_at lib fp off lde data\<close>: the archive's stream holds, at offset \<open>off\<close>, the local header \<open>lde\<close>
  followed by \<open>data\<close>, and the end of the data has a 32-bit offset.
\<close>

definition member_at :: "clib \<Rightarrow> cfile \<Rightarrow> nat \<Rightarrow> zip_dirent \<Rightarrow> byte list \<Rightarrow> bool" where
  "member_at lib fp off lde data \<longleftrightarrow>
     length (fdata fp) \<le> fgood fp \<and> dirent_wf lib lde
     \<and> (\<exists>rest. drop off (fdata fp) = dirent_bytes lib lde True @ data @ rest)
     \<and> off + length (dirent_bytes lib lde True) + length data < 2 ^ 32"

lemma length_local_header:
  "dirent_wf lib lde \<Longrightarrow> length (dirent_bytes lib lde True) = 30 + unat (zde_filename_len lde) + unat (zde_extrafield_len lde)"
  by (simp add: length_dirent_bytes dirent_size_def dirent_view_def)

lemma unat_data_offset:
  "unat (a :: u32) + 30 + unat (b :: u16) + unat (c :: u16) < 2 ^ 32 \<Longrightarrow>
     unat (a + 30 + ucast b + ucast c :: u32) = unat a + 30 + unat b + unat c"
  by (simp add: unat_word_ariths unsigned_ucast_eq take_bit_nat_eq_self unat16_bound)

lemma zip_file_get_offset_member:
  assumes "za_cdir za = Some cd" and "i < length (cd_entry cd)" and "za_zp za = Some fp" and "malloc_total lib"
    and m: "member_at lib fp (unat (zde_offset (cd_entry cd ! i))) lde data"
  shows "\<exists>off fp'. zip_file_get_offset lib za (int i) = (Inr off, za\<lparr>za_zp := Some fp'\<rparr>)
     \<and> unat off = unat (zde_offset (cd_entry cd ! i)) + length (dirent_bytes lib lde True) \<and> off \<noteq> 0
     \<and> fdata fp' = fdata fp \<and> fgood fp' = fgood fp"
proof -
  let ?o = "zde_offset (cd_entry cd ! i)"
  define fp1 where "fp1 = fp\<lparr>fpos := unat ?o\<rparr>"
  define off where "off = ?o + 30 + ucast (zde_filename_len lde) + ucast (zde_extrafield_len lde)"
  have wf: "dirent_wf lib lde" using m by (simp add: member_at_def)
  note len = length_local_header [OF wf]
  have seek: "fseeko fp (uint ?o) SEEK_SET = (0, fp1)" by (simp add: fseeko_def fp1_def)
  have "stream_holds fp1 (dirent_bytes lib lde True @ data)"
    using m by (auto simp: member_at_def stream_holds_def fp1_def)
  then have rd: "zip_dirent_read lib fp1 None None True
      = (Inr (dirent_view True lde, None, None), advance (dirent_size True (dirent_view True lde)) fp1)"
    using zip_dirent_read_file [OF wf assms(4), of fp1 True data None] by (simp add: left_short_def)
  have v: "zde_filename_len (dirent_view True lde) = zde_filename_len lde"
    "zde_extrafield_len (dirent_view True lde) = zde_extrafield_len lde" by (simp_all add: dirent_view_def)
  have u: "unat off = unat ?o + length (dirent_bytes lib lde True)"
    unfolding off_def using m len by (subst unat_data_offset) (simp_all add: member_at_def)
  have "zip_file_get_offset lib za (int i)
      = (Inr off, za\<lparr>za_zp := Some (advance (dirent_size True (dirent_view True lde)) fp1)\<rparr>)"
    using assms(1-3) by (simp add: zip_file_get_offset_def seek rd v off_def Let_def)
  moreover have "off \<noteq> 0"
  proof
    assume "off = 0"
    then have "unat off = 0" by simp
    then show False using u len by linarith
  qed
  ultimately show ?thesis using u by (auto simp: advance_def fp1_def)
qed

lemma zip_file_new_total:
  assumes "malloc_total lib"
  shows "\<exists>zf za'. zip_file_new lib z za = (Some zf, za') \<and> zf_error zf = zip_error_init \<and> zf_crc zf = z_crc32 z 0 []
     \<and> za_cdir za' = za_cdir za \<and> za_zp za' = za_zp za \<and> za_entry za' = za_entry za"
  using assms by (auto simp: zip_file_new_def Let_def malloc_total_def)

lemma zip_fopen_index_stored:
  assumes "za_cdir za = Some cd" and "i < length (cd_entry cd)" and "za_zp za = Some fp" and "malloc_total lib"
    and "i < length (za_entry za)" and "\<not> entry_data_changed (za_entry za ! i)"
    and m: "member_at lib fp (unat (zde_offset (cd_entry cd ! i))) lde data"
    and "zde_comp_method (cd_entry cd ! i) = ZIP_CM_STORE"
    and cs: "unat (zde_comp_size (cd_entry cd ! i)) = length data"
  shows "\<exists>zf za' fp'. zip_fopen_index lib z za (int i) flags = (Inr (Some zf), za') \<and> za_zp za' = Some fp'
     \<and> stored_at zf fp' data \<and> zf_crc zf = z_crc32 z 0 [] \<and> zf_crc_orig zf = zde_crc (cd_entry cd ! i)
     \<and> zf_file_fpos zf = 0 \<and> fdata fp' = fdata fp"
proof -
  let ?de = "cd_entry cd ! i"
  obtain zf0 za1 where new: "zip_file_new lib z za = (Some zf0, za1)" "zf_error zf0 = zip_error_init"
      "zf_crc zf0 = z_crc32 z 0 []" "za_cdir za1 = Some cd" "za_zp za1 = Some fp"
    using zip_file_new_total [OF assms(4), of z za] assms(1,3) by auto
  obtain off fp' where o: "zip_file_get_offset lib za1 (int i) = (Inr off, za1\<lparr>za_zp := Some fp'\<rparr>)"
      "unat off = unat (zde_offset ?de) + length (dirent_bytes lib lde True)" "off \<noteq> 0"
      "fdata fp' = fdata fp" "fgood fp' = fgood fp"
    using zip_file_get_offset_member [OF new(4) assms(2) new(5) assms(4) m] by blast
  have uc: "(ucast (zde_comp_size ?de) :: u64) = of_nat (length data)" by (simp flip: cs)
  have len: "length data < 2 ^ 32" using cs unat32_bound [of "zde_comp_size ?de"] by simp
  obtain rest where d: "drop (unat (zde_offset ?de)) (fdata fp) = dirent_bytes lib lde True @ data @ rest"
    using m by (auto simp: member_at_def)
  have "drop (unat off) (fdata fp) = drop (length (dirent_bytes lib lde True)) (drop (unat (zde_offset ?de)) (fdata fp))"
    by (simp add: o(2) add.commute)
  then have dd: "take (length data) (drop (unat off) (fdata fp)) = data" by (simp add: d)
  define zf where "zf = zf0\<lparr>zf_flags := ZIP_ZF_CRC, zf_method := int (unat (zde_comp_method ?de)),
      zf_cbytes_left := ucast (zde_comp_size ?de), zf_crc_orig := zde_crc ?de, zf_fpos := unat off,
      zf_bytes_left := ucast (zde_comp_size ?de), zf_file_index := int i, zf_file_fpos := 0\<rparr>"
  have "zip_fopen_index lib z za (int i) flags = (Inr (Some zf), za1\<lparr>za_zp := Some fp'\<rparr>)"
    using assms(1,2,5,6,8) new(1) o(1,3)
    by (simp add: zip_fopen_index_def open_flags_def zf_def flag_set_def Let_def)
  moreover have "stored_at zf fp' data"
    using new(2) m o(4,5) len dd
    by (simp add: stored_at_def zf_def uc zip_error_init_def flag_set_def member_at_def)
  ultimately show ?thesis using new(3) o(4) by (auto simp: zf_def)
qed

section \<open>The decompression loop\<close>

text \<open>
  What zlib documents of \<open>inflate\<close>: it stays within its input and output, \<open>Z_OK\<close> means progress, only
  the documented codes are returned.  What a stream decompresses to is decided by its bytes and not by how they are cut into
  calls: \<open>rest s inp\<close> is the number of bytes that a stream in state \<open>s\<close> still delivers when \<open>inp\<close> is all the
  compressed data to come; a call that reports no error takes what it used from the input and
  what it produced from the output to come, whatever data follow its input; \<open>Z_STREAM_END\<close> says that everything has been
  delivered.
\<close>

definition zlib_ok :: "'s zlib \<Rightarrow> ('s \<Rightarrow> byte list \<Rightarrow> nat) \<Rightarrow> bool" where
  "zlib_ok z rest \<longleftrightarrow>
     (\<forall>s inp avail ret used prod s'. z_inflate z s inp avail = (ret, used, prod, s') \<longrightarrow>
        used \<le> length inp \<and> length prod \<le> avail
        \<and> (ret \<in> {Z_OK, Z_STREAM_END, Z_BUF_ERROR} \<longrightarrow>
             (\<forall>more. rest s (inp @ more) = length prod + rest s' (drop used inp @ more)))
        \<and> (ret = Z_OK \<longrightarrow> 0 < used \<or> prod \<noteq> [])
        \<and> (ret = Z_STREAM_END \<longrightarrow> (\<forall>more. rest s' more = 0))
        \<and> (ret = Z_OK \<or> ret = Z_STREAM_END \<or> inflate_error ret))"

text \<open>The compressed data of a member that the stream has not seen yet: what is left in the buffer, and what is left in the file.\<close>

definition unread :: "'s zip_file \<Rightarrow> cfile \<Rightarrow> byte list" where
  "unread zf fp = take (unat (zf_cbytes_left zf)) (drop (zf_fpos zf) (fdata fp))"

lemma fillbuf_shrinks:
  assumes "zip_file_fillbuf n zf fp = (i, bs, zf', fp')" and "0 < i"
  shows "bs \<noteq> []" and "zf_bytes_left zf' = zf_bytes_left zf"
    and "unat (zf_cbytes_left zf') + length bs = unat (zf_cbytes_left zf)" and "unread zf fp = bs @ unread zf' fp'"
proof -
  define i' where "i' = (if n < unat (zf_cbytes_left zf) then n else unat (zf_cbytes_left zf))"
  have i': "i' \<le> unat (zf_cbytes_left zf)" by (simp add: i'_def)
  have bs: "bs = fst (fread i' (fp\<lparr>fpos := zf_fpos zf\<rparr>))" and "bs \<noteq> []"
      and zf': "zf_bytes_left zf' = zf_bytes_left zf" "zf_cbytes_left zf' = zf_cbytes_left zf - of_nat (length bs)"
        "zf_fpos zf' = zf_fpos zf + length bs" "fp' = snd (fread i' (fp\<lparr>fpos := zf_fpos zf\<rparr>))"
    using assms unfolding zip_file_fillbuf_def Let_def i'_def [symmetric]
    by (auto simp: fseeko_def case_prod_beta split: if_splits)
  have fp': "fdata fp' = fdata fp" unfolding zf'(4) by (simp add: fread_def Let_def)
  have lb: "length bs \<le> unat (zf_cbytes_left zf)" using fread_length [of i'] i' unfolding bs by (meson le_trans)
  then have c: "unat (zf_cbytes_left zf - of_nat (length bs)) + length bs = unat (zf_cbytes_left zf)"
    by (simp add: unat_minus_of_nat)
  have "bs = take (length bs) (drop (zf_fpos zf) (fdata fp))" unfolding bs by (simp add: fread_def Let_def)
  then have "take (length bs + k) (drop (zf_fpos zf) (fdata fp)) = bs @ take k (drop (zf_fpos zf + length bs) (fdata fp))" for k
    by (subst take_add) (simp add: add.commute)
  from this [of "unat (zf_cbytes_left zf')"] show "unread zf fp = bs @ unread zf' fp'"
    using c zf'(1-3) fp' by (simp add: unread_def add.commute)
  from c show "bs \<noteq> []" "zf_bytes_left zf' = zf_bytes_left zf"
    "unat (zf_cbytes_left zf') + length bs = unat (zf_cbytes_left zf)"
    using \<open>bs \<noteq> []\<close> zf' by simp_all
qed

lemma inflate_loop_returns:
  assumes "zlib_ok z rest" and "unat (zf_bytes_left zf) \<le> rest (zs_state zs) (next_in zs @ unread zf fp) + length out"
  shows "\<exists>r. inflate_loop z toread avail out zs zf fp = Some r"
  using assms(2)
proof (induction "2 * unat (zf_cbytes_left zf) + length (next_in zs) + avail"
    arbitrary: avail out zs zf fp rule: less_induct)
  case less
  obtain ret used prod st where inf: "z_inflate z (zs_state zs) (next_in zs) avail = (ret, used, prod, st)"
    by (metis prod_cases4)
  let ?zs = "\<lparr>next_in = drop used (next_in zs), zs_state = st\<rparr>"
  let ?zf = "zf\<lparr>zf_zstr := Some ?zs\<rparr>" and ?out = "out @ prod" and ?avail = "avail - length prod"
  have ok: "used \<le> length (next_in zs)" "length prod \<le> avail"
      "ret \<in> {Z_OK, Z_STREAM_END, Z_BUF_ERROR} \<Longrightarrow>
         rest (zs_state zs) (next_in zs @ more) = length prod + rest st (drop used (next_in zs) @ more)"
      "ret = Z_OK \<Longrightarrow> 0 < used \<or> prod \<noteq> []" "ret = Z_STREAM_END \<Longrightarrow> rest st more = 0"
      "ret = Z_OK \<or> ret = Z_STREAM_END \<or> inflate_error ret" for more
    using assms(1) inf unfolding zlib_ok_def by blast+
  have left: "unat (zf_bytes_left zf) \<le> rest st (drop used (next_in zs) @ unread zf fp) + length ?out"
    if "ret \<in> {Z_OK, Z_STREAM_END, Z_BUF_ERROR}"
    using less.prems ok(3) [OF that] by simp
  have un: "unread ?zf fp = unread zf fp" by (simp add: unread_def)
  consider (finish) "ret = Z_STREAM_END" | (go) "ret = Z_OK"
    | (refill) "ret = Z_BUF_ERROR" "drop used (next_in zs) = []"
    | (error) "inflate_error ret" "\<not> (ret = Z_BUF_ERROR \<and> drop used (next_in zs) = [])" using ok(6) by blast
  then show ?case
  proof cases
    case finish
    then have "unat (zf_bytes_left zf) \<le> length ?out" using left ok(5) by simp
    then show ?thesis using finish by (subst inflate_loop.simps) (simp add: inf Let_def)
  next
    case go
    have "\<exists>r. inflate_loop z toread ?avail ?out ?zs ?zf fp = Some r"
    proof (rule less.hyps)
      have "length (drop used (next_in zs)) + ?avail < length (next_in zs) + avail"
        using ok(1,2) ok(4) [OF go] by (cases prod) auto
      then show "2 * unat (zf_cbytes_left ?zf) + length (next_in ?zs) + ?avail
          < 2 * unat (zf_cbytes_left zf) + length (next_in zs) + avail" by simp
    qed (use left go un in simp)
    then show ?thesis by (subst inflate_loop.simps) (simp add: inf go Let_def)
  next
    case refill
    obtain i bs zf' fp' where f: "zip_file_fillbuf BUFSIZE ?zf fp = (i, bs, zf', fp')" by (metis prod_cases4)
    have "\<exists>r. inflate_loop z toread ?avail ?out (?zs\<lparr>next_in := bs\<rparr>)
            (zf'\<lparr>zf_zstr := Some (?zs\<lparr>next_in := bs\<rparr>)\<rparr>) fp' = Some r" if "0 < i"
    proof (rule less.hyps)
      note sh = fillbuf_shrinks [OF f that]
      then have pos: "0 < length bs" by simp
      have "2 * unat (zf_cbytes_left zf') + length bs + ?avail < 2 * unat (zf_cbytes_left zf) + length (next_in zs) + avail"
        using sh(3) pos by (simp del: length_greater_0_conv)
      then show "2 * unat (zf_cbytes_left (zf'\<lparr>zf_zstr := Some (?zs\<lparr>next_in := bs\<rparr>)\<rparr>))
            + length (next_in (?zs\<lparr>next_in := bs\<rparr>)) + ?avail
          < 2 * unat (zf_cbytes_left zf) + length (next_in zs) + avail" by simp
    qed (use left refill un fillbuf_shrinks(2,4) [OF f that] in \<open>simp add: unread_def\<close>)
    then show ?thesis using refill f by (subst inflate_loop.simps) (auto simp: inf Let_def inflate_error_def)
  next
    case error
    then show ?thesis by (subst inflate_loop.simps) (auto simp: inf Let_def inflate_error_def)
  qed
qed

text \<open>A finished stream keeps reporting its end, which the loop does not notice.\<close>

definition ended :: "'s zlib \<Rightarrow> 's \<Rightarrow> bool" where
  "ended z s \<longleftrightarrow> (\<forall>inp avail. z_inflate z s inp avail = (Z_STREAM_END, 0, [], s))"

lemma inflate_loop_hangs:
  assumes "ended z (zs_state zs)" and "out \<noteq> []" and "length out < unat (zf_bytes_left zf)" and "length out < toread"
  shows "inflate_loop z toread avail out zs zf fp = None"
proof (rule ccontr)
  assume "inflate_loop z toread avail out zs zf fp \<noteq> None"
  then obtain y where "inflate_loop z toread avail out zs zf fp = Some y" by blast
  then have "\<not> (ended z (zs_state zs) \<and> out \<noteq> [] \<and> length out < unat (zf_bytes_left zf) \<and> length out < toread)"
  proof (rule inflate_loop.raw_induct [where P = "\<lambda>z toread avail out zs zf fp r.
      \<not> (ended z (zs_state zs) \<and> out \<noteq> [] \<and> length out < unat (zf_bytes_left zf) \<and> length out < toread)", rotated])
    fix loop z toread avail out zs zf fp r
    assume IH: "\<And>z toread avail out zs zf fp r. loop z toread avail out zs zf fp = Some r \<Longrightarrow>
        \<not> (ended z (zs_state zs) \<and> out \<noteq> [] \<and> length out < unat (zf_bytes_left zf) \<and> length out < toread)"
      and body: "(let (ret, used, produced, st) = z_inflate z (zs_state zs) (next_in zs) avail;
             zs = \<lparr>next_in = drop used (next_in zs), zs_state = st\<rparr>; zf = zf\<lparr>zf_zstr := Some zs\<rparr>; out = out @ produced
         in if ret = Z_STREAM_END \<and> out = []
         then Some (if zf_crc zf \<noteq> zf_crc_orig zf then (-1, out, zf_set_error zf ZIP_ER_CRC 0, fp)
                    else (0, out, zf, fp))
         else if ret = Z_STREAM_END \<or> ret = Z_OK
         then (if length out \<ge> unat (zf_bytes_left zf) \<or> length out \<ge> toread
               then Some (int (length out), out, fread_deliver z out zf, fp)
               else loop z toread (avail - length produced) out zs zf fp)
         else if ret = Z_BUF_ERROR \<and> next_in zs = []
         then (let (i, bs, zf, fp) = zip_file_fillbuf BUFSIZE zf fp
               in if i = 0 then Some (-1, out, zf_set_error zf ZIP_ER_INCONS 0, fp)
                  else if i < 0 then Some (-1, out, zf, fp)
                  else loop z toread (avail - length produced) out
                         (zs\<lparr>next_in := bs\<rparr>) (zf\<lparr>zf_zstr := Some (zs\<lparr>next_in := bs\<rparr>)\<rparr>) fp)
         else if inflate_error ret then Some (-1, out, zf_set_error zf ZIP_ER_ZLIB ret, fp)
         else loop z toread (avail - length produced) out zs zf fp) = Some r"
    show "\<not> (ended z (zs_state zs) \<and> out \<noteq> [] \<and> length out < unat (zf_bytes_left zf) \<and> length out < toread)"
    proof
      assume h: "ended z (zs_state zs) \<and> out \<noteq> [] \<and> length out < unat (zf_bytes_left zf) \<and> length out < toread"
      then have e: "z_inflate z (zs_state zs) (next_in zs) avail = (Z_STREAM_END, 0, [], zs_state zs)"
        by (simp add: ended_def)
      from body h have "loop z toread avail out \<lparr>next_in = next_in zs, zs_state = zs_state zs\<rparr>
          (zf\<lparr>zf_zstr := Some \<lparr>next_in = next_in zs, zs_state = zs_state zs\<rparr>\<rparr>) fp = Some r"
        by (simp add: e Let_def split: if_splits)
      from IH [OF this] h show False by simp
    qed
  qed
  with assms show False by blast
qed

section \<open>A zlib instance\<close>

text \<open>A trivial codec whose compressed form is the data itself: the state counts the bytes to come. It satisfies
  what zlib documents and serves to exercise the theorems.\<close>

definition raw_inflate :: "nat \<Rightarrow> byte list \<Rightarrow> nat \<Rightarrow> int \<times> nat \<times> byte list \<times> nat" where
  "raw_inflate s inp avail =
     (let k = min s (min (length inp) avail)
      in if s = 0 then (Z_STREAM_END, 0, [], 0)
         else if k = 0 then (Z_BUF_ERROR, 0, [], s)
         else (if k = s then Z_STREAM_END else Z_OK, k, take k inp, s - k))"

definition raw_deflate :: "nat \<Rightarrow> byte list \<Rightarrow> nat \<Rightarrow> bool \<Rightarrow> int \<times> nat \<times> byte list \<times> nat" where
  "raw_deflate s inp avail finish =
     (let k = min (length inp) avail
      in (if finish \<and> k = length inp then Z_STREAM_END else Z_OK, k, take k inp, s + k))"

definition raw_zlib :: "nat \<Rightarrow> nat zlib" where
  "raw_zlib n = \<lparr>z_crc32 = foldl (\<lambda>c b. c + ucast b), z_inflateInit2 = (Z_OK, n), z_inflate = raw_inflate,
                 z_deflateInit2 = (\<lambda>_. 0), z_deflate = raw_deflate\<rparr>"

lemma crc_running_raw: "crc_running (raw_zlib n)"
  by (simp add: crc_running_def raw_zlib_def)

lemma zlib_ok_raw: "zlib_ok (raw_zlib n) (\<lambda>s inp. min s (length inp))"
  by (auto simp: zlib_ok_def raw_zlib_def raw_inflate_def inflate_error_def Let_def min_def split: if_splits)

lemma ended_raw: "ended (raw_zlib n) 0"
  by (simp add: ended_def raw_zlib_def raw_inflate_def)

text \<open>An archive with one stored member of three bytes, and the state of the member after opening it.\<close>

definition stored_dirent :: zip_dirent where
  "stored_dirent = sample_dirent\<lparr>zde_offset := 0, zde_comp_method := ZIP_CM_STORE, zde_comp_size := 3,
                                 zde_uncomp_size := 3, zde_crc := 24\<rparr>"

definition stored_file :: cfile where
  "stored_file = \<lparr>fdata = dirent_bytes sample_lib stored_dirent True @ [7, 8, 9], fpos = 0, ferr = False,
                  fgood = 1000, fcap = 1000, ferrno = 0\<rparr>"

definition stored_zip :: "unit zip" where
  "stored_zip = sample_zip\<lparr>za_zp := Some stored_file,
     za_cdir := Some \<lparr>cd_entry = [stored_dirent], cd_size = 0, cd_offset = 35, cd_comment = None, cd_comment_len = 0\<rparr>,
     za_entry := [fresh_entry]\<rparr>"

lemma stored_dirent_wf: "dirent_wf sample_lib stored_dirent"
  using sample_dirent_wf by (simp add: dirent_wf_def stored_dirent_def)

lemma length_stored_header: "length (dirent_bytes sample_lib stored_dirent True) = 32"
  by (subst length_local_header [OF stored_dirent_wf])
    (simp add: stored_dirent_def sample_dirent_def zip_dirent_init_def)

lemma stored_member: "member_at sample_lib stored_file 0 stored_dirent [7, 8, 9]"
  by (simp add: member_at_def stored_file_def stored_dirent_wf length_stored_header)

definition open_stored :: "nat zip_file" where
  "open_stored = \<lparr>zf_id = 1, zf_error = zip_error_init, zf_flags = ZIP_ZF_CRC, zf_method = 0, zf_fpos = 32,
     zf_bytes_left = 3, zf_cbytes_left = 3, zf_crc = 0, zf_crc_orig = 24, zf_buffer = False, zf_zstr = None,
     zf_file_index = 0, zf_file_fpos = 0\<rparr>"

lemma open_stored_at: "stored_at open_stored stored_file [7, 8, 9]"
  by (simp add: stored_at_def open_stored_def stored_file_def zip_error_init_def flag_set_def length_stored_header)

text \<open>A compressed member at its start: five bytes of input, of which the size field claims \<open>n\<close>.\<close>

definition open_deflated :: "u64 \<Rightarrow> nat zip_file" where
  "open_deflated n = \<lparr>zf_id = 1, zf_error = zip_error_init, zf_flags = ZIP_ZF_CRC OR ZIP_ZF_DECOMP, zf_method = 8,
     zf_fpos = 37, zf_bytes_left = n, zf_cbytes_left = 0, zf_crc = 0, zf_crc_orig = 0, zf_buffer = True,
     zf_zstr = Some \<lparr>next_in = [1, 2, 3, 4, 5], zs_state = 5\<rparr>, zf_file_index = 0, zf_file_fpos = 0\<rparr>"

section \<open>Properties\<close>

text \<open>C30: reading a stored member. If the archive's stream holds the member's local header and data at the
  offset the directory names, and the directory's checksum is that of the data, then
  \<open>zip_fopen_index\<close> succeeds and any sequence of reads, with buffers of any sizes, delivers the data in order,
  no byte lost or repeated, without an error; \<open>zip_ftell\<close> counts the bytes delivered.\<close>

theorem zip_read_stored:
  assumes "za_cdir za = Some cd" and "i < length (cd_entry cd)" and "za_zp za = Some fp" and "malloc_total lib"
    and "i < length (za_entry za)" and "\<not> entry_data_changed (za_entry za ! i)"
    and "member_at lib fp (unat (zde_offset (cd_entry cd ! i))) lde data"
    and "zde_comp_method (cd_entry cd ! i) = ZIP_CM_STORE"
    and "unat (zde_comp_size (cd_entry cd ! i)) = length data"
    and "zde_crc (cd_entry cd ! i) = z_crc32 z (z_crc32 z 0 []) data" and "crc_running z"
    and "\<forall>n \<in> set ns. 0 < n \<and> n < 2 ^ 31"
  shows "\<exists>zf za' fp' zf' fp''. zip_fopen_index lib z za (int i) flags = (Inr (Some zf), za') \<and> za_zp za' = Some fp'
     \<and> read_chunks z ns zf fp' = Some (take (sum_list ns) data, zf', fp'')
     \<and> zip_ftell (Some zf') = int (min (sum_list ns) (length data))"
proof -
  obtain zf za' fp' where o: "zip_fopen_index lib z za (int i) flags = (Inr (Some zf), za')" "za_zp za' = Some fp'"
      "stored_at zf fp' data" "zf_crc zf = z_crc32 z 0 []" "zf_crc_orig zf = zde_crc (cd_entry cd ! i)" "zf_file_fpos zf = 0"
    using zip_fopen_index_stored [OF assms(1-9)] by blast
  have "crc_fits z zf data" using o(4,5) assms(10) by (simp add: crc_fits_def)
  from read_chunks_stored [OF o(3) this assms(11,12)] obtain zf' fp'' where
    "read_chunks z ns zf fp' = Some (take (sum_list ns) data, zf', fp'')"
    "zf_file_fpos zf' = int (min (sum_list ns) (length data))" using o(6) by auto
  with o(1,2) show ?thesis by (auto simp: zip_ftell_def)
qed

theorem zip_read_stored_witness:
  "\<exists>zf za' fp' zf' fp''. zip_fopen_index sample_lib (raw_zlib 0) stored_zip 0 0 = (Inr (Some zf), za')
     \<and> za_zp za' = Some fp' \<and> read_chunks (raw_zlib 0) [2, 4] zf fp' = Some ([7, 8, 9], zf', fp'')
     \<and> zip_ftell (Some zf') = 3"
proof -
  let ?cd = "\<lparr>cd_entry = [stored_dirent], cd_size = 0, cd_offset = 35, cd_comment = None, cd_comment_len = 0\<rparr>"
  have "za_cdir stored_zip = Some ?cd" "0 < length (cd_entry ?cd)" "za_zp stored_zip = Some stored_file"
    "0 < length (za_entry stored_zip)" "\<not> entry_data_changed (za_entry stored_zip ! 0)"
    "zde_comp_method (cd_entry ?cd ! 0) = ZIP_CM_STORE"
    "unat (zde_comp_size (cd_entry ?cd ! 0)) = length [7, 8, 9 :: byte]"
    "zde_crc (cd_entry ?cd ! 0) = z_crc32 (raw_zlib 0) (z_crc32 (raw_zlib 0) 0 []) [7, 8, 9]"
    "member_at sample_lib stored_file (unat (zde_offset (cd_entry ?cd ! 0))) stored_dirent [7, 8, 9]"
    "\<forall>n \<in> set [2, 4 :: nat]. 0 < n \<and> n < 2 ^ 31"
    using stored_member
    by (simp_all add: stored_zip_def entry_data_changed_def fresh_entry_def stored_dirent_def raw_zlib_def)
  from zip_read_stored [OF this(1,2,3) malloc_total_sample this(4,5,9,6,7,8) crc_running_raw this(10), of 0]
  show ?thesis by simp
qed

text \<open>C31: decompression comes to an end. For a zlib that behaves as documented and a member whose compressed data, those in
  the buffer followed by those still in the file, decompress to at least the recorded number of bytes,
  every call of \<open>zip_fread\<close> returns, whatever the buffer sizes are and whether or not reading the file
  fails.\<close>

theorem zip_fread_returns:
  assumes "zlib_ok z rest" and "zf_zstr zf = Some zs" 
    and "unat (zf_bytes_left zf) \<le> rest (zs_state zs) (next_in zs @ take (unat (zf_cbytes_left zf)) (drop (zf_fpos zf) (fdata fp)))"
  shows "\<exists>r. zip_fread z toread zf fp = Some (Inr r)"
proof -
  obtain r where "inflate_loop z toread (unat (of_nat toread :: u32)) [] zs zf fp = Some r"
    using inflate_loop_returns [OF assms(1), of zf zs fp "[]" toread "unat (of_nat toread :: u32)"] assms(3)
    by (auto simp: unread_def)
  then show ?thesis using assms(2) by (cases r) (simp add: zip_fread_def Let_def case_prod_beta)
qed

definition open_split :: "nat zip_file" where
  "open_split = (open_deflated 5)\<lparr>zf_fpos := 32, zf_cbytes_left := 3, zf_zstr := Some \<lparr>next_in = [1, 2], zs_state = 5\<rparr>\<rparr>"

theorem zip_fread_returns_witness: "\<exists>r. zip_fread (raw_zlib 5) 100 open_split stored_file = Some (Inr r)"
proof (rule zip_fread_returns [OF zlib_ok_raw])
  show "zf_zstr open_split = Some \<lparr>next_in = [1, 2], zs_state = 5\<rparr>" by (simp add: open_split_def)
qed (simp add: open_split_def open_deflated_def stored_file_def length_stored_header)

text \<open>the endless loop. When the recorded size of a compressed member exceeds what its stream delivers and the
  caller's buffer has room, \<open>zip_fread\<close> does not return: after the end of the stream \<open>inflate\<close> reports
  \<open>Z_STREAM_END\<close> again without progress, and the loop has no exit for that.\<close>

theorem zip_fread_hangs:
  assumes "zip_err (zf_error zf) = 0" and "\<not> flag_set (zf_flags zf) ZIP_ZF_EOF" and "flag_set (zf_flags zf) ZIP_ZF_DECOMP"
    and "zf_zstr zf = Some zs"
    and "z_inflate z (zs_state zs) (next_in zs) (unat (of_nat toread :: u32)) = (Z_STREAM_END, used, out, st)"
    and "ended z st" and "out \<noteq> []" and "length out < toread" and "length out < unat (zf_bytes_left zf)"
  shows "zip_fread z toread zf fp = None"
proof -
  let ?zs = "\<lparr>next_in = drop used (next_in zs), zs_state = st\<rparr>"
  have "inflate_loop z toread (unat (of_nat toread :: u32) - length out) out ?zs (zf\<lparr>zf_zstr := Some ?zs\<rparr>) fp = None"
    using assms(6-9) by (intro inflate_loop_hangs) simp_all
  then have "inflate_loop z toread (unat (of_nat toread :: u32)) [] zs zf fp = None"
    using assms(5,7-9) by (subst inflate_loop.simps) (simp add: Let_def)
  moreover have "zf_bytes_left zf \<noteq> 0" using assms(9) by auto
  ultimately show ?thesis using assms(1-4,8) by (auto simp: zip_fread_def)
qed

theorem zip_fread_hangs_witness: "zip_fread (raw_zlib 5) 100 (open_deflated 6) stored_file = None"
proof -
  let ?zs = "\<lparr>next_in = [1, 2, 3, 4, 5], zs_state = 5\<rparr> :: nat z_stream"
  have "zip_err (zf_error (open_deflated 6)) = 0" "\<not> flag_set (zf_flags (open_deflated 6)) ZIP_ZF_EOF"
    "flag_set (zf_flags (open_deflated 6)) ZIP_ZF_DECOMP" "zf_zstr (open_deflated 6) = Some ?zs"
    "z_inflate (raw_zlib 5) (zs_state ?zs) (next_in ?zs) (unat (of_nat 100 :: u32)) = (Z_STREAM_END, 5, [1, 2, 3, 4, 5], 0)"
    "length [1, 2, 3, 4, 5 :: byte] < 100" "length [1, 2, 3, 4, 5 :: byte] < unat (zf_bytes_left (open_deflated 6))"
    by (simp_all add: open_deflated_def zip_error_init_def flag_set_def raw_zlib_def raw_inflate_def)
  from zip_fread_hangs [OF this(1-5) ended_raw _ this(6,7)] show ?thesis by simp
qed

text \<open>Seeking in a stored member has no effect on what is read. After a successful \<open>zip_fseek\<close> to a position
  inside the member, \<open>zip_ftell\<close> reports the new position, but the next \<open>zip_fread\<close> delivers the bytes that
  followed the old one: neither the position in the archive nor the count of raw bytes left was
  updated.\<close>

theorem zip_fseek_stored_stale:
  assumes "stored_at zf fp data" and "data \<noteq> []" and "za_cdir za = Some cd"
    and "0 \<le> zf_file_index zf" and "zf_file_index zf < int (length (cd_entry cd))"
    and "0 \<le> pos" and "pos < int (unat (zde_uncomp_size (cd_entry cd ! nat (zf_file_index zf))))"
    and "pos \<noteq> zf_file_fpos zf" and "0 < n" "n < 2 ^ 31"
  shows "\<exists>zf' zf'' fp'. zip_fseek lib z zf za pos ZIP_SEEK_SET = Some (Inr (0, zf'), za)
     \<and> zip_ftell (Some zf') = pos
     \<and> zip_fread z n zf' fp = Some (Inr (int (min n (length data)), take n data, zf'', fp'))"
proof -
  let ?flen = "int (unat (zde_uncomp_size (cd_entry cd ! nat (zf_file_index zf))))"
  define zf' where "zf' = zf\<lparr>zf_flags := zf_flags zf AND NOT ZIP_ZF_EOF, zf_bytes_left := of_int (?flen - pos),
                             zf_file_fpos := pos\<rparr>"
  have f: "flag_set (x AND - 2) 2 = flag_set x 2" "\<not> flag_set (x AND - 2) 1" for x :: u32
    by (simp_all add: flag_set_def and.assoc)
  have s: "zip_fseek lib z zf za pos ZIP_SEEK_SET = Some (Inr (0, zf'), za)"
    using assms(1,3-8)
    by (auto simp: zip_fseek_def stored_at_def seek_target_def zip_fseek_bytes_def zf'_def Let_def)
  have b: "of_int (?flen - pos) \<noteq> (0 :: u64)"
  proof -
    have "?flen < int (2 ^ 32)"
      using unat32_bound [of "zde_uncomp_size (cd_entry cd ! nat (zf_file_index zf))"] by (subst of_nat_less_iff) simp
    moreover have "int (2 ^ 32) = 2 ^ 32" by simp
    ultimately have "?flen - pos < 2 ^ 32" using assms(6) by linarith
    moreover have "0 < ?flen - pos" using assms(7) by linarith
    ultimately show ?thesis by (rule of_int_u64_pos [rotated])
  qed
  have "raw_at zf' fp data" using stored_at_raw [OF assms(1,2)] by (simp add: raw_at_def zf'_def f)
  from stored_fillbuf [OF this assms(2,9,10)] obtain zf3 fp' where
    3: "zip_file_fillbuf n zf' fp = (int (min n (length data)), take n data, zf3, fp')" by blast
  have "zip_fread z n zf' fp = Some (Inr (int (min n (length data)), take n data,
          fread_deliver z (take n data) zf3, fp'))"
    using 3 assms(1,2,9) f b by (simp add: zip_fread_def zf'_def stored_at_def Let_def)
  with s show ?thesis by (auto simp: zip_ftell_def zf'_def)
qed

theorem zip_fseek_stored_stale_witness:
  "\<exists>zf' zf'' fp'. zip_fseek sample_lib (raw_zlib 0) open_stored stored_zip 2 ZIP_SEEK_SET = Some (Inr (0, zf'), stored_zip)
     \<and> zip_ftell (Some zf') = 2 \<and> zip_fread (raw_zlib 0) 1 zf' stored_file = Some (Inr (1, [7], zf'', fp'))"
proof -
  let ?cd = "\<lparr>cd_entry = [stored_dirent], cd_size = 0, cd_offset = 35, cd_comment = None, cd_comment_len = 0\<rparr>"
  have "za_cdir stored_zip = Some ?cd" "0 \<le> zf_file_index open_stored" "zf_file_index open_stored < int (length (cd_entry ?cd))"
    "2 < int (unat (zde_uncomp_size (cd_entry ?cd ! nat (zf_file_index open_stored))))" "2 \<noteq> zf_file_fpos open_stored"
    by (simp_all add: stored_zip_def open_stored_def stored_dirent_def)
  from zip_fseek_stored_stale [OF open_stored_at _ this(1-3) _ this(4,5), of 1 sample_lib "raw_zlib 0"]
  show ?thesis by simp
qed

text \<open>Seeking back in a compressed member restarts the stream but not the running checksum, so the bytes read
  before the seek are counted twice.\<close>

lemma zip_fseek_to_start_keeps_crc:
  assumes "zip_fseek_to_start lib z zf za = (Inr (0, zf'), za')"
  shows "zf_crc zf' = zf_crc zf" and "zf_file_fpos zf' = 0"
proof -
  have fb: "zf_crc (fst (snd (snd (zip_file_fillbuf n f fp)))) = zf_crc f"
    "zf_file_fpos (fst (snd (snd (zip_file_fillbuf n f fp)))) = zf_file_fpos f" for n and f :: "'a zip_file" and fp
    by (simp_all add: zip_file_fillbuf_def Let_def case_prod_beta zf_set_error_def)
  show "zf_crc zf' = zf_crc zf" "zf_file_fpos zf' = 0"
    using assms
    by (auto simp: zip_fseek_to_start_def Let_def case_prod_beta fb split: option.splits if_splits sum.splits prod.splits)
qed

end
