(* ===== verification/Zip_Source.thy ===== *)
theory Zip_Source
  imports Zip_File
begin

text \<open>
  Where the data of a new entry comes from (\<^verbatim>\<open>zip_source_function.c\<close>, \<^verbatim>\<open>zip_source_free.c\<close>): the callbacks that read a
  block of memory (\<^verbatim>\<open>zip_source_buffer.c\<close>), a file (\<^verbatim>\<open>zip_source_file.c\<close>, \<^verbatim>\<open>zip_source_filep.c\<close>) and a member of an
  archive (\<^verbatim>\<open>zip_source_zip.c\<close>).  The locale \<open>data_source\<close> is what the writer of an archive relies on; each of the
  three callbacks is shown to keep it.
\<close>

section \<open>Calls that may not return\<close>

type_synonym 'a call = "'a res option"

definition bind_call :: "'a call \<Rightarrow> ('a \<Rightarrow> 'b call) \<Rightarrow> 'b call" where
  "bind_call r k = Option.bind r (\<lambda>x. case x of Inl e \<Rightarrow> Some (Inl e) | Inr v \<Rightarrow> k v)"

lemma bind_call_simps [simp]:
  "bind_call None k = None"
  "bind_call (Some (Inl e)) k = Some (Inl e)"
  "bind_call (Some (Inr v)) k = k v"
  by (simp_all add: bind_call_def)

lemma bind_call_Some_Inr: "bind_call r k = Some (Inr y) \<longleftrightarrow> (\<exists>v. r = Some (Inr v) \<and> k v = Some (Inr y))"
  by (cases r rule: option.exhaust; cases "the r") auto

lemma bind_call_mono [partial_function_mono]:
  fixes C :: "'v \<Rightarrow> ('a \<Rightarrow> 'b option) \<Rightarrow> 'c call"
  assumes "mono_option B" and "\<And>v. mono_option (\<lambda>f. C v f)"
  shows "mono_option (\<lambda>f. bind_call (B f) (\<lambda>v. C v f))"
  unfolding bind_call_def
proof (rule bind_mono [OF assms(1)])
  fix x :: "'v res"
  show "mono_option (\<lambda>f. case x of Inl e \<Rightarrow> Some (Inl e) | Inr v \<Rightarrow> C v f)"
    using assms(2) by (cases x) (simp_all add: monotone_def flat_ord_def option.leq_refl)
qed

section \<open>The operating system\<close>

text \<open>
  \<^verbatim>\<open>fopen(name, "rb")\<close>, \<^verbatim>\<open>stat\<close> and \<^verbatim>\<open>fstat\<close>: an \<^verbatim>\<open>errno\<close> or a stream, respectively the modification time and, for
  a regular file, the size.
\<close>

record os =
  os_fopen :: "byte list \<Rightarrow> int + cfile"
  os_stat :: "byte list \<Rightarrow> int + (int \<times> nat option)"
  os_fstat :: "cfile \<Rightarrow> int + (int \<times> nat option)"

section \<open>Sources\<close>

definition zip_source_function ::
  "clib \<Rightarrow> 'u zip \<Rightarrow> 'v callback \<Rightarrow> 'v \<Rightarrow> 'v zip_source option \<times> 'u zip" where
  "zip_source_function lib za zcb ud =
     (if \<not> malloc_ok lib ''zip_source'' 1 then (None, za_set_error za ZIP_ER_MEMORY 0)
      else (Some \<lparr>src_f = zcb, src_ud = ud\<rparr>, za))"

text \<open>\<open>zip_source_free\<close>: the user data after the callback has released it.\<close>

definition zip_source_free :: "'v zip_source option \<Rightarrow> ('v option) call" where
  "zip_source_free source = (case source of
     None \<Rightarrow> Some (Inr None)
   | Some s \<Rightarrow> bind_call (src_f s (src_ud s) ZIP_SOURCE_FREE 0) (\<lambda>(_, _, ud). Some (Inr (Some ud))))"

section \<open>Memory\<close>

text \<open>\<^verbatim>\<open>struct read_data\<close>: \<open>rd_buf\<close> is an offset into the block, \<open>None\<close> before the first \<open>ZIP_SOURCE_OPEN\<close>; \<^verbatim>\<open>end\<close> is
  \<open>rd_len\<close> bytes after the start. \<open>rd_alive\<close> turns false when the structure is freed.\<close>

record struct_read_data =
  rd_data :: "byte list option"
  rd_len :: nat
  rd_buf :: "nat option"
  rd_mtime :: int
  rd_freep :: bool
  rd_alive :: bool

definition read_data_cmd :: "struct_read_data \<Rightarrow> zip_source_cmd \<Rightarrow> nat \<Rightarrow> (int \<times> payload \<times> struct_read_data) res" where
  "read_data_cmd z cmd len = (case cmd of
     ZIP_SOURCE_OPEN \<Rightarrow> Inr (0, PNone, z\<lparr>rd_buf := Some 0\<rparr>)
   | ZIP_SOURCE_READ \<Rightarrow> (case rd_buf z of
       None \<Rightarrow> Inl UB
     | Some b \<Rightarrow>
         let n = (if rd_len z - b > len then len else rd_len z - b) in
         if n = 0 then Inr (0, PBytes [], z)
         else bind_res (checked (Option.bind (rd_data z) (\<lambda>d. mem_load d b n))) (\<lambda>bs.
                Inr (int n, PBytes bs, z\<lparr>rd_buf := Some (b + n)\<rparr>)))
   | ZIP_SOURCE_CLOSE \<Rightarrow> Inr (0, PNone, z)
   | ZIP_SOURCE_STAT \<Rightarrow>
       if len < sizeof_stat then Inr (-1, PNone, z)
       else Inr (int sizeof_stat, PStat (zip_stat_init\<lparr>st_mtime := rd_mtime z, st_size := int (rd_len z)\<rparr>), z)
   | ZIP_SOURCE_ERROR \<Rightarrow> if len < 8 then Inr (-1, PNone, z) else Inr (8, PErr 0 0, z)
   | ZIP_SOURCE_FREE \<Rightarrow> Inr (0, PNone, z\<lparr>rd_data := (if rd_freep z then None else rd_data z), rd_alive := False\<rparr>))"

definition read_data :: "struct_read_data callback" where
  "read_data z cmd len = Some (if rd_alive z then read_data_cmd z cmd len else Inl UB)"

text \<open>\<open>now\<close> is the result of \<^verbatim>\<open>time(NULL)\<close>.\<close>

definition zip_source_buffer ::
  "clib \<Rightarrow> int \<Rightarrow> 'u zip \<Rightarrow> byte list option \<Rightarrow> int \<Rightarrow> bool \<Rightarrow> struct_read_data zip_source option \<times> 'u zip" where
  "zip_source_buffer lib now za data len freep =
     (if len < 0 \<or> data = None \<and> len > 0 then (None, za_set_error za ZIP_ER_INVAL 0)
      else if \<not> malloc_ok lib ''read_data'' 1 then (None, za_set_error za ZIP_ER_MEMORY 0)
      else zip_source_function lib za read_data
        \<lparr>rd_data = data, rd_len = nat len, rd_buf = None, rd_mtime = now, rd_freep = freep, rd_alive = True\<rparr>)"

section \<open>Files\<close>

text \<open>\<^verbatim>\<open>struct read_file\<close>; \<open>rf_e\<close> is \<open>None\<close> until an error is stored, the array is not initialised.\<close>

record struct_read_file =
  rf_fname :: "byte list option"
  rf_f :: "cfile option"
  rf_off :: int
  rf_len :: int
  rf_remain :: int
  rf_e :: "(int \<times> int) option"
  rf_alive :: bool

definition read_file_seek :: "struct_read_file \<Rightarrow> cfile \<Rightarrow> int \<times> payload \<times> struct_read_file" where
  "read_file_seek z f =
     (let (r, f) = fseeko f (rf_off z) SEEK_SET in
      if r < 0 then (-1, PNone, z\<lparr>rf_f := Some f, rf_e := Some (ZIP_ER_SEEK, ferrno f)\<rparr>)
      else (0, PNone, z\<lparr>rf_f := Some f, rf_remain := rf_len z\<rparr>))"

definition read_file_open :: "os \<Rightarrow> struct_read_file \<Rightarrow> (int \<times> payload \<times> struct_read_file) res" where
  "read_file_open os z = (case rf_fname z of
     Some fname \<Rightarrow> (case os_fopen os fname of
         Inl e \<Rightarrow> Inr (-1, PNone, z\<lparr>rf_f := None, rf_e := Some (ZIP_ER_OPEN, e)\<rparr>)
       | Inr f \<Rightarrow> Inr (read_file_seek z f))
   | None \<Rightarrow> bind_res (checked (rf_f z)) (\<lambda>f. Inr (read_file_seek z f)))"

text \<open>The branch for a negative result of \<open>fread\<close> cannot be reached, \<open>fread\<close> returns a \<open>size_t\<close>.\<close>

definition read_file_read :: "struct_read_file \<Rightarrow> nat \<Rightarrow> (int \<times> payload \<times> struct_read_file) res" where
  "read_file_read z len = bind_res (checked (rf_f z)) (\<lambda>f.
     let n = (if rf_remain z \<noteq> -1 then (if len > unat (of_int (rf_remain z) :: u64) then nat (rf_remain z) else len) else len);
         (bs, f) = fread n f;
         z = z\<lparr>rf_f := Some f\<rparr>
     in Inr (int (length bs), PBytes bs,
             if rf_remain z \<noteq> -1 then z\<lparr>rf_remain := rf_remain z - int (length bs)\<rparr> else z))"

definition read_file_stat :: "os \<Rightarrow> struct_read_file \<Rightarrow> nat \<Rightarrow> (int \<times> payload \<times> struct_read_file) res" where
  "read_file_stat os z len =
     (if len < sizeof_stat then Inr (-1, PNone, z)
      else bind_res (case rf_f z of Some f \<Rightarrow> Inr (os_fstat os f)
             | None \<Rightarrow> bind_res (checked (rf_fname z)) (\<lambda>fname. Inr (os_stat os fname))) (\<lambda>r.
        case r of
          Inl e \<Rightarrow> Inr (-1, PNone, z\<lparr>rf_e := Some (ZIP_ER_READ, e)\<rparr>)
        | Inr (mtime, sz) \<Rightarrow>
            let st = zip_stat_init\<lparr>st_mtime := mtime\<rparr>;
                st = (if rf_len z \<noteq> -1 then st\<lparr>st_size := rf_len z\<rparr>
                      else case sz of Some n \<Rightarrow> st\<lparr>st_size := int n\<rparr> | None \<Rightarrow> st)
            in Inr (int sizeof_stat, PStat st, z)))"

definition read_file_cmd :: "os \<Rightarrow> struct_read_file \<Rightarrow> zip_source_cmd \<Rightarrow> nat \<Rightarrow> (int \<times> payload \<times> struct_read_file) res" where
  "read_file_cmd os z cmd len = (case cmd of
     ZIP_SOURCE_OPEN \<Rightarrow> read_file_open os z
   | ZIP_SOURCE_READ \<Rightarrow> read_file_read z len
   | ZIP_SOURCE_CLOSE \<Rightarrow>
       if rf_fname z \<noteq> None then bind_res (checked (rf_f z)) (\<lambda>_. Inr (0, PNone, z\<lparr>rf_f := None\<rparr>)) else Inr (0, PNone, z)
   | ZIP_SOURCE_STAT \<Rightarrow> read_file_stat os z len
   | ZIP_SOURCE_ERROR \<Rightarrow>
       if len < 8 then Inr (-1, PNone, z) else bind_res (checked (rf_e z)) (\<lambda>(a, b). Inr (8, PErr a b, z))
   | ZIP_SOURCE_FREE \<Rightarrow> Inr (0, PNone, z\<lparr>rf_fname := None, rf_f := None, rf_alive := False\<rparr>))"

definition read_file :: "os \<Rightarrow> struct_read_file callback" where
  "read_file os z cmd len = Some (if rf_alive z then read_file_cmd os z cmd len else Inl UB)"

definition zip_source_file_or_p ::
  "clib \<Rightarrow> os \<Rightarrow> 'u zip \<Rightarrow> byte list option \<Rightarrow> cfile option \<Rightarrow> int \<Rightarrow> int \<Rightarrow> struct_read_file zip_source option \<times> 'u zip" where
  "zip_source_file_or_p lib os za fname f start len =
     (if f = None \<and> fname = None then (None, za_set_error za ZIP_ER_INVAL 0)
      else if \<not> malloc_ok lib ''read_file'' 1 then (None, za_set_error za ZIP_ER_MEMORY 0)
      else if (case fname of None \<Rightarrow> False | Some s \<Rightarrow> \<not> malloc_ok lib ''char'' (length s + 1))
      then (None, za_set_error za ZIP_ER_MEMORY 0)
      else zip_source_function lib za (read_file os)
        \<lparr>rf_fname = fname, rf_f = f, rf_off = start, rf_len = (if len \<noteq> 0 then len else -1), rf_remain = 0, rf_e = None,
         rf_alive = True\<rparr>)"

definition zip_source_filep ::
  "clib \<Rightarrow> os \<Rightarrow> 'u zip \<Rightarrow> cfile option \<Rightarrow> int \<Rightarrow> int \<Rightarrow> struct_read_file zip_source option \<times> 'u zip" where
  "zip_source_filep lib os za f start len =
     (if f = None \<or> start < 0 \<or> len < -1 then (None, za_set_error za ZIP_ER_INVAL 0)
      else zip_source_file_or_p lib os za None f start len)"

definition zip_source_file ::
  "clib \<Rightarrow> os \<Rightarrow> 'u zip \<Rightarrow> byte list option \<Rightarrow> int \<Rightarrow> int \<Rightarrow> struct_read_file zip_source option \<times> 'u zip" where
  "zip_source_file lib os za fname start len =
     (if fname = None \<or> start < 0 \<or> len < -1 then (None, za_set_error za ZIP_ER_INVAL 0)
      else zip_source_file_or_p lib os za fname None start len)"
section \<open>Members of archives\<close>

text \<open>
  \<^verbatim>\<open>struct read_zip\<close>, with a stream of the source archive: every read of a member seeks first, so that
  it does not matter who else moves the position of the stream.  \<open>rz_zf\<close> is \<open>None\<close> for the NULL pointer.
\<close>

record 's struct_read_zip =
  rz_zf :: "'s zip_file option"
  rz_fp :: cfile
  rz_st :: zip_stat
  rz_off :: int
  rz_len :: int
  rz_alive :: bool

text \<open>The loop of \<open>ZIP_SOURCE_OPEN\<close>: whether all reads succeeded. At the end of the member \<open>zip_fread\<close> returns 0, and the
  loop goes round forever.\<close>

partial_function (option) read_zip_skip ::
  "'s zlib \<Rightarrow> int \<Rightarrow> int \<Rightarrow> 's zip_file \<Rightarrow> cfile \<Rightarrow> (bool \<times> 's zip_file \<times> cfile) call" where
  "read_zip_skip z off n zf fp =
     (if n < off
      then bind_call (zip_fread z (if off - n > 8192 then 8192 else nat (off - n)) zf fp) (\<lambda>r.
             if fst r < 0 then Some (Inr (False, fst (snd (snd r)), snd (snd (snd r))))
             else read_zip_skip z off (n + fst r) (fst (snd (snd r))) (snd (snd (snd r))))
      else Some (Inr (True, zf, fp)))"

declare read_zip_skip.simps [code del]

definition read_zip_read ::
  "'s zlib \<Rightarrow> 's struct_read_zip \<Rightarrow> nat \<Rightarrow> (int \<times> payload \<times> 's struct_read_zip) call" where
  "read_zip_read z p len =
     (let n = (if rz_len p \<noteq> -1 then (if len > unat (of_int (rz_len p) :: u64) then nat (rz_len p) else len) else len) in
      case rz_zf p of
        None \<Rightarrow> Some (Inr (-1, PNone, p))
      | Some zf \<Rightarrow> bind_call (zip_fread z n zf (rz_fp p)) (\<lambda>(i, bs, zf, fp).
          let p = p\<lparr>rz_zf := Some zf, rz_fp := fp\<rparr> in
          if i < 0 then Some (Inr (-1, PBytes bs, p))
          else Some (Inr (i, PBytes bs, if rz_len p \<noteq> -1 then p\<lparr>rz_len := rz_len p - i\<rparr> else p))))"

definition read_zip_cmd ::
  "'s zlib \<Rightarrow> 's struct_read_zip \<Rightarrow> zip_source_cmd \<Rightarrow> nat \<Rightarrow> (int \<times> payload \<times> 's struct_read_zip) call" where
  "read_zip_cmd z p cmd len = (case cmd of
     ZIP_SOURCE_OPEN \<Rightarrow>
       if 0 < rz_off p
       then (case rz_zf p of
               None \<Rightarrow> Some (Inl UB)
             | Some zf \<Rightarrow> bind_call (read_zip_skip z (rz_off p) 0 zf (rz_fp p)) (\<lambda>(ok, zf, fp).
                 if ok then Some (Inr (0, PNone, p\<lparr>rz_zf := Some zf, rz_fp := fp\<rparr>))
                 else Some (Inr (-1, PNone, p\<lparr>rz_zf := None, rz_fp := fp\<rparr>))))
       else Some (Inr (0, PNone, p))
   | ZIP_SOURCE_READ \<Rightarrow> read_zip_read z p len
   | ZIP_SOURCE_CLOSE \<Rightarrow> Some (Inr (0, PNone, p))
   | ZIP_SOURCE_STAT \<Rightarrow>
       if len < sizeof_stat then Some (Inr (-1, PNone, p)) else Some (Inr (int sizeof_stat, PStat (rz_st p), p))
   | ZIP_SOURCE_ERROR \<Rightarrow>
       if len < 8 then Some (Inr (-1, PNone, p))
       else (case rz_zf p of
               None \<Rightarrow> Some (Inl UB)
             | Some zf \<Rightarrow> (case zip_file_error_get zf of (a, b) \<Rightarrow> Some (Inr (8, PErr a b, p))))
   | ZIP_SOURCE_FREE \<Rightarrow>
       if rz_zf p = None then Some (Inl UB) else Some (Inr (0, PNone, p\<lparr>rz_zf := None, rz_alive := False\<rparr>)))"

definition read_zip :: "'s zlib \<Rightarrow> 's struct_read_zip callback" where
  "read_zip z p cmd len = (if rz_alive p then read_zip_cmd z p cmd len else Some (Inl UB))"

text \<open>The source archive of \<open>zip_source_zip\<close>: NULL, the archive that is written itself, or another one.\<close>

datatype 'u src_archive = Null_archive | Same_archive | Other_archive "'u zip"

definition src_archive_get :: "'u zip \<Rightarrow> 'u src_archive \<Rightarrow> 'u zip option" where
  "src_archive_get za src = (case src of Null_archive \<Rightarrow> None | Same_archive \<Rightarrow> Some za | Other_archive s \<Rightarrow> Some s)"

text \<open>Both archives after the work on the source archive, which ends as \<open>sa\<close>.\<close>

definition src_archive_put :: "'u zip \<Rightarrow> 'u src_archive \<Rightarrow> 'u zip \<Rightarrow> 'u zip \<times> 'u src_archive" where
  "src_archive_put za src sa =
     (case src of Other_archive _ \<Rightarrow> (za, Other_archive sa) | _ \<Rightarrow> (sa, src))"

text \<open>\<open>zip_stat_index\<close> and then \<open>zip_fopen_index\<close>.\<close>

definition source_zip_open ::
  "clib \<Rightarrow> 's zlib \<Rightarrow> 'u zip \<Rightarrow> int \<Rightarrow> u32 \<Rightarrow> (((zip_stat \<times> 's zip_file) option) res \<times> 'u zip) option" where
  "source_zip_open lib z sa srcidx flags = Option.bind (zip_stat_index sa srcidx flags zip_stat_init) (\<lambda>r.
     Some (case r of
       (Inl e, sa) \<Rightarrow> (Inl e, sa)
     | (Inr None, sa) \<Rightarrow> (Inr None, sa)
     | (Inr (Some st), sa) \<Rightarrow> (case zip_fopen_index lib z sa srcidx flags of
           (Inl e, sa) \<Rightarrow> (Inl e, sa)
         | (Inr zf, sa) \<Rightarrow> (Inr (map_option (\<lambda>zf. (st, zf)) zf), sa))))"

definition source_zip_state :: "'u zip \<Rightarrow> zip_stat \<Rightarrow> 's zip_file \<Rightarrow> u32 \<Rightarrow> int \<Rightarrow> int \<Rightarrow> ('s struct_read_zip) res" where
  "source_zip_state sa st zf flags start len =
     bind_res (checked (za_zp sa)) (\<lambda>fp. Inr
       \<lparr>rz_zf = Some zf, rz_fp = fp,
        rz_st = (if \<not> flag_set flags ZIP_FL_COMPRESSED
                 then st\<lparr>st_size := len, st_comp_size := len, st_comp_method := ZIP_CM_STORE, st_crc := 0\<rparr> else st),
        rz_off = start, rz_len = len, rz_alive = True\<rparr>)"

definition zip_source_zip ::
  "clib \<Rightarrow> 's zlib \<Rightarrow> 'u zip \<Rightarrow> 'u src_archive \<Rightarrow> int \<Rightarrow> u32 \<Rightarrow> int \<Rightarrow> int \<Rightarrow>
   ((('s struct_read_zip zip_source) option) res \<times> 'u zip \<times> 'u src_archive) option" where
  "zip_source_zip lib z za src srcidx flags start len =
     (case src_archive_get za src of
        None \<Rightarrow> Some (Inr None, za_set_error za ZIP_ER_INVAL 0, src)
      | Some sa \<Rightarrow>
        if start < 0 \<or> len < -1 \<or> srcidx < 0 \<or> srcidx \<ge> za_nentry sa
        then Some (Inr None, za_set_error za ZIP_ER_INVAL 0, src)
        else if \<not> flag_set flags ZIP_FL_UNCHANGED \<and> entry_data_changed (za_entry sa ! nat srcidx)
        then Some (Inr None, za_set_error za ZIP_ER_CHANGED 0, src)
        else
        let len = (if len = 0 then -1 else len);
            flags = (if start = 0 \<and> len = -1 \<and> \<not> flag_set flags ZIP_FL_RECOMPRESS
                     then flags OR ZIP_FL_COMPRESSED else flags AND NOT ZIP_FL_COMPRESSED) in
        if \<not> malloc_ok lib ''read_zip'' 1 then Some (Inr None, za_set_error za ZIP_ER_MEMORY 0, src)
        else Option.bind (source_zip_open lib z sa srcidx flags) (\<lambda>r. Some (case r of
          (Inl e, sa') \<Rightarrow> (Inl e, src_archive_put za src sa')
        | (Inr None, sa') \<Rightarrow>
            (Inr None, src_archive_put (za\<lparr>za_error := zip_error_copy (za_error za) (za_error sa')\<rparr>) src
                         (sa'\<lparr>za_error := zip_error_copy (za_error sa') (za_error sa)\<rparr>))
        | (Inr (Some (st, zf)), sa') \<Rightarrow>
            (case (src_archive_put za src sa', source_zip_state sa' st zf flags start len) of
               ((za, src), Inl e) \<Rightarrow> (Inl e, za, src)
             | ((za, src), Inr p) \<Rightarrow> (case zip_source_function lib za (read_zip z) p of
                 (zs, za) \<Rightarrow> (Inr zs, za, src))))))"

section \<open>What a writer relies on\<close>

text \<open>
  \<open>closed u c st\<close>: the source is not open, it will deliver the bytes \<open>c\<close> and reports \<open>st\<close>.  \<open>reading u c\<close>: it is open
  and the bytes \<open>c\<close> are still to come.  A read delivers at least one byte as long as there is one.  \<open>finished u\<close>: it
  has been closed again and can be released.
\<close>

locale data_source =
  fixes cb :: "'v callback" and closed :: "'v \<Rightarrow> byte list \<Rightarrow> zip_stat \<Rightarrow> bool" and reading :: "'v \<Rightarrow> byte list \<Rightarrow> bool"
    and finished :: "'v \<Rightarrow> bool"
  assumes stat_call: "closed u c st \<Longrightarrow>
      \<exists>u'. cb u ZIP_SOURCE_STAT sizeof_stat = Some (Inr (int sizeof_stat, PStat st, u')) \<and> closed u' c st"
    and open_call: "closed u c st \<Longrightarrow> \<exists>u'. cb u ZIP_SOURCE_OPEN 0 = Some (Inr (0, PNone, u')) \<and> reading u' c"
    and read_call: "reading u c \<Longrightarrow> 0 < n \<Longrightarrow> n < 2 ^ 31 \<Longrightarrow>
      \<exists>k u'. cb u ZIP_SOURCE_READ n = Some (Inr (int k, PBytes (take k c), u')) \<and> reading u' (drop k c)
        \<and> k \<le> n \<and> k \<le> length c \<and> (c \<noteq> [] \<longrightarrow> 0 < k)"
    and close_call: "reading u c \<Longrightarrow> \<exists>u'. cb u ZIP_SOURCE_CLOSE 0 = Some (Inr (0, PNone, u')) \<and> finished u'"
    and free_call: "finished u \<Longrightarrow> \<exists>u'. cb u ZIP_SOURCE_FREE 0 = Some (Inr (0, PNone, u'))"
begin

text \<open>Reading to the end: as many calls as it takes.\<close>

lemma read_end:
  assumes "reading u []" and "0 < n" "n < 2 ^ 31"
  shows "\<exists>u'. cb u ZIP_SOURCE_READ n = Some (Inr (0, PBytes [], u')) \<and> reading u' []"
  using read_call [OF assms] by auto

lemma read_some:
  assumes "reading u c" and "c \<noteq> []" and "0 < n" "n < 2 ^ 31"
  shows "\<exists>k u'. cb u ZIP_SOURCE_READ n = Some (Inr (int k, PBytes (take k c), u')) \<and> reading u' (drop k c)
    \<and> 0 < k \<and> k \<le> length c \<and> length (drop k c) < length c"
  using read_call [OF assms(1,3,4)] assms(2) by (metis diff_less length_drop length_greater_0_conv)

end

subsection \<open>Memory\<close>

definition data_closed :: "struct_read_data \<Rightarrow> byte list \<Rightarrow> zip_stat \<Rightarrow> bool" where
  "data_closed z c st \<longleftrightarrow> rd_alive z \<and> length c = rd_len z
     \<and> (case rd_data z of None \<Rightarrow> c = [] | Some d \<Rightarrow> length c \<le> length d \<and> take (length c) d = c)
     \<and> st = zip_stat_init\<lparr>st_mtime := rd_mtime z, st_size := int (rd_len z)\<rparr>"

definition data_reading :: "struct_read_data \<Rightarrow> byte list \<Rightarrow> bool" where
  "data_reading z c \<longleftrightarrow> rd_alive z \<and> (\<exists>b. rd_buf z = Some b \<and> b + length c = rd_len z
     \<and> (case rd_data z of None \<Rightarrow> c = [] | Some d \<Rightarrow> rd_len z \<le> length d \<and> take (length c) (drop b d) = c))"

lemma read_data_delivers:
  assumes "data_reading z c"
  shows "\<exists>k z'. read_data z ZIP_SOURCE_READ n = Some (Inr (int k, PBytes (take k c), z')) \<and> data_reading z' (drop k c)
     \<and> k = min n (length c)"
proof -
  obtain b where b: "rd_buf z = Some b" "b + length c = rd_len z" using assms by (auto simp: data_reading_def)
  let ?k = "min n (length c)"
  have n: "(if rd_len z - b > n then n else rd_len z - b) = ?k" using b(2) by auto
  show ?thesis
  proof (cases "?k = 0")
    case True
    then have "take ?k c = []" "drop ?k c = c" by auto
    then show ?thesis using assms b(1) True unfolding read_data_def read_data_cmd_def
      by (auto simp: n data_reading_def split: option.splits)
  next
    case False
    then obtain d where d: "rd_data z = Some d" "rd_len z \<le> length d" "take (length c) (drop b d) = c"
      using assms b by (cases "rd_data z") (auto simp: data_reading_def)
    have tk: "take ?k (drop b d) = take ?k c" using d(3) by (metis min.cobounded2 min.absorb2 take_take min.commute)
    have "mem_load d b ?k = Some (take ?k c)" using b(2) d(2) tk by (simp add: mem_load_def)
    moreover have "take (length c - ?k) (drop (b + ?k) d) = drop ?k c"
      using d(3) by (metis add.commute drop_drop drop_take)
    ultimately show ?thesis using assms b d False unfolding read_data_def read_data_cmd_def
      by (auto simp: n data_reading_def Let_def)
  qed
qed

interpretation memory_source: data_source read_data data_closed data_reading rd_alive
proof
  fix u c st
  assume c: "data_closed u c st"
  then show "\<exists>u'. read_data u ZIP_SOURCE_STAT sizeof_stat = Some (Inr (int sizeof_stat, PStat st, u')) \<and> data_closed u' c st"
    by (auto simp: read_data_def read_data_cmd_def data_closed_def)
  show "\<exists>u'. read_data u ZIP_SOURCE_OPEN 0 = Some (Inr (0, PNone, u')) \<and> data_reading u' c"
    using c by (auto simp: read_data_def read_data_cmd_def data_closed_def data_reading_def split: option.splits)
next
  fix u c and n :: nat
  assume "data_reading u c" and "0 < n"
  with read_data_delivers [of u c n] show "\<exists>k u'. read_data u ZIP_SOURCE_READ n = Some (Inr (int k, PBytes (take k c), u'))
      \<and> data_reading u' (drop k c) \<and> k \<le> n \<and> k \<le> length c \<and> (c \<noteq> [] \<longrightarrow> 0 < k)"
    by fastforce
qed (auto simp: read_data_def read_data_cmd_def data_reading_def)

subsection \<open>Files\<close>

definition file_stat :: "int \<Rightarrow> int \<Rightarrow> nat option \<Rightarrow> zip_stat" where
  "file_stat len mtime sz = (let st = zip_stat_init\<lparr>st_mtime := mtime\<rparr> in
     if len \<noteq> -1 then st\<lparr>st_size := len\<rparr> else case sz of Some n \<Rightarrow> st\<lparr>st_size := int n\<rparr> | None \<Rightarrow> st)"

text \<open>The part of a file that a source of length \<open>len\<close> (\<open>-1\<close>: to the end) delivers from the position of the stream on.\<close>

definition file_part :: "cfile \<Rightarrow> int \<Rightarrow> byte list" where
  "file_part f len = (if len = -1 then drop (fpos f) (fdata f) else take (nat len) (drop (fpos f) (fdata f)))"

definition file_closed :: "os \<Rightarrow> struct_read_file \<Rightarrow> byte list \<Rightarrow> zip_stat \<Rightarrow> bool" where
  "file_closed os z c st \<longleftrightarrow> rf_alive z \<and> 0 \<le> rf_off z \<and> -1 \<le> rf_len z \<and> rf_len z < 2 ^ 63
     \<and> (\<exists>f mtime sz. (case rf_fname z of
            Some fname \<Rightarrow> rf_f z = None \<and> os_fopen os fname = Inr f \<and> os_stat os fname = Inr (mtime, sz)
          | None \<Rightarrow> rf_f z = Some f \<and> os_fstat os f = Inr (mtime, sz))
        \<and> length (fdata f) \<le> fgood f \<and> c = file_part (f\<lparr>fpos := nat (rf_off z)\<rparr>) (rf_len z)
        \<and> st = file_stat (rf_len z) mtime sz)"

definition file_reading :: "struct_read_file \<Rightarrow> byte list \<Rightarrow> bool" where
  "file_reading z c \<longleftrightarrow> rf_alive z \<and> -1 \<le> rf_remain z \<and> rf_remain z < 2 ^ 63
     \<and> (\<exists>f. rf_f z = Some f \<and> length (fdata f) \<le> fgood f \<and> c = file_part f (rf_remain z))"

lemma unat_of_int_u64: "0 \<le> i \<Longrightarrow> i < 2 ^ 63 \<Longrightarrow> unat (of_int i :: u64) = nat i"
  by (simp add: unsigned_of_int take_bit_int_eq_self)

lemma read_file_delivers:
  assumes "file_reading z c" and "0 < n"
  shows "\<exists>k z'. read_file os z ZIP_SOURCE_READ n = Some (Inr (int k, PBytes (take k c), z')) \<and> file_reading z' (drop k c)
     \<and> k = min n (length c)"
proof -
  obtain f where f: "rf_f z = Some f" "length (fdata f) \<le> fgood f" "c = file_part f (rf_remain z)"
    and r: "rf_alive z" "-1 \<le> rf_remain z" "rf_remain z < 2 ^ 63" using assms(1) by (auto simp: file_reading_def)
  let ?rest = "drop (fpos f) (fdata f)"
  let ?k = "min n (length c)"
  define m where "m = (if rf_remain z = -1 then length ?rest else nat (rf_remain z))"
  have c: "c = take m ?rest" using f(3) by (simp add: file_part_def m_def)
  have rest: "drop ?k c = take (m - ?k) (drop (fpos f + ?k) (fdata f))" by (simp add: c drop_take add.commute)
  let ?n = "if rf_remain z \<noteq> -1 then (if n > unat (of_int (rf_remain z) :: u64) then nat (rf_remain z) else n) else n"
  have "?n = n \<or> ?n = m \<and> m < n"
    using r unat_of_int_u64 [of "rf_remain z"] by (auto simp: m_def)
  moreover have "?n = n \<Longrightarrow> n \<le> m \<or> rf_remain z = -1"
    using r unat_of_int_u64 [of "rf_remain z"] by (auto simp: m_def split: if_splits)
  ultimately have n: "take ?n ?rest = take ?k c" "min ?n (length (fdata f) - fpos f) = ?k"
    by (auto simp: c m_def min_def)
  let ?f = "f\<lparr>fpos := fpos f + ?k\<rparr>"
  have fr: "fread ?n f = (take ?k c, ?f)" by (simp only: fread_healthy [OF f(2)] n)
  define z' where "z' = (let z = z\<lparr>rf_f := Some ?f\<rparr> in
    if rf_remain z \<noteq> -1 then z\<lparr>rf_remain := rf_remain z - int ?k\<rparr> else z)"
  have "read_file os z ZIP_SOURCE_READ n = Some (Inr (int ?k, PBytes (take ?k c), z'))"
    using r(1) by (simp only: read_file_def read_file_cmd_def read_file_read_def zip_source_cmd.case f(1) checked_simps
        bind_res_simps fr Let_def prod.case if_True) (simp add: z'_def min.absorb1)
  moreover have "file_reading z' (drop ?k c)"
  proof (cases "rf_remain z = -1")
    case True
    then show ?thesis using f(2) r(1) rest by (simp add: file_reading_def z'_def file_part_def m_def)
  next
    case False
    then have "rf_remain z = int m" using r(2) by (simp add: m_def)
    moreover have "?k \<le> m" by (simp add: c)
    ultimately show ?thesis using f(2) r rest by (auto simp: file_reading_def z'_def file_part_def nat_diff_distrib)
  qed
  ultimately show ?thesis by blast
qed

lemma read_file_opens:
  assumes "file_closed os z c st"
  shows "\<exists>z'. read_file os z ZIP_SOURCE_OPEN 0 = Some (Inr (0, PNone, z')) \<and> file_reading z' c"
proof -
  obtain f where f: "length (fdata f) \<le> fgood f" "c = file_part (f\<lparr>fpos := nat (rf_off z)\<rparr>) (rf_len z)"
      "case rf_fname z of Some fname \<Rightarrow> os_fopen os fname = Inr f | None \<Rightarrow> rf_f z = Some f"
    using assms by (auto simp: file_closed_def split: option.splits)
  have r: "rf_alive z" "0 \<le> rf_off z" "-1 \<le> rf_len z" "rf_len z < 2 ^ 63" using assms by (auto simp: file_closed_def)
  have "read_file_open os z = Inr (read_file_seek z f)"
    using f(3) by (cases "rf_fname z") (simp_all add: read_file_open_def)
  moreover have "read_file_seek z f = (0, PNone, z\<lparr>rf_f := Some (f\<lparr>fpos := nat (rf_off z)\<rparr>), rf_remain := rf_len z\<rparr>)"
    using r(2) by (simp add: read_file_seek_def fseeko_def)
  ultimately show ?thesis
    using r f(1,2) by (simp add: read_file_def read_file_cmd_def file_reading_def)
qed

lemma read_file_stats:
  assumes "file_closed os z c st"
  shows "read_file os z ZIP_SOURCE_STAT sizeof_stat = Some (Inr (int sizeof_stat, PStat st, z))"
proof -
  obtain f mtime sz where f: "st = file_stat (rf_len z) mtime sz" "case rf_fname z of
      Some fname \<Rightarrow> rf_f z = None \<and> os_stat os fname = Inr (mtime, sz) | None \<Rightarrow> rf_f z = Some f \<and> os_fstat os f = Inr (mtime, sz)"
    using assms by (auto simp: file_closed_def split: option.splits)
  then have "read_file_stat os z sizeof_stat = Inr (int sizeof_stat, PStat st, z)"
    by (cases "rf_fname z") (simp_all add: read_file_stat_def file_stat_def Let_def)
  then show ?thesis using assms by (simp add: read_file_def read_file_cmd_def file_closed_def)
qed

interpretation file_source: data_source "read_file os" "file_closed os" file_reading rf_alive for os
proof
  fix u c st
  assume c: "file_closed os u c st"
  then show "\<exists>u'. read_file os u ZIP_SOURCE_STAT sizeof_stat = Some (Inr (int sizeof_stat, PStat st, u'))
      \<and> file_closed os u' c st"
    using read_file_stats [OF c] by blast
  show "\<exists>u'. read_file os u ZIP_SOURCE_OPEN 0 = Some (Inr (0, PNone, u')) \<and> file_reading u' c"
    by (rule read_file_opens [OF c])
next
  fix u c and n :: nat
  assume "file_reading u c" and "0 < n"
  with read_file_delivers [of u c n os] show "\<exists>k u'. read_file os u ZIP_SOURCE_READ n = Some (Inr (int k, PBytes (take k c), u'))
      \<and> file_reading u' (drop k c) \<and> k \<le> n \<and> k \<le> length c \<and> (c \<noteq> [] \<longrightarrow> 0 < k)"
    by fastforce
next
  fix u c
  assume "file_reading u c"
  then show "\<exists>u'. read_file os u ZIP_SOURCE_CLOSE 0 = Some (Inr (0, PNone, u')) \<and> rf_alive u'"
    by (auto simp: read_file_def read_file_cmd_def file_reading_def)
qed (auto simp: read_file_def read_file_cmd_def)

subsection \<open>Members of archives\<close>

text \<open>What a source of length \<open>len\<close> (\<open>-1\<close>: to the end) delivers of the remaining bytes \<open>data\<close> of a member.\<close>

definition member_part :: "byte list \<Rightarrow> int \<Rightarrow> byte list" where
  "member_part data len = (if len = -1 then data else take (nat len) data)"

definition zip_reading :: "'s zlib \<Rightarrow> 's struct_read_zip \<Rightarrow> byte list \<Rightarrow> bool" where
  "zip_reading z p c \<longleftrightarrow> rz_alive p \<and> crc_running z \<and> -1 \<le> rz_len p \<and> rz_len p < 2 ^ 63
     \<and> (\<exists>zf data. rz_zf p = Some zf \<and> stored_at zf (rz_fp p) data \<and> crc_fits z zf data \<and> c = member_part data (rz_len p))"

definition zip_closed :: "'s zlib \<Rightarrow> 's struct_read_zip \<Rightarrow> byte list \<Rightarrow> zip_stat \<Rightarrow> bool" where
  "zip_closed z p c st \<longleftrightarrow> rz_alive p \<and> crc_running z \<and> -1 \<le> rz_len p \<and> rz_len p < 2 ^ 63 \<and> 0 \<le> rz_off p \<and> st = rz_st p
     \<and> (\<exists>zf data. rz_zf p = Some zf \<and> stored_at zf (rz_fp p) data \<and> crc_fits z zf data
          \<and> nat (rz_off p) \<le> length data \<and> c = member_part (drop (nat (rz_off p)) data) (rz_len p))"

lemma read_zip_skip_stored:
  assumes "stored_at zf fp data" and "crc_fits z zf data" and "crc_running z" and "nat (off - n) \<le> length data"
  shows "\<exists>zf' fp'. read_zip_skip z off n zf fp = Some (Inr (True, zf', fp'))
     \<and> stored_at zf' fp' (drop (nat (off - n)) data) \<and> crc_fits z zf' (drop (nat (off - n)) data)"
  using assms
proof (induction "nat (off - n)" arbitrary: n zf fp data rule: less_induct)
  case less
  show ?case
  proof (cases "n < off")
    case False
    then show ?thesis using less.prems by (subst read_zip_skip.simps) simp
  next
    case True
    define k where "k = (if off - n > 8192 then 8192 else nat (off - n))"
    have k: "0 < k" "k < 2 ^ 31" "k \<le> nat (off - n)" using True by (auto simp: k_def)
    have m: "min k (length data) = k" using k(3) less.prems(4) by simp
    obtain zf1 fp1 where 1: "zip_fread z k zf fp = Some (Inr (int k, take k data, zf1, fp1))"
        "stored_at zf1 fp1 (drop k data)" "crc_fits z zf1 (drop k data)"
      using stored_fread [OF less.prems(1-3) k(1,2)] m by auto
    have s: "nat (off - (n + int k)) = nat (off - n) - k" using k True by auto
    have "read_zip_skip z off n zf fp = read_zip_skip z off (n + int k) zf1 fp1"
      using True 1(1) by (subst read_zip_skip.simps) (simp flip: k_def)
    moreover have "k + (nat (off - n) - k) = nat (off - n)" using k(3) by simp
    ultimately show ?thesis
      using less.hyps [OF _ 1(2,3) less.prems(3), of "n + int k"] k less.prems(4) s
      by (simp add: drop_drop add.commute)
  qed
qed

lemma read_zip_delivers:
  assumes "zip_reading z p c" and "0 < n" "n < 2 ^ 31"
  shows "\<exists>k p'. read_zip z p ZIP_SOURCE_READ n = Some (Inr (int k, PBytes (take k c), p')) \<and> zip_reading z p' (drop k c)
     \<and> k = min n (length c)"
proof -
  obtain zf data where f: "rz_zf p = Some zf" "stored_at zf (rz_fp p) data" "crc_fits z zf data" "c = member_part data (rz_len p)"
    and r: "rz_alive p" "crc_running z" "-1 \<le> rz_len p" "rz_len p < 2 ^ 63" using assms(1) by (auto simp: zip_reading_def)
  define m where "m = (if rz_len p = -1 then length data else nat (rz_len p))"
  have c: "c = take m data" using f(4) by (simp add: member_part_def m_def)
  let ?n = "if rz_len p \<noteq> -1 then (if n > unat (of_int (rz_len p) :: u64) then nat (rz_len p) else n) else n"
  have n: "?n = (if rz_len p = -1 then n else min n m)"
    using r unat_of_int_u64 [of "rz_len p"] by (auto simp: m_def)
  let ?k = "min n (length c)"
  have k: "min ?n (length data) = ?k" "take ?n data = take ?k c" unfolding n by (auto simp: c m_def min_def)
  have "\<exists>zf' fp'. zip_fread z ?n zf (rz_fp p) = Some (Inr (int ?k, take ?k c, zf', fp'))
      \<and> stored_at zf' fp' (drop ?k data) \<and> crc_fits z zf' (drop ?k data)"
  proof (cases "?n = 0")
    case True
    then have "?k = 0" using k(1) by simp
    then show ?thesis using f(2,3) True by (simp add: zip_fread_def stored_at_def)
  next
    case False
    have b: "0 < ?n" "?n < 2 ^ 31" using False assms(3) unfolding n by auto
    have d: "drop ?n data = drop ?k data" using k(1) by (cases "?n \<le> length data") (auto simp: min_def)
    show ?thesis using stored_fread [OF f(2,3) r(2) b] unfolding k d by blast
  qed
  then obtain zf' fp' where 1: "zip_fread z ?n zf (rz_fp p) = Some (Inr (int ?k, take ?k c, zf', fp'))"
      "stored_at zf' fp' (drop ?k data)" "crc_fits z zf' (drop ?k data)" by blast
  define p' where "p' = (let p = p\<lparr>rz_zf := Some zf', rz_fp := fp'\<rparr> in
    if rz_len p \<noteq> -1 then p\<lparr>rz_len := rz_len p - int ?k\<rparr> else p)"
  have "read_zip z p ZIP_SOURCE_READ n = Some (Inr (int ?k, PBytes (take ?k c), p'))"
    using r(1) f(1) by (simp only: read_zip_def read_zip_cmd_def read_zip_read_def zip_source_cmd.case Let_def 1(1)
        option.case bind_call_simps prod.case if_True) (simp add: p'_def Let_def)
  moreover have "zip_reading z p' (drop ?k c)"
  proof (cases "rz_len p = -1")
    case True
    then show ?thesis using r 1(2,3) c by (simp add: zip_reading_def p'_def Let_def member_part_def m_def)
  next
    case False
    then have "rz_len p = int m" using r(3) by (simp add: m_def)
    moreover have "?k \<le> m" by (simp add: c)
    moreover have "drop ?k c = take (m - ?k) (drop ?k data)" by (simp add: c drop_take)
    ultimately show ?thesis using r 1(2,3) by (auto simp: zip_reading_def p'_def Let_def member_part_def nat_diff_distrib)
  qed
  ultimately show ?thesis by blast
qed

lemma read_zip_opens:
  assumes "zip_closed z p c st"
  shows "\<exists>p'. read_zip z p ZIP_SOURCE_OPEN 0 = Some (Inr (0, PNone, p')) \<and> zip_reading z p' c"
proof -
  obtain zf data where f: "rz_zf p = Some zf" "stored_at zf (rz_fp p) data" "crc_fits z zf data"
      "nat (rz_off p) \<le> length data" "c = member_part (drop (nat (rz_off p)) data) (rz_len p)"
    and r: "rz_alive p" "crc_running z" "-1 \<le> rz_len p" "rz_len p < 2 ^ 63" "0 \<le> rz_off p"
    using assms by (auto simp: zip_closed_def)
  show ?thesis
  proof (cases "0 < rz_off p")
    case True
    obtain zf' fp' where "read_zip_skip z (rz_off p) 0 zf (rz_fp p) = Some (Inr (True, zf', fp'))"
        "stored_at zf' fp' (drop (nat (rz_off p)) data)" "crc_fits z zf' (drop (nat (rz_off p)) data)"
      using read_zip_skip_stored [OF f(2,3) r(2), of "rz_off p" 0] f(4) by auto
    then show ?thesis using True f r by (auto simp: read_zip_def read_zip_cmd_def zip_reading_def)
  next
    case False
    then show ?thesis using f r by (auto simp: read_zip_def read_zip_cmd_def zip_reading_def)
  qed
qed

interpretation zip_source: data_source "read_zip z" "zip_closed z" "zip_reading z" "\<lambda>p. rz_alive p \<and> rz_zf p \<noteq> None" for z
proof
  fix u c st
  assume c: "zip_closed z u c st"
  then show "\<exists>u'. read_zip z u ZIP_SOURCE_STAT sizeof_stat = Some (Inr (int sizeof_stat, PStat st, u')) \<and> zip_closed z u' c st"
    by (auto simp: read_zip_def read_zip_cmd_def zip_closed_def)
  show "\<exists>u'. read_zip z u ZIP_SOURCE_OPEN 0 = Some (Inr (0, PNone, u')) \<and> zip_reading z u' c"
    by (rule read_zip_opens [OF c])
next
  fix u c and n :: nat
  assume "zip_reading z u c" and "0 < n" "n < 2 ^ 31"
  with read_zip_delivers [of z u c n] show "\<exists>k u'. read_zip z u ZIP_SOURCE_READ n = Some (Inr (int k, PBytes (take k c), u'))
      \<and> zip_reading z u' (drop k c) \<and> k \<le> n \<and> k \<le> length c \<and> (c \<noteq> [] \<longrightarrow> 0 < k)"
    by fastforce
qed (auto simp: read_zip_def read_zip_cmd_def zip_reading_def)

subsection \<open>Where the source of a member goes wrong\<close>

text \<open>A start offset behind the end of the member: \<open>ZIP_SOURCE_OPEN\<close> never returns.\<close>

lemma read_zip_skip_hangs:
  assumes "stored_at zf fp data" and "crc_fits z zf data" and "crc_running z" and "int (length data) < off - n"
  shows "read_zip_skip z off n zf fp = None"
proof (rule ccontr)
  assume "read_zip_skip z off n zf fp \<noteq> None"
  then obtain y where y: "read_zip_skip z off n zf fp = Some y" by blast
  let ?P = "\<lambda>z' off' n' zf' fp' (y :: (bool \<times> 'a zip_file \<times> cfile) res).
    \<forall>data. z' = z \<longrightarrow> stored_at zf' fp' data \<longrightarrow> crc_fits z zf' data \<longrightarrow> \<not> int (length data) < off' - n'"
  have "?P z off n zf fp y"
  proof (rule read_zip_skip.raw_induct [where P = ?P, rotated, OF y], intro allI impI notI)
    fix rec z' off' n' zf' fp' y data
    assume IH: "\<And>z' off' n' zf' fp' (y :: (bool \<times> 'a zip_file \<times> cfile) res). rec z' off' n' zf' fp' = Some y \<Longrightarrow> ?P z' off' n' zf' fp' y"
      and step: "(if n' < off' then bind_call (zip_fread z' (if off' - n' > 8192 then 8192 else nat (off' - n')) zf' fp') (\<lambda>r.
             if fst r < 0 then Some (Inr (False, fst (snd (snd r)), snd (snd (snd r))))
             else rec z' off' (n' + fst r) (fst (snd (snd r))) (snd (snd (snd r)))) else Some (Inr (True, zf', fp'))) = Some y"
      and z: "z' = z" and s: "stored_at zf' fp' data" "crc_fits z zf' data" and l: "int (length data) < off' - n'"
    define k where "k = (if off' - n' > 8192 then 8192 else nat (off' - n'))"
    have k: "0 < k" "k < 2 ^ 31" using l by (auto simp: k_def)
    obtain zf1 fp1 where 1: "zip_fread z k zf' fp' = Some (Inr (int (min k (length data)), take k data, zf1, fp1))"
        "stored_at zf1 fp1 (drop k data)" "crc_fits z zf1 (drop k data)"
      using stored_fread [OF s assms(3) k] by blast
    have "rec z off' (n' + int (min k (length data))) zf1 fp1 = Some y"
      using step l 1(1) by (simp add: z flip: k_def)
    from IH [OF this] show False using 1(2,3) l by auto
  qed
  then show False using assms by blast
qed

text \<open>When a read of \<open>ZIP_SOURCE_OPEN\<close> fails, the pointer to the file is NULL, and asking for the error dereferences it.\<close>

lemma read_zip_failed_open:
  assumes "rz_alive p" and "read_zip z p ZIP_SOURCE_OPEN 0 = Some (Inr (r, out, p'))" and "r < 0"
  shows "read_zip z p' ZIP_SOURCE_ERROR 8 = Some (Inl UB)"
proof -
  have "rz_zf p' = None \<and> rz_alive p'"
    using assms by (auto simp: read_zip_def read_zip_cmd_def bind_call_Some_Inr split: if_splits option.splits)
  then show ?thesis by (simp add: read_zip_def read_zip_cmd_def)
qed

end
