(* ===== verification/Zip_Write.thy ===== *)
theory Zip_Write
  imports Zip_Source Zip_Cdir "HOL-Library.Product_Lexorder"
begin

text \<open>
  The lower half of \<^verbatim>\<open>zip_close.c\<close>: writing the data of one entry to the new archive, from a source that is already
  compressed (\<open>add_data_comp\<close>), from one that is compressed on the way (\<open>add_data_uncomp\<close>), or from the old archive
  (\<open>copy_data\<close>), and the central directory (\<open>write_cdir\<close>).  The results are that each of them comes to an end and appends
  exactly the header and the data of the entry.
\<close>

section \<open>Errors of a source\<close>

definition ch_set_error :: "zip_error \<Rightarrow> 'v callback \<Rightarrow> 'v \<Rightarrow> (zip_error \<times> 'v) call" where
  "ch_set_error err cb ud = bind_call (cb ud ZIP_SOURCE_ERROR 8) (\<lambda>(r, out, ud).
     if r < 8 then Some (Inr (err\<lparr>zip_err := ZIP_ER_INTERNAL, sys_err := 0\<rparr>, ud))
     else case out of PErr a b \<Rightarrow> Some (Inr (err\<lparr>zip_err := a, sys_err := b\<rparr>, ud)) | _ \<Rightarrow> Some (Inl UB))"

text \<open>The first \<open>n\<close> bytes of the buffer after \<open>ZIP_SOURCE_READ\<close> returned \<open>n\<close>.\<close>

definition read_bytes :: "payload \<Rightarrow> int \<Rightarrow> byte list res" where
  "read_bytes out n = (case out of PBytes bs \<Rightarrow> checked (mem_load bs 0 (nat n)) | _ \<Rightarrow> Inl UB)"

section \<open>Data that is compressed already\<close>

record 'v adding =
  ad_ud :: 'v
  ad_st :: zip_stat
  ad_ft :: cfile
  ad_err :: zip_error

partial_function (option) add_data_comp_loop :: "'v callback \<Rightarrow> 'v adding \<Rightarrow> (int \<times> 'v adding) call" where
  "add_data_comp_loop cb s = bind_call (cb (ad_ud s) ZIP_SOURCE_READ BUFSIZE) (\<lambda>(n, out, ud).
     if n > 0 then bind_call (Some (read_bytes out n)) (\<lambda>buf.
       if fst (fwrite buf (ad_ft s)) \<noteq> length buf
       then Some (Inr (-1, s\<lparr>ad_ud := ud, ad_ft := fput buf (ad_ft s),
              ad_err := zip_error_set (ad_err s) ZIP_ER_WRITE (ferrno (fput buf (ad_ft s)))\<rparr>))
       else add_data_comp_loop cb (s\<lparr>ad_ud := ud, ad_ft := fput buf (ad_ft s),
              ad_st := (ad_st s)\<lparr>st_comp_size := st_comp_size (ad_st s) + n\<rparr>\<rparr>))
     else if n < 0 then bind_call (ch_set_error (ad_err s) cb ud) (\<lambda>(err, ud).
       Some (Inr (-1, s\<lparr>ad_ud := ud, ad_err := err\<rparr>)))
     else Some (Inr (0, s\<lparr>ad_ud := ud\<rparr>)))"

declare add_data_comp_loop.simps [code del]

definition add_data_comp :: "'v callback \<Rightarrow> 'v adding \<Rightarrow> (int \<times> 'v adding) call" where
  "add_data_comp cb s = add_data_comp_loop cb (s\<lparr>ad_st := (ad_st s)\<lparr>st_comp_size := 0\<rparr>\<rparr>)"

section \<open>Data that is compressed on the way\<close>

text \<open>\<open>df_in\<close> is \<open>next_in\<close> in the buffer \<open>b1\<close>; the buffer \<open>b2\<close> is emptied in every round.\<close>

record ('v, 's) deflating =
  df_ad :: "'v adding"
  df_in :: "byte list"
  df_zs :: 's
  df_flush :: bool

text \<open>The refill at the head of the loop: \<open>Inl\<close> for a failing source.\<close>

definition deflate_refill ::
  "'s zlib \<Rightarrow> 'v callback \<Rightarrow> ('v, 's) deflating \<Rightarrow> ('v adding + ('v, 's) deflating) call" where
  "deflate_refill z cb d =
     (if df_in d = [] \<and> \<not> df_flush d
      then bind_call (cb (ad_ud (df_ad d)) ZIP_SOURCE_READ BUFSIZE) (\<lambda>(n, out, ud).
        let s = (df_ad d)\<lparr>ad_ud := ud\<rparr> in
        if n < 0 then bind_call (ch_set_error (ad_err s) cb ud) (\<lambda>(err, ud).
          Some (Inr (Inl (s\<lparr>ad_ud := ud, ad_err := err\<rparr>))))
        else if n > 0 then bind_call (Some (read_bytes out n)) (\<lambda>buf.
          Some (Inr (Inr (d\<lparr>df_in := buf, df_ad := s\<lparr>ad_st := (ad_st s)\<lparr>st_size := st_size (ad_st s) + n,
            st_crc := z_crc32 z (st_crc (ad_st s)) buf\<rparr>\<rparr>\<rparr>))))
        else Some (Inr (Inr (d\<lparr>df_flush := True, df_ad := s\<rparr>))))
      else Some (Inr (Inr d)))"

text \<open>The rest of a round: the result of the whole function, or the state of the next round.\<close>

definition deflate_round ::
  "'s zlib \<Rightarrow> ('v, 's) deflating \<Rightarrow> (int \<times> 'v adding) + ('v, 's) deflating" where
  "deflate_round z d = (case z_deflate z (df_zs d) (df_in d) BUFSIZE (df_flush d) of (ret, used, produced, zs) \<Rightarrow>
     let s = df_ad d in
     if ret \<noteq> Z_OK \<and> ret \<noteq> Z_STREAM_END then Inl (-1, s\<lparr>ad_err := zip_error_set (ad_err s) ZIP_ER_ZLIB ret\<rparr>)
     else if fst (fwrite produced (ad_ft s)) \<noteq> length produced
     then Inl (-1, s\<lparr>ad_ft := fput produced (ad_ft s),
                     ad_err := zip_error_set (ad_err s) ZIP_ER_WRITE (ferrno (fput produced (ad_ft s)))\<rparr>)
     else let s = s\<lparr>ad_ft := fput produced (ad_ft s),
                    ad_st := (ad_st s)\<lparr>st_comp_size := st_comp_size (ad_st s) + int (length produced)\<rparr>\<rparr>
          in if ret = Z_STREAM_END then Inl (0, s)
             else Inr (d\<lparr>df_ad := s, df_in := drop used (df_in d), df_zs := zs\<rparr>))"

partial_function (option) deflate_loop ::
  "'s zlib \<Rightarrow> 'v callback \<Rightarrow> ('v, 's) deflating \<Rightarrow> (int \<times> 'v adding) call" where
  "deflate_loop z cb d = bind_call (deflate_refill z cb d) (\<lambda>r.
     case r of Inl s \<Rightarrow> Some (Inr (-1, s))
     | Inr d \<Rightarrow> (case deflate_round z d of Inl y \<Rightarrow> Some (Inr y) | Inr d \<Rightarrow> deflate_loop z cb d))"

declare deflate_loop.simps [code del]

abbreviation (input) MAX_MEM_LEVEL :: int where "MAX_MEM_LEVEL \<equiv> 9"
abbreviation (input) TORRENT_MEM_LEVEL :: int where "TORRENT_MEM_LEVEL \<equiv> 8"

definition add_data_uncomp :: "'s zlib \<Rightarrow> 'u zip \<Rightarrow> 'v callback \<Rightarrow> 'v adding \<Rightarrow> (int \<times> 'v adding) call" where
  "add_data_uncomp z za cb s =
     (let mem_level = (if zip_get_archive_flag za ZIP_AFL_TORRENT 0 \<noteq> 0 then TORRENT_MEM_LEVEL else MAX_MEM_LEVEL)
      in deflate_loop z cb
           \<lparr>df_ad = s\<lparr>ad_st := (ad_st s)\<lparr>st_comp_method := ZIP_CM_DEFLATE, st_comp_size := 0, st_size := 0,
                                           st_crc := z_crc32 z 0 []\<rparr>\<rparr>,
            df_in = [], df_zs = z_deflateInit2 z mem_level, df_flush = False\<rparr>)"

section \<open>One entry\<close>

text \<open>\<open>add_data\<close>: the result, the directory entry, the archive (its error), the stream and the user data.\<close>

definition add_data_header ::
  "clib \<Rightarrow> 'u zip \<Rightarrow> zip_dirent \<Rightarrow> zip_stat \<Rightarrow> zip_dirent" where
  "add_data_header lib za de st =
     (let de = de\<lparr>zde_last_mod := st_mtime st, zde_comp_method := st_comp_method st, zde_crc := st_crc st,
                  zde_uncomp_size := of_int (st_size st), zde_comp_size := of_int (st_comp_size st)\<rparr>
      in if zip_get_archive_flag za ZIP_AFL_TORRENT 0 \<noteq> 0 then zip_dirent_torrent_normalize lib de else de)"

text \<open>The end of \<open>add_data\<close>: back to the header, write it again, forward to the end.\<close>

definition add_data_finish ::
  "clib \<Rightarrow> 'u zip \<Rightarrow> zip_dirent \<Rightarrow> zip_stat \<Rightarrow> nat \<Rightarrow> cfile \<Rightarrow> (int \<times> zip_dirent \<times> 'u zip \<times> cfile) res" where
  "add_data_finish lib za de st offstart ft =
     (let offend = ftello ft; (r, ft) = fseeko ft (int offstart) SEEK_SET in
      if r < 0 then Inr (-1, de, za_set_error za ZIP_ER_SEEK (ferrno ft), ft)
      else let de = add_data_header lib za de st in
      case zip_dirent_write lib de ft True of
        (Inl UB, ft) \<Rightarrow> Inl UB
      | (Inl e, ft) \<Rightarrow> Inr (-1, de, za_fail za e, ft)
      | (Inr _, ft) \<Rightarrow>
          let (r, ft) = fseeko ft (int offend) SEEK_SET in
          if r < 0 then Inr (-1, de, za_set_error za ZIP_ER_SEEK (ferrno ft), ft) else Inr (0, de, za, ft))"

definition source_failed :: "'u zip \<Rightarrow> 'v callback \<Rightarrow> 'v \<Rightarrow> zip_dirent \<Rightarrow> cfile \<Rightarrow> (int \<times> zip_dirent \<times> 'u zip \<times> cfile \<times> 'v) call" where
  "source_failed za cb ud de ft = bind_call (ch_set_error (za_error za) cb ud) (\<lambda>(err, ud).
     Some (Inr (-1, de, za\<lparr>za_error := err\<rparr>, ft, ud)))"

definition add_data ::
  "clib \<Rightarrow> 's zlib \<Rightarrow> 'u zip \<Rightarrow> 'v zip_source \<Rightarrow> zip_dirent \<Rightarrow> cfile \<Rightarrow> (int \<times> zip_dirent \<times> 'u zip \<times> cfile \<times> 'v) call" where
  "add_data lib z za zs de ft = (let cb = src_f zs in
     bind_call (cb (src_ud zs) ZIP_SOURCE_STAT sizeof_stat) (\<lambda>(r, out, ud).
     if r < int sizeof_stat then source_failed za cb ud de ft
     else case out of PStat st \<Rightarrow>
       bind_call (cb ud ZIP_SOURCE_OPEN 0) (\<lambda>(r, _, ud).
       if r < 0 then source_failed za cb ud de ft
       else let offstart = ftello ft in
       case zip_dirent_write lib de ft True of
         (Inl UB, ft) \<Rightarrow> Some (Inl UB)
       | (Inl e, ft) \<Rightarrow> Some (Inr (-1, de, za_fail za e, ft, ud))
       | (Inr _, ft) \<Rightarrow>
           let s = \<lparr>ad_ud = ud, ad_st = st, ad_ft = ft, ad_err = za_error za\<rparr> in
           bind_call (if st_comp_method st \<noteq> ZIP_CM_STORE then add_data_comp cb s else add_data_uncomp z za cb s) (\<lambda>(r, s).
           let za = za\<lparr>za_error := ad_err s\<rparr> in
           if r < 0 then Some (Inr (-1, de, za, ad_ft s, ad_ud s))
           else bind_call (cb (ad_ud s) ZIP_SOURCE_CLOSE 0) (\<lambda>(r, _, ud).
             if r < 0 then source_failed za cb ud de (ad_ft s)
             else Some (bind_res (add_data_finish lib za de (ad_st s) offstart (ad_ft s))
                          (\<lambda>(r, de, za, ft). Inr (r, de, za, ft, ud))))))
     | _ \<Rightarrow> Some (Inl UB)))"

section \<open>Copying from the old archive\<close>

text \<open>The branch for a negative result of \<open>fread\<close> cannot be reached, \<open>fread\<close> returns a \<open>size_t\<close>.\<close>

function copy_data :: "cfile \<Rightarrow> nat \<Rightarrow> cfile \<Rightarrow> unit res \<times> cfile \<times> cfile" where
  "copy_data fs len ft =
     (if len = 0 then (Inr (), fs, ft)
      else case fread (if len > BUFSIZE then BUFSIZE else len) fs of (buf, fs) \<Rightarrow>
        if buf = [] then (Inl (ZE ZIP_ER_EOF 0), fs, ft)
        else if fst (fwrite buf ft) \<noteq> length buf then (Inl (ZE ZIP_ER_WRITE (ferrno (fput buf ft))), fs, fput buf ft)
        else copy_data fs (len - length buf) (fput buf ft))"
  by pat_completeness auto
termination
  by (relation "measure (\<lambda>(fs, len, ft). len)") auto

declare copy_data.simps [simp del]

section \<open>The central directory\<close>

definition hex_digit :: "nat \<Rightarrow> byte" where
  "hex_digit d = of_nat (if d < 10 then 0x30 + d else 0x37 + d)"

text \<open>\<^verbatim>\<open>"%08lX"\<close> of a 32-bit checksum.\<close>

definition hex8 :: "u32 \<Rightarrow> byte list" where
  "hex8 c = map (\<lambda>i. hex_digit (unat (drop_bit (4 * (7 - i)) c AND 15))) [0..<8]"

abbreviation (input) TORRENT_CRC_LEN :: nat where "TORRENT_CRC_LEN \<equiv> 8"

definition write_cdir ::
  "clib \<Rightarrow> 's zlib \<Rightarrow> 'u zip \<Rightarrow> zip_cdir \<Rightarrow> cfile \<Rightarrow> (int \<times> 'u zip) res \<times> cfile" where
  "write_cdir lib z za cd out = (case zip_cdir_write lib cd out of
     (Inl UB, out) \<Rightarrow> (Inl UB, out)
   | (Inl e, out) \<Rightarrow> (Inr (-1, za_fail za e), out)
   | (Inr cd, out) \<Rightarrow>
       if zip_get_archive_flag za ZIP_AFL_TORRENT 0 = 0 then (Inr (0, za), out)
       else let offset = ftello out in
       case zip_filerange_crc z out (unat (cd_offset cd)) (unat (cd_size cd)) of
         (Inl UB, out) \<Rightarrow> (Inl UB, out)
       | (Inl e, out) \<Rightarrow> (Inr (-1, za_fail za e), out)
       | (Inr crc, out) \<Rightarrow>
           let (r, out) = fseeko out (int offset - int TORRENT_CRC_LEN) SEEK_SET in
           if r < 0 then (Inr (-1, za_set_error za ZIP_ER_SEEK (ferrno out)), out)
           else let (n, out) = fwrite (hex8 crc) out in
           if n \<noteq> TORRENT_CRC_LEN then (Inr (-1, za_set_error za ZIP_ER_WRITE (ferrno out)), out)
           else (Inr (0, za), out))"

section \<open>Writing at the end of the file\<close>

lemma fwrite_at_end:
  assumes "at_end ft" and "length (fdata ft) + length bs \<le> fcap ft"
  shows "fst (fwrite bs ft) = length bs"
  using assms by (simp add: fwrite_def at_end_def Let_def)

text \<open>\<open>appended ft bs ft'\<close>: the stream \<open>ft\<close> was at its end, and \<open>bs\<close> has been added.\<close>

definition appended :: "cfile \<Rightarrow> byte list \<Rightarrow> cfile \<Rightarrow> bool" where
  "appended ft bs ft' \<longleftrightarrow> at_end ft \<and> at_end ft' \<and> fdata ft' = fdata ft @ bs \<and> fcap ft' = fcap ft \<and> fgood ft' = fgood ft"

lemma appended_fput:
  assumes "at_end ft" and "length (fdata ft) + length bs \<le> fcap ft"
  shows "appended ft bs (fput bs ft)"
  using assms at_end_fput [OF assms] by (simp add: appended_def fput_at_end)

lemma appended_refl: "at_end ft \<Longrightarrow> appended ft [] ft"
  by (simp add: appended_def)

lemma appended_trans: "appended ft a ft1 \<Longrightarrow> appended ft1 b ft2 \<Longrightarrow> appended ft (a @ b) ft2"
  by (simp add: appended_def)

lemma appended_simps:
  "appended ft bs ft' \<Longrightarrow> at_end ft'" "appended ft bs ft' \<Longrightarrow> fdata ft' = fdata ft @ bs"
  "appended ft bs ft' \<Longrightarrow> fcap ft' = fcap ft" "appended ft bs ft' \<Longrightarrow> ftello ft' = ftello ft + length bs"
  "appended ft bs ft' \<Longrightarrow> ftello ft = length (fdata ft)" "appended ft bs ft' \<Longrightarrow> at_end ft"
  by (simp_all add: appended_def at_end_def ftello_def)

lemma read_bytes_take [simp]: "k \<le> length c \<Longrightarrow> read_bytes (PBytes (take k c)) (int k) = Inr (take k c)"
  by (simp add: read_bytes_def mem_load_def)

context data_source
begin

lemma add_data_comp_loop_all:
  assumes "reading (ad_ud s) c" and "at_end (ad_ft s)" and "length (fdata (ad_ft s)) + length c \<le> fcap (ad_ft s)"
  shows "\<exists>s'. add_data_comp_loop cb s = Some (Inr (0, s')) \<and> reading (ad_ud s') [] \<and> appended (ad_ft s) c (ad_ft s')
     \<and> ad_err s' = ad_err s \<and> ad_st s' = (ad_st s)\<lparr>st_comp_size := st_comp_size (ad_st s) + int (length c)\<rparr>"
  using assms
proof (induction "length c" arbitrary: s c rule: less_induct)
  case less
  show ?case
  proof (cases "c = []")
    case True
    then obtain u' where "cb (ad_ud s) ZIP_SOURCE_READ BUFSIZE = Some (Inr (0, PBytes [], u'))" "reading u' []"
      using read_end [of "ad_ud s" BUFSIZE] less.prems(1) by auto
    then show ?thesis using True less.prems(2) by (subst add_data_comp_loop.simps) (simp add: appended_refl)
  next
    case False
    obtain k u' where k: "cb (ad_ud s) ZIP_SOURCE_READ BUFSIZE = Some (Inr (int k, PBytes (take k c), u'))"
        "reading u' (drop k c)" "0 < k" "k \<le> length c" "length (drop k c) < length c"
      using read_some [OF less.prems(1) False, of BUFSIZE] by auto
    have room: "length (fdata (ad_ft s)) + length (take k c) \<le> fcap (ad_ft s)" using less.prems(3) k(4) by simp
    note w = fwrite_at_end [OF less.prems(2) room]
    note a = appended_fput [OF less.prems(2) room]
    define s1 where "s1 = s\<lparr>ad_ud := u', ad_ft := fput (take k c) (ad_ft s),
      ad_st := (ad_st s)\<lparr>st_comp_size := st_comp_size (ad_st s) + int k\<rparr>\<rparr>"
    have step: "add_data_comp_loop cb s = add_data_comp_loop cb s1"
      using k(1,3,4) w by (subst add_data_comp_loop.simps) (simp add: s1_def)
    have "reading (ad_ud s1) (drop k c)" "at_end (ad_ft s1)"
        "length (fdata (ad_ft s1)) + length (drop k c) \<le> fcap (ad_ft s1)"
      using k(2,4) a less.prems(3) by (simp_all add: s1_def appended_simps)
    from less.hyps [OF k(5) this] obtain s' where s': "add_data_comp_loop cb s1 = Some (Inr (0, s'))"
        "reading (ad_ud s') []" "appended (ad_ft s1) (drop k c) (ad_ft s')" "ad_err s' = ad_err s1"
        "ad_st s' = (ad_st s1)\<lparr>st_comp_size := st_comp_size (ad_st s1) + int (length (drop k c))\<rparr>" by blast
    have "appended (ad_ft s) (take k c @ drop k c) (ad_ft s')"
      by (rule appended_trans [OF a]) (use s'(3) in \<open>simp add: s1_def\<close>)
    then show ?thesis using step s' k(4) by (simp add: s1_def)
  qed
qed

end

text \<open>
  What zlib documents of \<open>deflate\<close>.  \<open>R s i out fl\<close>: the stream in state \<open>s\<close> has taken \<open>i\<close> and given \<open>out\<close>, and \<open>fl\<close>
  says whether \<open>Z_FINISH\<close> has been asked for, which may then not be taken back.  With something to do a call makes progress: it
  takes input, or what is pending (\<open>w\<close>) gets less.  \<open>Z_STREAM_END\<close> means that all input is in the output, as a stream that
  \<open>stream\<close> relates to the data.  \<open>zb\<close> is \<open>deflateBound\<close>.
\<close>

definition deflate_ok ::
  "'s zlib \<Rightarrow> ('s \<Rightarrow> byte list \<Rightarrow> byte list \<Rightarrow> bool \<Rightarrow> bool) \<Rightarrow> ('s \<Rightarrow> nat) \<Rightarrow> (nat \<Rightarrow> nat) \<Rightarrow> (byte list \<Rightarrow> byte list \<Rightarrow> bool) \<Rightarrow> bool"
where
  "deflate_ok z R w zb stream \<longleftrightarrow> mono zb \<and> (\<forall>m. R (z_deflateInit2 z m) [] [] False)
     \<and> (\<forall>s i out fl. R s i out fl \<longrightarrow> length out \<le> zb (length i))
     \<and> (\<forall>i out. stream i out \<longrightarrow> length out \<le> zb (length i))
     \<and> (\<forall>s i out fl inp avail fl' ret used prod s'. R s i out fl \<longrightarrow> (fl \<longrightarrow> fl') \<longrightarrow> 0 < avail \<longrightarrow> inp \<noteq> [] \<or> fl' \<longrightarrow>
          z_deflate z s inp avail fl' = (ret, used, prod, s') \<longrightarrow>
          used \<le> length inp
          \<and> (ret = Z_OK \<and> R s' (i @ take used inp) (out @ prod) fl' \<and> (0 < used \<or> w s' < w s)
             \<or> ret = Z_STREAM_END \<and> fl' \<and> stream (i @ inp) (out @ prod)))"

text \<open>The invariant of the loop: \<open>i\<close> has been taken by zlib, \<open>out\<close> has been written behind \<open>ft0\<close>, \<open>c\<close> is still in the source.\<close>

definition deflate_inv ::
  "'s zlib \<Rightarrow> ('s \<Rightarrow> byte list \<Rightarrow> byte list \<Rightarrow> bool \<Rightarrow> bool) \<Rightarrow> cfile \<Rightarrow> zip_stat \<Rightarrow> zip_error \<Rightarrow> ('v, 's) deflating \<Rightarrow>
   byte list \<Rightarrow> byte list \<Rightarrow> byte list \<Rightarrow> bool" where
  "deflate_inv z R ft0 st0 err d i out c \<longleftrightarrow>
     (\<exists>fl. R (df_zs d) i out fl \<and> (fl \<longrightarrow> df_flush d)) \<and> (df_flush d \<longrightarrow> df_in d = [] \<and> c = [])
     \<and> appended ft0 out (ad_ft (df_ad d)) \<and> ad_err (df_ad d) = err
     \<and> ad_st (df_ad d) = st0\<lparr>st_size := int (length (i @ df_in d)), st_comp_size := int (length out),
          st_crc := z_crc32 z (z_crc32 z 0 []) (i @ df_in d)\<rparr>"

text \<open>What the loop leaves behind.\<close>

definition deflated :: "'s zlib \<Rightarrow> (byte list \<Rightarrow> byte list \<Rightarrow> bool) \<Rightarrow> cfile \<Rightarrow> zip_stat \<Rightarrow> zip_error \<Rightarrow> byte list \<Rightarrow> 'v adding \<Rightarrow> bool" where
  "deflated z stream ft0 st0 err c s \<longleftrightarrow> (\<exists>out. stream c out \<and> appended ft0 out (ad_ft s) \<and> ad_err s = err
     \<and> ad_st s = st0\<lparr>st_size := int (length c), st_comp_size := int (length out), st_crc := z_crc32 z (z_crc32 z 0 []) c\<rparr>)"

lemma deflate_round_ok:
  assumes ok: "deflate_ok z R w zb stream" and inv: "deflate_inv z R ft0 st0 err d i out c"
    and room: "length (fdata ft0) + zb (length (i @ df_in d @ c)) \<le> fcap ft0" and todo: "df_in d \<noteq> [] \<or> df_flush d"
  shows "(\<exists>s. deflate_round z d = Inl (0, s) \<and> deflated z stream ft0 st0 err (i @ df_in d @ c) s \<and> ad_ud s = ad_ud (df_ad d))
    \<or> (\<exists>d' k out'. deflate_round z d = Inr d' \<and> deflate_inv z R ft0 st0 err d' (i @ take k (df_in d)) out' c \<and>
          df_in d' = drop k (df_in d) \<and> k \<le> length (df_in d) \<and> (0 < k \<or> w (df_zs d') < w (df_zs d))
          \<and> ad_ud (df_ad d') = ad_ud (df_ad d))"
proof -
  obtain ret used prod zs where df: "z_deflate z (df_zs d) (df_in d) BUFSIZE (df_flush d) = (ret, used, prod, zs)"
    by (metis prod_cases4)
  let ?ft = "ad_ft (df_ad d)"
  obtain fl0 where R: "R (df_zs d) i out fl0" "fl0 \<Longrightarrow> df_flush d" and a: "appended ft0 out ?ft"
    and fl: "df_flush d \<Longrightarrow> df_in d = [] \<and> c = []" using inv by (auto simp: deflate_inv_def)
  have used: "used \<le> length (df_in d)"
    and cases: "ret = Z_OK \<and> R zs (i @ take used (df_in d)) (out @ prod) (df_flush d) \<and> (0 < used \<or> w zs < w (df_zs d))
      \<or> ret = Z_STREAM_END \<and> df_flush d \<and> stream (i @ df_in d) (out @ prod)"
    using ok R df todo unfolding deflate_ok_def by (metis zero_less_numeral)+
  have "length (out @ prod) \<le> zb (length (i @ df_in d))"
  proof -
    have "length (out @ prod) \<le> zb (length (i @ take used (df_in d))) \<or> length (out @ prod) \<le> zb (length (i @ df_in d))"
      using ok cases unfolding deflate_ok_def by metis
    moreover have "zb (length (i @ take used (df_in d))) \<le> zb (length (i @ df_in d))"
      using ok used unfolding deflate_ok_def by (intro monoD [of zb]) simp_all
    ultimately show ?thesis by linarith
  qed
  moreover have "zb (length (i @ df_in d)) \<le> zb (length (i @ df_in d @ c))"
    using ok unfolding deflate_ok_def by (intro monoD [of zb]) simp_all
  ultimately have "length (fdata ft0) + length (out @ prod) \<le> fcap ft0" using room by linarith
  then have r: "length (fdata ?ft) + length prod \<le> fcap ?ft" using a by (simp add: appended_simps)
  note e = appended_simps(1) [OF a]
  note w = fwrite_at_end [OF e r] and a' = appended_trans [OF a appended_fput [OF e r]]
  let ?s = "(df_ad d)\<lparr>ad_ft := fput prod ?ft,
    ad_st := (ad_st (df_ad d))\<lparr>st_comp_size := st_comp_size (ad_st (df_ad d)) + int (length prod)\<rparr>\<rparr>"
  from cases show ?thesis
  proof
    let ?d = "d\<lparr>df_ad := ?s, df_in := drop used (df_in d), df_zs := zs\<rparr>"
    assume 1: "ret = Z_OK \<and> R zs (i @ take used (df_in d)) (out @ prod) (df_flush d) \<and> (0 < used \<or> w zs < w (df_zs d))"
    then have "deflate_round z d = Inr ?d" using df w by (simp add: deflate_round_def Let_def)
    moreover have "deflate_inv z R ft0 st0 err ?d (i @ take used (df_in d)) (out @ prod) c"
      using 1 a' used inv fl by (auto simp: deflate_inv_def)
    ultimately show ?thesis using 1 used by (intro disjI2 exI [of _ ?d] exI [of _ used] exI [of _ "out @ prod"]) simp
  next
    assume "ret = Z_STREAM_END \<and> df_flush d \<and> stream (i @ df_in d) (out @ prod)"
    then show ?thesis using df w a' inv fl
      by (intro disjI1) (auto simp: deflate_round_def deflate_inv_def deflated_def Let_def)
  qed
qed

context data_source
begin

lemma deflate_refill_ok:
  assumes inv: "deflate_inv z R ft0 st0 err d i out c" and rd: "reading (ad_ud (df_ad d)) c" and crc: "crc_running z"
  shows "\<exists>d' k. deflate_refill z cb d = Some (Inr (Inr d')) \<and> deflate_inv z R ft0 st0 err d' i out (drop k c)
     \<and> reading (ad_ud (df_ad d')) (drop k c) \<and> df_in d' = df_in d @ take k c \<and> df_zs d' = df_zs d \<and> (df_in d' \<noteq> [] \<or> df_flush d')"
proof (cases "df_in d = [] \<and> \<not> df_flush d")
  case False
  then show ?thesis using inv rd by (intro exI [of _ d] exI [of _ 0]) (auto simp: deflate_refill_def)
next
  case True
  show ?thesis
  proof (cases "c = []")
    case c: True
    obtain u' where u': "cb (ad_ud (df_ad d)) ZIP_SOURCE_READ BUFSIZE = Some (Inr (0, PBytes [], u'))" "reading u' []"
      using read_end [of "ad_ud (df_ad d)" BUFSIZE] rd c by auto
    let ?d = "d\<lparr>df_flush := True, df_ad := (df_ad d)\<lparr>ad_ud := u'\<rparr>\<rparr>"
    show ?thesis using True c inv u' by (intro exI [of _ ?d] exI [of _ 0]) (auto simp: deflate_refill_def deflate_inv_def)
  next
    case False
    obtain k u' where k: "cb (ad_ud (df_ad d)) ZIP_SOURCE_READ BUFSIZE = Some (Inr (int k, PBytes (take k c), u'))"
        "reading u' (drop k c)" "0 < k" "k \<le> length c"
      using read_some [OF rd False, of BUFSIZE] by auto
    have cr: "z_crc32 z x (i @ take k c) = z_crc32 z (z_crc32 z x i) (take k c)" for x
      using crc by (simp add: crc_running_def)
    have "take k c \<noteq> []" using False k(3) by simp
    then show ?thesis using True inv k
      by (simp add: deflate_refill_def deflate_inv_def Let_def cr min_absorb1) (intro exI [of _ k], simp)
  qed
qed

lemma deflate_loop_all:
  assumes ok: "deflate_ok z R w zb stream" and crc: "crc_running z"
    and "deflate_inv z R ft0 st0 err d i out c" and "reading (ad_ud (df_ad d)) c"
    and "length (fdata ft0) + zb (length (i @ df_in d @ c)) \<le> fcap ft0"
  shows "\<exists>s. deflate_loop z cb d = Some (Inr (0, s)) \<and> deflated z stream ft0 st0 err (i @ df_in d @ c) s
     \<and> (\<exists>c'. reading (ad_ud s) c')"
  using assms(3-5)
proof (induction "(length (df_in d @ c), w (df_zs d))" arbitrary: d i out c rule: less_induct)
  case less
  obtain d1 k where 1: "deflate_refill z cb d = Some (Inr (Inr d1))" "deflate_inv z R ft0 st0 err d1 i out (drop k c)"
      "reading (ad_ud (df_ad d1)) (drop k c)" "df_in d1 = df_in d @ take k c" "df_zs d1 = df_zs d"
      "df_in d1 \<noteq> [] \<or> df_flush d1"
    using deflate_refill_ok [OF less.prems(1,2) crc] by blast
  have tot: "i @ df_in d1 @ drop k c = i @ df_in d @ c" using 1(4) by simp
  from deflate_round_ok [OF ok 1(2) _ 1(6)] less.prems(3) tot consider
    (stop) s where "deflate_round z d1 = Inl (0, s)" "deflated z stream ft0 st0 err (i @ df_in d @ c) s"
      "ad_ud s = ad_ud (df_ad d1)"
  | (go) d2 j out' where "deflate_round z d1 = Inr d2" "deflate_inv z R ft0 st0 err d2 (i @ take j (df_in d1)) out' (drop k c)"
      "df_in d2 = drop j (df_in d1)" "j \<le> length (df_in d1)" "0 < j \<or> w (df_zs d2) < w (df_zs d1)"
      "ad_ud (df_ad d2) = ad_ud (df_ad d1)"
    by metis
  then show ?case
  proof cases
    case stop
    then show ?thesis using 1(1,3) by (subst deflate_loop.simps) auto
  next
    case go
    have step: "deflate_loop z cb d = deflate_loop z cb d2"
      using 1(1) go(1) by (subst deflate_loop.simps) simp
    have tot': "(i @ take j (df_in d1)) @ df_in d2 @ drop k c = i @ df_in d @ c"
      by (simp add: go(3) flip: tot)
    have len: "length (df_in d1 @ drop k c) = length (df_in d @ c)" using arg_cong [OF tot, of length] by simp
    have "(length (df_in d2 @ drop k c), w (df_zs d2)) < (length (df_in d @ c), w (df_zs d))"
      using go(3,4,5) 1(5) len by auto
    from less.hyps [OF this go(2)] show ?thesis
      using less.prems(3) 1(3) go(6) unfolding step tot' by simp
  qed
qed

end

section \<open>One entry from a source\<close>

text \<open>The strings of an entry are in order, and there is no extra field: the entries that \<open>_zip_dirent_init\<close> starts.\<close>

definition dirent_plain :: "zip_dirent \<Rightarrow> bool" where
  "dirent_plain de \<longleftrightarrow> str_wf True (zde_filename de) (zde_filename_len de)
     \<and> zde_extrafield de = None \<and> zde_extrafield_len de = 0 \<and> zde_comment de = None \<and> zde_comment_len de = 0"

lemma dirent_plain_write:
  assumes "dirent_plain de"
  shows "zip_dirent_write lib de fp True = (let fp' = fput (dirent_bytes lib de True) fp
     in (if ferr fp' then Inl (ZE ZIP_ER_WRITE (ferrno fp')) else Inr (), fp'))"
proof -
  have "fput_ptr None 0 g = Inr g" for g by (simp add: fput_ptr_def)
  then show ?thesis
    using assms by (simp add: zip_dirent_write_def dirent_plain_def Let_def dirent_write_head_bytes fput_ptr_wf [of True]
        fput_append dirent_bytes_def)
qed

lemma dirent_plain_length: "dirent_plain de \<Longrightarrow> length (dirent_bytes lib de True) = 30 + unat (zde_filename_len de)"
  by (simp add: dirent_bytes_def dirent_plain_def length_ptr_bytes [of True])

lemma dirent_plain_write_end:
  assumes "dirent_plain de" and "at_end ft" and "length (fdata ft) + 30 + unat (zde_filename_len de) \<le> fcap ft"
  shows "zip_dirent_write lib de ft True = (Inr (), fput (dirent_bytes lib de True) ft)"
    and "appended ft (dirent_bytes lib de True) (fput (dirent_bytes lib de True) ft)"
proof -
  have room: "length (fdata ft) + length (dirent_bytes lib de True) \<le> fcap ft"
    using assms(3) by (simp add: dirent_plain_length [OF assms(1)])
  from appended_fput [OF assms(2) room] show a: "appended ft (dirent_bytes lib de True) (fput (dirent_bytes lib de True) ft)" .
  show "zip_dirent_write lib de ft True = (Inr (), fput (dirent_bytes lib de True) ft)"
    using appended_simps(1) [OF a] by (simp add: dirent_plain_write [OF assms(1)] at_end_def)
qed

lemma dirent_plain_header: "dirent_plain de \<Longrightarrow> dirent_plain (add_data_header lib za de st)"
  by (simp add: dirent_plain_def add_data_header_def zip_dirent_torrent_normalize_def Let_def)

lemma add_data_header_name [simp]:
  "zde_filename (add_data_header lib za de st) = zde_filename de"
  "zde_filename_len (add_data_header lib za de st) = zde_filename_len de"
  by (simp_all add: add_data_header_def zip_dirent_torrent_normalize_def Let_def)

text \<open>Going back and writing a header of the same length over the first one leaves the data in place.\<close>

lemma rewrite_header:
  assumes a: "appended ft (h0 @ data) ft1" and "length h1 = length h0" and "h1 \<noteq> []" and "length (fdata ft1) \<le> fcap ft1"
  shows "fput h1 (ft1\<lparr>fpos := length (fdata ft)\<rparr>)
     = ft1\<lparr>fdata := fdata ft @ h1 @ data, fpos := length (fdata ft) + length h1\<rparr>"
proof -
  have d: "fdata ft1 = fdata ft @ h0 @ data" using a by (simp add: appended_def)
  have "fput h1 (ft1\<lparr>fpos := length (fdata ft)\<rparr>) = (ft1\<lparr>fpos := length (fdata ft)\<rparr>)\<lparr>
      fdata := take (length (fdata ft)) (fdata ft1) @ replicate (length (fdata ft) - length (fdata ft1)) 0 @ h1
        @ drop (length (fdata ft) + length h1) (fdata ft1), fpos := length (fdata ft) + length h1\<rparr>"
    using assms(2-4) by (subst fput_fits) (simp_all add: d)
  then show ?thesis using assms(2) by (simp add: d)
qed

lemma add_data_finish_ok:
  assumes a: "appended ft (dirent_bytes lib de True @ data) ft1" and de: "dirent_plain de"
    and fits: "length (fdata ft1) \<le> fcap ft1"
  shows "\<exists>ft'. add_data_finish lib za de st (length (fdata ft)) ft1 = Inr (0, add_data_header lib za de st, za, ft')
     \<and> appended ft (dirent_bytes lib (add_data_header lib za de st) True @ data) ft'"
proof -
  let ?de = "add_data_header lib za de st"
  let ?h = "dirent_bytes lib ?de True"
  have len: "length ?h = length (dirent_bytes lib de True)"
    by (simp add: dirent_plain_length [OF de] dirent_plain_length [OF dirent_plain_header [OF de]])
  have ne: "?h \<noteq> []" using dirent_plain_length [OF dirent_plain_header [OF de, of lib za st], of lib] by auto
  note rw = rewrite_header [OF a len ne fits]
  have e: "at_end ft1" "at_end ft" "fdata ft1 = fdata ft @ dirent_bytes lib de True @ data"
    using a by (simp_all add: appended_def)
  have w: "zip_dirent_write lib ?de (ft1\<lparr>fpos := length (fdata ft)\<rparr>) True =
      (Inr (), ft1\<lparr>fdata := fdata ft @ ?h @ data, fpos := length (fdata ft) + length ?h\<rparr>)"
    using e(1) by (simp add: dirent_plain_write [OF dirent_plain_header [OF de]] rw at_end_def)
  let ?ft = "ft1\<lparr>fdata := fdata ft @ ?h @ data, fpos := length (fdata ft1)\<rparr>"
  have "add_data_finish lib za de st (length (fdata ft)) ft1 = Inr (0, ?de, za, ?ft)"
    using e(1) by (simp add: add_data_finish_def fseeko_def ftello_def w at_end_def Let_def)
  moreover have "appended ft (?h @ data) ?ft"
    using a len by (auto simp: appended_def at_end_def)
  ultimately show ?thesis by blast
qed

context data_source
begin

lemma add_data_frame:
  assumes "closed u c st" and de: "dirent_plain de" and e: "at_end ft"
    and room: "length (fdata ft) + 30 + unat (zde_filename_len de) + n \<le> fcap ft"
    and body: "\<And>ud ft1. reading ud c \<Longrightarrow> at_end ft1 \<Longrightarrow> length (fdata ft1) + n \<le> fcap ft1 \<Longrightarrow>
      \<exists>s out c'. (let s = \<lparr>ad_ud = ud, ad_st = st, ad_ft = ft1, ad_err = za_error za\<rparr> in
          if st_comp_method st \<noteq> ZIP_CM_STORE then add_data_comp cb s else add_data_uncomp z za cb s) = Some (Inr (0, s))
        \<and> appended ft1 out (ad_ft s) \<and> length out \<le> n \<and> ad_err s = za_error za \<and> reading (ad_ud s) c' \<and> Q (ad_st s) out"
  shows "\<exists>st' out ft' ud'. add_data lib z za \<lparr>src_f = cb, src_ud = u\<rparr> de ft
        = Some (Inr (0, add_data_header lib za de st', za, ft', ud'))
     \<and> appended ft (dirent_bytes lib (add_data_header lib za de st') True @ out) ft' \<and> length out \<le> n \<and> Q st' out
     \<and> finished ud'"
proof -
  obtain u1 where 1: "cb u ZIP_SOURCE_STAT sizeof_stat = Some (Inr (int sizeof_stat, PStat st, u1))" "closed u1 c st"
    using stat_call [OF assms(1)] by blast
  obtain u2 where 2: "cb u1 ZIP_SOURCE_OPEN 0 = Some (Inr (0, PNone, u2))" "reading u2 c"
    using open_call [OF 1(2)] by blast
  let ?h = "dirent_bytes lib de True"
  have room': "length (fdata ft) + 30 + unat (zde_filename_len de) \<le> fcap ft" using room by simp
  note w = dirent_plain_write_end [OF de e room', of lib]
  have r: "length (fdata (fput ?h ft)) + n \<le> fcap (fput ?h ft)"
    using appended_simps(2) [OF w(2)] room dirent_plain_length [OF de, of lib] by simp
  obtain s out c' where 3: "(let s = \<lparr>ad_ud = u2, ad_st = st, ad_ft = fput ?h ft, ad_err = za_error za\<rparr> in
        if st_comp_method st \<noteq> ZIP_CM_STORE then add_data_comp cb s else add_data_uncomp z za cb s) = Some (Inr (0, s))"
      "appended (fput ?h ft) out (ad_ft s)" "length out \<le> n" "ad_err s = za_error za" "reading (ad_ud s) c'" "Q (ad_st s) out"
    using body [OF 2(2) appended_simps(1) [OF w(2)] r] by blast
  obtain u4 where 4: "cb (ad_ud s) ZIP_SOURCE_CLOSE 0 = Some (Inr (0, PNone, u4))" "finished u4" using close_call [OF 3(5)] by blast
  note a = appended_trans [OF w(2) 3(2)]
  have fits: "length (fdata (ad_ft s)) \<le> fcap (ad_ft s)"
    using r 3(3) by (simp add: appended_simps [OF 3(2)])
  obtain ft' where 5: "add_data_finish lib za de (ad_st s) (length (fdata ft)) (ad_ft s)
        = Inr (0, add_data_header lib za de (ad_st s), za, ft')"
      "appended ft (dirent_bytes lib (add_data_header lib za de (ad_st s)) True @ out) ft'"
    using add_data_finish_ok [OF a de fits] by blast
  have "add_data lib z za \<lparr>src_f = cb, src_ud = u\<rparr> de ft = Some (Inr (0, add_data_header lib za de (ad_st s), za, ft', u4))"
    using 1(1) 2(1) w(1) 3(1,4) 4(1) 5(1) appended_simps(5) [OF w(2)] by (simp add: add_data_def Let_def)
  then show ?thesis using 5(2) 3(3,6) 4(2) by blast
qed

lemma add_data_deflates:
  assumes "closed u c st" and "dirent_plain de" and "at_end ft" and "st_comp_method st = ZIP_CM_STORE"
    and ok: "deflate_ok z R w zb stream" and crc: "crc_running z"
    and "length (fdata ft) + 30 + unat (zde_filename_len de) + zb (length c) \<le> fcap ft"
  shows "\<exists>out ft' ud'. let de' = add_data_header lib za de (st\<lparr>st_comp_method := ZIP_CM_DEFLATE, st_size := int (length c),
        st_comp_size := int (length out), st_crc := z_crc32 z (z_crc32 z 0 []) c\<rparr>)
     in add_data lib z za \<lparr>src_f = cb, src_ud = u\<rparr> de ft = Some (Inr (0, de', za, ft', ud'))
     \<and> appended ft (dirent_bytes lib de' True @ out) ft' \<and> stream c out \<and> finished ud'"
proof -
  let ?st = "\<lambda>out :: byte list. st\<lparr>st_comp_method := ZIP_CM_DEFLATE, st_size := int (length c),
        st_comp_size := int (length out), st_crc := z_crc32 z (z_crc32 z 0 []) c\<rparr>"
  let ?init = "st\<lparr>st_comp_method := ZIP_CM_DEFLATE, st_comp_size := 0, st_size := 0, st_crc := z_crc32 z 0 []\<rparr>"
  have "\<exists>s out c'. (let s = \<lparr>ad_ud = ud, ad_st = st, ad_ft = ft1, ad_err = za_error za\<rparr> in
          if st_comp_method st \<noteq> ZIP_CM_STORE then add_data_comp cb s else add_data_uncomp z za cb s) = Some (Inr (0, s))
        \<and> appended ft1 out (ad_ft s) \<and> length out \<le> zb (length c) \<and> ad_err s = za_error za \<and> reading (ad_ud s) c'
        \<and> (ad_st s = ?st out \<and> stream c out)"
    if rd: "reading ud c" and e: "at_end ft1" and room: "length (fdata ft1) + zb (length c) \<le> fcap ft1" for ud ft1
  proof -
    define m where "m = (if zip_get_archive_flag za ZIP_AFL_TORRENT 0 \<noteq> 0 then TORRENT_MEM_LEVEL else MAX_MEM_LEVEL)"
    let ?d = "\<lparr>df_ad = \<lparr>ad_ud = ud, ad_st = ?init, ad_ft = ft1, ad_err = za_error za\<rparr>, df_in = [],
       df_zs = z_deflateInit2 z m, df_flush = False\<rparr>"
    have "R (z_deflateInit2 z m) [] [] False" using ok unfolding deflate_ok_def by blast
    then have "deflate_inv z R ft1 ?init (za_error za) ?d [] [] c"
      using e crc by (auto simp: deflate_inv_def appended_refl crc_running_def)
    from deflate_loop_all [OF ok crc this] rd room obtain s where
      s: "deflate_loop z cb ?d = Some (Inr (0, s))" "deflated z stream ft1 ?init (za_error za) c s" "\<exists>c'. reading (ad_ud s) c'"
      by auto
    have "(let s = \<lparr>ad_ud = ud, ad_st = st, ad_ft = ft1, ad_err = za_error za\<rparr> in
          if st_comp_method st \<noteq> ZIP_CM_STORE then add_data_comp cb s else add_data_uncomp z za cb s) = Some (Inr (0, s))"
      using s(1) assms(4) by (simp add: add_data_uncomp_def m_def Let_def)
    moreover obtain out where "stream c out" "appended ft1 out (ad_ft s)" "ad_err s = za_error za" "ad_st s = ?st out"
      using s(2) by (auto simp: deflated_def)
    moreover from this(1) have "length out \<le> zb (length c)" using ok unfolding deflate_ok_def by blast
    ultimately show ?thesis using s(3) by blast
  qed
  from add_data_frame [where Q = "\<lambda>st' out. st' = ?st out \<and> stream c out", OF assms(1-3,7) this]
  show ?thesis by (fastforce simp: Let_def)
qed

lemma add_data_copies:
  assumes "closed u c st" and "dirent_plain de" and "at_end ft" and "st_comp_method st \<noteq> ZIP_CM_STORE"
    and "length (fdata ft) + 30 + unat (zde_filename_len de) + length c \<le> fcap ft"
  shows "\<exists>ft' ud'. let de' = add_data_header lib za de (st\<lparr>st_comp_size := int (length c)\<rparr>)
     in add_data lib z za \<lparr>src_f = cb, src_ud = u\<rparr> de ft = Some (Inr (0, de', za, ft', ud'))
     \<and> appended ft (dirent_bytes lib de' True @ c) ft' \<and> finished ud'"
proof -
  have "\<exists>s out c'. (let s = \<lparr>ad_ud = ud, ad_st = st, ad_ft = ft1, ad_err = za_error za\<rparr> in
          if st_comp_method st \<noteq> ZIP_CM_STORE then add_data_comp cb s else add_data_uncomp z za cb s) = Some (Inr (0, s))
        \<and> appended ft1 out (ad_ft s) \<and> length out \<le> length c \<and> ad_err s = za_error za \<and> reading (ad_ud s) c'
        \<and> (ad_st s = st\<lparr>st_comp_size := int (length c)\<rparr> \<and> out = c)"
    if rd: "reading ud c" and e: "at_end ft1" and room: "length (fdata ft1) + length c \<le> fcap ft1" for ud ft1
  proof -
    let ?s = "\<lparr>ad_ud = ud, ad_st = st\<lparr>st_comp_size := 0\<rparr>, ad_ft = ft1, ad_err = za_error za\<rparr>"
    show ?thesis using add_data_comp_loop_all [of ?s c] rd e room assms(4) by (auto simp: add_data_comp_def Let_def)
  qed
  from add_data_frame [where Q = "\<lambda>st' out. st' = st\<lparr>st_comp_size := int (length c)\<rparr> \<and> out = c", OF assms(1-3,5) this]
  show ?thesis by (fastforce simp: Let_def)
qed

end

section \<open>Copying\<close>

lemma copy_data_ok:
  assumes "stream_holds fs data" and "at_end ft" and "length (fdata ft) + length data \<le> fcap ft"
  shows "\<exists>ft'. copy_data fs (length data) ft = (Inr (), advance (length data) fs, ft') \<and> appended ft data ft'"
  using assms
proof (induction "length data" arbitrary: fs data ft rule: less_induct)
  case less
  show ?case
  proof (cases "data = []")
    case True
    then show ?thesis using less.prems(2) by (subst copy_data.simps) (simp add: appended_refl)
  next
    case False
    define k where "k = (if length data > BUFSIZE then BUFSIZE else length data)"
    have k: "0 < k" "k \<le> length data" using False by (auto simp: k_def)
    let ?a = "take k data" and ?b = "drop k data"
    have la: "length ?a = k" using k(2) by simp
    have h: "stream_holds fs (?a @ ?b)" using less.prems(1) by simp
    note f = fread_holds [OF h, unfolded la]
    have room: "length (fdata ft) + length ?a \<le> fcap ft" using less.prems(3) la k(2) by simp
    note a = appended_fput [OF less.prems(2) room] and w = fwrite_at_end [OF less.prems(2) room]
    have step: "copy_data fs (length data) ft = copy_data (advance k fs) (length ?b) (fput ?a ft)"
      using False k f(1) w la by (subst copy_data.simps) (simp flip: k_def)
    obtain ft' where "copy_data (advance k fs) (length ?b) (fput ?a ft) = (Inr (), advance (length ?b) (advance k fs), ft')"
        "appended (fput ?a ft) ?b ft'"
      using less.hyps [of ?b, OF _ f(2) appended_simps(1) [OF a]] k less.prems(3) la False
      by (auto simp: appended_simps [OF a] diff_less)
    then show ?thesis using step k(2) appended_trans [OF a, of ?b ft'] by simp
  qed
qed

end
