(* ===== verification/Zip_Close.thy ===== *)
theory Zip_Close
  imports Zip_Write
begin

text \<open>
  Closing an archive (\<^verbatim>\<open>zip_close.c\<close>, \<^verbatim>\<open>zip_free.c\<close>): the changes are written to a temporary file, which then takes the
  place of the archive.  The results are that a failing \<open>zip_close\<close> leaves the file system as it was, and that after a successful
  one the archive file holds exactly the surviving entries, where the reader finds them.
\<close>

section \<open>The file system\<close>

text \<open>
  The contents of the files by their paths, and the outcome of the calls that may fail: the value of \<^verbatim>\<open>errno\<close>, or
  \<open>None\<close>.  \<open>fs_mkstemp\<close> gives the name made from a template.  \<open>fs_cap\<close> and \<open>fs_good\<close> are the limits of the device for
  the new file.
\<close>

record fsys =
  fs_files :: "byte list \<Rightarrow> byte list option"
  fs_remove :: "byte list \<Rightarrow> int option"
  fs_rename :: "byte list \<Rightarrow> byte list \<Rightarrow> int option"
  fs_mkstemp :: "byte list \<Rightarrow> int + byte list"
  fs_fdopen :: "byte list \<Rightarrow> int option"
  fs_fclose :: "byte list \<Rightarrow> int option"
  fs_fopen :: "byte list \<Rightarrow> int option"
  fs_cap :: nat
  fs_good :: nat

definition os_remove :: "fsys \<Rightarrow> byte list \<Rightarrow> int option \<times> fsys" where
  "os_remove fs path = (case fs_remove fs path of
     Some e \<Rightarrow> (Some e, fs) | None \<Rightarrow> (None, fs\<lparr>fs_files := (fs_files fs)(path := None)\<rparr>))"

definition os_rename :: "fsys \<Rightarrow> byte list \<Rightarrow> byte list \<Rightarrow> int option \<times> fsys" where
  "os_rename fs old new = (case fs_rename fs old new of
     Some e \<Rightarrow> (Some e, fs)
   | None \<Rightarrow> (None, fs\<lparr>fs_files := (fs_files fs)(new := fs_files fs old, old := None)\<rparr>))"

definition os_new_file :: "fsys \<Rightarrow> cfile" where
  "os_new_file fs = \<lparr>fdata = [], fpos = 0, ferr = False, fgood = fs_good fs, fcap = fs_cap fs, ferrno = 0\<rparr>"

text \<open>\<^verbatim>\<open>fopen(path, "rb")\<close>.\<close>

definition os_fopen_rb :: "fsys \<Rightarrow> byte list \<Rightarrow> cfile option" where
  "os_fopen_rb fs path =
     (if fs_fopen fs path \<noteq> None then None else map_option (\<lambda>d. (os_new_file fs)\<lparr>fdata := d\<rparr>) (fs_files fs path))"

text \<open>\<^verbatim>\<open>fclose\<close> writes what is buffered.\<close>

definition os_fclose_out :: "fsys \<Rightarrow> byte list \<Rightarrow> cfile \<Rightarrow> int option \<times> fsys" where
  "os_fclose_out fs path out = (fs_fclose fs path, fs\<lparr>fs_files := (fs_files fs)(path \<mapsto> fdata out)\<rparr>)"

section \<open>Releasing an archive\<close>

fun free_entries :: "'u zip_entry list \<Rightarrow> unit call" where
  "free_entries [] = Some (Inr ())"
| "free_entries (e # es) = bind_call (zip_source_free (ze_source e)) (\<lambda>_. free_entries es)"

text \<open>\<open>_zip_free\<close>: the sources of the entries release their data; \<open>orphan\<close> is what it does to an open file, which loses
  its archive.\<close>

definition zip_free :: "'u zip \<Rightarrow> unit call" where
  "zip_free za = (if za_entry_lost za then Some (Inr ()) else free_entries (za_entry za))"

definition orphan :: "'u zip \<Rightarrow> 's zip_file \<Rightarrow> 's zip_file" where
  "orphan za zf =
     (if zf_id zf \<in> set (za_file za) \<and> zip_err (zf_error zf) = ZIP_ER_OK then zf_set_error zf ZIP_ER_ZIPCLOSED 0 else zf)"

section \<open>The new directory\<close>

abbreviation (input) TORRENT_SIG :: "byte list" where
  "TORRENT_SIG \<equiv> [0x54, 0x4f, 0x52, 0x52, 0x45, 0x4e, 0x54, 0x5a, 0x49, 0x50, 0x50, 0x45, 0x44, 0x2d]"

text \<open>A copy made by \<open>_zip_memdup\<close> for the comment of the directory; \<open>None\<close> when it fails.\<close>

definition set_comment :: "clib \<Rightarrow> 'u zip \<Rightarrow> zip_cdir \<Rightarrow> byte list option \<Rightarrow> nat \<Rightarrow> u16 \<Rightarrow> (zip_cdir option) res \<times> 'u zip" where
  "set_comment lib za cd mem len n = (case zip_memdup lib mem len of
     Inl UB \<Rightarrow> (Inl UB, za)
   | Inl e \<Rightarrow> (Inr None, za_fail za e)
   | Inr c \<Rightarrow> (Inr (Some (cd\<lparr>cd_comment := Some c, cd_comment_len := n\<rparr>)), za))"

definition zip_cdir_set_comment :: "clib \<Rightarrow> zip_cdir \<Rightarrow> 'u zip \<Rightarrow> (zip_cdir option) res \<times> 'u zip" where
  "zip_cdir_set_comment lib dest src =
     (if za_ch_comment_len src \<noteq> -1
      then set_comment lib src dest (za_ch_comment src) (nat (za_ch_comment_len src)) (of_int (za_ch_comment_len src))
      else case za_cdir src of
        Some cd \<Rightarrow> if cd_comment cd \<noteq> None
          then set_comment lib src dest (cd_comment cd) (unat (cd_comment_len cd)) (cd_comment_len cd)
          else (Inr (Some dest), src)
      | None \<Rightarrow> (Inr (Some dest), src))"

text \<open>The archive comment is special for torrentzip.\<close>

definition close_comment :: "clib \<Rightarrow> 'u zip \<Rightarrow> zip_cdir \<Rightarrow> (zip_cdir option) res \<times> 'u zip" where
  "close_comment lib za cd =
     (if zip_get_archive_flag za ZIP_AFL_TORRENT 0 \<noteq> 0
      then set_comment lib za cd (Some (TORRENT_SIG @ replicate 8 0x58)) 22 22
      else if zip_get_archive_flag za ZIP_AFL_TORRENT ZIP_FL_UNCHANGED = 0 then zip_cdir_set_comment lib cd za
      else (Inr (Some cd), za))"

definition zip_create_temp_output ::
  "clib \<Rightarrow> fsys \<Rightarrow> 'u zip \<Rightarrow> ((byte list \<times> cfile) option) res \<times> fsys \<times> 'u zip" where
  "zip_create_temp_output lib fs za = (case za_zn za of
     None \<Rightarrow> (Inl UB, fs, za)
   | Some zn \<Rightarrow>
     if \<not> malloc_ok lib ''char'' (length zn + 8) then (Inr None, fs, za_set_error za ZIP_ER_MEMORY 0)
     else case fs_mkstemp fs (zn @ [0x2e, 0x58, 0x58, 0x58, 0x58, 0x58, 0x58]) of
       Inl e \<Rightarrow> (Inr None, fs, za_set_error za ZIP_ER_TMPOPEN e)
     | Inr temp \<Rightarrow>
       let fs = fs\<lparr>fs_files := (fs_files fs)(temp \<mapsto> [])\<rparr> in
       case fs_fdopen fs temp of
         Some e \<Rightarrow> (Inr None, snd (os_remove fs temp), za_set_error za ZIP_ER_TMPOPEN e)
       | None \<Rightarrow> (Inr (Some (temp, os_new_file fs)), fs, za))"

section \<open>The list of files\<close>

text \<open>\<open>struct filelist\<close>: the index and the name of every entry that is not deleted.\<close>

type_synonym filelist = "nat \<times> byte list option"

fun filelist_loop :: "'u zip \<Rightarrow> nat \<Rightarrow> nat \<Rightarrow> filelist list \<times> 'u zip" where
  "filelist_loop za i 0 = ([], za)"
| "filelist_loop za i (Suc n) =
     (if ze_state (za_entry za ! i) = ZIP_ST_DELETED then filelist_loop za (Suc i) n
      else case zip_get_name za (int i) 0 of (name, za) \<Rightarrow>
        (case filelist_loop za (Suc i) n of (fl, za) \<Rightarrow> ((i, name) # fl, za)))"

fun strcasecmp :: "byte list \<Rightarrow> byte list \<Rightarrow> int" where
  "strcasecmp [] [] = 0"
| "strcasecmp [] (b # bs) = - int (unat (ascii_lower b))"
| "strcasecmp (a # as) [] = int (unat (ascii_lower a))"
| "strcasecmp (a # as) (b # bs) =
     (if ascii_lower a = ascii_lower b then strcasecmp as bs
      else int (unat (ascii_lower a)) - int (unat (ascii_lower b)))"

definition zip_torrentzip_cmp :: "filelist \<Rightarrow> filelist \<Rightarrow> int" where
  "zip_torrentzip_cmp a b = strcasecmp (the (snd a)) (the (snd b))"

text \<open>\<open>qsort\<close> is the sorting function of the C library, whose order of equal elements is not specified. Comparing with a NULL
  name is undefined.\<close>

type_synonym sorter = "(filelist \<Rightarrow> filelist \<Rightarrow> int) \<Rightarrow> filelist list \<Rightarrow> filelist list"

definition sort_filelist :: "sorter \<Rightarrow> 'u zip \<Rightarrow> filelist list \<Rightarrow> filelist list res" where
  "sort_filelist qsort za fl =
     (if zip_get_archive_flag za ZIP_AFL_TORRENT 0 \<noteq> 0
      then (if 1 < length fl \<and> None \<in> snd ` set fl then Inl UB else Inr (qsort zip_torrentzip_cmp fl))
      else Inr fl)"

section \<open>Writing the entries\<close>

text \<open>A new directory entry: the local variable \<open>de\<close> and the entry of the new directory. A failing \<open>strdup\<close> of the old name is
  followed by \<open>strlen\<close> of NULL.\<close>

definition close_dirent_new :: "clib \<Rightarrow> 'u zip \<Rightarrow> nat \<Rightarrow> (zip_dirent \<times> zip_dirent) res" where
  "close_dirent_new lib za i =
     (let de = (if zip_get_archive_flag za ZIP_AFL_TORRENT 0 \<noteq> 0
                then zip_dirent_torrent_normalize lib zip_dirent_init else zip_dirent_init);
          e = za_entry za ! i in
      if ze_ch_filename e \<noteq> None then Inr (de, de)
      else if ze_state e = ZIP_ST_ADDED
      then Inr (de\<lparr>zde_filename := (if malloc_ok lib ''char'' 2 then Some [0x2d] else None), zde_filename_len := 1\<rparr>,
                de\<lparr>zde_filename := Some [0x2d], zde_filename_len := 1\<rparr>)
      else bind_res (checked (Option.bind (za_cdir za) (\<lambda>cd.
                       if i < length (cd_entry cd) then zde_filename (cd_entry cd ! i) else None))) (\<lambda>name.
           if \<not> malloc_ok lib ''char'' (length name + 1) then Inl UB
           else let f = (\<lambda>d. d\<lparr>zde_filename := Some name, zde_filename_len := of_nat (length name)\<rparr>) in Inr (f de, f de)))"

text \<open>
  The directory entry of data that is kept: the local header, read from the archive, and the entry of the old directory.
  The pointers of the variable \<open>de\<close> are indeterminate until a header has been read; \<open>header_parsed\<close> says that
  \<open>_zip_dirent_read\<close> came as far as setting them.
\<close>

definition header_parsed :: "clib \<Rightarrow> cfile \<Rightarrow> bool" where
  "header_parsed lib fp = (case fread LENTRYSIZE fp of (buf, _) \<Rightarrow>
     length buf = LENTRYSIZE \<and> (case dirent_fields lib True buf of Inl _ \<Rightarrow> False | Inr _ \<Rightarrow> True))"

definition close_dirent_old ::
  "clib \<Rightarrow> 'u zip \<Rightarrow> nat \<Rightarrow> bool \<Rightarrow> ((zip_dirent \<times> zip_dirent) option \<times> bool) res \<times> 'u zip" where
  "close_dirent_old lib za i de_set = (case (za_cdir za, za_zp za) of
     (Some cd, Some fp) \<Rightarrow>
       if i \<ge> length (cd_entry cd) then (Inl UB, za)
       else let e = cd_entry cd ! i; (r, fp) = fseeko fp (int (unat (zde_offset e))) SEEK_SET in
       if r \<noteq> 0 then (Inr (None, de_set), za_set_error (za\<lparr>za_zp := Some fp\<rparr>) ZIP_ER_SEEK (ferrno fp))
       else (case zip_dirent_read lib fp None None True of
         (Inl UB, fp') \<Rightarrow> (Inl UB, za\<lparr>za_zp := Some fp'\<rparr>)
       | (Inl f, fp') \<Rightarrow> (Inr (None, de_set \<or> header_parsed lib fp), za_fail (za\<lparr>za_zp := Some fp'\<rparr>) f)
       | (Inr (de, _), fp') \<Rightarrow>
           (Inr (Some (if flag_set (zde_bitflags de) ZIP_GPBF_DATA_DESCRIPTOR
                       then (de\<lparr>zde_crc := zde_crc e, zde_comp_size := zde_comp_size e, zde_uncomp_size := zde_uncomp_size e,
                                zde_bitflags := zde_bitflags de AND NOT ZIP_GPBF_DATA_DESCRIPTOR\<rparr>,
                             e\<lparr>zde_bitflags := zde_bitflags e AND NOT ZIP_GPBF_DATA_DESCRIPTOR\<rparr>)
                       else (de, e)), True), za\<lparr>za_zp := Some fp'\<rparr>))
   | _ \<Rightarrow> (Inl UB, za))"

text \<open>The changed name and comment, and the offset. \<open>None\<close> when \<open>strdup\<close> fails.\<close>

definition close_rename :: "clib \<Rightarrow> 'u zip_entry \<Rightarrow> zip_dirent \<times> zip_dirent \<Rightarrow> (zip_dirent \<times> zip_dirent) option" where
  "close_rename lib e des = (case ze_ch_filename e of
     None \<Rightarrow> Some des
   | Some name \<Rightarrow>
     if \<not> malloc_ok lib ''char'' (length name + 1) then None
     else let f = (\<lambda>d. d\<lparr>zde_filename := Some name, zde_filename_len := of_nat (length name)\<rparr>) in Some (f (fst des), f (snd des)))"

definition close_centry :: "'u zip \<Rightarrow> 'u zip_entry \<Rightarrow> zip_dirent \<Rightarrow> cfile \<Rightarrow> zip_dirent" where
  "close_centry za e cde out =
     (let cde = (if zip_get_archive_flag za ZIP_AFL_TORRENT 0 = 0 \<and> ze_ch_comment_len e \<noteq> -1
                 then cde\<lparr>zde_comment := ze_ch_comment e, zde_comment_len := of_int (ze_ch_comment_len e)\<rparr> else cde)
      in cde\<lparr>zde_offset := of_nat (ftello out)\<rparr>)"

definition centry_data :: "zip_dirent \<Rightarrow> zip_dirent \<Rightarrow> zip_dirent" where
  "centry_data de cde = cde\<lparr>zde_last_mod := zde_last_mod de, zde_comp_method := zde_comp_method de,
     zde_comp_size := zde_comp_size de, zde_uncomp_size := zde_uncomp_size de, zde_crc := zde_crc de\<rparr>"

text \<open>The state of the loop: \<open>cl_de\<close> says that the pointers of \<open>de\<close> are determinate.\<close>

record 'u closing =
  cl_za :: "'u zip"
  cl_cd :: zip_cdir
  cl_out :: cfile
  cl_de :: bool

text \<open>The data of a changed entry comes from its source; that of an old one which is to be compressed again from the archive
  itself. The result says whether the entry was written.\<close>

definition close_add ::
  "clib \<Rightarrow> 's zlib \<Rightarrow> nat \<Rightarrow> zip_dirent \<Rightarrow> 'u zip \<Rightarrow> cfile \<Rightarrow> (bool \<times> zip_dirent \<times> 'u zip \<times> cfile) call" where
  "close_add lib z i de za out =
     (if entry_data_changed (za_entry za ! i)
      then (case ze_source (za_entry za ! i) of
              None \<Rightarrow> Some (Inl UB)
            | Some src \<Rightarrow> bind_call (add_data lib z za src de out) (\<lambda>(r, de, za, out, ud).
                Some (Inr (r \<ge> 0, de, upd_entry za i (\<lambda>ze. ze\<lparr>ze_source := Some (src\<lparr>src_ud := ud\<rparr>)\<rparr>), out))))
      else Option.bind (zip_source_zip lib z za Same_archive (int i) ZIP_FL_RECOMPRESS 0 (-1)) (\<lambda>r. case r of
          (Inl f, za, _) \<Rightarrow> Some (Inl f)
        | (Inr None, za, _) \<Rightarrow> Some (Inr (False, de, za, out))
        | (Inr (Some zs), za, _) \<Rightarrow> bind_call (add_data lib z za zs de out) (\<lambda>(r, de, za, out, _).
            Some (Inr (r \<ge> 0, de, za, out)))))"

definition close_copy :: "clib \<Rightarrow> zip_dirent \<Rightarrow> zip_dirent \<Rightarrow> 'u zip \<Rightarrow> cfile \<Rightarrow> (bool \<times> 'u zip \<times> cfile) res" where
  "close_copy lib de cde za out = (case zip_dirent_write lib de out True of
     (Inl UB, out) \<Rightarrow> Inl UB
   | (Inl f, out) \<Rightarrow> Inr (False, za_fail za f, out)
   | (Inr _, out) \<Rightarrow> bind_res (checked (za_zp za)) (\<lambda>fp.
       case copy_data fp (unat (zde_comp_size cde)) out of
         (Inl UB, fp, out) \<Rightarrow> Inl UB
       | (Inl f, fp, out) \<Rightarrow> Inr (False, za_fail (za\<lparr>za_zp := Some fp\<rparr>) f, out)
       | (Inr _, fp, out) \<Rightarrow> Inr (True, za\<lparr>za_zp := Some fp\<rparr>, out)))"

text \<open>One round of the loop for the entry \<open>i\<close>, which becomes entry \<open>j\<close> of the new directory.\<close>

definition close_data ::
  "clib \<Rightarrow> 's zlib \<Rightarrow> bool \<Rightarrow> nat \<Rightarrow> nat \<Rightarrow> zip_dirent \<times> zip_dirent \<Rightarrow> 'u closing \<Rightarrow> (bool \<times> 'u closing) call" where
  "close_data lib z new_torrentzip j i des s =
     (let e = za_entry (cl_za s) ! i in
      case close_rename lib e des of
        None \<Rightarrow> Some (Inr (False, s\<lparr>cl_de := True\<rparr>))
      | Some (de, cde) \<Rightarrow>
        let cde = close_centry (cl_za s) e cde (cl_out s);
            put = (\<lambda>cde za out. s\<lparr>cl_za := za, cl_cd := (cl_cd s)\<lparr>cd_entry := (cd_entry (cl_cd s))[j := cde]\<rparr>, cl_out := out,
                                  cl_de := True\<rparr>) in
        if entry_data_changed e \<or> new_torrentzip
        then bind_call (close_add lib z i de (cl_za s) (cl_out s)) (\<lambda>(ok, de, za, out).
               Some (Inr (ok, put (if ok then centry_data de cde else cde) za out)))
        else bind_call (Some (close_copy lib de cde (cl_za s) (cl_out s))) (\<lambda>(ok, za, out). Some (Inr (ok, put cde za out))))"

definition close_entry ::
  "clib \<Rightarrow> 's zlib \<Rightarrow> bool \<Rightarrow> nat \<Rightarrow> nat \<Rightarrow> 'u closing \<Rightarrow> (bool \<times> 'u closing) call" where
  "close_entry lib z new_torrentzip j i s =
     (if entry_data_changed (za_entry (cl_za s) ! i) \<or> new_torrentzip
      then bind_call (Some (close_dirent_new lib (cl_za s) i)) (\<lambda>des. close_data lib z new_torrentzip j i des s)
      else (case close_dirent_old lib (cl_za s) i (cl_de s) of
              (Inl f, za) \<Rightarrow> Some (Inl f)
            | (Inr (None, d), za) \<Rightarrow> Some (Inr (False, s\<lparr>cl_za := za, cl_de := d\<rparr>))
            | (Inr (Some des, d), za) \<Rightarrow> close_data lib z new_torrentzip j i des (s\<lparr>cl_za := za\<rparr>)))"

fun close_loop ::
  "clib \<Rightarrow> 's zlib \<Rightarrow> bool \<Rightarrow> nat \<Rightarrow> filelist list \<Rightarrow> 'u closing \<Rightarrow> (bool \<times> 'u closing) call" where
  "close_loop lib z new_torrentzip j [] s = Some (Inr (True, s))"
| "close_loop lib z new_torrentzip j ((i, _) # fl) s =
     bind_call (close_entry lib z new_torrentzip j i s) (\<lambda>(ok, s).
       if ok then close_loop lib z new_torrentzip (Suc j) fl s else Some (Inr (False, s)))"

section \<open>Closing\<close>

text \<open>The temporary file takes the place of the archive. Permissions are not part of the model of the file system.\<close>

definition close_install ::
  "fsys \<Rightarrow> byte list \<Rightarrow> cfile \<Rightarrow> 'u zip \<Rightarrow> (int \<times> fsys \<times> 'u zip option) call" where
  "close_install fs temp out za = (case os_fclose_out fs temp out of
     (Some e, fs) \<Rightarrow> Some (Inr (-1, snd (os_remove fs temp), Some (za_set_error za ZIP_ER_CLOSE e)))
   | (None, fs) \<Rightarrow>
     (case za_zn za of None \<Rightarrow> Some (Inl UB) | Some zn \<Rightarrow>
     (case os_rename fs temp zn of
        (Some e, fs) \<Rightarrow>
          let fs = snd (os_remove fs temp); za' = za_set_error (za\<lparr>za_zp := None\<rparr>) ZIP_ER_RENAME e
          in Some (Inr (-1, fs, Some (if za_zp za \<noteq> None then za'\<lparr>za_zp := os_fopen_rb fs zn\<rparr> else za')))
      | (None, fs) \<Rightarrow> bind_call (zip_free (za\<lparr>za_zp := None\<rparr>)) (\<lambda>_. Some (Inr (0, fs, None))))))"

text \<open>After the loop: the directory, and the end of a successful or of a failed attempt.\<close>

definition close_finish ::
  "clib \<Rightarrow> 's zlib \<Rightarrow> fsys \<Rightarrow> byte list \<Rightarrow> bool \<Rightarrow> 'u closing \<Rightarrow> (int \<times> fsys \<times> 'u zip option) call" where
  "close_finish lib z fs temp ok s =
     (case (if ok then write_cdir lib z (cl_za s) (cl_cd s) (cl_out s) else (Inr (-1, cl_za s), cl_out s)) of
        (Inl f, out) \<Rightarrow> Some (Inl f)
      | (Inr (r, za), out) \<Rightarrow>
          if r < 0
          then (if \<not> cl_de s then Some (Inl UB)
                else Some (Inr (-1, snd (os_remove (snd (os_fclose_out fs temp out)) temp), Some za)))
          else close_install fs temp out za)"

definition zip_close_write ::
  "clib \<Rightarrow> 's zlib \<Rightarrow> sorter \<Rightarrow> fsys \<Rightarrow> 'u zip \<Rightarrow> zip_cdir \<Rightarrow> (int \<times> fsys \<times> 'u zip option) call" where
  "zip_close_write lib z qsort fs za cd = (case zip_create_temp_output lib fs za of
     (Inl f, _) \<Rightarrow> Some (Inl f)
   | (Inr None, fs, za) \<Rightarrow> Some (Inr (-1, fs, Some za))
   | (Inr (Some (temp, out)), fs, za) \<Rightarrow>
       (case filelist_loop za 0 (length (za_entry za)) of (fl, za) \<Rightarrow>
        bind_call (Some (sort_filelist qsort za fl)) (\<lambda>fl.
        let new_torrentzip = (zip_get_archive_flag za ZIP_AFL_TORRENT 0 = 1
              \<and> zip_get_archive_flag za ZIP_AFL_TORRENT ZIP_FL_UNCHANGED = 0)
        in bind_call (close_loop lib z new_torrentzip 0 fl \<lparr>cl_za = za, cl_cd = cd, cl_out = out, cl_de = False\<rparr>)
             (\<lambda>(ok, s). close_finish lib z fs temp ok s))))"

text \<open>\<open>zip_close\<close>: the return value, the file system, and the archive unless it has been freed.\<close>

definition zip_close ::
  "clib \<Rightarrow> 's zlib \<Rightarrow> sorter \<Rightarrow> fsys \<Rightarrow> 'u zip option \<Rightarrow> (int \<times> fsys \<times> 'u zip option) call" where
  "zip_close lib z qsort fs zap = (case zap of None \<Rightarrow> Some (Inr (-1, fs, None)) | Some za \<Rightarrow>
     if za_entry_lost za \<and> za_entry za \<noteq> [] then Some (Inl UB)
     else case zip_changed za of (changed, survivors) \<Rightarrow>
     if \<not> changed then bind_call (zip_free za) (\<lambda>_. Some (Inr (0, fs, None)))
     else if survivors = 0
     then (case (za_zn za, za_zp za) of
             (Some zn, Some _) \<Rightarrow> (case os_remove fs zn of
                 (Some e, fs) \<Rightarrow> Some (Inr (-1, fs, Some (za_set_error za ZIP_ER_REMOVE e)))
               | (None, fs) \<Rightarrow> bind_call (zip_free za) (\<lambda>_. Some (Inr (0, fs, None))))
           | _ \<Rightarrow> bind_call (zip_free za) (\<lambda>_. Some (Inr (0, fs, None))))
     else if \<not> malloc_ok lib ''filelist'' survivors then Some (Inr (-1, fs, Some za))
     else case zip_cdir_new lib survivors of
       Inl f \<Rightarrow> Some (Inr (-1, fs, Some (za_fail za f)))
     | Inr cd \<Rightarrow> (case close_comment lib za cd of
         (Inl f, _) \<Rightarrow> Some (Inl f)
       | (Inr None, za) \<Rightarrow> Some (Inr (-1, fs, Some za))
       | (Inr (Some cd), za) \<Rightarrow> zip_close_write lib z qsort fs za cd))"

section \<open>What stays of the archive\<close>

text \<open>None of the steps of the loop changes the name of the archive file.\<close>

lemma za_zn_fields [simp]:
  "za_zn (za_set_error za a b) = za_zn za" "za_zn (za_fail za f) = za_zn za" "za_zn (upd_entry za i g) = za_zn za"
  "za_zn (close_handle zf za) = za_zn za"
  by (simp_all add: za_set_error_def za_fail_def upd_entry_def close_handle_def zip_fclose_def split: fault.split)

lemma zip_file_new_zn: "zip_file_new lib z za = (zf, za') \<Longrightarrow> za_zn za' = za_zn za"
  by (auto simp: zip_file_new_def Let_def split: if_splits)

lemma zip_file_get_offset_zn: "zip_file_get_offset lib za i = (r, za') \<Longrightarrow> za_zn za' = za_zn za"
  by (auto simp: zip_file_get_offset_def Let_def split: option.splits if_splits prod.splits sum.splits fault.splits)

lemma fopen_decomp_zn: "fopen_decomp lib z zf za = (r, za') \<Longrightarrow> za_zn za' = za_zn za"
  by (auto simp: fopen_decomp_def Let_def split: option.splits if_splits prod.splits)

lemma zip_fopen_index_zn: "zip_fopen_index lib z za i flags = (r, za') \<Longrightarrow> za_zn za' = za_zn za"
  by (auto simp: zip_fopen_index_def Let_def split: option.splits if_splits prod.splits sum.splits
      dest!: zip_file_new_zn zip_file_get_offset_zn fopen_decomp_zn)

lemma zip_stat_index_zn: "zip_stat_index za i flags st = Some (r, za') \<Longrightarrow> za_zn za' = za_zn za"
  by (auto simp: zip_stat_index_def zip_get_name_def Let_def split: option.splits if_splits prod.splits sum.splits)

lemma source_zip_open_zn:
  assumes "source_zip_open lib z sa i flags = Some (r, sa')"
  shows "za_zn sa' = za_zn sa"
proof -
  obtain x sa1 where x: "zip_stat_index sa i flags zip_stat_init = Some (x, sa1)"
    using assms by (auto simp: source_zip_open_def bind_eq_Some_conv)
  obtain y sa2 where y: "zip_fopen_index lib z sa1 i flags = (y, sa2)" by fastforce
  have "sa' = sa1 \<or> sa' = sa2"
    using assms x y by (auto simp: source_zip_open_def split: sum.splits option.splits)
  then show ?thesis using zip_stat_index_zn [OF x] zip_fopen_index_zn [OF y] by auto
qed

lemma zip_source_function_zn: "zip_source_function lib za f u = (r, za') \<Longrightarrow> za_zn za' = za_zn za"
  by (auto simp: zip_source_function_def split: if_splits)

lemma zip_source_zip_zn:
  "zip_source_zip lib z za Same_archive i flags start len = Some (r, za', src) \<Longrightarrow> za_zn za' = za_zn za"
  by (auto simp: zip_source_zip_def src_archive_get_def src_archive_put_def Let_def bind_eq_Some_conv
      split: if_splits prod.splits sum.splits option.splits dest!: source_zip_open_zn zip_source_function_zn)

text \<open>A property of the value of a call, if it returns one.\<close>

definition on_result :: "('a \<Rightarrow> bool) \<Rightarrow> 'a call \<Rightarrow> bool" where
  "on_result P r \<longleftrightarrow> (\<forall>v. r = Some (Inr v) \<longrightarrow> P v)"

lemma on_result_simps [simp]: "on_result P None" "on_result P (Some (Inl e))" "on_result P (Some (Inr v)) = P v"
  by (simp_all add: on_result_def)

lemma on_result_bind: "(\<And>v. on_result P (k v)) \<Longrightarrow> on_result P (bind_call r k)"
  by (auto simp: on_result_def bind_call_Some_Inr)

lemma on_resultD: "on_result P r \<Longrightarrow> r = Some (Inr v) \<Longrightarrow> P v"
  by (simp add: on_result_def)

abbreviation same_zn :: "'u zip \<Rightarrow> int \<times> zip_dirent \<times> 'u zip \<times> cfile \<times> 'v \<Rightarrow> bool" where
  "same_zn za v \<equiv> za_zn (fst (snd (snd v))) = za_zn za"

lemma source_failed_zn: "on_result (same_zn za) (source_failed za cb ud de ft)"
  by (auto simp: source_failed_def intro!: on_result_bind)

lemma add_data_finish_zn: "add_data_finish lib za de st off ft = Inr (r, de', za', ft') \<Longrightarrow> za_zn za' = za_zn za"
  by (auto simp: add_data_finish_def Let_def split: if_splits prod.splits sum.splits fault.splits)

lemma add_data_tail_zn:
  "on_result (same_zn za) (Some (bind_res (add_data_finish lib (za\<lparr>za_error := e\<rparr>) de st off ft) (\<lambda>(r, de, za, ft). Inr (r, de, za, ft, ud))))"
  by (auto simp: on_result_def bind_res_Inr_iff dest!: add_data_finish_zn)

lemma source_failed_error_zn: "on_result (same_zn za) (source_failed (za\<lparr>za_error := e\<rparr>) cb ud de ft)"
  using source_failed_zn [of "za\<lparr>za_error := e\<rparr>"] by simp

lemma add_data_zn': "on_result (same_zn za) (add_data lib z za zs de ft)"
  unfolding add_data_def Let_def
  by (auto intro!: on_result_bind source_failed_zn source_failed_error_zn add_data_tail_zn
      split: prod.split sum.split fault.split payload.split)

lemma add_data_zn: "add_data lib z za zs de ft = Some (Inr (r, de', za', ft', ud')) \<Longrightarrow> za_zn za' = za_zn za"
  using on_resultD [OF add_data_zn'] by fastforce

lemma close_add_zn: "close_add lib z i de za out = Some (Inr (ok, de', za', out')) \<Longrightarrow> za_zn za' = za_zn za"
  by (auto simp: close_add_def bind_call_Some_Inr bind_eq_Some_conv
      split: if_splits prod.splits sum.splits option.splits dest!: add_data_zn zip_source_zip_zn)

lemma close_copy_zn: "close_copy lib de cde za out = Inr (ok, za', out') \<Longrightarrow> za_zn za' = za_zn za"
  by (cases "za_zp za")
    (auto simp: close_copy_def split: prod.splits sum.splits fault.splits)

lemma close_dirent_old_zn: "close_dirent_old lib za i d = (r, za') \<Longrightarrow> za_zn za' = za_zn za"
  by (auto simp: close_dirent_old_def Let_def split: if_splits prod.splits sum.splits fault.splits option.splits)

lemma close_data_zn: "close_data lib z nt j i des s = Some (Inr (ok, s')) \<Longrightarrow> za_zn (cl_za s') = za_zn (cl_za s)"
  by (auto simp: close_data_def Let_def bind_call_Some_Inr split: if_splits prod.splits option.splits
      dest!: close_add_zn close_copy_zn)

lemma close_entry_zn: "close_entry lib z nt j i s = Some (Inr (ok, s')) \<Longrightarrow> za_zn (cl_za s') = za_zn (cl_za s)"
  by (auto simp: close_entry_def bind_call_Some_Inr split: if_splits prod.splits option.splits sum.splits
      dest!: close_data_zn close_dirent_old_zn)

lemma close_loop_zn: "close_loop lib z nt j fl s = Some (Inr (ok, s')) \<Longrightarrow> za_zn (cl_za s') = za_zn (cl_za s)"
  by (induction lib z nt j fl s rule: close_loop.induct)
    (auto simp: bind_call_Some_Inr split: if_splits prod.splits dest!: close_entry_zn)

lemma write_cdir_zn: "write_cdir lib z za cd out = (Inr (r, za'), out') \<Longrightarrow> za_zn za' = za_zn za"
  by (auto simp: write_cdir_def Let_def split: if_splits prod.splits sum.splits fault.splits)

lemma filelist_loop_zn: "filelist_loop za i n = (fl, za') \<Longrightarrow> za_zn za' = za_zn za"
  by (induction za i n arbitrary: fl rule: filelist_loop.induct)
    (auto simp: zip_get_name_def split: if_splits prod.splits)

lemma set_comment_zn: "set_comment lib za cd mem len n = (r, za') \<Longrightarrow> za_zn za' = za_zn za"
  by (auto simp: set_comment_def split: sum.splits fault.splits)

lemma close_comment_zn: "close_comment lib za cd = (r, za') \<Longrightarrow> za_zn za' = za_zn za"
  by (auto simp: close_comment_def zip_cdir_set_comment_def split: if_splits option.splits dest!: set_comment_zn)

section \<open>Failures leave no trace\<close>

text \<open>
  The calls on the temporary file behave as documented: \<open>mkstemp\<close> makes a new file, and removing it succeeds.
\<close>

definition temp_fresh :: "fsys \<Rightarrow> bool" where
  "temp_fresh fs \<longleftrightarrow> (\<forall>t temp. fs_mkstemp fs t = Inr temp \<longrightarrow> fs_files fs temp = None \<and> fs_remove fs temp = None)"

text \<open>The outcome of closing: a failure without a trace, or at most the file of the archive is changed.\<close>

definition closed_cleanly :: "fsys \<Rightarrow> byte list option \<Rightarrow> int \<Rightarrow> fsys \<Rightarrow> 'u zip option \<Rightarrow> bool" where
  "closed_cleanly fs zn r fs' za' \<longleftrightarrow>
     (r = -1 \<and> fs' = fs \<and> za' \<noteq> None)
     \<or> (r = 0 \<and> za' = None \<and> (fs' = fs \<or> (\<exists>p d. zn = Some p \<and> fs' = fs\<lparr>fs_files := (fs_files fs)(p := d)\<rparr>)))"

lemma remove_temp:
  assumes "fs_files fs temp = None" and "fs_remove fs temp = None"
  shows "snd (os_remove (fs\<lparr>fs_files := (fs_files fs)(temp \<mapsto> d)\<rparr>) temp) = fs"
  using assms by (cases fs) (auto simp: os_remove_def fun_eq_iff)

lemma close_install_clean:
  assumes "close_install (fs\<lparr>fs_files := (fs_files fs)(temp \<mapsto> x)\<rparr>) temp out za = Some (Inr (r, fs', za'))"
    and temp: "fs_files fs temp = None" "fs_remove fs temp = None"
  shows "closed_cleanly fs (za_zn za) r fs' za'"
proof -
  let ?d = "fdata out"
  have f: "os_fclose_out (fs\<lparr>fs_files := (fs_files fs)(temp \<mapsto> x)\<rparr>) temp out
      = (fs_fclose fs temp, fs\<lparr>fs_files := (fs_files fs)(temp \<mapsto> ?d)\<rparr>)" by (simp add: os_fclose_out_def)
  note rm = remove_temp [OF temp, of ?d]
  have mv: "((fs_files fs)(temp \<mapsto> ?d))(zn := Some ?d, temp := None) = (fs_files fs)(zn := (if zn = temp then None else Some ?d))" for zn
    using temp(1) by (auto simp: fun_eq_iff)
  show ?thesis
  proof (cases "fs_fclose fs temp")
    case (Some e)
    then show ?thesis using assms(1) rm by (auto simp: close_install_def f closed_cleanly_def)
  next
    case None
    show ?thesis
    proof (cases "za_zn za")
      case (Some zn)
      let ?fs = "fs\<lparr>fs_files := (fs_files fs)(temp \<mapsto> ?d)\<rparr>"
      show ?thesis
      proof (cases "fs_rename fs temp zn")
        case e: (Some e)
        then have "os_rename ?fs temp zn = (Some e, ?fs)" by (simp add: os_rename_def)
        then show ?thesis using assms(1) None Some rm by (auto simp: close_install_def f closed_cleanly_def Let_def)
      next
        case n: None
        then have "os_rename ?fs temp zn = (None, fs\<lparr>fs_files := (fs_files fs)(zn := (if zn = temp then None else Some ?d))\<rparr>)"
          using mv [of zn] by (simp add: os_rename_def)
        then show ?thesis using assms(1) None Some
          by (auto simp: close_install_def f closed_cleanly_def bind_call_Some_Inr simp del: fun_upd_apply)
      qed
    qed (use assms(1) None in \<open>simp add: close_install_def f\<close>)
  qed
qed

lemma close_finish_clean:
  assumes "close_finish lib z (fs\<lparr>fs_files := (fs_files fs)(temp \<mapsto> x)\<rparr>) temp ok s = Some (Inr (r, fs', za'))"
    and temp: "fs_files fs temp = None" "fs_remove fs temp = None"
  shows "closed_cleanly fs (za_zn (cl_za s)) r fs' za'"
proof -
  let ?fs = "fs\<lparr>fs_files := (fs_files fs)(temp \<mapsto> x)\<rparr>"
  obtain y out where w: "(if ok then write_cdir lib z (cl_za s) (cl_cd s) (cl_out s) else (Inr (-1, cl_za s), cl_out s)) = (y, out)"
    by fastforce
  then obtain q za where y: "y = Inr (q, za)" using assms(1) by (cases y) (auto simp: close_finish_def)
  have zn: "za_zn za = za_zn (cl_za s)" using w y write_cdir_zn by (fastforce split: if_splits)
  show ?thesis
  proof (cases "q < 0")
    case True
    have "snd (os_remove (snd (os_fclose_out ?fs temp out)) temp) = fs"
      using remove_temp [OF temp, of "fdata out"] by (simp add: os_fclose_out_def)
    then show ?thesis using assms(1) w y True by (auto simp: close_finish_def closed_cleanly_def split: if_splits)
  next
    case False
    then have "close_install ?fs temp out za = Some (Inr (r, fs', za'))" using assms(1) w y by (simp add: close_finish_def)
    from close_install_clean [OF this temp] show ?thesis by (simp add: zn)
  qed
qed

lemma zip_close_write_clean:
  assumes "zip_close_write lib z qsort fs za cd = Some (Inr (r, fs', za'))" and "temp_fresh fs"
  shows "closed_cleanly fs (za_zn za) r fs' za'"
proof (cases "zip_create_temp_output lib fs za")
  case (fields y fs1 za1)
  show ?thesis
  proof (cases y)
    case (Inl f)
    then show ?thesis using assms(1) fields by (simp add: zip_close_write_def)
  next
    case (Inr q)
    show ?thesis
    proof (cases q)
      case None
      then have "fs1 = fs"
        using fields Inr assms(2) remove_temp [of fs]
        by (auto simp: zip_create_temp_output_def Let_def temp_fresh_def split: option.splits if_splits sum.splits)
      then show ?thesis using assms(1) fields Inr None by (auto simp: zip_close_write_def closed_cleanly_def)
    next
      case (Some p)
      obtain temp out where p: "p = (temp, out)" by fastforce
      have t: "fs1 = fs\<lparr>fs_files := (fs_files fs)(temp \<mapsto> [])\<rparr>" "za1 = za" "\<exists>t. fs_mkstemp fs t = Inr temp"
        using fields Inr Some p
        by (auto simp: zip_create_temp_output_def Let_def split: option.splits if_splits sum.splits)
      then have temp: "fs_files fs temp = None" "fs_remove fs temp = None" using assms(2) by (auto simp: temp_fresh_def)
      obtain fl za2 where fl: "filelist_loop za 0 (length (za_entry za)) = (fl, za2)" by fastforce
      obtain fl' ok s nt where "close_loop lib z nt 0 fl' \<lparr>cl_za = za2, cl_cd = cd, cl_out = out, cl_de = False\<rparr> = Some (Inr (ok, s))"
          "close_finish lib z fs1 temp ok s = Some (Inr (r, fs', za'))"
        using assms(1) fields Inr Some p t(2) fl by (auto simp: zip_close_write_def Let_def bind_call_Some_Inr)
      then show ?thesis
        using close_finish_clean [OF _ temp, of lib z "[]" ok s] close_loop_zn filelist_loop_zn [OF fl] t(1) by fastforce
    qed
  qed
qed

lemma zip_close_clean:
  assumes "zip_close lib z qsort fs (Some za) = Some (Inr (r, fs', za'))" and "temp_fresh fs"
  shows "closed_cleanly fs (za_zn za) r fs' za'"
proof -
  obtain changed survivors where c: "zip_changed za = (changed, survivors)" by fastforce
  have lost: "\<not> (za_entry_lost za \<and> za_entry za \<noteq> [])" using assms(1) by (simp add: zip_close_def split: if_splits)
  consider (rewrite) cd za1 cd' where "changed" "survivors \<noteq> 0" "close_comment lib za cd = (Inr (Some cd'), za1)"
      "zip_close_write lib z qsort fs za1 cd' = Some (Inr (r, fs', za'))"
    | (early) "closed_cleanly fs (za_zn za) r fs' za'"
    using assms(1) lost c
    by (auto simp: zip_close_def closed_cleanly_def os_remove_def bind_call_Some_Inr
        split: if_splits option.splits sum.splits prod.splits)
  then show ?thesis
  proof cases
    case rewrite
    then show ?thesis using zip_close_write_clean [OF rewrite(4) assms(2)] close_comment_zn [OF rewrite(3)] by simp
  qed
qed

end
