(* ===== verification/Zip_Open.thy ===== *)
theory Zip_Open
  imports Zip_Close
begin

text \<open>
  Opening an archive (the rest of \<^verbatim>\<open>zip_open.c\<close>): the file is looked for, its directory is found and read, and every entry of the
  directory gets an untouched entry of the table.  The result is that an opened archive satisfies \<open>just_opened\<close>, which is where
  every editing session starts, and which error each failure gives.
\<close>

section \<open>Errors\<close>

text \<open>\<open>set_error\<close> stores the code of an error for the caller of \<open>zip_open\<close>: the left side of \<open>int + 'a\<close>, with a NULL result. The
  value of \<^verbatim>\<open>errno\<close> afterwards is not part of the model.\<close>

definition set_error :: "fault \<Rightarrow> (int + 'a) res" where
  "set_error f = (case f of UB \<Rightarrow> Inl UB | ZE ze _ \<Rightarrow> Inr (Inl ze))"

section \<open>Torrentzip\<close>

definition hex_value :: "byte \<Rightarrow> int option" where
  "hex_value c = (let n = int (unat c) in
     if 0x30 \<le> n \<and> n \<le> 0x39 then Some (n - 0x30)
     else if 0x41 \<le> n \<and> n \<le> 0x46 then Some (n - 0x37)
     else if 0x61 \<le> n \<and> n \<le> 0x66 then Some (n - 0x57) else None)"

fun hex_digits :: "int \<Rightarrow> byte list \<Rightarrow> int \<times> byte list" where
  "hex_digits acc [] = (acc, [])"
| "hex_digits acc (c # cs) = (case hex_value c of None \<Rightarrow> (acc, c # cs) | Some d \<Rightarrow> hex_digits (16 * acc + d) cs)"

text \<open>\<^verbatim>\<open>strtoul(s, &end, 16)\<close> of a string of at most eight characters, with a 64-bit \<^verbatim>\<open>unsigned long\<close>: white space, a sign, the
  prefix \<^verbatim>\<open>0x\<close>, digits. Without digits the result is 0 and \<^verbatim>\<open>end\<close> is the start.\<close>

definition strtoul16 :: "byte list \<Rightarrow> int \<times> byte list" where
  "strtoul16 s =
     (let t = dropWhile (\<lambda>c. c \<in> {0x20, 0x09, 0x0a, 0x0b, 0x0c, 0x0d}) s;
          neg = (t \<noteq> [] \<and> hd t = 0x2d);
          u = (if t \<noteq> [] \<and> (hd t = 0x2d \<or> hd t = 0x2b) then tl t else t);
          v = (if length u > 2 \<and> u ! 0 = 0x30 \<and> (u ! 1 = 0x78 \<or> u ! 1 = 0x58) \<and> hex_value (u ! 2) \<noteq> None then drop 2 u else u);
          (n, rest) = hex_digits 0 v
      in if rest = v then (0, s) else (if neg then (- n) mod 2 ^ 64 else n, rest))"

text \<open>\<open>_zip_check_torrentzip\<close>. Eight hexadecimal digits cannot overflow, so \<^verbatim>\<open>errno\<close> stays 0.\<close>

definition zip_check_torrentzip :: "'s zlib \<Rightarrow> 'u zip \<Rightarrow> 'u zip res" where
  "zip_check_torrentzip z za = (case (za_zp za, za_cdir za) of
     (Some fp, Some cd) \<Rightarrow>
       if unat (cd_comment_len cd) \<noteq> 22 then Inr za
       else bind_res (checked (Option.bind (cd_comment cd) (\<lambda>c. mem_load c 0 22))) (\<lambda>c.
         if take 14 c \<noteq> TORRENT_SIG then Inr za
         else case strtoul16 (takeWhile (\<lambda>b. b \<noteq> 0) (drop 14 c)) of (crc_should, rest) \<Rightarrow>
           if rest \<noteq> [] then Inr za
           else (case zip_filerange_crc z fp (unat (cd_offset cd)) (unat (cd_size cd)) of
             (Inl UB, _) \<Rightarrow> Inl UB
           | (Inl _, fp) \<Rightarrow> Inr (za\<lparr>za_zp := Some fp\<rparr>)
           | (Inr crc_got, fp) \<Rightarrow>
               Inr (if int (unat crc_got) = crc_should then za\<lparr>za_zp := Some fp, za_flags := za_flags za OR ZIP_AFL_TORRENT\<rparr>
                    else za\<lparr>za_zp := Some fp\<rparr>)))
   | _ \<Rightarrow> Inr za)"

section \<open>Opening\<close>

text \<open>The result for the caller: the error code, or whether the file exists.\<close>

definition zip_file_exists :: "fsys \<Rightarrow> byte list option \<Rightarrow> u32 \<Rightarrow> int + bool" where
  "zip_file_exists fs fn flags = (case fn of
     None \<Rightarrow> Inl ZIP_ER_INVAL
   | Some fn \<Rightarrow>
     if fs_files fs fn = None then (if flag_set flags ZIP_CREATE then Inr False else Inl ZIP_ER_OPEN)
     else if flag_set flags ZIP_EXCL then Inl ZIP_ER_EXISTS
     else Inr True)"

definition zip_allocate_new :: "clib \<Rightarrow> byte list \<Rightarrow> (int + 'u zip) res" where
  "zip_allocate_new lib fn = (case zip_new lib of
     Inl f \<Rightarrow> set_error f
   | Inr za \<Rightarrow> if \<not> malloc_ok lib ''char'' (length fn + 1) then Inr (Inl ZIP_ER_MEMORY) else Inr (Inr (za\<lparr>za_zn := Some fn\<rparr>)))"

text \<open>The entries of the table. After a failed \<^verbatim>\<open>realloc\<close> the next call writes through a NULL pointer.\<close>

fun new_entries :: "clib \<Rightarrow> nat \<Rightarrow> 'u zip \<Rightarrow> 'u zip res" where
  "new_entries lib 0 za = Inr za"
| "new_entries lib (Suc n) za = (if za_entry_lost za then Inl UB else new_entries lib n (snd (zip_entry_new lib za)))"

definition open_archive :: "clib \<Rightarrow> 's zlib \<Rightarrow> byte list \<Rightarrow> u32 \<Rightarrow> cfile \<Rightarrow> (int + 'u zip) res" where
  "open_archive lib z fn flags fp =
     (let (_, fp) = fseeko fp 0 SEEK_END; len = ftello fp in
      if len = 0 then (case zip_allocate_new lib fn of
                         Inr (Inr za) \<Rightarrow> Inr (Inr (za\<lparr>za_zp := Some fp\<rparr>)) | r \<Rightarrow> r)
      else case zip_find_central_dir lib fp flags len of
        (Inl f, fp) \<Rightarrow> set_error f
      | (Inr cdir, fp) \<Rightarrow> (case zip_allocate_new lib fn of
          Inr (Inr za) \<Rightarrow>
            if \<not> malloc_ok lib ''zip_entry'' (length (cd_entry cdir)) then Inr (Inl ZIP_ER_MEMORY)
            else bind_res (new_entries lib (length (cd_entry cdir)) (za\<lparr>za_cdir := Some cdir, za_zp := Some fp\<rparr>)) (\<lambda>za.
              bind_res (zip_check_torrentzip z za) (\<lambda>za. Inr (Inr (za\<lparr>za_ch_flags := za_flags za\<rparr>))))
        | r \<Rightarrow> r))"

definition zip_open :: "clib \<Rightarrow> 's zlib \<Rightarrow> fsys \<Rightarrow> byte list option \<Rightarrow> u32 \<Rightarrow> (int + 'u zip) res" where
  "zip_open lib z fs fn flags = (case zip_file_exists fs fn flags of
     Inl ze \<Rightarrow> Inr (Inl ze)
   | Inr False \<Rightarrow> zip_allocate_new lib (the fn)
   | Inr True \<Rightarrow> (case os_fopen_rb fs (the fn) of
       None \<Rightarrow> Inr (Inl ZIP_ER_OPEN)
     | Some fp \<Rightarrow> open_archive lib z (the fn) flags fp))"

section \<open>The stream and the comment\<close>

text \<open>Reading never changes the contents of the file.\<close>

definition contents :: "cfile \<Rightarrow> byte list \<times> nat" where
  "contents fp = (fdata fp, fgood fp)"

lemma contents_simps [simp]:
  "contents (fp\<lparr>fpos := a\<rparr>) = contents fp" "contents (fp\<lparr>ferrno := b\<rparr>) = contents fp" "contents (clearerr fp) = contents fp"
  by (simp_all add: contents_def clearerr_def)

lemma fread_contents: "fread n fp = (b, fp') \<Longrightarrow> contents fp' = contents fp"
  by (auto simp: fread_def contents_def Let_def)

lemma fseeko_contents: "fseeko fp off w = (r, fp') \<Longrightarrow> contents fp' = contents fp"
  by (auto simp: fseeko_def Let_def split: if_splits)

lemma opt_readfpstr_contents: "opt_readfpstr lib fp len nulp = (r, fp') \<Longrightarrow> contents fp' = contents fp"
  by (auto simp: opt_readfpstr_def zip_readfpstr_def Let_def split: if_splits prod.splits sum.splits dest!: fread_contents)

lemma dirent_strings_file_contents: "dirent_strings_file lib zde fp = (r, fp') \<Longrightarrow> contents fp' = contents fp"
  by (auto simp: dirent_strings_file_def split: prod.splits sum.splits dest!: opt_readfpstr_contents)

lemma zip_dirent_read_contents: "zip_dirent_read lib fp bufp leftp local = (r, fp') \<Longrightarrow> contents fp' = contents fp"
  by (auto simp: zip_dirent_read_def Let_def split: option.splits if_splits prod.splits sum.splits
      dest!: fread_contents dirent_strings_file_contents)

text \<open>A directory whose comment is as long as it says.\<close>

definition comment_fits :: "zip_cdir \<Rightarrow> bool" where
  "comment_fits cd \<longleftrightarrow> (cd_comment_len cd \<noteq> 0 \<longrightarrow> (\<exists>c. cd_comment cd = Some c \<and> length c = unat (cd_comment_len cd)))"

definition cdir_kept :: "zip_cdir \<Rightarrow> cfile \<Rightarrow> zip_cdir res \<times> cfile \<Rightarrow> bool" where
  "cdir_kept cd fp p \<longleftrightarrow> contents (snd p) = contents fp
     \<and> (\<forall>cd'. fst p = Inr cd' \<longrightarrow> cd_comment cd' = cd_comment cd \<and> cd_comment_len cd' = cd_comment_len cd)"

lemma zip_cdir_grow_comment:
  "zip_cdir_grow lib cd n = Inr cd' \<Longrightarrow> cd_comment cd' = cd_comment cd \<and> cd_comment_len cd' = cd_comment_len cd"
  by (auto simp: zip_cdir_grow_def split: if_splits)

lemma readcdir_loop_kept: "cdir_kept cd fp (readcdir_loop lib cd fp bufp left i)"
proof (induction lib cd fp bufp left i rule: readcdir_loop.induct)
  case (1 lib cd fp bufp left i)
  define cd1 where "cd1 = (if i = length (cd_entry cd) \<and> left > 0
      then (case zip_cdir_grow lib cd (length (cd_entry cd) + 0x10000) of Inl _ \<Rightarrow> cd | Inr cd' \<Rightarrow> cd') else cd)"
  have c1: "cd_comment cd1 = cd_comment cd" "cd_comment_len cd1 = cd_comment_len cd"
    by (auto simp: cd1_def split: sum.split dest: zip_cdir_grow_comment)
  obtain r g where r: "zip_dirent_read lib fp bufp (Some left) False = (r, g)" by fastforce
  note g = zip_dirent_read_contents [OF r]
  show ?case
  proof (cases r)
    case (Inl e)
    then show ?thesis using r g by (subst readcdir_loop.simps) (simp add: cdir_kept_def Let_def)
  next
    case (Inr x)
    obtain zde bufp' left' where x: "x = (zde, bufp', left')" by (cases x)
    let ?cd = "cd1\<lparr>cd_entry := (cd_entry cd1)[i := zde]\<rparr>"
    have "cdir_kept ?cd g (readcdir_loop lib ?cd g bufp' (the left') (Suc i))"
      if "i < length (cd_entry cd1)" "Suc i < length (cd_entry cd1)"
      using that r Inr x by (intro "1.IH" [OF cd1_def r [symmetric] Inr]) auto
    then show ?thesis using r Inr x g c1
      by (subst readcdir_loop.simps) (auto simp: cdir_kept_def Let_def cd1_def [symmetric])
  qed
qed

lemma readcdir_entries_kept: "cdir_kept cd fp (readcdir_entries lib cd fp buf eocd)"
proof -
  obtain r g where f: "fseeko (clearerr fp) (int (unat (cd_offset cd))) SEEK_SET = (r, g)" by fastforce
  have "contents g = contents fp" using fseeko_contents [OF f] by simp
  then show ?thesis using readcdir_loop_kept [of cd fp lib] readcdir_loop_kept [of cd g lib] f
    by (simp add: readcdir_entries_def cdir_kept_def Let_def)
qed

lemma zip_readcdir_kept:
  assumes "zip_readcdir lib fp buf eocd buflen flags = (r, fp')"
  shows "contents fp' = contents fp \<and> (\<forall>cd. r = Inr cd \<longrightarrow> comment_fits cd)"
proof (cases "\<exists>cd1. readcdir_entries lib cd1 fp buf eocd = (r, fp') \<and> comment_fits cd1")
  case True
  then obtain cd1 where "readcdir_entries lib cd1 fp buf eocd = (r, fp')" "comment_fits cd1" by blast
  then show ?thesis using readcdir_entries_kept [of cd1 fp lib buf eocd] by (simp add: cdir_kept_def comment_fits_def)
next
  case False
  have "comment_fits (cd\<lparr>cd_comment := comm\<rparr>)" if "readcdir_comment lib buf eocd (cd_comment_len cd) = Inr comm" for cd comm
    using that by (auto simp: readcdir_comment_def comment_fits_def zip_memdup_def mem_load_def bind_res_Inr_iff checked_def
        split: if_splits option.splits)
  then show ?thesis using assms False
    by (auto simp: zip_readcdir_def Let_def split: if_splits option.splits sum.splits)
qed

lemma checkcons_loop_contents: "checkcons_loop lib cdoff es mn mx fp = (r, fp') \<Longrightarrow> contents fp' = contents fp"
proof (induction es arbitrary: mn mx fp)
  case (Cons e es)
  then show ?case
    by (auto simp: Let_def split: if_splits prod.splits sum.splits dest!: fseeko_contents zip_dirent_read_contents)
qed simp

lemma zip_checkcons_contents: "zip_checkcons lib fp cd = (r, fp') \<Longrightarrow> contents fp' = contents fp"
  by (auto simp: zip_checkcons_def Let_def split: prod.splits sum.splits dest!: checkcons_loop_contents)

text \<open>The search keeps the stream, and the directory it has chosen has a comment that fits.\<close>

definition fcd_kept :: "byte list \<times> nat \<Rightarrow> fcd_state \<Rightarrow> bool" where
  "fcd_kept c st \<longleftrightarrow> contents (fcd_fp st) = c \<and> (\<forall>cd. fcd_cdir st = Some cd \<longrightarrow> comment_fits cd)"

lemma checkcons_value_kept: "fcd_kept c st \<Longrightarrow> fcd_kept c (snd (checkcons_value lib cd st))"
  by (auto simp: checkcons_value_def fcd_kept_def fcd_fail_def split: prod.split sum.split dest!: zip_checkcons_contents)

lemma fcd_candidate_kept:
  assumes "fcd_kept c st"
  shows "fcd_kept c (fcd_candidate lib buf flags eocd st)"
proof -
  obtain r fp where r: "zip_readcdir lib (fcd_fp st) buf eocd (length buf) flags = (r, fp)" by fastforce
  note k = zip_readcdir_kept [OF r]
  have fp: "fcd_kept c (st\<lparr>fcd_fp := fp\<rparr>)" using k assms by (simp add: fcd_kept_def)
  have upd: "fcd_kept c (s\<lparr>fcd_best := b\<rparr>) = fcd_kept c s"
    "fcd_kept c s \<Longrightarrow> comment_fits cd \<Longrightarrow> fcd_kept c (s\<lparr>fcd_cdir := Some cd, fcd_best := b\<rparr>)"
    "fcd_kept c s \<Longrightarrow> comment_fits cd \<Longrightarrow> fcd_kept c (s\<lparr>fcd_cdir := Some cd\<rparr>)" for s b cd
    by (simp_all add: fcd_kept_def)
  show ?thesis
  proof (cases r)
    case (Inl e)
    then show ?thesis using r k assms by (simp add: fcd_candidate_def fcd_kept_def fcd_fail_def)
  next
    case (Inr cdirnew)
    then have "comment_fits cdirnew" using k by simp
    then show ?thesis using r Inr fp upd
      by (simp add: fcd_candidate_def Let_def case_prod_beta checkcons_value_kept split: option.split)
  qed
qed

lemma fcd_loop_kept: "fcd_kept c st \<Longrightarrow> fcd_kept c (fcd_loop lib buf flags m st)"
proof (induction lib buf flags m st rule: fcd_loop.induct)
  case (1 lib buf flags m st)
  then show ?case using fcd_candidate_kept by (subst fcd_loop.simps) (auto split: option.splits)
qed

lemma zip_find_central_dir_kept:
  assumes "zip_find_central_dir lib fp flags len = (r, fp')"
  shows "contents fp' = contents fp \<and> (\<forall>cd. r = Inr cd \<longrightarrow> comment_fits cd)"
proof -
  have k: "fcd_kept (contents g) (fcd_loop lib buf flags 0 \<lparr>fcd_cdir = None, fcd_best = -1, fcd_zerr = ZE ZIP_ER_NOZIP 0,
      fcd_fp = g, fcd_ub = False\<rparr>)" for buf g
    by (rule fcd_loop_kept) (simp add: fcd_kept_def)
  obtain i g where g: "fseeko fp (- int (if len < CDBUFSIZE then len else CDBUFSIZE)) SEEK_END = (i, g)" by fastforce
  obtain buf h where h: "fread CDBUFSIZE (clearerr g) = (buf, h)" by fastforce
  have "contents h = contents fp" "contents g = contents fp" using fseeko_contents [OF g] fread_contents [OF h] by simp_all
  then show ?thesis using assms g h k [of h buf]
    by (auto simp: zip_find_central_dir_def Let_def fcd_kept_def split: if_splits option.splits)
qed

lemma filerange_loop_contents:
  "filerange_loop z len crc fp = (r, fp') \<Longrightarrow> contents fp' = contents fp \<and> r \<noteq> Inl UB"
proof (induction z len crc fp arbitrary: r fp' rule: filerange_loop.induct)
  case (1 z len crc fp)
  obtain bs g where g: "fread (if len > BUFSIZE then BUFSIZE else len) fp = (bs, g)" by fastforce
  note c = fread_contents [OF g]
  show ?case using "1.prems" "1.IH" [OF _ refl g [symmetric] refl] g c
    by (subst (asm) filerange_loop.simps) (auto simp: Let_def split: if_splits)
qed

lemma zip_filerange_crc_contents:
  "zip_filerange_crc z fp start len = (r, fp') \<Longrightarrow> contents fp' = contents fp \<and> r \<noteq> Inl UB"
  by (auto simp: zip_filerange_crc_def Let_def split: if_splits prod.splits dest!: fseeko_contents filerange_loop_contents)

section \<open>An opened archive\<close>

lemma new_entries_total:
  "malloc_total lib \<Longrightarrow> \<not> za_entry_lost za \<Longrightarrow>
     \<exists>a. new_entries lib n za = Inr (za\<lparr>za_nentry_alloc := a, za_entry := za_entry za @ replicate n fresh_entry\<rparr>)"
proof (induction n arbitrary: za)
  case 0
  then show ?case by (intro exI [of _ "za_nentry_alloc za"]) simp
next
  case (Suc n)
  define za1 where "za1 = snd (zip_entry_new lib za)"
  obtain a where a: "za1 = za\<lparr>za_nentry_alloc := a, za_entry := za_entry za @ [fresh_entry]\<rparr>"
  proof
    show "za1 = za\<lparr>za_nentry_alloc := za_nentry_alloc za1, za_entry := za_entry za @ [fresh_entry]\<rparr>"
      using Suc.prems(1) by (simp add: za1_def zip_entry_new_def Let_def malloc_total_def)
  qed
  then have "\<not> za_entry_lost za1" using Suc.prems(2) by simp
  from Suc.IH [OF Suc.prems(1) this] show ?case using Suc.prems(2) a by (auto simp: za1_def [symmetric])
qed

lemma zip_check_torrentzip_total:
  assumes "za_zp za = Some fp" and "za_cdir za = Some cd" and "comment_fits cd"
  shows "\<exists>fp' fl. zip_check_torrentzip z za = Inr (za\<lparr>za_zp := Some fp', za_flags := fl\<rparr>) \<and> contents fp' = contents fp"
proof -
  have same: "za = za\<lparr>za_zp := Some fp, za_flags := za_flags za\<rparr>" using assms(1) by simp
  show ?thesis
  proof (cases "unat (cd_comment_len cd) = 22")
    case True
    then have "cd_comment_len cd \<noteq> 0" by auto
    then obtain c where c: "cd_comment cd = Some c" "length c = 22" using assms(3) True by (auto simp: comment_fits_def)
    obtain n rest where n: "strtoul16 (takeWhile (\<lambda>b. b \<noteq> 0) (drop 14 c)) = (n, rest)" by fastforce
    obtain r g where g: "zip_filerange_crc z fp (unat (cd_offset cd)) (unat (cd_size cd)) = (r, g)" by fastforce
    note k = zip_filerange_crc_contents [OF g]
    show ?thesis
    proof (cases "take 14 c = TORRENT_SIG \<and> rest = []")
      case t: True
      have "\<exists>fl. zip_check_torrentzip z za = Inr (za\<lparr>za_zp := Some g, za_flags := fl\<rparr>)"
        using assms(1,2) True c n g k t
        by (cases r) (auto simp: zip_check_torrentzip_def mem_load_def intro: exI [of _ "za_flags za"] split: fault.split)
      then show ?thesis using k by blast
    next
      case False
      then have "zip_check_torrentzip z za = Inr za" using assms(1,2) True c n by (auto simp: zip_check_torrentzip_def mem_load_def)
      then show ?thesis using same by (metis)
    qed
  next
    case False
    then have "zip_check_torrentzip z za = Inr za" using assms(1,2) by (simp add: zip_check_torrentzip_def)
    then show ?thesis using same by metis
  qed
qed

text \<open>The archive with the directory \<open>cd\<close> of the file \<open>fp\<close>.\<close>

definition opened_on :: "byte list \<Rightarrow> cfile \<Rightarrow> zip_cdir option \<Rightarrow> 'u zip \<Rightarrow> bool" where
  "opened_on fn fp cd za \<longleftrightarrow> just_opened za \<and> za_zn za = Some fn \<and> za_cdir za = cd
     \<and> (\<exists>fp'. za_zp za = Some fp' \<and> contents fp' = contents fp)"

lemma zip_allocate_total:
  "malloc_total lib \<Longrightarrow> zip_allocate_new lib fn = Inr (Inr \<lparr>za_zn = Some fn, za_zp = None, za_error = zip_error_init, za_flags = 0,
     za_ch_flags = 0, za_cdir = None, za_ch_comment = None, za_ch_comment_len = -1, za_nentry_alloc = 0,
     za_entry = [], za_entry_lost = False, za_nfile_alloc = 0, za_file = []\<rparr>)"
  by (simp add: zip_allocate_new_def zip_new_def malloc_total_def)

lemma open_archive_found:
  assumes mt: "malloc_total lib" and "fdata fp \<noteq> []"
    and f: "zip_find_central_dir lib (fp\<lparr>fpos := length (fdata fp)\<rparr>) flags (length (fdata fp)) = (Inr cd, fp1)"
  shows "\<exists>za. open_archive lib z fn flags fp = Inr (Inr za) \<and> opened_on fn fp (Some cd) za"
proof -
  have k: "contents fp1 = contents fp" "comment_fits cd" using zip_find_central_dir_kept [OF f] by simp_all
  obtain za0 :: "'a zip" where za0: "zip_allocate_new lib fn = Inr (Inr za0)" "za_entry za0 = []" "\<not> za_entry_lost za0"
      "za_zn za0 = Some fn" "za_ch_comment_len za0 = -1" "za_ch_comment za0 = None"
    using zip_allocate_total [OF mt, of fn] by fastforce
  let ?za = "za0\<lparr>za_cdir := Some cd, za_zp := Some fp1\<rparr>"
  obtain a where a: "new_entries lib (length (cd_entry cd)) ?za
      = Inr (?za\<lparr>za_nentry_alloc := a, za_entry := replicate (length (cd_entry cd)) fresh_entry\<rparr>)"
    using new_entries_total [OF mt, of ?za "length (cd_entry cd)"] za0(2,3) by auto
  let ?za1 = "?za\<lparr>za_nentry_alloc := a, za_entry := replicate (length (cd_entry cd)) fresh_entry\<rparr>"
  obtain fp2 fl where t: "zip_check_torrentzip z ?za1 = Inr (?za1\<lparr>za_zp := Some fp2, za_flags := fl\<rparr>)" "contents fp2 = contents fp1"
    using zip_check_torrentzip_total [of ?za1 fp1 cd z] k(2) by auto
  have "open_archive lib z fn flags fp = Inr (Inr (?za1\<lparr>za_zp := Some fp2, za_flags := fl, za_ch_flags := fl\<rparr>))"
    using assms(2) f za0(1) a t(1) mt by (simp add: open_archive_def fseeko_def ftello_def malloc_total_def)
  then show ?thesis using k(1) t(2) za0 by (simp add: opened_on_def just_opened_def cdir_nentry_def)
qed

lemma open_archive_cases:
  assumes mt: "malloc_total lib"
  shows "(\<exists>za :: 'u zip. open_archive lib z fn flags fp = Inr (Inr za) \<and> (fdata fp = [] \<and> opened_on fn fp None za
       \<or> fdata fp \<noteq> [] \<and> (\<exists>cd fp1. zip_find_central_dir lib (fp\<lparr>fpos := length (fdata fp)\<rparr>) flags (length (fdata fp)) = (Inr cd, fp1)
           \<and> opened_on fn fp (Some cd) za)))
     \<or> (\<exists>ze se. open_archive lib z fn flags fp = (Inr (Inl ze) :: (int + 'u zip) res) \<and> fdata fp \<noteq> []
          \<and> fst (zip_find_central_dir lib (fp\<lparr>fpos := length (fdata fp)\<rparr>) flags (length (fdata fp))) = Inl (ZE ze se))"
proof -
  let ?fp = "fp\<lparr>fpos := length (fdata fp)\<rparr>"
  have s: "fseeko fp 0 SEEK_END = (0, ?fp)" by (simp add: fseeko_def)
  show ?thesis
  proof (cases "fdata fp = []")
    case True
    then show ?thesis using s
      by (intro disjI1) (simp add: zip_allocate_total [OF mt] open_archive_def ftello_def opened_on_def just_opened_def cdir_nentry_def contents_def)
  next
    case False
    obtain r fp1 where r: "zip_find_central_dir lib ?fp flags (length (fdata fp)) = (r, fp1)" by fastforce
    show ?thesis
    proof (cases r)
      case (Inl f)
      then obtain ze se where "f = ZE ze se" using zip_find_central_dir_no_UB [OF mt, of ?fp flags "length (fdata fp)"] r by (cases f) auto
      then show ?thesis using r Inl False s by (simp add: open_archive_def ftello_def set_error_def)
    next
      case (Inr cd)
      then show ?thesis using open_archive_found [OF mt False] r False by fastforce
    qed
  qed
qed

section \<open>Properties\<close>

text \<open>C5: when allocations succeed, \<open>zip_open\<close> always has a defined result. An archive that it returns is in the state from which
  editing starts, one untouched entry for each entry of the directory that was found in the file, without entries for a new or an
  empty file. Otherwise the error says why: no name, no such file and not asked to create it, a file that must not exist, a file
  that cannot be opened, or what was wrong with the directory.\<close>

theorem zip_open_outcome:
  assumes "malloc_total lib"
  shows "case (zip_open lib z fs fn flags :: (int + 'u zip) res) of
      Inl f \<Rightarrow> False
    | Inr (Inr za) \<Rightarrow> just_opened za \<and> za_zn za = fn \<and> (\<exists>p. fn = Some p \<and>
        (case fs_files fs p of
           None \<Rightarrow> flag_set flags ZIP_CREATE \<and> za_cdir za = None \<and> za_zp za = None
         | Some d \<Rightarrow> (\<exists>fp. za_zp za = Some fp \<and> fdata fp = d) \<and> \<not> flag_set flags ZIP_EXCL
             \<and> (if d = [] then za_cdir za = None
                else \<exists>cd fp'. zip_find_central_dir lib ((os_new_file fs)\<lparr>fdata := d, fpos := length d\<rparr>) flags (length d) = (Inr cd, fp')
                       \<and> za_cdir za = Some cd)))
    | Inr (Inl ze) \<Rightarrow> (case fn of None \<Rightarrow> ze = ZIP_ER_INVAL | Some p \<Rightarrow>
        (case fs_files fs p of
           None \<Rightarrow> \<not> flag_set flags ZIP_CREATE \<and> ze = ZIP_ER_OPEN
         | Some d \<Rightarrow> if flag_set flags ZIP_EXCL then ze = ZIP_ER_EXISTS
             else if fs_fopen fs p \<noteq> None then ze = ZIP_ER_OPEN
             else d \<noteq> [] \<and> (\<exists>se. fst (zip_find_central_dir lib ((os_new_file fs)\<lparr>fdata := d, fpos := length d\<rparr>) flags (length d))
                              = Inl (ZE ze se))))"
proof (cases fn)
  case None
  then show ?thesis by (simp add: zip_open_def zip_file_exists_def)
next
  case (Some p)
  show ?thesis
  proof (cases "fs_files fs p")
    case None
    then show ?thesis using Some
      by (simp add: zip_open_def zip_file_exists_def zip_allocate_total [OF assms] just_opened_def cdir_nentry_def)
  next
    case d: (Some d)
    show ?thesis
    proof (cases "flag_set flags ZIP_EXCL \<or> fs_fopen fs p \<noteq> None")
      case True
      then show ?thesis using Some d by (auto simp: zip_open_def zip_file_exists_def os_fopen_rb_def)
    next
      case False
      let ?fp = "(os_new_file fs)\<lparr>fdata := d\<rparr>"
      have o: "zip_open lib z fs fn flags = (open_archive lib z p flags ?fp :: (int + 'u zip) res)"
        using Some d False by (simp add: zip_open_def zip_file_exists_def os_fopen_rb_def)
      show ?thesis unfolding o using open_archive_cases [where ?'u = 'u, OF assms, of z p flags ?fp] Some d False
        by (elim disjE exE conjE) (auto simp: opened_on_def contents_def)
    qed
  qed
qed

definition empty_file_fs :: fsys where
  "empty_file_fs = \<lparr>fs_files = (\<lambda>p. if p = [0x61] then Some [] else None), fs_remove = (\<lambda>_. None), fs_rename = (\<lambda>_ _. None),
     fs_mkstemp = (\<lambda>t. Inr (t @ [0])), fs_fdopen = (\<lambda>_. None), fs_fclose = (\<lambda>_. None), fs_fopen = (\<lambda>_. None),
     fs_cap = 100, fs_good = 100\<rparr>"

theorem zip_open_outcome_witness:
  "(case (zip_open sample_lib (raw_zlib 0) empty_file_fs (Some [0x62]) 0 :: (int + unit zip) res) of
      Inr (Inl ze) \<Rightarrow> ze = ZIP_ER_OPEN | _ \<Rightarrow> False)
   \<and> (case (zip_open sample_lib (raw_zlib 0) empty_file_fs (Some [0x61]) 0 :: (int + unit zip) res) of
      Inr (Inr za) \<Rightarrow> just_opened za \<and> za_cdir za = None | _ \<Rightarrow> False)"
  using zip_open_outcome [where ?'u = unit and z = "raw_zlib 0" and fs = empty_file_fs and fn = "Some [0x62]" and flags = 0,
      OF malloc_total_sample]
    zip_open_outcome [where ?'u = unit and z = "raw_zlib 0" and fs = empty_file_fs and fn = "Some [0x61]" and flags = 0,
      OF malloc_total_sample]
  by (auto simp: empty_file_fs_def flag_set_def split: sum.splits)

end
