(* ===== verification/Zip_Rewrite.thy ===== *)
theory Zip_Rewrite
  imports Zip_Open
begin

text \<open>
  What \<open>zip_close\<close> writes: the new file consists of the local headers and the data of the surviving entries, in order, and
  a directory that names them, so that opening the file again finds every entry with its data.
\<close>

section \<open>Entries that can be written\<close>

text \<open>A source that keeps the contract and will deliver \<open>c\<close>; a source that has been read and closed.\<close>

definition source_ok :: "'v zip_source \<Rightarrow> byte list \<Rightarrow> zip_stat \<Rightarrow> bool" where
  "source_ok src c st \<longleftrightarrow> (\<exists>C R F. data_source (src_f src) C R F \<and> C (src_ud src) c st)"

definition source_done :: "'v zip_source \<Rightarrow> bool" where
  "source_done src \<longleftrightarrow> (\<exists>C R F. data_source (src_f src) C R F \<and> F (src_ud src))"

text \<open>Where the data of an entry comes from: the archive, with its local header, or a source with its report.\<close>

datatype plan = Kept zip_dirent "byte list" | Added "byte list" zip_stat

definition name_wf :: "byte list \<Rightarrow> bool" where
  "name_wf n \<longleftrightarrow> n \<noteq> [] \<and> length n < 65536 \<and> 0 \<notin> set n"

definition old_entry :: "'u zip \<Rightarrow> nat \<Rightarrow> zip_dirent" where
  "old_entry za i = cd_entry (the (za_cdir za)) ! i"

definition has_old :: "'u zip \<Rightarrow> nat \<Rightarrow> bool" where
  "has_old za i \<longleftrightarrow> (\<exists>cd. za_cdir za = Some cd \<and> i < length (cd_entry cd))"

definition plan_ok :: "clib \<Rightarrow> 'u zip \<Rightarrow> nat \<Rightarrow> plan \<Rightarrow> bool" where
  "plan_ok lib za i p \<longleftrightarrow> (let e = za_entry za ! i in case p of
     Kept lde data \<Rightarrow> \<not> entry_data_changed e \<and> has_old za i \<and> dirent_wf lib (old_entry za i)
       \<and> unat (zde_comp_size (old_entry za i)) = length data
       \<and> (\<exists>fp. za_zp za = Some fp \<and> member_at lib fp (unat (zde_offset (old_entry za i))) lde data)
   | Added c st \<Rightarrow> entry_data_changed e \<and> (\<exists>src. ze_source e = Some src \<and> source_ok src c st) \<and> stamp_ok lib (st_mtime st)
       \<and> length c < 2 ^ 32
       \<and> (ze_ch_filename e = None \<and> ze_state e \<noteq> ZIP_ST_ADDED \<longrightarrow>
            has_old za i \<and> (\<exists>n. zde_filename (old_entry za i) = Some n \<and> name_wf n)))"

definition entry_ready :: "clib \<Rightarrow> 'u zip \<Rightarrow> nat \<Rightarrow> plan \<Rightarrow> bool" where
  "entry_ready lib za i p \<longleftrightarrow> i < length (za_entry za) \<and> plan_ok lib za i p
     \<and> (\<forall>n. ze_ch_filename (za_entry za ! i) = Some n \<longrightarrow> name_wf n)
     \<and> (ze_ch_comment_len (za_entry za ! i) \<noteq> -1 \<longrightarrow>
          str_wf False (ze_ch_comment (za_entry za ! i)) (of_int (ze_ch_comment_len (za_entry za ! i))))"

text \<open>Room for the data, by the bound of zlib, and half a megabyte for the two headers.\<close>

definition plan_data :: "(nat \<Rightarrow> nat) \<Rightarrow> plan \<Rightarrow> nat" where
  "plan_data zb p = (case p of Kept _ data \<Rightarrow> length data
     | Added c st \<Rightarrow> if st_comp_method st = ZIP_CM_STORE then zb (length c) else length c)"

definition plan_room :: "(nat \<Rightarrow> nat) \<Rightarrow> plan \<Rightarrow> nat" where
  "plan_room zb p = plan_data zb p + 2 ^ 19"

definition written_name :: "'u zip \<Rightarrow> nat \<Rightarrow> byte list option" where
  "written_name za i = (let e = za_entry za ! i in case ze_ch_filename e of Some n \<Rightarrow> Some n
     | None \<Rightarrow> if ze_state e = ZIP_ST_ADDED then Some [0x2d] else zde_filename (old_entry za i))"

text \<open>What is written for an entry: the directory entry \<open>cde\<close>, the local header \<open>lde\<close> and the data.\<close>

definition entry_written ::
  "clib \<Rightarrow> 's zlib \<Rightarrow> (byte list \<Rightarrow> byte list \<Rightarrow> bool) \<Rightarrow> 'u zip \<Rightarrow> nat \<Rightarrow> plan \<Rightarrow> zip_dirent \<Rightarrow> zip_dirent \<Rightarrow> byte list \<Rightarrow> bool" where
  "entry_written lib z stream za i p cde lde data \<longleftrightarrow>
     zde_filename cde = written_name za i \<and> unat (zde_comp_size cde) = length data
     \<and> dirent_wf lib cde \<and> dirent_wf lib lde
     \<and> (ze_ch_comment_len (za_entry za ! i) \<noteq> -1 \<longrightarrow> zde_comment cde = ze_ch_comment (za_entry za ! i))
     \<and> (case p of
          Kept _ d \<Rightarrow> data = d \<and> zde_comp_method cde = zde_comp_method (old_entry za i)
            \<and> zde_crc cde = zde_crc (old_entry za i) \<and> zde_uncomp_size cde = zde_uncomp_size (old_entry za i)
            \<and> zde_last_mod cde = zde_last_mod (old_entry za i)
        | Added c st \<Rightarrow> zde_last_mod cde = st_mtime st \<and>
            (if st_comp_method st = ZIP_CM_STORE
             then zde_comp_method cde = ZIP_CM_DEFLATE \<and> stream c data \<and> zde_crc cde = z_crc32 z (z_crc32 z 0 []) c
               \<and> unat (zde_uncomp_size cde) = length c
             else zde_comp_method cde = st_comp_method st \<and> data = c \<and> zde_crc cde = st_crc st
               \<and> zde_uncomp_size cde = of_int (st_size st)))"

section \<open>Headers\<close>

lemma name_wf_str: "name_wf n \<Longrightarrow> str_wf True (Some n) (of_nat (length n))"
  by (auto simp: name_wf_def str_wf_def unsigned_of_nat take_bit_nat_eq_self of_nat_eq_0_iff
      simp flip: unat_eq_0)

lemma dirent_bytes_bound:
  assumes "dirent_wf lib de"
  shows "length (dirent_bytes lib de local) \<le> 2 ^ 18"
proof -
  have "unat (zde_filename_len x) < 65536" "unat (zde_extrafield_len x) < 65536" "unat (zde_comment_len x) < 65536" for x :: zip_dirent
    by (rule unat16_bound)+
  from this [of "dirent_view local de"] show ?thesis
    by (auto simp: length_dirent_bytes [OF assms] dirent_size_def)
qed

lemma plain_wf: "dirent_plain de \<Longrightarrow> stamp_ok lib (zde_last_mod de) \<Longrightarrow> dirent_wf lib de"
  by (simp add: dirent_plain_def dirent_wf_def)

lemma no_torrent: "\<not> flag_set (za_ch_flags za) ZIP_AFL_TORRENT \<Longrightarrow> zip_get_archive_flag za ZIP_AFL_TORRENT 0 = 0"
  by (simp add: zip_get_archive_flag_def flag_set_def)

text \<open>What \<open>close_rename\<close> does to an entry.\<close>

definition rename_to :: "byte list option \<Rightarrow> zip_dirent \<Rightarrow> zip_dirent" where
  "rename_to name d = (case name of None \<Rightarrow> d
     | Some n \<Rightarrow> d\<lparr>zde_filename := Some n, zde_filename_len := of_nat (length n)\<rparr>)"

lemma rename_to_fields [simp]:
  "zde_filename (rename_to name d) = (case name of None \<Rightarrow> zde_filename d | Some n \<Rightarrow> Some n)"
  "zde_comp_method (rename_to name d) = zde_comp_method d" "zde_last_mod (rename_to name d) = zde_last_mod d"
  "zde_crc (rename_to name d) = zde_crc d" "zde_comp_size (rename_to name d) = zde_comp_size d"
  "zde_uncomp_size (rename_to name d) = zde_uncomp_size d" "zde_comment (rename_to name d) = zde_comment d"
  by (simp_all add: rename_to_def split: option.split)

lemma rename_to_wf: "dirent_wf lib d \<Longrightarrow> (\<And>n. name = Some n \<Longrightarrow> name_wf n) \<Longrightarrow> dirent_wf lib (rename_to name d)"
  using name_wf_str by (auto simp: rename_to_def dirent_wf_def split: option.split)

lemma close_rename_total:
  "malloc_total lib \<Longrightarrow> close_rename lib e (de, cde) = Some (rename_to (ze_ch_filename e) de, rename_to (ze_ch_filename e) cde)"
  by (auto simp: close_rename_def rename_to_def malloc_total_def Let_def split: option.split)

lemma close_centry_fields:
  assumes "\<not> flag_set (za_ch_flags za) ZIP_AFL_TORRENT"
  shows "close_centry za e cde out = (if ze_ch_comment_len e \<noteq> -1
    then cde\<lparr>zde_comment := ze_ch_comment e, zde_comment_len := of_int (ze_ch_comment_len e), zde_offset := of_nat (ftello out)\<rparr>
    else cde\<lparr>zde_offset := of_nat (ftello out)\<rparr>)"
  by (simp add: close_centry_def no_torrent [OF assms] Let_def)

lemma close_centry_wf:
  assumes "\<not> flag_set (za_ch_flags za) ZIP_AFL_TORRENT" and "dirent_wf lib cde"
    and "ze_ch_comment_len e \<noteq> -1 \<Longrightarrow> str_wf False (ze_ch_comment e) (of_int (ze_ch_comment_len e))"
  shows "dirent_wf lib (close_centry za e cde out)"
  using assms(2,3) by (auto simp: close_centry_fields [OF assms(1)] dirent_wf_def)

text \<open>The state of the archive after an entry: only the position of the stream and the source of the entry have changed.\<close>

definition after_entry :: "'u zip \<Rightarrow> nat \<Rightarrow> 'u zip \<Rightarrow> bool" where
  "after_entry za i za' \<longleftrightarrow> za_cdir za' = za_cdir za \<and> za_flags za' = za_flags za \<and> za_ch_flags za' = za_ch_flags za
     \<and> za_zn za' = za_zn za \<and> za_entry_lost za' = za_entry_lost za
     \<and> (\<forall>fp. za_zp za = Some fp \<longrightarrow> (\<exists>fp'. za_zp za' = Some fp' \<and> fdata fp' = fdata fp \<and> fgood fp' = fgood fp))
     \<and> (za_entry za' = za_entry za \<and> \<not> entry_data_changed (za_entry za ! i)
        \<or> (\<exists>src. source_done src \<and> za_entry za' = (za_entry za)[i := (za_entry za ! i)\<lparr>ze_source := Some src\<rparr>]))"

section \<open>An entry that is kept\<close>

lemma member_read:
  assumes m: "member_at lib fp off lde data" and mt: "malloc_total lib"
  shows "\<exists>fp'. zip_dirent_read lib (fp\<lparr>fpos := off\<rparr>) None None True = (Inr (dirent_view True lde, None, None), fp')
     \<and> stream_holds fp' data \<and> fdata fp' = fdata fp \<and> fgood fp' = fgood fp"
proof -
  let ?fp = "fp\<lparr>fpos := off\<rparr>" and ?h = "dirent_bytes lib lde True"
  have wf: "dirent_wf lib lde" using m by (simp add: member_at_def)
  have h: "stream_holds ?fp (?h @ data)" using m by (auto simp: member_at_def stream_holds_def)
  have "zip_dirent_read lib ?fp None None True
      = (Inr (dirent_view True lde, None, None), advance (dirent_size True (dirent_view True lde)) ?fp)"
    using zip_dirent_read_file [OF wf mt h] by (simp add: left_short_def)
  then show ?thesis using fread_holds(2) [OF h] by (simp add: length_dirent_bytes [OF wf] advance_def)
qed

text \<open>The two directory entries of kept data, before the changes of name and comment.\<close>

definition kept_des :: "zip_dirent \<Rightarrow> zip_dirent \<Rightarrow> zip_dirent \<times> zip_dirent" where
  "kept_des de e = (if flag_set (zde_bitflags de) ZIP_GPBF_DATA_DESCRIPTOR
     then (de\<lparr>zde_crc := zde_crc e, zde_comp_size := zde_comp_size e, zde_uncomp_size := zde_uncomp_size e,
              zde_bitflags := zde_bitflags de AND NOT ZIP_GPBF_DATA_DESCRIPTOR\<rparr>,
           e\<lparr>zde_bitflags := zde_bitflags e AND NOT ZIP_GPBF_DATA_DESCRIPTOR\<rparr>)
     else (de, e))"

lemma kept_des_wf:
  assumes "dirent_wf lib de" and "dirent_wf lib e" and "kept_des de e = (de', e')"
  shows "dirent_wf lib de'" "dirent_wf lib e'" "zde_filename e' = zde_filename e" "zde_comp_method e' = zde_comp_method e"
    "zde_crc e' = zde_crc e" "zde_comp_size e' = zde_comp_size e" "zde_uncomp_size e' = zde_uncomp_size e"
    "zde_last_mod e' = zde_last_mod e"
  using assms by (auto simp: kept_des_def dirent_wf_def split: if_splits)

lemma close_dirent_old_kept:
  assumes "has_old za i" and "za_zp za = Some fp" and "malloc_total lib"
    and "member_at lib fp (unat (zde_offset (old_entry za i))) lde data"
  shows "\<exists>fp'. close_dirent_old lib za i d = (Inr (Some (kept_des (dirent_view True lde) (old_entry za i)), True), za\<lparr>za_zp := Some fp'\<rparr>)
     \<and> stream_holds fp' data \<and> fdata fp' = fdata fp \<and> fgood fp' = fgood fp"
proof -
  obtain cd where cd: "za_cdir za = Some cd" "i < length (cd_entry cd)" "old_entry za i = cd_entry cd ! i"
    using assms(1) by (auto simp: has_old_def old_entry_def)
  obtain fp' where fp': "zip_dirent_read lib (fp\<lparr>fpos := unat (zde_offset (cd_entry cd ! i))\<rparr>) None None True
        = (Inr (dirent_view True lde, None, None), fp')"
      "stream_holds fp' data" "fdata fp' = fdata fp" "fgood fp' = fgood fp"
    using member_read [OF assms(4,3)] cd(3) by auto
  then show ?thesis using assms(2) cd
    by (auto simp: close_dirent_old_def fseeko_def Let_def kept_des_def)
qed

lemma close_kept:
  assumes ready: "entry_ready lib (cl_za s) i (Kept lde data)" and fl: "\<not> flag_set (za_ch_flags (cl_za s)) ZIP_AFL_TORRENT"
    and mt: "malloc_total lib" and e: "at_end (cl_out s)"
    and room: "length (fdata (cl_out s)) + plan_room zb (Kept lde data) \<le> fcap (cl_out s)"
  shows "\<exists>za' cde de out'. close_entry lib z False j i s = Some (Inr (True, s\<lparr>cl_za := za',
        cl_cd := (cl_cd s)\<lparr>cd_entry := (cd_entry (cl_cd s))[j := cde]\<rparr>, cl_out := out', cl_de := True\<rparr>))
     \<and> entry_written lib z stream (cl_za s) i (Kept lde data) cde de data
     \<and> appended (cl_out s) (dirent_bytes lib de True @ data) out' \<and> zde_offset cde = of_nat (length (fdata (cl_out s)))
     \<and> after_entry (cl_za s) i za'"
proof -
  let ?za = "cl_za s" and ?e = "za_entry (cl_za s) ! i" and ?old = "old_entry (cl_za s) i"
  obtain fp where k: "\<not> entry_data_changed ?e" "has_old ?za i" "dirent_wf lib ?old" "unat (zde_comp_size ?old) = length data"
      "za_zp ?za = Some fp" "member_at lib fp (unat (zde_offset ?old)) lde data"
    using ready by (auto simp: entry_ready_def plan_ok_def Let_def)
  obtain fp1 where o: "close_dirent_old lib ?za i (cl_de s)
        = (Inr (Some (kept_des (dirent_view True lde) ?old), True), ?za\<lparr>za_zp := Some fp1\<rparr>)"
      "stream_holds fp1 data" "fdata fp1 = fdata fp" "fgood fp1 = fgood fp"
    using close_dirent_old_kept [OF k(2,5) mt k(6)] by blast
  obtain de0 cde0 where d0: "kept_des (dirent_view True lde) ?old = (de0, cde0)" by fastforce
  have "dirent_wf lib (dirent_view True lde)" using k(6) by (intro dirent_wf_view) (simp add: member_at_def)
  note wf0 = kept_des_wf [OF this k(3) d0]
  define de where "de = rename_to (ze_ch_filename ?e) de0"
  define cde where "cde = close_centry ?za ?e (rename_to (ze_ch_filename ?e) cde0) (cl_out s)"
  have nm: "\<And>n. ze_ch_filename ?e = Some n \<Longrightarrow> name_wf n" using ready by (simp add: entry_ready_def)
  have wf: "dirent_wf lib de" "dirent_wf lib cde"
    using rename_to_wf [OF wf0(1) nm] close_centry_wf [OF fl rename_to_wf [OF wf0(2) nm]] ready
    by (auto simp: de_def cde_def entry_ready_def)
  have added: "ze_state ?e \<noteq> ZIP_ST_ADDED" using k(1) by (auto simp: entry_data_changed_def)
  have w: "entry_written lib z stream ?za i (Kept lde data) cde de data" and cs: "unat (zde_comp_size cde) = length data"
    using wf k(4) wf0(3-8) added
    by (simp_all add: entry_written_def cde_def close_centry_fields [OF fl] written_name_def Let_def split: option.split)
  let ?h = "dirent_bytes lib de True"
  have hb: "length ?h \<le> 2 ^ 18" by (rule dirent_bytes_bound [OF wf(1)])
  have room1: "length (fdata (cl_out s)) + length ?h \<le> fcap (cl_out s)"
    using room hb by (simp add: plan_room_def)
  note a = appended_fput [OF e room1]
  have hw: "zip_dirent_write lib de (cl_out s) True = (Inr (), fput ?h (cl_out s))"
    using appended_simps(1) [OF a] by (simp add: zip_dirent_write_bytes [OF wf(1)] at_end_def)
  have room2: "length (fdata (fput ?h (cl_out s))) + length data \<le> fcap (fput ?h (cl_out s))"
    using room hb by (simp add: appended_simps(2,3) [OF a] plan_room_def plan_data_def)
  obtain out' where c: "copy_data fp1 (length data) (fput ?h (cl_out s)) = (Inr (), advance (length data) fp1, out')"
      "appended (fput ?h (cl_out s)) data out'"
    using copy_data_ok [OF o(2) appended_simps(1) [OF a] room2] by blast
  let ?za' = "?za\<lparr>za_zp := Some (advance (length data) fp1)\<rparr>"
  have "close_copy lib de cde (?za\<lparr>za_zp := Some fp1\<rparr>) (cl_out s) = Inr (True, ?za', out')"
    using hw c(1) cs by (simp add: close_copy_def)
  moreover have "close_centry (?za\<lparr>za_zp := Some fp1\<rparr>) = close_centry ?za"
    by (intro ext) (simp add: close_centry_def zip_get_archive_flag_def)
  ultimately have "close_entry lib z False j i s = Some (Inr (True, s\<lparr>cl_za := ?za',
        cl_cd := (cl_cd s)\<lparr>cd_entry := (cd_entry (cl_cd s))[j := cde]\<rparr>, cl_out := out', cl_de := True\<rparr>))"
    using k(1) o(1) d0 close_rename_total [OF mt, of ?e de0 cde0]
    by (simp add: close_entry_def close_data_def Let_def flip: de_def cde_def)
  moreover have "zde_offset cde = of_nat (length (fdata (cl_out s)))"
    using e by (simp add: cde_def close_centry_fields [OF fl] at_end_def ftello_def)
  moreover have "after_entry ?za i ?za'"
    using k(1,5) o(3,4) by (auto simp: after_entry_def advance_def)
  ultimately show ?thesis using w appended_trans [OF a c(2)] by blast
qed

section \<open>An entry with new data\<close>

lemma close_dirent_new_plain:
  assumes "plan_ok lib za i (Added c st)" and fl: "\<not> flag_set (za_ch_flags za) ZIP_AFL_TORRENT" and "malloc_total lib"
    and "\<And>n. ze_ch_filename (za_entry za ! i) = Some n \<Longrightarrow> name_wf n"
  shows "\<exists>de. close_dirent_new lib za i = Inr (de, de) \<and> dirent_plain (rename_to (ze_ch_filename (za_entry za ! i)) de)
     \<and> zde_filename (rename_to (ze_ch_filename (za_entry za ! i)) de) = written_name za i"
proof -
  let ?e = "za_entry za ! i"
  have m: "\<And>ty n. malloc_ok lib ty n" using assms(3) by (simp add: malloc_total_def)
  have plain: "dirent_plain (zip_dirent_init\<lparr>zde_filename := Some n, zde_filename_len := of_nat (length n)\<rparr>)" if "name_wf n" for n
    using name_wf_str [OF that] by (simp add: dirent_plain_def zip_dirent_init_def)
  have dash: "name_wf [0x2d]" by (simp add: name_wf_def)
  show ?thesis
  proof (cases "ze_ch_filename ?e")
    case (Some n)
    then show ?thesis using plain [of n] assms(4)
      by (auto simp: close_dirent_new_def no_torrent [OF fl] Let_def rename_to_def written_name_def)
  next
    case None
    show ?thesis
    proof (cases "ze_state ?e = ZIP_ST_ADDED")
      case True
      then show ?thesis using None plain [OF dash] m
        by (auto simp: close_dirent_new_def no_torrent [OF fl] Let_def rename_to_def written_name_def)
    next
      case False
      then obtain n where "has_old za i" "zde_filename (old_entry za i) = Some n" "name_wf n"
        using assms(1) None by (auto simp: plan_ok_def Let_def)
      then show ?thesis using None False plain [of n] m
        by (auto simp: close_dirent_new_def no_torrent [OF fl] Let_def rename_to_def written_name_def has_old_def old_entry_def)
    qed
  qed
qed

text \<open>\<open>add_data\<close> for a source that keeps the contract, on both paths.\<close>

lemma add_data_source:
  assumes src: "source_ok src c st" and de: "dirent_plain de" and e: "at_end ft" and fl: "\<not> flag_set (za_ch_flags za) ZIP_AFL_TORRENT"
    and ok: "deflate_ok z R w zb stream" and crc: "crc_running z"
    and room: "length (fdata ft) + 30 + unat (zde_filename_len de) + plan_data zb (Added c st) \<le> fcap ft"
  shows "\<exists>de' out ft' ud'. add_data lib z za src de ft = Some (Inr (0, de', za, ft', ud'))
     \<and> appended ft (dirent_bytes lib de' True @ out) ft' \<and> length out \<le> plan_data zb (Added c st) \<and> source_done (src\<lparr>src_ud := ud'\<rparr>)
     \<and> dirent_plain de' \<and> zde_filename de' = zde_filename de \<and> zde_last_mod de' = st_mtime st \<and> zde_comp_size de' = of_nat (length out)
     \<and> (if st_comp_method st = ZIP_CM_STORE
        then zde_comp_method de' = ZIP_CM_DEFLATE \<and> stream c out \<and> zde_crc de' = z_crc32 z (z_crc32 z 0 []) c
          \<and> zde_uncomp_size de' = of_nat (length c)
        else zde_comp_method de' = st_comp_method st \<and> out = c \<and> zde_crc de' = st_crc st \<and> zde_uncomp_size de' = of_int (st_size st))"
proof -
  obtain C Rd F where ds: "data_source (src_f src) C Rd F" and cl: "C (src_ud src) c st" using src by (auto simp: source_ok_def)
  have s: "\<lparr>src_f = src_f src, src_ud = src_ud src\<rparr> = src" by simp
  have fin: "source_done (src\<lparr>src_ud := u\<rparr>)" if "F u" for u using ds that by (auto simp: source_done_def)
  have hdr: "add_data_header lib za de st' = de\<lparr>zde_last_mod := st_mtime st', zde_comp_method := st_comp_method st',
      zde_crc := st_crc st', zde_uncomp_size := of_int (st_size st'), zde_comp_size := of_int (st_comp_size st')\<rparr>" for st'
    by (simp add: add_data_header_def no_torrent [OF fl])
  have plain: "dirent_plain (de\<lparr>zde_last_mod := t, zde_comp_method := m, zde_crc := k, zde_uncomp_size := us, zde_comp_size := cs\<rparr>)"
    for t m k us cs using de by (simp add: dirent_plain_def)
  show ?thesis
  proof (cases "st_comp_method st = ZIP_CM_STORE")
    case True
    have bound: "length out \<le> zb (length c)" if "stream c out" for out using ok that unfolding deflate_ok_def by blast
    from data_source.add_data_deflates [OF ds cl de e True ok crc, of lib za] room True
    obtain out ft' ud' where "let de' = add_data_header lib za de (st\<lparr>st_comp_method := ZIP_CM_DEFLATE, st_size := int (length c),
          st_comp_size := int (length out), st_crc := z_crc32 z (z_crc32 z 0 []) c\<rparr>)
        in add_data lib z za src de ft = Some (Inr (0, de', za, ft', ud'))
        \<and> appended ft (dirent_bytes lib de' True @ out) ft' \<and> stream c out \<and> F ud'"
      by (auto simp: plan_data_def s)
    then show ?thesis using True fin bound plain
      by (auto simp: hdr Let_def plan_data_def)
  next
    case False
    from data_source.add_data_copies [OF ds cl de e False, of lib za z] room False
    obtain ft' ud' where "let de' = add_data_header lib za de (st\<lparr>st_comp_size := int (length c)\<rparr>)
        in add_data lib z za src de ft = Some (Inr (0, de', za, ft', ud'))
        \<and> appended ft (dirent_bytes lib de' True @ c) ft' \<and> F ud'"
      by (auto simp: plan_data_def s)
    then show ?thesis using False fin plain
      by (auto simp: hdr Let_def plan_data_def)
  qed
qed

lemma close_added:
  assumes ready: "entry_ready lib (cl_za s) i (Added c st)" and fl: "\<not> flag_set (za_ch_flags (cl_za s)) ZIP_AFL_TORRENT"
    and mt: "malloc_total lib" and e: "at_end (cl_out s)" and ok: "deflate_ok z R w zb stream" and crc: "crc_running z"
    and room: "length (fdata (cl_out s)) + plan_room zb (Added c st) \<le> fcap (cl_out s)" and cap: "fcap (cl_out s) < 2 ^ 32"
  shows "\<exists>za' cde de data out'. close_entry lib z False j i s = Some (Inr (True, s\<lparr>cl_za := za',
        cl_cd := (cl_cd s)\<lparr>cd_entry := (cd_entry (cl_cd s))[j := cde]\<rparr>, cl_out := out', cl_de := True\<rparr>))
     \<and> entry_written lib z stream (cl_za s) i (Added c st) cde de data \<and> length data \<le> plan_data zb (Added c st)
     \<and> appended (cl_out s) (dirent_bytes lib de True @ data) out' \<and> zde_offset cde = of_nat (length (fdata (cl_out s)))
     \<and> after_entry (cl_za s) i za'"
proof -
  let ?za = "cl_za s" and ?e = "za_entry (cl_za s) ! i"
  have p: "plan_ok lib ?za i (Added c st)" and nm: "\<And>n. ze_ch_filename ?e = Some n \<Longrightarrow> name_wf n"
    and len: "i < length (za_entry ?za)" using ready by (simp_all add: entry_ready_def)
  obtain src where src: "entry_data_changed ?e" "ze_source ?e = Some src" "source_ok src c st" "stamp_ok lib (st_mtime st)"
      "length c < 2 ^ 32"
    using p by (auto simp: plan_ok_def Let_def)
  obtain de0 where d0: "close_dirent_new lib ?za i = Inr (de0, de0)" "dirent_plain (rename_to (ze_ch_filename ?e) de0)"
      "zde_filename (rename_to (ze_ch_filename ?e) de0) = written_name ?za i"
    using close_dirent_new_plain [OF p fl mt nm] by blast
  define de1 where "de1 = rename_to (ze_ch_filename ?e) de0"
  have "unat (zde_filename_len de1) < 65536" by (rule unat16_bound)
  then have room': "length (fdata (cl_out s)) + 30 + unat (zde_filename_len de1) + plan_data zb (Added c st) \<le> fcap (cl_out s)"
    using room by (simp add: plan_room_def)
  obtain de data out' ud where a: "add_data lib z ?za src de1 (cl_out s) = Some (Inr (0, de, ?za, out', ud))"
      "appended (cl_out s) (dirent_bytes lib de True @ data) out'" "length data \<le> plan_data zb (Added c st)"
      "source_done (src\<lparr>src_ud := ud\<rparr>)" "dirent_plain de" "zde_filename de = zde_filename de1" "zde_last_mod de = st_mtime st"
      "zde_comp_size de = of_nat (length data)"
      "if st_comp_method st = ZIP_CM_STORE
        then zde_comp_method de = ZIP_CM_DEFLATE \<and> stream c data \<and> zde_crc de = z_crc32 z (z_crc32 z 0 []) c
          \<and> zde_uncomp_size de = of_nat (length c)
        else zde_comp_method de = st_comp_method st \<and> data = c \<and> zde_crc de = st_crc st \<and> zde_uncomp_size de = of_int (st_size st)"
    using add_data_source [OF src(3) d0(2) [folded de1_def] e fl ok crc room', of lib] by blast
  define cde1 where "cde1 = close_centry ?za ?e de1 (cl_out s)"
  define cde where "cde = centry_data de cde1"
  let ?za' = "upd_entry ?za i (\<lambda>ze. ze\<lparr>ze_source := Some (src\<lparr>src_ud := ud\<rparr>)\<rparr>)"
  have "close_add lib z i de1 ?za (cl_out s) = Some (Inr (True, de, ?za', out'))"
    using src(1,2) a(1) by (simp add: close_add_def)
  then have step: "close_entry lib z False j i s = Some (Inr (True, s\<lparr>cl_za := ?za',
        cl_cd := (cl_cd s)\<lparr>cd_entry := (cd_entry (cl_cd s))[j := cde]\<rparr>, cl_out := out', cl_de := True\<rparr>))"
    using src(1) d0(1) close_rename_total [OF mt, of ?e de0 de0]
    by (simp add: close_entry_def close_data_def Let_def cde_def flip: de1_def cde1_def)
  have "length data < 2 ^ 32" using a(3) room cap by (simp add: plan_room_def)
  then have cs: "unat (of_nat (length data) :: u32) = length data" "unat (of_nat (length c) :: u32) = length c"
    using src(5) by (simp_all add: unsigned_of_nat take_bit_nat_eq_self)
  have pl: "dirent_plain de1" using d0(2) by (simp add: de1_def)
  have "str_wf False (zde_comment cde) (zde_comment_len cde)"
    using pl ready by (auto simp: cde_def centry_data_def cde1_def close_centry_fields [OF fl] dirent_plain_def entry_ready_def)
  then have wf: "dirent_wf lib cde" "dirent_wf lib de"
    using pl src(4) a(7) plain_wf [OF a(5)]
    by (auto simp: cde_def centry_data_def cde1_def close_centry_fields [OF fl] dirent_plain_def dirent_wf_def)
  have "entry_written lib z stream ?za i (Added c st) cde de data"
    using wf a(6-9) d0(3) cs
    by (auto simp: entry_written_def cde_def centry_data_def cde1_def close_centry_fields [OF fl] simp flip: de1_def)
  moreover have "zde_offset cde = of_nat (length (fdata (cl_out s)))"
    using e by (simp add: cde_def centry_data_def cde1_def close_centry_fields [OF fl] at_end_def ftello_def)
  moreover have "after_entry ?za i ?za'" using a(4) by (auto simp: after_entry_def upd_entry_def)
  ultimately show ?thesis using step a(2,3) by blast
qed

section \<open>All entries\<close>

lemma close_ready:
  assumes "entry_ready lib (cl_za s) i p" and "\<not> flag_set (za_ch_flags (cl_za s)) ZIP_AFL_TORRENT"
    and "malloc_total lib" and "at_end (cl_out s)" and "deflate_ok z R w zb stream" and "crc_running z"
    and "length (fdata (cl_out s)) + plan_room zb p \<le> fcap (cl_out s)" and "fcap (cl_out s) < 2 ^ 32"
  shows "\<exists>za' cde de data out'. close_entry lib z False j i s = Some (Inr (True, s\<lparr>cl_za := za',
        cl_cd := (cl_cd s)\<lparr>cd_entry := (cd_entry (cl_cd s))[j := cde]\<rparr>, cl_out := out', cl_de := True\<rparr>))
     \<and> entry_written lib z stream (cl_za s) i p cde de data \<and> length data \<le> plan_data zb p
     \<and> appended (cl_out s) (dirent_bytes lib de True @ data) out' \<and> zde_offset cde = of_nat (length (fdata (cl_out s)))
     \<and> after_entry (cl_za s) i za'"
proof (cases p)
  case (Kept lde data)
  have "length data \<le> plan_data zb p" by (simp add: Kept plan_data_def)
  then show ?thesis using close_kept [of lib s i lde data zb z j stream] assms(1-4,7) unfolding Kept by blast
next
  case (Added c st)
  then show ?thesis using close_added [of lib s i c st z R w zb stream j] assms by blast
qed

lemma after_entry_other:
  assumes "after_entry za i za'" and "k \<noteq> i"
  shows "za_entry za' ! k = za_entry za ! k" "old_entry za' k = old_entry za k" "has_old za' k = has_old za k"
    "length (za_entry za') = length (za_entry za)"
  using assms by (auto simp: after_entry_def old_entry_def has_old_def)

lemma entry_ready_after:
  assumes a: "after_entry za i za'" and "k \<noteq> i" and ready: "entry_ready lib za k p"
  shows "entry_ready lib za' k p"
proof -
  have "\<exists>fp'. za_zp za' = Some fp' \<and> member_at lib fp' off lde data"
    if "za_zp za = Some fp" "member_at lib fp off lde data" for fp off lde data
    using a that by (auto simp: after_entry_def member_at_def)
  then have "plan_ok lib za k p \<Longrightarrow> plan_ok lib za' k p"
    unfolding plan_ok_def after_entry_other [OF a assms(2)] Let_def by (cases p) auto
  then show ?thesis using ready after_entry_other [OF a assms(2)] by (simp add: entry_ready_def)
qed

lemma entry_written_after:
  assumes "after_entry za i za'" and "k \<noteq> i"
  shows "entry_written lib z stream za' k p cde lde data = entry_written lib z stream za k p cde lde data"
  unfolding entry_written_def written_name_def after_entry_other [OF assms] ..

text \<open>\<open>located\<close>: the file holds the local header and the data of an entry where the directory entry says.\<close>

definition located :: "clib \<Rightarrow> byte list \<Rightarrow> zip_dirent \<Rightarrow> zip_dirent \<Rightarrow> byte list \<Rightarrow> bool" where
  "located lib file cde lde data \<longleftrightarrow>
     (\<exists>pre rest. file = pre @ dirent_bytes lib lde True @ data @ rest \<and> zde_offset cde = of_nat (length pre))"

lemma located_append: "located lib file cde lde data \<Longrightarrow> located lib (file @ x) cde lde data"
  unfolding located_def by (metis append.assoc)

lemma located_here:
  "appended ft (dirent_bytes lib lde True @ data) ft' \<Longrightarrow> zde_offset cde = of_nat (length (fdata ft)) \<Longrightarrow>
     located lib (fdata ft') cde lde data"
  unfolding located_def by (intro exI [of _ "fdata ft"] exI [of _ "[]"]) (simp add: appended_def)

text \<open>The archive after the entries \<open>is\<close> have been written.\<close>

definition after_entries :: "'u zip \<Rightarrow> nat list \<Rightarrow> 'u zip \<Rightarrow> bool" where
  "after_entries za is za' \<longleftrightarrow> za_ch_flags za' = za_ch_flags za \<and> za_zn za' = za_zn za \<and> za_entry_lost za' = za_entry_lost za
     \<and> length (za_entry za') = length (za_entry za)
     \<and> (\<forall>k < length (za_entry za). za_entry za' ! k = za_entry za ! k
          \<and> (k \<in> set is \<longrightarrow> \<not> entry_data_changed (za_entry za ! k))
        \<or> (\<exists>src. source_done src \<and> ze_source (za_entry za' ! k) = Some src))"

lemma close_loop_ready:
  assumes mt: "malloc_total lib" and ok: "deflate_ok z R w zb stream" and crc: "crc_running z"
    and "distinct is" and "\<forall>i \<in> set is. entry_ready lib (cl_za s) i (P i)"
    and "\<not> flag_set (za_ch_flags (cl_za s)) ZIP_AFL_TORRENT" and "at_end (cl_out s)"
    and "length (fdata (cl_out s)) + sum_list (map (\<lambda>i. plan_data zb (P i) + 2 ^ 18) is) + 2 ^ 18 \<le> fcap (cl_out s)"
    and "fcap (cl_out s) < 2 ^ 32" and "map fst fl = is" and "j + length is = length (cd_entry (cl_cd s))"
  shows "\<exists>za' cdes out'. close_loop lib z False j fl s = Some (Inr (True, s\<lparr>cl_za := za',
        cl_cd := (cl_cd s)\<lparr>cd_entry := take j (cd_entry (cl_cd s)) @ cdes\<rparr>, cl_out := out', cl_de := (cl_de s \<or> is \<noteq> [])\<rparr>))
     \<and> length cdes = length is \<and> (\<exists>bs. appended (cl_out s) bs out'
          \<and> length bs \<le> sum_list (map (\<lambda>i. plan_data zb (P i) + 2 ^ 18) is))
     \<and> (\<forall>k < length is. \<exists>lde data. entry_written lib z stream (cl_za s) (is ! k) (P (is ! k)) (cdes ! k) lde data
          \<and> located lib (fdata out') (cdes ! k) lde data)
     \<and> after_entries (cl_za s) is za'"
  using assms(4-)
proof (induction "is" arbitrary: s fl j)
  case Nil
  then show ?case
    by (intro exI [of _ "cl_za s"] exI [of _ "[]"] exI [of _ "cl_out s"])
      (auto simp: after_entries_def intro: appended_refl)
next
  case (Cons i "is")
  obtain nm fl' where fl: "fl = (i, nm) # fl'" "map fst fl' = is" using Cons.prems(7) by (cases fl) auto
  let ?n = "\<lambda>i. plan_data zb (P i) + 2 ^ 18"
  have r: "length (fdata (cl_out s)) + plan_room zb (P i) \<le> fcap (cl_out s)"
    using Cons.prems(5) by (simp add: plan_room_def)
  have "entry_ready lib (cl_za s) i (P i)" using Cons.prems(2) by simp
  from close_ready [OF this Cons.prems(3) mt Cons.prems(4) ok crc r Cons.prems(6), of j]
  obtain za1 cde de data out1 where 1: "close_entry lib z False j i s = Some (Inr (True, s\<lparr>cl_za := za1,
        cl_cd := (cl_cd s)\<lparr>cd_entry := (cd_entry (cl_cd s))[j := cde]\<rparr>, cl_out := out1, cl_de := True\<rparr>))"
      "entry_written lib z stream (cl_za s) i (P i) cde de data" "length data \<le> plan_data zb (P i)"
      "appended (cl_out s) (dirent_bytes lib de True @ data) out1" "zde_offset cde = of_nat (length (fdata (cl_out s)))"
      "after_entry (cl_za s) i za1" by blast
  define s1 where "s1 = s\<lparr>cl_za := za1, cl_cd := (cl_cd s)\<lparr>cd_entry := (cd_entry (cl_cd s))[j := cde]\<rparr>, cl_out := out1, cl_de := True\<rparr>"
  have hb: "length (dirent_bytes lib de True) \<le> 2 ^ 18"
    using 1(2) by (intro dirent_bytes_bound) (simp add: entry_written_def)
  have i: "i \<notin> set is" "distinct is" using Cons.prems(1) by auto
  have "\<forall>k \<in> set is. entry_ready lib (cl_za s1) k (P k)"
  proof
    fix k
    assume k: "k \<in> set is"
    then have "k \<noteq> i" using i(1) by auto
    from entry_ready_after [OF 1(6) this] show "entry_ready lib (cl_za s1) k (P k)"
      using Cons.prems(2) k by (simp add: s1_def)
  qed
  moreover have "\<not> flag_set (za_ch_flags (cl_za s1)) ZIP_AFL_TORRENT" "at_end (cl_out s1)" "fcap (cl_out s1) < 2 ^ 32"
    using Cons.prems(3,6) 1(4,6) by (simp_all add: s1_def after_entry_def appended_simps)
  moreover have "length (fdata (cl_out s1)) + sum_list (map ?n is) + 2 ^ 18 \<le> fcap (cl_out s1)"
    using Cons.prems(5) 1(3) hb by (simp add: s1_def appended_simps(2,3) [OF 1(4)])
  moreover have "Suc j + length is = length (cd_entry (cl_cd s1))" using Cons.prems(8) by (simp add: s1_def)
  ultimately obtain za' cdes out' bs where 2: "close_loop lib z False (Suc j) fl' s1 = Some (Inr (True, s1\<lparr>cl_za := za',
        cl_cd := (cl_cd s1)\<lparr>cd_entry := take (Suc j) (cd_entry (cl_cd s1)) @ cdes\<rparr>, cl_out := out', cl_de := (cl_de s1 \<or> is \<noteq> [])\<rparr>))"
      "length cdes = length is" "appended (cl_out s1) bs out'" "length bs \<le> sum_list (map ?n is)"
      "\<forall>k < length is. \<exists>lde data. entry_written lib z stream (cl_za s1) (is ! k) (P (is ! k)) (cdes ! k) lde data
          \<and> located lib (fdata out') (cdes ! k) lde data"
      "after_entries (cl_za s1) is za'"
    using Cons.IH [OF i(2), of s1 fl' "Suc j"] fl(2) by metis
  have tk: "take (Suc j) (cd_entry (cl_cd s1)) = take j (cd_entry (cl_cd s)) @ [cde]"
    using Cons.prems(8) by (simp add: s1_def take_Suc_conv_app_nth)
  have "close_loop lib z False j fl s = Some (Inr (True, s\<lparr>cl_za := za',
        cl_cd := (cl_cd s)\<lparr>cd_entry := take j (cd_entry (cl_cd s)) @ cde # cdes\<rparr>, cl_out := out', cl_de := True\<rparr>))"
    using 1(1) 2(1) tk by (simp add: fl(1) flip: s1_def) (simp add: s1_def)
  moreover have "\<exists>bs. appended (cl_out s) bs out' \<and> length bs \<le> sum_list (map ?n (i # is))"
    using appended_trans [OF 1(4), of bs out'] 2(3,4) 1(3) hb
    by (intro exI [of _ "(dirent_bytes lib de True @ data) @ bs"]) (simp add: s1_def)
  moreover have "\<exists>lde data. entry_written lib z stream (cl_za s) ((i # is) ! k) (P ((i # is) ! k)) ((cde # cdes) ! k) lde data
          \<and> located lib (fdata out') ((cde # cdes) ! k) lde data" if "k < length (i # is)" for k
  proof (cases k)
    case 0
    have "located lib (fdata out') cde de data"
      using located_append [OF located_here [OF 1(4,5)], of bs] 2(3) by (simp add: s1_def appended_simps(2))
    then show ?thesis using 0 1(2) by auto
  next
    case (Suc m)
    then have m: "m < length is" "is ! m \<noteq> i" using that i(1) by auto
    have "cl_za s1 = za1" by (simp add: s1_def)
    with 2(5) [rule_format, OF m(1)] show ?thesis by (simp add: Suc entry_written_after [OF 1(6) m(2)])
  qed
  moreover have "after_entries (cl_za s) (i # is) za'"
  proof -
    have "za_entry za' ! k = za_entry (cl_za s) ! k \<and> (k \<in> set (i # is) \<longrightarrow> \<not> entry_data_changed (za_entry (cl_za s) ! k))
        \<or> (\<exists>src. source_done src \<and> ze_source (za_entry za' ! k) = Some src)" if "k < length (za_entry (cl_za s))" for k
    proof (cases "k = i")
      case True
      have l: "length (za_entry za1) = length (za_entry (cl_za s))" using 1(6) by (auto simp: after_entry_def)
      show ?thesis using 1(6) 2(6) i(1) that l unfolding True by (auto simp: s1_def after_entries_def after_entry_def)
    next
      case False
      note o = after_entry_other [OF 1(6) False]
      show ?thesis using 2(6) that False unfolding after_entries_def by (auto simp: s1_def o)
    qed
    then show ?thesis using 1(6) 2(6) by (auto simp: after_entries_def after_entry_def s1_def)
  qed
  ultimately show ?case using 2(2)
    by (intro exI [of _ za'] exI [of _ "cde # cdes"] exI [of _ out']) auto
qed

section \<open>Before and after the entries\<close>

definition survivors :: "'u zip \<Rightarrow> nat list" where
  "survivors za = filter (\<lambda>i. ze_state (za_entry za ! i) \<noteq> ZIP_ST_DELETED) [0..<length (za_entry za)]"

lemma length_survivors: "length (survivors za) = snd (zip_changed za)"
proof -
  have "za_entry za = map (\<lambda>i. za_entry za ! i) [0..<length (za_entry za)]" by (simp add: map_nth)
  then have "filter (\<lambda>e. ze_state e \<noteq> ZIP_ST_DELETED) (za_entry za) = map (\<lambda>i. za_entry za ! i) (survivors za)"
    unfolding survivors_def by (metis (no_types, lifting) comp_apply filter_cong filter_map)
  then show ?thesis by (simp add: zip_changed_def)
qed

lemma survivors_simps: "distinct (survivors za)" "i \<in> set (survivors za) \<longleftrightarrow> i < length (za_entry za) \<and> ze_state (za_entry za ! i) \<noteq> ZIP_ST_DELETED"
  by (auto simp: survivors_def)

text \<open>The list of files names the surviving entries in order; asking for their names changes the error at most.\<close>

lemma filelist_loop_indices:
  "filelist_loop za i n = (fl, za') \<Longrightarrow> i + n \<le> length (za_entry za) \<Longrightarrow>
     map fst fl = filter (\<lambda>i. ze_state (za_entry za ! i) \<noteq> ZIP_ST_DELETED) [i..<i + n] \<and> (\<exists>e. za' = za\<lparr>za_error := e\<rparr>)"
proof (induction n arbitrary: za i fl za')
  case 0
  then show ?case by (auto intro: exI [of _ "za_error za"])
next
  case (Suc n)
  have u: "[i..<Suc (i + n)] = i # [Suc i..<Suc (i + n)]" by (simp add: upt_conv_Cons)
  show ?case
  proof (cases "ze_state (za_entry za ! i) = ZIP_ST_DELETED")
    case True
    then show ?thesis using Suc.IH [of za "Suc i" fl] Suc.prems by (simp add: u del: upt_Suc)
  next
    case False
    obtain name e where g: "zip_get_name za (int i) 0 = (name, za\<lparr>za_error := e\<rparr>)"
      by (cases "zip_get_name_e za (int i) 0 (Some (za_error za))") (simp add: zip_get_name_def)
    obtain fl1 za1 where f: "filelist_loop (za\<lparr>za_error := e\<rparr>) (Suc i) n = (fl1, za1)" by fastforce
    from Suc.IH [OF f] Suc.prems show ?thesis using False g f by (auto simp: u simp del: upt_Suc)
  qed
qed

text \<open>The comment of the archive: the pending one, or the one that was read.\<close>

definition comment_ok :: "'u zip \<Rightarrow> bool" where
  "comment_ok za \<longleftrightarrow> (if za_ch_comment_len za = -1 then (\<forall>cd. za_cdir za = Some cd \<longrightarrow> str_wf False (cd_comment cd) (cd_comment_len cd))
     else 0 < za_ch_comment_len za \<and> za_ch_comment_len za < 65536
       \<and> (\<exists>c. za_ch_comment za = Some c \<and> int (length c) = za_ch_comment_len za))"

lemma close_comment_ok:
  assumes "comment_ok za" and mt: "malloc_total lib" and "\<not> flag_set (za_ch_flags za) ZIP_AFL_TORRENT"
    and "\<not> flag_set (za_flags za) ZIP_AFL_TORRENT" and cd: "cd_comment cd = None" "cd_comment_len cd = 0"
  shows "\<exists>cd'. close_comment lib za cd = (Inr (Some cd'), za) \<and> cd_entry cd' = cd_entry cd
     \<and> str_wf False (cd_comment cd') (cd_comment_len cd') \<and> cd_comment cd' = fst (zip_get_archive_comment za 0)"
proof -
  have f: "zip_get_archive_flag za ZIP_AFL_TORRENT x = 0" for x
    using assms(3,4) by (simp add: zip_get_archive_flag_def)
  have m: "malloc_ok lib t n" for t n using mt by (simp add: malloc_total_def)
  show ?thesis
  proof (cases "za_ch_comment_len za = -1")
    case True
    then show ?thesis using assms(1) cd
      by (cases "za_cdir za") (auto simp: close_comment_def f zip_cdir_set_comment_def set_comment_def zip_memdup_def m mem_load_def
          comment_ok_def zip_get_archive_comment_def str_wf_def flag_set_def)
  next
    case False
    then obtain c where c: "za_ch_comment za = Some c" "int (length c) = za_ch_comment_len za" "0 < za_ch_comment_len za"
        "length c < 65536"
      using assms(1) by (auto simp: comment_ok_def)
    have n: "unat (of_nat (length c) :: u16) = length c" using c(4) by (simp add: unsigned_of_nat take_bit_nat_eq_self)
    have "(of_nat (length c) :: u16) \<noteq> 0" using c(2,3) n by fastforce
    then have "str_wf False (Some c) (of_nat (length c))" by (simp add: str_wf_def n)
    then show ?thesis using False c(1)
      by (auto simp: close_comment_def f zip_cdir_set_comment_def set_comment_def zip_memdup_def m mem_load_def
          zip_get_archive_comment_def flag_set_def c(2) [symmetric])
  qed
qed

text \<open>Freeing the archive calls the sources once more.\<close>

lemma zip_source_free_done:
  assumes "source_done src"
  shows "\<exists>u. zip_source_free (Some src) = Some (Inr u)"
proof -
  obtain C R F where "data_source (src_f src) C R F" "F (src_ud src)" using assms by (auto simp: source_done_def)
  from data_source.free_call [OF this] show ?thesis by (auto simp: zip_source_free_def)
qed

lemma free_entries_done:
  "(\<forall>e \<in> set es. case ze_source e of None \<Rightarrow> True | Some src \<Rightarrow> source_done src) \<Longrightarrow> free_entries es = Some (Inr ())"
proof (induction es)
  case (Cons e es)
  then show ?case using zip_source_free_done
    by (cases "ze_source e") (fastforce simp: zip_source_free_def)+
qed simp

lemma zip_free_after:
  assumes ok: "archive_ok za" and a: "after_entries za (survivors za) za'" and "\<not> za_entry_lost za"
  shows "zip_free (za'\<lparr>za_zp := x\<rparr>) = Some (Inr ())"
proof -
  have "case ze_source (za_entry za' ! k) of None \<Rightarrow> True | Some src \<Rightarrow> source_done src" if k: "k < length (za_entry za)" for k
  proof (cases "ze_source (za_entry za' ! k)")
    case (Some src)
    show ?thesis
    proof (rule ccontr)
      assume "\<not> ?thesis"
      then have eq: "za_entry za' ! k = za_entry za ! k" and un: "k \<in> set (survivors za) \<longrightarrow> \<not> entry_data_changed (za_entry za ! k)"
        using a k Some by (auto simp: after_entries_def)
      have "entry_ok (cdir_nentry za) k (za_entry za ! k)" using ok k by (simp add: archive_ok_def)
      then show False using Some un k unfolding eq
        by (auto simp: survivors_simps entry_ok_def entry_data_changed_def split: zip_state.splits)
    qed
  qed simp
  then have "free_entries (za_entry za') = Some (Inr ())"
    using a by (intro free_entries_done) (auto simp: in_set_conv_nth after_entries_def)
  then show ?thesis by (simp add: zip_free_def)
qed

section \<open>The whole archive\<close>

text \<open>
  \<open>closable\<close>: the archive has changes and every surviving entry can be written, by the plan \<open>P\<close>; \<open>archive_room\<close> bounds the
  size of the new file; \<open>device_ok\<close>: the calls on the temporary file succeed, the archive can be opened and the device has room.
\<close>

definition closable :: "clib \<Rightarrow> 'u zip \<Rightarrow> (nat \<Rightarrow> plan) \<Rightarrow> bool" where
  "closable lib za P \<longleftrightarrow> archive_ok za \<and> \<not> za_entry_lost za \<and> fst (zip_changed za) \<and> comment_ok za
     \<and> \<not> flag_set (za_ch_flags za) ZIP_AFL_TORRENT \<and> \<not> flag_set (za_flags za) ZIP_AFL_TORRENT
     \<and> survivors za \<noteq> [] \<and> length (survivors za) < 65536 \<and> (\<forall>i \<in> set (survivors za). entry_ready lib za i (P i))"

definition archive_room :: "(nat \<Rightarrow> nat) \<Rightarrow> 'u zip \<Rightarrow> (nat \<Rightarrow> plan) \<Rightarrow> nat" where
  "archive_room zb za P = sum_list (map (\<lambda>i. plan_room zb (P i)) (survivors za)) + EOCDLEN + 65535"

definition device_ok :: "fsys \<Rightarrow> byte list \<Rightarrow> nat \<Rightarrow> bool" where
  "device_ok fs zn n \<longleftrightarrow> (\<exists>temp. fs_mkstemp fs (zn @ [0x2e, 0x58, 0x58, 0x58, 0x58, 0x58, 0x58]) = Inr temp \<and> temp \<noteq> zn
       \<and> fs_fdopen fs temp = None \<and> fs_fclose fs temp = None \<and> fs_rename fs temp zn = None)
     \<and> fs_fopen fs zn = None \<and> n \<le> fs_cap fs \<and> fs_cap fs \<le> fs_good fs \<and> fs_cap fs < 2 ^ 32"

lemma entry_facts_error [simp]:
  "entry_ready lib (za\<lparr>za_error := e\<rparr>) i p = entry_ready lib za i p"
  "entry_written lib z stream (za\<lparr>za_error := e\<rparr>) i p cde lde data = entry_written lib z stream za i p cde lde data"
  "after_entries (za\<lparr>za_error := e\<rparr>) is za' = after_entries za is za'"
proof -
  have o: "old_entry (za\<lparr>za_error := e\<rparr>) i = old_entry za i" "has_old (za\<lparr>za_error := e\<rparr>) i = has_old za i"
    by (simp_all add: old_entry_def has_old_def)
  show "entry_ready lib (za\<lparr>za_error := e\<rparr>) i p = entry_ready lib za i p"
    by (cases p) (simp_all add: entry_ready_def plan_ok_def o)
  show "entry_written lib z stream (za\<lparr>za_error := e\<rparr>) i p cde lde data = entry_written lib z stream za i p cde lde data"
    unfolding entry_written_def written_name_def Let_def o by simp
qed (simp add: after_entries_def)

lemma central_bytes_bound:
  "\<forall>e \<in> set es. dirent_wf lib e \<Longrightarrow> length (central_bytes lib es) \<le> length es * 2 ^ 18"
proof (induction es)
  case (Cons e es)
  then show ?case using dirent_bytes_bound [of lib e False] by simp
qed simp

lemma room_split:
  "sum_list (map (\<lambda>i. plan_room zb (P i)) is) = sum_list (map (\<lambda>i. plan_data zb (P i) + 2 ^ 18) is) + length is * 2 ^ 18"
  by (induction "is") (simp_all add: plan_room_def)

lemma located_member:
  assumes "located lib file cde lde data" and "dirent_wf lib lde" and "fdata fp = file @ x" and "length (fdata fp) \<le> fgood fp"
    and "length (fdata fp) < 2 ^ 32"
  shows "member_at lib fp (unat (zde_offset cde)) lde data"
proof -
  obtain pre rest where f: "file = pre @ dirent_bytes lib lde True @ data @ rest" "zde_offset cde = of_nat (length pre)"
    using assms(1) by (auto simp: located_def)
  then have "unat (zde_offset cde) = length pre" using assms(3,5) by (simp add: unsigned_of_nat take_bit_nat_eq_self)
  then show ?thesis using assms f by (auto simp: member_at_def)
qed

lemma located_members:
  assumes "\<forall>k < n. \<exists>lde data. entry_written lib z stream za (is ! k) (P (is ! k)) (es ! k) lde data \<and> located lib file (es ! k) lde data"
    and "fdata fp = file @ x" and "length (fdata fp) \<le> fgood fp" and "length (fdata fp) < 2 ^ 32"
  shows "\<forall>k < n. \<exists>lde data. entry_written lib z stream za (is ! k) (P (is ! k)) (es ! k) lde data
      \<and> member_at lib fp (unat (zde_offset (es ! k))) lde data"
proof (intro allI impI)
  fix k
  assume "k < n"
  then obtain lde data where l: "entry_written lib z stream za (is ! k) (P (is ! k)) (es ! k) lde data"
      "located lib file (es ! k) lde data" using assms(1) by blast
  from l(1) have "dirent_wf lib lde" by (simp add: entry_written_def)
  from located_member [OF l(2) this assms(2-4)] l(1)
  show "\<exists>lde data. entry_written lib z stream za (is ! k) (P (is ! k)) (es ! k) lde data
      \<and> member_at lib fp (unat (zde_offset (es ! k))) lde data" by blast
qed

text \<open>The end of a successful attempt: the directory is written, and the file takes the place of the archive.\<close>

lemma close_finish_ok:
  assumes wf: "cdir_wf lib (cl_cd s)" and e: "at_end (cl_out s)" and fl: "\<not> flag_set (za_ch_flags (cl_za s)) ZIP_AFL_TORRENT"
    and room: "length (fdata (cl_out s)) + length (central_bytes lib (cd_entry (cl_cd s))) + EOCDLEN
                 + unat (cd_comment_len (cl_cd s)) \<le> fcap (cl_out s)"
    and free: "zip_free ((cl_za s)\<lparr>za_zp := None\<rparr>) = Some (Inr ())"
    and fs: "za_zn (cl_za s) = Some zn" "fs_fclose fs temp = None" "fs_rename fs temp zn = None" "temp \<noteq> zn"
  shows "\<exists>fs'. close_finish lib z fs temp True s = Some (Inr (0, fs', None)) \<and> (\<exists>f. fs' = fs\<lparr>fs_files := f\<rparr>)
     \<and> fs_files fs' zn = Some (fdata (cl_out s) @ central_bytes lib (cd_entry (cl_cd s))
          @ eocd_bytes (placed lib (length (fdata (cl_out s))) (cl_cd s)))"
proof -
  let ?cd = "placed lib (length (fdata (cl_out s))) (cl_cd s)"
  let ?bs = "central_bytes lib (cd_entry (cl_cd s)) @ eocd_bytes ?cd"
  have com: "str_wf False (cd_comment ?cd) (cd_comment_len ?cd)" using wf by (simp add: cdir_wf_def placed_def)
  have "length (fdata (cl_out s)) + length ?bs \<le> fcap (cl_out s)"
    using room length_eocd_bytes [OF com] by (simp add: placed_def)
  then have d: "fdata (fput ?bs (cl_out s)) = fdata (cl_out s) @ ?bs" using fput_end(2) [OF e] by blast
  have "write_cdir lib z (cl_za s) (cl_cd s) (cl_out s) = (Inr (0, cl_za s), fput ?bs (cl_out s))"
    by (simp add: write_cdir_def zip_cdir_write_bytes [OF wf e room] no_torrent [OF fl])
  then show ?thesis using fs free d
    by (simp add: close_finish_def close_install_def os_fclose_out_def os_rename_def) blast
qed

text \<open>The loop over the surviving entries, from the new file and an empty directory.\<close>

lemma close_survivors:
  assumes cl: "closable lib za P" and mt: "malloc_total lib" and ok: "deflate_ok z R w zb stream" and crc: "crc_running z"
    and room: "archive_room zb za P \<le> fcap out" and cap: "fcap out < 2 ^ 32" and out: "at_end out" "fdata out = []"
    and fl: "map fst fl = survivors za" and cd: "length (cd_entry cd) = length (survivors za)"
  shows "\<exists>s. close_loop lib z False 0 fl \<lparr>cl_za = za\<lparr>za_error := e\<rparr>, cl_cd = cd, cl_out = out, cl_de = False\<rparr> = Some (Inr (True, s))
     \<and> length (cd_entry (cl_cd s)) = length (survivors za) \<and> cd_comment (cl_cd s) = cd_comment cd
     \<and> cd_comment_len (cl_cd s) = cd_comment_len cd \<and> at_end (cl_out s) \<and> fcap (cl_out s) = fcap out
     \<and> length (fdata (cl_out s)) + length (survivors za) * 2 ^ 18 + EOCDLEN + 65535 \<le> fcap out
     \<and> (\<forall>k < length (survivors za). \<exists>lde data.
          entry_written lib z stream za (survivors za ! k) (P (survivors za ! k)) (cd_entry (cl_cd s) ! k) lde data
          \<and> located lib (fdata (cl_out s)) (cd_entry (cl_cd s) ! k) lde data)
     \<and> after_entries za (survivors za) (cl_za s)"
proof -
  let ?s = "\<lparr>cl_za = za\<lparr>za_error := e\<rparr>, cl_cd = cd, cl_out = out, cl_de = False\<rparr>"
  let ?n = "sum_list (map (\<lambda>i. plan_data zb (P i) + 2 ^ 18) (survivors za))"
  have "survivors za \<noteq> []" using cl by (simp add: closable_def)
  then have "2 ^ 18 \<le> length (survivors za) * 2 ^ 18" by (simp add: Suc_le_eq)
  then have r: "length (fdata (cl_out ?s)) + ?n + 2 ^ 18 \<le> fcap (cl_out ?s)"
    using room out(2) by (simp add: archive_room_def room_split)
  have "\<forall>i \<in> set (survivors za). entry_ready lib (cl_za ?s) i (P i)" "\<not> flag_set (za_ch_flags (cl_za ?s)) ZIP_AFL_TORRENT"
    using cl by (simp_all add: closable_def)
  from close_loop_ready [OF mt ok crc survivors_simps(1) this _ r _ fl, of 0] cap out(1) cd
  obtain za' cdes out' bs where l: "close_loop lib z False 0 fl ?s = Some (Inr (True, ?s\<lparr>cl_za := za',
        cl_cd := (cl_cd ?s)\<lparr>cd_entry := take 0 (cd_entry (cl_cd ?s)) @ cdes\<rparr>, cl_out := out', cl_de := (cl_de ?s \<or> survivors za \<noteq> [])\<rparr>))"
      "length cdes = length (survivors za)" "appended out bs out'" "length bs \<le> ?n"
      "\<forall>k < length (survivors za). \<exists>lde data. entry_written lib z stream za (survivors za ! k) (P (survivors za ! k)) (cdes ! k) lde data
          \<and> located lib (fdata out') (cdes ! k) lde data"
      "after_entries za (survivors za) za'"
    by auto
  have "length (fdata out') + length (survivors za) * 2 ^ 18 + EOCDLEN + 65535 \<le> fcap out"
    using room l(4) out(2) by (simp add: archive_room_def room_split appended_simps(2) [OF l(3)])
  then show ?thesis using l appended_simps(1,3) [OF l(3)] by simp
qed

text \<open>What comes before the loop succeeds, so that \<open>zip_close\<close> is the loop and what follows it.\<close>

lemma zip_close_starts:
  assumes cl: "closable lib za P" and mt: "malloc_total lib" and zn: "za_zn za = Some zn" and dev: "device_ok fs zn n"
  shows "\<exists>temp cd fl e. zip_close lib z qsort fs (Some za)
        = bind_call (close_loop lib z False 0 fl \<lparr>cl_za = za\<lparr>za_error := e\<rparr>, cl_cd = cd, cl_out = os_new_file fs, cl_de = False\<rparr>)
            (\<lambda>(ok, s). close_finish lib z (fs\<lparr>fs_files := (fs_files fs)(temp \<mapsto> [])\<rparr>) temp ok s)
     \<and> map fst fl = survivors za \<and> length (cd_entry cd) = length (survivors za) \<and> str_wf False (cd_comment cd) (cd_comment_len cd)
     \<and> cd_comment cd = fst (zip_get_archive_comment za 0)
     \<and> temp \<noteq> zn \<and> fs_fclose fs temp = None \<and> fs_rename fs temp zn = None"
proof -
  note c = cl [unfolded closable_def]
  have m: "malloc_ok lib t k" for t k using mt by (simp add: malloc_total_def)
  have ch: "zip_changed za = (True, length (survivors za))" "length (survivors za) \<noteq> 0"
    using c by (simp_all add: prod_eq_iff length_survivors [symmetric])
  let ?cd0 = "\<lparr>cd_entry = replicate (length (survivors za)) zip_dirent_init, cd_size = 0, cd_offset = 0, cd_comment = None, cd_comment_len = 0\<rparr>"
  obtain cd where cd: "close_comment lib za ?cd0 = (Inr (Some cd), za)" "cd_entry cd = cd_entry ?cd0"
      "str_wf False (cd_comment cd) (cd_comment_len cd)" "cd_comment cd = fst (zip_get_archive_comment za 0)"
    using close_comment_ok [of za lib ?cd0] c mt by auto
  obtain temp where t: "fs_mkstemp fs (zn @ [0x2e, 0x58, 0x58, 0x58, 0x58, 0x58, 0x58]) = Inr temp" "temp \<noteq> zn"
      "fs_fdopen fs temp = None" "fs_fclose fs temp = None" "fs_rename fs temp zn = None"
    using dev by (auto simp: device_ok_def)
  let ?fs = "fs\<lparr>fs_files := (fs_files fs)(temp \<mapsto> [])\<rparr>"
  obtain fl e where fl: "filelist_loop za 0 (length (za_entry za)) = (fl, za\<lparr>za_error := e\<rparr>)" "map fst fl = survivors za"
    using filelist_loop_indices [of za 0 "length (za_entry za)"]
    by (cases "filelist_loop za 0 (length (za_entry za))") (auto simp: survivors_def)
  have torr: "zip_get_archive_flag (za\<lparr>za_error := e\<rparr>) ZIP_AFL_TORRENT x = 0" for x
    using c by (simp add: zip_get_archive_flag_def)
  have "zip_create_temp_output lib fs za = (Inr (Some (temp, os_new_file fs)), ?fs, za)"
    using t by (simp add: zip_create_temp_output_def zn m Let_def os_new_file_def)
  then have "zip_close_write lib z qsort fs za cd
      = bind_call (close_loop lib z False 0 fl \<lparr>cl_za = za\<lparr>za_error := e\<rparr>, cl_cd = cd, cl_out = os_new_file fs, cl_de = False\<rparr>)
          (\<lambda>(ok, s). close_finish lib z ?fs temp ok s)"
    using fl(1) torr by (simp add: zip_close_write_def sort_filelist_def)
  then have "zip_close lib z qsort fs (Some za)
      = bind_call (close_loop lib z False 0 fl \<lparr>cl_za = za\<lparr>za_error := e\<rparr>, cl_cd = cd, cl_out = os_new_file fs, cl_de = False\<rparr>)
          (\<lambda>(ok, s). close_finish lib z ?fs temp ok s)"
    using c cd(1) by (simp add: zip_close_def m ch zip_cdir_new_def)
  then show ?thesis using fl(2) cd(2-4) t(2,4,5) by (intro exI conjI) simp_all
qed

text \<open>The file that is written.\<close>

definition new_file :: "clib \<Rightarrow> 'u closing \<Rightarrow> byte list" where
  "new_file lib s = fdata (cl_out s) @ central_bytes lib (cd_entry (cl_cd s))
     @ eocd_bytes (placed lib (length (fdata (cl_out s))) (cl_cd s))"

lemma zip_close_writes:
  fixes za :: "'u zip"
  assumes cl: "closable lib za P" and mt: "malloc_total lib" and ok: "deflate_ok z R w zb stream" and crc: "crc_running z"
    and zn: "za_zn za = Some zn" and dev: "device_ok fs zn (archive_room zb za P)"
  shows "\<exists>(s :: 'u closing) fs'. zip_close lib z qsort fs (Some za) = Some (Inr (0, fs', None)) \<and> cdir_wf lib (cl_cd s)
     \<and> length (cd_entry (cl_cd s)) = length (survivors za) \<and> cd_comment (cl_cd s) = fst (zip_get_archive_comment za 0)
     \<and> (\<forall>k < length (survivors za). \<exists>lde data.
          entry_written lib z stream za (survivors za ! k) (P (survivors za ! k)) (cd_entry (cl_cd s) ! k) lde data
          \<and> located lib (fdata (cl_out s)) (cd_entry (cl_cd s) ! k) lde data)
     \<and> fs_files fs' zn = Some (new_file lib s) \<and> (\<exists>f. fs' = fs\<lparr>fs_files := f\<rparr>) \<and> length (new_file lib s) \<le> fs_cap fs"
proof -
  note c = cl [unfolded closable_def]
  let ?n = "length (survivors za)"
  obtain temp cd1 fl e where st: "zip_close lib z qsort fs (Some za)
        = bind_call (close_loop lib z False 0 fl \<lparr>cl_za = za\<lparr>za_error := e\<rparr>, cl_cd = cd1, cl_out = os_new_file fs, cl_de = False\<rparr>)
            (\<lambda>(ok, s). close_finish lib z (fs\<lparr>fs_files := (fs_files fs)(temp \<mapsto> [])\<rparr>) temp ok s)"
      "map fst fl = survivors za" "length (cd_entry cd1) = ?n" "str_wf False (cd_comment cd1) (cd_comment_len cd1)"
      "cd_comment cd1 = fst (zip_get_archive_comment za 0)" "temp \<noteq> zn" "fs_fclose fs temp = None" "fs_rename fs temp zn = None"
    using zip_close_starts [OF cl mt zn dev] by blast
  have size: "archive_room zb za P \<le> fs_cap fs" "fs_cap fs \<le> fs_good fs" "fs_cap fs < 2 ^ 32"
    using dev by (auto simp: device_ok_def)
  obtain s where s: "close_loop lib z False 0 fl \<lparr>cl_za = za\<lparr>za_error := e\<rparr>, cl_cd = cd1, cl_out = os_new_file fs, cl_de = False\<rparr>
        = Some (Inr (True, s))"
      "length (cd_entry (cl_cd s)) = ?n" "cd_comment (cl_cd s) = cd_comment cd1" "cd_comment_len (cl_cd s) = cd_comment_len cd1"
      "at_end (cl_out s)" "fcap (cl_out s) = fs_cap fs" "length (fdata (cl_out s)) + ?n * 2 ^ 18 + EOCDLEN + 65535 \<le> fs_cap fs"
      "\<forall>k < ?n. \<exists>lde data. entry_written lib z stream za (survivors za ! k) (P (survivors za ! k)) (cd_entry (cl_cd s) ! k) lde data
          \<and> located lib (fdata (cl_out s)) (cd_entry (cl_cd s) ! k) lde data"
      "after_entries za (survivors za) (cl_za s)"
    using close_survivors [OF cl mt ok crc _ _ _ _ st(2), of "os_new_file fs" cd1 e] size st(3)
    by (auto simp: os_new_file_def at_end_def)
  let ?cb = "central_bytes lib (cd_entry (cl_cd s))" and ?cd = "placed lib (length (fdata (cl_out s))) (cl_cd s)"
  have es: "\<forall>d \<in> set (cd_entry (cl_cd s)). dirent_wf lib d" using s(2,8) by (auto simp: in_set_conv_nth entry_written_def)
  then have wf: "cdir_wf lib (cl_cd s)" using s(2-4) c st(4) by (auto simp: cdir_wf_def)
  have "unat (cd_comment_len (cl_cd s)) < 65536" by (rule unat16_bound)
  then have room: "length (fdata (cl_out s)) + length ?cb + EOCDLEN + unat (cd_comment_len (cl_cd s)) \<le> fcap (cl_out s)"
    using central_bytes_bound [OF es] s(2,6,7) by simp
  have free: "zip_free ((cl_za s)\<lparr>za_zp := None\<rparr>) = Some (Inr ())" using zip_free_after [OF _ s(9)] c by simp
  have "za_zn (cl_za s) = Some zn" "\<not> flag_set (za_ch_flags (cl_za s)) ZIP_AFL_TORRENT"
    using s(9) zn c by (simp_all add: after_entries_def)
  then obtain fs' where f: "close_finish lib z (fs\<lparr>fs_files := (fs_files fs)(temp \<mapsto> [])\<rparr>) temp True s = Some (Inr (0, fs', None))"
      "\<exists>f. fs' = fs\<lparr>fs_files := f\<rparr>" "fs_files fs' zn = Some (fdata (cl_out s) @ ?cb @ eocd_bytes ?cd)"
    using close_finish_ok [OF wf s(5) _ room free, of zn "fs\<lparr>fs_files := (fs_files fs)(temp \<mapsto> [])\<rparr>" temp z] st(6-8) by auto
  have "length (new_file lib s) \<le> fs_cap fs"
    using room s(6) length_eocd_bytes [of ?cd] wf by (simp add: new_file_def placed_def cdir_wf_def)
  moreover have "zip_close lib z qsort fs (Some za) = Some (Inr (0, fs', None))" by (simp add: st(1) s(1) f(1))
  ultimately show ?thesis using f(2,3) wf s(2,3,8) st(5)
    by (intro exI [of _ s] exI [of _ fs']) (simp add: new_file_def)
qed

text \<open>The names in an archive that was just opened are those of its directory.\<close>

lemma cur_names_opened:
  assumes "just_opened za" and "za_cdir za = Some cd"
  shows "cur_names za = map zde_filename (cd_entry cd)"
proof -
  have "cur_name za i = zde_filename (cd_entry cd ! i)" if "i < length (cd_entry cd)" for i
    using assms that by (simp add: cur_name_entry just_opened_def cdir_nentry_def entry_name_def fresh_entry_def)
  then show ?thesis using assms
    by (intro nth_equalityI) (simp_all add: cur_names_def just_opened_def cdir_nentry_def)
qed

text \<open>C3: closing and opening again. \<open>zip_close\<close> on an archive with changes, on a device with room, returns 0. Unless other data at
  the end of the new file looks like the end of a directory, \<open>zip_open\<close> then gives an archive with one untouched entry for
  every surviving entry, in order and under its name, and with the comment. At the offset of each entry the file holds a local
  header and the data: unchanged data byte for byte, added data as the bytes of its source or as what zlib makes of them, with the
  check sum and the sizes of the data.\<close>

theorem zip_close_reads_back:
  fixes za :: "'u zip"
  assumes cl: "closable lib za P" and mt: "malloc_total lib" and ok: "deflate_ok z R w zb stream" and crc: "crc_running z"
    and zn: "za_zn za = Some zn" and dev: "device_ok fs zn (archive_room zb za P)"
    and flags: "\<not> flag_set flags ZIP_CHECKCONS" "\<not> flag_set flags ZIP_EXCL"
  shows "\<exists>fs' d. zip_close lib z qsort fs (Some za) = Some (Inr (0, fs', None)) \<and> fs_files fs' zn = Some d
     \<and> (sole_eocd d \<longrightarrow> (\<exists>(za' :: 'u zip) cd fp. zip_open lib z fs' (Some zn) flags = Inr (Inr za') \<and> just_opened za'
          \<and> cur_names za' = map (written_name za) (survivors za)
          \<and> za_cdir za' = Some cd \<and> cd_comment cd = fst (zip_get_archive_comment za 0)
          \<and> za_zp za' = Some fp \<and> fdata fp = d
          \<and> (\<forall>k < length (survivors za). \<exists>lde data.
               entry_written lib z stream za (survivors za ! k) (P (survivors za ! k)) (cd_entry cd ! k) lde data
               \<and> member_at lib fp (unat (zde_offset (cd_entry cd ! k))) lde data)))"
proof -
  obtain s :: "'u closing" and fs' where s: "zip_close lib z qsort fs (Some za) = Some (Inr (0, fs', None))" "cdir_wf lib (cl_cd s)"
      "length (cd_entry (cl_cd s)) = length (survivors za)" "cd_comment (cl_cd s) = fst (zip_get_archive_comment za 0)"
      "\<forall>k < length (survivors za). \<exists>lde data.
         entry_written lib z stream za (survivors za ! k) (P (survivors za ! k)) (cd_entry (cl_cd s) ! k) lde data
         \<and> located lib (fdata (cl_out s)) (cd_entry (cl_cd s) ! k) lde data"
      "fs_files fs' zn = Some (new_file lib s)" "\<exists>f. fs' = fs\<lparr>fs_files := f\<rparr>" "length (new_file lib s) \<le> fs_cap fs"
    using zip_close_writes [OF cl mt ok crc zn dev] by metis
  let ?cd = "placed lib (length (fdata (cl_out s))) (cl_cd s)" and ?fp = "(os_new_file fs)\<lparr>fdata := new_file lib s\<rparr>"
  have fo: "fs_fopen fs zn = None" "fs_cap fs \<le> fs_good fs" "fs_cap fs < 2 ^ 32" using dev by (simp_all add: device_ok_def)
  have good: "length (new_file lib s) \<le> fs_good fs" "length (new_file lib s) < 2 ^ 32" using s(8) fo by linarith+
  have names: "zde_filename (cd_entry (cl_cd s) ! k) = written_name za (survivors za ! k)" if "k < length (survivors za)" for k
    using s(5) that by (auto simp: entry_written_def)
  have "\<exists>(za' :: 'u zip) fp. zip_open lib z fs' (Some zn) flags = Inr (Inr za') \<and> just_opened za' \<and> za_cdir za' = Some ?cd \<and> za_zp za' = Some fp
      \<and> fdata fp = new_file lib s \<and> fgood fp = fs_good fs" if sole: "sole_eocd (new_file lib s)"
  proof -
    have "\<exists>fp1. zip_find_central_dir lib (?fp\<lparr>fpos := length (fdata ?fp)\<rparr>) flags (length (fdata ?fp)) = (Inr ?cd, fp1)"
      using zip_find_placed [OF s(2) mt, of "?fp\<lparr>fpos := length (fdata ?fp)\<rparr>" "fdata (cl_out s)" flags] good sole flags(1)
      by (simp add: new_file_def os_new_file_def)
    then obtain za' :: "'u zip" where "open_archive lib z zn flags ?fp = Inr (Inr za')" "opened_on zn ?fp (Some ?cd) za'"
      using open_archive_found [OF mt, of ?fp flags ?cd _ z zn] by (auto simp: new_file_def eocd_bytes_def)
    then show ?thesis using s(6,7) fo(1) flags(2)
      by (auto simp: zip_open_def zip_file_exists_def os_fopen_rb_def os_new_file_def opened_on_def contents_def)
  qed
  moreover have "\<forall>k < length (survivors za). \<exists>lde data.
      entry_written lib z stream za (survivors za ! k) (P (survivors za ! k)) (cd_entry (cl_cd s) ! k) lde data
      \<and> member_at lib fp (unat (zde_offset (cd_entry (cl_cd s) ! k))) lde data"
    if "fdata fp = new_file lib s" "fgood fp = fs_good fs" for fp
    by (rule located_members [OF s(5)]) (use that good in \<open>simp_all add: new_file_def\<close>)
  moreover have "cur_names za' = map (written_name za) (survivors za)" if "just_opened za'" "za_cdir za' = Some ?cd" for za' :: "'u zip"
    using names s(3) by (intro nth_equalityI) (simp_all add: cur_names_opened [OF that] placed_def)
  moreover have "cd_entry ?cd = cd_entry (cl_cd s)" "cd_comment ?cd = fst (zip_get_archive_comment za 0)"
    by (simp_all add: placed_def s(4))
  ultimately show ?thesis using s(1,6) by metis
qed

text \<open>A new archive, to which an entry from memory has been added.\<close>

definition new_source :: "struct_read_data zip_source" where
  "new_source = \<lparr>src_f = read_data, src_ud = \<lparr>rd_data = Some [1, 2], rd_len = 2, rd_buf = None, rd_mtime = mktime sample_lib torrent_tm,
     rd_freep = False, rd_alive = True\<rparr>\<rparr>"

definition new_zip :: "struct_read_data zip" where
  "new_zip = \<lparr>za_zn = Some [0x7a], za_zp = None, za_error = zip_error_init, za_flags = 0, za_ch_flags = 0,
     za_cdir = None, za_ch_comment = None, za_ch_comment_len = -1, za_nentry_alloc = 16,
     za_entry = [\<lparr>ze_state = ZIP_ST_ADDED, ze_source = Some new_source, ze_ch_filename = Some [0x63], ze_ch_comment = None,
       ze_ch_comment_len = -1\<rparr>], za_entry_lost = False, za_nfile_alloc = 0, za_file = []\<rparr>"

definition sample_fs :: fsys where
  "sample_fs = \<lparr>fs_files = (\<lambda>_. None), fs_remove = (\<lambda>_. None), fs_rename = (\<lambda>_ _. None), fs_mkstemp = (\<lambda>t. Inr (t @ [0])),
     fs_fdopen = (\<lambda>_. None), fs_fclose = (\<lambda>_. None), fs_fopen = (\<lambda>_. None), fs_cap = 2 ^ 20, fs_good = 2 ^ 20\<rparr>"

definition new_stat :: zip_stat where
  "new_stat = zip_stat_init\<lparr>st_mtime := mktime sample_lib torrent_tm, st_size := 2\<rparr>"

definition new_dirent :: zip_dirent where
  "new_dirent = zip_dirent_init\<lparr>zde_filename := Some [0x63], zde_filename_len := 1, zde_last_mod := mktime sample_lib torrent_tm,
     zde_comp_method := ZIP_CM_DEFLATE, zde_crc := 3, zde_uncomp_size := 2, zde_comp_size := 2\<rparr>"

lemma deflate_ok_raw: "deflate_ok (raw_zlib n) (\<lambda>_ i out _. out = i) (\<lambda>_. 0) id (=)"
  by (auto simp: deflate_ok_def raw_zlib_def raw_deflate_def Let_def mono_def min_def split: if_splits)

lemma sample_stamp: "stamp_ok sample_lib (mktime sample_lib torrent_tm)"
  using sample_dirent_wf by (simp add: dirent_wf_def sample_dirent_def)

lemma new_source_ok: "source_ok new_source [1, 2] new_stat" "data_closed (src_ud new_source) [1, 2] new_stat"
proof -
  show c: "data_closed (src_ud new_source) [1, 2] new_stat" by (simp add: new_source_def new_stat_def data_closed_def)
  show "source_ok new_source [1, 2] new_stat"
    unfolding source_ok_def using memory_source.data_source_axioms c
    by (intro exI [of _ data_closed] exI [of _ data_reading] exI [of _ rd_alive]) (simp add: new_source_def)
qed

lemma new_closable: "closable sample_lib new_zip (\<lambda>_. Added [1, 2] new_stat)" and new_survivors: "survivors new_zip = [0]"
proof -
  show s: "survivors new_zip = [0]" by (simp add: survivors_def new_zip_def)
  have "entry_ready sample_lib new_zip 0 (Added [1, 2] new_stat)"
    using new_source_ok(1) sample_stamp
    by (simp add: entry_ready_def plan_ok_def new_zip_def entry_data_changed_def name_wf_def new_stat_def)
  moreover have "archive_ok new_zip" by (simp add: archive_ok_def new_zip_def cdir_nentry_def entry_ok_def)
  ultimately show "closable sample_lib new_zip (\<lambda>_. Added [1, 2] new_stat)" unfolding closable_def s
    by (simp add: comment_ok_def) (simp add: new_zip_def zip_changed_def flag_set_def)
qed

lemma new_added:
  assumes "at_end out" and "fdata out = []" and "fcap out = 2 ^ 20" and "length (cd_entry cd) = 1"
  shows "\<exists>s. close_loop sample_lib (raw_zlib 0) False 0 [(0, nm)] \<lparr>cl_za = new_zip\<lparr>za_error := e\<rparr>, cl_cd = cd, cl_out = out, cl_de = False\<rparr>
      = Some (Inr (True, s)) \<and> cl_cd s = cd\<lparr>cd_entry := [new_dirent]\<rparr> \<and> fdata (cl_out s) = dirent_bytes sample_lib new_dirent True @ [1, 2]
      \<and> at_end (cl_out s) \<and> fcap (cl_out s) = 2 ^ 20 \<and> za_zn (cl_za s) = Some [0x7a] \<and> za_ch_flags (cl_za s) = 0
      \<and> zip_free ((cl_za s)\<lparr>za_zp := None\<rparr>) = Some (Inr ())"
proof -
  let ?za = "new_zip\<lparr>za_error := e\<rparr>"
  let ?de = "zip_dirent_init\<lparr>zde_filename := Some [0x63], zde_filename_len := 1\<rparr>"
  have src: "\<lparr>src_f = read_data, src_ud = src_ud new_source\<rparr> = new_source" by (simp add: new_source_def)
  have t: "zip_get_archive_flag ?za ZIP_AFL_TORRENT x = 0" for x by (simp add: zip_get_archive_flag_def new_zip_def flag_set_def)
  have en: "za_entry new_zip ! 0 = \<lparr>ze_state = ZIP_ST_ADDED, ze_source = Some new_source, ze_ch_filename = Some [0x63],
      ze_ch_comment = None, ze_ch_comment_len = -1\<rparr>" by (simp add: new_zip_def)
  have c: "centry_data new_dirent (?de\<lparr>zde_offset := 0\<rparr>) = new_dirent"
    by (simp add: centry_data_def new_dirent_def zip_dirent_init_def)
  have m: "malloc_ok sample_lib x n" for x n by (simp add: sample_lib_def)
  have "dirent_plain ?de" by (simp add: dirent_plain_def zip_dirent_init_def str_wf_def)
  from memory_source.add_data_deflates [OF new_source_ok(2) this assms(1) _ deflate_ok_raw [of 0] crc_running_raw [of 0], of sample_lib ?za]
  obtain out' ud where a: "add_data sample_lib (raw_zlib 0) ?za new_source ?de out = Some (Inr (0, new_dirent, ?za, out', ud))"
      "appended out (dirent_bytes sample_lib new_dirent True @ [1, 2]) out'" "rd_alive ud"
    using assms(2,3)
    by (auto simp: src add_data_header_def t new_stat_def zip_stat_init_def new_dirent_def raw_zlib_def Let_def)
  let ?za' = "upd_entry ?za 0 (\<lambda>ze. ze\<lparr>ze_source := Some (new_source\<lparr>src_ud := ud\<rparr>)\<rparr>)"
  have "close_loop sample_lib (raw_zlib 0) False 0 [(0, nm)] \<lparr>cl_za = ?za, cl_cd = cd, cl_out = out, cl_de = False\<rparr>
      = Some (Inr (True, \<lparr>cl_za = ?za', cl_cd = cd\<lparr>cd_entry := [new_dirent]\<rparr>, cl_out = out', cl_de = True\<rparr>))"
    using a(1) assms(1,2,4) en c t by (cases "cd_entry cd") (simp_all add: close_entry_def close_data_def close_dirent_new_def
        close_rename_def close_add_def close_centry_def Let_def at_end_def ftello_def entry_data_changed_def m)
  moreover have "source_done (new_source\<lparr>src_ud := ud\<rparr>)"
    unfolding source_done_def using memory_source.data_source_axioms a(3)
    by (intro exI [of _ data_closed] exI [of _ data_reading] exI [of _ rd_alive]) (simp add: new_source_def)
  then have "zip_free (?za'\<lparr>za_zp := None\<rparr>) = Some (Inr ())"
    using zip_source_free_done by (fastforce simp: zip_free_def new_zip_def upd_entry_def)
  ultimately show ?thesis using assms(2,3) appended_simps(1-3) [OF a(2)] by (simp add: upd_entry_def new_zip_def)
qed

lemma new_dirent_wf: "dirent_wf sample_lib new_dirent"
  using sample_stamp by (simp add: dirent_wf_def new_dirent_def zip_dirent_init_def str_wf_def)

lemma new_sole:
  assumes "str_wf False (cd_comment cd) (cd_comment_len cd)" and "cd_comment cd = None"
  shows "sole_eocd (dirent_bytes sample_lib new_dirent True @ [1, 2] @ dirent_bytes sample_lib new_dirent False
      @ eocd_bytes (placed sample_lib 33 (cd\<lparr>cd_entry := [new_dirent]\<rparr>)))"
  using assms
  by (intro sole_eocd_count) (simp add: str_wf_def file_tail_def dirent_bytes_def dirent_head_def new_dirent_def
      zip_dirent_init_def dirent_magic_def le16_def le32_def eocd_bytes_def placed_def dirent_view_def
      ptr_bytes_def sample_lib_def torrent_tm_def zip_u2d_time_def)

lemma new_device:
  "za_zn new_zip = Some [0x7a]" "device_ok sample_fs [0x7a] (archive_room id new_zip (\<lambda>_. Added [1, 2] new_stat))"
  by (simp_all add: device_ok_def archive_room_def new_survivors plan_room_def plan_data_def)
    (simp_all add: new_zip_def sample_fs_def new_stat_def zip_stat_init_def)

lemma new_closed:
  "\<exists>fs' d. zip_close sample_lib (raw_zlib 0) (\<lambda>_ fl. fl) sample_fs (Some new_zip) = Some (Inr (0, fs', None))
     \<and> fs_files fs' [0x7a] = Some d \<and> sole_eocd d"
proof -
  let ?z = "raw_zlib 0" and ?q = "\<lambda>_ fl. fl"
  have nc: "fst (zip_get_archive_comment new_zip 0) = None" by (simp add: new_zip_def zip_get_archive_comment_def)
  obtain temp cd fl e where st: "zip_close sample_lib ?z ?q sample_fs (Some new_zip)
        = bind_call (close_loop sample_lib ?z False 0 fl \<lparr>cl_za = new_zip\<lparr>za_error := e\<rparr>, cl_cd = cd, cl_out = os_new_file sample_fs, cl_de = False\<rparr>)
            (\<lambda>(ok, s). close_finish sample_lib ?z (sample_fs\<lparr>fs_files := (fs_files sample_fs)(temp \<mapsto> [])\<rparr>) temp ok s)"
      "map fst fl = [0]" "length (cd_entry cd) = length [0 :: nat]" "str_wf False (cd_comment cd) (cd_comment_len cd)"
      "cd_comment cd = None" "temp \<noteq> [0x7a]"
    using zip_close_starts [OF new_closable malloc_total_sample new_device, of ?z ?q] unfolding new_survivors nc
    by (elim exE conjE) (rule that; assumption)
  obtain nm where fl: "fl = [(0, nm)]" using st(2) by auto
  obtain s where s: "close_loop sample_lib ?z False 0 fl \<lparr>cl_za = new_zip\<lparr>za_error := e\<rparr>, cl_cd = cd, cl_out = os_new_file sample_fs, cl_de = False\<rparr>
      = Some (Inr (True, s))" "cl_cd s = cd\<lparr>cd_entry := [new_dirent]\<rparr>" "fdata (cl_out s) = dirent_bytes sample_lib new_dirent True @ [1, 2]"
      "at_end (cl_out s)" "fcap (cl_out s) = 2 ^ 20" "za_zn (cl_za s) = Some [0x7a]" "za_ch_flags (cl_za s) = 0"
      "zip_free ((cl_za s)\<lparr>za_zp := None\<rparr>) = Some (Inr ())"
    using new_added [of "os_new_file sample_fs" cd nm e] st(3) by (auto simp: fl os_new_file_def sample_fs_def at_end_def)
  have len: "length (dirent_bytes sample_lib new_dirent True) = 31" "length (dirent_bytes sample_lib new_dirent False) = 47"
    by (simp_all add: length_dirent_bytes [OF new_dirent_wf] dirent_size_def dirent_view_def) (simp_all add: new_dirent_def zip_dirent_init_def)
  have wf: "cdir_wf sample_lib (cl_cd s)" using new_dirent_wf st(4) by (simp add: s(2) cdir_wf_def)
  have fs: "fs_fclose sample_fs t = None" "fs_rename sample_fs t u = None" for t u by (simp_all add: sample_fs_def)
  have "cd_comment_len cd = 0" using st(4,5) by (simp add: str_wf_def)
  then obtain fs' where "close_finish sample_lib ?z (sample_fs\<lparr>fs_files := (fs_files sample_fs)(temp \<mapsto> [])\<rparr>) temp True s = Some (Inr (0, fs', None))"
      "fs_files fs' [0x7a] = Some (dirent_bytes sample_lib new_dirent True @ [1, 2] @ dirent_bytes sample_lib new_dirent False
          @ eocd_bytes (placed sample_lib 33 (cd\<lparr>cd_entry := [new_dirent]\<rparr>)))"
    using close_finish_ok [OF wf s(4) _ _ s(8,6), of "sample_fs\<lparr>fs_files := (fs_files sample_fs)(temp \<mapsto> [])\<rparr>" temp ?z] st(6)
    by (auto simp: s(2,3,5,7) len flag_set_def fs)
  then show ?thesis using new_sole [OF st(4,5)] by (auto simp: st(1) s(1))
qed

theorem zip_close_reads_back_witness:
  "\<exists>fs' (za' :: struct_read_data zip) cd fp lde.
     zip_close sample_lib (raw_zlib 0) (\<lambda>_ fl. fl) sample_fs (Some new_zip) = Some (Inr (0, fs', None))
     \<and> zip_open sample_lib (raw_zlib 0) fs' (Some [0x7a]) 0 = Inr (Inr za') \<and> cur_names za' = [Some [0x63]]
     \<and> za_cdir za' = Some cd \<and> za_zp za' = Some fp \<and> member_at sample_lib fp (unat (zde_offset (cd_entry cd ! 0))) lde [1, 2]"
proof -
  obtain fs' d where f: "zip_close sample_lib (raw_zlib 0) (\<lambda>_ fl. fl) sample_fs (Some new_zip) = Some (Inr (0, fs', None))"
      "fs_files fs' [0x7a] = Some d" "sole_eocd d"
    using new_closed by blast
  have fl: "\<not> flag_set 0 ZIP_CHECKCONS" "\<not> flag_set 0 ZIP_EXCL" by (simp_all add: flag_set_def)
  have nm: "map (written_name new_zip) [0] = [Some [0x63]]" by (simp add: written_name_def new_zip_def)
  from zip_close_reads_back [OF new_closable malloc_total_sample deflate_ok_raw crc_running_raw new_device fl, of 0 "\<lambda>_ fl. fl"]
  obtain za' :: "struct_read_data zip" and cd fp lde data where r: "zip_open sample_lib (raw_zlib 0) fs' (Some [0x7a]) 0 = Inr (Inr za')"
      "cur_names za' = [Some [0x63]]" "za_cdir za' = Some cd" "za_zp za' = Some fp"
      "member_at sample_lib fp (unat (zde_offset (cd_entry cd ! 0))) lde data"
      "entry_written sample_lib (raw_zlib 0) (=) new_zip 0 (Added [1, 2] new_stat) (cd_entry cd ! 0) lde data"
    unfolding new_survivors nm using f by auto
  have "data = [1, 2]" using r(6) by (auto simp: entry_written_def new_stat_def zip_stat_init_def)
  then show ?thesis using f(1) r by blast
qed

text \<open>C4: when \<open>mkstemp\<close> makes a new file and removing that file succeeds, \<open>zip_close\<close> either fails with -1, the file system is as
  before and the archive is still there to be used, or it returns 0, the archive has been freed and at most the archive's own
  file has changed: a failure at any point of the rewriting leaves the old archive file and no temporary file.\<close>

theorem zip_close_atomic:
  assumes "zip_close lib z qsort fs (Some za) = Some (Inr (r, fs', za'))" and "temp_fresh fs"
  shows "r = -1 \<and> fs' = fs \<and> za' \<noteq> None
     \<or> r = 0 \<and> za' = None \<and> (fs' = fs \<or> (\<exists>p d. za_zn za = Some p \<and> fs' = fs\<lparr>fs_files := (fs_files fs)(p := d)\<rparr>))"
  using zip_close_clean [OF assms] by (simp add: closed_cleanly_def)

theorem zip_close_atomic_witness:
  "(\<exists>za'. zip_close sample_lib (raw_zlib 0) (\<lambda>_ fl. fl) (sample_fs\<lparr>fs_fdopen := \<lambda>_. Some 24\<rparr>) (Some new_zip)
       = Some (Inr (-1, sample_fs\<lparr>fs_fdopen := \<lambda>_. Some 24\<rparr>, Some za')))
   \<and> (\<exists>d. zip_close sample_lib (raw_zlib 0) (\<lambda>_ fl. fl) sample_fs (Some new_zip)
       = Some (Inr (0, sample_fs\<lparr>fs_files := (\<lambda>_. None)([0x7a] := Some d)\<rparr>, None)))"
proof
  let ?fs = "sample_fs\<lparr>fs_fdopen := \<lambda>_. Some 24\<rparr>"
  have "temp_fresh ?fs" "temp_fresh sample_fs" by (simp_all add: temp_fresh_def sample_fs_def)
  note fresh = this
  have "\<exists>fs' za'. zip_close sample_lib (raw_zlib 0) (\<lambda>_ fl. fl) ?fs (Some new_zip) = Some (Inr (-1, fs', za'))"
    by (simp add: zip_close_def zip_changed_def zip_cdir_new_def close_comment_def zip_get_archive_flag_def flag_set_def
        zip_cdir_set_comment_def zip_close_write_def zip_create_temp_output_def Let_def new_zip_def sample_lib_def sample_fs_def)
  then show "\<exists>za'. zip_close sample_lib (raw_zlib 0) (\<lambda>_ fl. fl) ?fs (Some new_zip) = Some (Inr (-1, ?fs, Some za'))"
    using zip_close_atomic fresh(1) by fastforce
  obtain fs' d where f: "zip_close sample_lib (raw_zlib 0) (\<lambda>_ fl. fl) sample_fs (Some new_zip) = Some (Inr (0, fs', None))"
      "fs_files fs' [0x7a] = Some d"
    using new_closed by blast
  have "za_zn new_zip = Some [0x7a]" "fs_files sample_fs = (\<lambda>_. None)" by (simp_all add: new_zip_def sample_fs_def)
  with zip_close_atomic [OF f(1) fresh(2)] f(2)
  have "fs' = sample_fs\<lparr>fs_files := (\<lambda>_. None)([0x7a] := Some d)\<rparr>" by auto
  then show "\<exists>d. zip_close sample_lib (raw_zlib 0) (\<lambda>_ fl. fl) sample_fs (Some new_zip)
       = Some (Inr (0, sample_fs\<lparr>fs_files := (\<lambda>_. None)([0x7a] := Some d)\<rparr>, None))" using f(1) by blast
qed

end
