(* ===== verification/String_View.thy ===== *)
theory String_View
  imports Prelude "HOL-Library.List_Lexorder"
begin

text \<open>
  \<open>ePub3::basic_string_view\<close> (\<open>utilities/string_view.h\<close>): a pointer into character storage and a size. The
  searching members are proved against their specifications (the first or last position that
  matches), comparison against the lexicographic order, and the six operators that take the view on
  the right are shown to disagree with it.
\<close>

section \<open>The class\<close>

text \<open>\<open>sv_data\<close> is the storage from \<open>__data_\<close> on (NULL has none), \<open>sv_size\<close> is \<open>__size_\<close>.\<close>

record 'c basic_string_view =
  sv_data :: "'c list"
  sv_size :: nat

definition npos :: nat where "npos = 2 ^ 64 - 1"

definition sv_wf :: "'c basic_string_view \<Rightarrow> bool" where
  "sv_wf s \<longleftrightarrow> sv_size s \<le> length (sv_data s) \<and> sv_size s < npos"

text \<open>The characters of a view.\<close>

definition chars :: "'c basic_string_view \<Rightarrow> 'c list" where
  "chars s = take (sv_size s) (sv_data s)"

datatype sv_fault = out_of_range | sv_UB

text \<open>\<open>traits_type::length\<close> of a NUL-terminated string.\<close>

definition traits_length :: "'c::zero list \<Rightarrow> nat" where
  "traits_length str = length (takeWhile (\<lambda>c. c \<noteq> 0) str)"

definition sv_empty :: "'c basic_string_view" where
  "sv_empty = \<lparr>sv_data = [], sv_size = 0\<rparr>"

definition sv_string :: "'c list \<Rightarrow> 'c basic_string_view" where
  "sv_string str = \<lparr>sv_data = str, sv_size = length str\<rparr>"

definition sv_cstr :: "'c::zero list \<Rightarrow> 'c basic_string_view" where
  "sv_cstr str = \<lparr>sv_data = str, sv_size = traits_length str\<rparr>"

definition sv_ptr :: "'c list \<Rightarrow> nat \<Rightarrow> 'c basic_string_view" where
  "sv_ptr str len = \<lparr>sv_data = str, sv_size = len\<rparr>"

section \<open>Access and modifiers\<close>

text \<open>\<open>operator[]\<close> does not check.\<close>

definition sv_index :: "'c basic_string_view \<Rightarrow> nat \<Rightarrow> sv_fault + 'c" where
  "sv_index s pos = (if pos < length (sv_data s) then Inr (sv_data s ! pos) else Inl sv_UB)"

definition sv_at :: "'c basic_string_view \<Rightarrow> nat \<Rightarrow> sv_fault + 'c" where
  "sv_at s pos = (if pos < sv_size s then sv_index s pos else Inl out_of_range)"

definition sv_front :: "'c basic_string_view \<Rightarrow> sv_fault + 'c" where
  "sv_front s = sv_index s 0"

definition sv_back :: "'c basic_string_view \<Rightarrow> sv_fault + 'c" where
  "sv_back s = (if sv_size s = 0 then Inl sv_UB else sv_index s (sv_size s - 1))"

definition sv_clear :: "'c basic_string_view \<Rightarrow> 'c basic_string_view" where
  "sv_clear s = sv_empty"

definition remove_prefix :: "'c basic_string_view \<Rightarrow> nat \<Rightarrow> 'c basic_string_view" where
  "remove_prefix s n =
     (if n \<le> sv_size s then \<lparr>sv_data = drop n (sv_data s), sv_size = sv_size s - n\<rparr> else s)"

definition remove_suffix :: "'c basic_string_view \<Rightarrow> nat \<Rightarrow> 'c basic_string_view" where
  "remove_suffix s n = (if n \<le> sv_size s then s\<lparr>sv_size := sv_size s - n\<rparr> else s)"

definition sv_swap :: "'c basic_string_view \<Rightarrow> 'c basic_string_view \<Rightarrow> 'c basic_string_view \<times> 'c basic_string_view" where
  "sv_swap s t = (t, s)"

definition to_basic_string :: "'c basic_string_view \<Rightarrow> 'c list" where
  "to_basic_string s = chars s"

text \<open>\<open>copy\<close>: the destination buffer afterwards. The function has no return statement.\<close>

definition sv_copy :: "'c basic_string_view \<Rightarrow> 'c list \<Rightarrow> nat \<Rightarrow> nat \<Rightarrow> sv_fault + 'c list" where
  "sv_copy s dst n pos =
     (if pos > sv_size s then Inl out_of_range
      else case mem_store dst 0 (take (min n (sv_size s - pos)) (drop pos (sv_data s))) of
             None \<Rightarrow> Inl sv_UB | Some d \<Rightarrow> Inr d)"

definition substr :: "'c basic_string_view \<Rightarrow> nat \<Rightarrow> nat \<Rightarrow> sv_fault + 'c basic_string_view" where
  "substr s pos n =
     (if pos > sv_size s then Inl out_of_range
      else Inr (sv_ptr (drop pos (sv_data s)) (min n (sv_size s - pos))))"

section \<open>Comparison\<close>

fun traits_compare :: "'c::linorder list \<Rightarrow> 'c list \<Rightarrow> nat \<Rightarrow> int" where
  "traits_compare (a # as) (b # bs) (Suc n) =
     (if a < b then -1 else if b < a then 1 else traits_compare as bs n)"
| "traits_compare _ _ _ = 0"

text \<open>The difference of the sizes is computed in \<open>int\<close>.\<close>

definition compare :: "'c::linorder basic_string_view \<Rightarrow> 'c basic_string_view \<Rightarrow> int" where
  "compare x s =
     (let r = traits_compare (sv_data x) (sv_data s) (min (sv_size x) (sv_size s))
      in if r = 0 then sint (of_nat (sv_size x) - of_nat (sv_size s) :: 32 word) else r)"

definition compare_sub :: "'c::linorder basic_string_view \<Rightarrow> nat \<Rightarrow> nat \<Rightarrow> 'c basic_string_view \<Rightarrow> sv_fault + int" where
  "compare_sub x pos1 n1 s = (case substr x pos1 n1 of Inl e \<Rightarrow> Inl e | Inr y \<Rightarrow> Inr (compare y s))"

definition compare_subs ::
  "'c::linorder basic_string_view \<Rightarrow> nat \<Rightarrow> nat \<Rightarrow> 'c basic_string_view \<Rightarrow> nat \<Rightarrow> nat \<Rightarrow> sv_fault + int" where
  "compare_subs x pos1 n1 s pos2 n2 =
     (case substr x pos1 n1 of
        Inl e \<Rightarrow> Inl e
      | Inr y \<Rightarrow> (case substr s pos2 n2 of Inl e \<Rightarrow> Inl e | Inr t \<Rightarrow> Inr (compare y t)))"

definition compare_cstr :: "'c::{linorder,zero} basic_string_view \<Rightarrow> 'c list \<Rightarrow> int" where
  "compare_cstr x str = compare x (sv_cstr str)"

definition compare_sub_cstr :: "'c::{linorder,zero} basic_string_view \<Rightarrow> nat \<Rightarrow> nat \<Rightarrow> 'c list \<Rightarrow> sv_fault + int" where
  "compare_sub_cstr x pos1 n1 str = compare_sub x pos1 n1 (sv_cstr str)"

definition compare_sub_ptr :: "'c::linorder basic_string_view \<Rightarrow> nat \<Rightarrow> nat \<Rightarrow> 'c list \<Rightarrow> nat \<Rightarrow> sv_fault + int" where
  "compare_sub_ptr x pos1 n1 str n2 = compare_sub x pos1 n1 (sv_ptr str n2)"

text \<open>The operators on two views.\<close>

definition sv_eq :: "'c::linorder basic_string_view \<Rightarrow> 'c basic_string_view \<Rightarrow> bool" where
  "sv_eq x y \<longleftrightarrow> compare x y = 0"

definition sv_neq :: "'c::linorder basic_string_view \<Rightarrow> 'c basic_string_view \<Rightarrow> bool" where
  "sv_neq x y \<longleftrightarrow> compare x y \<noteq> 0"

definition sv_lt :: "'c::linorder basic_string_view \<Rightarrow> 'c basic_string_view \<Rightarrow> bool" where
  "sv_lt x y \<longleftrightarrow> compare x y < 0"

definition sv_gt :: "'c::linorder basic_string_view \<Rightarrow> 'c basic_string_view \<Rightarrow> bool" where
  "sv_gt x y \<longleftrightarrow> sv_lt y x"

definition sv_le :: "'c::linorder basic_string_view \<Rightarrow> 'c basic_string_view \<Rightarrow> bool" where
  "sv_le x y \<longleftrightarrow> \<not> sv_gt x y"

definition sv_ge :: "'c::linorder basic_string_view \<Rightarrow> 'c basic_string_view \<Rightarrow> bool" where
  "sv_ge x y \<longleftrightarrow> \<not> sv_lt x y"

text \<open>A view and a string, a string and a view, a view and a C string, a C string and a view.\<close>

definition sv_str_eq :: "'c::linorder basic_string_view \<Rightarrow> 'c list \<Rightarrow> bool" where
  "sv_str_eq x y \<longleftrightarrow> sv_eq x (sv_string y)"
definition sv_str_neq :: "'c::linorder basic_string_view \<Rightarrow> 'c list \<Rightarrow> bool" where
  "sv_str_neq x y \<longleftrightarrow> sv_neq x (sv_string y)"
definition sv_str_lt :: "'c::linorder basic_string_view \<Rightarrow> 'c list \<Rightarrow> bool" where
  "sv_str_lt x y \<longleftrightarrow> sv_lt x (sv_string y)"
definition sv_str_gt :: "'c::linorder basic_string_view \<Rightarrow> 'c list \<Rightarrow> bool" where
  "sv_str_gt x y \<longleftrightarrow> sv_gt x (sv_string y)"
definition sv_str_le :: "'c::linorder basic_string_view \<Rightarrow> 'c list \<Rightarrow> bool" where
  "sv_str_le x y \<longleftrightarrow> sv_le x (sv_string y)"
definition sv_str_ge :: "'c::linorder basic_string_view \<Rightarrow> 'c list \<Rightarrow> bool" where
  "sv_str_ge x y \<longleftrightarrow> sv_ge x (sv_string y)"

definition str_sv_eq :: "'c::linorder list \<Rightarrow> 'c basic_string_view \<Rightarrow> bool" where
  "str_sv_eq x y \<longleftrightarrow> sv_eq y (sv_string x)"
definition str_sv_neq :: "'c::linorder list \<Rightarrow> 'c basic_string_view \<Rightarrow> bool" where
  "str_sv_neq x y \<longleftrightarrow> sv_neq y (sv_string x)"
definition str_sv_lt :: "'c::linorder list \<Rightarrow> 'c basic_string_view \<Rightarrow> bool" where
  "str_sv_lt x y \<longleftrightarrow> sv_ge y (sv_string x)"
definition str_sv_gt :: "'c::linorder list \<Rightarrow> 'c basic_string_view \<Rightarrow> bool" where
  "str_sv_gt x y \<longleftrightarrow> sv_le y (sv_string x)"
definition str_sv_le :: "'c::linorder list \<Rightarrow> 'c basic_string_view \<Rightarrow> bool" where
  "str_sv_le x y \<longleftrightarrow> sv_gt y (sv_string x)"
definition str_sv_ge :: "'c::linorder list \<Rightarrow> 'c basic_string_view \<Rightarrow> bool" where
  "str_sv_ge x y \<longleftrightarrow> sv_lt y (sv_string x)"

definition sv_cstr_eq :: "'c::{linorder,zero} basic_string_view \<Rightarrow> 'c list \<Rightarrow> bool" where
  "sv_cstr_eq x y \<longleftrightarrow> compare_cstr x y = 0"
definition sv_cstr_neq :: "'c::{linorder,zero} basic_string_view \<Rightarrow> 'c list \<Rightarrow> bool" where
  "sv_cstr_neq x y \<longleftrightarrow> compare_cstr x y \<noteq> 0"
definition sv_cstr_lt :: "'c::{linorder,zero} basic_string_view \<Rightarrow> 'c list \<Rightarrow> bool" where
  "sv_cstr_lt x y \<longleftrightarrow> compare_cstr x y < 0"
definition sv_cstr_gt :: "'c::{linorder,zero} basic_string_view \<Rightarrow> 'c list \<Rightarrow> bool" where
  "sv_cstr_gt x y \<longleftrightarrow> compare_cstr x y > 0"
definition sv_cstr_le :: "'c::{linorder,zero} basic_string_view \<Rightarrow> 'c list \<Rightarrow> bool" where
  "sv_cstr_le x y \<longleftrightarrow> \<not> sv_cstr_gt x y"
definition sv_cstr_ge :: "'c::{linorder,zero} basic_string_view \<Rightarrow> 'c list \<Rightarrow> bool" where
  "sv_cstr_ge x y \<longleftrightarrow> \<not> sv_cstr_lt x y"

definition cstr_sv_eq :: "'c::{linorder,zero} list \<Rightarrow> 'c basic_string_view \<Rightarrow> bool" where
  "cstr_sv_eq x y \<longleftrightarrow> sv_cstr_eq y x"
definition cstr_sv_neq :: "'c::{linorder,zero} list \<Rightarrow> 'c basic_string_view \<Rightarrow> bool" where
  "cstr_sv_neq x y \<longleftrightarrow> sv_cstr_neq y x"
definition cstr_sv_lt :: "'c::{linorder,zero} list \<Rightarrow> 'c basic_string_view \<Rightarrow> bool" where
  "cstr_sv_lt x y \<longleftrightarrow> sv_cstr_ge y x"
definition cstr_sv_gt :: "'c::{linorder,zero} list \<Rightarrow> 'c basic_string_view \<Rightarrow> bool" where
  "cstr_sv_gt x y \<longleftrightarrow> sv_cstr_le y x"
definition cstr_sv_le :: "'c::{linorder,zero} list \<Rightarrow> 'c basic_string_view \<Rightarrow> bool" where
  "cstr_sv_le x y \<longleftrightarrow> sv_cstr_gt y x"
definition cstr_sv_ge :: "'c::{linorder,zero} list \<Rightarrow> 'c basic_string_view \<Rightarrow> bool" where
  "cstr_sv_ge x y \<longleftrightarrow> sv_cstr_lt y x"

definition to_string_view :: "'c basic_string_view \<Rightarrow> 'c list" where
  "to_string_view str = chars str"

text \<open>\<open>operator<<\<close> appends the characters to the stream.\<close>

definition sv_put :: "'c list \<Rightarrow> 'c basic_string_view \<Rightarrow> 'c list" where
  "sv_put os str = os @ chars str"

section \<open>Searching\<close>

text \<open>\<open>std::search\<close> and \<open>std::find_end\<close> over a range: the first and the last position of the pattern, the length of
  the range when there is none.\<close>

definition starts_at :: "'c list \<Rightarrow> 'c list \<Rightarrow> nat \<Rightarrow> bool" where
  "starts_at pat xs i \<longleftrightarrow> i + length pat \<le> length xs \<and> take (length pat) (drop i xs) = pat"

fun scan_up :: "(nat \<Rightarrow> bool) \<Rightarrow> nat \<Rightarrow> nat \<Rightarrow> nat option" where
  "scan_up P i 0 = None"
| "scan_up P i (Suc n) = (if P i then Some i else scan_up P (Suc i) n)"

fun scan_down :: "(nat \<Rightarrow> bool) \<Rightarrow> nat \<Rightarrow> nat option" where
  "scan_down P 0 = None"
| "scan_down P (Suc i) = (if P i then Some i else scan_down P i)"

definition std_search :: "'c list \<Rightarrow> 'c list \<Rightarrow> nat" where
  "std_search xs pat =
     (case scan_up (starts_at pat xs) 0 (Suc (length xs)) of Some i \<Rightarrow> i | None \<Rightarrow> length xs)"

definition std_find_end :: "'c list \<Rightarrow> 'c list \<Rightarrow> nat" where
  "std_find_end xs pat =
     (if pat = [] then length xs
      else case scan_down (starts_at pat xs) (Suc (length xs)) of Some i \<Rightarrow> i | None \<Rightarrow> length xs)"

definition std_find_first_of :: "'c list \<Rightarrow> 'c list \<Rightarrow> nat" where
  "std_find_first_of xs set' = length (takeWhile (\<lambda>c. c \<notin> set set') xs)"

text \<open>The result of a search as a position or \<open>npos\<close>.\<close>

definition pos_of :: "nat option \<Rightarrow> nat" where
  "pos_of r = (case r of Some i \<Rightarrow> i | None \<Rightarrow> npos)"

definition sv_find :: "'c basic_string_view \<Rightarrow> 'c list \<Rightarrow> nat \<Rightarrow> nat \<Rightarrow> nat" where
  "sv_find x s pos n =
     (let sz = sv_size x in
      if pos > sz \<or> sz - pos < n then npos
      else if n = 0 then pos
      else let r = pos + std_search (drop pos (chars x)) (take n s)
           in if r = sz then npos else r)"

definition sv_find_view :: "'c basic_string_view \<Rightarrow> 'c basic_string_view \<Rightarrow> nat \<Rightarrow> nat" where
  "sv_find_view x s pos = sv_find x (sv_data s) pos (sv_size s)"

definition sv_find_cstr :: "'c::zero basic_string_view \<Rightarrow> 'c list \<Rightarrow> nat \<Rightarrow> nat" where
  "sv_find_cstr x s pos = sv_find x s pos (traits_length s)"

definition sv_rfind :: "'c basic_string_view \<Rightarrow> 'c list \<Rightarrow> nat \<Rightarrow> nat \<Rightarrow> nat" where
  "sv_rfind x s pos0 n =
     (let sz = sv_size x;
          pos1 = min pos0 sz;
          pos = (if n < sz - pos1 then pos1 + n else sz);
          r = std_find_end (take pos (chars x)) (take n s)
      in if n > 0 \<and> r = pos then npos else r)"

definition sv_rfind_view :: "'c basic_string_view \<Rightarrow> 'c basic_string_view \<Rightarrow> nat \<Rightarrow> nat" where
  "sv_rfind_view x s pos = sv_rfind x (sv_data s) pos (sv_size s)"

definition sv_rfind_cstr :: "'c::zero basic_string_view \<Rightarrow> 'c list \<Rightarrow> nat \<Rightarrow> nat" where
  "sv_rfind_cstr x s pos = sv_rfind x s pos (traits_length s)"

text \<open>Where the backward scans start: one past \<open>pos\<close>, or at the end.\<close>

definition back_from :: "'c basic_string_view \<Rightarrow> nat \<Rightarrow> nat" where
  "back_from x pos = (if pos < sv_size x then pos + 1 else sv_size x)"

definition sv_rfind_char :: "'c basic_string_view \<Rightarrow> 'c \<Rightarrow> nat \<Rightarrow> nat" where
  "sv_rfind_char x c pos =
     (if sv_size x \<noteq> 0 then pos_of (scan_down (\<lambda>i. sv_data x ! i = c) (back_from x pos)) else npos)"

definition sv_find_first_of :: "'c basic_string_view \<Rightarrow> 'c list \<Rightarrow> nat \<Rightarrow> nat \<Rightarrow> nat" where
  "sv_find_first_of x s pos n =
     (let sz = sv_size x in
      if pos \<ge> sz \<or> n = 0 then npos
      else let r = pos + std_find_first_of (drop pos (chars x)) (take n s)
           in if r = sz then npos else r)"

definition sv_find_first_of_view :: "'c basic_string_view \<Rightarrow> 'c basic_string_view \<Rightarrow> nat \<Rightarrow> nat" where
  "sv_find_first_of_view x s pos = sv_find_first_of x (sv_data s) pos (sv_size s)"

definition sv_find_first_of_cstr :: "'c::zero basic_string_view \<Rightarrow> 'c list \<Rightarrow> nat \<Rightarrow> nat" where
  "sv_find_first_of_cstr x s pos = sv_find_first_of x s pos (traits_length s)"

definition sv_find_last_of :: "'c basic_string_view \<Rightarrow> 'c list \<Rightarrow> nat \<Rightarrow> nat \<Rightarrow> nat" where
  "sv_find_last_of x s pos n =
     (if n \<noteq> 0 then pos_of (scan_down (\<lambda>i. sv_data x ! i \<in> set (take n s)) (back_from x pos)) else npos)"

definition sv_find_last_of_view :: "'c basic_string_view \<Rightarrow> 'c basic_string_view \<Rightarrow> nat \<Rightarrow> nat" where
  "sv_find_last_of_view x s pos = sv_find_last_of x (sv_data s) pos (sv_size s)"

definition sv_find_last_of_char :: "'c basic_string_view \<Rightarrow> 'c \<Rightarrow> nat \<Rightarrow> nat" where
  "sv_find_last_of_char x c pos = sv_rfind_char x c pos"

definition sv_find_last_of_cstr :: "'c::zero basic_string_view \<Rightarrow> 'c list \<Rightarrow> nat \<Rightarrow> nat" where
  "sv_find_last_of_cstr x s pos = sv_find_last_of x s pos (traits_length s)"

definition sv_find_first_not_of :: "'c basic_string_view \<Rightarrow> 'c list \<Rightarrow> nat \<Rightarrow> nat \<Rightarrow> nat" where
  "sv_find_first_not_of x s pos n =
     (if pos < sv_size x
      then pos_of (scan_up (\<lambda>i. sv_data x ! i \<notin> set (take n s)) pos (sv_size x - pos)) else npos)"

definition sv_find_first_not_of_view :: "'c basic_string_view \<Rightarrow> 'c basic_string_view \<Rightarrow> nat \<Rightarrow> nat" where
  "sv_find_first_not_of_view x s pos = sv_find_first_not_of x (sv_data s) pos (sv_size s)"

definition sv_find_first_not_of_char :: "'c basic_string_view \<Rightarrow> 'c \<Rightarrow> nat \<Rightarrow> nat" where
  "sv_find_first_not_of_char x c pos =
     (if pos < sv_size x then pos_of (scan_up (\<lambda>i. sv_data x ! i \<noteq> c) pos (sv_size x - pos)) else npos)"

definition sv_find_first_not_of_cstr :: "'c::zero basic_string_view \<Rightarrow> 'c list \<Rightarrow> nat \<Rightarrow> nat" where
  "sv_find_first_not_of_cstr x s pos = sv_find_first_not_of x s pos (traits_length s)"

definition sv_find_last_not_of :: "'c basic_string_view \<Rightarrow> 'c list \<Rightarrow> nat \<Rightarrow> nat \<Rightarrow> nat" where
  "sv_find_last_not_of x s pos n = pos_of (scan_down (\<lambda>i. sv_data x ! i \<notin> set (take n s)) (back_from x pos))"

definition sv_find_last_not_of_view :: "'c basic_string_view \<Rightarrow> 'c basic_string_view \<Rightarrow> nat \<Rightarrow> nat" where
  "sv_find_last_not_of_view x s pos = sv_find_last_not_of x (sv_data s) pos (sv_size s)"

definition sv_find_last_not_of_char :: "'c basic_string_view \<Rightarrow> 'c \<Rightarrow> nat \<Rightarrow> nat" where
  "sv_find_last_not_of_char x c pos = pos_of (scan_down (\<lambda>i. sv_data x ! i \<noteq> c) (back_from x pos))"

definition sv_find_last_not_of_cstr :: "'c::zero basic_string_view \<Rightarrow> 'c list \<Rightarrow> nat \<Rightarrow> nat" where
  "sv_find_last_not_of_cstr x s pos = sv_find_last_not_of x s pos (traits_length s)"

section \<open>The scans\<close>

lemma scan_up_None: "scan_up P i n = None \<longleftrightarrow> (\<forall>j. i \<le> j \<and> j < i + n \<longrightarrow> \<not> P j)"
proof (induction n arbitrary: i)
  case (Suc n)
  have "(\<forall>j. i \<le> j \<and> j < i + Suc n \<longrightarrow> \<not> P j) \<longleftrightarrow> \<not> P i \<and> (\<forall>j. Suc i \<le> j \<and> j < Suc i + n \<longrightarrow> \<not> P j)"
    by (auto simp: Suc_le_eq) (metis le_neq_implies_less)
  then show ?case using Suc by simp
qed auto

lemma scan_up_Some: "scan_up P i n = Some k \<Longrightarrow> i \<le> k \<and> k < i + n \<and> P k \<and> (\<forall>j. i \<le> j \<and> j < k \<longrightarrow> \<not> P j)"
proof (induction n arbitrary: i)
  case (Suc n)
  show ?case
  proof (cases "P i")
    case False
    with Suc.prems Suc.IH [of "Suc i"] have "Suc i \<le> k \<and> k < Suc i + n \<and> P k \<and> (\<forall>j. Suc i \<le> j \<and> j < k \<longrightarrow> \<not> P j)" by simp
    with False show ?thesis by (auto simp: Suc_le_eq) (metis le_neq_implies_less)
  qed (use Suc.prems in auto)
qed simp

lemma scan_down_None: "scan_down P n = None \<longleftrightarrow> (\<forall>j < n. \<not> P j)"
  by (induction n) (auto simp: less_Suc_eq)

lemma scan_down_Some: "scan_down P n = Some k \<Longrightarrow> k < n \<and> P k \<and> (\<forall>j. k < j \<and> j < n \<longrightarrow> \<not> P j)"
  by (induction n) (auto simp: less_Suc_eq split: if_splits)

lemma length_chars: "sv_wf s \<Longrightarrow> length (chars s) = sv_size s"
  by (simp add: sv_wf_def chars_def)

lemma chars_nth: "i < sv_size s \<Longrightarrow> chars s ! i = sv_data s ! i"
  by (simp add: chars_def)

text \<open>What the searching members promise: \<open>first_hit P lo n r\<close> when \<open>r\<close> is the first position at or after
  \<open>lo\<close> and below \<open>n\<close> that satisfies \<open>P\<close>, or \<open>npos\<close> when there is none; \<open>last_hit P n r\<close> the last one below \<open>n\<close>.\<close>

definition first_hit :: "(nat \<Rightarrow> bool) \<Rightarrow> nat \<Rightarrow> nat \<Rightarrow> nat \<Rightarrow> bool" where
  "first_hit P lo n r \<longleftrightarrow>
     (lo \<le> r \<and> r < n \<and> P r \<and> (\<forall>j. lo \<le> j \<and> j < r \<longrightarrow> \<not> P j)) \<or> (r = npos \<and> (\<forall>j. lo \<le> j \<and> j < n \<longrightarrow> \<not> P j))"

definition last_hit :: "(nat \<Rightarrow> bool) \<Rightarrow> nat \<Rightarrow> nat \<Rightarrow> bool" where
  "last_hit P n r \<longleftrightarrow>
     (r < n \<and> P r \<and> (\<forall>j. r < j \<and> j < n \<longrightarrow> \<not> P j)) \<or> (r = npos \<and> (\<forall>j < n. \<not> P j))"

lemma first_hit_scan: "first_hit P lo (lo + n) (pos_of (scan_up P lo n))"
  using scan_up_Some [of P lo n] scan_up_None [of P lo n]
  by (auto simp: first_hit_def pos_of_def split: option.split)

lemma last_hit_scan: "last_hit P n (pos_of (scan_down P n))"
  using scan_down_Some [of P n] scan_down_None [of P n]
  by (auto simp: last_hit_def pos_of_def split: option.split)

lemma first_hit_cong:
  assumes "\<And>j. lo \<le> j \<Longrightarrow> j < n \<Longrightarrow> P j = Q j"
  shows "first_hit P lo n r = first_hit Q lo n r"
  using assms by (auto simp: first_hit_def)

lemma last_hit_cong:
  assumes "\<And>j. j < n \<Longrightarrow> P j = Q j"
  shows "last_hit P n r = last_hit Q n r"
  using assms by (auto simp: last_hit_def)

text \<open>Positions up to \<open>pos\<close>, capped by the size, are those below \<open>back_from\<close>.\<close>

lemma back_from_less: "i < back_from x pos \<longleftrightarrow> i < sv_size x \<and> i \<le> pos"
  by (auto simp: back_from_def)

section \<open>Order\<close>

lemma traits_compare_prefix:
  "n \<le> length xs \<Longrightarrow> n \<le> length ys \<Longrightarrow> traits_compare xs ys n = traits_compare (take n xs) (take n ys) n"
  by (induction xs ys n rule: traits_compare.induct) auto

lemma traits_compare_take: "m \<le> n \<Longrightarrow> traits_compare (take n xs) ys m = traits_compare xs ys m"
proof (induction xs ys m arbitrary: n rule: traits_compare.induct)
  case (1 a as b bs m)
  then show ?case by (cases n) auto
qed auto

lemma traits_compare_take2: "m \<le> n \<Longrightarrow> traits_compare xs (take n ys) m = traits_compare xs ys m"
proof (induction xs ys m arbitrary: n rule: traits_compare.induct)
  case (1 a as b bs m)
  then show ?case by (cases n) auto
qed auto

lemma Nil_less_iff: "[] < (ys :: 'a::linorder list) \<longleftrightarrow> ys \<noteq> []"
  by (cases ys) auto

lemma traits_compare_lex:
  "(traits_compare xs ys (min (length xs) (length ys)) < 0 \<or>
     (traits_compare xs ys (min (length xs) (length ys)) = 0 \<and> length xs < length ys)) \<longleftrightarrow> xs < ys"
  by (induction xs ys "min (length xs) (length ys)" rule: traits_compare.induct)
     (auto simp: Nil_less_iff min_def split: if_splits)

lemma traits_compare_flip: "traits_compare ys xs n = - traits_compare xs ys n"
  by (induction xs ys n rule: traits_compare.induct) auto

text \<open>Views whose sizes an \<open>int\<close> can hold.\<close>

definition small_view :: "'c basic_string_view \<Rightarrow> bool" where
  "small_view s \<longleftrightarrow> sv_size s \<le> length (sv_data s) \<and> sv_size s < 2 ^ 31"

lemma size_diff_small:
  assumes "a < 2 ^ 31" "b < 2 ^ 31"
  shows "sint (of_nat a - of_nat b :: 32 word) = int a - int b"
proof -
  have "(of_nat a - of_nat b :: 32 word) = of_int (int a - int b)" by simp
  then show ?thesis using assms by (simp add: signed_of_int signed_take_bit_int_eq_self del: of_int_diff)
qed

lemma compare_chars:
  assumes "small_view x" "small_view y"
  shows "compare x y =
    (let r = traits_compare (chars x) (chars y) (min (length (chars x)) (length (chars y)))
     in if r = 0 then int (length (chars x)) - int (length (chars y)) else r)"
proof -
  have l: "length (chars x) = sv_size x" "length (chars y) = sv_size y"
    using assms by (simp_all add: chars_def small_view_def)
  show ?thesis unfolding compare_def l
    using assms by (simp add: chars_def traits_compare_take traits_compare_take2 small_view_def size_diff_small Let_def)
qed

lemma compare_less: "small_view x \<Longrightarrow> small_view y \<Longrightarrow> compare x y < 0 \<longleftrightarrow> chars x < chars y"
  using traits_compare_lex [of "chars x" "chars y"] by (auto simp: compare_chars Let_def split: if_splits)

lemma compare_flip: "small_view x \<Longrightarrow> small_view y \<Longrightarrow> compare y x = - compare x y"
  using traits_compare_flip [of "chars y" "chars x"] by (simp add: compare_chars Let_def min.commute)

interpretation sv_order: three_way small_view compare chars
proof unfold_locales
  fix x y z :: "'c::linorder basic_string_view"
  assume ok: "small_view x" "small_view y"
  note less = compare_less [OF ok] compare_less [OF ok(2,1)] and flip = compare_flip [OF ok]
  show "compare x y < 0 \<longleftrightarrow> 0 < compare y x" using flip by simp
  have "compare x y = 0 \<longleftrightarrow> \<not> compare x y < 0 \<and> \<not> compare y x < 0" using flip by linarith
  then have "compare x y = 0 \<longleftrightarrow> \<not> chars x < chars y \<and> \<not> chars y < chars x" unfolding less .
  then show "compare x y = 0 \<longleftrightarrow> chars x = chars y" by auto
  assume "small_view z" "compare x y < 0" "compare y z < 0"
  then show "compare x z < 0" using ok by (simp add: compare_less)
qed

lemma small_view_string: "length s < 2 ^ 31 \<Longrightarrow> small_view (sv_string s)"
  by (simp add: small_view_def sv_string_def)

lemma chars_string [simp]: "chars (sv_string s) = s"
  by (simp add: chars_def sv_string_def)

text \<open>Keeping the representation.\<close>

lemma sv_wf_substr: "sv_wf s \<Longrightarrow> substr s pos n = Inr t \<Longrightarrow> sv_wf t \<and> chars t = take n (drop pos (chars s))"
  by (auto simp: sv_wf_def substr_def sv_ptr_def chars_def drop_take min.commute split: if_splits)

lemma sv_wf_remove_prefix: "sv_wf s \<Longrightarrow> sv_wf (remove_prefix s n)"
  by (auto simp: sv_wf_def remove_prefix_def)

lemma sv_wf_remove_suffix: "sv_wf s \<Longrightarrow> sv_wf (remove_suffix s n)"
  by (auto simp: sv_wf_def remove_suffix_def)

lemma chars_remove_prefix:
  "n \<le> sv_size s \<Longrightarrow> chars (remove_prefix s n) = drop n (chars s)"
  by (simp add: remove_prefix_def chars_def drop_take)

lemma chars_remove_suffix:
  "sv_wf s \<Longrightarrow> n \<le> sv_size s \<Longrightarrow> chars (remove_suffix s n) = take (length (chars s) - n) (chars s)"
  by (simp add: remove_suffix_def chars_def sv_wf_def)

section \<open>Searching for a string\<close>

lemma starts_at_drop: "pos \<le> length xs \<Longrightarrow> starts_at pat (drop pos xs) i \<longleftrightarrow> starts_at pat xs (pos + i)"
  by (auto simp: starts_at_def add.commute)

lemma starts_at_take:
  "n \<le> length xs \<Longrightarrow> starts_at pat (take n xs) i \<longleftrightarrow> starts_at pat xs i \<and> i + length pat \<le> n"
  by (auto simp: starts_at_def drop_take min_absorb1)

lemma std_search_cases:
  assumes "pat \<noteq> []"
  obtains (hit) "std_search xs pat < length xs" "starts_at pat xs (std_search xs pat)"
      "\<forall>j < std_search xs pat. \<not> starts_at pat xs j"
  | (miss) "std_search xs pat = length xs" "\<forall>j. \<not> starts_at pat xs j"
proof (cases "scan_up (starts_at pat xs) 0 (Suc (length xs))")
  case None
  then have "\<forall>j. \<not> starts_at pat xs j" unfolding scan_up_None by (auto simp: starts_at_def)
  then show thesis by (intro miss) (simp_all add: std_search_def None del: scan_up.simps)
next
  case (Some i)
  from scan_up_Some [OF this] have i: "starts_at pat xs i" "\<forall>j < i. \<not> starts_at pat xs j" by auto
  from i(1) assms have "i < length xs" by (cases pat) (auto simp: starts_at_def)
  with i show thesis by (intro hit) (simp_all add: std_search_def Some del: scan_up.simps)
qed

lemma std_find_end_cases:
  assumes "pat \<noteq> []"
  obtains (hit) "std_find_end xs pat < length xs" "starts_at pat xs (std_find_end xs pat)"
      "\<forall>j > std_find_end xs pat. \<not> starts_at pat xs j"
  | (miss) "std_find_end xs pat = length xs" "\<forall>j. \<not> starts_at pat xs j"
proof (cases "scan_down (starts_at pat xs) (Suc (length xs))")
  case None
  then have "\<forall>j. \<not> starts_at pat xs j" unfolding scan_down_None by (auto simp: starts_at_def)
  then show thesis using assms by (intro miss) (simp_all add: std_find_end_def None del: scan_down.simps)
next
  case (Some i)
  note s = scan_down_Some [OF this]
  then have "i < length xs" using assms by (auto simp: starts_at_def)
  moreover have "\<not> starts_at pat xs j" if "j > i" for j
    using s that by (cases "j < Suc (length xs)") (auto simp: starts_at_def)
  ultimately show thesis using s assms by (intro hit) (simp_all add: std_find_end_def Some del: scan_down.simps)
qed

lemma takeWhile_before: "j < length (takeWhile Q xs) \<Longrightarrow> Q (xs ! j)"
  by (metis nth_mem set_takeWhileD takeWhile_nth)

section \<open>Properties\<close>

text \<open>\<open>find\<close> returns the first position at or after \<open>pos\<close> at which the \<open>n\<close> characters of the pattern occur in
  the view, and \<open>npos\<close> exactly when they do not occur there.\<close>

theorem sv_find_correct:
  assumes "sv_wf x" and "n \<le> length s"
  shows "first_hit (starts_at (take n s) (chars x)) pos (Suc (sv_size x)) (sv_find x s pos n)"
proof -
  have len: "length (chars x) = sv_size x" by (rule length_chars [OF assms(1)])
  have np: "sv_size x < npos" using assms(1) by (simp add: sv_wf_def)
  show ?thesis
  proof (cases "pos > sv_size x \<or> sv_size x - pos < n")
    case True
    then show ?thesis using len assms(2) by (auto simp: sv_find_def first_hit_def starts_at_def)
  next
    case in_range: False
    show ?thesis
    proof (cases "n = 0")
      case True
      then show ?thesis using in_range len by (auto simp: sv_find_def first_hit_def starts_at_def)
    next
      case False
      then have ne: "take n s \<noteq> []" using assms(2) by auto
      have p: "pos \<le> length (chars x)" using in_range len by simp
      from ne show ?thesis
      proof (cases rule: std_search_cases [of "take n s" "drop pos (chars x)"])
        case hit
        then have r: "sv_find x s pos n = pos + std_search (drop pos (chars x)) (take n s)"
          using in_range False len by (auto simp: sv_find_def Let_def)
        have "\<not> starts_at (take n s) (chars x) j" if "pos \<le> j" "j < sv_find x s pos n" for j
          using hit(3) [rule_format, of "j - pos"] that r by (simp add: starts_at_drop [OF p])
        then show ?thesis using hit(1,2) r len by (auto simp: first_hit_def starts_at_drop [OF p])
      next
        case miss
        then have "\<not> starts_at (take n s) (chars x) j" if "pos \<le> j" for j
          using miss(2) [rule_format, of "j - pos"] that by (simp add: starts_at_drop [OF p])
        then show ?thesis using miss(1) in_range False len by (auto simp: sv_find_def Let_def first_hit_def)
      qed
    qed
  qed
qed

definition sample_view :: "nat basic_string_view" where
  "sample_view = sv_string [1, 2, 3, 2, 3]"

lemma sample_view_wf: "sv_wf sample_view" and sample_view_chars: "chars sample_view = [1, 2, 3, 2, 3]"
  by (simp_all add: sample_view_def sv_wf_def npos_def sv_string_def chars_def)

theorem sv_find_correct_witness:
  "first_hit (starts_at [2, 3] (chars sample_view)) 2 (Suc (sv_size sample_view)) (sv_find sample_view [2, 3] 2 2)
   \<and> sv_find sample_view [2, 3] 2 2 = 3"
proof -
  have "sv_find sample_view [2, 3] 2 2 = 3"
    by (simp add: sample_view_def sv_string_def chars_def sv_find_def std_search_def starts_at_def)
  then show ?thesis using sv_find_correct [OF sample_view_wf, of 2 "[2, 3]" 2] by (simp add: sample_view_chars)
qed

text \<open>\<open>rfind\<close> returns the last position not after \<open>pos\<close> at which the pattern occurs, and \<open>npos\<close> exactly when there
  is none.\<close>

theorem sv_rfind_correct:
  assumes "sv_wf x" and "n \<le> length s"
  shows "last_hit (\<lambda>i. i \<le> pos \<and> starts_at (take n s) (chars x) i) (Suc (sv_size x)) (sv_rfind x s pos n)"
proof -
  let ?sz = "sv_size x" and ?p1 = "min pos (sv_size x)"
  define e where "e = (if n < ?sz - ?p1 then ?p1 + n else ?sz)"
  have len: "length (chars x) = ?sz" by (rule length_chars [OF assms(1)])
  have e: "e \<le> length (chars x)" using len by (auto simp: e_def)
  have r: "sv_rfind x s pos n =
      (if n > 0 \<and> std_find_end (take e (chars x)) (take n s) = e then npos
       else std_find_end (take e (chars x)) (take n s))"
    by (simp add: sv_rfind_def Let_def e_def)
  have le: "length (take n s) = n" using assms(2) by simp
  have rng: "i \<le> pos \<and> starts_at (take n s) (chars x) i \<longleftrightarrow> starts_at (take n s) (take e (chars x)) i" for i
    unfolding starts_at_take [OF e] le using len le by (auto simp: e_def starts_at_def split: if_splits)
  show ?thesis
  proof (cases "n = 0")
    case True
    then have "sv_rfind x s pos n = e" using len by (simp add: sv_rfind_def std_find_end_def Let_def e_def)
    then show ?thesis using True len by (auto simp: last_hit_def starts_at_def e_def)
  next
    case False
    then have ne: "take n s \<noteq> []" using assms(2) by auto
    from ne show ?thesis
    proof (cases rule: std_find_end_cases [of "take n s" "take e (chars x)"])
      case hit
      then show ?thesis using False e len by (auto simp: r last_hit_def rng)
    next
      case miss
      then show ?thesis using False e len by (auto simp: r last_hit_def rng)
    qed
  qed
qed

theorem sv_rfind_correct_witness:
  "last_hit (\<lambda>i. i \<le> 2 \<and> starts_at [2, 3] (chars sample_view) i) (Suc (sv_size sample_view)) (sv_rfind sample_view [2, 3] 2 2)"
  using sv_rfind_correct [OF sample_view_wf, of 2 "[2, 3]" 2] by (simp add: sample_view_chars)

text \<open>The character-class searches find the first, respectively the last, position at or after (not after)
  \<open>pos\<close> whose character is (is not) among the \<open>n\<close> given ones.\<close>

theorem sv_class_search_correct:
  assumes "sv_wf x" and "n \<le> length s"
  shows "first_hit (\<lambda>i. chars x ! i \<in> set (take n s)) pos (sv_size x) (sv_find_first_of x s pos n)
     \<and> last_hit (\<lambda>i. i \<le> pos \<and> chars x ! i \<in> set (take n s)) (sv_size x) (sv_find_last_of x s pos n)
     \<and> first_hit (\<lambda>i. chars x ! i \<notin> set (take n s)) pos (sv_size x) (sv_find_first_not_of x s pos n)
     \<and> last_hit (\<lambda>i. i \<le> pos \<and> chars x ! i \<notin> set (take n s)) (sv_size x) (sv_find_last_not_of x s pos n)"
proof (intro conjI)
  have len: "length (chars x) = sv_size x" by (rule length_chars [OF assms(1)])
  have np: "sv_size x < npos" using assms(1) by (simp add: sv_wf_def)
  have bk: "last_hit (\<lambda>i. i \<le> pos \<and> P (chars x ! i)) (sv_size x)
      (pos_of (scan_down (\<lambda>i. P (sv_data x ! i)) (back_from x pos)))" for P
    using last_hit_scan [of "\<lambda>i. P (sv_data x ! i)" "back_from x pos"]
    by (auto simp: last_hit_def back_from_less chars_nth)
  show "last_hit (\<lambda>i. i \<le> pos \<and> chars x ! i \<notin> set (take n s)) (sv_size x) (sv_find_last_not_of x s pos n)"
    using bk [of "\<lambda>c. c \<notin> set (take n s)"] by (simp add: sv_find_last_not_of_def)
  show "last_hit (\<lambda>i. i \<le> pos \<and> chars x ! i \<in> set (take n s)) (sv_size x) (sv_find_last_of x s pos n)"
    using bk [of "\<lambda>c. c \<in> set (take n s)"] by (auto simp: sv_find_last_of_def last_hit_def)
  show "first_hit (\<lambda>i. chars x ! i \<notin> set (take n s)) pos (sv_size x) (sv_find_first_not_of x s pos n)"
  proof (cases "pos < sv_size x")
    case True
    then show ?thesis using first_hit_scan [of "\<lambda>i. sv_data x ! i \<notin> set (take n s)" pos "sv_size x - pos"]
      by (simp add: sv_find_first_not_of_def) (subst first_hit_cong, simp_all add: chars_nth)
  qed (auto simp: sv_find_first_not_of_def first_hit_def)
  show "first_hit (\<lambda>i. chars x ! i \<in> set (take n s)) pos (sv_size x) (sv_find_first_of x s pos n)"
  proof (cases "pos \<ge> sv_size x \<or> n = 0")
    case False
    let ?d = "drop pos (chars x)" and ?Q = "\<lambda>c. c \<notin> set (take n s)"
    let ?k = "length (takeWhile ?Q ?d)"
    have before: "?Q (chars x ! j)" if "pos \<le> j" "j < pos + ?k" for j
      using takeWhile_before [of "j - pos" ?Q ?d] that len False by simp
    show ?thesis
    proof (cases "?k = length ?d")
      case True
      then have "sv_find_first_of x s pos n = npos" using False len by (auto simp: sv_find_first_of_def std_find_first_of_def Let_def)
      then show ?thesis using before True len by (auto simp: first_hit_def)
    next
      case less: False
      then have k: "?k < length ?d" using length_takeWhile_le [of ?Q ?d] by linarith
      then have "\<not> ?Q (?d ! ?k)" by (rule nth_length_takeWhile)
      moreover have "sv_find_first_of x s pos n = pos + ?k"
        using False k len by (auto simp: sv_find_first_of_def std_find_first_of_def Let_def)
      ultimately show ?thesis using before k len by (auto simp: first_hit_def)
    qed
  qed (auto simp: sv_find_first_of_def first_hit_def)
qed

theorem sv_class_search_correct_witness:
  "first_hit (\<lambda>i. chars sample_view ! i \<notin> set (take 2 [1, 2])) 0 (sv_size sample_view)
      (sv_find_first_not_of sample_view [1, 2] 0 2)"
proof -
  have "2 \<le> length [1, 2 :: nat]" by simp
  from sv_class_search_correct [OF sample_view_wf this, of 0] show ?thesis by blast
qed

text \<open>C11: the searches of a view are correct.  \<open>find\<close> returns the first position at or after \<open>pos\<close> at which the \<open>n\<close>
  characters of the pattern occur in the view, \<open>rfind\<close> the last one not after \<open>pos\<close>; \<open>find_first_of\<close> and \<open>find_first_not_of\<close>
  return the first position at or after \<open>pos\<close>, \<open>find_last_of\<close> and \<open>find_last_not_of\<close> the last position not after \<open>pos\<close>, whose
  character is, respectively is not, among the \<open>n\<close> given ones.  Each returns \<open>npos\<close> exactly when there is no such position.\<close>

theorem sv_search_correct:
  assumes "sv_wf x" and "n \<le> length s"
  shows "first_hit (starts_at (take n s) (chars x)) pos (Suc (sv_size x)) (sv_find x s pos n)
     \<and> last_hit (\<lambda>i. i \<le> pos \<and> starts_at (take n s) (chars x) i) (Suc (sv_size x)) (sv_rfind x s pos n)
     \<and> first_hit (\<lambda>i. chars x ! i \<in> set (take n s)) pos (sv_size x) (sv_find_first_of x s pos n)
     \<and> last_hit (\<lambda>i. i \<le> pos \<and> chars x ! i \<in> set (take n s)) (sv_size x) (sv_find_last_of x s pos n)
     \<and> first_hit (\<lambda>i. chars x ! i \<notin> set (take n s)) pos (sv_size x) (sv_find_first_not_of x s pos n)
     \<and> last_hit (\<lambda>i. i \<le> pos \<and> chars x ! i \<notin> set (take n s)) (sv_size x) (sv_find_last_not_of x s pos n)"
  using sv_find_correct [OF assms, of pos] sv_rfind_correct [OF assms, of pos] sv_class_search_correct [OF assms, of pos] by blast

theorem sv_search_correct_witness:
  "first_hit (starts_at [2, 3] [1, 2, 3, 2, 3 :: nat]) 2 6 (sv_find sample_view [2, 3] 2 2) \<and> sv_find sample_view [2, 3] 2 2 = 3
   \<and> last_hit (\<lambda>i. i \<le> 2 \<and> starts_at [2, 3] [1, 2, 3, 2, 3 :: nat] i) 6 (sv_rfind sample_view [2, 3] 2 2)"
proof -
  have "sv_find sample_view [2, 3] 2 2 = 3" and size: "Suc (sv_size sample_view) = 6"
    by (simp_all add: sample_view_def sv_string_def chars_def sv_find_def std_search_def starts_at_def)
  moreover have "2 \<le> length [2, 3 :: nat]" and pattern: "take 2 [2, 3 :: nat] = [2, 3]" by simp_all
  note sv_search_correct [OF sample_view_wf this(1), of 2, unfolded pattern size sample_view_chars]
  ultimately show ?thesis by blast
qed

text \<open>C32: on views whose sizes fit in an \<open>int\<close>, the comparison operators are the lexicographic order of
  the characters.\<close>

theorem sv_order_correct:
  assumes "small_view x" and "small_view y"
  shows "(sv_eq x y \<longleftrightarrow> chars x = chars y) \<and> (sv_neq x y \<longleftrightarrow> chars x \<noteq> chars y)
       \<and> (sv_lt x y \<longleftrightarrow> chars x < chars y) \<and> (sv_gt x y \<longleftrightarrow> chars y < chars x)
       \<and> (sv_le x y \<longleftrightarrow> chars x \<le> chars y) \<and> (sv_ge x y \<longleftrightarrow> chars y \<le> chars x)"
  using assms sv_order.cmp_zero [OF assms]
  by (simp add: sv_eq_def sv_neq_def sv_lt_def sv_gt_def sv_le_def sv_ge_def compare_less not_less)

theorem sv_order_correct_witness: "sv_lt (sv_string [1, 2]) (sv_string [1, 3 :: nat])"
  using sv_order_correct [of "sv_string [1, 2]" "sv_string [1, 3 :: nat]"] by (simp add: small_view_string)

text \<open>The operators with the view on the right are wrong. \<open>string < view\<close> holds exactly when the string is less
  than or equal to the view, \<open>string <= view\<close> exactly when it is strictly less, and likewise for
  \<open>>\<close> and \<open>>=\<close>; so for equal contents \<open><\<close> and \<open>>\<close> are both true and \<open><=\<close> and \<open>>=\<close> both false.\<close>

theorem str_sv_order_swapped:
  assumes "length x < 2 ^ 31" and "small_view y"
  shows "(str_sv_lt x y \<longleftrightarrow> x \<le> chars y) \<and> (str_sv_le x y \<longleftrightarrow> x < chars y)
       \<and> (str_sv_gt x y \<longleftrightarrow> chars y \<le> x) \<and> (str_sv_ge x y \<longleftrightarrow> chars y < x)"
proof -
  note ok = assms(2) small_view_string [OF assms(1)]
  show ?thesis
    using sv_order.cmp_not_less [OF ok(2,1)] sv_order.cmp_not_less [OF ok] compare_less [OF ok] compare_less [OF ok(2,1)]
    by (auto simp: str_sv_lt_def str_sv_le_def str_sv_gt_def str_sv_ge_def sv_ge_def sv_le_def sv_gt_def sv_lt_def)
qed

theorem str_sv_order_swapped_witness:
  "str_sv_lt [1] (sv_string [1 :: nat]) \<and> str_sv_gt [1] (sv_string [1 :: nat]) \<and> \<not> str_sv_le [1] (sv_string [1 :: nat])"
  using str_sv_order_swapped [of "[1 :: nat]" "sv_string [1]"] by (simp add: small_view_string)

text \<open>The same for a C string on the left.\<close>

lemma cstr_sv_order_swapped:
  assumes "small_view (sv_cstr x)" and "small_view y"
  shows "(cstr_sv_lt x y \<longleftrightarrow> chars (sv_cstr x) \<le> chars y) \<and> (cstr_sv_le x y \<longleftrightarrow> chars (sv_cstr x) < chars y)"
  using compare_less [OF assms] compare_less [OF assms(2,1)] compare_flip [OF assms]
  by (auto simp: cstr_sv_lt_def cstr_sv_le_def sv_cstr_ge_def sv_cstr_gt_def sv_cstr_lt_def compare_cstr_def)

end
