(* ===== verification/Str_Hash.thy ===== *)
theory Str_Hash
  imports String_View "HOL-Library.Monad_Syntax"
begin

text \<open>
  The string hash of \<open>utilities/__strhash.h\<close>: murmur2 for 32-bit and cityhash64 for 64-bit \<open>size_t\<close>, read
  on a little-endian machine. Every load is checked, so that the theorem that the hash of a block of
  \<open>len\<close> bytes is defined says that it reads nothing outside the block.
\<close>

section \<open>Loads\<close>

text \<open>A load is \<open>None\<close> when it leaves the block; offsets are computed in the integers, \<open>p + len - 8\<close>.\<close>

definition ld :: "byte list \<Rightarrow> int \<Rightarrow> nat \<Rightarrow> byte list option" where
  "ld s off n = (if off < 0 then None else mem_load s (nat off) n)"

definition ld64 :: "byte list \<Rightarrow> int \<Rightarrow> u64 option" where
  "ld64 s off = map_option (\<lambda>b. word_rcat (rev b)) (ld s off 8)"

definition ld32 :: "byte list \<Rightarrow> int \<Rightarrow> u32 option" where
  "ld32 s off = map_option (\<lambda>b. word_rcat (rev b)) (ld s off 4)"

definition ld8 :: "byte list \<Rightarrow> int \<Rightarrow> byte option" where
  "ld8 s off = map_option hd (ld s off 1)"

section \<open>murmur2\<close>

definition murmur_m :: u32 where "murmur_m = 0x5bd1e995"

definition murmur_mix :: "u32 \<Rightarrow> u32 \<Rightarrow> u32" where
  "murmur_mix h k =
     (let k = k * murmur_m; k = k XOR drop_bit 24 k; k = k * murmur_m; h = h * murmur_m in h XOR k)"

text \<open>The loop over four-byte blocks, with \<open>pos\<close> bytes consumed: the hash and the position of the tail.\<close>

function murmur_blocks :: "byte list \<Rightarrow> nat \<Rightarrow> nat \<Rightarrow> u32 \<Rightarrow> (u32 \<times> nat \<times> nat) option" where
  "murmur_blocks s pos len h =
     (if len \<ge> 4 then do { k \<leftarrow> ld32 s (int pos); murmur_blocks s (pos + 4) (len - 4) (murmur_mix h k) }
      else Some (h, pos, len))"
  by auto
termination
  by (relation "measure (\<lambda>(s, pos, len, h). len)") auto

declare murmur_blocks.simps [simp del]

text \<open>The \<open>switch\<close> falls through from 3 to 2 to 1.\<close>

definition murmur_tail :: "byte list \<Rightarrow> nat \<Rightarrow> nat \<Rightarrow> u32 \<Rightarrow> u32 option" where
  "murmur_tail s pos len h =
     do { h \<leftarrow> (if len = 3 then do { c \<leftarrow> ld8 s (int pos + 2); Some (h XOR push_bit 16 (ucast c)) } else Some h);
          h \<leftarrow> (if len = 3 \<or> len = 2 then do { c \<leftarrow> ld8 s (int pos + 1); Some (h XOR push_bit 8 (ucast c)) } else Some h);
          (if len = 3 \<or> len = 2 \<or> len = 1
           then do { c \<leftarrow> ld8 s (int pos); Some ((h XOR ucast c) * murmur_m) } else Some h) }"

definition murmur2 :: "byte list \<Rightarrow> nat \<Rightarrow> u32 option" where
  "murmur2 key len =
     do { (h, pos, rest) \<leftarrow> murmur_blocks key 0 len (of_nat len);
          h \<leftarrow> murmur_tail key pos rest h;
          Some (let h = h XOR drop_bit 13 h; h = h * murmur_m in h XOR drop_bit 15 h) }"

section \<open>cityhash64\<close>

definition city_k0 :: u64 where "city_k0 = 0xc3a5c85c97cb3127"
definition city_k1 :: u64 where "city_k1 = 0xb492b66fbe98f273"
definition city_k2 :: u64 where "city_k2 = 0x9ae16a3b2f90404f"
definition city_k3 :: u64 where "city_k3 = 0xc949d7c7509e6557"

definition city_rotate :: "u64 \<Rightarrow> nat \<Rightarrow> u64" where
  "city_rotate val shift = (if shift = 0 then val else drop_bit shift val OR push_bit (64 - shift) val)"

definition rotate_by_at_least_1 :: "u64 \<Rightarrow> nat \<Rightarrow> u64" where
  "rotate_by_at_least_1 val shift = drop_bit shift val OR push_bit (64 - shift) val"

definition shift_mix :: "u64 \<Rightarrow> u64" where
  "shift_mix val = val XOR drop_bit 47 val"

definition hash_len_16 :: "u64 \<Rightarrow> u64 \<Rightarrow> u64" where
  "hash_len_16 u v =
     (let mul = 0x9ddfea08eb382d69;
          a = (u XOR v) * mul; a = a XOR drop_bit 47 a;
          b = (v XOR a) * mul; b = b XOR drop_bit 47 b
      in b * mul)"

definition hash_len_0_to_16 :: "byte list \<Rightarrow> nat \<Rightarrow> u64 option" where
  "hash_len_0_to_16 s len =
     (if len > 8 then
        do { a \<leftarrow> ld64 s 0; b \<leftarrow> ld64 s (int len - 8);
             Some (hash_len_16 a (rotate_by_at_least_1 (b + of_nat len) len) XOR b) }
      else if len \<ge> 4 then
        do { a \<leftarrow> ld32 s 0; b \<leftarrow> ld32 s (int len - 4);
             Some (hash_len_16 (of_nat len + ucast (push_bit 3 a)) (ucast b)) }
      else if len > 0 then
        do { a \<leftarrow> ld8 s 0; b \<leftarrow> ld8 s (int (len div 2)); c \<leftarrow> ld8 s (int len - 1);
             let y = (ucast a :: u32) + push_bit 8 (ucast b);
                 z = (of_nat len :: u32) + push_bit 2 (ucast c)
             in Some (shift_mix (ucast y * city_k2 XOR ucast z * city_k3) * city_k2) }
      else Some city_k2)"

definition hash_len_17_to_32 :: "byte list \<Rightarrow> nat \<Rightarrow> u64 option" where
  "hash_len_17_to_32 s len =
     do { a \<leftarrow> ld64 s 0; b \<leftarrow> ld64 s 8; c \<leftarrow> ld64 s (int len - 8); d \<leftarrow> ld64 s (int len - 16);
          let a = a * city_k1; c = c * city_k2; d = d * city_k0
          in Some (hash_len_16 (city_rotate (a - b) 43 + city_rotate c 30 + d)
                               (a + city_rotate (b XOR city_k3) 20 - c + of_nat len)) }"

definition weak_hash_seeds :: "u64 \<Rightarrow> u64 \<Rightarrow> u64 \<Rightarrow> u64 \<Rightarrow> u64 \<Rightarrow> u64 \<Rightarrow> u64 \<times> u64" where
  "weak_hash_seeds w x y z a b =
     (let a = a + w; b = city_rotate (b + a + z) 21; c = a; a = a + x; a = a + y; b = b + city_rotate a 44
      in (a + z, b + c))"

definition weak_hash_len_32 :: "byte list \<Rightarrow> int \<Rightarrow> u64 \<Rightarrow> u64 \<Rightarrow> (u64 \<times> u64) option" where
  "weak_hash_len_32 s off a b =
     do { w \<leftarrow> ld64 s off; x \<leftarrow> ld64 s (off + 8); y \<leftarrow> ld64 s (off + 16); z \<leftarrow> ld64 s (off + 24);
          Some (weak_hash_seeds w x y z a b) }"

definition hash_len_33_to_64 :: "byte list \<Rightarrow> nat \<Rightarrow> u64 option" where
  "hash_len_33_to_64 s len =
     do { s0 \<leftarrow> ld64 s 0; s8 \<leftarrow> ld64 s 8; s16 \<leftarrow> ld64 s 16; s24 \<leftarrow> ld64 s 24;
          e8 \<leftarrow> ld64 s (int len - 8); e16 \<leftarrow> ld64 s (int len - 16); e24 \<leftarrow> ld64 s (int len - 24);
          e32 \<leftarrow> ld64 s (int len - 32);
          let z = s24; a = s0 + (of_nat len + e16) * city_k0;
              b = city_rotate (a + z) 52; c = city_rotate a 37; a = a + s8; c = c + city_rotate a 7; a = a + s16;
              vf = a + z; vs = b + city_rotate a 31 + c;
              a = s16 + e32; z = z + e8; b = city_rotate (a + z) 52; c = city_rotate a 37; a = a + e24;
              c = c + city_rotate a 7; a = a + e16;
              wf = a + z; ws = b + city_rotate a 31 + c;
              r = shift_mix ((vf + ws) * city_k2 + (wf + vs) * city_k0)
          in Some (shift_mix (r * city_k0 + vs) * city_k2) }"

text \<open>The state of the main loop, and one round on the 64 bytes at \<open>off\<close>.\<close>

record city_state =
  cx :: u64
  cy :: u64
  cz :: u64
  cv :: "u64 \<times> u64"
  cw :: "u64 \<times> u64"

definition city_round :: "byte list \<Rightarrow> nat \<Rightarrow> city_state \<Rightarrow> city_state option" where
  "city_round s off st =
     do { s8 \<leftarrow> ld64 s (int off + 8); s48 \<leftarrow> ld64 s (int off + 48); s40 \<leftarrow> ld64 s (int off + 40); s16 \<leftarrow> ld64 s (int off + 16);
          let x = city_rotate (cx st + cy st + fst (cv st) + s8) 37 * city_k1;
              y = city_rotate (cy st + snd (cv st) + s48) 42 * city_k1;
              x = x XOR snd (cw st);
              y = y + (fst (cv st) + s40);
              z = city_rotate (cz st + fst (cw st)) 33 * city_k1
          in do { v \<leftarrow> weak_hash_len_32 s (int off) (snd (cv st) * city_k1) (x + fst (cw st));
                  w \<leftarrow> weak_hash_len_32 s (int off + 32) (z + snd (cw st)) (y + s16);
                  Some \<lparr>cx = z, cy = y, cz = x, cv = v, cw = w\<rparr> } }"

text \<open>The \<open>do\<close> loop with \<open>len\<close> bytes to go. The length is a multiple of 64; otherwise it would wrap around.\<close>

function city_loop :: "byte list \<Rightarrow> nat \<Rightarrow> nat \<Rightarrow> city_state \<Rightarrow> city_state option" where
  "city_loop s off len st =
     do { st \<leftarrow> city_round s off st;
          if len = 64 then Some st
          else if len < 64 then None
          else city_loop s (off + 64) (len - 64) st }"
  by auto
termination
  by (relation "measure (\<lambda>(s, off, len, st). len)") auto

declare city_loop.simps [simp del]

text \<open>\<open>(len - 1) & ~63\<close>.\<close>

definition city_chunks :: "nat \<Rightarrow> nat" where
  "city_chunks len = unat ((of_nat len - 1 :: u64) AND NOT 63)"

definition city_init :: "byte list \<Rightarrow> nat \<Rightarrow> city_state option" where
  "city_init s len =
     do { x \<leftarrow> ld64 s (int len - 40); e16 \<leftarrow> ld64 s (int len - 16); e56 \<leftarrow> ld64 s (int len - 56);
          e48 \<leftarrow> ld64 s (int len - 48); e24 \<leftarrow> ld64 s (int len - 24);
          let y = e16 + e56; z = hash_len_16 (e48 + of_nat len) e24
          in do { v \<leftarrow> weak_hash_len_32 s (int len - 64) (of_nat len) z;
                  w \<leftarrow> weak_hash_len_32 s (int len - 32) (y + city_k1) x;
                  s0 \<leftarrow> ld64 s 0;
                  Some \<lparr>cx = x * city_k1 + s0, cy = y, cz = z, cv = v, cw = w\<rparr> } }"

definition cityhash64 :: "byte list \<Rightarrow> nat \<Rightarrow> u64 option" where
  "cityhash64 s len =
     (if len \<le> 32 then (if len \<le> 16 then hash_len_0_to_16 s len else hash_len_17_to_32 s len)
      else if len \<le> 64 then hash_len_33_to_64 s len
      else do { st \<leftarrow> city_init s len;
                st \<leftarrow> city_loop s 0 (city_chunks len) st;
                Some (hash_len_16 (hash_len_16 (fst (cv st)) (fst (cw st)) + shift_mix (cy st) * city_k1 + cz st)
                                  (hash_len_16 (snd (cv st)) (snd (cw st)) + cx st)) })"

text \<open>\<open>std::hash\<close> of a view over one-byte characters.\<close>

definition string_view_hash :: "byte basic_string_view \<Rightarrow> u64 option" where
  "string_view_hash s = cityhash64 (sv_data s) (sv_size s)"

section \<open>Loads within the block\<close>

lemma ld_some: "0 \<le> off \<Longrightarrow> off + int n \<le> int (length s) \<Longrightarrow> \<exists>b. ld s off n = Some b \<and> length b = n"
  by (auto simp: ld_def mem_load_def)

lemma ld64_some: "0 \<le> off \<Longrightarrow> off + 8 \<le> int (length s) \<Longrightarrow> \<exists>w. ld64 s off = Some w"
  using ld_some [of off 8 s] by (auto simp: ld64_def)

lemma ld32_some: "0 \<le> off \<Longrightarrow> off + 4 \<le> int (length s) \<Longrightarrow> \<exists>w. ld32 s off = Some w"
  using ld_some [of off 4 s] by (auto simp: ld32_def)

lemma ld8_some: "0 \<le> off \<Longrightarrow> off + 1 \<le> int (length s) \<Longrightarrow> \<exists>w. ld8 s off = Some w"
  using ld_some [of off 1 s] by (auto simp: ld8_def)

lemma weak_hash_some: "0 \<le> off \<Longrightarrow> off + 32 \<le> int (length s) \<Longrightarrow> \<exists>r. weak_hash_len_32 s off a b = Some r"
  using ld64_some [of off s] ld64_some [of "off + 8" s] ld64_some [of "off + 16" s] ld64_some [of "off + 24" s]
  by (auto simp: weak_hash_len_32_def)

lemma weak_hash_the:
  "0 \<le> off \<Longrightarrow> off + 32 \<le> int (length s) \<Longrightarrow> weak_hash_len_32 s off a b = Some (the (weak_hash_len_32 s off a b))"
  using weak_hash_some [of off s a b] by auto

lemma city_round_some:
  assumes "off + 64 \<le> length s"
  shows "\<exists>st'. city_round s off st = Some st'"
proof -
  have l: "\<exists>w. ld64 s (int off + 8) = Some w" "\<exists>w. ld64 s (int off + 48) = Some w"
      "\<exists>w. ld64 s (int off + 40) = Some w" "\<exists>w. ld64 s (int off + 16) = Some w"
    using assms by (auto intro!: ld64_some)
  have w: "weak_hash_len_32 s (int off) a b = Some (the (weak_hash_len_32 s (int off) a b))"
    "weak_hash_len_32 s (int off + 32) a b = Some (the (weak_hash_len_32 s (int off + 32) a b))" for a b
    by (rule weak_hash_the; use assms in simp)+
  from l obtain w1 w2 w3 w4 where "ld64 s (int off + 8) = Some w1" "ld64 s (int off + 48) = Some w2"
      "ld64 s (int off + 40) = Some w3" "ld64 s (int off + 16) = Some w4" by blast
  then show ?thesis by (simp add: city_round_def Let_def) (subst w, simp, subst w, simp)
qed

lemma city_loop_some:
  "64 dvd len \<Longrightarrow> 0 < len \<Longrightarrow> off + len \<le> length s \<Longrightarrow> \<exists>st'. city_loop s off len st = Some st'"
proof (induction s off len st rule: city_loop.induct)
  case (1 s off len st)
  then have ge: "64 \<le> len" by (auto dest: dvd_imp_le)
  then obtain st' where r: "city_round s off st = Some st'" using city_round_some [of off s st] 1 by auto
  show ?case
  proof (cases "len = 64")
    case True
    with r show ?thesis by (subst city_loop.simps) simp
  next
    case False
    with ge have gt: "64 < len" by simp
    have "\<exists>st''. city_loop s (off + 64) (len - 64) st' = Some st''"
      using 1(1) [OF r False] gt 1(2,4) by (simp add: dvd_diff_nat)
    with r False gt show ?thesis by (subst city_loop.simps) simp
  qed
qed

lemma and_not_63: "(w :: u64) AND NOT 63 = push_bit 6 (drop_bit 6 w)"
proof -
  have "(63 :: u64) = mask 6" by (simp add: mask_eq_exp_minus_1)
  then show ?thesis by (auto simp: bit_eq_iff bit_simps not_less)
qed

lemma city_chunks_eq:
  assumes "0 < len" "len < 2 ^ 64"
  shows "city_chunks len = (len - 1) div 64 * 64"
proof -
  have "(of_nat len - 1 :: u64) = of_nat (len - 1)" using assms(1) by (simp add: of_nat_diff)
  then have "city_chunks len = unat (push_bit 6 (drop_bit 6 (of_nat (len - 1) :: u64)))"
    by (simp only: city_chunks_def and_not_63)
  also have "\<dots> = take_bit 64 (push_bit 6 (drop_bit 6 (take_bit 64 (len - 1))))"
    by (simp add: unsigned_push_bit_eq unsigned_drop_bit_eq unsigned_of_nat)
  also have "\<dots> = (len - 1) div 64 * 64"
  proof -
    have "(len - 1) div 64 * 64 < 2 ^ 64" using assms by (meson div_times_less_eq_dividend le_less_trans diff_le_self)
    then show ?thesis using assms
      by (simp add: take_bit_nat_eq_self push_bit_eq_mult drop_bit_eq_div)
  qed
  finally show ?thesis .
qed

text \<open>A load from a block does not depend on what follows the block.\<close>

lemma ld_take: "nat off + n \<le> m \<Longrightarrow> m \<le> length s \<Longrightarrow> ld (take m s) off n = ld s off n"
  by (auto simp: ld_def mem_load_def drop_take min_absorb1)

lemma murmur_blocks_some:
  "pos + len \<le> length s \<Longrightarrow> \<exists>h' pos' r. murmur_blocks s pos len h = Some (h', pos', r) \<and> r < 4 \<and> pos' + r = pos + len"
proof (induction s pos len h rule: murmur_blocks.induct)
  case (1 s pos len h)
  show ?case
  proof (cases "len \<ge> 4")
    case True
    then obtain k where k: "ld32 s (int pos) = Some k" using ld32_some [of "int pos" s] 1(2) by auto
    from 1(1) [OF True, of k] True 1(2) k show ?thesis by (subst murmur_blocks.simps) auto
  next
    case False
    then show ?thesis by (subst murmur_blocks.simps) simp
  qed
qed

lemma murmur_tail_some: "pos + len \<le> length s \<Longrightarrow> len < 4 \<Longrightarrow> \<exists>h'. murmur_tail s pos len h = Some h'"
  using ld8_some [of "int pos" s] ld8_some [of "int pos + 1" s] ld8_some [of "int pos + 2" s]
  by (cases "len = 0 \<or> len = 1 \<or> len = 2 \<or> len = 3") (auto simp: murmur_tail_def)

section \<open>Properties\<close>

text \<open>C33: hashing a block of \<open>len\<close> bytes reads no byte outside the block and ends, for both hash functions and every
  length: all loads of a run succeed on a block of exactly that length.\<close>

theorem strhash_in_bounds:
  assumes "length s < 2 ^ 64"
  shows "(\<exists>h. cityhash64 s (length s) = Some h) \<and> (\<exists>h. murmur2 s (length s) = Some h)"
proof
  let ?n = "length s"
  have at0: "8 \<le> ?n \<Longrightarrow> \<exists>w. ld64 s 0 = Some w" and end8: "8 \<le> ?n \<Longrightarrow> \<exists>w. ld64 s (int ?n - 8) = Some w"
    by (auto intro!: ld64_some)
  show "\<exists>h. cityhash64 s ?n = Some h"
  proof -
    consider (a) "?n \<le> 16" | (b) "16 < ?n" "?n \<le> 32" | (c) "32 < ?n" "?n \<le> 64" | (d) "64 < ?n" by linarith
    then show ?thesis
    proof cases
      case a
      have "\<exists>h. hash_len_0_to_16 s ?n = Some h"
      proof -
        have "4 \<le> ?n \<Longrightarrow> \<exists>w. ld32 s 0 = Some w" "4 \<le> ?n \<Longrightarrow> \<exists>w. ld32 s (int ?n - 4) = Some w"
          "0 < ?n \<Longrightarrow> \<exists>w. ld8 s 0 = Some w" "0 < ?n \<Longrightarrow> \<exists>w. ld8 s (int (?n div 2)) = Some w"
          "0 < ?n \<Longrightarrow> \<exists>w. ld8 s (int ?n - 1) = Some w"
          by (rule ld32_some ld8_some, simp, linarith)+
        with at0 end8 show ?thesis by (auto simp: hash_len_0_to_16_def Let_def)
      qed
      with a show ?thesis by (simp add: cityhash64_def)
    next
      case b
      have "\<exists>w. ld64 s 8 = Some w" "\<exists>w. ld64 s (int ?n - 16) = Some w" using b by (auto intro!: ld64_some)
      with b at0 end8 have "\<exists>h. hash_len_17_to_32 s ?n = Some h" by (auto simp: hash_len_17_to_32_def Let_def)
      with b show ?thesis by (simp add: cityhash64_def)
    next
      case c
      have "\<exists>w. ld64 s 8 = Some w" "\<exists>w. ld64 s 16 = Some w" "\<exists>w. ld64 s 24 = Some w"
        "\<exists>w. ld64 s (int ?n - 16) = Some w" "\<exists>w. ld64 s (int ?n - 24) = Some w" "\<exists>w. ld64 s (int ?n - 32) = Some w"
        using c by (auto intro!: ld64_some)
      with c at0 end8 have "\<exists>h. hash_len_33_to_64 s ?n = Some h" by (auto simp: hash_len_33_to_64_def Let_def)
      with c show ?thesis by (simp add: cityhash64_def)
    next
      case d
      have "\<exists>w. ld64 s (int ?n - 40) = Some w" "\<exists>w. ld64 s (int ?n - 16) = Some w" "\<exists>w. ld64 s (int ?n - 56) = Some w"
        "\<exists>w. ld64 s (int ?n - 48) = Some w" "\<exists>w. ld64 s (int ?n - 24) = Some w" using d by (auto intro!: ld64_some)
      then obtain w1 w2 w3 w4 w5 w6 where l: "ld64 s (int ?n - 40) = Some w1" "ld64 s (int ?n - 16) = Some w2"
        "ld64 s (int ?n - 56) = Some w3" "ld64 s (int ?n - 48) = Some w4" "ld64 s (int ?n - 24) = Some w5" "ld64 s 0 = Some w6"
        using at0 d by auto
      have w: "weak_hash_len_32 s (int ?n - 64) x y = Some (the (weak_hash_len_32 s (int ?n - 64) x y))"
        "weak_hash_len_32 s (int ?n - 32) x y = Some (the (weak_hash_len_32 s (int ?n - 32) x y))" for x y
        by (rule weak_hash_the; use d in simp)+
      have "\<exists>st. city_init s ?n = Some st"
        using l by (simp add: city_init_def Let_def) (subst w, simp, subst w, simp)
      then obtain st where i: "city_init s ?n = Some st" by blast
      have ch: "city_chunks ?n = (?n - 1) div 64 * 64" by (rule city_chunks_eq) (use assms d in auto)
      have "(?n - 1) div 64 * 64 \<le> ?n - 1" by simp
      then have "\<exists>st'. city_loop s 0 (city_chunks ?n) st = Some st'"
        unfolding ch using d by (intro city_loop_some) (auto simp: div_greater_zero_iff)
      with i d show ?thesis by (auto simp: cityhash64_def)
    qed
  qed
  obtain h p r where "murmur_blocks s 0 ?n (of_nat ?n) = Some (h, p, r)" "r < 4" "p + r = ?n"
    using murmur_blocks_some [of 0 ?n s "of_nat ?n"] by auto
  then show "\<exists>h. murmur2 s ?n = Some h" using murmur_tail_some [of p r s h] by (auto simp: murmur2_def)
qed

theorem strhash_in_bounds_witness: "\<exists>h. cityhash64 (replicate 100 7) 100 = Some h"
  using strhash_in_bounds [of "replicate 100 7"] by simp

end
