(* ===== verification/Optional_Value.thy ===== *)
theory Optional_Value
  imports Prelude
begin

text \<open>
  \<open>ePub3::optional\<close> (\<open>utilities/optional.h\<close>): a flag and raw storage in which an object is constructed
  and destroyed by hand. The model tracks whether an object is alive in the storage, so that
  using a dead object, destroying one twice or constructing over a live one is visible. The constructors and assignments of the
  element type may throw; which of them do is a parameter. The class is
  shown to implement HOL's \<open>option\<close> with the lifetime discipline intact, for assignments also when an operation of the
  element type throws; its copy and move constructors are shown to destroy an object that does not exist in that case, and its
  \<open>operator<\<close> and \<open>swap\<close> not to do what they should.
\<close>

section \<open>The element type\<close>

text \<open>Which constructors and assignments of \<open>_Tp\<close>, by copy or by move, throw for which values; the state in which a move leaves
  its source, and the state in which an operation that throws leaves the object it works on.\<close>

datatype how = By_copy | By_move

record 'a elem =
  ctor_throws :: "how \<Rightarrow> 'a \<Rightarrow> bool"
  assign_throws :: "how \<Rightarrow> 'a \<Rightarrow> 'a \<Rightarrow> bool"
  swap_throws :: "'a \<Rightarrow> 'a \<Rightarrow> bool"
  moved_from :: "'a \<Rightarrow> 'a"
  after_throw :: "'a \<Rightarrow> 'a"

text \<open>An operation of the class that does not fail by misuse returns or throws, and leaves a state.\<close>

datatype 'x opt_step = Done 'x | Threw 'x

section \<open>Storage and lifetime\<close>

text \<open>\<open>Some v\<close> in the storage is a live object. \<open>assert\<close> failures and uses of a dead object are \<open>dead_object\<close>.\<close>

datatype opt_fault = bad_optional_access | dead_object | live_object

type_synonym 'a ores = "opt_fault + 'a"

record 'a optional =
  o_inited :: bool
  o_storage :: "'a option"

definition opt_wf :: "'a optional \<Rightarrow> bool" where
  "opt_wf x \<longleftrightarrow> (o_inited x \<longleftrightarrow> o_storage x \<noteq> None)"

text \<open>The value an optional stands for.\<close>

definition opt_abs :: "'a optional \<Rightarrow> 'a option" where
  "opt_abs x = (if o_inited x then o_storage x else None)"

definition obind :: "'a ores \<Rightarrow> ('a \<Rightarrow> 'b ores) \<Rightarrow> 'b ores" where
  "obind r k = (case r of Inl e \<Rightarrow> Inl e | Inr x \<Rightarrow> k x)"

lemma obind_simps [simp]: "obind (Inl e) k = Inl e" "obind (Inr x) k = k x"
  by (simp_all add: obind_def)

text \<open>The object in the storage, whatever the flag says.\<close>

definition opt_val :: "'a optional \<Rightarrow> 'a ores" where
  "opt_val x = (case o_storage x of None \<Rightarrow> Inl dead_object | Some v \<Rightarrow> Inr v)"

definition opt_deref :: "'a optional \<Rightarrow> 'a ores" where
  "opt_deref x = (if o_inited x then opt_val x else Inl dead_object)"

definition opt_destroy :: "'a optional \<Rightarrow> 'a optional ores" where
  "opt_destroy x = (if o_storage x = None then Inl dead_object else Inr (x\<lparr>o_storage := None\<rparr>))"

definition opt_dtor :: "'a optional \<Rightarrow> 'a optional ores" where
  "opt_dtor x = (if o_inited x then opt_destroy x else Inr x)"

definition opt_clear :: "'a optional \<Rightarrow> 'a optional ores" where
  "opt_clear x = obind (if o_inited x then opt_destroy x else Inr x) (\<lambda>x. Inr (x\<lparr>o_inited := False\<rparr>))"

text \<open>Going on after a step; when it threw, the rest is skipped and \<open>f\<close> says what the state is then.\<close>

definition after_step :: "'x opt_step ores \<Rightarrow> ('x \<Rightarrow> 'y opt_step ores) \<Rightarrow> ('x \<Rightarrow> 'y) \<Rightarrow> 'y opt_step ores" where
  "after_step r k f = obind r (\<lambda>st. case st of Done x \<Rightarrow> k x | Threw x \<Rightarrow> Inr (Threw (f x)))"

text \<open>\<open>new (__ptr()) _Tp(v)\<close>: when the constructor throws there is no object.\<close>

definition opt_construct :: "'a elem \<Rightarrow> how \<Rightarrow> 'a optional \<Rightarrow> 'a \<Rightarrow> 'a optional opt_step ores" where
  "opt_construct T h x v =
     (if o_storage x \<noteq> None then Inl live_object
      else if ctor_throws T h v then Inr (Threw x)
      else Inr (Done (x\<lparr>o_storage := Some v\<rparr>)))"

definition opt_initialize :: "'a elem \<Rightarrow> how \<Rightarrow> 'a optional \<Rightarrow> 'a \<Rightarrow> 'a optional opt_step ores" where
  "opt_initialize T h x v =
     (if o_inited x then Inl dead_object
      else after_step (opt_construct T h x v) (\<lambda>x. Inr (Done (x\<lparr>o_inited := True\<rparr>))) id)"

section \<open>Constructors\<close>

definition opt_nullopt :: "'a optional" where
  "opt_nullopt = \<lparr>o_inited = False, o_storage = None\<rparr>"

definition opt_some :: "'a \<Rightarrow> 'a optional" where
  "opt_some v = \<lparr>o_inited = True, o_storage = Some v\<rparr>"

definition opt_only_set :: "bool \<Rightarrow> 'a optional" where
  "opt_only_set b = \<lparr>o_inited = b, o_storage = None\<rparr>"

text \<open>The copy and move constructors set the flag before they construct the object.  When the constructor of the element throws,
  the base, which is complete by then, is destroyed.\<close>

definition opt_unwind :: "'a optional opt_step ores \<Rightarrow> 'a optional opt_step ores" where
  "opt_unwind r = obind r (\<lambda>st. case st of
     Done x \<Rightarrow> Inr (Done x) | Threw x \<Rightarrow> obind (opt_dtor x) (\<lambda>x. Inr (Threw x)))"

definition opt_copy :: "'a elem \<Rightarrow> 'a optional \<Rightarrow> 'a optional opt_step ores" where
  "opt_copy T rhs =
     (let x = opt_only_set (o_inited rhs)
      in if o_inited rhs then obind (opt_deref rhs) (\<lambda>v. opt_unwind (opt_construct T By_copy x v)) else Inr (Done x))"

text \<open>Moving leaves the object of the source alive.\<close>

definition opt_leave :: "('a \<Rightarrow> 'a) \<Rightarrow> 'a optional \<Rightarrow> 'a optional" where
  "opt_leave mv x = x\<lparr>o_storage := map_option mv (o_storage x)\<rparr>"

text \<open>A step that moves the value of \<open>rhs\<close>, with what becomes of \<open>rhs\<close>.\<close>

definition opt_moving :: "'a elem \<Rightarrow> 'a optional \<Rightarrow> 'a optional opt_step ores \<Rightarrow> ('a optional \<times> 'a optional) opt_step ores" where
  "opt_moving T rhs r =
     after_step r (\<lambda>x. Inr (Done (x, opt_leave (moved_from T) rhs))) (\<lambda>x. (x, opt_leave (after_throw T) rhs))"

definition opt_move :: "'a elem \<Rightarrow> 'a optional \<Rightarrow> ('a optional \<times> 'a optional) opt_step ores" where
  "opt_move T rhs =
     (let x = opt_only_set (o_inited rhs)
      in if o_inited rhs
         then obind (opt_deref rhs) (\<lambda>v. opt_moving T rhs (opt_unwind (opt_construct T By_move x v)))
         else Inr (Done (x, rhs)))"

section \<open>Assignment, emplace, swap\<close>

definition opt_set_val :: "'a elem \<Rightarrow> how \<Rightarrow> 'a optional \<Rightarrow> 'a \<Rightarrow> 'a optional opt_step ores" where
  "opt_set_val T h x v = obind (opt_val x) (\<lambda>old.
     if assign_throws T h old v then Inr (Threw (x\<lparr>o_storage := Some (after_throw T old)\<rparr>))
     else Inr (Done (x\<lparr>o_storage := Some v\<rparr>)))"

definition opt_assign :: "'a elem \<Rightarrow> 'a optional \<Rightarrow> 'a optional \<Rightarrow> 'a optional opt_step ores" where
  "opt_assign T x rhs =
     (if o_inited x \<and> \<not> o_inited rhs then obind (opt_clear x) (\<lambda>x. Inr (Done x))
      else if \<not> o_inited x \<and> o_inited rhs then obind (opt_deref rhs) (opt_initialize T By_copy x)
      else if o_inited x \<and> o_inited rhs then obind (opt_deref rhs) (opt_set_val T By_copy x)
      else Inr (Done x))"

definition opt_assign_move :: "'a elem \<Rightarrow> 'a optional \<Rightarrow> 'a optional \<Rightarrow> ('a optional \<times> 'a optional) opt_step ores" where
  "opt_assign_move T x rhs =
     (if o_inited x \<and> \<not> o_inited rhs then obind (opt_clear x) (\<lambda>x. Inr (Done (x, rhs)))
      else if \<not> o_inited x \<and> o_inited rhs
      then obind (opt_deref rhs) (\<lambda>v. opt_moving T rhs (opt_initialize T By_move x v))
      else if o_inited x \<and> o_inited rhs
      then obind (opt_deref rhs) (\<lambda>v. opt_moving T rhs (opt_set_val T By_move x v))
      else Inr (Done (x, rhs)))"

definition opt_assign_value :: "'a elem \<Rightarrow> how \<Rightarrow> 'a optional \<Rightarrow> 'a \<Rightarrow> 'a optional opt_step ores" where
  "opt_assign_value T h x v = (if o_inited x then opt_set_val T h x v else opt_initialize T h x v)"

definition opt_emplace :: "'a elem \<Rightarrow> how \<Rightarrow> 'a optional \<Rightarrow> 'a \<Rightarrow> 'a optional opt_step ores" where
  "opt_emplace T h x v = obind (opt_clear x) (\<lambda>x. opt_initialize T h x v)"

definition opt_swap :: "'a elem \<Rightarrow> 'a optional \<Rightarrow> 'a optional \<Rightarrow> ('a optional \<times> 'a optional) opt_step ores" where
  "opt_swap T x rhs =
     (if o_inited x \<and> \<not> o_inited rhs
      then obind (opt_deref x) (\<lambda>v. after_step (opt_moving T x (opt_initialize T By_move rhs v))
             (\<lambda>(rhs, x). obind (opt_clear x) (\<lambda>x. Inr (Done (x, rhs)))) (\<lambda>(rhs, x). (x, rhs)))
      else if \<not> o_inited x \<and> o_inited rhs
      then obind (opt_deref rhs) (\<lambda>v. after_step (opt_moving T rhs (opt_initialize T By_move x v))
             (\<lambda>(x, rhs). obind (opt_clear rhs) (\<lambda>rhs. Inr (Done (x, rhs)))) (\<lambda>(x, rhs). (x, rhs)))
      else obind (opt_deref x) (\<lambda>a. obind (opt_deref rhs) (\<lambda>b.
             if swap_throws T a b
             then Inr (Threw (x\<lparr>o_storage := Some (after_throw T a)\<rparr>, rhs\<lparr>o_storage := Some (after_throw T b)\<rparr>))
             else Inr (Done (x\<lparr>o_storage := Some b\<rparr>, rhs\<lparr>o_storage := Some a\<rparr>)))))"

section \<open>Observers\<close>

definition opt_bool :: "'a optional \<Rightarrow> bool" where
  "opt_bool x = o_inited x"

definition opt_value :: "'a optional \<Rightarrow> 'a ores" where
  "opt_value x = (if o_inited x then opt_val x else Inl bad_optional_access)"

definition opt_value_or :: "'a optional \<Rightarrow> 'a \<Rightarrow> 'a ores" where
  "opt_value_or x v = (if opt_bool x then opt_deref x else Inr v)"

section \<open>Relational operators\<close>

definition opt_eq :: "'a optional \<Rightarrow> 'a optional \<Rightarrow> bool ores" where
  "opt_eq x y =
     (if opt_bool x \<noteq> opt_bool y then Inr False
      else if opt_bool x = False then Inr True
      else obind (opt_deref x) (\<lambda>a. obind (opt_deref y) (\<lambda>b. Inr (a = b))))"

definition opt_neq :: "'a optional \<Rightarrow> 'a optional \<Rightarrow> bool ores" where
  "opt_neq x y = obind (opt_eq x y) (\<lambda>b. Inr (\<not> b))"

definition opt_lt :: "'a::linorder optional \<Rightarrow> 'a optional \<Rightarrow> bool ores" where
  "opt_lt x y =
     obind (if opt_bool y then Inr False
            else if \<not> opt_bool x then Inr True
            else obind (opt_deref x) (\<lambda>a. obind (opt_deref y) (\<lambda>b. Inr (a < b))))
       (\<lambda>b. Inr (\<not> b))"

definition opt_gt :: "'a::linorder optional \<Rightarrow> 'a optional \<Rightarrow> bool ores" where
  "opt_gt x y = opt_lt y x"

definition opt_le :: "'a::linorder optional \<Rightarrow> 'a optional \<Rightarrow> bool ores" where
  "opt_le x y = obind (opt_lt y x) (\<lambda>b. Inr (\<not> b))"

definition opt_ge :: "'a::linorder optional \<Rightarrow> 'a optional \<Rightarrow> bool ores" where
  "opt_ge x y = obind (opt_lt x y) (\<lambda>b. Inr (\<not> b))"

text \<open>With \<open>nullopt\<close> on either side.\<close>

definition opt_eq_null :: "'a optional \<Rightarrow> bool" where "opt_eq_null x = (\<not> opt_bool x)"
definition opt_neq_null :: "'a optional \<Rightarrow> bool" where "opt_neq_null x = opt_bool x"
definition opt_lt_null :: "'a optional \<Rightarrow> bool" where "opt_lt_null x = False"
definition null_lt_opt :: "'a optional \<Rightarrow> bool" where "null_lt_opt y = opt_bool y"
definition opt_le_null :: "'a optional \<Rightarrow> bool" where "opt_le_null x = (\<not> opt_bool x)"
definition null_le_opt :: "'a optional \<Rightarrow> bool" where "null_le_opt y = True"
definition opt_gt_null :: "'a optional \<Rightarrow> bool" where "opt_gt_null x = opt_bool x"
definition null_gt_opt :: "'a optional \<Rightarrow> bool" where "null_gt_opt y = False"
definition opt_ge_null :: "'a optional \<Rightarrow> bool" where "opt_ge_null x = True"
definition null_ge_opt :: "'a optional \<Rightarrow> bool" where "null_ge_opt y = (\<not> opt_bool y)"

text \<open>With a value. (\<open>operator==(const T&, const optional&)\<close> assigns to a constant and cannot be
  instantiated.)\<close>

definition opt_with :: "'a optional \<Rightarrow> ('a \<Rightarrow> bool) \<Rightarrow> bool \<Rightarrow> bool ores" where
  "opt_with x P d = (if opt_bool x then obind (opt_deref x) (\<lambda>a. Inr (P a)) else Inr d)"

definition opt_eq_val :: "'a optional \<Rightarrow> 'a \<Rightarrow> bool ores" where "opt_eq_val x v = opt_with x (\<lambda>a. a = v) False"
definition opt_neq_val :: "'a optional \<Rightarrow> 'a \<Rightarrow> bool ores" where
  "opt_neq_val x v = obind (opt_eq_val x v) (\<lambda>b. Inr (\<not> b))"
definition opt_lt_val :: "'a::linorder optional \<Rightarrow> 'a \<Rightarrow> bool ores" where "opt_lt_val x v = opt_with x (\<lambda>a. a < v) True"
definition val_lt_opt :: "'a::linorder \<Rightarrow> 'a optional \<Rightarrow> bool ores" where "val_lt_opt v y = opt_with y (\<lambda>a. v < a) False"
definition opt_le_val :: "'a::linorder optional \<Rightarrow> 'a \<Rightarrow> bool ores" where "opt_le_val x v = opt_with x (\<lambda>a. a \<le> v) True"
definition val_le_opt :: "'a::linorder \<Rightarrow> 'a optional \<Rightarrow> bool ores" where "val_le_opt v y = opt_with y (\<lambda>a. v \<le> a) False"
definition opt_gt_val :: "'a::linorder optional \<Rightarrow> 'a \<Rightarrow> bool ores" where "opt_gt_val x v = opt_with x (\<lambda>a. a > v) False"
definition val_gt_opt :: "'a::linorder \<Rightarrow> 'a optional \<Rightarrow> bool ores" where "val_gt_opt v y = opt_with y (\<lambda>a. v > a) True"
definition opt_ge_val :: "'a::linorder optional \<Rightarrow> 'a \<Rightarrow> bool ores" where "opt_ge_val x v = opt_with x (\<lambda>a. a \<ge> v) False"
definition val_ge_opt :: "'a::linorder \<Rightarrow> 'a optional \<Rightarrow> bool ores" where "val_ge_opt v y = opt_with y (\<lambda>a. v \<ge> a) True"

definition make_optional :: "'a \<Rightarrow> 'a optional" where
  "make_optional v = opt_some v"

definition opt_hash :: "('a \<Rightarrow> u64) \<Rightarrow> 'a optional \<Rightarrow> u64 ores" where
  "opt_hash h x = (if opt_bool x then obind (opt_deref x) (\<lambda>v. Inr (h v)) else Inr 0)"

section \<open>Lifetime and refinement\<close>

lemmas opt_defs = opt_wf_def opt_abs_def opt_val_def opt_deref_def opt_destroy_def opt_dtor_def opt_clear_def
  after_step_def opt_construct_def opt_initialize_def opt_nullopt_def opt_some_def opt_only_set_def opt_unwind_def
  opt_copy_def opt_leave_def opt_moving_def opt_move_def opt_set_val_def opt_assign_def opt_assign_move_def opt_assign_value_def opt_emplace_def opt_swap_def
  opt_bool_def opt_value_def opt_value_or_def opt_eq_def opt_with_def Let_def

lemma opt_wf_cases:
  assumes "opt_wf x"
  obtains "x = opt_nullopt" | v where "x = opt_some v"
  using assms by (cases x) (auto simp: opt_defs)

text \<open>An operation on optionals implements a function on options: from well-formed arguments it returns without a fault and
  without an exception a well-formed result with the right value.\<close>

definition implements :: "'a optional opt_step ores \<Rightarrow> 'a option \<Rightarrow> bool" where
  "implements r v \<longleftrightarrow> (\<exists>y. r = Inr (Done y) \<and> opt_wf y \<and> opt_abs y = v)"

definition implements2 :: "('a optional \<times> 'a optional) opt_step ores \<Rightarrow> 'a option \<Rightarrow> 'a option \<Rightarrow> bool" where
  "implements2 r v w \<longleftrightarrow> (\<exists>y z. r = Inr (Done (y, z)) \<and> opt_wf y \<and> opt_wf z \<and> opt_abs y = v \<and> opt_abs z = w)"

text \<open>An operation keeps the lifetime discipline: it returns or throws, without a fault, and leaves well-formed optionals.\<close>

definition keeps :: "'a optional opt_step ores \<Rightarrow> bool" where
  "keeps r \<longleftrightarrow> (\<exists>y. (r = Inr (Done y) \<or> r = Inr (Threw y)) \<and> opt_wf y)"

definition keeps2 :: "('a optional \<times> 'a optional) opt_step ores \<Rightarrow> bool" where
  "keeps2 r \<longleftrightarrow> (\<exists>y z. (r = Inr (Done (y, z)) \<or> r = Inr (Threw (y, z))) \<and> opt_wf y \<and> opt_wf z)"

definition never_throws :: "'a elem \<Rightarrow> bool" where
  "never_throws T \<longleftrightarrow> (\<forall>h v. \<not> ctor_throws T h v) \<and> (\<forall>h v w. \<not> assign_throws T h v w)"

lemma never_throws_simps [simp]:
  "never_throws T \<Longrightarrow> \<not> ctor_throws T h v" "never_throws T \<Longrightarrow> \<not> assign_throws T h v w"
  by (simp_all add: never_throws_def)

text \<open>C34: \<open>optional\<close> implements \<open>option\<close>. On well-formed optionals of an element type whose constructors and assignments do not throw,
  copying, moving, assigning (by copy, by move, from a value), emplacing and clearing return the value they
  should, keep the flag in step with the storage, and never
  touch a dead object, destroy an object twice or construct over a live one.  For an element type whose
  constructors or assignments may throw, assigning and emplacing, when they end with the exception, also leave
  well-formed optionals without any such fault.\<close>

theorem optional_refines_option:
  assumes "opt_wf x" and "opt_wf y"
  shows "(never_throws T \<longrightarrow>
         implements (opt_copy T y) (opt_abs y)
       \<and> implements2 (opt_move T y) (opt_abs y) (map_option (moved_from T) (opt_abs y))
       \<and> implements (opt_assign T x y) (opt_abs y)
       \<and> implements2 (opt_assign_move T x y) (opt_abs y) (map_option (moved_from T) (opt_abs y))
       \<and> implements (opt_assign_value T h x v) (Some v)
       \<and> implements (opt_emplace T h x v) (Some v))
       \<and> (\<exists>z. opt_clear x = Inr z \<and> opt_wf z \<and> opt_abs z = None)
       \<and> (\<exists>z. opt_dtor x = Inr z \<and> o_storage z = None)
       \<and> keeps (opt_assign T x y) \<and> keeps2 (opt_assign_move T x y)
       \<and> keeps (opt_assign_value T h x v) \<and> keeps (opt_emplace T h x v)"
  by (cases rule: opt_wf_cases [OF assms(1)]; cases rule: opt_wf_cases [OF assms(2)])
     (auto simp: implements_def implements2_def keeps_def keeps2_def opt_defs)

definition plain_elem :: "nat elem" where
  "plain_elem = \<lparr>ctor_throws = (\<lambda>h v. False), assign_throws = (\<lambda>h v w. False), swap_throws = (\<lambda>v w. False),
     moved_from = (\<lambda>_. 0), after_throw = id\<rparr>"

theorem optional_refines_option_witness: "implements (opt_assign plain_elem opt_nullopt (opt_some 5)) (Some (5 :: nat))"
proof -
  have "never_throws plain_elem" by (simp add: never_throws_def plain_elem_def)
  then show ?thesis using optional_refines_option [of opt_nullopt "opt_some (5 :: nat)" plain_elem]
    by (simp add: opt_wf_def opt_nullopt_def opt_some_def opt_abs_def)
qed

text \<open>Copying or moving an engaged optional whose element's constructor throws destroys an object that was never constructed.\<close>

lemma optional_copy_throw_faults:
  assumes "opt_wf y" and "opt_abs y = Some v"
  shows "ctor_throws T By_copy v \<Longrightarrow> opt_copy T y = Inl dead_object"
    and "ctor_throws T By_move v \<Longrightarrow> opt_move T y = Inl dead_object"
  using assms by (cases rule: opt_wf_cases [OF assms(1)]; simp add: opt_defs)+

text \<open>the observers return what the option holds: \<open>value\<close> throws exactly on an empty optional, \<open>value_or\<close>
  falls back, equality is equality of options, comparison with a value treats the empty
  optional as less than everything.\<close>

theorem optional_observers:
  assumes "opt_wf x" and "opt_wf y"
  shows "opt_value x = (case opt_abs x of None \<Rightarrow> Inl bad_optional_access | Some v \<Rightarrow> Inr v)
       \<and> opt_value_or x d = Inr (case opt_abs x of None \<Rightarrow> d | Some v \<Rightarrow> v)
       \<and> opt_eq x y = Inr (opt_abs x = opt_abs y)
       \<and> opt_lt_val x d = Inr (case opt_abs x of None \<Rightarrow> True | Some v \<Rightarrow> v < d)
       \<and> val_lt_opt d x = Inr (case opt_abs x of None \<Rightarrow> False | Some v \<Rightarrow> d < v)"
  using assms
  by (cases rule: opt_wf_cases [OF assms(1)]; cases rule: opt_wf_cases [OF assms(2)])
     (simp_all add: opt_defs opt_lt_val_def val_lt_opt_def)

theorem optional_observers_witness: "opt_value (opt_some (3 :: nat)) = Inr 3"
  using optional_observers [of "opt_some (3 :: nat)" opt_nullopt] by (simp add: opt_wf_def opt_nullopt_def opt_some_def opt_abs_def)

text \<open>\<open>operator<\<close> of two optionals ignores the values. Whenever the right side is engaged the answer is true, even
  for an optional compared with itself; an engaged left side against an empty right one reads the
  empty side's storage. As a consequence \<open>>=\<close> is false for every engaged right side.\<close>

theorem optional_less_wrong:
  assumes "opt_wf x" and "opt_wf y"
  shows "(opt_abs y \<noteq> None \<longrightarrow> opt_lt x y = Inr True \<and> opt_ge x y = Inr False)
       \<and> (opt_abs x \<noteq> None \<and> opt_abs y = None \<longrightarrow> opt_lt x y = Inl dead_object)
       \<and> (opt_abs x = None \<and> opt_abs y = None \<longrightarrow> opt_lt x y = Inr False)"
  using assms
  by (cases rule: opt_wf_cases [OF assms(1)]; cases rule: opt_wf_cases [OF assms(2)])
     (simp_all add: opt_defs opt_lt_def opt_ge_def)

theorem optional_less_wrong_witness: "opt_lt (opt_some (7 :: nat)) (opt_some 2) = Inr True"
  using optional_less_wrong [of "opt_some (7 :: nat)" "opt_some 2"] by (simp add: opt_wf_def opt_some_def opt_abs_def)

text \<open>\<open>swap\<close> exchanges the values except when both sides are empty, where it dereferences them.\<close>

lemma optional_swap:
  assumes "opt_wf x" and "opt_wf y" and "never_throws T" and "\<And>a b. \<not> swap_throws T a b"
  shows "if opt_abs x = None \<and> opt_abs y = None then opt_swap T x y = Inl dead_object
         else implements2 (opt_swap T x y) (opt_abs y) (opt_abs x)"
  using assms
  by (cases rule: opt_wf_cases [OF assms(1)]; cases rule: opt_wf_cases [OF assms(2)])
     (simp_all add: implements2_def opt_defs)

end
