(* ===== verification/Iostream.thy ===== *)
theory Iostream
  imports Prelude
begin

text \<open>
  The part of the C++ stream library that the sources use: \<^verbatim>\<open>std::istringstream\<close> with its eof and
  fail bits, formatted extraction of characters, 32-bit unsigned integers and floating-point
  numbers, \<^verbatim>\<open>peek\<close>, \<^verbatim>\<open>ignore\<close> and \<^verbatim>\<open>tellg\<close>, and the decimal output of unsigned integers.  Texts are
  ASCII.  Floating-point numbers are a parameter: how a number is scanned, printed and compared.
\<close>

section \<open>Decimal text\<close>

definition digit_char :: "nat \<Rightarrow> char" where
  "digit_char d = char_of (48 + d)"

definition is_digit :: "char \<Rightarrow> bool" where
  "is_digit c \<longleftrightarrow> 48 \<le> (of_char c :: nat) \<and> (of_char c :: nat) \<le> 57"

definition digit_value :: "char \<Rightarrow> nat" where
  "digit_value c = of_char c - 48"

fun dec :: "nat \<Rightarrow> string" where
  "dec n = (if n < 10 then [digit_char n] else dec (n div 10) @ [digit_char (n mod 10)])"

declare dec.simps [simp del]

definition dec_value :: "string \<Rightarrow> nat" where
  "dec_value ds = foldl (\<lambda>a c. 10 * a + digit_value c) 0 ds"

lemma digit_value_char [simp]: "d < 10 \<Longrightarrow> digit_value (digit_char d) = d"
  by (simp add: digit_value_def digit_char_def)

lemma is_digit_char [simp]: "d < 10 \<Longrightarrow> is_digit (digit_char d)"
  by (simp add: is_digit_def digit_char_def)

lemma dec_not_Nil [simp]: "dec n \<noteq> []"
  by (simp add: dec.simps [of n])

lemma dec_digits [simp]: "list_all is_digit (dec n)"
  by (induction n rule: dec.induct) (simp add: dec.simps)

lemma dec_value_dec [simp]: "dec_value (dec n) = n"
proof (induction n rule: dec.induct)
  case (1 n)
  show ?case
  proof (cases "n < 10")
    case False
    with 1 have "dec_value (dec n) = 10 * (n div 10) + n mod 10"
      by (simp add: dec.simps [of n] dec_value_def)
    then show ?thesis by simp
  qed (simp add: dec.simps dec_value_def)
qed

lemma is_digit_hd_dec: "is_digit (hd (dec n))"
  using dec_digits [of n] by (cases "dec n") simp_all

section \<open>Searching in strings\<close>

text \<open>\<^verbatim>\<open>std::string::find\<close>, with None for \<^verbatim>\<open>npos\<close>.\<close>

fun std_find :: "string \<Rightarrow> string \<Rightarrow> nat option" where
  "std_find pat [] = (if pat = [] then Some 0 else None)"
| "std_find pat (c # cs) = (if take (length pat) (c # cs) = pat then Some 0
     else map_option Suc (std_find pat cs))"

section \<open>Input streams\<close>

record istream =
  ibuf :: string
  ipos :: nat
  eofb :: bool
  failb :: bool

definition istringstream :: "string \<Rightarrow> istream" where
  "istringstream s = \<lparr>ibuf = s, ipos = 0, eofb = False, failb = False\<rparr>"

definition irest :: "istream \<Rightarrow> string" where
  "irest s = drop (ipos s) (ibuf s)"

definition is_good :: "istream \<Rightarrow> bool" where
  "is_good s \<longleftrightarrow> \<not> eofb s \<and> \<not> failb s"

text \<open>\<open>advance k\<close> moves past k characters, and sets the eof bit when a scan stopped at the end.\<close>

definition scan_past :: "nat \<Rightarrow> istream \<Rightarrow> istream" where
  "scan_past k s = s\<lparr>ipos := ipos s + k, eofb := eofb s \<or> length (ibuf s) \<le> ipos s + k\<rparr>"

definition is_space :: "char \<Rightarrow> bool" where
  "is_space c \<longleftrightarrow> c = CHR '' '' \<or> (9 \<le> (of_char c :: nat) \<and> (of_char c :: nat) \<le> 13)"

text \<open>The sentry of formatted input: it skips white space, and at the end sets both bits.\<close>

definition sentry :: "istream \<Rightarrow> bool \<times> istream" where
  "sentry s = (if \<not> is_good s then (False, s\<lparr>failb := True\<rparr>) else
     (let r = irest s; k = length (takeWhile is_space r) in
      if k = length r then (False, s\<lparr>ipos := ipos s + k, eofb := True, failb := True\<rparr>)
      else (True, s\<lparr>ipos := ipos s + k\<rparr>)))"

text \<open>\<^verbatim>\<open>iss >> c\<close>: the result is None when the variable keeps its value.\<close>

definition read_char :: "istream \<Rightarrow> char option \<times> istream" where
  "read_char s = (case sentry s of
     (False, s') \<Rightarrow> (None, s')
   | (True, s') \<Rightarrow> (Some (hd (irest s')), s'\<lparr>ipos := ipos s' + 1\<rparr>))"

text \<open>
  The characters that the conversion of an unsigned decimal integer takes: an optional sign and
  digits.  A minus sign negates modulo \<open>2 ^ 32\<close>; a value that does not fit gives the largest one and
  sets the fail bit, as no digit at all does with the value 0.
\<close>

definition scan_u32 :: "string \<Rightarrow> u32 \<times> nat \<times> bool" where
  "scan_u32 r =
    (let neg = (r \<noteq> [] \<and> hd r = CHR ''-'');
         sgn = (if r \<noteq> [] \<and> (hd r = CHR ''-'' \<or> hd r = CHR ''+'') then 1 else 0);
         ds = takeWhile is_digit (drop sgn r);
         k = sgn + length ds;
         v = dec_value ds
     in if ds = [] then (0, k, False)
        else if v \<ge> 2 ^ 32 then (- 1, k, False)
        else (if neg then - of_nat v else of_nat v, k, True))"

definition read_u32 :: "istream \<Rightarrow> u32 option \<times> istream" where
  "read_u32 s = (case sentry s of
     (False, s') \<Rightarrow> (None, s')
   | (True, s') \<Rightarrow>
       (case scan_u32 (irest s') of (v, k, ok) \<Rightarrow>
          (Some v, (scan_past k s')\<lparr>failb := \<not> ok\<rparr>)))"

text \<open>Floating-point numbers.\<close>

record 'f float_lib =
  fl_zero :: 'f
  fl_scan :: "string \<Rightarrow> 'f \<times> nat \<times> bool"
  fl_show :: "'f \<Rightarrow> string"
  fl_lt :: "'f \<Rightarrow> 'f \<Rightarrow> bool"
  fl_eq :: "'f \<Rightarrow> 'f \<Rightarrow> bool"

definition read_float :: "'f float_lib \<Rightarrow> istream \<Rightarrow> 'f option \<times> istream" where
  "read_float fl s = (case sentry s of
     (False, s') \<Rightarrow> (None, s')
   | (True, s') \<Rightarrow>
       (case fl_scan fl (irest s') of (v, k, ok) \<Rightarrow>
          (Some v, (scan_past k s')\<lparr>failb := \<not> ok\<rparr>)))"

text \<open>\<^verbatim>\<open>peek\<close> is None for the value \<open>-1\<close>.\<close>

definition peek :: "istream \<Rightarrow> char option \<times> istream" where
  "peek s = (if \<not> is_good s then (None, s\<lparr>failb := True\<rparr>)
     else if irest s = [] then (None, s\<lparr>eofb := True\<rparr>) else (Some (hd (irest s)), s))"

definition ignore1 :: "istream \<Rightarrow> istream" where
  "ignore1 s = (if \<not> is_good s then s\<lparr>failb := True\<rparr>
     else if irest s = [] then s\<lparr>eofb := True\<rparr> else s\<lparr>ipos := ipos s + 1\<rparr>)"

text \<open>\<^verbatim>\<open>ignore(max, delim)\<close>.\<close>

definition ignore_to :: "char \<Rightarrow> istream \<Rightarrow> istream" where
  "ignore_to d s = (if \<not> is_good s then s\<lparr>failb := True\<rparr> else
     (let k = length (takeWhile (\<lambda>c. c \<noteq> d) (irest s)) in
      if k = length (irest s) then s\<lparr>ipos := ipos s + k, eofb := True\<rparr>
      else s\<lparr>ipos := ipos s + k + 1\<rparr>))"

text \<open>\<^verbatim>\<open>tellg\<close>, which also constructs a sentry; the result is None for \<open>-1\<close>.\<close>

definition tellg :: "istream \<Rightarrow> nat option \<times> istream" where
  "tellg s = (if \<not> is_good s then (None, s\<lparr>failb := True\<rparr>) else (Some (ipos s), s))"

section \<open>Reading back printed text\<close>

text \<open>A stream in the middle of a text, with the bits clear.\<close>

definition at_text :: "string \<Rightarrow> string \<Rightarrow> istream" where
  "at_text done_part r = \<lparr>ibuf = done_part @ r, ipos = length done_part, eofb = False, failb = False\<rparr>"

lemma istringstream_at_text: "istringstream s = at_text [] s"
  by (simp add: istringstream_def at_text_def)

lemma irest_at_text [simp]: "irest (at_text p r) = r"
  by (simp add: irest_def at_text_def)

lemma at_text_simps [simp]:
  "eofb (at_text p r) = False" "failb (at_text p r) = False" "ipos (at_text p r) = length p"
  "ibuf (at_text p r) = p @ r" "is_good (at_text p r)"
  by (simp_all add: at_text_def is_good_def)

lemma at_text_advance:
  "(at_text p (q @ r))\<lparr>ipos := length p + length q\<rparr> = at_text (p @ q) r"
  by (simp add: at_text_def)

lemma sentry_at_text:
  "r \<noteq> [] \<Longrightarrow> \<not> is_space (hd r) \<Longrightarrow> sentry (at_text p r) = (True, at_text p r)"
  by (cases r) (simp_all add: sentry_def)

lemma read_char_at_text:
  assumes "\<not> is_space c"
  shows "read_char (at_text p (c # r)) = (Some c, at_text (p @ [c]) r)"
  using assms at_text_advance [of p "[c]" r] by (simp add: read_char_def sentry_at_text)

text \<open>The stream after scanning \<open>q\<close> of \<open>q @ r\<close>: at the end of the text the eof bit is set.\<close>

definition after_scan :: "string \<Rightarrow> string \<Rightarrow> string \<Rightarrow> istream" where
  "after_scan p q r = (at_text (p @ q) r)\<lparr>eofb := (r = [])\<rparr>"

lemma after_scan_Cons [simp]: "after_scan p q (c # r) = at_text (p @ q) (c # r)"
  by (simp add: after_scan_def at_text_def)

lemma after_scan_eofb [simp]: "eofb (after_scan p q r) \<longleftrightarrow> r = []"
  by (simp add: after_scan_def)

lemma scan_past_at_text:
  "(scan_past (length q) (at_text p (q @ r)))\<lparr>failb := False\<rparr> = after_scan p q r"
  by (simp add: scan_past_def after_scan_def at_text_def)

lemma takeWhile_append_stop:
  assumes "list_all P xs" and "ys = [] \<or> \<not> P (hd ys)"
  shows "takeWhile P (xs @ ys) = xs"
  using assms by (cases ys) (auto simp: list_all_iff takeWhile_append)

lemma is_digit_not_space: "is_digit c \<Longrightarrow> \<not> is_space c"
  by (auto simp: is_digit_def is_space_def)

lemma is_digit_not_sign: "is_digit c \<Longrightarrow> c \<noteq> CHR ''-'' \<and> c \<noteq> CHR ''+''"
  by (auto simp: is_digit_def)

lemma scan_u32_dec:
  assumes "n < 2 ^ 32" and "r = [] \<or> \<not> is_digit (hd r)"
  shows "scan_u32 (dec n @ r) = (of_nat n, length (dec n), True)"
proof -
  obtain c cs where d: "dec n = c # cs" by (cases "dec n") auto
  with is_digit_hd_dec [of n] have "c \<noteq> CHR ''-''" "c \<noteq> CHR ''+''"
    using is_digit_not_sign by auto
  moreover have "takeWhile is_digit (c # cs @ r) = c # cs"
    using takeWhile_append_stop [OF dec_digits assms(2), of n] d by simp
  moreover have "dec_value (c # cs) = n" using dec_value_dec [of n] d by simp
  ultimately show ?thesis using assms(1) by (simp add: scan_u32_def Let_def d)
qed

lemma read_u32_dec:
  assumes "n < 2 ^ 32" and "r = [] \<or> \<not> is_digit (hd r)"
  shows "read_u32 (at_text p (dec n @ r)) = (Some (of_nat n), after_scan p (dec n) r)"
proof -
  have "hd (dec n @ r) = hd (dec n)" by simp
  then have "sentry (at_text p (dec n @ r)) = (True, at_text p (dec n @ r))"
    using is_digit_not_space [OF is_digit_hd_dec [of n]] by (intro sentry_at_text) simp_all
  then show ?thesis
    using assms by (simp add: read_u32_def scan_u32_dec scan_past_at_text)
qed

text \<open>
  The floating-point text round trip at one value: what the library prints for it is scanned back
  to it, up to a character that cannot continue a number, and it has none of the characters that
  structure the texts around it.
\<close>

definition number_char :: "char \<Rightarrow> bool" where
  "number_char c \<longleftrightarrow> is_digit c \<or> c \<in> set ''+-.eE''"

definition float_text_ok :: "'f float_lib \<Rightarrow> 'f \<Rightarrow> bool" where
  "float_text_ok fl x \<longleftrightarrow> fl_show fl x \<noteq> [] \<and> list_all number_char (fl_show fl x) \<and>
     (\<forall>r. r = [] \<or> \<not> number_char (hd r) \<longrightarrow>
        fl_scan fl (fl_show fl x @ r) = (x, length (fl_show fl x), True))"

lemma number_char_not_space: "number_char c \<Longrightarrow> \<not> is_space c"
  by (auto simp: number_char_def is_digit_def is_space_def)

lemma read_float_show:
  assumes "float_text_ok fl x" and "r = [] \<or> \<not> number_char (hd r)"
  shows "read_float fl (at_text p (fl_show fl x @ r)) = (Some x, after_scan p (fl_show fl x) r)"
proof -
  obtain c cs where d: "fl_show fl x = c # cs"
    using assms(1) by (cases "fl_show fl x") (auto simp: float_text_ok_def)
  then have "\<not> is_space c"
    using assms(1) number_char_not_space by (simp add: float_text_ok_def)
  then have "sentry (at_text p (fl_show fl x @ r)) = (True, at_text p (fl_show fl x @ r))"
    by (intro sentry_at_text) (simp_all add: d)
  moreover have "fl_scan fl (fl_show fl x @ r) = (x, length (fl_show fl x), True)"
    using assms unfolding float_text_ok_def by blast
  ultimately show ?thesis by (simp add: read_float_def scan_past_at_text)
qed

end
