(* ===== verification/Error_Table.thy ===== *)
theory Error_Table
  imports Prelude
begin

text \<open>
  The enumerations of \<^verbatim>\<open>utilities/error_handler.h\<close> and the error table of
  \<^verbatim>\<open>utilities/error_lookup_table.cpp\<close>.  The enumerators of \<^verbatim>\<open>EPUBError\<close> come in five
  consecutive blocks, one for each specification, and each block is a datatype here; the value
  functions give the numbers that the enumeration assigns.  The table is one function for each
  block, with None where the table has no row.
\<close>

section \<open>Specifications and severities\<close>

datatype EPUBSpec =
  OpenContainerFormat | OpenPublicationFormat | ContentDocuments | MediaOverlays
| CanonicalFragmentIdentifiers | UnknownSpec

datatype ViolationSeverity = Minor | Medium | Major | Critical

section \<open>The enumerators\<close>

datatype (plugins only: code) ocf_error =
  OCFErrorBase | OCFResourceNotInManifest | OCFNoMetaInfDirectory | OCFInvalidRelativeIRI
| OCFInvalidFileNameCharacter | OCFNoContainerFile | OCFNoRootfilesInContainer
| OCFNonRelativeRootfileURL | OCFInvalidRootfileURL | OCFInvalidEncryptionFile
| OCFEncryptedFileStoredCompressed | OCFInvalidEncryptedFile | OCFInvalidSignatureFile
| OCFMultiPartZip | OCFNonDeflateCompression | OCFZipEncryptionEncountered
| OCFNonUTF8FileNames | OCFInvalidZipVersion | OCFInvalidZipHeader | OCFMimetypeFileNotFound
| OCFMimetypeLocationIncorrect | OCFMimetypeStorageIncorrect | OCFMimetypeContentIncorrect
| OCFMimetypeHasExtraHeaderField | OCFFontEncryptedIllegally | OCFErrorMax

datatype (plugins only: code) opf_error =
  OPFErrorBase | OPFNoNavDocument | OPFMultipleNavDocuments | OPFInvalidPackageDocument
| OPFInvalidPackageDocumentExtension | OPFPackageHasNoVersion | OPFNoMetadata
| OPFMetadataOutOfOrder | OPFMissingIdentifierMetadata | OPFMissingTitleMetadata
| OPFMissingLanguageMetadata | OPFInvalidRefinementAttribute | OPFInvalidRefinementTarget
| OPFLinkReferencesManifestItem | OPFLinkMissingHref | OPFNoManifest | OPFManifestOutOfOrder
| OPFNoManifestItems | OPFNoSpine | OPFSpineOutOfOrder | OPFNoSpineItems
| OPFNoPrimarySpineItems | OPFMissingSpineIdref | OPFInvalidSpineIdref
| OPFSpineTargetNoContentDocument | OPFMultipleBindingsForMediaType
| OPFCoreMediaTypeBindingEncountered | OPFBindingHandlerNotFound | OPFBindingHandlerInvalidType
| OPFBindingHandlerNotScripted | OPFBindingHandlerNoMediaType | OPFCollectionMissingRole
| OPFCollectionMetadataOutOfOrder | OPFCollectionSubcollectionOutOfOrder | OPFCollectionNoLinks
| OPFCollectionRoleInvalid | OPFCollectionRefinesInvalid | OPFCollectionIllegalMetaElement
| OPFCollectionLinkIncludesRefinement | OPFPackageUniqueIDInvalid
| OPFMissingModificationDateMetadata | OPFModificationDateInvalid
| OPFIllegalPrefixRedeclaration | OPFIllegalVocabularyIRIRedefinition
| OPFIllegalPrefixDefinition | OPFIllegalLinkRelValue | OPFMultipleCoverImageItems
| OPFConflictingSpineItemSpreads | OPFNoFallbackForForeignMediaType
| OPFInvalidManifestFallbackRef | OPFFallbackChainHasNoContentDocument
| OPFFallbackChainCircularReference | OPFNonConformantXMLResource
| OPFExternalIdentifiersInXMLResource | OPFXMLResourceUsesXInclude
| OPFXMLResourceInvalidEncoding | OPFErrorMax

datatype (plugins only: code) content_error =
  ContentDocumentErrorBase | InvalidXHTML5Document | XHTMLDocumentIncorrectExtension
| NavElementHasNoType | NavElementUnexpectedType | NavElementInvalidChildren
| NavElementInvalidChildOrder | NavListElementInvalidChild | NavNoTOCFound
| NavMultipleTOCsEncountered | NavMultiplePageListsEncountered
| NavMultipleLandmarksEncountered | NavTableHasNoTitle | SVGContainsAnimations
| SVGInvalidForeignObjectContent | SVGInvalidTitle | GlossaryInvalidRootNode | ContentErrorMax

datatype (plugins only: code) overlay_error =
  MediaOverlaysErrorBase | MediaOverlayInvalidRootElement | MediaOverlayVersionMissing
| MediaOverlayInvalidVersion | MediaOverlayHeadIncorrectlyPlaced | MediaOverlayNoBody
| MediaOverlayMultipleBodies | MediaOverlayEmptyBody | MediaOverlayEmptySeq
| MediaOverlayEmptyPar | MediaOverlayInvalidText | MediaOverlayInvalidTextSource
| MediaOverlayTextSrcFragmentMissing | MediaOverlayInvalidAudio
| MediaOverlayInvalidAudioSource | MediaOverlayInvalidAudioType
| MediaOverlayMissingDurationMetadata | MediaOverlayMismatchDurationMetadata
| MediaOverlayInvalidSmilClockValue | MediaOverlayCannotParseSMILXML
| MediaOverlayUnknownSMILElement | MediaOverlaySMILTextParallelParent
| MediaOverlaySMILAudioParallelParent | MediaOverlaySMILParallelSequenceParent
| MediaOverlaySMILSequenceSequenceParent | MediaOverlayInvalidTextRefSource
| MediaOverlayErrorMax

datatype (plugins only: code) cfi_error =
  CFIErrorBase | CFIContainsLeadingZeroes | CFIContainsTrailingFractionZeroes
| CFIContainsEmptyFraction | CFIContainsTruncatedWholePart | CFIParseFailed
| CFINonSlashStartCharacter | CFIInvalidSpineLocation | CFITooShort | CFIUnexpectedComponent
| CFIStepOutOfBounds | CFINonAssertedXMLID | CFIInvalidIndirectionStartNode
| CFIIndirectionTargetMissing | CFIIndirectionTargetNotFound | CFICharOffsetOnIllegalElement
| CFICharOffsetInNonTerminatingStep | CFICharOffsetOutOfBounds
| CFITemporalOffsetInvalidResource | CFITemporalOffsetInNonTerminatingStep
| CFISpatialOffsetInvalidFormat | CFISpatialOffsetOutOfBounds
| CFITextAssertionInvalidPlacement | CFISideBiasInvalidPlacement | CFISideBiasInvalidSide
| CFIRangeInvalid | CFIRangeContainsSideBias | CFIRangeComponentCountInvalid | CFIErrorMax

datatype EPUBError =
  NoError | OCF ocf_error | OPF opf_error | ContentDoc content_error | Overlay overlay_error | CFIErr cfi_error

primrec ocf_error_value :: "ocf_error \<Rightarrow> int" where
  "ocf_error_value OCFErrorBase = 100"
| "ocf_error_value OCFResourceNotInManifest = 101"
| "ocf_error_value OCFNoMetaInfDirectory = 102"
| "ocf_error_value OCFInvalidRelativeIRI = 103"
| "ocf_error_value OCFInvalidFileNameCharacter = 104"
| "ocf_error_value OCFNoContainerFile = 105"
| "ocf_error_value OCFNoRootfilesInContainer = 106"
| "ocf_error_value OCFNonRelativeRootfileURL = 107"
| "ocf_error_value OCFInvalidRootfileURL = 108"
| "ocf_error_value OCFInvalidEncryptionFile = 109"
| "ocf_error_value OCFEncryptedFileStoredCompressed = 110"
| "ocf_error_value OCFInvalidEncryptedFile = 111"
| "ocf_error_value OCFInvalidSignatureFile = 112"
| "ocf_error_value OCFMultiPartZip = 113"
| "ocf_error_value OCFNonDeflateCompression = 114"
| "ocf_error_value OCFZipEncryptionEncountered = 115"
| "ocf_error_value OCFNonUTF8FileNames = 116"
| "ocf_error_value OCFInvalidZipVersion = 117"
| "ocf_error_value OCFInvalidZipHeader = 118"
| "ocf_error_value OCFMimetypeFileNotFound = 119"
| "ocf_error_value OCFMimetypeLocationIncorrect = 120"
| "ocf_error_value OCFMimetypeStorageIncorrect = 121"
| "ocf_error_value OCFMimetypeContentIncorrect = 122"
| "ocf_error_value OCFMimetypeHasExtraHeaderField = 123"
| "ocf_error_value OCFFontEncryptedIllegally = 124"
| "ocf_error_value OCFErrorMax = 125"

primrec opf_error_value :: "opf_error \<Rightarrow> int" where
  "opf_error_value OPFErrorBase = 200"
| "opf_error_value OPFNoNavDocument = 201"
| "opf_error_value OPFMultipleNavDocuments = 202"
| "opf_error_value OPFInvalidPackageDocument = 203"
| "opf_error_value OPFInvalidPackageDocumentExtension = 204"
| "opf_error_value OPFPackageHasNoVersion = 205"
| "opf_error_value OPFNoMetadata = 206"
| "opf_error_value OPFMetadataOutOfOrder = 207"
| "opf_error_value OPFMissingIdentifierMetadata = 208"
| "opf_error_value OPFMissingTitleMetadata = 209"
| "opf_error_value OPFMissingLanguageMetadata = 210"
| "opf_error_value OPFInvalidRefinementAttribute = 211"
| "opf_error_value OPFInvalidRefinementTarget = 212"
| "opf_error_value OPFLinkReferencesManifestItem = 213"
| "opf_error_value OPFLinkMissingHref = 214"
| "opf_error_value OPFNoManifest = 215"
| "opf_error_value OPFManifestOutOfOrder = 216"
| "opf_error_value OPFNoManifestItems = 217"
| "opf_error_value OPFNoSpine = 218"
| "opf_error_value OPFSpineOutOfOrder = 219"
| "opf_error_value OPFNoSpineItems = 220"
| "opf_error_value OPFNoPrimarySpineItems = 221"
| "opf_error_value OPFMissingSpineIdref = 222"
| "opf_error_value OPFInvalidSpineIdref = 223"
| "opf_error_value OPFSpineTargetNoContentDocument = 224"
| "opf_error_value OPFMultipleBindingsForMediaType = 225"
| "opf_error_value OPFCoreMediaTypeBindingEncountered = 226"
| "opf_error_value OPFBindingHandlerNotFound = 227"
| "opf_error_value OPFBindingHandlerInvalidType = 228"
| "opf_error_value OPFBindingHandlerNotScripted = 229"
| "opf_error_value OPFBindingHandlerNoMediaType = 230"
| "opf_error_value OPFCollectionMissingRole = 231"
| "opf_error_value OPFCollectionMetadataOutOfOrder = 232"
| "opf_error_value OPFCollectionSubcollectionOutOfOrder = 233"
| "opf_error_value OPFCollectionNoLinks = 234"
| "opf_error_value OPFCollectionRoleInvalid = 235"
| "opf_error_value OPFCollectionRefinesInvalid = 236"
| "opf_error_value OPFCollectionIllegalMetaElement = 237"
| "opf_error_value OPFCollectionLinkIncludesRefinement = 238"
| "opf_error_value OPFPackageUniqueIDInvalid = 239"
| "opf_error_value OPFMissingModificationDateMetadata = 240"
| "opf_error_value OPFModificationDateInvalid = 241"
| "opf_error_value OPFIllegalPrefixRedeclaration = 242"
| "opf_error_value OPFIllegalVocabularyIRIRedefinition = 243"
| "opf_error_value OPFIllegalPrefixDefinition = 244"
| "opf_error_value OPFIllegalLinkRelValue = 245"
| "opf_error_value OPFMultipleCoverImageItems = 246"
| "opf_error_value OPFConflictingSpineItemSpreads = 247"
| "opf_error_value OPFNoFallbackForForeignMediaType = 248"
| "opf_error_value OPFInvalidManifestFallbackRef = 249"
| "opf_error_value OPFFallbackChainHasNoContentDocument = 250"
| "opf_error_value OPFFallbackChainCircularReference = 251"
| "opf_error_value OPFNonConformantXMLResource = 252"
| "opf_error_value OPFExternalIdentifiersInXMLResource = 253"
| "opf_error_value OPFXMLResourceUsesXInclude = 254"
| "opf_error_value OPFXMLResourceInvalidEncoding = 255"
| "opf_error_value OPFErrorMax = 256"

primrec content_error_value :: "content_error \<Rightarrow> int" where
  "content_error_value ContentDocumentErrorBase = 300"
| "content_error_value InvalidXHTML5Document = 301"
| "content_error_value XHTMLDocumentIncorrectExtension = 302"
| "content_error_value NavElementHasNoType = 303"
| "content_error_value NavElementUnexpectedType = 304"
| "content_error_value NavElementInvalidChildren = 305"
| "content_error_value NavElementInvalidChildOrder = 306"
| "content_error_value NavListElementInvalidChild = 307"
| "content_error_value NavNoTOCFound = 308"
| "content_error_value NavMultipleTOCsEncountered = 309"
| "content_error_value NavMultiplePageListsEncountered = 310"
| "content_error_value NavMultipleLandmarksEncountered = 311"
| "content_error_value NavTableHasNoTitle = 312"
| "content_error_value SVGContainsAnimations = 313"
| "content_error_value SVGInvalidForeignObjectContent = 314"
| "content_error_value SVGInvalidTitle = 315"
| "content_error_value GlossaryInvalidRootNode = 316"
| "content_error_value ContentErrorMax = 317"

primrec overlay_error_value :: "overlay_error \<Rightarrow> int" where
  "overlay_error_value MediaOverlaysErrorBase = 400"
| "overlay_error_value MediaOverlayInvalidRootElement = 401"
| "overlay_error_value MediaOverlayVersionMissing = 402"
| "overlay_error_value MediaOverlayInvalidVersion = 403"
| "overlay_error_value MediaOverlayHeadIncorrectlyPlaced = 404"
| "overlay_error_value MediaOverlayNoBody = 405"
| "overlay_error_value MediaOverlayMultipleBodies = 406"
| "overlay_error_value MediaOverlayEmptyBody = 407"
| "overlay_error_value MediaOverlayEmptySeq = 408"
| "overlay_error_value MediaOverlayEmptyPar = 409"
| "overlay_error_value MediaOverlayInvalidText = 410"
| "overlay_error_value MediaOverlayInvalidTextSource = 411"
| "overlay_error_value MediaOverlayTextSrcFragmentMissing = 412"
| "overlay_error_value MediaOverlayInvalidAudio = 413"
| "overlay_error_value MediaOverlayInvalidAudioSource = 414"
| "overlay_error_value MediaOverlayInvalidAudioType = 415"
| "overlay_error_value MediaOverlayMissingDurationMetadata = 416"
| "overlay_error_value MediaOverlayMismatchDurationMetadata = 417"
| "overlay_error_value MediaOverlayInvalidSmilClockValue = 418"
| "overlay_error_value MediaOverlayCannotParseSMILXML = 419"
| "overlay_error_value MediaOverlayUnknownSMILElement = 420"
| "overlay_error_value MediaOverlaySMILTextParallelParent = 421"
| "overlay_error_value MediaOverlaySMILAudioParallelParent = 422"
| "overlay_error_value MediaOverlaySMILParallelSequenceParent = 423"
| "overlay_error_value MediaOverlaySMILSequenceSequenceParent = 424"
| "overlay_error_value MediaOverlayInvalidTextRefSource = 425"
| "overlay_error_value MediaOverlayErrorMax = 426"

primrec cfi_error_value :: "cfi_error \<Rightarrow> int" where
  "cfi_error_value CFIErrorBase = 500"
| "cfi_error_value CFIContainsLeadingZeroes = 501"
| "cfi_error_value CFIContainsTrailingFractionZeroes = 502"
| "cfi_error_value CFIContainsEmptyFraction = 503"
| "cfi_error_value CFIContainsTruncatedWholePart = 504"
| "cfi_error_value CFIParseFailed = 505"
| "cfi_error_value CFINonSlashStartCharacter = 506"
| "cfi_error_value CFIInvalidSpineLocation = 507"
| "cfi_error_value CFITooShort = 508"
| "cfi_error_value CFIUnexpectedComponent = 509"
| "cfi_error_value CFIStepOutOfBounds = 510"
| "cfi_error_value CFINonAssertedXMLID = 511"
| "cfi_error_value CFIInvalidIndirectionStartNode = 512"
| "cfi_error_value CFIIndirectionTargetMissing = 513"
| "cfi_error_value CFIIndirectionTargetNotFound = 514"
| "cfi_error_value CFICharOffsetOnIllegalElement = 515"
| "cfi_error_value CFICharOffsetInNonTerminatingStep = 516"
| "cfi_error_value CFICharOffsetOutOfBounds = 517"
| "cfi_error_value CFITemporalOffsetInvalidResource = 518"
| "cfi_error_value CFITemporalOffsetInNonTerminatingStep = 519"
| "cfi_error_value CFISpatialOffsetInvalidFormat = 520"
| "cfi_error_value CFISpatialOffsetOutOfBounds = 521"
| "cfi_error_value CFITextAssertionInvalidPlacement = 522"
| "cfi_error_value CFISideBiasInvalidPlacement = 523"
| "cfi_error_value CFISideBiasInvalidSide = 524"
| "cfi_error_value CFIRangeInvalid = 525"
| "cfi_error_value CFIRangeContainsSideBias = 526"
| "cfi_error_value CFIRangeComponentCountInvalid = 527"
| "cfi_error_value CFIErrorMax = 528"

fun EPUBError_value :: "EPUBError \<Rightarrow> int" where
  "EPUBError_value NoError = 0"
| "EPUBError_value (OCF e) = ocf_error_value e"
| "EPUBError_value (OPF e) = opf_error_value e"
| "EPUBError_value (ContentDoc e) = content_error_value e"
| "EPUBError_value (Overlay e) = overlay_error_value e"
| "EPUBError_value (CFIErr e) = cfi_error_value e"

section \<open>The table\<close>

record ErrorInfo =
  severity :: ViolationSeverity
  spec :: EPUBSpec
  sect :: string
  msg :: string

definition error_info :: "ViolationSeverity \<Rightarrow> EPUBSpec \<Rightarrow> string \<Rightarrow> string \<Rightarrow> ErrorInfo option" where
  "error_info v s c m = Some \<lparr>severity = v, spec = s, sect = c, msg = m\<rparr>"

primrec ocf_error_info :: "ocf_error \<Rightarrow> ErrorInfo option" where
  "ocf_error_info OCFErrorBase = None"
| "ocf_error_info OCFResourceNotInManifest = error_info Major OpenContainerFormat ''1.2''
      (''All resources accessed by a publication rendition MUST be listed in its '' @
      ''manifest.'')"
| "ocf_error_info OCFNoMetaInfDirectory = error_info Critical OpenContainerFormat ''2.2''
      ''Critical. All containers MUST have a META-INF directory.''"
| "ocf_error_info OCFInvalidRelativeIRI = error_info Medium OpenContainerFormat ''2.3''
      ''IRIs should all be relative; META-INF contents are relative to root, not self.''"
| "ocf_error_info OCFInvalidFileNameCharacter = error_info Medium OpenContainerFormat ''2.4''
      ''File names MUST use UTF-8 encoding and avoid some Unicode code points.''"
| "ocf_error_info OCFNoContainerFile = error_info Critical OpenContainerFormat ''2.5.1''
      ''Containers MUST have a META-INF/container.xml file.''"
| "ocf_error_info OCFNoRootfilesInContainer = error_info Critical OpenContainerFormat ''2.5.1''
      '''container.xml' MUST contain <rootfiles> element with at least one <rootfile>.''"
| "ocf_error_info OCFNonRelativeRootfileURL = error_info Medium OpenContainerFormat ''2.5.1''
      ''A <rootfile> element's 'full-path' attribute MUST be a relative IRI.''"
| "ocf_error_info OCFInvalidRootfileURL = error_info Critical OpenContainerFormat ''2.5.1''
      ''The URL to a package file does not identify a valid resource.''"
| "ocf_error_info OCFInvalidEncryptionFile = error_info Major OpenContainerFormat ''2.5.2''
      '''META-INF/encryption.xml' MUST be valid according to XML-ENC 1.1 schema.''"
| "ocf_error_info OCFEncryptedFileStoredCompressed = error_info Minor OpenContainerFormat ''2.5.2''
      (''Encrypted files SHOULD be compressed, then encrypted, then stored, not '' @
      ''encrypted then stored-as-compressed.'')"
| "ocf_error_info OCFInvalidEncryptedFile = error_info Medium OpenContainerFormat ''2.5.2''
      (''The 'mimetype' file, contents of the META-INF directory, and package documents '' @
      ''MUST NOT be encrypted.'')"
| "ocf_error_info OCFInvalidSignatureFile = error_info Major OpenContainerFormat ''2.5.6''
      '''META-INF/signature.xml' MUST be valid according to XML-DSig 1.1 schema.''"
| "ocf_error_info OCFMultiPartZip = error_info Critical OpenContainerFormat ''3.2''
      ''An OCF container MUST NOT be split across multiple ZIP archives.''"
| "ocf_error_info OCFNonDeflateCompression = error_info Medium OpenContainerFormat ''3.2''
      ''A container's files MUST only use STORE or DEFLATE compression, values 0 or 8.''"
| "ocf_error_info OCFZipEncryptionEncountered = error_info Medium OpenContainerFormat ''3.2''
      ''A container MUST NOT use ZIP encryption.''"
| "ocf_error_info OCFNonUTF8FileNames = error_info Minor OpenContainerFormat ''3.2''
      ''A container MUST use UTF-8 for all file names.''"
| "ocf_error_info OCFInvalidZipVersion = error_info Medium OpenContainerFormat ''3.2''
      (''A container's ZIP archive version MUST be 10, 20 (for Deflate), or 45 (for '' @
      ''ZIP64).'')"
| "ocf_error_info OCFInvalidZipHeader = error_info Medium OpenContainerFormat ''3.2''
      (''A container MUST NOT have a ZIP Decryption Header or Archive Extra Data '' @
      ''Record.'')"
| "ocf_error_info OCFMimetypeFileNotFound = error_info Major OpenContainerFormat ''3.3''
      ''A container MUST have a 'mimetype' file.''"
| "ocf_error_info OCFMimetypeLocationIncorrect = error_info Medium OpenContainerFormat ''3.3''
      ''A container's 'mimetype' file MUST be the first item in the archive.''"
| "ocf_error_info OCFMimetypeStorageIncorrect = error_info Medium OpenContainerFormat ''3.3''
      ''A container's 'mimetype' file MUST NOT be compressed or encrypted.''"
| "ocf_error_info OCFMimetypeContentIncorrect = error_info Medium OpenContainerFormat ''3.3''
      (''A container's 'mimetype' file MUST contain 'application/epub+zip' in UTF-8 '' @
      ''with no padding.'')"
| "ocf_error_info OCFMimetypeHasExtraHeaderField = error_info Medium OpenContainerFormat ''3.3''
      ''A container's 'mimetype' file MUST NOT have an extra field in its ZIP header.''"
| "ocf_error_info OCFFontEncryptedIllegally = error_info Medium OpenContainerFormat ''4.4''
      ''Fonts MUST be encrypted only using Font Obfuscation as per OCF section 4.2.''"
| "ocf_error_info OCFErrorMax = None"

primrec opf_error_info :: "opf_error \<Rightarrow> ErrorInfo option" where
  "opf_error_info OPFErrorBase = None"
| "opf_error_info OPFNoNavDocument = error_info Major OpenPublicationFormat ''2.1''
      ''Publications MUST contain exactly one navigation document.''"
| "opf_error_info OPFMultipleNavDocuments = error_info Major OpenPublicationFormat ''2.1''
      ''Publications MUST contain exactly one navigation document.''"
| "opf_error_info OPFInvalidPackageDocument = error_info Major OpenPublicationFormat ''3.2''
      ''Package documents MUST validate according to OPF schema.''"
| "opf_error_info OPFInvalidPackageDocumentExtension = error_info Minor OpenPublicationFormat ''3.2''
      ''Package documents SHOULD have a .opf extension.''"
| "opf_error_info OPFPackageHasNoVersion = error_info Medium OpenPublicationFormat ''3.4.1''
      ''<package> element MUST have version 3.0 (or 2.x for backward compatibility).''"
| "opf_error_info OPFNoMetadata = error_info Critical OpenPublicationFormat ''3.4.2''
      ''Package MUST contain a <metadata> element as the first child of <package>.''"
| "opf_error_info OPFMetadataOutOfOrder = error_info Medium OpenPublicationFormat ''3.4.2''
      ''Package <metadata> element MUST be the first child of <package>.''"
| "opf_error_info OPFMissingIdentifierMetadata = error_info Critical OpenPublicationFormat ''3.4.2''
      ''Package metadata MUST include 'dc:identifier'.''"
| "opf_error_info OPFMissingTitleMetadata = error_info Major OpenPublicationFormat ''3.4.2''
      ''Package metadata MUST include 'dc:title'.''"
| "opf_error_info OPFMissingLanguageMetadata = error_info Major OpenPublicationFormat ''3.4.2''
      ''Package metadata MUST include 'dc:language'.''"
| "opf_error_info OPFInvalidRefinementAttribute = None"
| "opf_error_info OPFInvalidRefinementTarget = None"
| "opf_error_info OPFLinkReferencesManifestItem = error_info Medium OpenPublicationFormat ''3.4.9''
      ''<link> 'href' attribute MUST NOT identify an object in the manifest.''"
| "opf_error_info OPFLinkMissingHref = None"
| "opf_error_info OPFNoManifest = error_info Critical OpenPublicationFormat ''3.4.10''
      ''Package MUST contain a <manifest> element as the second child of <package>.''"
| "opf_error_info OPFManifestOutOfOrder = error_info Medium OpenPublicationFormat ''3.4.10''
      ''Package <manifest> element MUST be second child of <package>.''"
| "opf_error_info OPFNoManifestItems = error_info Major OpenPublicationFormat ''3.4.10''
      ''<manifest> MUST contain at least one <item> element.''"
| "opf_error_info OPFNoSpine = error_info Critical OpenPublicationFormat ''3.4.12''
      ''Package MUST contain a <spine> element as the third child of <package>.''"
| "opf_error_info OPFSpineOutOfOrder = error_info Medium OpenPublicationFormat ''3.4.12''
      ''Package <spine> element MUST be third child of <package>.''"
| "opf_error_info OPFNoSpineItems = error_info Critical OpenPublicationFormat ''3.4.12''
      ''<spine> MUST contain at least one <itemref> element.''"
| "opf_error_info OPFNoPrimarySpineItems = error_info Major OpenPublicationFormat ''3.4.12''
      ''<spine> MUST contain at least one primari <itemref> element (linear=yes).''"
| "opf_error_info OPFMissingSpineIdref = error_info Critical OpenPublicationFormat ''3.4.13''
      ''Spine <itemref> MUST have an idref attribute.''"
| "opf_error_info OPFInvalidSpineIdref = error_info Critical OpenPublicationFormat ''3.4.13''
      ''Spine <itemref> idref attribute MUST reference an <item> in the manifest.''"
| "opf_error_info OPFSpineTargetNoContentDocument = error_info Major OpenPublicationFormat ''3.4.13''
      (''Spine <itemref> targets MUST include an EPUB Content Document in their '' @
      ''fallback chain, EVEN IF the targetted manifest item's resource is a Core Media '' @
      ''Type.'')"
| "opf_error_info OPFMultipleBindingsForMediaType = error_info Major OpenPublicationFormat ''3.4.16''
      ''Each <mediaType> element within <bindings> MUST reference a unique media-type.''"
| "opf_error_info OPFCoreMediaTypeBindingEncountered = error_info Major OpenPublicationFormat ''3.4.16''
      ''<mediaType> elements MUST NOT reference a Core Media Type.''"
| "opf_error_info OPFBindingHandlerNotFound = error_info Major OpenPublicationFormat ''3.4.16''
      (''<mediaType> elements' handler attribute MUST reference an item in the '' @
      ''<manifest>.'')"
| "opf_error_info OPFBindingHandlerInvalidType = error_info Critical OpenPublicationFormat ''3.4.16''
      ''<mediaType> handler resources MUST be XHTML content documents.''"
| "opf_error_info OPFBindingHandlerNotScripted = error_info Major OpenPublicationFormat ''3.4.16''
      ''<mediaType> handler resources MUST have the scripted property.''"
| "opf_error_info OPFBindingHandlerNoMediaType = error_info Critical OpenPublicationFormat ''3.4.16''
      ''<mediaType> elements MUST have a 'media-type' attribute.''"
| "opf_error_info OPFCollectionMissingRole = None"
| "opf_error_info OPFCollectionMetadataOutOfOrder = None"
| "opf_error_info OPFCollectionSubcollectionOutOfOrder = None"
| "opf_error_info OPFCollectionNoLinks = None"
| "opf_error_info OPFCollectionRoleInvalid = None"
| "opf_error_info OPFCollectionRefinesInvalid = None"
| "opf_error_info OPFCollectionIllegalMetaElement = None"
| "opf_error_info OPFCollectionLinkIncludesRefinement = None"
| "opf_error_info OPFPackageUniqueIDInvalid = error_info Major OpenPublicationFormat ''4.1.1''
      (''The <package> tag's unique-identifier attribute MUST reference a '' @
      ''<dc:identifier> element in the package's <metadata>.'')"
| "opf_error_info OPFMissingModificationDateMetadata = error_info Major OpenPublicationFormat ''4.1.2''
      ''<package> metadata MUST include a dcterms:modified metadata element.''"
| "opf_error_info OPFModificationDateInvalid = error_info Medium OpenPublicationFormat ''4.1.2''
      ('''dcterms:modified' property value MUST be an xml schema dateTime of the form '' @
      ''CCYY-MM-DD'T'hh:mm:ss'Z' (represented here in Unicode date-time format string '' @
      ''syntax).'')"
| "opf_error_info OPFIllegalPrefixRedeclaration = error_info Major OpenPublicationFormat ''4.2.3''
      (''A Reserved Vocabulary member's prefix MUST NOT be re-declared in a prefix '' @
      ''attribute.'')"
| "opf_error_info OPFIllegalVocabularyIRIRedefinition = error_info Major OpenPublicationFormat ''4.2.3''
      ''A Reserved Vocabulary member's IRI MUST NOT be assigned to another prefix.''"
| "opf_error_info OPFIllegalPrefixDefinition = error_info Major OpenPublicationFormat ''4.2.3''
      (''The prefix '_' is reserved for future compatibility with RDFa so MUST NOT be '' @
      ''defined.'')"
| "opf_error_info OPFIllegalLinkRelValue = error_info Major OpenPublicationFormat ''4.3.3''
      (''<link> rel attributes 'marc21xml-record', 'mods-record', 'onix-record', '' @
      '''xml-signature', 'xmp-record' MUST NOT be used when the refines attribute is '' @
      ''present.'')"
| "opf_error_info OPFMultipleCoverImageItems = error_info Major OpenPublicationFormat ''4.3.4''
      (''A <manifest> MUST NOT contain more than one item with the 'cover-image' '' @
      ''attribute.'')"
| "opf_error_info OPFConflictingSpineItemSpreads = error_info Major OpenPublicationFormat ''4.3.5''
      (''A spine <itemref> MUST NOT contain both the 'page-spread-left' and '' @
      '''page-spread-right' properties.'')"
| "opf_error_info OPFNoFallbackForForeignMediaType = error_info Major OpenPublicationFormat ''5.2.2''
      (''Content Documents referenced from the <spine> that are not Core Media types '' @
      ''MUST have a Core Media fallback.'')"
| "opf_error_info OPFInvalidManifestFallbackRef = error_info Critical OpenPublicationFormat ''5.2.2''
      (''A manifest item's fallback attribute MUST provide the identifier of a valid, '' @
      ''different manifest item.'')"
| "opf_error_info OPFFallbackChainHasNoContentDocument = error_info Medium OpenPublicationFormat ''5.2.2''
      ''A fallback chain MUST contain a valid EPUB Content Document.''"
| "opf_error_info OPFFallbackChainCircularReference = error_info Critical OpenPublicationFormat ''5.2.2''
      ''A fallback chain MUST NOT contain circular references.''"
| "opf_error_info OPFNonConformantXMLResource = error_info Major OpenPublicationFormat ''5.4''
      (''Resources that are XML-based Media Types MUST conform to XML 1.0 and '' @
      ''XML-Namespaces.'')"
| "opf_error_info OPFExternalIdentifiersInXMLResource = error_info Medium OpenPublicationFormat ''5.4''
      (''XML-based resources MUST NOT have external identifiers in their Document Type '' @
      ''Definitions.'')"
| "opf_error_info OPFXMLResourceUsesXInclude = error_info Major OpenPublicationFormat ''5.4''
      ''XML-based resources MUST NOT make use of XInclude.''"
| "opf_error_info OPFXMLResourceInvalidEncoding = error_info Major OpenPublicationFormat ''5.4''
      ''XML-based resources MUST be encoded in UTF-8 or UTF-16.''"
| "opf_error_info OPFErrorMax = None"

primrec content_error_info :: "content_error \<Rightarrow> ErrorInfo option" where
  "content_error_info ContentDocumentErrorBase = None"
| "content_error_info InvalidXHTML5Document = error_info Major ContentDocuments ''1.2''
      ''XHTML Content Documents MUST conform to XHTML/HTML5 specifications.''"
| "content_error_info XHTMLDocumentIncorrectExtension = error_info Minor ContentDocuments ''1.2''
      ''XHTML Content Documents SHOULD use the .xhtml filename extension.''"
| "content_error_info NavElementHasNoType = error_info Major ContentDocuments ''2.2.4.1''
      (''Top-level <nav> elements in a Navigation Document MUST contain an epub:type '' @
      ''attribute.'')"
| "content_error_info NavElementUnexpectedType = error_info Medium ContentDocuments ''2.2.4.1''
      ''The epub:type designates an incorrect value.''"
| "content_error_info NavElementInvalidChildren = error_info Medium ContentDocuments ''2.2.4.1''
      (''<nav> elements in a Navigation Document MUST only contain <hgroup>, <h1..6> '' @
      ''and <ol> elements as direct descendants.'')"
| "content_error_info NavElementInvalidChildOrder = error_info Medium ContentDocuments ''2.2.4.1''
      (''<h...> elements within <nav> elements in a Navigation Document MUST occur only '' @
      ''once, and as the first child.'')"
| "content_error_info NavListElementInvalidChild = error_info Medium ContentDocuments ''2.2.4.1''
      (''Navigation Document <li> elements MUST contain one <a> element and an optional '' @
      ''<ol> element, OR contain one <span> element and one required <ol> element.'')"
| "content_error_info NavNoTOCFound = error_info Major ContentDocuments ''2.2.4.2.1''
      (''The 'toc' epub:type MUST occur on EXACTLY ONE <nav> element in the '' @
      ''publication.'')"
| "content_error_info NavMultipleTOCsEncountered = error_info Major ContentDocuments ''2.2.4.2.1''
      (''The 'toc' epub:type MUST occur on EXACTLY ONE <nav> element in the '' @
      ''publication.'')"
| "content_error_info NavMultiplePageListsEncountered = error_info Major ContentDocuments ''2.2.4.2.2''
      (''A publication MUST have no more than one <nav> element with an epub:type of '' @
      '''page-list'.'')"
| "content_error_info NavMultipleLandmarksEncountered = error_info Major ContentDocuments ''2.2.4.2.3''
      (''A publication MUST have no more than one <nav> element with an epub:type of '' @
      '''landmarks'.'')"
| "content_error_info NavTableHasNoTitle = error_info Major ContentDocuments ''2.2.4.2.4''
      (''Navigation tables other than 'toc', 'page-list', and 'landmarks' MUST have a '' @
      ''title as the first child of the <nav> element.'')"
| "content_error_info SVGContainsAnimations = error_info Medium ContentDocuments ''2.3.3''
      ''SVG Animation Elements and Animation Event Attributes MUST NOT occur.''"
| "content_error_info SVGInvalidForeignObjectContent = error_info Medium ContentDocuments ''2.3.3''
      (''SVG <foreignObject> elements MUST contain only valid XHTML Content Document '' @
      ''Flow content, and its requiredExtensions attribute, if given, MUST be set to '' @
      '''http://www.idpf.org/2007/ops'.'')"
| "content_error_info SVGInvalidTitle = error_info Medium ContentDocuments ''2.3.3''
      (''SVG <title> elements MUST contain only valid XHTML Content Document Phrasing '' @
      ''content.'')"
| "content_error_info GlossaryInvalidRootNode = error_info Medium ContentDocuments ''2.1.3.1.3''
      ''Glossaries must use the <dl> element as their root node.''"
| "content_error_info ContentErrorMax = None"

primrec overlay_error_info :: "overlay_error \<Rightarrow> ErrorInfo option" where
  "overlay_error_info MediaOverlaysErrorBase = None"
| "overlay_error_info MediaOverlayInvalidRootElement = error_info Critical MediaOverlays ''2.4.1''
      ''The root element of all Media Overlay documents MUST be an <smil> element.''"
| "overlay_error_info MediaOverlayVersionMissing = error_info Medium MediaOverlays ''2.4.1''
      ''The root <smil> element of a Media Overlay MUST have a version attribute.''"
| "overlay_error_info MediaOverlayInvalidVersion = error_info Medium MediaOverlays ''2.4.1''
      ''The root <smil> element of a Media Overlay MUST have a version of '3.0'.''"
| "overlay_error_info MediaOverlayHeadIncorrectlyPlaced = error_info Medium MediaOverlays ''2.4.2''
      (''The optional <head> element MUST only occur as the first child element of the '' @
      ''root <smil> element.'')"
| "overlay_error_info MediaOverlayNoBody = error_info Major MediaOverlays ''2.4.4''
      ''The root <smil> element MUST contain a single <body> child element.''"
| "overlay_error_info MediaOverlayMultipleBodies = error_info Medium MediaOverlays ''2.4.4''
      ''The root <smil> element MUST contain a single <body> child element.''"
| "overlay_error_info MediaOverlayEmptyBody = error_info Major MediaOverlays ''2.4.4''
      ''The <body> element MUST contain at least one <par> or <seq> child element.''"
| "overlay_error_info MediaOverlayEmptySeq = error_info Major MediaOverlays ''2.4.5''
      ''A <seq> element MUST contain at least one <par> or <seq> child element.''"
| "overlay_error_info MediaOverlayEmptyPar = error_info Major MediaOverlays ''2.4.6''
      ''A <par> element MUST contain a <text> child element.''"
| "overlay_error_info MediaOverlayInvalidText = error_info Critical MediaOverlays ''2.4.7''
      ''A <text> element MUST have a 'src' attribute.''"
| "overlay_error_info MediaOverlayInvalidTextSource = error_info Major MediaOverlays ''2.4.7''
      (''A <text> element's 'src' attribute MUST reference an item in the publication's '' @
      ''<manifest>.'')"
| "overlay_error_info MediaOverlayTextSrcFragmentMissing = error_info Medium MediaOverlays ''2.4.7''
      ''A <text> element's 'src' attribute should contain a fragment identifier.''"
| "overlay_error_info MediaOverlayInvalidAudio = error_info Critical MediaOverlays ''2.4.8''
      ''An <audio> element MUST have a 'src' attribute.''"
| "overlay_error_info MediaOverlayInvalidAudioSource = error_info Major MediaOverlays ''2.4.8''
      (''An <audio> element's 'src' attribute MUST reference an item in the '' @
      ''publication's <manifest>.'')"
| "overlay_error_info MediaOverlayInvalidAudioType = error_info Medium MediaOverlays ''2.4.8''
      (''An <audio> element's 'src' attribute MUST reference an item which is a member '' @
      ''of the EPUB 3 Core Media Types.'')"
| "overlay_error_info MediaOverlayMissingDurationMetadata = error_info Medium MediaOverlays ''x.y.z''
      ''A SMIL manifest item has no corresponding media:duration metadata.''"
| "overlay_error_info MediaOverlayMismatchDurationMetadata = error_info Medium MediaOverlays ''x.y.z''
      ''A SMIL / metadata duration mismatch.''"
| "overlay_error_info MediaOverlayInvalidSmilClockValue = error_info Medium MediaOverlays ''x.y.z''
      (''A given SMIL Clock Value (media:duration, clipBegin or clipEnd) has an invalid '' @
      ''syntax.'')"
| "overlay_error_info MediaOverlayCannotParseSMILXML = error_info Major MediaOverlays ''x.y.z''
      ''A given SMIL XML file fails to parse.''"
| "overlay_error_info MediaOverlayUnknownSMILElement = error_info Major MediaOverlays ''x.y.z''
      ''A given SMIL file contains an unknown XML element.''"
| "overlay_error_info MediaOverlaySMILTextParallelParent = error_info Major MediaOverlays ''x.y.z''
      (''A given SMIL file contains a text XML element that does not have a parallel '' @
      ''parent time container.'')"
| "overlay_error_info MediaOverlaySMILAudioParallelParent = error_info Major MediaOverlays ''x.y.z''
      (''A given SMIL file contains an audio XML element that does not have a parallel '' @
      ''parent time container.'')"
| "overlay_error_info MediaOverlaySMILParallelSequenceParent = error_info Major MediaOverlays ''x.y.z''
      (''A given SMIL file contains a parallel time container XML element that does not '' @
      ''have a sequence parent time container.'')"
| "overlay_error_info MediaOverlaySMILSequenceSequenceParent = error_info Major MediaOverlays ''x.y.z''
      (''A given SMIL file contains a sequence time container XML element that does not '' @
      ''have a sequence parent time container.'')"
| "overlay_error_info MediaOverlayInvalidTextRefSource = error_info Medium MediaOverlays ''x.y.z''
      (''A <body> <seq> or <par> element's 'epub:textref' attribute should reference an '' @
      ''item in the publication's <manifest>.'')"
| "overlay_error_info MediaOverlayErrorMax = None"

primrec cfi_error_info :: "cfi_error \<Rightarrow> ErrorInfo option" where
  "cfi_error_info CFIErrorBase = None"
| "cfi_error_info CFIContainsLeadingZeroes = error_info Medium CanonicalFragmentIdentifiers ''2.2''
      ''Numbers in CFIs MUST NOT have leading zeroes.''"
| "cfi_error_info CFIContainsTrailingFractionZeroes = error_info Medium CanonicalFragmentIdentifiers ''2.2''
      (''Fractional numbers in CFIs MUST NOT have trailing zeroes in their fractional '' @
      ''part.'')"
| "cfi_error_info CFIContainsEmptyFraction = error_info Medium CanonicalFragmentIdentifiers ''2.2''
      ''Integral numbers in CFIs MUST be represented as integers.''"
| "cfi_error_info CFIContainsTruncatedWholePart = error_info Medium CanonicalFragmentIdentifiers ''2.2''
      ''Fraction numbers in CFIs in the range 1 > N > 0 MUST have a '0.' prefix.''"
| "cfi_error_info CFIParseFailed = error_info Major CanonicalFragmentIdentifiers ''2.3''
      (''A CFI could not be parsed-- all special characters MUST be prefixed with a '' @
      ''circumflex (^) character.'')"
| "cfi_error_info CFINonSlashStartCharacter = error_info Major CanonicalFragmentIdentifiers ''3.1.1''
      ''A CFI reference MUST begin with a slash (/) character.''"
| "cfi_error_info CFIInvalidSpineLocation = error_info Major CanonicalFragmentIdentifiers ''3.1.1''
      (''An inter-publication CFI's first traversal step MUST be the location of the '' @
      ''<spine> element within the publication's package document (usually '6').'')"
| "cfi_error_info CFITooShort = error_info Major CanonicalFragmentIdentifiers ''3.1.1''
      (''A CFI with only one component can't reasonably be expected to point to '' @
      ''anything useful.'')"
| "cfi_error_info CFIUnexpectedComponent = error_info Medium CanonicalFragmentIdentifiers ''3.1.1''
      ''A CFI's second component is expected to be an indirector via the spine.''"
| "cfi_error_info CFIStepOutOfBounds = error_info Critical CanonicalFragmentIdentifiers ''3.1.1''
      ''A CFI's step value was beyond the bounds of available elements.''"
| "cfi_error_info CFINonAssertedXMLID = error_info Minor CanonicalFragmentIdentifiers ''3.1.2''
      (''A CFI step referencing an XML node with an 'id' attribute MUST assert that ID '' @
      ''as part of the step.'')"
| "cfi_error_info CFIInvalidIndirectionStartNode = error_info Major CanonicalFragmentIdentifiers ''3.1.3''
      (''A CFI indirection clause can only step into resources identified by: OPF '' @
      ''<itemref> through <item> 'href' attribute, HTML5 <iframe> or <embed> 'src' '' @
      ''attribute, HTML5 <object> 'data' attribute, or SVG <image> and <use> '' @
      '''xlink:href' attributes.'')"
| "cfi_error_info CFIIndirectionTargetMissing = error_info Major CanonicalFragmentIdentifiers ''3.1.3''
      ''The 'href', 'src', 'data' &c. value used for indirection MUST be present.''"
| "cfi_error_info CFIIndirectionTargetNotFound = error_info Major CanonicalFragmentIdentifiers ''3.1.3''
      ''The target IRI of an indirection step references a missing resource.''"
| "cfi_error_info CFICharOffsetOnIllegalElement = error_info Major CanonicalFragmentIdentifiers ''3.1.4''
      (''A character offset MUST NOT be applied to an element, EXCEPT an HTML5 <img> '' @
      ''element containing an 'alt' attribute.'')"
| "cfi_error_info CFICharOffsetInNonTerminatingStep = error_info Major CanonicalFragmentIdentifiers ''3.1.4''
      ''A character offset MUST only appear in the terminating step of a CFI.''"
| "cfi_error_info CFICharOffsetOutOfBounds = error_info Major CanonicalFragmentIdentifiers ''3.1.4''
      (''A character offset MUST NOT be greater than the number of UTF-16 characters in '' @
      ''the selected node.'')"
| "cfi_error_info CFITemporalOffsetInvalidResource = error_info Major CanonicalFragmentIdentifiers ''3.1.5''
      ''A CFI temporal offset MUST ONLY be used on an audio or video resource.''"
| "cfi_error_info CFITemporalOffsetInNonTerminatingStep = error_info Major CanonicalFragmentIdentifiers ''3.1.5''
      ''A CFI temporal offset MUST ONLY appear in the terminating step of a CFI.''"
| "cfi_error_info CFISpatialOffsetInvalidFormat = error_info Major CanonicalFragmentIdentifiers ''3.1.6''
      ''A CFI spatial offset MUST be of the form 'xxx:yyy'.''"
| "cfi_error_info CFISpatialOffsetOutOfBounds = error_info Major CanonicalFragmentIdentifiers ''3.1.6''
      ''A CFI spatial offset MUST ONLY render coordinates in the range 0..100.''"
| "cfi_error_info CFITextAssertionInvalidPlacement = error_info Major CanonicalFragmentIdentifiers ''3.1.8''
      (''A CFI text assertion MUST ONLY occur after a character offset terminating '' @
      ''step.'')"
| "cfi_error_info CFISideBiasInvalidPlacement = error_info Major CanonicalFragmentIdentifiers ''3.1.9''
      ''A CFI side-bias assertion MUST ONLY occur at the end of a CFI.''"
| "cfi_error_info CFISideBiasInvalidSide = error_info Major CanonicalFragmentIdentifiers ''3.1.9''
      ''A CFI side-bias assertion MUST ONLY assert the values 'b' or 'a'.''"
| "cfi_error_info CFIRangeInvalid = error_info Major CanonicalFragmentIdentifiers ''3.4''
      (''A CFI range statement appears to be invalid. Did you forget to escape (^) '' @
      ''something?'')"
| "cfi_error_info CFIRangeContainsSideBias = error_info Medium CanonicalFragmentIdentifiers ''3.4''
      ''A ranged CFI MUST NOT contain any side-bias assertions.''"
| "cfi_error_info CFIRangeComponentCountInvalid = error_info Medium CanonicalFragmentIdentifiers ''3.4''
      (''A CFI appears to have a number of range components other than 1 (no range) or '' @
      ''3 (a valid range).'')"
| "cfi_error_info CFIErrorMax = None"

fun gErrorLookupTable :: "EPUBError \<Rightarrow> ErrorInfo option" where
  "gErrorLookupTable NoError = None"
| "gErrorLookupTable (OCF e) = ocf_error_info e"
| "gErrorLookupTable (OPF e) = opf_error_info e"
| "gErrorLookupTable (ContentDoc e) = content_error_info e"
| "gErrorLookupTable (Overlay e) = overlay_error_info e"
| "gErrorLookupTable (CFIErr e) = cfi_error_info e"

end
