(* ===== verification/EPUB_Error.thy ===== *)
theory EPUB_Error
  imports Error_Table
begin

text \<open>
  \<^verbatim>\<open>utilities/error_handler.{h,cpp}\<close>: specification errors and their messages, the details handed
  to an error handler, the default handler, and \<^verbatim>\<open>HandleError\<close>, which every component of the library
  calls.  The installed handler is a parameter \<open>h\<close> of the code that calls \<^verbatim>\<open>HandleError\<close>: it answers
  True to continue.  A call that returns is \<open>Inr ()\<close>, a call that throws is \<open>Inl\<close> of the exception.
\<close>

section \<open>Exceptions\<close>

record epub_spec_error =
  spec_ec :: EPUBError
  spec_what :: string

record system_error =
  sys_code :: int
  sys_what :: string

datatype cxx_exn =
  Epub_spec_error epub_spec_error
| System_error system_error
| Logic_error string
| Out_of_range string
| Range_error string
| Runtime_error string
| Invalid_argument string
| RangedCFIAppendAttempt string
| InvalidCFI string
| Utf8_not_enough_room

text \<open>
  The ways in which a piece of the library's code stops early: an exception, or an access that C++
  leaves undefined.
\<close>

datatype stop = Throws cxx_exn | Undefined

type_synonym 'a cxx = "stop + 'a"

definition bind_cxx :: "'a cxx \<Rightarrow> ('a \<Rightarrow> 'b cxx) \<Rightarrow> 'b cxx" where
  "bind_cxx r k = (case r of Inl e \<Rightarrow> Inl e | Inr x \<Rightarrow> k x)"

lemma bind_cxx_simps [simp]:
  "bind_cxx (Inl e) k = Inl e"
  "bind_cxx (Inr x) k = k x"
  by (simp_all add: bind_cxx_def)

lemma bind_cxx_Inr_iff:
  "bind_cxx r k = Inr y \<longleftrightarrow> (\<exists>x. r = Inr x \<and> k x = Inr y)"
  by (cases r) auto

text \<open>An access to memory that has to lie inside its block.\<close>

definition must :: "'a option \<Rightarrow> 'a cxx" where
  "must x = (case x of None \<Rightarrow> Inl Undefined | Some y \<Rightarrow> Inr y)"

lemma must_simps [simp]: "must None = Inl Undefined" "must (Some y) = Inr y"
  by (simp_all add: must_def)

text \<open>Code with a loop that may not end runs to an optional outcome.\<close>

type_synonym 'a run = "'a cxx option"

definition bind_run :: "'a run \<Rightarrow> ('a \<Rightarrow> 'b run) \<Rightarrow> 'b run" where
  "bind_run r k = (case r of None \<Rightarrow> None | Some (Inl e) \<Rightarrow> Some (Inl e) | Some (Inr x) \<Rightarrow> k x)"

lemma bind_run_simps [simp]:
  "bind_run None k = None"
  "bind_run (Some (Inl e)) k = Some (Inl e)"
  "bind_run (Some (Inr x)) k = k x"
  by (simp_all add: bind_run_def)

text \<open>Access to an element of an array or a vector with \<^verbatim>\<open>operator[]\<close>.\<close>

definition elem_at :: "'a list \<Rightarrow> nat \<Rightarrow> 'a cxx" where
  "elem_at xs i = (if i < length xs then Inr (xs ! i) else Inl Undefined)"

lemma elem_at_simps [simp]:
  "i < length xs \<Longrightarrow> elem_at xs i = Inr (xs ! i)"
  "\<not> i < length xs \<Longrightarrow> elem_at xs i = Inl Undefined"
  by (simp_all add: elem_at_def)

section \<open>Names and messages\<close>

definition EPUBSpecNames :: "string list" where
  "EPUBSpecNames =
    [''Open Container Format 3.0'', ''Open Publications Format 3.0'', ''Content Documents 3.0'',
     ''Media Overlays 3.0'', ''Canonical Fragment Identifiers 3.0'']"

definition EPUBSpecURLs :: "string list" where
  "EPUBSpecURLs =
    [''http://idpf.org/epub/30/spec/epub30-ocf.html'',
     ''http://idpf.org/epub/30/spec/epub30-publications.html'',
     ''http://idpf.org/epub/30/spec/epub30-contentdocs.html'',
     ''http://idpf.org/epub/30/spec/epub30-mediaoverlays.html'',
     ''http://idpf.org/epub/linking/cfi/epub-cfi.html'']"

definition gSeverityStrings :: "string list" where
  "gSeverityStrings = [''Minor'', ''Medium'', ''Major'', ''Critical'']"

primrec EPUBSpec_index :: "EPUBSpec \<Rightarrow> nat" where
  "EPUBSpec_index OpenContainerFormat = 0"
| "EPUBSpec_index OpenPublicationFormat = 1"
| "EPUBSpec_index ContentDocuments = 2"
| "EPUBSpec_index MediaOverlays = 3"
| "EPUBSpec_index CanonicalFragmentIdentifiers = 4"
| "EPUBSpec_index UnknownSpec = 5"

primrec severity_index :: "ViolationSeverity \<Rightarrow> nat" where
  "severity_index Minor = 0"
| "severity_index Medium = 1"
| "severity_index Major = 2"
| "severity_index Critical = 3"

definition SeverityString :: "ViolationSeverity \<Rightarrow> string cxx" where
  "SeverityString s = elem_at gSeverityStrings (severity_index s)"

definition epub_category_message :: "EPUBError \<Rightarrow> string" where
  "epub_category_message e = (case gErrorLookupTable e of
     None \<Rightarrow> ''Unspecified EPUB specification error''
   | Some i \<Rightarrow> msg i)"

text \<open>\<open>mark\<close> is the section marker, which depends on the compiler.\<close>

definition DetailedErrorMessage :: "string \<Rightarrow> EPUBError \<Rightarrow> string cxx" where
  "DetailedErrorMessage mark e = (case gErrorLookupTable e of
     None \<Rightarrow> Inr ''<unknown epub spec error>''
   | Some i \<Rightarrow>
       bind_cxx (SeverityString (severity i)) (\<lambda>sv.
       bind_cxx (elem_at EPUBSpecNames (EPUBSpec_index (spec i))) (\<lambda>nm.
       bind_cxx (elem_at EPUBSpecURLs (EPUBSpec_index (spec i))) (\<lambda>url.
         Inr (sv @ '' violation of '' @ nm @ '' ('' @ url @ '') '' @ mark @ '' '' @ sect i @ '':'' @
              [CHR 0x0A] @ ''  '' @ msg i)))))"

definition SpecFromEPUBError :: "EPUBError \<Rightarrow> EPUBSpec" where
  "SpecFromEPUBError e = (case gErrorLookupTable e of None \<Rightarrow> UnknownSpec | Some i \<Rightarrow> spec i)"

definition spec_error_init :: "EPUBError \<Rightarrow> string \<Rightarrow> string" where
  "spec_error_init e what =
     (if EPUBError_value e \<noteq> 0
      then (if what \<noteq> [] then what @ '': '' else what) @ epub_category_message e
      else what)"

definition new_epub_spec_error :: "EPUBError \<Rightarrow> string \<Rightarrow> epub_spec_error" where
  "new_epub_spec_error e what = \<lparr>spec_ec = e, spec_what = spec_error_init e what\<rparr>"

definition spec_Severity :: "epub_spec_error \<Rightarrow> ViolationSeverity" where
  "spec_Severity x = (case gErrorLookupTable (spec_ec x) of None \<Rightarrow> Minor | Some i \<Rightarrow> severity i)"

definition spec_Specification :: "epub_spec_error \<Rightarrow> EPUBSpec" where
  "spec_Specification x = SpecFromEPUBError (spec_ec x)"

section \<open>Error details and handlers\<close>

datatype error_details = SystemDetails system_error | SpecDetails epub_spec_error

primrec is_spec_error :: "error_details \<Rightarrow> bool" where
  "is_spec_error (SystemDetails _) = False"
| "is_spec_error (SpecDetails _) = True"

definition is_system_error :: "error_details \<Rightarrow> bool" where
  "is_system_error d = (\<not> is_spec_error d)"

primrec details_code :: "error_details \<Rightarrow> int" where
  "details_code (SpecDetails x) = EPUBError_value (spec_ec x)"
| "details_code (SystemDetails x) = sys_code x"

primrec details_message :: "error_details \<Rightarrow> string" where
  "details_message (SpecDetails x) = spec_what x"
| "details_message (SystemDetails x) = sys_what x"

primrec details_epub_spec :: "error_details \<Rightarrow> EPUBSpec cxx" where
  "details_epub_spec (SpecDetails x) = Inr (spec_Specification x)"
| "details_epub_spec (SystemDetails _) = Inl (Throws (Logic_error
     ''Attempt to get an EPUBSpec from a non-epub_spec_error exception''))"

primrec details_severity :: "error_details \<Rightarrow> ViolationSeverity cxx" where
  "details_severity (SpecDetails x) = Inr (spec_Severity x)"
| "details_severity (SystemDetails _) = Inl (Throws (Logic_error
     ''Attempt to get a ViolationSeverity from a non-epub_spec_error exception''))"

primrec details_epub_error_code :: "error_details \<Rightarrow> EPUBError cxx" where
  "details_epub_error_code (SpecDetails x) = Inr (spec_ec x)"
| "details_epub_error_code (SystemDetails _) = Inl (Throws (Logic_error
     ''Attempt to get an EPUBError from a non-epub_spec_error exception''))"

primrec details_throw :: "error_details \<Rightarrow> 'a cxx" where
  "details_throw (SpecDetails x) = Inl (Throws (Epub_spec_error x))"
| "details_throw (SystemDetails x) = Inl (Throws (System_error x))"

type_synonym handler = "error_details \<Rightarrow> bool cxx"

definition DefaultErrorHandler :: handler where
  "DefaultErrorHandler err =
     (if is_spec_error err
      then bind_cxx (details_severity err) (\<lambda>s. Inr (case s of
             Critical \<Rightarrow> False | Major \<Rightarrow> False | _ \<Rightarrow> True))
      else Inr False)"

definition DispatchError :: "handler \<Rightarrow> error_details \<Rightarrow> unit cxx" where
  "DispatchError h d = bind_cxx (h d) (\<lambda>go_on. if \<not> go_on then details_throw d else Inr ())"

definition HandleSysError :: "handler \<Rightarrow> int \<Rightarrow> string \<Rightarrow> unit cxx" where
  "HandleSysError h code what = DispatchError h (SystemDetails \<lparr>sys_code = code, sys_what = what\<rparr>)"

definition HandleError :: "handler \<Rightarrow> EPUBError \<Rightarrow> string \<Rightarrow> unit cxx" where
  "HandleError h e what = DispatchError h (SpecDetails (new_epub_spec_error e what))"

section \<open>The table is consistent\<close>

text \<open>Values grow along each block, so that two enumerators never share a value.\<close>

lemma block_values:
  "ocf_error_value a \<in> {100..125}" "opf_error_value b \<in> {200..256}"
  "content_error_value c \<in> {300..317}" "overlay_error_value d \<in> {400..426}"
  "cfi_error_value f \<in> {500..528}"
  by (cases a, simp_all) (cases b, simp_all, cases c, simp_all, cases d, simp_all, cases f, simp_all)

definition table_row_ok :: "EPUBSpec \<Rightarrow> ErrorInfo option \<Rightarrow> bool" where
  "table_row_ok s r = (case r of None \<Rightarrow> True | Some i \<Rightarrow> spec i = s)"

lemma table_row_ok_simps [simp]:
  "table_row_ok s None" "table_row_ok s (error_info v t c m) \<longleftrightarrow> t = s"
  by (simp_all add: table_row_ok_def error_info_def)

lemma block_specs:
  "table_row_ok OpenContainerFormat (ocf_error_info a)"
  "table_row_ok OpenPublicationFormat (opf_error_info b)"
  "table_row_ok ContentDocuments (content_error_info c)"
  "table_row_ok MediaOverlays (overlay_error_info d)"
  "table_row_ok CanonicalFragmentIdentifiers (cfi_error_info f)"
  by (cases a, simp_all) (cases b, simp_all, cases c, simp_all, cases d, simp_all, cases f, simp_all)

lemma gErrorLookupTable_spec:
  assumes "gErrorLookupTable e = Some i"
  shows "int (EPUBSpec_index (spec i)) = EPUBError_value e div 100 - 1"
proof (cases e)
  case (OCF a) with assms block_specs(1) [of a] block_values(1) [of a] show ?thesis
    by (auto simp: table_row_ok_def)
next
  case (OPF a) with assms block_specs(2) [of a] block_values(2) [of a] show ?thesis
    by (auto simp: table_row_ok_def)
next
  case (ContentDoc a) with assms block_specs(3) [of a] block_values(3) [of a] show ?thesis
    by (auto simp: table_row_ok_def)
next
  case (Overlay a) with assms block_specs(4) [of a] block_values(4) [of a] show ?thesis
    by (auto simp: table_row_ok_def)
next
  case (CFIErr a) with assms block_specs(5) [of a] block_values(5) [of a] show ?thesis
    by (auto simp: table_row_ok_def)
qed (use assms in simp)

lemma EPUBError_value_bound: "EPUBError_value e \<le> 528"
proof (cases e)
  case (OCF a) with block_values(1) [of a] show ?thesis by simp
next
  case (OPF a) with block_values(2) [of a] show ?thesis by simp
next
  case (ContentDoc a) with block_values(3) [of a] show ?thesis by simp
next
  case (Overlay a) with block_values(4) [of a] show ?thesis by simp
next
  case (CFIErr a) with block_values(5) [of a] show ?thesis by simp
qed simp

text \<open>The arrays that \<^verbatim>\<open>DetailedErrorMessage\<close> indexes are long enough for every row of the table.\<close>

lemma SeverityString_defined: "\<exists>s. SeverityString v = Inr s"
  by (cases v) (simp_all add: SeverityString_def gSeverityStrings_def)

lemma DetailedErrorMessage_defined: "\<exists>s. DetailedErrorMessage mark e = Inr s"
proof (cases "gErrorLookupTable e")
  case (Some i)
  have "EPUBSpec_index (spec i) < 5"
    using gErrorLookupTable_spec [OF Some] EPUBError_value_bound [of e] by linarith
  moreover obtain s where "SeverityString (severity i) = Inr s"
    using SeverityString_defined by blast
  ultimately show ?thesis
    by (simp add: DetailedErrorMessage_def Some EPUBSpecNames_def EPUBSpecURLs_def)
qed (simp add: DetailedErrorMessage_def)

section \<open>What the default handler lets through\<close>

text \<open>With the default error handler, \<^verbatim>\<open>HandleError\<close> throws an \<^verbatim>\<open>epub_spec_error\<close> that carries the
  code and the composed message exactly when the error table gives the code the severity Major or
  Critical; every other code, one without a row in the table included, is ignored and the caller
  continues.\<close>

theorem HandleError_default:
  "HandleError DefaultErrorHandler e what =
    (case gErrorLookupTable e of
       None \<Rightarrow> Inr ()
     | Some i \<Rightarrow> if severity i = Major \<or> severity i = Critical
                 then Inl (Throws (Epub_spec_error (new_epub_spec_error e what))) else Inr ())"
  by (auto simp: HandleError_def DispatchError_def DefaultErrorHandler_def spec_Severity_def
      new_epub_spec_error_def split: option.splits ViolationSeverity.splits)

lemma HandleSysError_default:
  "HandleSysError DefaultErrorHandler c what =
     Inl (Throws (System_error \<lparr>sys_code = c, sys_what = what\<rparr>))"
  by (simp add: HandleSysError_def DispatchError_def DefaultErrorHandler_def)

text \<open>The codes between the bounds of a block that the table does not list.\<close>

definition unlisted_errors :: "opf_error list" where
  "unlisted_errors =
    [OPFInvalidRefinementAttribute, OPFInvalidRefinementTarget, OPFLinkMissingHref,
     OPFCollectionMissingRole, OPFCollectionMetadataOutOfOrder,
     OPFCollectionSubcollectionOutOfOrder, OPFCollectionNoLinks, OPFCollectionRoleInvalid,
     OPFCollectionRefinesInvalid, OPFCollectionIllegalMetaElement,
     OPFCollectionLinkIncludesRefinement]"

text \<open>Eleven codes of the package format have no row in the error table, among them three that the
  header documents as Major violations.  The default handler therefore ignores them, their category
  message is the generic one, and they report an unknown specification.\<close>

theorem unlisted_errors_ignored:
  "map (\<lambda>e. (HandleError DefaultErrorHandler (OPF e) what, epub_category_message (OPF e),
             SpecFromEPUBError (OPF e))) unlisted_errors =
   replicate 11 (Inr (), ''Unspecified EPUB specification error'', UnknownSpec)"
  by (simp add: unlisted_errors_def HandleError_def DispatchError_def DefaultErrorHandler_def
      spec_Severity_def new_epub_spec_error_def epub_category_message_def SpecFromEPUBError_def
      numeral_eq_Suc)

end
