(* ===== verification/Cfi_Component.thy ===== *)
theory Cfi_Component
  imports Iostream EPUB_Error
begin

text \<open>
  \<^verbatim>\<open>struct CFI::Component\<close> of \<^verbatim>\<open>ePub/cfi.{h,cpp}\<close>: one step of a content fragment identifier, its
  comparison and assignment, its parser and its text.  The parser reads the text through an
  \<^verbatim>\<open>std::istringstream\<close> in a loop that only ends when the eof bit is set or an error makes it return;
  the loop is a partial function, None standing for a run that does not end.
\<close>

section \<open>Data\<close>

datatype SideBias = Unspecified | Before | After

record 'f Point =
  pt_x :: 'f
  pt_y :: 'f

record 'f Component =
  cflags :: byte
  nodeIndex :: u32
  qualifier :: string
  characterOffset :: u32
  temporalOffset :: 'f
  spatialOffset :: "'f Point"
  textQualifier :: string
  sideBias :: SideBias

definition Qualifier :: byte where "Qualifier = 1"
definition CharacterOffset :: byte where "CharacterOffset = 2"
definition TemporalOffset :: byte where "TemporalOffset = 4"
definition SpatialOffset :: byte where "SpatialOffset = 8"
definition Indirector :: byte where "Indirector = 16"
definition TextQualifier :: byte where "TextQualifier = 32"
definition SpatialTemporalOffset :: byte where
  "SpatialTemporalOffset = TemporalOffset OR SpatialOffset"
definition OffsetsMask :: byte where
  "OffsetsMask = CharacterOffset OR TemporalOffset OR SpatialOffset"

definition HasFlag :: "byte \<Rightarrow> 'f Component \<Rightarrow> bool" where
  "HasFlag f c \<longleftrightarrow> cflags c AND f = f"

definition HasQualifier :: "'f Component \<Rightarrow> bool" where
  "HasQualifier = HasFlag Qualifier"
definition HasCharacterOffset :: "'f Component \<Rightarrow> bool" where
  "HasCharacterOffset = HasFlag CharacterOffset"
definition HasTemporalOffset :: "'f Component \<Rightarrow> bool" where
  "HasTemporalOffset = HasFlag TemporalOffset"
definition HasSpatialOffset :: "'f Component \<Rightarrow> bool" where
  "HasSpatialOffset = HasFlag SpatialOffset"
definition IsIndirector :: "'f Component \<Rightarrow> bool" where
  "IsIndirector = HasFlag Indirector"
definition HasTextQualifier :: "'f Component \<Rightarrow> bool" where
  "HasTextQualifier = HasFlag TextQualifier"
definition HasSpatialTemporalOffset :: "'f Component \<Rightarrow> bool" where
  "HasSpatialTemporalOffset = HasFlag SpatialTemporalOffset"

section \<open>Points\<close>

definition Point_lt :: "'f float_lib \<Rightarrow> 'f Point \<Rightarrow> 'f Point \<Rightarrow> bool" where
  "Point_lt fl p o' \<longleftrightarrow> fl_lt fl (pt_x p) (pt_x o') \<and> fl_lt fl (pt_y p) (pt_y o')"

definition Point_gt :: "'f float_lib \<Rightarrow> 'f Point \<Rightarrow> 'f Point \<Rightarrow> bool" where
  "Point_gt fl p o' \<longleftrightarrow> fl_lt fl (pt_x o') (pt_x p) \<or> fl_lt fl (pt_y o') (pt_y p)"

definition fl_le :: "'f float_lib \<Rightarrow> 'f \<Rightarrow> 'f \<Rightarrow> bool" where
  "fl_le fl a b \<longleftrightarrow> fl_lt fl a b \<or> fl_eq fl a b"

definition Point_le :: "'f float_lib \<Rightarrow> 'f Point \<Rightarrow> 'f Point \<Rightarrow> bool" where
  "Point_le fl p o' \<longleftrightarrow> fl_le fl (pt_x p) (pt_x o') \<and> fl_le fl (pt_y p) (pt_y o')"

definition Point_ge :: "'f float_lib \<Rightarrow> 'f Point \<Rightarrow> 'f Point \<Rightarrow> bool" where
  "Point_ge fl p o' \<longleftrightarrow> fl_le fl (pt_x o') (pt_x p) \<or> fl_lt fl (pt_y o') (pt_y p)"

definition Point_eq :: "'f float_lib \<Rightarrow> 'f Point \<Rightarrow> 'f Point \<Rightarrow> bool" where
  "Point_eq fl p o' \<longleftrightarrow> fl_eq fl (pt_x p) (pt_x o') \<and> fl_eq fl (pt_y p) (pt_y o')"

definition Point_ne :: "'f float_lib \<Rightarrow> 'f Point \<Rightarrow> 'f Point \<Rightarrow> bool" where
  "Point_ne fl p o' \<longleftrightarrow> \<not> fl_eq fl (pt_x p) (pt_x o') \<or> \<not> fl_eq fl (pt_y p) (pt_y o')"

section \<open>Comparison\<close>

definition Component_eq :: "'f float_lib \<Rightarrow> 'f Component \<Rightarrow> 'f Component \<Rightarrow> bool" where
  "Component_eq fl c o' \<longleftrightarrow> \<not>
     (cflags c \<noteq> cflags o' \<or>
      nodeIndex c \<noteq> nodeIndex o' \<or>
      (HasQualifier c \<and> qualifier c \<noteq> qualifier o') \<or>
      (HasCharacterOffset c \<and> characterOffset c \<noteq> characterOffset o') \<or>
      (HasSpatialOffset c \<and> (\<not> fl_eq fl (pt_x (spatialOffset c)) (pt_x (spatialOffset o')) \<or>
                             \<not> fl_eq fl (pt_y (spatialOffset c)) (pt_y (spatialOffset o')))) \<or>
      (HasTemporalOffset c \<and> \<not> fl_eq fl (temporalOffset c) (temporalOffset o')) \<or>
      (HasTextQualifier c \<and> textQualifier c \<noteq> textQualifier o'))"

definition Component_ne :: "'f float_lib \<Rightarrow> 'f Component \<Rightarrow> 'f Component \<Rightarrow> bool" where
  "Component_ne fl c o' = (\<not> Component_eq fl c o')"

section \<open>Parsing\<close>

definition new_Component :: "'f float_lib \<Rightarrow> u32 \<Rightarrow> 'f Component" where
  "new_Component fl n = \<lparr>cflags = 0, nodeIndex = n, qualifier = [], characterOffset = 0,
     temporalOffset = fl_zero fl, spatialOffset = \<lparr>pt_x = fl_zero fl, pt_y = fl_zero fl\<rparr>,
     textQualifier = [], sideBias = Unspecified\<rparr>"

definition add_flag :: "byte \<Rightarrow> 'f Component \<Rightarrow> 'f Component" where
  "add_flag f c = c\<lparr>cflags := cflags c OR f\<rparr>"

definition set_text_qualifier :: "string \<Rightarrow> 'f Component \<Rightarrow> 'f Component" where
  "set_text_qualifier sub c = (case std_find '';s='' sub of
     None \<Rightarrow> c\<lparr>textQualifier := sub\<rparr>
   | Some b \<Rightarrow>
       (let c1 = c\<lparr>textQualifier := take b sub\<rparr> in
        if length sub > b + 3
        then c1\<lparr>sideBias := (if sub ! (b + 3) = CHR ''b'' then Before
                             else if sub ! (b + 3) = CHR ''a'' then After else Unspecified)\<rparr>
        else c1))"

text \<open>
  Each case of the switch gives whether the parser returns, the component and the stream.
\<close>

type_synonym 'f item = "(bool \<times> 'f Component \<times> istream) cxx"

definition parse_bracket :: "handler \<Rightarrow> 'f Component \<Rightarrow> istream \<Rightarrow> 'f item" where
  "parse_bracket h c s =
    (case tellg s of (p, s1) \<Rightarrow>
     case tellg (ignore_to (CHR '']'') s1) of (q, s2) \<Rightarrow>
       if eofb s2 then bind_cxx (HandleError h (CFIErr CFIParseFailed) []) (\<lambda>_. Inr (True, c, s2))
       else (let sub = take ((the q - 1) - the p) (drop (the p) (ibuf s2)) in
         if characterOffset c \<noteq> 0
         then Inr (False, set_text_qualifier sub (add_flag TextQualifier c), s2)
         else Inr (False, add_flag Qualifier (c\<lparr>qualifier := sub\<rparr>), s2)))"

definition parse_tilde :: "'f float_lib \<Rightarrow> 'f Component \<Rightarrow> istream \<Rightarrow> 'f item" where
  "parse_tilde fl c s =
    (if HasCharacterOffset c then Inr (False, c, s)
     else (case read_float fl s of (v, s1) \<Rightarrow>
       Inr (False, add_flag TemporalOffset
              (case v of None \<Rightarrow> c | Some t \<Rightarrow> c\<lparr>temporalOffset := t\<rparr>), s1)))"

text \<open>The local \<^verbatim>\<open>x\<close> and \<^verbatim>\<open>y\<close> are not initialised: storing them unread is undefined.\<close>

definition parse_at :: "'f float_lib \<Rightarrow> 'f Component \<Rightarrow> istream \<Rightarrow> 'f item" where
  "parse_at fl c s =
    (if HasCharacterOffset c then Inr (False, c, s)
     else (case read_float fl s of (x, s1) \<Rightarrow>
           case peek s1 of (nxt, s2) \<Rightarrow>
             if nxt \<noteq> Some (CHR '':'') then Inr (False, c, s2)
             else (case read_float fl (ignore1 s2) of (y, s3) \<Rightarrow>
               (case (x, y) of
                  (Some x', Some y') \<Rightarrow>
                    Inr (False, add_flag SpatialOffset
                           (c\<lparr>spatialOffset := \<lparr>pt_x = x', pt_y = y'\<rparr>\<rparr>), s3)
                | _ \<Rightarrow> Inl Undefined))))"

definition parse_colon :: "'f Component \<Rightarrow> istream \<Rightarrow> 'f item" where
  "parse_colon c s =
    (if HasSpatialTemporalOffset c then Inr (False, c, s)
     else (case read_u32 s of (v, s1) \<Rightarrow>
       Inr (False, add_flag CharacterOffset
              (case v of None \<Rightarrow> c | Some n \<Rightarrow> c\<lparr>characterOffset := n\<rparr>), s1)))"

definition parse_bang :: "'f Component \<Rightarrow> istream \<Rightarrow> 'f item" where
  "parse_bang c s = (case peek s of (nxt, s1) \<Rightarrow>
     if nxt \<noteq> None \<or> HasSpatialTemporalOffset c \<or> HasCharacterOffset c then Inr (False, c, s1)
     else Inr (False, add_flag Indirector c, s1))"

definition parse_item :: "'f float_lib \<Rightarrow> handler \<Rightarrow> 'f Component \<Rightarrow> istream \<Rightarrow> 'f item" where
  "parse_item fl h c s = (case read_char s of (ch, s1) \<Rightarrow>
     if ch = Some (CHR ''['') then parse_bracket h c s1
     else if ch = Some (CHR ''~'') then parse_tilde fl c s1
     else if ch = Some (CHR ''@'') then parse_at fl c s1
     else if ch = Some (CHR '':'') then parse_colon c s1
     else if ch = Some (CHR ''!'') then parse_bang c s1
     else Inr (False, c, s1))"

partial_function (option) parse_loop ::
  "'f float_lib \<Rightarrow> handler \<Rightarrow> 'f Component \<Rightarrow> istream \<Rightarrow> 'f Component cxx option" where
  "parse_loop fl h c s =
    (if eofb s then Some (Inr c)
     else (case parse_item fl h c s of
       Inl e \<Rightarrow> Some (Inl e)
     | Inr (returned, c', s') \<Rightarrow> if returned then Some (Inr c') else parse_loop fl h c' s'))"

text \<open>\<^verbatim>\<open>Component::Parse\<close> on the members \<open>c\<close>.\<close>

definition Component_Parse ::
  "'f float_lib \<Rightarrow> handler \<Rightarrow> 'f Component \<Rightarrow> string \<Rightarrow> 'f Component cxx option" where
  "Component_Parse fl h c str =
    (if str = [] then Some (bind_cxx
        (HandleError h (CFIErr CFIParseFailed) ''Empty string supplied to CFI::Component'')
        (\<lambda>_. Inr c))
     else (case read_u32 (istringstream str) of (v, s1) \<Rightarrow>
       (let c1 = (case v of None \<Rightarrow> c | Some n \<Rightarrow> c\<lparr>nodeIndex := n\<rparr>) in
        if nodeIndex c1 = 0 \<and> failb s1
        then Some (bind_cxx (HandleError h (CFIErr CFIParseFailed)
               (''No node value at start of CFI::Component string '' @ [CHR 0x27] @ str @ [CHR 0x27])) (\<lambda>_. Inr c1))
        else parse_loop fl h c1 s1)))"

definition Component_of_string ::
  "'f float_lib \<Rightarrow> handler \<Rightarrow> string \<Rightarrow> 'f Component cxx option" where
  "Component_of_string fl h str = Component_Parse fl h (new_Component fl 0) str"

definition Component_assign :: "'f Component \<Rightarrow> 'f Component \<Rightarrow> 'f Component" where
  "Component_assign c o' = c\<lparr>cflags := cflags o', nodeIndex := nodeIndex o',
     qualifier := qualifier o', characterOffset := characterOffset o',
     temporalOffset := temporalOffset o', spatialOffset := spatialOffset o',
     textQualifier := textQualifier o', sideBias := sideBias o'\<rparr>"

definition Component_assign_string ::
  "'f float_lib \<Rightarrow> handler \<Rightarrow> 'f Component \<Rightarrow> string \<Rightarrow> 'f Component cxx option" where
  "Component_assign_string fl h c str =
     Component_Parse fl h (c\<lparr>cflags := 0, nodeIndex := 0, characterOffset := 0,
       temporalOffset := fl_zero fl, spatialOffset := \<lparr>pt_x = fl_zero fl, pt_y = fl_zero fl\<rparr>,
       qualifier := [], textQualifier := [], sideBias := Unspecified\<rparr>) str"

section \<open>Printing\<close>

text \<open>The body of the loop of \<^verbatim>\<open>CFI::AppendComponents\<close>, after the slash.\<close>

definition component_text :: "'f float_lib \<Rightarrow> 'f Component \<Rightarrow> string" where
  "component_text fl c =
     dec (unat (nodeIndex c)) @
     (if HasQualifier c then ''['' @ qualifier c @ '']'' else []) @
     (if HasCharacterOffset c
      then '':'' @ dec (unat (characterOffset c)) @
           (if HasTextQualifier c then ''['' @ textQualifier c @ '']'' else [])
      else (if HasTemporalOffset c then ''~'' @ fl_show fl (temporalOffset c) else []) @
           (if HasSpatialOffset c
            then ''@'' @ fl_show fl (pt_x (spatialOffset c)) @ '':'' @
                 fl_show fl (pt_y (spatialOffset c)) else [])) @
     (if IsIndirector c then ''!'' else [])"

section \<open>A stream that has failed before its end\<close>

lemma read_char_stuck: "failb s \<Longrightarrow> read_char s = (None, s)"
  by (simp add: read_char_def sentry_def is_good_def)

lemma parse_item_stuck: "failb s \<Longrightarrow> parse_item fl h c s = Inr (False, c, s)"
  by (simp add: parse_item_def read_char_stuck)

lemma parse_loop_stuck:
  assumes "failb s" and "\<not> eofb s"
  shows "parse_loop fl h c s = None"
proof (rule ccontr)
  assume "parse_loop fl h c s \<noteq> None"
  then obtain y where "parse_loop fl h c s = Some y" by blast
  then have "\<not> (failb s \<and> \<not> eofb s)"
  proof (rule parse_loop.raw_induct [where P = "\<lambda>fl h c s r. \<not> (failb s \<and> \<not> eofb s)", rotated])
    fix loop fl h c s r
    assume IH: "\<And>fl h c s r. loop fl h c s = Some r \<Longrightarrow> \<not> (failb s \<and> \<not> eofb s)"
      and body: "(if eofb s then Some (Inr c) else case parse_item fl h c s of
             Inl e \<Rightarrow> Some (Inl e)
           | Inr (returned, c', s') \<Rightarrow> if returned then Some (Inr c') else loop fl h c' s') = Some r"
    show "\<not> (failb s \<and> \<not> eofb s)"
    proof
      assume stuck: "failb s \<and> \<not> eofb s"
      with body have "loop fl h c s = Some r" by (simp add: parse_item_stuck)
      with IH stuck show False by blast
    qed
  qed
  with assms show False by blast
qed

section \<open>The loop over printed text\<close>

named_theorems cfi_parse

lemma parse_loop_end [cfi_parse]: "parse_loop fl h c (at_text p []) = Some (Inr c)"
  by (simp add: parse_loop.simps [of _ _ _ "at_text p []"] parse_loop.simps parse_item_def
      read_char_def sentry_def)

lemma parse_loop_after_scan: "parse_loop fl h c (after_scan p q r) = parse_loop fl h c (at_text (p @ q) r)"
  by (cases r) (simp_all add: parse_loop.simps [of _ _ _ "after_scan p q []"] parse_loop_end)

lemma takeWhile_delim: "d \<notin> set q \<Longrightarrow> takeWhile (\<lambda>c. c \<noteq> d) (q @ d # r) = q"
  by (induction q) auto

lemma ignore_to_at_text:
  assumes "d \<notin> set q"
  shows "ignore_to d (at_text p (q @ d # r)) = at_text (p @ q @ [d]) r"
  using at_text_advance [of p "q @ [d]" r] takeWhile_delim [OF assms, of r]
  by (simp add: ignore_to_def)

lemma tellg_at_text [simp]: "tellg (at_text p r) = (Some (length p), at_text p r)"
  by (simp add: tellg_def)

lemma parse_bracket_at_text:
  assumes "CHR '']'' \<notin> set q"
  shows "parse_bracket h c (at_text p (q @ CHR '']'' # r)) =
    Inr (False, (if characterOffset c \<noteq> 0 then set_text_qualifier q (add_flag TextQualifier c)
                 else add_flag Qualifier (c\<lparr>qualifier := q\<rparr>)), at_text (p @ q @ '']'') r)"
  using ignore_to_at_text [OF assms, of p r] by (simp add: parse_bracket_def)

lemma parse_loop_bracket [cfi_parse]:
  assumes "CHR '']'' \<notin> set q"
  shows "parse_loop fl h c (at_text p (CHR ''['' # q @ CHR '']'' # r)) =
    parse_loop fl h (if characterOffset c \<noteq> 0 then set_text_qualifier q (add_flag TextQualifier c)
                     else add_flag Qualifier (c\<lparr>qualifier := q\<rparr>))
      (at_text (p @ ''['' @ q @ '']'') r)"
  using assms
  by (simp add: parse_loop.simps [of _ _ _ "at_text p (CHR ''['' # q @ CHR '']'' # r)"] parse_item_def
      read_char_at_text is_space_def parse_bracket_at_text)

lemma parse_loop_colon [cfi_parse]:
  assumes "\<not> HasSpatialTemporalOffset c" and "n < 2 ^ 32" and "r = [] \<or> \<not> is_digit (hd r)"
  shows "parse_loop fl h c (at_text p (CHR '':'' # dec n @ r)) =
    parse_loop fl h (add_flag CharacterOffset (c\<lparr>characterOffset := of_nat n\<rparr>))
      (at_text (p @ '':'' @ dec n) r)"
  using assms
  by (simp add: parse_loop.simps [of _ _ _ "at_text p (CHR '':'' # dec n @ r)"] parse_item_def
      read_char_at_text is_space_def parse_colon_def read_u32_dec parse_loop_after_scan)

lemma parse_loop_tilde [cfi_parse]:
  assumes "\<not> HasCharacterOffset c" and "float_text_ok fl x" and "r = [] \<or> \<not> number_char (hd r)"
  shows "parse_loop fl h c (at_text p (CHR ''~'' # fl_show fl x @ r)) =
    parse_loop fl h (add_flag TemporalOffset (c\<lparr>temporalOffset := x\<rparr>))
      (at_text (p @ ''~'' @ fl_show fl x) r)"
  using assms
  by (simp add: parse_loop.simps [of _ _ _ "at_text p (CHR ''~'' # fl_show fl x @ r)"] parse_item_def
      read_char_at_text is_space_def parse_tilde_def read_float_show parse_loop_after_scan)

lemma peek_at_text [simp]: "peek (at_text p (c # r)) = (Some c, at_text p (c # r))"
  by (simp add: peek_def)

lemma ignore1_at_text [simp]: "ignore1 (at_text p (c # r)) = at_text (p @ [c]) r"
  using at_text_advance [of p "[c]" r] by (simp add: ignore1_def)

lemma parse_loop_at [cfi_parse]:
  assumes "\<not> HasCharacterOffset c" and "float_text_ok fl x" and "float_text_ok fl y"
    and "r = [] \<or> \<not> number_char (hd r)"
  shows "parse_loop fl h c (at_text p (CHR ''@'' # fl_show fl x @ CHR '':'' # fl_show fl y @ r)) =
    parse_loop fl h (add_flag SpatialOffset (c\<lparr>spatialOffset := \<lparr>pt_x = x, pt_y = y\<rparr>\<rparr>))
      (at_text (p @ ''@'' @ fl_show fl x @ '':'' @ fl_show fl y) r)"
proof -
  have colon: "\<not> number_char (CHR '':'')" by (simp add: number_char_def is_digit_def)
  from assms show ?thesis
    by (simp add: parse_loop.simps [of _ _ _ "at_text p (CHR ''@'' # fl_show fl x @ _)"]
        parse_item_def read_char_at_text is_space_def parse_at_def read_float_show colon
        parse_loop_after_scan)
qed

lemma parse_loop_bang [cfi_parse]:
  assumes "\<not> HasSpatialTemporalOffset c" and "\<not> HasCharacterOffset c"
  shows "parse_loop fl h c (at_text p ''!'') = Some (Inr (add_flag Indirector c))"
  using assms
  by (simp add: parse_loop.simps [of _ _ _ "at_text p ''!''"] parse_item_def read_char_at_text
      is_space_def parse_bang_def peek_def parse_loop.simps)

section \<open>Steps\<close>

text \<open>
  What a step of a fragment identifier says: a node number, an optional identifier assertion, and
  an optional terminating part.  \<open>component_of\<close> is the component that stands for a step, and
  \<open>step_ok\<close> the condition under which its text can be read back.
\<close>

datatype 'f offset =
  NoOffset
| Indirect
| CharOffset u32 "string option"
| MediaOffset "'f option" "('f \<times> 'f) option"

datatype 'f step = Step u32 "string option" "'f offset"

definition with_qualifier :: "string option \<Rightarrow> 'f Component \<Rightarrow> 'f Component" where
  "with_qualifier q c = (case q of None \<Rightarrow> c | Some s \<Rightarrow> add_flag Qualifier (c\<lparr>qualifier := s\<rparr>))"

fun with_offset :: "'f offset \<Rightarrow> 'f Component \<Rightarrow> 'f Component" where
  "with_offset NoOffset c = c"
| "with_offset Indirect c = add_flag Indirector c"
| "with_offset (CharOffset n None) c = add_flag CharacterOffset (c\<lparr>characterOffset := n\<rparr>)"
| "with_offset (CharOffset n (Some s)) c =
     (add_flag TextQualifier (add_flag CharacterOffset (c\<lparr>characterOffset := n\<rparr>)))\<lparr>textQualifier := s\<rparr>"
| "with_offset (MediaOffset t xy) c =
     (let c1 = (case t of None \<Rightarrow> c | Some v \<Rightarrow> add_flag TemporalOffset (c\<lparr>temporalOffset := v\<rparr>)) in
      case xy of None \<Rightarrow> c1
      | Some (x, y) \<Rightarrow> add_flag SpatialOffset (c1\<lparr>spatialOffset := \<lparr>pt_x = x, pt_y = y\<rparr>\<rparr>))"

fun component_of :: "'f float_lib \<Rightarrow> 'f step \<Rightarrow> 'f Component" where
  "component_of fl (Step n q off) = with_offset off (with_qualifier q (new_Component fl n))"

fun offset_ok :: "'f float_lib \<Rightarrow> 'f offset \<Rightarrow> bool" where
  "offset_ok fl (CharOffset n (Some s)) \<longleftrightarrow> n \<noteq> 0 \<and> CHR '']'' \<notin> set s \<and> std_find '';s='' s = None"
| "offset_ok fl (MediaOffset t xy) \<longleftrightarrow>
     (case t of None \<Rightarrow> True | Some v \<Rightarrow> float_text_ok fl v) \<and>
     (case xy of None \<Rightarrow> True | Some (x, y) \<Rightarrow> float_text_ok fl x \<and> float_text_ok fl y)"
| "offset_ok fl _ \<longleftrightarrow> True"

fun step_ok :: "'f float_lib \<Rightarrow> 'f step \<Rightarrow> bool" where
  "step_ok fl (Step n q off) \<longleftrightarrow>
     (case q of None \<Rightarrow> True | Some s \<Rightarrow> CHR '']'' \<notin> set s) \<and> offset_ok fl off"

text \<open>The text of a step, part by part.\<close>

definition qualifier_text :: "string option \<Rightarrow> string" where
  "qualifier_text q = (case q of None \<Rightarrow> [] | Some s \<Rightarrow> CHR ''['' # s @ '']'')"

fun offset_text :: "'f float_lib \<Rightarrow> 'f offset \<Rightarrow> string" where
  "offset_text fl NoOffset = []"
| "offset_text fl Indirect = ''!''"
| "offset_text fl (CharOffset n q) = CHR '':'' # dec (unat n) @ qualifier_text q"
| "offset_text fl (MediaOffset t xy) =
     (case t of None \<Rightarrow> [] | Some v \<Rightarrow> CHR ''~'' # fl_show fl v) @
     (case xy of None \<Rightarrow> [] | Some (x, y) \<Rightarrow> CHR ''@'' # fl_show fl x @ CHR '':'' # fl_show fl y)"

fun step_text :: "'f float_lib \<Rightarrow> 'f step \<Rightarrow> string" where
  "step_text fl (Step n q off) = dec (unat n) @ qualifier_text q @ offset_text fl off"

lemmas flag_defs = HasFlag_def add_flag_def Qualifier_def CharacterOffset_def TemporalOffset_def
  SpatialOffset_def Indirector_def TextQualifier_def SpatialTemporalOffset_def HasQualifier_def
  HasCharacterOffset_def HasTemporalOffset_def HasSpatialOffset_def IsIndirector_def
  HasTextQualifier_def HasSpatialTemporalOffset_def

lemma word_single_bit: "w AND push_bit n 1 = push_bit n 1 \<longleftrightarrow> (n < LENGTH('a) \<longrightarrow> bit (w :: 'a::len word) n)"
  by (auto simp: bit_eq_iff [where 'a = "'a word"] bit_simps)

lemma flag_push_bit:
  "Qualifier = push_bit 0 1" "CharacterOffset = push_bit 1 1" "TemporalOffset = push_bit 2 1"
  "SpatialOffset = push_bit 3 1" "Indirector = push_bit 4 1" "TextQualifier = push_bit 5 1"
  by (simp_all add: flag_defs push_bit_eq_mult)

lemma has_flag_bits:
  "HasQualifier c \<longleftrightarrow> bit (cflags c) 0" "HasCharacterOffset c \<longleftrightarrow> bit (cflags c) 1"
  "HasTemporalOffset c \<longleftrightarrow> bit (cflags c) 2" "HasSpatialOffset c \<longleftrightarrow> bit (cflags c) 3"
  "IsIndirector c \<longleftrightarrow> bit (cflags c) 4" "HasTextQualifier c \<longleftrightarrow> bit (cflags c) 5"
  unfolding HasQualifier_def HasCharacterOffset_def HasTemporalOffset_def HasSpatialOffset_def
    IsIndirector_def HasTextQualifier_def HasFlag_def flag_push_bit word_single_bit by simp_all

lemma has_spatial_temporal:
  "HasSpatialTemporalOffset c \<longleftrightarrow> bit (cflags c) 2 \<and> bit (cflags c) 3"
proof -
  have "w AND (a OR b) = a OR b \<longleftrightarrow> w AND a = a \<and> w AND b = b" for w a b :: byte
    by (auto simp: bit_eq_iff [where 'a = byte] bit_simps)
  then show ?thesis
    unfolding HasSpatialTemporalOffset_def HasFlag_def SpatialTemporalOffset_def flag_push_bit
    by (simp only: word_single_bit) simp
qed

lemma flag_bits [simp]:
  "bit Qualifier n \<longleftrightarrow> n = 0" "bit CharacterOffset n \<longleftrightarrow> n = 1" "bit TemporalOffset n \<longleftrightarrow> n = 2"
  "bit SpatialOffset n \<longleftrightarrow> n = 3" "bit Indirector n \<longleftrightarrow> n = 4" "bit TextQualifier n \<longleftrightarrow> n = 5"
proof -
  have "bit (push_bit k (1 :: byte)) n \<longleftrightarrow> n = k" if "k < 8" for k
    using that by (auto simp: bit_simps)
  then show "bit Qualifier n \<longleftrightarrow> n = 0" "bit CharacterOffset n \<longleftrightarrow> n = 1"
    "bit TemporalOffset n \<longleftrightarrow> n = 2" "bit SpatialOffset n \<longleftrightarrow> n = 3"
    "bit Indirector n \<longleftrightarrow> n = 4" "bit TextQualifier n \<longleftrightarrow> n = 5"
    unfolding flag_push_bit by (simp_all only: zero_less_numeral one_less_numeral_iff numeral_less_iff semiring_norm)
qed

lemma add_flag_simps [simp]:
  "bit (cflags (add_flag f c)) n \<longleftrightarrow> bit (cflags c) n \<or> bit f n"
  "nodeIndex (add_flag f c) = nodeIndex c" "qualifier (add_flag f c) = qualifier c"
  "characterOffset (add_flag f c) = characterOffset c"
  "temporalOffset (add_flag f c) = temporalOffset c"
  "spatialOffset (add_flag f c) = spatialOffset c"
  "textQualifier (add_flag f c) = textQualifier c" "sideBias (add_flag f c) = sideBias c"
  by (simp_all add: add_flag_def bit_or_iff)

lemma new_Component_simps [simp]:
  "cflags (new_Component fl n) = 0" "nodeIndex (new_Component fl n) = n"
  "characterOffset (new_Component fl n) = 0"
  by (simp_all add: new_Component_def)

lemma component_text_component_of: "component_text fl (component_of fl st) = step_text fl st"
proof (cases st)
  case (Step n q off)
  show ?thesis
  proof (cases off)
    case NoOffset with Step show ?thesis
      by (cases q) (simp_all add: component_text_def with_qualifier_def qualifier_text_def
          has_flag_bits)
  next
    case Indirect with Step show ?thesis
      by (cases q) (simp_all add: component_text_def with_qualifier_def qualifier_text_def
          has_flag_bits)
  next
    case (CharOffset k s) with Step show ?thesis
      by (cases q; cases s) (simp_all add: component_text_def with_qualifier_def qualifier_text_def
          has_flag_bits)
  next
    case (MediaOffset t xy) with Step show ?thesis
      by (cases q; cases t; cases xy) (simp_all add: component_text_def with_qualifier_def
          qualifier_text_def has_flag_bits Let_def case_prod_beta)
  qed
qed

lemma parse_loop_qualifier:
  assumes "case q of None \<Rightarrow> True | Some s \<Rightarrow> CHR '']'' \<notin> set s" and "characterOffset c = 0"
  shows "parse_loop fl h c (at_text p (qualifier_text q @ r)) =
    parse_loop fl h (with_qualifier q c) (at_text (p @ qualifier_text q) r)"
  using assms by (cases q) (simp_all add: qualifier_text_def with_qualifier_def cfi_parse)

lemma set_text_qualifier_plain:
  "std_find '';s='' s = None \<Longrightarrow> set_text_qualifier s c = c\<lparr>textQualifier := s\<rparr>"
  by (simp add: set_text_qualifier_def)

lemma not_number_char: "\<not> number_char (CHR ''@'')" "\<not> number_char (CHR '':'')"
  by (simp_all add: number_char_def is_digit_def)

lemma not_digit_char: "\<not> is_digit (CHR ''['')" "\<not> is_digit (CHR '':'')" "\<not> is_digit (CHR ''!'')"
  "\<not> is_digit (CHR ''~'')" "\<not> is_digit (CHR ''@'')"
  by (simp_all add: is_digit_def)

lemmas parse_loop_tails = parse_loop_colon [where r = "[]", simplified]
  parse_loop_tilde [where r = "[]", simplified] parse_loop_at [where r = "[]", simplified]
  parse_loop_bracket [where r = "[]", simplified]

lemma parse_loop_offset:
  assumes ok: "offset_ok fl off" and none: "\<And>i. bit (cflags c) i \<Longrightarrow> i = 0"
  shows "parse_loop fl h c (at_text p (offset_text fl off)) = Some (Inr (with_offset off c))"
proof -
  have bits: "bit (cflags c) (Suc i) \<longleftrightarrow> False" "bit (cflags c) (numeral k) \<longleftrightarrow> False" for i k
    using none by fastforce+
  have u: "unat n < 2 ^ 32" for n :: u32
    using unat32_bound [of n] by simp
  show ?thesis
  proof (cases off)
    case (CharOffset n q)
    show ?thesis
    proof (cases q)
      case None
      with CharOffset u [of n] show ?thesis
        by (simp add: qualifier_text_def cfi_parse parse_loop_tails has_spatial_temporal bits)
    next
      case (Some s)
      with CharOffset u [of n] ok show ?thesis
        by (simp add: qualifier_text_def cfi_parse parse_loop_tails has_spatial_temporal bits
            not_digit_char set_text_qualifier_plain)
    qed
  next
    case (MediaOffset t xy)
    with ok show ?thesis
      by (cases t; cases xy) (simp_all add: cfi_parse parse_loop_tails has_flag_bits bits
          case_prod_beta Let_def not_number_char)
  qed (simp_all add: cfi_parse has_spatial_temporal has_flag_bits bits)
qed

lemma hd_rest_not_digit:
  "qualifier_text q @ offset_text fl off = [] \<or> \<not> is_digit (hd (qualifier_text q @ offset_text fl off))"
proof (cases q)
  case None
  then show ?thesis
    by (cases off) (auto simp: qualifier_text_def not_digit_char split: option.splits)
qed (simp add: qualifier_text_def not_digit_char)

lemma Component_Parse_step:
  assumes "step_ok fl st"
  shows "Component_Parse fl h (new_Component fl 0) (step_text fl st) = Some (Inr (component_of fl st))"
proof (cases st)
  case (Step n q off)
  let ?r = "qualifier_text q @ offset_text fl off"
  have u: "unat n < 2 ^ 32" using unat32_bound [of n] by simp
  have node: "(new_Component fl 0)\<lparr>nodeIndex := n\<rparr> = new_Component fl n"
    by (simp add: new_Component_def)
  have flags: "bit (cflags (with_qualifier q (new_Component fl n))) i \<Longrightarrow> i = 0" for i
    by (cases q) (simp_all add: with_qualifier_def)
  have nofail: "failb (after_scan [] (dec (unat n)) ?r) = False"
    by (simp add: after_scan_def)
  have "Component_Parse fl h (new_Component fl 0) (step_text fl st) =
      parse_loop fl h (new_Component fl n) (at_text (dec (unat n)) ?r)"
    using read_u32_dec [OF u hd_rest_not_digit, of "[]" q fl off]
    by (simp add: Step Component_Parse_def istringstream_at_text node nofail parse_loop_after_scan)
  also have "\<dots> = Some (Inr (component_of fl st))"
    using assms flags by (simp add: Step parse_loop_qualifier parse_loop_offset)
  finally show ?thesis .
qed

text \<open>A component prints the text of its step and reads it back: for a step whose identifier
  assertion contains no closing bracket, whose text assertion stands after a non-zero character
  offset and contains neither a closing bracket nor a side bias, and whose times and positions
  survive printing, the parser ends on the text of its component and gives that component.\<close>

lemma component_roundtrip:
  assumes "step_ok fl st"
  shows "Component_of_string fl h (component_text fl (component_of fl st)) =
    Some (Inr (component_of fl st))"
  using Component_Parse_step [OF assms]
  by (simp add: Component_of_string_def component_text_component_of)

text \<open>Natural numbers as the numbers of a stream library that prints and scans decimals.\<close>

definition nat_float :: "nat float_lib" where
  "nat_float = \<lparr>fl_zero = 0,
     fl_scan = (\<lambda>s. (dec_value (takeWhile is_digit s), length (takeWhile is_digit s),
                     takeWhile is_digit s \<noteq> [])),
     fl_show = dec, fl_lt = (<), fl_eq = (=)\<rparr>"

lemma nat_float_text_ok: "float_text_ok nat_float x"
proof -
  have "list_all number_char (dec x)"
    using dec_digits [of x] by (simp add: list_all_iff number_char_def)
  moreover have "takeWhile is_digit (dec x @ r) = dec x" if "r = [] \<or> \<not> number_char (hd r)" for r
    using that by (intro takeWhile_append_stop) (auto simp: number_char_def)
  ultimately show ?thesis by (simp add: float_text_ok_def nat_float_def)
qed

text \<open>The parser of a component does not end on a number followed by a colon and a character that
  starts no number: the failed extraction leaves the eof bit clear, and every further extraction
  fails in the same way.\<close>

theorem component_parse_hangs:
  assumes "n < 2 ^ 32" and "\<not> is_digit ch" and "\<not> is_space ch" and "ch \<noteq> CHR ''-''" and "ch \<noteq> CHR ''+''"
  shows "Component_of_string fl h (dec n @ CHR '':'' # ch # r) = None"
proof -
  let ?s = "at_text (dec n @ '':'') (ch # r)"
  have scan: "read_u32 ?s = (Some 0, (scan_past 0 ?s)\<lparr>failb := True\<rparr>)"
    using assms by (simp add: read_u32_def sentry_at_text scan_u32_def Let_def)
  have stuck: "parse_loop fl h c ((scan_past 0 ?s)\<lparr>failb := True\<rparr>) = None" for c
    by (rule parse_loop_stuck) (simp_all add: scan_past_def)
  have loop: "parse_loop fl h (new_Component fl (of_nat n)) (at_text (dec n) (CHR '':'' # ch # r)) = None"
    by (simp add: parse_loop.simps [of _ _ _ "at_text (dec n) (CHR '':'' # ch # r)"] parse_item_def
        read_char_at_text is_space_def parse_colon_def has_spatial_temporal scan stuck)
  have node: "(new_Component fl 0)\<lparr>nodeIndex := of_nat n\<rparr> = new_Component fl (of_nat n)"
    by (simp add: new_Component_def)
  show ?thesis
    using read_u32_dec [OF assms(1), of "CHR '':'' # ch # r" "[]"] loop
    by (simp add: Component_of_string_def Component_Parse_def istringstream_at_text not_digit_char node)
qed

theorem component_parse_hangs_witness:
  "Component_of_string nat_float DefaultErrorHandler (dec 4 @ '':x'') = None"
  using component_parse_hangs [of 4 "CHR ''x''" nat_float DefaultErrorHandler "[]"]
  by (simp add: is_digit_def is_space_def)

end
