(* ===== verification/Cfi.thy ===== *)
theory Cfi
  imports Cfi_Component
begin

text \<open>
  \<^verbatim>\<open>class CFI\<close> of \<^verbatim>\<open>ePub/cfi.{h,cpp}\<close>: content fragment identifiers as lists of components, with an
  optional range.  Splitting and compiling the text, printing, comparison, assignment, sub-paths
  and appending.
\<close>

section \<open>Data and simple operations\<close>

record 'f CFI =
  components :: "'f Component list"
  options :: byte
  rangeStart :: "'f Component list"
  rangeEnd :: "'f Component list"

definition RangeTriplet :: byte where "RangeTriplet = 1"

definition empty_CFI :: "'f CFI" where
  "empty_CFI = \<lparr>components = [], options = 0, rangeStart = [], rangeEnd = []\<rparr>"

definition CFI_of_range :: "'f CFI \<Rightarrow> 'f CFI \<Rightarrow> 'f CFI \<Rightarrow> 'f CFI" where
  "CFI_of_range base start end' = \<lparr>components = components base, options = RangeTriplet,
     rangeStart = components start, rangeEnd = components end'\<rparr>"

definition IsRangeTriplet :: "'f CFI \<Rightarrow> bool" where
  "IsRangeTriplet c \<longleftrightarrow> options c AND RangeTriplet = RangeTriplet"

definition CFI_Empty :: "'f CFI \<Rightarrow> bool" where
  "CFI_Empty c = (components c = [])"

definition CFI_Clear :: "'f CFI \<Rightarrow> 'f CFI" where
  "CFI_Clear c = c\<lparr>components := []\<rparr>"

definition CharacterSideBias :: "'f CFI \<Rightarrow> SideBias cxx" where
  "CharacterSideBias c = (if components c = [] then Inl Undefined
     else Inr (sideBias (last (components c))))"

definition CFI_eq :: "'f float_lib \<Rightarrow> 'f CFI \<Rightarrow> 'f CFI \<Rightarrow> bool" where
  "CFI_eq fl c o' =
    (if options c \<noteq> options o' then False
     else if \<not> list_all2 (Component_eq fl) (components c) (components o') then False
     else if IsRangeTriplet c
     then list_all2 (Component_eq fl) (rangeStart c) (rangeStart o') \<and>
          list_all2 (Component_eq fl) (rangeEnd c) (rangeEnd o')
     else True)"

definition CFI_ne :: "'f float_lib \<Rightarrow> 'f CFI \<Rightarrow> 'f CFI \<Rightarrow> bool" where
  "CFI_ne fl c o' = (\<not> CFI_eq fl c o')"

definition CFI_Assign :: "'f CFI \<Rightarrow> 'f CFI \<Rightarrow> 'f CFI" where
  "CFI_Assign c o' = c\<lparr>components := components o', rangeStart := rangeStart o',
     rangeEnd := rangeEnd o', options := options o'\<rparr>"

definition CFI_Assign_from :: "'f CFI \<Rightarrow> 'f CFI \<Rightarrow> nat \<Rightarrow> 'f CFI cxx" where
  "CFI_Assign_from c o' fromIndex =
    (if fromIndex \<ge> length (components o') then Inl (Throws (Out_of_range
        (''Component index '' @ dec fromIndex @ '' out of range [0..'' @
         dec (length (components c)) @ '']'')))
     else (let c1 = c\<lparr>components := drop fromIndex (components o')\<rparr> in
       if IsRangeTriplet o'
       then Inr (c1\<lparr>rangeStart := rangeStart o', rangeEnd := rangeEnd o',
                    options := options c1 OR RangeTriplet\<rparr>)
       else if IsRangeTriplet c1
       then Inr (c1\<lparr>rangeStart := [], rangeEnd := [], options := options c1 AND NOT RangeTriplet\<rparr>)
       else Inr c1))"

definition CFI_sub :: "'f CFI \<Rightarrow> nat \<Rightarrow> 'f CFI cxx" where
  "CFI_sub base fromIndex = CFI_Assign_from empty_CFI base fromIndex"

definition CFI_Append :: "'f CFI \<Rightarrow> 'f CFI \<Rightarrow> 'f CFI cxx" where
  "CFI_Append c cfi =
    (if IsRangeTriplet c
     then Inl (Throws (RangedCFIAppendAttempt ''Appending to a ranged CFI-- what to do here?''))
     else (let c1 = c\<lparr>components := components c @ components cfi\<rparr> in
       if IsRangeTriplet cfi
       then Inr (c1\<lparr>rangeStart := rangeStart cfi, rangeEnd := rangeEnd cfi,
                    options := options c1 OR RangeTriplet\<rparr>)
       else Inr c1))"

definition TotalComponents :: "'f CFI \<Rightarrow> nat" where
  "TotalComponents c = length (components c) +
     (if IsRangeTriplet c then length (rangeStart c) + length (rangeEnd c) else 0)"

section \<open>Printing\<close>

definition AppendComponents :: "'f float_lib \<Rightarrow> 'f Component list \<Rightarrow> string" where
  "AppendComponents fl cs = concat (map (\<lambda>c. CHR ''/'' # component_text fl c) cs)"

text \<open>\<^verbatim>\<open>Stringify(begin()+from, begin()+to)\<close>.\<close>

definition Stringify :: "'f float_lib \<Rightarrow> 'f CFI \<Rightarrow> nat \<Rightarrow> nat \<Rightarrow> string" where
  "Stringify fl c from to =
     ''epubcfi('' @ AppendComponents fl (take (to - from) (drop from (components c))) @
     (if to = length (components c) \<and> IsRangeTriplet c
      then '','' @ AppendComponents fl (rangeStart c) @ '','' @ AppendComponents fl (rangeEnd c)
      else []) @ '')''"

definition CFI_String :: "'f float_lib \<Rightarrow> 'f CFI \<Rightarrow> string" where
  "CFI_String fl c = Stringify fl c 0 (length (components c))"

definition SubCFIFromIndex :: "'f float_lib \<Rightarrow> 'f CFI \<Rightarrow> nat \<Rightarrow> string cxx" where
  "SubCFIFromIndex fl c index =
    (if index \<ge> TotalComponents c
     then Inl (Throws (Range_error (''Index '' @ dec index @ '' is out of bounds.'')))
     else if index > length (components c) then Inl Undefined
     else Inr (Stringify fl c index (length (components c))))"

definition CFI_eq_string :: "'f float_lib \<Rightarrow> 'f CFI \<Rightarrow> string \<Rightarrow> bool" where
  "CFI_eq_string fl c str = (CFI_String fl c = str)"

section \<open>Splitting\<close>

text \<open>\<^verbatim>\<open>find_first_of\<close>, with None for \<^verbatim>\<open>npos\<close>.\<close>

definition find_any :: "string \<Rightarrow> string \<Rightarrow> nat \<Rightarrow> nat option" where
  "find_any breaks s pos =
    (let k = length (takeWhile (\<lambda>c. c \<notin> set breaks) (drop pos s)) in
     if pos + k < length s then Some (pos + k) else None)"

definition push_nonempty :: "string \<Rightarrow> string list \<Rightarrow> string list" where
  "push_nonempty tmp comps = (if tmp \<noteq> [] then comps @ [tmp] else comps)"

text \<open>
  The loop of \<^verbatim>\<open>CFIComponentStrings\<close>.  When the error handler continues after an unterminated
  bracket at \<open>loc\<close>, the location wraps to 0 and the length of the appended piece to \<open>- loc\<close>: nothing
  at 0, the rest of the text at 1, and an iterator beyond the end everywhere else.
\<close>

partial_function (option) cfi_split ::
  "handler \<Rightarrow> char \<Rightarrow> string \<Rightarrow> nat \<Rightarrow> string \<Rightarrow> string list \<Rightarrow> string list run" where
  "cfi_split h d cfi pos tmp comps =
    (if \<not> pos < length cfi then Some (Inr (push_nonempty tmp comps))
     else (case find_any [d, CHR ''[''] cfi pos of
       None \<Rightarrow> Some (Inr (push_nonempty (tmp @ drop pos cfi) comps))
     | Some loc \<Rightarrow>
        (let tmp1 = (if loc > pos then tmp @ take (loc - pos) (drop pos cfi) else tmp) in
         if cfi ! loc = CHR ''['' then
           (case find_any [CHR '']''] cfi loc of
              None \<Rightarrow> (case HandleError h (CFIErr CFIParseFailed)
                  (''CFI '' @ [CHR 0x27] @ cfi @ [CHR 0x27] @ '' has an unterminated qualifier'') of
                  Inl e \<Rightarrow> Some (Inl e)
                | Inr _ \<Rightarrow>
                    if loc = 0 then cfi_split h d cfi 0 tmp1 comps
                    else if loc = 1 then cfi_split h d cfi 0 (tmp1 @ drop 1 cfi) comps
                    else Some (Inl (Throws Utf8_not_enough_room)))
            | Some q \<Rightarrow> cfi_split h d cfi (q + 1) (tmp1 @ take (q + 1 - loc) (drop loc cfi)) comps)
         else cfi_split h d cfi (loc + 1) [] (push_nonempty tmp1 comps))))"

definition CFIComponentStrings :: "handler \<Rightarrow> string \<Rightarrow> char \<Rightarrow> string list run" where
  "CFIComponentStrings h cfi delimiter = cfi_split h delimiter cfi 0 [] []"

definition RangedCFIComponents :: "handler \<Rightarrow> string \<Rightarrow> string list run" where
  "RangedCFIComponents h cfi = CFIComponentStrings h cfi (CHR '','')"

section \<open>Compiling\<close>

text \<open>
  Specification errors pass through, every other exception makes the function return False with the
  components read so far.
\<close>

fun CompileComponentsToList ::
  "'f float_lib \<Rightarrow> handler \<Rightarrow> string list \<Rightarrow> 'f Component list \<Rightarrow> (bool \<times> 'f Component list) run" where
  "CompileComponentsToList fl h [] lst = Some (Inr (True, lst))"
| "CompileComponentsToList fl h (str # strings) lst =
    (case Component_of_string fl h str of
       None \<Rightarrow> None
     | Some (Inl (Throws (Epub_spec_error x))) \<Rightarrow> Some (Inl (Throws (Epub_spec_error x)))
     | Some (Inl (Throws _)) \<Rightarrow> Some (Inr (False, lst))
     | Some (Inl Undefined) \<Rightarrow> Some (Inl Undefined)
     | Some (Inr c) \<Rightarrow> CompileComponentsToList fl h strings (lst @ [c]))"

definition range_invalid :: "handler \<Rightarrow> string \<Rightarrow> unit cxx" where
  "range_invalid h what = HandleError h (CFIErr CFIRangeInvalid) what"

definition out_of_order :: string where
  "out_of_order = ''Range components appear to be out of order.''"

text \<open>The loop that compares the node indices of the two range paths.\<close>

fun range_scan ::
  "handler \<Rightarrow> 'f Component list \<Rightarrow> 'f Component list \<Rightarrow> nat list \<Rightarrow> bool \<Rightarrow> bool cxx" where
  "range_scan h ss es [] inequal = Inr inequal"
| "range_scan h ss es (i # is) inequal =
    bind_cxx (elem_at ss i) (\<lambda>s. bind_cxx (elem_at es i) (\<lambda>e.
      if nodeIndex s > nodeIndex e
      then bind_cxx (range_invalid h out_of_order) (\<lambda>_. range_scan h ss es is inequal)
      else range_scan h ss es is
             (if \<not> inequal \<and> nodeIndex s < nodeIndex e then True else inequal)))"

definition range_offsets :: "'f float_lib \<Rightarrow> handler \<Rightarrow> 'f Component \<Rightarrow> 'f Component \<Rightarrow> unit cxx" where
  "range_offsets fl h s e =
    (if HasCharacterOffset s \<and> characterOffset s > characterOffset e then range_invalid h out_of_order
     else bind_cxx
       (if HasTemporalOffset s \<and> fl_lt fl (temporalOffset e) (temporalOffset s)
        then range_invalid h out_of_order else Inr ())
       (\<lambda>_. if HasSpatialOffset s \<and> Point_gt fl (spatialOffset s) (spatialOffset e)
            then range_invalid h out_of_order else Inr ()))"

text \<open>The checks of the two range paths; False where \<^verbatim>\<open>CompileCFI\<close> returns false.\<close>

definition check_range ::
  "'f float_lib \<Rightarrow> handler \<Rightarrow> 'f Component list \<Rightarrow> 'f Component list \<Rightarrow> bool cxx" where
  "check_range fl h ss es =
    (if ss = [] \<or> es = []
     then bind_cxx (range_invalid h ''One of the supplied range components was empty.'') (\<lambda>_. Inr False)
     else if cflags (last ss) AND OffsetsMask \<noteq> cflags (last es) AND OffsetsMask
     then bind_cxx (range_invalid h ''Offsets at the end of range components are of different types.'')
            (\<lambda>_. Inr False)
     else bind_cxx
       (if sideBias (last ss) \<noteq> Unspecified \<or> sideBias (last es) \<noteq> Unspecified
        then HandleError h (CFIErr CFIRangeContainsSideBias) [] else Inr ()) (\<lambda>_.
      bind_cxx (range_scan h ss es [0 ..< max (length ss) (length es)] False) (\<lambda>inequal.
      bind_cxx
       (if \<not> inequal \<and> length ss = length es then range_offsets fl h (last ss) (last es) else Inr ())
       (\<lambda>_. Inr True))))"

text \<open>Compiling into the list of components \<open>lst\<close>, and stopping when that fails.\<close>

definition compile_piece ::
  "'f float_lib \<Rightarrow> handler \<Rightarrow> string \<Rightarrow> 'f Component list \<Rightarrow> (bool \<times> 'f Component list) run" where
  "compile_piece fl h piece lst =
     bind_run (CFIComponentStrings h piece (CHR ''/'')) (\<lambda>strs. CompileComponentsToList fl h strs lst)"

definition compile_range ::
  "'f float_lib \<Rightarrow> handler \<Rightarrow> string list \<Rightarrow> 'f CFI \<Rightarrow> (bool \<times> 'f CFI) run" where
  "compile_range fl h pieces c =
    (if length pieces < 3 then Some (Inr (True, c)) else
     bind_run (compile_piece fl h (pieces ! 1) (rangeStart c)) (\<lambda>(ok1, ss).
       if \<not> ok1 then Some (Inr (False, c\<lparr>rangeStart := ss\<rparr>)) else
       bind_run (compile_piece fl h (pieces ! 2) (rangeEnd c)) (\<lambda>(ok2, es).
         let c1 = c\<lparr>rangeStart := ss, rangeEnd := es\<rparr> in
         if \<not> ok2 then Some (Inr (False, c1)) else
         bind_run (Some (check_range fl h ss es)) (\<lambda>ok.
           Some (Inr (if ok then (True, c1\<lparr>options := options c1 OR RangeTriplet\<rparr>) else (False, c1)))))))"

definition compile_pieces ::
  "'f float_lib \<Rightarrow> handler \<Rightarrow> string list \<Rightarrow> 'f CFI \<Rightarrow> (bool \<times> 'f CFI) run" where
  "compile_pieces fl h pieces c =
    bind_run (Some (if length pieces \<noteq> 1 \<and> length pieces \<noteq> 3
       then HandleError h (CFIErr CFIRangeComponentCountInvalid)
              (''Expected 1 or 3 range components, got '' @ dec (length pieces)) else Inr ())) (\<lambda>_.
    if pieces = [] then Some (Inr (False, c)) else
    bind_run (compile_piece fl h (pieces ! 0) (components c)) (\<lambda>(ok, cs).
      if \<not> ok then Some (Inr (False, c\<lparr>components := cs\<rparr>))
      else compile_range fl h pieces (c\<lparr>components := cs\<rparr>)))"

definition CompileCFI :: "'f float_lib \<Rightarrow> handler \<Rightarrow> 'f CFI \<Rightarrow> string \<Rightarrow> (bool \<times> 'f CFI) run" where
  "CompileCFI fl h c str =
    (if take 8 str = ''epubcfi(''
     then bind_run (RangedCFIComponents h (take (length str - 1 - 8) (drop 8 str)))
            (\<lambda>pieces. compile_pieces fl h pieces c)
     else if str = []
     then bind_run (Some (HandleError h (CFIErr CFIParseFailed) ''Empty CFI string''))
            (\<lambda>_. Some (Inr (False, c)))
     else bind_run (Some (if str ! 0 \<noteq> CHR ''/''
            then HandleError h (CFIErr CFINonSlashStartCharacter) [] else Inr ())) (\<lambda>_.
          bind_run (RangedCFIComponents h str) (\<lambda>pieces. compile_pieces fl h pieces c)))"

definition CFI_of_string :: "'f float_lib \<Rightarrow> handler \<Rightarrow> string \<Rightarrow> 'f CFI run" where
  "CFI_of_string fl h str =
    bind_run (CompileCFI fl h empty_CFI str) (\<lambda>(ok, c).
      if \<not> ok then bind_run (Some (HandleError h (CFIErr CFIParseFailed) (''Invalid CFI string: '' @ str)))
                     (\<lambda>_. Some (Inr c))
      else Some (Inr c))"

definition CFI_Assign_string :: "'f float_lib \<Rightarrow> handler \<Rightarrow> 'f CFI \<Rightarrow> string \<Rightarrow> 'f CFI run" where
  "CFI_Assign_string fl h c str =
     bind_run (CFI_of_string fl h str) (\<lambda>tmp. Some (Inr (CFI_Assign c tmp)))"

definition CFI_Append_string :: "'f float_lib \<Rightarrow> handler \<Rightarrow> 'f CFI \<Rightarrow> string \<Rightarrow> 'f CFI run" where
  "CFI_Append_string fl h c str =
    (if IsRangeTriplet c
     then Some (Inl (Throws (RangedCFIAppendAttempt ''Appending to a ranged CFI-- what to do here?'')))
     else bind_run (CFI_of_string fl h str) (\<lambda>tmp.
       let c1 = c\<lparr>components := components c @ components tmp\<rparr> in
       Some (Inr (if IsRangeTriplet tmp
         then c1\<lparr>rangeStart := rangeStart tmp, rangeEnd := rangeEnd tmp,
                 options := options c1 OR RangeTriplet\<rparr>
         else c1))))"

section \<open>Text that the splitter passes over\<close>

text \<open>
  A piece of text is transparent when the loop, started before it, runs as if started behind it with
  the piece added to the pending component.
\<close>

definition transparent :: "char \<Rightarrow> string \<Rightarrow> bool" where
  "transparent d t \<longleftrightarrow> (\<forall>h p r tmp comps.
     cfi_split h d (p @ t @ r) (length p) tmp comps =
     cfi_split h d (p @ t @ r) (length (p @ t)) (tmp @ t) comps)"

lemma transparentD:
  "transparent d t \<Longrightarrow> cfi_split h d (p @ t @ r) (length p) tmp comps =
     cfi_split h d (p @ t @ r) (length (p @ t)) (tmp @ t) comps"
  by (simp add: transparent_def)

lemma transparent_Nil [simp]: "transparent d []"
  by (simp add: transparent_def)

lemma transparent_append:
  assumes "transparent d s" and "transparent d t"
  shows "transparent d (s @ t)"
  unfolding transparent_def
proof (intro allI)
  fix h p r tmp comps
  have "cfi_split h d (p @ (s @ t) @ r) (length p) tmp comps =
      cfi_split h d ((p @ s) @ t @ r) (length (p @ s)) (tmp @ s) comps"
    using transparentD [OF assms(1), of h p "t @ r" tmp comps] by simp
  also have "\<dots> = cfi_split h d ((p @ s) @ t @ r) (length ((p @ s) @ t)) ((tmp @ s) @ t) comps"
    by (rule transparentD [OF assms(2)])
  finally show "cfi_split h d (p @ (s @ t) @ r) (length p) tmp comps =
      cfi_split h d (p @ (s @ t) @ r) (length (p @ s @ t)) (tmp @ s @ t) comps" by simp
qed

lemma find_any_skip:
  assumes "\<forall>c\<in>set s. c \<notin> set breaks"
  shows "find_any breaks (p @ s @ r) (length p) = find_any breaks (p @ s @ r) (length (p @ s))"
proof -
  have "takeWhile (\<lambda>c. c \<notin> set breaks) (s @ r) = s @ takeWhile (\<lambda>c. c \<notin> set breaks) r"
    using assms by (simp add: takeWhile_append2)
  then show ?thesis by (simp add: find_any_def Let_def)
qed

lemma find_any_ge: "find_any breaks s pos = Some loc \<Longrightarrow> pos \<le> loc \<and> loc < length s"
  by (auto simp: find_any_def Let_def split: if_splits)

lemma find_any_hit:
  assumes "\<forall>c\<in>set s. c \<notin> set breaks" and "d \<in> set breaks"
  shows "find_any breaks (p @ s @ d # r) (length p) = Some (length (p @ s))"
  using assms by (simp add: find_any_skip) (simp add: find_any_def Let_def)

text \<open>The piece taken up to the next break.\<close>

lemma split_piece:
  assumes "find_any breaks (p @ s @ r) (length (p @ s)) = Some loc"
  shows "(if loc > length p then tmp @ take (loc - length p) (drop (length p) (p @ s @ r)) else tmp) =
    (if loc > length (p @ s)
     then (tmp @ s) @ take (loc - length (p @ s)) (drop (length (p @ s)) (p @ s @ r)) else tmp @ s)"
proof -
  from find_any_ge [OF assms] have "length (p @ s) \<le> loc" by simp
  then obtain k where "loc = length (p @ s) + k" using le_Suc_ex by blast
  then show ?thesis by (cases k) auto
qed

lemma transparent_plain:
  assumes "d \<notin> set s" and "CHR ''['' \<notin> set s"
  shows "transparent d s"
  unfolding transparent_def
proof (intro allI)
  fix h p r tmp comps
  let ?cfi = "p @ s @ r" and ?b = "[d, CHR ''['']"
  have skip: "find_any ?b ?cfi (length p) = find_any ?b ?cfi (length (p @ s))"
    using assms by (intro find_any_skip) auto
  show "cfi_split h d ?cfi (length p) tmp comps = cfi_split h d ?cfi (length (p @ s)) (tmp @ s) comps"
  proof (cases "find_any ?b ?cfi (length (p @ s))")
    case None
    have "cfi_split h d ?cfi (length p) tmp comps = Some (Inr (push_nonempty (tmp @ s @ r) comps))"
      by (subst cfi_split.simps) (use None skip in auto)
    moreover have "cfi_split h d ?cfi (length (p @ s)) (tmp @ s) comps =
        Some (Inr (push_nonempty (tmp @ s @ r) comps))"
      by (subst cfi_split.simps) (use None in auto)
    ultimately show ?thesis by simp
  next
    case (Some loc)
    then have "length p < length ?cfi" "length (p @ s) < length ?cfi"
      using find_any_ge by fastforce+
    then show ?thesis
      by (simp only: cfi_split.simps [of _ _ ?cfi "length p"]
          cfi_split.simps [of _ _ ?cfi "length (p @ s)"] skip Some option.case split_piece [OF Some]
          not_True_eq_False if_False)
  qed
qed

lemma transparent_bracket:
  assumes "CHR '']'' \<notin> set q" and "d \<noteq> CHR ''[''"
  shows "transparent d (CHR ''['' # q @ '']'')"
  unfolding transparent_def
proof (intro allI)
  fix h p r tmp comps
  let ?cfi = "p @ (CHR ''['' # q @ '']'') @ r"
  have a: "find_any [d, CHR ''[''] ?cfi (length p) = Some (length p)"
    using find_any_hit [of "[]" "[d, CHR ''['']" "CHR ''[''" p "q @ CHR '']'' # r"] by simp
  have b: "find_any '']'' ?cfi (length p) = Some (length p + 1 + length q)"
    using find_any_hit [of "CHR ''['' # q" "'']''" "CHR '']''" p r] assms by auto
  show "cfi_split h d ?cfi (length p) tmp comps =
      cfi_split h d ?cfi (length (p @ CHR ''['' # q @ '']'')) (tmp @ CHR ''['' # q @ '']'') comps"
    by (subst cfi_split.simps) (use a b in simp)
qed

lemma transparent_qualifier:
  assumes "case q of None \<Rightarrow> True | Some s \<Rightarrow> CHR '']'' \<notin> set s" and "d \<noteq> CHR ''[''"
  shows "transparent d (qualifier_text q)"
  using assms by (cases q) (simp_all add: qualifier_text_def transparent_bracket)

text \<open>A delimiter ends the pending component.\<close>

lemma cfi_split_delim:
  assumes "d \<noteq> CHR ''[''"
  shows "cfi_split h d (p @ d # r) (length p) tmp comps =
    cfi_split h d (p @ d # r) (length (p @ [d])) [] (push_nonempty tmp comps)"
proof -
  have "find_any [d, CHR ''[''] (p @ d # r) (length p) = Some (length p)"
    using find_any_hit [of "[]" "[d, CHR ''['']" d p r] by simp
  with assms show ?thesis by (simp add: cfi_split.simps [of _ _ "p @ d # r" "length p"])
qed

lemma cfi_split_tokens:
  assumes "d \<noteq> CHR ''[''" and "\<forall>t\<in>set ts. t \<noteq> [] \<and> transparent d t"
  shows "cfi_split h d (p @ concat (map ((#) d) ts)) (length p) tmp comps =
    Some (Inr (push_nonempty tmp comps @ ts))"
  using assms
proof (induction ts arbitrary: p tmp comps)
  case Nil
  then show ?case by (simp add: cfi_split.simps [of _ _ p])
next
  case (Cons t ts)
  let ?r = "concat (map ((#) d) ts)"
  have "cfi_split h d (p @ d # t @ ?r) (length p) tmp comps =
      cfi_split h d ((p @ [d]) @ t @ ?r) (length (p @ [d])) [] (push_nonempty tmp comps)"
    using cfi_split_delim [of d h p "t @ ?r"] Cons.prems by simp
  also have "\<dots> = cfi_split h d ((p @ [d]) @ t @ ?r) (length ((p @ [d]) @ t)) ([] @ t) (push_nonempty tmp comps)"
    by (rule transparentD) (use Cons.prems in simp)
  also have "\<dots> = Some (Inr (push_nonempty t (push_nonempty tmp comps) @ ts))"
    using Cons.IH [of "p @ d # t" t "push_nonempty tmp comps"] Cons.prems by simp
  also have "push_nonempty t (push_nonempty tmp comps) @ ts = push_nonempty tmp comps @ t # ts"
    using Cons.prems by (simp add: push_nonempty_def)
  finally show ?case by simp
qed

section \<open>Identifiers as lists of steps\<close>

text \<open>
  An identifier is a path of steps, or a base path with a start and an end path relative to it.
\<close>

datatype 'f ident = Location "'f step list" | Range "'f step list" "'f step list" "'f step list"

definition path_comps :: "'f float_lib \<Rightarrow> 'f step list \<Rightarrow> 'f Component list" where
  "path_comps fl p = map (component_of fl) p"

fun cfi_of :: "'f float_lib \<Rightarrow> 'f ident \<Rightarrow> 'f CFI" where
  "cfi_of fl (Location p) = \<lparr>components = path_comps fl p, options = 0, rangeStart = [], rangeEnd = []\<rparr>"
| "cfi_of fl (Range p s e) = \<lparr>components = path_comps fl p, options = RangeTriplet,
     rangeStart = path_comps fl s, rangeEnd = path_comps fl e\<rparr>"

definition path_text :: "'f float_lib \<Rightarrow> 'f step list \<Rightarrow> string" where
  "path_text fl p = concat (map (\<lambda>st. CHR ''/'' # step_text fl st) p)"

definition path_ok :: "'f float_lib \<Rightarrow> 'f step list \<Rightarrow> bool" where
  "path_ok fl p \<longleftrightarrow> p \<noteq> [] \<and> (\<forall>st\<in>set p. step_ok fl st)"

lemma AppendComponents_path: "AppendComponents fl (path_comps fl p) = path_text fl p"
  by (simp add: AppendComponents_def path_comps_def path_text_def comp_def component_text_component_of)

lemma number_text_plain:
  assumes "list_all number_char s"
  shows "CHR ''/'' \<notin> set s" "CHR '','' \<notin> set s" "CHR ''['' \<notin> set s"
  using assms by (auto simp: list_all_iff number_char_def is_digit_def)

lemma transparent_number:
  assumes "list_all number_char s" and "d = CHR ''/'' \<or> d = CHR '',''"
  shows "transparent d s"
  using assms number_text_plain [OF assms(1)] by (intro transparent_plain) auto

lemma transparent_char:
  "c \<noteq> d \<Longrightarrow> c \<noteq> CHR ''['' \<Longrightarrow> transparent d t \<Longrightarrow> transparent d (c # t)"
  using transparent_append [OF transparent_plain, of d "[c]" t] by simp

lemma transparent_dec: "d = CHR ''/'' \<or> d = CHR '','' \<Longrightarrow> transparent d (dec n)"
  using dec_digits [of n] by (intro transparent_number) (auto simp: list_all_iff number_char_def)

lemma transparent_offset:
  assumes "offset_ok fl off" and d: "d = CHR ''/'' \<or> d = CHR '',''"
  shows "transparent d (offset_text fl off)"
proof (cases off)
  case (CharOffset n q)
  with assms have "transparent d (qualifier_text q)"
    by (cases q) (auto simp: transparent_qualifier)
  with CharOffset d show ?thesis
    by (auto intro!: transparent_char transparent_append transparent_dec)
next
  case (MediaOffset t xy)
  have num: "float_text_ok fl v \<Longrightarrow> transparent d (fl_show fl v)" for v
    using d by (simp add: float_text_ok_def transparent_number)
  from MediaOffset assms num show ?thesis
    by (cases t; cases xy) (auto intro!: transparent_char transparent_append)
next
  case Indirect
  with d show ?thesis by (auto intro!: transparent_char)
qed simp

lemma transparent_step:
  assumes "step_ok fl st" and "d = CHR ''/'' \<or> d = CHR '',''"
  shows "transparent d (step_text fl st)"
proof (cases st)
  case (Step n q off)
  with assms have "transparent d (qualifier_text q)" by (intro transparent_qualifier) auto
  with Step assms show ?thesis
    by (auto intro!: transparent_append transparent_dec transparent_offset)
qed

lemma step_text_not_Nil: "step_text fl st \<noteq> []"
  by (cases st) simp

lemma transparent_path:
  assumes "\<forall>st\<in>set p. step_ok fl st"
  shows "transparent (CHR '','') (path_text fl p)"
  using assms
  by (induction p) (auto simp: path_text_def intro!: transparent_char transparent_append transparent_step)

lemma path_text_not_Nil: "p \<noteq> [] \<Longrightarrow> path_text fl p \<noteq> []"
  by (cases p) (simp_all add: path_text_def)

lemma split_path:
  assumes "\<forall>st\<in>set p. step_ok fl st"
  shows "CFIComponentStrings h (path_text fl p) (CHR ''/'') = Some (Inr (map (step_text fl) p))"
  using cfi_split_tokens [of "CHR ''/''" "map (step_text fl) p" h "[]" "[]" "[]"] assms
  by (simp add: CFIComponentStrings_def path_text_def comp_def push_nonempty_def step_text_not_Nil
      transparent_step)

lemma CompileComponents_steps:
  assumes "\<forall>st\<in>set p. step_ok fl st"
  shows "CompileComponentsToList fl h (map (step_text fl) p) lst =
    Some (Inr (True, lst @ path_comps fl p))"
  using assms
  by (induction p arbitrary: lst)
    (simp_all add: path_comps_def Component_of_string_def Component_Parse_step)

lemma compile_piece_path:
  "\<forall>st\<in>set p. step_ok fl st \<Longrightarrow>
   compile_piece fl h (path_text fl p) [] = Some (Inr (True, path_comps fl p))"
  by (simp add: compile_piece_def split_path CompileComponents_steps)

text \<open>The pieces between the commas.\<close>

lemma split_pieces:
  assumes "path_ok fl p" and "\<forall>q\<in>set qs. path_ok fl q"
  shows "RangedCFIComponents h (path_text fl p @ concat (map (\<lambda>q. CHR '','' # path_text fl q) qs)) =
    Some (Inr (path_text fl p # map (path_text fl) qs))"
proof -
  let ?r = "concat (map ((#) (CHR '','')) (map (path_text fl) qs))"
  have t: "transparent (CHR '','') (path_text fl p)"
    using assms by (simp add: path_ok_def transparent_path)
  have "cfi_split h (CHR '','') (path_text fl p @ ?r) 0 [] [] =
      cfi_split h (CHR '','') (path_text fl p @ ?r) (length (path_text fl p)) (path_text fl p) []"
    using transparentD [OF t, of h "[]" ?r] by simp
  also have "\<dots> = Some (Inr (push_nonempty (path_text fl p) [] @ map (path_text fl) qs))"
    by (rule cfi_split_tokens) (use assms in \<open>auto simp: path_ok_def transparent_path path_text_not_Nil\<close>)
  finally show ?thesis
    using assms(1) by (simp add: RangedCFIComponents_def CFIComponentStrings_def comp_def
        push_nonempty_def path_ok_def path_text_not_Nil)
qed

text \<open>Compiling the printed text of an identifier comes down to the check of its range.\<close>

lemma CFI_String_Location:
  "CFI_String fl (cfi_of fl (Location p)) = ''epubcfi('' @ path_text fl p @ '')''"
  by (simp add: CFI_String_def Stringify_def AppendComponents_path IsRangeTriplet_def RangeTriplet_def)

lemma CFI_String_Range:
  "CFI_String fl (cfi_of fl (Range p s e)) =
     ''epubcfi('' @ (path_text fl p @ '','' @ path_text fl s @ '','' @ path_text fl e) @ '')''"
  by (simp add: CFI_String_def Stringify_def AppendComponents_path IsRangeTriplet_def)

lemma CompileCFI_wrapped:
  "CompileCFI fl h c (''epubcfi('' @ t @ '')'') =
     bind_run (RangedCFIComponents h t) (\<lambda>pieces. compile_pieces fl h pieces c)"
  by (simp add: CompileCFI_def)

lemma compile_Location:
  assumes "path_ok fl p"
  shows "CompileCFI fl h empty_CFI (CFI_String fl (cfi_of fl (Location p))) =
    Some (Inr (True, cfi_of fl (Location p)))"
  unfolding CFI_String_Location CompileCFI_wrapped
  using split_pieces [OF assms, of "[]" h] assms
  by (simp add: compile_pieces_def compile_range_def compile_piece_path path_ok_def empty_CFI_def)

lemma compile_Range:
  assumes "path_ok fl p" and "path_ok fl s" and "path_ok fl e"
  shows "CompileCFI fl h empty_CFI (CFI_String fl (cfi_of fl (Range p s e))) =
    bind_run (Some (check_range fl h (path_comps fl s) (path_comps fl e))) (\<lambda>ok.
      Some (Inr (ok, (cfi_of fl (Range p s e))\<lparr>options := (if ok then RangeTriplet else 0)\<rparr>)))"
proof -
  have "RangedCFIComponents h (path_text fl p @ '','' @ path_text fl s @ '','' @ path_text fl e) =
      Some (Inr [path_text fl p, path_text fl s, path_text fl e])"
    using split_pieces [OF assms(1), of "[s, e]" h] assms by simp
  then show ?thesis
    unfolding CFI_String_Range CompileCFI_wrapped
    using assms by (cases "check_range fl h (path_comps fl s) (path_comps fl e)")
      (simp_all add: compile_pieces_def compile_range_def compile_piece_path path_ok_def
        empty_CFI_def Let_def)
qed

section \<open>The range check\<close>

lemma range_scan_ordered:
  assumes "\<forall>i\<in>set is. i < length ss \<and> i < length es \<and> nodeIndex (ss ! i) \<le> nodeIndex (es ! i)"
  shows "range_scan h ss es (is @ js) b =
    range_scan h ss es js (b \<or> (\<exists>i\<in>set is. nodeIndex (ss ! i) \<noteq> nodeIndex (es ! i)))"
  using assms
proof (induction "is" arbitrary: b)
  case (Cons i "is")
  then show ?case by (auto simp: not_less order_less_le)
qed simp

definition offsets_in_order :: "'f float_lib \<Rightarrow> 'f Component \<Rightarrow> 'f Component \<Rightarrow> bool" where
  "offsets_in_order fl s e \<longleftrightarrow>
     (HasCharacterOffset s \<longrightarrow> characterOffset s \<le> characterOffset e) \<and>
     (HasTemporalOffset s \<longrightarrow> \<not> fl_lt fl (temporalOffset e) (temporalOffset s)) \<and>
     (HasSpatialOffset s \<longrightarrow> \<not> Point_gt fl (spatialOffset s) (spatialOffset e))"

text \<open>What the check asks of the two range paths.\<close>

definition same_offset_types :: "'f Component list \<Rightarrow> 'f Component list \<Rightarrow> bool" where
  "same_offset_types ss es \<longleftrightarrow> cflags (last ss) AND OffsetsMask = cflags (last es) AND OffsetsMask"

definition range_in_order :: "'f float_lib \<Rightarrow> 'f Component list \<Rightarrow> 'f Component list \<Rightarrow> bool" where
  "range_in_order fl ss es \<longleftrightarrow> length ss = length es \<and> same_offset_types ss es \<and>
     (\<forall>i<length ss. nodeIndex (ss ! i) \<le> nodeIndex (es ! i)) \<and>
     (map nodeIndex ss = map nodeIndex es \<longrightarrow> offsets_in_order fl (last ss) (last es))"

lemma sideBias_component_of [simp]: "sideBias (component_of fl st) = Unspecified"
proof (cases st)
  case (Step n q off)
  have base: "sideBias (with_qualifier q (new_Component fl n)) = Unspecified"
    by (cases q) (simp_all add: with_qualifier_def new_Component_def)
  show ?thesis
  proof (cases off)
    case (CharOffset k s) with Step base show ?thesis by (cases s) simp_all
  next
    case (MediaOffset t xy) with Step base show ?thesis
      by (cases t; cases xy) (simp_all add: Let_def case_prod_beta)
  qed (use Step base in simp_all)
qed

lemma last_path_comps: "p \<noteq> [] \<Longrightarrow> last (path_comps fl p) = component_of fl (last p)"
  by (simp add: path_comps_def last_map)

lemma check_range_scan:
  assumes "s \<noteq> []" and "e \<noteq> []" and "same_offset_types (path_comps fl s) (path_comps fl e)"
  shows "check_range fl h (path_comps fl s) (path_comps fl e) =
    bind_cxx (range_scan h (path_comps fl s) (path_comps fl e) [0 ..< max (length s) (length e)] False)
      (\<lambda>inequal. bind_cxx
        (if \<not> inequal \<and> length s = length e
         then range_offsets fl h (last (path_comps fl s)) (last (path_comps fl e)) else Inr ())
        (\<lambda>_. Inr True))"
  using assms
  by (simp add: check_range_def same_offset_types_def last_path_comps)
    (simp add: path_comps_def)

lemma range_offsets_in_order: "offsets_in_order fl s e \<Longrightarrow> range_offsets fl h s e = Inr ()"
  by (auto simp: range_offsets_def offsets_in_order_def not_less)

lemma check_range_ok:
  assumes "s \<noteq> []" and "range_in_order fl (path_comps fl s) (path_comps fl e)"
  shows "check_range fl h (path_comps fl s) (path_comps fl e) = Inr True"
proof -
  let ?ss = "path_comps fl s" and ?es = "path_comps fl e"
  have len: "length s = length e" and e: "e \<noteq> []" and "length ?ss = length s" "length ?es = length e"
    using assms by (auto simp: range_in_order_def path_comps_def)
  then have "range_scan h ?ss ?es [0 ..< length s] False =
      Inr (\<exists>i<length s. nodeIndex (?ss ! i) \<noteq> nodeIndex (?es ! i))"
    using range_scan_ordered [of "[0 ..< length s]" ?ss ?es h "[]" False] assms(2)
    by (simp add: range_in_order_def Bex_def)
  moreover have "(\<not> (\<exists>i<length s. nodeIndex (?ss ! i) \<noteq> nodeIndex (?es ! i))) \<longrightarrow>
      offsets_in_order fl (last ?ss) (last ?es)"
    using assms(2) len by (auto simp: range_in_order_def list_eq_iff_nth_eq path_comps_def)
  moreover have "same_offset_types ?ss ?es" using assms(2) by (simp add: range_in_order_def)
  ultimately show ?thesis
    using len e assms(1) by (auto simp: check_range_scan range_offsets_in_order)
qed

section \<open>Properties\<close>

fun ident_ok :: "'f float_lib \<Rightarrow> 'f ident \<Rightarrow> bool" where
  "ident_ok fl (Location p) \<longleftrightarrow> path_ok fl p"
| "ident_ok fl (Range p s e) \<longleftrightarrow> path_ok fl p \<and> path_ok fl s \<and> path_ok fl e \<and>
     range_in_order fl (path_comps fl s) (path_comps fl e)"

lemma CFI_of_string_printed:
  assumes "ident_ok fl i"
  shows "CFI_of_string fl h (CFI_String fl (cfi_of fl i)) = Some (Inr (cfi_of fl i))"
proof (cases i)
  case (Location p)
  with assms show ?thesis using compile_Location [of fl p h] by (simp add: CFI_of_string_def)
next
  case (Range p s e)
  with assms have "check_range fl h (path_comps fl s) (path_comps fl e) = Inr True"
    by (intro check_range_ok) (simp_all add: path_ok_def)
  with Range assms show ?thesis
    using compile_Range [of fl p s e h] by (simp add: CFI_of_string_def)
qed

text \<open>C37: Fragment identifiers survive printing and parsing: for every identifier made of non-empty
  paths of printable steps, whose range, if it has one, has paths of the same length with node
  numbers in order and offsets of one type in order, the constructor ends on the string that
  \<^verbatim>\<open>String\<close> prints and builds the same identifier, whatever the error handler.  Identifier
  assertions may contain slashes, commas and opening brackets.\<close>

theorem cfi_roundtrip:
  assumes "ident_ok fl i"
  shows "CFI_of_string fl h (CFI_String fl (cfi_of fl i)) = Some (Inr (cfi_of fl i))"
  by (rule CFI_of_string_printed [OF assms])

definition sample_step :: "u32 \<Rightarrow> nat step" where
  "sample_step n = Step n None NoOffset"

theorem cfi_roundtrip_witness:
  "CFI_of_string nat_float DefaultErrorHandler (CFI_String nat_float (cfi_of nat_float
      (Range [sample_step 6, Step 4 (Some ''a/b,c'') Indirect] [Step 2 None (CharOffset 3 None)]
        [Step 2 None (CharOffset 8 None)]))) =
   Some (Inr (cfi_of nat_float
      (Range [sample_step 6, Step 4 (Some ''a/b,c'') Indirect] [Step 2 None (CharOffset 3 None)]
        [Step 2 None (CharOffset 8 None)])))"
  by (rule cfi_roundtrip)
    (simp add: path_ok_def sample_step_def range_in_order_def path_comps_def same_offset_types_def
      with_qualifier_def new_Component_def offsets_in_order_def add_flag_def HasCharacterOffset_def
      HasTemporalOffset_def HasSpatialOffset_def HasFlag_def CharacterOffset_def TemporalOffset_def
      SpatialOffset_def)

text \<open>The comparison of the two range paths runs up to the longer one: when the paths have
  different lengths and the shorter one is not out of order, the constructor reads an element past
  the end of a vector, whatever the error handler.\<close>

theorem cfi_range_out_of_bounds:
  assumes "path_ok fl p" and "path_ok fl s" and "path_ok fl e" and "length s \<noteq> length e"
    and "same_offset_types (path_comps fl s) (path_comps fl e)"
    and "\<forall>i<min (length s) (length e).
           nodeIndex (path_comps fl s ! i) \<le> nodeIndex (path_comps fl e ! i)"
  shows "CFI_of_string fl h (CFI_String fl (cfi_of fl (Range p s e))) = Some (Inl Undefined)"
proof -
  let ?m = "min (length s) (length e)" and ?M = "max (length s) (length e)"
  have "?m < ?M" using assms(4) by auto
  then have "[0 ..< ?M] = [0 ..< ?m] @ ?m # [Suc ?m ..< ?M]"
    using upt_add_eq_append [of 0 ?m "?M - ?m"] by (simp add: upt_conv_Cons)
  moreover have "range_scan h (path_comps fl s) (path_comps fl e) (?m # js) b = Inl Undefined" for js b
    using assms(4) by (auto simp: path_comps_def min_def)
  ultimately have "range_scan h (path_comps fl s) (path_comps fl e) [0 ..< ?M] False = Inl Undefined"
    using range_scan_ordered [of "[0 ..< ?m]" "path_comps fl s" "path_comps fl e" h] assms(6)
    by (simp add: path_comps_def)
  then have "check_range fl h (path_comps fl s) (path_comps fl e) = Inl Undefined"
    using assms by (simp add: check_range_scan path_ok_def)
  then show ?thesis
    using compile_Range [OF assms(1-3), of h] by (simp add: CFI_of_string_def)
qed

theorem cfi_range_out_of_bounds_witness:
  "CFI_of_string nat_float DefaultErrorHandler (CFI_String nat_float
     (cfi_of nat_float (Range [sample_step 6] [sample_step 2] [sample_step 2, sample_step 3]))) =
   Some (Inl Undefined)"
  by (rule cfi_range_out_of_bounds)
    (simp_all add: path_ok_def sample_step_def path_comps_def same_offset_types_def
      with_qualifier_def)

text \<open>Two range paths in document order are rejected when a later step of the start path has the
  larger number: although an earlier step already decides the order, the comparison goes on, and
  with the default handler the constructor throws.\<close>

theorem cfi_range_rejects_ordered:
  assumes "path_ok fl p" and "a < b" and "d < c"
  shows "CFI_of_string fl DefaultErrorHandler (CFI_String fl (cfi_of fl
      (Range p [Step a None NoOffset, Step c None NoOffset] [Step b None NoOffset, Step d None NoOffset]))) =
    Some (Inl (Throws (Epub_spec_error (new_epub_spec_error (CFIErr CFIRangeInvalid) out_of_order))))"
proof -
  let ?s = "[Step a None NoOffset, Step c None NoOffset]" and ?e = "[Step b None NoOffset, Step d None NoOffset]"
  have "range_invalid DefaultErrorHandler out_of_order =
      Inl (Throws (Epub_spec_error (new_epub_spec_error (CFIErr CFIRangeInvalid) out_of_order)))"
    by (simp add: range_invalid_def HandleError_def DispatchError_def DefaultErrorHandler_def
        spec_Severity_def new_epub_spec_error_def error_info_def)
  moreover have "\<not> b < a" "d < c" using assms by auto
  ultimately have "range_scan DefaultErrorHandler (path_comps fl ?s) (path_comps fl ?e) [0, 1] False =
      Inl (Throws (Epub_spec_error (new_epub_spec_error (CFIErr CFIRangeInvalid) out_of_order)))"
    by (simp add: path_comps_def with_qualifier_def)
  moreover have "[0 ..< 2] = [0, 1 :: nat]" by (simp add: upt_rec)
  ultimately have "check_range fl DefaultErrorHandler (path_comps fl ?s) (path_comps fl ?e) =
      Inl (Throws (Epub_spec_error (new_epub_spec_error (CFIErr CFIRangeInvalid) out_of_order)))"
    by (subst check_range_scan)
      (simp_all add: same_offset_types_def path_comps_def with_qualifier_def numeral_2_eq_2)
  then show ?thesis
    using compile_Range [OF assms(1), of ?s ?e DefaultErrorHandler]
    by (simp add: CFI_of_string_def path_ok_def)
qed

theorem cfi_range_rejects_ordered_witness:
  "CFI_of_string nat_float DefaultErrorHandler (CFI_String nat_float (cfi_of nat_float
      (Range [sample_step 6] [Step 2 None NoOffset, Step 8 None NoOffset]
        [Step 4 None NoOffset, Step 1 None NoOffset]))) =
    Some (Inl (Throws (Epub_spec_error (new_epub_spec_error (CFIErr CFIRangeInvalid) out_of_order))))"
  by (rule cfi_range_rejects_ordered) (simp_all add: path_ok_def sample_step_def)

section \<open>Appending and sub-paths\<close>

text \<open>The options of every identifier the class builds.\<close>

definition options_ok :: "'f CFI \<Rightarrow> bool" where
  "options_ok c \<longleftrightarrow> (options c = 0 \<and> rangeStart c = [] \<and> rangeEnd c = []) \<or> options c = RangeTriplet"

lemma options_ok_cfi_of: "options_ok (cfi_of fl i)"
  by (cases i) (simp_all add: options_ok_def)

lemma IsRange_options: "options c = 0 \<Longrightarrow> \<not> IsRangeTriplet c" "options c = RangeTriplet \<Longrightarrow> IsRangeTriplet c"
  by (simp_all add: IsRangeTriplet_def RangeTriplet_def)

text \<open>C38: Appending a relative identifier to a location and taking the sub-path at the length of the
  location gives the relative identifier back, its range included; appending to a range always
  throws.\<close>

theorem cfi_append_sub:
  assumes "options_ok c" and "options_ok d" and "components d \<noteq> []"
  shows "if IsRangeTriplet c
    then \<exists>m. CFI_Append c d = Inl (Throws (RangedCFIAppendAttempt m))
    else \<exists>r. CFI_Append c d = Inr r \<and> CFI_sub r (length (components c)) = Inr d"
proof (cases "IsRangeTriplet c")
  case True
  then show ?thesis by (simp add: CFI_Append_def)
next
  case False
  with assms(1) have c: "options c = 0" "rangeStart c = []" "rangeEnd c = []"
    by (auto simp: options_ok_def IsRange_options)
  from assms(2) show ?thesis
    unfolding options_ok_def
  proof
    assume "options d = 0 \<and> rangeStart d = [] \<and> rangeEnd d = []"
    with c False assms(3) show ?thesis
      by (simp add: CFI_Append_def CFI_sub_def CFI_Assign_from_def IsRange_options empty_CFI_def Let_def)
  next
    assume "options d = RangeTriplet"
    with c False assms(3) show ?thesis
      by (simp add: CFI_Append_def CFI_sub_def CFI_Assign_from_def IsRange_options empty_CFI_def Let_def)
  qed
qed

theorem cfi_append_sub_witness:
  "\<exists>r. CFI_Append (cfi_of nat_float (Location [sample_step 6, sample_step 4]))
         (cfi_of nat_float (Range [sample_step 2] [sample_step 1] [sample_step 3])) = Inr r \<and>
       CFI_sub r 2 = Inr (cfi_of nat_float (Range [sample_step 2] [sample_step 1] [sample_step 3]))"
  using cfi_append_sub [OF options_ok_cfi_of options_ok_cfi_of, of nat_float
      "Range [sample_step 2] [sample_step 1] [sample_step 3]" nat_float
      "Location [sample_step 6, sample_step 4]"]
  by (simp add: IsRange_options path_comps_def numeral_2_eq_2)

end
