(* ===== verification/Utf_String.thy ===== *)
theory Utf_String
  imports EPUB_Error String_View "HOL-Library.Char_ord"
begin

text \<open>
  \<^verbatim>\<open>ePub3::string\<close> (\<^verbatim>\<open>utilities/utfstring.{h,cpp}\<close>): a \<^verbatim>\<open>std::string\<close> of UTF-8 bytes whose interface counts
  characters.  The conversions between positions in characters and in bytes, and the members that are built on them, are
  modelled on the bytes, for every byte string.  On a string that is a sequence of encoded characters they are shown to work on
  that sequence: sizes, positions, searching, taking and removing parts.  The members that go through the iterators of the
  vendored \<^verbatim>\<open>utf8\<close> library or through the converters to UTF-16 and UTF-32 are not modelled.
\<close>

section \<open>The underlying string\<close>

text \<open>The members of \<^verbatim>\<open>std::string\<close> that the class calls on its bytes.  A count that reaches past the end is cut.\<close>

definition base_find :: "string \<Rightarrow> string \<Rightarrow> nat \<Rightarrow> nat" where
  "base_find s t pos = (if pos \<le> length s then pos_of (scan_up (starts_at t s) pos (Suc (length s - pos))) else npos)"

definition base_rfind :: "string \<Rightarrow> string \<Rightarrow> nat \<Rightarrow> nat" where
  "base_rfind s t pos = pos_of (scan_down (starts_at t s) (Suc (min pos (length s))))"

definition base_substr :: "string \<Rightarrow> nat \<Rightarrow> nat \<Rightarrow> string cxx" where
  "base_substr s pos n = (if pos > length s then Inl (Throws (Out_of_range ''substr'')) else Inr (take n (drop pos s)))"

definition base_replace :: "string \<Rightarrow> nat \<Rightarrow> nat \<Rightarrow> string \<Rightarrow> string cxx" where
  "base_replace s pos n t =
     (if pos > length s then Inl (Throws (Out_of_range ''replace'')) else Inr (take pos s @ t @ drop (pos + n) s))"

definition base_erase :: "string \<Rightarrow> nat \<Rightarrow> nat \<Rightarrow> string cxx" where
  "base_erase s pos n = (if pos > length s then Inl (Throws (Out_of_range ''erase'')) else Inr (take pos s @ drop (pos + n) s))"

definition base_insert :: "string \<Rightarrow> nat \<Rightarrow> string \<Rightarrow> string cxx" where
  "base_insert s pos t = (if pos > length s then Inl (Throws (Out_of_range ''insert'')) else Inr (take pos s @ t @ drop pos s))"

text \<open>Arithmetic of \<^verbatim>\<open>size_type\<close>.\<close>

definition sz_add :: "nat \<Rightarrow> nat \<Rightarrow> nat" where "sz_add a b = (a + b) mod 2 ^ 64"
definition sz_sub :: "nat \<Rightarrow> nat \<Rightarrow> nat" where "sz_sub a b = (a + (2 ^ 64 - b)) mod 2 ^ 64"

section \<open>Characters and bytes\<close>

definition utf8_sizes :: "nat list" where
  "utf8_sizes = replicate 192 1 @ replicate 32 2 @ replicate 16 3 @ replicate 8 4 @ replicate 4 5 @ replicate 2 6 @ replicate 2 1"

definition UTF8CharLen :: "char \<Rightarrow> nat" where
  "UTF8CharLen c = utf8_sizes ! of_char c"

lemma length_utf8_sizes: "length utf8_sizes = 256"
  by (simp add: utf8_sizes_def)

lemma UTF8CharLen_pos [simp]: "0 < UTF8CharLen c"
proof -
  have "of_char c < length utf8_sizes" by (simp add: length_utf8_sizes)
  then have "UTF8CharLen c \<in> set utf8_sizes" unfolding UTF8CharLen_def by (rule nth_mem)
  then show ?thesis by (auto simp: utf8_sizes_def)
qed

text \<open>The loops over the lead bytes: the bytes of the first characters, the characters in the first bytes.  Both stop at the end of
  the string, past which a last character may reach.\<close>

fun bytes_of_chars :: "nat \<Rightarrow> string \<Rightarrow> nat" where
  "bytes_of_chars 0 s = 0"
| "bytes_of_chars (Suc n) [] = 0"
| "bytes_of_chars (Suc n) (c # s) = UTF8CharLen c + bytes_of_chars n (drop (UTF8CharLen c) (c # s))"

function chars_of_bytes :: "nat \<Rightarrow> string \<Rightarrow> nat" where
  "chars_of_bytes n [] = 0"
| "chars_of_bytes n (c # s) =
     (if n = 0 then 0 else Suc (chars_of_bytes (n - UTF8CharLen c) (drop (UTF8CharLen c) (c # s))))"
  by pat_completeness auto
termination
proof (relation "measure (\<lambda>(n, s). length s)")
  fix n c s
  have "length (drop (UTF8CharLen c) (c # s)) < length (c # s)" using UTF8CharLen_pos [of c] by (simp del: UTF8CharLen_pos)
  then show "((n - UTF8CharLen c, drop (UTF8CharLen c) (c # s)), (n, c # s)) \<in> measure (\<lambda>(n, s). length s)"
    by simp
qed simp

definition to_utf32_size :: "string \<Rightarrow> nat \<Rightarrow> nat" where
  "to_utf32_size s n = (if n = npos \<or> n > length s then npos else chars_of_bytes n s)"

definition string_size :: "string \<Rightarrow> nat" where
  "string_size s = to_utf32_size s (length s)"

definition to_byte_size :: "string \<Rightarrow> nat \<Rightarrow> nat" where
  "to_byte_size s n =
     (if n = npos \<or> n > string_size s then npos else if n = string_size s then length s else bytes_of_chars n s)"

text \<open>The overload for a range walks on from the start of the range without looking at the end of the string.\<close>

fun walk :: "nat \<Rightarrow> string \<Rightarrow> nat cxx" where
  "walk 0 s = Inr 0"
| "walk (Suc n) [] = Inl Undefined"
| "walk (Suc n) (c # s) = bind_cxx (walk n (drop (UTF8CharLen c) (c # s))) (\<lambda>r. Inr (UTF8CharLen c + r))"

definition to_byte_size_range :: "string \<Rightarrow> nat \<Rightarrow> nat \<Rightarrow> nat cxx" where
  "to_byte_size_range s b e =
     (if e = npos then Inr npos
      else let r = to_byte_size s b in
        if e = 0 then Inr r
        else if r > length s then Inl Undefined
        else bind_cxx (walk (e - b) (drop r s)) (\<lambda>d. Inr (r + d)))"

definition utf32_distance :: "string \<Rightarrow> nat" where
  "utf32_distance s = bytes_of_chars (length s) s"

text \<open>\<^verbatim>\<open>throw_unless_insertable\<close> steps through a NUL-terminated string.\<close>

definition strlen :: "string \<Rightarrow> nat" where
  "strlen s = length (takeWhile (\<lambda>c. c \<noteq> CHR 0x00) s)"

function land :: "string \<Rightarrow> nat \<Rightarrow> nat \<Rightarrow> nat cxx" where
  "land s t b =
     (if t < b then if t > length s then Inl Undefined else land s (t + UTF8CharLen ((s @ [CHR 0x00]) ! t)) b else Inr t)"
  by pat_completeness auto
termination by (relation "measure (\<lambda>(s, t, b). b - t)") (auto simp: diff_less_mono2)

declare land.simps [simp del]

definition throw_unless_insertable :: "string \<Rightarrow> nat \<Rightarrow> nat \<Rightarrow> unit cxx" where
  "throw_unless_insertable s b e0 =
     (let e = (if e0 = npos then strlen s else e0);
          fail = Inl (Throws (Invalid_argument (''Invalid UTF-8 byte sequence: '' @ takeWhile (\<lambda>c. c \<noteq> CHR 0x00) s))) in
      bind_cxx (land s 0 b) (\<lambda>t. if t > b then fail else
      bind_cxx (land s t e) (\<lambda>t. if t > e then fail else Inr ())))"

section \<open>Members\<close>

definition string_of_part :: "string \<Rightarrow> nat \<Rightarrow> nat \<Rightarrow> string cxx" where
  "string_of_part s i n = bind_cxx (to_byte_size_range s i n) (\<lambda>k. base_substr s (to_byte_size s i) k)"

definition string_of_base_part :: "string \<Rightarrow> nat \<Rightarrow> nat \<Rightarrow> string cxx" where
  "string_of_base_part s i n = bind_cxx (throw_unless_insertable s i n) (\<lambda>_. base_substr s i n)"

definition string_resize :: "string \<Rightarrow> nat \<Rightarrow> string" where
  "string_resize s n = (let sz = string_size s in
     if n > sz then s @ replicate (n - sz) (CHR 0x00)
     else if n < sz then if n = 0 then [] else
       (let newByteSize = bytes_of_chars n s in take newByteSize s @ replicate (newByteSize - length s) (CHR 0x00))
     else s)"

definition string_xmlAt :: "string \<Rightarrow> nat \<Rightarrow> nat cxx" where
  "string_xmlAt s pos =
     (if pos \<ge> string_size s then Inl (Throws (Range_error ''Position beyond size of string.''))
      else let bpos = to_byte_size s pos in
        if bpos \<ge> length s then Inl (Throws (Out_of_range ''at'')) else Inr bpos)"

text \<open>\<open>decode\<close> stands for the conversion of one encoded character to its code point.\<close>

definition string_at :: "(string \<Rightarrow> nat) \<Rightarrow> string \<Rightarrow> nat \<Rightarrow> nat cxx" where
  "string_at decode s pos = bind_cxx (string_xmlAt s pos) (\<lambda>b.
     let n = UTF8CharLen (s ! b) in
     if b + n > length s then Inl Undefined else Inr (decode (take n (drop b s))))"

text \<open>\<^verbatim>\<open>assign(const string&, size_type i, size_type n)\<close>: the end of the range is \<open>n\<close> bytes after the start of the source.\<close>

definition string_assign_part :: "string \<Rightarrow> nat \<Rightarrow> nat \<Rightarrow> string cxx" where
  "string_assign_part src i n =
     (if n > length src then Inl Undefined
      else let p = bytes_of_chars i (take n src) in
        if p > n then Inl Undefined else Inr (drop p (take n src)))"

text \<open>\<open>advance t k\<close> is the byte at which the iterator of the \<^verbatim>\<open>utf8\<close> library arrives after \<open>k\<close> characters of \<open>t\<close>.\<close>

definition string_append_part :: "(string \<Rightarrow> nat \<Rightarrow> nat cxx) \<Rightarrow> string \<Rightarrow> string \<Rightarrow> nat \<Rightarrow> nat \<Rightarrow> string cxx" where
  "string_append_part advance s t i n =
     bind_cxx (advance t i) (\<lambda>b.
       if n = npos then Inr (s @ drop b t)
       else bind_cxx (advance t i) (\<lambda>m. bind_cxx (advance (drop m t) n) (\<lambda>k. Inr (s @ take (m + k - b) (drop b t)))))"

definition string_insert :: "(string \<Rightarrow> nat \<Rightarrow> nat cxx) \<Rightarrow> string \<Rightarrow> nat \<Rightarrow> string \<Rightarrow> nat \<Rightarrow> nat \<Rightarrow> string cxx" where
  "string_insert advance s pos t b e =
     (if b = e then Inr s
      else let bpos = to_byte_size s pos in
        if bpos = npos then string_append_part advance s t b e
        else let bb = to_byte_size t b in
          bind_cxx (to_byte_size_range t b e) (\<lambda>be.
            if bb = npos then Inl (Throws (Range_error ''Position to copy from inserted string out of range''))
            else bind_cxx (base_substr t bb be) (\<lambda>u. base_insert s bpos u)))"

definition string_insert_cstr :: "string \<Rightarrow> nat \<Rightarrow> string \<Rightarrow> nat \<Rightarrow> nat \<Rightarrow> string cxx" where
  "string_insert_cstr s pos t b e =
     bind_cxx (throw_unless_insertable t b e) (\<lambda>_.
       base_insert s (to_byte_size s pos)
         (if e = npos then takeWhile (\<lambda>c. c \<noteq> CHR 0x00) (drop b t) else take (sz_sub e b) (drop b t)))"

definition string_insert_base :: "string \<Rightarrow> nat \<Rightarrow> string \<Rightarrow> nat \<Rightarrow> nat \<Rightarrow> string cxx" where
  "string_insert_base s pos t b e =
     bind_cxx (throw_unless_insertable t b e) (\<lambda>_.
       bind_cxx (base_substr t b e) (\<lambda>u. base_insert s (to_byte_size s pos) u))"

definition string_insert_chars :: "string \<Rightarrow> nat \<Rightarrow> nat \<Rightarrow> char \<Rightarrow> string cxx" where
  "string_insert_chars s pos n c = base_insert s (to_byte_size s pos) (replicate n c)"

definition string_erase :: "string \<Rightarrow> nat \<Rightarrow> nat \<Rightarrow> string cxx" where
  "string_erase s pos n = (let sz = string_size s in
     if pos = 0 \<and> n = npos then Inr []
     else if sz_add pos n > sz then Inl (Throws (Range_error ''Erase range outside string bounds''))
     else if n > 0 then
       if n = npos \<or> sz_add pos n = sz then base_erase s (to_byte_size s pos) npos
       else let bpos = to_byte_size s pos in
         bind_cxx (to_byte_size_range s pos (sz_add pos n)) (\<lambda>bend. base_erase s bpos (sz_sub bend bpos))
     else Inr s)"

definition string_replace :: "string \<Rightarrow> nat \<Rightarrow> nat \<Rightarrow> string \<Rightarrow> string cxx" where
  "string_replace s pos1 n1 t =
     bind_cxx (to_byte_size_range s pos1 (sz_add pos1 n1)) (\<lambda>k. base_replace s (to_byte_size s pos1) k t)"

definition string_substr :: "string \<Rightarrow> nat \<Rightarrow> nat \<Rightarrow> string cxx" where
  "string_substr s pos n =
     (if pos = 0 \<and> n = npos then Inr s
      else if n = npos then base_substr s (to_byte_size s pos) npos
      else let bpos = to_byte_size s pos in
        bind_cxx (to_byte_size_range s pos (sz_add pos n)) (\<lambda>e. base_substr s bpos (sz_sub e bpos)))"

definition string_find :: "string \<Rightarrow> string \<Rightarrow> nat \<Rightarrow> nat" where
  "string_find s t pos = to_utf32_size s (base_find s t (to_byte_size s pos))"

definition string_rfind :: "string \<Rightarrow> string \<Rightarrow> nat \<Rightarrow> nat" where
  "string_rfind s t pos = to_utf32_size s (base_rfind s t (to_byte_size s pos))"

text \<open>\<^verbatim>\<open>std::string::compare\<close>, of which only the sign is specified, orders the bytes as unsigned numbers.\<close>

definition string_compare :: "string \<Rightarrow> string \<Rightarrow> int" where
  "string_compare s t = (if s < t then -1 else if s = t then 0 else 1)"

definition string_compare_part :: "string \<Rightarrow> nat \<Rightarrow> nat \<Rightarrow> string \<Rightarrow> int cxx" where
  "string_compare_part s pos1 n1 t =
     bind_cxx (to_byte_size_range s pos1 (sz_add pos1 n1)) (\<lambda>k.
       bind_cxx (base_substr s (to_byte_size s pos1) k) (\<lambda>u. Inr (string_compare u t)))"

definition string_eq :: "string \<Rightarrow> string \<Rightarrow> bool" where "string_eq s t \<longleftrightarrow> string_compare s t = 0"
definition string_less :: "string \<Rightarrow> string \<Rightarrow> bool" where "string_less s t \<longleftrightarrow> string_compare s t < 0"

section \<open>Sequences of characters\<close>

text \<open>An encoded character: a byte that is not a continuation byte, and as many continuation bytes as it announces.\<close>

definition trail_byte :: "char \<Rightarrow> bool" where
  "trail_byte c \<longleftrightarrow> 128 \<le> (of_char c :: nat) \<and> (of_char c :: nat) < 192"

fun utf8_char :: "string \<Rightarrow> bool" where
  "utf8_char [] = False"
| "utf8_char (c # s) \<longleftrightarrow> \<not> trail_byte c \<and> list_all trail_byte s \<and> Suc (length s) = UTF8CharLen c"

definition utf8_seq :: "string list \<Rightarrow> bool" where
  "utf8_seq cs \<longleftrightarrow> list_all utf8_char cs \<and> length (concat cs) < npos"

definition span_bytes :: "string list \<Rightarrow> nat \<Rightarrow> nat" where
  "span_bytes cs k = length (concat (take k cs))"

lemma utf8_char_length: "utf8_char x \<Longrightarrow> 0 < length x \<and> length x = UTF8CharLen (hd x)"
  by (cases x) auto

lemma list_all_drop: "list_all P xs \<Longrightarrow> list_all P (drop n xs)"
  by (auto simp: list_all_iff dest: in_set_dropD)

lemma utf8_seq_simps [simp]:
  "utf8_seq [] "
  "utf8_seq (c # cs) \<longleftrightarrow> utf8_char c \<and> list_all utf8_char cs \<and> length c + length (concat cs) < npos"
  by (auto simp: utf8_seq_def npos_def)

lemma chars_le_bytes: "list_all utf8_char cs \<Longrightarrow> length cs \<le> length (concat cs)"
proof (induction cs)
  case (Cons x cs)
  then show ?case by (cases x) auto
qed simp

lemma bytes_of_chars_concat: "list_all utf8_char cs \<Longrightarrow> bytes_of_chars k (concat cs) = span_bytes cs k"
proof (induction cs arbitrary: k)
  case (Cons x cs)
  then obtain c r where x: "x = c # r" "UTF8CharLen c = Suc (length r)" by (cases x) auto
  show ?case
  proof (cases k)
    case (Suc j)
    with x Cons show ?thesis by (simp add: span_bytes_def)
  qed (simp add: span_bytes_def)
next
  case Nil then show ?case by (cases k) (simp_all add: span_bytes_def)
qed

lemma chars_of_bytes_concat:
  "list_all utf8_char cs \<Longrightarrow> k \<le> length cs \<Longrightarrow> chars_of_bytes (span_bytes cs k) (concat cs) = k"
proof (induction cs arbitrary: k)
  case (Cons x cs)
  then obtain c r where x: "x = c # r" "UTF8CharLen c = Suc (length r)" by (cases x) auto
  show ?case
  proof (cases k)
    case 0 then show ?thesis by (simp add: span_bytes_def x)
  next
    case (Suc j)
    with x Cons show ?thesis by (simp add: span_bytes_def)
  qed
qed (simp add: span_bytes_def)

lemma span_bytes_all: "span_bytes cs (length cs) = length (concat cs)"
  by (simp add: span_bytes_def)

lemma span_bytes_le: "span_bytes cs k \<le> length (concat cs)"
proof -
  have "concat cs = concat (take k cs) @ concat (drop k cs)" by (simp flip: concat_append)
  then show ?thesis by (simp add: span_bytes_def)
qed

lemma concat_split: "concat cs = concat (take k cs) @ concat (drop k cs)"
  by (simp flip: concat_append)

lemma drop_span: "drop (span_bytes cs k) (concat cs) = concat (drop k cs)"
  by (subst concat_split [of _ k]) (simp add: span_bytes_def)

lemma take_span: "take (span_bytes cs k) (concat cs) = concat (take k cs)"
  by (subst concat_split [of _ k]) (simp add: span_bytes_def)

lemma span_bytes_add: "span_bytes cs (i + j) = span_bytes cs i + span_bytes (drop i cs) j"
  by (simp add: span_bytes_def take_add)

lemma span_bytes_less:
  assumes "list_all utf8_char cs" "i < j" "j \<le> length cs" shows "span_bytes cs i < span_bytes cs j"
proof -
  obtain d where j: "j = i + d" "0 < d" using assms(2) less_imp_add_positive by blast
  have "0 < span_bytes (drop i cs) d"
  proof (cases "drop i cs")
    case (Cons x ys)
    moreover have "utf8_char x" using assms(1) Cons list_all_drop [of utf8_char cs i] by simp
    ultimately show ?thesis using j utf8_char_length [of x] by (cases d) (auto simp: span_bytes_def)
  qed (use assms j in auto)
  with j show ?thesis by (simp add: span_bytes_add)
qed

lemma string_size_concat: "utf8_seq cs \<Longrightarrow> string_size (concat cs) = length cs"
  using chars_of_bytes_concat [of cs "length cs"] by (auto simp: string_size_def to_utf32_size_def utf8_seq_def span_bytes_all)

lemma to_utf32_span:
  assumes "utf8_seq cs" "k \<le> length cs" shows "to_utf32_size (concat cs) (span_bytes cs k) = k"
  using assms chars_of_bytes_concat [of cs k] span_bytes_le [of cs k] by (auto simp: to_utf32_size_def utf8_seq_def)

lemma to_byte_size_concat:
  assumes "utf8_seq cs"
  shows "to_byte_size (concat cs) n = (if n \<le> length cs then span_bytes cs n else npos)"
proof -
  have "length cs < npos" using assms chars_le_bytes [of cs] by (auto simp: utf8_seq_def)
  then show ?thesis using assms bytes_of_chars_concat [of cs n]
    by (auto simp: to_byte_size_def string_size_concat span_bytes_all utf8_seq_def)
qed

lemma walk_concat: "list_all utf8_char cs \<Longrightarrow> k \<le> length cs \<Longrightarrow> walk k (concat cs) = Inr (span_bytes cs k)"
proof (induction cs arbitrary: k)
  case (Cons x cs)
  then obtain c r where x: "x = c # r" "UTF8CharLen c = Suc (length r)" by (cases x) auto
  show ?case
  proof (cases k)
    case (Suc j)
    with x Cons show ?thesis by (simp add: span_bytes_def)
  qed (simp add: span_bytes_def)
qed (simp add: span_bytes_def)

lemma to_byte_size_range_concat:
  assumes "utf8_seq cs" "b \<le> e" "e \<le> length cs" "0 < e"
  shows "to_byte_size_range (concat cs) b e = Inr (span_bytes cs e)"
proof -
  have "e \<noteq> npos" using assms chars_le_bytes [of cs] by (auto simp: utf8_seq_def)
  moreover have "walk (e - b) (concat (drop b cs)) = Inr (span_bytes (drop b cs) (e - b))"
    using assms by (intro walk_concat) (auto simp: utf8_seq_def list_all_drop)
  moreover have "span_bytes cs e = span_bytes cs b + span_bytes (drop b cs) (e - b)"
    using assms by (simp flip: span_bytes_add)
  ultimately show ?thesis using assms span_bytes_le [of cs b]
    by (simp add: to_byte_size_range_def to_byte_size_concat drop_span Let_def)
qed

section \<open>Searching finds characters\<close>

text \<open>Every byte that is not a continuation byte starts a character, and no character is a proper prefix of another.\<close>

lemma lead_byte_starts:
  "list_all utf8_char cs \<Longrightarrow> i < length (concat cs) \<Longrightarrow> \<not> trail_byte (concat cs ! i) \<Longrightarrow> \<exists>k < length cs. i = span_bytes cs k"
proof (induction cs arbitrary: i)
  case (Cons x cs)
  then obtain c r where x: "x = c # r" "list_all trail_byte r" by (cases x) auto
  show ?case
  proof (cases "i < length x")
    case True
    have "i = 0"
    proof (rule ccontr)
      assume "i \<noteq> 0"
      then obtain j where "i = Suc j" by (cases i) auto
      with True x Cons.prems(3) show False by (auto simp: nth_append list_all_length)
    qed
    then show ?thesis by (intro exI [of _ 0]) (simp add: span_bytes_def)
  next
    case False
    then have "i - length x < length (concat cs)" using Cons.prems(2) by simp
    with False Cons.IH [of "i - length x"] Cons.prems obtain k where "k < length cs" "i - length x = span_bytes cs k"
      by (auto simp: nth_append)
    with False show ?thesis by (intro exI [of _ "Suc k"]) (simp add: span_bytes_def)
  qed
qed simp

lemma concat_prefix:
  "list_all utf8_char ds \<Longrightarrow> list_all utf8_char cs \<Longrightarrow> concat cs = concat ds @ r \<Longrightarrow> \<exists>es. cs = ds @ es"
proof (induction ds arbitrary: cs)
  case (Cons d ds)
  obtain c d' where d: "d = c # d'" "Suc (length d') = UTF8CharLen c" using Cons.prems(1) by (cases d) auto
  obtain x cs' where cs: "cs = x # cs'" using Cons.prems(3) d by (cases cs) auto
  obtain y x' where x: "x = y # x'" "Suc (length x') = UTF8CharLen y" using Cons.prems(2) cs by (cases x) auto
  have eq: "x @ concat cs' = d @ concat ds @ r" using Cons.prems(3) cs by simp
  then have "y = c" using x d by simp
  then have "length x = length d" using x d by simp
  with eq have "x = d" "concat cs' = concat ds @ r" by auto
  with Cons.IH [of cs'] Cons.prems cs show ?case by auto
qed simp

lemma starts_at_span:
  assumes "list_all utf8_char ds" "list_all utf8_char cs" "k \<le> length cs"
  shows "starts_at (concat ds) (concat cs) (span_bytes cs k) \<longleftrightarrow> starts_at ds cs k"
proof
  assume "starts_at (concat ds) (concat cs) (span_bytes cs k)"
  then have "take (length (concat ds)) (concat (drop k cs)) = concat ds" by (simp add: starts_at_def drop_span)
  then have "concat (drop k cs) = concat ds @ drop (length (concat ds)) (concat (drop k cs))"
    by (metis append_take_drop_id)
  from concat_prefix [OF assms(1) list_all_drop [OF assms(2)] this]
  obtain es where e: "drop k cs = ds @ es" by blast
  then have "length cs = k + length ds + length es" using assms(3) by (metis add.assoc add_diff_inverse_nat length_append length_drop not_less)
  with e show "starts_at ds cs k" by (simp add: starts_at_def)
next
  assume "starts_at ds cs k"
  then have s: "k + length ds \<le> length cs" "take (length ds) (drop k cs) = ds" by (auto simp: starts_at_def)
  then obtain es where e: "drop k cs = ds @ es" by (metis append_take_drop_id)
  have "length (concat cs) = span_bytes cs k + length (concat (drop k cs))"
    by (subst concat_split [of cs k]) (simp add: span_bytes_def)
  then show "starts_at (concat ds) (concat cs) (span_bytes cs k)"
    using e by (simp add: starts_at_def drop_span)
qed

lemma starts_at_boundary:
  assumes "list_all utf8_char ds" "list_all utf8_char cs" "ds \<noteq> []" "starts_at (concat ds) (concat cs) i"
  shows "\<exists>k < length cs. i = span_bytes cs k \<and> starts_at ds cs k"
proof -
  obtain c d ds' where ds: "ds = (c # d) # ds'" "\<not> trail_byte c"
    using assms(1,3) by (cases ds) (auto elim: utf8_char.elims(2))
  have i: "i < length (concat cs)" and "take (length (concat ds)) (drop i (concat cs)) = concat ds"
    using assms(4) ds by (auto simp: starts_at_def)
  then have "concat cs ! i = c" using ds
    by (metis (no_types, lifting) append_Cons concat.simps(2) hd_drop_conv_nth hd_take length_greater_0_conv list.distinct(1) list.sel(1))
  with lead_byte_starts [OF assms(2) i] ds obtain k where "k < length cs" "i = span_bytes cs k" by auto
  with assms starts_at_span [of ds cs k] show ?thesis by auto
qed

text \<open>Positions of characters and positions of bytes, for the searches.\<close>

lemma to_utf32_npos [simp]: "to_utf32_size s npos = npos"
  by (simp add: to_utf32_size_def)

lemma first_hit_span:
  assumes cs: "utf8_seq cs" and lo: "lo \<le> length cs"
    and hit: "first_hit P (span_bytes cs lo) (Suc (length (concat cs))) r"
    and bd: "\<And>i. P i \<Longrightarrow> \<exists>k \<le> length cs. i = span_bytes cs k \<and> Q k"
    and sp: "\<And>k. k \<le> length cs \<Longrightarrow> Q k \<Longrightarrow> P (span_bytes cs k)"
  shows "first_hit Q lo (Suc (length cs)) (to_utf32_size (concat cs) r)"
proof -
  have u: "list_all utf8_char cs" using cs by (simp add: utf8_seq_def)
  have mono: "span_bytes cs i < span_bytes cs j \<longleftrightarrow> i < j" if "i \<le> length cs" "j \<le> length cs" for i j
    using span_bytes_less [OF u, of i j] span_bytes_less [OF u, of j i] that by (cases i j rule: linorder_cases) auto
  from hit consider
    (found) "span_bytes cs lo \<le> r" "P r" "\<forall>j. span_bytes cs lo \<le> j \<and> j < r \<longrightarrow> \<not> P j"
  | (none) "r = npos" "\<forall>j. span_bytes cs lo \<le> j \<and> j < Suc (length (concat cs)) \<longrightarrow> \<not> P j"
    by (auto simp: first_hit_def)
  then show ?thesis
  proof cases
    case found
    from bd [OF found(2)] obtain k where k: "k \<le> length cs" "r = span_bytes cs k" "Q k" by blast
    have "lo \<le> k" using mono [of k lo] k found(1) lo by (auto simp: not_less [symmetric])
    moreover have "\<not> Q j" if "lo \<le> j" "j < k" for j
    proof
      assume "Q j"
      then have "P (span_bytes cs j)" using sp that k by simp
      moreover have "span_bytes cs j < r" "span_bytes cs lo \<le> span_bytes cs j"
        using mono [of j k] mono [of j lo] that k lo by (auto simp: not_less [symmetric])
      ultimately show False using found(3) by blast
    qed
    ultimately show ?thesis using k to_utf32_span [OF cs k(1)] by (auto simp: first_hit_def)
  next
    case none
    have "\<not> Q j" if "lo \<le> j" "j \<le> length cs" for j
    proof
      assume "Q j"
      then have "P (span_bytes cs j)" using sp that by simp
      moreover have "span_bytes cs lo \<le> span_bytes cs j" using mono [of j lo] that lo by (auto simp: not_less [symmetric])
      ultimately show False using none(2) span_bytes_le [of cs j] by (auto simp: less_Suc_eq_le)
    qed
    then show ?thesis using none(1) by (auto simp: first_hit_def)
  qed
qed

lemma last_hit_span:
  assumes cs: "utf8_seq cs"
    and hit: "last_hit P (Suc m) r" and m: "m = span_bytes cs hi" "hi \<le> length cs"
    and bd: "\<And>i. P i \<Longrightarrow> \<exists>k \<le> length cs. i = span_bytes cs k \<and> Q k"
    and sp: "\<And>k. k \<le> length cs \<Longrightarrow> Q k \<Longrightarrow> P (span_bytes cs k)"
  shows "last_hit Q (Suc hi) (to_utf32_size (concat cs) r)"
proof -
  have u: "list_all utf8_char cs" using cs by (simp add: utf8_seq_def)
  have mono: "span_bytes cs i < span_bytes cs j \<longleftrightarrow> i < j" if "i \<le> length cs" "j \<le> length cs" for i j
    using span_bytes_less [OF u, of i j] span_bytes_less [OF u, of j i] that by (cases i j rule: linorder_cases) auto
  from hit consider
    (found) "r \<le> m" "P r" "\<forall>j. r < j \<and> j \<le> m \<longrightarrow> \<not> P j" | (none) "r = npos" "\<forall>j \<le> m. \<not> P j"
    by (auto simp: last_hit_def less_Suc_eq_le)
  then show ?thesis
  proof cases
    case found
    from bd [OF found(2)] obtain k where k: "k \<le> length cs" "r = span_bytes cs k" "Q k" by blast
    have "k \<le> hi" using mono [of hi k] k found(1) m by (auto simp: not_less [symmetric])
    moreover have "\<not> Q j" if "k < j" "j \<le> hi" for j
    proof
      assume "Q j"
      then have "P (span_bytes cs j)" using sp that m by simp
      moreover have "r < span_bytes cs j" "span_bytes cs j \<le> m"
        using mono [of k j] mono [of hi j] that k m by (auto simp: not_less [symmetric])
      ultimately show False using found(3) by blast
    qed
    ultimately show ?thesis using k to_utf32_span [OF cs k(1)] by (auto simp: last_hit_def less_Suc_eq_le)
  next
    case none
    have "\<not> Q j" if "j \<le> hi" for j
    proof
      assume "Q j"
      then have "P (span_bytes cs j)" using sp that m by simp
      moreover have "span_bytes cs j \<le> m" using mono [of hi j] that m by (auto simp: not_less [symmetric])
      ultimately show False using none(2) by blast
    qed
    then show ?thesis using none(1) by (auto simp: last_hit_def less_Suc_eq_le)
  qed
qed

lemma base_find_hit: "pos \<le> length s \<Longrightarrow> first_hit (starts_at t s) pos (Suc (length s)) (base_find s t pos)"
  using first_hit_scan [of "starts_at t s" pos "Suc (length s - pos)"] by (simp add: base_find_def)

lemma base_rfind_hit: "last_hit (starts_at t s) (Suc (min pos (length s))) (base_rfind s t pos)"
  unfolding base_rfind_def by (rule last_hit_scan)

lemma starts_at_Nil [simp]: "starts_at [] xs i \<longleftrightarrow> i \<le> length xs"
  by (simp add: starts_at_def)

lemma string_find_chars:
  assumes "utf8_seq cs" "utf8_seq ds"
  shows "first_hit (starts_at ds cs) pos (Suc (length cs)) (string_find (concat cs) (concat ds) pos)"
proof (cases "pos \<le> length cs")
  case True
  have u: "list_all utf8_char cs" "list_all utf8_char ds" using assms by (simp_all add: utf8_seq_def)
  have b: "to_byte_size (concat cs) pos = span_bytes cs pos" using True assms(1) by (simp add: to_byte_size_concat)
  show ?thesis
  proof (cases "ds = []")
    case Nil: True
    have "base_find (concat cs) [] (span_bytes cs pos) = span_bytes cs pos"
      using span_bytes_le [of cs pos] by (simp add: base_find_def pos_of_def)
    then show ?thesis using True Nil assms(1) b by (simp add: string_find_def to_utf32_span first_hit_def)
  next
    case False
    show ?thesis unfolding string_find_def b
    proof (rule first_hit_span [OF assms(1) True base_find_hit [OF span_bytes_le]])
      show "\<exists>k \<le> length cs. i = span_bytes cs k \<and> starts_at ds cs k" if "starts_at (concat ds) (concat cs) i" for i
        using starts_at_boundary [OF u(2,1) False that] by (auto intro: less_imp_le)
    qed (simp add: starts_at_span u)
  qed
next
  case False
  then have "\<not> (npos \<le> length (concat cs))" using assms by (simp add: utf8_seq_def)
  with False show ?thesis using assms(1)
    by (auto simp: string_find_def to_byte_size_concat base_find_def first_hit_def starts_at_def)
qed

lemma string_rfind_chars:
  assumes "utf8_seq cs" "utf8_seq ds"
  shows "last_hit (starts_at ds cs) (Suc (min pos (length cs))) (string_rfind (concat cs) (concat ds) pos)"
proof -
  have u: "list_all utf8_char cs" "list_all utf8_char ds" using assms by (simp_all add: utf8_seq_def)
  have m: "min (to_byte_size (concat cs) pos) (length (concat cs)) = span_bytes cs (min pos (length cs))"
    using assms(1) span_bytes_le [of cs pos]
    by (auto simp: to_byte_size_concat min_def span_bytes_def utf8_seq_def)
  note hit = base_rfind_hit [of "concat ds" "concat cs" "to_byte_size (concat cs) pos", unfolded m]
  show ?thesis
  proof (cases "ds = []")
    case Nil: True
    have "base_rfind (concat cs) [] (to_byte_size (concat cs) pos) = span_bytes cs (min pos (length cs))"
      unfolding base_rfind_def m using span_bytes_le [of cs "min pos (length cs)"] by (simp add: pos_of_def)
    then show ?thesis using Nil assms(1) by (simp add: string_rfind_def to_utf32_span last_hit_def)
  next
    case False
    show ?thesis unfolding string_rfind_def
    proof (rule last_hit_span [OF assms(1) hit refl])
      show "\<exists>k \<le> length cs. i = span_bytes cs k \<and> starts_at ds cs k" if "starts_at (concat ds) (concat cs) i" for i
        using starts_at_boundary [OF u(2,1) False that] by (auto intro: less_imp_le)
    qed (simp_all add: starts_at_span u)
  qed
qed

section \<open>Parts of a string\<close>

lemma utf8_seq_small: "utf8_seq cs \<Longrightarrow> k \<le> length cs \<Longrightarrow> k < npos \<and> span_bytes cs k < npos"
  using chars_le_bytes [of cs] span_bytes_le [of cs k] by (auto simp: utf8_seq_def)

lemma sz_add_small: "a + b < npos \<Longrightarrow> sz_add a b = a + b"
  by (simp add: sz_add_def npos_def)

lemma sz_sub_small: "b \<le> a \<Longrightarrow> a < npos \<Longrightarrow> sz_sub a b = a - b"
proof -
  assume a: "b \<le> a" "a < npos"
  then have "a + (2 ^ 64 - b) = (a - b) + 2 ^ 64" by (simp add: npos_def)
  then have "sz_sub a b = (a - b) mod 2 ^ 64" by (simp add: sz_sub_def)
  with a show ?thesis by (simp add: npos_def)
qed

lemma range_offset:
  assumes "utf8_seq cs" "pos + n \<le> length cs"
  shows "to_byte_size_range (concat cs) pos (sz_add pos n) = Inr (span_bytes cs (pos + n))"
proof -
  have e: "sz_add pos n = pos + n" using utf8_seq_small [OF assms] by (simp add: sz_add_small)
  show ?thesis
  proof (cases "pos + n = 0")
    case True
    then show ?thesis using assms e by (simp add: to_byte_size_range_def to_byte_size_concat npos_def)
  qed (use assms e in \<open>simp add: to_byte_size_range_concat\<close>)
qed

lemma span_offset:
  assumes "utf8_seq cs" "pos + n \<le> length cs"
  shows "sz_sub (span_bytes cs (pos + n)) (span_bytes cs pos) = span_bytes (drop pos cs) n"
  using utf8_seq_small [OF assms] by (simp add: sz_sub_small span_bytes_add)

lemma string_substr_chars:
  assumes "utf8_seq cs" "pos + n \<le> length cs"
  shows "string_substr (concat cs) pos n = Inr (concat (take n (drop pos cs)))"
proof -
  have "n < npos" using utf8_seq_small [OF assms] by simp
  then show ?thesis using assms span_bytes_le [of cs pos]
    by (simp add: string_substr_def range_offset span_offset to_byte_size_concat base_substr_def drop_span take_span Let_def)
qed

lemma string_substr_from_chars:
  assumes "utf8_seq cs" "pos \<le> length cs"
  shows "string_substr (concat cs) pos npos = Inr (concat (drop pos cs))"
proof -
  have "length (concat (drop pos cs)) < npos"
    using assms(1) concat_split [of cs pos] by (metis (no_types, lifting) add_lessD1 length_append nat_add_left_cancel_less add.commute utf8_seq_def)
  then show ?thesis using assms span_bytes_le [of cs pos]
    by (simp add: string_substr_def to_byte_size_concat base_substr_def drop_span)
qed

lemma string_erase_chars:
  assumes "utf8_seq cs" "pos + n \<le> length cs"
  shows "string_erase (concat cs) pos n = Inr (concat (take pos cs @ drop (pos + n) cs))"
proof -
  have n: "n < npos" "pos + n < npos" using utf8_seq_small [OF assms] by simp_all
  have add: "span_bytes cs pos + span_bytes (drop pos cs) n = span_bytes cs (pos + n)" by (simp add: span_bytes_add)
  show ?thesis
  proof (cases "n = 0")
    case True
    then show ?thesis using assms n by (simp add: string_erase_def sz_add_small string_size_concat npos_def Let_def flip: concat_append)
  next
    case False
    show ?thesis
    proof (cases "pos + n = length cs")
      case True
      have "drop (span_bytes cs pos + npos) (concat cs) = []" using assms(1) by (simp add: utf8_seq_def)
      with True False assms n span_bytes_le [of cs pos] show ?thesis
        by (simp add: string_erase_def sz_add_small string_size_concat to_byte_size_concat base_erase_def take_span Let_def)
    next
      case ne: False
      with False assms n span_bytes_le [of cs pos] show ?thesis
        by (simp add: string_erase_def sz_add_small string_size_concat to_byte_size_concat base_erase_def take_span
            range_offset [OF assms, unfolded sz_add_small [OF n(2)]] span_offset add drop_span Let_def)
    qed
  qed
qed

lemma string_insert_at_chars:
  assumes "utf8_seq cs" "utf8_seq ds" "pos \<le> length cs"
  shows "string_insert advance (concat cs) pos (concat ds) 0 npos = Inr (concat (take pos cs @ ds @ drop pos cs))"
proof -
  have "length (concat ds) < npos" using assms(2) by (simp add: utf8_seq_def)
  moreover have "span_bytes cs pos < npos" using utf8_seq_small assms by blast
  moreover have "(0::nat) < npos" by (simp add: npos_def)
  ultimately show ?thesis using assms span_bytes_le [of cs pos]
    by (simp add: string_insert_def to_byte_size_concat to_byte_size_range_def base_substr_def base_insert_def
        take_span drop_span Let_def span_bytes_def [of _ 0])
qed

lemma string_resize_chars:
  assumes "utf8_seq cs" "n \<le> length cs"
  shows "string_resize (concat cs) n = concat (take n cs)"
  using assms span_bytes_le [of cs n]
  by (auto simp: string_resize_def string_size_concat bytes_of_chars_concat utf8_seq_def take_span Let_def)

lemma string_at_chars:
  assumes "utf8_seq cs" "pos < length cs"
  shows "string_at decode (concat cs) pos = Inr (decode (cs ! pos))"
proof -
  have u: "utf8_char (cs ! pos)" using assms by (auto simp: utf8_seq_def list_all_length)
  then obtain c r where x: "cs ! pos = c # r" "UTF8CharLen c = length (c # r)" by (cases "cs ! pos") auto
  have d: "drop (span_bytes cs pos) (concat cs) = (c # r) @ concat (drop (Suc pos) cs)"
    using assms x by (simp add: drop_span flip: Cons_nth_drop_Suc)
  have "length (concat cs) = span_bytes cs pos + length (drop (span_bytes cs pos) (concat cs))"
    using span_bytes_le [of cs pos] by simp
  then have "span_bytes cs pos + length (c # r) \<le> length (concat cs)" by (simp only: d length_append)
  moreover have "concat cs ! span_bytes cs pos = c" using nth_via_drop [OF d [simplified]] by simp
  ultimately show ?thesis using assms x d
    by (simp add: string_at_def string_xmlAt_def string_size_concat to_byte_size_concat Let_def)
qed

section \<open>Properties\<close>

text \<open>C13: on strings made of encoded characters the class works on the sequences of characters: \<^verbatim>\<open>size\<close> counts them,
  \<^verbatim>\<open>find\<close> and \<^verbatim>\<open>rfind\<close> return the position of the first occurrence from \<open>pos\<close> on and of the last one up to \<open>pos\<close>, and
  \<^verbatim>\<open>substr\<close>, \<^verbatim>\<open>erase\<close>, \<^verbatim>\<open>insert\<close> and \<^verbatim>\<open>resize\<close> take, remove, add and keep whole characters, for all positions in the string.\<close>

theorem utf8_string_refines:
  assumes "utf8_seq cs" and "utf8_seq ds"
  shows "string_size (concat cs) = length cs
    \<and> first_hit (starts_at ds cs) pos (Suc (length cs)) (string_find (concat cs) (concat ds) pos)
    \<and> last_hit (starts_at ds cs) (Suc (min pos (length cs))) (string_rfind (concat cs) (concat ds) pos)
    \<and> (pos + n \<le> length cs \<longrightarrow> string_substr (concat cs) pos n = Inr (concat (take n (drop pos cs))))
    \<and> (pos \<le> length cs \<longrightarrow> string_substr (concat cs) pos npos = Inr (concat (drop pos cs)))
    \<and> (pos + n \<le> length cs \<longrightarrow> string_erase (concat cs) pos n = Inr (concat (take pos cs @ drop (pos + n) cs)))
    \<and> (pos \<le> length cs \<longrightarrow>
         string_insert advance (concat cs) pos (concat ds) 0 npos = Inr (concat (take pos cs @ ds @ drop pos cs)))
    \<and> (n \<le> length cs \<longrightarrow> string_resize (concat cs) n = concat (take n cs))"
  using assms string_find_chars [OF assms, of pos] string_rfind_chars [OF assms, of pos]
    string_size_concat [OF assms(1)] string_substr_chars [OF assms(1)] string_substr_from_chars [OF assms(1)]
    string_erase_chars [OF assms(1)] string_insert_at_chars [OF assms] string_resize_chars [OF assms(1)]
  by blast

definition sample_chars :: "string list" where
  "sample_chars = [[CHR 0xC3, CHR 0xA9], [CHR ''a''], [CHR 0xE2, CHR 0x82, CHR 0xAC], [CHR ''a'']]"

lemma sample_chars_seq: "utf8_seq sample_chars"
  by (simp add: sample_chars_def npos_def trail_byte_def UTF8CharLen_def utf8_sizes_def nth_append)

theorem utf8_string_refines_witness:
  "string_size (concat sample_chars) = 4
   \<and> last_hit (starts_at [[CHR ''a'']] sample_chars) 3 (string_rfind (concat sample_chars) ''a'' 2)
   \<and> string_substr (concat sample_chars) 2 1 = Inr [CHR 0xE2, CHR 0x82, CHR 0xAC]
   \<and> string_erase (concat sample_chars) 1 2 = Inr [CHR 0xC3, CHR 0xA9, CHR ''a'']"
proof -
  have a: "utf8_seq [[CHR ''a'']]"
    by (simp add: npos_def trail_byte_def UTF8CharLen_def utf8_sizes_def nth_append)
  show ?thesis
    using utf8_string_refines [OF sample_chars_seq a, of 2 1 "\<lambda>t k. Inr (bytes_of_chars k t)"]
      utf8_string_refines [OF sample_chars_seq a, of 1 2 "\<lambda>t k. Inr (bytes_of_chars k t)"]
    by (simp add: sample_chars_def eval_nat_numeral)
qed

text \<open>\<^verbatim>\<open>replace\<close> passes the end of the range where \<^verbatim>\<open>std::string::replace\<close> takes a count, so that away from the start of the string
  it removes more than asked; \<^verbatim>\<open>substr\<close> with a count that reaches past the end reads past it.\<close>

lemma string_replace_removes_to:
  assumes "utf8_seq cs" "pos + n \<le> length cs"
  shows "string_replace (concat cs) pos n t =
     Inr (concat (take pos cs) @ t @ drop (span_bytes cs pos + span_bytes cs (pos + n)) (concat cs))"
  using assms span_bytes_le [of cs pos]
  by (simp add: string_replace_def range_offset to_byte_size_concat base_replace_def take_span)

lemma string_replace_example: "string_replace ''abc'' 1 1 ''X'' = Inr ''aX''"
proof -
  have "utf8_seq [''a'', ''b'', ''c'']"
    by (simp add: npos_def trail_byte_def UTF8CharLen_def utf8_sizes_def nth_append)
  from string_replace_removes_to [OF this, of 1 1 "''X''"] show ?thesis by (simp add: span_bytes_def numeral_2_eq_2)
qed

lemma string_substr_past_end:
  assumes "utf8_seq cs" "pos \<le> length cs" "length cs < pos + n" "pos + n < npos"
  shows "string_substr (concat cs) pos n = Inl Undefined"
proof -
  have stuck: "walk k (concat xs) = Inl Undefined" if "list_all utf8_char xs" "length xs < k" for k xs
    using that
  proof (induction xs arbitrary: k)
    case Nil then show ?case by (cases k) simp_all
  next
    case (Cons x xs)
    then obtain c r where "x = c # r" "UTF8CharLen c = Suc (length r)" by (cases x) auto
    with Cons show ?case by (cases k) simp_all
  qed
  have "walk n (concat (drop pos cs)) = Inl Undefined"
    using assms by (intro stuck) (auto simp: utf8_seq_def list_all_drop)
  then show ?thesis using assms span_bytes_le [of cs pos]
    by (simp add: string_substr_def to_byte_size_range_def sz_add_small to_byte_size_concat drop_span Let_def)
qed

text \<open>With its default count \<^verbatim>\<open>assign\<close> of a part has no defined result.\<close>

lemma string_assign_part_default: "length src < npos \<Longrightarrow> string_assign_part src i npos = Inl Undefined"
  by (simp add: string_assign_part_def)

end
