(* ===== verification/Iri.thy ===== *)
theory Iri
  imports Cfi Utf_String
begin

text \<open>
  \<^verbatim>\<open>ePub3::IRI\<close> (\<^verbatim>\<open>utilities/iri.{h,cpp}\<close>): the components of a URN, a URL of the vendored google-url library, and the text the
  IRI was made from.  The URL library is a parameter, a record of the operations that the class calls; so are the conversions of
  host names and of escape sequences.  The text is kept up to date with the members of \<^verbatim>\<open>ePub3::string\<close>.
\<close>

section \<open>The URL library\<close>

datatype url_part = Scheme_part | Host_part | Port_part | Username_part | Password_part | Path_part | Query_part | Ref_part

text \<open>\<open>g_replace\<close> is \<^verbatim>\<open>ReplaceComponentsInline\<close> with some components set; the component of an empty string has length -1, which
  removes it (\<open>None\<close>).  Equality and order of URLs are those of their texts, which \<open>g_possibly_invalid\<close> gives for invalid ones too.\<close>

record 'g gurl =
  g_of_string :: "string \<Rightarrow> 'g"
  g_none :: 'g
  g_is_valid :: "'g \<Rightarrow> bool"
  g_possibly_invalid :: "'g \<Rightarrow> string"
  g_spec :: "'g \<Rightarrow> string"
  g_part :: "url_part \<Rightarrow> 'g \<Rightarrow> string"
  g_has :: "url_part \<Rightarrow> 'g \<Rightarrow> bool"
  g_port :: "'g \<Rightarrow> int"
  g_file_name :: "'g \<Rightarrow> string"
  g_replace :: "(url_part \<times> string option) list \<Rightarrow> 'g \<Rightarrow> 'g"

text \<open>How the library writes a fragment (\<^verbatim>\<open>DoCanonicalizeRef\<close>): zero bytes are dropped, control characters escaped, other
  ASCII characters kept.  \<open>ReadUTFChar\<close> gives the encoding of the character that is read at a non-ASCII byte, or of the replacement
  character, and the number of bytes read after the first.\<close>

definition kHexCharLookup :: string where "kHexCharLookup = ''0123456789ABCDEF''"

definition AppendEscapedChar :: "char \<Rightarrow> string" where
  "AppendEscapedChar ch = (let n = of_char ch in [CHR 0x25, kHexCharLookup ! (n div 16 mod 16), kHexCharLookup ! (n mod 16)])"

fun canon_ref :: "(string \<Rightarrow> string \<times> nat) \<Rightarrow> string \<Rightarrow> string" where
  "canon_ref ReadUTFChar [] = []"
| "canon_ref ReadUTFChar (c # s) =
     (let n = (of_char c :: nat) in
      if n = 0 then canon_ref ReadUTFChar s
      else if n < 0x20 then AppendEscapedChar c @ canon_ref ReadUTFChar s
      else if n < 0x80 then c # canon_ref ReadUTFChar s
      else (case ReadUTFChar (c # s) of (enc, k) \<Rightarrow> enc @ canon_ref ReadUTFChar (drop k s)))"

definition kStandardURLSchemes :: "string list" where
  "kStandardURLSchemes =
     [''http'', ''https'', ''file'', ''ftp'', ''gopher'', ''ws'', ''wss'', ''filesystem'', ''epub3'']"

text \<open>What is used of replacing a fragment: a valid URL of a standard scheme gets the canonical form of the new fragment.
  (URLs of other schemes have no fragment: \<^verbatim>\<open>url_canon_pathurl.cc\<close>, \<^verbatim>\<open>url_canon_mailtourl.cc\<close>.)  The length of a component
  is an \<^verbatim>\<open>int\<close>.\<close>

definition standard_urls_take_refs :: "'g gurl \<Rightarrow> (string \<Rightarrow> string \<times> nat) \<Rightarrow> bool" where
  "standard_urls_take_refs G ReadUTFChar \<longleftrightarrow>
     (\<forall>u t. g_is_valid G u \<and> g_part G Scheme_part u \<in> set kStandardURLSchemes \<and> t \<noteq> [] \<and> length t < 2 ^ 31 \<longrightarrow>
        g_has G Ref_part (g_replace G [(Ref_part, Some t)] u)
        \<and> g_part G Ref_part (g_replace G [(Ref_part, Some t)] u) = canon_ref ReadUTFChar t)"

definition printable :: "char \<Rightarrow> bool" where
  "printable c \<longleftrightarrow> 0x20 \<le> (of_char c :: nat) \<and> (of_char c :: nat) < 0x80"

definition ComponentForString :: "string \<Rightarrow> string option" where
  "ComponentForString str = (if str = [] then None else Some str)"

section \<open>The class\<close>

text \<open>\<^verbatim>\<open>_url\<close> is null in an IRI that was moved from.\<close>

record 'g IRI =
  urnComponents :: "string list"
  iri_url :: "'g option"
  pureIRI :: string

definition gURNScheme :: string where "gURNScheme = ''urn''"

definition IRI_empty :: "'g gurl \<Rightarrow> 'g IRI" where
  "IRI_empty G = \<lparr>urnComponents = [], iri_url = Some (g_none G), pureIRI = []\<rparr>"

text \<open>\<^verbatim>\<open>split\<close> by the expression \<open>:\<close>; an empty last piece is not reported.\<close>

fun pieces :: "char \<Rightarrow> string \<Rightarrow> string list" where
  "pieces d [] = [[]]"
| "pieces d (c # s) = (if c = d then [] # pieces d s else (case pieces d s of p # ps \<Rightarrow> (c # p) # ps | [] \<Rightarrow> [[c]]))"

definition string_split :: "char \<Rightarrow> string \<Rightarrow> string list" where
  "string_split d s = (let ps = pieces d s in if last ps = [] then butlast ps else ps)"

definition urn_of_string :: "string \<Rightarrow> string list option" where
  "urn_of_string s =
     (if string_find s ''urn:'' 0 = 0
      then (case string_split CHR '':'' s of [_, a, b] \<Rightarrow> Some [gURNScheme, a, b] | _ \<Rightarrow> None) else None)"

definition IRI_of_string :: "'g gurl \<Rightarrow> string \<Rightarrow> 'g IRI" where
  "IRI_of_string G iriStr =
     \<lparr>urnComponents = (case urn_of_string iriStr of Some cs \<Rightarrow> cs | None \<Rightarrow> []),
      iri_url = Some (g_of_string G iriStr), pureIRI = iriStr\<rparr>"

definition IRI_of_urn :: "'g gurl \<Rightarrow> string \<Rightarrow> string \<Rightarrow> 'g IRI" where
  "IRI_of_urn G nameID namespacedString = (let pure = ''urn:'' @ nameID @ '':'' @ namespacedString in
     \<lparr>urnComponents = [gURNScheme, nameID, namespacedString], iri_url = Some (g_of_string G pure), pureIRI = pure\<rparr>)"

definition IRI_of_parts :: "'g gurl \<Rightarrow> string \<Rightarrow> string \<Rightarrow> string \<Rightarrow> string \<Rightarrow> string \<Rightarrow> 'g IRI" where
  "IRI_of_parts G scheme host path query fragment =
     (let p0 = scheme @ ''://'' @ host;
          p1 = (if path = [] then p0 @ ''/'' else if string_find path ''/'' 0 \<noteq> 0 then p0 @ ''/'' @ path else p0 @ path);
          p2 = (if query \<noteq> [] then p1 @ ''?'' @ query else p1);
          p3 = (if fragment \<noteq> [] then p2 @ ''#'' @ fragment else p2) in
      \<lparr>urnComponents = [], iri_url = Some (g_of_string G p3), pureIRI = p3\<rparr>)"

text \<open>Copying dereferences the URL of the source; moving leaves the source without one.\<close>

definition IRI_copy :: "'g IRI \<Rightarrow> 'g IRI cxx" where
  "IRI_copy x = bind_cxx (must (iri_url x)) (\<lambda>_. Inr x)"

definition IRI_move :: "'g IRI \<Rightarrow> 'g IRI \<times> 'g IRI" where
  "IRI_move x = (x, \<lparr>urnComponents = [], iri_url = None, pureIRI = []\<rparr>)"

text \<open>Assigning a string appends the components of a URN to those that are there, and throws when the URL is not valid.\<close>

definition IRI_assign_string :: "'g gurl \<Rightarrow> 'g IRI \<Rightarrow> string \<Rightarrow> 'g IRI cxx" where
  "IRI_assign_string G x str =
     (let urn = urn_of_string str; newURL = g_of_string G str in
      if \<not> g_is_valid G newURL \<and> urn = None
      then Inl (Throws (Invalid_argument (''IRI: '' @ CHR 0x27 # str @ CHR 0x27 # '' is not a valid URL string.'')))
      else Inr \<lparr>urnComponents = (case urn of Some cs \<Rightarrow> urnComponents x @ cs | None \<Rightarrow> []),
                iri_url = Some newURL, pureIRI = str\<rparr>)"

definition IsURN :: "'g IRI \<Rightarrow> bool" where
  "IsURN x \<longleftrightarrow> length (urnComponents x) > 1"

definition IRI_eq :: "'g gurl \<Rightarrow> 'g IRI \<Rightarrow> 'g IRI \<Rightarrow> bool" where
  "IRI_eq G x y =
     (if IsURN x then urnComponents x = urnComponents y
      else case (iri_url x, iri_url y) of
        (Some u, Some v) \<Rightarrow> g_possibly_invalid G u = g_possibly_invalid G v
      | _ \<Rightarrow> False)"

definition IRI_ne :: "'g gurl \<Rightarrow> 'g IRI \<Rightarrow> 'g IRI \<Rightarrow> bool cxx" where
  "IRI_ne G x y =
     (if IsURN x then Inr (urnComponents x \<noteq> urnComponents y)
      else bind_cxx (must (iri_url x)) (\<lambda>u. bind_cxx (must (iri_url y)) (\<lambda>v.
        Inr (g_possibly_invalid G u \<noteq> g_possibly_invalid G v))))"

definition IRI_less :: "'g gurl \<Rightarrow> 'g IRI \<Rightarrow> 'g IRI \<Rightarrow> bool cxx" where
  "IRI_less G x y =
     (if IsURN x then Inr (urnComponents x < urnComponents y)
      else bind_cxx (must (iri_url x)) (\<lambda>u. bind_cxx (must (iri_url y)) (\<lambda>v.
        Inr (g_possibly_invalid G u < g_possibly_invalid G v))))"

text \<open>The getters.\<close>

definition on_url :: "('g \<Rightarrow> 'a) \<Rightarrow> 'g IRI \<Rightarrow> 'a cxx" where
  "on_url f x = bind_cxx (must (iri_url x)) (\<lambda>u. Inr (f u))"

definition IRI_IsRelative :: "'g gurl \<Rightarrow> 'g IRI \<Rightarrow> bool cxx" where
  "IRI_IsRelative G = on_url (\<lambda>u. \<not> g_has G Host_part u)"

definition IRI_IsEmpty :: "'g gurl \<Rightarrow> 'g IRI \<Rightarrow> bool cxx" where
  "IRI_IsEmpty G = on_url (\<lambda>u. g_possibly_invalid G u = [])"

definition IRI_Scheme :: "'g gurl \<Rightarrow> 'g IRI \<Rightarrow> string cxx" where
  "IRI_Scheme G x = (if IsURN x then Inr (urnComponents x ! 0) else on_url (g_part G Scheme_part) x)"

definition IRI_NameID :: "'g IRI \<Rightarrow> string cxx" where
  "IRI_NameID x = (if \<not> IsURN x then Inl (Throws (Invalid_argument ''Not a URN'')) else Inr (urnComponents x ! 1))"

definition IRI_NamespacedString :: "'g IRI \<Rightarrow> string cxx" where
  "IRI_NamespacedString x =
     (if \<not> IsURN x then Inl (Throws (Invalid_argument ''Not a URN'')) else elem_at (urnComponents x) 2)"

definition IRI_Host :: "'g gurl \<Rightarrow> 'g IRI \<Rightarrow> string cxx" where
  "IRI_Host G = on_url (g_part G Host_part)"

definition IRI_Credentials :: "'g gurl \<Rightarrow> 'g IRI \<Rightarrow> (string \<times> string) cxx" where
  "IRI_Credentials G = on_url (\<lambda>u.
     (if g_has G Username_part u then g_part G Username_part u else [],
      if g_has G Password_part u then g_part G Password_part u else []))"

definition IRI_Port :: "'g gurl \<Rightarrow> 'g IRI \<Rightarrow> int cxx" where
  "IRI_Port G = on_url (g_port G)"

definition IRI_Path :: "'g gurl \<Rightarrow> (string \<Rightarrow> string) \<Rightarrow> bool \<Rightarrow> 'g IRI \<Rightarrow> string cxx" where
  "IRI_Path G DecodeURLEscapeSequences urlEncoded = on_url (\<lambda>u.
     let encodedPath = g_part G Path_part u in
     if urlEncoded then encodedPath else DecodeURLEscapeSequences encodedPath)"

definition IRI_Query :: "'g gurl \<Rightarrow> 'g IRI \<Rightarrow> string cxx" where
  "IRI_Query G = on_url (g_part G Query_part)"

definition IRI_Fragment :: "'g gurl \<Rightarrow> 'g IRI \<Rightarrow> string cxx" where
  "IRI_Fragment G = on_url (g_part G Ref_part)"

definition IRI_LastPathComponent :: "'g gurl \<Rightarrow> 'g IRI \<Rightarrow> string cxx" where
  "IRI_LastPathComponent G = on_url (g_file_name G)"

definition IRI_URIString :: "'g gurl \<Rightarrow> 'g IRI \<Rightarrow> string" where
  "IRI_URIString G x = (case iri_url x of None \<Rightarrow> [] | Some u \<Rightarrow> g_spec G u)"

text \<open>\<open>IDNToUnicode\<close> is the conversion of a host name, None when it fails.\<close>

definition IRI_IRIString :: "'g gurl \<Rightarrow> (string \<Rightarrow> string option) \<Rightarrow> 'g IRI \<Rightarrow> string cxx" where
  "IRI_IRIString G IDNToUnicode x =
     (if pureIRI x \<noteq> [] then Inr (pureIRI x)
      else case iri_url x of
        None \<Rightarrow> Inr []
      | Some u \<Rightarrow>
          let uri = IRI_URIString G x; plainHost = g_part G Host_part u in
          (case IDNToUnicode plainHost of
             None \<Rightarrow> Inr uri
           | Some h \<Rightarrow>
               if h = plainHost then Inr uri
               else let pos = string_find uri plainHost 0 in
                 if pos \<noteq> npos then string_replace uri pos (length plainHost) h else Inr uri))"

definition IRI_ContentFragmentIdentifier :: "'g gurl \<Rightarrow> 'f float_lib \<Rightarrow> handler \<Rightarrow> 'g IRI \<Rightarrow> 'f CFI run" where
  "IRI_ContentFragmentIdentifier G fl h x =
     (case iri_url x of
        None \<Rightarrow> Some (Inl Undefined)
      | Some u \<Rightarrow>
          if \<not> g_has G Ref_part u then Some (Inr empty_CFI)
          else let ref = g_part G Ref_part u in
            if string_find ref ''epubcfi('' 0 \<noteq> 0 then Some (Inr empty_CFI) else CFI_of_string fl h ref)"

section \<open>Setting components\<close>

definition set_part :: "'g gurl \<Rightarrow> (url_part \<times> string option) list \<Rightarrow> 'g IRI \<Rightarrow> 'g IRI cxx" where
  "set_part G rep x = bind_cxx (must (iri_url x)) (\<lambda>u. Inr (x\<lparr>iri_url := Some (g_replace G rep u)\<rparr>))"

definition forget_text :: "'g IRI \<Rightarrow> 'g IRI" where
  "forget_text x = x\<lparr>pureIRI := []\<rparr>"

definition IRI_SetScheme :: "'g gurl \<Rightarrow> 'g IRI \<Rightarrow> string \<Rightarrow> 'g IRI cxx" where
  "IRI_SetScheme G x scheme = bind_cxx (set_part G [(Scheme_part, ComponentForString scheme)] x) (Inr \<circ> forget_text)"

definition IRI_SetHost :: "'g gurl \<Rightarrow> 'g IRI \<Rightarrow> string \<Rightarrow> 'g IRI cxx" where
  "IRI_SetHost G x host = bind_cxx (set_part G [(Host_part, ComponentForString host)] x) (Inr \<circ> forget_text)"

definition IRI_SetPort :: "'g gurl \<Rightarrow> 'g IRI \<Rightarrow> u16 \<Rightarrow> 'g IRI cxx" where
  "IRI_SetPort G x port = bind_cxx (set_part G [(Port_part, Some (dec (unat port)))] x) (Inr \<circ> forget_text)"

definition IRI_SetCredentials :: "'g gurl \<Rightarrow> 'g IRI \<Rightarrow> string \<Rightarrow> string \<Rightarrow> 'g IRI cxx" where
  "IRI_SetCredentials G x user pass =
     bind_cxx (set_part G [(Username_part, ComponentForString user), (Password_part, ComponentForString pass)] x)
       (Inr \<circ> forget_text)"

text \<open>An empty path has no last character to look at.\<close>

definition IRI_AddPathComponent :: "'g gurl \<Rightarrow> (string \<Rightarrow> nat) \<Rightarrow> 'g IRI \<Rightarrow> string \<Rightarrow> 'g IRI cxx" where
  "IRI_AddPathComponent G decode x component =
     bind_cxx (must (iri_url x)) (\<lambda>u.
     let path = g_part G Path_part u in
     if path = [] then Inl Undefined
     else let path' = (if last path \<noteq> CHR ''/'' then path @ ''/'' else path) @ component in
       bind_cxx (set_part G [(Path_part, Some path')] x) (\<lambda>y.
       bind_cxx (must (iri_url y)) (\<lambda>v.
       if pureIRI y \<noteq> [] \<and> \<not> g_has G Query_part v \<and> \<not> g_has G Ref_part v
       then bind_cxx (string_at decode (pureIRI y) (sz_sub (string_size (pureIRI y)) 1)) (\<lambda>c.
         Inr (y\<lparr>pureIRI := (if c \<noteq> of_char CHR ''/'' then pureIRI y @ ''/'' else pureIRI y) @ component\<rparr>))
       else Inr (forget_text y))))"

definition IRI_SetQuery :: "'g gurl \<Rightarrow> (string \<Rightarrow> nat \<Rightarrow> nat cxx) \<Rightarrow> 'g IRI \<Rightarrow> string \<Rightarrow> 'g IRI cxx" where
  "IRI_SetQuery G advance x query =
     bind_cxx (set_part G [(Query_part, ComponentForString query)] x) (\<lambda>y.
     let pure = pureIRI y in
     if pure = [] then Inr y
     else bind_cxx
       (let pos = string_find pure ''?'' 0 in
        if pos \<noteq> npos
        then let e = string_rfind pure ''#'' npos in
          string_replace pure (pos + 1) (if e = npos then npos else sz_sub e pos) query
        else let pos = string_rfind pure ''#'' npos in
          if pos \<noteq> npos
          then bind_cxx (string_insert advance pure pos ''?'' 0 npos) (\<lambda>p. string_insert advance p (pos + 1) query 0 npos)
          else Inr (pure @ ''?'' @ query))
       (\<lambda>p. Inr (y\<lparr>pureIRI := p\<rparr>)))"

definition IRI_SetFragment :: "'g gurl \<Rightarrow> 'g IRI \<Rightarrow> string \<Rightarrow> 'g IRI cxx" where
  "IRI_SetFragment G x fragment =
     bind_cxx (set_part G [(Ref_part, ComponentForString fragment)] x) (\<lambda>y.
     let pure = pureIRI y; pos = string_rfind pure ''#'' npos in
     bind_cxx (if pos \<noteq> npos then string_replace pure (pos + 1) npos fragment else Inr (pure @ ''#'' @ fragment))
       (\<lambda>p. Inr (y\<lparr>pureIRI := p\<rparr>)))"

definition IRI_SetContentFragmentIdentifier :: "'g gurl \<Rightarrow> 'f float_lib \<Rightarrow> 'g IRI \<Rightarrow> 'f CFI \<Rightarrow> 'g IRI cxx" where
  "IRI_SetContentFragmentIdentifier G fl x cfi =
     (if CFI_Empty cfi then Inr x else IRI_SetFragment G x (CFI_String fl cfi))"

section \<open>Lemmas\<close>

text \<open>A text starts with a pattern exactly when the search finds it at position 0.\<close>

lemma to_byte_size_0: "length s < npos \<Longrightarrow> to_byte_size s 0 = 0"
proof -
  assume l: "length s < npos"
  then have "string_size s = 0 \<Longrightarrow> s = []"
    by (cases s) (auto simp: string_size_def to_utf32_size_def)
  with l show ?thesis by (auto simp: to_byte_size_def npos_def)
qed

lemma chars_of_bytes_0: "chars_of_bytes n s = 0 \<longleftrightarrow> n = 0 \<or> s = []"
  by (cases s) simp_all

lemma string_find_0:
  assumes "length s < npos"
  shows "string_find s t 0 = 0 \<longleftrightarrow> take (length t) s = t"
proof -
  let ?r = "base_find s t 0"
  have h: "first_hit (starts_at t s) 0 (Suc (length s)) ?r" by (rule base_find_hit) simp
  have "string_find s t 0 = 0 \<longleftrightarrow> ?r = 0"
    using h assms by (auto simp: string_find_def to_byte_size_0 to_utf32_size_def chars_of_bytes_0 first_hit_def npos_def)
  also have "\<dots> \<longleftrightarrow> starts_at t s 0" using h by (auto simp: first_hit_def npos_def)
  also have "\<dots> \<longleftrightarrow> take (length t) s = t"
    by (auto simp: starts_at_def) (metis length_take min.cobounded1)
  finally show ?thesis .
qed

lemma pieces_plain: "d \<notin> set s \<Longrightarrow> pieces d s = [s]"
  by (induction s) auto

lemma pieces_append: "d \<notin> set s \<Longrightarrow> pieces d (s @ d # t) = s # pieces d t"
  by (induction s) auto

lemma urn_of_string_urn:
  assumes "CHR '':'' \<notin> set nid" "CHR '':'' \<notin> set nss" "nss \<noteq> []" "length nid + length nss + 5 < npos"
  shows "urn_of_string (''urn:'' @ nid @ '':'' @ nss) = Some [gURNScheme, nid, nss]"
proof -
  have p: "pieces CHR '':'' (''urn'' @ CHR '':'' # nid @ CHR '':'' # nss) = [''urn'', nid, nss]"
    using assms by (simp add: pieces_append pieces_plain)
  have "string_find (''urn:'' @ nid @ '':'' @ nss) ''urn:'' 0 = 0" using assms(4) by (subst string_find_0) simp_all
  with p assms(3) show ?thesis by (simp add: urn_of_string_def string_split_def)
qed

lemma IRI_of_string_urn:
  assumes "CHR '':'' \<notin> set nid" "CHR '':'' \<notin> set nss" "nss \<noteq> []" "length nid + length nss + 5 < npos"
  shows "IRI_of_string G (''urn:'' @ nid @ '':'' @ nss) = IRI_of_urn G nid nss"
  using urn_of_string_urn [OF assms] by (simp add: IRI_of_string_def IRI_of_urn_def Let_def)

text \<open>Assigning the same URN twice leaves six components, which no URN is equal to.\<close>

lemma IRI_assign_urn_twice:
  assumes "urn_of_string s = Some cs" "urnComponents x = []"
  shows "\<exists>y z. IRI_assign_string G x s = Inr y \<and> IRI_assign_string G y s = Inr z \<and> urnComponents z = cs @ cs"
  using assms by (auto simp: IRI_assign_string_def Let_def)

text \<open>What setting the fragment leaves of the text: the count that \<^verbatim>\<open>replace\<close> computes is the position of the fragment, so that the part
  of an old fragment that is longer than the text before it stays.\<close>

lemma replace_from:
  assumes "utf8_seq cs" "q < length cs"
  shows "string_replace (concat cs) (Suc q) npos f =
     Inr (concat (take (Suc q) cs) @ f @ drop (span_bytes cs (Suc q) + span_bytes cs (Suc q)) (concat cs))"
proof -
  have le: "Suc q \<le> length cs" using assms(2) by simp
  note sm = utf8_seq_small [OF assms(1) le]
  then have w: "sz_add (Suc q) npos = q" by (simp add: sz_add_def npos_def)
  have b: "to_byte_size (concat cs) (Suc q) = span_bytes cs (Suc q)" using le by (simp add: to_byte_size_concat [OF assms(1)])
  have "to_byte_size_range (concat cs) (Suc q) q = Inr (span_bytes cs (Suc q))"
    using sm span_bytes_le [of cs "Suc q"] by (auto simp: to_byte_size_range_def b Let_def)
  then show ?thesis using span_bytes_le [of cs "Suc q"]
    by (simp add: string_replace_def w b base_replace_def take_span)
qed

lemma SetFragment_text:
  assumes "utf8_seq cs" "cs = bs @ ''#'' # ds"
  shows "string_replace (concat cs) (length bs + 1) npos fragment =
     Inr (concat bs @ ''#'' @ fragment @ drop (Suc (length (concat bs))) (concat ds))"
proof -
  have "length bs < length cs" using assms(2) by simp
  from replace_from [OF assms(1) this, of fragment] show ?thesis by (simp add: assms(2) span_bytes_def)
qed

lemma set_fragment_total:
  assumes "utf8_seq cs"
  shows "\<exists>p. (let pos = string_rfind (concat cs) ''#'' npos in
     if pos \<noteq> npos then string_replace (concat cs) (pos + 1) npos f else Inr (concat cs @ ''#'' @ f)) = Inr p"
proof -
  let ?pos = "string_rfind (concat cs) ''#'' npos"
  have h: "utf8_seq [''#'']" by (simp add: npos_def trail_byte_def UTF8CharLen_def utf8_sizes_def nth_append)
  from string_rfind_chars [OF assms h, of npos]
  have "?pos = npos \<or> starts_at [''#''] cs ?pos" by (auto simp: last_hit_def)
  then show ?thesis
  proof
    assume "starts_at [''#''] cs ?pos"
    then have "?pos < length cs" by (simp add: starts_at_def)
    from replace_from [OF assms this, of f] show ?thesis by (simp add: Let_def)
  qed simp
qed

section \<open>Properties\<close>

lemma canon_ref_printable: "list_all printable t \<Longrightarrow> canon_ref rd t = t"
  by (induction t) (auto simp: printable_def Let_def)

lemma cfi_of_printed:
  assumes "ident_ok fl i"
  shows "\<not> CFI_Empty (cfi_of fl i)" and "take 8 (CFI_String fl (cfi_of fl i)) = ''epubcfi(''"
  using assms by (cases i; auto simp: CFI_Empty_def path_comps_def path_ok_def CFI_String_def Stringify_def)+

text \<open>C12: a content fragment identifier that was set on an IRI is read back from it: for every identifier whose text is printable
  ASCII and every IRI whose text is UTF-8 and whose URL is valid with one of the standard schemes,
  \<^verbatim>\<open>SetContentFragmentIdentifier\<close> succeeds and \<^verbatim>\<open>ContentFragmentIdentifier\<close> of the result parses to the same
  identifier.  Of the URL library it is used that a standard URL gets the canonical form of a new fragment.\<close>

theorem iri_cfi_roundtrip:
  assumes "ident_ok fl i" and "utf8_seq cs" and "pureIRI x = concat cs" and "iri_url x = Some u"
    and "g_is_valid G u" and "g_part G Scheme_part u \<in> set kStandardURLSchemes" and "standard_urls_take_refs G rd"
    and "list_all printable (CFI_String fl (cfi_of fl i))" and "length (CFI_String fl (cfi_of fl i)) < 2 ^ 31"
  shows "\<exists>y. IRI_SetContentFragmentIdentifier G fl x (cfi_of fl i) = Inr y
    \<and> IRI_ContentFragmentIdentifier G fl h y = Some (Inr (cfi_of fl i))"
proof -
  let ?t = "CFI_String fl (cfi_of fl i)"
  note pr = cfi_of_printed [OF assms(1)]
  obtain p where p: "(let pos = string_rfind (concat cs) ''#'' npos in
      if pos \<noteq> npos then string_replace (concat cs) (pos + 1) npos ?t else Inr (concat cs @ ''#'' @ ?t)) = Inr p"
    using set_fragment_total [OF assms(2)] by blast
  let ?v = "g_replace G [(Ref_part, Some ?t)] u"
  let ?y = "x\<lparr>iri_url := Some ?v, pureIRI := p\<rparr>"
  have ne: "?t \<noteq> []" using pr(2) by auto
  have short: "length ?t < npos" using assms(9) by (simp add: npos_def)
  have "IRI_SetContentFragmentIdentifier G fl x (cfi_of fl i) = Inr ?y"
    using p [unfolded Let_def] pr(1) ne assms(3,4)
    unfolding IRI_SetContentFragmentIdentifier_def IRI_SetFragment_def Let_def
    by (auto simp: set_part_def ComponentForString_def must_def split: if_splits)
  moreover have "g_part G Ref_part ?v = ?t" "g_has G Ref_part ?v"
    using assms(5-9) ne canon_ref_printable [OF assms(8), of rd] by (simp_all add: standard_urls_take_refs_def)
  then have "IRI_ContentFragmentIdentifier G fl h ?y = Some (Inr (cfi_of fl i))"
    using CFI_of_string_printed [OF assms(1), of h] pr(2) string_find_0 [OF short, of "''epubcfi(''"]
    by (simp add: IRI_ContentFragmentIdentifier_def Let_def eval_nat_numeral)
  ultimately show ?thesis by blast
qed

text \<open>A URL without a fragment of its own, as those of the other schemes are, loses the identifier: it only stands in the text of
  the IRI, and the getter returns the empty identifier.\<close>

lemma other_urls_lose_cfi:
  assumes "iri_url y = Some v" and "\<not> g_has G Ref_part v"
  shows "IRI_ContentFragmentIdentifier G fl h y = Some (Inr empty_CFI)"
  using assms by (simp add: IRI_ContentFragmentIdentifier_def)

text \<open>A URL library that knows schemes and fragments: URLs of standard schemes take fragments, others drop them.\<close>

definition plain_utf :: "string \<Rightarrow> string \<times> nat" where
  "plain_utf s = (take 1 s, 0)"

definition scheme_of :: "string \<Rightarrow> string" where
  "scheme_of a = takeWhile (\<lambda>c. c \<noteq> CHR '':'') a"

definition put_ref :: "string \<Rightarrow> string option \<Rightarrow> string \<times> string option" where
  "put_ref a r =
     (a, if scheme_of a \<in> set kStandardURLSchemes then map_option (canon_ref plain_utf) r else None)"

definition scheme_gurl :: "(string \<times> string option) gurl" where
  "scheme_gurl =
     \<lparr>g_of_string = (\<lambda>s. put_ref (takeWhile (\<lambda>c. c \<noteq> CHR ''#'') s)
        (case dropWhile (\<lambda>c. c \<noteq> CHR ''#'') s of [] \<Rightarrow> None | _ # f \<Rightarrow> Some f)),
      g_none = ([], None),
      g_is_valid = (\<lambda>u. CHR '':'' \<in> set (fst u)),
      g_possibly_invalid = (\<lambda>(a, r). a @ (case r of None \<Rightarrow> [] | Some f \<Rightarrow> CHR ''#'' # f)),
      g_spec = (\<lambda>(a, r). a @ (case r of None \<Rightarrow> [] | Some f \<Rightarrow> CHR ''#'' # f)),
      g_part = (\<lambda>p (a, r). if p = Ref_part then (case r of None \<Rightarrow> [] | Some f \<Rightarrow> f)
        else if p = Scheme_part then scheme_of a else []),
      g_has = (\<lambda>p (a, r). if p = Ref_part then r \<noteq> None else False),
      g_port = (\<lambda>_. -1),
      g_file_name = fst,
      g_replace = (\<lambda>rep (a, r). case map_of rep Ref_part of None \<Rightarrow> (a, r) | Some f \<Rightarrow> put_ref a f)\<rparr>"

lemma scheme_gurl_takes_refs: "standard_urls_take_refs scheme_gurl plain_utf"
  by (simp add: standard_urls_take_refs_def scheme_gurl_def put_ref_def)

lemma ascii_seq: "list_all (\<lambda>c. (of_char c :: nat) < 128) s \<Longrightarrow> length s < npos \<Longrightarrow> utf8_seq (map (\<lambda>c. [c]) s)"
proof -
  have len: "UTF8CharLen c = 1" if "(of_char c :: nat) < 128" for c
    using that by (simp add: UTF8CharLen_def utf8_sizes_def nth_append)
  assume "list_all (\<lambda>c. (of_char c :: nat) < 128) s" "length s < npos"
  then show ?thesis by (auto simp: utf8_seq_def list_all_iff trail_byte_def len)
qed

theorem iri_cfi_roundtrip_witness:
  "\<exists>y. IRI_SetContentFragmentIdentifier scheme_gurl nat_float (IRI_of_string scheme_gurl ''epub3://a/b#c'')
        (cfi_of nat_float (Location [sample_step 6])) = Inr y
    \<and> IRI_ContentFragmentIdentifier scheme_gurl nat_float DefaultErrorHandler y =
        Some (Inr (cfi_of nat_float (Location [sample_step 6])))"
proof (rule iri_cfi_roundtrip [where cs = "map (\<lambda>c. [c]) ''epub3://a/b#c''"
      and u = "(''epub3://a/b'', Some ''c'')" and rd = plain_utf])
  show "utf8_seq (map (\<lambda>c. [c]) ''epub3://a/b#c'')" by (rule ascii_seq) (simp_all add: npos_def)
  show "ident_ok nat_float (Location [sample_step 6])" by (simp add: path_ok_def sample_step_def)
  have six: "digit_char 6 = CHR ''6''" by code_simp
  have t: "CFI_String nat_float (cfi_of nat_float (Location [sample_step 6])) = ''epubcfi(/6)''"
    by (subst CFI_String_Location) (simp add: path_text_def sample_step_def qualifier_text_def dec.simps [of 6] six)
  show "length (CFI_String nat_float (cfi_of nat_float (Location [sample_step 6]))) < 2 ^ 31" unfolding t by simp
  show "list_all printable (CFI_String nat_float (cfi_of nat_float (Location [sample_step 6])))"
    unfolding t by (simp add: printable_def)
  show "standard_urls_take_refs scheme_gurl plain_utf" by (rule scheme_gurl_takes_refs)
qed (simp_all add: IRI_of_string_def scheme_gurl_def put_ref_def scheme_of_def kStandardURLSchemes_def)

end
