(* ===== verification/Properties.thy ===== *)
theory Properties
  imports Iri
begin

text \<open>
  The metadata of a publication: \<^verbatim>\<open>ePub/property.{h,cpp}\<close>, \<^verbatim>\<open>ePub/property_extension.{h,cpp}\<close> and \<^verbatim>\<open>ePub/property_holder.{h,cpp}\<close>.
  A property has an identifier, which is an IRI, a value and extensions; a holder has properties and a table of vocabulary prefixes,
  and a parent from which it inherits both.  The objects live in a store by address: a \<^verbatim>\<open>shared_ptr\<close> is an optional address, and a
  \<^verbatim>\<open>weak_ptr\<close> locks when its object is in the store.  A lookup that follows parents in a circle does not end.
\<close>

section \<open>Types\<close>

datatype DCType = DC_Invalid | DC_Identifier | DC_Title | DC_Language | DC_Contributor | DC_Coverage | DC_Creator | DC_Date
  | DC_Description | DC_Format | DC_Publisher | DC_Relation | DC_Rights | DC_Source | DC_Subject | DC_Type | DC_Custom

text \<open>The pointers to owners are weak.\<close>

record 'g PropertyExtension =
  ext_owner :: "nat option"
  ext_value :: string
  ext_scheme :: string
  ext_language :: string
  ext_identifier :: "'g IRI"
  ext_xmlID :: string

record 'g Property =
  p_owner :: "nat option"
  p_type :: DCType
  p_value :: string
  p_language :: string
  p_extensions :: "nat option list"
  p_identifier :: "'g IRI"
  p_xmlID :: string

record PropertyHolder =
  h_parent :: "nat option"
  h_properties :: "nat option list"
  h_vocabulary :: "string \<rightharpoonup> string"

record 'g pstore =
  ps_exts :: "nat \<rightharpoonup> 'g PropertyExtension"
  ps_props :: "nat \<rightharpoonup> 'g Property"
  ps_holders :: "nat \<rightharpoonup> PropertyHolder"

definition deref :: "(nat \<rightharpoonup> 'a) \<Rightarrow> nat option \<Rightarrow> 'a cxx" where
  "deref m p = must (Option.bind p m)"

definition lock :: "(nat \<rightharpoonup> 'a) \<Rightarrow> nat option \<Rightarrow> nat option" where
  "lock m w = (case w of None \<Rightarrow> None | Some a \<Rightarrow> if m a = None then None else Some a)"

section \<open>Tables\<close>

definition DCMES_uri :: string where "DCMES_uri = ''http://purl.org/dc/elements/1.1/''"
definition MetaTagName :: string where "MetaTagName = ''meta''"

definition IDToNameMap :: "(DCType \<times> string) list" where
  "IDToNameMap = [(DC_Identifier, ''identifier''), (DC_Title, ''title''), (DC_Language, ''language''),
     (DC_Contributor, ''contributor''), (DC_Coverage, ''coverage''), (DC_Creator, ''creator''), (DC_Date, ''date''),
     (DC_Description, ''description''), (DC_Format, ''format''), (DC_Publisher, ''publisher''), (DC_Relation, ''relation''),
     (DC_Rights, ''rights''), (DC_Source, ''source''), (DC_Subject, ''subject''), (DC_Type, ''type'')]"

definition NameToIDMap :: "(string \<times> DCType) list" where
  "NameToIDMap = [(''meta'', DC_Custom), (''identifier'', DC_Identifier), (''title'', DC_Title), (''language'', DC_Language),
     (''contributor'', DC_Contributor), (''coverage'', DC_Coverage), (''creator'', DC_Creator), (''date'', DC_Date),
     (''description'', DC_Description), (''format'', DC_Format), (''publisher'', DC_Publisher), (''relation'', DC_Relation),
     (''rights'', DC_Rights), (''source'', DC_Source), (''subject'', DC_Subject), (''type'', DC_Type)]"

definition RenditionSplitPropertyLookup :: "(string \<times> string \<times> string) list" where
  "RenditionSplitPropertyLookup =
     [(''http://www.idpf.org/vocab/rendition/#orientation-landscape'', ''orientation'', ''landscape''),
      (''http://www.idpf.org/vocab/rendition/#orientation-portrait'', ''orientation'', ''portrait''),
      (''http://www.idpf.org/vocab/rendition/#orientation-auto'', ''orientation'', ''auto''),
      (''http://www.idpf.org/vocab/rendition/#layout-reflowable'', ''layout'', ''reflowable''),
      (''http://www.idpf.org/vocab/rendition/#layout-pre-paginated'', ''layout'', ''pre-paginated''),
      (''http://www.idpf.org/vocab/rendition/#spread-none'', ''spread'', ''none''),
      (''http://www.idpf.org/vocab/rendition/#spread-landscape'', ''spread'', ''landscape''),
      (''http://www.idpf.org/vocab/rendition/#spread-portrait'', ''spread'', ''portrait''),
      (''http://www.idpf.org/vocab/rendition/#spread-both'', ''spread'', ''both''),
      (''http://www.idpf.org/vocab/rendition/#spread-auto'', ''spread'', ''auto''),
      (''http://www.idpf.org/vocab/rendition/#flow-auto'', ''flow'', ''auto''),
      (''http://www.idpf.org/vocab/rendition/#flow-paginated'', ''flow'', ''paginated''),
      (''http://www.idpf.org/vocab/rendition/#flow-scrolled-doc'', ''flow'', ''scrolled-doc''),
      (''http://www.idpf.org/vocab/rendition/#flow-scrolled-continuous'', ''flow'', ''scrolled-continuous''),
      (''http://idpf.org/epub/vocab/package/#page-spread-left'', ''page-spread'', ''page-spread-left''),
      (''http://idpf.org/epub/vocab/package/#page-spread-right'', ''page-spread'', ''page-spread-right''),
      (''http://www.idpf.org/vocab/rendition/#page-spread-center'', ''page-spread'', ''page-spread-center'')]"

definition ReservedVocabularies :: "(string \<times> string) list" where
  "ReservedVocabularies =
     [([], ''http://idpf.org/epub/vocab/package/#''), (''dcterms'', ''http://purl.org/dc/terms/''),
      (''marc'', ''http://id.loc.gov/vocabulary/''), (''media'', ''http://www.idpf.org/epub/vocab/overlays/#''),
      (''onix'', ''http://www.editeur.org/ONIX/book/codelists/current.html#''), (''xsd'', ''http://www.w3.org/2001/XMLSchema#'')]"

definition CoreMediaTypes :: "string list" where
  "CoreMediaTypes = [''image/gif'', ''image/jpeg'', ''image/png'', ''image/svg+xml'', ''application/xhtml+xml'',
     ''application/x-dtbncx+xml'', ''application/vnd.ms-opentype'', ''application/font-woff'', ''application/smil+xml'',
     ''application/pls+xml'', ''audio/mpeg'', ''audio/mp4'', ''text/css'', ''text/javascript'']"

definition IRIForDCType :: "'g gurl \<Rightarrow> DCType \<Rightarrow> 'g IRI" where
  "IRIForDCType G type = (case map_of IDToNameMap type of
     None \<Rightarrow> IRI_empty G | Some name \<Rightarrow> IRI_of_string G (DCMES_uri @ name))"

definition DCTypeFromIRI :: "'g gurl \<Rightarrow> 'g IRI \<Rightarrow> DCType cxx" where
  "DCTypeFromIRI G iri = bind_cxx (IRI_IsEmpty G iri) (\<lambda>e.
     if e then Inr DC_Invalid
     else bind_cxx (IRI_Fragment G iri) (\<lambda>f. Inr (case map_of NameToIDMap f of None \<Rightarrow> DC_Custom | Some t \<Rightarrow> t)))"

section \<open>Holders: constructing and editing\<close>

definition new_PropertyHolder :: PropertyHolder where
  "new_PropertyHolder = \<lparr>h_parent = None, h_properties = [], h_vocabulary = map_of ReservedVocabularies\<rparr>"

definition new_PropertyHolder_under :: "nat option \<Rightarrow> PropertyHolder" where
  "new_PropertyHolder_under parent = new_PropertyHolder\<lparr>h_parent := parent\<rparr>"

definition holder :: "'g pstore \<Rightarrow> nat \<Rightarrow> PropertyHolder cxx" where
  "holder \<sigma> a = must (ps_holders \<sigma> a)"

definition set_holder :: "'g pstore \<Rightarrow> nat \<Rightarrow> PropertyHolder \<Rightarrow> 'g pstore" where
  "set_holder \<sigma> a h = \<sigma>\<lparr>ps_holders := (ps_holders \<sigma>)(a \<mapsto> h)\<rparr>"

definition set_prop :: "'g pstore \<Rightarrow> nat \<Rightarrow> 'g Property \<Rightarrow> 'g pstore" where
  "set_prop \<sigma> a p = \<sigma>\<lparr>ps_props := (ps_props \<sigma>)(a \<mapsto> p)\<rparr>"

definition PropertyHolder_assign :: "'g pstore \<Rightarrow> nat \<Rightarrow> nat \<Rightarrow> 'g pstore cxx" where
  "PropertyHolder_assign \<sigma> a src = bind_cxx (holder \<sigma> a) (\<lambda>_. bind_cxx (holder \<sigma> src) (\<lambda>h. Inr (set_holder \<sigma> a h)))"

definition NumberOfProperties :: "'g pstore \<Rightarrow> nat \<Rightarrow> nat cxx" where
  "NumberOfProperties \<sigma> a = bind_cxx (holder \<sigma> a) (\<lambda>h. Inr (length (h_properties h)))"

definition AddProperty :: "'g pstore \<Rightarrow> nat \<Rightarrow> nat option \<Rightarrow> 'g pstore cxx" where
  "AddProperty \<sigma> a prop =
     bind_cxx (holder \<sigma> a) (\<lambda>h. Inr (set_holder \<sigma> a (h\<lparr>h_properties := h_properties h @ [prop]\<rparr>)))"

fun set_owners :: "'g pstore \<Rightarrow> nat option list \<Rightarrow> nat option \<Rightarrow> 'g pstore cxx" where
  "set_owners \<sigma> [] me = Inr \<sigma>"
| "set_owners \<sigma> (p # ps) me = bind_cxx (deref (ps_props \<sigma>) p) (\<lambda>x.
     set_owners (set_prop \<sigma> (the p) (x\<lparr>p_owner := me\<rparr>)) ps me)"

text \<open>Appending a holder's properties to itself inserts a vector into itself.  The overload that moves leaves null pointers behind.\<close>

definition AppendProperties :: "'g pstore \<Rightarrow> nat \<Rightarrow> nat \<Rightarrow> nat option \<Rightarrow> 'g pstore cxx" where
  "AppendProperties \<sigma> a src sharedMe =
     bind_cxx (holder \<sigma> a) (\<lambda>h. bind_cxx (holder \<sigma> src) (\<lambda>s.
     bind_cxx (set_owners \<sigma> (h_properties s) sharedMe) (\<lambda>\<sigma>'.
     if a = src then Inl Undefined
     else Inr (set_holder \<sigma>' a (h\<lparr>h_properties := h_properties h @ h_properties s\<rparr>)))))"

definition AppendProperties_move :: "'g pstore \<Rightarrow> nat \<Rightarrow> nat \<Rightarrow> nat option \<Rightarrow> 'g pstore cxx" where
  "AppendProperties_move \<sigma> a src sharedMe =
     bind_cxx (holder \<sigma> a) (\<lambda>h. bind_cxx (holder \<sigma> src) (\<lambda>s.
     if a = src \<and> h_properties s \<noteq> [] then Inl Undefined
     else bind_cxx (set_owners \<sigma> (h_properties s) sharedMe) (\<lambda>\<sigma>'.
       Inr (set_holder (set_holder \<sigma>' src (s\<lparr>h_properties := map (\<lambda>_. None) (h_properties s)\<rparr>)) a
              (h\<lparr>h_properties := h_properties h @ h_properties s\<rparr>)))))"

definition PropertyAt :: "'g pstore \<Rightarrow> nat \<Rightarrow> nat \<Rightarrow> nat option cxx" where
  "PropertyAt \<sigma> a idx = bind_cxx (holder \<sigma> a) (\<lambda>h.
     if idx < length (h_properties h) then Inr (h_properties h ! idx) else Inl (Throws (Out_of_range ''at'')))"

definition ErasePropertyAt :: "'g pstore \<Rightarrow> nat \<Rightarrow> nat \<Rightarrow> 'g pstore cxx" where
  "ErasePropertyAt \<sigma> a idx = bind_cxx (holder \<sigma> a) (\<lambda>h. let ps = h_properties h in
     if idx > length ps then Inl (Throws (Out_of_range ''ErasePropertyAt: Index out of range''))
     else if idx = length ps then Inl Undefined
     else Inr (set_holder \<sigma> a (h\<lparr>h_properties := take idx ps @ drop (Suc idx) ps\<rparr>)))"

definition RegisterPrefixIRIStem :: "'g pstore \<Rightarrow> nat \<Rightarrow> string \<Rightarrow> string \<Rightarrow> 'g pstore cxx" where
  "RegisterPrefixIRIStem \<sigma> a prefix iriStem = bind_cxx (holder \<sigma> a) (\<lambda>h.
     if h_vocabulary h prefix = None
     then Inr (set_holder \<sigma> a (h\<lparr>h_vocabulary := (h_vocabulary h)(prefix \<mapsto> iriStem)\<rparr>)) else Inr \<sigma>)"

text \<open>The position of the first property with an identifier.\<close>

fun find_property :: "'g gurl \<Rightarrow> 'g pstore \<Rightarrow> 'g IRI \<Rightarrow> nat option list \<Rightarrow> nat option cxx" where
  "find_property G \<sigma> iri [] = Inr None"
| "find_property G \<sigma> iri (p # ps) = bind_cxx (deref (ps_props \<sigma>) p) (\<lambda>x.
     if IRI_eq G (p_identifier x) iri then Inr (Some 0)
     else bind_cxx (find_property G \<sigma> iri ps) (\<lambda>r. Inr (map_option Suc r)))"

definition RemoveProperty :: "'g gurl \<Rightarrow> 'g pstore \<Rightarrow> nat \<Rightarrow> 'g IRI \<Rightarrow> 'g pstore cxx" where
  "RemoveProperty G \<sigma> a iri = bind_cxx (holder \<sigma> a) (\<lambda>h.
     bind_cxx (find_property G \<sigma> iri (h_properties h)) (\<lambda>r. Inr (case r of
       None \<Rightarrow> \<sigma>
     | Some i \<Rightarrow> set_holder \<sigma> a (h\<lparr>h_properties := take i (h_properties h) @ drop (Suc i) (h_properties h)\<rparr>))))"

section \<open>Holders: looking up\<close>

text \<open>The lookups go on in the parent when the holder itself has no answer.  Null pointers among the properties are dereferenced.\<close>

partial_function (option) ContainsProperty :: "'g gurl \<Rightarrow> 'g pstore \<Rightarrow> nat \<Rightarrow> 'g IRI \<Rightarrow> bool \<Rightarrow> bool run" where
  "ContainsProperty G \<sigma> a iri lookupParents = (case holder \<sigma> a of
     Inl e \<Rightarrow> Some (Inl e)
   | Inr h \<Rightarrow> (case find_property G \<sigma> iri (h_properties h) of
       Inl e \<Rightarrow> Some (Inl e)
     | Inr (Some _) \<Rightarrow> Some (Inr True)
     | Inr None \<Rightarrow>
         if lookupParents
         then (case lock (ps_holders \<sigma>) (h_parent h) of
                 Some b \<Rightarrow> ContainsProperty G \<sigma> b iri lookupParents
               | None \<Rightarrow> Some (Inr False))
         else Some (Inr False)))"

partial_function (option) PropertyMatching :: "'g gurl \<Rightarrow> 'g pstore \<Rightarrow> nat \<Rightarrow> 'g IRI \<Rightarrow> bool \<Rightarrow> nat option run" where
  "PropertyMatching G \<sigma> a iri lookupParents = (case holder \<sigma> a of
     Inl e \<Rightarrow> Some (Inl e)
   | Inr h \<Rightarrow> (case find_property G \<sigma> iri (h_properties h) of
       Inl e \<Rightarrow> Some (Inl e)
     | Inr (Some i) \<Rightarrow> Some (Inr (h_properties h ! i))
     | Inr None \<Rightarrow>
         if lookupParents
         then (case lock (ps_holders \<sigma>) (h_parent h) of
                 Some b \<Rightarrow> PropertyMatching G \<sigma> b iri lookupParents
               | None \<Rightarrow> Some (Inr None))
         else Some (Inr None)))"

fun has_extension :: "'g gurl \<Rightarrow> 'g pstore \<Rightarrow> 'g IRI \<Rightarrow> nat option list \<Rightarrow> bool cxx" where
  "has_extension G \<sigma> ident [] = Inr False"
| "has_extension G \<sigma> ident (e # es) = bind_cxx (deref (ps_exts \<sigma>) e) (\<lambda>x.
     if IRI_eq G (ext_identifier x) ident then Inr True else has_extension G \<sigma> ident es)"

definition HasExtensionWithIdentifier :: "'g gurl \<Rightarrow> 'g pstore \<Rightarrow> 'g Property \<Rightarrow> 'g IRI \<Rightarrow> bool cxx" where
  "HasExtensionWithIdentifier G \<sigma> x ident = has_extension G \<sigma> ident (p_extensions x)"

fun build_list :: "'g gurl \<Rightarrow> 'g pstore \<Rightarrow> 'g IRI \<Rightarrow> nat option list \<Rightarrow> nat option list cxx" where
  "build_list G \<sigma> iri [] = Inr []"
| "build_list G \<sigma> iri (p # ps) = bind_cxx (deref (ps_props \<sigma>) p) (\<lambda>x.
     bind_cxx (if IRI_eq G (p_identifier x) iri then Inr True else HasExtensionWithIdentifier G \<sigma> x iri) (\<lambda>hit.
     bind_cxx (build_list G \<sigma> iri ps) (\<lambda>r. Inr (if hit then p # r else r))))"

definition BuildPropertyList :: "'g gurl \<Rightarrow> 'g pstore \<Rightarrow> PropertyHolder \<Rightarrow> 'g IRI \<Rightarrow> nat option list cxx" where
  "BuildPropertyList G \<sigma> h iri = bind_cxx (IRI_IsEmpty G iri) (\<lambda>e.
     if e then Inr [] else build_list G \<sigma> iri (h_properties h))"

partial_function (option) PropertiesMatching :: "'g gurl \<Rightarrow> 'g pstore \<Rightarrow> nat \<Rightarrow> 'g IRI \<Rightarrow> bool \<Rightarrow> nat option list run" where
  "PropertiesMatching G \<sigma> a iri lookupParents = (case holder \<sigma> a of
     Inl e \<Rightarrow> Some (Inl e)
   | Inr h \<Rightarrow> (case BuildPropertyList G \<sigma> h iri of
       Inl e \<Rightarrow> Some (Inl e)
     | Inr out \<Rightarrow>
         if lookupParents
         then (case lock (ps_holders \<sigma>) (h_parent h) of
                 Some b \<Rightarrow> Option.bind (PropertiesMatching G \<sigma> b iri lookupParents)
                   (\<lambda>r. Some (map_sum (\<lambda>e. e) (\<lambda>pList. out @ pList) r))
               | None \<Rightarrow> Some (Inr out))
         else Some (Inr out)))"

partial_function (option) MakePropertyIRI :: "'g gurl \<Rightarrow> 'g pstore \<Rightarrow> nat \<Rightarrow> string \<Rightarrow> string \<Rightarrow> 'g IRI run" where
  "MakePropertyIRI G \<sigma> a reference prefix = (case holder \<sigma> a of
     Inl e \<Rightarrow> Some (Inl e)
   | Inr h \<Rightarrow> (case h_vocabulary h prefix of
       Some stem \<Rightarrow> Some (Inr (IRI_of_string G (stem @ reference)))
     | None \<Rightarrow> (case lock (ps_holders \<sigma>) (h_parent h) of
           Some b \<Rightarrow> MakePropertyIRI G \<sigma> b reference prefix
         | None \<Rightarrow> Some (Inr (IRI_empty G)))))"

text \<open>The match of \<open>^(?:(.+?):)?(.+)$\<close>: the shortest prefix before a colon that leaves something after it, else none.  A dot does not
  match the end of a line.\<close>

definition split_prefix :: "string \<Rightarrow> (string \<times> string) option" where
  "split_prefix s =
     (if s = [] \<or> CHR 0x0A \<in> set s \<or> CHR 0x0D \<in> set s then None
      else case scan_up (\<lambda>i. s ! i = CHR '':'') 1 (length s - 2) of
        Some i \<Rightarrow> Some (take i s, drop (Suc i) s)
      | None \<Rightarrow> Some ([], s))"

definition PropertyIRIFromString :: "'g gurl \<Rightarrow> 'g pstore \<Rightarrow> nat \<Rightarrow> string \<Rightarrow> 'g IRI run" where
  "PropertyIRIFromString G \<sigma> a attrValue = (case split_prefix attrValue of
     None \<Rightarrow> Some (Inl (Throws (Invalid_argument (''Attribute '' @ CHR 0x27 # attrValue @ CHR 0x27 #
       '' doesn'' @ CHR 0x27 # ''t look like a property name to me''))))
   | Some (prefix, reference) \<Rightarrow> MakePropertyIRI G \<sigma> a reference prefix)"

text \<open>The overloads by type and by name; without \<^verbatim>\<open>lookupParents\<close> they look in the parents.\<close>

definition with_name :: "'g gurl \<Rightarrow> 'g pstore \<Rightarrow> nat \<Rightarrow> string \<Rightarrow> string \<Rightarrow> 'a \<Rightarrow> ('g IRI \<Rightarrow> 'a run) \<Rightarrow> 'a run" where
  "with_name G \<sigma> a reference prefix none k = bind_run (MakePropertyIRI G \<sigma> a reference prefix) (\<lambda>iri.
     bind_run (Some (IRI_IsEmpty G iri)) (\<lambda>e. if e then Some (Inr none) else k iri))"

definition ContainsProperty_type :: "'g gurl \<Rightarrow> 'g pstore \<Rightarrow> nat \<Rightarrow> DCType \<Rightarrow> bool \<Rightarrow> bool run" where
  "ContainsProperty_type G \<sigma> a type lookupParents = ContainsProperty G \<sigma> a (IRIForDCType G type) lookupParents"

definition ContainsProperty_name :: "'g gurl \<Rightarrow> 'g pstore \<Rightarrow> nat \<Rightarrow> string \<Rightarrow> string \<Rightarrow> bool \<Rightarrow> bool run" where
  "ContainsProperty_name G \<sigma> a reference prefix lookupParents =
     with_name G \<sigma> a reference prefix False (\<lambda>iri. ContainsProperty G \<sigma> a iri lookupParents)"

definition PropertiesMatching_type :: "'g gurl \<Rightarrow> 'g pstore \<Rightarrow> nat \<Rightarrow> DCType \<Rightarrow> bool \<Rightarrow> nat option list run" where
  "PropertiesMatching_type G \<sigma> a type lookupParents = PropertiesMatching G \<sigma> a (IRIForDCType G type) lookupParents"

definition PropertiesMatching_name :: "'g gurl \<Rightarrow> 'g pstore \<Rightarrow> nat \<Rightarrow> string \<Rightarrow> string \<Rightarrow> bool \<Rightarrow> nat option list run" where
  "PropertiesMatching_name G \<sigma> a reference prefix lookupParents =
     with_name G \<sigma> a reference prefix [] (\<lambda>iri. PropertiesMatching G \<sigma> a iri lookupParents)"

definition PropertyMatching_type :: "'g gurl \<Rightarrow> 'g pstore \<Rightarrow> nat \<Rightarrow> DCType \<Rightarrow> bool \<Rightarrow> nat option run" where
  "PropertyMatching_type G \<sigma> a type lookupParents = PropertyMatching G \<sigma> a (IRIForDCType G type) lookupParents"

definition PropertyMatching_name :: "'g gurl \<Rightarrow> 'g pstore \<Rightarrow> nat \<Rightarrow> string \<Rightarrow> string \<Rightarrow> bool \<Rightarrow> nat option run" where
  "PropertyMatching_name G \<sigma> a reference prefix lookupParents =
     with_name G \<sigma> a reference prefix None (\<lambda>iri. PropertyMatching G \<sigma> a iri lookupParents)"

definition RemoveProperty_name :: "'g gurl \<Rightarrow> 'g pstore \<Rightarrow> nat \<Rightarrow> string \<Rightarrow> string \<Rightarrow> 'g pstore run" where
  "RemoveProperty_name G \<sigma> a reference prefix =
     with_name G \<sigma> a reference prefix \<sigma> (\<lambda>iri. Some (RemoveProperty G \<sigma> a iri))"

section \<open>Properties\<close>

definition new_Property :: "'g gurl \<Rightarrow> nat option \<Rightarrow> 'g Property" where
  "new_Property G owner = \<lparr>p_owner = owner, p_type = DC_Invalid, p_value = [], p_language = [], p_extensions = [],
     p_identifier = IRI_empty G, p_xmlID = []\<rparr>"

definition SetDCType :: "'g gurl \<Rightarrow> 'g Property \<Rightarrow> DCType \<Rightarrow> 'g Property" where
  "SetDCType G x type = (let x = x\<lparr>p_type := type\<rparr> in
     if type = DC_Invalid then x\<lparr>p_identifier := IRI_empty G\<rparr>
     else if type \<noteq> DC_Custom then x\<lparr>p_identifier := IRIForDCType G type\<rparr> else x)"

definition SetPropertyIdentifier :: "'g gurl \<Rightarrow> 'g Property \<Rightarrow> 'g IRI \<Rightarrow> 'g Property cxx" where
  "SetPropertyIdentifier G x iri =
     bind_cxx (IRI_copy iri) (\<lambda>ident. bind_cxx (DCTypeFromIRI G iri) (\<lambda>t.
     let x = x\<lparr>p_identifier := ident, p_type := t\<rparr> in
     case map_of RenditionSplitPropertyLookup (IRI_URIString G iri) of
       None \<Rightarrow> Inr x
     | Some (name, value) \<Rightarrow>
         bind_cxx (IRI_SetFragment G (p_identifier x) name) (\<lambda>i. Inr (x\<lparr>p_identifier := i, p_value := value\<rparr>))))"

definition AddExtension :: "'g Property \<Rightarrow> nat option \<Rightarrow> 'g Property" where
  "AddExtension x ext = x\<lparr>p_extensions := p_extensions x @ [ext]\<rparr>"

fun ext_with :: "'g gurl \<Rightarrow> 'g pstore \<Rightarrow> 'g IRI \<Rightarrow> nat option list \<Rightarrow> nat option list cxx" where
  "ext_with G \<sigma> ident [] = Inr []"
| "ext_with G \<sigma> ident (e # es) = bind_cxx (deref (ps_exts \<sigma>) e) (\<lambda>x.
     bind_cxx (ext_with G \<sigma> ident es) (\<lambda>r. Inr (if IRI_eq G (ext_identifier x) ident then e # r else r)))"

definition AllExtensionsWithIdentifier :: "'g gurl \<Rightarrow> 'g pstore \<Rightarrow> 'g Property \<Rightarrow> 'g IRI \<Rightarrow> nat option list cxx" where
  "AllExtensionsWithIdentifier G \<sigma> x ident = ext_with G \<sigma> ident (p_extensions x)"

fun first_ext :: "'g gurl \<Rightarrow> 'g pstore \<Rightarrow> 'g IRI \<Rightarrow> nat option list \<Rightarrow> nat option cxx" where
  "first_ext G \<sigma> ident [] = Inr None"
| "first_ext G \<sigma> ident (e # es) = bind_cxx (deref (ps_exts \<sigma>) e) (\<lambda>x.
     if IRI_eq G (ext_identifier x) ident then Inr e else first_ext G \<sigma> ident es)"

definition ExtensionWithIdentifier :: "'g gurl \<Rightarrow> 'g pstore \<Rightarrow> 'g Property \<Rightarrow> 'g IRI \<Rightarrow> nat option cxx" where
  "ExtensionWithIdentifier G \<sigma> x ident = first_ext G \<sigma> ident (p_extensions x)"

text \<open>What the parsers read of an XML node; the namespace is its URI.\<close>

record meta_node =
  nd_element :: bool
  nd_namespace :: "string option"
  nd_name :: string
  nd_content :: string
  nd_string_value :: string
  nd_language :: string
  nd_prop :: "string \<Rightarrow> string"

definition fill_property :: "'g Property \<Rightarrow> DCType \<Rightarrow> 'g IRI \<Rightarrow> meta_node \<Rightarrow> 'g Property" where
  "fill_property x type ident node = x\<lparr>p_type := type, p_identifier := ident, p_value := nd_content node,
     p_language := nd_language node, p_xmlID := nd_prop node ''id''\<rparr>"

definition owner_iri :: "'g gurl \<Rightarrow> 'g pstore \<Rightarrow> 'g Property \<Rightarrow> string \<Rightarrow> 'g IRI run" where
  "owner_iri G \<sigma> x property = (case lock (ps_holders \<sigma>) (p_owner x) of
     None \<Rightarrow> Some (Inl Undefined) | Some a \<Rightarrow> PropertyIRIFromString G \<sigma> a property)"

definition Property_ParseMetaElement :: "'g gurl \<Rightarrow> 'g pstore \<Rightarrow> 'g Property \<Rightarrow> meta_node option \<Rightarrow> (bool \<times> 'g Property) run" where
  "Property_ParseMetaElement G \<sigma> x node0 = (case node0 of
     None \<Rightarrow> Some (Inr (False, x))
   | Some node \<Rightarrow>
       if \<not> nd_element node then Some (Inr (False, x))
       else let ns = nd_namespace node in
         if ns = Some DCMES_uri then
           (case map_of NameToIDMap (nd_name node) of
              None \<Rightarrow> Some (Inr (False, x))
            | Some type \<Rightarrow> Some (Inr (True, fill_property x type (IRI_of_string G (DCMES_uri @ nd_name node)) node)))
         else if nd_name node = MetaTagName then
           (let property = nd_prop node ''property'' in
            if property = [] then Some (Inr (False, x))
            else bind_run (owner_iri G \<sigma> x property) (\<lambda>iri. Some (Inr (True, fill_property x DC_Custom iri node))))
         else (case ns of
            Some uri \<Rightarrow> Some (Inr (True, fill_property x DC_Custom (IRI_of_string G (uri @ nd_name node)) node))
          | None \<Rightarrow> Some (Inr (False, x))))"

definition PropertyExtension_ParseMetaElement ::
  "'g gurl \<Rightarrow> 'g pstore \<Rightarrow> 'g PropertyExtension \<Rightarrow> meta_node option \<Rightarrow> (bool \<times> 'g PropertyExtension) run" where
  "PropertyExtension_ParseMetaElement G \<sigma> x node0 = (case node0 of
     None \<Rightarrow> Some (Inr (False, x))
   | Some node \<Rightarrow>
       if \<not> nd_element node then Some (Inr (False, x))
       else if nd_name node \<noteq> MetaTagName then Some (Inr (False, x))
       else let property = nd_prop node ''property'' in
         if property = [] then Some (Inr (False, x))
         else bind_run (Some (deref (ps_props \<sigma>) (lock (ps_props \<sigma>) (ext_owner x)))) (\<lambda>owner.
           bind_run (owner_iri G \<sigma> owner property) (\<lambda>iri.
           Some (Inr (True, x\<lparr>ext_identifier := iri, ext_value := nd_string_value node, ext_scheme := nd_prop node ''scheme'',
             ext_language := nd_language node, ext_xmlID := nd_prop node ''id''\<rparr>)))))"

text \<open>\<open>lname\<close> is the name of the locale.\<close>

definition lang_from_locale :: "string \<Rightarrow> string" where
  "lang_from_locale lname =
     (let l1 = (case std_find ''LC_CTYPE='' lname of
                  None \<Rightarrow> lname
                | Some p \<Rightarrow>
                    let e = (case std_find '';'' (drop p lname) of None \<Rightarrow> length lname | Some k \<Rightarrow> p + k)
                    in take e (drop p lname))
      in case std_find ''.'' l1 of None \<Rightarrow> l1 | Some p \<Rightarrow> take p l1)"

definition lang_match :: "string \<Rightarrow> string \<Rightarrow> bool" where
  "lang_match llang lang \<longleftrightarrow> string_find llang lang 0 = 0 \<or> string_find lang llang 0 = 0"

fun first_script :: "'g pstore \<Rightarrow> string \<Rightarrow> string \<Rightarrow> nat option list \<Rightarrow> string cxx" where
  "first_script \<sigma> llang value [] = Inr value"
| "first_script \<sigma> llang value (e # es) = bind_cxx (deref (ps_exts \<sigma>) e) (\<lambda>x.
     if lang_match llang (ext_language x) then Inr (ext_value x) else first_script \<sigma> llang value es)"

definition LocalizedValue :: "'g gurl \<Rightarrow> 'g pstore \<Rightarrow> 'g Property \<Rightarrow> string \<Rightarrow> string run" where
  "LocalizedValue G \<sigma> x lname = (let llang = lang_from_locale lname in
     if lang_match llang (p_language x) then Some (Inr (p_value x))
     else bind_run (owner_iri G \<sigma> x ''alternate-script'') (\<lambda>iri.
       bind_run (Some (AllExtensionsWithIdentifier G \<sigma> x iri)) (\<lambda>scripts.
         Some (if scripts = [] then Inr (p_value x) else first_script \<sigma> llang (p_value x) scripts))))"

section \<open>Inheritance\<close>

text \<open>The holders from one up to its last ancestor, when the parents do not form a circle.\<close>

inductive ancestry :: "'g pstore \<Rightarrow> nat \<Rightarrow> PropertyHolder list \<Rightarrow> bool" for \<sigma> where
  root: "ps_holders \<sigma> a = Some h \<Longrightarrow> lock (ps_holders \<sigma>) (h_parent h) = None \<Longrightarrow> ancestry \<sigma> a [h]"
| up: "ps_holders \<sigma> a = Some h \<Longrightarrow> lock (ps_holders \<sigma>) (h_parent h) = Some b \<Longrightarrow> ancestry \<sigma> b hs \<Longrightarrow> ancestry \<sigma> a (h # hs)"

definition inherited :: "PropertyHolder list \<Rightarrow> nat option list" where
  "inherited hs = concat (map h_properties hs)"

text \<open>Every pointer leads to an object.\<close>

definition ext_alive :: "'g pstore \<Rightarrow> nat option \<Rightarrow> bool" where
  "ext_alive \<sigma> e \<longleftrightarrow> (\<exists>y. Option.bind e (ps_exts \<sigma>) = Some y)"

definition prop_alive :: "'g pstore \<Rightarrow> nat option \<Rightarrow> bool" where
  "prop_alive \<sigma> p \<longleftrightarrow> (\<exists>x. Option.bind p (ps_props \<sigma>) = Some x \<and> (\<forall>e \<in> set (p_extensions x). ext_alive \<sigma> e))"

definition names :: "'g gurl \<Rightarrow> 'g pstore \<Rightarrow> 'g IRI \<Rightarrow> nat option \<Rightarrow> bool" where
  "names G \<sigma> iri p = IRI_eq G (p_identifier (the (Option.bind p (ps_props \<sigma>)))) iri"

definition refined :: "'g gurl \<Rightarrow> 'g pstore \<Rightarrow> 'g IRI \<Rightarrow> nat option \<Rightarrow> bool" where
  "refined G \<sigma> iri p = list_ex (\<lambda>e. IRI_eq G (ext_identifier (the (Option.bind e (ps_exts \<sigma>)))) iri)
     (p_extensions (the (Option.bind p (ps_props \<sigma>))))"

lemma find_property_find:
  "\<forall>p \<in> set ps. prop_alive \<sigma> p \<Longrightarrow>
     \<exists>r. find_property G \<sigma> iri ps = Inr r \<and> map_option (\<lambda>i. ps ! i) r = find (names G \<sigma> iri) ps"
proof (induction ps)
  case (Cons p ps)
  then obtain x r where x: "Option.bind p (ps_props \<sigma>) = Some x"
    and r: "find_property G \<sigma> iri ps = Inr r" "map_option (\<lambda>i. ps ! i) r = find (names G \<sigma> iri) ps"
    by (auto simp: prop_alive_def)
  show ?case
  proof (cases "names G \<sigma> iri p")
    case True
    then show ?thesis using x by (simp add: deref_def names_def)
  next
    case False
    then have "find_property G \<sigma> iri (p # ps) = Inr (map_option Suc r)" using x r by (simp add: deref_def names_def)
    with False r(2) show ?thesis by (simp add: option.map_comp comp_def)
  qed
qed simp

lemma has_extension_ex:
  "\<forall>e \<in> set es. ext_alive \<sigma> e \<Longrightarrow>
     has_extension G \<sigma> iri es = Inr (list_ex (\<lambda>e. IRI_eq G (ext_identifier (the (Option.bind e (ps_exts \<sigma>)))) iri) es)"
  by (induction es) (auto simp: deref_def ext_alive_def)

lemma build_list_filter:
  "\<forall>p \<in> set ps. prop_alive \<sigma> p \<Longrightarrow>
     build_list G \<sigma> iri ps = Inr (filter (\<lambda>p. names G \<sigma> iri p \<or> refined G \<sigma> iri p) ps)"
  by (induction ps) (auto simp: prop_alive_def deref_def names_def refined_def HasExtensionWithIdentifier_def has_extension_ex)

lemma find_append: "find P (xs @ ys) = (case find P xs of None \<Rightarrow> find P ys | Some x \<Rightarrow> Some x)"
  by (induction xs) simp_all

lemma find_Some_iff_ex: "find P xs = None \<longleftrightarrow> \<not> list_ex P xs"
  by (induction xs) simp_all

lemmas lookup_simps = ContainsProperty.simps PropertyMatching.simps PropertiesMatching.simps MakePropertyIRI.simps

lemma find_property_cases:
  assumes "\<forall>p \<in> set ps. prop_alive \<sigma> p"
  obtains (hit) i where "find_property G \<sigma> iri ps = Inr (Some i)" "find (names G \<sigma> iri) ps = Some (ps ! i)"
      "list_ex (names G \<sigma> iri) ps"
  | (miss) "find_property G \<sigma> iri ps = Inr None" "find (names G \<sigma> iri) ps = None" "\<not> list_ex (names G \<sigma> iri) ps"
proof -
  from find_property_find [OF assms, of G iri] obtain r
    where r: "find_property G \<sigma> iri ps = Inr r" "map_option (\<lambda>i. ps ! i) r = find (names G \<sigma> iri) ps" by blast
  show thesis
  proof (cases r)
    case None
    with r show thesis by (intro miss) (auto simp: find_Some_iff_ex [symmetric])
  next
    case (Some i)
    with r have "find (names G \<sigma> iri) ps = Some (ps ! i)" by simp
    moreover from this have "list_ex (names G \<sigma> iri) ps" using find_Some_iff_ex [of "names G \<sigma> iri" ps] by simp
    ultimately show thesis using r(1) Some by (intro hit) simp_all
  qed
qed

lemma inherited_simps [simp]: "inherited [] = []" "inherited (h # hs) = h_properties h @ inherited hs"
  by (simp_all add: inherited_def)

lemma ContainsProperty_inherits:
  "ancestry \<sigma> a hs \<Longrightarrow> \<forall>p \<in> set (inherited hs). prop_alive \<sigma> p \<Longrightarrow>
     ContainsProperty G \<sigma> a iri True = Some (Inr (list_ex (names G \<sigma> iri) (inherited hs)))"
proof (induction rule: ancestry.induct)
  case (root a h)
  then have "\<forall>p \<in> set (h_properties h). prop_alive \<sigma> p" by simp
  then show ?case using root by (cases rule: find_property_cases [where G = G and iri = iri]) (simp_all add: lookup_simps holder_def)
next
  case (up a h b hs)
  then have "\<forall>p \<in> set (h_properties h). prop_alive \<sigma> p" by simp
  then show ?case using up
    by (cases rule: find_property_cases [where G = G and iri = iri]) (simp_all add: ContainsProperty.simps [of G \<sigma> a] holder_def)
qed

lemma PropertyMatching_inherits:
  "ancestry \<sigma> a hs \<Longrightarrow> \<forall>p \<in> set (inherited hs). prop_alive \<sigma> p \<Longrightarrow>
     PropertyMatching G \<sigma> a iri True = Some (Inr (case find (names G \<sigma> iri) (inherited hs) of None \<Rightarrow> None | Some p \<Rightarrow> p))"
proof (induction rule: ancestry.induct)
  case (root a h)
  then have "\<forall>p \<in> set (h_properties h). prop_alive \<sigma> p" by simp
  then show ?case using root by (cases rule: find_property_cases [where G = G and iri = iri]) (simp_all add: lookup_simps holder_def find_append)
next
  case (up a h b hs)
  then have "\<forall>p \<in> set (h_properties h). prop_alive \<sigma> p" by simp
  then show ?case using up
    by (cases rule: find_property_cases [where G = G and iri = iri]) (simp_all add: PropertyMatching.simps [of G \<sigma> a] holder_def find_append)
qed

lemma PropertiesMatching_inherits:
  assumes "iri_url iri = Some u"
  shows "ancestry \<sigma> a hs \<Longrightarrow> \<forall>p \<in> set (inherited hs). prop_alive \<sigma> p \<Longrightarrow>
     PropertiesMatching G \<sigma> a iri True = Some (Inr (if g_possibly_invalid G u = [] then []
       else filter (\<lambda>p. names G \<sigma> iri p \<or> refined G \<sigma> iri p) (inherited hs)))"
proof (induction rule: ancestry.induct)
  case (root a h)
  then show ?case using assms
    by (simp add: lookup_simps holder_def BuildPropertyList_def IRI_IsEmpty_def on_url_def build_list_filter)
next
  case (up a h b hs)
  then show ?case using assms
    by (simp add: PropertiesMatching.simps [of G \<sigma> a] holder_def BuildPropertyList_def IRI_IsEmpty_def on_url_def build_list_filter)
qed

lemma MakePropertyIRI_inherits:
  "ancestry \<sigma> a hs \<Longrightarrow>
     MakePropertyIRI G \<sigma> a reference prefix = Some (Inr (case find (\<lambda>h. h_vocabulary h prefix \<noteq> None) hs of
       None \<Rightarrow> IRI_empty G | Some h \<Rightarrow> IRI_of_string G (the (h_vocabulary h prefix) @ reference)))"
proof (induction rule: ancestry.induct)
  case (root a h)
  then show ?case by (auto simp: lookup_simps holder_def split: option.split)
next
  case (up a h b hs)
  then show ?case by (auto simp: MakePropertyIRI.simps [of G \<sigma> a] holder_def split: option.split)
qed

text \<open>Parents in a circle: a lookup that finds nothing in them does not return.\<close>

lemma ContainsProperty_circle:
  assumes "\<And>a. a \<in> S \<Longrightarrow> \<exists>h b. ps_holders \<sigma> a = Some h \<and> lock (ps_holders \<sigma>) (h_parent h) = Some b \<and> b \<in> S
      \<and> find_property G \<sigma> iri (h_properties h) = Inr None"
    and "a \<in> S"
  shows "ContainsProperty G \<sigma> a iri True = None"
proof (rule ccontr)
  assume "ContainsProperty G \<sigma> a iri True \<noteq> None"
  then obtain y where y: "ContainsProperty G \<sigma> a iri True = Some y" by auto
  let ?P = "\<lambda>G' \<sigma>' x i l (r :: bool cxx). \<not> (G' = G \<and> \<sigma>' = \<sigma> \<and> i = iri \<and> l \<and> x \<in> S)"
  have "?P G \<sigma> a iri True y"
  proof (rule ContainsProperty.raw_induct [where P = ?P, rotated], rule y)
    show "?P G' \<sigma>' x i l r"
      if IH: "\<And>G' \<sigma>' x i l r. rec G' \<sigma>' x i l = Some r \<Longrightarrow> ?P G' \<sigma>' x i l r"
        and body: "(case holder \<sigma>' x of
             Inl e \<Rightarrow> Some (Inl e)
           | Inr h \<Rightarrow> (case find_property G' \<sigma>' i (h_properties h) of
               Inl e \<Rightarrow> Some (Inl e)
             | Inr None \<Rightarrow> if l then (case lock (ps_holders \<sigma>') (h_parent h) of
                   None \<Rightarrow> Some (Inr False) | Some b \<Rightarrow> rec G' \<sigma>' b i l) else Some (Inr False)
             | Inr (Some _) \<Rightarrow> Some (Inr True))) = Some r"
      for rec G' \<sigma>' x i l r
    proof
      assume e: "G' = G \<and> \<sigma>' = \<sigma> \<and> i = iri \<and> l \<and> x \<in> S"
      with assms(1) [of x] obtain h b where h: "ps_holders \<sigma> x = Some h" "lock (ps_holders \<sigma>) (h_parent h) = Some b" "b \<in> S"
          "find_property G \<sigma> iri (h_properties h) = Inr None" by blast
      with e body have "rec G \<sigma> b iri True = Some r" by (simp add: holder_def)
      from IH [OF this] h(3) show False by simp
    qed
  qed
  then show False using assms(2) by simp
qed

text \<open>The type of a property that was given an IRI of the Dublin Core elements is read from the fragment, which these IRIs do not have.\<close>

lemma DCTypeFromIRI_no_fragment:
  assumes "IRI_IsEmpty G iri = Inr False" "IRI_Fragment G iri = Inr []"
  shows "DCTypeFromIRI G iri = Inr DC_Custom"
  using assms by (simp add: DCTypeFromIRI_def NameToIDMap_def)

lemma DCType_names: "map_of IDToNameMap t = Some n \<Longrightarrow> map_of NameToIDMap n = Some t"
proof -
  have "list_all (\<lambda>(t, n). map_of NameToIDMap n = Some t) IDToNameMap" by code_simp
  moreover assume "map_of IDToNameMap t = Some n"
  then have "(t, n) \<in> set IDToNameMap" by (rule map_of_SomeD)
  ultimately show ?thesis by (auto simp: list_all_iff)
qed

text \<open>Erasing at the size of the list passes the check and erases the end.\<close>

lemma ErasePropertyAt_end:
  "ps_holders \<sigma> a = Some h \<Longrightarrow> ErasePropertyAt \<sigma> a (length (h_properties h)) = Inl Undefined"
  by (simp add: ErasePropertyAt_def holder_def)

text \<open>C18: a holder inherits from all its ancestors: when the chain of parents ends, every lookup returns, and works on the properties
  of the holder followed by those of its parent and so on.  \<^verbatim>\<open>ContainsProperty\<close> tells whether one of them has the identifier,
  \<^verbatim>\<open>PropertyMatching\<close> returns the first that has it, \<^verbatim>\<open>PropertiesMatching\<close> all that have it or are refined by an extension that has it,
  in order, and none for an empty IRI; a prefix is expanded with the vocabulary of the nearest holder that declares it.\<close>

theorem property_lookup_inherits:
  assumes "ancestry \<sigma> a hs" and "\<forall>p \<in> set (inherited hs). prop_alive \<sigma> p" and "iri_url iri = Some u"
  shows "ContainsProperty G \<sigma> a iri True = Some (Inr (list_ex (names G \<sigma> iri) (inherited hs)))
    \<and> PropertyMatching G \<sigma> a iri True = Some (Inr (case find (names G \<sigma> iri) (inherited hs) of None \<Rightarrow> None | Some p \<Rightarrow> p))
    \<and> PropertiesMatching G \<sigma> a iri True = Some (Inr (if g_possibly_invalid G u = [] then []
        else filter (\<lambda>p. names G \<sigma> iri p \<or> refined G \<sigma> iri p) (inherited hs)))
    \<and> MakePropertyIRI G \<sigma> a reference prefix = Some (Inr (case find (\<lambda>h. h_vocabulary h prefix \<noteq> None) hs of
        None \<Rightarrow> IRI_empty G | Some h \<Rightarrow> IRI_of_string G (the (h_vocabulary h prefix) @ reference)))"
  using ContainsProperty_inherits [OF assms(1,2)] PropertyMatching_inherits [OF assms(1,2)]
    PropertiesMatching_inherits [OF assms(3,1,2)] MakePropertyIRI_inherits [OF assms(1)]
  by simp

text \<open>A holder that declares a prefix, under a package with a title.\<close>

definition sample_package_holder :: PropertyHolder where
  "sample_package_holder = new_PropertyHolder\<lparr>h_properties := [Some 0]\<rparr>"

definition sample_item_holder :: PropertyHolder where
  "sample_item_holder = (new_PropertyHolder_under (Some 0))\<lparr>h_vocabulary := [''my'' \<mapsto> ''x#'']\<rparr>"

definition sample_store :: "(string \<times> string option) pstore" where
  "sample_store = \<lparr>ps_exts = Map.empty,
     ps_props = [0 \<mapsto> SetDCType scheme_gurl (new_Property scheme_gurl (Some 0)) DC_Title],
     ps_holders = [0 \<mapsto> sample_package_holder, 1 \<mapsto> sample_item_holder]\<rparr>"

theorem property_lookup_inherits_witness:
  "PropertyMatching scheme_gurl sample_store 1 (IRIForDCType scheme_gurl DC_Title) True = Some (Inr (Some 0))
   \<and> MakePropertyIRI scheme_gurl sample_store 1 ''title'' ''dcterms'' =
       Some (Inr (IRI_of_string scheme_gurl ''http://purl.org/dc/terms/title''))"
proof -
  let ?iri = "IRIForDCType scheme_gurl DC_Title"
  have a0: "ancestry sample_store 0 [sample_package_holder]"
    by (rule ancestry.root) (simp_all add: sample_store_def sample_package_holder_def new_PropertyHolder_def lock_def)
  have a1: "ancestry sample_store 1 [sample_item_holder, sample_package_holder]"
    by (rule ancestry.up [OF _ _ a0])
      (simp_all add: sample_store_def sample_item_holder_def new_PropertyHolder_under_def new_PropertyHolder_def lock_def)
  have al: "\<forall>p \<in> set (inherited [sample_item_holder, sample_package_holder]). prop_alive sample_store p"
    by (simp add: sample_item_holder_def sample_package_holder_def new_PropertyHolder_under_def new_PropertyHolder_def
        prop_alive_def sample_store_def SetDCType_def new_Property_def)
  obtain u where u: "iri_url ?iri = Some u" by (simp add: IRIForDCType_def IDToNameMap_def IRI_of_string_def)
  have n: "names scheme_gurl sample_store ?iri (Some 0)"
    using u by (simp add: names_def sample_store_def SetDCType_def new_Property_def IRI_eq_def)
  from property_lookup_inherits [OF a1 al u, of scheme_gurl "''title''" "''dcterms''"] n show ?thesis
    by (simp add: sample_item_holder_def sample_package_holder_def new_PropertyHolder_under_def new_PropertyHolder_def
        ReservedVocabularies_def)
qed

end
