(* ===== verification/Manifest.thy ===== *)
theory Manifest
  imports EPUB_Error "HOL-Library.List_Lexorder" "HOL-Library.Char_ord"
begin

unbundle bit_operations_syntax

text \<open>
  The manifest of a package, \<^verbatim>\<open>ePub/manifest.{h,cpp}\<close>: the bit set of an item's properties with its textual form, the items,
  and the table of items by identifier with the fallback chains through it.  The table is a \<^verbatim>\<open>std::map\<close>, here the list of
  its pairs in the order of the keys; a pointer to an item of the table is the item.  Characters are bytes and the classic locale is
  in effect.
\<close>

section \<open>Item properties\<close>

type_synonym item_properties = u32

definition CoverImage :: u32 where "CoverImage = 1"
definition ContainsMathML :: u32 where "ContainsMathML = 2"
definition Navigation :: u32 where "Navigation = 4"
definition HasRemoteResources :: u32 where "HasRemoteResources = 8"
definition HasScriptedContent :: u32 where "HasScriptedContent = 16"
definition ContainsSVG :: u32 where "ContainsSVG = 32"
definition ContainsSwitch :: u32 where "ContainsSwitch = 64"
definition AllPropertiesMask :: u32 where "AllPropertiesMask = 127"

lemmas property_defs = CoverImage_def ContainsMathML_def Navigation_def HasRemoteResources_def HasScriptedContent_def
  ContainsSVG_def ContainsSwitch_def AllPropertiesMask_def

definition PropertyLookupTable :: "(string \<times> u32) list" where
  "PropertyLookupTable = [(''cover-image'', CoverImage), (''mathml'', ContainsMathML), (''nav'', Navigation),
     (''remote-resources'', HasRemoteResources), (''scripted'', HasScriptedContent), (''svg'', ContainsSVG),
     (''switch'', ContainsSwitch)]"

definition ascii_lower :: "char \<Rightarrow> char" where
  "ascii_lower c = (let n = of_char c :: nat in if 65 \<le> n \<and> n \<le> 90 then char_of (n + 32) else c)"

definition tolower :: "string \<Rightarrow> string" where
  "tolower = map ascii_lower"

text \<open>The matches of \<^verbatim>\<open>\w+(-\w+)?\<close>, from left to right.\<close>

definition word_char :: "char \<Rightarrow> bool" where
  "word_char c \<longleftrightarrow> (let n = of_char c :: nat in (48 \<le> n \<and> n \<le> 57) \<or> (65 \<le> n \<and> n \<le> 90) \<or> (97 \<le> n \<and> n \<le> 122) \<or> n = 95)"

definition word_match :: "string \<Rightarrow> string \<times> string" where
  "word_match s = (let w = takeWhile word_char s; r = dropWhile word_char s in
     case r of
       c # d # r' \<Rightarrow> if c = CHR ''-'' \<and> word_char d then (w @ c # takeWhile word_char (d # r'), dropWhile word_char (d # r')) else (w, r)
     | _ \<Rightarrow> (w, r))"

lemma word_match_shorter: "s \<noteq> [] \<Longrightarrow> word_char (hd s) \<Longrightarrow> length (snd (word_match s)) < length s"
proof -
  assume "s \<noteq> []" "word_char (hd s)"
  then have "length (dropWhile word_char s) < length s"
    by (cases s) (simp_all add: less_Suc_eq_le length_dropWhile_le)
  moreover have "length (dropWhile word_char r) < n" if "Suc (Suc (length r)) < n" for r n
    using length_dropWhile_le [of word_char r] that by linarith
  ultimately show ?thesis by (auto simp: word_match_def Let_def split: list.split if_splits)
qed

function words :: "string \<Rightarrow> string list" where
  "words [] = []"
| "words (c # s) = (if word_char c then fst (word_match (c # s)) # words (snd (word_match (c # s))) else words s)"
  by pat_completeness auto
termination
proof (relation "measure length", goal_cases)
  case (2 c s)
  then show ?case using word_match_shorter [of "c # s"] by simp
qed simp_all

definition assign_word :: "u32 \<Rightarrow> string \<Rightarrow> u32" where
  "assign_word p w = (case map_of PropertyLookupTable w of None \<Rightarrow> p | Some v \<Rightarrow> p OR v)"

text \<open>\<^verbatim>\<open>operator=(const string&)\<close>: the words are added to the bits that are there.\<close>

definition ItemProperties_assign :: "u32 \<Rightarrow> string \<Rightarrow> u32" where
  "ItemProperties_assign p attrStr = (if attrStr = [] then 0 else foldl assign_word p (words (tolower attrStr)))"

definition ItemProperties_of_string :: "string \<Rightarrow> u32" where
  "ItemProperties_of_string attrStr = ItemProperties_assign 0 attrStr"

text \<open>From an IRI, given its fragment and its last path component.\<close>

definition ItemProperties_of_IRI :: "string \<Rightarrow> string \<Rightarrow> u32" where
  "ItemProperties_of_IRI fragment lastPath = ItemProperties_assign 0 (if fragment = [] then lastPath else fragment)"

definition ip_HasProperty :: "u32 \<Rightarrow> u32 \<Rightarrow> bool" where
  "ip_HasProperty p q \<longleftrightarrow> p AND q = q"

definition ip_not :: "u32 \<Rightarrow> u32" where
  "ip_not p = NOT p AND AllPropertiesMask"

text \<open>\<^verbatim>\<open>str\<close>: the loop over the bits, with \<open>test\<close> the power \<open>k\<close> of 2 (the bound on \<open>k\<close> is not reached), the \<^verbatim>\<open>switch\<close>, and the joining loop, which starts again at the first word.\<close>

definition bit_name :: "u32 \<Rightarrow> string option" where
  "bit_name test = (if test = CoverImage then Some ''cover-image'' else if test = ContainsMathML then Some ''mathml''
     else if test = Navigation then Some ''nav'' else if test = HasRemoteResources then Some ''remote-resources''
     else if test = HasScriptedContent then Some ''scripted'' else if test = ContainsSVG then Some ''svg''
     else if test = ContainsSwitch then Some ''switch'' else None)"

function bit_names :: "u32 \<Rightarrow> nat \<Rightarrow> string list" where
  "bit_names p k = (if \<not> push_bit k 1 < AllPropertiesMask \<or> k \<ge> 32 then []
     else (if p AND push_bit k 1 = push_bit k 1 then (case bit_name (push_bit k 1) of None \<Rightarrow> [] | Some w \<Rightarrow> [w]) else []) @
       bit_names p (Suc k))"
  by auto
termination by (relation "measure (\<lambda>(p, k). 32 - k)") auto

definition ItemProperties_str :: "u32 \<Rightarrow> string" where
  "ItemProperties_str p = (if p = 0 then [] else case bit_names p 0 of [] \<Rightarrow> []
     | w # ws \<Rightarrow> w @ concat (map (\<lambda>v. '', '' @ v) (w # ws)))"

section \<open>The textual form\<close>

definition table_words :: "string list" where
  "table_words = map fst PropertyLookupTable"

lemma table_words_simps [simp]:
  "table_words = [''cover-image'', ''mathml'', ''nav'', ''remote-resources'', ''scripted'', ''svg'', ''switch'']"
  by (simp add: table_words_def PropertyLookupTable_def)

declare table_words_simps [simp del]

lemma table_entry:
  assumes "k < 7"
  shows "PropertyLookupTable ! k = (table_words ! k, 2 ^ k)" and "bit_name (2 ^ k) = Some (table_words ! k)" and "(2 ^ k :: u32) < 127"
proof -
  have "list_all (\<lambda>k. PropertyLookupTable ! k = (table_words ! k, 2 ^ k) \<and> bit_name (2 ^ k) = Some (table_words ! k) \<and>
      (2 ^ k :: u32) < 127) [0..<7]"
    by code_simp
  then show "PropertyLookupTable ! k = (table_words ! k, 2 ^ k)" "bit_name (2 ^ k) = Some (table_words ! k)" "(2 ^ k :: u32) < 127"
    using assms by (simp_all add: list_all_iff)
qed

lemma bit_names_table:
  "bit_names p 0 = map fst (filter (\<lambda>(w, b). ip_HasProperty p b) PropertyLookupTable)"
proof -
  have n: "length PropertyLookupTable = 7" by (simp add: PropertyLookupTable_def)
  have "bit_names p k = map fst (filter (\<lambda>(w, b). ip_HasProperty p b) (drop k PropertyLookupTable))" if "k \<le> 7" for k
    using that
  proof (induction k rule: inc_induct)
    case base
    show ?case using n by (subst bit_names.simps) (simp add: AllPropertiesMask_def push_bit_eq_mult)
  next
    case (step k)
    have "bit_names p k = (if ip_HasProperty p (2 ^ k) then [table_words ! k] else []) @ bit_names p (Suc k)"
      using step.hyps table_entry [of k]
      by (subst bit_names.simps) (simp add: AllPropertiesMask_def push_bit_eq_mult ip_HasProperty_def del: bit_names.simps)
    moreover have "drop k PropertyLookupTable = (table_words ! k, 2 ^ k) # drop (Suc k) PropertyLookupTable"
      using Cons_nth_drop_Suc [of k PropertyLookupTable] n table_entry(1) [of k] step.hyps by simp
    ultimately show ?case using step.IH by (simp del: bit_names.simps)
  qed
  from this [of 0] show ?thesis by simp
qed

declare bit_names.simps [simp del]

lemma word_match_plain:
  assumes "list_all word_char a" and "t = [] \<or> hd t = CHR '',''"
  shows "word_match (a @ t) = (a, t)"
proof -
  have "\<not> word_char (CHR '','')" by code_simp
  then have "takeWhile word_char (a @ t) = a" "dropWhile word_char (a @ t) = t"
    using assms by (cases t; auto simp: list_all_iff takeWhile_append dropWhile_append dropWhile_eq_Nil_conv takeWhile_eq_all_conv)+
  then show ?thesis using assms(2) by (auto simp: word_match_def Let_def split: list.split)
qed

lemma word_match_hyphen:
  assumes "list_all word_char a" and "list_all word_char b" and "b \<noteq> []" and "t = [] \<or> hd t = CHR '',''"
  shows "word_match (a @ CHR ''-'' # b @ t) = (a @ CHR ''-'' # b, t)"
proof -
  have c: "\<not> word_char (CHR '','')" "\<not> word_char (CHR ''-'')" by code_simp+
  have "takeWhile word_char (a @ CHR ''-'' # b @ t) = a" "dropWhile word_char (a @ CHR ''-'' # b @ t) = CHR ''-'' # b @ t"
    using assms(1) c(2) by (auto simp: list_all_iff takeWhile_append dropWhile_append dropWhile_eq_Nil_conv takeWhile_eq_all_conv)
  moreover have "takeWhile word_char (b @ t) = b" "dropWhile word_char (b @ t) = t"
    using assms(2,4) c(1) by (cases t; auto simp: list_all_iff takeWhile_append dropWhile_append dropWhile_eq_Nil_conv takeWhile_eq_all_conv)+
  moreover obtain d b' where "b = d # b'" "word_char d" using assms(2,3) by (cases b) auto
  ultimately show ?thesis by (simp add: word_match_def Let_def)
qed

lemma words_table_word:
  assumes "w \<in> set table_words" and "t = [] \<or> hd t = CHR '',''"
  shows "words (w @ t) = w # words t"
proof -
  have p: "list_all (list_all word_char) [''mathml'', ''nav'', ''scripted'', ''svg'', ''switch'', ''cover'', ''image'', ''remote'', ''resources'']"
    by code_simp
  have "word_match (w @ t) = (w, t)"
    using assms(1) p word_match_plain [OF _ assms(2), of w] word_match_hyphen [OF _ _ _ assms(2), of "''cover''" "''image''"]
      word_match_hyphen [OF _ _ _ assms(2), of "''remote''" "''resources''"]
    unfolding table_words_simps by auto
  moreover have "w \<noteq> [] \<and> word_char (hd w)" using assms(1) p unfolding table_words_simps by auto
  ultimately show ?thesis by (cases w) simp_all
qed

lemma words_joined:
  "set vs \<subseteq> set table_words \<Longrightarrow> words (concat (map (\<lambda>v. '', '' @ v) vs)) = vs"
proof (induction vs)
  case (Cons v vs)
  let ?t = "concat (map (\<lambda>v. '', '' @ v) vs)"
  have "?t = [] \<or> hd ?t = CHR '',''" by (cases vs) simp_all
  then have "words (v @ ?t) = v # words ?t" using Cons.prems by (intro words_table_word) auto
  then show ?case using Cons by (simp add: word_char_def)
qed simp

lemma tolower_joined:
  "set vs \<subseteq> set table_words \<Longrightarrow> tolower (concat (map (\<lambda>v. '', '' @ v) vs)) = concat (map (\<lambda>v. '', '' @ v) vs)"
proof (induction vs)
  case (Cons v vs)
  have "map ascii_lower v = v" using Cons.prems unfolding table_words_simps by (auto simp: ascii_lower_def)
  then show ?case using Cons by (simp add: tolower_def ascii_lower_def)
qed (simp add: tolower_def)

lemma assign_words_bit:
  "bit (foldl assign_word p ws) n \<longleftrightarrow> bit p n \<or> (\<exists>w v. w \<in> set ws \<and> map_of PropertyLookupTable w = Some v \<and> bit v n)"
proof (induction ws arbitrary: p)
  case (Cons w ws)
  have "bit (assign_word p w) n \<longleftrightarrow> bit p n \<or> (\<exists>v. map_of PropertyLookupTable w = Some v \<and> bit v n)"
    by (simp add: assign_word_def bit_or_iff split: option.split)
  then show ?case by (simp only: foldl_Cons Cons.IH list.set insert_iff) blast
qed simp

lemma table_word_bits:
  "map_of PropertyLookupTable w = Some v \<longleftrightarrow> (w, v) \<in> set PropertyLookupTable"
  by (rule map_of_eq_Some_iff) (simp add: PropertyLookupTable_def)

lemma ip_HasProperty_bit: "k < 32 \<Longrightarrow> ip_HasProperty p (2 ^ k) \<longleftrightarrow> bit p k"
  by (auto simp: ip_HasProperty_def bit_eq_iff [where 'a = "32 word"] bit_and_iff bit_exp_iff possible_bit_def)

lemma table_mask_bits:
  "(\<exists>(w, v) \<in> set PropertyLookupTable. ip_HasProperty p v \<and> bit v n) \<longleftrightarrow> bit (p AND AllPropertiesMask) n"
proof -
  have m: "AllPropertiesMask = mask 7" by (simp add: AllPropertiesMask_def mask_eq_exp_minus_1)
  have t: "PropertyLookupTable = map (\<lambda>k. (table_words ! k, 2 ^ k)) [0..<7]"
    by (rule nth_equalityI) (simp_all add: table_entry, simp_all add: PropertyLookupTable_def table_entry [unfolded PropertyLookupTable_def])
  show ?thesis unfolding t m
    by (auto simp: ip_HasProperty_bit bit_and_iff bit_mask_iff bit_exp_iff possible_bit_def)
qed

text \<open>C19: The textual form of a set of properties, suitable for a \<open>properties\<close> attribute, is read back as the same set;
  bits beyond the seven properties are dropped.\<close>

theorem item_properties_roundtrip: "ItemProperties_of_string (ItemProperties_str p) = p AND AllPropertiesMask"
proof -
  let ?ws = "bit_names p 0"
  have sub: "set ?ws \<subseteq> set table_words" by (simp add: bit_names_table table_words_def) (rule subsetI, auto)
  have f: "foldl assign_word 0 ws = p AND AllPropertiesMask" if "set ws = set ?ws" for ws
  proof (rule bit_eqI)
    fix n assume "possible_bit TYPE(32 word) n"
    have d: "(w, v) \<in> set PropertyLookupTable \<Longrightarrow> (w, v') \<in> set PropertyLookupTable \<Longrightarrow> v = v'" for w v v'
      by (simp only: table_word_bits [symmetric] option.inject)
    have "(\<exists>w v. w \<in> set ?ws \<and> (w, v) \<in> set PropertyLookupTable \<and> bit v n) \<longleftrightarrow> (\<exists>(w, v) \<in> set PropertyLookupTable. ip_HasProperty p v \<and> bit v n)"
      by (force simp: bit_names_table dest: d)
    also have "\<dots> \<longleftrightarrow> bit (p AND AllPropertiesMask) n" by (rule table_mask_bits)
    finally show "bit (foldl assign_word 0 ws) n = bit (p AND AllPropertiesMask) n"
      using that by (simp add: assign_words_bit table_word_bits)
  qed
  show ?thesis
  proof (cases ?ws)
    case Nil
    then have "p AND AllPropertiesMask = 0" using f [of "[]"] by simp
    then show ?thesis using Nil by (simp add: ItemProperties_str_def ItemProperties_of_string_def ItemProperties_assign_def)
  next
    case (Cons w ws)
    let ?t = "concat (map (\<lambda>v. '', '' @ v) (w # ws))"
    have ws: "set (w # ws) \<subseteq> set table_words" using sub Cons by simp
    have w: "w \<in> set table_words" "w \<noteq> []" using ws unfolding table_words_simps by auto
    have p: "p \<noteq> 0" using Cons by (auto simp: bit_names_table PropertyLookupTable_def property_defs ip_HasProperty_def)
    have "tolower w = w" using w(1) unfolding table_words_simps by (auto simp: tolower_def ascii_lower_def)
    then have l: "tolower (w @ ?t) = w @ ?t" using tolower_joined [OF ws] by (simp only: tolower_def map_append)
    have "words (w @ ?t) = w # w # ws" using words_table_word [OF w(1), of ?t] words_joined [OF ws] by simp
    moreover have "foldl assign_word 0 (w # w # ws) = p AND AllPropertiesMask" by (rule f) (simp add: Cons)
    moreover have "ItemProperties_str p = w @ ?t" using p by (simp only: ItemProperties_str_def Cons list.case if_False)
    ultimately show ?thesis using l w(2)
      by (simp only: ItemProperties_of_string_def ItemProperties_assign_def) simp
  qed
qed

section \<open>Items\<close>

record manifest_item =
  mi_id :: string
  mi_href :: string
  mi_mediaType :: string
  mi_mediaOverlayID :: string
  mi_fallbackID :: string
  mi_properties :: u32

type_synonym attributes = "(string \<times> string) list"

definition getAttr :: "attributes \<Rightarrow> string \<Rightarrow> string" where
  "getAttr attrs name = (case map_of attrs name of None \<Rightarrow> [] | Some v \<Rightarrow> v)"

text \<open>None when the method returns \<^verbatim>\<open>false\<close>; the object is dropped then.\<close>

definition ManifestItem_ParseXML :: "attributes \<Rightarrow> manifest_item option" where
  "ManifestItem_ParseXML node =
     (if getAttr node ''id'' = [] then None
      else if getAttr node ''href'' = [] then None
      else if getAttr node ''media-type'' = [] then None
      else Some \<lparr>mi_id = getAttr node ''id'', mi_href = getAttr node ''href'', mi_mediaType = getAttr node ''media-type'',
        mi_mediaOverlayID = getAttr node ''media-overlay'', mi_fallbackID = getAttr node ''fallback'',
        mi_properties = ItemProperties_of_string (getAttr node ''properties'')\<rparr>)"

text \<open>With a query or a fragment the code takes the part from the empty \<open>path\<close>, not from the reference: at position 0
  that is the empty text, otherwise the conversion of the position to bytes reads beyond its end.\<close>

definition BaseHref :: "manifest_item \<Rightarrow> string cxx" where
  "BaseHref it = (let s = length (takeWhile (\<lambda>c. c \<noteq> CHR ''#'' \<and> c \<noteq> CHR ''?'') (mi_href it)) in
     if s = length (mi_href it) then Inr (mi_href it) else if s = 0 then Inr [] else Inl Undefined)"

definition AbsolutePath :: "string \<Rightarrow> manifest_item \<Rightarrow> string cxx" where
  "AbsolutePath pathBase it = bind_cxx (BaseHref it) (\<lambda>h. Inr (pathBase @ h))"

definition HasProperty_name :: "manifest_item \<Rightarrow> string \<Rightarrow> bool" where
  "HasProperty_name it property = (let itemProps = ItemProperties_of_string property in
     if itemProps = 0 then False else ip_HasProperty (mi_properties it) itemProps)"

definition HasProperty_value :: "manifest_item \<Rightarrow> u32 \<Rightarrow> bool" where
  "HasProperty_value it prop = (if prop = 0 then False else ip_HasProperty (mi_properties it) prop)"

section \<open>The table\<close>

type_synonym manifest = "(string \<times> manifest_item) list"

text \<open>\<^verbatim>\<open>std::map::emplace\<close>: a key that is there keeps its value.\<close>

fun emplace :: "string \<Rightarrow> 'v \<Rightarrow> (string \<times> 'v) list \<Rightarrow> (string \<times> 'v) list" where
  "emplace k v [] = [(k, v)]"
| "emplace k v ((k', v') # m) = (if k = k' then (k', v') # m else if k < k' then (k, v) # (k', v') # m else (k', v') # emplace k v m)"

definition ManifestItemWithID :: "manifest \<Rightarrow> string \<Rightarrow> manifest_item option" where
  "ManifestItemWithID mf ident = map_of mf ident"

definition MediaOverlay :: "manifest \<Rightarrow> manifest_item \<Rightarrow> manifest_item option" where
  "MediaOverlay mf it = (if mi_mediaOverlayID it = [] then None else ManifestItemWithID mf (mi_mediaOverlayID it))"

definition Fallback :: "manifest \<Rightarrow> manifest_item \<Rightarrow> manifest_item option" where
  "Fallback mf it = (if mi_fallbackID it = [] then None else ManifestItemWithID mf (mi_fallbackID it))"

fun load_manifest :: "attributes list \<Rightarrow> manifest \<Rightarrow> manifest" where
  "load_manifest [] mf = mf"
| "load_manifest (node # nodes) mf = (case ManifestItem_ParseXML node of
     None \<Rightarrow> load_manifest nodes mf
   | Some p \<Rightarrow> load_manifest nodes (emplace (mi_id p) p mf))"

lemma emplace_keys: "set (map fst (emplace k v m)) = insert k (set (map fst m))"
  by (induction k v m rule: emplace.induct) (simp_all add: insert_commute)

lemma emplace_sorted: "sorted_wrt (<) (map fst m) \<Longrightarrow> sorted_wrt (<) (map fst (emplace k v m))"
proof (induction m)
  case (Cons x m)
  obtain k' v' where x: "x = (k', v')" by (cases x)
  have "\<forall>y \<in> set (map fst (emplace k v m)). k' < y" if "k' < k" using Cons.prems that unfolding emplace_keys x by auto
  then show ?case using Cons x by (auto simp: not_less order.strict_iff_order)
qed simp

lemma map_of_emplace:
  "sorted_wrt (<) (map fst m) \<Longrightarrow> map_of (emplace k v m) = (if map_of m k = None then (map_of m)(k \<mapsto> v) else map_of m)"
proof (induction m)
  case (Cons x m)
  obtain k' v' where x: "x = (k', v')" by (cases x)
  have "map_of m k = None" if "k < k'"
  proof -
    have "k \<notin> set (map fst m)" using Cons.prems that by (auto simp: x dest: order.asym)
    then show ?thesis by (simp add: map_of_eq_None_iff)
  qed
  then show ?case using Cons x by (auto simp: fun_eq_iff)
qed simp

definition manifest_ok :: "manifest \<Rightarrow> bool" where
  "manifest_ok mf \<longleftrightarrow> sorted_wrt (<) (map fst mf) \<and> (\<forall>(k, it) \<in> set mf. mi_id it = k \<and> k \<noteq> [] \<and> mi_href it \<noteq> [] \<and> mi_mediaType it \<noteq> [])"

lemma emplace_set: "set (emplace k v m) \<subseteq> insert (k, v) (set m)"
  by (induction m) (auto split: if_splits)

lemma load_manifest_ok: "manifest_ok mf \<Longrightarrow> manifest_ok (load_manifest nodes mf)"
proof (induction nodes arbitrary: mf)
  case (Cons node nodes)
  show ?case
  proof (cases "ManifestItem_ParseXML node")
    case (Some p)
    then have "mi_id p \<noteq> []" "mi_href p \<noteq> []" "mi_mediaType p \<noteq> []" by (auto simp: ManifestItem_ParseXML_def split: if_splits)
    then have "manifest_ok (emplace (mi_id p) p mf)"
      using Cons.prems emplace_set [of "mi_id p" p mf] emplace_sorted [of mf] by (fastforce simp: manifest_ok_def)
    then show ?thesis using Cons.IH Some by simp
  qed (use Cons in simp)
qed simp

text \<open>The items that the elements describe, in document order.\<close>

definition parsed_items :: "attributes list \<Rightarrow> manifest_item list" where
  "parsed_items nodes = List.map_filter ManifestItem_ParseXML nodes"

lemma parsed_items_simps [simp]:
  "parsed_items [] = []"
  "parsed_items (node # nodes) = (case ManifestItem_ParseXML node of None \<Rightarrow> parsed_items nodes | Some p \<Rightarrow> p # parsed_items nodes)"
  by (simp_all add: parsed_items_def split: option.split)

lemma load_manifest_lookup:
  "manifest_ok mf \<Longrightarrow> map_of (load_manifest nodes mf) k =
     (case map_of mf k of Some it \<Rightarrow> Some it | None \<Rightarrow> find (\<lambda>it. mi_id it = k) (parsed_items nodes))"
proof (induction nodes arbitrary: mf)
  case (Cons node nodes)
  show ?case
  proof (cases "ManifestItem_ParseXML node")
    case (Some p)
    have "manifest_ok (emplace (mi_id p) p mf)" using load_manifest_ok [OF Cons.prems, of "[node]"] Some by simp
    moreover have "map_of (emplace (mi_id p) p mf) = (if map_of mf (mi_id p) = None then (map_of mf)(mi_id p \<mapsto> p) else map_of mf)"
      by (rule map_of_emplace) (use Cons.prems in \<open>simp add: manifest_ok_def\<close>)
    ultimately show ?thesis using Cons.IH Some by (auto split: option.splits)
  qed (use Cons in \<open>simp split: option.splits\<close>)
qed (simp split: option.split)

section \<open>Fallback chains\<close>

text \<open>
  The check of one chain when a package is unpacked: \<open>idents\<close> holds the identifier at which the walk started.
  The walk ends when the chain ends or comes back to an identifier of \<open>idents\<close>.
\<close>

partial_function (option) fallback_walk :: "handler \<Rightarrow> manifest_item option \<Rightarrow> manifest \<Rightarrow> (string \<Rightarrow> bool) \<Rightarrow> unit run" where
  "fallback_walk h item mf idents = (case item of None \<Rightarrow> Some (Inr ())
     | Some it \<Rightarrow> if mi_fallbackID it = [] then Some (Inr ())
        else if idents (mi_fallbackID it) then Some (HandleError h (OPF OPFFallbackChainCircularReference) [])
        else fallback_walk h (Fallback mf it) mf idents)"

fun check_fallbacks_of :: "handler \<Rightarrow> manifest \<Rightarrow> manifest \<Rightarrow> unit run" where
  "check_fallbacks_of h mf [] = Some (Inr ())"
| "check_fallbacks_of h mf ((k, it) # rest) =
     (if mi_fallbackID it = [] then check_fallbacks_of h mf rest
      else bind_run (fallback_walk h (Some it) mf (\<lambda>ident. ident = mi_id it)) (\<lambda>_. check_fallbacks_of h mf rest))"

definition check_fallbacks :: "handler \<Rightarrow> manifest \<Rightarrow> unit run" where
  "check_fallbacks h mf = check_fallbacks_of h mf mf"

definition is_content_doc :: "manifest_item \<Rightarrow> bool" where
  "is_content_doc it \<longleftrightarrow> mi_mediaType it = ''application/xhtml+xml'' \<or> mi_mediaType it = ''image/svg''"

text \<open>The search for a content document along the chain of a spine item.\<close>

partial_function (option) content_doc_loop :: "manifest \<Rightarrow> manifest_item \<Rightarrow> bool option" where
  "content_doc_loop mf it = (if is_content_doc it then Some True
     else (case Fallback mf it of None \<Rightarrow> Some False | Some it' \<Rightarrow> content_doc_loop mf it'))"

text \<open>The \<open>n\<close>-th item of the chain; a manifest whose chains all end.\<close>

fun chain_at :: "manifest \<Rightarrow> manifest_item \<Rightarrow> nat \<Rightarrow> manifest_item option" where
  "chain_at mf it 0 = Some it"
| "chain_at mf it (Suc n) = (case Fallback mf it of None \<Rightarrow> None | Some it' \<Rightarrow> chain_at mf it' n)"

definition chain_ends :: "manifest \<Rightarrow> manifest_item \<Rightarrow> bool" where
  "chain_ends mf it \<longleftrightarrow> (\<exists>n. chain_at mf it n = None)"

definition fallbacks_end :: "manifest \<Rightarrow> bool" where
  "fallbacks_end mf \<longleftrightarrow> (\<forall>it \<in> snd ` set mf. chain_ends mf it)"

lemma chain_ends_step: "chain_ends mf it \<longleftrightarrow> (case Fallback mf it of None \<Rightarrow> True | Some it' \<Rightarrow> chain_ends mf it')"
proof (cases "Fallback mf it")
  case None
  then have "chain_at mf it (Suc 0) = None" by simp
  then show ?thesis using None by (auto simp: chain_ends_def simp del: chain_at.simps)
next
  case (Some it')
  have "chain_ends mf it \<longleftrightarrow> (\<exists>n. chain_at mf it (Suc n) = None)"
    unfolding chain_ends_def by (metis chain_at.simps(1) not0_implies_Suc option.distinct(1))
  then show ?thesis using Some by (simp add: chain_ends_def)
qed

lemma chain_at_add: "chain_at mf it n = Some x \<Longrightarrow> chain_at mf it (n + k) = chain_at mf x k"
  by (induction n arbitrary: it) (auto split: option.splits)

lemma chain_at_None: "chain_at mf it n = None \<Longrightarrow> n \<le> m \<Longrightarrow> chain_at mf it m = None"
proof (induction n arbitrary: it m)
  case (Suc n)
  then show ?case by (cases m) (auto split: option.splits)
qed simp

text \<open>An item that comes back to itself has no end.\<close>

lemma chain_cycle:
  assumes "chain_at mf it (Suc n) = Some it"
  shows "\<not> chain_ends mf it"
proof
  assume "chain_ends mf it"
  then obtain m where m: "chain_at mf it m = None" by (auto simp: chain_ends_def)
  have "chain_at mf it (k * Suc n) = Some it" for k
  proof (induction k)
    case (Suc k)
    have "Suc k * Suc n = k * Suc n + Suc n" by simp
    then show ?case using chain_at_add [OF Suc, of "Suc n"] assms by (simp only:)
  qed simp
  moreover have "chain_at mf it (m * Suc n) = None" using chain_at_None [OF m] by simp
  ultimately show False by (metis option.distinct(1))
qed

lemma walk_end:
  assumes "chain_at mf it n = None" and "\<And>j x. chain_at mf it j = Some x \<Longrightarrow> mi_fallbackID x \<noteq> [] \<Longrightarrow> \<not> idents (mi_fallbackID x)"
  shows "fallback_walk h (Some it) mf idents = Some (Inr ())"
  using assms
proof (induction n arbitrary: it)
  case (Suc n)
  show ?case
  proof (cases "Fallback mf it")
    case None
    have "\<not> idents (mi_fallbackID it)" if "mi_fallbackID it \<noteq> []" using Suc.prems(2) [of 0 it] that by simp
    then show ?thesis using None by (subst fallback_walk.simps) (simp add: fallback_walk.simps)
  next
    case (Some it')
    have "fallback_walk h (Some it') mf idents = Some (Inr ())"
    proof (rule Suc.IH)
      show "chain_at mf it' n = None" using Suc.prems(1) Some by simp
      show "\<not> idents (mi_fallbackID x)" if "chain_at mf it' j = Some x" "mi_fallbackID x \<noteq> []" for j x
        using Suc.prems(2) [of "Suc j" x] that Some by simp
    qed
    moreover have "\<not> idents (mi_fallbackID it)" if "mi_fallbackID it \<noteq> []" using Suc.prems(2) [of 0 it] that by simp
    ultimately show ?thesis using Some by (subst fallback_walk.simps) simp
  qed
qed simp

lemma circular_thrown [simp]: "HandleError DefaultErrorHandler (OPF OPFFallbackChainCircularReference) what \<noteq> Inr ()"
  by (simp add: HandleError_def DispatchError_def DefaultErrorHandler_def spec_Severity_def new_epub_spec_error_def error_info_def)

lemma content_doc_end:
  "chain_at mf it n = None \<Longrightarrow> content_doc_loop mf it = Some (\<exists>n x. chain_at mf it n = Some x \<and> is_content_doc x)"
proof (induction n arbitrary: it)
  case (Suc n)
  have s: "(\<exists>n x. chain_at mf it n = Some x \<and> is_content_doc x) \<longleftrightarrow> is_content_doc it \<or>
      (case Fallback mf it of None \<Rightarrow> False | Some it' \<Rightarrow> \<exists>n x. chain_at mf it' n = Some x \<and> is_content_doc x)"
  proof -
    have "(\<exists>n x. chain_at mf it n = Some x \<and> is_content_doc x) \<longleftrightarrow>
        is_content_doc it \<or> (\<exists>n x. chain_at mf it (Suc n) = Some x \<and> is_content_doc x)"
      by (metis chain_at.simps(1) not0_implies_Suc option.inject)
    then show ?thesis by (simp split: option.split)
  qed
  show ?case
  proof (cases "Fallback mf it")
    case (Some it')
    then have "content_doc_loop mf it' = Some (\<exists>n x. chain_at mf it' n = Some x \<and> is_content_doc x)" using Suc by simp
    then show ?thesis unfolding s using Some by (subst content_doc_loop.simps) simp
  qed (unfold s, subst content_doc_loop.simps, simp)
qed simp

lemma walk_returned:
  assumes "fallback_walk DefaultErrorHandler item mf idents = Some (Inr ())"
  shows "item = None \<or> chain_ends mf (the item)"
proof -
  let ?P = "\<lambda>(h :: handler) item mf (idents :: string \<Rightarrow> bool) (r :: unit cxx). h = DefaultErrorHandler \<and> r = Inr () \<longrightarrow> item = None \<or> chain_ends mf (the item)"
  have "?P DefaultErrorHandler item mf idents (Inr ())"
  proof (rule fallback_walk.raw_induct [where P = ?P, rotated], rule assms)
    fix walk h item mf idents r
    assume IH: "\<And>h item mf idents r. walk h item mf idents = Some r \<Longrightarrow> ?P h item mf idents r"
      and body: "(case item of None \<Rightarrow> Some (Inr ())
        | Some it \<Rightarrow> if mi_fallbackID it = [] then Some (Inr ())
           else if idents (mi_fallbackID it) then Some (HandleError h (OPF OPFFallbackChainCircularReference) [])
           else walk h (Fallback mf it) mf idents) = Some r"
    show "?P h item mf idents r"
    proof (intro impI, elim conjE)
      assume h: "h = DefaultErrorHandler" "r = Inr ()"
      show "item = None \<or> chain_ends mf (the item)"
      proof (cases item)
        case (Some it)
        have "Fallback mf it = None \<or> walk h (Fallback mf it) mf idents = Some r"
          using body h Some circular_thrown by (auto simp: Fallback_def split: if_splits)
        then have "Fallback mf it = None \<or> chain_ends mf (the (Fallback mf it))" using IH h by blast
        then show ?thesis using Some chain_ends_step [of mf it] by (auto split: option.splits)
      qed simp
    qed
  qed
  then show ?thesis by simp
qed

lemma check_returned:
  "check_fallbacks_of DefaultErrorHandler mf rest = Some (Inr ()) \<longleftrightarrow>
     (\<forall>(k, it) \<in> set rest. mi_fallbackID it = [] \<or>
        fallback_walk DefaultErrorHandler (Some it) mf (\<lambda>ident. ident = mi_id it) = Some (Inr ()))"
  by (induction DefaultErrorHandler mf rest rule: check_fallbacks_of.induct)
    (auto simp: bind_run_def split: option.splits sum.splits)

lemma check_fallbacks_iff:
  assumes "manifest_ok mf"
  shows "check_fallbacks DefaultErrorHandler mf = Some (Inr ()) \<longleftrightarrow> fallbacks_end mf"
proof
  assume r: "check_fallbacks DefaultErrorHandler mf = Some (Inr ())"
  show "fallbacks_end mf" unfolding fallbacks_end_def
  proof
    fix it assume "it \<in> snd ` set mf"
    then obtain k where "(k, it) \<in> set mf" by auto
    then consider "mi_fallbackID it = []" | "fallback_walk DefaultErrorHandler (Some it) mf (\<lambda>ident. ident = mi_id it) = Some (Inr ())"
      using r check_returned [of mf mf] by (auto simp: check_fallbacks_def)
    then show "chain_ends mf it"
    proof cases
      case 1 then show ?thesis using chain_ends_step [of mf it] by (simp add: Fallback_def)
    next
      case 2 then show ?thesis using walk_returned by fastforce
    qed
  qed
next
  assume e: "fallbacks_end mf"
  have "fallback_walk DefaultErrorHandler (Some it) mf (\<lambda>ident. ident = mi_id it) = Some (Inr ())" if m: "(k, it) \<in> set mf" for k it
  proof -
    have it: "chain_ends mf it" "map_of mf (mi_id it) = Some it"
      using e m assms by (force simp: fallbacks_end_def, auto simp: manifest_ok_def strict_sorted_iff intro!: map_of_is_SomeI)
    then obtain n where "chain_at mf it n = None" by (auto simp: chain_ends_def)
    then show ?thesis
    proof (rule walk_end)
      fix j x assume x: "chain_at mf it j = Some x" "mi_fallbackID x \<noteq> []"
      show "mi_fallbackID x \<noteq> mi_id it"
      proof
        assume "mi_fallbackID x = mi_id it"
        then have "Fallback mf x = Some it" using x(2) it(2) by (simp add: Fallback_def ManifestItemWithID_def)
        then have "chain_at mf it (Suc j) = Some it" using chain_at_add [OF x(1), of 1] by simp
        then show False using chain_cycle it(1) by blast
      qed
    qed
  qed
  then show "check_fallbacks DefaultErrorHandler mf = Some (Inr ())"
    unfolding check_fallbacks_def check_returned by blast
qed

text \<open>C16: The check of the fallback chains accepts exactly the manifests in which every chain of fallbacks ends: it returns without
  an error then, and whenever it returns without an error no chain is circular.  The later search along a chain
  relies on this: it returns for every item, and finds a content document exactly when the chain has one.\<close>

theorem fallback_check_exact:
  assumes "manifest_ok mf"
  shows "(check_fallbacks DefaultErrorHandler mf = Some (Inr ()) \<longleftrightarrow> fallbacks_end mf) \<and>
    (fallbacks_end mf \<and> it \<in> snd ` set mf \<longrightarrow>
      content_doc_loop mf it = Some (\<exists>n x. chain_at mf it n = Some x \<and> is_content_doc x))"
proof (intro conjI impI)
  show "check_fallbacks DefaultErrorHandler mf = Some (Inr ()) \<longleftrightarrow> fallbacks_end mf" by (rule check_fallbacks_iff [OF assms])
  assume "fallbacks_end mf \<and> it \<in> snd ` set mf"
  then obtain n where "chain_at mf it n = None" by (auto simp: fallbacks_end_def chain_ends_def)
  then show "content_doc_loop mf it = Some (\<exists>n x. chain_at mf it n = Some x \<and> is_content_doc x)"
    by (rule content_doc_end)
qed

definition plain_item :: "string \<Rightarrow> string \<Rightarrow> string \<Rightarrow> manifest_item" where
  "plain_item ident mediaType fallback = \<lparr>mi_id = ident, mi_href = ident, mi_mediaType = mediaType, mi_mediaOverlayID = [],
     mi_fallbackID = fallback, mi_properties = 0\<rparr>"

definition sample_manifest :: manifest where
  "sample_manifest = [(''a'', plain_item ''a'' ''text/plain'' ''b''), (''b'', plain_item ''b'' ''image/svg'' [])]"

lemma sample_manifest_ok: "manifest_ok sample_manifest"
  by (simp add: manifest_ok_def sample_manifest_def plain_item_def less_list_code)

theorem fallback_check_exact_witness:
  "check_fallbacks DefaultErrorHandler sample_manifest = Some (Inr ()) \<and>
   content_doc_loop sample_manifest (plain_item ''a'' ''text/plain'' ''b'') = Some True"
proof -
  let ?a = "plain_item ''a'' ''text/plain'' ''b''" and ?b = "plain_item ''b'' ''image/svg'' []"
  have f: "Fallback sample_manifest ?a = Some ?b" "Fallback sample_manifest ?b = None"
    by (simp_all add: Fallback_def ManifestItemWithID_def sample_manifest_def plain_item_def)
  then have n: "chain_at sample_manifest ?a 2 = None" "chain_at sample_manifest ?b 1 = None" "chain_at sample_manifest ?a 1 = Some ?b"
    by (simp_all add: numeral_2_eq_2)
  have "chain_ends sample_manifest ?a" "chain_ends sample_manifest ?b" using n(1,2) unfolding chain_ends_def by blast+
  then have "fallbacks_end sample_manifest" by (simp add: fallbacks_end_def) (simp add: sample_manifest_def)
  moreover have "is_content_doc ?b" by (simp add: is_content_doc_def plain_item_def)
  moreover have "?a \<in> snd ` set sample_manifest" by (simp add: sample_manifest_def)
  moreover have "\<exists>n x. chain_at sample_manifest ?a n = Some x \<and> is_content_doc x" using n(3) calculation(2) by blast
  ultimately show ?thesis using fallback_check_exact [OF sample_manifest_ok, of ?a] by simp
qed

text \<open>A chain that leads into a circle without its start is followed for ever.\<close>

lemma walk_circle:
  assumes "Fallback mf x = Some x" and "mi_fallbackID x \<noteq> []" and "\<not> idents (mi_fallbackID x)"
  shows "fallback_walk h (Some x) mf idents = None"
proof (rule ccontr)
  assume "fallback_walk h (Some x) mf idents \<noteq> None"
  then obtain y where y: "fallback_walk h (Some x) mf idents = Some y" by blast
  let ?P = "\<lambda>(h :: handler) item mf idents (r :: unit cxx).
    \<not> (item = Some x \<and> Fallback mf x = Some x \<and> mi_fallbackID x \<noteq> [] \<and> \<not> idents (mi_fallbackID x))"
  have "?P h (Some x) mf idents y"
  proof (rule fallback_walk.raw_induct [where P = ?P, rotated], rule y)
    fix walk h item mf idents r
    assume IH: "\<And>h item mf idents r. walk h item mf idents = Some r \<Longrightarrow> ?P h item mf idents r"
      and body: "(case item of None \<Rightarrow> Some (Inr ())
        | Some it \<Rightarrow> if mi_fallbackID it = [] then Some (Inr ())
           else if idents (mi_fallbackID it) then Some (HandleError h (OPF OPFFallbackChainCircularReference) [])
           else walk h (Fallback mf it) mf idents) = Some r"
    show "?P h item mf idents r"
    proof
      assume a: "item = Some x \<and> Fallback mf x = Some x \<and> mi_fallbackID x \<noteq> [] \<and> \<not> idents (mi_fallbackID x)"
      then have "walk h (Some x) mf idents = Some r" using body by simp
      then show False using IH [of h "Some x" mf idents r] a by simp
    qed
  qed
  then show False using assms by simp
qed

lemma circle_behind_start_hangs:
  "check_fallbacks h [(''a'', plain_item ''a'' ''text/plain'' ''b''), (''b'', plain_item ''b'' ''text/plain'' ''b'')] = None"
proof -
  let ?mf = "[(''a'', plain_item ''a'' ''text/plain'' ''b''), (''b'', plain_item ''b'' ''text/plain'' ''b'')]"
  have "fallback_walk h (Some (plain_item ''b'' ''text/plain'' ''b'')) ?mf (\<lambda>ident. ident = ''a'') = None"
    by (rule walk_circle) (simp_all add: Fallback_def ManifestItemWithID_def plain_item_def)
  then have "fallback_walk h (Some (plain_item ''a'' ''text/plain'' ''b'')) ?mf (\<lambda>ident. ident = ''a'') = None"
    by (subst fallback_walk.simps) (simp add: Fallback_def ManifestItemWithID_def plain_item_def)
  then show ?thesis by (simp add: check_fallbacks_def plain_item_def)
qed

end
