(* ===== verification/Spine.thy ===== *)
theory Spine
  imports EPUB_Error Iostream
begin

text \<open>
  \<^verbatim>\<open>class SpineItem\<close> of \<^verbatim>\<open>ePub/spine.{h,cpp}\<close>: the spine of a publication, a doubly linked list whose items own
  their successors and know their predecessors by weak pointers.  The items live in a store, a map from
  addresses to items; a weak pointer to an address that is not in the store has expired.  The walks along the list are
  the loops and recursions of the code, which need not end on a list that is not well formed.  The theorem shows
  that on a well-formed list they implement the accesses of a sequence.  Lengths and indices are numbers of objects in
  memory and are not bounded here.
\<close>

section \<open>Items and links\<close>

text \<open>The properties are kept as the prefixes and references they are written with.\<close>

record spine_item =
  si_id :: string
  si_idref :: string
  si_linear :: bool
  si_title :: string
  si_properties :: "(string \<times> string) list"
  si_prev :: "nat option"
  si_next :: "nat option"

type_synonym spine = "nat \<rightharpoonup> spine_item"

definition new_SpineItem :: spine_item where
  "new_SpineItem = \<lparr>si_id = [], si_idref = [], si_linear = True, si_title = [], si_properties = [], si_prev = None, si_next = None\<rparr>"

definition si_Next :: "spine \<Rightarrow> nat \<Rightarrow> nat option cxx" where
  "si_Next \<sigma> a = bind_cxx (must (\<sigma> a)) (\<lambda>it. Inr (si_next it))"

text \<open>\<^verbatim>\<open>_prev.lock()\<close>\<close>

definition si_Previous :: "spine \<Rightarrow> nat \<Rightarrow> nat option cxx" where
  "si_Previous \<sigma> a = bind_cxx (must (\<sigma> a)) (\<lambda>it. Inr (case si_prev it of None \<Rightarrow> None
     | Some p \<Rightarrow> if \<sigma> p = None then None else Some p))"

definition SetTitle :: "spine \<Rightarrow> nat \<Rightarrow> string \<Rightarrow> spine cxx" where
  "SetTitle \<sigma> a str = bind_cxx (must (\<sigma> a)) (\<lambda>it. Inr (\<sigma>(a \<mapsto> it\<lparr>si_title := str\<rparr>)))"

text \<open>The three assignments, in the order of the code; \<open>this\<close> and \<open>nxt\<close> may be the same object.\<close>

definition SetNextItem :: "spine \<Rightarrow> nat \<Rightarrow> nat \<Rightarrow> spine cxx" where
  "SetNextItem \<sigma> this nxt =
     bind_cxx (must (\<sigma> this)) (\<lambda>t. bind_cxx (must (\<sigma> nxt)) (\<lambda>n.
       let \<sigma> = \<sigma>(nxt \<mapsto> n\<lparr>si_next := si_next t, si_prev := Some this\<rparr>) in
       bind_cxx (must (\<sigma> this)) (\<lambda>t. Inr (\<sigma>(this \<mapsto> t\<lparr>si_next := Some nxt\<rparr>)))))"

section \<open>Walks\<close>

partial_function (option) Spine_Count :: "spine \<Rightarrow> nat \<Rightarrow> nat run" where
  "Spine_Count \<sigma> a = (case si_Next \<sigma> a of
     Inl e \<Rightarrow> Some (Inl e)
   | Inr n \<Rightarrow> (case n of None \<Rightarrow> Some (Inr 1)
      | Some b \<Rightarrow> Option.bind (Spine_Count \<sigma> b) (\<lambda>r. Some (map_sum (\<lambda>e. e) (\<lambda>k. 1 + k) r))))"

partial_function (option) Spine_Index :: "spine \<Rightarrow> nat \<Rightarrow> nat run" where
  "Spine_Index \<sigma> a = (case si_Previous \<sigma> a of
     Inl e \<Rightarrow> Some (Inl e)
   | Inr p \<Rightarrow> (case p of None \<Rightarrow> Some (Inr 0)
      | Some b \<Rightarrow> Option.bind (Spine_Index \<sigma> b) (\<lambda>r. Some (map_sum (\<lambda>e. e) (\<lambda>k. k + 1) r))))"

text \<open>The loop of \<^verbatim>\<open>NextStep\<close> and of \<^verbatim>\<open>PriorStep\<close>: \<open>go\<close> is the step to the neighbour.\<close>

partial_function (option) skip_nonlinear :: "(spine \<Rightarrow> nat \<Rightarrow> nat option cxx) \<Rightarrow> spine \<Rightarrow> nat option \<Rightarrow> nat option run" where
  "skip_nonlinear go \<sigma> n = (case n of None \<Rightarrow> Some (Inr None)
     | Some a \<Rightarrow> (case must (\<sigma> a) of Inl e \<Rightarrow> Some (Inl e)
        | Inr it \<Rightarrow> if si_linear it then Some (Inr (Some a))
            else (case go \<sigma> a of Inl e \<Rightarrow> Some (Inl e) | Inr m \<Rightarrow> skip_nonlinear go \<sigma> m)))"

definition NextStep :: "spine \<Rightarrow> nat \<Rightarrow> nat option run" where
  "NextStep \<sigma> a = bind_run (Some (si_Next \<sigma> a)) (skip_nonlinear si_Next \<sigma>)"

definition PriorStep :: "spine \<Rightarrow> nat \<Rightarrow> nat option run" where
  "PriorStep \<sigma> a = bind_run (Some (si_Previous \<sigma> a)) (skip_nonlinear si_Previous \<sigma>)"

text \<open>The loops of \<^verbatim>\<open>at\<close>, with the number of steps that are left.\<close>

fun at_loop :: "(spine \<Rightarrow> nat \<Rightarrow> nat option cxx) \<Rightarrow> spine \<Rightarrow> nat option \<Rightarrow> nat \<Rightarrow> (nat option \<times> nat) cxx" where
  "at_loop go \<sigma> None i = Inr (None, i)"
| "at_loop go \<sigma> (Some a) 0 = Inr (Some a, 0)"
| "at_loop go \<sigma> (Some a) (Suc i) = bind_cxx (go \<sigma> a) (\<lambda>n. at_loop go \<sigma> n i)"

definition signed_dec :: "int \<Rightarrow> string" where
  "signed_dec i = (if i < 0 then CHR ''-'' # dec (nat (- i)) else dec (nat i))"

definition Spine_at :: "spine \<Rightarrow> nat \<Rightarrow> int \<Rightarrow> nat cxx" where
  "Spine_at \<sigma> a idx =
     bind_cxx (if idx > 0 then bind_cxx (at_loop si_Next \<sigma> (Some a) (nat idx)) (\<lambda>(r, i). Inr (r, int i))
               else if idx < 0 then bind_cxx (at_loop si_Previous \<sigma> (Some a) (nat (- idx))) (\<lambda>(r, i). Inr (r, - int i))
               else Inr (Some a, idx)) (\<lambda>(result, i).
       case result of
         None \<Rightarrow> Inl (Throws (Out_of_range (''Index '' @ signed_dec i @ '' is out of range'')))
       | Some b \<Rightarrow> Inr b)"

section \<open>Well-formed lists\<close>

fun dlist :: "spine \<Rightarrow> nat option \<Rightarrow> nat list \<Rightarrow> bool" where
  "dlist \<sigma> p [] = True"
| "dlist \<sigma> p (a # as) = (case \<sigma> a of None \<Rightarrow> False
     | Some it \<Rightarrow> si_prev it = p \<and> si_next it = (case as of [] \<Rightarrow> None | b # _ \<Rightarrow> Some b) \<and> dlist \<sigma> (Some a) as)"

definition spine_ok :: "spine \<Rightarrow> nat list \<Rightarrow> bool" where
  "spine_ok \<sigma> as \<longleftrightarrow> dlist \<sigma> None as \<and> distinct as"

definition last_addr :: "nat option \<Rightarrow> nat list \<Rightarrow> nat option" where
  "last_addr p as = (if as = [] then p else Some (last as))"

definition first_addr :: "nat list \<Rightarrow> nat option" where
  "first_addr as = (case as of [] \<Rightarrow> None | b # _ \<Rightarrow> Some b)"

lemma addr_simps [simp]:
  "last_addr p [] = p" "last_addr p (as @ [a]) = Some a" "first_addr [] = None" "first_addr (a # as) = Some a"
  "last_addr p (a # as) = last_addr (Some a) as"
  by (simp_all add: last_addr_def first_addr_def)

lemma dlist_at:
  "dlist \<sigma> p (xs @ a # ys) \<Longrightarrow> \<exists>it. \<sigma> a = Some it \<and> si_prev it = last_addr p xs \<and> si_next it = first_addr ys"
  by (induction xs arbitrary: p) (auto simp: first_addr_def split: option.splits)

lemma dlist_alive: "dlist \<sigma> p as \<Longrightarrow> a \<in> set as \<Longrightarrow> \<sigma> a \<noteq> None"
  by (induction as arbitrary: p) (auto split: option.splits)

lemma dlist_cong: "(\<And>a. a \<in> set as \<Longrightarrow> \<sigma>' a = \<sigma> a) \<Longrightarrow> dlist \<sigma>' p as = dlist \<sigma> p as"
  by (induction as arbitrary: p) (auto split: option.splits)

lemma spine_step:
  assumes "spine_ok \<sigma> (xs @ a # ys)"
  shows "si_Next \<sigma> a = Inr (first_addr ys)" and "si_Previous \<sigma> a = Inr (last_addr None xs)"
proof -
  obtain it where it: "\<sigma> a = Some it" "si_prev it = last_addr None xs" "si_next it = first_addr ys"
    using assms dlist_at unfolding spine_ok_def by blast
  have "\<sigma> (last xs) \<noteq> None" if "xs \<noteq> []"
    using assms that dlist_alive [of \<sigma> None "xs @ a # ys" "last xs"] by (simp add: spine_ok_def)
  then show "si_Next \<sigma> a = Inr (first_addr ys)" and "si_Previous \<sigma> a = Inr (last_addr None xs)"
    using it by (cases "xs = []"; simp add: si_Next_def si_Previous_def last_addr_def)+
qed

lemma Count_walk: "spine_ok \<sigma> (xs @ a # ys) \<Longrightarrow> Spine_Count \<sigma> a = Some (Inr (1 + length ys))"
proof (induction ys arbitrary: xs a)
  case Nil
  then show ?case using spine_step [OF Nil] by (subst Spine_Count.simps) simp
next
  case (Cons b ys)
  then have "Spine_Count \<sigma> b = Some (Inr (1 + length ys))" using Cons.IH [of "xs @ [a]" b] by simp
  then show ?case using spine_step [OF Cons.prems] by (subst Spine_Count.simps) simp
qed

lemma Index_walk: "spine_ok \<sigma> (xs @ a # ys) \<Longrightarrow> Spine_Index \<sigma> a = Some (Inr (length xs))"
proof (induction xs arbitrary: a ys rule: rev_induct)
  case Nil
  then show ?case using spine_step [OF Nil] by (subst Spine_Index.simps) simp
next
  case (snoc b xs)
  then have "Spine_Index \<sigma> b = Some (Inr (length xs))" using snoc.IH [of b "a # ys"] by simp
  then show ?case using spine_step [OF snoc.prems] by (subst Spine_Index.simps) simp
qed

definition linear_at :: "spine \<Rightarrow> nat \<Rightarrow> bool" where
  "linear_at \<sigma> a = (case \<sigma> a of None \<Rightarrow> False | Some it \<Rightarrow> si_linear it)"

lemma skip_stop:
  "skip_nonlinear go \<sigma> None = Some (Inr None)"
  "linear_at \<sigma> a \<Longrightarrow> skip_nonlinear go \<sigma> (Some a) = Some (Inr (Some a))"
  "\<sigma> a \<noteq> None \<Longrightarrow> \<not> linear_at \<sigma> a \<Longrightarrow> go \<sigma> a = Inr n \<Longrightarrow> skip_nonlinear go \<sigma> (Some a) = skip_nonlinear go \<sigma> n"
  by (subst skip_nonlinear.simps; auto simp: linear_at_def split: option.splits)+

lemma spine_alive: "spine_ok \<sigma> as \<Longrightarrow> a \<in> set as \<Longrightarrow> \<sigma> a \<noteq> None"
  using dlist_alive unfolding spine_ok_def by blast

lemma skip_forward:
  "spine_ok \<sigma> (xs @ ys) \<Longrightarrow> skip_nonlinear si_Next \<sigma> (first_addr ys) = Some (Inr (find (linear_at \<sigma>) ys))"
proof (induction ys arbitrary: xs)
  case (Cons b ys)
  have "skip_nonlinear si_Next \<sigma> (first_addr ys) = Some (Inr (find (linear_at \<sigma>) ys))"
    using Cons.IH [of "xs @ [b]"] Cons.prems by simp
  then show ?case
    using skip_stop(2,3) [of \<sigma> b si_Next] spine_step(1) [OF Cons.prems] spine_alive [OF Cons.prems, of b]
    by (cases "linear_at \<sigma> b") simp_all
qed (simp add: skip_stop)

lemma skip_backward:
  "spine_ok \<sigma> (xs @ ys) \<Longrightarrow> skip_nonlinear si_Previous \<sigma> (last_addr None xs) = Some (Inr (find (linear_at \<sigma>) (rev xs)))"
proof (induction xs arbitrary: ys rule: rev_induct)
  case (snoc b xs)
  have p: "spine_ok \<sigma> (xs @ b # ys)" using snoc.prems by simp
  have "skip_nonlinear si_Previous \<sigma> (last_addr None xs) = Some (Inr (find (linear_at \<sigma>) (rev xs)))"
    using snoc.IH p by blast
  then show ?case
    using skip_stop(2,3) [of \<sigma> b si_Previous] spine_step(2) [OF p] spine_alive [OF p, of b]
    by (cases "linear_at \<sigma> b") simp_all
qed (simp add: skip_stop)

lemma at_forward:
  "spine_ok \<sigma> (xs @ ys) \<Longrightarrow> at_loop si_Next \<sigma> (first_addr ys) i =
     Inr (if i < length ys then (Some (ys ! i), 0) else (None, i - length ys))"
proof (induction ys arbitrary: xs i)
  case (Cons b ys)
  then show ?case
    using Cons.IH [of "xs @ [b]"] spine_step(1) [OF Cons.prems] by (cases i) simp_all
qed simp

lemma at_backward:
  "spine_ok \<sigma> (xs @ ys) \<Longrightarrow> at_loop si_Previous \<sigma> (last_addr None xs) i =
     Inr (if i < length xs then (Some (rev xs ! i), 0) else (None, i - length xs))"
proof (induction xs arbitrary: ys i rule: rev_induct)
  case (snoc b xs)
  have p: "spine_ok \<sigma> (xs @ b # ys)" using snoc.prems by simp
  show ?case using snoc.IH [OF p] spine_step(2) [OF p] by (cases i) simp_all
qed simp

text \<open>The whole list as a sequence, seen from the item between \<open>xs\<close> and \<open>ys\<close>.\<close>

definition seq_at :: "nat list \<Rightarrow> nat \<Rightarrow> nat list \<Rightarrow> int \<Rightarrow> nat cxx" where
  "seq_at xs a ys idx = (let i = int (length xs) + idx; n = int (length (xs @ a # ys)) in
     if 0 \<le> i \<and> i < n then Inr ((xs @ a # ys) ! nat i)
     else Inl (Throws (Out_of_range (''Index '' @ signed_dec (if i < 0 then i + 1 else i - n) @ '' is out of range''))))"

lemma Spine_at_seq:
  assumes "spine_ok \<sigma> (xs @ a # ys)"
  shows "Spine_at \<sigma> a idx = seq_at xs a ys idx"
proof (cases idx "0 :: int" rule: linorder_cases)
  case less
  have p: "spine_ok \<sigma> ((xs @ [a]) @ ys)" using assms by simp
  let ?i = "nat (- idx)"
  have "at_loop si_Previous \<sigma> (Some a) ?i = Inr (if ?i < Suc (length xs) then (Some (rev (xs @ [a]) ! ?i), 0) else (None, ?i - Suc (length xs)))"
    using at_backward [OF p, of ?i] by simp
  moreover have "rev (xs @ [a]) ! ?i = (xs @ a # ys) ! nat (int (length xs) + idx)" if "?i < Suc (length xs)"
  proof -
    have "nat (int (length xs) + idx) = length xs - ?i" using less that by simp
    moreover obtain k where "?i = Suc k" using less by (cases ?i) simp_all
    moreover from this have "length xs - Suc k < length xs" using that by linarith
    ultimately show ?thesis using that by (simp add: rev_nth nth_append)
  qed
  ultimately show ?thesis using less by (auto simp: Spine_at_def seq_at_def Let_def nth_append add_ac)
next
  case equal
  then show ?thesis by (simp add: Spine_at_def seq_at_def)
next
  case greater
  have "at_loop si_Next \<sigma> (Some a) (nat idx) =
      Inr (if nat idx < Suc (length ys) then (Some ((a # ys) ! nat idx), 0) else (None, nat idx - Suc (length ys)))"
    using at_forward [OF assms, of "nat idx"] by simp
  then show ?thesis using greater by (auto simp: Spine_at_def seq_at_def Let_def nth_append nat_add_distrib algebra_simps)
qed

section \<open>Building the list\<close>

lemma dlist_snoc:
  "dlist \<sigma> p (as @ [a, b]) \<longleftrightarrow> dlist (\<sigma>(a := map_option (\<lambda>it. it\<lparr>si_next := None\<rparr>) (\<sigma> a))) p (as @ [a]) \<and>
     (\<exists>it. \<sigma> a = Some it \<and> si_next it = Some b) \<and> (\<exists>it. \<sigma> b = Some it \<and> si_prev it = Some a \<and> si_next it = None)"
  if "distinct (as @ [a, b])"
  using that
proof (induction as arbitrary: p)
  case (Cons c as)
  have c: "c \<noteq> a" "c \<noteq> b" using Cons.prems by auto
  have h: "(case as @ [a, b] of [] \<Rightarrow> None | x # _ \<Rightarrow> Some x) = (case as @ [a] of [] \<Rightarrow> None | x # _ \<Rightarrow> Some x)" by (cases as) simp_all
  show ?case using Cons.IH [of "Some c"] Cons.prems c h by (simp split: option.splits)
qed (auto split: option.splits)

text \<open>Links of other items, and the data of all items, are not touched.\<close>

definition item_data :: "spine_item \<Rightarrow> string \<times> string \<times> bool \<times> string \<times> (string \<times> string) list" where
  "item_data it = (si_id it, si_idref it, si_linear it, si_title it, si_properties it)"

definition same_data :: "spine \<Rightarrow> spine \<Rightarrow> bool" where
  "same_data \<sigma> \<sigma>' \<longleftrightarrow> (\<forall>a. map_option item_data (\<sigma>' a) = map_option item_data (\<sigma> a))"

lemma SetNextItem_append:
  assumes "spine_ok \<sigma> (as @ [a])" and "\<sigma> b = Some n" and "b \<notin> set (as @ [a])"
  obtains \<sigma>' where "SetNextItem \<sigma> a b = Inr \<sigma>'" "spine_ok \<sigma>' (as @ [a, b])" "same_data \<sigma> \<sigma>'"
proof -
  obtain t where t: "\<sigma> a = Some t" "si_next t = None"
    using assms(1) dlist_at [of \<sigma> None as a "[]"] by (auto simp: spine_ok_def)
  let ?\<sigma> = "\<sigma>(b \<mapsto> n\<lparr>si_next := None, si_prev := Some a\<rparr>, a \<mapsto> t\<lparr>si_next := Some b\<rparr>)"
  have ab: "a \<noteq> b" using assms(3) by auto
  have d: "distinct (as @ [a, b])" using assms(1,3) by (auto simp: spine_ok_def)
  have t': "t\<lparr>si_next := None\<rparr> = t" using t(2) by simp
  have "dlist (?\<sigma>(a := map_option (\<lambda>it. it\<lparr>si_next := None\<rparr>) (?\<sigma> a))) None (as @ [a]) = dlist \<sigma> None (as @ [a])"
    by (rule dlist_cong) (use assms(3) t t' in auto)
  then have "spine_ok ?\<sigma> (as @ [a, b])"
    using assms(1) d ab unfolding spine_ok_def by (simp only: dlist_snoc [OF d]) simp
  moreover have "SetNextItem \<sigma> a b = Inr ?\<sigma>" using t assms(2) ab by (simp add: SetNextItem_def Let_def)
  moreover have "same_data \<sigma> ?\<sigma>" using t assms(2) by (simp add: same_data_def item_data_def)
  ultimately show ?thesis using that by blast
qed

text \<open>C17: On a well-formed list of spine items every access is the access to a sequence: counting, the own index, relative
  indexing in both directions with its range check, and the steps to the next and to the previous linear item all return,
  and linking a new item behind the last one appends it to the sequence and keeps the list well formed.\<close>

theorem spine_refines_sequence:
  assumes "spine_ok \<sigma> (xs @ a # ys)"
  shows "Spine_Count \<sigma> a = Some (Inr (1 + length ys)) \<and> Spine_Index \<sigma> a = Some (Inr (length xs)) \<and>
    Spine_at \<sigma> a idx = seq_at xs a ys idx \<and>
    NextStep \<sigma> a = Some (Inr (find (linear_at \<sigma>) ys)) \<and> PriorStep \<sigma> a = Some (Inr (find (linear_at \<sigma>) (rev xs))) \<and>
    (ys = [] \<and> b \<notin> set (xs @ [a]) \<and> \<sigma> b = Some n \<longrightarrow>
      (\<exists>\<sigma>'. SetNextItem \<sigma> a b = Inr \<sigma>' \<and> spine_ok \<sigma>' (xs @ [a, b]) \<and> same_data \<sigma> \<sigma>'))"
proof (intro conjI impI)
  have p: "spine_ok \<sigma> ((xs @ [a]) @ ys)" using assms by simp
  show "NextStep \<sigma> a = Some (Inr (find (linear_at \<sigma>) ys))"
    using spine_step(1) [OF assms] skip_forward [OF p] by (simp add: NextStep_def)
  show "PriorStep \<sigma> a = Some (Inr (find (linear_at \<sigma>) (rev xs)))"
    using spine_step(2) [OF assms] skip_backward [OF assms] by (simp add: PriorStep_def)
  assume b: "ys = [] \<and> b \<notin> set (xs @ [a]) \<and> \<sigma> b = Some n"
  then have "spine_ok \<sigma> (xs @ [a])" using assms by simp
  then show "\<exists>\<sigma>'. SetNextItem \<sigma> a b = Inr \<sigma>' \<and> spine_ok \<sigma>' (xs @ [a, b]) \<and> same_data \<sigma> \<sigma>'"
    using SetNextItem_append b by blast
qed (use Count_walk Index_walk Spine_at_seq assms in blast)+

definition sample_spine :: spine where
  "sample_spine = [1 \<mapsto> new_SpineItem\<lparr>si_idref := ''cover'', si_next := Some 2\<rparr>,
     2 \<mapsto> new_SpineItem\<lparr>si_idref := ''notes'', si_linear := False, si_prev := Some 1, si_next := Some 3\<rparr>,
     3 \<mapsto> new_SpineItem\<lparr>si_idref := ''text'', si_prev := Some 2\<rparr>]"

theorem spine_refines_sequence_witness:
  "Spine_Index sample_spine 1 = Some (Inr 0) \<and> NextStep sample_spine 1 = Some (Inr (Some 3)) \<and>
   Spine_at sample_spine 1 3 = Inl (Throws (Out_of_range ''Index 0 is out of range''))"
proof -
  have "spine_ok sample_spine ([] @ 1 # [2, 3])"
    by (simp add: spine_ok_def sample_spine_def new_SpineItem_def)
  moreover have "signed_dec 0 = ''0''" by code_simp
  ultimately show ?thesis using spine_refines_sequence [of sample_spine "[]" 1 "[2, 3]" 3]
    by (simp add: seq_at_def linear_at_def sample_spine_def new_SpineItem_def)
qed

end
