(* ===== verification/Package.thy ===== *)
theory Package
  imports Manifest Spine Cfi
begin

text \<open>
  \<^verbatim>\<open>PackageBase\<close> and \<^verbatim>\<open>Package\<close> (\<^verbatim>\<open>ePub/package.cpp\<close>): how \<^verbatim>\<open>Unpack\<close> builds the manifest and the spine from the elements of
  the package document, the lookups in both, and the translation between items and content fragment identifiers.
  An element is the list of its attributes.  The theorems say what the spine contains after unpacking, and that an identifier made for a
  spine item leads back to the item.
\<close>

section \<open>State\<close>

datatype xml_target = ManifestTarget manifest_item | SpineTarget nat

record package =
  pb_pathBase :: string
  pb_manifest :: manifest
  pb_items :: spine
  pb_spine :: "nat option"
  pb_next :: nat
  pb_xmlIDLookup :: "(string \<times> xml_target) list"
  pb_spineCFIIndex :: u32

definition StoreXMLIdentifiable :: "string \<Rightarrow> xml_target \<Rightarrow> package \<Rightarrow> package" where
  "StoreXMLIdentifiable xmlID ptr pk =
     (if xmlID \<noteq> [] then pk\<lparr>pb_xmlIDLookup := emplace xmlID ptr (pb_xmlIDLookup pk)\<rparr> else pk)"

section \<open>Elements of the spine\<close>

definition is_ws :: "char \<Rightarrow> bool" where
  "is_ws c \<longleftrightarrow> (let n = of_char c :: nat in n = 32 \<or> (9 \<le> n \<and> n \<le> 13))"

text \<open>The pieces between the matches of \<^verbatim>\<open>,?\s+\<close>; an empty last piece is not produced.\<close>

function split_properties :: "string \<Rightarrow> string \<Rightarrow> string list" where
  "split_properties cur [] = (if cur = [] then [] else [cur])"
| "split_properties cur (c # s) =
     (if is_ws c \<or> (c = CHR '','' \<and> s \<noteq> [] \<and> is_ws (hd s)) then cur # split_properties [] (dropWhile is_ws s)
      else split_properties (cur @ [c]) s)"
  by pat_completeness auto
termination by (relation "measure (\<lambda>(cur, s). length s)") (auto simp: less_Suc_eq_le length_dropWhile_le)

text \<open>The captures of \<^verbatim>\<open>^(?:(.+?):)?(.+)$\<close>: the shortest prefix before a colon, if something follows, and the rest.\<close>

fun property_parts :: "string \<Rightarrow> string \<Rightarrow> (string \<times> string) option" where
  "property_parts pre [] = None"
| "property_parts pre (c # s) = (if c = CHR '':'' \<and> pre \<noteq> [] \<and> s \<noteq> [] then Some (pre, s) else property_parts (pre @ [c]) s)"

definition property_name :: "string \<Rightarrow> (string \<times> string) cxx" where
  "property_name s = (if s = [] then Inl (Throws (Invalid_argument
       (''Attribute '' @ [CHR 0x27] @ s @ [CHR 0x27] @ '' doesn'' @ [CHR 0x27] @ ''t look like a property name to me'')))
     else Inr (case property_parts [] s of None \<Rightarrow> ([], s) | Some p \<Rightarrow> p))"

fun property_names :: "string list \<Rightarrow> (string \<times> string) list cxx" where
  "property_names [] = Inr []"
| "property_names (s # ss) = bind_cxx (property_name s) (\<lambda>p. bind_cxx (property_names ss) (\<lambda>ps. Inr (p # ps)))"

definition SpineItem_ParseXML :: "attributes \<Rightarrow> spine_item cxx" where
  "SpineItem_ParseXML node =
     bind_cxx (if getAttr node ''properties'' = [] then Inr [] else property_names (split_properties [] (getAttr node ''properties'')))
       (\<lambda>ps. Inr (new_SpineItem\<lparr>si_id := getAttr node ''id'', si_idref := getAttr node ''idref'',
          si_linear := tolower (getAttr node ''linear'') \<noteq> ''no'', si_properties := ps\<rparr>))"

section \<open>Unpacking\<close>

fun unpack_manifest :: "attributes list \<Rightarrow> package \<Rightarrow> package" where
  "unpack_manifest [] pk = pk"
| "unpack_manifest (node # nodes) pk = (case ManifestItem_ParseXML node of
     None \<Rightarrow> unpack_manifest nodes pk
   | Some p \<Rightarrow> unpack_manifest nodes (StoreXMLIdentifiable (mi_id p) (ManifestTarget p)
       (pk\<lparr>pb_manifest := emplace (mi_id p) p (pb_manifest pk)\<rparr>)))"

text \<open>An item that passed the checks is linked behind the current one, or becomes the first.\<close>

definition link_item :: "nat \<Rightarrow> nat option \<Rightarrow> package \<Rightarrow> package cxx" where
  "link_item a cur pk = (case cur of
     None \<Rightarrow> Inr (pk\<lparr>pb_spine := Some a\<rparr>)
   | Some c \<Rightarrow> bind_cxx (SetNextItem (pb_items pk) c a) (\<lambda>\<sigma>. Inr (pk\<lparr>pb_items := \<sigma>\<rparr>)))"

fun unpack_spine :: "handler \<Rightarrow> attributes list \<Rightarrow> nat option \<Rightarrow> package \<Rightarrow> package run" where
  "unpack_spine h [] cur pk = Some (Inr pk)"
| "unpack_spine h (node # nodes) cur pk =
     bind_run (Some (SpineItem_ParseXML node)) (\<lambda>it.
       let a = pb_next pk in
       case ManifestItemWithID (pb_manifest pk) (si_idref it) of
         None \<Rightarrow> bind_run (Some (HandleError h (OPF OPFInvalidSpineIdref) (si_idref it @ '' does not correspond to a manifest item'')))
           (\<lambda>_. unpack_spine h nodes cur pk)
       | Some m \<Rightarrow> bind_run (map_option Inr (content_doc_loop (pb_manifest pk) m)) (\<lambda>isContentDoc.
           bind_run (Some (if \<not> isContentDoc then HandleError h (OPF OPFFallbackChainHasNoContentDocument) [] else Inr ())) (\<lambda>_.
           bind_run (Some (link_item a cur (StoreXMLIdentifiable (si_id it) (SpineTarget a)
               (pk\<lparr>pb_items := (pb_items pk)(a \<mapsto> it), pb_next := Suc a\<rparr>))))
             (unpack_spine h nodes (Some a)))))"

text \<open>The part of \<^verbatim>\<open>Unpack\<close> inside the first \<^verbatim>\<open>try\<close>: every exception ends in \<^verbatim>\<open>return false\<close>, an \<^verbatim>\<open>epub_spec_error\<close> too, which is no
  \<^verbatim>\<open>system_error\<close>.\<close>

definition unpack_items :: "handler \<Rightarrow> attributes list \<Rightarrow> attributes list \<Rightarrow> package \<Rightarrow> package run" where
  "unpack_items h manifestNodes spineNodes pk =
     bind_run (Some (if manifestNodes = [] then HandleError h (OPF OPFNoManifestItems) [] else Inr ())) (\<lambda>_.
     bind_run (Some (if spineNodes = [] then HandleError h (OPF OPFNoSpineItems) [] else Inr ())) (\<lambda>_.
       let pk = unpack_manifest manifestNodes pk in
       bind_run (check_fallbacks h (pb_manifest pk)) (\<lambda>_. unpack_spine h spineNodes None pk)))"

definition try_unpack_items :: "handler \<Rightarrow> attributes list \<Rightarrow> attributes list \<Rightarrow> package \<Rightarrow> package option run" where
  "try_unpack_items h manifestNodes spineNodes pk = map_option (\<lambda>r. case r of
       Inl (Throws e) \<Rightarrow> Inr None | Inl Undefined \<Rightarrow> Inl Undefined | Inr pk \<Rightarrow> Inr (Some pk))
     (unpack_items h manifestNodes spineNodes pk)"

section \<open>Lookups in the spine\<close>

definition SpineItemAt :: "package \<Rightarrow> nat \<Rightarrow> nat option cxx" where
  "SpineItemAt pk idx = bind_cxx (at_loop si_Next (pb_items pk) (pb_spine pk) idx) (\<lambda>(item, _). Inr item)"

text \<open>The loop over the spine that compares the \<^verbatim>\<open>idref\<close>, with the position; the position counts in a \<^verbatim>\<open>size_t\<close>.\<close>

partial_function (option) idref_loop :: "spine \<Rightarrow> nat option \<Rightarrow> string \<Rightarrow> u64 \<Rightarrow> (nat \<times> u64) option run" where
  "idref_loop \<sigma> item idref i = (case item of None \<Rightarrow> Some (Inr None)
     | Some a \<Rightarrow> (case must (\<sigma> a) of Inl e \<Rightarrow> Some (Inl e)
        | Inr it \<Rightarrow> if si_idref it = idref then Some (Inr (Some (a, i))) else idref_loop \<sigma> (si_next it) idref (i + 1)))"

definition IndexOfSpineItemWithIDRef :: "package \<Rightarrow> string \<Rightarrow> u64 run" where
  "IndexOfSpineItemWithIDRef pk idref = bind_run (idref_loop (pb_items pk) (pb_spine pk) idref 0) (\<lambda>r.
     Some (Inr (case r of None \<Rightarrow> - 1 | Some (_, i) \<Rightarrow> i)))"

definition SpineItemWithIDRef :: "package \<Rightarrow> string \<Rightarrow> nat option run" where
  "SpineItemWithIDRef pk idref = bind_run (idref_loop (pb_items pk) (pb_spine pk) idref 0) (\<lambda>r. Some (Inr (map_option fst r)))"

section \<open>Fragment identifiers\<close>

definition item_step :: "u64 \<Rightarrow> string \<Rightarrow> string" where
  "item_step i ident = dec (unat ((i + 1) * 2)) @ ''['' @ ident @ '']!''"

definition CFISubpathForManifestItemWithID :: "package \<Rightarrow> string \<Rightarrow> string run" where
  "CFISubpathForManifestItemWithID pk ident = bind_run (IndexOfSpineItemWithIDRef pk ident) (\<lambda>sz.
     if sz = - 1 then Some (Inl (Throws (Invalid_argument
       (''Identifier '' @ [CHR 0x27] @ ident @ [CHR 0x27] @ '' was not found in the spine.''))))
     else Some (Inr (dec (unat (pb_spineCFIIndex pk)) @ ''/'' @ item_step sz ident)))"

definition package_CFI :: "'f float_lib \<Rightarrow> handler \<Rightarrow> package \<Rightarrow> string \<Rightarrow> 'f CFI run" where
  "package_CFI fl h pk str = bind_run (Component_of_string fl h str) (\<lambda>c.
     Some (Inr (empty_CFI\<lparr>components := [new_Component fl (pb_spineCFIIndex pk), c]\<rparr>)))"

definition CFIForManifestItem :: "'f float_lib \<Rightarrow> handler \<Rightarrow> package \<Rightarrow> manifest_item \<Rightarrow> 'f CFI run" where
  "CFIForManifestItem fl h pk item = bind_run (IndexOfSpineItemWithIDRef pk (mi_id item)) (\<lambda>i. package_CFI fl h pk (item_step i (mi_id item)))"

definition CFIForSpineItem :: "'f float_lib \<Rightarrow> handler \<Rightarrow> package \<Rightarrow> nat \<Rightarrow> 'f CFI run" where
  "CFIForSpineItem fl h pk a = bind_run (Spine_Index (pb_items pk) a) (\<lambda>i. bind_run (Some (must (pb_items pk a))) (\<lambda>it.
     package_CFI fl h pk (item_step (of_nat i) (si_idref it))))"

text \<open>The corrected index is always 2.\<close>

definition ConfirmOrCorrectSpineItemQualifier :: "handler \<Rightarrow> package \<Rightarrow> nat \<Rightarrow> 'f Component \<Rightarrow> (nat option \<times> 'f Component) run" where
  "ConfirmOrCorrectSpineItemQualifier h pk a c = bind_run (Some (must (pb_items pk a))) (\<lambda>it.
     if HasQualifier c \<and> si_idref it \<noteq> qualifier c then
       bind_run (idref_loop (pb_items pk) (pb_spine pk) (qualifier c) 0) (\<lambda>r. Some (Inr (case r of
         None \<Rightarrow> (None, c) | Some (b, _) \<Rightarrow> (Some b, c\<lparr>nodeIndex := 2\<rparr>))))
     else if \<not> HasQualifier c then
       bind_run (Some (HandleError h (CFIErr CFINonAssertedXMLID) [])) (\<lambda>_. Some (Inr (Some a, c)))
     else Some (Inr (Some a, c)))"

text \<open>\<^verbatim>\<open>catch (std::out_of_range&)\<close>, with the result at the time of the exception.\<close>

definition out_of_spine :: "handler \<Rightarrow> 'x \<Rightarrow> 'x run \<Rightarrow> 'x run" where
  "out_of_spine h result r = (case r of
     Some (Inl (Throws (Out_of_range w))) \<Rightarrow>
       bind_run (Some (HandleError h (CFIErr CFIStepOutOfBounds) (''CFI references out-of-range spine item: '' @ w))) (\<lambda>_. Some (Inr result))
   | _ \<Rightarrow> r)"

text \<open>The step to the spine item, with what becomes of the component, which is a local copy of the caller.\<close>

definition spine_target :: "handler \<Rightarrow> package \<Rightarrow> 'f Component \<Rightarrow> (nat option \<times> 'f Component) run" where
  "spine_target h pk c =
     (if nodeIndex c AND 1 = 1 then Some (Inl (Throws (InvalidCFI
        ''CFI spine item index is odd, which makes no sense for always-empty spine nodes.'')))
      else bind_run (Some (must (pb_spine pk))) (\<lambda>first.
        bind_run (Some (Spine_at (pb_items pk) first (int (unat (drop_bit 1 (nodeIndex c) - 1))))) (\<lambda>item.
        bind_run (ConfirmOrCorrectSpineItemQualifier h pk item c) (\<lambda>(item, c').
          case item of
            None \<Rightarrow> bind_run (Some (HandleError h (CFIErr CFIIndirectionTargetMissing)
              (''CFI spine node qualifier doesn'' @ [CHR 0x27] @ ''t match any spine item idref''))) (\<lambda>_. Some (Inr (None, c')))
          | Some a \<Rightarrow> Some (Inr (Some a, c'))))))"

text \<open>The result, the remaining identifier and the identifier itself, which is passed by reference: the corrected component is
  not written back into it.\<close>

definition ManifestItemForCFI ::
  "handler \<Rightarrow> package \<Rightarrow> 'f CFI \<Rightarrow> 'f CFI option \<Rightarrow> (manifest_item option \<times> 'f CFI option \<times> 'f CFI) run" where
  "ManifestItemForCFI h pk cfi remaining =
     bind_run (Some (if length (components cfi) < 2 then HandleError h (CFIErr CFITooShort)
       ''CFI contains less than 2 nodes, so is invalid for package-based lookups.'' else Inr ())) (\<lambda>_.
     bind_run (Some (elem_at (components cfi) 0)) (\<lambda>c0.
     if nodeIndex c0 \<noteq> pb_spineCFIIndex pk then
       bind_run (Some (HandleError h (CFIErr CFIInvalidSpineLocation) (''CFI first node index (spine) is '' @ dec (unat (nodeIndex c0)) @
         '' but should be '' @ dec (unat (pb_spineCFIIndex pk))))) (\<lambda>_. Some (Inr (None, remaining, cfi)))
     else bind_run (Some (elem_at (components cfi) 1)) (\<lambda>c.
     if \<not> IsIndirector c then
       bind_run (Some (HandleError h (CFIErr CFIUnexpectedComponent) (''Package-based CFI'' @ [CHR 0x27] @
         ''s second item must be an indirector''))) (\<lambda>_. Some (Inr (None, remaining, cfi)))
     else bind_run (out_of_spine h (None, c) (spine_target h pk c)) (\<lambda>(target, corrected).
       case target of
         None \<Rightarrow> Some (Inr (None, remaining, cfi))
       | Some a \<Rightarrow> bind_run (Some (must (pb_items pk a))) (\<lambda>it.
           let result = ManifestItemWithID (pb_manifest pk) (si_idref it) in
           case remaining of
             None \<Rightarrow> Some (Inr (result, None, cfi))
           | Some r \<Rightarrow> out_of_spine h (result, remaining, cfi)
               (bind_run (Some (CFI_Assign_from r cfi 2)) (\<lambda>r. Some (Inr (result, Some r, cfi)))))))))"

section \<open>What the spine holds\<close>

definition tolerates :: "handler \<Rightarrow> EPUBError \<Rightarrow> bool" where
  "tolerates h e \<longleftrightarrow> (\<forall>what. HandleError h e what = Inr ())"

definition parsed_node :: "attributes \<Rightarrow> spine_item" where
  "parsed_node node = (case SpineItem_ParseXML node of Inr it \<Rightarrow> it | Inl _ \<Rightarrow> new_SpineItem)"

definition known_idref :: "manifest \<Rightarrow> attributes \<Rightarrow> bool" where
  "known_idref mf node \<longleftrightarrow> ManifestItemWithID mf (si_idref (parsed_node node)) \<noteq> None"

definition node_ok :: "handler \<Rightarrow> manifest \<Rightarrow> attributes \<Rightarrow> bool" where
  "node_ok h mf node \<longleftrightarrow> (case SpineItem_ParseXML node of Inr _ \<Rightarrow> True | Inl _ \<Rightarrow> False) \<and>
     (known_idref mf node \<or> tolerates h (OPF OPFInvalidSpineIdref))"

text \<open>The spine of a package is the list of addresses \<open>as\<close>.\<close>

definition spine_of :: "package \<Rightarrow> nat list \<Rightarrow> bool" where
  "spine_of pk as \<longleftrightarrow> spine_ok (pb_items pk) as \<and> pb_spine pk = first_addr as \<and> (\<forall>a \<in> set as. a < pb_next pk)"

abbreviation spine_data :: "package \<Rightarrow> nat list \<Rightarrow> (string \<times> string \<times> bool \<times> string \<times> (string \<times> string) list) option list" where
  "spine_data pk as \<equiv> map (\<lambda>a. map_option item_data (pb_items pk a)) as"

lemma Store_simps [simp]:
  "pb_items (StoreXMLIdentifiable x t pk) = pb_items pk" "pb_spine (StoreXMLIdentifiable x t pk) = pb_spine pk"
  "pb_next (StoreXMLIdentifiable x t pk) = pb_next pk" "pb_manifest (StoreXMLIdentifiable x t pk) = pb_manifest pk"
  "pb_spineCFIIndex (StoreXMLIdentifiable x t pk) = pb_spineCFIIndex pk"
  by (simp_all add: StoreXMLIdentifiable_def)

lemma parsed_links [simp]: "si_prev (parsed_node node) = None" "si_next (parsed_node node) = None"
  by (auto simp: parsed_node_def SpineItem_ParseXML_def new_SpineItem_def bind_cxx_def split: sum.splits if_splits)

lemma link_item_ok:
  assumes "spine_of pk as" and "si_prev it = None" and "si_next it = None"
  shows "\<exists>pk'. link_item (pb_next pk) (last_addr None as)
      (StoreXMLIdentifiable x t (pk\<lparr>pb_items := (pb_items pk)(pb_next pk \<mapsto> it), pb_next := Suc (pb_next pk)\<rparr>)) = Inr pk' \<and>
    spine_of pk' (as @ [pb_next pk]) \<and> spine_data pk' (as @ [pb_next pk]) = spine_data pk as @ [Some (item_data it)] \<and>
    pb_manifest pk' = pb_manifest pk \<and> pb_spineCFIIndex pk' = pb_spineCFIIndex pk"
proof -
  let ?a = "pb_next pk" and ?\<sigma> = "(pb_items pk)(pb_next pk \<mapsto> it)"
  have new: "?a \<notin> set as" using assms(1) by (auto simp: spine_of_def)
  have "dlist ?\<sigma> None as = dlist (pb_items pk) None as" by (rule dlist_cong) (use new in auto)
  then have ok: "spine_ok ?\<sigma> as" using assms(1) by (simp add: spine_of_def spine_ok_def)
  show ?thesis
  proof (cases as rule: rev_cases)
    case Nil
    then show ?thesis using assms by (simp add: link_item_def spine_of_def spine_ok_def)
  next
    case (snoc bs b)
    obtain \<sigma>' where s: "SetNextItem ?\<sigma> b ?a = Inr \<sigma>'" "spine_ok \<sigma>' (bs @ [b, ?a])" "same_data ?\<sigma> \<sigma>'"
      using SetNextItem_append [of ?\<sigma> bs b ?a it] ok new snoc by auto
    have d: "map_option item_data (\<sigma>' c) = (if c = ?a then Some (item_data it) else map_option item_data (pb_items pk c))" for c
      using s(3) by (auto simp: same_data_def)
    have "first_addr as = first_addr (as @ [?a])" using snoc by (cases bs) simp_all
    then show ?thesis using snoc s d new assms(1) by (auto simp: link_item_def spine_of_def simp del: map_option_eq_Some)
  qed
qed

lemma unpack_spine_ok:
  assumes "fallbacks_end (pb_manifest pk)" and "tolerates h (OPF OPFFallbackChainHasNoContentDocument)"
    and "\<forall>node \<in> set nodes. node_ok h (pb_manifest pk) node" and "spine_of pk as"
  shows "\<exists>pk' bs. unpack_spine h nodes (last_addr None as) pk = Some (Inr pk') \<and> spine_of pk' (as @ bs) \<and>
    spine_data pk' (as @ bs) = spine_data pk as @ map (\<lambda>node. Some (item_data (parsed_node node))) (filter (known_idref (pb_manifest pk)) nodes) \<and>
    pb_manifest pk' = pb_manifest pk \<and> pb_spineCFIIndex pk' = pb_spineCFIIndex pk"
  using assms
proof (induction nodes arbitrary: pk as)
  case Nil
  then show ?case by (intro exI [of _ pk] exI [of _ "[]"]) simp
next
  case (Cons node nodes)
  have p: "SpineItem_ParseXML node = Inr (parsed_node node)"
    using Cons.prems(3) by (auto simp: node_ok_def parsed_node_def split: sum.splits)
  show ?case
  proof (cases "ManifestItemWithID (pb_manifest pk) (si_idref (parsed_node node))")
    case None
    then have "tolerates h (OPF OPFInvalidSpineIdref)" "\<not> known_idref (pb_manifest pk) node"
      using Cons.prems(3) by (auto simp: node_ok_def known_idref_def)
    then show ?thesis using Cons.IH [of pk as] Cons.prems p None by (simp add: tolerates_def)
  next
    case (Some m)
    let ?a = "pb_next pk"
    have "m \<in> snd ` set (pb_manifest pk)" using Some by (force simp: ManifestItemWithID_def dest: map_of_SomeD)
    then obtain n where "chain_at (pb_manifest pk) m n = None" using Cons.prems(1) by (auto simp: fallbacks_end_def chain_ends_def)
    then obtain b where b: "content_doc_loop (pb_manifest pk) m = Some b" using content_doc_end by blast
    obtain pk1 where k: "link_item ?a (last_addr None as) (StoreXMLIdentifiable (si_id (parsed_node node)) (SpineTarget ?a)
          (pk\<lparr>pb_items := (pb_items pk)(?a \<mapsto> parsed_node node), pb_next := Suc ?a\<rparr>)) = Inr pk1"
        "spine_of pk1 (as @ [?a])" "spine_data pk1 (as @ [?a]) = spine_data pk as @ [Some (item_data (parsed_node node))]"
        "pb_manifest pk1 = pb_manifest pk" "pb_spineCFIIndex pk1 = pb_spineCFIIndex pk"
      using link_item_ok [OF Cons.prems(4), of "parsed_node node"] by (auto simp del: map_append)
    obtain pk' bs where r: "unpack_spine h nodes (Some ?a) pk1 = Some (Inr pk')" "spine_of pk' ((as @ [?a]) @ bs)"
        "spine_data pk' ((as @ [?a]) @ bs) = spine_data pk1 (as @ [?a]) @ map (\<lambda>node. Some (item_data (parsed_node node))) (filter (known_idref (pb_manifest pk)) nodes)"
        "pb_manifest pk' = pb_manifest pk1" "pb_spineCFIIndex pk' = pb_spineCFIIndex pk1"
      using Cons.IH [of pk1 "as @ [?a]"] Cons.prems k by (auto simp del: map_append append_assoc)
    have "known_idref (pb_manifest pk) node" using Some by (simp add: known_idref_def)
    then show ?thesis
      using p Some b k r Cons.prems(2)
      by (intro exI [of _ pk'] exI [of _ "?a # bs"]) (simp add: Let_def tolerates_def)
  qed
qed

lemma unpack_manifest_fields [simp]:
  "pb_manifest (unpack_manifest nodes pk) = load_manifest nodes (pb_manifest pk)"
  "pb_items (unpack_manifest nodes pk) = pb_items pk" "pb_spine (unpack_manifest nodes pk) = pb_spine pk"
  "pb_next (unpack_manifest nodes pk) = pb_next pk" "pb_spineCFIIndex (unpack_manifest nodes pk) = pb_spineCFIIndex pk"
  by (induction nodes arbitrary: pk) (simp_all split: option.split)

definition new_package :: "string \<Rightarrow> u32 \<Rightarrow> package" where
  "new_package base idx = \<lparr>pb_pathBase = base, pb_manifest = [], pb_items = Map.empty, pb_spine = None, pb_next = 0,
     pb_xmlIDLookup = [], pb_spineCFIIndex = idx\<rparr>"

lemma medium_tolerated [simp]: "tolerates DefaultErrorHandler (OPF OPFFallbackChainHasNoContentDocument)"
  by (simp add: tolerates_def HandleError_def DispatchError_def DefaultErrorHandler_def spec_Severity_def new_epub_spec_error_def error_info_def)

lemma idref_thrown: "\<not> tolerates DefaultErrorHandler (OPF OPFInvalidSpineIdref)"
  by (simp add: tolerates_def HandleError_def DispatchError_def DefaultErrorHandler_def spec_Severity_def new_epub_spec_error_def error_info_def)

text \<open>C15: Unpacking a package document gives exactly the manifest and the spine it describes.  The item of an identifier is the first
  element with that identifier that has all required attributes; when no chain of fallbacks is circular and
  every \<open>itemref\<close> names an item, unpacking returns with a well-formed spine that holds the data of the \<open>itemref\<close> elements in their order.
  In a package with a circular chain it does not succeed.\<close>

theorem unpack_items_correct:
  assumes "manifestNodes \<noteq> []" and "spineNodes \<noteq> []"
    and "mf = load_manifest manifestNodes []" and "\<forall>node \<in> set spineNodes. node_ok DefaultErrorHandler mf node"
  shows "(\<forall>k. ManifestItemWithID mf k = find (\<lambda>it. mi_id it = k) (parsed_items manifestNodes)) \<and>
    (if fallbacks_end mf
     then \<exists>pk as. try_unpack_items DefaultErrorHandler manifestNodes spineNodes (new_package base idx) = Some (Inr (Some pk)) \<and>
       pb_manifest pk = mf \<and> pb_spineCFIIndex pk = idx \<and> spine_of pk as \<and>
       spine_data pk as = map (\<lambda>node. Some (item_data (parsed_node node))) spineNodes
     else \<forall>pk. try_unpack_items DefaultErrorHandler manifestNodes spineNodes (new_package base idx) \<noteq> Some (Inr (Some pk)))"
proof (intro conjI)
  have ok: "manifest_ok mf" unfolding assms(3) by (rule load_manifest_ok) (simp add: manifest_ok_def)
  show "\<forall>k. ManifestItemWithID mf k = find (\<lambda>it. mi_id it = k) (parsed_items manifestNodes)"
    using load_manifest_lookup [of "[]" manifestNodes] by (simp add: assms(3) ManifestItemWithID_def manifest_ok_def)
  have u: "unpack_items DefaultErrorHandler manifestNodes spineNodes (new_package base idx) =
      bind_run (check_fallbacks DefaultErrorHandler mf) (\<lambda>_. unpack_spine DefaultErrorHandler spineNodes None (unpack_manifest manifestNodes (new_package base idx)))"
    using assms(1-3) by (simp add: unpack_items_def Let_def new_package_def)
  show "if fallbacks_end mf
     then \<exists>pk as. try_unpack_items DefaultErrorHandler manifestNodes spineNodes (new_package base idx) = Some (Inr (Some pk)) \<and>
       pb_manifest pk = mf \<and> pb_spineCFIIndex pk = idx \<and> spine_of pk as \<and>
       spine_data pk as = map (\<lambda>node. Some (item_data (parsed_node node))) spineNodes
     else \<forall>pk. try_unpack_items DefaultErrorHandler manifestNodes spineNodes (new_package base idx) \<noteq> Some (Inr (Some pk))"
  proof (cases "fallbacks_end mf")
    case True
    let ?pk = "unpack_manifest manifestNodes (new_package base idx)"
    have m: "pb_manifest ?pk = mf" "pb_spineCFIIndex ?pk = idx" "spine_of ?pk []"
      using assms(3) by (simp_all add: new_package_def spine_of_def spine_ok_def)
    have f: "filter (known_idref mf) spineNodes = spineNodes"
      using assms(4) idref_thrown by (auto simp: filter_id_conv node_ok_def)
    obtain pk bs where "unpack_spine DefaultErrorHandler spineNodes None ?pk = Some (Inr pk)" "spine_of pk bs"
        "spine_data pk bs = map (\<lambda>node. Some (item_data (parsed_node node))) (filter (known_idref mf) spineNodes)"
        "pb_manifest pk = mf" "pb_spineCFIIndex pk = idx"
      using unpack_spine_ok [of ?pk DefaultErrorHandler spineNodes "[]"] True assms(4) m by auto
    moreover have "check_fallbacks DefaultErrorHandler mf = Some (Inr ())" using check_fallbacks_iff [OF ok] True by simp
    ultimately show ?thesis using True u f by (auto simp: try_unpack_items_def)
  next
    case False
    then have "check_fallbacks DefaultErrorHandler mf \<noteq> Some (Inr ())" using check_fallbacks_iff [OF ok] by simp
    then show ?thesis using False u by (auto simp: try_unpack_items_def bind_run_def split: option.splits sum.splits stop.splits)
  qed
qed

definition sample_manifest_nodes :: "attributes list" where
  "sample_manifest_nodes = [[(''id'', ''c1''), (''href'', ''1.xhtml''), (''media-type'', ''application/xhtml+xml'')],
     [(''id'', ''c2''), (''href'', ''2.xhtml''), (''media-type'', ''application/xhtml+xml'')]]"

definition sample_spine_nodes :: "attributes list" where
  "sample_spine_nodes = [[(''idref'', ''c2''), (''linear'', ''NO'')], [(''idref'', ''c1'')]]"

theorem unpack_items_correct_witness:
  "\<exists>pk as. try_unpack_items DefaultErrorHandler sample_manifest_nodes sample_spine_nodes (new_package [] 6) = Some (Inr (Some pk)) \<and>
     spine_data pk as = [Some ([], ''c2'', False, [], []), Some ([], ''c1'', True, [], [])]"
proof -
  let ?mf = "load_manifest sample_manifest_nodes []"
  have "\<forall>node \<in> set sample_spine_nodes. known_idref ?mf node \<and> (case SpineItem_ParseXML node of Inr _ \<Rightarrow> True | Inl _ \<Rightarrow> False)"
    by code_simp
  then have "\<forall>node \<in> set sample_spine_nodes. node_ok DefaultErrorHandler ?mf node" by (simp add: node_ok_def)
  moreover have "fallbacks_end ?mf"
  proof -
    have "\<forall>it \<in> snd ` set ?mf. chain_at ?mf it 1 = None" by code_simp
    then show ?thesis unfolding fallbacks_end_def chain_ends_def by blast
  qed
  moreover have "map (\<lambda>node. Some (item_data (parsed_node node))) sample_spine_nodes =
      [Some ([], ''c2'', False, [], []), Some ([], ''c1'', True, [], [])]"
    by code_simp
  moreover have "sample_manifest_nodes \<noteq> []" "sample_spine_nodes \<noteq> []" by (simp_all add: sample_manifest_nodes_def sample_spine_nodes_def)
  ultimately obtain pk as where
    "try_unpack_items DefaultErrorHandler sample_manifest_nodes sample_spine_nodes (new_package [] 6) = Some (Inr (Some pk))"
    "spine_data pk as = [Some ([], ''c2'', False, [], []), Some ([], ''c1'', True, [], [])]"
    using unpack_items_correct [of sample_manifest_nodes sample_spine_nodes ?mf "[]" 6]
    by (simp del: map_option_eq_Some map_eq_Cons_conv) metis
  then show ?thesis by (intro exI [of _ pk] exI [of _ as]) (rule conjI)
qed

section \<open>Identifiers lead back to the items\<close>

definition idref_is :: "spine \<Rightarrow> string \<Rightarrow> nat \<Rightarrow> bool" where
  "idref_is \<sigma> idref a \<longleftrightarrow> map_option si_idref (\<sigma> a) = Some idref"

lemma idref_loop_walk:
  "spine_ok \<sigma> (xs @ ys) \<Longrightarrow> idref_loop \<sigma> (first_addr ys) idref i =
     Some (Inr (case dropWhile (\<lambda>a. \<not> idref_is \<sigma> idref a) ys of [] \<Rightarrow> None
       | a # _ \<Rightarrow> Some (a, i + of_nat (length (takeWhile (\<lambda>a. \<not> idref_is \<sigma> idref a) ys)))))"
proof (induction ys arbitrary: xs i)
  case Nil
  then show ?case by (subst idref_loop.simps) simp
next
  case (Cons b ys)
  obtain it where it: "\<sigma> b = Some it" using spine_alive [OF Cons.prems, of b] by auto
  have n: "si_next it = first_addr ys" using spine_step(1) [OF Cons.prems] it by (simp add: si_Next_def)
  have "idref_loop \<sigma> (first_addr ys) idref (i + 1) =
     Some (Inr (case dropWhile (\<lambda>a. \<not> idref_is \<sigma> idref a) ys of [] \<Rightarrow> None
       | a # _ \<Rightarrow> Some (a, i + 1 + of_nat (length (takeWhile (\<lambda>a. \<not> idref_is \<sigma> idref a) ys)))))"
    using Cons.IH [of "xs @ [b]" "i + 1"] Cons.prems by simp
  moreover have "idref_is \<sigma> idref b \<longleftrightarrow> si_idref it = idref" using it by (simp add: idref_is_def)
  ultimately show ?case using it n 
    by (subst idref_loop.simps) (cases "dropWhile (\<lambda>a. \<not> idref_is \<sigma> idref a) ys"; cases "si_idref it = idref"; simp add: add.assoc del: dropWhile_eq_Nil_conv)
qed

lemma item_step_text:
  assumes "n < 2 ^ 31 - 1"
  shows "item_step (of_nat n) ident = step_text fl (Step (of_nat (2 * (n + 1))) (Some ident) Indirect)"
proof -
  have "unat (of_nat (2 * (n + 1)) :: u64) = 2 * (n + 1)" "unat (of_nat (2 * (n + 1)) :: u32) = 2 * (n + 1)"
    using assms by (simp_all only: unsigned_of_nat) (simp_all add: take_bit_nat_eq_self)
  moreover have "(of_nat n + 1) * 2 = (of_nat (2 * (n + 1)) :: u64)" by simp
  ultimately show ?thesis by (simp only: item_step_def step_text.simps qualifier_text_def) simp
qed

lemma item_index:
  assumes "n < 2 ^ 31 - 1"
  shows "(of_nat (2 * (n + 1)) :: u32) AND 1 \<noteq> 1" and "unat (drop_bit 1 (of_nat (2 * (n + 1)) :: u32) - 1) = n"
proof -
  have "even (of_nat (2 * (n + 1)) :: u32)" by simp
  then show "(of_nat (2 * (n + 1)) :: u32) AND 1 \<noteq> 1" by (simp add: and_one_eq mod_2_eq_odd)
  have "unat (of_nat (2 * (n + 1)) :: u32) = 2 * (n + 1)"
    using assms by (simp only: unsigned_of_nat) (simp add: take_bit_nat_eq_self)
  then have u: "unat (drop_bit 1 (of_nat (2 * (n + 1)) :: u32)) = n + 1"
    using unat_drop_bit_eq [of 1 "of_nat (2 * (n + 1)) :: u32"] by (simp only: drop_bit_eq_div) simp
  then have "drop_bit 1 (of_nat (2 * (n + 1)) :: u32) \<noteq> 0" by (metis Suc_eq_plus1 nat.distinct(1) unsigned_0)
  from unat_minus_one [OF this] show "unat (drop_bit 1 (of_nat (2 * (n + 1)) :: u32) - 1) = n" using u by linarith
qed

definition item_component :: "'f float_lib \<Rightarrow> nat \<Rightarrow> string \<Rightarrow> 'f Component" where
  "item_component fl n ident = component_of fl (Step (of_nat (2 * (n + 1))) (Some ident) Indirect)"

lemma item_component_simps [simp]:
  "nodeIndex (item_component fl n ident) = of_nat (2 * (n + 1))" "qualifier (item_component fl n ident) = ident"
  "HasQualifier (item_component fl n ident)" "IsIndirector (item_component fl n ident)"
  by (simp_all add: item_component_def with_qualifier_def has_flag_bits)

lemma package_CFI_item:
  assumes "n < 2 ^ 31 - 1" and "CHR '']'' \<notin> set ident"
  shows "package_CFI fl h pk (item_step (of_nat n) ident) =
    Some (Inr (empty_CFI\<lparr>components := [new_Component fl (pb_spineCFIIndex pk), item_component fl n ident]\<rparr>))"
  using Component_Parse_step [of fl "Step (of_nat (2 * (n + 1))) (Some ident) Indirect" h] assms(2)
  by (simp only: package_CFI_def item_step_text [OF assms(1), of ident fl] Component_of_string_def item_component_def) simp

text \<open>The step to the spine item: the asserted identifier decides; in the copy of the component an index that disagrees with it
  becomes 2.\<close>

lemma spine_target_ok:
  assumes "spine_of pk as" and "n < length as" and "n < 2 ^ 31 - 1" and "nodeIndex c = of_nat (2 * (n + 1))" and "HasQualifier c"
    and "dropWhile (\<lambda>a. \<not> idref_is (pb_items pk) (qualifier c) a) as = b # rest"
  shows "spine_target h pk c = Some (Inr (if idref_is (pb_items pk) (qualifier c) (as ! n) then (Some (as ! n), c)
    else (Some b, c\<lparr>nodeIndex := 2\<rparr>)))"
proof -
  have ok: "spine_ok (pb_items pk) as" and p: "pb_spine pk = first_addr as" using assms(1) by (simp_all add: spine_of_def)
  obtain a as' where as: "as = a # as'" using assms(2) by (cases as) auto
  have at: "Spine_at (pb_items pk) a (int n) = Inr (as ! n)"
    using Spine_at_seq [of "pb_items pk" "[]" a as' "int n"] ok as assms(2) by (simp add: seq_at_def)
  obtain it where it: "pb_items pk (as ! n) = Some it" using spine_alive [OF ok] assms(2) by fastforce
  have l: "idref_loop (pb_items pk) (first_addr as) (qualifier c) 0 =
      Some (Inr (Some (b, of_nat (length (takeWhile (\<lambda>a. \<not> idref_is (pb_items pk) (qualifier c) a) as)))))"
    using idref_loop_walk [of "pb_items pk" "[]" as "qualifier c" 0] ok assms(6) by simp
  have q: "idref_is (pb_items pk) (qualifier c) (as ! n) \<longleftrightarrow> si_idref it = qualifier c" using it by (simp add: idref_is_def)
  have "ConfirmOrCorrectSpineItemQualifier h pk (as ! n) c =
      Some (Inr (if idref_is (pb_items pk) (qualifier c) (as ! n) then (Some (as ! n), c) else (Some b, c\<lparr>nodeIndex := 2\<rparr>)))"
    using it l p q assms(5) by (simp add: ConfirmOrCorrectSpineItemQualifier_def)
  then show ?thesis
    using p as at item_index [OF assms(3)] assms(4) by (simp only: spine_target_def) simp
qed

lemma ManifestItemForCFI_ok:
  assumes "spine_target h pk c = Some (Inr (Some a, c'))" and "IsIndirector c" and "pb_items pk a = Some it"
    and "components cfi = new_Component fl (pb_spineCFIIndex pk) # c # cs"
  shows "ManifestItemForCFI h pk cfi None = Some (Inr (ManifestItemWithID (pb_manifest pk) (si_idref it), None, cfi))"
    and "cs \<noteq> [] \<Longrightarrow> \<exists>r'. ManifestItemForCFI h pk cfi (Some r) = Some (Inr (ManifestItemWithID (pb_manifest pk) (si_idref it), Some r', cfi)) \<and>
      components r' = cs"
proof -
  show "ManifestItemForCFI h pk cfi None = Some (Inr (ManifestItemWithID (pb_manifest pk) (si_idref it), None, cfi))"
    using assms by (simp add: ManifestItemForCFI_def out_of_spine_def)
  assume "cs \<noteq> []"
  then have "\<exists>r'. CFI_Assign_from r cfi 2 = Inr r' \<and> components r' = cs"
    using assms(4) by (auto simp: CFI_Assign_from_def Let_def Suc_le_eq)
  then show "\<exists>r'. ManifestItemForCFI h pk cfi (Some r) = Some (Inr (ManifestItemWithID (pb_manifest pk) (si_idref it), Some r', cfi)) \<and>
      components r' = cs"
    using assms by (auto simp: ManifestItemForCFI_def out_of_spine_def)
qed

text \<open>C14: The identifier that the package makes for a spine item leads back to its manifest item, alone and with a path into
  the document appended, which is what remains; such an identifier is itself left as it is.  An identifier whose index
  belongs to another spine item is followed by its assertion: the manifest item found is the one of the asserted reference.\<close>

theorem cfi_leads_to_item:
  assumes "spine_of pk as" and "n < length as" and "n < 2 ^ 31 - 1" and "pb_items pk (as ! n) = Some it" and "CHR '']'' \<notin> set (si_idref it)"
    and "ManifestItemWithID (pb_manifest pk) (si_idref it) = Some m"
  shows "(\<exists>cfi. CFIForSpineItem fl h pk (as ! n) = Some (Inr cfi) \<and> ManifestItemForCFI h pk cfi None = Some (Inr (Some m, None, cfi)) \<and>
      (\<forall>path c r. components path \<noteq> [] \<and> CFI_Append cfi path = Inr c \<longrightarrow>
        (\<exists>r'. ManifestItemForCFI h pk c (Some r) = Some (Inr (Some m, Some r', c)) \<and> components r' = components path))) \<and>
    (\<forall>k cfi. k < length as \<and> k < 2 ^ 31 - 1 \<and> components cfi = [new_Component fl (pb_spineCFIIndex pk), item_component fl k (si_idref it)] \<longrightarrow>
      (\<exists>cfi'. ManifestItemForCFI h pk cfi None = Some (Inr (Some m, None, cfi'))))"
proof -
  let ?\<sigma> = "pb_items pk" and ?id = "si_idref it"
  have ok: "spine_ok ?\<sigma> as" using assms(1) by (simp add: spine_of_def)
  have i: "idref_is ?\<sigma> ?id (as ! n)" using assms(4) by (simp add: idref_is_def)
  then obtain b rest where d: "dropWhile (\<lambda>a. \<not> idref_is ?\<sigma> ?id a) as = b # rest"
    using assms(2) by (cases "dropWhile (\<lambda>a. \<not> idref_is ?\<sigma> ?id a) as") (auto simp: dropWhile_eq_Nil_conv)
  have b: "idref_is ?\<sigma> ?id b" using d by (metis (mono_tags, lifting) dropWhile_eq_Cons_conv)
  have t: "\<exists>a c' it'. spine_target h pk (item_component fl k ?id) = Some (Inr (Some a, c')) \<and> ?\<sigma> a = Some it' \<and> si_idref it' = ?id"
    if "k < length as" "k < 2 ^ 31 - 1" for k
    using spine_target_ok [OF assms(1) that, of "item_component fl k ?id" b rest h] d b by (auto simp: idref_is_def)
  have stale: "ManifestItemForCFI h pk cfi None = Some (Inr (Some m, None, cfi)) \<and>
      (cs \<noteq> [] \<longrightarrow> (\<exists>r'. ManifestItemForCFI h pk cfi (Some r) = Some (Inr (Some m, Some r', cfi)) \<and> components r' = cs))"
    if k: "k < length as" "k < 2 ^ 31 - 1" and c: "components cfi = new_Component fl (pb_spineCFIIndex pk) # item_component fl k ?id # cs" for k cfi cs r
  proof -
    obtain a c' it' where "spine_target h pk (item_component fl k ?id) = Some (Inr (Some a, c'))" "?\<sigma> a = Some it'" "si_idref it' = ?id"
      using t [OF k] by blast
    then show ?thesis using ManifestItemForCFI_ok [of h pk "item_component fl k ?id" a c' it' cfi fl cs] c assms(6) by auto
  qed
  have split: "as = take n as @ as ! n # drop (Suc n) as" using id_take_nth_drop [OF assms(2)] .
  have "Spine_Index ?\<sigma> (as ! n) = Some (Inr n)"
    using Index_walk [of ?\<sigma> "take n as" "as ! n" "drop (Suc n) as"] ok split assms(2) by simp
  then have c: "CFIForSpineItem fl h pk (as ! n) = Some (Inr (empty_CFI\<lparr>components := [new_Component fl (pb_spineCFIIndex pk), item_component fl n ?id]\<rparr>))"
    using assms(4) package_CFI_item [OF assms(3,5), of fl h pk] by (simp add: CFIForSpineItem_def)
  have app: "components c = [new_Component fl (pb_spineCFIIndex pk), item_component fl n ?id] @ components path"
    if "CFI_Append (empty_CFI\<lparr>components := [new_Component fl (pb_spineCFIIndex pk), item_component fl n ?id]\<rparr>) path = Inr c" for c path
    using that by (auto simp: CFI_Append_def Let_def split: if_splits)
  let ?cfi = "empty_CFI\<lparr>components := [new_Component fl (pb_spineCFIIndex pk), item_component fl n ?id]\<rparr>"
  have "\<exists>r'. ManifestItemForCFI h pk c (Some r) = Some (Inr (Some m, Some r', c)) \<and> components r' = components path"
    if "components path \<noteq> [] \<and> CFI_Append ?cfi path = Inr c" for path c r
    using stale [OF assms(2,3), of c "components path" r] app that by simp
  moreover have "ManifestItemForCFI h pk ?cfi None = Some (Inr (Some m, None, ?cfi))"
    using stale [OF assms(2,3), of ?cfi "[]"] by simp
  ultimately show ?thesis using c stale by (intro conjI exI [of _ ?cfi]) (simp, simp, blast, blast)
qed

definition sample_package :: package where
  "sample_package = \<lparr>pb_pathBase = [], pb_manifest = [(''text'', plain_item ''text'' ''application/xhtml+xml'' [])],
     pb_items = sample_spine, pb_spine = Some 1, pb_next = 4, pb_xmlIDLookup = [], pb_spineCFIIndex = 6\<rparr>"

theorem cfi_leads_to_item_witness:
  "\<exists>cfi. CFIForSpineItem nat_float DefaultErrorHandler sample_package 3 = Some (Inr cfi) \<and>
     ManifestItemForCFI DefaultErrorHandler sample_package cfi None = Some (Inr (Some (plain_item ''text'' ''application/xhtml+xml'' []), None, cfi))"
proof -
  have "spine_of sample_package [1, 2, 3]"
    by (simp add: spine_of_def sample_package_def spine_ok_def sample_spine_def new_SpineItem_def)
  moreover have "pb_items sample_package 3 = Some (new_SpineItem\<lparr>si_idref := ''text'', si_prev := Some 2\<rparr>)"
    by (simp add: sample_package_def sample_spine_def)
  moreover have "ManifestItemWithID (pb_manifest sample_package) ''text'' = Some (plain_item ''text'' ''application/xhtml+xml'' [])"
    by (simp add: sample_package_def ManifestItemWithID_def)
  ultimately show ?thesis
    using cfi_leads_to_item [of sample_package "[1, 2, 3]" 2 "new_SpineItem\<lparr>si_idref := ''text'', si_prev := Some 2\<rparr>"
      "plain_item ''text'' ''application/xhtml+xml'' []" nat_float DefaultErrorHandler]
    by (simp add: nth_Cons_numeral) blast
qed

text \<open>The caller's identifier is never corrected, whatever its index and assertions: the comment of \<^verbatim>\<open>package.h\<close> says that it is.\<close>

lemma bind_run_returns: "bind_run r k = Some (Inr y) \<longleftrightarrow> (\<exists>x. r = Some (Inr x) \<and> k x = Some (Inr y))"
  by (auto simp: bind_run_def split: option.splits sum.splits)

lemma out_of_spine_returns: "out_of_spine h x r = Some (Inr y) \<Longrightarrow> y = x \<or> r = Some (Inr y)"
  by (auto simp: out_of_spine_def bind_run_returns split: option.splits sum.splits stop.splits cxx_exn.splits)

lemma ManifestItemForCFI_leaves_cfi:
  assumes "ManifestItemForCFI h pk cfi remaining = Some (Inr (item, r, cfi'))"
  shows "cfi' = cfi"
  using assms
  by (auto simp: ManifestItemForCFI_def bind_run_returns Let_def split: if_splits option.splits dest!: out_of_spine_returns)

text \<open>An identifier that ends at the spine item has no remainder; asking for it is reported as a step out of bounds.\<close>

lemma no_remainder_reported:
  assumes "spine_target h pk c = Some (Inr (Some a, c'))" and "IsIndirector c" and "pb_items pk a = Some it"
    and "components cfi = [new_Component fl (pb_spineCFIIndex pk), c]"
  shows "\<exists>w. ManifestItemForCFI h pk cfi (Some r) =
    bind_run (Some (HandleError h (CFIErr CFIStepOutOfBounds) w)) (\<lambda>_. Some (Inr (ManifestItemWithID (pb_manifest pk) (si_idref it), Some r, cfi)))"
  using assms by (auto simp: ManifestItemForCFI_def out_of_spine_def CFI_Assign_from_def)

end
