(* ===== verification/Ring_Buffer.thy ===== *)
theory Ring_Buffer
  imports EPUB_Error
begin

text \<open>
  \<^verbatim>\<open>class RingBuffer\<close> of \<^verbatim>\<open>utilities/ring_buffer.{h,cpp}\<close>: a byte queue of fixed capacity.  The backing
  store is a block, absent after the buffer has been moved from; the caller's memory is a block of
  its own.  Sizes are natural numbers; a size that would wrap below zero is a copy that leaves its
  block.  The lock is not modelled: every operation here is one critical section.
\<close>

section \<open>State and operations\<close>

record RingBuffer =
  rb_capacity :: nat
  rb_buffer :: "byte list option"
  rb_numBytes :: nat
  rb_readPos :: nat
  rb_writePos :: nat

text \<open>\<open>fresh\<close> is the content of newly allocated memory.\<close>

definition new_ring :: "byte list \<Rightarrow> nat \<Rightarrow> RingBuffer" where
  "new_ring fresh sz = \<lparr>rb_capacity = sz, rb_buffer = Some (take sz (fresh @ replicate sz 0)),
     rb_numBytes = 0, rb_readPos = 0, rb_writePos = 0\<rparr>"

definition ring_copy :: "RingBuffer \<Rightarrow> RingBuffer cxx" where
  "ring_copy o' = bind_cxx (must (rb_buffer o')) (\<lambda>b.
     bind_cxx (must (mem_load b 0 (rb_capacity o'))) (\<lambda>xs. Inr (o'\<lparr>rb_buffer := Some xs\<rparr>)))"

definition ring_move :: "RingBuffer \<Rightarrow> RingBuffer \<times> RingBuffer" where
  "ring_move o' = (o', o'\<lparr>rb_buffer := None, rb_numBytes := 0, rb_readPos := 0, rb_writePos := 0\<rparr>)"

definition ring_assign :: "byte list \<Rightarrow> RingBuffer \<Rightarrow> RingBuffer \<Rightarrow> RingBuffer cxx" where
  "ring_assign fresh r o' =
    (let r1 = (if rb_capacity o' > rb_capacity r
               then r\<lparr>rb_buffer := rb_buffer (new_ring fresh (rb_capacity o')), rb_capacity := rb_capacity o'\<rparr>
               else r);
         r2 = r1\<lparr>rb_numBytes := rb_numBytes o', rb_readPos := rb_readPos o', rb_writePos := rb_writePos o'\<rparr> in
     bind_cxx (must (rb_buffer o')) (\<lambda>ob.
     bind_cxx (must (mem_load ob 0 (rb_capacity r2))) (\<lambda>xs.
     bind_cxx (must (rb_buffer r2)) (\<lambda>b.
     bind_cxx (must (mem_store b 0 xs)) (\<lambda>b'. Inr (r2\<lparr>rb_buffer := Some b'\<rparr>))))))"

definition ring_move_assign :: "RingBuffer \<Rightarrow> RingBuffer \<Rightarrow> RingBuffer \<times> RingBuffer" where
  "ring_move_assign r o' =
    (r\<lparr>rb_buffer := rb_buffer o', rb_numBytes := rb_numBytes o', rb_readPos := rb_readPos o',
       rb_writePos := rb_writePos o'\<rparr>,
     o'\<lparr>rb_buffer := None, rb_numBytes := 0, rb_readPos := 0, rb_writePos := 0\<rparr>)"

definition HasData :: "RingBuffer \<Rightarrow> bool" where "HasData r \<longleftrightarrow> rb_numBytes r \<noteq> 0"
definition BytesAvailable :: "RingBuffer \<Rightarrow> nat" where "BytesAvailable r = rb_numBytes r"
definition HasSpace :: "RingBuffer \<Rightarrow> bool" where "HasSpace r \<longleftrightarrow> rb_numBytes r \<noteq> rb_capacity r"
definition SpaceAvailable :: "RingBuffer \<Rightarrow> nat" where
  "SpaceAvailable r = rb_capacity r - rb_numBytes r"

text \<open>\<^verbatim>\<open>memcpy\<close> of \<open>n\<close> bytes from \<open>src + i\<close> to \<open>dst + j\<close>.\<close>

definition copy_bytes :: "'a list \<Rightarrow> nat \<Rightarrow> 'a list \<Rightarrow> nat \<Rightarrow> nat \<Rightarrow> 'a list cxx" where
  "copy_bytes dst j src i n = bind_cxx (must (mem_load src i n)) (\<lambda>xs. must (mem_store dst j xs))"

text \<open>\<open>dst\<close> is the caller's block; the result has it as it is after the call.\<close>

definition ReadBytes :: "RingBuffer \<Rightarrow> byte list \<Rightarrow> nat \<Rightarrow> (nat \<times> byte list) cxx" where
  "ReadBytes r dst len =
    (let copied = min len (rb_numBytes r) in
     if copied = 0 then Inr (copied, dst) else
     bind_cxx (must (rb_buffer r)) (\<lambda>b.
       if rb_readPos r < rb_writePos r
       then bind_cxx (copy_bytes dst 0 b (rb_readPos r) len) (\<lambda>dst'. Inr (copied, dst'))
       else (let t = rb_capacity r - rb_readPos r in
         bind_cxx (copy_bytes dst 0 b (rb_readPos r) t) (\<lambda>dst1.
         if len < t then Inl Undefined
         else bind_cxx (copy_bytes dst1 t b 0 (len - t)) (\<lambda>dst2. Inr (copied, dst2))))))"

text \<open>The copy into the backing store \<open>b\<close> and the new write position.\<close>

definition write_block :: "RingBuffer \<Rightarrow> byte list \<Rightarrow> byte list \<Rightarrow> nat \<Rightarrow> (byte list \<times> nat) cxx" where
  "write_block r b src len =
    (if rb_writePos r < rb_readPos r
     then bind_cxx (copy_bytes b (rb_writePos r) src 0 len) (\<lambda>b'. Inr (b', rb_writePos r + len))
     else (let t = rb_capacity r - rb_writePos r in
       if t \<ge> len
       then bind_cxx (copy_bytes b (rb_writePos r) src 0 len) (\<lambda>b'. Inr (b', rb_writePos r + len))
       else (let u = len - t in
         bind_cxx (copy_bytes b (rb_writePos r) src 0 t) (\<lambda>b1.
         bind_cxx (copy_bytes b1 0 src t u) (\<lambda>b2. Inr (b2, u))))))"

definition WriteBytes :: "RingBuffer \<Rightarrow> byte list \<Rightarrow> nat \<Rightarrow> (nat \<times> RingBuffer) cxx" where
  "WriteBytes r src len =
    (let copied = min len (SpaceAvailable r) in
     if copied = 0 then Inr (copied, r) else
     bind_cxx (must (rb_buffer r)) (\<lambda>b.
     bind_cxx (write_block r b src len) (\<lambda>(b', w).
       Inr (copied, r\<lparr>rb_buffer := Some b', rb_writePos := (if w = rb_capacity r then 0 else w),
                      rb_numBytes := rb_numBytes r + len\<rparr>))))"

definition RemoveBytes :: "RingBuffer \<Rightarrow> nat \<Rightarrow> RingBuffer" where
  "RemoveBytes r len =
    (let p = rb_readPos r + len in
     r\<lparr>rb_readPos := (if p \<ge> rb_capacity r then p - rb_capacity r else p),
       rb_numBytes := rb_numBytes r - len\<rparr>)"

section \<open>The queue it stands for\<close>

text \<open>The bytes of a block, read around from a position.\<close>

definition ring_seg :: "'a list \<Rightarrow> nat \<Rightarrow> nat \<Rightarrow> 'a list" where
  "ring_seg b p n = map (\<lambda>i. b ! ((p + i) mod length b)) [0 ..< n]"

definition ring_abs :: "RingBuffer \<Rightarrow> byte list" where
  "ring_abs r = (case rb_buffer r of None \<Rightarrow> [] | Some b \<Rightarrow> ring_seg b (rb_readPos r) (rb_numBytes r))"

definition ring_inv :: "RingBuffer \<Rightarrow> bool" where
  "ring_inv r \<longleftrightarrow> (\<exists>b. rb_buffer r = Some b \<and> length b = rb_capacity r) \<and>
     rb_readPos r < rb_capacity r \<and> rb_numBytes r \<le> rb_capacity r \<and>
     rb_writePos r = (rb_readPos r + rb_numBytes r) mod rb_capacity r"

lemma length_ring_seg [simp]: "length (ring_seg b p n) = n"
  by (simp add: ring_seg_def)

lemma ring_seg_append:
  "ring_seg b p (m + n) = ring_seg b p m @ ring_seg b (p + m) n"
  by (rule nth_equalityI) (auto simp: ring_seg_def nth_append add.assoc)

lemma ring_seg_flat:
  assumes "p + n \<le> length b"
  shows "ring_seg b p n = take n (drop p b)"
  using assms by (intro nth_equalityI) (auto simp: ring_seg_def)

lemma ring_seg_mod: "ring_seg b (p mod length b) n = ring_seg b p n"
  by (simp add: ring_seg_def mod_simps)

lemma ring_seg_wrap:
  assumes "p < length b" and "length b \<le> p + n" and "n \<le> length b"
  shows "ring_seg b p n = drop p b @ take (p + n - length b) b"
proof -
  let ?t = "length b - p"
  have "ring_seg b p (?t + (n - ?t)) = ring_seg b p ?t @ ring_seg b (p + ?t) (n - ?t)"
    by (rule ring_seg_append)
  moreover have "ring_seg b (p + ?t) (n - ?t) = take (n - ?t) b"
    using assms ring_seg_mod [of b "p + ?t" "n - ?t"] ring_seg_flat [of 0 "n - ?t" b] by simp
  ultimately show ?thesis using assms by (simp add: ring_seg_flat add.commute)
qed

text \<open>Storing away from the unread bytes leaves them alone.\<close>

lemma ring_seg_cong:
  assumes "length b' = length b" and "\<And>i. i < n \<Longrightarrow> b' ! ((p + i) mod length b) = b ! ((p + i) mod length b)"
  shows "ring_seg b' p n = ring_seg b p n"
  using assms by (simp add: ring_seg_def)

lemma copy_bytes_Inr:
  assumes "i + n \<le> length src" and "j + n \<le> length dst"
  shows "copy_bytes dst j src i n = Inr (take j dst @ take n (drop i src) @ drop (j + n) dst)"
  using assms by (simp add: copy_bytes_def mem_load_def mem_store_def)

lemma ring_inv_buffer:
  assumes "ring_inv r"
  obtains b where "rb_buffer r = Some b" and "length b = rb_capacity r" and "0 < length b"
    and "ring_abs r = ring_seg b (rb_readPos r) (rb_numBytes r)"
proof -
  from assms obtain b where "rb_buffer r = Some b" "length b = rb_capacity r" "rb_readPos r < rb_capacity r"
    by (auto simp: ring_inv_def)
  then show ?thesis by (intro that [of b]) (auto simp: ring_abs_def)
qed

text \<open>Where the write position is.\<close>

lemma ring_writePos:
  assumes "ring_inv r"
  shows "rb_writePos r = (if rb_readPos r + rb_numBytes r < rb_capacity r
     then rb_readPos r + rb_numBytes r else rb_readPos r + rb_numBytes r - rb_capacity r)"
  using assms by (auto simp: ring_inv_def mod_if [of "_ + _"] not_less)

text \<open>
  The block after storing \<open>xs\<close> from position \<open>w\<close> on, around its end, and what is then read.
\<close>

definition ring_store :: "'a list \<Rightarrow> nat \<Rightarrow> 'a list \<Rightarrow> 'a list" where
  "ring_store b w xs =
    (if w + length xs \<le> length b then take w b @ xs @ drop (w + length xs) b
     else drop (length b - w) xs @ drop (w + length xs - length b) (take w b) @ take (length b - w) xs)"

lemma length_ring_store:
  "w < length b \<Longrightarrow> length xs \<le> length b \<Longrightarrow> length (ring_store b w xs) = length b"
  by (auto simp: ring_store_def)

lemma nth_ring_store_flat:
  assumes "w + length xs \<le> length b" and "i < length b"
  shows "ring_store b w xs ! i = (if w \<le> i \<and> i < w + length xs then xs ! (i - w) else b ! i)"
  using assms by (auto simp: ring_store_def nth_append)

lemma nth_ring_store_wrap:
  assumes "w < length b" and "length xs \<le> length b" and "\<not> w + length xs \<le> length b" and "i < length b"
  shows "ring_store b w xs ! i =
    (if w \<le> i then xs ! (i - w)
     else if i < w + length xs - length b then xs ! (i + (length b - w)) else b ! i)"
proof -
  define u where "u = w + length xs - length b"
  have u: "u \<le> w" "length (drop (length b - w) xs) = u" "length (drop u (take w b)) = w - u"
    using assms by (auto simp: u_def)
  have store: "ring_store b w xs = drop (length b - w) xs @ drop u (take w b) @ take (length b - w) xs"
    using assms by (simp add: ring_store_def u_def)
  consider "i < u" | "u \<le> i" "i < w" | "w \<le> i" by linarith
  then have "ring_store b w xs ! i =
      (if w \<le> i then xs ! (i - w) else if i < u then xs ! (i + (length b - w)) else b ! i)"
    (is ?goal)
  proof cases
    case 1 with u assms show ?goal unfolding store by (simp add: nth_append add.commute)
  next
    case 2
    with assms(1) have "\<not> i < u" "i - u < w - u" "drop u (take w b) ! (i - u) = b ! i" by auto
    with 2 show ?goal unfolding store nth_append u(2,3) by simp
  next
    case 3
    with u(1) have "\<not> i < u" "\<not> i - u < w - u" "i - u - (w - u) = i - w" by linarith+
    with 3 assms show ?goal unfolding store nth_append u(2,3) by simp
  qed
  then show ?thesis by (simp add: u_def)
qed

lemma nth_ring_store:
  assumes "w < length b" and "length xs \<le> length b" and "i < length b"
  shows "ring_store b w xs ! i =
    (let d = (if w \<le> i then i - w else i + length b - w) in if d < length xs then xs ! d else b ! i)"
proof (cases "w + length xs \<le> length b")
  case True
  with assms show ?thesis by (auto simp: nth_ring_store_flat Let_def)
next
  case False
  with assms show ?thesis by (auto simp: nth_ring_store_wrap Let_def)
qed

lemma mod_once: "(m :: nat) < 2 * k \<Longrightarrow> m mod k = (if m < k then m else m - k)"
  by (auto simp: mod_if)

lemma wrapped_distance:
  assumes "p < k" and "n \<le> k" and "i < k" and "w = (if p + n < k then p + n else p + n - k)"
    and "q = (if p + i < k then p + i else p + i - (k :: nat))"
  shows "(if w \<le> q then q - w else q + k - w) = (if n \<le> i then i - n else i + k - n)"
  using assms by (auto split: if_splits)

lemma ring_seg_store:
  assumes "p < length b" and "n + length xs \<le> length b"
  shows "ring_seg (ring_store b ((p + n) mod length b) xs) p (n + length xs) = ring_seg b p n @ xs"
proof (rule nth_equalityI)
  let ?w = "(p + n) mod length b" and ?k = "length b"
  fix i assume "i < length (ring_seg (ring_store b ?w xs) p (n + length xs))"
  then have i: "i < n + length xs" by simp
  let ?q = "(p + i) mod ?k"
  have k: "0 < ?k" using assms by linarith
  then have w: "?w < ?k" and q: "?q < ?k" by (simp_all only: mod_less_divisor)
  have xs: "length xs \<le> ?k" using assms by linarith
  have w': "?w = (if p + n < ?k then p + n else p + n - ?k)" using assms by (intro mod_once) linarith
  have q': "?q = (if p + i < ?k then p + i else p + i - ?k)" using assms i by (intro mod_once) linarith
  have d: "(if ?w \<le> ?q then ?q - ?w else ?q + ?k - ?w) = (if n \<le> i then i - n else i + ?k - n)"
    by (rule wrapped_distance [OF _ _ _ w' q']) (use assms i in linarith)+
  have "ring_store b ?w xs ! ?q = (if n \<le> i then xs ! (i - n) else b ! ?q)"
    unfolding nth_ring_store [OF w xs q] d Let_def
    by (cases "n \<le> i") (use assms i in auto)
  then show "ring_seg (ring_store b ?w xs) p (n + length xs) ! i = (ring_seg b p n @ xs) ! i"
    using i length_ring_store [OF w xs] by (simp add: ring_seg_def nth_append)
qed simp

section \<open>The operations on the queue\<close>

lemma new_ring_inv: "0 < n \<Longrightarrow> ring_inv (new_ring fresh n) \<and> ring_abs (new_ring fresh n) = []"
  by (simp add: ring_inv_def ring_abs_def new_ring_def ring_seg_def)

lemma ring_abs_length: "ring_inv r \<Longrightarrow> length (ring_abs r) = rb_numBytes r"
  by (auto simp: ring_inv_def ring_abs_def)

lemma RemoveBytes_queue:
  assumes "ring_inv r" and "n \<le> rb_numBytes r"
  shows "ring_inv (RemoveBytes r n) \<and> ring_abs (RemoveBytes r n) = drop n (ring_abs r)"
proof -
  let ?k = "rb_capacity r" and ?p = "rb_readPos r"
  let ?q = "if ?p + n \<ge> ?k then ?p + n - ?k else ?p + n"
  from assms(1) obtain b where b: "rb_buffer r = Some b" "length b = ?k" "0 < length b"
    and abs: "ring_abs r = ring_seg b ?p (rb_numBytes r)" by (rule ring_inv_buffer)
  have lim: "?p + n < 2 * ?k" and q: "?q < ?k" and nb: "rb_numBytes r \<le> ?k"
    using assms by (auto simp: ring_inv_def)
  have qm: "?q = (?p + n) mod ?k" using mod_once [OF lim] by auto
  have "(?q + (rb_numBytes r - n)) mod ?k = (?p + rb_numBytes r) mod ?k"
    using assms(2) unfolding qm mod_add_left_eq by simp
  with assms b q nb have "ring_inv (RemoveBytes r n)"
    by (simp add: ring_inv_def RemoveBytes_def Let_def)
  moreover have "ring_abs r = ring_seg b ?p n @ ring_seg b (?p + n) (rb_numBytes r - n)"
    using ring_seg_append [of b ?p n "rb_numBytes r - n"] assms(2) abs by simp
  then have "drop n (ring_abs r) = ring_seg b (?p + n) (rb_numBytes r - n)" by simp
  then have "drop n (ring_abs r) = ring_seg b ?q (rb_numBytes r - n)"
    using ring_seg_mod [of b "?p + n"] b qm by simp
  ultimately show ?thesis by (simp add: ring_abs_def RemoveBytes_def Let_def b)
qed

lemma WriteBytes_store:
  assumes "ring_inv r" and "rb_buffer r = Some b" and "src \<noteq> []" and "length src \<le> SpaceAvailable r"
  shows "WriteBytes r src (length src) = Inr (length src,
    r\<lparr>rb_buffer := Some (ring_store b (rb_writePos r) src),
      rb_writePos := (rb_writePos r + length src) mod rb_capacity r,
      rb_numBytes := rb_numBytes r + length src\<rparr>)"
proof -
  let ?k = "rb_capacity r" and ?w = "rb_writePos r" and ?l = "length src"
  from assms have k: "length b = ?k" and w: "?w < ?k" and l: "?l \<le> ?k - rb_numBytes r" "0 < ?l"
    by (auto simp: ring_inv_def SpaceAvailable_def)
  have copied: "min ?l (SpaceAvailable r) = ?l" using assms(4) by simp
  show ?thesis
  proof (cases "?w + ?l \<le> ?k")
    case True
    then have "copy_bytes b ?w src 0 ?l = Inr (ring_store b ?w src)"
      using k by (simp add: copy_bytes_Inr ring_store_def)
    moreover have "(?w + ?l) mod ?k = (if ?w + ?l = ?k then 0 else ?w + ?l)"
      using True by auto
    ultimately show ?thesis
      using True l w copied assms(2) by (auto simp: WriteBytes_def write_block_def Let_def)
  next
    case False
    have nw: "\<not> ?w < rb_readPos r"
      using False ring_writePos [OF assms(1)] assms l by (auto simp: ring_inv_def split: if_splits)
    let ?t = "?k - ?w"
    have c1: "copy_bytes b ?w src 0 ?t = Inr (take ?w b @ take ?t src)"
      using False k w by (simp add: copy_bytes_Inr)
    have u: "?l - ?t \<le> ?w" using l w k False by linarith
    have c2: "copy_bytes (take ?w b @ take ?t src) 0 src ?t (?l - ?t) = Inr (ring_store b ?w src)"
      using False k w u l by (simp add: copy_bytes_Inr ring_store_def) (simp add: add.commute)
    have "(?w + ?l) mod ?k = ?l - ?t" using False w l u mod_once [of "?w + ?l" ?k] by auto
    moreover have "?l - ?t \<noteq> ?k" "\<not> ?l \<le> ?t" using u w False by linarith+
    ultimately show ?thesis
      using False l w copied assms(2) nw c1 c2 by (simp add: WriteBytes_def write_block_def Let_def)
  qed
qed

lemma WriteBytes_queue:
  assumes "ring_inv r" and "length src \<le> SpaceAvailable r"
  shows "\<exists>r'. WriteBytes r src (length src) = Inr (length src, r') \<and> ring_inv r' \<and>
    rb_capacity r' = rb_capacity r \<and> ring_abs r' = ring_abs r @ src"
proof (cases "src = []")
  case True
  with assms show ?thesis by (simp add: WriteBytes_def)
next
  case False
  from assms(1) obtain b where b: "rb_buffer r = Some b" "length b = rb_capacity r" "0 < length b"
    and abs: "ring_abs r = ring_seg b (rb_readPos r) (rb_numBytes r)" by (rule ring_inv_buffer)
  let ?r = "r\<lparr>rb_buffer := Some (ring_store b (rb_writePos r) src),
      rb_writePos := (rb_writePos r + length src) mod rb_capacity r,
      rb_numBytes := rb_numBytes r + length src\<rparr>"
  have w: "rb_writePos r = (rb_readPos r + rb_numBytes r) mod length b"
    and p: "rb_readPos r < length b" and room: "rb_numBytes r + length src \<le> length b"
    using assms b by (auto simp: ring_inv_def SpaceAvailable_def)
  then have "rb_writePos r < length b" using b(3) by simp
  then have "length (ring_store b (rb_writePos r) src) = rb_capacity r"
    using room b by (simp add: length_ring_store)
  then have "ring_inv ?r"
    using w p room b by (simp add: ring_inv_def mod_add_left_eq add.assoc)
  moreover have "ring_abs ?r = ring_abs r @ src"
    using ring_seg_store [OF p room] by (simp add: ring_abs_def b abs w)
  ultimately show ?thesis
    using WriteBytes_store [OF assms(1) b(1) False assms(2)] by simp
qed

text \<open>
  Reading is safe when the data does not wrap around the end of the block and no more is asked for
  than there is, and when it wraps and at least the bytes up to the end are asked for.
\<close>

definition read_ok :: "RingBuffer \<Rightarrow> nat \<Rightarrow> bool" where
  "read_ok r len \<longleftrightarrow> len \<le> rb_numBytes r \<and>
     (rb_readPos r < rb_writePos r \<or> rb_capacity r - rb_readPos r \<le> len)"

lemma ReadBytes_queue:
  assumes "ring_inv r" and "read_ok r len" and "len \<le> length dst"
  shows "ReadBytes r dst len = Inr (len, take len (ring_abs r) @ drop len dst)"
proof (cases "len = 0")
  case True
  then show ?thesis by (simp add: ReadBytes_def)
next
  case False
  from assms(1) obtain b where b: "rb_buffer r = Some b" "length b = rb_capacity r" "0 < length b"
    and abs: "ring_abs r = ring_seg b (rb_readPos r) (rb_numBytes r)" by (rule ring_inv_buffer)
  let ?p = "rb_readPos r"
  have len: "len \<le> rb_numBytes r" "rb_numBytes r \<le> length b" "?p < length b"
    using assms b by (auto simp: read_ok_def ring_inv_def)
  then have take: "take len (ring_abs r) = ring_seg b ?p len"
    using ring_seg_append [of b ?p len "rb_numBytes r - len"] abs by simp
  show ?thesis
  proof (cases "?p < rb_writePos r")
    case True
    then have "?p + len \<le> length b"
      using ring_writePos [OF assms(1)] len b by (auto split: if_splits)
    with True False len assms(3) show ?thesis
      by (simp add: ReadBytes_def b(1) take ring_seg_flat copy_bytes_Inr)
  next
    case wrap: False
    let ?t = "rb_capacity r - ?p"
    have t: "?t \<le> len" "?p + ?t = length b" using wrap assms b len by (auto simp: read_ok_def)
    have c1: "copy_bytes dst 0 b ?p ?t = Inr (drop ?p b @ drop ?t dst)"
      using t assms(3) by (simp add: copy_bytes_Inr)
    have c2: "copy_bytes (drop ?p b @ drop ?t dst) ?t b 0 (len - ?t) =
        Inr (drop ?p b @ take (len - ?t) b @ drop len dst)"
      using t assms(3) len b by (simp add: copy_bytes_Inr)
    have "?p + len - length b = len - ?t" using t b by linarith
    then have "ring_seg b ?p len = drop ?p b @ take (len - ?t) b"
      using ring_seg_wrap [of ?p b len] t len b by simp
    with wrap False len t c1 c2 show ?thesis
      by (simp add: ReadBytes_def b(1) take Let_def)
  qed
qed

lemma read_ok_all: "ring_inv r \<Longrightarrow> 0 < rb_numBytes r \<Longrightarrow> read_ok r (rb_numBytes r)"
  using ring_writePos [of r] by (auto simp: read_ok_def ring_inv_def split: if_splits)

section \<open>The interface of a bounded byte queue\<close>

text \<open>
  What a client of the buffer relies on.  A session is a sequence of writes, each cut to the space
  there is, and of reads that take some of the available bytes out.  The client's theorem: a session
  never fails, and the bytes that came out, followed by those still stored, are the bytes that were
  there followed by the bytes that went in.
\<close>

datatype qop = Put "byte list" | Get nat

locale byte_queue =
  fixes inv :: "'q \<Rightarrow> bool" and content :: "'q \<Rightarrow> byte list" and space :: "'q \<Rightarrow> nat"
    and put :: "'q \<Rightarrow> byte list \<Rightarrow> 'q option" and get :: "'q \<Rightarrow> byte list option"
    and discard :: "'q \<Rightarrow> nat \<Rightarrow> 'q"
  assumes put_ok: "inv q \<Longrightarrow> length xs \<le> space q \<Longrightarrow>
      \<exists>q'. put q xs = Some q' \<and> inv q' \<and> content q' = content q @ xs"
    and get_ok: "inv q \<Longrightarrow> get q = Some (content q)"
    and discard_ok: "inv q \<Longrightarrow> n \<le> length (content q) \<Longrightarrow>
      inv (discard q n) \<and> content (discard q n) = drop n (content q)"
begin

fun session :: "qop list \<Rightarrow> 'q \<Rightarrow> byte list \<Rightarrow> byte list \<Rightarrow> ('q \<times> byte list \<times> byte list) option" where
  "session [] q acc out = Some (q, acc, out)"
| "session (Put xs # ops) q acc out =
    (case put q (take (space q) xs) of None \<Rightarrow> None
     | Some q' \<Rightarrow> session ops q' (acc @ take (space q) xs) out)"
| "session (Get n # ops) q acc out =
    (case get q of None \<Rightarrow> None
     | Some ys \<Rightarrow> session ops (discard q (min n (length ys))) acc (out @ take n ys))"

lemma session_stream:
  assumes "inv q"
  shows "\<exists>q' acc' out'. session ops q acc out = Some (q', acc @ acc', out @ out') \<and> inv q' \<and>
    out' @ content q' = content q @ acc'"
  using assms
proof (induction ops q acc out rule: session.induct)
  case (1 q acc out)
  then show ?case by simp
next
  case (2 xs ops q acc out)
  obtain q1 where q1: "put q (take (space q) xs) = Some q1" "inv q1"
    "content q1 = content q @ take (space q) xs"
    using put_ok [OF 2(2), of "take (space q) xs"] by auto
  with 2(1) [of q1] obtain q' acc' out' where
    "session ops q1 (acc @ take (space q) xs) out = Some (q', (acc @ take (space q) xs) @ acc', out @ out')"
    "inv q'" "out' @ content q' = content q1 @ acc'" by auto
  with q1 show ?case by auto
next
  case (3 n ops q acc out)
  let ?m = "min n (length (content q))"
  have g: "get q = Some (content q)" and d: "inv (discard q ?m)"
    "content (discard q ?m) = drop ?m (content q)"
    using get_ok [OF 3(2)] discard_ok [OF 3(2), of ?m] by auto
  with 3(1) [of "content q"] obtain q' acc' out' where
    r: "session ops (discard q ?m) acc (out @ take n (content q)) = Some (q', acc @ acc', (out @ take n (content q)) @ out')"
    "inv q'" "out' @ content q' = content (discard q ?m) @ acc'" by auto
  have "take n (content q) = take ?m (content q)" by (simp add: min_def)
  with r d have "(take n (content q) @ out') @ content q' = content q @ acc'"
    by (metis append.assoc append_take_drop_id)
  with g r show ?case by auto
qed

end

text \<open>The ring buffer provides the interface.\<close>

definition ring_put :: "RingBuffer \<Rightarrow> byte list \<Rightarrow> RingBuffer option" where
  "ring_put r xs = (case WriteBytes r xs (length xs) of Inr (_, r') \<Rightarrow> Some r' | Inl _ \<Rightarrow> None)"

definition ring_get :: "RingBuffer \<Rightarrow> byte list option" where
  "ring_get r = (case ReadBytes r (replicate (BytesAvailable r) 0) (BytesAvailable r) of
     Inr (_, ys) \<Rightarrow> Some ys | Inl _ \<Rightarrow> None)"

lemma ring_get_content: "ring_inv r \<Longrightarrow> ring_get r = Some (ring_abs r)"
proof (cases "rb_numBytes r = 0")
  case True
  assume "ring_inv r"
  with True show ?thesis
    using ring_abs_length [of r] by (simp add: ring_get_def BytesAvailable_def ReadBytes_def)
next
  case False
  assume inv: "ring_inv r"
  with False have "ReadBytes r (replicate (rb_numBytes r) 0) (rb_numBytes r) =
      Inr (rb_numBytes r, take (rb_numBytes r) (ring_abs r))"
    using ReadBytes_queue [OF inv read_ok_all, of "replicate (rb_numBytes r) 0"] by simp
  with inv show ?thesis by (simp add: ring_get_def BytesAvailable_def ring_abs_length)
qed

interpretation rq: byte_queue ring_inv ring_abs SpaceAvailable ring_put ring_get RemoveBytes
proof
  fix q and xs :: "byte list" assume "ring_inv q" "length xs \<le> SpaceAvailable q"
  from WriteBytes_queue [OF this]
  show "\<exists>q'. ring_put q xs = Some q' \<and> ring_inv q' \<and> ring_abs q' = ring_abs q @ xs"
    by (auto simp: ring_put_def)
next
  fix q assume "ring_inv q"
  then show "ring_get q = Some (ring_abs q)" by (rule ring_get_content)
next
  fix q n assume "ring_inv q" "n \<le> length (ring_abs q)"
  then show "ring_inv (RemoveBytes q n) \<and> ring_abs (RemoveBytes q n) = drop n (ring_abs q)"
    using RemoveBytes_queue by (simp add: ring_abs_length)
qed

text \<open>A session on the buffer.\<close>

fun ring_session ::
  "qop list \<Rightarrow> RingBuffer \<Rightarrow> byte list \<Rightarrow> byte list \<Rightarrow> (RingBuffer \<times> byte list \<times> byte list) option" where
  "ring_session [] r acc out = Some (r, acc, out)"
| "ring_session (Put xs # ops) r acc out =
    (case ring_put r (take (SpaceAvailable r) xs) of None \<Rightarrow> None
     | Some r' \<Rightarrow> ring_session ops r' (acc @ take (SpaceAvailable r) xs) out)"
| "ring_session (Get n # ops) r acc out =
    (case ring_get r of None \<Rightarrow> None
     | Some ys \<Rightarrow> ring_session ops (RemoveBytes r (min n (length ys))) acc (out @ take n ys))"

lemma ring_session_is_session: "ring_session ops r acc out = rq.session ops r acc out"
  by (induction ops r acc out rule: ring_session.induct) (simp_all split: option.split)

text \<open>C39: The ring buffer is a first-in-first-out queue for a client that writes no more than the space
  available and reads all available bytes: every sequence of such writes, reads and removals runs
  without leaving a block, keeps the buffer's invariant, and the bytes taken out followed by the
  bytes still stored are the initial content followed by the bytes written, across any number of
  turns around the end of the block.\<close>

theorem ring_session_stream:
  assumes "ring_inv r"
  shows "\<exists>r' acc out. ring_session ops r [] [] = Some (r', acc, out) \<and> ring_inv r' \<and>
    out @ ring_abs r' = ring_abs r @ acc"
  using rq.session_stream [OF assms, of ops "[]" "[]"] by (simp add: ring_session_is_session)

theorem ring_session_stream_witness:
  "\<exists>r' acc out. ring_session [Put [1, 2, 3], Get 2, Put [4, 5, 6], Get 4] (new_ring [] 4) [] [] =
     Some (r', acc, out) \<and> ring_inv r' \<and> out @ ring_abs r' = ring_abs (new_ring [] 4) @ acc"
  by (rule ring_session_stream) (simp add: new_ring_inv)

section \<open>Where it fails\<close>

text \<open>Reading less than the bytes up to the end of the block, when the data wraps around it or fills
  it, is undefined: the second copy has a negative length.\<close>

theorem ring_short_read_undefined:
  assumes "ring_inv r" and "\<not> rb_readPos r < rb_writePos r"
    and "0 < len" and "len \<le> rb_numBytes r" and "len < rb_capacity r - rb_readPos r"
  shows "ReadBytes r dst len = Inl Undefined"
proof -
  obtain b where b: "rb_buffer r = Some b" using assms(1) by (rule ring_inv_buffer)
  show ?thesis
    using assms by (cases "copy_bytes dst 0 b (rb_readPos r) (rb_capacity r - rb_readPos r)")
      (auto simp: ReadBytes_def b Let_def copy_bytes_def bind_cxx_def must_def split: option.splits sum.splits)
qed

definition full_ring :: RingBuffer where
  "full_ring = \<lparr>rb_capacity = 4, rb_buffer = Some [1, 2, 3, 4], rb_numBytes = 4, rb_readPos = 1,
     rb_writePos = 1\<rparr>"

theorem ring_short_read_undefined_witness: "ReadBytes full_ring (replicate 8 0) 1 = Inl Undefined"
  by (rule ring_short_read_undefined) (simp_all add: full_ring_def ring_inv_def)

text \<open>Writing more than the space available does not stop at the space: the whole length is copied and
  counted.\<close>

lemma ring_overlong_write:
  assumes "0 < SpaceAvailable r" and "SpaceAvailable r < len"
    and "WriteBytes r src len = Inr (n, r')"
  shows "n = SpaceAvailable r \<and> rb_numBytes r' = rb_numBytes r + len \<and> rb_capacity r < rb_numBytes r'"
proof -
  have "min len (SpaceAvailable r) = SpaceAvailable r" using assms by simp
  with assms have "n = SpaceAvailable r \<and> rb_numBytes r' = rb_numBytes r + len"
    by (auto simp: WriteBytes_def Let_def bind_cxx_Inr_iff split: if_splits)
  with assms show ?thesis by (auto simp: SpaceAvailable_def)
qed

end
