(* ===== verification/Byte_Buffer.thy ===== *)
theory Byte_Buffer
  imports Ring_Buffer
begin

text \<open>
  \<^verbatim>\<open>class ByteBuffer\<close> of \<^verbatim>\<open>utilities/byte_buffer.{h,cpp}\<close>: a growing block of bytes with an optional
  secure erasure of unused memory.  The constructors leave \<^verbatim>\<open>m_secure\<close> uninitialised; its value is an
  argument of theirs.  The allocator is a parameter: how it rounds sizes up, whether a request
  succeeds, and the content of memory it adds to a block.
\<close>

section \<open>State and operations\<close>

record heap_env =
  he_good :: "nat \<Rightarrow> nat"
  he_ok :: "nat \<Rightarrow> bool"
  he_junk :: "nat \<Rightarrow> byte"

record ByteBuffer =
  m_buffer :: "byte list option"
  m_bufferSize :: nat
  m_bufferCapacity :: nat
  m_secure :: bool

definition out_of_memory :: stop where
  "out_of_memory = Throws (System_error \<lparr>sys_code = 12, sys_what = ''ByteBuffer''\<rparr>)"

definition bb_block :: "ByteBuffer \<Rightarrow> byte list" where
  "bb_block b = (case m_buffer b of None \<Rightarrow> [] | Some m \<Rightarrow> m)"

definition calloc :: "heap_env \<Rightarrow> nat \<Rightarrow> byte list cxx" where
  "calloc env n = (if he_ok env n then Inr (replicate n 0) else Inl out_of_memory)"

text \<open>A request for 0 bytes may return a null pointer, which the callers take for a failure: \<open>he_ok env 0\<close> says
  which of the two an implementation does.\<close>

definition realloc :: "heap_env \<Rightarrow> byte list \<Rightarrow> nat \<Rightarrow> byte list cxx" where
  "realloc env m n = (if he_ok env n then Inr (take n (m @ map (he_junk env) [length m ..< n]))
     else Inl out_of_memory)"

definition empty_ByteBuffer :: "bool \<Rightarrow> ByteBuffer" where
  "empty_ByteBuffer g = \<lparr>m_buffer = None, m_bufferSize = 0, m_bufferCapacity = 0, m_secure = g\<rparr>"

definition new_ByteBuffer :: "heap_env \<Rightarrow> bool \<Rightarrow> nat \<Rightarrow> ByteBuffer cxx" where
  "new_ByteBuffer env g n = bind_cxx (calloc env (he_good env n)) (\<lambda>m.
     Inr \<lparr>m_buffer = Some m, m_bufferSize = n, m_bufferCapacity = he_good env n, m_secure = g\<rparr>)"

definition new_ByteBuffer_prealloc :: "heap_env \<Rightarrow> bool \<Rightarrow> nat \<Rightarrow> ByteBuffer cxx" where
  "new_ByteBuffer_prealloc env g n = bind_cxx (calloc env (he_good env n)) (\<lambda>m.
     Inr \<lparr>m_buffer = Some m, m_bufferSize = 0, m_bufferCapacity = he_good env n, m_secure = g\<rparr>)"

definition ByteBuffer_of_bytes :: "heap_env \<Rightarrow> bool \<Rightarrow> byte list \<Rightarrow> nat \<Rightarrow> ByteBuffer cxx" where
  "ByteBuffer_of_bytes env g buffer n = bind_cxx (calloc env (he_good env n)) (\<lambda>m.
     bind_cxx (copy_bytes m 0 buffer 0 n) (\<lambda>m'.
     Inr \<lparr>m_buffer = Some m', m_bufferSize = n, m_bufferCapacity = he_good env n, m_secure = g\<rparr>))"

definition ByteBuffer_copy :: "heap_env \<Rightarrow> bool \<Rightarrow> ByteBuffer \<Rightarrow> ByteBuffer cxx" where
  "ByteBuffer_copy env g o' = ByteBuffer_of_bytes env g (bb_block o') (m_bufferSize o')"

text \<open>The move constructor keeps the pointer in the source.\<close>

definition ByteBuffer_move :: "bool \<Rightarrow> ByteBuffer \<Rightarrow> ByteBuffer \<times> ByteBuffer" where
  "ByteBuffer_move g o' =
    (o'\<lparr>m_secure := g\<rparr>, o'\<lparr>m_bufferSize := 0, m_bufferCapacity := 0\<rparr>)"

definition Clean :: "ByteBuffer \<Rightarrow> nat \<Rightarrow> nat \<Rightarrow> ByteBuffer cxx" where
  "Clean b off len = (if len = 0 then Inr b else
     bind_cxx (must (mem_store (bb_block b) off (replicate len 0))) (\<lambda>m. Inr (b\<lparr>m_buffer := Some m\<rparr>)))"

text \<open>Cleaning the memory past the content, as most operations end.\<close>

definition tidy :: "ByteBuffer \<Rightarrow> ByteBuffer cxx" where
  "tidy b = (if m_secure b then Clean b (m_bufferSize b) (m_bufferCapacity b - m_bufferSize b) else Inr b)"

definition EnsureCapacity :: "heap_env \<Rightarrow> ByteBuffer \<Rightarrow> nat \<Rightarrow> ByteBuffer cxx" where
  "EnsureCapacity env b desired =
    (if m_bufferCapacity b \<ge> desired then Inr b
     else (let newCap = he_good env desired in
       bind_cxx (realloc env (bb_block b) newCap) (\<lambda>m.
         let b1 = b\<lparr>m_buffer := Some m, m_bufferCapacity := newCap\<rparr> in
         tidy b1)))"

definition ByteBuffer_assign :: "heap_env \<Rightarrow> ByteBuffer \<Rightarrow> ByteBuffer \<Rightarrow> ByteBuffer cxx" where
  "ByteBuffer_assign env b o' =
    bind_cxx (EnsureCapacity env b (m_bufferCapacity o')) (\<lambda>b1.
    bind_cxx (if m_secure b1 \<and> m_bufferSize o' < m_bufferSize b1
              then Clean b1 (m_bufferSize o') (m_bufferSize b1 - m_bufferSize o') else Inr b1) (\<lambda>b2.
    bind_cxx (copy_bytes (bb_block b2) 0 (bb_block o') 0 (m_bufferSize o')) (\<lambda>m.
      Inr (b2\<lparr>m_buffer := (if m_buffer b2 = None then None else Some m), m_bufferSize := m_bufferSize o'\<rparr>))))"

definition ByteBuffer_move_assign :: "ByteBuffer \<Rightarrow> ByteBuffer \<Rightarrow> ByteBuffer \<times> ByteBuffer" where
  "ByteBuffer_move_assign b o' = (o', empty_ByteBuffer False)"

definition ByteBuffer_eq :: "ByteBuffer \<Rightarrow> ByteBuffer \<Rightarrow> bool cxx" where
  "ByteBuffer_eq b o' =
    (if m_bufferSize b \<noteq> m_bufferSize o' then Inr False
     else bind_cxx (must (mem_load (bb_block b) 0 (m_bufferSize b))) (\<lambda>xs.
          bind_cxx (must (mem_load (bb_block o') 0 (m_bufferSize b))) (\<lambda>ys. Inr (xs = ys))))"

definition IsEmpty :: "ByteBuffer \<Rightarrow> bool" where
  "IsEmpty b = (m_bufferSize b = 0)"

definition SetUsesSecureErasure :: "ByteBuffer \<Rightarrow> bool \<Rightarrow> ByteBuffer" where
  "SetUsesSecureErasure b v = b\<lparr>m_secure := v\<rparr>"

text \<open>\<open>target\<close> is the caller's block, of which \<open>n\<close> bytes are offered.\<close>

definition MoveTo :: "ByteBuffer \<Rightarrow> byte list \<Rightarrow> nat \<Rightarrow> (nat \<times> byte list \<times> ByteBuffer) cxx" where
  "MoveTo b target n =
    (if m_bufferSize b = 0 then Inr (0, target, b)
     else if m_bufferSize b \<le> n
     then bind_cxx (copy_bytes target 0 (bb_block b) 0 (m_bufferSize b)) (\<lambda>t1.
          bind_cxx (must (mem_store t1 (m_bufferSize b) (replicate (n - m_bufferSize b) 0))) (\<lambda>t2.
          bind_cxx (if m_secure b then Clean b 0 (m_bufferCapacity b) else Inr b) (\<lambda>b1.
            Inr (m_bufferSize b, t2, b1\<lparr>m_bufferSize := 0\<rparr>))))
     else bind_cxx (copy_bytes target 0 (bb_block b) 0 n) (\<lambda>t1.
          bind_cxx (copy_bytes (bb_block b) 0 (bb_block b) n (m_bufferSize b - n)) (\<lambda>m.
          let b1 = b\<lparr>m_buffer := Some m, m_bufferSize := m_bufferSize b - n\<rparr> in
          bind_cxx (tidy b1) (\<lambda>b2. Inr (n, t1, b2)))))"

definition AddBytes :: "heap_env \<Rightarrow> ByteBuffer \<Rightarrow> byte list \<Rightarrow> nat \<Rightarrow> ByteBuffer cxx" where
  "AddBytes env b extra n =
    bind_cxx (EnsureCapacity env b (m_bufferSize b + n)) (\<lambda>b1.
    bind_cxx (copy_bytes (bb_block b1) (m_bufferSize b1) extra 0 n) (\<lambda>m.
      Inr (b1\<lparr>m_buffer := (if m_buffer b1 = None then None else Some m),
              m_bufferSize := m_bufferSize b1 + n\<rparr>)))"

text \<open>
  The subtraction \<^verbatim>\<open>m_bufferSize - pos\<close> wraps when \<open>pos\<close> is past the size, and the minimum is then
  the number asked for; the later subtractions wrap when that exceeds the size.
\<close>

definition RemoveBytesAt :: "ByteBuffer \<Rightarrow> nat \<Rightarrow> nat \<Rightarrow> ByteBuffer cxx" where
  "RemoveBytesAt b num pos =
    (if num \<ge> m_bufferSize b \<and> pos = 0 then Inr (b\<lparr>m_bufferSize := 0\<rparr>)
     else (let num' = (if pos \<le> m_bufferSize b then min num (m_bufferSize b - pos) else num) in
       if num' > m_bufferSize b then Inl Undefined
       else (let newSize = m_bufferSize b - num' in
         bind_cxx (if pos < newSize
                   then bind_cxx (copy_bytes (bb_block b) pos (bb_block b) (pos + num') newSize)
                          (\<lambda>m. Inr (b\<lparr>m_buffer := Some m\<rparr>))
                   else Inr b) (\<lambda>b1.
         tidy (b1\<lparr>m_bufferSize := newSize\<rparr>)))))"

definition Compact :: "heap_env \<Rightarrow> ByteBuffer \<Rightarrow> ByteBuffer cxx" where
  "Compact env b =
    (if m_bufferCapacity b > m_bufferSize b
     then bind_cxx (tidy b) (\<lambda>b1.
          bind_cxx (realloc env (bb_block b1) (m_bufferSize b1)) (\<lambda>m.
            Inr (b1\<lparr>m_buffer := Some m, m_bufferCapacity := m_bufferSize b1\<rparr>)))
     else Inr b)"

section \<open>Content and invariant\<close>

definition bb_ok :: "ByteBuffer \<Rightarrow> bool" where
  "bb_ok b \<longleftrightarrow> length (bb_block b) = m_bufferCapacity b \<and> m_bufferSize b \<le> m_bufferCapacity b"

definition bb_abs :: "ByteBuffer \<Rightarrow> byte list" where
  "bb_abs b = take (m_bufferSize b) (bb_block b)"

text \<open>With secure erasure on, every byte past the content is zero.\<close>

definition bb_clean :: "ByteBuffer \<Rightarrow> bool" where
  "bb_clean b \<longleftrightarrow> (m_secure b \<longrightarrow> (\<forall>x\<in>set (drop (m_bufferSize b) (bb_block b)). x = 0))"

text \<open>An allocator that rounds up and grants every request for a rounded size or for a positive one; what it does with a
  request for 0 bytes is left open.\<close>

definition env_ok :: "heap_env \<Rightarrow> bool" where
  "env_ok env \<longleftrightarrow> (\<forall>n. n \<le> he_good env n \<and> he_ok env (he_good env n) \<and> (0 < n \<longrightarrow> he_ok env n))"

lemma bb_block_update [simp]:
  "bb_block (b\<lparr>m_buffer := Some m\<rparr>) = m" "bb_block (b\<lparr>m_bufferSize := n\<rparr>) = bb_block b"
  "bb_block (b\<lparr>m_bufferCapacity := n\<rparr>) = bb_block b" "bb_block (b\<lparr>m_secure := v\<rparr>) = bb_block b"
  by (simp_all add: bb_block_def)

lemma Clean_tail:
  assumes "bb_ok b"
  shows "Clean b (m_bufferSize b) (m_bufferCapacity b - m_bufferSize b) =
    Inr (if m_bufferCapacity b = m_bufferSize b then b
         else b\<lparr>m_buffer := Some (bb_abs b @ replicate (m_bufferCapacity b - m_bufferSize b) 0)\<rparr>)"
  using assms by (auto simp: Clean_def bb_ok_def bb_abs_def mem_store_def)

lemma tidy_ok:
  assumes "bb_ok b"
  obtains b' where "tidy b = Inr b'" "bb_ok b'" "bb_abs b' = bb_abs b" "bb_clean b'"
    "m_secure b' = m_secure b" "m_bufferSize b' = m_bufferSize b" "m_bufferCapacity b' = m_bufferCapacity b"
proof (cases "m_secure b \<and> m_bufferCapacity b \<noteq> m_bufferSize b")
  case True
  let ?b = "b\<lparr>m_buffer := Some (bb_abs b @ replicate (m_bufferCapacity b - m_bufferSize b) 0)\<rparr>"
  have "length (bb_abs b) = m_bufferSize b" using assms by (simp add: bb_abs_def bb_ok_def)
  with True assms show ?thesis
    by (intro that [of ?b]) (auto simp: tidy_def Clean_tail bb_ok_def bb_abs_def bb_clean_def)
next
  case False
  with assms show ?thesis
    by (intro that [of b]) (auto simp: tidy_def Clean_def bb_clean_def bb_ok_def)
qed

section \<open>The operations on the content\<close>

lemma bb_copy_tail:
  assumes "bb_ok b" and "m_bufferSize b + length xs \<le> m_bufferCapacity b"
  shows "copy_bytes (bb_block b) (m_bufferSize b) xs 0 (length xs) =
    Inr (bb_abs b @ xs @ drop (m_bufferSize b + length xs) (bb_block b))"
  using assms by (simp add: copy_bytes_Inr bb_ok_def bb_abs_def)

lemma bb_ok_null: "bb_ok b \<Longrightarrow> m_buffer b = None \<Longrightarrow> m_bufferCapacity b = 0"
  by (simp add: bb_ok_def bb_block_def)

lemma realloc_grow:
  assumes "env_ok env" and "length m \<le> he_good env n"
  shows "realloc env m (he_good env n) = Inr (m @ map (he_junk env) [length m ..< he_good env n])"
  using assms by (simp add: realloc_def env_ok_def)

lemma EnsureCapacity_ok:
  assumes "env_ok env" and "bb_ok b" and "bb_clean b"
  obtains b' where "EnsureCapacity env b n = Inr b'" "bb_ok b'" "bb_abs b' = bb_abs b" "bb_clean b'"
    "m_secure b' = m_secure b" "m_bufferSize b' = m_bufferSize b" "n \<le> m_bufferCapacity b'"
    "m_buffer b' = None \<longrightarrow> n = 0"
proof (cases "m_bufferCapacity b \<ge> n")
  case True
  with assms show ?thesis
    by (intro that [of b]) (auto simp: EnsureCapacity_def dest: bb_ok_null)
next
  case False
  let ?m = "bb_block b @ map (he_junk env) [length (bb_block b) ..< he_good env n]"
  let ?b = "b\<lparr>m_buffer := Some ?m, m_bufferCapacity := he_good env n\<rparr>"
  have good: "n \<le> he_good env n" using assms(1) by (simp add: env_ok_def)
  with False assms have ok: "bb_ok ?b" by (simp add: bb_ok_def)
  then obtain b' where "tidy ?b = Inr b'" "bb_ok b'" "bb_abs b' = bb_abs ?b" "bb_clean b'"
    "m_secure b' = m_secure ?b" "m_bufferSize b' = m_bufferSize ?b" "m_bufferCapacity b' = m_bufferCapacity ?b"
    by (rule tidy_ok)
  moreover have "bb_abs ?b = bb_abs b" using assms(2) by (simp add: bb_abs_def bb_ok_def)
  moreover have "realloc env (bb_block b) (he_good env n) = Inr ?m"
    using assms False good by (intro realloc_grow) (auto simp: bb_ok_def)
  ultimately show ?thesis using False good
    by (intro that [of b']) (auto simp: EnsureCapacity_def dest: bb_ok_null)
qed

lemma AddBytes_ok:
  assumes "env_ok env" and "bb_ok b" and "bb_clean b"
  shows "\<exists>b'. AddBytes env b xs (length xs) = Inr b' \<and> bb_ok b' \<and> bb_clean b' \<and> bb_abs b' = bb_abs b @ xs"
proof -
  obtain b1 where b1: "EnsureCapacity env b (m_bufferSize b + length xs) = Inr b1" "bb_ok b1"
    "bb_abs b1 = bb_abs b" "bb_clean b1" "m_secure b1 = m_secure b" "m_bufferSize b1 = m_bufferSize b"
    "m_bufferSize b + length xs \<le> m_bufferCapacity b1" "m_buffer b1 = None \<longrightarrow> m_bufferSize b + length xs = 0"
    by (rule EnsureCapacity_ok [OF assms])
  let ?m = "bb_abs b1 @ xs @ drop (m_bufferSize b1 + length xs) (bb_block b1)"
  let ?b = "b1\<lparr>m_buffer := (if m_buffer b1 = None then None else Some ?m), m_bufferSize := m_bufferSize b1 + length xs\<rparr>"
  have "copy_bytes (bb_block b1) (m_bufferSize b1) xs 0 (length xs) = Inr ?m"
    using b1 by (intro bb_copy_tail) simp_all
  then have add: "AddBytes env b xs (length xs) = Inr ?b"
    unfolding AddBytes_def b1(1) by simp
  have abs: "length (bb_abs b1) = m_bufferSize b1" using b1(2) by (simp add: bb_abs_def bb_ok_def)
  show ?thesis
  proof (cases "m_buffer b1")
    case None
    with b1 have "xs = []" "bb_block b1 = []" by (auto simp: bb_block_def)
    with None b1 add show ?thesis by (intro exI [of _ ?b]) (auto simp: bb_ok_def bb_abs_def bb_clean_def bb_block_def)
  next
    case (Some m)
    have "set (drop (m_bufferSize b1 + length xs) (bb_block b1)) \<subseteq> set (drop (m_bufferSize b1) (bb_block b1))"
      by (rule set_drop_subset_set_drop) simp
    then have "bb_clean ?b" using Some b1(4) abs by (auto simp: bb_clean_def bb_block_def)
    moreover have "bb_ok ?b" using Some b1 abs by (auto simp: bb_ok_def bb_block_def)
    moreover have "bb_abs ?b = bb_abs b @ xs" using Some b1 abs by (auto simp: bb_abs_def bb_block_def)
    ultimately show ?thesis using add by blast
  qed
qed

lemma shift_down:
  assumes "bb_ok b" and "n \<le> m_bufferSize b"
  shows "copy_bytes (bb_block b) 0 (bb_block b) n (m_bufferSize b - n) =
    Inr (drop n (bb_abs b) @ drop (m_bufferSize b - n) (bb_block b))"
proof -
  have "n + (m_bufferSize b - n) \<le> length (bb_block b)" "0 + (m_bufferSize b - n) \<le> length (bb_block b)"
    using assms by (auto simp: bb_ok_def)
  then show ?thesis by (simp add: copy_bytes_Inr bb_abs_def drop_take del: le_add_diff_inverse)
qed

lemma Clean_all:
  assumes "bb_ok b" and "0 < m_bufferCapacity b"
  shows "Clean b 0 (m_bufferCapacity b) = Inr (b\<lparr>m_buffer := Some (replicate (m_bufferCapacity b) 0)\<rparr>)"
  using assms by (simp add: Clean_def mem_store_def bb_ok_def)

lemma bb_shrink:
  assumes "bb_ok b" and "n \<le> m_bufferSize b"
  defines "b1 \<equiv> b\<lparr>m_buffer := Some (drop n (bb_abs b) @ drop (m_bufferSize b - n) (bb_block b)),
    m_bufferSize := m_bufferSize b - n\<rparr>"
  shows "bb_ok b1 \<and> bb_abs b1 = drop n (bb_abs b)"
proof -
  have "length (bb_abs b) = m_bufferSize b" using assms(1) by (simp add: bb_abs_def bb_ok_def)
  with assms show ?thesis by (auto simp: b1_def bb_ok_def bb_abs_def)
qed

lemma MoveTo_ok:
  assumes "bb_ok b" and "bb_clean b" and "0 < m_bufferSize b"
  shows "\<exists>b'. MoveTo b target (length target) = Inr (min (length target) (m_bufferSize b),
      take (length target) (bb_abs b) @ replicate (length target - m_bufferSize b) 0, b') \<and>
    bb_ok b' \<and> bb_clean b' \<and> bb_abs b' = drop (length target) (bb_abs b)"
proof (cases "m_bufferSize b \<le> length target")
  case True
  have abs: "length (bb_abs b) = m_bufferSize b" using assms(1) by (simp add: bb_abs_def bb_ok_def)
  define b1 where "b1 = (if m_secure b then b\<lparr>m_buffer := Some (replicate (m_bufferCapacity b) 0)\<rparr> else b)"
  have b1: "(if m_secure b then Clean b 0 (m_bufferCapacity b) else Inr b) = Inr b1"
    "length (bb_block b1) = m_bufferCapacity b1" "m_secure b1 \<longrightarrow> set (bb_block b1) \<subseteq> {0}"
    using assms by (auto simp: b1_def Clean_all bb_ok_def)
  let ?b = "b1\<lparr>m_bufferSize := 0\<rparr>"
  have "copy_bytes target 0 (bb_block b) 0 (m_bufferSize b) = Inr (bb_abs b @ drop (m_bufferSize b) target)"
    using True assms(1) by (simp add: copy_bytes_Inr bb_ok_def bb_abs_def)
  then have "MoveTo b target (length target) = Inr (m_bufferSize b,
      bb_abs b @ replicate (length target - m_bufferSize b) 0, ?b)"
    using True assms(3) b1(1) abs by (simp add: MoveTo_def mem_store_def)
  moreover have "bb_ok ?b \<and> bb_clean ?b \<and> bb_abs ?b = []"
    using b1 by (auto simp: bb_ok_def bb_clean_def bb_abs_def)
  ultimately show ?thesis using True abs by (intro exI [of _ ?b]) (simp add: min_def)
next
  case False
  let ?n = "length target"
  let ?b1 = "b\<lparr>m_buffer := Some (drop ?n (bb_abs b) @ drop (m_bufferSize b - ?n) (bb_block b)),
    m_bufferSize := m_bufferSize b - ?n\<rparr>"
  have n: "?n \<le> m_bufferSize b" using False by simp
  from bb_shrink [OF assms(1) n] have shrink: "bb_ok ?b1" "bb_abs ?b1 = drop ?n (bb_abs b)" by auto
  from shrink(1) obtain b2 where b2: "tidy ?b1 = Inr b2" "bb_ok b2" "bb_abs b2 = bb_abs ?b1" "bb_clean b2"
    by (rule tidy_ok) blast
  have "copy_bytes target 0 (bb_block b) 0 ?n = Inr (take ?n (bb_abs b))"
    using n assms(1) by (simp add: copy_bytes_Inr bb_ok_def bb_abs_def)
  then show ?thesis
    using False n b2 shrink assms by (simp add: MoveTo_def shift_down Let_def)
qed

lemma RemoveBytes_front:
  assumes "bb_ok b" and "n < m_bufferSize b"
  shows "\<exists>b'. RemoveBytesAt b n 0 = Inr b' \<and> bb_ok b' \<and> bb_clean b' \<and> bb_abs b' = drop n (bb_abs b)"
proof -
  let ?b1 = "b\<lparr>m_buffer := Some (drop n (bb_abs b) @ drop (m_bufferSize b - n) (bb_block b)),
    m_bufferSize := m_bufferSize b - n\<rparr>"
  from bb_shrink [OF assms(1), of n] assms(2) have shrink: "bb_ok ?b1" "bb_abs ?b1 = drop n (bb_abs b)" by auto
  from shrink(1) obtain b2 where b2: "tidy ?b1 = Inr b2" "bb_ok b2" "bb_abs b2 = bb_abs ?b1" "bb_clean b2"
    by (rule tidy_ok) blast
  with shrink assms show ?thesis
    by (simp add: RemoveBytesAt_def Let_def min_def shift_down)
qed

lemma Compact_ok:
  assumes "env_ok env" and "bb_ok b" and "m_bufferSize b = 0 \<longrightarrow> m_bufferCapacity b = 0 \<or> he_ok env 0"
  shows "\<exists>b'. Compact env b = Inr b' \<and> bb_ok b' \<and> bb_clean b' \<and> bb_abs b' = bb_abs b \<and>
    m_bufferCapacity b' = m_bufferSize b'"
proof (cases "m_bufferCapacity b > m_bufferSize b")
  case True
  from assms(2) obtain b1 where b1: "tidy b = Inr b1" "bb_ok b1" "bb_abs b1 = bb_abs b"
    "m_bufferSize b1 = m_bufferSize b" by (rule tidy_ok) blast
  let ?b = "b1\<lparr>m_buffer := Some (bb_abs b1), m_bufferCapacity := m_bufferSize b1\<rparr>"
  have "he_ok env (m_bufferSize b1)"
    using assms(1,3) b1(4) True by (cases "m_bufferSize b") (auto simp: env_ok_def)
  then have "realloc env (bb_block b1) (m_bufferSize b1) = Inr (bb_abs b1)"
    using b1(2) by (simp add: realloc_def bb_abs_def bb_ok_def)
  moreover have "length (bb_abs b1) = m_bufferSize b1" using b1(2) by (simp add: bb_abs_def bb_ok_def)
  moreover from this have "bb_ok ?b" "bb_clean ?b" "bb_abs ?b = bb_abs b1"
    by (simp_all add: bb_ok_def bb_clean_def bb_abs_def [of ?b])
  ultimately show ?thesis using True b1 by (simp add: Compact_def)
next
  case False
  with assms show ?thesis by (auto simp: Compact_def bb_ok_def bb_clean_def)
qed

text \<open>When the allocator answers a request for 0 bytes with a null pointer, compacting an empty buffer that has memory throws.\<close>

lemma Compact_empty_throws:
  assumes "bb_ok b" and "m_bufferSize b = 0" and "m_bufferCapacity b \<noteq> 0" and "\<not> he_ok env 0"
  shows "Compact env b = Inl out_of_memory"
proof -
  obtain b1 where "tidy b = Inr b1" "m_bufferSize b1 = m_bufferSize b" by (rule tidy_ok [OF assms(1)]) blast
  then show ?thesis using assms(2-4) by (simp add: Compact_def realloc_def)
qed

section \<open>Properties\<close>

text \<open>
  A client works on the buffer by appending, moving bytes out into memory of its own, dropping bytes
  at the front and compacting; the specification works on the list of bytes.
\<close>

datatype bop = Add "byte list" | Move "byte list" | Drop nat | Shrink

fun bb_run :: "heap_env \<Rightarrow> bop \<Rightarrow> ByteBuffer \<Rightarrow> (byte list \<times> ByteBuffer) cxx" where
  "bb_run env (Add xs) b = bind_cxx (AddBytes env b xs (length xs)) (\<lambda>b'. Inr ([], b'))"
| "bb_run env (Move t) b = bind_cxx (MoveTo b t (length t)) (\<lambda>(n, t', b'). Inr (take n t', b'))"
| "bb_run env (Drop n) b = bind_cxx (RemoveBytesAt b n 0) (\<lambda>b'. Inr ([], b'))"
| "bb_run env Shrink b = bind_cxx (Compact env b) (\<lambda>b'. Inr ([], b'))"

fun bb_spec :: "bop \<Rightarrow> byte list \<Rightarrow> byte list \<times> byte list" where
  "bb_spec (Add xs) c = ([], c @ xs)"
| "bb_spec (Move t) c = (take (length t) c, drop (length t) c)"
| "bb_spec (Drop n) c = ([], drop n c)"
| "bb_spec Shrink c = ([], c)"

lemma length_bb_abs: "bb_ok b \<Longrightarrow> length (bb_abs b) = m_bufferSize b"
  by (simp add: bb_abs_def bb_ok_def)

text \<open>C40: Byte buffers implement lists of bytes: with an allocator that grants every request for a positive number of bytes, each
  operation of a client runs without leaving a block, keeps size, capacity and block consistent, and
  delivers and leaves exactly the bytes that the list specification says; the one exception is compacting an empty buffer that
  still has memory, which throws when a request for 0 bytes is answered with a null pointer.  With secure erasure
  on, operations other than dropping all bytes at once leave only zeros past the content.\<close>

theorem byte_buffer_refines:
  assumes "env_ok env" and "bb_ok b" and "bb_clean b"
  shows "if op = Shrink \<and> m_bufferSize b = 0 \<and> m_bufferCapacity b \<noteq> 0 \<and> \<not> he_ok env 0
    then bb_run env op b = Inl out_of_memory
    else \<exists>b'. bb_run env op b = Inr (fst (bb_spec op (bb_abs b)), b') \<and> bb_ok b' \<and>
      bb_abs b' = snd (bb_spec op (bb_abs b)) \<and>
      ((\<forall>n. op = Drop n \<longrightarrow> n < m_bufferSize b) \<longrightarrow> bb_clean b')"
proof (cases op)
  case (Add xs)
  with AddBytes_ok [OF assms, of xs] show ?thesis by auto
next
  case (Move t)
  show ?thesis
  proof (cases "m_bufferSize b = 0")
    case True
    with Move assms show ?thesis by (simp add: MoveTo_def bb_abs_def)
  next
    case False
    with MoveTo_ok [OF assms(2,3), of t] Move length_bb_abs [OF assms(2)] show ?thesis
      by (auto simp: min_def)
  qed
next
  case (Drop n)
  show ?thesis
  proof (cases "n < m_bufferSize b")
    case True
    with RemoveBytes_front [OF assms(2) True] Drop show ?thesis by auto
  next
    case False
    with Drop assms length_bb_abs [OF assms(2)] show ?thesis
      by (simp add: RemoveBytesAt_def bb_ok_def bb_abs_def)
  qed
next
  case Shrink
  show ?thesis
  proof (cases "m_bufferSize b = 0 \<and> m_bufferCapacity b \<noteq> 0 \<and> \<not> he_ok env 0")
    case True
    with Shrink Compact_empty_throws [OF assms(2)] show ?thesis by simp
  next
    case False
    then have "m_bufferSize b = 0 \<longrightarrow> m_bufferCapacity b = 0 \<or> he_ok env 0" by blast
    from Compact_ok [OF assms(1,2) this] False Shrink show ?thesis by auto
  qed
qed

definition sample_env :: heap_env where
  "sample_env = \<lparr>he_good = (\<lambda>n. n + 1), he_ok = (\<lambda>n. 0 < n), he_junk = (\<lambda>_. 7)\<rparr>"

theorem byte_buffer_refines_witness:
  "\<exists>b'. bb_run sample_env (Add [1, 2, 3]) (empty_ByteBuffer True) = Inr ([], b') \<and> bb_ok b' \<and>
     bb_abs b' = [1, 2, 3] \<and> bb_clean b'"
  using byte_buffer_refines [of sample_env "empty_ByteBuffer True" "Add [1, 2, 3]"]
  by (simp add: env_ok_def sample_env_def bb_ok_def bb_clean_def bb_abs_def bb_block_def
      empty_ByteBuffer_def)

definition secret_buffer :: ByteBuffer where
  "secret_buffer = \<lparr>m_buffer = Some [1, 2, 3, 0], m_bufferSize = 3, m_bufferCapacity = 4, m_secure = True\<rparr>"

text \<open>Dropping all bytes defeats secure erasure: when the content is not all zeros, the buffer that
  \<^verbatim>\<open>RemoveBytes\<close> leaves has non-zero bytes past its end, although secure erasure is on.\<close>

theorem byte_buffer_residue:
  assumes "m_secure b" and "x \<in> set (bb_abs b)" and "x \<noteq> 0" and "m_bufferSize b \<le> n"
  shows "\<exists>b'. RemoveBytesAt b n 0 = Inr b' \<and> bb_abs b' = [] \<and> \<not> bb_clean b'"
  using assms by (auto simp: RemoveBytesAt_def bb_clean_def bb_abs_def dest: in_set_takeD)

theorem byte_buffer_residue_witness:
  "\<exists>b'. RemoveBytesAt secret_buffer 3 0 = Inr b' \<and> bb_abs b' = [] \<and> \<not> bb_clean b'"
  by (rule byte_buffer_residue [where x = 1]) (simp_all add: secret_buffer_def bb_abs_def bb_block_def)

text \<open>Removing bytes behind a position copies as many bytes as remain in the whole buffer: when the
  size and the position together exceed the capacity, the copy reads past the end of the block.\<close>

theorem byte_buffer_remove_overread:
  assumes "bb_ok b" and "0 < pos" and "pos + num < m_bufferSize b"
    and "m_bufferCapacity b < m_bufferSize b + pos"
  shows "RemoveBytesAt b num pos = Inl Undefined"
proof -
  have "length (bb_block b) < (pos + num) + (m_bufferSize b - num)"
    using assms by (simp add: bb_ok_def)
  then have "mem_load (bb_block b) (pos + num) (m_bufferSize b - num) = None"
    by (simp add: mem_load_def del: add_diff_assoc add_diff_assoc2)
  moreover have "min num (m_bufferSize b - pos) = num" "pos < m_bufferSize b - num" using assms by auto
  ultimately show ?thesis
    using assms by (simp add: RemoveBytesAt_def Let_def copy_bytes_def)
qed

definition tight_buffer :: ByteBuffer where
  "tight_buffer = \<lparr>m_buffer = Some [1, 2, 3], m_bufferSize = 3, m_bufferCapacity = 3, m_secure = False\<rparr>"

theorem byte_buffer_remove_overread_witness: "RemoveBytesAt tight_buffer 1 1 = Inl Undefined"
  by (rule byte_buffer_remove_overread) (simp_all add: tight_buffer_def bb_ok_def bb_block_def)

end
