(* ===== verification/Byte_Stream.thy ===== *)
theory Byte_Stream
  imports Zip_File Byte_Buffer
begin

text \<open>
  Byte streams, \<^verbatim>\<open>utilities/byte_stream.{h,cpp}\<close>: what a synchronous stream promises its clients as a
  locale, \<^verbatim>\<open>ByteStream::ReadAllBytes\<close> for every stream, and \<^verbatim>\<open>ZipFileByteStream\<close>, the stream over a member
  of a ZIP archive, which keeps the promise for stored members.
\<close>

section \<open>Streams in general\<close>

text \<open>
  The operations of \<^verbatim>\<open>SeekableByteStream\<close> as a table over a state.  A read delivers bytes, the state
  afterwards, or does not return; the count it returns is the number of bytes.
\<close>

datatype seekdir = Seek_beg | Seek_cur | Seek_end

record 's SeekableByteStream =
  s_BytesAvailable :: "'s \<Rightarrow> nat"
  s_IsOpen :: "'s \<Rightarrow> bool"
  s_Close :: "'s \<Rightarrow> 's"
  s_ReadBytes :: "'s \<Rightarrow> nat \<Rightarrow> (byte list \<times> 's) run"
  s_AtEnd :: "'s \<Rightarrow> bool"
  s_Error :: "'s \<Rightarrow> int"
  s_Seek :: "'s \<Rightarrow> nat \<Rightarrow> seekdir \<Rightarrow> (nat \<times> 's) run"
  s_Position :: "'s \<Rightarrow> nat"

text \<open>The loop of \<open>ReadAllBytes\<close>: \<open>resbuf\<close> is the block so far, \<open>alloc_ok\<close> tells whether \<^verbatim>\<open>malloc\<close> succeeds.\<close>

definition malloc_block :: "(nat \<Rightarrow> bool) \<Rightarrow> byte list \<Rightarrow> byte list cxx" where
  "malloc_block alloc_ok bs = (if alloc_ok (length bs) then Inr bs else Inl Undefined)"

partial_function (option) read_all_loop ::
  "('s \<Rightarrow> nat \<Rightarrow> (byte list \<times> 's) run) \<Rightarrow> (nat \<Rightarrow> bool) \<Rightarrow> byte list \<Rightarrow> 's \<Rightarrow> (byte list \<times> 's) run" where
  "read_all_loop read alloc_ok resbuf s =
     (case read s 4096 of
        None \<Rightarrow> None
      | Some (Inl e) \<Rightarrow> Some (Inl e)
      | Some (Inr (bs, s')) \<Rightarrow>
          (case malloc_block alloc_ok (resbuf @ bs) of
             Inl e \<Rightarrow> Some (Inl e)
           | Inr temp \<Rightarrow> if bs = [] then Some (Inr (temp, s')) else read_all_loop read alloc_ok temp s'))"

declare read_all_loop.simps [code del]

definition ReadAllBytes ::
  "('s \<Rightarrow> nat \<Rightarrow> (byte list \<times> 's) run) \<Rightarrow> (nat \<Rightarrow> bool) \<Rightarrow> 's \<Rightarrow> (byte list \<times> 's) run" where
  "ReadAllBytes read alloc_ok s =
     bind_run (read s 4096) (\<lambda>(bs, s').
       if bs = [] then Some (Inr ([], s'))
       else bind_run (Some (malloc_block alloc_ok bs)) (\<lambda>resbuf. read_all_loop read alloc_ok resbuf s'))"

text \<open>
  What a stream with content promises: a read of a positive number of bytes returns, delivers
  the next bytes, and delivers none only at the end; \<open>at_end\<close> is not set early.
\<close>

locale byte_source =
  fixes read :: "'s \<Rightarrow> nat \<Rightarrow> (byte list \<times> 's) run"
    and at_end :: "'s \<Rightarrow> bool"
    and ok :: "'s \<Rightarrow> bool"
    and rest :: "'s \<Rightarrow> byte list"
  assumes read_law: "\<lbrakk>ok s; 0 < n; n < 2 ^ 31\<rbrakk> \<Longrightarrow> \<exists>bs s'. read s n = Some (Inr (bs, s')) \<and> ok s' \<and>
      rest s = bs @ rest s' \<and> length bs \<le> n \<and> (bs = [] \<longrightarrow> rest s = [])"
    and end_law: "\<lbrakk>ok s; at_end s\<rbrakk> \<Longrightarrow> rest s = []"
begin

text \<open>The outcome of one read.\<close>

lemma read_block:
  assumes "ok s" and "0 < n" and "n < 2 ^ 31"
  obtains bs s' where "read s n = Some (Inr (bs, s'))" and "ok s'" and "rest s = bs @ rest s'"
    and "bs = [] \<longrightarrow> rest s = []"
  using read_law [OF assms] by blast

lemma read_all_loop_correct:
  assumes "ok s" and "\<And>n. alloc_ok n"
  shows "\<exists>s'. read_all_loop read alloc_ok resbuf s = Some (Inr (resbuf @ rest s, s')) \<and> ok s' \<and> rest s' = []"
  using assms(1)
proof (induction "length (rest s)" arbitrary: s resbuf rule: less_induct)
  case less
  obtain bs s' where r: "read s 4096 = Some (Inr (bs, s'))" "ok s'" "rest s = bs @ rest s'"
    and ne: "bs = [] \<longrightarrow> rest s = []"
    by (rule read_block [OF less.prems, of 4096]) simp_all
  show ?case
  proof (cases "bs = []")
    case True
    with r ne assms(2) show ?thesis by (subst read_all_loop.simps) (simp add: malloc_block_def)
  next
    case False
    then have "length (rest s') < length (rest s)" using r(3) by simp
    from less.hyps [OF this r(2), of "resbuf @ bs"] obtain s'' where
      "read_all_loop read alloc_ok (resbuf @ bs) s' = Some (Inr ((resbuf @ bs) @ rest s', s''))" "ok s''" "rest s'' = []"
      by blast
    with False r(1,3) assms(2) show ?thesis by (subst read_all_loop.simps) (simp add: malloc_block_def)
  qed
qed

lemma ReadAllBytes_correct:
  assumes "ok s" and "\<And>n. alloc_ok n"
  shows "\<exists>s'. ReadAllBytes read alloc_ok s = Some (Inr (rest s, s')) \<and> ok s' \<and> rest s' = []"
proof -
  obtain bs s' where r: "read s 4096 = Some (Inr (bs, s'))" "ok s'" "rest s = bs @ rest s'"
    and ne: "bs = [] \<longrightarrow> rest s = []"
    by (rule read_block [OF assms(1), of 4096]) simp_all
  show ?thesis
  proof (cases "bs = []")
    case True
    with r ne show ?thesis by (simp add: ReadAllBytes_def)
  next
    case False
    with r read_all_loop_correct [of s' alloc_ok bs] assms(2) show ?thesis
      by (auto simp: ReadAllBytes_def malloc_block_def)
  qed
qed

end

section \<open>Streams over members of an archive\<close>

text \<open>
  \<^verbatim>\<open>class ZipFileByteStream\<close>; \<open>zb_za\<close> is the archive the stream was opened on, which the stream's reads
  and seeks share with it.  \<open>unescape\<close> stands for \<^verbatim>\<open>url_util::DecodeURLEscapeSequences\<close>.
\<close>

record ('s, 'u) ZipFileByteStream =
  zb_file :: "'s zip_file option"
  zb_za :: "'u zip"
  zb_eof :: bool
  zb_err :: int

definition c_str :: "byte list \<Rightarrow> byte list" where
  "c_str xs = takeWhile (\<lambda>b. b \<noteq> 0) xs"

definition strip_slash :: "byte list \<Rightarrow> byte list" where
  "strip_slash path = (case path of b # bs \<Rightarrow> if b = 0x2f then bs else path | [] \<Rightarrow> path)"

definition Sanitized :: "(byte list \<Rightarrow> byte list) \<Rightarrow> byte list \<Rightarrow> byte list" where
  "Sanitized unescape path = strip_slash (if 0x25 \<in> set path then unescape path else path)"

definition zb_of_res :: "'a res \<Rightarrow> 'a cxx" where
  "zb_of_res r = (case r of Inl _ \<Rightarrow> Inl Undefined | Inr x \<Rightarrow> Inr x)"

definition new_ZipFileByteStream :: "'u zip \<Rightarrow> ('s, 'u) ZipFileByteStream" where
  "new_ZipFileByteStream za = \<lparr>zb_file = None, zb_za = za, zb_eof = False, zb_err = 0\<rparr>"

definition Zip_BytesAvailable :: "('s, 'u) ZipFileByteStream \<Rightarrow> nat" where
  "Zip_BytesAvailable st = (case zb_file st of None \<Rightarrow> 0 | Some zf \<Rightarrow> unat (zf_bytes_left zf))"

definition Zip_IsOpen :: "('s, 'u) ZipFileByteStream \<Rightarrow> bool" where
  "Zip_IsOpen st = (zb_file st \<noteq> None)"

definition Zip_Close :: "('s, 'u) ZipFileByteStream \<Rightarrow> ('s, 'u) ZipFileByteStream" where
  "Zip_Close st = (case zb_file st of None \<Rightarrow> st
     | Some zf \<Rightarrow> st\<lparr>zb_file := None, zb_za := close_handle zf (zb_za st)\<rparr>)"

definition Zip_Open ::
  "clib \<Rightarrow> 's zlib \<Rightarrow> (byte list \<Rightarrow> byte list) \<Rightarrow> ('s, 'u) ZipFileByteStream \<Rightarrow> byte list \<Rightarrow> u32 \<Rightarrow>
   (bool \<times> ('s, 'u) ZipFileByteStream) cxx" where
  "Zip_Open lib z unescape st path flags =
     (let st = Zip_Close st in
      case zip_fopen lib z (zb_za st) (Some (c_str (Sanitized unescape path))) flags of
        (r, za) \<Rightarrow> bind_cxx (zb_of_res r) (\<lambda>f. Inr (f \<noteq> None, st\<lparr>zb_file := f, zb_za := za\<rparr>)))"

text \<open>The outcome of \<open>zip_fread\<close> for the stream: an error closes it.\<close>

definition zip_read_done ::
  "('s, 'u) ZipFileByteStream \<Rightarrow> int \<times> byte list \<times> 's zip_file \<times> cfile \<Rightarrow> byte list \<times> ('s, 'u) ZipFileByteStream" where
  "zip_read_done st r =
     (case r of (numRead, bs, zf, fp) \<Rightarrow>
        let st = st\<lparr>zb_file := Some zf, zb_za := (zb_za st)\<lparr>za_zp := Some fp\<rparr>\<rparr> in
        if numRead < 0 then ([], Zip_Close st)
        else (bs, st\<lparr>zb_eof := (zf_bytes_left zf = 0)\<rparr>))"

definition Zip_ReadBytes ::
  "'s zlib \<Rightarrow> ('s, 'u) ZipFileByteStream \<Rightarrow> nat \<Rightarrow> (byte list \<times> ('s, 'u) ZipFileByteStream) run" where
  "Zip_ReadBytes z st len =
     (if len = 0 then Some (Inr ([], st))
      else case zb_file st of
        None \<Rightarrow> Some (Inr ([], st))
      | Some zf \<Rightarrow>
          (case za_zp (zb_za st) of
             None \<Rightarrow> Some (Inl Undefined)
           | Some fp \<Rightarrow> (case zip_fread z len zf fp of
               None \<Rightarrow> None
             | Some r \<Rightarrow> bind_run (Some (zb_of_res r)) (\<lambda>r. Some (Inr (zip_read_done st r))))))"

definition Zip_WriteBytes :: "('s, 'u) ZipFileByteStream \<Rightarrow> byte list \<Rightarrow> nat" where
  "Zip_WriteBytes st bs = 0"

text \<open>Positions are 64-bit: \<open>Position\<close> converts the result of \<open>zip_ftell\<close>, \<open>Seek\<close> its argument.\<close>

definition Zip_Position :: "('s, 'u) ZipFileByteStream \<Rightarrow> nat" where
  "Zip_Position st = nat (zip_ftell (zb_file st) mod 2 ^ 64)"

definition to_long :: "nat \<Rightarrow> int" where
  "to_long n = (let k = int n mod 2 ^ 64 in if k < 2 ^ 63 then k else k - 2 ^ 64)"

definition seek_whence :: "seekdir \<Rightarrow> int" where
  "seek_whence d = (case d of Seek_beg \<Rightarrow> ZIP_SEEK_SET | Seek_cur \<Rightarrow> ZIP_SEEK_CUR | Seek_end \<Rightarrow> ZIP_SEEK_END)"

definition zip_seek_done ::
  "('s, 'u) ZipFileByteStream \<Rightarrow> int \<times> 's zip_file \<Rightarrow> 'u zip \<Rightarrow> nat \<times> ('s, 'u) ZipFileByteStream" where
  "zip_seek_done st r za =
     (let st = st\<lparr>zb_file := Some (snd r), zb_za := za, zb_eof := (zf_bytes_left (snd r) = 0)\<rparr>
      in (Zip_Position st, st))"

definition Zip_Seek ::
  "clib \<Rightarrow> 's zlib \<Rightarrow> ('s, 'u) ZipFileByteStream \<Rightarrow> nat \<Rightarrow> seekdir \<Rightarrow>
   (nat \<times> ('s, 'u) ZipFileByteStream) run" where
  "Zip_Seek lib z st by' dir =
     (case zb_file st of
        None \<Rightarrow> Some (Inl Undefined)
      | Some zf \<Rightarrow>
          (case zip_fseek lib z zf (zb_za st) (to_long by') (seek_whence dir) of
             None \<Rightarrow> None
           | Some (r, za) \<Rightarrow> bind_run (Some (zb_of_res r)) (\<lambda>r. Some (Inr (zip_seek_done st r za)))))"

text \<open>\<open>Clone\<close>: a second stream on the same archive, moved to the same position; \<open>file_index\<close> and \<open>flags\<close> of
  the member are passed on, and the outcome of the seek is ignored.\<close>

definition Zip_Clone ::
  "clib \<Rightarrow> 's zlib \<Rightarrow> ('s, 'u) ZipFileByteStream \<Rightarrow> (('s, 'u) ZipFileByteStream option \<times> 'u zip) run" where
  "Zip_Clone lib z st =
     (case zb_file st of
        None \<Rightarrow> Some (Inr (None, zb_za st))
      | Some zf \<Rightarrow>
          (case zip_fopen_index lib z (zb_za st) (zf_file_index zf) (zf_flags zf) of
             (r, za) \<Rightarrow> bind_run (Some (zb_of_res r)) (\<lambda>f.
               case f of
                 None \<Rightarrow> Some (Inr (None, za))
               | Some newFile \<Rightarrow>
                   (case zip_fseek lib z newFile za (to_long (Zip_Position st)) ZIP_SEEK_SET of
                      None \<Rightarrow> None
                    | Some (r, za) \<Rightarrow> bind_run (Some (zb_of_res r)) (\<lambda>(_, nf).
                        Some (Inr (Some ((new_ZipFileByteStream za)\<lparr>zb_file := Some nf\<rparr>), za)))))))"

definition zip_stream_ops :: "clib \<Rightarrow> 's zlib \<Rightarrow> ('s, 'u) ZipFileByteStream SeekableByteStream" where
  "zip_stream_ops lib z = \<lparr>s_BytesAvailable = Zip_BytesAvailable, s_IsOpen = Zip_IsOpen, s_Close = Zip_Close,
     s_ReadBytes = Zip_ReadBytes z, s_AtEnd = zb_eof, s_Error = zb_err, s_Seek = Zip_Seek lib z,
     s_Position = Zip_Position\<rparr>"

section \<open>Stored members keep the promise\<close>

definition zb_rest :: "('s, 'u) ZipFileByteStream \<Rightarrow> byte list" where
  "zb_rest st = (case (zb_file st, za_zp (zb_za st)) of
       (Some zf, Some fp) \<Rightarrow> take (unat (zf_cbytes_left zf)) (drop (zf_fpos zf) (fdata fp))
     | _ \<Rightarrow> [])"

definition zb_stored :: "'s zlib \<Rightarrow> ('s, 'u) ZipFileByteStream \<Rightarrow> bool" where
  "zb_stored z st \<longleftrightarrow> crc_running z \<and> (zb_eof st \<longrightarrow> zb_rest st = []) \<and>
     (case (zb_file st, za_zp (zb_za st)) of
        (Some zf, Some fp) \<Rightarrow> stored_at zf fp (zb_rest st) \<and> crc_fits z zf (zb_rest st)
      | _ \<Rightarrow> False)"

lemma zb_storedE:
  assumes "zb_stored z st"
  obtains zf fp where "zb_file st = Some zf" and "za_zp (zb_za st) = Some fp" and "stored_at zf fp (zb_rest st)"
    and "crc_fits z zf (zb_rest st)" and "crc_running z"
  using assms by (auto simp: zb_stored_def split: option.splits)

text \<open>What is left to read is determined by the state.\<close>

lemma stored_at_rest:
  assumes "stored_at zf fp data" and "zb_file st = Some zf" and "za_zp (zb_za st) = Some fp"
  shows "zb_rest st = data"
  using assms by (simp add: stored_at_def zb_rest_def unat_u64_small)

lemma zip_stored_read:
  assumes "zb_stored z st" and "0 < n" and "n < 2 ^ 31"
  shows "\<exists>st'. Zip_ReadBytes z st n = Some (Inr (take n (zb_rest st), st')) \<and> zb_stored z st' \<and>
    zb_rest st' = drop n (zb_rest st)"
proof -
  obtain zf fp where f: "zb_file st = Some zf" "za_zp (zb_za st) = Some fp" "stored_at zf fp (zb_rest st)"
      "crc_fits z zf (zb_rest st)" "crc_running z"
    by (rule zb_storedE [OF assms(1)])
  obtain zf' fp' where r: "zip_fread z n zf fp = Some (Inr (int (min n (length (zb_rest st))), take n (zb_rest st), zf', fp'))"
      "stored_at zf' fp' (drop n (zb_rest st))" "crc_fits z zf' (drop n (zb_rest st))"
    using stored_fread [OF f(3-5) assms(2,3)] by blast
  define st' where "st' = st\<lparr>zb_file := Some zf', zb_za := (zb_za st)\<lparr>za_zp := Some fp'\<rparr>,
      zb_eof := (zf_bytes_left zf' = 0)\<rparr>"
  have rest: "zb_rest st' = drop n (zb_rest st)"
    using r(2) by (rule stored_at_rest) (simp_all add: st'_def)
  have "zf_bytes_left zf' = 0 \<longrightarrow> drop n (zb_rest st) = []"
  proof
    assume "zf_bytes_left zf' = 0"
    with r(2) have "of_nat (length (drop n (zb_rest st))) = (0 :: u64)" "length (drop n (zb_rest st)) < 2 ^ 32"
      by (simp_all only: stored_at_def)
    then show "drop n (zb_rest st) = []" using of_nat_u64_eq_0 by blast
  qed
  then have "zb_stored z st'"
    using r(2,3) f(5) unfolding zb_stored_def rest by (simp add: st'_def)
  moreover have "Zip_ReadBytes z st n = Some (Inr (take n (zb_rest st), st'))"
    using assms(2) f(1,2) r(1)
    by (simp add: Zip_ReadBytes_def zb_of_res_def zip_read_done_def st'_def Let_def)
  ultimately show ?thesis using rest by blast
qed

interpretation zip_source: byte_source "Zip_ReadBytes z" zb_eof "zb_stored z" zb_rest for z
proof
  fix st :: "('a, 'b) ZipFileByteStream" and n :: nat
  assume "zb_stored z st" "0 < n" "n < 2 ^ 31"
  from zip_stored_read [OF this] obtain st' where
    "Zip_ReadBytes z st n = Some (Inr (take n (zb_rest st), st'))" "zb_stored z st'" "zb_rest st' = drop n (zb_rest st)"
    by blast
  with \<open>0 < n\<close> show "\<exists>bs st'. Zip_ReadBytes z st n = Some (Inr (bs, st')) \<and>
      zb_stored z st' \<and> zb_rest st = bs @ zb_rest st' \<and> length bs \<le> n \<and> (bs = [] \<longrightarrow> zb_rest st = [])"
    by (intro exI [of _ "take n (zb_rest st)"] exI [of _ st']) simp
next
  fix st :: "('a, 'b) ZipFileByteStream"
  assume "zb_stored z st" "zb_eof st"
  then show "zb_rest st = []" by (simp add: zb_stored_def)
qed

end
