(* ===== verification/Content_Filter.thy ===== *)
theory Content_Filter
  imports Byte_Stream
begin

text \<open>
  Content filters: \<^verbatim>\<open>ePub/filter.h\<close> (byte ranges, contexts, the filter interface), the filters
  \<^verbatim>\<open>font_obfuscation.{h,cpp}\<close> and \<^verbatim>\<open>PassThroughFilter.{h,cpp}\<close>, and the registry of
  \<^verbatim>\<open>filter_manager.h\<close> and \<^verbatim>\<open>filter_manager_impl.cpp\<close>.
\<close>

section \<open>Byte ranges\<close>

record ByteRange =
  br_location :: u32
  br_length :: u32
  br_isFullRange :: bool

definition ByteRange_Reset :: ByteRange where
  "ByteRange_Reset = \<lparr>br_location = 0, br_length = 0, br_isFullRange = True\<rparr>"

definition set_Location :: "ByteRange \<Rightarrow> u32 \<Rightarrow> ByteRange" where
  "set_Location r l = r\<lparr>br_isFullRange := False, br_location := l\<rparr>"

definition set_Length :: "ByteRange \<Rightarrow> u32 \<Rightarrow> ByteRange" where
  "set_Length r l = r\<lparr>br_isFullRange := False, br_length := l\<rparr>"

definition ByteRange_assign :: "ByteRange \<Rightarrow> ByteRange" where
  "ByteRange_assign b = (if br_isFullRange b then ByteRange_Reset
     else \<lparr>br_location = br_location b, br_length = br_length b, br_isFullRange = False\<rparr>)"

section \<open>Contexts\<close>

text \<open>
  The part of a \<^verbatim>\<open>RangeFilterContext\<close>: a temporary buffer, the requested range, and whether the pointer
  to the input stream is set.  The pointer only ever holds the input of the stream that calls the filter.
\<close>

record RangeFilterContext =
  rc_buffer :: "byte list option"
  rc_buffer_size :: nat
  rc_allocated_buffer_size :: nat
  rc_byteRange :: ByteRange
  rc_byteStream :: bool

definition new_RangeFilterContext :: RangeFilterContext where
  "new_RangeFilterContext = \<lparr>rc_buffer = None, rc_buffer_size = 0, rc_allocated_buffer_size = 0,
     rc_byteRange = ByteRange_Reset, rc_byteStream = False\<rparr>"

definition DestroyCurrentTemporaryByteBuffer :: "RangeFilterContext \<Rightarrow> RangeFilterContext" where
  "DestroyCurrentTemporaryByteBuffer c =
     c\<lparr>rc_buffer := None, rc_buffer_size := 0, rc_allocated_buffer_size := 0\<rparr>"

text \<open>A new block has arbitrary content, \<open>junk\<close>; the loop then clears the block.\<close>

definition grow_temporary :: "(nat \<Rightarrow> byte) \<Rightarrow> RangeFilterContext \<Rightarrow> nat \<Rightarrow> RangeFilterContext" where
  "grow_temporary junk c n =
     (if rc_buffer c = None \<or> rc_buffer_size c < n
      then (if rc_buffer c = None then c else DestroyCurrentTemporaryByteBuffer c)
             \<lparr>rc_buffer := Some (map junk [0 ..< n]), rc_allocated_buffer_size := n\<rparr>
      else c)"

definition clear_temporary :: "byte list \<Rightarrow> nat \<Rightarrow> byte list cxx" where
  "clear_temporary b n = must (mem_store b 0 (replicate n 0))"

definition GetAllocateTemporaryByteBuffer ::
  "(nat \<Rightarrow> byte) \<Rightarrow> RangeFilterContext \<Rightarrow> nat \<Rightarrow> (byte list \<times> RangeFilterContext) cxx" where
  "GetAllocateTemporaryByteBuffer junk c n =
     (let c1 = grow_temporary junk c n in
      bind_cxx (must (rc_buffer c1)) (\<lambda>b.
      bind_cxx (clear_temporary b (rc_allocated_buffer_size c1)) (\<lambda>b'.
        Inr (b', c1\<lparr>rc_buffer := Some b', rc_buffer_size := n\<rparr>))))"

definition rc_ok :: "RangeFilterContext \<Rightarrow> bool" where
  "rc_ok c \<longleftrightarrow> (case rc_buffer c of None \<Rightarrow> rc_buffer_size c = 0 \<and> rc_allocated_buffer_size c = 0
     | Some b \<Rightarrow> length b = rc_allocated_buffer_size c \<and> rc_buffer_size c \<le> rc_allocated_buffer_size c)"

lemma mem_store_all: "length b = n \<Longrightarrow> mem_store b 0 (replicate n v) = Some (replicate n v)"
  by (simp add: mem_store_def)

lemma GetAllocateTemporaryByteBuffer_ok:
  assumes "rc_ok c"
  shows "\<exists>k c'. n \<le> k \<and> GetAllocateTemporaryByteBuffer junk c n = Inr (replicate k 0, c') \<and> rc_ok c' \<and>
    rc_buffer c' = Some (replicate k 0) \<and> rc_byteRange c' = rc_byteRange c \<and> rc_byteStream c' = rc_byteStream c"
proof (cases "rc_buffer c = None \<or> rc_buffer_size c < n")
  case True
  then show ?thesis
    by (intro exI [of _ n] exI [of _ "(grow_temporary junk c n)\<lparr>rc_buffer := Some (replicate n 0), rc_buffer_size := n\<rparr>"])
      (auto simp: GetAllocateTemporaryByteBuffer_def grow_temporary_def clear_temporary_def mem_store_all rc_ok_def
        DestroyCurrentTemporaryByteBuffer_def)
next
  case False
  with assms obtain b where b: "rc_buffer c = Some b" "length b = rc_allocated_buffer_size c"
      "rc_buffer_size c \<le> rc_allocated_buffer_size c" "n \<le> rc_buffer_size c"
    by (auto simp: rc_ok_def)
  then show ?thesis
    by (intro exI [of _ "rc_allocated_buffer_size c"]
        exI [of _ "c\<lparr>rc_buffer := Some (replicate (rc_allocated_buffer_size c) 0), rc_buffer_size := n\<rparr>"])
      (simp add: GetAllocateTemporaryByteBuffer_def grow_temporary_def clear_temporary_def mem_store_all rc_ok_def)
qed

text \<open>A context and the class it belongs to; \<open>fc_range\<close> is there when the class extends \<^verbatim>\<open>RangeFilterContext\<close>.\<close>

datatype 'c context_class = FontObfuscationContext nat | PassThroughContext | OtherContext 'c

record 'c FilterContext =
  fc_class :: "'c context_class"
  fc_range :: "RangeFilterContext option"

section \<open>The interface\<close>

datatype OperatingMode = Standard | RequiresCompleteData | SupportsByteRanges

text \<open>
  What \<^verbatim>\<open>FilterData\<close> returns, with \<^verbatim>\<open>outputLen\<close>: no block, the block it was given (its content
  afterwards), the temporary buffer of its context, or a block of its own.
\<close>

datatype filter_result =
  Null
| In_place "byte list" nat
| Temporary nat
| New_block "byte list" nat

record ('i, 'c, 's) ContentFilter =
  TypeSniffer :: "'i \<Rightarrow> bool"
  GetOperatingMode :: OperatingMode
  cf_BytesAvailable :: "'s \<Rightarrow> nat"
  InnerMakeFilterContext :: "'i \<Rightarrow> 'c FilterContext option"
  FilterData :: "'c FilterContext option \<Rightarrow> 's \<Rightarrow> byte list option \<Rightarrow>
    (filter_result \<times> 'c FilterContext option \<times> 's) run"

definition is_range_context :: "'c FilterContext option \<Rightarrow> bool" where
  "is_range_context c = (case c of None \<Rightarrow> False | Some c \<Rightarrow> fc_range c \<noteq> None)"

definition MakeFilterContext :: "('i, 'c, 's) ContentFilter \<Rightarrow> 'i \<Rightarrow> 'c FilterContext option cxx" where
  "MakeFilterContext f item =
     (let c = InnerMakeFilterContext f item in
      if c \<noteq> None \<and> GetOperatingMode f = SupportsByteRanges \<and> \<not> is_range_context c
      then Inl (Throws (Logic_error
        ''A ContentFilter object that supports byte ranges should only make RangeFilterContext objects.''))
      else Inr c)"

definition MustAccessRawBytes :: u32 where "MustAccessRawBytes = 1000"
definition EPUBDecryption :: u32 where "EPUBDecryption = 750"
definition SwitchStaticHandling :: u32 where "SwitchStaticHandling = 500"
definition ObjectPreprocessing :: u32 where "ObjectPreprocessing = 250"
definition ValidationComplete :: u32 where "ValidationComplete = 100"

end
