(* ===== verification/Builtin_Filters.thy ===== *)
theory Builtin_Filters
  imports Content_Filter
begin

text \<open>
  The filters of the library that do not rest on regular-expression rewriting:
  \<^verbatim>\<open>font_obfuscation.{h,cpp}\<close> and \<^verbatim>\<open>PassThroughFilter.{h,cpp}\<close>.
\<close>

section \<open>Font obfuscation\<close>

text \<open>The loop of \<open>FilterData\<close>: \<open>count\<close> bytes of the resource have been processed before.\<close>

definition obfuscate :: "byte list \<Rightarrow> nat \<Rightarrow> byte list \<Rightarrow> byte list" where
  "obfuscate key count buf =
     map (\<lambda>i. if i + count < 1040 then buf ! i XOR key ! ((i + count) mod 20) else buf ! i) [0 ..< length buf]"

definition Font_FilterData ::
  "byte list \<Rightarrow> 'c FilterContext option \<Rightarrow> 's \<Rightarrow> byte list option \<Rightarrow>
   (filter_result \<times> 'c FilterContext option \<times> 's) run" where
  "Font_FilterData key ctx s data =
     (case ctx of
        Some c \<Rightarrow>
          (case fc_class c of
             FontObfuscationContext count \<Rightarrow>
               Some (Inr (case data of
                   None \<Rightarrow> (Null, Some c, s)
                 | Some buf \<Rightarrow> (In_place (obfuscate key count buf) (length buf),
                     Some (c\<lparr>fc_class := FontObfuscationContext (count + length buf)\<rparr>), s)))
           | _ \<Rightarrow> Some (Inl Undefined))
      | None \<Rightarrow> Some (Inl Undefined))"

text \<open>Blanks as \<^verbatim>\<open>\s\<close> of the regular expressions has them; the dot does not match a line end.\<close>

definition is_blank :: "byte \<Rightarrow> bool" where
  "is_blank b \<longleftrightarrow> b \<in> {0x20, 0x09, 0x0a, 0x0b, 0x0c, 0x0d}"

fun key_text :: "byte list \<Rightarrow> byte list list \<Rightarrow> byte list" where
  "key_text ss [] = ss"
| "key_text ss (pid # ids) =
     key_text (ss @ (if length ss > 0 then [0x20] else []) @ filter (\<lambda>b. \<not> is_blank b) pid) ids"

text \<open>\<open>sha1\<close> is the digest function of the platform; the key has the identifiers of all packages.\<close>

definition BuildKey :: "(byte list \<Rightarrow> byte list) \<Rightarrow> byte list list \<Rightarrow> byte list" where
  "BuildKey sha1 ids = sha1 (key_text [] ids)"

definition FontObfuscationAlgorithmID :: string where
  "FontObfuscationAlgorithmID = ''http://www.idpf.org/2008/embedding''"

definition no_line_end :: "string \<Rightarrow> bool" where
  "no_line_end s \<longleftrightarrow> list_all (\<lambda>c. c \<noteq> CHR 0x0a \<and> c \<noteq> CHR 0x0d) s"

definition starts :: "string \<Rightarrow> string \<Rightarrow> bool" where
  "starts p s \<longleftrightarrow> take (length p) s = p"

text \<open>The pattern \<open>TypeCheck\<close>; the unescaped dot of \<^verbatim>\<open>vnd.ms-\<close> stands for one character.\<close>

definition vnd_ms :: "string \<Rightarrow> bool" where
  "vnd_ms s \<longleftrightarrow> starts ''vnd'' s \<and> no_line_end (take 1 (drop 3 s)) \<and>
     drop 4 s \<in> {''ms-opentype'', ''ms-fontobject''}"

definition TypeCheck :: "string \<Rightarrow> bool" where
  "TypeCheck s \<longleftrightarrow>
     starts ''font/'' s \<and> no_line_end (drop 5 s) \<or>
     starts ''application/'' s \<and>
       (let t = drop 12 s in
        starts ''x-font-'' t \<and> no_line_end (drop 7 t) \<or> starts ''font-'' t \<and> no_line_end (drop 5 t) \<or> vnd_ms t)"

text \<open>What the sniffers look at of a manifest item: the algorithm of its encryption information and its type.\<close>

record item_view =
  iv_algorithm :: "string option"
  iv_mediaType :: string

definition FontTypeSniffer :: "item_view \<Rightarrow> bool" where
  "FontTypeSniffer item \<longleftrightarrow>
     (case iv_algorithm item of None \<Rightarrow> False
      | Some a \<Rightarrow> a = FontObfuscationAlgorithmID \<and> TypeCheck (iv_mediaType item))"

definition FontObfuscator :: "byte list \<Rightarrow> ('s \<Rightarrow> nat) \<Rightarrow> (item_view, 'c, 's) ContentFilter" where
  "FontObfuscator key avail = \<lparr>TypeSniffer = FontTypeSniffer, GetOperatingMode = Standard, cf_BytesAvailable = avail,
     InnerMakeFilterContext = (\<lambda>_. Some \<lparr>fc_class = FontObfuscationContext 0, fc_range = None\<rparr>),
     FilterData = Font_FilterData key\<rparr>"

text \<open>The factory: the algorithms of the container's encryption data and the package identifiers.\<close>

definition FontObfuscatorFactory ::
  "(byte list \<Rightarrow> byte list) \<Rightarrow> ('s \<Rightarrow> nat) \<Rightarrow> string list \<Rightarrow> byte list list \<Rightarrow> (item_view, 'c, 's) ContentFilter option" where
  "FontObfuscatorFactory sha1 avail algorithms ids =
     (if list_ex (\<lambda>a. a = FontObfuscationAlgorithmID) algorithms
      then Some (FontObfuscator (BuildKey sha1 ids) avail) else None)"

section \<open>The pass-through filter\<close>

definition range_request :: "'s SeekableByteStream \<Rightarrow> ByteRange \<Rightarrow> 's \<Rightarrow> (nat \<times> 's) run" where
  "range_request ops r s =
     (if \<not> br_isFullRange r
      then bind_run (s_Seek ops s (unat (br_location r)) Seek_beg) (\<lambda>(_, s). Some (Inr (unat (br_length r), s)))
      else bind_run (s_Seek ops s 0 Seek_beg) (\<lambda>(_, s). Some (Inr (s_BytesAvailable ops s, s))))"

text \<open>Reading into the start of the temporary buffer.\<close>

definition read_temporary ::
  "'s SeekableByteStream \<Rightarrow> (nat \<Rightarrow> byte) \<Rightarrow> RangeFilterContext \<Rightarrow> nat \<Rightarrow> 's \<Rightarrow> (nat \<times> RangeFilterContext \<times> 's) run" where
  "read_temporary ops junk rc n s =
     bind_run (Some (GetAllocateTemporaryByteBuffer junk rc n)) (\<lambda>(b, rc).
     bind_run (s_ReadBytes ops s n) (\<lambda>(bs, s).
     bind_run (Some (must (mem_store b 0 bs))) (\<lambda>b'.
       Some (Inr (length bs, rc\<lparr>rc_buffer := Some b'\<rparr>, s)))))"

definition as_PassThroughContext :: "'c FilterContext option \<Rightarrow> RangeFilterContext option" where
  "as_PassThroughContext ctx =
     (case ctx of None \<Rightarrow> None
      | Some c \<Rightarrow> (case fc_class c of PassThroughContext \<Rightarrow> fc_range c | _ \<Rightarrow> None))"

definition PassThrough_FilterData ::
  "'s SeekableByteStream \<Rightarrow> (nat \<Rightarrow> byte) \<Rightarrow> 'c FilterContext option \<Rightarrow> 's \<Rightarrow> byte list option \<Rightarrow>
   (filter_result \<times> 'c FilterContext option \<times> 's) run" where
  "PassThrough_FilterData ops junk ctx s data =
     (case as_PassThroughContext ctx of
        None \<Rightarrow> Some (Inr (Null, ctx, s))
      | Some rc \<Rightarrow>
          if \<not> rc_byteStream rc
          then Some (Inr (case data of None \<Rightarrow> Null | Some buf \<Rightarrow> In_place buf (length buf), ctx, s))
          else if \<not> s_IsOpen ops s then Some (Inr (Null, ctx, s))
          else bind_run (range_request ops (rc_byteRange rc) s) (\<lambda>(bytesToRead, s).
            if bytesToRead = 0 then Some (Inr (Null, ctx, s))
            else bind_run (read_temporary ops junk rc bytesToRead s) (\<lambda>(readBytes, rc, s).
              Some (Inr (Temporary readBytes, Some \<lparr>fc_class = PassThroughContext, fc_range = Some rc\<rparr>, s)))))"

definition SniffPassThroughContent :: "'i \<Rightarrow> bool" where
  "SniffPassThroughContent item = False"

definition PassThroughFilter ::
  "'s SeekableByteStream \<Rightarrow> (nat \<Rightarrow> byte) \<Rightarrow> ('i, 'c, 's) ContentFilter" where
  "PassThroughFilter ops junk = \<lparr>TypeSniffer = SniffPassThroughContent, GetOperatingMode = SupportsByteRanges,
     cf_BytesAvailable = s_BytesAvailable ops,
     InnerMakeFilterContext = (\<lambda>_. Some \<lparr>fc_class = PassThroughContext, fc_range = Some new_RangeFilterContext\<rparr>),
     FilterData = PassThrough_FilterData ops junk\<rparr>"

section \<open>Obfuscation of a whole resource\<close>

text \<open>The specification: the first 1040 bytes are combined with the key, the others are kept.\<close>

definition key_byte :: "byte list \<Rightarrow> nat \<Rightarrow> byte" where
  "key_byte key p = (if p < 1040 then key ! (p mod 20) else 0)"

lemma obfuscate_nth: "i < length buf \<Longrightarrow> obfuscate key count buf ! i = buf ! i XOR key_byte key (count + i)"
  by (simp add: obfuscate_def key_byte_def add.commute)

lemma length_obfuscate [simp]: "length (obfuscate key count buf) = length buf"
  by (simp add: obfuscate_def)

lemma obfuscate_append:
  "obfuscate key count (xs @ ys) = obfuscate key count xs @ obfuscate key (count + length xs) ys"
  by (rule nth_equalityI) (auto simp: obfuscate_nth nth_append add.assoc)

lemma obfuscate_twice: "obfuscate key count (obfuscate key count xs) = xs"
  by (rule nth_equalityI) (simp_all add: obfuscate_nth xor.assoc)

text \<open>Feeding a resource to the filter in pieces, with the context it has.\<close>

fun feed_font ::
  "byte list \<Rightarrow> 'c FilterContext option \<Rightarrow> 's \<Rightarrow> byte list list \<Rightarrow> (byte list \<times> 'c FilterContext option \<times> 's) run" where
  "feed_font key ctx s [] = Some (Inr ([], ctx, s))"
| "feed_font key ctx s (d # ds) =
     bind_run (Font_FilterData key ctx s (Some d)) (\<lambda>(r, ctx, s).
       case r of
         In_place xs n \<Rightarrow> bind_run (feed_font key ctx s ds) (\<lambda>(ys, ctx, s). Some (Inr (take n xs @ ys, ctx, s)))
       | _ \<Rightarrow> Some (Inl Undefined))"

lemma feed_font_concat:
  "feed_font key (Some \<lparr>fc_class = FontObfuscationContext count, fc_range = rng\<rparr>) s ds =
     Some (Inr (obfuscate key count (concat ds),
       Some \<lparr>fc_class = FontObfuscationContext (count + length (concat ds)), fc_range = rng\<rparr>, s))"
  by (induction ds arbitrary: count) (simp_all add: Font_FilterData_def obfuscate_append add.assoc, simp add: obfuscate_def)

section \<open>Properties\<close>

text \<open>C8: font obfuscation does not depend on how the resource is cut into pieces: whatever the pieces, a new context
  gives the resource with byte \<open>i\<close> combined with byte \<open>i mod 20\<close> of the key for \<open>i < 1040\<close> and with no
  change behind that; and feeding the result, cut in any other way, to the filter with another
  new context gives the resource back, as the class promises.\<close>

theorem font_obfuscation_involution:
  fixes s :: 's
  assumes "concat es = obfuscate key 0 (concat ds)"
    and "new = InnerMakeFilterContext (FontObfuscator key avail :: (item_view, 'c, 's) ContentFilter) item"
  shows "(\<exists>c. feed_font key new s ds = Some (Inr (concat es, c, s))) \<and>
    (\<exists>c. feed_font key new s es = Some (Inr (concat ds, c, s))) \<and>
    (\<forall>i < length (concat ds). concat es ! i =
      (if i < 1040 then concat ds ! i XOR key ! (i mod 20) else concat ds ! i))"
  using assms by (simp add: FontObfuscator_def feed_font_concat obfuscate_twice obfuscate_nth key_byte_def)

definition sample_key :: "byte list" where
  "sample_key = map of_nat [1 ..< 21]"

theorem font_obfuscation_involution_witness:
  "(\<exists>c. feed_font sample_key (Some \<lparr>fc_class = FontObfuscationContext 0, fc_range = None\<rparr> :: unit FilterContext option) ()
      [[7], [8, 9]] = Some (Inr ([6, 10, 10], c, ()))) \<and>
   (\<exists>c. feed_font sample_key (Some \<lparr>fc_class = FontObfuscationContext 0, fc_range = None\<rparr> :: unit FilterContext option) ()
      [[6, 10, 10]] = Some (Inr ([7, 8, 9], c, ())))"
proof -
  have "concat [[6, 10, 10]] = obfuscate sample_key 0 (concat [[7], [8, 9]])"
    by code_simp
  from font_obfuscation_involution [where ?'c = unit, OF this refl, of "\<lambda>_. 0" "\<lparr>iv_algorithm = None, iv_mediaType = []\<rparr>" "()"] show ?thesis
    by (simp add: FontObfuscator_def del: feed_font.simps)
qed

end
