(* ===== verification/Filter_Manager.thy ===== *)
theory Filter_Manager
  imports Builtin_Filters
begin

text \<open>
  The registry of filters: \<^verbatim>\<open>FilterManager::Record\<close> and its order (\<^verbatim>\<open>filter_manager.h\<close>), the set of
  registered filters (\<^verbatim>\<open>filter_manager_impl.cpp\<close>) and the filters the library registers
  (\<^verbatim>\<open>initialization.cpp\<close>).  A \<^verbatim>\<open>std::set\<close> is the list of its elements in its order.
\<close>

section \<open>Records and the registry\<close>

record ('p, 'f) Record =
  r_name :: string
  r_priority :: u32
  r_factory :: "'p \<Rightarrow> 'f option"

definition Record_less :: "('p, 'f) Record \<Rightarrow> ('p, 'f) Record \<Rightarrow> bool" where
  "Record_less a b \<longleftrightarrow> r_priority a < r_priority b"

definition Record_eq :: "('p, 'f) Record \<Rightarrow> ('p, 'f) Record \<Rightarrow> bool" where
  "Record_eq a b \<longleftrightarrow> r_priority a = r_priority b \<and> r_name a = r_name b"

definition CreateFilter :: "('p, 'f) Record \<Rightarrow> 'p \<Rightarrow> 'f option" where
  "CreateFilter r package = r_factory r package"

definition PriorityOrderHighToLow :: "('p, 'f) Record \<Rightarrow> ('p, 'f) Record \<Rightarrow> bool" where
  "PriorityOrderHighToLow a b \<longleftrightarrow> Record_less b a"

text \<open>\<open>std::set::emplace\<close>: an element equivalent to one of the set is dropped.\<close>

fun set_emplace :: "('a \<Rightarrow> 'a \<Rightarrow> bool) \<Rightarrow> 'a \<Rightarrow> 'a list \<Rightarrow> 'a list" where
  "set_emplace before r [] = [r]"
| "set_emplace before r (x # xs) =
     (if before r x then r # x # xs else if before x r then x # set_emplace before r xs else x # xs)"

definition RegisterFilter ::
  "string \<Rightarrow> u32 \<Rightarrow> ('p \<Rightarrow> 'f option) \<Rightarrow> ('p, 'f) Record list \<Rightarrow> ('p, 'f) Record list" where
  "RegisterFilter name priority factory m =
     set_emplace PriorityOrderHighToLow \<lparr>r_name = name, r_priority = priority, r_factory = factory\<rparr> m"

fun GetFilterByName :: "string \<Rightarrow> 'p \<Rightarrow> ('p, 'f) Record list \<Rightarrow> 'f option" where
  "GetFilterByName name package [] = None"
| "GetFilterByName name package (item # items) =
     (if r_name item = name then CreateFilter item package else GetFilterByName name package items)"

fun BuildFilterChainForPackage :: "'p \<Rightarrow> ('p, 'f) Record list \<Rightarrow> 'f list" where
  "BuildFilterChainForPackage package [] = []"
| "BuildFilterChainForPackage package (r # rs) =
     (case CreateFilter r package of
        Some f \<Rightarrow> f # BuildFilterChainForPackage package rs
      | None \<Rightarrow> BuildFilterChainForPackage package rs)"

text \<open>\<open>PopulateFilterManager\<close>, given the factories of the three filters it registers.\<close>

definition PopulateFilterManager ::
  "('p \<Rightarrow> 'f option) \<Rightarrow> ('p \<Rightarrow> 'f option) \<Rightarrow> ('p \<Rightarrow> 'f option) \<Rightarrow> ('p, 'f) Record list \<Rightarrow> ('p, 'f) Record list" where
  "PopulateFilterManager font switch object m =
     RegisterFilter ''ObjectPreprocessor'' ObjectPreprocessing object
       (RegisterFilter ''SwitchPreprocessor'' SwitchStaticHandling switch
         (RegisterFilter ''FontObfuscator'' EPUBDecryption font m))"

section \<open>What the registry keeps\<close>

fun register_all :: "(string \<times> u32 \<times> ('p \<Rightarrow> 'f option)) list \<Rightarrow> ('p, 'f) Record list \<Rightarrow> ('p, 'f) Record list" where
  "register_all [] m = m"
| "register_all ((name, priority, factory) # rs) m = register_all rs (RegisterFilter name priority factory m)"

definition high_to_low :: "('p, 'f) Record list \<Rightarrow> bool" where
  "high_to_low m \<longleftrightarrow> sorted_wrt (\<lambda>a b. r_priority b < r_priority a) m"

definition as_record :: "string \<times> u32 \<times> ('p \<Rightarrow> 'f option) \<Rightarrow> ('p, 'f) Record" where
  "as_record x = (case x of (n, p, f) \<Rightarrow> \<lparr>r_name = n, r_priority = p, r_factory = f\<rparr>)"

text \<open>The record that a sequence of registrations leaves for a priority.\<close>

definition first_with :: "u32 \<Rightarrow> ('p, 'f) Record list \<Rightarrow> ('p, 'f) Record option" where
  "first_with p rs = find (\<lambda>r. r_priority r = p) rs"

lemma before_iff: "PriorityOrderHighToLow a b \<longleftrightarrow> r_priority b < r_priority a"
  by (simp add: PriorityOrderHighToLow_def Record_less_def)

lemma emplace_Cons:
  "set_emplace PriorityOrderHighToLow r (x # m) =
     (if r_priority x < r_priority r then r # x # m
      else if r_priority r < r_priority x then x # set_emplace PriorityOrderHighToLow r m else x # m)"
  unfolding set_emplace.simps before_iff [of r x] before_iff [of x r] ..

lemma set_emplace_set:
  "high_to_low m \<Longrightarrow> set (set_emplace PriorityOrderHighToLow r m) =
     (if \<exists>x \<in> set m. r_priority x = r_priority r then set m else insert r (set m))"
  by (induction m) (auto simp: emplace_Cons high_to_low_def simp del: set_emplace.simps(2))

lemma set_emplace_sorted: "high_to_low m \<Longrightarrow> high_to_low (set_emplace PriorityOrderHighToLow r m)"
proof (induction m)
  case (Cons x m)
  then have m: "high_to_low m" "\<forall>y \<in> set m. r_priority y < r_priority x" by (simp_all add: high_to_low_def)
  have "high_to_low (set_emplace PriorityOrderHighToLow r m)" using Cons.IH m(1) .
  moreover have "\<forall>y \<in> set (set_emplace PriorityOrderHighToLow r m). y = r \<or> r_priority y < r_priority x"
    using m by (simp add: set_emplace_set)
  ultimately show ?case using m
    by (auto simp: high_to_low_def emplace_Cons simp del: set_emplace.simps dest: less_trans)
qed (simp add: high_to_low_def)

lemma high_to_low_same_priority:
  assumes "high_to_low m" and "a \<in> set m" and "b \<in> set m" and "r_priority a = r_priority b"
  shows "a = b"
  using assms by (induction m) (auto simp: high_to_low_def)

text \<open>The state after some registrations, read off the sequence of registrations.\<close>

definition registry_of :: "('p, 'f) Record list \<Rightarrow> ('p, 'f) Record list \<Rightarrow> bool" where
  "registry_of rs m \<longleftrightarrow> high_to_low m \<and> (\<forall>r. r \<in> set m \<longleftrightarrow> first_with (r_priority r) rs = Some r)"

lemma first_with_append:
  "first_with p (rs @ [r]) = (case first_with p rs of None \<Rightarrow> if r_priority r = p then Some r else None | Some x \<Rightarrow> Some x)"
  by (induction rs) (auto simp: first_with_def)

lemma first_with_priority: "first_with p rs = Some r \<Longrightarrow> r_priority r = p"
  by (auto simp: first_with_def find_Some_iff)

lemma RegisterFilter_registry:
  assumes "registry_of rs m"
  shows "registry_of (rs @ [as_record (n, p, f)]) (RegisterFilter n p f m)"
proof -
  let ?r = "as_record (n, p, f)"
  have s: "high_to_low m" and mem: "\<And>r. r \<in> set m \<longleftrightarrow> first_with (r_priority r) rs = Some r"
    using assms by (simp_all add: registry_of_def)
  have reg: "RegisterFilter n p f m = set_emplace PriorityOrderHighToLow ?r m"
    by (simp add: RegisterFilter_def as_record_def)
  have there: "(\<exists>x \<in> set m. r_priority x = r_priority ?r) \<longleftrightarrow> first_with (r_priority ?r) rs \<noteq> None"
  proof
    assume "first_with (r_priority ?r) rs \<noteq> None"
    then obtain x where "first_with (r_priority ?r) rs = Some x" by blast
    with first_with_priority [OF this] mem [of x] show "\<exists>x \<in> set m. r_priority x = r_priority ?r" by auto
  qed (auto simp: mem)
  have "r \<in> set (RegisterFilter n p f m) \<longleftrightarrow> first_with (r_priority r) (rs @ [?r]) = Some r" for r
    unfolding reg set_emplace_set [OF s] there first_with_append using mem [of r]
    by (auto split: option.splits)
  then show ?thesis unfolding registry_of_def reg using set_emplace_sorted [OF s] by blast
qed

lemma register_all_registry:
  "registry_of rs m \<Longrightarrow> registry_of (rs @ map as_record xs) (register_all xs m)"
proof (induction xs arbitrary: rs m)
  case (Cons x xs)
  obtain n p f where x: "x = (n, p, f)" by (cases x)
  from Cons.IH [OF RegisterFilter_registry [OF Cons.prems, of n p f]] show ?case by (simp add: x)
qed simp

lemma BuildFilterChain_map_filter:
  "BuildFilterChainForPackage package m = List.map_filter (\<lambda>r. r_factory r package) m"
  by (induction m) (auto simp: CreateFilter_def List.map_filter_def split: option.splits)

lemma distinct_of_sorted: "sorted_wrt (\<lambda>a b. r_priority b < r_priority a) m \<Longrightarrow> distinct m"
  by (induction m) auto

lemma find_distinct_key:
  assumes "distinct (map g xs)" and "x \<in> set xs"
  shows "find (\<lambda>y. g y = g x) xs = Some x"
  using assms by (induction xs) (auto simp: rev_image_eqI)

lemma registry_after:
  "registry_of (map as_record xs) (register_all xs [])"
  using register_all_registry [of "[]" "[]" xs] by (simp add: registry_of_def high_to_low_def first_with_def)

text \<open>When no two registrations have the same priority, nothing is lost.\<close>

lemma register_all_set:
  assumes "distinct (map (\<lambda>(name, priority, factory). priority) xs)"
  shows "set (register_all xs []) = as_record ` set xs"
proof -
  have "map r_priority (map as_record xs) = map (\<lambda>(name, priority, factory). priority) xs"
    by (simp add: as_record_def case_prod_beta')
  with assms have d: "distinct (map r_priority (map as_record xs))" by argo
  have "r \<in> set (register_all xs []) \<longleftrightarrow> r \<in> as_record ` set xs" for r
    using registry_after [of xs] find_distinct_key [OF d]
    by (auto simp: registry_of_def first_with_def find_Some_iff)
  then show ?thesis by blast
qed

section \<open>Properties\<close>

text \<open>The filters of a package run from the highest to the lowest priority, and none replaces another: after any
  sequence of registrations with pairwise different priorities, in whatever order they were made, the registry holds
  exactly the registered filters, and the chain built for a package consists of what their factories
  return for the package, in strictly decreasing order of priority.\<close>

theorem filter_chain_by_priority:
  assumes "distinct (map (\<lambda>(name, priority, factory). priority) xs)"
  shows "\<exists>m. register_all xs [] = m \<and>
     BuildFilterChainForPackage package m = List.map_filter (\<lambda>r. r_factory r package) m \<and>
     sorted_wrt (\<lambda>a b. r_priority b < r_priority a) m \<and>
     set m = (\<lambda>(name, priority, factory). \<lparr>r_name = name, r_priority = priority, r_factory = factory\<rparr>) ` set xs \<and>
     length m = length xs"
proof -
  let ?m = "register_all xs []"
  have s: "sorted_wrt (\<lambda>a b. r_priority b < r_priority a) ?m"
    using registry_after [of xs] by (simp add: registry_of_def high_to_low_def)
  have e: "set ?m = as_record ` set xs" by (rule register_all_set [OF assms])
  have "inj_on as_record (set xs)" by (auto simp: inj_on_def as_record_def)
  moreover have "distinct xs" using assms by (simp add: distinct_map)
  ultimately have "length ?m = length xs"
    using e distinct_card [OF distinct_of_sorted [OF s]] by (simp add: card_image distinct_card)
  with s e show ?thesis by (simp add: BuildFilterChain_map_filter as_record_def)
qed

theorem filter_chain_by_priority_witness:
  "BuildFilterChainForPackage (0 :: nat) (register_all [(''low'', 100, \<lambda>p. Some p), (''high'', 750, \<lambda>p. Some (p + 1))] []) =
     [1, 0]"
proof -
  let ?xs = "[(''low'', 100, \<lambda>p. Some p), (''high'', 750, \<lambda>p. Some (p + 1))] ::
    (string \<times> u32 \<times> (nat \<Rightarrow> nat option)) list"
  obtain m where m: "register_all ?xs [] = m"
    "BuildFilterChainForPackage 0 m = List.map_filter (\<lambda>r. r_factory r 0) m"
    "sorted_wrt (\<lambda>a b. r_priority b < r_priority a) m"
    "set m = {\<lparr>r_name = ''low'', r_priority = 100, r_factory = \<lambda>p. Some p\<rparr>,
      \<lparr>r_name = ''high'', r_priority = 750, r_factory = \<lambda>p. Some (p + 1)\<rparr>}" "length m = 2"
    using filter_chain_by_priority [of ?xs 0] by auto
  from m(5) obtain a b where ab: "m = [a, b]" by (auto simp: length_Suc_conv eval_nat_numeral)
  with m(3,4) have "a = \<lparr>r_name = ''high'', r_priority = 750, r_factory = \<lambda>p. Some (p + 1)\<rparr>"
    "b = \<lparr>r_name = ''low'', r_priority = 100, r_factory = \<lambda>p. Some p\<rparr>"
    by (auto simp: doubleton_eq_iff)
  with m(1,2) ab show ?thesis by (simp add: List.map_filter_def)
qed

section \<open>Where the code departs from its comments\<close>

text \<open>A filter whose priority is already taken is dropped without notice: for each priority the registry keeps the first
  registration.  The comment of \<^verbatim>\<open>filter.h\<close> says that a later filter does not replace
  an earlier one and that the filters run in the reverse order of their installation.\<close>

lemma same_priority_dropped:
  "r \<in> set (register_all xs []) \<longleftrightarrow> find (\<lambda>x. r_priority x = r_priority r) (map as_record xs) = Some r"
  using registry_after [of xs] by (simp add: registry_of_def first_with_def)

lemma PopulateFilterManager_chain:
  "BuildFilterChainForPackage package (PopulateFilterManager font switch object []) =
     List.map_filter (\<lambda>f. f package) [font, switch, object]"
  by (simp add: PopulateFilterManager_def RegisterFilter_def emplace_Cons
    EPUBDecryption_def SwitchStaticHandling_def ObjectPreprocessing_def BuildFilterChain_map_filter List.map_filter_def
    del: set_emplace.simps(2))

end
