(* ===== verification/Filter_Chain.thy ===== *)
theory Filter_Chain
  imports Filter_Manager
begin

text \<open>
  Streams of filtered content: \<^verbatim>\<open>filter_chain_byte_stream.{h,cpp}\<close> reads a resource through all filters
  that apply, \<^verbatim>\<open>filter_chain_byte_stream_range.{h,cpp}\<close> reads ranges of it through one, and
  \<^verbatim>\<open>filter_chain.cpp\<close> chooses the filters and makes the streams.

  The input of a chain is any table of stream operations \<open>ops\<close> with its state.  \<open>env\<close> is the
  allocator of the byte buffers and \<open>g\<close> the value of the member \<^verbatim>\<open>m_secure\<close> that their constructors leave
  unset.
\<close>

section \<open>The filtered stream\<close>

record ('i, 'c, 's) FilterChainByteStream =
  f_input :: 's
  m_filters :: "('i, 'c, 's) ContentFilter list"
  m_filterContexts :: "'c FilterContext option list"
  needs_cache :: bool
  cache :: ByteBuffer
  read_cache :: ByteBuffer
  cacheHasBeenFilledUp :: bool

fun make_contexts :: "('i, 'c, 's) ContentFilter list \<Rightarrow> 'i \<Rightarrow> 'c FilterContext option list cxx" where
  "make_contexts [] item = Inr []"
| "make_contexts (f # fs) item =
     bind_cxx (MakeFilterContext f item) (\<lambda>c. bind_cxx (make_contexts fs item) (\<lambda>cs. Inr (c # cs)))"

definition new_FilterChainByteStream ::
  "'s \<Rightarrow> ('i, 'c, 's) ContentFilter list \<Rightarrow> 'i \<Rightarrow> ('i, 'c, 's) FilterChainByteStream cxx" where
  "new_FilterChainByteStream input fs item =
     bind_cxx (make_contexts fs item) (\<lambda>cs.
       Inr \<lparr>f_input = input, m_filters = fs, m_filterContexts = cs, needs_cache = True,
            cache = SetUsesSecureErasure (empty_ByteBuffer False) True,
            read_cache = SetUsesSecureErasure (empty_ByteBuffer False) True, cacheHasBeenFilledUp = False\<rparr>)"

subsection \<open>One filter of the chain\<close>

definition update_range :: "(RangeFilterContext \<Rightarrow> RangeFilterContext) \<Rightarrow> 'c FilterContext option \<Rightarrow> 'c FilterContext option" where
  "update_range u c = map_option (\<lambda>c. c\<lparr>fc_range := map_option u (fc_range c)\<rparr>) c"

text \<open>Lines 135 to 160: the range and the stream are handed to a range context; the stream position is kept.\<close>

definition chunk_range :: "nat \<Rightarrow> nat \<Rightarrow> ByteRange" where
  "chunk_range streamPos result =
     set_Length (set_Location ByteRange_Reset (of_nat streamPos - of_nat result)) (of_nat result)"

definition enter_range ::
  "'s SeekableByteStream \<Rightarrow> bool \<Rightarrow> 's \<Rightarrow> nat \<Rightarrow> 'c FilterContext option \<Rightarrow> (nat \<times> 'c FilterContext option) cxx" where
  "enter_range ops needs s result c =
     (if \<not> is_range_context c then Inr (0, c)
      else bind_cxx
        (if needs then Inr (0, ByteRange_Reset)
         else if \<not> s_IsOpen ops s then Inl (Throws (Logic_error ''ChainLinkProcessor: Byte stream not open?!''))
         else Inr (s_Position ops s, chunk_range (s_Position ops s) result))
        (\<lambda>(streamPos, r).
          Inr (streamPos, update_range (\<lambda>rc. rc\<lparr>rc_byteRange := ByteRange_assign r, rc_byteStream := True\<rparr>) c)))"

definition leave_range ::
  "'s SeekableByteStream \<Rightarrow> bool \<Rightarrow> bool \<Rightarrow> nat \<Rightarrow> 'c FilterContext option \<Rightarrow> 's \<Rightarrow> ('c FilterContext option \<times> 's) run" where
  "leave_range ops ranged needs streamPos c s =
     (if \<not> ranged then Some (Inr (c, s))
      else (let c = update_range (\<lambda>rc. rc\<lparr>rc_byteRange := ByteRange_Reset, rc_byteStream := False\<rparr>) c in
        if \<not> needs \<and> s_IsOpen ops s
        then bind_run (s_Seek ops s streamPos Seek_beg) (\<lambda>(_, s). Some (Inr (c, s)))
        else Some (Inr (c, s))))"

text \<open>The block and the number of bytes that a filter returned.\<close>

definition temporary_block :: "'c FilterContext option \<Rightarrow> byte list cxx" where
  "temporary_block c = (case c of None \<Rightarrow> Inl Undefined
     | Some c \<Rightarrow> (case fc_range c of None \<Rightarrow> Inl Undefined | Some rc \<Rightarrow> must (rc_buffer rc)))"

text \<open>A filter that worked in place has changed the content of the buffer, not its size.\<close>

definition in_place :: "ByteBuffer \<Rightarrow> byte list \<Rightarrow> ByteBuffer cxx" where
  "in_place buf m = (if length m = m_bufferSize buf
     then Inr (buf\<lparr>m_buffer := Some (m @ drop (length m) (bb_block buf))\<rparr>) else Inl Undefined)"

text \<open>Lines 188 to 226: \<open>None\<close> stands for the return with 0.\<close>

definition take_result ::
  "heap_env \<Rightarrow> bool \<Rightarrow> bool \<Rightarrow> 'c FilterContext option \<Rightarrow> ByteBuffer \<Rightarrow> filter_result \<Rightarrow> ByteBuffer option cxx" where
  "take_result env g ranged c buf r =
     (case r of
        Null \<Rightarrow> Inr None
      | In_place m n \<Rightarrow>
          if ranged then Inl Undefined
          else bind_cxx (in_place buf m) (\<lambda>buf.
            if n = 0 then Inr None
            else if n < m_bufferSize buf
            then bind_cxx (RemoveBytesAt buf (m_bufferSize buf - n) n) (\<lambda>b. Inr (Some b))
            else if n > m_bufferSize buf
            then bind_cxx (ByteBuffer_of_bytes env g (bb_block buf) n) (\<lambda>b. Inr (Some b))
            else Inr (Some buf))
      | Temporary n \<Rightarrow>
          bind_cxx (temporary_block c) (\<lambda>m.
            if n = 0 then Inr None else bind_cxx (ByteBuffer_of_bytes env g m n) (\<lambda>b. Inr (Some b)))
      | New_block m n \<Rightarrow>
          if n = 0 then Inr None else bind_cxx (ByteBuffer_of_bytes env g m n) (\<lambda>b. Inr (Some b)))"

definition filter_step ::
  "'s SeekableByteStream \<Rightarrow> heap_env \<Rightarrow> bool \<Rightarrow> bool \<Rightarrow> ('i, 'c, 's) ContentFilter \<Rightarrow> 'c FilterContext option \<Rightarrow>
   's \<Rightarrow> ByteBuffer \<Rightarrow> (ByteBuffer option \<times> 'c FilterContext option \<times> 's) run" where
  "filter_step ops env g needs f c s buf =
     (let ranged = is_range_context c in
      bind_run (Some (enter_range ops needs s (m_bufferSize buf) c)) (\<lambda>(streamPos, c).
      bind_run (FilterData f c s (if ranged then None else Some (bb_abs buf))) (\<lambda>(r, c, s).
      bind_run (leave_range ops ranged needs streamPos c s) (\<lambda>(c, s).
      bind_run (Some (take_result env g ranged c buf r)) (\<lambda>out. Some (Inr (out, c, s)))))))"

subsection \<open>Filtering, caching and reading\<close>

fun filter_loop ::
  "'s SeekableByteStream \<Rightarrow> heap_env \<Rightarrow> bool \<Rightarrow> bool \<Rightarrow> ('i, 'c, 's) ContentFilter list \<Rightarrow> 'c FilterContext option list \<Rightarrow>
   's \<Rightarrow> ByteBuffer \<Rightarrow> (ByteBuffer option \<times> 'c FilterContext option list \<times> 's) run" where
  "filter_loop ops env g needs [] cs s buf = Some (Inr (Some buf, cs, s))"
| "filter_loop ops env g needs (f # fs) [] s buf = Some (Inl (Throws (Out_of_range ''vector'')))"
| "filter_loop ops env g needs (f # fs) (c # cs) s buf =
     bind_run (filter_step ops env g needs f c s buf) (\<lambda>(out, c, s).
       case out of
         None \<Rightarrow> Some (Inr (None, c # cs, s))
       | Some buf \<Rightarrow> bind_run (filter_loop ops env g needs fs cs s buf) (\<lambda>(r, cs, s). Some (Inr (r, c # cs, s))))"

definition FilterBytes ::
  "'s SeekableByteStream \<Rightarrow> heap_env \<Rightarrow> bool \<Rightarrow> ('i, 'c, 's) FilterChainByteStream \<Rightarrow> byte list \<Rightarrow> nat \<Rightarrow>
   (nat \<times> ('i, 'c, 's) FilterChainByteStream) run" where
  "FilterBytes ops env g st bytes len =
     (if len = 0 then Some (Inr (0, st))
      else bind_run (Some (ByteBuffer_of_bytes env g bytes len)) (\<lambda>buf.
           bind_run (filter_loop ops env g (needs_cache st) (m_filters st) (m_filterContexts st) (f_input st)
                       (SetUsesSecureErasure buf True)) (\<lambda>(r, cs, s).
             let st = st\<lparr>m_filterContexts := cs, f_input := s\<rparr> in
             case r of
               None \<Rightarrow> Some (Inr (0, st))
             | Some buf \<Rightarrow> Some (Inr (m_bufferSize buf, st\<lparr>read_cache := fst (ByteBuffer_move_assign (read_cache st) buf)\<rparr>)))))"

definition ReadBytesFromCache ::
  "('i, 'c, 's) FilterChainByteStream \<Rightarrow> nat \<Rightarrow> (byte list \<times> ('i, 'c, 's) FilterChainByteStream) cxx" where
  "ReadBytesFromCache st len =
     (if len = 0 then Inr ([], st)
      else (let numToRead = min len (m_bufferSize (cache st)) in
        bind_cxx (must (mem_load (bb_block (cache st)) 0 numToRead)) (\<lambda>bs.
        bind_cxx (RemoveBytesAt (cache st) numToRead 0) (\<lambda>b. Inr (bs, st\<lparr>cache := b\<rparr>)))))"

partial_function (option) cache_loop ::
  "'s SeekableByteStream \<Rightarrow> heap_env \<Rightarrow> ByteBuffer \<Rightarrow> 's \<Rightarrow> (ByteBuffer \<times> 's) run" where
  "cache_loop ops env b s =
     (if s_AtEnd ops s then Some (Inr (b, s))
      else case s_ReadBytes ops s 16384 of
        None \<Rightarrow> None
      | Some (Inl e) \<Rightarrow> Some (Inl e)
      | Some (Inr (bs, s)) \<Rightarrow>
          if bs = [] then Some (Inr (b, s))
          else (case AddBytes env b bs (length bs) of
                  Inl e \<Rightarrow> Some (Inl e)
                | Inr b \<Rightarrow> cache_loop ops env b s))"

declare cache_loop.simps [code del]

definition CacheBytes ::
  "'s SeekableByteStream \<Rightarrow> heap_env \<Rightarrow> bool \<Rightarrow> ('i, 'c, 's) FilterChainByteStream \<Rightarrow>
   ('i, 'c, 's) FilterChainByteStream run" where
  "CacheBytes ops env g st =
     bind_run (cache_loop ops env (cache st) (f_input st)) (\<lambda>(b, s).
       let st = st\<lparr>cache := b, f_input := s\<rparr> in
       if m_bufferSize b = 0 then Some (Inr st)
       else bind_run (FilterBytes ops env g st (bb_block b) (m_bufferSize b)) (\<lambda>(filtered, st).
         let st = (if filtered > 0
                   then st\<lparr>cache := read_cache st, read_cache := empty_ByteBuffer False, cacheHasBeenFilledUp := True\<rparr>
                   else st)
         in Some (Inr (st\<lparr>cache := SetUsesSecureErasure (cache st) True\<rparr>))))"

definition fill_cache ::
  "'s SeekableByteStream \<Rightarrow> heap_env \<Rightarrow> bool \<Rightarrow> ('i, 'c, 's) FilterChainByteStream \<Rightarrow>
   ('i, 'c, 's) FilterChainByteStream run" where
  "fill_cache ops env g st =
     (if m_bufferSize (cache st) = 0 \<and> \<not> cacheHasBeenFilledUp st then CacheBytes ops env g st else Some (Inr st))"

text \<open>Handing over bytes of \<open>_read_cache\<close>.\<close>

definition drain_read_cache ::
  "('i, 'c, 's) FilterChainByteStream \<Rightarrow> nat \<Rightarrow> (byte list \<times> ('i, 'c, 's) FilterChainByteStream) cxx" where
  "drain_read_cache st len =
     (let toMove = min len (m_bufferSize (read_cache st)) in
      bind_cxx (must (mem_load (bb_block (read_cache st)) 0 toMove)) (\<lambda>bs.
      if toMove = 0 then Inr (bs, st)
      else bind_cxx (RemoveBytesAt (read_cache st) toMove 0) (\<lambda>b. Inr (bs, st\<lparr>read_cache := b\<rparr>))))"

definition chain_ReadBytes ::
  "'s SeekableByteStream \<Rightarrow> heap_env \<Rightarrow> bool \<Rightarrow> ('i, 'c, 's) FilterChainByteStream \<Rightarrow> nat \<Rightarrow>
   (byte list \<times> ('i, 'c, 's) FilterChainByteStream) run" where
  "chain_ReadBytes ops env g st len =
     (if len = 0 then Some (Inr ([], st))
      else if needs_cache st
      then bind_run (fill_cache ops env g st) (\<lambda>st. Some (ReadBytesFromCache st len))
      else if m_bufferSize (read_cache st) > 0 then Some (drain_read_cache st len)
      else if \<not> s_IsOpen ops (f_input st) then Some (Inr ([], st))
      else bind_run (s_ReadBytes ops (f_input st) len) (\<lambda>(bs, s).
        let st = st\<lparr>f_input := s\<rparr> in
        if bs = [] then Some (Inr ([], st))
        else bind_run (FilterBytes ops env g st bs (length bs)) (\<lambda>(result, st).
          if result = 0 then Some (Inr ([], st)) else Some (drain_read_cache st len))))"

definition chain_BytesAvailable ::
  "'s SeekableByteStream \<Rightarrow> heap_env \<Rightarrow> bool \<Rightarrow> ('i, 'c, 's) FilterChainByteStream \<Rightarrow>
   (nat \<times> ('i, 'c, 's) FilterChainByteStream) run" where
  "chain_BytesAvailable ops env g st =
     (if needs_cache st
      then bind_run (fill_cache ops env g st) (\<lambda>st. Some (Inr (m_bufferSize (cache st), st)))
      else Some (Inr (s_BytesAvailable ops (f_input st), st)))"

definition chain_AtEnd :: "'s SeekableByteStream \<Rightarrow> ('i, 'c, 's) FilterChainByteStream \<Rightarrow> bool" where
  "chain_AtEnd ops st =
     (if needs_cache st \<and> s_AtEnd ops (f_input st) then IsEmpty (cache st) else s_AtEnd ops (f_input st))"

definition chain_WriteBytes :: "byte list \<Rightarrow> nat cxx" where
  "chain_WriteBytes bs = Inl (Throws (System_error \<lparr>sys_code = 95, sys_what = []\<rparr>))"

definition chain_Close ::
  "'s SeekableByteStream \<Rightarrow> ('i, 'c, 's) FilterChainByteStream \<Rightarrow> ('i, 'c, 's) FilterChainByteStream" where
  "chain_Close ops st = st\<lparr>f_input := s_Close ops (f_input st)\<rparr>"

section \<open>Filters that work on the data they are given\<close>

text \<open>
  What the chain relies on of a filter without a range context: on a context of its own kind it
  returns, leaves the input stream alone, and returns no more bytes than its block holds.
  \<open>out\<close> is its effect as a function.
\<close>

locale plain_filter =
  fixes f :: "('i, 'c, 's) ContentFilter"
    and ctx_ok :: "'c FilterContext option \<Rightarrow> bool"
    and out :: "'c FilterContext option \<Rightarrow> byte list \<Rightarrow> filter_result \<times> 'c FilterContext option"
  assumes new_context: "ctx_ok (InnerMakeFilterContext f item)"
    and no_range: "ctx_ok c \<Longrightarrow> \<not> is_range_context c"
    and mode: "GetOperatingMode f \<noteq> SupportsByteRanges"
    and runs: "ctx_ok c \<Longrightarrow> FilterData f c s (Some xs) = Some (Inr (fst (out c xs), snd (out c xs), s))"
    and keeps: "ctx_ok c \<Longrightarrow> ctx_ok (snd (out c xs))"
    and fits: "ctx_ok c \<Longrightarrow> (case fst (out c xs) of
        Null \<Rightarrow> True | In_place m n \<Rightarrow> length m = length xs \<and> n \<le> length m
      | New_block m n \<Rightarrow> n \<le> length m | Temporary n \<Rightarrow> False)"

text \<open>The bytes of a result; no bytes count as no result.\<close>

definition result_bytes :: "filter_result \<Rightarrow> byte list option" where
  "result_bytes r = (case r of
       In_place m n \<Rightarrow> if n = 0 then None else Some (take n m)
     | New_block m n \<Rightarrow> if n = 0 then None else Some (take n m)
     | _ \<Rightarrow> None)"

lemma of_bytes_ok:
  assumes "env_ok env" and "n \<le> length bytes"
  obtains b where "ByteBuffer_of_bytes env g bytes n = Inr b" and "bb_ok b" and "bb_abs b = take n bytes"
    and "m_bufferSize b = n"
proof -
  have good: "n \<le> he_good env n" "he_ok env (he_good env n)" using assms(1) by (simp_all add: env_ok_def)
  let ?m = "take n bytes @ replicate (he_good env n - n) 0"
  have "copy_bytes (replicate (he_good env n) 0) 0 bytes 0 n = Inr ?m"
    using assms(2) good(1) by (simp add: copy_bytes_Inr drop_replicate)
  then have "ByteBuffer_of_bytes env g bytes n =
      Inr \<lparr>m_buffer = Some ?m, m_bufferSize = n, m_bufferCapacity = he_good env n, m_secure = g\<rparr>"
    using good by (simp add: ByteBuffer_of_bytes_def calloc_def)
  then show ?thesis
    by (rule that) (use assms(2) good in \<open>simp_all add: bb_ok_def bb_abs_def bb_block_def\<close>)
qed

lemma RemoveBytes_back:
  assumes "bb_ok b" and "0 < n" and "n < m_bufferSize b"
  obtains b' where "RemoveBytesAt b (m_bufferSize b - n) n = Inr b'" and "bb_ok b'" and "bb_abs b' = take n (bb_abs b)"
    and "m_bufferSize b' = n"
proof -
  let ?b = "b\<lparr>m_bufferSize := n\<rparr>"
  have "bb_ok ?b" using assms by (simp add: bb_ok_def)
  then obtain b' where t: "tidy ?b = Inr b'" "bb_ok b'" "bb_abs b' = bb_abs ?b" "m_bufferSize b' = m_bufferSize ?b"
    by (rule tidy_ok) blast
  show ?thesis
  proof (rule that [of b'])
    show "RemoveBytesAt b (m_bufferSize b - n) n = Inr b'"
      using assms t(1) by (simp add: RemoveBytesAt_def Let_def)
    show "bb_abs b' = take n (bb_abs b)" using t(3) assms(3) by (simp add: bb_abs_def min_def)
  qed (use t in simp_all)
qed

lemma in_place_ok:
  assumes "bb_ok b" and "length m = m_bufferSize b"
  obtains b' where "in_place b m = Inr b'" and "bb_ok b'" and "bb_abs b' = m" and "m_bufferSize b' = m_bufferSize b"
  by (rule that [of "b\<lparr>m_buffer := Some (m @ drop (length m) (bb_block b))\<rparr>"])
    (use assms in \<open>simp_all add: in_place_def bb_ok_def bb_abs_def\<close>)

lemma take_result_ok:
  assumes "env_ok env" and "bb_ok b"
    and "case r of Null \<Rightarrow> True | In_place m n \<Rightarrow> length m = m_bufferSize b \<and> n \<le> length m
      | New_block m n \<Rightarrow> n \<le> length m | Temporary n \<Rightarrow> False"
  shows "\<exists>o'. take_result env g False c b r = Inr o' \<and>
    (case result_bytes r of None \<Rightarrow> o' = None | Some ys \<Rightarrow> ys \<noteq> [] \<and> (\<exists>b'. o' = Some b' \<and> bb_ok b' \<and> bb_abs b' = ys))"
proof (cases r)
  case (In_place m n)
  with assms(3) have m: "length m = m_bufferSize b" "n \<le> length m" by simp_all
  obtain b1 where b1: "in_place b m = Inr b1" "bb_ok b1" "bb_abs b1 = m" "m_bufferSize b1 = m_bufferSize b"
    by (rule in_place_ok [OF assms(2) m(1)])
  consider "n = 0" | "0 < n" "n < m_bufferSize b1" | "0 < n" "n = m_bufferSize b1" using m b1(4) by linarith
  then show ?thesis
  proof cases
    case 2
    obtain b2 where "RemoveBytesAt b1 (m_bufferSize b1 - n) n = Inr b2" "bb_ok b2" "bb_abs b2 = take n (bb_abs b1)"
      by (rule RemoveBytes_back [OF b1(2) 2])
    with In_place 2 b1 m show ?thesis by (auto simp: take_result_def result_bytes_def)
  qed (use In_place b1 m in \<open>auto simp: take_result_def result_bytes_def\<close>)
next
  case (New_block m n)
  with assms(3) have n: "n \<le> length m" by simp
  obtain b' where "ByteBuffer_of_bytes env g m n = Inr b'" "bb_ok b'" "bb_abs b' = take n m"
    by (rule of_bytes_ok [OF assms(1) n])
  with New_block n show ?thesis by (auto simp: take_result_def result_bytes_def)
qed (use assms in \<open>simp_all add: take_result_def result_bytes_def\<close>)

context plain_filter
begin

lemma MakeFilterContext_plain: "MakeFilterContext f item = Inr (InnerMakeFilterContext f item)"
  using mode by (simp add: MakeFilterContext_def Let_def)

lemma filter_step_plain:
  assumes "env_ok env" and "bb_ok b" and "ctx_ok c"
  shows "\<exists>o'. filter_step ops env g needs f c s b = Some (Inr (o', snd (out c (bb_abs b)), s)) \<and>
    (case result_bytes (fst (out c (bb_abs b))) of None \<Rightarrow> o' = None
     | Some ys \<Rightarrow> ys \<noteq> [] \<and> (\<exists>b'. o' = Some b' \<and> bb_ok b' \<and> bb_abs b' = ys))"
proof -
  have "case fst (out c (bb_abs b)) of Null \<Rightarrow> True | In_place m n \<Rightarrow> length m = m_bufferSize b \<and> n \<le> length m
      | New_block m n \<Rightarrow> n \<le> length m | Temporary n \<Rightarrow> False"
    using fits [OF assms(3), of "bb_abs b"] length_bb_abs [OF assms(2)] by (simp split: filter_result.splits)
  from take_result_ok [OF assms(1,2) this] obtain o' where
    "take_result env g False (snd (out c (bb_abs b))) b (fst (out c (bb_abs b))) = Inr o'"
    "case result_bytes (fst (out c (bb_abs b))) of None \<Rightarrow> o' = None
     | Some ys \<Rightarrow> ys \<noteq> [] \<and> (\<exists>b'. o' = Some b' \<and> bb_ok b' \<and> bb_abs b' = ys)" by blast
  then show ?thesis
    using no_range [OF assms(3)] runs [OF assms(3)]
    by (simp add: filter_step_def enter_range_def leave_range_def)
qed

end

text \<open>Font obfuscation is such a filter.\<close>

definition font_context :: "'c FilterContext option \<Rightarrow> bool" where
  "font_context c \<longleftrightarrow> (\<exists>n. c = Some \<lparr>fc_class = FontObfuscationContext n, fc_range = None\<rparr>)"

definition font_out ::
  "byte list \<Rightarrow> 'c FilterContext option \<Rightarrow> byte list \<Rightarrow> filter_result \<times> 'c FilterContext option" where
  "font_out key c xs = (case c of
       Some c \<Rightarrow> (case fc_class c of
           FontObfuscationContext n \<Rightarrow> (In_place (obfuscate key n xs) (length xs),
             Some (c\<lparr>fc_class := FontObfuscationContext (n + length xs)\<rparr>))
         | _ \<Rightarrow> (Null, Some c))
     | None \<Rightarrow> (Null, None))"

interpretation font: plain_filter "FontObfuscator key avail" font_context "font_out key" for key avail
  by unfold_locales
    (auto simp: FontObfuscator_def font_context_def font_out_def is_range_context_def Font_FilterData_def)

section \<open>A chain of such filters\<close>

text \<open>Each filter of the chain comes with the contexts it accepts and its effect.\<close>

type_synonym 'c filter_spec =
  "('c FilterContext option \<Rightarrow> bool) \<times> ('c FilterContext option \<Rightarrow> byte list \<Rightarrow> filter_result \<times> 'c FilterContext option)"

definition plain_chain :: "('i, 'c, 's) ContentFilter list \<Rightarrow> 'c filter_spec list \<Rightarrow> bool" where
  "plain_chain fs specs \<longleftrightarrow> list_all2 (\<lambda>f spec. plain_filter f (fst spec) (snd spec)) fs specs"

definition contexts_ok :: "'c filter_spec list \<Rightarrow> 'c FilterContext option list \<Rightarrow> bool" where
  "contexts_ok specs cs \<longleftrightarrow> list_all2 (\<lambda>spec c. fst spec c) specs cs"

text \<open>The composition of the filters; one of them without a result leaves the chain without one.\<close>

fun chain_spec :: "'c filter_spec list \<Rightarrow> 'c FilterContext option list \<Rightarrow> byte list \<Rightarrow> byte list option" where
  "chain_spec ((k, out) # specs) (c # cs) xs =
     (case result_bytes (fst (out c xs)) of None \<Rightarrow> None | Some ys \<Rightarrow> chain_spec specs cs ys)"
| "chain_spec _ _ xs = Some xs"

lemma make_contexts_plain:
  assumes "plain_chain fs specs"
  shows "make_contexts fs item = Inr (map (\<lambda>f. InnerMakeFilterContext f item) fs) \<and>
    contexts_ok specs (map (\<lambda>f. InnerMakeFilterContext f item) fs)"
  using assms unfolding plain_chain_def contexts_ok_def
proof (induction fs specs rule: list_all2_induct)
  case (Cons f fs spec specs)
  then show ?case
    by (simp add: plain_filter.MakeFilterContext_plain [OF Cons.hyps(1)] plain_filter.new_context [OF Cons.hyps(1)])
qed simp

lemma filter_loop_plain:
  assumes "plain_chain fs specs" and "contexts_ok specs cs" and "env_ok env" and "bb_ok b" and "bb_abs b \<noteq> []"
  shows "\<exists>r cs'. filter_loop ops env g needs fs cs s b = Some (Inr (r, cs', s)) \<and> contexts_ok specs cs' \<and>
    (case chain_spec specs cs (bb_abs b) of None \<Rightarrow> r = None
     | Some ys \<Rightarrow> ys \<noteq> [] \<and> (\<exists>b'. r = Some b' \<and> bb_ok b' \<and> bb_abs b' = ys))"
  using assms(1,2,4,5) unfolding plain_chain_def contexts_ok_def
proof (induction fs specs arbitrary: cs b rule: list_all2_induct)
  case (Cons f fs spec specs)
  obtain k out where spec: "spec = (k, out)" by (cases spec)
  obtain c cs' where cs: "cs = c # cs'" "k c" "list_all2 (\<lambda>spec c. fst spec c) specs cs'"
    using Cons.prems(1) by (cases cs) (auto simp: spec)
  have pf: "plain_filter f k out" using Cons.hyps(1) by (simp add: spec)
  from plain_filter.filter_step_plain [OF pf assms(3) Cons.prems(2) cs(2)] obtain o' where
    st: "filter_step ops env g needs f c s b = Some (Inr (o', snd (out c (bb_abs b)), s))"
    and o': "case result_bytes (fst (out c (bb_abs b))) of None \<Rightarrow> o' = None
     | Some ys \<Rightarrow> ys \<noteq> [] \<and> (\<exists>b'. o' = Some b' \<and> bb_ok b' \<and> bb_abs b' = ys)" by blast
  have k': "k (snd (out c (bb_abs b)))" by (rule plain_filter.keeps [OF pf cs(2)])
  show ?case
  proof (cases "result_bytes (fst (out c (bb_abs b)))")
    case None
    with o' st k' cs show ?thesis by (simp add: spec)
  next
    case (Some ys)
    with o' obtain b' where b': "o' = Some b'" "bb_ok b'" "bb_abs b' = ys" "ys \<noteq> []" by auto
    from Cons.IH [OF cs(3) b'(2)] b'(3,4) obtain r cs'' where
      "filter_loop ops env g needs fs cs' s b' = Some (Inr (r, cs'', s))" "list_all2 (\<lambda>spec c. fst spec c) specs cs''"
      "case chain_spec specs cs' ys of None \<Rightarrow> r = None
       | Some zs \<Rightarrow> zs \<noteq> [] \<and> (\<exists>b'. r = Some b' \<and> bb_ok b' \<and> bb_abs b' = zs)" by auto
    with Some b'(1) st k' cs(1) show ?thesis by (simp add: spec)
  qed
qed simp

lemma bb_abs_secure [simp]: "bb_abs (SetUsesSecureErasure b v) = bb_abs b" "bb_ok (SetUsesSecureErasure b v) = bb_ok b"
    "m_bufferSize (SetUsesSecureErasure b v) = m_bufferSize b" "bb_block (SetUsesSecureErasure b v) = bb_block b"
  by (simp_all add: SetUsesSecureErasure_def bb_abs_def bb_ok_def)

lemma FilterBytes_plain:
  assumes "plain_chain (m_filters st) specs" and "contexts_ok specs (m_filterContexts st)" and "env_ok env"
    and "n \<le> length bytes" and "0 < n"
  shows "\<exists>k st'. FilterBytes ops env g st bytes n = Some (Inr (k, st')) \<and> contexts_ok specs (m_filterContexts st') \<and>
    m_filters st' = m_filters st \<and> f_input st' = f_input st \<and> cache st' = cache st \<and> needs_cache st' = needs_cache st \<and>
    cacheHasBeenFilledUp st' = cacheHasBeenFilledUp st \<and>
    (case chain_spec specs (m_filterContexts st) (take n bytes) of None \<Rightarrow> k = 0
     | Some ys \<Rightarrow> 0 < k \<and> bb_ok (read_cache st') \<and> bb_abs (read_cache st') = ys)"
proof -
  obtain b where b: "ByteBuffer_of_bytes env g bytes n = Inr b" "bb_ok b" "bb_abs b = take n bytes"
    by (rule of_bytes_ok [OF assms(3,4)])
  let ?b = "SetUsesSecureErasure b True"
  have ne: "bb_abs ?b \<noteq> []" using b(3) assms(4,5) by auto
  obtain r cs' where l: "filter_loop ops env g (needs_cache st) (m_filters st) (m_filterContexts st) (f_input st) ?b =
      Some (Inr (r, cs', f_input st))" "contexts_ok specs cs'"
    and r: "case chain_spec specs (m_filterContexts st) (take n bytes) of None \<Rightarrow> r = None
       | Some ys \<Rightarrow> ys \<noteq> [] \<and> (\<exists>b'. r = Some b' \<and> bb_ok b' \<and> bb_abs b' = ys)"
    using filter_loop_plain [OF assms(1-3) _ ne, of ops g "needs_cache st" "f_input st"] b(2,3) by auto
  show ?thesis
  proof (cases "chain_spec specs (m_filterContexts st) (take n bytes)")
    case None
    with r b(1) l assms(5) show ?thesis by (simp add: FilterBytes_def)
  next
    case (Some ys)
    with r obtain b' where b': "r = Some b'" "bb_ok b'" "bb_abs b' = ys" "ys \<noteq> []" by auto
    then have "0 < m_bufferSize b'" by (simp flip: length_bb_abs [OF b'(2)])
    with Some b' b(1) l assms(5) show ?thesis by (simp add: FilterBytes_def ByteBuffer_move_assign_def)
  qed
qed

section \<open>Reading a filtered stream\<close>

text \<open>What the stream delivers of the content \<open>xs\<close>: the output of the chain, but the content itself when the chain has
  no result.\<close>

definition delivered :: "'c filter_spec list \<Rightarrow> 'c FilterContext option list \<Rightarrow> byte list \<Rightarrow> byte list" where
  "delivered specs cs xs = (if xs = [] then [] else case chain_spec specs cs xs of None \<Rightarrow> xs | Some ys \<Rightarrow> ys)"

text \<open>Reads of the given sizes, one after the other.\<close>

fun chain_reads ::
  "'s SeekableByteStream \<Rightarrow> heap_env \<Rightarrow> bool \<Rightarrow> ('i, 'c, 's) FilterChainByteStream \<Rightarrow> nat list \<Rightarrow>
   (byte list \<times> ('i, 'c, 's) FilterChainByteStream) run" where
  "chain_reads ops env g st [] = Some (Inr ([], st))"
| "chain_reads ops env g st (n # ns) =
     bind_run (chain_ReadBytes ops env g st n) (\<lambda>(bs, st).
     bind_run (chain_reads ops env g st ns) (\<lambda>(rest, st). Some (Inr (bs @ rest, st))))"

locale seekable_source = byte_source "s_ReadBytes ops" "s_AtEnd ops" ok rest
  for ops :: "'s SeekableByteStream" and ok rest
begin

lemma cache_loop_end:
  assumes "ok s" and "rest s = []"
  shows "\<exists>s'. cache_loop ops env b s = Some (Inr (b, s')) \<and> ok s' \<and> rest s' = []"
proof (cases "s_AtEnd ops s")
  case True
  with assms show ?thesis by (subst cache_loop.simps) simp
next
  case False
  obtain bs s' where "s_ReadBytes ops s 16384 = Some (Inr (bs, s'))" "ok s'" "rest s = bs @ rest s'"
    by (rule read_block [OF assms(1), of 16384]) simp_all
  with False assms(2) show ?thesis by (subst cache_loop.simps) simp
qed

lemma cache_loop_correct:
  assumes "ok s" and "env_ok env" and "bb_ok b" and "bb_clean b"
  shows "\<exists>b' s'. cache_loop ops env b s = Some (Inr (b', s')) \<and> ok s' \<and> rest s' = [] \<and> bb_ok b' \<and>
    bb_abs b' = bb_abs b @ rest s"
  using assms(1,3,4)
proof (induction "length (rest s)" arbitrary: s b rule: less_induct)
  case less
  show ?case
  proof (cases "rest s = []")
    case True
    with cache_loop_end [OF less.prems(1), of env b] less.prems(2) show ?thesis by auto
  next
    case False
    then have ne: "\<not> s_AtEnd ops s" using end_law less.prems(1) by blast
    obtain bs s' where r: "s_ReadBytes ops s 16384 = Some (Inr (bs, s'))" "ok s'" "rest s = bs @ rest s'"
      "bs = [] \<longrightarrow> rest s = []"
      by (rule read_block [OF less.prems(1), of 16384]) simp_all
    obtain b1 where b1: "AddBytes env b bs (length bs) = Inr b1" "bb_ok b1" "bb_clean b1" "bb_abs b1 = bb_abs b @ bs"
      using AddBytes_ok [OF assms(2) less.prems(2,3)] by blast
    have bs: "bs \<noteq> []" using r(4) False by blast
    then have "length (rest s') < length (rest s)" using r(3) by simp
    from less.hyps [OF this r(2) b1(2,3)] obtain b' s'' where
      "cache_loop ops env b1 s' = Some (Inr (b', s''))" "ok s''" "rest s'' = []" "bb_ok b'" "bb_abs b' = bb_abs b1 @ rest s'"
      by blast
    with ne r(1,3) b1(1,4) bs show ?thesis by (subst cache_loop.simps) simp
  qed
qed

text \<open>A stream whose input is used up and whose cache holds \<open>d\<close>.\<close>

definition loaded :: "('i, 'c, 's) FilterChainByteStream \<Rightarrow> byte list \<Rightarrow> bool" where
  "loaded st d \<longleftrightarrow> needs_cache st \<and> ok (f_input st) \<and> rest (f_input st) = [] \<and> bb_ok (cache st) \<and> bb_abs (cache st) = d"

definition fresh :: "'c filter_spec list \<Rightarrow> ('i, 'c, 's) FilterChainByteStream \<Rightarrow> bool" where
  "fresh specs st \<longleftrightarrow> needs_cache st \<and> ok (f_input st) \<and> bb_ok (cache st) \<and> bb_clean (cache st) \<and>
     m_bufferSize (cache st) = 0 \<and> \<not> cacheHasBeenFilledUp st \<and>
     plain_chain (m_filters st) specs \<and> contexts_ok specs (m_filterContexts st)"

lemma fill_loaded:
  assumes "loaded st d"
  shows "\<exists>st'. fill_cache ops env g st = Some (Inr st') \<and> loaded st' d"
proof (cases "m_bufferSize (cache st) = 0 \<and> \<not> cacheHasBeenFilledUp st")
  case True
  obtain s' where "cache_loop ops env (cache st) (f_input st) = Some (Inr (cache st, s'))" "ok s'" "rest s' = []"
    using cache_loop_end [of "f_input st" env "cache st"] assms by (auto simp: loaded_def)
  with True assms show ?thesis by (simp add: fill_cache_def CacheBytes_def loaded_def)
qed (use assms in \<open>auto simp: fill_cache_def\<close>)

lemma ReadBytesFromCache_ok:
  assumes "loaded st d" and "0 < n"
  shows "\<exists>st'. ReadBytesFromCache st n = Inr (take n d, st') \<and> loaded st' (drop n d)"
proof -
  let ?b = "cache st"
  have b: "bb_ok ?b" "bb_abs ?b = d" "length d = m_bufferSize ?b"
    using assms(1) length_bb_abs by (auto simp: loaded_def)
  have load: "mem_load (bb_block ?b) 0 (min n (m_bufferSize ?b)) = Some (take n d)"
    using b by (auto simp: mem_load_def bb_ok_def bb_abs_def)
  obtain b' where b': "RemoveBytesAt ?b (min n (m_bufferSize ?b)) 0 = Inr b'" "bb_ok b'" "bb_abs b' = drop n d"
  proof (cases "n < m_bufferSize ?b")
    case True
    with RemoveBytes_front [OF b(1) True] b(2) that show ?thesis by (auto simp: min_def)
  next
    case False
    with b show ?thesis
      by (intro that [of "?b\<lparr>m_bufferSize := 0\<rparr>"]) (simp_all add: RemoveBytesAt_def bb_ok_def bb_abs_def)
  qed
  with load assms show ?thesis by (simp add: ReadBytesFromCache_def Let_def loaded_def)
qed

lemma CacheBytes_correct:
  assumes "fresh specs st" and "env_ok env"
  shows "\<exists>st'. CacheBytes ops env g st = Some (Inr st') \<and>
    loaded st' (delivered specs (m_filterContexts st) (rest (f_input st)))"
proof -
  let ?xs = "rest (f_input st)"
  have abs0: "bb_abs (cache st) = []" using assms(1) by (simp add: fresh_def bb_abs_def)
  obtain b s where l: "cache_loop ops env (cache st) (f_input st) = Some (Inr (b, s))" "ok s" "rest s = []" "bb_ok b"
      "bb_abs b = ?xs"
    using cache_loop_correct [of "f_input st" env "cache st"] assms abs0 by (auto simp: fresh_def)
  define st1 where "st1 = st\<lparr>cache := b, f_input := s\<rparr>"
  have len: "length ?xs = m_bufferSize b" using length_bb_abs [OF l(4)] l(5) by simp
  show ?thesis
  proof (cases "m_bufferSize b = 0")
    case True
    with l len assms(1) show ?thesis by (simp add: CacheBytes_def fresh_def loaded_def delivered_def)
  next
    case False
    have t: "take (m_bufferSize b) (bb_block b) = ?xs" using l(5) by (simp add: bb_abs_def)
    have pc: "plain_chain (m_filters st1) specs" "contexts_ok specs (m_filterContexts st1)"
      using assms(1) by (simp_all add: fresh_def st1_def)
    obtain k st2 where f: "FilterBytes ops env g st1 (bb_block b) (m_bufferSize b) = Some (Inr (k, st2))"
        "f_input st2 = s" "cache st2 = b" "needs_cache st2 = needs_cache st"
      and k: "case chain_spec specs (m_filterContexts st) ?xs of None \<Rightarrow> k = 0
        | Some ys \<Rightarrow> 0 < k \<and> bb_ok (read_cache st2) \<and> bb_abs (read_cache st2) = ys"
      using FilterBytes_plain [OF pc assms(2), of "m_bufferSize b" "bb_block b" ops g] l(4) False
      by (auto simp: t bb_ok_def st1_def)
    have "CacheBytes ops env g st = Some (Inr (let st = (if k > 0
        then st2\<lparr>cache := read_cache st2, read_cache := empty_ByteBuffer False, cacheHasBeenFilledUp := True\<rparr> else st2)
        in st\<lparr>cache := SetUsesSecureErasure (cache st) True\<rparr>))"
      using l(1) False f(1) by (simp add: CacheBytes_def st1_def Let_def)
    moreover have "?xs \<noteq> []" using False len by auto
    moreover have "needs_cache st" using assms(1) by (simp add: fresh_def)
    ultimately show ?thesis using k f l
      by (cases "chain_spec specs (m_filterContexts st) ?xs") (auto simp: loaded_def delivered_def Let_def)
  qed
qed

lemma loaded_read:
  assumes "loaded st d" and "0 < n"
  shows "\<exists>st'. chain_ReadBytes ops env g st n = Some (Inr (take n d, st')) \<and> loaded st' (drop n d)"
proof -
  obtain st1 where "fill_cache ops env g st = Some (Inr st1)" "loaded st1 d" using fill_loaded [OF assms(1)] by blast
  with ReadBytesFromCache_ok [of st1 d n] assms show ?thesis by (auto simp: chain_ReadBytes_def loaded_def)
qed

lemma loaded_reads:
  assumes "loaded st d" and "\<forall>n \<in> set ns. 0 < n"
  shows "\<exists>st'. chain_reads ops env g st ns = Some (Inr (take (sum_list ns) d, st')) \<and> loaded st' (drop (sum_list ns) d)"
  using assms
proof (induction ns arbitrary: st d)
  case (Cons n ns)
  obtain st1 where 1: "chain_ReadBytes ops env g st n = Some (Inr (take n d, st1))" "loaded st1 (drop n d)"
    using loaded_read [OF Cons.prems(1), of n env g] Cons.prems(2) by auto
  from Cons.IH [OF 1(2)] Cons.prems(2) obtain st2 where
    "chain_reads ops env g st1 ns = Some (Inr (take (sum_list ns) (drop n d), st2))"
    "loaded st2 (drop (sum_list ns) (drop n d))" by auto
  with 1(1) show ?case by (simp add: take_add add.commute)
qed simp

lemma fresh_reads:
  assumes "fresh specs st" and "env_ok env" and "\<forall>n \<in> set ns. 0 < n"
  shows "\<exists>st'. chain_reads ops env g st ns =
    Some (Inr (take (sum_list ns) (delivered specs (m_filterContexts st) (rest (f_input st))), st'))"
proof (cases ns)
  case (Cons n ns')
  let ?d = "delivered specs (m_filterContexts st) (rest (f_input st))"
  obtain st1 where c: "CacheBytes ops env g st = Some (Inr st1)" "loaded st1 ?d"
    using CacheBytes_correct [OF assms(1,2)] by blast
  obtain st2 where r: "ReadBytesFromCache st1 n = Inr (take n ?d, st2)" "loaded st2 (drop n ?d)"
    using ReadBytesFromCache_ok [OF c(2), of n] assms(3) Cons by auto
  have "chain_ReadBytes ops env g st n = Some (Inr (take n ?d, st2))"
    using assms(1,3) c(1) r(1) Cons by (simp add: chain_ReadBytes_def fill_cache_def fresh_def)
  with loaded_reads [OF r(2), of ns' env g] assms(3) Cons show ?thesis by (auto simp: take_add add.commute)
qed simp

end

interpretation zip_chain: seekable_source "zip_stream_ops lib z" "zb_stored z" zb_rest for lib z
  by (intro seekable_source.intro) (simp add: zip_stream_ops_def zip_source.byte_source_axioms)

lemma new_stream_fresh:
  assumes "plain_chain fs specs" and "zb_stored z input"
  obtains st where "new_FilterChainByteStream input fs item = Inr st" and "zip_chain.fresh z specs st"
    and "m_filterContexts st = map (\<lambda>f. InnerMakeFilterContext f item) fs" and "f_input st = input"
proof -
  have "bb_ok (SetUsesSecureErasure (empty_ByteBuffer False) True)" "bb_clean (SetUsesSecureErasure (empty_ByteBuffer False) True)"
    by (simp_all add: bb_ok_def bb_clean_def empty_ByteBuffer_def bb_block_def SetUsesSecureErasure_def)
  with make_contexts_plain [OF assms(1), of item] assms show ?thesis
    by (intro that) (auto simp: new_FilterChainByteStream_def zip_chain.fresh_def empty_ByteBuffer_def)
qed

section \<open>Properties\<close>

text \<open>C7: a filtered stream over a stored member of an archive delivers the member's content after the composition of all
  filters of the chain, whatever the sizes of the reads: reads of sizes \<open>ns\<close> return, and the bytes they deliver
  are a prefix of the chain's output, as long as the reads ask for.  When one filter of the chain has no
  result, what is delivered is the content without any filter.\<close>

theorem filter_stream_delivers:
  assumes "plain_chain fs specs" and "zb_stored z input" and "env_ok env" and "\<forall>n \<in> set ns. 0 < n"
    and "zb_rest input = content" and "content \<noteq> []"
  shows "\<exists>st st'. new_FilterChainByteStream input fs item = Inr st \<and>
    chain_reads (zip_stream_ops lib z) env g st ns = Some (Inr (take (sum_list ns)
      (case chain_spec specs (map (\<lambda>f. InnerMakeFilterContext f item) fs) content of
         Some ys \<Rightarrow> ys | None \<Rightarrow> content), st'))"
proof -
  obtain st where st: "new_FilterChainByteStream input fs item = Inr st" "zip_chain.fresh z specs st"
    "m_filterContexts st = map (\<lambda>f. InnerMakeFilterContext f item) fs" "f_input st = input"
    by (rule new_stream_fresh [OF assms(1,2)])
  from zip_chain.fresh_reads [OF st(2) assms(3,4), of lib g] st assms(5,6) show ?thesis
    by (simp add: delivered_def option.case_eq_if)
qed

definition stored_stream :: "(nat, unit) ZipFileByteStream" where
  "stored_stream = (new_ZipFileByteStream stored_zip)\<lparr>zb_file := Some open_stored\<rparr>"

lemma stored_stream_ok: "zb_stored (raw_zlib 0) stored_stream" "zb_rest stored_stream = [7, 8, 9]"
proof -
  show r: "zb_rest stored_stream = [7, 8, 9]"
    by (rule stored_at_rest [OF open_stored_at]) (simp_all add: stored_stream_def new_ZipFileByteStream_def stored_zip_def)
  have f: "zb_file stored_stream = Some open_stored" "za_zp (zb_za stored_stream) = Some stored_file" "\<not> zb_eof stored_stream"
    by (simp_all add: stored_stream_def new_ZipFileByteStream_def stored_zip_def)
  have "crc_fits (raw_zlib 0) open_stored [7, 8, 9]" by (simp add: crc_fits_def open_stored_def raw_zlib_def)
  then show "zb_stored (raw_zlib 0) stored_stream"
    unfolding zb_stored_def r f using open_stored_at crc_running_raw f(3) by simp
qed

lemma env_ok_sample: "env_ok sample_env"
  by (simp add: env_ok_def sample_env_def)

theorem filter_stream_delivers_witness:
  "\<exists>st st'. new_FilterChainByteStream stored_stream
      [FontObfuscator sample_key Zip_BytesAvailable :: (item_view, unit, (nat, unit) ZipFileByteStream) ContentFilter]
      \<lparr>iv_algorithm = None, iv_mediaType = []\<rparr> = Inr st \<and>
    chain_reads (zip_stream_ops sample_lib (raw_zlib 0)) sample_env False st [2, 5] = Some (Inr ([6, 10, 10], st'))"
proof -
  let ?f = "FontObfuscator sample_key Zip_BytesAvailable :: (item_view, unit, (nat, unit) ZipFileByteStream) ContentFilter"
  have "plain_chain [?f] [(font_context, font_out sample_key)]"
    by (simp add: plain_chain_def font.plain_filter_axioms)
  moreover have "obfuscate sample_key 0 [7, 8, 9] = [6, 10, 10]" by code_simp
  then have "chain_spec [(font_context :: unit FilterContext option \<Rightarrow> bool, font_out sample_key)]
      (map (\<lambda>f. InnerMakeFilterContext f \<lparr>iv_algorithm = None, iv_mediaType = []\<rparr>) [?f]) [7, 8, 9] = Some [6, 10, 10]"
    by (simp add: font_out_def FontObfuscator_def result_bytes_def)
  ultimately show ?thesis
    using filter_stream_delivers [OF _ stored_stream_ok(1) env_ok_sample _ stored_stream_ok(2), of "[?f]"
        "[(font_context, font_out sample_key)]" "[2, 5]" "\<lparr>iv_algorithm = None, iv_mediaType = []\<rparr>" sample_lib False]
    by simp
qed

end
