(* ===== verification/File_Stream.thy ===== *)
theory File_Stream
  imports Byte_Stream
begin

text \<open>
  \<^verbatim>\<open>class FileByteStream\<close> of \<^verbatim>\<open>utilities/byte_stream.{h,cpp}\<close>: the stream over a file of the file system, with
  \<^verbatim>\<open>fopen\<close> as a parameter.  It satisfies the contract of streams and that of random access.
\<close>

section \<open>Opening modes\<close>

record openmode =
  om_in :: bool
  om_out :: bool
  om_app :: bool
  om_trunc :: bool
  om_binary :: bool
  om_ate :: bool

definition fmode_from_openmode :: "openmode \<Rightarrow> string option" where
  "fmode_from_openmode m =
     (let key = (om_in m, om_out m, om_app m, om_trunc m);
          base = (if key = (False, True, False, False) \<or> key = (False, True, False, True) then Some ''w''
                  else if key = (False, True, True, False) \<or> key = (False, False, True, False) then Some ''a''
                  else if key = (True, False, False, False) then Some ''r''
                  else if key = (True, True, False, False) then Some ''r+''
                  else if key = (True, True, False, True) then Some ''w+''
                  else if key = (True, True, True, False) \<or> key = (True, False, True, False) then Some ''a+''
                  else None)
      in map_option (\<lambda>s. if om_binary m then s @ ''b'' else s) base)"

section \<open>State and operations\<close>

text \<open>\<open>fb_feof\<close> is the end-of-file indicator of the \<^verbatim>\<open>FILE\<close>.\<close>

record FileByteStream =
  fb_file :: "cfile option"
  fb_feof :: bool
  fb_mode :: openmode
  fb_eof :: bool
  fb_err :: int

definition File_Close :: "FileByteStream \<Rightarrow> FileByteStream" where
  "File_Close st = st\<lparr>fb_file := None\<rparr>"

definition append_mode :: openmode where
  "append_mode = \<lparr>om_in = True, om_out = True, om_app = True, om_trunc = False, om_binary = True, om_ate = False\<rparr>"

definition File_Open ::
  "(byte list \<Rightarrow> string \<Rightarrow> cfile option) \<Rightarrow> FileByteStream \<Rightarrow> byte list \<Rightarrow> openmode \<Rightarrow> bool \<times> FileByteStream" where
  "File_Open fopen st path mode =
     (let st = File_Close st;
          (fmode, mode) = (case fmode_from_openmode mode of None \<Rightarrow> (''a+b'', append_mode) | Some s \<Rightarrow> (s, mode))
      in case fopen path fmode of
           None \<Rightarrow> (False, st)
         | Some f \<Rightarrow>
             if om_ate mode \<or> om_app mode
             then (case fseeko f 0 SEEK_END of (r, f) \<Rightarrow>
                     if r \<noteq> 0 then (False, st)
                     else (True, st\<lparr>fb_file := Some f, fb_feof := False, fb_mode := mode\<rparr>))
             else (True, st\<lparr>fb_file := Some f, fb_feof := False, fb_mode := mode\<rparr>))"

definition File_IsOpen :: "FileByteStream \<Rightarrow> bool" where
  "File_IsOpen st = (fb_file st \<noteq> None)"

text \<open>The size comes from \<^verbatim>\<open>fstat\<close>; the subtraction of the position is one of \<^verbatim>\<open>size_t\<close>.\<close>

definition File_BytesAvailable :: "FileByteStream \<Rightarrow> nat" where
  "File_BytesAvailable st = (case fb_file st of None \<Rightarrow> 0
     | Some f \<Rightarrow> if fb_feof st then 0 else unat (of_nat (length (fdata f)) - of_nat (ftello f) :: u64))"

definition File_SpaceAvailable :: "FileByteStream \<Rightarrow> nat" where
  "File_SpaceAvailable st = 2 ^ 64 - 1"

definition File_ReadBytes :: "FileByteStream \<Rightarrow> nat \<Rightarrow> (byte list \<times> FileByteStream) run" where
  "File_ReadBytes st len =
     (if len = 0 then Some (Inr ([], st))
      else case fb_file st of
        None \<Rightarrow> Some (Inr ([], st))
      | Some f \<Rightarrow> (case fread len f of (bs, f') \<Rightarrow>
          Some (Inr (bs, st\<lparr>fb_file := Some f',
            fb_feof := (fb_feof st \<or> length bs < len \<and> fpos f' \<ge> length (fdata f'))\<rparr>))))"

definition File_WriteBytes :: "FileByteStream \<Rightarrow> byte list \<Rightarrow> nat \<times> FileByteStream" where
  "File_WriteBytes st bs = (case fb_file st of None \<Rightarrow> (0, st)
     | Some f \<Rightarrow> (case fwrite bs f of (n, f') \<Rightarrow> (n, st\<lparr>fb_file := Some f'\<rparr>)))"

definition dir_whence :: "seekdir \<Rightarrow> whence" where
  "dir_whence d = (case d of Seek_beg \<Rightarrow> SEEK_SET | Seek_cur \<Rightarrow> SEEK_CUR | Seek_end \<Rightarrow> SEEK_END)"

definition File_Seek :: "FileByteStream \<Rightarrow> nat \<Rightarrow> seekdir \<Rightarrow> (nat \<times> FileByteStream) run" where
  "File_Seek st by' dir = (case fb_file st of None \<Rightarrow> Some (Inr (0, st))
     | Some f \<Rightarrow> (case fseeko f (to_long by') (dir_whence dir) of (r, f') \<Rightarrow>
         Some (Inr (ftello f', st\<lparr>fb_file := Some f', fb_feof := (fb_feof st \<and> r \<noteq> 0)\<rparr>))))"

definition File_Position :: "FileByteStream \<Rightarrow> nat" where
  "File_Position st = (case fb_file st of None \<Rightarrow> 0 | Some f \<Rightarrow> ftello f)"

definition file_stream_ops :: "FileByteStream SeekableByteStream" where
  "file_stream_ops = \<lparr>s_BytesAvailable = File_BytesAvailable, s_IsOpen = File_IsOpen, s_Close = File_Close,
     s_ReadBytes = File_ReadBytes, s_AtEnd = fb_eof, s_Error = fb_err, s_Seek = File_Seek, s_Position = File_Position\<rparr>"

section \<open>Random access\<close>

text \<open>A stream whose content can be read from any position that fits a \<^verbatim>\<open>long\<close>.\<close>

locale random_access = byte_source "s_ReadBytes ops" "s_AtEnd ops" ok rest
  for ops :: "'s SeekableByteStream" and ok rest +
  fixes content :: "'s \<Rightarrow> byte list"
  assumes seek_law: "\<lbrakk>ok s; p < 2 ^ 63\<rbrakk> \<Longrightarrow> \<exists>q s'. s_Seek ops s p Seek_beg = Some (Inr (q, s')) \<and> ok s' \<and>
      rest s' = drop p (content s) \<and> content s' = content s"
    and read_full: "\<lbrakk>ok s; 0 < n; n < 2 ^ 31\<rbrakk> \<Longrightarrow> \<exists>s'. s_ReadBytes ops s n = Some (Inr (take n (rest s), s'))"
    and open_law: "ok s \<Longrightarrow> s_IsOpen ops s"
    and avail_law: "\<lbrakk>ok s; s_Seek ops s 0 Seek_beg = Some (Inr (q, s'))\<rbrakk> \<Longrightarrow> s_BytesAvailable ops s' = length (content s)"

definition fb_ok :: "FileByteStream \<Rightarrow> bool" where
  "fb_ok st \<longleftrightarrow> \<not> fb_eof st \<and> (case fb_file st of None \<Rightarrow> False
     | Some f \<Rightarrow> length (fdata f) \<le> fgood f \<and> length (fdata f) < 2 ^ 63)"

definition fb_content :: "FileByteStream \<Rightarrow> byte list" where
  "fb_content st = (case fb_file st of None \<Rightarrow> [] | Some f \<Rightarrow> fdata f)"

definition fb_rest :: "FileByteStream \<Rightarrow> byte list" where
  "fb_rest st = (case fb_file st of None \<Rightarrow> [] | Some f \<Rightarrow> drop (fpos f) (fdata f))"

lemma fb_okE:
  assumes "fb_ok st"
  obtains f where "fb_file st = Some f" and "length (fdata f) \<le> fgood f" and "\<not> fb_eof st" and "length (fdata f) < 2 ^ 63"
  using assms by (auto simp: fb_ok_def split: option.splits)

lemma File_read_full:
  assumes "fb_ok st" and "0 < n"
  obtains st' where "File_ReadBytes st n = Some (Inr (take n (fb_rest st), st'))" and "fb_ok st'"
    and "fb_rest st' = drop n (fb_rest st)" and "fb_content st' = fb_content st"
proof -
  obtain f where f: "fb_file st = Some f" "length (fdata f) \<le> fgood f" "\<not> fb_eof st" "length (fdata f) < 2 ^ 63"
    by (rule fb_okE [OF assms(1)])
  let ?f' = "f\<lparr>fpos := fpos f + min n (length (fdata f) - fpos f)\<rparr>"
  have fr: "fread n f = (take n (drop (fpos f) (fdata f)), ?f')" using f(2) by (rule fread_healthy)
  show ?thesis
  proof (rule that)
    show "File_ReadBytes st n = Some (Inr (take n (fb_rest st), st\<lparr>fb_file := Some ?f',
        fb_feof := (fb_feof st \<or> length (take n (fb_rest st)) < n \<and> fpos ?f' \<ge> length (fdata ?f'))\<rparr>))"
      using assms(2) f(1) fr by (simp add: File_ReadBytes_def fb_rest_def)
  qed (use f in \<open>auto simp: fb_ok_def fb_rest_def fb_content_def min_def add.commute\<close>)
qed

lemma File_Seek_beg:
  assumes "fb_ok st" and "p < 2 ^ 63"
  obtains st' where "File_Seek st p Seek_beg = Some (Inr (p, st'))" and "fb_ok st'"
    and "fb_rest st' = drop p (fb_content st)" and "fb_content st' = fb_content st"
    and "p = 0 \<longrightarrow> File_BytesAvailable st' = length (fb_content st)"
proof -
  obtain f where f: "fb_file st = Some f" "length (fdata f) \<le> fgood f" "\<not> fb_eof st" "length (fdata f) < 2 ^ 63"
    by (rule fb_okE [OF assms(1)])
  have "int p < 2 ^ 63" using assms(2) by simp
  then have "to_long p = int p" by (simp add: to_long_def Let_def)
  then have "fseeko f (to_long p) SEEK_SET = (0, f\<lparr>fpos := p\<rparr>)" by (simp add: fseeko_def)
  moreover have "unat (of_nat (length (fdata f)) :: u64) = length (fdata f)"
    using f(4) by (simp add: unsigned_of_nat take_bit_nat_eq_self)
  ultimately show ?thesis
    by (intro that [of "st\<lparr>fb_file := Some (f\<lparr>fpos := p\<rparr>), fb_feof := False\<rparr>"])
      (use f in \<open>simp_all add: File_Seek_def dir_whence_def ftello_def fb_ok_def fb_rest_def fb_content_def
        File_BytesAvailable_def\<close>)
qed

lemma file_byte_source: "byte_source (s_ReadBytes file_stream_ops) (s_AtEnd file_stream_ops) fb_ok fb_rest"
proof
  fix st n
  assume a: "fb_ok st" "0 < n" "n < (2 :: nat) ^ 31"
  obtain st' where "File_ReadBytes st n = Some (Inr (take n (fb_rest st), st'))" "fb_ok st'"
    "fb_rest st' = drop n (fb_rest st)"
    by (rule File_read_full [OF a(1,2)])
  with a(2) show "\<exists>bs s'. s_ReadBytes file_stream_ops st n = Some (Inr (bs, s')) \<and> fb_ok s' \<and>
      fb_rest st = bs @ fb_rest s' \<and> length bs \<le> n \<and> (bs = [] \<longrightarrow> fb_rest st = [])"
    by (intro exI [of _ "take n (fb_rest st)"] exI [of _ st']) (simp add: file_stream_ops_def)
qed (simp add: fb_ok_def file_stream_ops_def)

interpretation file_access: random_access file_stream_ops fb_ok fb_rest fb_content
proof (intro random_access.intro random_access_axioms.intro file_byte_source)
  fix st :: FileByteStream and p :: nat
  assume "fb_ok st" "p < 2 ^ 63"
  then obtain st' where "File_Seek st p Seek_beg = Some (Inr (p, st'))" "fb_ok st'"
    "fb_rest st' = drop p (fb_content st)" "fb_content st' = fb_content st"
    by (rule File_Seek_beg)
  then show "\<exists>q s'. s_Seek file_stream_ops st p Seek_beg = Some (Inr (q, s')) \<and> fb_ok s' \<and>
      fb_rest s' = drop p (fb_content st) \<and> fb_content s' = fb_content st"
    by (simp add: file_stream_ops_def)
next
  fix st :: FileByteStream and n :: nat
  assume a: "fb_ok st" "0 < n" "n < 2 ^ 31"
  obtain st' where "File_ReadBytes st n = Some (Inr (take n (fb_rest st), st'))" by (rule File_read_full [OF a(1,2)])
  then show "\<exists>s'. s_ReadBytes file_stream_ops st n = Some (Inr (take n (fb_rest st), s'))"
    by (simp add: file_stream_ops_def)
next
  fix st :: FileByteStream
  assume "fb_ok st"
  then show "s_IsOpen file_stream_ops st" by (auto simp: fb_ok_def file_stream_ops_def File_IsOpen_def split: option.splits)
next
  fix st st' :: FileByteStream and q
  assume ok: "fb_ok st" and "s_Seek file_stream_ops st 0 Seek_beg = Some (Inr (q, st'))"
  then have seek: "File_Seek st 0 Seek_beg = Some (Inr (q, st'))" by (simp add: file_stream_ops_def)
  obtain st1 where s: "File_Seek st 0 Seek_beg = Some (Inr (0, st1))" "0 = (0 :: nat) \<longrightarrow> File_BytesAvailable st1 = length (fb_content st)"
    by (rule File_Seek_beg [OF ok, of 0]) simp_all
  with seek show "s_BytesAvailable file_stream_ops st' = length (fb_content st)" by (simp add: file_stream_ops_def)
qed

end
