(* ===== verification/Filter_Range.thy ===== *)
theory Filter_Range
  imports Filter_Chain File_Stream
begin

text \<open>
  \<^verbatim>\<open>filter_chain_byte_stream_range.{h,cpp}\<close>, the stream that reads ranges of a resource through at most one filter,
  and the class \<^verbatim>\<open>FilterChain\<close> of \<^verbatim>\<open>filter_chain.{h,cpp}\<close>, which makes both kinds of streams.
\<close>

section \<open>The range stream\<close>

record ('i, 'c, 's) FilterChainByteStreamRange =
  r_input :: 's
  r_filter :: "('i, 'c, 's) ContentFilter option"
  r_filterContext :: "'c FilterContext option"

definition new_FilterChainByteStreamRange ::
  "'s \<Rightarrow> ('i, 'c, 's) ContentFilter option \<Rightarrow> 'i option \<Rightarrow> ('i, 'c, 's) FilterChainByteStreamRange cxx" where
  "new_FilterChainByteStreamRange input f item =
     (case (f, item) of
        (Some f', Some item) \<Rightarrow> bind_cxx (MakeFilterContext f' item) (\<lambda>c.
          Inr \<lparr>r_input = input, r_filter = f, r_filterContext = c\<rparr>)
      | _ \<Rightarrow> Inr \<lparr>r_input = input, r_filter = f, r_filterContext = None\<rparr>)"

definition range_BytesAvailable :: "'s SeekableByteStream \<Rightarrow> ('i, 'c, 's) FilterChainByteStreamRange \<Rightarrow> nat" where
  "range_BytesAvailable ops st = (case r_filter st of
       Some f \<Rightarrow> cf_BytesAvailable f (r_input st)
     | None \<Rightarrow> s_BytesAvailable ops (r_input st))"

text \<open>The results below: the count that is returned, the bytes stored at the start of the caller's block, and the stream.\<close>

definition ReadRawBytes ::
  "'s SeekableByteStream \<Rightarrow> ('i, 'c, 's) FilterChainByteStreamRange \<Rightarrow> nat \<Rightarrow> ByteRange \<Rightarrow>
   (nat \<times> byte list \<times> ('i, 'c, 's) FilterChainByteStreamRange) run" where
  "ReadRawBytes ops st len byteRange =
     (if len = 0 then Some (Inr (0, [], st))
      else bind_run (s_Seek ops (r_input st) (if br_isFullRange byteRange then 0 else unat (br_location byteRange)) Seek_beg)
        (\<lambda>(_, s).
          let st = st\<lparr>r_input := s\<rparr>;
              bytesToRead = (if br_isFullRange byteRange then len else min len (unat (br_length byteRange)))
          in if br_isFullRange byteRange \<and> s_BytesAvailable ops s > len then Some (Inr (0, [], st))
             else if bytesToRead = 0 then Some (Inr (0, [], st))
             else bind_run (s_ReadBytes ops s bytesToRead) (\<lambda>(bs, s).
               Some (Inr (length bs, bs, st\<lparr>r_input := s\<rparr>)))))"

text \<open>
  Lines 118 to 150. Without a range context the filter was given a local buffer that is gone by now:
  a filter that worked in place returned a pointer to it.
\<close>

definition copy_result :: "nat \<Rightarrow> byte list \<Rightarrow> nat \<Rightarrow> (nat \<times> byte list) cxx" where
  "copy_result len m n =
     (if n = 0 then Inr (0, [])
      else bind_cxx (must (mem_load m 0 (min len n))) (\<lambda>bs. Inr (n, bs)))"

definition range_result :: "nat \<Rightarrow> 'c FilterContext option \<Rightarrow> filter_result \<Rightarrow> (nat \<times> byte list) cxx" where
  "range_result len c r =
     (case r of
        Null \<Rightarrow> Inr (0, [])
      | In_place m n \<Rightarrow> Inl Undefined
      | Temporary n \<Rightarrow> bind_cxx (temporary_block c) (\<lambda>m. copy_result len m n)
      | New_block m n \<Rightarrow> copy_result len m n)"

definition range_filter_bytes ::
  "'s SeekableByteStream \<Rightarrow> heap_env \<Rightarrow> bool \<Rightarrow> ('i, 'c, 's) ContentFilter \<Rightarrow>
   ('i, 'c, 's) FilterChainByteStreamRange \<Rightarrow> nat \<Rightarrow> ByteRange \<Rightarrow>
   (nat \<times> byte list \<times> ('i, 'c, 's) FilterChainByteStreamRange) run" where
  "range_filter_bytes ops env g f st len byteRange =
     (if is_range_context (r_filterContext st)
      then (let c = update_range (\<lambda>rc. rc\<lparr>rc_byteRange := ByteRange_assign byteRange, rc_byteStream := True\<rparr>)
                      (r_filterContext st) in
        bind_run (FilterData f c (r_input st) None) (\<lambda>(r, c, s).
          let c = update_range (\<lambda>rc. rc\<lparr>rc_byteRange := ByteRange_Reset, rc_byteStream := False\<rparr>) c in
          bind_run (Some (range_result len c r)) (\<lambda>(k, bs).
            Some (Inr (k, bs, st\<lparr>r_input := s, r_filterContext := c\<rparr>)))))
      else
        bind_run (s_ReadBytes ops (r_input st) len) (\<lambda>(bs, s).
          if bs = [] then Some (Inr (0, [], st\<lparr>r_input := s\<rparr>))
          else bind_run (Some (ByteBuffer_of_bytes env g bs (length bs))) (\<lambda>buf.
            bind_run (FilterData f (r_filterContext st) s (Some (bb_abs buf))) (\<lambda>(r, c, s).
              bind_run (Some (range_result len c r)) (\<lambda>(k, bs).
                Some (Inr (k, bs, st\<lparr>r_input := s, r_filterContext := c\<rparr>)))))))"

definition range_ReadBytes ::
  "'s SeekableByteStream \<Rightarrow> heap_env \<Rightarrow> bool \<Rightarrow> ('i, 'c, 's) FilterChainByteStreamRange \<Rightarrow> nat \<Rightarrow> ByteRange \<Rightarrow>
   (nat \<times> byte list \<times> ('i, 'c, 's) FilterChainByteStreamRange) run" where
  "range_ReadBytes ops env g st len byteRange =
     (if len = 0 then Some (Inr (0, [], st))
      else if br_length byteRange = 0 \<and> \<not> br_isFullRange byteRange then Some (Inr (0, [], st))
      else if unat (br_length byteRange) > len \<and> \<not> br_isFullRange byteRange then Some (Inr (0, [], st))
      else case r_filter st of
        None \<Rightarrow> ReadRawBytes ops st len byteRange
      | Some f \<Rightarrow> range_filter_bytes ops env g f st len byteRange)"

definition range_ReadBytes_full ::
  "'s SeekableByteStream \<Rightarrow> heap_env \<Rightarrow> bool \<Rightarrow> ('i, 'c, 's) FilterChainByteStreamRange \<Rightarrow> nat \<Rightarrow>
   (nat \<times> byte list \<times> ('i, 'c, 's) FilterChainByteStreamRange) run" where
  "range_ReadBytes_full ops env g st len = range_ReadBytes ops env g st len ByteRange_Reset"

section \<open>Making the streams\<close>

definition GetFilterChainByteStream ::
  "('i, 'c, 's) ContentFilter list \<Rightarrow> 'i \<Rightarrow> 's \<Rightarrow> ('i, 'c, 's) FilterChainByteStream cxx" where
  "GetFilterChainByteStream fs item rawInput =
     new_FilterChainByteStream rawInput (filter (\<lambda>f. TypeSniffer f item) fs) item"

text \<open>The loop of \<open>GetFilterChainByteStreamRange\<close>: the number of filters that apply, and the stream made so far.\<close>

fun range_loop ::
  "('i, 'c, 's) ContentFilter list \<Rightarrow> 'i \<Rightarrow> 's \<Rightarrow> nat \<Rightarrow> ('i, 'c, 's) FilterChainByteStreamRange option \<Rightarrow>
   (nat \<times> ('i, 'c, 's) FilterChainByteStreamRange option) cxx" where
  "range_loop [] item rawInput n r = Inr (n, r)"
| "range_loop (f # fs) item rawInput n r =
     (if \<not> TypeSniffer f item then range_loop fs item rawInput n r
      else if n + 1 > 1 then range_loop fs item rawInput (n + 1) r
      else if GetOperatingMode f = SupportsByteRanges
      then bind_cxx (new_FilterChainByteStreamRange rawInput (Some f) (Some item)) (\<lambda>st.
             range_loop fs item rawInput (n + 1) (Some st))
      else range_loop fs item rawInput (n + 1) r)"

definition GetFilterChainByteStreamRange ::
  "('i, 'c, 's) ContentFilter list \<Rightarrow> 'i \<Rightarrow> 's \<Rightarrow> ('i, 'c, 's) FilterChainByteStreamRange option cxx" where
  "GetFilterChainByteStreamRange fs item rawInput =
     bind_cxx (range_loop fs item rawInput 0 None) (\<lambda>(nFilters, r).
       if nFilters > 1 then Inr None
       else case r of
         Some st \<Rightarrow> Inr (Some st)
       | None \<Rightarrow> bind_cxx (new_FilterChainByteStreamRange rawInput None None) (\<lambda>st. Inr (Some st)))"

fun GetFilterChainSize :: "('i, 'c, 's) ContentFilter list \<Rightarrow> 'i \<Rightarrow> nat" where
  "GetFilterChainSize [] item = 0"
| "GetFilterChainSize (f # fs) item = (if TypeSniffer f item then 1 else 0) + GetFilterChainSize fs item"

section \<open>Which stream is made\<close>

lemma GetFilterChainSize_filter: "GetFilterChainSize fs item = length (filter (\<lambda>f. TypeSniffer f item) fs)"
  by (induction fs) simp_all

lemma range_loop_later:
  "0 < n \<Longrightarrow> range_loop fs item s n r = Inr (n + GetFilterChainSize fs item, r)"
  by (induction fs arbitrary: n) simp_all

lemma range_loop_first:
  "range_loop fs item s 0 None =
     (case filter (\<lambda>f. TypeSniffer f item) fs of
        [] \<Rightarrow> Inr (0, None)
      | f # rest \<Rightarrow>
          if GetOperatingMode f = SupportsByteRanges
          then bind_cxx (new_FilterChainByteStreamRange s (Some f) (Some item)) (\<lambda>st. Inr (1 + length rest, Some st))
          else Inr (1 + length rest, None))"
  by (induction fs) (simp_all add: range_loop_later GetFilterChainSize_filter)

section \<open>Ranges of a stream with random access\<close>

context random_access
begin

lemma ReadRawBytes_range:
  assumes "ok (r_input st)" and "\<not> br_isFullRange byteRange" and "br_length byteRange \<noteq> 0" and "unat (br_length byteRange) \<le> len"
    and "unat (br_length byteRange) < 2 ^ 31"
  shows "\<exists>st'. ReadRawBytes ops st len byteRange =
    (let d = take (unat (br_length byteRange)) (drop (unat (br_location byteRange)) (content (r_input st)))
     in Some (Inr (length d, d, st')))"
proof -
  have "unat (br_location byteRange) < 2 ^ 63" using unat32_bound [of "br_location byteRange"] by simp
  from seek_law [OF assms(1) this] obtain q s where
    s: "s_Seek ops (r_input st) (unat (br_location byteRange)) Seek_beg = Some (Inr (q, s))" "ok s"
      "rest s = drop (unat (br_location byteRange)) (content (r_input st))" by blast
  have n: "0 < unat (br_length byteRange)" using assms(3) by (simp add: unat_gt_0)
  obtain s' where "s_ReadBytes ops s (unat (br_length byteRange)) = Some (Inr (take (unat (br_length byteRange)) (rest s), s'))"
    using read_full [OF s(2) n assms(5)] by blast
  with s(1,3) assms(2,4) n show ?thesis by (simp add: ReadRawBytes_def min_def Let_def)
qed

lemma range_read_temporary:
  assumes "ok s" and "rc_ok rc" and "0 < n" and "n < 2 ^ 31"
  shows "\<exists>rc' b s'. read_temporary ops junk rc n s = Some (Inr (length (take n (rest s)), rc', s')) \<and>
    rc_buffer rc' = Some b \<and> take (length (take n (rest s))) b = take n (rest s) \<and> length (take n (rest s)) \<le> length b"
proof -
  obtain k c' where k: "n \<le> k" "GetAllocateTemporaryByteBuffer junk rc n = Inr (replicate k 0, c')"
    using GetAllocateTemporaryByteBuffer_ok [OF assms(2), of n junk] by blast
  obtain s' where r: "s_ReadBytes ops s n = Some (Inr (take n (rest s), s'))" using read_full [OF assms(1,3,4)] by blast
  let ?b = "take n (rest s) @ drop (length (take n (rest s))) (replicate k 0)"
  have "mem_store (replicate k 0) 0 (take n (rest s)) = Some ?b" using k(1) by (simp add: mem_store_def)
  with k(2) r show ?thesis
    by (intro exI [of _ "c'\<lparr>rc_buffer := Some ?b\<rparr>"] exI [of _ ?b] exI [of _ s'])
      (simp add: read_temporary_def min_def)
qed

text \<open>The request of the pass-through filter: the bytes it has to read, from where the stream then stands.\<close>

definition requested :: "ByteRange \<Rightarrow> 's \<Rightarrow> byte list" where
  "requested r s = (if br_isFullRange r then content s else take (unat (br_length r)) (drop (unat (br_location r)) (content s)))"

lemma range_request_ok:
  assumes "ok s"
  obtains n s' where "range_request ops r s = Some (Inr (n, s'))" and "ok s'" and "take n (rest s') = requested r s"
    and "n = (if br_isFullRange r then length (content s) else unat (br_length r))"
proof -
  let ?p = "if br_isFullRange r then 0 else unat (br_location r)"
  have "?p < 2 ^ 63" using unat32_bound [of "br_location r"] by simp
  from seek_law [OF assms this] obtain q s' where
    s: "s_Seek ops s ?p Seek_beg = Some (Inr (q, s'))" "ok s'" "rest s' = drop ?p (content s)" by blast
  show ?thesis
  proof (cases "br_isFullRange r")
    case True
    with s(1) have "s_Seek ops s 0 Seek_beg = Some (Inr (q, s'))" by simp
    with avail_law [OF assms this] True s show ?thesis
      by (intro that [of "length (content s)" s']) (simp_all add: range_request_def requested_def)
  next
    case False
    with s show ?thesis by (intro that [of "unat (br_length r)" s']) (simp_all add: range_request_def requested_def)
  qed
qed

lemma PassThrough_range:
  assumes "ok s" and "rc_ok rc" and "rc_byteStream rc" and "requested (rc_byteRange rc) s = d"
    and "br_isFullRange (rc_byteRange rc) \<longrightarrow> 0 < length (content s) \<and> length (content s) < 2 ^ 31"
    and "\<not> br_isFullRange (rc_byteRange rc) \<longrightarrow> 0 < unat (br_length (rc_byteRange rc)) \<and> unat (br_length (rc_byteRange rc)) < 2 ^ 31"
  shows "\<exists>rc' b s'. PassThrough_FilterData ops junk (Some \<lparr>fc_class = PassThroughContext, fc_range = Some rc\<rparr>) s None =
      Some (Inr (Temporary (length d), Some \<lparr>fc_class = PassThroughContext, fc_range = Some rc'\<rparr>, s')) \<and>
    rc_buffer rc' = Some b \<and> take (length d) b = d \<and> length d \<le> length b"
proof -
  obtain n s1 where r: "range_request ops (rc_byteRange rc) s = Some (Inr (n, s1))" "ok s1" "take n (rest s1) = d"
      "n = (if br_isFullRange (rc_byteRange rc) then length (content s) else unat (br_length (rc_byteRange rc)))"
    using range_request_ok [OF assms(1), of "rc_byteRange rc"] assms(4) by metis
  have n: "0 < n" "n < 2 ^ 31" using r(4) assms(5,6) by (simp_all split: if_splits)
  obtain rc' b s' where t: "read_temporary ops junk rc n s1 = Some (Inr (length (take n (rest s1)), rc', s'))"
      "rc_buffer rc' = Some b" "take (length (take n (rest s1))) b = take n (rest s1)" "length (take n (rest s1)) \<le> length b"
    using range_read_temporary [OF r(2) assms(2) n] by blast
  have "PassThrough_FilterData ops junk (Some \<lparr>fc_class = PassThroughContext, fc_range = Some rc\<rparr>) s None =
      Some (Inr (Temporary (length d), Some \<lparr>fc_class = PassThroughContext, fc_range = Some rc'\<rparr>, s'))"
    using assms(3) open_law [OF assms(1)] r(1) t(1) n unfolding r(3)
    by (simp add: PassThrough_FilterData_def as_PassThroughContext_def)
  with t(2-4) show ?thesis unfolding r(3) by blast
qed

text \<open>The whole read through the pass-through filter: what is counted and what is copied.\<close>

lemma PassThrough_read:
  fixes st :: "('i, 'c, 's) FilterChainByteStreamRange"
  assumes "ok (r_input st)" and "r_filter st = Some (PassThroughFilter ops junk)"
    and "r_filterContext st = Some \<lparr>fc_class = PassThroughContext, fc_range = Some rc\<rparr>" and "rc_ok rc"
    and "requested byteRange (r_input st) = d"
    and "br_isFullRange byteRange \<longrightarrow> 0 < length (content (r_input st)) \<and> length (content (r_input st)) < 2 ^ 31"
    and "\<not> br_isFullRange byteRange \<longrightarrow> 0 < unat (br_length byteRange) \<and> unat (br_length byteRange) < 2 ^ 31 \<and>
      unat (br_length byteRange) \<le> len"
    and "0 < len"
  shows "\<exists>st'. range_ReadBytes ops env g st len byteRange = Some (Inr (length d, take len d, st'))"
proof -
  define rc1 where "rc1 = rc\<lparr>rc_byteRange := ByteRange_assign byteRange, rc_byteStream := True\<rparr>"
  have full: "br_isFullRange (rc_byteRange rc1) = br_isFullRange byteRange"
    "\<not> br_isFullRange byteRange \<longrightarrow> br_length (rc_byteRange rc1) = br_length byteRange"
    "requested (rc_byteRange rc1) (r_input st) = d"
    using assms(5) by (auto simp: rc1_def ByteRange_assign_def ByteRange_Reset_def requested_def)
  have rc1: "rc_ok rc1" "rc_byteStream rc1" using assms(4) by (auto simp: rc1_def rc_ok_def split: option.splits)
  obtain rc' b s' where p: "PassThrough_FilterData ops junk
        (Some \<lparr>fc_class = PassThroughContext, fc_range = Some rc1\<rparr> :: 'c FilterContext option) (r_input st) None = Some (Inr (Temporary (length d), Some \<lparr>fc_class = PassThroughContext, fc_range = Some rc'\<rparr>, s'))"
      "rc_buffer rc' = Some b" "take (length d) b = d" "length d \<le> length b"
    using PassThrough_range [OF assms(1) rc1 full(3), of junk] assms(6,7) full(1,2) by (auto split: if_splits)
  have "take (min len (length d)) b = take len d" using p(3) by (metis min.commute take_take)
  moreover have "min len (length d) \<le> length b" using p(4) by simp
  ultimately have cr: "copy_result len b (length d) = Inr (length d, take len d)"
    by (simp add: copy_result_def mem_load_def)
  have "br_length byteRange \<noteq> 0 \<or> br_isFullRange byteRange" using assms(7) by auto
  then show ?thesis
    using assms(2,3,7,8) p(1,2) cr
    by (auto simp: range_ReadBytes_def range_filter_bytes_def is_range_context_def update_range_def rc1_def
      PassThroughFilter_def range_result_def temporary_block_def)
qed

end

section \<open>Properties\<close>

text \<open>C10: a request for a range of a file, through the pass-through filter or without a filter, delivers exactly the bytes of
  the file in that range, cut off at the end of the file, and returns their number.\<close>

theorem range_read_correct:
  fixes f :: "('i, 'c, FileByteStream) ContentFilter option"
  assumes "fb_ok input" and "f = None \<or> f = Some (PassThroughFilter file_stream_ops junk)"
    and "\<not> br_isFullRange byteRange" and "br_length byteRange \<noteq> 0" and "unat (br_length byteRange) \<le> len"
    and "unat (br_length byteRange) < 2 ^ 31"
    and "new_FilterChainByteStreamRange input f (Some item) = Inr st"
    and "d = take (unat (br_length byteRange)) (drop (unat (br_location byteRange)) (fb_content input))"
  shows "\<exists>st'. range_ReadBytes file_stream_ops env g st len byteRange = Some (Inr (length d, d, st'))"
proof -
  have len: "0 < unat (br_length byteRange)" using assms(4) by (simp add: unat_gt_0)
  have req: "file_access.requested byteRange input = d" using assms(3,8) by (simp add: file_access.requested_def)
  from assms(2) show ?thesis
  proof
    assume "f = None"
    with assms(7) have st: "r_input st = input" "r_filter st = None" by (auto simp: new_FilterChainByteStreamRange_def)
    then show ?thesis
      using file_access.ReadRawBytes_range [of st byteRange len] assms(1,3-6,8) len by (simp add: range_ReadBytes_def Let_def)
  next
    assume "f = Some (PassThroughFilter file_stream_ops junk)"
    with assms(7) have st: "r_input st = input" "r_filter st = Some (PassThroughFilter file_stream_ops junk)"
        "r_filterContext st = Some \<lparr>fc_class = PassThroughContext, fc_range = Some new_RangeFilterContext\<rparr>"
      by (auto simp: new_FilterChainByteStreamRange_def MakeFilterContext_def PassThroughFilter_def is_range_context_def)
    have "rc_ok new_RangeFilterContext" by (simp add: rc_ok_def new_RangeFilterContext_def)
    moreover have "take len d = d" using assms(5,8) by simp
    ultimately show ?thesis
      using file_access.PassThrough_read [OF _ st(2,3), of byteRange d len env g] assms(1,3,5,6) st(1) req len by simp
  qed
qed

definition range_file :: FileByteStream where
  "range_file = \<lparr>fb_file = Some \<lparr>fdata = [1, 2, 3, 4, 5], fpos = 4, ferr = False, fgood = 10, fcap = 10, ferrno = 0\<rparr>,
     fb_feof = False, fb_mode = append_mode, fb_eof = False, fb_err = 0\<rparr>"

lemma range_file_ok: "fb_ok range_file" "fb_content range_file = [1, 2, 3, 4, 5]"
  by (simp_all add: range_file_def fb_ok_def fb_content_def)

theorem range_read_correct_witness:
  "\<exists>st st'. new_FilterChainByteStreamRange range_file
      (Some (PassThroughFilter file_stream_ops (\<lambda>_. 9)) :: (unit, unit, FileByteStream) ContentFilter option) (Some ()) = Inr st \<and>
    range_ReadBytes file_stream_ops sample_env False st 10 \<lparr>br_location = 2, br_length = 8, br_isFullRange = False\<rparr> =
      Some (Inr (3, [3, 4, 5], st'))"
proof -
  let ?f = "PassThroughFilter file_stream_ops (\<lambda>_. 9) :: (unit, unit, FileByteStream) ContentFilter"
  obtain st where st: "new_FilterChainByteStreamRange range_file (Some ?f) (Some ()) = Inr st"
    by (simp add: new_FilterChainByteStreamRange_def MakeFilterContext_def PassThroughFilter_def is_range_context_def)
  with range_read_correct [OF range_file_ok(1), of "Some ?f" "\<lambda>_. 9" "\<lparr>br_location = 2, br_length = 8, br_isFullRange = False\<rparr>"
      10 "()" st "[3, 4, 5]" sample_env False] show ?thesis
    by (simp add: range_file_ok(2) numeral_3_eq_3)
qed

text \<open>which stream serves range requests. The filters that apply to the item decide: with two or more of them there is no
  stream; a single one that supports ranges is used; a single one that does not is left out, and the stream delivers
  the bytes as they are in the archive; so does the stream when no filter applies.\<close>

theorem range_stream_choice:
  fixes fs :: "('i, 'c, 's) ContentFilter list"
  shows "GetFilterChainByteStreamRange fs item input =
    (let raw = Inr (Some \<lparr>r_input = input, r_filter = None, r_filterContext = None\<rparr>) in
     case filter (\<lambda>f. TypeSniffer f item) fs of
       [] \<Rightarrow> raw
     | [f] \<Rightarrow> if GetOperatingMode f = SupportsByteRanges
              then bind_cxx (MakeFilterContext f item) (\<lambda>c. Inr (Some \<lparr>r_input = input, r_filter = Some f, r_filterContext = c\<rparr>))
              else raw
     | f # _ \<Rightarrow> if GetOperatingMode f = SupportsByteRanges then bind_cxx (MakeFilterContext f item) (\<lambda>_. Inr None) else Inr None)"
  by (cases "MakeFilterContext (hd (filter (\<lambda>f. TypeSniffer f item) fs)) item")
    (auto simp: GetFilterChainByteStreamRange_def range_loop_first new_FilterChainByteStreamRange_def Let_def split: list.splits)

text \<open>A full range through the pass-through filter: the count returned is the size of the file even when the caller's
  block is smaller and only its size was copied.\<close>

lemma range_read_overcount:
  assumes "fb_ok input" and "0 < len" and "len < length (fb_content input)" and "length (fb_content input) < 2 ^ 31"
    and "new_FilterChainByteStreamRange input
      (Some (PassThroughFilter file_stream_ops junk) :: ('i, 'c, FileByteStream) ContentFilter option) (Some item) = Inr st"
  shows "\<exists>st'. range_ReadBytes_full file_stream_ops env g st len =
    Some (Inr (length (fb_content input), take len (fb_content input), st'))"
proof -
  have st: "r_input st = input" "r_filter st = Some (PassThroughFilter file_stream_ops junk)"
      "r_filterContext st = Some \<lparr>fc_class = PassThroughContext, fc_range = Some new_RangeFilterContext\<rparr>"
    using assms(5)
    by (auto simp: new_FilterChainByteStreamRange_def MakeFilterContext_def PassThroughFilter_def is_range_context_def)
  have "rc_ok new_RangeFilterContext" by (simp add: rc_ok_def new_RangeFilterContext_def)
  moreover have "br_isFullRange ByteRange_Reset" by (simp add: ByteRange_Reset_def)
  moreover have "0 < length (fb_content input)" using assms(3) by (rule le_less_trans [OF le0])
  ultimately show ?thesis
    unfolding range_ReadBytes_full_def
    using file_access.PassThrough_read [OF _ st(2,3), of ByteRange_Reset "fb_content input" len env g] assms(1-4) st(1)
    by (simp add: file_access.requested_def)
qed

end
