(* ===== verification/Epub_Archive.thy ===== *)
theory Epub_Archive
  imports Byte_Stream
begin

text \<open>
  Archives as the library sees them: \<^verbatim>\<open>ePub/archive.{h,cpp}\<close>, the registry of archive types, and
  \<^verbatim>\<open>ePub/zip_archive.{h,cpp}\<close>, the items of a ZIP archive over libzip.  A path is a list of bytes;
  \<open>unescape\<close> is the decoding of URL escapes that \<open>Sanitized\<close> calls.
\<close>

section \<open>Items\<close>

record ArchiveItemInfo =
  ai_path :: "byte list"
  ai_isCompressed :: bool
  ai_compressedSize :: nat
  ai_uncompressedSize :: nat

text \<open>Sizes are stored as \<^verbatim>\<open>off_t\<close> and converted to \<^verbatim>\<open>size_t\<close>.\<close>

definition ZipItemInfo :: "zip_stat \<Rightarrow> ArchiveItemInfo cxx" where
  "ZipItemInfo info = bind_cxx (must (st_name info)) (\<lambda>name.
     Inr \<lparr>ai_path = name, ai_isCompressed = (st_comp_method info = ZIP_CM_STORE),
          ai_compressedSize = nat (st_comp_size info mod 2 ^ 64), ai_uncompressedSize = nat (st_size info mod 2 ^ 64)\<rparr>)"

definition item_name :: "(byte list \<Rightarrow> byte list) \<Rightarrow> byte list \<Rightarrow> byte list" where
  "item_name unescape path = c_str (Sanitized unescape path)"

text \<open>The infos passed to the callback of \<open>EachItem\<close>; \<open>zinfo\<close> is one variable for all items.\<close>

fun each_item_loop :: "'u zip \<Rightarrow> nat \<Rightarrow> nat \<Rightarrow> zip_stat \<Rightarrow> (ArchiveItemInfo list \<times> 'u zip) run" where
  "each_item_loop za i 0 zinfo = Some (Inr ([], za))"
| "each_item_loop za i (Suc n) zinfo =
     (case zip_stat_index za (int i) 0 zinfo of
        None \<Rightarrow> None
      | Some (Inl _, za) \<Rightarrow> Some (Inl Undefined)
      | Some (Inr None, za) \<Rightarrow> each_item_loop za (Suc i) n zinfo
      | Some (Inr (Some zinfo), za) \<Rightarrow>
          bind_run (Some (ZipItemInfo zinfo)) (\<lambda>info.
          bind_run (each_item_loop za (Suc i) n zinfo) (\<lambda>(infos, za). Some (Inr (info # infos, za)))))"

definition EachItem :: "'u zip \<Rightarrow> (ArchiveItemInfo list \<times> 'u zip) run" where
  "EachItem za = each_item_loop za 0 (nat (zip_get_num_files (Some za))) zip_stat_init"

definition ContainsItem :: "(byte list \<Rightarrow> byte list) \<Rightarrow> 'u zip \<Rightarrow> byte list \<Rightarrow> (bool \<times> 'u zip) cxx" where
  "ContainsItem unescape za path =
     (case zip_name_locate za (Some (item_name unescape path)) 0 of
        (Inl _, za) \<Rightarrow> Inl Undefined
      | (Inr r, za) \<Rightarrow> Inr (r \<ge> 0, za))"

definition DeleteItem :: "(byte list \<Rightarrow> byte list) \<Rightarrow> 'u zip \<Rightarrow> byte list \<Rightarrow> (bool \<times> 'u zip) cxx" where
  "DeleteItem unescape za path =
     (case zip_name_locate za (Some (item_name unescape path)) 0 of
        (Inl _, za) \<Rightarrow> Inl Undefined
      | (Inr idx, za) \<Rightarrow>
          if idx \<ge> 0 then (case zip_delete za idx of (r, za) \<Rightarrow> Inr (r \<ge> 0, za)) else Inr (False, za))"

text \<open>\<open>empty_source\<close> is the source that \<open>zip_add_dir\<close> makes.\<close>

definition CreateFolder ::
  "clib \<Rightarrow> (byte list \<Rightarrow> byte list) \<Rightarrow> 'u zip_source option \<Rightarrow> 'u zip \<Rightarrow> byte list \<Rightarrow> (bool \<times> 'u zip) cxx" where
  "CreateFolder lib unescape empty_source za path =
     (case zip_add_dir lib za (Some (item_name unescape path)) empty_source of
        (Inl _, za) \<Rightarrow> Inl Undefined
      | (Inr r, za) \<Rightarrow> Inr (r \<ge> 0, za))"

definition ByteStreamAtPath ::
  "clib \<Rightarrow> 's zlib \<Rightarrow> (byte list \<Rightarrow> byte list) \<Rightarrow> 'u zip \<Rightarrow> byte list \<Rightarrow> ('s, 'u) ZipFileByteStream cxx" where
  "ByteStreamAtPath lib z unescape za path =
     bind_cxx (Zip_Open lib z unescape (new_ZipFileByteStream za) path 0) (\<lambda>(_, st). Inr st)"

definition InfoAtPath ::
  "(byte list \<Rightarrow> byte list) \<Rightarrow> ('u zip \<Rightarrow> string) \<Rightarrow> (byte list \<Rightarrow> string) \<Rightarrow> zip_stat \<Rightarrow> 'u zip \<Rightarrow> byte list \<Rightarrow>
   (ArchiveItemInfo \<times> 'u zip) run" where
  "InfoAtPath unescape strerr text_of sbuf za path =
     map_option (\<lambda>a. case a of
        (Inl _, za) \<Rightarrow> Inl Undefined
      | (Inr None, za) \<Rightarrow> Inl (Throws (Runtime_error (''zip_stat('' @ text_of path @ '') - '' @ strerr za)))
      | (Inr (Some st), za) \<Rightarrow> bind_cxx (ZipItemInfo st) (\<lambda>info. Inr (info, za)))
     (zip_stat_name za (Some (item_name unescape path)) 0 sbuf)"

section \<open>Readers and writers\<close>

record 's ZipReader =
  zr_file :: "'s zip_file"
  zr_total_size :: nat

definition ReaderAtPath ::
  "clib \<Rightarrow> 's zlib \<Rightarrow> (byte list \<Rightarrow> byte list) \<Rightarrow> 'u zip \<Rightarrow> byte list \<Rightarrow> ('s ZipReader option \<times> 'u zip) cxx" where
  "ReaderAtPath lib z unescape za path =
     (case zip_fopen lib z za (Some (item_name unescape path)) 0 of
        (Inl _, za) \<Rightarrow> Inl Undefined
      | (Inr f, za) \<Rightarrow>
          Inr (map_option (\<lambda>zf. \<lparr>zr_file = zf, zr_total_size = unat (zf_bytes_left zf)\<rparr>) f, za))"

definition reader_not :: "'s ZipReader \<Rightarrow> bool" where
  "reader_not r = (zf_bytes_left (zr_file r) = 0)"

definition reader_position :: "'s ZipReader \<Rightarrow> nat" where
  "reader_position r = unat (of_nat (zr_total_size r) - zf_bytes_left (zr_file r))"

definition reader_read :: "'s zlib \<Rightarrow> 's ZipReader \<Rightarrow> cfile \<Rightarrow> nat \<Rightarrow> (int \<times> byte list \<times> 's ZipReader \<times> cfile) run" where
  "reader_read z r fp len =
     (case zip_fread z len (zr_file r) fp of
        None \<Rightarrow> None
      | Some (Inl _) \<Rightarrow> Some (Inl Undefined)
      | Some (Inr (n, bs, zf, fp)) \<Rightarrow> Some (Inr (n, bs, r\<lparr>zr_file := zf\<rparr>, fp)))"

text \<open>\<open>WriterAtPath\<close>: whether a writer is made, which then owns \<open>source\<close>, the result of \<open>zip_source_function\<close>.\<close>

definition WriterAtPath ::
  "clib \<Rightarrow> (byte list \<Rightarrow> byte list) \<Rightarrow> 'u zip_source option \<Rightarrow> 'u zip \<Rightarrow> byte list \<Rightarrow> bool \<Rightarrow> (bool \<times> 'u zip) cxx" where
  "WriterAtPath lib unescape source za path create =
     (case zip_name_locate za (Some (item_name unescape path)) (if create then ZIP_CREATE else 0) of
        (Inl _, za) \<Rightarrow> Inl Undefined
      | (Inr idx, za) \<Rightarrow>
          if idx = -1 then Inr (False, za)
          else (case zip_replace lib za idx source of (r, za) \<Rightarrow> Inr (r \<noteq> -1, za)))"

section \<open>The registry of archive types\<close>

text \<open>Paths here are strings of characters, whose positions \<open>rfind\<close> and \<open>size\<close> count; sizes are 64-bit.\<close>

definition str_npos :: u64 where "str_npos = - 1"

fun rfind_from :: "nat \<Rightarrow> string \<Rightarrow> string \<Rightarrow> u64" where
  "rfind_from 0 p s = (if take (length p) s = p then 0 else str_npos)"
| "rfind_from (Suc i) p s = (if take (length p) (drop (Suc i) s) = p then of_nat (Suc i) else rfind_from i p s)"

definition str_rfind :: "string \<Rightarrow> string \<Rightarrow> u64" where
  "str_rfind s p = (if length s < length p then str_npos else rfind_from (length s - length p) p s)"

record 'a ArchiveFactory =
  af_creator :: "string \<Rightarrow> 'a option"
  af_typeSniffer :: "string \<Rightarrow> bool"

definition RegisterArchive :: "(string \<Rightarrow> 'a option) \<Rightarrow> (string \<Rightarrow> bool) \<Rightarrow> 'a ArchiveFactory list \<Rightarrow> 'a ArchiveFactory list" where
  "RegisterArchive creator sniffer d = \<lparr>af_creator = creator, af_typeSniffer = sniffer\<rparr> # d"

definition has_suffix :: "string \<Rightarrow> string \<Rightarrow> bool" where
  "has_suffix ext path \<longleftrightarrow> str_rfind path ext = of_nat (length path) - of_nat (length ext)"

definition Archive_Initialize :: "(string \<Rightarrow> 'a option) \<Rightarrow> 'a ArchiveFactory list \<Rightarrow> 'a ArchiveFactory list" where
  "Archive_Initialize new_ZipArchive d =
     RegisterArchive new_ZipArchive (has_suffix ''.epub'') (RegisterArchive new_ZipArchive (has_suffix ''.zip'') d)"

fun Archive_Open :: "'a ArchiveFactory list \<Rightarrow> string \<Rightarrow> 'a option" where
  "Archive_Open [] path = None"
| "Archive_Open (f # fs) path = (if af_typeSniffer f path then af_creator f path else Archive_Open fs path)"

text \<open>\<open>find(s, 0, n)\<close> looks for the first \<open>n\<close> characters of \<open>s\<close> from position 0 on.\<close>

fun str_contains :: "string \<Rightarrow> string \<Rightarrow> bool" where
  "str_contains [] p = (p = [])"
| "str_contains (c # s) p = (take (length p) (c # s) = p \<or> str_contains s p)"

definition ShouldCompress :: "string \<Rightarrow> nat \<Rightarrow> bool" where
  "ShouldCompress mimeType size' =
     (if str_contains mimeType ''image/'' \<and> \<not> str_contains mimeType ''bmp'' then False
      else if str_contains mimeType ''video/'' then False
      else if str_contains mimeType ''audio/'' then False
      else if size' < 1024 then False
      else True)"

section \<open>Lookup\<close>

lemma zip_name_locate_0: "\<exists>e. zip_name_locate za (Some n) 0 = (Inr (locate za n), za\<lparr>za_error := e\<rparr>)"
proof -
  have "fst (name_locate_loop za n 0 0 (length (za_entry za)) (Some (za_error za))) = locate za n"
    by (simp add: locate_def name_locate_loop_slots)
  then show ?thesis by (simp add: zip_name_locate_def zip_name_locate_e_def case_prod_beta) blast
qed

lemma locate_error [simp]: "locate (za\<lparr>za_error := e\<rparr>) n = locate za n"
  by (rule locate_cong) simp_all

lemma cur_names_error [simp]: "cur_names (za\<lparr>za_error := e\<rparr>) = cur_names za"
  by (rule cur_names_cong) simp_all

lemma locate_present: "locate za n \<ge> 0 \<longleftrightarrow> Some n \<in> set (cur_names za)"
  using archive_names.find_absent [of za n] archive_names.find_cases [of za n] by (metis of_nat_0_le_iff neg_0_le_iff_le not_one_le_zero)

section \<open>The archive as a set of names\<close>

definition items :: "'u zip \<Rightarrow> byte list set" where
  "items za = {n. Some n \<in> set (cur_names za)}"

definition folder_name :: "byte list \<Rightarrow> byte list" where
  "folder_name name = (if last name \<noteq> 0x2f then name @ [0x2f] else name)"

lemma locate_items: "locate za n \<ge> 0 \<longleftrightarrow> n \<in> items za"
  by (simp add: items_def locate_present)

lemma ContainsItem_items:
  "\<exists>za'. ContainsItem unescape za path = Inr (item_name unescape path \<in> items za, za') \<and> items za' = items za"
  using zip_name_locate_0 [of za "item_name unescape path"] by (auto simp: ContainsItem_def locate_items items_def)

lemma set_update_None:
  assumes "keys_distinct xs" and "i < length xs" and "xs ! i = Some n"
  shows "Some m \<in> set (xs[i := None]) \<longleftrightarrow> Some m \<in> set xs \<and> m \<noteq> n"
proof
  assume "Some m \<in> set (xs[i := None])"
  then obtain j where j: "j < length xs" "xs[i := None] ! j = Some m" by (auto simp: in_set_conv_nth)
  then have "j \<noteq> i" using assms(2) by auto
  with j have m: "xs ! j = Some m" by simp
  with j(1) have "Some m \<in> set xs" by (metis nth_mem)
  with j(1) m \<open>j \<noteq> i\<close> assms show "Some m \<in> set xs \<and> m \<noteq> n" by (auto simp: keys_distinct_def)
next
  assume m: "Some m \<in> set xs \<and> m \<noteq> n"
  then obtain j where j: "j < length xs" "xs ! j = Some m" by (auto simp: in_set_conv_nth)
  with m assms(3) have "j \<noteq> i" by auto
  with j show "Some m \<in> set (xs[i := None])" by (auto simp: in_set_conv_nth intro!: exI [of _ j])
qed

lemma DeleteItem_items:
  assumes "keys_distinct (cur_names za)"
  shows "\<exists>za'. DeleteItem unescape za path = Inr (item_name unescape path \<in> items za, za') \<and>
    items za' = items za - {item_name unescape path}"
proof -
  let ?n = "item_name unescape path"
  obtain e where l: "zip_name_locate za (Some ?n) 0 = (Inr (locate za ?n), za\<lparr>za_error := e\<rparr>)"
    using zip_name_locate_0 by blast
  show ?thesis
  proof (cases rule: archive_names.find_cases [of za ?n])
    case 1
    then have "?n \<notin> items za" using locate_items [of za ?n] by simp
    then show ?thesis using 1 l by (auto simp: DeleteItem_def items_def)
  next
    case (2 i)
    have i: "i < length (cur_names za)" "cur_names za ! i = Some ?n"
      using archive_names.find_slot [OF 2(1)] by simp_all
    let ?za = "za\<lparr>za_error := e\<rparr>"
    have d: "fst (zip_delete ?za (int i)) = 0" using i(1) by (simp add: zip_delete_eq)
    have "cur_names (snd (zip_delete ?za (int i))) = (cur_names za)[i := None]"
      using cur_names_delete [of "int i" ?za] i(1) by simp
    then have "items (snd (zip_delete ?za (int i))) = items za - {?n}"
      using set_update_None [OF assms i] by (auto simp: items_def)
    moreover have "?n \<in> items za" using 2 locate_items [of za ?n] by simp
    moreover have "DeleteItem unescape za path = Inr (True, snd (zip_delete ?za (int i)))"
      using l 2(1) d by (simp add: DeleteItem_def case_prod_beta)
    ultimately show ?thesis by simp
  qed
qed

lemma zip_add_failed_items:
  assumes "archive_ok za" and "zip_add lib za (Some n) (Some s) = (-1, za')"
  shows "items za' = items za"
proof -
  obtain ok za1 where new: "zip_entry_new lib za = (ok, za1)" by (cases "zip_entry_new lib za")
  show ?thesis
  proof (cases ok)
    case False
    with new have "za_entry za1 = za_entry za" "za_cdir za1 = za_cdir za"
      by (auto simp: zip_entry_new_def Let_def split: if_splits)
    with False new assms(2) cur_names_cong [of za1 za] show ?thesis by (simp add: zip_add_def zip_replace_at_def items_def)
  next
    case True
    with new have new: "zip_entry_new lib za = (True, za1)" by simp
    have "za_entry za' = za_entry za @ [fresh_entry]" "za_cdir za' = za_cdir za"
      using assms(2) zip_add_eq [OF assms(1) new, of n s] zip_entry_new_True [OF new] by (auto split: if_splits)
    from cur_names_append [OF this] assms(1) show ?thesis by (simp add: items_def archive_ok_beyond)
  qed
qed

lemma zip_add_items:
  assumes "archive_ok za" and "zip_add lib za (Some n) (Some s) = (r, za')"
  shows "items za' = (if r \<ge> 0 then insert n (items za) else items za)" and "r \<ge> 0 \<Longrightarrow> n \<notin> items za"
proof -
  show "items za' = (if r \<ge> 0 then insert n (items za) else items za)"
  proof (cases "r = -1")
    case True
    with zip_add_failed_items [OF assms(1)] assms(2) show ?thesis by simp
  next
    case False
    then show ?thesis
      using zip_add_success(1) [OF assms False] zip_add_success_names [OF assms False] by (auto simp: items_def)
  qed
  assume "r \<ge> 0"
  then have "r \<noteq> -1" by simp
  from zip_add_success(2) [OF assms this] show "n \<notin> items za" using locate_items [of za n] by simp
qed

lemma CreateFolder_items:
  assumes "archive_ok za" and "CreateFolder lib unescape src za path = Inr (r, za')"
  shows "items za' = (if r then insert (folder_name (item_name unescape path)) (items za) else items za)"
    and "r \<Longrightarrow> folder_name (item_name unescape path) \<notin> items za"
proof -
  let ?n = "item_name unescape path"
  have ne: "?n \<noteq> []" using assms(2) by (auto simp: CreateFolder_def zip_add_dir_def)
  have *: "(\<not> r \<and> items za' = items za) \<or>
      (\<exists>s k. zip_add lib za (Some (folder_name ?n)) (Some s) = (k, za') \<and> r = (k \<ge> 0))"
    using assms(2) ne
    by (cases ?n) (auto simp: CreateFolder_def zip_add_dir_def zip_add_def folder_name_def Let_def items_def names_keep_error
        split: option.splits prod.splits if_splits)
  then show "items za' = (if r then insert (folder_name ?n) (items za) else items za)"
    "r \<Longrightarrow> folder_name ?n \<notin> items za"
    using zip_add_items [OF assms(1)] by auto
qed

section \<open>Properties\<close>

text \<open>C9: the archive class implements a set of item names: \<open>ContainsItem\<close> is membership, \<open>DeleteItem\<close> of an item
  that is there returns true and removes exactly that item, and \<open>CreateFolder\<close> adds exactly the folder's name, with a
  slash at its end, when it succeeds, which it only does for a name that was not there, and
  changes no name when it fails.\<close>

theorem archive_refines_set:
  assumes "archive_ok za" and "keys_distinct (cur_names za)"
  shows "(\<exists>za'. ContainsItem unescape za path = Inr (item_name unescape path \<in> items za, za') \<and> items za' = items za) \<and>
    (item_name unescape path \<in> items za \<longrightarrow> (\<exists>za'. DeleteItem unescape za path = Inr (True, za') \<and>
       items za' = items za - {item_name unescape path})) \<and>
    (\<forall>r za'. CreateFolder lib unescape src za path = Inr (r, za') \<longrightarrow>
       items za' = (if r then insert (folder_name (item_name unescape path)) (items za) else items za) \<and>
       (r \<longrightarrow> folder_name (item_name unescape path) \<notin> items za))"
proof (intro conjI allI impI)
  fix r za'
  assume c: "CreateFolder lib unescape src za path = Inr (r, za')"
  show "items za' = (if r then insert (folder_name (item_name unescape path)) (items za) else items za)"
    by (rule CreateFolder_items(1) [OF assms(1) c])
  show "folder_name (item_name unescape path) \<notin> items za" if r
    by (rule CreateFolder_items(2) [OF assms(1) c that])
next
  assume "item_name unescape path \<in> items za"
  then show "\<exists>za'. DeleteItem unescape za path = Inr (True, za') \<and> items za' = items za - {item_name unescape path}"
    using DeleteItem_items [OF assms(2), of unescape path] by simp
qed (rule ContainsItem_items)

theorem archive_refines_set_witness:
  "\<exists>za'. DeleteItem id sample_zip [0x2f, 0x61] = Inr (True, za') \<and> items za' = {[0x62]}"
proof -
  have "item_name id [0x2f, 0x61] = [0x61]" by (simp add: item_name_def Sanitized_def strip_slash_def c_str_def)
  moreover have "items sample_zip = {[0x61], [0x62]}" by (auto simp: items_def sample_zip_names)
  ultimately show ?thesis
    using archive_refines_set [OF just_opened_ok [OF sample_zip_opened] sample_zip_distinct, of id "[0x2f, 0x61]"] by auto
qed

section \<open>Where the code departs from its comments\<close>

text \<open>\<open>DeleteItem\<close> of an item that is not in the archive returns false and changes no name; the comment of
  \<^verbatim>\<open>archive.h\<close> says that it returns true then.\<close>

lemma DeleteItem_absent_false:
  assumes "keys_distinct (cur_names za)" and "item_name unescape path \<notin> items za"
  shows "\<exists>za'. DeleteItem unescape za path = Inr (False, za') \<and> items za' = items za"
  using DeleteItem_items [OF assms(1), of unescape path] assms(2) by simp

text \<open>\<open>WriterAtPath\<close> passes \<^verbatim>\<open>ZIP_CREATE\<close> as a lookup flag, which means a lookup without regard to case: it never creates
  an item.\<close>

lemma WriterAtPath_never_creates:
  assumes "\<forall>i < length (za_entry za). \<forall>n. cur_name za i = Some n \<longrightarrow> \<not> name_matches ZIP_FL_NOCASE (item_name unescape path) n"
  shows "\<exists>za'. WriterAtPath lib unescape source za path True = Inr (False, za') \<and> za_entry za' = za_entry za"
proof -
  let ?n = "item_name unescape path" and ?m = "length (za_entry za)"
  have nf: "\<not> flag_set ZIP_FL_NOCASE ZIP_FL_UNCHANGED" by (simp add: flag_set_def)
  have "map (\<lambda>j. fst (zip_get_name_e za (int j) 1 None)) [0 ..< ?m] = cur_names za"
    using get_name_flags_irrelevant [OF nf, of za] by (simp add: cur_names_def cur_name_def)
  moreover have "first_slot (name_matches 1 ?n) (cur_names za) = -1"
    using assms by (auto simp: first_slot_none in_set_conv_nth)
  ultimately have "fst (name_locate_loop za ?n 1 0 ?m (Some (za_error za))) = -1"
    using name_locate_loop_slots [OF nf, of za ?n 0 ?m "Some (za_error za)"] by simp
  then show ?thesis using nf by (auto simp: WriterAtPath_def zip_name_locate_def zip_name_locate_e_def case_prod_beta)
qed

text \<open>The type of an archive is recognised by the end of its path, but so is every path one character shorter than the
  extension: the subtraction wraps to the value that \<open>rfind\<close> returns for no match.\<close>

lemma has_suffix_short: "length path + 1 = length ext \<Longrightarrow> has_suffix ext path"
  by (auto simp: has_suffix_def str_rfind_def str_npos_def dest: sym)

end
