(* ===== verification/Smil_Data.thy ===== *)
theory Smil_Data
  imports EPUB_Error
begin

text \<open>
  \<^verbatim>\<open>class SMILData\<close> of \<^verbatim>\<open>ePub/media-overlays_smil_data.{h,cpp}\<close>: the tree of a media overlay, in which
  sequences hold sequences and parallels, and a parallel holds the text and the audio clip that are
  presented together.  The recursive searches of the header (duration, offset of a clip, parallel at a
  time, n-th parallel) are translated with their 32-bit counters; the theorems compare them with the list
  of the parallels in document order.  Objects that are compared by pointer carry an address; a manifest
  item is known by its pointer, of type \<open>'m\<close>; \<open>par_owner\<close> is the address of the data a parallel belongs to.
  The parent pointers of the nodes are left out.
\<close>

section \<open>The tree\<close>

record 'm Media =
  src_file :: string
  src_fragmentID :: string
  srcManifestItem :: "'m option"

record 'm Audio = "'m Media" +
  clipBeginMilliseconds :: u32
  clipEndMilliseconds :: u32

type_synonym 'm Text = "'m Media"

record 'm Parallel =
  par_addr :: nat
  par_owner :: nat
  par_type :: string
  par_audio :: "'m Audio option"
  par_text :: "'m Text option"

record 'm SequenceInfo =
  seq_addr :: nat
  seq_type :: string
  textref_file :: string
  textref_fragmentID :: string
  textrefManifestItem :: "'m option"

datatype 'm TimeContainer = Par "'m Parallel" | Seq "'m SequenceInfo" "'m TimeContainer list"

primrec IsParallel :: "'m TimeContainer \<Rightarrow> bool" where
  "IsParallel (Par _) = True"
| "IsParallel (Seq _ _) = False"

primrec IsSequence :: "'m TimeContainer \<Rightarrow> bool" where
  "IsSequence (Par _) = False"
| "IsSequence (Seq _ _) = True"

primrec Container_Name :: "'m TimeContainer \<Rightarrow> string" where
  "Container_Name (Par _) = ''par''"
| "Container_Name (Seq _ _) = ''seq''"

primrec children :: "'m TimeContainer \<Rightarrow> 'm TimeContainer list" where
  "children (Par _) = []"
| "children (Seq _ cs) = cs"

definition GetChildrenCount :: "'m TimeContainer \<Rightarrow> nat" where
  "GetChildrenCount s = length (children s)"

definition GetChild :: "'m TimeContainer \<Rightarrow> nat \<Rightarrow> 'm TimeContainer option" where
  "GetChild s i = (if i \<ge> length (children s) then None else Some (children s ! i))"

definition ClipDurationMilliseconds :: "'m Audio \<Rightarrow> u32" where
  "ClipDurationMilliseconds a =
     (if clipEndMilliseconds a \<le> 0 \<or> clipEndMilliseconds a \<le> clipBeginMilliseconds a then 0
      else clipEndMilliseconds a - clipBeginMilliseconds a)"

text \<open>\<open>sd_spineItem\<close> is the manifest item of the spine item. The root is always a sequence.\<close>

record 'm SMILData =
  sd_addr :: nat
  sd_duration :: u32
  sd_manifestItem :: "'m option"
  sd_spineItem :: "'m option"
  sd_root :: "'m TimeContainer option"

definition new_SMILData :: "nat \<Rightarrow> 'm option \<Rightarrow> 'm option \<Rightarrow> u32 \<Rightarrow> 'm SMILData" where
  "new_SMILData addr manifestItem spineItem duration =
     \<lparr>sd_addr = addr, sd_duration = duration, sd_manifestItem = manifestItem, sd_spineItem = spineItem, sd_root = None\<rparr>"

section \<open>The searches of a sequence\<close>

text \<open>
  The owner of a node is a weak pointer: \<open>None\<close> when the data has been destroyed.  Each search below is
  a recursive method; on a container it is the body of the method's loop for that container (on a
  sequence, the method itself), on a list the loop.
\<close>

text \<open>The two conditions under which the loops skip a parallel, and the duration that is added otherwise.\<close>

definition clip_of :: "'m SMILData \<Rightarrow> 'm Parallel \<Rightarrow> u32 option" where
  "clip_of sd p = (case par_audio p of None \<Rightarrow> None
     | Some a \<Rightarrow>
        (if (case par_text p of None \<Rightarrow> False
             | Some t \<Rightarrow> srcManifestItem t \<noteq> None \<and> srcManifestItem t \<noteq> sd_spineItem sd)
         then None else Some (ClipDurationMilliseconds a)))"

primrec DurationMilliseconds :: "'m SMILData option \<Rightarrow> 'm TimeContainer \<Rightarrow> u32 \<Rightarrow> u32"
  and DurationMilliseconds_loop :: "'m SMILData option \<Rightarrow> 'm TimeContainer list \<Rightarrow> u32 \<Rightarrow> u32" where
  "DurationMilliseconds own (Par p) tot =
     (case own of None \<Rightarrow> tot | Some sd \<Rightarrow>
       (case clip_of sd p of None \<Rightarrow> tot | Some clipDur \<Rightarrow> tot + clipDur))"
| "DurationMilliseconds own (Seq i cs) tot =
     tot + (case own of None \<Rightarrow> 0 | Some sd \<Rightarrow> DurationMilliseconds_loop own cs 0)"
| "DurationMilliseconds_loop own [] tot = tot"
| "DurationMilliseconds_loop own (c # cs) tot = DurationMilliseconds_loop own cs (DurationMilliseconds own c tot)"

primrec ClipOffset :: "'m SMILData option \<Rightarrow> nat option \<Rightarrow> 'm TimeContainer \<Rightarrow> u32 \<Rightarrow> bool \<times> u32"
  and ClipOffset_loop :: "'m SMILData option \<Rightarrow> nat option \<Rightarrow> 'm TimeContainer list \<Rightarrow> u32 \<Rightarrow> bool \<times> u32" where
  "ClipOffset own par (Par p) offset =
     (case own of None \<Rightarrow> (False, offset) | Some sd \<Rightarrow>
        (if Some (par_addr p) = par then (True, offset)
         else (case clip_of sd p of None \<Rightarrow> (False, offset) | Some clipDur \<Rightarrow> (False, offset + clipDur))))"
| "ClipOffset own par (Seq i cs) offset =
     (case own of None \<Rightarrow> (False, offset) | Some sd \<Rightarrow> ClipOffset_loop own par cs offset)"
| "ClipOffset_loop own par [] offset = (False, offset)"
| "ClipOffset_loop own par (c # cs) offset =
     (case ClipOffset own par c offset of
        (True, offset) \<Rightarrow> (True, offset)
      | (False, offset) \<Rightarrow> ClipOffset_loop own par cs offset)"

text \<open>\<open>ParallelAt own c t\<close> is the body of the loop for a container, with \<open>t\<close> the adjusted time.\<close>

primrec ParallelAt :: "'m SMILData option \<Rightarrow> 'm TimeContainer \<Rightarrow> u32 \<Rightarrow> 'm Parallel option \<times> u32"
  and ParallelAt_loop :: "'m SMILData option \<Rightarrow> 'm TimeContainer list \<Rightarrow> u32 \<Rightarrow> u32 \<Rightarrow> 'm Parallel option" where
  "ParallelAt own (Par p) timeAdjusted =
     (case own of None \<Rightarrow> (None, 0) | Some sd \<Rightarrow>
       (case clip_of sd p of None \<Rightarrow> (None, 0)
        | Some clipDur \<Rightarrow> if clipDur > 0 \<and> timeAdjusted \<le> clipDur then (Some p, 0) else (None, clipDur)))"
| "ParallelAt own (Seq i cs) timeAdjusted =
     (case own of None \<Rightarrow> (None, DurationMilliseconds own (Seq i cs) 0) | Some sd \<Rightarrow>
       (case ParallelAt_loop own cs timeAdjusted 0 of
          Some para \<Rightarrow> (Some para, 0)
        | None \<Rightarrow> (None, DurationMilliseconds own (Seq i cs) 0)))"
| "ParallelAt_loop own [] t offset = None"
| "ParallelAt_loop own (c # cs) t offset =
     (case ParallelAt own c (t - offset) of
        (Some para, _) \<Rightarrow> Some para
      | (None, d) \<Rightarrow> ParallelAt_loop own cs t (offset + d))"

primrec NthParallel :: "u32 \<Rightarrow> 'm TimeContainer \<Rightarrow> u32 \<Rightarrow> 'm Parallel option \<times> u32"
  and NthParallel_loop :: "u32 \<Rightarrow> 'm TimeContainer list \<Rightarrow> u32 \<Rightarrow> 'm Parallel option \<times> u32" where
  "NthParallel index (Par p) count = (if count + 1 = index then (Some p, count + 1) else (None, count + 1))"
| "NthParallel index (Seq i cs) count = NthParallel_loop index cs count"
| "NthParallel_loop index [] count = (None, count)"
| "NthParallel_loop index (c # cs) count =
     (case NthParallel index c count of
        (Some para, count) \<Rightarrow> (Some para, count)
      | (None, count) \<Rightarrow> NthParallel_loop index cs count)"

section \<open>The data of one overlay\<close>

definition SD_ParallelAt :: "'m SMILData \<Rightarrow> u32 \<Rightarrow> 'm Parallel option" where
  "SD_ParallelAt sd timeMilliseconds = (case sd_root sd of None \<Rightarrow> None
     | Some root \<Rightarrow> fst (ParallelAt (Some sd) root timeMilliseconds))"

definition SD_NthParallel :: "'m SMILData \<Rightarrow> u32 \<Rightarrow> 'm Parallel option" where
  "SD_NthParallel sd index = (case sd_root sd of None \<Rightarrow> None
     | Some root \<Rightarrow> fst (NthParallel index root (- 1)))"

definition SD_ClipOffset :: "'m SMILData \<Rightarrow> nat option \<Rightarrow> u32" where
  "SD_ClipOffset sd par = (case sd_root sd of None \<Rightarrow> 0
     | Some root \<Rightarrow> (case ClipOffset (Some sd) par root 0 of (found, offset) \<Rightarrow> if found then offset else 0))"

definition SD_DurationMilliseconds_Calculated :: "'m SMILData \<Rightarrow> u32" where
  "SD_DurationMilliseconds_Calculated sd = (case sd_root sd of None \<Rightarrow> 0
     | Some root \<Rightarrow> DurationMilliseconds (Some sd) root 0)"

section \<open>The list of the parallels\<close>

primrec parallels :: "'m TimeContainer \<Rightarrow> 'm Parallel list" where
  "parallels (Par p) = [p]"
| "parallels (Seq i cs) = concat (map parallels cs)"

definition SD_parallels :: "'m SMILData \<Rightarrow> 'm Parallel list" where
  "SD_parallels sd = (case sd_root sd of None \<Rightarrow> [] | Some root \<Rightarrow> parallels root)"

definition clip_length :: "'m SMILData \<Rightarrow> 'm Parallel \<Rightarrow> nat" where
  "clip_length sd p = (case clip_of sd p of None \<Rightarrow> 0 | Some clipDur \<Rightarrow> unat clipDur)"

definition clip_sum :: "('p \<Rightarrow> nat) \<Rightarrow> 'p list \<Rightarrow> nat" where
  "clip_sum d ps = sum_list (map d ps)"

lemma clip_sum_simps [simp]:
  "clip_sum d [] = 0" "clip_sum d (p # ps) = d p + clip_sum d ps"
  "clip_sum d (ps @ qs) = clip_sum d ps + clip_sum d qs"
  by (simp_all add: clip_sum_def)

lemma clip_length_word: "(case clip_of sd p of None \<Rightarrow> 0 | Some clipDur \<Rightarrow> clipDur) = of_nat (clip_length sd p)"
  by (simp add: clip_length_def split: option.splits)

lemma DurationMilliseconds_sum:
  "DurationMilliseconds (Some sd) c tot = tot + of_nat (clip_sum (clip_length sd) (parallels c))"
  "DurationMilliseconds_loop (Some sd) cs tot = tot + of_nat (clip_sum (clip_length sd) (concat (map parallels cs)))"
  by (induction c and cs arbitrary: tot and tot
      rule: DurationMilliseconds.induct DurationMilliseconds_loop.induct)
    (auto simp: clip_length_def split: option.splits)

lemma ClipOffset_sum:
  fixes c :: "'m TimeContainer" and cs :: "'m TimeContainer list"
  shows "ClipOffset (Some sd) par c offset =
     (par \<in> Some ` par_addr ` set (parallels c),
      offset + of_nat (clip_sum (clip_length sd) (takeWhile (\<lambda>p. Some (par_addr p) \<noteq> par) (parallels c))))"
  "ClipOffset_loop (Some sd) par cs offset =
     (par \<in> Some ` par_addr ` set (concat (map parallels cs)),
      offset + of_nat (clip_sum (clip_length sd) (takeWhile (\<lambda>p. Some (par_addr p) \<noteq> par) (concat (map parallels cs)))))"
proof (induction c and cs arbitrary: offset and offset rule: ClipOffset.induct ClipOffset_loop.induct)
  case (Cons_TimeContainer c cs)
  show ?case
  proof (cases "par \<in> Some ` par_addr ` set (parallels c)")
    case True then show ?thesis by (auto simp: Cons_TimeContainer takeWhile_append1)
  next
    case False
    then have "\<forall>p \<in> set (parallels c). Some (par_addr p) \<noteq> par" by auto
    then show ?thesis using False by (auto simp: Cons_TimeContainer takeWhile_append2 takeWhile_eq_all_conv [THEN iffD2])
  qed
qed (auto simp: clip_length_def split: option.splits)

lemma NthParallel_nth:
  fixes c :: "'m TimeContainer" and cs :: "'m TimeContainer list"
  shows "NthParallel index c count = (let k = unat (index - (count + 1)) in
     if k < length (parallels c) then (Some (parallels c ! k), index) else (None, count + of_nat (length (parallels c))))"
  "NthParallel_loop index cs count = (let k = unat (index - (count + 1)); ps = concat (map parallels cs) in
     if k < length ps then (Some (ps ! k), index) else (None, count + of_nat (length ps)))"
proof (induction c and cs arbitrary: count and count rule: NthParallel.induct NthParallel_loop.induct)
  case (Par p)
  show ?case by (auto simp: Let_def unat_eq_0)
next
  case (Cons_TimeContainer c cs)
  let ?k = "unat (index - (count + 1))" and ?n = "length (parallels c)"
  show ?case
  proof (cases "?k < ?n")
    case True then show ?thesis by (simp add: Cons_TimeContainer(1) Let_def nth_append)
  next
    case False
    have "unat (index - (count + 1) - of_nat ?n) = ?k - ?n" using False by (intro unat_minus_of_nat) simp
    then have "unat (index - (count + of_nat ?n + 1)) = ?k - ?n" by (simp add: algebra_simps)
    then show ?thesis using False by (simp add: Cons_TimeContainer Let_def nth_append add.assoc) linarith
  qed
qed (simp_all add: Let_def)

section \<open>Searching a time line\<close>

text \<open>The clip that is played at a time, over a list of elements with their lengths.\<close>

fun clip_at :: "('p \<Rightarrow> nat) \<Rightarrow> 'p list \<Rightarrow> nat \<Rightarrow> 'p option" where
  "clip_at d [] t = None"
| "clip_at d (p # ps) t = (if 0 < d p \<and> t \<le> d p then Some p else clip_at d ps (t - d p))"

lemma clip_at_None_le: "clip_at d ps t = None \<Longrightarrow> clip_sum d ps \<le> t"
  by (induction d ps t rule: clip_at.induct) (auto split: if_splits)

lemma clip_at_append:
  "clip_at d (ps @ qs) t = (case clip_at d ps t of Some p \<Rightarrow> Some p | None \<Rightarrow> clip_at d qs (t - clip_sum d ps))"
  by (induction d ps t rule: clip_at.induct) (auto split: option.splits)

lemma clip_at_zero: "clip_sum d ps = 0 \<Longrightarrow> clip_at d ps t = None"
  by (induction ps arbitrary: t) auto

lemma clip_at_late: "clip_sum d ps < t \<Longrightarrow> clip_at d ps t = None"
  by (induction d ps t rule: clip_at.induct) auto

lemma clip_at_None_iff: "clip_at d ps t = None \<longleftrightarrow> clip_sum d ps < t \<or> clip_sum d ps = 0"
proof
  show "clip_at d ps t = None \<Longrightarrow> clip_sum d ps < t \<or> clip_sum d ps = 0"
    by (induction d ps t rule: clip_at.induct) (auto split: if_splits)
qed (auto intro: clip_at_zero clip_at_late)

text \<open>The search returns the element whose interval contains the time; a time on a border belongs to the earlier clip.\<close>

lemma clip_at_Some_iff:
  "clip_at d ps t = Some p \<longleftrightarrow>
     (\<exists>xs ys. ps = xs @ p # ys \<and> 0 < d p \<and> (clip_sum d xs < t \<or> clip_sum d xs = 0) \<and> t \<le> clip_sum d xs + d p)"
proof
  assume "clip_at d ps t = Some p"
  then show "\<exists>xs ys. ps = xs @ p # ys \<and> 0 < d p \<and> (clip_sum d xs < t \<or> clip_sum d xs = 0) \<and> t \<le> clip_sum d xs + d p"
  proof (induction d ps t rule: clip_at.induct)
    case (2 d q ps t)
    show ?case
    proof (cases "0 < d q \<and> t \<le> d q")
      case True with 2(2) show ?thesis by (intro exI [of _ "[]"] exI [of _ ps]) auto
    next
      case False
      with 2 obtain xs ys where x: "ps = xs @ p # ys" "0 < d p" "clip_sum d xs < t - d q \<or> clip_sum d xs = 0"
        "t - d q \<le> clip_sum d xs + d p" by auto
      with False show ?thesis by (intro exI [of _ "q # xs"] exI [of _ ys]) auto
    qed
  qed simp
next
  assume "\<exists>xs ys. ps = xs @ p # ys \<and> 0 < d p \<and> (clip_sum d xs < t \<or> clip_sum d xs = 0) \<and> t \<le> clip_sum d xs + d p"
  then obtain xs ys where x: "ps = xs @ p # ys" "0 < d p" "clip_sum d xs < t \<or> clip_sum d xs = 0" "t \<le> clip_sum d xs + d p"
    by blast
  from x(3) have "clip_at d xs t = None" by (simp add: clip_at_None_iff)
  with x show "clip_at d ps t = Some p" by (auto simp: clip_at_append)
qed

lemma ParallelAt_clip_at:
  "ParallelAt (Some sd) c t =
     (case clip_at (clip_length sd) (parallels c) (unat t) of
        Some p \<Rightarrow> (Some p, 0) | None \<Rightarrow> (None, of_nat (clip_sum (clip_length sd) (parallels c))))"
  "offset \<le> t \<Longrightarrow> ParallelAt_loop (Some sd) cs t offset =
     clip_at (clip_length sd) (concat (map parallels cs)) (unat t - unat offset)"
proof (induction c and cs arbitrary: t and t offset rule: ParallelAt.induct ParallelAt_loop.induct)
  case (Par p)
  show ?case by (auto simp: clip_length_def word_le_nat_alt word_less_nat_alt unat_eq_0 split: option.splits)
next
  case (Seq i cs)
  show ?case using Seq [of 0 t] by (simp add: DurationMilliseconds_sum split: option.splits)
next
  case Nil_TimeContainer
  show ?case by simp
next
  case (Cons_TimeContainer c cs)
  have u: "unat (t - offset) = unat t - unat offset" using Cons_TimeContainer(3) by (simp add: unat_sub)
  let ?ps = "parallels c"
  show ?case
  proof (cases "clip_at (clip_length sd) ?ps (unat (t - offset))")
    case None
    from clip_at_None_le [OF None] have le: "clip_sum (clip_length sd) ?ps \<le> unat t - unat offset" by (simp add: u)
    let ?n = "clip_sum (clip_length sd) ?ps"
    have le': "unat offset \<le> unat t" using Cons_TimeContainer(3) by (simp add: word_le_nat_alt)
    have "unat offset + ?n \<le> unat t" using le le' by linarith
    also have "\<dots> < 2 ^ LENGTH(32)" by (rule unsigned_less)
    finally have b: "unat offset + ?n < 2 ^ LENGTH(32)" .
    have v: "unat (offset + of_nat ?n) = unat offset + ?n"
      by (rule unat_plus_of_nat [OF b])
    with le le' have "offset + of_nat ?n \<le> t" by (simp add: word_le_nat_alt)
    from Cons_TimeContainer(2) [OF this] None show ?thesis
      by (simp add: Cons_TimeContainer(1) clip_at_append u v)
  next
    case (Some p)
    with u show ?thesis by (simp add: Cons_TimeContainer(1) clip_at_append)
  qed
qed

section \<open>The queries of the data\<close>

lemma SD_DurationMilliseconds_sum:
  "SD_DurationMilliseconds_Calculated sd = of_nat (clip_sum (clip_length sd) (SD_parallels sd))"
  by (simp add: SD_DurationMilliseconds_Calculated_def SD_parallels_def DurationMilliseconds_sum split: option.splits)

lemma SD_ParallelAt_clip_at:
  "SD_ParallelAt sd t = clip_at (clip_length sd) (SD_parallels sd) (unat t)"
  by (simp add: SD_ParallelAt_def SD_parallels_def ParallelAt_clip_at split: option.splits)

lemma SD_ClipOffset_sum:
  assumes "SD_parallels sd = xs @ p # ys" and "\<forall>q \<in> set xs. par_addr q \<noteq> par_addr p"
  shows "SD_ClipOffset sd (Some (par_addr p)) = of_nat (clip_sum (clip_length sd) xs)"
proof (cases "sd_root sd")
  case (Some root)
  then have "parallels root = xs @ p # ys" using assms(1) by (simp add: SD_parallels_def)
  moreover have "takeWhile (\<lambda>q. Some (par_addr q) \<noteq> Some (par_addr p)) (xs @ p # ys) = xs"
    using assms(2) by (simp add: takeWhile_append2 [of xs])
  ultimately show ?thesis using Some by (simp add: SD_ClipOffset_def ClipOffset_sum)
qed (use assms(1) in \<open>simp add: SD_parallels_def\<close>)

text \<open>The n-th parallel of an overlay is the n-th parallel in document order, at every nesting of sequences and
  for every index, although the counter starts at \<open>2\<^sup>3\<^sup>2 - 1\<close> and wraps; an index behind the last parallel gives
  none.  The calculated duration is the sum of the clips of all parallels that count, modulo \<open>2\<^sup>3\<^sup>2\<close>.\<close>

theorem smil_nth_parallel:
  "SD_NthParallel sd index =
     (if unat index < length (SD_parallels sd) then Some (SD_parallels sd ! unat index) else None) \<and>
   SD_DurationMilliseconds_Calculated sd = of_nat (\<Sum>p \<leftarrow> SD_parallels sd. clip_length sd p)"
  by (simp add: SD_NthParallel_def SD_parallels_def NthParallel_nth Let_def SD_DurationMilliseconds_sum clip_sum_def
      split: option.splits)

end
