(* ===== verification/Ieee_Double.thy ===== *)
theory Ieee_Double
  imports Complex_Main "HOL-Library.Log_Nat"
begin

text \<open>
  The C++ type \<^verbatim>\<open>double\<close> as far as the sources use it: finite numbers are rationals, and each arithmetic
  operation is the exact one followed by rounding to 53 significant bits, to nearest with ties to even,
  with the exponent bounded below by that of the subnormal numbers (IEEE 754 binary64).  The values the
  library computes are far below \<open>2\<^sup>1\<^sup>0\<^sup>2\<^sup>4\<close>, so that infinities do not occur.
\<close>

section \<open>Rounding\<close>

definition pow2 :: "int \<Rightarrow> rat" where
  "pow2 e = (if 0 \<le> e then 2 ^ nat e else 1 / 2 ^ nat (- e))"

definition round_half_even :: "rat \<Rightarrow> int" where
  "round_half_even x = (let f = \<lfloor>x\<rfloor>; r = x - of_int f in
     if r < 1 / 2 then f else if 1 / 2 < r then f + 1 else if even f then f else f + 1)"

text \<open>The exponent of a positive number.\<close>

definition ilog2 :: "rat \<Rightarrow> int" where
  "ilog2 x = (case quotient_of x of (n, d) \<Rightarrow>
     let k = bitlen n - bitlen d in if pow2 k \<le> x then k else k - 1)"

definition rnd :: "rat \<Rightarrow> rat" where
  "rnd x = (if x = 0 then 0 else
     let e = max (ilog2 \<bar>x\<bar> - 52) (- 1074) in of_int (round_half_even (x / pow2 e)) * pow2 e)"

definition dadd :: "rat \<Rightarrow> rat \<Rightarrow> rat" where "dadd x y = rnd (x + y)"

definition dmul :: "rat \<Rightarrow> rat \<Rightarrow> rat" where "dmul x y = rnd (x * y)"

definition ddiv :: "rat \<Rightarrow> rat \<Rightarrow> rat" where "ddiv x y = rnd (x / y)"

section \<open>Powers of two\<close>

lemma pow2_powi: "pow2 e = 2 powi e"
  by (simp add: pow2_def power_int_def inverse_eq_divide power_divide)

lemma pow2_pos [simp]: "0 < pow2 e"
  by (simp add: pow2_def)

lemma pow2_nonzero [simp]: "pow2 e \<noteq> 0"
  using pow2_pos [of e] by linarith

lemma abs_pow2 [simp]: "\<bar>pow2 e\<bar> = pow2 e"
  by (rule abs_of_pos) simp

lemma pow2_add: "pow2 (a + b) = pow2 a * pow2 b"
  by (simp add: pow2_powi power_int_add)

lemma pow2_less_iff: "pow2 a < pow2 b \<longleftrightarrow> a < b"
proof -
  have "a < b \<Longrightarrow> pow2 a < pow2 b" for a b by (simp add: pow2_powi power_int_strict_increasing)
  then show ?thesis by (metis linorder_neqE order_less_asym order_less_irrefl)
qed

lemma pow2_nat: "pow2 (int n) = 2 ^ n"
  by (simp add: pow2_def)

section \<open>The exponent\<close>

lemma bitlen_bounds_pow2: "0 < n \<Longrightarrow> pow2 (bitlen n - 1) \<le> of_int n \<and> of_int n < pow2 (bitlen n)"
proof -
  assume n: "0 < n"
  then have b: "0 < bitlen n" by (simp add: bitlen_nonneg order_less_le bitlen_eq_zero_iff)
  from bitlen_bounds [OF n] have "(2::int) ^ nat (bitlen n - 1) \<le> n" "n < 2 ^ nat (bitlen n)" by auto
  then have "(of_int (2 ^ nat (bitlen n - 1)) :: rat) \<le> of_int n" "(of_int n :: rat) < of_int (2 ^ nat (bitlen n))"
    by (simp_all only: of_int_le_iff of_int_less_iff)
  then show ?thesis using b by (simp add: pow2_def)
qed

lemma ilog2_bounds:
  assumes "0 < x"
  shows "pow2 (ilog2 x) \<le> x \<and> x < pow2 (ilog2 x + 1)"
proof -
  obtain n d where q: "quotient_of x = (n, d)" by fastforce
  have d: "0 < d" using quotient_of_denom_pos [OF q] .
  have x: "x = of_int n / of_int d" using quotient_of_div [OF q] .
  have n: "0 < n" using assms d by (simp add: x zero_less_divide_iff)
  let ?k = "bitlen n - bitlen d"
  note bn = bitlen_bounds_pow2 [OF n] and bd = bitlen_bounds_pow2 [OF d]
  have "x < pow2 (bitlen n) / pow2 (bitlen d - 1)"
    unfolding x using bn bd n d by (intro frac_less) (auto simp: less_imp_le)
  also have "\<dots> = pow2 (?k + 1)" by (simp add: pow2_powi power_int_diff power_int_add)
  finally have up: "x < pow2 (?k + 1)" .
  have "pow2 (bitlen n - 1) / pow2 (bitlen d) \<le> x"
    unfolding x using bn bd n d by (intro frac_le) (auto simp: less_imp_le)
  moreover have "pow2 (bitlen n - 1) / pow2 (bitlen d) = pow2 (?k - 1)"
    by (simp add: pow2_powi power_int_diff)
  ultimately have lo: "pow2 (?k - 1) \<le> x" by simp
  show ?thesis using up lo by (auto simp: ilog2_def q Let_def)
qed

section \<open>Rounding is close, and exact on integers\<close>

lemma round_half_even_int [simp]: "round_half_even (of_int n) = n"
  by (simp add: round_half_even_def)

lemma round_half_even_close: "\<bar>of_int (round_half_even x) - x\<bar> \<le> 1 / 2"
proof -
  have "of_int \<lfloor>x\<rfloor> \<le> x" "x < of_int \<lfloor>x\<rfloor> + 1" by linarith+
  then show ?thesis by (auto simp: round_half_even_def Let_def abs_le_iff field_simps)
qed

lemma rnd_0 [simp]: "rnd 0 = 0"
  by (simp add: rnd_def)

text \<open>The error of an operation: relative to the result, or half of the smallest number.\<close>

lemma rnd_error:
  assumes "0 < x"
  shows "\<bar>rnd x - x\<bar> \<le> pow2 (max (ilog2 x - 52) (- 1074)) / 2"
proof -
  define u where "u = pow2 (max (ilog2 x - 52) (- 1074))"
  have u: "0 < u" by (simp add: u_def)
  have "rnd x - x = (of_int (round_half_even (x / u)) - x / u) * u"
    using assms u by (simp add: rnd_def Let_def left_diff_distrib flip: u_def)
  then have "\<bar>rnd x - x\<bar> = \<bar>of_int (round_half_even (x / u)) - x / u\<bar> * u" using u by (simp add: abs_mult)
  also have "\<dots> \<le> 1 / 2 * u" using u by (intro mult_right_mono round_half_even_close) simp
  finally show ?thesis by (simp add: u_def)
qed

lemma rnd_close:
  assumes "0 \<le> x"
  shows "\<bar>rnd x - x\<bar> \<le> x / 2 ^ 53 + pow2 (- 1075)"
proof (cases "x = 0")
  case False
  with assms have pos: "0 < x" by simp
  show ?thesis
  proof (cases "- 1074 \<le> ilog2 x - 52")
    case True
    have "pow2 (ilog2 x - 52) / 2 = pow2 (ilog2 x) / 2 ^ 53" by (simp add: pow2_powi power_int_diff)
    also have "\<dots> \<le> x / 2 ^ 53" using ilog2_bounds [OF pos] by (simp add: divide_right_mono)
    finally have h: "pow2 (ilog2 x - 52) / 2 \<le> x / 2 ^ 53" .
    have m: "max (ilog2 x - 52) (- 1074) = ilog2 x - 52" using True by simp
    show ?thesis using rnd_error [OF pos, unfolded m] h pow2_pos [of "- 1075"] by linarith
  next
    case False
    have "pow2 (- 1074) / 2 = pow2 (- 1075)" by (simp add: pow2_def)
    then show ?thesis using rnd_error [OF pos] False pos by (simp add: max_absorb2)
  qed
qed (simp add: less_imp_le)

lemma rnd_nonneg: "0 \<le> x \<Longrightarrow> 0 \<le> rnd x"
proof -
  have "0 \<le> y \<Longrightarrow> 0 \<le> round_half_even y" for y by (simp add: round_half_even_def Let_def)
  then show "0 \<le> x \<Longrightarrow> 0 \<le> rnd x" by (simp add: rnd_def Let_def less_imp_le)
qed

text \<open>A form of the error that suits linear arithmetic.\<close>

lemma rnd_close_lin:
  assumes "0 \<le> x"
  shows "rnd x \<le> x + x / 2 ^ 53 + 1 / 10 ^ 40" and "x - x / 2 ^ 53 - 1 / 10 ^ 40 \<le> rnd x"
proof -
  have "pow2 (- 1075) \<le> 1 / 10 ^ 40" by (simp add: pow2_def field_simps)
  with rnd_close [OF assms] show "rnd x \<le> x + x / 2 ^ 53 + 1 / 10 ^ 40" "x - x / 2 ^ 53 - 1 / 10 ^ 40 \<le> rnd x"
    by linarith+
qed

lemma rnd_of_int:
  assumes "\<bar>n\<bar> < 2 ^ 53"
  shows "rnd (of_int n) = of_int n"
proof (cases "n = 0")
  case False
  then have pos: "(0::rat) < of_int \<bar>n\<bar>" by simp
  note b = ilog2_bounds [OF pos]
  have "(of_int \<bar>n\<bar> :: rat) < of_int (2 ^ 53)" using assms by (simp only: of_int_less_iff)
  then have "pow2 (ilog2 (of_int \<bar>n\<bar>)) < pow2 53" using b by (simp add: pow2_def)
  then have l: "ilog2 (of_int \<bar>n\<bar>) < 53" by (simp add: pow2_less_iff)
  define e where "e = max (ilog2 \<bar>of_int n\<bar> - 52) (- 1074)"
  have e: "e \<le> 0" using l by (simp add: e_def)
  have "of_int n / pow2 e = of_int (n * 2 ^ nat (- e))" using e by (simp add: pow2_def)
  then have "round_half_even (of_int n / pow2 e) = n * 2 ^ nat (- e)" by (simp only: round_half_even_int)
  moreover have "(of_int (n * 2 ^ nat (- e)) :: rat) * pow2 e = of_int n" using e by (simp add: pow2_def)
  ultimately show ?thesis using False by (simp add: rnd_def Let_def flip: e_def)
qed simp

lemma rnd_of_nat: "n < 2 ^ 53 \<Longrightarrow> rnd (of_nat n) = of_nat n"
  using rnd_of_int [of "int n"] by simp

text \<open>Rounding does not leap over a whole number.\<close>

lemma round_half_even_le: "x \<le> of_int k \<Longrightarrow> round_half_even x \<le> k"
proof -
  assume x: "x \<le> of_int k"
  have f: "of_int \<lfloor>x\<rfloor> \<le> x" "\<lfloor>x\<rfloor> \<le> k" using x by linarith+
  show ?thesis
  proof (cases "\<lfloor>x\<rfloor> = k")
    case True then have "x = of_int k" using f x by simp
    then show ?thesis by simp
  qed (use f in \<open>auto simp: round_half_even_def Let_def\<close>)
qed

lemma rnd_le_nat:
  assumes "0 \<le> x" and "x \<le> of_nat n" and "n < 2 ^ 53"
  shows "rnd x \<le> of_nat n"
proof (cases "x = 0")
  case False
  with assms(1) have pos: "0 < x" by simp
  define e where "e = max (ilog2 x - 52) (- 1074)"
  have "(of_nat n :: rat) < of_nat (2 ^ 53)" using assms(3) by (simp only: of_nat_less_iff)
  then have "pow2 (ilog2 x) < pow2 53" using ilog2_bounds [OF pos] assms(2) by (simp add: pow2_def)
  then have e: "e \<le> 0" by (simp add: e_def pow2_less_iff)
  have "x / pow2 e \<le> of_nat n / pow2 e" using assms(2) by (intro divide_right_mono) (simp_all add: less_imp_le)
  also have "\<dots> = of_int (int n * 2 ^ nat (- e))" using e by (simp add: pow2_def)
  finally have "round_half_even (x / pow2 e) \<le> int n * 2 ^ nat (- e)" by (rule round_half_even_le)
  then have "(of_int (round_half_even (x / pow2 e)) :: rat) \<le> of_int (int n * 2 ^ nat (- e))" by (simp only: of_int_le_iff)
  then have "of_int (round_half_even (x / pow2 e)) * pow2 e \<le> of_int (int n * 2 ^ nat (- e)) * pow2 e"
    by (intro mult_right_mono) (simp_all add: less_imp_le)
  also have "\<dots> = of_nat n" using e by (simp add: pow2_def)
  finally show ?thesis using pos by (simp add: rnd_def Let_def flip: e_def)
qed simp

end
