(* ===== verification/Smil_Clock.thy ===== *)
theory Smil_Clock
  imports EPUB_Error Ieee_Double
begin

text \<open>
  \<^verbatim>\<open>class SmilClockValuesParser\<close> of \<^verbatim>\<open>ePub/media-overlays_smil_utils.h\<close>: clock values such as \<open>0:01:30.5\<close>, \<open>12.5s\<close>
  or \<open>500ms\<close>, in seconds as a \<^verbatim>\<open>double\<close> and in whole milliseconds.  The scan position is the rest of the string
  from the index on; \<open>pos\<close> is the text of the pointer that the messages print as the position.
\<close>

section \<open>Scanning\<close>

abbreviation NUL :: char where "NUL \<equiv> CHR 0x00"

definition c_chars :: "string \<Rightarrow> string" where
  "c_chars s = takeWhile (\<lambda>c. c \<noteq> NUL) s"

definition cur :: "string \<Rightarrow> char" where
  "cur s = (case s of [] \<Rightarrow> NUL | c # _ \<Rightarrow> c)"

definition clock_digit :: "char \<Rightarrow> bool" where
  "clock_digit c \<longleftrightarrow> 48 \<le> (of_char c :: nat) \<and> (of_char c :: nat) \<le> 57"

definition digit_of :: "char \<Rightarrow> nat" where
  "digit_of c = of_char c - 48"

definition clock_message :: "string \<Rightarrow> string \<Rightarrow> char \<Rightarrow> string \<Rightarrow> string" where
  "clock_message what pos c str =
     ''The character '' @ [CHR 0x27, c, CHR 0x27] @ '' at position ['' @ pos @ ''] in string '' @ [CHR 0x22] @ str @
     [CHR 0x22] @ what"

definition checkDigit :: "string \<Rightarrow> string \<Rightarrow> char \<Rightarrow> unit cxx" where
  "checkDigit pos str current =
     (if \<not> clock_digit current
      then Inl (Throws (Invalid_argument (clock_message '' is not a valid digit !'' pos current str))) else Inr ())"

definition badChar :: "string \<Rightarrow> string \<Rightarrow> char \<Rightarrow> 'a cxx" where
  "badChar pos str current = Inl (Throws (Invalid_argument (clock_message '' is not valid !'' pos current str)))"

text \<open>At the last character the scan stays where it is and the terminator is reported.\<close>

definition advanceChar :: "string \<Rightarrow> (char \<times> string) cxx" where
  "advanceChar s = (case s of
     [] \<Rightarrow> Inl Undefined
   | [c] \<Rightarrow> Inr (NUL, [c])
   | c # c' # cs \<Rightarrow> Inr (c', c' # cs))"

lemma advanceChar_shorter: "advanceChar s = Inr (c, s') \<Longrightarrow> clock_digit c \<Longrightarrow> length s' < length s"
  by (auto simp: advanceChar_def clock_digit_def split: list.splits)

function digits_loop :: "string \<Rightarrow> char \<Rightarrow> u32 \<Rightarrow> (u32 \<times> string) cxx" where
  "digits_loop s current val =
     (let val = val * 10 + of_nat (digit_of current) in
      case advanceChar s of
        Inl e \<Rightarrow> Inl e
      | Inr (current, s) \<Rightarrow> if clock_digit current then digits_loop s current val else Inr (val, s))"
  by pat_completeness auto
termination by (relation "measure (\<lambda>(s, _). length s)") (auto simp: advanceChar_shorter)

definition parseDigits :: "string \<Rightarrow> string \<Rightarrow> string \<Rightarrow> (u32 \<times> string) cxx" where
  "parseDigits pos str s = bind_cxx (checkDigit pos str (cur s)) (\<lambda>_. digits_loop s (cur s) 0)"

definition tenth :: rat where "tenth = rnd (1 / 10)"

function fraction_loop :: "string \<Rightarrow> char \<Rightarrow> rat \<Rightarrow> rat \<Rightarrow> (rat \<times> string) cxx" where
  "fraction_loop s current val weight =
     (let val = dadd val (dmul weight (of_nat (digit_of current))); weight = dmul weight tenth in
      case advanceChar s of
        Inl e \<Rightarrow> Inl e
      | Inr (current, s) \<Rightarrow> if clock_digit current then fraction_loop s current val weight else Inr (val, s))"
  by pat_completeness auto
termination by (relation "measure (\<lambda>(s, _). length s)") (auto simp: advanceChar_shorter)

definition parseFraction :: "string \<Rightarrow> string \<Rightarrow> string \<Rightarrow> (rat \<times> string) cxx" where
  "parseFraction pos str s = bind_cxx (checkDigit pos str (cur s)) (\<lambda>_. fraction_loop s (cur s) 0 tenth)"

definition parseUnit :: "string \<Rightarrow> string \<Rightarrow> string \<Rightarrow> (rat \<times> string) cxx" where
  "parseUnit pos str s =
     (if cur s = CHR ''h'' then bind_cxx (advanceChar s) (\<lambda>(_, s). Inr (3600, s))
      else if cur s = CHR ''m'' then bind_cxx (advanceChar s) (\<lambda>(current, s).
        if current = CHR ''i'' then bind_cxx (advanceChar s) (\<lambda>(current, s).
          if current \<noteq> CHR ''n'' then badChar pos str current
          else bind_cxx (advanceChar s) (\<lambda>(_, s). Inr (60, s)))
        else if current = CHR ''s'' then bind_cxx (advanceChar s) (\<lambda>(_, s). Inr (rnd (1 / 1000), s))
        else badChar pos str current)
      else if cur s = CHR ''s'' then bind_cxx (advanceChar s) (\<lambda>(_, s). Inr (1, s))
      else Inr (1, s))"

section \<open>Clock values\<close>

text \<open>The minutes and the seconds of a full value are converted from \<^verbatim>\<open>uint32_t\<close> to \<^verbatim>\<open>int\<close>.\<close>

definition u32_double :: "u32 \<Rightarrow> rat" where "u32_double w = of_nat (unat w)"

definition int_double :: "u32 \<Rightarrow> rat" where "int_double w = of_int (sint w)"

definition clock_tail :: "string \<Rightarrow> string \<Rightarrow> rat \<Rightarrow> string \<Rightarrow> rat cxx" where
  "clock_tail pos str offset s =
     (if cur s = CHR ''.'' then bind_cxx (advanceChar s) (\<lambda>(_, s).
        bind_cxx (parseFraction pos str s) (\<lambda>(f, s). Inr (dadd offset f)))
      else Inr offset)"

definition ToSeconds :: "string \<Rightarrow> string \<Rightarrow> rat cxx" where
  "ToSeconds pos strstr = (if length strstr = 0 then Inr 0 else
     let str = c_chars strstr in
     bind_cxx (parseDigits pos str str) (\<lambda>(d1, s).
       if cur s = CHR '':'' then
         bind_cxx (advanceChar s) (\<lambda>(_, s).
         bind_cxx (parseDigits pos str s) (\<lambda>(d2, s).
           if cur s = CHR '':'' then
             bind_cxx (advanceChar s) (\<lambda>(_, s).
             bind_cxx (parseDigits pos str s) (\<lambda>(d3, s).
               clock_tail pos str (dadd (dadd (dmul (u32_double d1) 3600) (dmul (int_double d2) 60)) (int_double d3)) s))
           else clock_tail pos str (dadd (dmul (u32_double d1) 60) (int_double d2)) s))
       else if cur s = CHR ''.'' then
         bind_cxx (advanceChar s) (\<lambda>(_, s).
         bind_cxx (parseFraction pos str s) (\<lambda>(f, s).
         bind_cxx (parseUnit pos str s) (\<lambda>(u, s). Inr (dmul (dadd f (u32_double d1)) u))))
       else bind_cxx (parseUnit pos str s) (\<lambda>(u, s). Inr (dmul (u32_double d1) u))))"

text \<open>\<^verbatim>\<open>(uint32_t) floor(x)\<close>, undefined when the value does not fit.\<close>

definition cast_u32 :: "rat \<Rightarrow> u32 cxx" where
  "cast_u32 x = (if 0 \<le> \<lfloor>x\<rfloor> \<and> \<lfloor>x\<rfloor> < 2 ^ 32 then Inr (of_int \<lfloor>x\<rfloor>) else Inl Undefined)"

definition ToWholeMilliseconds :: "string \<Rightarrow> string \<Rightarrow> u32 cxx" where
  "ToWholeMilliseconds pos str = bind_cxx (ToSeconds pos str) (\<lambda>x. cast_u32 (dmul x 1000))"

definition ToWholeNanoseconds :: "string \<Rightarrow> string \<Rightarrow> u32 cxx" where
  "ToWholeNanoseconds pos str = bind_cxx (ToSeconds pos str) (\<lambda>x. cast_u32 (dmul x 1000000))"

declare digits_loop.simps [simp del] fraction_loop.simps [simp del]

section \<open>Scanning digits\<close>

definition digit_string :: "string \<Rightarrow> bool" where
  "digit_string ds \<longleftrightarrow> ds \<noteq> [] \<and> list_all clock_digit ds"

definition digits_val :: "string \<Rightarrow> nat" where
  "digits_val ds = foldl (\<lambda>v c. v * 10 + digit_of c) 0 ds"

definition stops :: "string \<Rightarrow> bool" where
  "stops r \<longleftrightarrow> r = [] \<or> \<not> clock_digit (hd r)"

text \<open>Where the scan stands after digits that are followed by \<open>r\<close>.\<close>

definition after :: "string \<Rightarrow> string \<Rightarrow> string" where
  "after ds r = (if r = [] then [last ds] else r)"

lemma not_digits [simp]:
  "\<not> clock_digit NUL" "\<not> clock_digit CHR '':''" "\<not> clock_digit CHR ''.''" "\<not> clock_digit CHR ''h''"
  "\<not> clock_digit CHR ''m''" "\<not> clock_digit CHR ''s''"
  by (simp_all add: clock_digit_def)

lemma stops_simps [simp]: "stops []" "stops (c # r) \<longleftrightarrow> \<not> clock_digit c"
  by (simp_all add: stops_def)

lemma advanceChar_simps [simp]:
  "advanceChar [] = Inl Undefined" "advanceChar [c] = Inr (NUL, [c])" "advanceChar (c # c' # cs) = Inr (c', c' # cs)"
  by (simp_all add: advanceChar_def)

lemma cur_simps [simp]: "cur [] = NUL" "cur (c # s) = c"
  by (simp_all add: cur_def)

lemma digits_loop_run:
  assumes "clock_digit d" and "list_all clock_digit ds" and "stops r"
  shows "digits_loop (d # ds @ r) d (of_nat v) =
     Inr (of_nat (foldl (\<lambda>v c. v * 10 + digit_of c) v (d # ds)), after (d # ds) r)"
  using assms
proof (induction ds arbitrary: d v)
  case Nil
  have "digits_loop (d # r) d (of_nat v) = Inr (of_nat (v * 10 + digit_of d), if r = [] then [d] else r)"
    using Nil by (cases r) (simp_all add: digits_loop.simps [of _ d])
  then show ?case by (simp add: after_def)
next
  case (Cons c ds)
  from Cons.IH [of c "v * 10 + digit_of d"] Cons.prems show ?case
    by (simp add: digits_loop.simps [of _ d] after_def)
qed

lemma parseDigits_run:
  assumes "digit_string ds" and "stops r"
  shows "parseDigits pos str (ds @ r) = Inr (of_nat (digits_val ds), after ds r)"
proof -
  obtain d es where "ds = d # es" using assms(1) by (cases ds) (auto simp: digit_string_def)
  with assms digits_loop_run [of d es r 0] show ?thesis
    by (simp add: parseDigits_def checkDigit_def digit_string_def digits_val_def)
qed

lemma cur_after: "digit_string ds \<Longrightarrow> clock_digit (cur (after ds []))"
  by (auto simp: after_def digit_string_def list_all_iff)

lemma after_Nil_not:
  assumes "digit_string ds" and "\<not> clock_digit c"
  shows "cur (after ds []) \<noteq> c"
  using cur_after [OF assms(1)] assms(2) by auto

lemma after_Cons [simp]: "after ds (c # r) = c # r"
  by (simp add: after_def)

lemma c_chars_digits: "digit_string ds \<Longrightarrow> c_chars (ds @ r) = ds @ c_chars r"
proof -
  have "list_all clock_digit ds \<Longrightarrow> c_chars (ds @ r) = ds @ c_chars r"
    by (induction ds) (auto simp: c_chars_def)
  then show "digit_string ds \<Longrightarrow> c_chars (ds @ r) = ds @ c_chars r" by (simp add: digit_string_def)
qed

lemma advanceChar_digits: "digit_string ds \<Longrightarrow> advanceChar (c # ds @ r) = Inr (hd ds, ds @ r)"
  by (cases ds) (simp_all add: digit_string_def)

lemma digit_string_nonempty: "digit_string ds \<Longrightarrow> ds \<noteq> []"
  by (simp add: digit_string_def)

lemma c_chars_simps [simp]: "c_chars [] = []" "c \<noteq> NUL \<Longrightarrow> c_chars (c # r) = c # c_chars r"
  by (simp_all add: c_chars_def)

lemma c_chars_digits_only: "digit_string ds \<Longrightarrow> c_chars ds = ds"
  using c_chars_digits [of ds "[]"] by simp

lemma parseUnit_number:
  assumes "digit_string ds"
  shows "parseUnit pos str (after ds []) = Inr (1, after ds [])"
  using assms by (simp add: parseUnit_def after_Nil_not)

lemma clock_tail_digits:
  assumes "digit_string ds"
  shows "clock_tail pos str x (after ds []) = Inr x"
  using assms by (simp add: clock_tail_def after_Nil_not)

section \<open>Whole numbers are exact\<close>

lemma u32_double_small: "n < 2 ^ 32 \<Longrightarrow> u32_double (of_nat n) = of_nat n"
  by (simp add: u32_double_def unsigned_of_nat take_bit_nat_eq_self)

lemma int_double_small: "n < 2 ^ 31 \<Longrightarrow> int_double (of_nat n) = of_nat n"
  by (simp add: int_double_def signed_of_nat signed_take_bit_int_eq_self)

lemma dadd_nat: "m + n < 2 ^ 53 \<Longrightarrow> dadd (of_nat m) (of_nat n) = of_nat (m + n)"
  unfolding dadd_def by (metis of_nat_add rnd_of_nat)

lemma dmul_nat: "m * n < 2 ^ 53 \<Longrightarrow> dmul (of_nat m) (of_nat n) = of_nat (m * n)"
  unfolding dmul_def by (metis of_nat_mult rnd_of_nat)

lemma cast_u32_nat: "n < 2 ^ 32 \<Longrightarrow> cast_u32 (of_nat n) = Inr (of_nat n)"
  by (simp add: cast_u32_def)

lemma ToSeconds_full:
  assumes "digit_string a" and "digit_string b" and "digit_string c" and "stops r" and "c_chars r = r"
  shows "ToSeconds pos (a @ CHR '':'' # b @ CHR '':'' # c @ r) =
    clock_tail pos (a @ CHR '':'' # b @ CHR '':'' # c @ r)
      (dadd (dadd (dmul (u32_double (of_nat (digits_val a))) 3600) (dmul (int_double (of_nat (digits_val b))) 60))
        (int_double (of_nat (digits_val c)))) (after c r)"
  using assms by (simp add: ToSeconds_def c_chars_digits Let_def parseDigits_run advanceChar_digits digit_string_nonempty)

lemma ToSeconds_minutes:
  assumes "digit_string a" and "digit_string b" and "stops r" and "c_chars r = r" and "cur r \<noteq> CHR '':''"
  shows "ToSeconds pos (a @ CHR '':'' # b @ r) =
    clock_tail pos (a @ CHR '':'' # b @ r)
      (dadd (dmul (u32_double (of_nat (digits_val a))) 60) (int_double (of_nat (digits_val b)))) (after b r)"
proof -
  have "cur (after b r) \<noteq> CHR '':''" using assms(2,5) by (cases r) (simp_all add: after_Nil_not)
  then show ?thesis using assms
    by (simp add: ToSeconds_def c_chars_digits Let_def parseDigits_run advanceChar_digits digit_string_nonempty)
qed

lemma ToSeconds_unit:
  assumes "digit_string a" and "stops r" and "c_chars r = r" and "cur r \<noteq> CHR '':''" and "cur r \<noteq> CHR ''.''"
  shows "ToSeconds pos (a @ r) =
    bind_cxx (parseUnit pos (a @ r) (after a r)) (\<lambda>(u, _). Inr (dmul (u32_double (of_nat (digits_val a))) u))"
proof -
  have "cur (after a r) \<noteq> CHR '':''" "cur (after a r) \<noteq> CHR ''.''"
    using assms(1,4,5) by (cases r; simp add: after_Nil_not)+
  then show ?thesis using assms
    by (simp add: ToSeconds_def c_chars_digits Let_def parseDigits_run digit_string_nonempty)
qed

lemma ToWholeMilliseconds_nat:
  assumes "ToSeconds pos str = Inr (of_nat n)" and "n * 1000 < 2 ^ 32"
  shows "ToWholeMilliseconds pos str = Inr (of_nat (n * 1000))"
proof -
  have "dmul (of_nat n) 1000 = of_nat (n * 1000)" using dmul_nat [of n 1000] assms(2) by simp
  with assms show ?thesis unfolding ToWholeMilliseconds_def by (simp only: bind_cxx_simps cast_u32_nat)
qed

lemma parseUnit_units:
  "parseUnit pos str ''h'' = Inr (3600, ''h'')" "parseUnit pos str ''min'' = Inr (60, ''n'')"
  "parseUnit pos str ''s'' = Inr (1, ''s'')" "parseUnit pos str ''ms'' = Inr (rnd (1 / 1000), ''s'')"
  by (simp_all add: parseUnit_def)

text \<open>Clock values made of whole numbers are converted without any rounding error, although the parser computes with
  binary fractions: hours, minutes and seconds separated by colons, minutes and seconds, and single
  numbers with the units h, min and s or without unit, as long as the result fits 32 bits.\<close>

theorem smil_clock_exact:
  assumes "digit_string a" and "digit_string b" and "digit_string c"
    and "(digits_val a * 3600 + digits_val b * 60 + digits_val c) * 1000 < 2 ^ 32"
  shows "ToWholeMilliseconds pos (a @ '':'' @ b @ '':'' @ c) =
      Inr (of_nat ((digits_val a * 3600 + digits_val b * 60 + digits_val c) * 1000)) \<and>
    ToWholeMilliseconds pos (a @ '':'' @ b) = Inr (of_nat ((digits_val a * 60 + digits_val b) * 1000)) \<and>
    ToWholeMilliseconds pos (a @ ''h'') = Inr (of_nat (digits_val a * 3600 * 1000)) \<and>
    ToWholeMilliseconds pos (a @ ''min'') = Inr (of_nat (digits_val a * 60 * 1000)) \<and>
    ToWholeMilliseconds pos (a @ ''s'') = Inr (of_nat (digits_val a * 1000)) \<and>
    ToWholeMilliseconds pos a = Inr (of_nat (digits_val a * 1000))"
proof -
  let ?a = "digits_val a" and ?b = "digits_val b" and ?c = "digits_val c"
  have s: "?a < 2 ^ 32" "?b < 2 ^ 31" "?c < 2 ^ 31" using assms(4) by simp_all
  note n = u32_double_small [OF s(1)] int_double_small [OF s(2)] int_double_small [OF s(3)]
  have m: "dmul (of_nat ?a) 3600 = of_nat (?a * 3600)" "dmul (of_nat ?b) 60 = of_nat (?b * 60)"
      "dmul (of_nat ?a) 60 = of_nat (?a * 60)" "dmul (of_nat ?a) 1 = of_nat ?a"
    using dmul_nat [of ?a 3600] dmul_nat [of ?b 60] dmul_nat [of ?a 60] dmul_nat [of ?a 1] assms(4) by simp_all
  have d: "dadd (of_nat (?a * 3600)) (of_nat (?b * 60)) = of_nat (?a * 3600 + ?b * 60)"
      "dadd (of_nat (?a * 3600 + ?b * 60)) (of_nat ?c) = of_nat (?a * 3600 + ?b * 60 + ?c)"
      "dadd (of_nat (?a * 60)) (of_nat ?b) = of_nat (?a * 60 + ?b)"
    by (intro dadd_nat; use assms(4) in simp)+
  have "ToSeconds pos (a @ '':'' @ b @ '':'' @ c) = Inr (of_nat (?a * 3600 + ?b * 60 + ?c))"
    using ToSeconds_full [OF assms(1-3), of "[]" pos] assms(3) by (simp add: clock_tail_digits n m d del: of_nat_add of_nat_mult)
  moreover have "ToSeconds pos (a @ '':'' @ b) = Inr (of_nat (?a * 60 + ?b))"
    using ToSeconds_minutes [OF assms(1,2), of "[]" pos] assms(2) by (simp add: clock_tail_digits n m d del: of_nat_add of_nat_mult)
  moreover have "ToSeconds pos (a @ ''h'') = Inr (of_nat (?a * 3600))" "ToSeconds pos (a @ ''min'') = Inr (of_nat (?a * 60))"
      "ToSeconds pos (a @ ''s'') = Inr (of_nat ?a)"
    using ToSeconds_unit [OF assms(1), of "''h''" pos] ToSeconds_unit [OF assms(1), of "''min''" pos]
      ToSeconds_unit [OF assms(1), of "''s''" pos]
    by (simp_all add: parseUnit_units n m del: of_nat_mult)
  moreover have "ToSeconds pos a = Inr (of_nat ?a)"
    using ToSeconds_unit [OF assms(1), of "[]" pos] by (simp add: parseUnit_number [OF assms(1)] n m)
  ultimately show ?thesis
    using assms(4) by (intro conjI ToWholeMilliseconds_nat) simp_all
qed

theorem smil_clock_exact_witness: "ToWholeMilliseconds [] ''1:30'' = Inr 90000"
proof -
  have "digit_string ''1''" "digit_string ''30''" "digit_string ''0''" "digits_val ''1'' = 1" "digits_val ''30'' = 30"
      "digits_val ''0'' = 0"
    by code_simp+
  then show ?thesis using smil_clock_exact [of "''1''" "''30''" "''0''" "[]"] by simp
qed

section \<open>Fractions are close\<close>

fun frac_fold :: "string \<Rightarrow> rat \<Rightarrow> rat \<Rightarrow> rat" where
  "frac_fold [] v w = v"
| "frac_fold (c # cs) v w = frac_fold cs (dadd v (dmul w (of_nat (digit_of c)))) (dmul w tenth)"

fun frac_exact :: "string \<Rightarrow> rat \<Rightarrow> rat" where
  "frac_exact [] w = 0"
| "frac_exact (c # cs) w = w * of_nat (digit_of c) + frac_exact cs (w / 10)"

lemma fraction_loop_run:
  assumes "clock_digit d" and "list_all clock_digit ds" and "stops r"
  shows "fraction_loop (d # ds @ r) d v w = Inr (frac_fold (d # ds) v w, after (d # ds) r)"
  using assms
proof (induction ds arbitrary: d v w)
  case Nil
  then show ?case by (cases r) (simp_all add: fraction_loop.simps [of _ d] after_def)
next
  case (Cons c ds)
  from Cons.IH [of c] Cons.prems show ?case by (simp add: fraction_loop.simps [of _ d] after_def Let_def)
qed

lemma parseFraction_run:
  assumes "digit_string ds" and "stops r"
  shows "parseFraction pos str (ds @ r) = Inr (frac_fold ds 0 tenth, after ds r)"
proof -
  obtain d es where "ds = d # es" using assms(1) by (cases ds) (auto simp: digit_string_def)
  with assms fraction_loop_run [of d es r] show ?thesis
    by (simp add: parseFraction_def checkDigit_def digit_string_def)
qed

lemma tenth_bounds: "1 / 10 \<le> tenth" "tenth \<le> 1 / 10 + 1 / 10 / 2 ^ 53"
  by code_simp+

lemma digit_bound: "clock_digit c \<Longrightarrow> digit_of c \<le> 9"
  by (auto simp: clock_digit_def digit_of_def)

text \<open>One digit: the error \<open>p\<close> of the weight \<open>W\<close> and that of the value grow a little.\<close>

lemma weight_step:
  assumes "W - p \<le> w" and "w \<le> W + p" and "0 \<le> p" and "p \<le> 60 * W / 2 ^ 53" and "1 / 10 ^ 17 \<le> W"
  shows "W / 10 - (p / 10 + 3 * (W / 10) / 2 ^ 53) \<le> dmul w tenth" and "dmul w tenth \<le> W / 10 + (p / 10 + 3 * (W / 10) / 2 ^ 53)"
proof -
  have w0: "0 \<le> w" using assms by simp
  have lo: "w * (1 / 10) \<le> w * tenth" using w0 tenth_bounds by (intro mult_left_mono)
  have hi: "w * tenth \<le> w * (1 / 10 + 1 / 10 / 2 ^ 53)" using w0 tenth_bounds by (intro mult_left_mono)
  define x where "x = w * tenth"
  have x: "w / 10 \<le> x" "x \<le> w / 10 + w / 10 / 2 ^ 53" using lo hi by (simp_all add: x_def field_simps)
  have x0: "0 \<le> x" using x(1) w0 by simp
  note r = rnd_close_lin [OF x0]
  show "W / 10 - (p / 10 + 3 * (W / 10) / 2 ^ 53) \<le> dmul w tenth" "dmul w tenth \<le> W / 10 + (p / 10 + 3 * (W / 10) / 2 ^ 53)"
    unfolding dmul_def x_def [symmetric] using r x assms by simp_all
qed

lemma value_step:
  assumes "W - p \<le> w" and "w \<le> W + p" and "0 \<le> p" and "p \<le> 60 * W / 2 ^ 53" and "0 \<le> W" and "W \<le> 1 / 10"
    and "V - q \<le> v" and "v \<le> V + q" and "0 \<le> v" and "q \<le> 1 / 2" and "0 \<le> D" and "D \<le> 9" and "V + W * D \<le> 1" and "0 \<le> V"
  shows "V + W * D - (q + 100 / 2 ^ 53) \<le> dadd v (dmul w D)" and "dadd v (dmul w D) \<le> V + W * D + (q + 100 / 2 ^ 53)"
    and "0 \<le> dadd v (dmul w D)"
proof -
  have w0: "0 \<le> w" using assms by simp
  have m: "(W - p) * D \<le> w * D" "w * D \<le> (W + p) * D" "p * D \<le> p * 9" "0 \<le> p * D"
    using assms by (intro mult_right_mono mult_left_mono mult_nonneg_nonneg; simp)+
  define y where "y = w * D"
  have y: "W * D - p * 9 \<le> y" "y \<le> W * D + p * 9" using m by (simp_all add: y_def algebra_simps)
  have y0: "0 \<le> y" using w0 assms by (simp add: y_def)
  define z where "z = dmul w D"
  have z: "z \<le> y + y / 2 ^ 53 + 1 / 10 ^ 40" "y - y / 2 ^ 53 - 1 / 10 ^ 40 \<le> z" "0 \<le> z"
    unfolding z_def dmul_def using rnd_close_lin [OF y0] rnd_nonneg [OF y0] by (simp_all only: y_def)
  define A where "A = W * D"
  have A: "0 \<le> A" "A \<le> 1" "V + A \<le> 1" using assms by (simp_all add: A_def add_increasing order_trans [of "W * D" "V + W * D" 1])
  have p9: "p * 9 \<le> 54 / 2 ^ 53" using assms(4,6) by simp
  have y1: "A - 54 / 2 ^ 53 \<le> y" "y \<le> A + 54 / 2 ^ 53" using y p9 by (simp_all only: A_def)
  have z1: "A - 56 / 2 ^ 53 \<le> z" "z \<le> A + 56 / 2 ^ 53" using z(1,2) y1 A(1,2) by simp_all
  define x where "x = v + z"
  have s: "0 \<le> x" using z assms by (simp add: x_def)
  have s1: "x \<le> 2" using z1(2) assms(8,10) A(3) by (simp add: x_def)
  have x: "x - 1 / 10 ^ 40 - 2 / 2 ^ 53 \<le> rnd x" "rnd x \<le> x + 1 / 10 ^ 40 + 2 / 2 ^ 53"
    using rnd_close_lin [OF s] s1 by simp_all
  show "V + W * D - (q + 100 / 2 ^ 53) \<le> dadd v (dmul w D)" "dadd v (dmul w D) \<le> V + W * D + (q + 100 / 2 ^ 53)"
    unfolding dadd_def z_def [symmetric] A_def [symmetric] x_def [symmetric] using x z1 x_def assms(7,8) by simp_all
  show "0 \<le> dadd v (dmul w D)" unfolding dadd_def z_def [symmetric] using rnd_nonneg [OF s] by (simp add: x_def)
qed

lemma frac_fold_close:
  assumes "list_all clock_digit ds" and "i + length ds \<le> 15" and "W = 1 / 10 ^ Suc i"
    and "W - of_nat (3 * i + 1) * W / 2 ^ 53 \<le> w" and "w \<le> W + of_nat (3 * i + 1) * W / 2 ^ 53"
    and "V - of_nat (100 * i) / 2 ^ 53 \<le> v" and "v \<le> V + of_nat (100 * i) / 2 ^ 53" and "0 \<le> v" and "0 \<le> V" and "V + 10 * W \<le> 1"
  shows "V + frac_exact ds W - of_nat (100 * (i + length ds)) / 2 ^ 53 \<le> frac_fold ds v w \<and>
    frac_fold ds v w \<le> V + frac_exact ds W + of_nat (100 * (i + length ds)) / 2 ^ 53 \<and> 0 \<le> frac_fold ds v w"
  using assms
proof (induction ds arbitrary: i V W v w)
  case (Cons c ds)
  let ?D = "of_nat (digit_of c) :: rat" and ?p = "of_nat (3 * i + 1) * W / 2 ^ 53" and ?q = "of_nat (100 * i) / 2 ^ 53 :: rat"
  have i: "of_nat i \<le> (14 :: rat)" using Cons.prems(2) of_nat_mono [of i 14, where ?'a = rat] by simp
  have "(1::rat) \<le> 10 ^ i" by simp
  then have W: "0 < W" "W \<le> 1 / 10" unfolding Cons.prems(3) by (simp_all add: field_simps)
  have "(10::rat) ^ Suc i \<le> 10 ^ 17" using Cons.prems(2) by (intro power_increasing) auto
  then have W17: "1 / 10 ^ 17 \<le> W" unfolding Cons.prems(3) by (intro divide_left_mono) auto
  have D: "0 \<le> ?D" "?D \<le> 9" using digit_bound [of c] Cons.prems(1) of_nat_mono [of "digit_of c" 9, where ?'a = rat] by simp_all
  have "of_nat (3 * i + 1) * W \<le> 60 * W" using i W by (intro mult_right_mono) auto
  then have p: "0 \<le> ?p" "?p \<le> 60 * W / 2 ^ 53" using W by simp_all
  have q: "?q \<le> 1 / 2" using i by simp
  have WD: "W * ?D \<le> 9 * W" using mult_left_mono [OF D(2), of W] W by simp
  have VD: "V + W * ?D \<le> 1" using WD Cons.prems(10) W by linarith
  note vs = value_step [OF Cons.prems(4,5) p less_imp_le [OF W(1)] W(2) Cons.prems(6,7,8) q D VD Cons.prems(9)]
  note ws = weight_step [OF Cons.prems(4,5) p W17]
  have e: "?p / 10 + 3 * (W / 10) / 2 ^ 53 = of_nat (3 * Suc i + 1) * (W / 10) / 2 ^ 53" by (simp add: field_simps)
  have e': "?q + 100 / 2 ^ 53 = of_nat (100 * Suc i) / 2 ^ 53" by (simp add: field_simps)
  have "V + W * ?D + 10 * (W / 10) \<le> 1" using WD Cons.prems(10) W by linarith
  moreover have "0 \<le> V + W * ?D" using Cons.prems(9) W D by simp
  moreover have "W / 10 = 1 / 10 ^ Suc (Suc i)" using Cons.prems(3) by simp
  ultimately show ?case
    using Cons.IH [of "Suc i" "W / 10" "dmul w tenth" "V + W * ?D" "dadd v (dmul w ?D)"]
      ws [unfolded e] vs [unfolded e'] Cons.prems(1,2)
    by (simp del: of_nat_Suc of_nat_mult add: add.assoc)
qed simp

lemma digits_val_foldl: "foldl (\<lambda>v c. v * 10 + digit_of c) v cs = v * 10 ^ length cs + digits_val cs"
proof (induction cs arbitrary: v)
  case (Cons c cs)
  show ?case using Cons [of "v * 10 + digit_of c"] Cons [of "digit_of c"] by (simp add: digits_val_def algebra_simps)
qed (simp add: digits_val_def)

lemma digits_val_Cons: "digits_val (c # cs) = digit_of c * 10 ^ length cs + digits_val cs"
  using digits_val_foldl [of "digit_of c" cs] by (simp add: digits_val_def)

lemma frac_exact_val: "frac_exact ds w = 10 * w * of_nat (digits_val ds) / 10 ^ length ds"
proof (induction ds arbitrary: w)
  case Nil show ?case by (simp add: digits_val_def)
next
  case (Cons c ds) from Cons [of "w / 10"] show ?case by (simp add: digits_val_Cons field_simps)
qed

definition fraction_val :: "string \<Rightarrow> rat" where
  "fraction_val ds = of_nat (digits_val ds) / 10 ^ length ds"

lemma frac_fold_fraction:
  assumes "digit_string ds" and "length ds \<le> 15"
  shows "fraction_val ds - 1500 / 2 ^ 53 \<le> frac_fold ds 0 tenth" and "frac_fold ds 0 tenth \<le> fraction_val ds + 1500 / 2 ^ 53"
    and "0 \<le> frac_fold ds 0 tenth"
proof -
  have l: "of_nat (length ds) \<le> (15 :: rat)" using assms(2) of_nat_mono [of "length ds" 15, where ?'a = rat] by simp
  have "frac_exact ds (1 / 10) = fraction_val ds" by (simp add: frac_exact_val fraction_val_def)
  with frac_fold_close [of ds 0 "1 / 10" tenth 0 0] tenth_bounds assms l
  show "fraction_val ds - 1500 / 2 ^ 53 \<le> frac_fold ds 0 tenth" "frac_fold ds 0 tenth \<le> fraction_val ds + 1500 / 2 ^ 53"
    "0 \<le> frac_fold ds 0 tenth"
    by (simp_all add: digit_string_def)
qed

lemma fraction_val_bounds: "digit_string ds \<Longrightarrow> 0 \<le> fraction_val ds \<and> fraction_val ds < 1"
proof -
  have "list_all clock_digit ds \<Longrightarrow> digits_val ds < 10 ^ length ds"
  proof (induction ds)
    case (Cons c cs)
    then have "digit_of c * 10 ^ length cs \<le> 9 * 10 ^ length cs" "digits_val cs < 10 ^ length cs"
      using digit_bound [of c] by simp_all
    then have "digits_val (c # cs) < 10 * 10 ^ length cs" unfolding digits_val_Cons by linarith
    then show ?case by simp
  qed (simp add: digits_val_def)
  moreover have "digits_val ds < 10 ^ length ds \<Longrightarrow> (of_nat (digits_val ds) :: rat) < of_nat (10 ^ length ds)"
    by (simp only: of_nat_less_iff)
  ultimately show "digit_string ds \<Longrightarrow> 0 \<le> fraction_val ds \<and> fraction_val ds < 1"
    by (simp add: fraction_val_def digit_string_def)
qed

definition near :: "rat \<Rightarrow> rat \<Rightarrow> rat \<Rightarrow> bool" where
  "near d x y \<longleftrightarrow> y - d \<le> x \<and> x \<le> y + d"

text \<open>A conversion that loses less than a millisecond and a thousandth.\<close>

definition within_ms :: "u32 cxx \<Rightarrow> rat \<Rightarrow> bool" where
  "within_ms res exact \<longleftrightarrow>
     (\<exists>r. res = Inr r \<and> exact - 1 - 1 / 1000 \<le> of_nat (unat r) \<and> of_nat (unat r) \<le> exact + 1 / 1000)"

lemma cast_within:
  assumes "near (1 / 1000) m T" and "0 \<le> m" and "T \<le> 2 ^ 32 - 1"
  shows "within_ms (cast_u32 m) T"
proof -
  define k where "k = \<lfloor>m\<rfloor>"
  have k: "of_int k \<le> m" "m < of_int k + 1" unfolding k_def by linarith+
  have m: "T - 1 / 1000 \<le> m" "m \<le> T + 1 / 1000" using assms(1) by (simp_all add: near_def)
  have "of_int k < (of_int (2 ^ 32) :: rat)" using k(1) m(2) assms(3) by simp
  then have "0 \<le> k" "k < 2 ^ 32" using assms(2) by (simp_all add: k_def del: of_int_power)
  then have "cast_u32 m = Inr (of_int k)" "of_nat (unat (of_int k :: u32)) = (of_int k :: rat)"
    by (simp_all add: cast_u32_def k_def [symmetric] unsigned_of_int take_bit_int_eq_self)
  then show ?thesis using k m unfolding within_ms_def by (intro exI [of _ "of_int k"]) simp
qed

text \<open>Multiplying by the unit and by a thousand: \<open>P\<close> is the exact product.\<close>

lemma unit_rounds:
  assumes "0 \<le> v" and "0 \<le> U" and "near (1 / 10 ^ 5) (1000 * (v * U)) T" and "T \<le> 2 ^ 32"
    and "U - U / 2 ^ 53 \<le> u" and "u \<le> U + U / 2 ^ 53"
  shows "near (1 / 1000) (dmul (dmul v u) 1000) T" and "0 \<le> dmul (dmul v u) 1000"
proof -
  define P where "P = v * U"
  define B where "B = v * u"
  define C where "C = rnd B"
  define D where "D = C * 1000"
  have P: "0 \<le> P" "T - 1 / 10 ^ 5 \<le> 1000 * P" "1000 * P \<le> T + 1 / 10 ^ 5"
    using assms(1-3) by (simp_all add: P_def near_def)
  have "v * (U - U / 2 ^ 53) \<le> B" "B \<le> v * (U + U / 2 ^ 53)"
    unfolding B_def using assms(1,5,6) by (intro mult_left_mono; simp)+
  then have B: "P - P / 2 ^ 53 \<le> B" "B \<le> P + P / 2 ^ 53" by (simp_all add: P_def algebra_simps)
  have B0: "0 \<le> B" using B(1) P(1) by simp
  have C: "C \<le> B + B / 2 ^ 53 + 1 / 10 ^ 40" "B - B / 2 ^ 53 - 1 / 10 ^ 40 \<le> C" "0 \<le> C"
    unfolding C_def using rnd_close_lin [OF B0] rnd_nonneg [OF B0] by simp_all
  have D0: "0 \<le> D" using C(3) by (simp add: D_def)
  have m: "rnd D \<le> D + D / 2 ^ 53 + 1 / 10 ^ 40" "D - D / 2 ^ 53 - 1 / 10 ^ 40 \<le> rnd D" "0 \<le> rnd D"
    using rnd_close_lin [OF D0] rnd_nonneg [OF D0] by simp_all
  have e: "dmul (dmul v u) 1000 = rnd D" by (simp add: dmul_def D_def C_def B_def)
  show "near (1 / 1000) (dmul (dmul v u) 1000) T"
    unfolding e near_def using m(1,2) C(1,2) B P assms(4) D_def by simp
  show "0 \<le> dmul (dmul v u) 1000" unfolding e by (rule m(3))
qed

lemma seconds_rounds:
  assumes "0 \<le> x" and "near (1 / 10 ^ 8) (1000 * x) T" and "T \<le> 2 ^ 32"
  shows "near (1 / 1000) (dmul (rnd x) 1000) T" and "0 \<le> dmul (rnd x) 1000"
proof -
  define C where "C = rnd x"
  have C: "C \<le> x + x / 2 ^ 53 + 1 / 10 ^ 40" "x - x / 2 ^ 53 - 1 / 10 ^ 40 \<le> C" "0 \<le> C"
    unfolding C_def using rnd_close_lin [OF assms(1)] rnd_nonneg [OF assms(1)] by simp_all
  define D where "D = C * 1000"
  have D0: "0 \<le> D" using C(3) by (simp add: D_def)
  have m: "rnd D \<le> D + D / 2 ^ 53 + 1 / 10 ^ 40" "D - D / 2 ^ 53 - 1 / 10 ^ 40 \<le> rnd D" "0 \<le> rnd D"
    using rnd_close_lin [OF D0] rnd_nonneg [OF D0] by simp_all
  have e: "dmul (rnd x) 1000 = rnd D" by (simp add: dmul_def D_def C_def)
  show "near (1 / 1000) (dmul (rnd x) 1000) T"
    unfolding e using m(1,2) C(1,2) assms D_def by (simp add: near_def)
  show "0 \<le> dmul (rnd x) 1000" unfolding e by (rule m(3))
qed

lemma seconds_within:
  assumes "digit_string f" and "length f \<le> 15" and "(n + 1) * 1000 < 2 ^ 32"
    and "ToSeconds pos str = Inr (dadd (of_nat n) (frac_fold f 0 tenth))"
  shows "within_ms (ToWholeMilliseconds pos str) (1000 * (of_nat n + fraction_val f))"
proof -
  let ?x = "of_nat n + frac_fold f 0 tenth" and ?T = "1000 * (of_nat n + fraction_val f)"
  have "(n + 1) * 1000 \<le> 2 ^ 32 - 1" using assms(3) by linarith
  then have "of_nat ((n + 1) * 1000) \<le> (of_nat (2 ^ 32 - 1) :: rat)" by (simp only: of_nat_le_iff)
  then have T: "?T \<le> 2 ^ 32 - 1" using fraction_val_bounds [OF assms(1)] by simp
  have x: "0 \<le> ?x" "near (1 / 10 ^ 8) (1000 * ?x) ?T"
    using frac_fold_fraction [OF assms(1,2)] by (simp_all add: near_def)
  then have "near (1 / 1000) (dmul (rnd ?x) 1000) ?T" "0 \<le> dmul (rnd ?x) 1000"
    using seconds_rounds [OF x] T by simp_all
  from cast_within [OF this T] show ?thesis using assms(4) by (simp add: ToWholeMilliseconds_def dadd_def)
qed

text \<open>The units: their texts, their exact values and the values that the parser computes with.\<close>

definition clock_units :: "(string \<times> rat) list" where
  "clock_units = [([], 1), (''h'', 3600), (''min'', 60), (''s'', 1), (''ms'', 1 / 1000)]"

definition unit_double :: "rat \<Rightarrow> rat" where
  "unit_double U = rnd U"

lemma clock_units_cases:
  assumes "(t, U) \<in> set clock_units"
  shows "t = [] \<and> U = 1 \<or> t = ''h'' \<and> U = 3600 \<or> t = ''min'' \<and> U = 60 \<or> t = ''s'' \<and> U = 1 \<or> t = ''ms'' \<and> U = 1 / 1000"
  using assms by (auto simp: clock_units_def)

lemma unit_double_values: "unit_double 1 = 1" "unit_double 3600 = 3600" "unit_double 60 = 60"
  "unit_double (1 / 1000) = rnd (1 / 1000)"
  unfolding unit_double_def using rnd_of_nat [of 1] rnd_of_nat [of 3600] rnd_of_nat [of 60] by simp_all

lemma unit_double_close:
  assumes "(t, U) \<in> set clock_units"
  shows "U - U / 2 ^ 53 \<le> unit_double U" and "unit_double U \<le> U + U / 2 ^ 53" and "0 \<le> U" and "U \<le> 3600"
proof -
  have "1 / 1000 - 1 / 1000 / 2 ^ 53 \<le> rnd (1 / 1000)" "rnd (1 / 1000) \<le> 1 / 1000 + 1 / 1000 / 2 ^ 53" by code_simp+
  with clock_units_cases [OF assms]
  have "U - U / 2 ^ 53 \<le> unit_double U \<and> unit_double U \<le> U + U / 2 ^ 53 \<and> 0 \<le> U \<and> U \<le> 3600"
    by (elim disjE conjE; hypsubst) (simp_all add: unit_double_values)
  then show "U - U / 2 ^ 53 \<le> unit_double U" "unit_double U \<le> U + U / 2 ^ 53" "0 \<le> U" "U \<le> 3600" by simp_all
qed

lemma parseUnit_clock:
  assumes "(t, U) \<in> set clock_units" and "digit_string ds"
  shows "\<exists>rest. parseUnit pos str (after ds t) = Inr (unit_double U, rest)"
  using clock_units_cases [OF assms(1)]
  by (elim disjE conjE; hypsubst) (simp_all add: unit_double_values parseUnit_number [OF assms(2)] parseUnit_units)

lemma unit_text:
  assumes "(t, U) \<in> set clock_units"
  shows "stops t" and "c_chars t = t" and "cur t \<noteq> CHR '':''" and "cur t \<noteq> CHR ''.''"
  using clock_units_cases [OF assms] by auto

lemma ToSeconds_fraction_unit:
  assumes "digit_string a" and "digit_string f" and "(t, U) \<in> set clock_units"
  shows "ToSeconds pos (a @ ''.'' @ f @ t) =
    Inr (dmul (dadd (frac_fold f 0 tenth) (u32_double (of_nat (digits_val a)))) (unit_double U))"
proof -
  note n = digit_string_nonempty [OF assms(1)] c_chars_digits [OF assms(1)] c_chars_digits [OF assms(2)] unit_text(2) [OF assms(3)]
  obtain rest where u: "parseUnit pos (a @ ''.'' @ f @ t) (after f t) = Inr (unit_double U, rest)"
    using parseUnit_clock [OF assms(3,2)] by blast
  have p: "parseFraction pos str (f @ t) = Inr (frac_fold f 0 tenth, after f t)" for str
    by (rule parseFraction_run [OF assms(2) unit_text(1) [OF assms(3)]])
  show ?thesis using assms u by (simp add: ToSeconds_def Let_def n p parseDigits_run advanceChar_digits)
qed

lemma fraction_and_whole:
  assumes "digit_string f" and "length f \<le> 15"
  shows "near ((of_nat c + fraction_val f + 1600) / 2 ^ 53) (dadd (frac_fold f 0 tenth) (of_nat c)) (of_nat c + fraction_val f)"
    and "0 \<le> dadd (frac_fold f 0 tenth) (of_nat c)"
proof -
  define x where "x = frac_fold f 0 tenth + of_nat c"
  define E where "E = of_nat c + fraction_val f"
  note f = frac_fold_fraction [OF assms] fraction_val_bounds [OF assms(1)]
  have x: "0 \<le> x" "x \<le> E + 1500 / 2 ^ 53" "E - 1500 / 2 ^ 53 \<le> x"
    using f by (simp_all add: x_def E_def)
  show "near ((of_nat c + fraction_val f + 1600) / 2 ^ 53) (dadd (frac_fold f 0 tenth) (of_nat c)) (of_nat c + fraction_val f)"
    unfolding dadd_def x_def [symmetric] E_def [symmetric] near_def add_divide_distrib using rnd_close_lin [OF x(1)] x by simp
  show "0 \<le> dadd (frac_fold f 0 tenth) (of_nat c)" unfolding dadd_def x_def [symmetric] by (rule rnd_nonneg [OF x(1)])
qed

lemma unit_within:
  assumes "digit_string c" and "digit_string f" and "length f \<le> 15" and "(t, U) \<in> set clock_units"
    and "1000 * ((of_nat (digits_val c) + 1) * U) \<le> 2 ^ 32 - 1"
  shows "within_ms (ToWholeMilliseconds pos (c @ ''.'' @ f @ t)) (1000 * ((of_nat (digits_val c) + fraction_val f) * U))"
proof -
  define E where "E = of_nat (digits_val c) + fraction_val f"
  define v where "v = dadd (frac_fold f 0 tenth) (of_nat (digits_val c))"
  note u = unit_double_close [OF assms(4)]
  have U: "1 / 1000 \<le> U" using clock_units_cases [OF assms(4)] by auto
  have E: "0 \<le> E" "E \<le> of_nat (digits_val c) + 1" using fraction_val_bounds [OF assms(2)] by (simp_all add: E_def)
  have EU: "0 \<le> E * U" "E * U \<le> (of_nat (digits_val c) + 1) * U"
    using E u(3) by (simp_all add: mult_right_mono)
  then have T: "1000 * (E * U) \<le> 2 ^ 32 - 1" using assms(5) by linarith
  define N where "N = of_nat (digits_val c) + (1 :: rat)"
  have "N * (1 / 1000) \<le> N * U" using U by (intro mult_left_mono) (simp_all add: N_def)
  then have "N \<le> 2 ^ 32" using assms(5) unfolding N_def [symmetric] by simp
  then have "of_nat (digits_val c) < (of_nat (2 ^ 32) :: rat)" unfolding N_def of_nat_power of_nat_numeral by linarith
  then have small: "digits_val c < 2 ^ 32" by (simp only: of_nat_less_iff)
  have v: "E - (E + 1600) / 2 ^ 53 \<le> v" "v \<le> E + (E + 1600) / 2 ^ 53" "0 \<le> v"
    using fraction_and_whole [OF assms(2,3), of "digits_val c"] by (simp_all add: near_def v_def E_def)
  have "(E - (E + 1600) / 2 ^ 53) * U \<le> v * U" "v * U \<le> (E + (E + 1600) / 2 ^ 53) * U"
    using v u(3) by (simp_all add: mult_right_mono)
  then have "E * U - (E * U + 1600 * U) / 2 ^ 53 \<le> v * U" "v * U \<le> E * U + (E * U + 1600 * U) / 2 ^ 53"
    by (simp_all add: algebra_simps add_divide_distrib)
  then have "near (1 / 10 ^ 5) (1000 * (v * U)) (1000 * (E * U))" 
    unfolding near_def add_divide_distrib using T EU(1) u(3,4) by simp
  note r = unit_rounds [OF v(3) u(3) this _ u(1,2)]
  have "within_ms (cast_u32 (dmul (dmul v (unit_double U)) 1000)) (1000 * (E * U))"
    using cast_within [OF r(1) r(2) T] T by simp
  then show ?thesis
    using ToSeconds_fraction_unit [OF assms(1,2,4), of pos] u32_double_small [OF small]
    by (simp add: ToWholeMilliseconds_def v_def E_def)
qed

lemma clock_bases:
  assumes "(a * 3600 + b * 60 + c) * 1000 < 2 ^ 32"
  shows "dadd (dadd (dmul (u32_double (of_nat a)) 3600) (dmul (int_double (of_nat b)) 60)) (int_double (of_nat c)) =
    of_nat (a * 3600 + b * 60 + c)"
proof -
  have s: "a < 2 ^ 32" "b < 2 ^ 31" "c < 2 ^ 31" using assms by simp_all
  note u = u32_double_small [OF s(1)] int_double_small [OF s(2)] int_double_small [OF s(3)]
  have m: "dmul (of_nat a) 3600 = of_nat (a * 3600)" "dmul (of_nat b) 60 = of_nat (b * 60)"
    using dmul_nat [of a 3600] dmul_nat [of b 60] assms by simp_all
  have d: "dadd (of_nat (a * 3600)) (of_nat (b * 60)) = of_nat (a * 3600 + b * 60)"
      "dadd (of_nat (a * 3600 + b * 60)) (of_nat c) = of_nat (a * 3600 + b * 60 + c)"
    by (intro dadd_nat; use assms in simp)+
  show ?thesis by (simp add: u m d del: of_nat_add of_nat_mult)
qed

lemma minute_bases:
  assumes "(b * 60 + c) * 1000 < 2 ^ 32"
  shows "dadd (dmul (u32_double (of_nat b)) 60) (int_double (of_nat c)) = of_nat (b * 60 + c)"
proof -
  have s: "b < 2 ^ 32" "c < 2 ^ 31" using assms by simp_all
  have "dmul (of_nat b) 60 = of_nat (b * 60)" "dadd (of_nat (b * 60)) (of_nat c) = of_nat (b * 60 + c)"
    using dmul_nat [of b 60] dadd_nat [of "b * 60" c] assms by simp_all
  then show ?thesis by (simp add: u32_double_small [OF s(1)] int_double_small [OF s(2)] del: of_nat_add of_nat_mult)
qed

lemma clock_tail_fraction:
  "digit_string f \<Longrightarrow> clock_tail pos str x (''.'' @ f) = Inr (dadd x (frac_fold f 0 tenth))"
  using advanceChar_digits [of f _ "[]"] parseFraction_run [of f "[]"] by (simp add: clock_tail_def)

text \<open>C25: A clock value with a fraction of up to fifteen digits, in each of the forms that the parser accepts, is
  converted to milliseconds with an error that stays below one millisecond and a thousandth: the result is never more than a
  thousandth above the exact value, and never more than one and a thousandth below it.  The forms are
  hours, minutes and seconds; minutes and seconds; and a number with one of the units h, min, s and ms or
  without a unit.  The bound covers all rounding steps of the parser's floating
  point computation and the final truncation; a value that fits 32 bits never reaches the undefined conversion.\<close>

theorem smil_clock_precision:
  assumes "digit_string a" and "digit_string b" and "digit_string c" and "digit_string f" and "length f \<le> 15"
  shows "((digits_val a * 3600 + digits_val b * 60 + digits_val c + 1) * 1000 < 2 ^ 32 \<longrightarrow>
      within_ms (ToWholeMilliseconds pos (a @ '':'' @ b @ '':'' @ c @ ''.'' @ f))
        (1000 * (of_nat (digits_val a * 3600 + digits_val b * 60 + digits_val c) + fraction_val f))) \<and>
    ((digits_val b * 60 + digits_val c + 1) * 1000 < 2 ^ 32 \<longrightarrow>
      within_ms (ToWholeMilliseconds pos (b @ '':'' @ c @ ''.'' @ f))
        (1000 * (of_nat (digits_val b * 60 + digits_val c) + fraction_val f))) \<and>
    (\<forall>(t, U) \<in> set [([], 1), (''h'', 3600), (''min'', 60), (''s'', 1), (''ms'', 1 / 1000)].
      1000 * ((of_nat (digits_val c) + 1) * U) \<le> 2 ^ 32 - 1 \<longrightarrow>
      within_ms (ToWholeMilliseconds pos (c @ ''.'' @ f @ t)) (1000 * ((of_nat (digits_val c) + fraction_val f) * U)))"
proof (intro conjI impI ballI)
  have f: "stops (''.'' @ f)" "c_chars (''.'' @ f) = ''.'' @ f" "cur (''.'' @ f) \<noteq> CHR '':''"
    using c_chars_digits_only [OF assms(4)] by simp_all
  {
    assume l: "(digits_val a * 3600 + digits_val b * 60 + digits_val c + 1) * 1000 < 2 ^ 32"
    then have "(digits_val a * 3600 + digits_val b * 60 + digits_val c) * 1000 < 2 ^ 32" by simp
    from ToSeconds_full [OF assms(1-3) f(1,2), of pos] clock_bases [OF this] clock_tail_fraction [OF assms(4)]
    show "within_ms (ToWholeMilliseconds pos (a @ '':'' @ b @ '':'' @ c @ ''.'' @ f))
        (1000 * (of_nat (digits_val a * 3600 + digits_val b * 60 + digits_val c) + fraction_val f))"
      by (intro seconds_within [OF assms(4,5) l]) (simp only: after_Cons append.simps)
  }
  {
    assume l: "(digits_val b * 60 + digits_val c + 1) * 1000 < 2 ^ 32"
    then have "(digits_val b * 60 + digits_val c) * 1000 < 2 ^ 32" by simp
    from ToSeconds_minutes [OF assms(2,3) f(1-3), of pos] minute_bases [OF this] clock_tail_fraction [OF assms(4)]
    show "within_ms (ToWholeMilliseconds pos (b @ '':'' @ c @ ''.'' @ f))
        (1000 * (of_nat (digits_val b * 60 + digits_val c) + fraction_val f))"
      by (intro seconds_within [OF assms(4,5) l]) (simp only: after_Cons append.simps)
  }
next
  fix x :: "string \<times> rat"
  assume "x \<in> set [([], 1), (''h'', 3600), (''min'', 60), (''s'', 1), (''ms'', 1 / 1000)]"
  then have "(fst x, snd x) \<in> set clock_units" unfolding clock_units_def by simp
  from unit_within [OF assms(3-5) this, of pos]
  show "case x of (t, U) \<Rightarrow> 1000 * ((of_nat (digits_val c) + 1) * U) \<le> 2 ^ 32 - 1 \<longrightarrow>
      within_ms (ToWholeMilliseconds pos (c @ ''.'' @ f @ t)) (1000 * ((of_nat (digits_val c) + fraction_val f) * U))"
    by (simp add: case_prod_beta)
qed

theorem smil_clock_precision_witness:
  "within_ms (ToWholeMilliseconds [] ''0:0:1.001'') (1000 * (1 + fraction_val ''001'')) \<and>
   within_ms (ToWholeMilliseconds [] ''0:1.001'') (1000 * (1 + fraction_val ''001'')) \<and>
   within_ms (ToWholeMilliseconds [] ''1.001h'') (1000 * ((1 + fraction_val ''001'') * 3600)) \<and>
   within_ms (ToWholeMilliseconds [] ''1.001ms'') (1000 * ((1 + fraction_val ''001'') * (1 / 1000)))"
proof -
  have d: "digit_string ''0''" "digit_string ''1''" "digit_string ''001''" "digits_val ''0'' = 0" "digits_val ''1'' = 1"
    by code_simp+
  show ?thesis using smil_clock_precision [OF d(1,1,2,3), of "[]"] by (simp add: d(4,5))
qed

text \<open>The truncation does lose a millisecond: one second and one thousandth.\<close>

lemma clock_truncates: "ToWholeMilliseconds [] ''1.001s'' = Inr 1000"
proof -
  have d: "digit_string ''1''" "digit_string ''001''" "digits_val ''1'' = 1" "map digit_of ''001'' = [0, 0, 1]"
    by code_simp+
  have r: "tenth = 3602879701896397 / 36028797018963968"
      "rnd (3602879701896397 / 36028797018963968 * (3602879701896397 / 36028797018963968)) = 1441151880758559 / 144115188075855872"
      "rnd (1441151880758559 / 144115188075855872 * (3602879701896397 / 36028797018963968)) = 4611686018427389 / 4611686018427387904"
      "rnd (4611686018427389 / 4611686018427387904) = 4611686018427389 / 4611686018427387904"
      "rnd (4611686018427389 / 4611686018427387904 + 1) = 2254051613498933 / 2251799813685248"
      "rnd (2254051613498933 / 2251799813685248) = 2254051613498933 / 2251799813685248"
      "rnd (2254051613498933 / 2251799813685248 * 1000) = 8804889115230207 / 8796093022208"
    by code_simp+
  have s: "(''s'', 1) \<in> set clock_units" by (simp add: clock_units_def)
  have "frac_fold ''001'' 0 tenth = 4611686018427389 / 4611686018427387904"
    using d(4) by (simp only: frac_fold.simps dadd_def dmul_def list.map list.inject semiring_1_class.of_nat_0 of_nat_1 mult_zero_right add_0_left rnd_0 mult_1_right r)
  then have "ToSeconds [] ''1.001s'' = Inr (2254051613498933 / 2251799813685248)"
    using ToSeconds_fraction_unit [OF d(1,2) s, of "[]"] d(3) unit_double_values(1)
    by (simp only: append.simps u32_double_def of_nat_1 unsigned_1 dadd_def dmul_def mult_1_right r)
  moreover have "\<lfloor>8804889115230207 / 8796093022208 :: rat\<rfloor> = 1000" by code_simp
  ultimately show ?thesis by (simp only: ToWholeMilliseconds_def dmul_def r(7) cast_u32_def bind_cxx_simps) simp
qed

end
