(* ===== verification/Smil_Path.thy ===== *)
theory Smil_Path
  imports EPUB_Error Iostream
begin

text \<open>
  How a media overlay refers to the items of its package (\<^verbatim>\<open>ePub/media-overlays_smil_model.cpp\<close>): a reference is split
  into a path and a fragment, the path is made absolute and freed of dot segments, and the item with that
  path is looked up with a cache of absolute paths.  Paths are strings of bytes; the slash and the dot are single
  bytes of UTF-8, so that positions in characters and in bytes cut at the same places.
\<close>

section \<open>Splitting and normalising\<close>

definition splitIriFileFragmentID :: "string \<Rightarrow> string \<times> string" where
  "splitIriFileFragmentID iri = (let str = takeWhile (\<lambda>c. c \<noteq> CHR 0x00) iri in
     if CHR 0x23 \<in> set str
     then (takeWhile (\<lambda>c. c \<noteq> CHR 0x23) str, tl (dropWhile (\<lambda>c. c \<noteq> CHR 0x23) str))
     else (iri, []))"

text \<open>\<^verbatim>\<open>std::string::rfind(char, pos)\<close>.\<close>

definition rfind_char :: "char \<Rightarrow> string \<Rightarrow> nat \<Rightarrow> nat option" where
  "rfind_char c s pos = (let is = filter (\<lambda>i. s ! i = c) [0 ..< min (Suc pos) (length s)] in
     if is = [] then None else Some (last is))"

lemma std_find_length: "std_find pat s = Some j \<Longrightarrow> j + length pat \<le> length s"
proof (induction s arbitrary: j)
  case (Cons c s)
  show ?case
  proof (cases "take (length pat) (c # s) = pat")
    case True
    then have "length pat \<le> length (c # s)" by (metis length_take min.cobounded1)
    then show ?thesis using Cons.prems True by simp
  qed (use Cons in auto)
qed (auto split: if_splits)

text \<open>One turn of the first loop, for an occurrence at \<open>j\<close>.\<close>

definition dotdot_step :: "string \<Rightarrow> nat \<Rightarrow> string" where
  "dotdot_step s j = (case if j < 2 then Some 0 else rfind_char CHR ''/'' s (j - 2) of
     None \<Rightarrow> drop (j + 3) s
   | Some k \<Rightarrow> if k = 0 then drop (j + 3) s else take (k + 1) s @ drop (j + 3) s)"

lemma rfind_char_le: "rfind_char c s pos = Some k \<Longrightarrow> k \<le> pos \<and> k < length s \<and> s ! k = c"
proof -
  assume a: "rfind_char c s pos = Some k"
  then have "filter (\<lambda>i. s ! i = c) [0 ..< min (Suc pos) (length s)] \<noteq> []"
      "k = last (filter (\<lambda>i. s ! i = c) [0 ..< min (Suc pos) (length s)])"
    by (auto simp: rfind_char_def Let_def split: if_splits)
  then have "k \<in> set (filter (\<lambda>i. s ! i = c) [0 ..< min (Suc pos) (length s)])" using last_in_set by metis
  then show ?thesis by auto
qed

lemma dotdot_step_shorter:
  assumes "std_find ''../'' s = Some j"
  shows "length (dotdot_step s j) < length s"
proof -
  have l: "j + 3 \<le> length s" using std_find_length [OF assms] by simp
  have "k \<le> j - 2" if "rfind_char CHR ''/'' s (j - 2) = Some k" for k using rfind_char_le [OF that] by simp
  with l show ?thesis by (fastforce simp: dotdot_step_def split: option.splits)
qed

function remove_dotdot :: "string \<Rightarrow> string" where
  "remove_dotdot s = (case std_find ''../'' s of None \<Rightarrow> s | Some j \<Rightarrow> remove_dotdot (dotdot_step s j))"
  by pat_completeness auto
termination by (relation "measure length") (simp_all add: dotdot_step_shorter)

function remove_dot :: "string \<Rightarrow> string" where
  "remove_dot s = (case std_find ''./'' s of None \<Rightarrow> s | Some j \<Rightarrow> remove_dot (take j s @ drop (j + 2) s))"
  by pat_completeness auto
termination
proof (relation "measure length")
  fix s j assume "std_find ''./'' s = Some j"
  from std_find_length [OF this] show "(take j s @ drop (j + 2) s, s) \<in> measure length" by simp
qed simp

declare remove_dotdot.simps [simp del] remove_dot.simps [simp del]

definition parent_folder :: "string \<Rightarrow> string" where
  "parent_folder smilOPFPath = (case rfind_char CHR ''/'' smilOPFPath (length smilOPFPath) of
     Some i \<Rightarrow> if i > 0 then take i smilOPFPath @ ''/'' else ''/'' | None \<Rightarrow> ''/'')"

definition at_0 :: "string \<Rightarrow> char cxx" where
  "at_0 s = (case s of [] \<Rightarrow> Inl (Throws (Out_of_range ''at'')) | c # _ \<Rightarrow> Inr c)"

definition resolve_path :: "string \<Rightarrow> string \<Rightarrow> string cxx" where
  "resolve_path smilOPFPath filepathInSmil =
     (let refOPFPath = remove_dot (remove_dotdot (parent_folder smilOPFPath @ filepathInSmil)) in
      bind_cxx (at_0 smilOPFPath) (\<lambda>c0.
        if c0 = CHR ''/'' then bind_cxx (at_0 refOPFPath) (\<lambda>r0.
          Inr (if r0 \<noteq> CHR ''/'' then CHR ''/'' # refOPFPath else refOPFPath))
        else Inr refOPFPath))"

section \<open>Looking up an item\<close>

text \<open>The absolute path of an item, from the cache or stored into it.\<close>

definition cached_path :: "('m \<Rightarrow> string) \<Rightarrow> ('m \<rightharpoonup> string) \<Rightarrow> 'm \<Rightarrow> string \<times> ('m \<rightharpoonup> string)" where
  "cached_path AbsolutePath cache m = (case cache m of
     Some p \<Rightarrow> (p, cache) | None \<Rightarrow> (AbsolutePath m, cache(m \<mapsto> AbsolutePath m)))"

fun find_by_path :: "('m \<Rightarrow> string) \<Rightarrow> 'm list \<Rightarrow> string \<Rightarrow> ('m \<rightharpoonup> string) \<Rightarrow> 'm option \<times> ('m \<rightharpoonup> string)" where
  "find_by_path AbsolutePath [] refOPFPath cache = (None, cache)"
| "find_by_path AbsolutePath (m # ms) refOPFPath cache =
     (case cached_path AbsolutePath cache m of (absPath, cache) \<Rightarrow>
        if absPath = refOPFPath then (Some m, cache) else find_by_path AbsolutePath ms refOPFPath cache)"

definition getReferencedManifestItem ::
  "('m \<Rightarrow> string) \<Rightarrow> 'm list \<Rightarrow> string \<Rightarrow> 'm \<Rightarrow> ('m \<rightharpoonup> string) \<Rightarrow> ('m option \<times> ('m \<rightharpoonup> string)) cxx" where
  "getReferencedManifestItem AbsolutePath manifest filepathInSmil smilItem cache =
     (if filepathInSmil = [] then Inr (None, cache)
      else case cached_path AbsolutePath cache smilItem of (smilOPFPath, cache) \<Rightarrow>
        bind_cxx (resolve_path smilOPFPath filepathInSmil) (\<lambda>refOPFPath.
          Inr (find_by_path AbsolutePath manifest refOPFPath cache)))"

section \<open>The cache is transparent\<close>

definition cache_ok :: "('m \<Rightarrow> string) \<Rightarrow> ('m \<rightharpoonup> string) \<Rightarrow> bool" where
  "cache_ok AbsolutePath cache \<longleftrightarrow> (\<forall>m p. cache m = Some p \<longrightarrow> p = AbsolutePath m)"

lemma cache_ok_empty [simp]: "cache_ok f Map.empty"
  by (simp add: cache_ok_def)

lemma cached_path_ok:
  "cache_ok f cache \<Longrightarrow> fst (cached_path f cache m) = f m \<and> cache_ok f (snd (cached_path f cache m))"
  by (auto simp: cached_path_def cache_ok_def split: option.splits if_splits)

lemma find_by_path_ok:
  "cache_ok f cache \<Longrightarrow> fst (find_by_path f ms p cache) = find (\<lambda>m. f m = p) ms \<and> cache_ok f (snd (find_by_path f ms p cache))"
proof (induction ms arbitrary: cache)
  case (Cons m ms)
  then show ?case using cached_path_ok [OF Cons.prems, of m] by (auto simp: split_beta)
qed simp

definition referenced_item :: "('m \<Rightarrow> string) \<Rightarrow> 'm list \<Rightarrow> string \<Rightarrow> 'm \<Rightarrow> 'm option cxx" where
  "referenced_item f ms file smil = (if file = [] then Inr None
     else bind_cxx (resolve_path (f smil) file) (\<lambda>p. Inr (find (\<lambda>m. f m = p) ms)))"

lemma getReferencedManifestItem_ok:
  assumes "cache_ok f cache"
  shows "case getReferencedManifestItem f ms file smil cache of
      Inl e \<Rightarrow> referenced_item f ms file smil = Inl e
    | Inr (m, cache') \<Rightarrow> referenced_item f ms file smil = Inr m \<and> cache_ok f cache'"
proof -
  note c = cached_path_ok [OF assms, of smil]
  obtain p cache' where p: "cached_path f cache smil = (p, cache')" by fastforce
  with c have "p = f smil" "cache_ok f cache'" by auto
  then show ?thesis using p assms find_by_path_ok [of f cache' ms]
    by (cases "resolve_path (f smil) file")
      (auto simp: getReferencedManifestItem_def referenced_item_def split_beta)
qed

section \<open>Dot segments\<close>

text \<open>Text without a dot before a slash that does not end with a dot.\<close>

fun clean :: "string \<Rightarrow> bool" where
  "clean [] = True"
| "clean [c] = (c \<noteq> CHR ''.'')"
| "clean (c # d # cs) = (\<not> (c = CHR ''.'' \<and> d = CHR ''/'') \<and> clean (d # cs))"

definition dot_free :: "string \<Rightarrow> bool" where
  "dot_free s \<longleftrightarrow> std_find ''./'' s = None"

lemma find_dotdot_clean: "clean x \<Longrightarrow> std_find ''../'' (x @ ''../'' @ r) = Some (length x)"
proof (induction x rule: clean.induct)
  case (3 c d cs) then show ?case by (cases cs) auto
qed auto

lemma dot_free_append: "clean x \<Longrightarrow> dot_free y \<Longrightarrow> dot_free (x @ y)"
  by (induction x rule: clean.induct) (auto simp: dot_free_def)

lemma dot_free_no_slash: "CHR ''/'' \<notin> set s \<Longrightarrow> dot_free s"
proof (induction s)
  case (Cons c s) then show ?case by (cases s) (auto simp: dot_free_def)
qed (simp add: dot_free_def)

lemma dot_free_dotdot: "dot_free s \<Longrightarrow> std_find ''../'' s = None"
proof (induction s)
  case (Cons c s) then show ?case by (cases s) (auto simp: dot_free_def split: if_splits)
qed simp

lemma remove_dot_free: "dot_free s \<Longrightarrow> remove_dot (remove_dotdot s) = s"
  by (simp add: remove_dotdot.simps dot_free_dotdot) (simp add: remove_dot.simps dot_free_def)

text \<open>Whatever the input, the normalised path has no dot segment left.\<close>

lemma remove_dot_result: "dot_free (remove_dot s)"
  by (induction s rule: remove_dot.induct) (simp add: remove_dot.simps dot_free_def split: option.splits)

definition seg :: "string \<Rightarrow> bool" where
  "seg d \<longleftrightarrow> d \<noteq> [] \<and> CHR ''/'' \<notin> set d \<and> last d \<noteq> CHR ''.''"

definition dir_path :: "string list \<Rightarrow> string" where
  "dir_path ds = concat (map (\<lambda>d. d @ ''/'') ds)"

lemma clean_append: "clean x \<Longrightarrow> clean y \<Longrightarrow> clean (x @ y)"
proof (induction x rule: clean.induct)
  case (2 c) then show ?case by (cases y) auto
qed auto

lemma clean_seg: "CHR ''/'' \<notin> set d \<Longrightarrow> (d \<noteq> [] \<longrightarrow> last d \<noteq> CHR ''.'') \<Longrightarrow> clean (d @ ''/'')"
  by (induction d rule: clean.induct) (auto split: if_splits)

lemma clean_dir_path: "list_all seg ds \<Longrightarrow> clean (dir_path ds)"
proof (induction ds)
  case (Cons d ds)
  then have "clean ((d @ ''/'') @ dir_path ds)" by (intro clean_append clean_seg) (auto simp: seg_def)
  then show ?case by (simp add: dir_path_def)
qed (simp add: dir_path_def)

lemma dir_path_simps [simp]: "dir_path [] = []" "dir_path (ds @ [d]) = dir_path ds @ d @ ''/''" "dir_path (d # ds) = d @ ''/'' @ dir_path ds"
  by (simp_all add: dir_path_def)

lemma dir_path_last: "ds \<noteq> [] \<Longrightarrow> dir_path ds \<noteq> [] \<and> last (dir_path ds) = CHR ''/''"
  by (induction ds rule: rev_induct) auto

lemma rfind_char_append:
  assumes "c \<notin> set y" and "length x \<le> Suc pos" and "Suc pos \<le> length (x @ y)"
  shows "rfind_char c (x @ y @ z) pos = (if x = [] then None else if last x = c then Some (length x - 1) else rfind_char c (x @ y @ z) (length x - 1))"
proof -
  let ?f = "\<lambda>n. filter (\<lambda>i. (x @ y @ z) ! i = c) [0 ..< n]"
  have "[0 ..< Suc pos] = [0 ..< length x] @ [length x ..< Suc pos]" 
    using upt_add_eq_append [of 0 "length x" "Suc pos - length x"] assms(2) by simp
  moreover have "filter (\<lambda>i. (x @ y @ z) ! i = c) [length x ..< Suc pos] = []"
    using assms by (auto simp: filter_empty_conv nth_append in_set_conv_nth)
  ultimately have f: "?f (Suc pos) = ?f (length x)" by simp
  have m: "min (Suc pos) (length (x @ y @ z)) = Suc pos" using assms(3) by simp
  show ?thesis
  proof (cases x rule: rev_cases)
    case Nil then show ?thesis using f m by (simp add: rfind_char_def)
  next
    case (snoc x' b)
    then have "rfind_char c (x @ y @ z) pos = rfind_char c (x @ y @ z) (length x - 1)"
      using f m by (simp add: rfind_char_def Let_def)
    moreover have "rfind_char c (x @ y @ z) (length x - 1) = Some (length x - 1)" if "b = c"
      using that snoc by (simp add: rfind_char_def Let_def nth_append)
    ultimately show ?thesis using snoc by simp
  qed
qed

lemma remove_dotdot_up:
  assumes "clean pre" and "pre = [] \<or> last pre = CHR ''/''" and "seg d"
  shows "remove_dotdot (pre @ d @ ''/'' @ ''../'' @ r) = remove_dotdot ((if pre = [] \<or> pre = ''/'' then [] else pre) @ r)"
proof -
  let ?x = "pre @ d @ ''/''" and ?s = "pre @ d @ ''/'' @ ''../'' @ r"
  have d: "d \<noteq> []" "CHR ''/'' \<notin> set d" using assms(3) by (simp_all add: seg_def)
  have "clean (pre @ (d @ ''/''))" using assms(1,3) by (intro clean_append clean_seg) (auto simp: seg_def)
  then have f: "std_find ''../'' ?s = Some (length ?x)" using find_dotdot_clean [of ?x r] by simp
  have "rfind_char CHR ''/'' ?s (length ?x - 2) = (if pre = [] then None else Some (length pre - 1))"
    using rfind_char_append [of "CHR ''/''" d pre "length ?x - 2" "''/'' @ ''../'' @ r"] d assms(2) by (cases d) auto
  moreover have "\<not> length ?x < 2" using d(1) by (cases d) auto
  moreover have "drop (length ?x + 3) ?s = r" by simp
  moreover have "pre \<noteq> [] \<Longrightarrow> take (length pre - 1 + 1) ?s = pre" by (cases pre) auto
  moreover have "pre \<noteq> [] \<Longrightarrow> length pre - 1 = 0 \<longleftrightarrow> pre = ''/''" using assms(2) by (cases pre) auto
  ultimately have "dotdot_step ?s (length ?x) = (if pre = [] \<or> pre = ''/'' then [] else pre) @ r"
    by (simp only: dotdot_step_def) auto
  then show ?thesis by (simp only: remove_dotdot.simps [of ?s] f option.case)
qed

lemma remove_dotdot_top: "remove_dotdot (''../'' @ r) = remove_dotdot r" "remove_dotdot (''/'' @ ''../'' @ r) = remove_dotdot r"
  by (subst remove_dotdot.simps; simp add: dotdot_step_def)+

definition ups :: "nat \<Rightarrow> string" where
  "ups n = concat (replicate n ''../'')"

lemma ups_simps [simp]: "ups 0 = []" "ups (Suc n) = ''../'' @ ups n"
  by (simp_all add: ups_def)

lemma remove_dotdot_ups:
  assumes "p = [] \<or> p = ''/''" and "list_all seg ds"
  shows "remove_dotdot (p @ dir_path ds @ ups n @ r) =
    remove_dotdot ((if n = 0 \<or> n < length ds then p else []) @ dir_path (take (length ds - n) ds) @ r)"
  using assms
proof (induction n arbitrary: p ds)
  case (Suc n)
  show ?case
  proof (cases ds rule: rev_cases)
    case Nil
    have "remove_dotdot (p @ ''../'' @ ups n @ r) = remove_dotdot (ups n @ r)"
      using Suc.prems(1) remove_dotdot_top [of "ups n @ r"] by (elim disjE) simp_all
    with Nil Suc.IH [of "[]" "[]"] show ?thesis by (cases n) simp_all
  next
    case (snoc ds' d)
    let ?pre = "p @ dir_path ds'"
    have "clean (p @ dir_path ds')" using Suc.prems snoc by (intro clean_append clean_dir_path) auto
    moreover have "?pre = [] \<or> last ?pre = CHR ''/''" using Suc.prems(1) dir_path_last [of ds'] by (cases "ds' = []") auto
    ultimately have e: "remove_dotdot (p @ dir_path ds @ ups (Suc n) @ r) =
        remove_dotdot ((if ?pre = [] \<or> ?pre = ''/'' then [] else ?pre) @ ups n @ r)"
      using remove_dotdot_up [of ?pre d "ups n @ r"] Suc.prems(2) snoc by simp
    show ?thesis
    proof (cases "ds' = []")
      case True
      with e snoc Suc.prems(1) Suc.IH [of "[]" "[]"] show ?thesis by (cases n) auto
    next
      case False
      then obtain b bs where b: "ds' = b # bs" by (cases ds') auto
      have "seg b" using Suc.prems(2) snoc b by simp
      then have "?pre \<noteq> [] \<and> ?pre \<noteq> ''/''" using Suc.prems(1) b by (cases b) (auto simp: seg_def)
      with e have "remove_dotdot (p @ dir_path ds @ ups (Suc n) @ r) = remove_dotdot (p @ dir_path ds' @ ups n @ r)" by simp
      with Suc.IH [of p ds'] Suc.prems snoc False show ?thesis by auto
    qed
  qed
qed simp

lemma rfind_char_end: "s \<noteq> [] \<Longrightarrow> rfind_char c s (length s) = rfind_char c s (length s - 1)"
  by (cases s) (simp_all add: rfind_char_def)

lemma parent_folder_dir:
  assumes "p = [] \<or> p = ''/''" and "p \<noteq> [] \<or> ds \<noteq> []" and "CHR ''/'' \<notin> set name" and "list_all seg ds"
  shows "parent_folder (p @ dir_path ds @ name) = p @ dir_path ds"
proof -
  let ?x = "p @ dir_path ds" and ?s = "p @ dir_path ds @ name"
  have x: "?x \<noteq> []" "last ?x = CHR ''/''" using assms(1,2) dir_path_last [of ds] by (cases "ds = []"; auto)+
  have "rfind_char CHR ''/'' ?s (length ?s) = rfind_char CHR ''/'' (?x @ name @ []) (length ?s - 1)"
    using rfind_char_end [of ?s "CHR ''/''"] x(1) by (metis append_is_Nil_conv append_assoc append_Nil2)
  also have "\<dots> = Some (length ?x - 1)"
  proof -
    have "0 < length ?x" using x(1) by blast
    then have "length ?x \<le> Suc (length ?s - 1)" "Suc (length ?s - 1) \<le> length (?x @ name)"
      by (simp_all only: length_append)
    from rfind_char_append [OF assms(3) this, of "[]"] x show ?thesis by simp
  qed
  finally have r: "rfind_char CHR ''/'' ?s (length ?s) = Some (length ?x - 1)" .
  obtain y where y: "?x = y @ ''/''" using x by (metis append_butlast_last_id)
  then have "take (length ?x - 1) ?s = y" by (metis append.assoc append_eq_conv_conj length_append_singleton diff_Suc_1)
  moreover have "length ?x - 1 = 0 \<Longrightarrow> ?x = ''/''" using y by simp
  ultimately show ?thesis using r y by (auto simp: parent_folder_def)
qed

text \<open>C24: A reference from an overlay to another file is resolved against the folder of the overlay: each leading parent
  segment removes one folder, going above the top stays at the top, an absolute base gives an absolute path, and
  the item returned is the one of the manifest with exactly that path.  The cache of absolute paths does not change
  the answer and stays consistent.\<close>

theorem smil_reference_resolved:
  assumes "p = [] \<or> p = ''/''" and "p \<noteq> [] \<or> ds \<noteq> []" and "list_all seg ds" and "list_all seg es"
    and "CHR ''/'' \<notin> set name" and "CHR ''/'' \<notin> set leaf" and "leaf \<noteq> []"
    and "AbsolutePath smilItem = p @ dir_path ds @ name" and "cache_ok AbsolutePath cache"
  shows "\<exists>cache'. getReferencedManifestItem AbsolutePath manifest (ups n @ dir_path es @ leaf) smilItem cache =
      Inr (find (\<lambda>m. AbsolutePath m = p @ dir_path (take (length ds - n) ds) @ dir_path es @ leaf) manifest, cache') \<and>
    cache_ok AbsolutePath cache'"
proof -
  let ?q = "if n = 0 \<or> n < length ds then p else []" and ?t = "dir_path (take (length ds - n) ds)"
  let ?ref = "ups n @ dir_path es @ leaf"
  have "list_all seg (take (length ds - n) ds)" using assms(3) by (auto simp: list_all_iff dest: in_set_takeD)
  then have "dot_free (?q @ ?t @ dir_path es @ leaf)"
    using assms(1,4,6) by (intro dot_free_append dot_free_no_slash clean_dir_path) auto
  then have n: "remove_dot (remove_dotdot (p @ dir_path ds @ ?ref)) = ?q @ ?t @ dir_path es @ leaf"
    using remove_dotdot_ups [OF assms(1,3), of n "dir_path es @ leaf"] remove_dot_free by simp
  obtain c w where cw: "?t @ dir_path es @ leaf = c # w" "c \<noteq> CHR ''/''"
  proof -
    have "list_all seg (take (length ds - n) ds @ es)" using assms(4) \<open>list_all seg (take (length ds - n) ds)\<close> by simp
    then have "take (length ds - n) ds @ es = [] \<or> (\<exists>d r. take (length ds - n) ds @ es = d # r \<and> seg d)"
      by (cases "take (length ds - n) ds @ es") (simp_all del: append_is_Nil_conv)
    then have "dir_path (take (length ds - n) ds @ es) = [] \<or>
        (\<exists>d r. dir_path (take (length ds - n) ds @ es) = d @ r \<and> seg d)"
      by (elim disjE exE conjE) (auto simp del: append_is_Nil_conv)
    moreover have "?t @ dir_path es = dir_path (take (length ds - n) ds @ es)" by (simp add: dir_path_def)
    moreover have "leaf \<noteq> [] \<and> hd leaf \<noteq> CHR ''/''" using assms(6,7) by (metis hd_in_set)
    ultimately have "hd (?t @ dir_path es @ leaf) \<noteq> CHR ''/'' \<and> ?t @ dir_path es @ leaf \<noteq> []"
      unfolding seg_def by (metis append.assoc append_Nil append_is_Nil_conv hd_append2 hd_in_set list.discI)
    then show thesis using that by (metis list.exhaust_sel)
  qed
  have p0: "at_0 (p @ dir_path ds @ name) = Inr (if p = [] then hd (dir_path ds) else CHR ''/'')"
      "p = [] \<Longrightarrow> hd (dir_path ds) \<noteq> CHR ''/''"
    using assms(1-3) by (cases ds; auto simp: at_0_def seg_def neq_Nil_conv split: list.splits)+
  have "resolve_path (AbsolutePath smilItem) ?ref = Inr (p @ ?t @ dir_path es @ leaf)"
    using n cw p0 assms(1) parent_folder_dir [OF assms(1,2,5,3)]
    by (auto simp: resolve_path_def Let_def assms(8) at_0_def)
  then have "referenced_item AbsolutePath manifest ?ref smilItem =
      Inr (find (\<lambda>m. AbsolutePath m = p @ ?t @ dir_path es @ leaf) manifest)"
    using assms(7) by (simp add: referenced_item_def)
  with getReferencedManifestItem_ok [OF assms(9), of manifest ?ref smilItem] show ?thesis
    by (auto split: sum.splits)
qed

theorem smil_reference_resolved_witness:
  "\<exists>cache'. getReferencedManifestItem (\<lambda>m. m) [''OEBPS/a.smil'', ''OEBPS/text/c.xhtml''] ''../text/c.xhtml'' ''OEBPS/smil/a.smil'' Map.empty =
     Inr (Some ''OEBPS/text/c.xhtml'', cache')"
proof -
  have "list_all seg [''OEBPS'', ''smil'']" "list_all seg [''text'']" by code_simp+
  then show ?thesis
    using smil_reference_resolved [of "[]" "[''OEBPS'', ''smil'']" "[''text'']" "''a.smil''" "''c.xhtml''" "\<lambda>m. m"
        "''OEBPS/smil/a.smil''" Map.empty "[''OEBPS/a.smil'', ''OEBPS/text/c.xhtml'']" 1]
    by (auto simp: ups_def dir_path_def)
qed

end
