(* ===== verification/Smil_Parse.thy ===== *)
theory Smil_Parse
  imports Smil_Data Smil_Clock Smil_Path
begin

text \<open>
  \<^verbatim>\<open>MediaOverlaysSmilModel::parseSMIL\<close> (\<^verbatim>\<open>ePub/media-overlays_smil_model.cpp\<close>): the recursive translation of the body of a SMIL
  document into the tree of a media overlay, with every error it reports, the caches it fills and the duration
  it accumulates.  An element of the document is its name, its attributes and its child elements.  The code passes
  two pointers down, to the sequence and to the parallel that are being filled; here they are the children
  collected so far and the parallel so far, and the caller gets them back changed.
\<close>

section \<open>Documents and state\<close>

datatype smil_ns = NS_epub | NS_smil

datatype xml_node = Elem string "((string \<times> smil_ns) \<times> string) list" "xml_node list"

definition getProp :: "((string \<times> smil_ns) \<times> string) list \<Rightarrow> string \<Rightarrow> smil_ns \<Rightarrow> string" where
  "getProp attrs name ns = (case map_of attrs (name, ns) of None \<Rightarrow> [] | Some v \<Rightarrow> v)"

text \<open>What the parser uses of the package: the manifest and the items' paths and types.\<close>

record 'm smil_package =
  pk_manifest :: "'m list"
  pk_AbsolutePath :: "'m \<Rightarrow> string"
  pk_Href :: "'m \<Rightarrow> string"
  pk_MediaType :: "'m \<Rightarrow> string"

text \<open>The arguments that stay the same during one call: the handler of errors, the text of the pointer in the messages of
  the clock parser, the package, the item of the SMIL document and the data that is filled.\<close>

record 'm smil_env =
  se_handler :: handler
  se_pos :: string
  se_package :: "'m smil_package"
  se_item :: 'm
  se_data :: "'m SMILData option"

text \<open>The state: the next free address, the flag \<^verbatim>\<open>_excludeAudioDuration\<close>, the two caches, and the root of the data.\<close>

record 'm parse_state =
  ps_next :: nat
  ps_exclude :: bool
  ps_paths :: "'m \<rightharpoonup> string"
  ps_items :: "string \<rightharpoonup> 'm option"
  ps_root :: "'m TimeContainer option"

type_synonym 'm cursor = "'m TimeContainer list option \<times> 'm Parallel option"

section \<open>References and messages\<close>

definition env_href :: "'m smil_env \<Rightarrow> string" where
  "env_href env = pk_Href (se_package env) (se_item env)"

definition smil_error :: "'m smil_env \<Rightarrow> overlay_error \<Rightarrow> string \<Rightarrow> unit cxx" where
  "smil_error env e what = HandleError (se_handler env) (Overlay e) (env_href env @ what)"

text \<open>The split of an attribute; both parts stay empty when the attribute is missing.\<close>

definition split_ref :: "string \<Rightarrow> string \<times> string" where
  "split_ref r = (if r = [] then ([], []) else splitIriFileFragmentID r)"

definition lookup_item :: "'m smil_env \<Rightarrow> string \<Rightarrow> 'm parse_state \<Rightarrow> ('m option \<times> 'm parse_state) cxx" where
  "lookup_item env file st = (case ps_items st file of
     Some m \<Rightarrow> Inr (m, st)
   | None \<Rightarrow> bind_cxx (getReferencedManifestItem (pk_AbsolutePath (se_package env)) (pk_manifest (se_package env)) file
        (se_item env) (ps_paths st)) (\<lambda>(m, paths). Inr (m, st\<lparr>ps_paths := paths, ps_items := (ps_items st)(file \<mapsto> m)\<rparr>)))"

definition check_textref :: "'m smil_env \<Rightarrow> string \<Rightarrow> 'm option \<Rightarrow> unit cxx" where
  "check_textref env file m = (if file \<noteq> [] \<and> m = None
     then smil_error env MediaOverlayInvalidTextRefSource ('' ['' @ file @ ''] => text ref manifest cannot be found'') else Inr ())"

definition clip_value :: "'m smil_env \<Rightarrow> string \<Rightarrow> string \<Rightarrow> u32 cxx" where
  "clip_value env attr str = (if str = [] then Inr 0 else
     case ToWholeMilliseconds (se_pos env) str of
       Inr v \<Rightarrow> Inr v
     | Inl (Throws (Invalid_argument w)) \<Rightarrow>
         bind_cxx (smil_error env MediaOverlayInvalidSmilClockValue
           ('' -- '' @ attr @ ''='' @ str @ '' => invalid SMIL Clock Value syntax ('' @ w @ '')'')) (\<lambda>_. Inr 0)
     | Inl e \<Rightarrow> Inl e)"

section \<open>The elements\<close>

text \<open>What an element opens: a sequence with its data, a parallel, a medium, or nothing (an unknown element).\<close>

datatype 'm opened = Opened_body "'m SequenceInfo" | Opened_seq "'m SequenceInfo" | Opened_par | Opened_media | Opened_other

definition open_body ::
  "'m smil_env \<Rightarrow> 'm SequenceInfo \<Rightarrow> 'm cursor \<Rightarrow> 'm parse_state \<Rightarrow> ('m opened \<times> u32 \<times> 'm cursor \<times> 'm cursor \<times> 'm parse_state) cxx" where
  "open_body env info c st =
     bind_cxx (check_textref env (textref_file info) (textrefManifestItem info)) (\<lambda>_.
     bind_cxx (must (se_data env)) (\<lambda>sd.
       Inr (Opened_body info, 0, c, (Some [], None), st\<lparr>ps_next := Suc (ps_next st), ps_root := Some (Seq info [])\<rparr>)))"

definition open_seq ::
  "'m smil_env \<Rightarrow> 'm SequenceInfo \<Rightarrow> 'm cursor \<Rightarrow> 'm parse_state \<Rightarrow> ('m opened \<times> u32 \<times> 'm cursor \<times> 'm cursor \<times> 'm parse_state) cxx" where
  "open_seq env info c st =
     bind_cxx (check_textref env (textref_file info) (textrefManifestItem info)) (\<lambda>_.
     bind_cxx (if fst c = None then smil_error env MediaOverlaySMILSequenceSequenceParent
                 '' => parent of sequence time container must be sequence'' else Inr ()) (\<lambda>_.
     bind_cxx (must (fst c)) (\<lambda>_.
       Inr (Opened_seq info, 0, c, (Some [], None), st\<lparr>ps_next := Suc (ps_next st)\<rparr>))))"

definition open_par ::
  "'m smil_env \<Rightarrow> string \<Rightarrow> 'm option \<Rightarrow> string \<Rightarrow> 'm cursor \<Rightarrow> 'm parse_state \<Rightarrow> ('m opened \<times> u32 \<times> 'm cursor \<times> 'm cursor \<times> 'm parse_state) cxx" where
  "open_par env file m type c st =
     bind_cxx (check_textref env file m) (\<lambda>_.
     bind_cxx (if fst c = None then smil_error env MediaOverlaySMILParallelSequenceParent
                 '' => parent of parallel time container must be sequence'' else Inr ()) (\<lambda>_.
     bind_cxx (must (fst c)) (\<lambda>_.
       Inr (Opened_par, 0, c,
         (None, Some \<lparr>par_addr = ps_next st, par_owner = (case se_data env of Some sd \<Rightarrow> sd_addr sd | None \<Rightarrow> 0),
            par_type = type, par_audio = None, par_text = None\<rparr>),
         st\<lparr>ps_next := Suc (ps_next st)\<rparr>))))"

definition check_audio :: "'m smil_env \<Rightarrow> string \<Rightarrow> 'm option \<Rightarrow> unit cxx" where
  "check_audio env file m =
     (if file = [] then smil_error env MediaOverlayInvalidAudio '' => audio source is empty''
      else case m of
        None \<Rightarrow> smil_error env MediaOverlayInvalidAudioSource ('' ['' @ file @ ''] => audio source manifest cannot be found'')
      | Some i \<Rightarrow> (let type = pk_MediaType (se_package env) i in
          if type \<noteq> ''audio/mpeg'' \<and> type \<noteq> ''audio/mp4''
          then smil_error env MediaOverlayInvalidAudioType
                 ('' ['' @ file @ '' ('' @ type @ '')] => audio source type is invalid'')
          else Inr ()))"

definition open_audio ::
  "'m smil_env \<Rightarrow> ((string \<times> smil_ns) \<times> string) list \<Rightarrow> string \<Rightarrow> 'm option \<Rightarrow> 'm cursor \<Rightarrow> 'm parse_state \<Rightarrow>
   ('m opened \<times> u32 \<times> 'm cursor \<times> 'm cursor \<times> 'm parse_state) cxx" where
  "open_audio env attrs file m c st =
     bind_cxx (if snd c = None then smil_error env MediaOverlaySMILAudioParallelParent
                 '' => parent of audio must be parallel time container'' else Inr ()) (\<lambda>_.
     bind_cxx (check_audio env file m) (\<lambda>_.
     bind_cxx (clip_value env ''clipBegin'' (getProp attrs ''clipBegin'' NS_smil)) (\<lambda>clipBegin.
     bind_cxx (clip_value env ''clipEnd'' (getProp attrs ''clipEnd'' NS_smil)) (\<lambda>clipEnd0.
       let clipEnd = (if getProp attrs ''clipEnd'' NS_smil = [] \<or> clipEnd0 \<le> clipBegin then 0 else clipEnd0);
           clipDuration = clipEnd - clipBegin
       in bind_cxx (must (snd c)) (\<lambda>p.
         Inr (Opened_media, if sint clipDuration \<le> 0 then 0 else clipDuration,
           (fst c, Some (p\<lparr>par_audio := Some \<lparr>src_file = file, src_fragmentID = [], srcManifestItem = m,
              clipBeginMilliseconds = clipBegin, clipEndMilliseconds = clipEnd\<rparr>\<rparr>)),
           (None, None), st))))))"

definition check_text :: "'m smil_env \<Rightarrow> string \<Rightarrow> string \<Rightarrow> 'm option \<Rightarrow> unit cxx" where
  "check_text env file frag m =
     (if file = [] then smil_error env MediaOverlayInvalidText '' => text source is empty''
      else if m = None
        then smil_error env MediaOverlayInvalidTextSource ('' ['' @ file @ ''] => text source manifest cannot be found'')
      else if frag = []
        then smil_error env MediaOverlayTextSrcFragmentMissing ('' ['' @ file @ ''] => text source fragment identifier is empty'')
      else Inr ())"

text \<open>The message about a text outside of the spine item's document reads the items through both pointers.\<close>

definition open_text ::
  "'m smil_env \<Rightarrow> string \<Rightarrow> string \<Rightarrow> 'm option \<Rightarrow> 'm cursor \<Rightarrow> 'm parse_state \<Rightarrow>
   ('m opened \<times> u32 \<times> 'm cursor \<times> 'm cursor \<times> 'm parse_state) cxx" where
  "open_text env file frag m c st =
     bind_cxx (if snd c = None then smil_error env MediaOverlaySMILTextParallelParent
                 '' => parent of text must be parallel time container'' else Inr ()) (\<lambda>_.
     bind_cxx (check_text env file frag m) (\<lambda>_.
     bind_cxx (must (se_data env)) (\<lambda>sd.
     bind_cxx (if m \<noteq> sd_spineItem sd
               then bind_cxx (must m) (\<lambda>_. bind_cxx (must (sd_spineItem sd)) (\<lambda>_. Inr (st\<lparr>ps_exclude := True\<rparr>)))
               else Inr st) (\<lambda>st.
     bind_cxx (must (snd c)) (\<lambda>p.
       Inr (Opened_media, 0,
         (fst c, Some (p\<lparr>par_text := Some \<lparr>src_file = file, src_fragmentID = frag, srcManifestItem = m\<rparr>\<rparr>)),
         (None, None), st))))))"

definition open_element ::
  "'m smil_env \<Rightarrow> string \<Rightarrow> ((string \<times> smil_ns) \<times> string) list \<Rightarrow> 'm cursor \<Rightarrow> 'm parse_state \<Rightarrow>
   ('m opened \<times> u32 \<times> 'm cursor \<times> 'm cursor \<times> 'm parse_state) cxx" where
  "open_element env name attrs c st =
     (case split_ref (getProp attrs ''textref'' NS_epub) of (tfile, tfrag) \<Rightarrow>
      case split_ref (getProp attrs ''src'' NS_smil) of (sfile, sfrag) \<Rightarrow>
      bind_cxx (lookup_item env sfile st) (\<lambda>(sm, st).
      bind_cxx (lookup_item env tfile st) (\<lambda>(tm, st).
        let type = getProp attrs ''type'' NS_epub;
            info = \<lparr>seq_addr = ps_next st, seq_type = type, textref_file = tfile, textref_fragmentID = tfrag,
                    textrefManifestItem = tm\<rparr>
        in if name = ''body'' then open_body env info c st
           else if name = ''seq'' then open_seq env info c st
           else if name = ''par'' then open_par env tfile tm type c st
           else if name = ''audio'' then open_audio env attrs sfile sm c st
           else if name = ''text'' then open_text env sfile sfrag sm c st
           else bind_cxx (HandleError (se_handler env) (Overlay MediaOverlayUnknownSMILElement)
                  (env_href env @ ''['' @ name @ ''] => unknown SMIL element'')) (\<lambda>_.
             Inr (Opened_other, 0, c, c, st)))))"

text \<open>The checks behind the children, and the cursors the caller sees: \<open>c\<close> its own, \<open>l\<close> that of the element.\<close>

definition close_element ::
  "'m smil_env \<Rightarrow> 'm opened \<Rightarrow> 'm cursor \<Rightarrow> 'm cursor \<Rightarrow> 'm parse_state \<Rightarrow> ('m cursor \<times> 'm parse_state) cxx" where
  "close_element env op c l st = (case op of
     Opened_body info \<Rightarrow> bind_cxx (must (fst l)) (\<lambda>cs.
       bind_cxx (if cs = [] then smil_error env MediaOverlayEmptyBody
           '' => SMIL body has no sequence or parallel time container children'' else Inr ()) (\<lambda>_.
         Inr (c, case ps_root st of
            Some (Seq i cs') \<Rightarrow> if seq_addr i = seq_addr info then st\<lparr>ps_root := Some (Seq info cs)\<rparr> else st
          | _ \<Rightarrow> st)))
   | Opened_seq info \<Rightarrow> bind_cxx (must (fst l)) (\<lambda>cs.
       bind_cxx (if cs = [] then smil_error env MediaOverlayEmptySeq
           '' => SMIL sequence time container has no sequence or parallel time container children'' else Inr ()) (\<lambda>_.
         bind_cxx (must (fst c)) (\<lambda>ds. Inr ((Some (ds @ [Seq info cs]), snd c), st))))
   | Opened_par \<Rightarrow> bind_cxx (must (snd l)) (\<lambda>p.
       bind_cxx (if par_text p = None then smil_error env MediaOverlayEmptyPar
           '' => SMIL parallel time container has no text child'' else Inr ()) (\<lambda>_.
         bind_cxx (must (fst c)) (\<lambda>ds. Inr ((Some (ds @ [Par p]), snd c), st))))
   | Opened_media \<Rightarrow> Inr (c, st)
   | Opened_other \<Rightarrow> Inr (l, st))"

fun parseSMIL :: "'m smil_env \<Rightarrow> 'm cursor \<Rightarrow> xml_node \<Rightarrow> 'm parse_state \<Rightarrow> (u32 \<times> 'm cursor \<times> 'm parse_state) cxx"
  and parse_children :: "'m smil_env \<Rightarrow> string \<Rightarrow> 'm cursor \<Rightarrow> xml_node list \<Rightarrow> u32 \<Rightarrow> 'm parse_state \<Rightarrow>
    (u32 \<times> 'm cursor \<times> 'm parse_state) cxx" where
  "parseSMIL env c (Elem name attrs kids) st =
     bind_cxx (open_element env name attrs c st) (\<lambda>(op, acc, c, l, st).
     bind_cxx (parse_children env name l kids acc (if kids = [] then st else st\<lparr>ps_exclude := False\<rparr>)) (\<lambda>(acc, l, st).
     bind_cxx (close_element env op c l st) (\<lambda>(c, st). Inr (acc, c, st))))"
| "parse_children env name l [] acc st = Inr (acc, l, st)"
| "parse_children env name l (k # ks) acc st =
     bind_cxx (parseSMIL env l k st) (\<lambda>(time, l, st).
       parse_children env name l ks (if name \<noteq> ''par'' \<or> \<not> ps_exclude st then acc + time else acc) st)"

section \<open>Well-formed documents\<close>

definition refers :: "'m smil_env \<Rightarrow> string \<Rightarrow> 'm option cxx" where
  "refers env file = referenced_item (pk_AbsolutePath (se_package env)) (pk_manifest (se_package env)) file (se_item env)"

abbreviation src_of :: "((string \<times> smil_ns) \<times> string) list \<Rightarrow> string \<times> string" where
  "src_of attrs \<equiv> split_ref (getProp attrs ''src'' NS_smil)"

abbreviation textref_of :: "((string \<times> smil_ns) \<times> string) list \<Rightarrow> string \<times> string" where
  "textref_of attrs \<equiv> split_ref (getProp attrs ''textref'' NS_epub)"

definition refs_good :: "'m smil_env \<Rightarrow> ((string \<times> smil_ns) \<times> string) list \<Rightarrow> bool" where
  "refs_good env attrs \<longleftrightarrow>
     (case refers env (fst (src_of attrs)) of Inl _ \<Rightarrow> False | Inr _ \<Rightarrow> True) \<and>
     (case refers env (fst (textref_of attrs)) of Inl _ \<Rightarrow> False | Inr m \<Rightarrow> fst (textref_of attrs) = [] \<or> m \<noteq> None)"

definition src_found :: "'m smil_env \<Rightarrow> ((string \<times> smil_ns) \<times> string) list \<Rightarrow> 'm option" where
  "src_found env attrs = (case refers env (fst (src_of attrs)) of Inr m \<Rightarrow> m | Inl _ \<Rightarrow> None)"

fun text_good :: "'m smil_env \<Rightarrow> xml_node \<Rightarrow> bool" where
  "text_good env (Elem name attrs kids) \<longleftrightarrow> name = ''text'' \<and> kids = [] \<and> refs_good env attrs \<and>
     fst (src_of attrs) \<noteq> [] \<and> snd (src_of attrs) \<noteq> [] \<and> src_found env attrs \<noteq> None"

definition clip_good :: "'m smil_env \<Rightarrow> string \<Rightarrow> bool" where
  "clip_good env str \<longleftrightarrow> str = [] \<or>
     (case ToWholeMilliseconds (se_pos env) str of Inr v \<Rightarrow> unat v < 2 ^ 31 | Inl _ \<Rightarrow> False)"

fun audio_good :: "'m smil_env \<Rightarrow> xml_node \<Rightarrow> bool" where
  "audio_good env (Elem name attrs kids) \<longleftrightarrow> name = ''audio'' \<and> kids = [] \<and> refs_good env attrs \<and>
     fst (src_of attrs) \<noteq> [] \<and>
     (case src_found env attrs of None \<Rightarrow> False
      | Some m \<Rightarrow> pk_MediaType (se_package env) m \<in> {''audio/mpeg'', ''audio/mp4''}) \<and>
     clip_good env (getProp attrs ''clipBegin'' NS_smil) \<and> clip_good env (getProp attrs ''clipEnd'' NS_smil)"

text \<open>Sequences that are not empty, and parallels of a text that may be followed by an audio clip.\<close>

fun smil_good :: "'m smil_env \<Rightarrow> xml_node \<Rightarrow> bool" where
  "smil_good env (Elem name attrs kids) \<longleftrightarrow> refs_good env attrs \<and>
     (if name = ''par'' then
        (case kids of [t] \<Rightarrow> text_good env t | [t, a] \<Rightarrow> text_good env t \<and> audio_good env a | _ \<Rightarrow> False)
      else name = ''seq'' \<and> kids \<noteq> [] \<and> (\<forall>k \<in> set kids. smil_good env k))"

text \<open>The texts of the parallels, in the document and in the tree.\<close>

fun doc_texts :: "xml_node \<Rightarrow> (string \<times> string) list" where
  "doc_texts (Elem name attrs kids) =
     (if name = ''par'' then (case kids of Elem _ attrs' _ # _ \<Rightarrow> [src_of attrs'] | [] \<Rightarrow> [])
      else concat (map doc_texts kids))"

definition par_ref :: "'m Parallel \<Rightarrow> string \<times> string" where
  "par_ref p = (case par_text p of None \<Rightarrow> ([], []) | Some t \<Rightarrow> (src_file t, src_fragmentID t))"

section \<open>The caches\<close>

definition ps_ok :: "'m smil_env \<Rightarrow> 'm parse_state \<Rightarrow> bool" where
  "ps_ok env st \<longleftrightarrow> cache_ok (pk_AbsolutePath (se_package env)) (ps_paths st) \<and>
     (\<forall>file m. ps_items st file = Some m \<longrightarrow> refers env file = Inr m)"

lemma ps_ok_update [simp]:
  "ps_ok env (st\<lparr>ps_next := n\<rparr>) = ps_ok env st" "ps_ok env (st\<lparr>ps_exclude := b\<rparr>) = ps_ok env st"
  "ps_ok env (st\<lparr>ps_root := r\<rparr>) = ps_ok env st"
  by (simp_all add: ps_ok_def)

definition same_but_caches :: "'m parse_state \<Rightarrow> 'm parse_state \<Rightarrow> bool" where
  "same_but_caches st st' \<longleftrightarrow> ps_next st' = ps_next st \<and> ps_exclude st' = ps_exclude st \<and> ps_root st' = ps_root st"

lemma same_but_caches_trans: "same_but_caches a b \<Longrightarrow> same_but_caches b c \<Longrightarrow> same_but_caches a c"
  by (simp add: same_but_caches_def)

lemma lookup_item_ok:
  assumes "ps_ok env st" and "refers env file = Inr m"
  obtains st' where "lookup_item env file st = Inr (m, st')" "ps_ok env st'" "same_but_caches st st'"
proof (cases "ps_items st file")
  case None
  have c: "cache_ok (pk_AbsolutePath (se_package env)) (ps_paths st)" using assms(1) by (simp add: ps_ok_def)
  note g = getReferencedManifestItem_ok [OF c, of "pk_manifest (se_package env)" "file" "se_item env"]
  from assms(2) obtain paths where p: "getReferencedManifestItem (pk_AbsolutePath (se_package env)) (pk_manifest (se_package env))
      file (se_item env) (ps_paths st) = Inr (m, paths)" "cache_ok (pk_AbsolutePath (se_package env)) paths"
    using g by (auto simp: refers_def split: sum.splits)
  show ?thesis
    by (rule that [of "st\<lparr>ps_paths := paths, ps_items := (ps_items st)(file \<mapsto> m)\<rparr>"])
      (use assms p None in \<open>auto simp: lookup_item_def ps_ok_def same_but_caches_def\<close>)
next
  case (Some m')
  then have "m' = m" using assms by (auto simp: ps_ok_def)
  then show ?thesis using Some assms that [of st] by (simp add: lookup_item_def same_but_caches_def)
qed

text \<open>Both lookups of an element at once.\<close>

lemma refs_lookup:
  assumes "ps_ok env st" and "refs_good env attrs"
  obtains tm st1 st2 where "lookup_item env (fst (src_of attrs)) st = Inr (src_found env attrs, st1)"
    "lookup_item env (fst (textref_of attrs)) st1 = Inr (tm, st2)" "ps_ok env st2" "same_but_caches st st2"
    "check_textref env (fst (textref_of attrs)) tm = Inr ()"
proof -
  obtain sm where sm: "refers env (fst (src_of attrs)) = Inr sm" using assms(2) by (auto simp: refs_good_def split: sum.splits)
  obtain tm where tm: "refers env (fst (textref_of attrs)) = Inr tm" "fst (textref_of attrs) = [] \<or> tm \<noteq> None"
    using assms(2) by (auto simp: refs_good_def split: sum.splits)
  obtain st1 where 1: "lookup_item env (fst (src_of attrs)) st = Inr (sm, st1)" "ps_ok env st1" "same_but_caches st st1"
    using lookup_item_ok [OF assms(1) sm] .
  obtain st2 where 2: "lookup_item env (fst (textref_of attrs)) st1 = Inr (tm, st2)" "ps_ok env st2" "same_but_caches st1 st2"
    using lookup_item_ok [OF 1(2) tm(1)] .
  show ?thesis
    by (rule that [of st1 tm st2]) (use sm tm 1 2 same_but_caches_trans [OF 1(3) 2(3)] in
      \<open>auto simp: src_found_def check_textref_def\<close>)
qed

section \<open>Media and parallels\<close>

lemma text_step:
  assumes "text_good env t" and "ps_ok env st" and "se_data env = Some sd" and "sd_spineItem sd \<noteq> None"
  obtains tx st' where "parseSMIL env (cs, Some p) t st = Inr (0, (cs, Some (p\<lparr>par_text := Some tx\<rparr>)), st')"
    "ps_ok env st'" "ps_next st' = ps_next st" "ps_root st' = ps_root st"
    "ps_exclude st' \<longleftrightarrow> ps_exclude st \<or> srcManifestItem tx \<noteq> sd_spineItem sd"
    "srcManifestItem tx \<noteq> None" "[(src_file tx, src_fragmentID tx)] = doc_texts (Elem ''par'' attrs (t # ks))"
proof -
  obtain attrs' where t: "t = Elem ''text'' attrs' []" "refs_good env attrs'" "fst (src_of attrs') \<noteq> []" "snd (src_of attrs') \<noteq> []"
      "src_found env attrs' \<noteq> None"
    using assms(1) by (cases t) auto
  obtain m where m: "src_found env attrs' = Some m" using t(5) by auto
  obtain tm st1 st2 where l: "lookup_item env (fst (src_of attrs')) st = Inr (src_found env attrs', st1)"
      "lookup_item env (fst (textref_of attrs')) st1 = Inr (tm, st2)" "ps_ok env st2" "same_but_caches st st2"
    using refs_lookup [OF assms(2) t(2)] .
  obtain sp where sp: "sd_spineItem sd = Some sp" using assms(4) by auto
  let ?tx = "\<lparr>src_file = fst (src_of attrs'), src_fragmentID = snd (src_of attrs'), srcManifestItem = Some m\<rparr>"
  let ?st = "if Some m \<noteq> sd_spineItem sd then st2\<lparr>ps_exclude := True\<rparr> else st2"
  show ?thesis
  proof (rule that [of ?tx ?st])
    show "parseSMIL env (cs, Some p) t st = Inr (0, (cs, Some (p\<lparr>par_text := Some ?tx\<rparr>)), ?st)"
      using l t m sp assms(3)
      by (simp add: open_element_def split_beta Let_def open_text_def check_text_def close_element_def)
  qed (use l m sp t in \<open>auto simp: same_but_caches_def\<close>)
qed

lemma sint_of_int: "- (2 ^ 31) \<le> k \<Longrightarrow> k < 2 ^ 31 \<Longrightarrow> sint (of_int k :: u32) = k"
  by (simp add: signed_of_int signed_take_bit_int_eq_self)

lemma sint_small:
  assumes "unat (w :: u32) < 2 ^ 31"
  shows "sint w = int (unat w)" and "sint (- w) \<le> 0"
proof -
  define n where "n = unat w"
  have w: "w = of_int (int n)" "- w = of_int (- int n)" by (simp_all add: n_def)
  have n: "n < 2 ^ 31" using assms by (simp add: n_def)
  have "sint (of_int (int n) :: u32) = int n" "sint (of_int (- int n) :: u32) = - int n"
    by (rule sint_of_int; use n in simp)+
  then show "sint w = int (unat w)" "sint (- w) \<le> 0" unfolding w(2) by (simp_all only: w(1) [symmetric] n_def) simp
qed

text \<open>The duration that is accumulated for a clip is the duration of the clip in the tree.\<close>

lemma clip_duration_agrees:
  assumes "unat b < 2 ^ 31" and "unat e < 2 ^ 31"
    and "clipBeginMilliseconds a = b" and "clipEndMilliseconds a = (if x \<or> e \<le> b then 0 else e)"
  shows "(if sint ((if x \<or> e \<le> b then 0 else e) - b) \<le> 0 then 0 else (if x \<or> e \<le> b then 0 else e) - b) = ClipDurationMilliseconds a"
proof (cases "x \<or> e \<le> b")
  case True
  then show ?thesis using sint_small(2) [OF assms(1)] assms(3,4) by (simp add: ClipDurationMilliseconds_def)
next
  case False
  then have "b < e" by auto
  then have u: "unat (e - b) = unat e - unat b" "unat b < unat e" by (simp_all add: unat_sub less_imp_le flip: word_less_nat_alt)
  then have "unat (e - b) < 2 ^ 31" using assms(2) by linarith
  from sint_small(1) [OF this] u have "0 < sint (e - b)" by linarith
  then show ?thesis using False \<open>b < e\<close> assms(3,4) by (auto simp: ClipDurationMilliseconds_def word_le_nat_alt)
qed

lemma clip_value_good:
  assumes "clip_good env str"
  obtains v where "clip_value env attr str = Inr v" "unat v < 2 ^ 31"
proof (cases "str = []")
  case True then show ?thesis using that [of 0] by (simp add: clip_value_def)
next
  case False
  then obtain v where "ToWholeMilliseconds (se_pos env) str = Inr v" "unat v < 2 ^ 31"
    using assms by (auto simp: clip_good_def split: sum.splits)
  then show ?thesis using False that [of v] by (simp add: clip_value_def)
qed

lemma audio_step:
  assumes "audio_good env t" and "ps_ok env st"
  obtains a st' where "parseSMIL env (cs, Some p) t st = Inr (ClipDurationMilliseconds a, (cs, Some (p\<lparr>par_audio := Some a\<rparr>)), st')"
    "ps_ok env st'" "same_but_caches st st'"
proof -
  obtain attrs where t: "t = Elem ''audio'' attrs []" "refs_good env attrs" "fst (src_of attrs) \<noteq> []"
      "case src_found env attrs of None \<Rightarrow> False | Some m \<Rightarrow> pk_MediaType (se_package env) m \<in> {''audio/mpeg'', ''audio/mp4''}"
      "clip_good env (getProp attrs ''clipBegin'' NS_smil)" "clip_good env (getProp attrs ''clipEnd'' NS_smil)"
    using assms(1) by (cases t) auto
  obtain m where m: "src_found env attrs = Some m" "pk_MediaType (se_package env) m \<in> {''audio/mpeg'', ''audio/mp4''}"
    using t(4) by (auto split: option.splits)
  obtain tm st1 st2 where l: "lookup_item env (fst (src_of attrs)) st = Inr (src_found env attrs, st1)"
      "lookup_item env (fst (textref_of attrs)) st1 = Inr (tm, st2)" "ps_ok env st2" "same_but_caches st st2"
    using refs_lookup [OF assms(2) t(2)] .
  obtain b where b: "clip_value env ''clipBegin'' (getProp attrs ''clipBegin'' NS_smil) = Inr b" "unat b < 2 ^ 31"
    using clip_value_good [OF t(5)] .
  obtain e where e: "clip_value env ''clipEnd'' (getProp attrs ''clipEnd'' NS_smil) = Inr e" "unat e < 2 ^ 31"
    using clip_value_good [OF t(6)] .
  let ?x = "getProp attrs ''clipEnd'' NS_smil = []"
  let ?a = "\<lparr>src_file = fst (src_of attrs), src_fragmentID = [], srcManifestItem = Some m, clipBeginMilliseconds = b,
    clipEndMilliseconds = (if ?x \<or> e \<le> b then 0 else e)\<rparr>"
  have d: "(if sint ((if ?x \<or> e \<le> b then 0 else e) - b) \<le> 0 then 0 else (if ?x \<or> e \<le> b then 0 else e) - b) = ClipDurationMilliseconds ?a"
    by (rule clip_duration_agrees [OF b(2) e(2)]) simp_all
  show ?thesis
  proof (rule that [of ?a st2])
    have c: "check_audio env (fst (src_of attrs)) (Some m) = Inr ()" using m t(3) by (auto simp: check_audio_def Let_def)
    show "parseSMIL env (cs, Some p) t st = Inr (ClipDurationMilliseconds ?a, (cs, Some (p\<lparr>par_audio := Some ?a\<rparr>)), st2)"
      using l m t(1) b(1) e(1) unfolding d [symmetric]
      by (simp add: open_element_def split_beta Let_def open_audio_def c close_element_def)
  qed (use l in auto)
qed

section \<open>Containers\<close>

text \<open>The parallels of a tree carry fresh addresses from \<open>lo\<close> up to \<open>hi\<close>, all different, and belong to the data.\<close>

definition fresh_pars :: "'m SMILData \<Rightarrow> nat \<Rightarrow> nat \<Rightarrow> 'm Parallel list \<Rightarrow> bool" where
  "fresh_pars sd lo hi ps \<longleftrightarrow> distinct (map par_addr ps) \<and>
     (\<forall>p \<in> set ps. lo \<le> par_addr p \<and> par_addr p < hi \<and> par_owner p = sd_addr sd)"

lemma fresh_pars_append:
  assumes "fresh_pars sd a b ps" and "fresh_pars sd b c qs" and "a \<le> b" and "b \<le> c"
  shows "fresh_pars sd a c (ps @ qs)"
proof -
  have "par_addr p \<noteq> par_addr q" if "p \<in> set ps" "q \<in> set qs" for p q
    using assms(1,2) that by (fastforce simp: fresh_pars_def)
  then show ?thesis using assms by (fastforce simp: fresh_pars_def)
qed

lemma fresh_pars_mono: "fresh_pars sd a b ps \<Longrightarrow> a' \<le> a \<Longrightarrow> b \<le> b' \<Longrightarrow> fresh_pars sd a' b' ps"
  by (fastforce simp: fresh_pars_def)

text \<open>What parsing a list of elements gives: the trees \<open>ds\<close>, in the state \<open>st'\<close>.\<close>

definition parsed_to :: "'m smil_env \<Rightarrow> 'm SMILData \<Rightarrow> xml_node list \<Rightarrow> 'm parse_state \<Rightarrow> 'm TimeContainer list \<Rightarrow> 'm parse_state \<Rightarrow> bool" where
  "parsed_to env sd ks st ds st' \<longleftrightarrow> ps_ok env st' \<and> ps_root st' = ps_root st \<and> ps_next st \<le> ps_next st' \<and>
     fresh_pars sd (ps_next st) (ps_next st') (concat (map parallels ds)) \<and>
     map par_ref (concat (map parallels ds)) = concat (map doc_texts ks) \<and> length ds = length ks"

definition parses :: "'m smil_env \<Rightarrow> 'm SMILData \<Rightarrow> xml_node \<Rightarrow> bool" where
  "parses env sd k \<longleftrightarrow> (\<forall>cs q st. ps_ok env st \<longrightarrow>
     (\<exists>d st'. parseSMIL env (Some cs, q) k st =
         Inr (of_nat (clip_sum (clip_length sd) (parallels d)), (Some (cs @ [d]), q), st') \<and> parsed_to env sd [k] st [d] st'))"

lemma parsed_to_Cons:
  assumes "parsed_to env sd [k] st [d] st1" and "parsed_to env sd ks st1 ds st2"
  shows "parsed_to env sd (k # ks) st (d # ds) st2"
  using assms fresh_pars_append [of sd "ps_next st" "ps_next st1" "parallels d" "ps_next st2"] by (simp add: parsed_to_def)

lemma parse_children_ok:
  assumes "\<forall>k \<in> set ks. parses env sd k" and "ps_ok env st" and "name \<noteq> ''par''"
  shows "\<exists>ds st'. parse_children env name (Some cs, q) ks acc st =
      Inr (acc + of_nat (clip_sum (clip_length sd) (concat (map parallels ds))), (Some (cs @ ds), q), st') \<and>
    parsed_to env sd ks st ds st'"
  using assms
proof (induction ks arbitrary: cs acc st)
  case Nil
  then show ?case by (intro exI [of _ "[]"] exI [of _ st]) (simp add: parsed_to_def fresh_pars_def)
next
  case (Cons k ks)
  have "parses env sd k" using Cons.prems(1) by simp
  then obtain d st1 where d: "parseSMIL env (Some cs, q) k st =
      Inr (of_nat (clip_sum (clip_length sd) (parallels d)), (Some (cs @ [d]), q), st1)" "parsed_to env sd [k] st [d] st1"
    using Cons.prems(2) unfolding parses_def by blast
  have "ps_ok env st1" using d(2) by (simp add: parsed_to_def)
  then obtain ds st2 where ds: "parse_children env name (Some (cs @ [d]), q) ks (acc + of_nat (clip_sum (clip_length sd) (parallels d))) st1 =
      Inr (acc + of_nat (clip_sum (clip_length sd) (parallels d)) + of_nat (clip_sum (clip_length sd) (concat (map parallels ds))),
        (Some ((cs @ [d]) @ ds), q), st2)" "parsed_to env sd ks st1 ds st2"
    using Cons.IH [of st1 "cs @ [d]" "acc + of_nat (clip_sum (clip_length sd) (parallels d))"] Cons.prems(1,3) by auto
  show ?case
    using d(1) ds(1) parsed_to_Cons [OF d(2) ds(2)] Cons.prems(3)
    by (intro exI [of _ "d # ds"] exI [of _ st2]) (simp add: add.assoc)
qed

lemma parse_par_ok:
  assumes "smil_good env (Elem ''par'' attrs ks)" and "se_data env = Some sd" and "sd_spineItem sd \<noteq> None"
  shows "parses env sd (Elem ''par'' attrs ks)"
  unfolding parses_def
proof (intro allI impI)
  fix cs :: "'a TimeContainer list" and q :: "'a Parallel option" and st :: "'a parse_state"
  assume st: "ps_ok env st"
  have g: "refs_good env attrs" and k: "case ks of [t] \<Rightarrow> text_good env t | [t, a] \<Rightarrow> text_good env t \<and> audio_good env a | _ \<Rightarrow> False"
    using assms(1) by simp_all
  then obtain t ks' where t: "ks = t # ks'" "text_good env t" by (auto split: list.splits)
  obtain tm st1 st2 where l: "lookup_item env (fst (src_of attrs)) st = Inr (src_found env attrs, st1)"
      "lookup_item env (fst (textref_of attrs)) st1 = Inr (tm, st2)" "ps_ok env st2" "same_but_caches st st2"
      "check_textref env (fst (textref_of attrs)) tm = Inr ()"
    using refs_lookup [OF st g] .
  define p where "p = \<lparr>par_addr = ps_next st, par_owner = sd_addr sd, par_type = getProp attrs ''type'' NS_epub,
    par_audio = (None :: 'a Audio option), par_text = (None :: 'a Text option)\<rparr>"
  define st3 where "st3 = st2\<lparr>ps_next := Suc (ps_next st2), ps_exclude := False\<rparr>"
  have o: "open_element env ''par'' attrs (Some cs, q) st =
      Inr (Opened_par, 0, (Some cs, q), (None, Some p), st2\<lparr>ps_next := Suc (ps_next st2)\<rparr>)"
    using l assms(2) by (simp add: open_element_def split_beta Let_def open_par_def p_def same_but_caches_def)
  have st3: "ps_ok env st3" "\<not> ps_exclude st3" "ps_next st3 = Suc (ps_next st)" "ps_root st3 = ps_root st"
    using l by (simp_all add: st3_def same_but_caches_def)
  obtain tx st4 where x: "parseSMIL env (None, Some p) t st3 = Inr (0, (None, Some (p\<lparr>par_text := Some tx\<rparr>)), st4)"
      "ps_ok env st4" "ps_next st4 = ps_next st3" "ps_root st4 = ps_root st3"
      "ps_exclude st4 \<longleftrightarrow> ps_exclude st3 \<or> srcManifestItem tx \<noteq> sd_spineItem sd"
      "srcManifestItem tx \<noteq> None" "[(src_file tx, src_fragmentID tx)] = doc_texts (Elem ''par'' attrs (t # ks'))"
    using text_step [OF t(2) st3(1) assms(2,3), of _ p attrs ks'] .
  show "\<exists>d st'. parseSMIL env (Some cs, q) (Elem ''par'' attrs ks) st =
      Inr (of_nat (clip_sum (clip_length sd) (parallels d)), (Some (cs @ [d]), q), st') \<and> parsed_to env sd [Elem ''par'' attrs ks] st [d] st'"
  proof (cases ks')
    case Nil
    let ?d = "Par (p\<lparr>par_text := Some tx\<rparr>)"
    have "parseSMIL env (Some cs, q) (Elem ''par'' attrs ks) st = Inr (0, (Some (cs @ [?d]), q), st4)"
      using o x(1) t(1) Nil by (simp add: st3_def [symmetric] close_element_def)
    moreover have "clip_length sd (p\<lparr>par_text := Some tx\<rparr>) = 0" by (simp add: clip_length_def clip_of_def p_def)
    moreover have "parsed_to env sd [Elem ''par'' attrs ks] st [?d] st4"
      using x st3 t(1) Nil by (simp add: parsed_to_def fresh_pars_def p_def par_ref_def)
    ultimately show ?thesis by (intro exI [of _ ?d] exI [of _ st4]) simp
  next
    case (Cons a ks'')
    then have a: "ks' = [a]" "audio_good env a" using k t by (auto split: list.splits)
    obtain au st5 where y: "parseSMIL env (None, Some (p\<lparr>par_text := Some tx\<rparr>)) a st4 =
        Inr (ClipDurationMilliseconds au, (None, Some (p\<lparr>par_text := Some tx, par_audio := Some au\<rparr>)), st5)"
        "ps_ok env st5" "same_but_caches st4 st5"
      using audio_step [OF a(2) x(2), of None "p\<lparr>par_text := Some tx\<rparr>"] by auto
    let ?p = "p\<lparr>par_text := Some tx, par_audio := Some au\<rparr>"
    let ?d = "Par ?p"
    have len: "(if ps_exclude st5 then 0 else ClipDurationMilliseconds au) = of_nat (clip_length sd ?p)"
      using x(5,6) y(3) st3(2) by (auto simp: clip_length_def clip_of_def p_def same_but_caches_def)
    have "parseSMIL env (Some cs, q) (Elem ''par'' attrs ks) st =
        Inr (if ps_exclude st5 then 0 else ClipDurationMilliseconds au, (Some (cs @ [?d]), q), st5)"
      using o x(1) y(1) t(1) a(1) by (simp add: st3_def [symmetric] close_element_def)
    moreover have "parsed_to env sd [Elem ''par'' attrs ks] st [?d] st5"
      using x y st3 t(1) a(1) by (simp add: parsed_to_def fresh_pars_def p_def par_ref_def same_but_caches_def)
    ultimately show ?thesis unfolding len by (intro exI [of _ ?d] exI [of _ st5]) simp
  qed
qed

lemma parse_container_ok:
  assumes "smil_good env k" and "se_data env = Some sd" and "sd_spineItem sd \<noteq> None"
  shows "parses env sd k"
  using assms(1)
proof (induction k)
  case (Elem name attrs ks)
  show ?case
  proof (cases "name = ''par''")
    case True then show ?thesis using parse_par_ok [OF _ assms(2,3)] Elem.prems by simp
  next
    case False
    then have n: "name = ''seq''" "ks \<noteq> []" "refs_good env attrs" "\<forall>k \<in> set ks. smil_good env k" using Elem.prems by (simp_all split: if_splits)
    have ks: "\<forall>k \<in> set ks. parses env sd k" using Elem.IH n(4) by blast
    show ?thesis unfolding parses_def
    proof (intro allI impI)
      fix cs :: "'a TimeContainer list" and q :: "'a Parallel option" and st :: "'a parse_state"
      assume st: "ps_ok env st"
      obtain tm st1 st2 where l: "lookup_item env (fst (src_of attrs)) st = Inr (src_found env attrs, st1)"
          "lookup_item env (fst (textref_of attrs)) st1 = Inr (tm, st2)" "ps_ok env st2" "same_but_caches st st2"
          "check_textref env (fst (textref_of attrs)) tm = Inr ()"
        using refs_lookup [OF st n(3)] .
      let ?info = "\<lparr>seq_addr = ps_next st2, seq_type = getProp attrs ''type'' NS_epub, textref_file = fst (textref_of attrs),
        textref_fragmentID = snd (textref_of attrs), textrefManifestItem = tm\<rparr>"
      let ?st3 = "st2\<lparr>ps_next := Suc (ps_next st2), ps_exclude := False\<rparr>"
      have o: "open_element env ''seq'' attrs (Some cs, q) st =
          Inr (Opened_seq ?info, 0, (Some cs, q), (Some [], None), st2\<lparr>ps_next := Suc (ps_next st2)\<rparr>)"
        using l by (simp add: open_element_def split_beta Let_def open_seq_def)
      have "ps_ok env ?st3" using l(3) by simp
      then obtain ds st4 where ds: "parse_children env ''seq'' (Some [], None) ks 0 ?st3 =
          Inr (of_nat (clip_sum (clip_length sd) (concat (map parallels ds))), (Some ds, None), st4)" "parsed_to env sd ks ?st3 ds st4"
        using parse_children_ok [OF ks, of ?st3 "''seq''" "[]" None 0] by auto
      have "ds \<noteq> []" using ds(2) n(2) by (auto simp: parsed_to_def)
      then have "parseSMIL env (Some cs, q) (Elem name attrs ks) st =
          Inr (of_nat (clip_sum (clip_length sd) (parallels (Seq ?info ds))), (Some (cs @ [Seq ?info ds]), q), st4)"
        using o ds(1) n(1,2) by (simp add: close_element_def)
      moreover have "parsed_to env sd [Elem name attrs ks] st [Seq ?info ds] st4"
        using ds(2) l(4) n(1) fresh_pars_mono [of sd "ps_next ?st3" "ps_next st4" _ "ps_next st" "ps_next st4"]
        by (simp add: parsed_to_def same_but_caches_def)
      ultimately show "\<exists>d st'. parseSMIL env (Some cs, q) (Elem name attrs ks) st =
          Inr (of_nat (clip_sum (clip_length sd) (parallels d)), (Some (cs @ [d]), q), st') \<and> parsed_to env sd [Elem name attrs ks] st [d] st'"
        by blast
    qed
  qed
qed

lemma clip_length_root [simp]: "clip_length (sd\<lparr>sd_root := r\<rparr>) = clip_length sd"
  by (rule ext) (simp add: clip_length_def clip_of_def split: option.splits)

fun body_good :: "'m smil_env \<Rightarrow> xml_node \<Rightarrow> bool" where
  "body_good env (Elem name attrs kids) \<longleftrightarrow>
     name = ''body'' \<and> refs_good env attrs \<and> kids \<noteq> [] \<and> (\<forall>k \<in> set kids. smil_good env k)"

lemma good_cong:
  assumes "se_package env' = se_package env" and "se_item env' = se_item env" and "se_pos env' = se_pos env"
  shows "refs_good env' attrs = refs_good env attrs" and "text_good env' k = text_good env k" and "audio_good env' k = audio_good env k"
    and "smil_good env' k = smil_good env k" and "body_good env' k = body_good env k"
proof -
  have r: "refers env' = refers env" by (rule ext) (simp add: refers_def assms)
  have c: "clip_good env' = clip_good env" by (rule ext) (simp add: clip_good_def assms)
  have f: "src_found env' = src_found env" by (rule ext) (simp add: src_found_def r)
  show g: "refs_good env' attrs = refs_good env attrs" for attrs by (simp add: refs_good_def r)
  show t: "text_good env' k = text_good env k" for k by (cases k) (simp add: g f)
  show a: "audio_good env' k = audio_good env k" for k by (cases k) (simp add: g f c assms(1) split: option.splits)
  show s: "smil_good env' k = smil_good env k" for k
    by (induction k) (auto simp: g t a split: list.splits)
  show "body_good env' k = body_good env k" by (cases k) (simp add: g s)
qed

lemma parse_body_ok:
  assumes "body_good env body" and "se_data env = Some sd" and "sd_spineItem sd \<noteq> None" and "ps_ok env st"
  shows "\<exists>dur root st'. parseSMIL env (None, None) body st = Inr (dur, (None, None), st') \<and> ps_root st' = Some root \<and>
    (let sd' = sd\<lparr>sd_root := Some root\<rparr> in
      dur = SD_DurationMilliseconds_Calculated sd' \<and> map par_ref (SD_parallels sd') = doc_texts body \<and>
      fresh_pars sd (ps_next st) (ps_next st') (SD_parallels sd')) \<and>
    IsSequence root \<and> ps_ok env st'"
proof -
  obtain attrs ks where b: "body = Elem ''body'' attrs ks" "refs_good env attrs" "ks \<noteq> []" "\<forall>k \<in> set ks. smil_good env k"
    using assms(1) by (cases body) auto
  have ks: "\<forall>k \<in> set ks. parses env sd k" using parse_container_ok [OF _ assms(2,3)] b(4) by blast
  obtain tm st1 st2 where l: "lookup_item env (fst (src_of attrs)) st = Inr (src_found env attrs, st1)"
      "lookup_item env (fst (textref_of attrs)) st1 = Inr (tm, st2)" "ps_ok env st2" "same_but_caches st st2"
      "check_textref env (fst (textref_of attrs)) tm = Inr ()"
    using refs_lookup [OF assms(4) b(2)] .
  let ?info = "\<lparr>seq_addr = ps_next st2, seq_type = getProp attrs ''type'' NS_epub, textref_file = fst (textref_of attrs),
    textref_fragmentID = snd (textref_of attrs), textrefManifestItem = tm\<rparr>"
  let ?st = "st2\<lparr>ps_next := Suc (ps_next st2), ps_root := Some (Seq ?info [])\<rparr>"
  let ?st3 = "?st\<lparr>ps_exclude := False\<rparr>"
  have o: "open_element env ''body'' attrs (None, None) st = Inr (Opened_body ?info, 0, (None, None), (Some [], None), ?st)"
    using l assms(2) by (simp add: open_element_def split_beta Let_def open_body_def)
  have "ps_ok env ?st3" using l(3) by simp
  then obtain ds st4 where ds: "parse_children env ''body'' (Some [], None) ks 0 ?st3 =
      Inr (of_nat (clip_sum (clip_length sd) (concat (map parallels ds))), (Some ds, None), st4)" "parsed_to env sd ks ?st3 ds st4"
    using parse_children_ok [OF ks, of ?st3 "''body''" "[]" None 0] by auto
  have r: "ps_root st4 = Some (Seq ?info [])" "ds \<noteq> []" using ds(2) b(3) by (auto simp: parsed_to_def)
  let ?root = "Seq ?info ds" and ?st' = "st4\<lparr>ps_root := Some (Seq ?info ds)\<rparr>"
  let ?sd = "sd\<lparr>sd_root := Some ?root\<rparr>"
  have p: "parseSMIL env (None, None) body st =
      Inr (of_nat (clip_sum (clip_length sd) (concat (map parallels ds))), (None, None), ?st')"
    using o ds(1) b(1,3) r by (simp add: close_element_def)
  have f: "fresh_pars sd (ps_next st) (ps_next ?st') (concat (map parallels ds))"
    using ds(2) l(4) fresh_pars_mono [of sd "ps_next ?st3" "ps_next st4" _ "ps_next st" "ps_next st4"]
    by (simp add: parsed_to_def same_but_caches_def)
  show ?thesis
    by (rule exI, rule exI [of _ ?root], rule exI [of _ ?st'], intro conjI, rule p)
      (use ds(2) b(1) f in \<open>auto simp: SD_DurationMilliseconds_sum SD_parallels_def parsed_to_def Let_def\<close>)
qed

text \<open>C21: Parsing the body of a well-formed SMIL document succeeds without reporting an error.  The tree it stores has one
  parallel for each \<open>par\<close> element, in document order and with the text the element refers to, at fresh and distinct
  addresses; and the duration that the parser accumulates on the way is the duration that the tree calculates
  later, clips excluded because their text lies in another document included.\<close>

theorem parse_smil_body:
  assumes "body_good env body" and "se_data env = Some sd" and "sd_spineItem sd \<noteq> None" and "ps_ok env st"
  shows "\<exists>dur root st'. parseSMIL env (None, None) body st = Inr (dur, (None, None), st') \<and> ps_root st' = Some root \<and>
    (let sd' = sd\<lparr>sd_root := Some root\<rparr> in
      dur = SD_DurationMilliseconds_Calculated sd' \<and> map par_ref (SD_parallels sd') = doc_texts body \<and>
      fresh_pars sd (ps_next st) (ps_next st') (SD_parallels sd')) \<and>
    IsSequence root \<and> ps_ok env st'"
  using parse_body_ok [OF assms] .

definition smil_sample_env :: "string smil_env" where
  "smil_sample_env = \<lparr>se_handler = DefaultErrorHandler, se_pos = [],
     se_package = \<lparr>pk_manifest = [''E/a.smil'', ''E/a.xhtml'', ''E/a.mp3''], pk_AbsolutePath = id, pk_Href = id,
       pk_MediaType = (\<lambda>m. if m = ''E/a.mp3'' then ''audio/mpeg'' else [])\<rparr>,
     se_item = ''E/a.smil'', se_data = Some (new_SMILData 1 (Some ''E/a.smil'') (Some ''E/a.xhtml'') 2000)\<rparr>"

definition sample_body :: xml_node where
  "sample_body = Elem ''body'' [] [Elem ''par'' []
     [Elem ''text'' [((''src'', NS_smil), ''a.xhtml#p'')] [],
      Elem ''audio'' [((''src'', NS_smil), ''a.mp3''), ((''clipEnd'', NS_smil), ''2s'')] []]]"

definition empty_state :: "'m parse_state" where
  "empty_state = \<lparr>ps_next = 2, ps_exclude = False, ps_paths = Map.empty, ps_items = Map.empty, ps_root = None\<rparr>"

lemma empty_state_ok [simp]: "ps_ok env empty_state"
  by (simp add: ps_ok_def empty_state_def)

lemma sample_body_good: "body_good smil_sample_env sample_body"
proof -
  have c: "ToWholeMilliseconds [] ''2s'' = Inr 2000"
    by code_simp
  have r: "refers smil_sample_env [] = Inr None" "refers smil_sample_env ''a.xhtml'' = Inr (Some ''E/a.xhtml'')"
      "refers smil_sample_env ''a.mp3'' = Inr (Some ''E/a.mp3'')"
    by code_simp+
  have s: "split_ref ''a.xhtml#p'' = (''a.xhtml'', ''p'')" "split_ref ''a.mp3'' = (''a.mp3'', [])" "split_ref [] = ([], [])"
    by code_simp+
  show ?thesis
    by (simp add: sample_body_def refs_good_def getProp_def s r src_found_def clip_good_def)
      (simp add: smil_sample_env_def c)
qed

theorem parse_smil_body_witness:
  "\<exists>dur root st'. parseSMIL smil_sample_env (None, None) sample_body empty_state = Inr (dur, (None, None), st') \<and> ps_root st' = Some root \<and>
    map par_ref (parallels root) = [(''a.xhtml'', ''p'')]"
proof -
  have d: "doc_texts sample_body = [(''a.xhtml'', ''p'')]" by code_simp
  from parse_smil_body [OF sample_body_good, of "new_SMILData 1 (Some ''E/a.smil'') (Some ''E/a.xhtml'') 2000" empty_state]
  show ?thesis unfolding d by (force simp: smil_sample_env_def new_SMILData_def Let_def SD_parallels_def)
qed

end
