(* ===== verification/Smil_Model.thy ===== *)
theory Smil_Model
  imports Smil_Parse
begin

text \<open>
  The queries of \<^verbatim>\<open>class MediaOverlaysSmilModel\<close> (\<^verbatim>\<open>ePub/media-overlays_smil_model.{h,cpp}\<close>) over the data of all spine items:
  the total duration, the parallel at a time, and the translation between a percentage and a position.
\<close>

section \<open>The model\<close>

record 'm SmilModel =
  mo_totalDuration :: u32
  mo_smilDatas :: "'m SMILData list"

definition GetSmilCount :: "'m SmilModel \<Rightarrow> nat" where
  "GetSmilCount m = length (mo_smilDatas m)"

definition GetSmil :: "'m SmilModel \<Rightarrow> nat \<Rightarrow> 'm SMILData option" where
  "GetSmil m i = (if i \<ge> length (mo_smilDatas m) then None else Some (mo_smilDatas m ! i))"

definition Model_DurationMilliseconds_Calculated :: "'m SmilModel \<Rightarrow> u32" where
  "Model_DurationMilliseconds_Calculated m =
     foldl (\<lambda>tot data. tot + SD_DurationMilliseconds_Calculated data) 0 (mo_smilDatas m)"

fun parallel_at_loop :: "'m SMILData list \<Rightarrow> u32 \<Rightarrow> u32 \<Rightarrow> 'm Parallel option" where
  "parallel_at_loop [] timeMilliseconds offset = None"
| "parallel_at_loop (data # ds) timeMilliseconds offset =
     (case SD_ParallelAt data (timeMilliseconds - offset) of
        Some para \<Rightarrow> Some para
      | None \<Rightarrow> parallel_at_loop ds timeMilliseconds (offset + SD_DurationMilliseconds_Calculated data))"

definition Model_ParallelAt :: "'m SmilModel \<Rightarrow> u32 \<Rightarrow> 'm Parallel option" where
  "Model_ParallelAt m timeMilliseconds = parallel_at_loop (mo_smilDatas m) timeMilliseconds 0"

text \<open>The variables of the caller that \<^verbatim>\<open>PercentToPosition\<close> receives by reference.\<close>

record 'm position =
  po_smilData :: "'m SMILData option"
  po_smilIndex :: u32
  po_par :: "'m Parallel option"
  po_parIndex :: u32
  po_milliseconds :: u32

text \<open>The loop that looks for the data a parallel belongs to; the variable is left at the last data when there is none.\<close>

fun data_loop :: "'m SMILData list \<Rightarrow> nat \<Rightarrow> 'm SMILData option \<Rightarrow> u32 \<Rightarrow> 'm SMILData option \<times> u32" where
  "data_loop [] owner smilData offset = (smilData, offset)"
| "data_loop (d # ds) owner smilData offset =
     (if sd_addr d = owner then (Some d, offset)
      else data_loop ds owner (Some d) (offset + SD_DurationMilliseconds_Calculated d))"

definition position_at :: "'m SmilModel \<Rightarrow> u32 \<Rightarrow> 'm position \<Rightarrow> 'm position cxx" where
  "position_at m timeMs pos = (case Model_ParallelAt m timeMs of
     None \<Rightarrow> Inr (pos\<lparr>po_par := None\<rparr>)
   | Some p \<Rightarrow>
      (if \<forall>d \<in> set (mo_smilDatas m). sd_addr d \<noteq> par_owner p then Inr (pos\<lparr>po_par := Some p\<rparr>)
       else case data_loop (mo_smilDatas m) (par_owner p) (po_smilData pos) 0 of (smilData, offset) \<Rightarrow>
         bind_cxx (must smilData) (\<lambda>sd.
           Inr (pos\<lparr>po_par := Some p, po_smilData := Some sd,
                  po_milliseconds := timeMs - (offset + SD_ClipOffset sd (Some (par_addr p)))\<rparr>))))"

definition PercentToPosition :: "'m SmilModel \<Rightarrow> rat \<Rightarrow> 'm position \<Rightarrow> 'm position cxx" where
  "PercentToPosition m percent pos =
     (let percent = (if percent < 0 \<or> percent > 100 then 0 else percent);
          tot = Model_DurationMilliseconds_Calculated m
      in bind_cxx (cast_u32 (dmul (u32_double tot) (ddiv percent 100))) (\<lambda>timeMs. position_at m timeMs pos))"

text \<open>The result is \<open>None\<close> when the division by a duration of zero gives no number.\<close>

definition PositionToPercent :: "'m SmilModel \<Rightarrow> nat \<Rightarrow> u32 \<Rightarrow> u32 \<Rightarrow> rat option" where
  "PositionToPercent m smilIndex parIndex milliseconds =
     (if smilIndex \<ge> GetSmilCount m then Some (- 1)
      else let smilDataOffset = foldl (\<lambda>tot data. tot + SD_DurationMilliseconds_Calculated data) 0 (take smilIndex (mo_smilDatas m));
               smilData = mo_smilDatas m ! smilIndex
           in case SD_NthParallel smilData parIndex of
                None \<Rightarrow> Some (- 1)
              | Some par \<Rightarrow>
                 let offset = smilDataOffset + SD_ClipOffset smilData (Some (par_addr par)) + milliseconds;
                     tot = Model_DurationMilliseconds_Calculated m
                 in if tot = 0 then None else Some (dmul (ddiv (u32_double offset) (u32_double tot)) 100))"

definition Skippables :: "string list" where
  "Skippables = [''sidebar'', ''practice'', ''marginalia'', ''annotation'', ''help'', ''note'', ''footnote'', ''rearnote'',
     ''table'', ''table-row'', ''table-cell'', ''list'', ''list-item'', ''pagebreak'']"

definition Escapables :: "string list" where
  "Escapables = [''sidebar'', ''bibliography'', ''toc'', ''loi'', ''appendix'', ''landmarks'', ''lot'', ''index'', ''colophon'',
     ''epigraph'', ''conclusion'', ''afterword'', ''warning'', ''epilogue'', ''foreword'', ''introduction'', ''prologue'',
     ''preface'', ''preamble'', ''notice'', ''errata'', ''copyright-page'', ''acknowledgments'', ''other-credits'',
     ''titlepage'', ''imprimatur'', ''contributors'', ''halftitlepage'', ''dedication'', ''help'', ''annotation'',
     ''marginalia'', ''practice'', ''note'', ''footnote'', ''rearnote'', ''footnotes'', ''rearnotes'', ''bridgehead'',
     ''page-list'', ''table'', ''table-row'', ''table-cell'', ''list'', ''list-item'', ''glossary'']"

definition GetSkippable :: "nat \<Rightarrow> string" where
  "GetSkippable i = (if i \<ge> length Skippables then [] else Skippables ! i)"

definition GetEscapable :: "nat \<Rightarrow> string" where
  "GetEscapable i = (if i \<ge> length Escapables then [] else Escapables ! i)"

section \<open>The time line\<close>

definition time_line :: "'m SMILData list \<Rightarrow> ('m SMILData \<times> 'm Parallel) list" where
  "time_line ds = concat (map (\<lambda>d. map (Pair d) (SD_parallels d)) ds)"

definition entry_length :: "'m SMILData \<times> 'm Parallel \<Rightarrow> nat" where
  "entry_length e = clip_length (fst e) (snd e)"

lemma time_line_simps [simp]:
  "time_line [] = []" "time_line (d # ds) = map (Pair d) (SD_parallels d) @ time_line ds"
  "time_line (ds @ es) = time_line ds @ time_line es"
  by (simp_all add: time_line_def)

lemma clip_sum_entries [simp]: "clip_sum entry_length (map (Pair d) ps) = clip_sum (clip_length d) ps"
  by (induction ps) (simp_all add: entry_length_def)

lemma clip_at_entries: "clip_at entry_length (map (Pair d) ps) t = map_option (Pair d) (clip_at (clip_length d) ps t)"
  by (induction ps arbitrary: t) (simp_all add: entry_length_def)

lemma duration_foldl:
  "foldl (\<lambda>tot data. tot + SD_DurationMilliseconds_Calculated data) t ds = t + of_nat (clip_sum entry_length (time_line ds))"
  by (induction ds arbitrary: t) (simp_all add: SD_DurationMilliseconds_sum add.assoc)

lemma parallel_at_loop_clip_at:
  "offset \<le> t \<Longrightarrow> parallel_at_loop ds t offset = map_option snd (clip_at entry_length (time_line ds) (unat t - unat offset))"
proof (induction ds arbitrary: offset)
  case (Cons d ds)
  let ?n = "clip_sum (clip_length d) (SD_parallels d)"
  have u: "unat (t - offset) = unat t - unat offset" using Cons.prems by (simp add: unat_sub)
  show ?case
  proof (cases "clip_at (clip_length d) (SD_parallels d) (unat t - unat offset)")
    case None
    have le: "?n \<le> unat t - unat offset" using clip_at_None_le [OF None] .
    have le': "unat offset \<le> unat t" using Cons.prems by (simp add: word_le_nat_alt)
    have "unat offset + ?n \<le> unat t" using le le' by linarith
    also have "\<dots> < 2 ^ LENGTH(32)" by (rule unsigned_less)
    finally have v: "unat (offset + of_nat ?n) = unat offset + ?n" by (rule unat_plus_of_nat)
    with le le' have "offset + of_nat ?n \<le> t" by (simp add: word_le_nat_alt)
    from Cons.IH [OF this] None show ?thesis
      by (simp add: SD_ParallelAt_clip_at SD_DurationMilliseconds_sum u v clip_at_append clip_at_entries)
  next
    case (Some p)
    then show ?thesis by (simp add: SD_ParallelAt_clip_at u clip_at_append clip_at_entries)
  qed
qed simp

lemma Model_ParallelAt_clip_at:
  "Model_ParallelAt m t = map_option snd (clip_at entry_length (time_line (mo_smilDatas m)) (unat t))"
  by (simp add: Model_ParallelAt_def parallel_at_loop_clip_at)

section \<open>From a time to a position\<close>

definition model_wf :: "'m SMILData list \<Rightarrow> bool" where
  "model_wf ds \<longleftrightarrow> distinct (map sd_addr ds) \<and>
     (\<forall>d \<in> set ds. distinct (map par_addr (SD_parallels d)) \<and> (\<forall>p \<in> set (SD_parallels d). par_owner p = sd_addr d))"

lemma data_loop_found:
  "sd_addr d \<notin> sd_addr ` set ds1 \<Longrightarrow>
   data_loop (ds1 @ d # ds2) (sd_addr d) x offset = (Some d, offset + of_nat (clip_sum entry_length (time_line ds1)))"
  by (induction ds1 arbitrary: x offset) (auto simp: SD_DurationMilliseconds_sum)

lemma position_in_clip:
  assumes "model_wf (mo_smilDatas m)" and "mo_smilDatas m = ds1 @ d # ds2" and "SD_parallels d = ps1 @ p # ps2"
    and "start = clip_sum entry_length (time_line ds1) + clip_sum (clip_length d) ps1"
    and "0 < clip_length d p" and "ms \<le> clip_length d p" and "0 < ms \<or> start = 0" and "start + ms < 2 ^ 32"
  shows "position_at m (of_nat (start + ms)) pos =
    Inr (pos\<lparr>po_par := Some p, po_smilData := Some d, po_milliseconds := of_nat ms\<rparr>)"
proof -
  let ?t = "of_nat (start + ms) :: u32" and ?xs = "time_line ds1 @ map (Pair d) ps1"
  have t: "unat ?t = start + ms" using assms(8) by (simp only: unsigned_of_nat) (simp add: take_bit_nat_eq_self)
  have "time_line (mo_smilDatas m) = ?xs @ (d, p) # map (Pair d) ps2 @ time_line ds2" using assms(2,3) by simp
  moreover have "clip_sum entry_length ?xs = start" using assms(4) by simp
  ultimately have "clip_at entry_length (time_line (mo_smilDatas m)) (start + ms) = Some (d, p)"
    using assms(5-7) by (simp only: clip_at_Some_iff)
      (intro exI [of _ ?xs] exI [of _ "map (Pair d) ps2 @ time_line ds2"], auto simp: entry_length_def)
  then have at: "Model_ParallelAt m ?t = Some p" by (simp only: Model_ParallelAt_clip_at t option.map snd_conv)
  have o: "par_owner p = sd_addr d" "sd_addr d \<notin> sd_addr ` set ds1" using assms(1-3) by (auto simp: model_wf_def)
  have "par_addr p \<notin> par_addr ` set ps1" using assms(1-3) by (auto simp: model_wf_def)
  then have "\<forall>q \<in> set ps1. par_addr q \<noteq> par_addr p" by (metis imageI)
  from SD_ClipOffset_sum [OF assms(3) this] have c: "SD_ClipOffset d (Some (par_addr p)) = of_nat (clip_sum (clip_length d) ps1)" .
  have "\<not> (\<forall>d \<in> set (mo_smilDatas m). sd_addr d \<noteq> par_owner p)" using o(1) assms(2) by auto
  then show ?thesis
    using at data_loop_found [OF o(2), of ds2 "po_smilData pos" 0] assms(2)
    by (simp add: position_at_def o(1) c assms(4))
qed

text \<open>C20: Jumping to a time finds the clip that is played then and the time within the clip: for every clip of positive
  length, at whatever depth in whichever document, and every moment within it, the position for the
  absolute time of that moment is exactly that document, that parallel and that offset; times behind the end, and
  overlays without audio, have no position.\<close>

theorem smil_position_of_time:
  assumes "model_wf (mo_smilDatas m)" and "mo_smilDatas m = ds1 @ d # ds2" and "SD_parallels d = ps1 @ p # ps2"
    and "start = clip_sum entry_length (time_line ds1) + clip_sum (clip_length d) ps1"
    and "0 < clip_length d p" and "ms \<le> clip_length d p" and "0 < ms \<or> start = 0" and "start + ms < 2 ^ 32"
  shows "position_at m (of_nat (start + ms)) pos =
      Inr (pos\<lparr>po_par := Some p, po_smilData := Some d, po_milliseconds := of_nat ms\<rparr>) \<and>
    (clip_sum entry_length (time_line (mo_smilDatas m)) < unat t \<longrightarrow> position_at m t pos = Inr (pos\<lparr>po_par := None\<rparr>))"
proof (intro conjI impI)
  show "position_at m (of_nat (start + ms)) pos = Inr (pos\<lparr>po_par := Some p, po_smilData := Some d, po_milliseconds := of_nat ms\<rparr>)"
    using assms by (rule position_in_clip)
  assume "clip_sum entry_length (time_line (mo_smilDatas m)) < unat t"
  then show "position_at m t pos = Inr (pos\<lparr>po_par := None\<rparr>)"
    by (simp add: position_at_def Model_ParallelAt_clip_at clip_at_late)
qed

lemma time_line_split:
  assumes "time_line ds = xs @ (d, p) # ys"
  obtains ds1 ds2 ps1 ps2 where "ds = ds1 @ d # ds2" "SD_parallels d = ps1 @ p # ps2" "xs = time_line ds1 @ map (Pair d) ps1"
  using assms
proof (induction ds arbitrary: xs thesis)
  case (Cons e ds)
  from Cons.prems(2) have "map (Pair e) (SD_parallels e) @ time_line ds = xs @ (d, p) # ys" by simp
  then consider (here) zs where "map (Pair e) (SD_parallels e) = xs @ (d, p) # zs"
    | (later) zs where "xs = map (Pair e) (SD_parallels e) @ zs" "time_line ds = zs @ (d, p) # ys"
    by (auto simp: append_eq_append_conv2 append_eq_Cons_conv Cons_eq_append_conv)
  then show ?case
  proof cases
    case here
    then obtain as b cs where "SD_parallels e = as @ b # cs" "xs = map (Pair e) as" "(d, p) = (e, b)"
      by (auto simp: map_eq_append_conv map_eq_Cons_conv)
    then show ?thesis using Cons.prems(1) [of "[]" ds as cs] by simp
  next
    case later
    show ?thesis
    proof (rule Cons.IH [OF _ later(2)])
      fix ds1 ds2 ps1 ps2
      assume "ds = ds1 @ d # ds2" "SD_parallels d = ps1 @ p # ps2" "zs = time_line ds1 @ map (Pair d) ps1"
      then show ?thesis using Cons.prems(1) [of "e # ds1" ds2 ps1 ps2] later(1) by simp
    qed
  qed
qed simp

lemma percent_time:
  assumes "0 \<le> percent" and "percent \<le> 100"
  obtains t where "cast_u32 (dmul (u32_double tot) (ddiv percent 100)) = Inr t" "t \<le> tot"
proof -
  let ?q = "ddiv percent 100"
  have q: "0 \<le> ?q" "?q \<le> 1" using rnd_nonneg [of "percent / 100"] rnd_le_nat [of "percent / 100" 1] assms
    by (simp_all add: ddiv_def)
  have n: "unat tot < 2 ^ 53" using unat32_bound [of tot] by simp
  have u: "0 \<le> u32_double tot" unfolding u32_double_def by (rule of_nat_0_le_iff)
  have x: "0 \<le> u32_double tot * ?q" "u32_double tot * ?q \<le> of_nat (unat tot)"
    using mult_nonneg_nonneg [OF u q(1)] mult_left_mono [OF q(2) u] by (simp_all only: u32_double_def mult_1_right)
  let ?m = "dmul (u32_double tot) ?q"
  have m: "0 \<le> ?m" "?m \<le> of_nat (unat tot)" using rnd_nonneg [OF x(1)] rnd_le_nat [OF x n] by (simp_all add: dmul_def)
  define k where "k = \<lfloor>?m\<rfloor>"
  have "of_int k \<le> (of_int (int (unat tot)) :: rat)" using m(2) unfolding k_def by (simp add: floor_le_iff) linarith
  then have k: "0 \<le> k" "k \<le> int (unat tot)" using m(1) by (simp_all only: of_int_le_iff) (simp add: k_def)
  moreover have "int (unat tot) < 2 ^ 32" using of_nat_less_iff [of "unat tot" 4294967296, where ?'a = int] unat32_bound [of tot] by simp
  ultimately have "k < 2 ^ 32" by linarith
  then have c: "cast_u32 ?m = Inr (of_int k)" "unat (of_int k :: u32) = nat k"
    using k(1) by (simp_all add: cast_u32_def k_def [symmetric] unsigned_of_int take_bit_int_eq_self)
  show thesis by (rule that [OF c(1)]) (use c(2) k in \<open>simp only: word_le_nat_alt nat_le_iff\<close>)
qed

text \<open>C22: Moving a slider to a percentage always ends in a clip.  For every percentage, values outside of 0 to 100
  included, the conversion to a time is defined and stays within the total duration, and the position that is
  reported is a parallel of a document of the model with a time inside its clip; together they add up to the time.\<close>

theorem smil_percent_lands:
  assumes "model_wf (mo_smilDatas m)" and "0 < clip_sum entry_length (time_line (mo_smilDatas m))"
    and "clip_sum entry_length (time_line (mo_smilDatas m)) < 2 ^ 32"
  shows "\<exists>ds1 d ds2 ps1 p ps2 ms. mo_smilDatas m = ds1 @ d # ds2 \<and> SD_parallels d = ps1 @ p # ps2 \<and> ms \<le> clip_length d p \<and>
    clip_sum entry_length (time_line ds1) + clip_sum (clip_length d) ps1 + ms \<le> clip_sum entry_length (time_line (mo_smilDatas m)) \<and>
    PercentToPosition m percent pos = Inr (pos\<lparr>po_par := Some p, po_smilData := Some d, po_milliseconds := of_nat ms\<rparr>)"
proof -
  let ?tot = "Model_DurationMilliseconds_Calculated m" and ?T = "clip_sum entry_length (time_line (mo_smilDatas m))"
  let ?pc = "if percent < 0 \<or> percent > 100 then 0 else percent"
  have T: "unat ?tot = ?T" using assms(3) by (simp add: Model_DurationMilliseconds_Calculated_def duration_foldl unsigned_of_nat take_bit_nat_eq_self)
  have "0 \<le> ?pc" "?pc \<le> 100" by auto
  then obtain t where t: "cast_u32 (dmul (u32_double ?tot) (ddiv ?pc 100)) = Inr t" "t \<le> ?tot" by (rule percent_time)
  have le: "unat t \<le> ?T" using t(2) T by (simp add: word_le_nat_alt)
  then obtain d p where c: "clip_at entry_length (time_line (mo_smilDatas m)) (unat t) = Some (d, p)"
    using assms(2) clip_at_None_iff [of entry_length "time_line (mo_smilDatas m)" "unat t"] by fastforce
  then obtain xs ys where x: "time_line (mo_smilDatas m) = xs @ (d, p) # ys" "0 < clip_length d p"
      "clip_sum entry_length xs < unat t \<or> clip_sum entry_length xs = 0" "unat t \<le> clip_sum entry_length xs + clip_length d p"
    unfolding clip_at_Some_iff by (auto simp: entry_length_def)
  from x(1) obtain ds1 ds2 ps1 ps2 where s: "mo_smilDatas m = ds1 @ d # ds2" "SD_parallels d = ps1 @ p # ps2"
      "xs = time_line ds1 @ map (Pair d) ps1"
    by (rule time_line_split)
  define start where "start = clip_sum entry_length (time_line ds1) + clip_sum (clip_length d) ps1"
  have start: "clip_sum entry_length xs = start" by (simp add: s(3) start_def)
  define ms where "ms = unat t - start"
  have sm: "start + ms = unat t" "ms \<le> clip_length d p" "0 < ms \<or> start = 0" using x(3,4) start by (auto simp: ms_def)
  have "start + ms < 2 ^ 32" using sm(1) unat32_bound [of t] by simp
  from position_in_clip [OF assms(1) s(1,2) start_def x(2) sm(2,3) this, of pos]
  have "PercentToPosition m percent pos = Inr (pos\<lparr>po_par := Some p, po_smilData := Some d, po_milliseconds := of_nat ms\<rparr>)"
    using t(1) by (simp add: PercentToPosition_def Let_def sm(1))
  moreover have "clip_sum entry_length (time_line ds1) + clip_sum (clip_length d) ps1 + ms \<le> ?T"
    using sm(1) le unfolding start_def by simp
  ultimately show ?thesis using s(1,2) sm(2) by blast
qed

text \<open>A model of two documents: one clip of two seconds, and two of one second each, the first of them in a nested sequence.\<close>

definition sample_par :: "nat \<Rightarrow> nat \<Rightarrow> u32 \<Rightarrow> u32 \<Rightarrow> nat Parallel" where
  "sample_par addr owner b e = \<lparr>par_addr = addr, par_owner = owner, par_type = [],
     par_audio = Some \<lparr>src_file = ''a.mp3'', src_fragmentID = [], srcManifestItem = None,
       clipBeginMilliseconds = b, clipEndMilliseconds = e\<rparr>, par_text = None\<rparr>"

definition sample_seq :: "nat SequenceInfo" where
  "sample_seq = \<lparr>seq_addr = 0, seq_type = [], textref_file = [], textref_fragmentID = [], textrefManifestItem = None\<rparr>"

definition sample_data1 :: "nat SMILData" where
  "sample_data1 = (new_SMILData 1 None None 0)\<lparr>sd_root := Some (Seq sample_seq [Par (sample_par 10 1 0 2000)])\<rparr>"

definition sample_data2 :: "nat SMILData" where
  "sample_data2 = (new_SMILData 2 None None 0)\<lparr>sd_root := Some (Seq sample_seq
     [Seq sample_seq [Par (sample_par 20 2 500 1500)], Par (sample_par 21 2 0 1000)])\<rparr>"

definition sample_model :: "nat SmilModel" where
  "sample_model = \<lparr>mo_totalDuration = 4000, mo_smilDatas = [sample_data1, sample_data2]\<rparr>"

definition sample_position :: "nat position" where
  "sample_position = \<lparr>po_smilData = None, po_smilIndex = 0, po_par = None, po_parIndex = 0, po_milliseconds = 0\<rparr>"

lemma sample_model_facts:
  "model_wf (mo_smilDatas sample_model)" "clip_sum entry_length (time_line (mo_smilDatas sample_model)) = 4000"
  by code_simp+

theorem smil_position_of_time_witness:
  "position_at sample_model 3300 sample_position =
     Inr (sample_position\<lparr>po_par := Some (sample_par 21 2 0 1000), po_smilData := Some sample_data2, po_milliseconds := 300\<rparr>)"
proof -
  have "mo_smilDatas sample_model = [sample_data1] @ sample_data2 # []"
      "SD_parallels sample_data2 = [sample_par 20 2 500 1500] @ sample_par 21 2 0 1000 # []"
    by (simp_all add: sample_model_def sample_data2_def SD_parallels_def)
  moreover have "(3000 :: nat) = clip_sum entry_length (time_line [sample_data1]) + clip_sum (clip_length sample_data2) [sample_par 20 2 500 1500]"
      "clip_length sample_data2 (sample_par 21 2 0 1000) = 1000"
    by code_simp+
  ultimately show ?thesis
    using smil_position_of_time [OF sample_model_facts(1), of "[sample_data1]" sample_data2 "[]" "[sample_par 20 2 500 1500]"
        "sample_par 21 2 0 1000" "[]" 3000 300 sample_position 0] by simp
qed

theorem smil_percent_lands_witness:
  "\<exists>d p ms. PercentToPosition sample_model 50 \<lparr>po_smilData = None, po_smilIndex = 0, po_par = None, po_parIndex = 0, po_milliseconds = 0\<rparr> =
     Inr \<lparr>po_smilData = Some d, po_smilIndex = 0, po_par = Some p, po_parIndex = 0, po_milliseconds = ms\<rparr> \<and> p \<in> set (SD_parallels d)"
  using smil_percent_lands [of sample_model 50 "\<lparr>po_smilData = None, po_smilIndex = 0, po_par = None, po_parIndex = 0, po_milliseconds = 0\<rparr>"]
    sample_model_facts by fastforce

end
