(* ===== verification/Smil_Init.thy ===== *)
theory Smil_Init
  imports Smil_Model
begin

text \<open>
  \<^verbatim>\<open>MediaOverlaysSmilModel::Initialize\<close> (\<^verbatim>\<open>ePub/media-overlays_smil_model.cpp\<close>): the metadata of the package gives one data
  per spine item, then the SMIL documents are parsed into them; durations of metadata and documents are
  compared and differences are reported to the error handler.  A package is what the functions ask it for: the manifest items
  of its spine items, overlays, durations, and for each SMIL document the elements found by the XPath queries.
\<close>

section \<open>The package\<close>

record smil_element =
  sm_version :: string
  sm_heads :: nat
  sm_bodies :: "xml_node list"

record 'm smil_book = "'m smil_package" +
  pk_spine :: "'m option list"
  pk_MediaOverlay :: "'m \<Rightarrow> 'm option"
  pk_Identifier :: "'m \<Rightarrow> string"
  pk_DurationTotal :: string
  pk_DurationItem :: "'m \<Rightarrow> string"
  pk_Document :: "'m \<Rightarrow> smil_element list option"

record 'm init_state =
  is_next :: nat
  is_exclude :: bool
  is_total :: u32
  is_datas :: "'m SMILData list"

definition resetData :: "'m init_state \<Rightarrow> 'm init_state" where
  "resetData st = st\<lparr>is_total := 0, is_datas := []\<rparr>"

section \<open>Metadata\<close>

definition parse_total :: "handler \<Rightarrow> string \<Rightarrow> 'm smil_book \<Rightarrow> u32 cxx" where
  "parse_total h pos bk = (let s = pk_DurationTotal bk in if s = [] then Inr 0 else
     case ToWholeMilliseconds pos s of
       Inr v \<Rightarrow> Inr v
     | Inl (Throws (Invalid_argument w)) \<Rightarrow>
         bind_cxx (HandleError h (Overlay MediaOverlayInvalidSmilClockValue)
           (''OPF package -- media:duration='' @ s @ '' => invalid SMIL Clock Value syntax ('' @ w @ '')'')) (\<lambda>_. Inr 0)
     | Inl e \<Rightarrow> Inl e)"

definition metadata_item ::
  "handler \<Rightarrow> string \<Rightarrow> 'm smil_book \<Rightarrow> 'm option \<Rightarrow> u32 \<times> bool \<times> nat \<times> 'm SMILData list \<Rightarrow> (u32 \<times> bool \<times> nat \<times> 'm SMILData list) cxx" where
  "metadata_item h pos bk sp s = (case s of (acc, allFake, next, ds) \<Rightarrow>
     bind_cxx (must sp) (\<lambda>m.
       case pk_MediaOverlay bk m of
         None \<Rightarrow> Inr (acc, allFake, Suc next, ds @ [new_SMILData next None (Some m) 0])
       | Some item \<Rightarrow>
          (let dur = pk_DurationItem bk item; data = (\<lambda>v. ds @ [new_SMILData next (Some item) (Some m) v]) in
           if dur = [] then
             bind_cxx (HandleError h (Overlay MediaOverlayMissingDurationMetadata)
               (pk_Href bk item @ '' => missing media:duration metadata'')) (\<lambda>_. Inr (acc, False, Suc next, data 0))
           else case ToWholeMilliseconds pos dur of
             Inr v \<Rightarrow> Inr (acc + v, False, Suc next, data v)
           | Inl (Throws (Invalid_argument w)) \<Rightarrow>
               bind_cxx (HandleError h (Overlay MediaOverlayInvalidSmilClockValue)
                 (pk_Href bk item @ '' -- media:duration='' @ dur @ '' => invalid SMIL Clock Value syntax ('' @ w @ '')''))
                 (\<lambda>_. Inr (acc, False, Suc next, data 0))
           | Inl e \<Rightarrow> Inl e)))"

fun metadata_loop ::
  "handler \<Rightarrow> string \<Rightarrow> 'm smil_book \<Rightarrow> 'm option list \<Rightarrow> u32 \<times> bool \<times> nat \<times> 'm SMILData list \<Rightarrow> (u32 \<times> bool \<times> nat \<times> 'm SMILData list) cxx" where
  "metadata_loop h pos bk [] s = Inr s"
| "metadata_loop h pos bk (sp # sps) s = bind_cxx (metadata_item h pos bk sp s) (metadata_loop h pos bk sps)"

text \<open>A spine item without overlay gets a tree with one parallel that shows its document.\<close>

definition placeholder :: "'m smil_book \<Rightarrow> nat \<Rightarrow> 'm SMILData \<Rightarrow> 'm SMILData" where
  "placeholder bk next d = d\<lparr>sd_root := Some (Seq
     \<lparr>seq_addr = next, seq_type = [], textref_file = [], textref_fragmentID = [], textrefManifestItem = None\<rparr>
     [Par \<lparr>par_addr = Suc next, par_owner = sd_addr d, par_type = [], par_audio = None,
        par_text = Some \<lparr>src_file = (case sd_spineItem d of Some m \<Rightarrow> pk_Href bk m | None \<Rightarrow> []), src_fragmentID = [], srcManifestItem = None\<rparr>\<rparr>])\<rparr>"

fun add_placeholders :: "'m smil_book \<Rightarrow> nat \<Rightarrow> 'm SMILData list \<Rightarrow> nat \<times> 'm SMILData list" where
  "add_placeholders bk next [] = (next, [])"
| "add_placeholders bk next (d # ds) =
     (if sd_manifestItem d \<noteq> None then (case add_placeholders bk next ds of (n, es) \<Rightarrow> (n, d # es))
      else case add_placeholders bk (next + 2) ds of (n, es) \<Rightarrow> (n, placeholder bk next d # es))"

definition check_metadata :: "handler \<Rightarrow> u32 \<Rightarrow> u32 \<Rightarrow> unit cxx" where
  "check_metadata h acc tot =
     (if acc \<noteq> tot then
        (if tot = 0 then HandleError h (Overlay MediaOverlayMissingDurationMetadata) ''OPF package => missing media:duration metadata''
         else HandleError h (Overlay MediaOverlayMismatchDurationMetadata)
           (''Media Overlays metadata duration mismatch (milliseconds): TOTAL '' @ dec (unat tot) @ '' != ACCUMULATED '' @ dec (unat acc)))
      else Inr ())"

definition parseMetadata :: "handler \<Rightarrow> string \<Rightarrow> 'm smil_book \<Rightarrow> 'm init_state \<Rightarrow> 'm init_state cxx" where
  "parseMetadata h pos bk st =
     bind_cxx (parse_total h pos bk) (\<lambda>tot.
     bind_cxx (metadata_loop h pos bk (pk_spine bk) (0, True, is_next st, is_datas st)) (\<lambda>(acc, allFake, next, ds).
     bind_cxx (check_metadata h acc tot) (\<lambda>_.
       if allFake then Inr (st\<lparr>is_total := tot, is_next := next, is_datas := []\<rparr>)
       else case add_placeholders bk next ds of (next, ds) \<Rightarrow> Inr (st\<lparr>is_total := tot, is_next := next, is_datas := ds\<rparr>))))"

section \<open>Documents\<close>

fun find_unfilled :: "('m \<Rightarrow> string) \<Rightarrow> string \<Rightarrow> 'm SMILData list \<Rightarrow> nat option" where
  "find_unfilled Identifier ident [] = None"
| "find_unfilled Identifier ident (d # ds) =
     (if (case sd_manifestItem d of None \<Rightarrow> False | Some i \<Rightarrow> Identifier i = ident \<and> sd_root d = None) then Some 0
      else map_option Suc (find_unfilled Identifier ident ds))"

text \<open>The checks of a document: the body, or the early return of the whole function.\<close>

definition document_body :: "handler \<Rightarrow> 'm smil_book \<Rightarrow> 'm \<Rightarrow> xml_node option cxx" where
  "document_body h bk item = (let href = pk_Href bk item in
     case pk_Document bk item of
       None \<Rightarrow> bind_cxx (HandleError h (Overlay MediaOverlayCannotParseSMILXML) (''Cannot parse XML: '' @ href)) (\<lambda>_. Inl Undefined)
     | Some nodes \<Rightarrow>
        bind_cxx (if nodes = [] then HandleError h (Overlay MediaOverlayInvalidRootElement)
                    ([CHR 0x27] @ ''smil'' @ [CHR 0x27] @ '' root element not found: '' @ href)
                  else if length nodes > 1 then HandleError h (Overlay MediaOverlayInvalidRootElement)
                    (''Multiple '' @ [CHR 0x27] @ ''smil'' @ [CHR 0x27] @ '' root elements found: '' @ href)
                  else Inr ()) (\<lambda>_.
        if length nodes \<noteq> 1 then Inr None
        else let smil = hd nodes in
        bind_cxx (if sm_version smil = [] then HandleError h (Overlay MediaOverlayVersionMissing) (''SMIL version not found: '' @ href)
                  else if sm_version smil \<noteq> ''3.0'' then HandleError h (Overlay MediaOverlayInvalidVersion)
                    (''Invalid SMIL version ('' @ sm_version smil @ ''): '' @ href)
                  else Inr ()) (\<lambda>_.
        if sm_heads smil > 1 then
          bind_cxx (HandleError h (Overlay MediaOverlayHeadIncorrectlyPlaced)
            (''multiple '' @ [CHR 0x27] @ ''head'' @ [CHR 0x27] @ '' elements found: '' @ href)) (\<lambda>_. Inr None)
        else bind_cxx (if sm_bodies smil = [] then HandleError h (Overlay MediaOverlayNoBody)
                    ([CHR 0x27] @ ''body'' @ [CHR 0x27] @ '' element not found: '' @ href)
                  else if length (sm_bodies smil) > 1 then HandleError h (Overlay MediaOverlayMultipleBodies)
                    (''multiple '' @ [CHR 0x27] @ ''body'' @ [CHR 0x27] @ '' elements found: '' @ href)
                  else Inr ()) (\<lambda>_.
          Inr (if length (sm_bodies smil) \<noteq> 1 then None else Some (hd (sm_bodies smil)))))))"

definition book_env :: "handler \<Rightarrow> string \<Rightarrow> 'm smil_book \<Rightarrow> 'm \<Rightarrow> 'm SMILData option \<Rightarrow> 'm smil_env" where
  "book_env h pos bk item data = \<lparr>se_handler = h, se_pos = pos, se_package = smil_package.truncate bk, se_item = item, se_data = data\<rparr>"

definition parse_document ::
  "handler \<Rightarrow> string \<Rightarrow> 'm smil_book \<Rightarrow> 'm \<Rightarrow> xml_node \<Rightarrow> ('m \<rightharpoonup> string) \<Rightarrow> 'm init_state \<Rightarrow> (u32 \<times> ('m \<rightharpoonup> string) \<times> 'm init_state) cxx" where
  "parse_document h pos bk item body paths st =
     (let i = find_unfilled (pk_Identifier bk) (pk_Identifier bk item) (is_datas st) in
      bind_cxx (parseSMIL (book_env h pos bk item (map_option (\<lambda>i. is_datas st ! i) i)) (None, None) body
        \<lparr>ps_next = is_next st, ps_exclude = is_exclude st, ps_paths = paths, ps_items = Map.empty, ps_root = None\<rparr>)
        (\<lambda>(smilDur, _, ps).
      bind_cxx (must i) (\<lambda>i.
        let d = is_datas st ! i; metaDur = sd_duration d in
        bind_cxx (if metaDur \<noteq> smilDur then HandleError h (Overlay MediaOverlayMismatchDurationMetadata)
            (''Media Overlays SMIL duration mismatch (milliseconds): METADATA '' @ dec (unat metaDur) @ '' != SMIL '' @ dec (unat smilDur) @
             '' ('' @ pk_Href bk item @ '')'') else Inr ()) (\<lambda>_.
          Inr (smilDur, ps_paths ps,
            st\<lparr>is_next := ps_next ps, is_exclude := ps_exclude ps, is_datas := (is_datas st)[i := d\<lparr>sd_root := ps_root ps\<rparr>]\<rparr>)))))"

fun smils_loop ::
  "handler \<Rightarrow> string \<Rightarrow> 'm smil_book \<Rightarrow> 'm option list \<Rightarrow> u32 \<Rightarrow> ('m \<rightharpoonup> string) \<Rightarrow> 'm init_state \<Rightarrow> (u32 \<times> 'm init_state) cxx" where
  "smils_loop h pos bk [] acc paths st = Inr (acc, st)"
| "smils_loop h pos bk (sp # sps) acc paths st =
     bind_cxx (must sp) (\<lambda>m. case pk_MediaOverlay bk m of
       None \<Rightarrow> smils_loop h pos bk sps acc paths st
     | Some item \<Rightarrow>
         bind_cxx (document_body h bk item) (\<lambda>b. case b of
           None \<Rightarrow> Inr (0, st)
         | Some body \<Rightarrow> bind_cxx (parse_document h pos bk item body paths st) (\<lambda>(smilDur, paths, st).
             smils_loop h pos bk sps (acc + smilDur) paths st)))"

definition parseSMILs :: "handler \<Rightarrow> string \<Rightarrow> 'm smil_book \<Rightarrow> 'm init_state \<Rightarrow> (u32 \<times> 'm init_state) cxx" where
  "parseSMILs h pos bk st = smils_loop h pos bk (pk_spine bk) 0 Map.empty st"

definition populateData :: "handler \<Rightarrow> string \<Rightarrow> 'm smil_book \<Rightarrow> 'm init_state \<Rightarrow> 'm init_state cxx" where
  "populateData h pos bk st =
     bind_cxx (parseMetadata h pos bk st) (\<lambda>st.
     bind_cxx (parseSMILs h pos bk st) (\<lambda>(fromSMILs, st).
     bind_cxx (if is_total st \<noteq> fromSMILs then HandleError h (Overlay MediaOverlayMismatchDurationMetadata)
         (''Media Overlays total duration mismatch (milliseconds): METADATA '' @ dec (unat (is_total st)) @ '' != SMILs '' @ dec (unat fromSMILs))
       else Inr ()) (\<lambda>_. Inr st)))"

definition Initialize :: "handler \<Rightarrow> string \<Rightarrow> 'm smil_book \<Rightarrow> 'm init_state \<Rightarrow> 'm init_state cxx" where
  "Initialize h pos bk st = populateData h pos bk (resetData st)"

definition model_of :: "'m init_state \<Rightarrow> 'm SmilModel" where
  "model_of st = \<lparr>mo_totalDuration = is_total st, mo_smilDatas = is_datas st\<rparr>"

section \<open>Books that can be read\<close>

text \<open>A clock value that the parser accepts or refuses; huge values leave the range of the cast.\<close>

definition clock_defined :: "string \<Rightarrow> string \<Rightarrow> bool" where
  "clock_defined pos s \<longleftrightarrow> s = [] \<or>
     (case ToWholeMilliseconds pos s of Inr _ \<Rightarrow> True | Inl (Throws (Invalid_argument _)) \<Rightarrow> True | _ \<Rightarrow> False)"

definition overlay_body :: "'m smil_book \<Rightarrow> 'm \<Rightarrow> xml_node option" where
  "overlay_body bk item = (case pk_Document bk item of
     Some [s] \<Rightarrow> (case sm_bodies s of [b] \<Rightarrow> if sm_heads s \<le> 1 then Some b else None | _ \<Rightarrow> None) | _ \<Rightarrow> None)"

definition overlay_good :: "handler \<Rightarrow> string \<Rightarrow> 'm smil_book \<Rightarrow> 'm \<Rightarrow> bool" where
  "overlay_good h pos bk item \<longleftrightarrow> clock_defined pos (pk_DurationItem bk item) \<and>
     (case overlay_body bk item of None \<Rightarrow> False | Some b \<Rightarrow> body_good (book_env h pos bk item None) b)"

definition page_good :: "handler \<Rightarrow> string \<Rightarrow> 'm smil_book \<Rightarrow> 'm \<Rightarrow> bool" where
  "page_good h pos bk m \<longleftrightarrow> (case pk_MediaOverlay bk m of None \<Rightarrow> True | Some item \<Rightarrow> overlay_good h pos bk item)"

text \<open>What a spine item gets: the texts of its overlay, or the one text that shows the document.\<close>

definition page_texts :: "'m smil_book \<Rightarrow> 'm \<Rightarrow> (string \<times> string) list" where
  "page_texts bk m = (case pk_MediaOverlay bk m of None \<Rightarrow> [(pk_Href bk m, [])]
     | Some item \<Rightarrow> (case overlay_body bk item of None \<Rightarrow> [] | Some b \<Rightarrow> doc_texts b))"

definition data_for :: "'m smil_book \<Rightarrow> 'm \<Rightarrow> 'm SMILData \<Rightarrow> bool" where
  "data_for bk m d \<longleftrightarrow> sd_spineItem d = Some m \<and> sd_manifestItem d = pk_MediaOverlay bk m"

definition filled :: "'m smil_book \<Rightarrow> 'm \<Rightarrow> 'm SMILData \<Rightarrow> bool" where
  "filled bk m d \<longleftrightarrow> data_for bk m d \<and> sd_root d \<noteq> None \<and> map par_ref (SD_parallels d) = page_texts bk m \<and>
     distinct (map par_addr (SD_parallels d)) \<and> (\<forall>p \<in> set (SD_parallels d). par_owner p = sd_addr d)"

definition empty_for :: "'m smil_book \<Rightarrow> 'm \<Rightarrow> 'm SMILData \<Rightarrow> bool" where
  "empty_for bk m d \<longleftrightarrow> data_for bk m d \<and> sd_root d = None"

definition pending :: "'m smil_book \<Rightarrow> 'm \<Rightarrow> 'm SMILData \<Rightarrow> bool" where
  "pending bk m d \<longleftrightarrow> (if pk_MediaOverlay bk m = None then filled bk m d else empty_for bk m d)"

lemma pending_simps [simp]:
  "pk_MediaOverlay bk m = None \<Longrightarrow> pending bk m d = filled bk m d"
  "pk_MediaOverlay bk m = Some item \<Longrightarrow> pending bk m d = empty_for bk m d"
  by (simp_all add: pending_def)

lemma clock_cases:
  assumes "clock_defined pos s"
  obtains "s = []" | v where "s \<noteq> []" "ToWholeMilliseconds pos s = Inr v"
  | w where "s \<noteq> []" "ToWholeMilliseconds pos s = Inl (Throws (Invalid_argument w))"
  using assms by (auto simp: clock_defined_def split: sum.splits stop.splits cxx_exn.splits)

section \<open>Initialize\<close>

text \<open>An error handler that answers true to the errors about duration metadata and versions, so that reading goes on.\<close>

definition goes_on :: "handler \<Rightarrow> bool" where
  "goes_on h \<longleftrightarrow> (\<forall>what. list_all (\<lambda>e. h (SpecDetails (new_epub_spec_error (Overlay e) what)) = Inr True)
     [MediaOverlayMissingDurationMetadata, MediaOverlayMismatchDurationMetadata, MediaOverlayInvalidSmilClockValue,
      MediaOverlayVersionMissing, MediaOverlayInvalidVersion])"

lemma tolerated:
  assumes "goes_on h"
  shows "HandleError h (Overlay MediaOverlayMissingDurationMetadata) what = Inr ()"
    "HandleError h (Overlay MediaOverlayMismatchDurationMetadata) what = Inr ()"
    "HandleError h (Overlay MediaOverlayInvalidSmilClockValue) what = Inr ()"
    "HandleError h (Overlay MediaOverlayVersionMissing) what = Inr ()"
    "HandleError h (Overlay MediaOverlayInvalidVersion) what = Inr ()"
  using assms by (simp_all add: goes_on_def HandleError_def DispatchError_def)

lemma parse_total_ok:
  assumes "goes_on h" and "clock_defined pos (pk_DurationTotal bk)"
  obtains v where "parse_total h pos bk = Inr v"
  using assms(2) by (cases rule: clock_cases) (simp_all add: parse_total_def tolerated [OF assms(1)])

lemma metadata_item_ok:
  assumes "goes_on h" and "page_good h pos bk m"
  obtains acc' d where "metadata_item h pos bk (Some m) (acc, fake, next, ds) =
      Inr (acc', fake \<and> pk_MediaOverlay bk m = None, Suc next, ds @ [d])" "empty_for bk m d" "sd_addr d = next"
proof (cases "pk_MediaOverlay bk m")
  case None
  then show ?thesis using that [of acc "new_SMILData next None (Some m) 0"]
    by (simp add: metadata_item_def empty_for_def data_for_def new_SMILData_def)
next
  case (Some item)
  then have c: "clock_defined pos (pk_DurationItem bk item)" using assms by (simp add: page_good_def overlay_good_def)
  let ?d = "new_SMILData next (Some item) (Some m)"
  have e: "empty_for bk m (?d v) \<and> sd_addr (?d v) = next" for v
    using Some by (simp add: empty_for_def data_for_def new_SMILData_def)
  have "\<exists>acc' v. metadata_item h pos bk (Some m) (acc, fake, next, ds) = Inr (acc', False, Suc next, ds @ [?d v])"
    using c Some by (cases rule: clock_cases) (auto simp: metadata_item_def Let_def tolerated [OF assms(1)])
  then show ?thesis using that e Some by auto
qed

lemma metadata_loop_ok:
  assumes "goes_on h" and "\<forall>m \<in> set ms. page_good h pos bk m"
  shows "\<exists>acc' es. metadata_loop h pos bk (map Some ms) (acc, fake, next, ds) =
      Inr (acc', fake \<and> (\<forall>m \<in> set ms. pk_MediaOverlay bk m = None), next + length ms, ds @ es) \<and>
    list_all2 (empty_for bk) ms es \<and> map sd_addr es = [next..<next + length ms]"
  using assms(2)
proof (induction ms arbitrary: acc fake "next" ds)
  case (Cons m ms)
  obtain acc1 d where d: "metadata_item h pos bk (Some m) (acc, fake, next, ds) =
      Inr (acc1, fake \<and> pk_MediaOverlay bk m = None, Suc next, ds @ [d])" "empty_for bk m d" "sd_addr d = next"
    using metadata_item_ok [OF assms(1)] Cons.prems by (metis list.set_intros(1))
  from Cons.IH [of acc1 "fake \<and> pk_MediaOverlay bk m = None" "Suc next" "ds @ [d]"] Cons.prems obtain acc2 es where
    es: "metadata_loop h pos bk (map Some ms) (acc1, fake \<and> pk_MediaOverlay bk m = None, Suc next, ds @ [d]) =
      Inr (acc2, (fake \<and> pk_MediaOverlay bk m = None) \<and> (\<forall>m \<in> set ms. pk_MediaOverlay bk m = None), Suc next + length ms, (ds @ [d]) @ es)"
      "list_all2 (empty_for bk) ms es" "map sd_addr es = [Suc next..<Suc next + length ms]"
    by auto
  show ?case
    by (rule exI [of _ acc2], rule exI [of _ "d # es"]) (use d es in \<open>simp add: upt_rec conj_assoc\<close>)
qed simp

lemma placeholder_addr [simp]: "sd_addr (placeholder bk n d) = sd_addr d"
  by (simp add: placeholder_def)

lemma placeholder_filled:
  assumes "empty_for bk m d" and "pk_MediaOverlay bk m = None"
  shows "filled bk m (placeholder bk n d)"
  using assms by (simp add: empty_for_def filled_def data_for_def placeholder_def SD_parallels_def page_texts_def par_ref_def)

lemma add_placeholders_ok:
  assumes "list_all2 (empty_for bk) ms ds"
  shows "\<exists>n' es. add_placeholders bk n ds = (n', es) \<and> list_all2 (pending bk) ms es \<and> map sd_addr es = map sd_addr ds"
  using assms
proof (induction arbitrary: n rule: list_all2_induct)
  case (Cons m ms d ds)
  have mi: "sd_manifestItem d = pk_MediaOverlay bk m" using Cons.hyps(1) by (simp add: empty_for_def data_for_def)
  show ?case
  proof (cases "pk_MediaOverlay bk m")
    case None
    obtain n' es where "add_placeholders bk (n + 2) ds = (n', es)" "list_all2 (pending bk) ms es" "map sd_addr es = map sd_addr ds"
      using Cons.IH [of "n + 2"] by auto
    then show ?thesis using mi None placeholder_filled [OF Cons.hyps(1) None]
      by simp
  next
    case (Some item)
    obtain n' es where "add_placeholders bk n ds = (n', es)" "list_all2 (pending bk) ms es" "map sd_addr es = map sd_addr ds"
      using Cons.IH [of n] by auto
    then show ?thesis using mi Some Cons.hyps(1) by simp
  qed
qed simp

lemma find_unfilled_skip:
  "\<forall>d \<in> set ds. sd_root d \<noteq> None \<Longrightarrow> sd_manifestItem e = Some i \<Longrightarrow> sd_root e = None \<Longrightarrow>
   find_unfilled Identifier (Identifier i) (ds @ e # es) = Some (length ds)"
  by (induction ds) (auto split: option.splits)

lemma document_body_ok:
  assumes "goes_on h" and "overlay_body bk item = Some b"
  shows "document_body h bk item = Inr (Some b)"
  using assms(2) by (auto simp: overlay_body_def document_body_def Let_def tolerated [OF assms(1)] split: option.splits list.splits if_splits)

lemma parse_document_ok:
  assumes "overlay_body bk item = Some body" and "body_good (book_env h pos bk item None) body"
    and "is_datas st = ds @ d # es" and "\<forall>d \<in> set ds. sd_root d \<noteq> None"
    and "empty_for bk m d" and "pk_MediaOverlay bk m = Some item" and "cache_ok (pk_AbsolutePath bk) paths" and "goes_on h"
  shows "\<exists>dur paths' d' st'. parse_document h pos bk item body paths st = Inr (dur, paths', st') \<and>
    is_datas st' = ds @ d' # es \<and> filled bk m d' \<and> sd_addr d' = sd_addr d \<and> cache_ok (pk_AbsolutePath bk) paths' \<and>
    is_total st' = is_total st \<and> dur = SD_DurationMilliseconds_Calculated d'"
proof -
  let ?env = "book_env h pos bk item (Some d)"
  let ?ps = "\<lparr>ps_next = is_next st, ps_exclude = is_exclude st, ps_paths = paths, ps_items = Map.empty, ps_root = None\<rparr>"
  have d: "sd_spineItem d = Some m" "sd_manifestItem d = Some item" "sd_root d = None"
    using assms(5,6) by (simp_all add: empty_for_def data_for_def)
  have f: "find_unfilled (pk_Identifier bk) (pk_Identifier bk item) (is_datas st) = Some (length ds)"
    unfolding assms(3) by (rule find_unfilled_skip [OF assms(4) d(2,3)])
  have "body_good ?env body" using assms(2) good_cong(5) [of ?env "book_env h pos bk item None" body]
    by (simp add: book_env_def)
  moreover have "ps_ok ?env ?ps" using assms(7) by (simp add: ps_ok_def book_env_def smil_package.truncate_def)
  ultimately obtain dur root ps' where p: "parseSMIL ?env (None, None) body ?ps = Inr (dur, (None, None), ps')" "ps_root ps' = Some root"
      "let sd' = d\<lparr>sd_root := Some root\<rparr> in dur = SD_DurationMilliseconds_Calculated sd' \<and>
        map par_ref (SD_parallels sd') = doc_texts body \<and> fresh_pars d (ps_next ?ps) (ps_next ps') (SD_parallels sd')"
      "ps_ok ?env ps'"
    using parse_body_ok [of ?env body d ?ps] d(1) by (auto simp: book_env_def)
  let ?d = "d\<lparr>sd_root := Some root\<rparr>"
  have "filled bk m ?d"
    using p(3) assms(1,6) d(1,2) by (simp add: filled_def data_for_def page_texts_def fresh_pars_def Let_def)
  moreover have "cache_ok (pk_AbsolutePath bk) (ps_paths ps')"
    using p(4) by (simp add: ps_ok_def book_env_def smil_package.truncate_def)
  ultimately show ?thesis
    using f p(1-3) assms(3)
    by (intro exI [of _ dur] exI [of _ "ps_paths ps'"] exI [of _ ?d]) (simp add: parse_document_def Let_def tolerated [OF assms(8)])
qed

text \<open>The loop over the spine: what is behind the cursor is filled, what lies before it pending.\<close>

lemma smils_loop_ok:
  assumes "goes_on h"
    and "\<forall>m \<in> set ms. page_good h pos bk m" and "is_datas st = ds @ es" and "\<forall>d \<in> set ds. sd_root d \<noteq> None"
    and "list_all2 (pending bk) ms es" and "cache_ok (pk_AbsolutePath bk) paths"
  shows "\<exists>acc' es' st'. smils_loop h pos bk (map Some ms) acc paths st = Inr (acc', st') \<and>
    is_datas st' = ds @ es' \<and> list_all2 (filled bk) ms es' \<and> map sd_addr es' = map sd_addr es \<and> is_total st' = is_total st"
  using assms(2-)
proof (induction ms arbitrary: acc paths st ds es)
  case Nil
  then show ?case by simp
next
  case (Cons m ms)
  obtain e es1 where es: "es = e # es1" "pending bk m e" "list_all2 (pending bk) ms es1"
    using Cons.prems(4) by (auto simp: list_all2_Cons1)
  show ?case
  proof (cases "pk_MediaOverlay bk m")
    case None
    then have f: "filled bk m e" using es(2) by (simp add: pending_def)
    then have "sd_root e \<noteq> None" by (simp add: filled_def)
    then obtain acc' es' st' where "smils_loop h pos bk (map Some ms) acc paths st = Inr (acc', st')"
        "is_datas st' = (ds @ [e]) @ es'" "list_all2 (filled bk) ms es'" "map sd_addr es' = map sd_addr es1" "is_total st' = is_total st"
      using Cons.IH [of st "ds @ [e]" es1 paths acc] Cons.prems es by auto
    then show ?thesis using None f es(1)
      by (intro exI [of _ acc'] exI [of _ "e # es'"] exI [of _ st']) simp
  next
    case (Some item)
    have g: "overlay_good h pos bk item" using Cons.prems(1) Some by (simp add: page_good_def)
    then obtain body where b: "overlay_body bk item = Some body" "body_good (book_env h pos bk item None) body"
      by (auto simp: overlay_good_def split: option.splits)
    have e: "empty_for bk m e" using es(2) Some by (simp add: pending_def)
    obtain dur paths' e' st1 where p: "parse_document h pos bk item body paths st = Inr (dur, paths', st1)"
        "is_datas st1 = ds @ e' # es1" "filled bk m e'" "sd_addr e' = sd_addr e" "cache_ok (pk_AbsolutePath bk) paths'"
        "is_total st1 = is_total st"
      using parse_document_ok [OF b Cons.prems(2) [unfolded es(1)] Cons.prems(3) e Some Cons.prems(5) assms(1)] by blast
    then have "sd_root e' \<noteq> None" by (simp add: filled_def)
    then obtain acc' es' st' where "smils_loop h pos bk (map Some ms) (acc + dur) paths' st1 = Inr (acc', st')"
        "is_datas st' = (ds @ [e']) @ es'" "list_all2 (filled bk) ms es'" "map sd_addr es' = map sd_addr es1" "is_total st' = is_total st1"
      using Cons.IH [of st1 "ds @ [e']" es1 paths' "acc + dur"] Cons.prems es p by auto
    then show ?thesis using Some p es(1) document_body_ok [OF assms(1) b(1)]
      by (intro exI [of _ acc'] exI [of _ "e' # es'"] exI [of _ st']) simp
  qed
qed

lemma filled_wf:
  assumes "list_all2 (filled bk) ms ds" and "distinct (map sd_addr ds)"
  shows "model_wf ds"
proof -
  have "\<exists>m. filled bk m d" if "d \<in> set ds" for d
    using assms(1) that by (metis in_set_conv_nth list_all2_conv_all_nth)
  then show ?thesis using assms(2) by (fastforce simp: model_wf_def filled_def)
qed

lemma filled_maps:
  assumes "list_all2 (filled bk) ms ds"
  shows "map sd_spineItem ds = map Some ms" and "map sd_manifestItem ds = map (pk_MediaOverlay bk) ms"
    and "map (\<lambda>d. map par_ref (SD_parallels d)) ds = map (page_texts bk) ms"
  using assms by (induction rule: list_all2_induct) (simp_all add: filled_def data_for_def)

lemma smils_loop_blank:
  "\<forall>m \<in> set ms. pk_MediaOverlay bk m = None \<Longrightarrow> smils_loop h pos bk (map Some ms) acc paths st = Inr (acc, st)"
  by (induction ms) simp_all

text \<open>C23: A book whose overlays are well formed is opened completely by a client whose error handler goes on after errors in
  the duration metadata: missing, malformed and contradictory durations do not keep it from being read, as long as
  no duration is so large that its conversion to milliseconds is undefined.  When some page has an overlay, the model has one
  data for each spine item, in the order of the spine, with the texts of the overlay in document order, or one
  text for a page without overlay; and it satisfies the invariant on which the searches for positions rest.\<close>

theorem smil_initialize:
  assumes "pk_spine bk = map Some pages" and "\<forall>m \<in> set pages. page_good h pos bk m"
    and "clock_defined pos (pk_DurationTotal bk)" and "goes_on h"
  shows "\<exists>st'. Initialize h pos bk st = Inr st' \<and> model_wf (is_datas st') \<and>
    (if \<forall>m \<in> set pages. pk_MediaOverlay bk m = None then is_datas st' = []
     else map sd_spineItem (is_datas st') = map Some pages \<and> map sd_manifestItem (is_datas st') = map (pk_MediaOverlay bk) pages \<and>
       map (\<lambda>d. map par_ref (SD_parallels d)) (is_datas st') = map (page_texts bk) pages)"
proof -
  obtain tot where tot: "parse_total h pos bk = Inr tot" using parse_total_ok [OF assms(4,3)] .
  obtain acc es where es: "metadata_loop h pos bk (map Some pages) (0, True, is_next st, []) =
      Inr (acc, \<forall>m \<in> set pages. pk_MediaOverlay bk m = None, is_next st + length pages, es)"
      "list_all2 (empty_for bk) pages es" "map sd_addr es = [is_next st..<is_next st + length pages]"
    using metadata_loop_ok [OF assms(4,2), of 0 True "is_next st" "[]"] by auto
  have c: "check_metadata h acc tot = Inr ()" by (simp add: check_metadata_def tolerated [OF assms(4)])
  show ?thesis
  proof (cases "\<forall>m \<in> set pages. pk_MediaOverlay bk m = None")
    case True
    let ?st = "st\<lparr>is_total := tot, is_next := is_next st + length pages, is_datas := []\<rparr>"
    have "Initialize h pos bk st = Inr ?st"
      using True assms(1) tot es(1) c smils_loop_blank [OF True]
      by (simp add: Initialize_def populateData_def parseMetadata_def parseSMILs_def resetData_def tolerated [OF assms(4)])
    then show ?thesis using True by (simp add: model_wf_def)
  next
    case False
    obtain n ds where ds: "add_placeholders bk (is_next st + length pages) es = (n, ds)" "list_all2 (pending bk) pages ds"
        "map sd_addr ds = map sd_addr es"
      using add_placeholders_ok [OF es(2)] by blast
    let ?st = "st\<lparr>is_total := tot, is_next := n, is_datas := ds\<rparr>"
    have p: "parseMetadata h pos bk (resetData st) = Inr ?st"
      using False assms(1) tot es(1) c ds(1) by (auto simp: parseMetadata_def resetData_def)
    obtain acc' fs st' where s: "smils_loop h pos bk (map Some pages) 0 Map.empty ?st = Inr (acc', st')"
        "is_datas st' = fs" "list_all2 (filled bk) pages fs" "map sd_addr fs = map sd_addr ds"
      using smils_loop_ok [OF assms(4), of pages pos bk ?st "[]" ds Map.empty 0] assms(2) ds(2) by auto
    have "Initialize h pos bk st = Inr st'"
      using p s(1) assms(1) by (simp add: Initialize_def populateData_def parseSMILs_def tolerated [OF assms(4)])
    moreover have "model_wf fs" using filled_wf [OF s(3)] s(4) ds(3) es(3) by simp
    ultimately show ?thesis using filled_maps [OF s(3)] s(2) False by auto
  qed
qed

definition sample_book :: "string smil_book" where
  "sample_book = smil_package.extend (se_package smil_sample_env)
     (smil_book.fields [Some ''E/a.xhtml'', Some ''E/b.xhtml'']
       (\<lambda>m. if m = ''E/a.xhtml'' then Some ''E/a.smil'' else None) id ''2x'' (\<lambda>m. [])
       (\<lambda>m. if m = ''E/a.smil'' then Some [\<lparr>sm_version = ''3.0'', sm_heads = 0, sm_bodies = [sample_body]\<rparr>] else None))"

definition blank_init :: "string init_state" where
  "blank_init = \<lparr>is_next = 0, is_exclude = False, is_total = 0, is_datas = []\<rparr>"

lemma sample_book_simps [simp]:
  "pk_spine sample_book = map Some [''E/a.xhtml'', ''E/b.xhtml'']"
  "pk_MediaOverlay sample_book m = (if m = ''E/a.xhtml'' then Some ''E/a.smil'' else None)"
  "pk_DurationTotal sample_book = ''2x''" "pk_DurationItem sample_book m = []" "pk_Href sample_book = id"
  "overlay_body sample_book ''E/a.smil'' = Some sample_body"
  "smil_package.truncate sample_book = se_package smil_sample_env"
  by (simp_all add: sample_book_def smil_package.defs smil_book.defs smil_sample_env_def overlay_body_def)

lemma sample_pages_good: "\<forall>m \<in> set [''E/a.xhtml'', ''E/b.xhtml'']. page_good (\<lambda>_. Inr True) [] sample_book m"
proof -
  have "body_good (book_env (\<lambda>_. Inr True) [] sample_book ''E/a.smil'' None) sample_body = body_good smil_sample_env sample_body"
    by (rule good_cong) (simp_all add: book_env_def smil_sample_env_def)
  then show ?thesis by (simp add: page_good_def overlay_good_def clock_defined_def sample_body_good)
qed

theorem smil_initialize_witness:
  "\<exists>st'. Initialize (\<lambda>_. Inr True) [] sample_book blank_init = Inr st' \<and>
    map (\<lambda>d. map par_ref (SD_parallels d)) (is_datas st') = [[(''a.xhtml'', ''p'')], [(''E/b.xhtml'', [])]]"
proof -
  have d: "doc_texts sample_body = [(''a.xhtml'', ''p'')]" by code_simp
  have c: "clock_defined [] ''2x''" by code_simp
  have "page_texts sample_book ''E/a.xhtml'' = [(''a.xhtml'', ''p'')]" "page_texts sample_book ''E/b.xhtml'' = [(''E/b.xhtml'', [])]"
    by (simp_all add: page_texts_def d)
  moreover have "goes_on (\<lambda>_. Inr True)" by (simp add: goes_on_def)
  ultimately show ?thesis using smil_initialize [OF sample_book_simps(1) sample_pages_good, of blank_init] c by fastforce
qed

end
