(* ===== verification/Spec2Isabelle.thy ===== *)
theory Spec2Isabelle
  imports Zip_Cdir Zip_Rewrite Str_Hash Optional_Value Properties Package Filter_Range Epub_Archive Smil_Init
begin

text \<open>
  \<^bold>\<open>Verification of the Readium SDK\<close> (\<^verbatim>\<open>src/ePub3\<close>), the C++ library that opens EPUB publications, with the copy of
  libzip it reads archives with (\<^verbatim>\<open>src/ePub3/ThirdParty/libzip\<close>).

  \<^bold>\<open>The program.\<close>  A publication is a ZIP archive.  libzip finds the central directory at the end of the file,
  keeps a table of entries that a client edits, opens members for reading, and writes a changed archive to a temporary
  file that replaces the old one.  \<^verbatim>\<open>ePub/zip_archive.cpp\<close> wraps it in the
  class of archives; a member becomes a \<^verbatim>\<open>ByteStream\<close>, and the reader of a publication gets the bytes through a chain of
  content filters (font obfuscation among them), which the filter registry orders by priority.  Content fragment
  identifiers address places in the documents; media overlays synchronise text with audio clips; error codes
  and their handler decide which violations of the specification stop the library.  Strings, hashes, optional
  values, ring and byte buffers are the utilities the rest is made of.

  \<^bold>\<open>Conventions.\<close>  Each theory follows a source file or a group of them, with the names of the source.  Machine
  integers are words; blocks of memory are byte lists with checked access.  A libzip call returns \<open>'a res\<close>, whose
  left side is a libzip error or \<open>UB\<close>; C++ code returns \<open>'a cxx\<close>, whose left side is a thrown exception or \<open>Undefined\<close>;
  so a theorem whose result is \<open>Inr\<close> also says that no access left its block.  A loop that may not end is a
  \<^theory_text>\<open>partial_function\<close> into an option (\<open>'a run\<close>): \<open>inflate_loop\<close>, \<open>zip_fseek_by_reading\<close>, \<open>parse_loop\<close>, \<open>cfi_split\<close>,
  \<open>read_all_loop\<close>, \<open>cache_loop\<close>, \<open>Spine_Count\<close>, \<open>Spine_Index\<close>, \<open>skip_nonlinear\<close>, \<open>idref_loop\<close>, \<open>fallback_walk\<close>,
  \<open>content_doc_loop\<close>, \<open>read_zip_skip\<close>, \<open>add_data_comp_loop\<close>, \<open>deflate_loop\<close>, \<open>ContainsProperty\<close>,
  \<open>PropertyMatching\<close>, \<open>PropertiesMatching\<close>, \<open>MakePropertyIRI\<close>; that they return, for the inputs on which they do, is a
  theorem, with no fuel anywhere.  All other loops are recursive
  functions with a termination proof.

  \<^bold>\<open>Theories.\<close>
  \<^item> \<open>Prelude\<close>: words, results, memory, little-endian codes; the interfaces \<open>codec\<close> and \<open>three_way\<close>.
  \<^item> \<open>Stdio\<close>, \<open>Iostream\<close>, \<open>Ieee_Double\<close>: what the sources use of the C and C++ libraries (\<^verbatim>\<open>FILE\<close>, \<^verbatim>\<open>istringstream\<close>, \<^verbatim>\<open>double\<close>).
  \<^item> \<open>Zip_Base\<close>, \<open>Zip_Dirent\<close>, \<open>Zip_Cdir\<close>, \<open>Zip_Archive\<close>, \<open>Zip_File\<close>: libzip. Errors (\<^verbatim>\<open>zip_error.c\<close>), directory entries (\<^verbatim>\<open>zip_dirent.c\<close>),
    finding and checking the directory (\<^verbatim>\<open>zip_open.c\<close>), the entry table and all operations that edit it, reading of
    members (\<^verbatim>\<open>zip_fopen_index.c\<close>, \<^verbatim>\<open>zip_fread.c\<close>, \<^verbatim>\<open>zip_fseek.c\<close>).  Shown: what is written is read back, nothing is read outside
    the buffer, the edits refine a table of names (interface \<open>slot_table\<close>), stored members are delivered exactly.
  \<^item> \<open>Zip_Source\<close>, \<open>Zip_Write\<close>, \<open>Zip_Close\<close>, \<open>Zip_Open\<close>, \<open>Zip_Rewrite\<close>: the writing half of libzip, and \<open>zip_open\<close>. Sources of data (\<^verbatim>\<open>zip_source_buffer.c\<close>,
    \<^verbatim>\<open>zip_source_filep.c\<close>, \<^verbatim>\<open>zip_source_zip.c\<close>) as callbacks, with the interface \<open>data_source\<close> interpreted on all three; adding, deflating
    and copying of data; \<open>zip_close\<close> with all its failures (\<^verbatim>\<open>zip_close.c\<close>, \<^verbatim>\<open>zip_free.c\<close>).  Shown: the loops end, a failing
    \<open>zip_close\<close> leaves no trace, after a successful one \<open>zip_open\<close> finds every surviving entry with its data, and what \<open>zip_open\<close>
    returns is the state from which the editing theorems start.
  \<^item> \<open>String_View\<close>, \<open>Str_Hash\<close>, \<open>Optional_Value\<close>, \<open>Ring_Buffer\<close>, \<open>Byte_Buffer\<close>: \<^verbatim>\<open>utilities/string_view.h\<close>, \<^verbatim>\<open>__strhash.h\<close>, \<^verbatim>\<open>optional.h\<close>,
    \<^verbatim>\<open>ring_buffer\<close>, \<^verbatim>\<open>byte_buffer\<close>.  Shown: searches and comparisons against their specification, termination and bounds of
    the hashes, refinement of options (for elements that do not throw; with those that do, assignment keeps the lifetimes in order and the copy constructor does
    not), queues (interface \<open>byte_queue\<close>) and byte lists (for an allocator that grants positive requests).
  \<^item> \<open>Utf_String\<close>, \<open>Iri\<close>: \<^verbatim>\<open>utilities/utfstring\<close> and \<^verbatim>\<open>utilities/iri\<close>.  Shown: on well-encoded text the string class works on the
    sequence of characters (no search stops inside a character), and a content fragment identifier that is set on an IRI is
    read back from it when the URL has one of the schemes for which google-url keeps fragments; the canonical form of fragments
    (\<^verbatim>\<open>url_canon_etc.cc\<close>) and the list of schemes are modelled, the rest of that library is a parameter.
  \<^item> \<open>Properties\<close>: \<^verbatim>\<open>ePub/property\<close>, \<^verbatim>\<open>ePub/property_holder\<close>, \<^verbatim>\<open>ePub/property_extension\<close>, objects in a store by address.  Shown: every
    lookup along a chain of parents that ends returns, and works on the inherited properties and the nearest vocabulary.
  \<^item> \<open>Error_Table\<close>, \<open>EPUB_Error\<close>: \<^verbatim>\<open>utilities/error_handler\<close> and \<^verbatim>\<open>error_lookup_table.cpp\<close>.
  \<^item> \<open>Cfi_Component\<close>, \<open>Cfi\<close>: \<^verbatim>\<open>ePub/cfi\<close>.  Shown: printing and parsing round trip, appending, and the inputs on which the
    parser does not end.
  \<^item> \<open>Byte_Stream\<close>, \<open>File_Stream\<close>: \<^verbatim>\<open>utilities/byte_stream\<close> with the interfaces \<open>byte_source\<close> and \<open>random_access\<close>, interpreted on
    ZIP members and files.
  \<^item> \<open>Content_Filter\<close>, \<open>Builtin_Filters\<close>, \<open>Filter_Manager\<close>, \<open>Filter_Chain\<close>, \<open>Filter_Range\<close>: \<^verbatim>\<open>ePub/filter.h\<close>, \<^verbatim>\<open>font_obfuscation\<close>,
    \<^verbatim>\<open>PassThroughFilter\<close>, \<^verbatim>\<open>filter_manager\<close>, \<^verbatim>\<open>filter_chain\<close>, \<^verbatim>\<open>filter_chain_byte_stream\<close> and its range version.  Shown: a filtered stream
    delivers the composition of its filters (interfaces \<open>plain_filter\<close> and \<open>seekable_source\<close>), ranges are exact.
  \<^item> \<open>Epub_Archive\<close>: \<^verbatim>\<open>ePub/archive\<close>, \<^verbatim>\<open>ePub/zip_archive\<close>.
  \<^item> \<open>Smil_Data\<close>, \<open>Smil_Clock\<close>, \<open>Smil_Path\<close>, \<open>Smil_Parse\<close>, \<open>Smil_Model\<close>, \<open>Smil_Init\<close>: media overlays, \<^verbatim>\<open>ePub/media-overlays_smil_*\<close>.  The tree of an
    overlay with its recursive searches, compared with the list of its parallels; clock values with IEEE
    rounding; the resolution of references against the overlay's folder; the parser of SMIL bodies with all its
    error paths; the queries by time and by percentage over all documents; the
    initialisation of the model from the metadata and the documents of a book.
  \<^item> \<open>Spine\<close>, \<open>Manifest\<close>, \<open>Package\<close>: \<^verbatim>\<open>ePub/spine.cpp\<close>, \<^verbatim>\<open>ePub/manifest.cpp\<close>, \<^verbatim>\<open>ePub/package.cpp\<close>.  The spine is a doubly linked list in a
    store and refines a sequence; the manifest is a table with fallback chains, whose check accepts exactly the tables without
    circles; unpacking builds both from the elements of the package document; fragment identifiers made for spine items lead back to
    their manifest items.
  \<^item> this theory: the path of an obfuscated font from the archive to the reader.

  \<^bold>\<open>Parameters.\<close>  Code outside the repository's own sources is an argument: zlib (\<open>inflate\<close>, \<open>deflate\<close>, \<open>crc32\<close>), the file system
  (\<open>os\<close>, \<open>fsys\<close>), \<open>qsort\<close>, the allocator
  (\<open>lib\<close>, \<open>heap_env\<close>), float formatting (\<open>float_lib\<close>), the URL library (\<open>gurl\<close>; of it only the fragments are modelled), the UTF-8 iterators (\<open>advance\<close>, \<open>decode\<close>), SHA-1, URL unescaping, the installed error handler, the
  installed package (paths and media types of its items).  Hypotheses
  on them state their documented behaviour, and each property with hypotheses has a witness that satisfies them.

  \<^bold>\<open>Not modelled.\<close>  Permissions of the rewritten archive and the replacement of \<^verbatim>\<open>mkstemp\<close> for Visual C++; the asynchronous
  streams under \<^verbatim>\<open>SUPPORT_ASYNC\<close>, which the builds do not define; the filters that rewrite markup with \<^verbatim>\<open>std::regex\<close>; futures
  and platform run loops (threads and condition variables); the reading of the metadata, navigation tables and media handlers of a package, which are
  read from XML with XPath; the members of \<^verbatim>\<open>ePub3::string\<close> that iterate with the \<^verbatim>\<open>utf8\<close> library or convert to wide strings; wrappers of libxml2; platform glue.
\<close>

section \<open>From the archive to the reader\<close>

text \<open>Opening a stored member by its path.\<close>

lemma ByteStreamAtPath_stored:
  assumes "za_cdir za = Some cd" and "i < length (cd_entry cd)" and "za_zp za = Some fp" and "malloc_total lib"
    and "i < length (za_entry za)" and "\<not> entry_data_changed (za_entry za ! i)"
    and "member_at lib fp (unat (zde_offset (cd_entry cd ! i))) lde data"
    and "zde_comp_method (cd_entry cd ! i) = ZIP_CM_STORE"
    and "unat (zde_comp_size (cd_entry cd ! i)) = length data"
    and "zde_crc (cd_entry cd ! i) = z_crc32 z (z_crc32 z 0 []) data" and "crc_running z"
    and "locate za (item_name unescape path) = int i"
  obtains input where "ByteStreamAtPath lib z unescape za path = Inr input" and "zb_stored z input" and "zb_rest input = data"
proof -
  obtain e where l: "zip_name_locate za (Some (item_name unescape path)) 0 = (Inr (int i), za\<lparr>za_error := e\<rparr>)"
    using zip_name_locate_0 [of za "item_name unescape path"] assms(12) by auto
  let ?za = "za\<lparr>za_error := e\<rparr>"
  obtain zf za' fp' where o: "zip_fopen_index lib z ?za (int i) 0 = (Inr (Some zf), za')" "za_zp za' = Some fp'"
      "stored_at zf fp' data" "zf_crc zf = z_crc32 z 0 []" "zf_crc_orig zf = zde_crc (cd_entry cd ! i)"
    using zip_fopen_index_stored [of ?za cd i fp lib lde data z 0] assms by auto
  define input where "input = (new_ZipFileByteStream za)\<lparr>zb_file := Some zf, zb_za := za'\<rparr>"
  have rest: "zb_rest input = data" using o(3) by (rule stored_at_rest) (simp_all add: input_def o(2))
  have f: "zb_file input = Some zf" "za_zp (zb_za input) = Some fp'" "\<not> zb_eof input"
    by (simp_all add: input_def o(2) new_ZipFileByteStream_def)
  have "crc_fits z zf data" using o(4,5) assms(10) by (simp add: crc_fits_def)
  then have "zb_stored z input" unfolding zb_stored_def rest f using o(3) assms(11) f(3) by simp
  moreover have "ByteStreamAtPath lib z unescape za path = Inr input"
    using l o(1)
    by (simp add: ByteStreamAtPath_def Zip_Open_def Zip_Close_def new_ZipFileByteStream_def zip_fopen_def zb_of_res_def
      item_name_def input_def Let_def)
  ultimately show ?thesis using rest that by blast
qed

text \<open>C6: an obfuscated font reaches the reader in clear. If the archive stores, under the item's path, the font obfuscated
  with the key of the publication, the registry's factory has made the obfuscation filter, and it is the
  filter that applies to the item, then opening the item and reading it through the filter chain,
  in pieces of any sizes, returns the bytes of the font itself.\<close>

theorem obfuscated_font_read:
  fixes fs :: "(item_view, 'c, ('s, 'u) ZipFileByteStream) ContentFilter list"
  assumes "za_cdir za = Some cd" and "i < length (cd_entry cd)" and "za_zp za = Some fp" and "malloc_total lib"
    and "i < length (za_entry za)" and "\<not> entry_data_changed (za_entry za ! i)"
    and "member_at lib fp (unat (zde_offset (cd_entry cd ! i))) lde data"
    and "zde_comp_method (cd_entry cd ! i) = ZIP_CM_STORE"
    and "unat (zde_comp_size (cd_entry cd ! i)) = length data"
    and "zde_crc (cd_entry cd ! i) = z_crc32 z (z_crc32 z 0 []) data" and "crc_running z"
    and "locate za (item_name unescape path) = int i"
    and "FontObfuscatorFactory sha1 avail algorithms ids = Some f" and "filter (\<lambda>f. TypeSniffer f item) fs = [f]"
    and "data = obfuscate (BuildKey sha1 ids) 0 font" and "font \<noteq> []" and "env_ok env" and "\<forall>n \<in> set ns. 0 < n"
  shows "\<exists>input st st'. ByteStreamAtPath lib z unescape za path = Inr input \<and>
    GetFilterChainByteStream fs item input = Inr st \<and>
    chain_reads (zip_stream_ops lib z) env g st ns = Some (Inr (take (sum_list ns) font, st'))"
proof -
  let ?key = "BuildKey sha1 ids"
  have f: "f = FontObfuscator ?key avail" using assms(13) by (simp add: FontObfuscatorFactory_def split: if_splits)
  obtain input where i: "ByteStreamAtPath lib z unescape za path = Inr input" "zb_stored z input" "zb_rest input = data"
    by (rule ByteStreamAtPath_stored [OF assms(1-12)])
  let ?specs = "[(font_context, font_out ?key)] :: 'c filter_spec list"
  have pc: "plain_chain [f] ?specs" by (simp add: plain_chain_def f font.plain_filter_axioms)
  obtain st where st: "new_FilterChainByteStream input [f] item = Inr st" "zip_chain.fresh z ?specs st"
      "m_filterContexts st = map (\<lambda>f. InnerMakeFilterContext f item) [f]" "f_input st = input"
    by (rule new_stream_fresh [OF pc i(2)])
  have "data \<noteq> []" using assms(15,16) by (metis length_0_conv length_obfuscate)
  then have "delivered ?specs (m_filterContexts st) (zb_rest (f_input st)) = font"
    using assms(15,16)
    by (simp add: delivered_def st(3,4) i(3) f FontObfuscator_def font_out_def result_bytes_def obfuscate_twice)
  with zip_chain.fresh_reads [OF st(2) assms(17,18), of lib g] i(1) st(1) assms(14) show ?thesis
    by (auto simp: GetFilterChainByteStream_def)
qed

theorem obfuscated_font_read_witness:
  "\<exists>input st st'. ByteStreamAtPath sample_lib (raw_zlib 0) id stored_zip [0x61, 0x62] = Inr input \<and>
    GetFilterChainByteStream [FontObfuscator sample_key Zip_BytesAvailable ::
        (item_view, unit, (nat, unit) ZipFileByteStream) ContentFilter]
      \<lparr>iv_algorithm = Some FontObfuscationAlgorithmID, iv_mediaType = ''font/ttf''\<rparr> input = Inr st \<and>
    chain_reads (zip_stream_ops sample_lib (raw_zlib 0)) sample_env False st [1, 5] = Some (Inr ([6, 10, 10], st'))"
proof -
  let ?cd = "\<lparr>cd_entry = [stored_dirent], cd_size = 0, cd_offset = 35, cd_comment = None, cd_comment_len = 0\<rparr>"
  let ?f = "FontObfuscator sample_key Zip_BytesAvailable :: (item_view, unit, (nat, unit) ZipFileByteStream) ContentFilter"
  let ?item = "\<lparr>iv_algorithm = Some FontObfuscationAlgorithmID, iv_mediaType = ''font/ttf''\<rparr>"
  have a: "za_cdir stored_zip = Some ?cd" "0 < length (cd_entry ?cd)" "za_zp stored_zip = Some stored_file"
    "0 < length (za_entry stored_zip)" "\<not> entry_data_changed (za_entry stored_zip ! 0)"
    "zde_comp_method (cd_entry ?cd ! 0) = ZIP_CM_STORE"
    "unat (zde_comp_size (cd_entry ?cd ! 0)) = length [7, 8, 9 :: byte]"
    "zde_crc (cd_entry ?cd ! 0) = z_crc32 (raw_zlib 0) (z_crc32 (raw_zlib 0) 0 []) [7, 8, 9]"
    "member_at sample_lib stored_file (unat (zde_offset (cd_entry ?cd ! 0))) stored_dirent [7, 8, 9]"
    using stored_member
    by (simp_all add: stored_zip_def entry_data_changed_def fresh_entry_def stored_dirent_def raw_zlib_def)
  have "cur_names stored_zip = [Some [0x61, 0x62]]"
    by (simp add: cur_names_def cur_name_def stored_zip_def zip_get_name_e_def fresh_entry_def stored_dirent_def
      sample_dirent_def cdir_nentry_def Let_def)
  then have l: "locate stored_zip (item_name id [0x61, 0x62]) = int 0"
    by (simp add: locate_first item_name_def Sanitized_def strip_slash_def c_str_def)
  have "FontTypeSniffer ?item" by code_simp
  then have fl: "filter (\<lambda>f. TypeSniffer f ?item) [?f] = [?f]" by (simp add: FontObfuscator_def)
  have fac: "FontObfuscatorFactory (\<lambda>_. sample_key) Zip_BytesAvailable [FontObfuscationAlgorithmID] [] = Some ?f"
    by (simp add: FontObfuscatorFactory_def BuildKey_def)
  have ob: "[7, 8, 9] = obfuscate (BuildKey (\<lambda>_. sample_key) []) 0 [6, 10, 10]"
    unfolding BuildKey_def by code_simp
  show ?thesis
    using obfuscated_font_read [OF a(1-3) malloc_total_sample a(4,5,9,6,7,8) crc_running_raw l fac fl ob _ env_ok_sample,
        of "[1, 5]" False] by simp
qed

end
